(* ===== verification/Prelude.thy ===== *)
theory Prelude
  imports Main "HOL-Library.Word" "HOL-Library.List_Lexorder" "HOL-Library.Char_ord"
    "HOL-Library.FSet" "HOL-Library.Finite_Map" "HOL-Library.Multiset"
    "HOL-Library.Product_Lexorder"
begin

text \<open>
  Shared vocabulary of the development: the machine integer types of the source, Rust's checked and
  saturating arithmetic on them, the error monad behind the question-mark operator, and the list
  lemmas every component uses.  A \<open>usize\<close> that counts or indexes a collection is a
  \<open>nat\<close>; where the code converts such a value to a fixed width (\<open>u64::try_from\<close>),
  the conversion is written out with its failure branch.
\<close>

named_theorems result_simps \<open>rewrite rules for the error monad\<close>
named_theorems unat_simps \<open>rules that move machine arithmetic to natural numbers\<close>

section \<open>Machine integers\<close>

type_synonym byte = "8 word"
type_synonym u32 = "32 word"
type_synonym u64 = "64 word"
type_synonym u128 = "128 word"
type_synonym usize = nat

definition u64_max :: nat where
  "u64_max = 2 ^ 64 - 1"

definition usize_max :: nat where
  "usize_max = 2 ^ 64 - 1"

definition checked_add :: "'a::len word \<Rightarrow> 'a word \<Rightarrow> 'a word option" where
  "checked_add a b = (if unat a + unat b < 2 ^ LENGTH('a) then Some (a + b) else None)"

definition checked_sub :: "'a::len word \<Rightarrow> 'a word \<Rightarrow> 'a word option" where
  "checked_sub a b = (if b \<le> a then Some (a - b) else None)"

definition checked_mul :: "'a::len word \<Rightarrow> 'a word \<Rightarrow> 'a word option" where
  "checked_mul a b = (if unat a * unat b < 2 ^ LENGTH('a) then Some (a * b) else None)"

definition saturating_add :: "'a::len word \<Rightarrow> 'a word \<Rightarrow> 'a word" where
  "saturating_add a b = (if unat a + unat b < 2 ^ LENGTH('a) then a + b else - 1)"

definition saturating_sub :: "'a::len word \<Rightarrow> 'a word \<Rightarrow> 'a word" where
  "saturating_sub a b = (if b \<le> a then a - b else 0)"

definition saturating_mul :: "'a::len word \<Rightarrow> 'a word \<Rightarrow> 'a word" where
  "saturating_mul a b = (if unat a * unat b < 2 ^ LENGTH('a) then a * b else - 1)"

text \<open>\<open>u64::try_from\<close> on a length, \<open>u32::try_from\<close> on a wider value.\<close>

definition u64_of_usize :: "usize \<Rightarrow> u64 option" where
  "u64_of_usize n = (if n < 2 ^ 64 then Some (of_nat n) else None)"

definition u32_of_u64 :: "u64 \<Rightarrow> u32 option" where
  "u32_of_u64 x = (if unat x < 2 ^ 32 then Some (ucast x) else None)"

definition u32_of_u128 :: "u128 \<Rightarrow> u32 option" where
  "u32_of_u128 x = (if unat x < 2 ^ 32 then Some (ucast x) else None)"

definition usize_of_u128 :: "u128 \<Rightarrow> usize option" where
  "usize_of_u128 x = (if unat x \<le> usize_max then Some (unat x) else None)"

definition unwrap_or :: "'a \<Rightarrow> 'a option \<Rightarrow> 'a" where
  "unwrap_or d x = (case x of None \<Rightarrow> d | Some v \<Rightarrow> v)"

lemma unwrap_or_simps [simp]: "unwrap_or d None = d" "unwrap_or d (Some v) = v"
  by (simp_all add: unwrap_or_def)

lemma unat_word_add_lt: "unat a + unat b < 2 ^ LENGTH('a) \<Longrightarrow> unat (a + b :: 'a::len word) = unat a + unat b"
  by (simp add: unat_word_ariths)

lemma unat_word_mult_lt: "unat a * unat b < 2 ^ LENGTH('a) \<Longrightarrow> unat (a * b :: 'a::len word) = unat a * unat b"
  by (simp add: unat_word_ariths)

lemma checked_add_Some [unat_simps]:
  "checked_add a b = Some c \<longleftrightarrow> unat a + unat b < 2 ^ LENGTH('a) \<and> c = a + (b :: 'a::len word)"
  by (auto simp: checked_add_def)

lemma checked_add_SomeD: "checked_add a b = Some c \<Longrightarrow> unat c = unat a + unat b"
  by (auto simp: checked_add_def unat_word_add_lt split: if_splits)

lemma checked_sub_SomeD: "checked_sub a b = Some c \<Longrightarrow> unat b \<le> unat a \<and> unat c = unat a - unat b"
  by (auto simp: checked_sub_def unat_sub word_le_nat_alt split: if_splits)

lemma checked_mul_SomeD: "checked_mul a b = Some c \<Longrightarrow> unat c = unat a * unat b"
  by (auto simp: checked_mul_def unat_word_mult_lt split: if_splits)

lemma checked_add_None: "checked_add (a :: 'a::len word) b = None \<longleftrightarrow> 2 ^ LENGTH('a) \<le> unat a + unat b"
  by (auto simp: checked_add_def)

lemma checked_sub_None: "checked_sub a b = None \<longleftrightarrow> unat a < unat b"
  by (auto simp: checked_sub_def word_le_nat_alt)

lemma unat_minus_one_word: "unat (- 1 :: 'a::len word) = 2 ^ LENGTH('a) - 1"
  by (simp add: unsigned_minus_1_eq_mask mask_eq_exp_minus_1)

lemma unat_saturating_add [unat_simps]:
  "unat (saturating_add a b :: 'a::len word) = min (unat a + unat b) (2 ^ LENGTH('a) - 1)"
  by (auto simp: saturating_add_def unat_word_add_lt unat_minus_one_word)

lemma unat_saturating_sub [unat_simps]:
  "unat (saturating_sub a b :: 'a::len word) = unat a - unat b"
  by (auto simp: saturating_sub_def unat_sub word_le_nat_alt)

lemma unat_saturating_mul [unat_simps]:
  "unat (saturating_mul a b :: 'a::len word) = min (unat a * unat b) (2 ^ LENGTH('a) - 1)"
  by (auto simp: saturating_mul_def unat_word_mult_lt unat_minus_one_word)

lemma unat_min [unat_simps]: "unat (min a b :: 'a::len word) = min (unat a) (unat b)"
  by (simp add: min_def word_le_nat_alt)

lemma unat_ucast_up [unat_simps]:
  "LENGTH('a::len) \<le> LENGTH('b::len) \<Longrightarrow> unat (ucast (x :: 'a word) :: 'b word) = unat x"
  by (simp add: unsigned_ucast_eq take_bit_nat_eq_self_iff)
    (meson less_le_trans one_le_numeral power_increasing unsigned_less)

lemma unat_u64_bound: "unat (x :: u64) < 2 ^ 64"
  using unsigned_less [of x, where ?'a = nat] by simp

lemma unat_u32_bound: "unat (x :: u32) < 2 ^ 32"
  using unsigned_less [of x, where ?'a = nat] by simp

lemma unat_ucast_u32_u64 [simp]: "unat (ucast (x :: u32) :: u64) = unat x"
  by (rule unat_ucast_up) simp

lemma unat_ucast_u32_u128 [simp]: "unat (ucast (x :: u32) :: u128) = unat x"
  by (rule unat_ucast_up) simp

lemma unat_ucast_u64_u128 [simp]: "unat (ucast (x :: u64) :: u128) = unat x"
  by (rule unat_ucast_up) simp

lemma u64_of_usize_Some: "u64_of_usize n = Some x \<longleftrightarrow> n < 2 ^ 64 \<and> x = of_nat n"
  by (auto simp: u64_of_usize_def)

lemma u64_of_usize_SomeD: "u64_of_usize n = Some x \<Longrightarrow> unat x = n"
  by (auto simp: u64_of_usize_def unat_of_nat split: if_splits)

lemma unat_of_nat_u64: "n < 2 ^ 64 \<Longrightarrow> unat (of_nat n :: u64) = n"
  by (simp add: unat_of_nat)

lemma of_nat_u64_pos: "0 < n \<Longrightarrow> n < 2 ^ 64 \<Longrightarrow> (0 :: u64) < of_nat n"
  by (simp add: word_less_nat_alt unat_of_nat)

lemma u64_of_usize_unat [simp]: "u64_of_usize (unat (x :: u64)) = Some x"
  using unat_u64_bound [of x] by (simp add: u64_of_usize_def)


section \<open>The error monad\<close>

text \<open>
  A \<open>Result\<close> is a sum: \<open>Inl\<close> is \<open>Err\<close>, \<open>Inr\<close> is \<open>Ok\<close>.  \<open>bindr\<close> is the question-mark
  operator, \<open>traverse\<close> is \<open>map\<close> followed by \<open>collect\<close> into a \<open>Result\<close>, \<open>try_fold\<close> and
  \<open>try_each\<close> are a fold and a loop that stop at the first error.
\<close>

definition bindr :: "'e + 'a \<Rightarrow> ('a \<Rightarrow> 'e + 'b) \<Rightarrow> 'e + 'b" where
  "bindr m f = (case m of Inl e \<Rightarrow> Inl e | Inr x \<Rightarrow> f x)"

definition ok_or :: "'e \<Rightarrow> 'a option \<Rightarrow> 'e + 'a" where
  "ok_or e x = (case x of None \<Rightarrow> Inl e | Some v \<Rightarrow> Inr v)"

fun traverse :: "('a \<Rightarrow> 'e + 'b) \<Rightarrow> 'a list \<Rightarrow> 'e + 'b list" where
  "traverse f [] = Inr []"
| "traverse f (x # xs) = bindr (f x) (\<lambda>y. bindr (traverse f xs) (\<lambda>ys. Inr (y # ys)))"

fun try_fold :: "('s \<Rightarrow> 'a \<Rightarrow> 'e + 's) \<Rightarrow> 's \<Rightarrow> 'a list \<Rightarrow> 'e + 's" where
  "try_fold f s [] = Inr s"
| "try_fold f s (x # xs) = bindr (f s x) (\<lambda>s'. try_fold f s' xs)"

fun try_each :: "('a \<Rightarrow> 'e + unit) \<Rightarrow> 'a list \<Rightarrow> 'e + unit" where
  "try_each f [] = Inr ()"
| "try_each f (x # xs) = bindr (f x) (\<lambda>_. try_each f xs)"

lemma bindr_simps [simp]: "bindr (Inl e) f = Inl e" "bindr (Inr x) f = f x"
  by (simp_all add: bindr_def)

lemma bindr_Inr [result_simps]: "bindr m f = Inr y \<longleftrightarrow> (\<exists>x. m = Inr x \<and> f x = Inr y)"
  by (cases m) simp_all

lemma bindr_Inl: "bindr m f = Inl e \<longleftrightarrow> m = Inl e \<or> (\<exists>x. m = Inr x \<and> f x = Inl e)"
  by (cases m) simp_all

lemma bindr_assoc: "bindr (bindr m f) g = bindr m (\<lambda>x. bindr (f x) g)"
  by (cases m) simp_all

lemma bindr_cong [fundef_cong]:
  "m = m' \<Longrightarrow> (\<And>x. m' = Inr x \<Longrightarrow> f x = g x) \<Longrightarrow> bindr m f = bindr m' g"
  by (cases m') auto

lemma ok_or_simps [simp]: "ok_or e None = Inl e" "ok_or e (Some v) = Inr v"
  by (simp_all add: ok_or_def)

lemma ok_or_Inr [result_simps]: "ok_or e x = Inr v \<longleftrightarrow> x = Some v"
  by (cases x) simp_all

lemma ok_or_Inl [result_simps]: "ok_or e x = Inl e' \<longleftrightarrow> x = None \<and> e' = e"
  by (cases x) auto

lemma if_Inl_Inr [result_simps]: "(if b then Inl e else m) = Inr y \<longleftrightarrow> \<not> b \<and> m = Inr y"
  by simp

lemma traverse_cong [fundef_cong]:
  "xs = ys \<Longrightarrow> (\<And>x. x \<in> set ys \<Longrightarrow> f x = g x) \<Longrightarrow> traverse f xs = traverse g ys"
  by (induction ys arbitrary: xs) auto

lemma traverse_Inr_list_all2:
  "traverse f xs = Inr ys \<longleftrightarrow> list_all2 (\<lambda>x y. f x = Inr y) xs ys"
  by (induction xs arbitrary: ys) (auto simp: list_all2_Cons1 result_simps)

lemma traverse_length: "traverse f xs = Inr ys \<Longrightarrow> length ys = length xs"
  by (auto simp: traverse_Inr_list_all2 dest: list_all2_lengthD)

lemma traverse_nth:
  "traverse f xs = Inr ys \<Longrightarrow> i < length xs \<Longrightarrow> f (xs ! i) = Inr (ys ! i)"
  by (auto simp: traverse_Inr_list_all2 list_all2_conv_all_nth)

lemma traverse_pure [simp]: "traverse (\<lambda>x. Inr (f x)) xs = Inr (map f xs)"
  by (induction xs) auto

lemma traverse_map_Inr: "(\<And>x. x \<in> set xs \<Longrightarrow> f x = Inr (g x)) \<Longrightarrow> traverse f xs = Inr (map g xs)"
  by (induction xs) auto

lemma traverse_append:
  "traverse f (xs @ ys) = bindr (traverse f xs) (\<lambda>as. bindr (traverse f ys) (\<lambda>bs. Inr (as @ bs)))"
proof (induction xs)
  case Nil
  show ?case by (cases "traverse f ys") auto
next
  case (Cons x xs)
  then show ?case by (simp add: bindr_assoc)
qed

lemma try_fold_append: "try_fold f s (xs @ ys) = bindr (try_fold f s xs) (\<lambda>s'. try_fold f s' ys)"
  by (induction xs arbitrary: s) (auto simp: bindr_assoc)

lemma try_each_Inr: "try_each f xs = Inr u \<longleftrightarrow> (\<forall>x \<in> set xs. f x = Inr ())"
  by (induction xs) (auto simp: result_simps)

lemma try_each_InlD: "try_each f xs = Inl e \<Longrightarrow> \<exists>x \<in> set xs. f x = Inl e"
  by (induction xs) (auto simp: bindr_Inl)

section \<open>Ordered collections\<close>

text \<open>
  \<open>BTreeSet\<close> and \<open>BTreeMap\<close> are finite sets and finite maps over an ordered key; their
  iterators are the sorted lists of their members.  \<open>slice::windows(2).all(p)\<close> is
  \<open>successively p\<close>, \<open>sort_unstable\<close> is \<open>sort\<close>, \<open>dedup\<close> is \<open>remdups_adj\<close>.
  \<open>slice::partition_point\<close> is the length of the longest prefix that satisfies the
  predicate, which is what its binary search returns on a partitioned slice.
\<close>

definition partition_point :: "('a \<Rightarrow> bool) \<Rightarrow> 'a list \<Rightarrow> usize" where
  "partition_point p xs = length (takeWhile p xs)"

lemma partition_point_le: "partition_point p xs \<le> length xs"
  by (simp add: partition_point_def length_takeWhile_le)

lemma partition_point_nth: "i < partition_point p xs \<Longrightarrow> p (xs ! i)"
  unfolding partition_point_def by (metis nth_mem set_takeWhileD takeWhile_nth)

lemma partition_point_stop: "partition_point p xs < length xs \<Longrightarrow> \<not> p (xs ! partition_point p xs)"
  unfolding partition_point_def by (rule nth_length_takeWhile)

lemma sorted_list_of_fset_sorted [simp]:
  "sorted (sorted_list_of_fset A)" "distinct (sorted_list_of_fset A)"
  by (simp_all add: sorted_list_of_fset.rep_eq)

lemma sorted_list_of_fset_inj: "sorted_list_of_fset A = sorted_list_of_fset B \<longleftrightarrow> A = B"
  by (metis sorted_list_of_fset_simps(2))

lemma sorted_list_of_fset_length [simp]: "length (sorted_list_of_fset A) = fcard A"
  by (metis distinct_card fcard.rep_eq sorted_list_of_fset_simps(1) sorted_list_of_fset_sorted(2))

lemma sorted_wrt_less_iff: "sorted_wrt (<) (xs :: 'a::linorder list) \<longleftrightarrow> sorted xs \<and> distinct xs"
  by (simp add: strict_sorted_iff)

lemma successively_less_iff: "successively (<) (xs :: 'a::linorder list) \<longleftrightarrow> sorted xs \<and> distinct xs"
  by (simp add: sorted_wrt_less_iff [symmetric] successively_conv_sorted_wrt)

lemma sorted_map_sort_key [simp]: "sorted (map f (sort_key f xs))"
  by simp

lemma sort_key_distinct_unique:
  assumes "mset xs = mset ys" "sorted (map f ys)" "distinct (map f xs)"
  shows "sort_key f xs = ys"
  using assms by (intro sort_key_inj_key_eq) (auto simp: distinct_map)

end
