(* ===== verification/Digest.thy ===== *)
theory Digest
  imports Prelude
begin

unbundle bit_operations_syntax

text \<open>
  \<open>Digest32\<close> of \<open>canonical.rs\<close>: a 32-byte array ordered lexicographically, its lowercase
  hexadecimal rendering and its strict parser, and the newtypes \<open>AtomId\<close> and \<open>Seed32\<close> of
  \<open>model.rs\<close>.  SHA-256 itself is the third-party crate \<open>sha2\<close>: it is a parameter
  \<open>sha :: byte list \<Rightarrow> Digest32\<close> of every definition that hashes.  A Rust \<open>String\<close> is the
  list of its UTF-8 bytes, written as a list of characters.
\<close>

section \<open>The 32-byte array\<close>

typedef Digest32 = "{bs :: byte list. length bs = 32}"
  morphisms digest_bytes Abs_Digest32
  by (rule exI [of _ "replicate 32 0"]) simp

lemma digest_bytes_length [simp]: "length (digest_bytes d) = 32"
  using digest_bytes by simp

lemma digest_bytes_inject_iff: "digest_bytes a = digest_bytes b \<longleftrightarrow> a = b"
  by (rule digest_bytes_inject)

definition digest_of_bytes :: "byte list \<Rightarrow> Digest32" where
  "digest_of_bytes bs = Abs_Digest32 (take 32 (bs @ replicate 32 0))"

lemma digest_abstype [code abstype]: "Abs_Digest32 (digest_bytes d) = d"
  by (rule digest_bytes_inverse)

lemma digest_bytes_of_bytes [simp, code abstract]:
  "digest_bytes (digest_of_bytes bs) = take 32 (bs @ replicate 32 0)"
  by (simp add: digest_of_bytes_def Abs_Digest32_inverse)

lemma digest_of_bytes_bytes [simp]: "digest_of_bytes (digest_bytes d) = d"
  by (simp add: digest_bytes_inject_iff [symmetric])

definition Digest32_ZERO :: Digest32 where
  "Digest32_ZERO = digest_of_bytes (replicate 32 0)"

instantiation Digest32 :: linorder
begin

definition less_eq_Digest32 :: "Digest32 \<Rightarrow> Digest32 \<Rightarrow> bool" where
  "less_eq_Digest32 a b = (digest_bytes a \<le> digest_bytes b)"

definition less_Digest32 :: "Digest32 \<Rightarrow> Digest32 \<Rightarrow> bool" where
  "less_Digest32 a b = (digest_bytes a < digest_bytes b)"

instance
  by intro_classes
    (auto simp: less_eq_Digest32_def less_Digest32_def digest_bytes_inject_iff [symmetric])

end

instantiation Digest32 :: equal
begin

definition equal_Digest32 :: "Digest32 \<Rightarrow> Digest32 \<Rightarrow> bool" where
  "equal_Digest32 a b = (digest_bytes a = digest_bytes b)"

instance
  by intro_classes (simp add: equal_Digest32_def digest_bytes_inject)

end

definition hash_prefixed :: "(byte list \<Rightarrow> Digest32) \<Rightarrow> byte list \<Rightarrow> byte list \<Rightarrow> Digest32" where
  "hash_prefixed sha prefix payload = sha (prefix @ payload)"

section \<open>Newtypes over the digest\<close>

datatype AtomId = AtomId (atom_digest: Digest32)

datatype Seed32 = Seed32 (seed_digest: Digest32)

instantiation AtomId :: linorder
begin

definition less_eq_AtomId :: "AtomId \<Rightarrow> AtomId \<Rightarrow> bool" where
  "less_eq_AtomId a b = (atom_digest a \<le> atom_digest b)"

definition less_AtomId :: "AtomId \<Rightarrow> AtomId \<Rightarrow> bool" where
  "less_AtomId a b = (atom_digest a < atom_digest b)"

instance
  by intro_classes (auto simp: less_eq_AtomId_def less_AtomId_def AtomId.expand)

end

definition AtomId_default :: AtomId where
  "AtomId_default = AtomId Digest32_ZERO"

definition seed_as_bytes :: "Seed32 \<Rightarrow> byte list" where
  "seed_as_bytes s = digest_bytes (seed_digest s)"

section \<open>Bytes of a string\<close>

definition str_bytes :: "string \<Rightarrow> byte list" where
  "str_bytes s = map of_char s"

lemma str_bytes_simps [simp]:
  "str_bytes [] = []" "str_bytes (c # s) = of_char c # str_bytes s"
  "str_bytes (s @ t) = str_bytes s @ str_bytes t" "length (str_bytes s) = length s"
  by (simp_all add: str_bytes_def)

lemma unat_of_char_byte: "unat (of_char c :: byte) = of_char c"
proof -
  have "(of_char c :: byte) = word_of_nat (of_char c)" by (rule of_nat_of_char [symmetric])
  then have "unat (of_char c :: byte) = of_char c mod 256"
    by (simp only: unat_of_nat) simp
  then show ?thesis by simp
qed

lemma of_char_byte_inject [simp]: "(of_char c :: byte) = of_char d \<longleftrightarrow> c = d"
  by (metis of_char_eq_iff unat_of_char_byte)

lemma str_bytes_inject [simp]: "str_bytes s = str_bytes t \<longleftrightarrow> s = t"
  unfolding str_bytes_def by (rule inj_map_eq_map) (simp add: inj_def)

lemma str_bytes_eq_Nil [simp]: "str_bytes s = [] \<longleftrightarrow> s = []"
  by (simp add: str_bytes_def)

section \<open>Lowercase hexadecimal\<close>

definition hex_table :: string where
  "hex_table = ''0123456789abcdef''"

definition to_hex :: "Digest32 \<Rightarrow> string" where
  "to_hex d = concat (map (\<lambda>b. [hex_table ! unat (drop_bit 4 b), hex_table ! unat (b AND 15)])
     (digest_bytes d))"

definition from_hex :: "byte \<Rightarrow> byte option" where
  "from_hex v =
     (if 48 \<le> v \<and> v \<le> 57 then Some (v - 48)
      else if 97 \<le> v \<and> v \<le> 102 then Some (v - 97 + 10)
      else None)"

text \<open>The loop over \<open>chunks_exact(2)\<close>: high and low nibble of each output byte.\<close>

fun parse_hex :: "byte list \<Rightarrow> byte list option" where
  "parse_hex (h # l # rest) =
     (case from_hex h of None \<Rightarrow> None
      | Some high \<Rightarrow> (case from_hex l of None \<Rightarrow> None
        | Some low \<Rightarrow> map_option (\<lambda>bs. (push_bit 4 high + low) # bs) (parse_hex rest)))"
| "parse_hex _ = Some []"

definition is_ascii :: "string \<Rightarrow> bool" where
  "is_ascii s = list_all (\<lambda>b. b < 128) (str_bytes s)"

definition digest_from_str :: "'e \<Rightarrow> string \<Rightarrow> 'e + Digest32" where
  "digest_from_str invalid value =
     (if length value \<noteq> 64 \<or> \<not> is_ascii value then Inl invalid
      else bindr (ok_or invalid (parse_hex (str_bytes value))) (\<lambda>bytes. Inr (digest_of_bytes bytes)))"

lemma less_16_cases:
  "n < 16 \<Longrightarrow> n \<in> {0, 1, 2, 3, 4, 5, 6, 7, 8, 9, 10, 11, 12, 13, 14, 15 :: nat}"
  by (simp, presburger)

lemma hex_table_from_hex: "n < 16 \<Longrightarrow> from_hex (of_char (hex_table ! n)) = Some (word_of_nat n)"
  by (drule less_16_cases) (auto simp: hex_table_def from_hex_def)

lemma hex_table_inj: "m < 16 \<Longrightarrow> n < 16 \<Longrightarrow> hex_table ! m = hex_table ! n \<Longrightarrow> m = n"
  by (drule less_16_cases)+ (auto simp: hex_table_def)

lemma hex_table_ascii: "n < 16 \<Longrightarrow> (of_char (hex_table ! n) :: byte) < 128"
  by (drule less_16_cases) (auto simp: hex_table_def)

lemma unat_high_nibble: "unat (drop_bit 4 (b :: byte)) = unat b div 16"
  by (simp add: unat_drop_bit_eq flip: drop_bit_eq_div) (simp add: drop_bit_eq_div)

lemma unat_low_nibble: "unat (b AND 15 :: byte) = unat b mod 16"
proof -
  have "b AND 15 = take_bit 4 b"
    by (simp add: take_bit_eq_mask mask_eq_exp_minus_1)
  then show ?thesis by (simp add: unsigned_take_bit_eq) (simp add: take_bit_eq_mod)
qed

lemma nibbles_less: "unat (drop_bit 4 (b :: byte)) < 16" "unat (b AND 15 :: byte) < 16"
proof -
  have "unat b < 256" using unsigned_less [of b, where ?'a = nat] by simp
  then show "unat (drop_bit 4 b) < 16" by (simp add: unat_high_nibble)
  show "unat (b AND 15) < 16" by (simp add: unat_low_nibble)
qed

lemma nibbles_combine: "push_bit 4 (drop_bit 4 b) + (b AND 15) = (b :: byte)"
proof -
  have "unat (push_bit 4 (drop_bit 4 b)) = unat b div 16 * 16"
    using nibbles_less(1) [of b]
    by (simp add: push_bit_eq_mult unat_word_ariths unat_high_nibble)
  moreover have "unat b < 256" using unsigned_less [of b, where ?'a = nat] by simp
  ultimately have "unat (push_bit 4 (drop_bit 4 b) + (b AND 15)) = unat b"
    by (simp add: unat_word_ariths unat_low_nibble div_mult_mod_eq)
  then show ?thesis by (rule unsigned_word_eqI [where ?'a = nat])
qed

lemma length_to_hex [simp]: "length (to_hex d) = 64"
proof -
  have "length (concat (map (\<lambda>b. [f b, g b]) bs)) = 2 * length bs" for f g :: "byte \<Rightarrow> char" and bs
    by (induction bs) auto
  then show ?thesis by (simp add: to_hex_def)
qed

lemma parse_hex_to_hex:
  "parse_hex (str_bytes (concat (map (\<lambda>b. [hex_table ! unat (drop_bit 4 b), hex_table ! unat (b AND 15)]) bs)))
     = Some bs"
  by (induction bs) (simp_all add: hex_table_from_hex nibbles_less nibbles_combine)

lemma is_ascii_to_hex: "is_ascii (to_hex d)"
  unfolding is_ascii_def to_hex_def str_bytes_def
  by (auto simp: list_all_iff hex_table_ascii nibbles_less)

lemma parse_hex_digest: "parse_hex (str_bytes (to_hex d)) = Some (digest_bytes d)"
  unfolding to_hex_def by (rule parse_hex_to_hex)

lemma to_hex_inject [simp]: "to_hex a = to_hex b \<longleftrightarrow> a = b"
  by (metis digest_bytes_inject_iff option.inject parse_hex_digest)

lemma digest_from_str_to_hex: "digest_from_str e (to_hex d) = Inr d"
  unfolding digest_from_str_def parse_hex_digest by (simp add: is_ascii_to_hex)

text \<open>Strictness: only the lowercase rendering parses.\<close>

lemma word_le_cases: "a \<le> v \<Longrightarrow> v \<le> (b :: byte) \<Longrightarrow> unat v \<in> {unat a .. unat b}"
  by (simp add: word_le_nat_alt)

lemma from_hex_Some:
  assumes "from_hex v = Some n"
  shows "unat n < 16 \<and> v = of_char (hex_table ! unat n)"
proof -
  have bound: "48 \<le> unat v \<and> unat v \<le> 57 \<or> 97 \<le> unat v \<and> unat v \<le> 102"
    using assms by (auto simp: from_hex_def word_le_nat_alt split: if_splits)
  have "unat v \<in> {48, 49, 50, 51, 52, 53, 54, 55, 56, 57, 97, 98, 99, 100, 101, 102}"
    using bound by (simp, presburger)
  then have "word_of_nat (unat v) \<in> (word_of_nat :: nat \<Rightarrow> byte) `
      {48, 49, 50, 51, 52, 53, 54, 55, 56, 57, 97, 98, 99, 100, 101, 102}"
    by (rule imageI)
  then have "v \<in> {48, 49, 50, 51, 52, 53, 54, 55, 56, 57, 97, 98, 99, 100, 101, 102}"
    by simp
  then show ?thesis
    using assms by (auto simp: from_hex_def hex_table_def)
qed

lemma drop_nibble_combine:
  assumes "unat h < 16" "unat l < 16"
  shows "unat (drop_bit 4 (push_bit 4 h + l)) = unat (h :: byte)"
    and "unat ((push_bit 4 h + l) AND 15) = unat (l :: byte)"
proof -
  have "unat (push_bit 4 h + l) = 16 * unat h + unat l"
    using assms by (simp add: push_bit_eq_mult unat_word_ariths)
  then show "unat (drop_bit 4 (push_bit 4 h + l)) = unat h"
    and "unat ((push_bit 4 h + l) AND 15) = unat l"
    using assms by (simp_all add: unat_high_nibble unat_low_nibble)
qed

lemma parse_hex_Some:
  "parse_hex bs = Some cs \<Longrightarrow> even (length bs) \<Longrightarrow>
     bs = str_bytes (concat (map (\<lambda>b. [hex_table ! unat (drop_bit 4 b), hex_table ! unat (b AND 15)]) cs))"
proof (induction bs arbitrary: cs rule: parse_hex.induct)
  case (1 h l rest)
  then obtain high low cs' where
    "from_hex h = Some high" "from_hex l = Some low" "parse_hex rest = Some cs'"
    "cs = (push_bit 4 high + low) # cs'"
    by (auto split: option.splits)
  then show ?case
    using 1 from_hex_Some [of h high] from_hex_Some [of l low]
    by (simp add: drop_nibble_combine)
qed auto

lemma parse_hex_length: "parse_hex bs = Some cs \<Longrightarrow> length cs = length bs div 2"
  by (induction bs arbitrary: cs rule: parse_hex.induct) (auto split: option.splits)

lemma digest_from_str_Inr: "digest_from_str e s = Inr d \<Longrightarrow> s = to_hex d"
proof -
  assume a: "digest_from_str e s = Inr d"
  then obtain cs where cs: "parse_hex (str_bytes s) = Some cs" "d = digest_of_bytes cs" "length s = 64"
    by (auto simp: digest_from_str_def result_simps split: if_splits)
  from cs have "length cs = 32" by (auto dest: parse_hex_length)
  then have "digest_bytes d = cs" by (simp add: cs)
  moreover have "str_bytes s = str_bytes (concat (map (\<lambda>b. [hex_table ! unat (drop_bit 4 b), hex_table ! unat (b AND 15)]) cs))"
    using cs by (intro parse_hex_Some) simp_all
  ultimately show ?thesis by (simp only: str_bytes_inject to_hex_def)
qed

end
