(* ===== verification/Errors.thy ===== *)
theory Errors
  imports Digest
begin

text \<open>
  The error taxonomy of \<open>error.rs\<close>, one constructor per variant with its payload, and the
  result type of the whole core crate.
\<close>

datatype MemoryError =
    InvalidPpm u32
  | CanonicalEncoding string
  | InvalidDigest
  | EmptyField string
  | EmptyEpisode
  | NonContiguousEvents (expected: u64) (found: u64)
  | EventScopeMismatch u64
  | EventTimeOutOfRange u64
  | NonMonotonicEventTime (sequence: u64) (previous_at_us: u64) (found_at_us: u64)
  | InvalidTimeInterval
  | InsufficientEpisodeContent
  | InlinePayloadTooLarge (actual: u64) (maximum: u64)
  | ArtifactTooLarge u64 u64
  | ArtifactDigestMismatch Digest32
  | ExactPackageTooLarge u64 u64
  | AtomTooLarge u64 u64
  | InvalidAtomBody string
  | UndeclaredArtifactReference Digest32
  | EpisodeRequiresSplit u64 u64
  | AtomDigestMismatch AtomId
  | DuplicateAtom AtomId
  | InvalidRetirementCandidate AtomId string
  | InvalidRetrievalCandidate AtomId string
  | MemorySpaceMismatch
  | CohortTooLarge usize usize
  | EmptyRetirementCohort
  | RetirementCohortNotClosed u64 u64
  | PolicyMismatch
  | StalePlan Digest32 Digest32
  | EpisodicBudgetExceeded u64 u64
  | RetrievalLimitExceeded usize usize
  | CandidateLimitExceeded usize usize
  | InvalidFlashbackBudget usize
  | RepositoryRejected string
  | InvalidApplyClosure string
  | ReceiptRejected string
  | UnknownVersion string

type_synonym 'a result = "MemoryError + 'a"

definition Digest32_from_str :: "string \<Rightarrow> Digest32 result" where
  "Digest32_from_str value = digest_from_str InvalidDigest value"

text \<open>
  the hexadecimal codec of digests is a strict bijection: parsing the rendering gives the
  digest back, and any string that parses is exactly the lowercase rendering of its digest
  (no uppercase, no other length, no second spelling of one digest).
\<close>

theorem digest_hex_roundtrip:
  "Digest32_from_str s = Inr d \<longleftrightarrow> s = to_hex d"
  unfolding Digest32_from_str_def
  using digest_from_str_to_hex [of InvalidDigest] digest_from_str_Inr [of InvalidDigest] by blast

end
