(* ===== verification/Fixed.thy ===== *)
theory Fixed
  imports Errors
begin

text \<open>
  \<open>fixed.rs\<close>: fixed-point values in millionths.  \<open>Ppm\<close> wraps a 32-bit word; \<open>ppm_ok\<close>
  is the invariant that the constructors and every operation establish.  Widening, saturation
  and the conversions back to 32 bits are written as in the source.
\<close>

section \<open>The type\<close>

datatype Ppm = Ppm (ppm_get: u32)

definition PPM_SCALE :: u32 where
  "PPM_SCALE = 1000000"

definition PPM_ZERO :: Ppm where
  "PPM_ZERO = Ppm 0"

definition PPM_ONE :: Ppm where
  "PPM_ONE = Ppm PPM_SCALE"

definition ppm_ok :: "Ppm \<Rightarrow> bool" where
  "ppm_ok p \<longleftrightarrow> ppm_get p \<le> PPM_SCALE"

instantiation Ppm :: linorder
begin

definition less_eq_Ppm :: "Ppm \<Rightarrow> Ppm \<Rightarrow> bool" where
  "less_eq_Ppm a b = (ppm_get a \<le> ppm_get b)"

definition less_Ppm :: "Ppm \<Rightarrow> Ppm \<Rightarrow> bool" where
  "less_Ppm a b = (ppm_get a < ppm_get b)"

instance
  by intro_classes (auto simp: less_eq_Ppm_def less_Ppm_def Ppm.expand)

end

definition Ppm_new :: "u32 \<Rightarrow> Ppm result" where
  "Ppm_new value = (if value \<le> PPM_SCALE then Inr (Ppm value) else Inl (InvalidPpm value))"

text \<open>\<open>None\<close> is the panic of the \<open>assert!\<close>.\<close>

definition Ppm_from_raw_unchecked :: "u32 \<Rightarrow> Ppm option" where
  "Ppm_from_raw_unchecked value = (if value \<le> PPM_SCALE then Some (Ppm value) else None)"

section \<open>Arithmetic\<close>

definition Ppm_ratio :: "u64 \<Rightarrow> u64 \<Rightarrow> Ppm" where
  "Ppm_ratio numerator denominator =
     (if denominator = 0 then PPM_ZERO
      else let scaled = saturating_mul (ucast numerator :: u128) (ucast PPM_SCALE) div ucast denominator;
               bounded = min scaled (ucast PPM_SCALE)
           in Ppm (unwrap_or PPM_SCALE (u32_of_u128 bounded)))"

definition Ppm_multiply :: "Ppm \<Rightarrow> Ppm \<Rightarrow> Ppm" where
  "Ppm_multiply a b =
     (let product = (ucast (ppm_get a) :: u64) * ucast (ppm_get b);
          floored = product div ucast PPM_SCALE
      in Ppm (min (unwrap_or PPM_SCALE (u32_of_u64 floored)) PPM_SCALE))"

definition Ppm_complement :: "Ppm \<Rightarrow> Ppm" where
  "Ppm_complement a = Ppm (PPM_SCALE - ppm_get a)"

definition Ppm_mean :: "Ppm list \<Rightarrow> Ppm" where
  "Ppm_mean values =
     (let count = foldl (\<lambda>c _. saturating_add c 1) (0 :: u64) values;
          sum = foldl (\<lambda>s v. saturating_add s (ucast (ppm_get v))) (0 :: u64) values
      in if count = 0 then PPM_ZERO
         else Ppm (min (unwrap_or PPM_SCALE (u32_of_u64 ((sum + count div 2) div count))) PPM_SCALE))"

definition u128_div_ceil :: "u128 \<Rightarrow> u128 \<Rightarrow> u128" where
  "u128_div_ceil a b = (if 0 < a mod b then a div b + 1 else a div b)"

definition Ppm_ceil_count :: "Ppm \<Rightarrow> usize \<Rightarrow> usize" where
  "Ppm_ceil_count p population =
     (let numerator = (of_nat population :: u128) * ucast (ppm_get p);
          value = u128_div_ceil numerator (ucast PPM_SCALE)
      in unwrap_or usize_max (usize_of_u128 value))"

section \<open>The operations over natural numbers\<close>

lemma unat_PPM_SCALE [simp]: "unat PPM_SCALE = 1000000"
  by (simp add: PPM_SCALE_def)

lemma ppm_ok_iff: "ppm_ok p \<longleftrightarrow> unat (ppm_get p) \<le> 1000000"
  by (simp add: ppm_ok_def word_le_nat_alt)

lemma ppm_ok_const [simp]: "ppm_ok PPM_ZERO" "ppm_ok PPM_ONE"
  by (simp_all add: ppm_ok_iff PPM_ZERO_def PPM_ONE_def)

lemma less_eq_Ppm_unat: "a \<le> b \<longleftrightarrow> unat (ppm_get a) \<le> unat (ppm_get b)"
  by (simp add: less_eq_Ppm_def word_le_nat_alt)

lemma less_Ppm_unat: "a < b \<longleftrightarrow> unat (ppm_get a) < unat (ppm_get b)"
  by (simp add: less_Ppm_def word_less_nat_alt)

lemma Ppm_eq_unat: "a = b \<longleftrightarrow> unat (ppm_get a) = unat (ppm_get b)"
  by (metis Ppm.expand unsigned_word_eqI)

lemma unat_clamp_u64:
  "unat (min (unwrap_or PPM_SCALE (u32_of_u64 x)) PPM_SCALE) = min (unat x) 1000000"
  by (auto simp: u32_of_u64_def unat_simps unsigned_ucast_eq take_bit_nat_eq_self)

lemma unat_clamp_u128:
  "unat (unwrap_or PPM_SCALE (u32_of_u128 (min x (ucast PPM_SCALE)))) = min (unat x) 1000000"
  by (auto simp: u32_of_u128_def unat_simps unsigned_ucast_eq take_bit_nat_eq_self)

lemma unat_Ppm_ratio:
  "unat (ppm_get (Ppm_ratio n d)) = (if d = 0 then 0 else min (unat n * 1000000 div unat d) 1000000)"
proof -
  have "unat n * 1000000 < 2 ^ 128" using unat_u64_bound [of n] by simp
  then have "unat (saturating_mul (ucast n :: u128) (ucast PPM_SCALE)) = unat n * 1000000"
    by (simp add: unat_simps)
  then show ?thesis
    by (simp add: Ppm_ratio_def Let_def PPM_ZERO_def unat_clamp_u128 unat_div)
qed

lemma unat_Ppm_multiply:
  "unat (ppm_get (Ppm_multiply a b)) = min (unat (ppm_get a) * unat (ppm_get b) div 1000000) 1000000"
proof -
  have "unat (ppm_get a) * unat (ppm_get b) < 2 ^ 32 * 2 ^ 32"
    using unat_u32_bound [of "ppm_get a"] unat_u32_bound [of "ppm_get b"] by (intro mult_strict_mono) auto
  then have "unat ((ucast (ppm_get a) :: u64) * ucast (ppm_get b)) = unat (ppm_get a) * unat (ppm_get b)"
    by (subst unat_word_mult_lt) simp_all
  then show ?thesis
    by (simp add: Ppm_multiply_def Let_def unat_clamp_u64 unat_div)
qed

lemma ppm_ok_ratio [simp]: "ppm_ok (Ppm_ratio n d)"
  by (simp add: ppm_ok_iff unat_Ppm_ratio)

lemma ppm_ok_multiply [simp]: "ppm_ok (Ppm_multiply a b)"
  by (simp add: ppm_ok_iff unat_Ppm_multiply)

lemma ppm_ok_mean [simp]: "ppm_ok (Ppm_mean vs)"
  by (simp add: ppm_ok_iff Ppm_mean_def Let_def unat_clamp_u64 PPM_ZERO_def)

lemma ppm_ok_complement: "ppm_ok a \<Longrightarrow> ppm_ok (Ppm_complement a)"
  by (simp add: ppm_ok_iff Ppm_complement_def unat_sub word_le_nat_alt)

lemma Ppm_multiply_commute: "Ppm_multiply a b = Ppm_multiply b a"
  by (simp add: Ppm_eq_unat unat_Ppm_multiply mult.commute)

lemma Ppm_multiply_mono: "b \<le> c \<Longrightarrow> Ppm_multiply a b \<le> Ppm_multiply a c"
  by (simp add: less_eq_Ppm_unat unat_Ppm_multiply div_le_mono min.coboundedI1)

lemma Ppm_multiply_le: "ppm_ok b \<Longrightarrow> unat (ppm_get (Ppm_multiply a b)) \<le> unat (ppm_get a)"
proof -
  assume "ppm_ok b"
  then have "unat (ppm_get a) * unat (ppm_get b) div 1000000 \<le> unat (ppm_get a) * 1000000 div 1000000"
    by (intro div_le_mono mult_le_mono2) (simp add: ppm_ok_iff)
  then show ?thesis by (simp add: unat_Ppm_multiply)
qed

lemma Ppm_multiply_zero [simp]: "Ppm_multiply a PPM_ZERO = PPM_ZERO"
  by (simp add: Ppm_eq_unat unat_Ppm_multiply) (simp add: PPM_ZERO_def)


text \<open>The accumulators of \<open>mean\<close> do not saturate on a list of valid values.\<close>

lemma mean_count: "unat c + length vs < 2 ^ 64 \<Longrightarrow>
  unat (foldl (\<lambda>c _. saturating_add c 1) (c :: u64) vs) = unat c + length vs"
  by (induction vs arbitrary: c) (auto simp: unat_simps)

lemma mean_sum: "unat s + length vs * 1000000 < 2 ^ 64 \<Longrightarrow> (\<forall>v \<in> set vs. ppm_ok v) \<Longrightarrow>
  unat (foldl (\<lambda>s v. saturating_add s (ucast (ppm_get v))) (s :: u64) vs)
    = unat s + sum_list (map (unat \<circ> ppm_get) vs)"
proof (induction vs arbitrary: s)
  case Nil
  then show ?case by simp
next
  case (Cons v vs)
  have "unat (saturating_add s (ucast (ppm_get v))) = unat s + unat (ppm_get v)"
    using Cons.prems by (simp add: unat_simps ppm_ok_iff)
  with Cons show ?case by (simp add: ppm_ok_iff)
qed

lemma sum_ppm_le: "(\<forall>v \<in> set vs. ppm_ok v) \<Longrightarrow> sum_list (map (unat \<circ> ppm_get) vs) \<le> length vs * 1000000"
  by (induction vs) (auto simp: ppm_ok_iff)

lemma unat_Ppm_mean:
  assumes "length vs < 2 ^ 40" "\<forall>v \<in> set vs. ppm_ok v" "vs \<noteq> []"
  shows "unat (ppm_get (Ppm_mean vs))
    = (sum_list (map (unat \<circ> ppm_get) vs) + length vs div 2) div length vs"
proof -
  let ?n = "length vs" and ?s = "sum_list (map (unat \<circ> ppm_get) vs)"
  define c where "c = foldl (\<lambda>c _. saturating_add c 1) (0 :: u64) vs"
  define t where "t = foldl (\<lambda>s v. saturating_add s (ucast (ppm_get v))) (0 :: u64) vs"
  have c: "unat c = ?n" using assms(1) mean_count [of 0 vs] by (simp add: c_def)
  have t: "unat t = ?s" using assms(1,2) mean_sum [of 0 vs] by (simp add: t_def)
  have s_le: "?s \<le> ?n * 1000000" using assms(2) by (rule sum_ppm_le)
  have sum: "unat (t + c div 2) = ?s + ?n div 2"
    using s_le assms(1) by (subst unat_word_add_lt) (simp_all add: t c unat_div)
  have "0 < ?n" using assms(3) by simp
  then have c0: "c \<noteq> 0" using c by (metis nat_less_le unat_0)
  have "?n div 2 < ?n" using \<open>0 < ?n\<close> by simp
  with s_le have "?s + ?n div 2 < ?n * 1000000 + ?n" by (rule add_le_less_mono)
  then have "?s + ?n div 2 < Suc 1000000 * ?n" by (simp add: algebra_simps)
  then have "(?s + ?n div 2) div ?n < Suc 1000000"
    by (simp add: less_mult_imp_div_less)
  then show ?thesis
    using c0 unfolding Ppm_mean_def Let_def c_def [symmetric] t_def [symmetric]
    by (simp add: unat_clamp_u64 unat_div sum c)
qed

lemma nat_div_ceil: "0 < b \<Longrightarrow> (a + b - 1) div b = a div b + (if 0 < a mod b then 1 else (0 :: nat))"
proof -
  assume b: "0 < b"
  define q r where "q = a div b" and "r = a mod b"
  have a: "a = q * b + r" and r: "r < b" using b by (simp_all add: q_def r_def)
  show ?thesis
  proof (cases "r = 0")
    case True
    then have "a + b - 1 = q * b + (b - 1)" using a b by simp
    moreover have "(q * b + (b - 1)) div b = q" using b by (subst div_mult_self3) simp_all
    ultimately show ?thesis using True by (simp add: q_def r_def)
  next
    case False
    then have "a + b - 1 = (q + 1) * b + (r - 1)" using a b by simp
    moreover have "((q + 1) * b + (r - 1)) div b = q + 1" using r b by (subst div_mult_self3) simp_all
    ultimately show ?thesis using False by (simp add: q_def r_def)
  qed
qed

lemma u128_div_ceil_unat:
  assumes "unat a < 2 ^ 127" "0 < b"
  shows "unat (u128_div_ceil a b) = (unat a + unat b - 1) div unat b"
proof -
  have b: "0 < unat b" using assms(2) by (simp add: word_less_nat_alt)
  have "(unat a + unat b - 1) div unat b = unat a div unat b + (if 0 < unat a mod unat b then 1 else 0)"
    using b by (rule nat_div_ceil)
  moreover have "unat a div unat b + 1 < 2 ^ 128"
    by (rule le_less_trans [OF add_right_mono [OF div_le_dividend]]) (use assms(1) in simp)
  ultimately show ?thesis
    by (auto simp: u128_div_ceil_def word_less_nat_alt unat_mod unat_div unat_word_ariths)
qed

lemma Ppm_ceil_count_eq:
  assumes "n < 2 ^ 64" "ppm_ok p"
  shows "Ppm_ceil_count p n = (n * unat (ppm_get p) + 999999) div 1000000"
proof -
  have p: "unat (ppm_get p) \<le> 1000000" using assms(2) by (simp add: ppm_ok_iff)
  have n: "unat (of_nat n :: u128) = n" using assms(1) by (simp add: unat_of_nat)
  have le: "n * unat (ppm_get p) \<le> n * 1000000" using p by simp
  have "n * 1000000 < 2 ^ 84" using assms(1) by simp
  with le have lt: "n * unat (ppm_get p) < 2 ^ 84" by (rule le_less_trans)
  have prod: "unat ((of_nat n :: u128) * ucast (ppm_get p)) = n * unat (ppm_get p)"
    using lt by (subst unat_word_mult_lt) (simp_all add: n)
  have val: "unat (u128_div_ceil ((of_nat n :: u128) * ucast (ppm_get p)) (ucast PPM_SCALE))
      = (n * unat (ppm_get p) + 999999) div 1000000"
    using lt by (subst u128_div_ceil_unat) (simp_all add: prod word_less_nat_alt)
  have "(n * unat (ppm_get p) + 999999) div 1000000 \<le> (n * 1000000 + 999999) div 1000000"
    using le by (intro div_le_mono) simp
  also have "\<dots> = n" by simp
  finally have "(n * unat (ppm_get p) + 999999) div 1000000 \<le> usize_max"
    using assms(1) by (simp add: usize_max_def)
  then show ?thesis
    by (simp add: Ppm_ceil_count_def Let_def usize_of_u128_def val)
qed

lemma Ppm_ceil_count_le: "n < 2 ^ 64 \<Longrightarrow> ppm_ok p \<Longrightarrow> Ppm_ceil_count p n \<le> n"
proof -
  assume a: "n < 2 ^ 64" "ppm_ok p"
  have "(n * unat (ppm_get p) + 999999) div 1000000 \<le> (n * 1000000 + 999999) div 1000000"
    using a(2) by (intro div_le_mono) (simp add: ppm_ok_iff)
  then show ?thesis using a by (simp add: Ppm_ceil_count_eq)
qed

end
