(* ===== verification/Canonical.thy ===== *)
theory Canonical
  imports Fixed
begin

unbundle bit_operations_syntax

text \<open>
  \<open>canonical.rs\<close>: the tagged, length-framed binary encoding that every hash of the crate is
  taken over.  \<open>Value\<close> is \<open>serde_json::Value\<close>, whose constructors the encoder matches on; the
  conversion of the domain types to it follows their \<open>derive(Serialize)\<close> declarations and is in
  the theory \<open>Model\<close>.  The lemmas show the exact length of an encoding and that an encoding
  determines its value up to the order of object keys.
\<close>

section \<open>Values\<close>

text \<open>A \<open>serde_json\<close> number is an unsigned or negative 64-bit integer or a float (its bits).\<close>

datatype Number = NPos u64 | NNeg u64 | NFloat u64

datatype Value =
    VNull
  | VBool bool
  | VNumber Number
  | VString string
  | VArray "Value list"
  | VObject "(string \<times> Value) list"

section \<open>The encoder\<close>

definition be_bytes64 :: "u64 \<Rightarrow> byte list" where
  "be_bytes64 w = map (\<lambda>i. ucast (drop_bit (56 - 8 * i) w)) [0, 1, 2, 3, 4, 5, 6, 7]"

definition frame :: "byte list \<Rightarrow> byte list result" where
  "frame bytes =
     bindr (ok_or (CanonicalEncoding ''field exceeds u64 length'') (u64_of_usize (length bytes)))
       (\<lambda>len. Inr (be_bytes64 len @ bytes))"

fun encode_number :: "Number \<Rightarrow> byte list result" where
  "encode_number (NPos u) = Inr (3 # be_bytes64 u)"
| "encode_number (NNeg i) = Inr (4 # be_bytes64 i)"
| "encode_number (NFloat _) = Inl (CanonicalEncoding ''floating point values are forbidden'')"

text \<open>The bytes appended to \<open>output\<close>; the loops over elements and entries are \<open>traverse\<close>.\<close>

function encode_value :: "Value \<Rightarrow> byte list result" where
  "encode_value VNull = Inr [0]"
| "encode_value (VBool b) = Inr [if b then 2 else 1]"
| "encode_value (VNumber n) = encode_number n"
| "encode_value (VString s) = bindr (frame (str_bytes s)) (\<lambda>bs. Inr (5 # bs))"
| "encode_value (VArray vs) =
     bindr (ok_or (CanonicalEncoding ''array exceeds u64 length'') (u64_of_usize (length vs))) (\<lambda>count.
     bindr (traverse (\<lambda>v. bindr (encode_value v) frame) vs) (\<lambda>parts.
       Inr (6 # be_bytes64 count @ concat parts)))"
| "encode_value (VObject kvs) =
     bindr (ok_or (CanonicalEncoding ''object exceeds u64 length'') (u64_of_usize (length kvs))) (\<lambda>count.
     bindr (traverse (\<lambda>kv. bindr (frame (str_bytes (fst kv))) (\<lambda>key.
              bindr (encode_value (snd kv)) (\<lambda>encoded. bindr (frame encoded) (\<lambda>val. Inr (key @ val)))))
            (sort_key (str_bytes \<circ> fst) kvs)) (\<lambda>parts.
       Inr (7 # be_bytes64 count @ concat parts)))"
  by pat_completeness auto
termination
proof (relation "measure size")
  fix vs :: "Value list" and c x
  assume "x \<in> set vs"
  then show "(x, VArray vs) \<in> measure size"
    by (induction vs) auto
next
  fix kvs :: "(string \<times> Value) list" and c kv k
  assume "kv \<in> set (sort_key (str_bytes \<circ> fst) kvs)"
  then have "kv \<in> set kvs" by simp
  then show "(snd kv, VObject kvs) \<in> measure size"
    by (induction kvs) (auto simp: less_Suc_eq_le)
qed simp

section \<open>Length-framed fields\<close>

lemma be_bytes64_length [simp]: "length (be_bytes64 w) = 8"
  by (simp add: be_bytes64_def)

lemma be_bytes64_inject [simp]: "be_bytes64 a = be_bytes64 b \<longleftrightarrow> a = b"
proof
  assume eq: "be_bytes64 a = be_bytes64 b"
  show "a = b"
  proof (rule bit_word_eqI)
    fix n assume n: "n < LENGTH(64)"
    define i where "i = 7 - n div 8"
    have i: "i < 8" "56 - 8 * i = 8 * (n div 8)" using n by (auto simp: i_def)
    then have "be_bytes64 a ! i = ucast (drop_bit (8 * (n div 8)) a)"
      "be_bytes64 b ! i = ucast (drop_bit (8 * (n div 8)) b)"
      by (auto simp: be_bytes64_def nth_Cons split: nat.splits)
    then have "(ucast (drop_bit (8 * (n div 8)) a) :: byte) = ucast (drop_bit (8 * (n div 8)) b)"
      using eq by simp
    then have "bit (ucast (drop_bit (8 * (n div 8)) a) :: byte) (n mod 8)
        = bit (ucast (drop_bit (8 * (n div 8)) b) :: byte) (n mod 8)" by simp
    then show "bit a n = bit b n"
      using n by (simp add: bit_simps)
  qed
qed simp

lemma frame_Inr: "frame bs = Inr out \<longleftrightarrow> length bs < 2 ^ 64 \<and> out = be_bytes64 (of_nat (length bs)) @ bs"
  by (auto simp: frame_def result_simps u64_of_usize_Some)

lemma frame_length: "frame bs = Inr out \<Longrightarrow> length out = 8 + length bs"
  by (simp add: frame_Inr)

lemma of_nat_u64_inject: "m < 2 ^ 64 \<Longrightarrow> n < 2 ^ 64 \<Longrightarrow> (of_nat m :: u64) = of_nat n \<longleftrightarrow> m = n"
  by (auto simp: word_of_nat_eq_iff take_bit_nat_eq_self)

lemma frame_prefix:
  assumes "frame bs = Inr out" "frame bs' = Inr out'" "out @ rest = out' @ rest'"
  shows "bs = bs' \<and> rest = rest'"
proof -
  from assms have "be_bytes64 (of_nat (length bs)) = be_bytes64 (of_nat (length bs'))"
    and rest: "bs @ rest = bs' @ rest'"
    by (auto simp: frame_Inr)
  then have "length bs = length bs'"
    using assms(1,2) by (simp add: frame_Inr of_nat_u64_inject)
  with rest show ?thesis by simp
qed


section \<open>The length of an encoding\<close>

fun vsize :: "Value \<Rightarrow> nat" where
  "vsize VNull = 1"
| "vsize (VBool b) = 1"
| "vsize (VNumber n) = 9"
| "vsize (VString s) = 9 + length s"
| "vsize (VArray vs) = 9 + sum_list (map (\<lambda>v. 8 + vsize v) vs)"
| "vsize (VObject kvs) = 9 + sum_list (map (\<lambda>kv. 16 + length (fst kv) + vsize (snd kv)) kvs)"

fun float_free :: "Value \<Rightarrow> bool" where
  "float_free (VNumber (NFloat _)) = False"
| "float_free (VArray vs) = list_all float_free vs"
| "float_free (VObject kvs) = list_all (\<lambda>kv. float_free (snd kv)) kvs"
| "float_free _ = True"

lemma sum_list_sort_key [simp]: "sum_list (map f (sort_key k xs)) = (sum_list (map f xs) :: nat)"
proof -
  have "sum_list (map f xs) = sum_mset (image_mset f (mset xs))" for xs
    by (simp flip: sum_mset_sum_list)
  then show ?thesis by simp
qed

lemma concat_traverse_length:
  "traverse f xs = Inr ps \<Longrightarrow> (\<And>x p. x \<in> set xs \<Longrightarrow> f x = Inr p \<Longrightarrow> length p = g x) \<Longrightarrow>
     length (concat ps) = sum_list (map g xs)"
  by (induction xs arbitrary: ps) (auto simp: result_simps)

lemma encode_number_length: "encode_number n = Inr bs \<Longrightarrow> length bs = 9"
  by (cases n) auto

lemma encode_value_length: "encode_value v = Inr bs \<Longrightarrow> length bs = vsize v"
proof (induction v arbitrary: bs rule: encode_value.induct)
  case (5 vs)
  then obtain count parts where parts: "traverse (\<lambda>v. bindr (encode_value v) frame) vs = Inr parts"
    and bs: "bs = 6 # be_bytes64 count @ concat parts"
    and count: "ok_or (CanonicalEncoding ''array exceeds u64 length'') (u64_of_usize (length vs)) = Inr count"
    by (auto simp: bindr_Inr)
  have "length (concat parts) = sum_list (map (\<lambda>v. 8 + vsize v) vs)"
    using parts by (rule concat_traverse_length)
      (auto simp: bindr_Inr dest!: frame_length 5(1) [OF count])
  with bs show ?case by simp
next
  case (6 kvs)
  then obtain count parts where parts: "traverse (\<lambda>kv. bindr (frame (str_bytes (fst kv))) (\<lambda>key.
              bindr (encode_value (snd kv)) (\<lambda>encoded. bindr (frame encoded) (\<lambda>val. Inr (key @ val)))))
            (sort_key (str_bytes \<circ> fst) kvs) = Inr parts"
    and bs: "bs = 7 # be_bytes64 count @ concat parts"
    and count: "ok_or (CanonicalEncoding ''object exceeds u64 length'') (u64_of_usize (length kvs)) = Inr count"
    by (auto simp: bindr_Inr)
  have "length (concat parts) = sum_list (map (\<lambda>kv. 16 + length (fst kv) + vsize (snd kv))
      (sort_key (str_bytes \<circ> fst) kvs))"
    using parts
  proof (rule concat_traverse_length)
    fix kv p
    assume kv: "kv \<in> set (sort_key (str_bytes \<circ> fst) kvs)"
      and p: "bindr (frame (str_bytes (fst kv))) (\<lambda>key.
              bindr (encode_value (snd kv)) (\<lambda>encoded. bindr (frame encoded) (\<lambda>val. Inr (key @ val)))) = Inr p"
    then obtain key enc val where "frame (str_bytes (fst kv)) = Inr key"
      "encode_value (snd kv) = Inr enc" "frame enc = Inr val" "p = key @ val"
      by (auto simp: bindr_Inr)
    moreover have "length enc = vsize (snd kv)"
      using 6(1) [OF count kv] calculation by blast
    ultimately show "length p = 16 + length (fst kv) + vsize (snd kv)"
      by (auto dest!: frame_length)
  qed
  with bs show ?case by simp
qed (auto simp: bindr_Inr dest!: frame_length encode_number_length)

lemma length_le_sum_list: "length xs \<le> sum_list (map (\<lambda>x. Suc (f x)) xs)"
  by (induction xs) auto

lemma member_le_sum_list: "x \<in> set xs \<Longrightarrow> f x \<le> sum_list (map f xs :: nat list)"
  by (induction xs) auto

text \<open>The encoder can only fail on a float or on a length that does not fit 64 bits.\<close>

lemma encode_value_total:
  "float_free v \<Longrightarrow> vsize v < 2 ^ 64 \<Longrightarrow> \<exists>bs. encode_value v = Inr bs"
proof (induction v rule: encode_value.induct)
  case (3 n)
  then show ?case by (cases n) auto
next
  case (4 s)
  then show ?case by (simp add: frame_def u64_of_usize_def)
next
  case (5 vs)
  have len: "length vs < 2 ^ 64"
    using "5.prems"(2) length_le_sum_list [of vs "\<lambda>v. 7 + vsize v"] by simp
  have "\<exists>p. bindr (encode_value v) frame = Inr p" if v: "v \<in> set vs" for v
  proof -
    have small: "vsize v < 2 ^ 64"
      using "5.prems"(2) member_le_sum_list [OF v, of "\<lambda>v. 8 + vsize v"] by simp
    moreover have "float_free v" using "5.prems"(1) v by (simp add: list_all_iff)
    ultimately obtain bs where bs: "encode_value v = Inr bs"
      using "5.IH" len v by (auto simp: u64_of_usize_def)
    then have "length bs < 2 ^ 64" using small by (simp add: encode_value_length)
    then show ?thesis by (simp add: bs frame_def u64_of_usize_def)
  qed
  then obtain f where "\<And>v. v \<in> set vs \<Longrightarrow> bindr (encode_value v) frame = Inr (f v)" by metis
  then have "traverse (\<lambda>v. bindr (encode_value v) frame) vs = Inr (map f vs)"
    by (rule traverse_map_Inr)
  then show ?case using len by (simp add: u64_of_usize_def)
next
  case (6 kvs)
  let ?e = "\<lambda>kv. bindr (frame (str_bytes (fst kv))) (\<lambda>key.
              bindr (encode_value (snd kv)) (\<lambda>encoded. bindr (frame encoded) (\<lambda>val. Inr (key @ val))))"
  have len: "length kvs < 2 ^ 64"
    using "6.prems"(2) length_le_sum_list [of kvs "\<lambda>kv. 15 + length (fst kv) + vsize (snd kv)"] by (simp add: add.assoc)
  have "\<exists>p. ?e kv = Inr p" if kv: "kv \<in> set kvs" for kv
  proof -
    have small: "length (fst kv) < 2 ^ 64" "vsize (snd kv) < 2 ^ 64"
      using "6.prems"(2) member_le_sum_list [OF kv, of "\<lambda>kv. 16 + length (fst kv) + vsize (snd kv)"] by simp_all
    moreover have "float_free (snd kv)" using "6.prems"(1) kv by (auto simp: list_all_iff)
    moreover have "\<exists>key. frame (str_bytes (fst kv)) = Inr key"
      using small by (simp add: frame_def u64_of_usize_def)
    ultimately obtain bs where bs: "encode_value (snd kv) = Inr bs"
      using "6.IH" [of "of_nat (length kvs)" kv] len kv by (auto simp: u64_of_usize_def)
    then have "length bs < 2 ^ 64" using small by (simp add: encode_value_length)
    then show ?thesis using small by (simp add: bs frame_def u64_of_usize_def)
  qed
  then obtain f where "\<And>kv. kv \<in> set kvs \<Longrightarrow> ?e kv = Inr (f kv)" by metis
  then have "traverse ?e (sort_key (str_bytes \<circ> fst) kvs) = Inr (map f (sort_key (str_bytes \<circ> fst) kvs))"
    by (intro traverse_map_Inr) simp
  then show ?case using len by (simp add: u64_of_usize_def)
qed simp_all

section \<open>An encoding determines its value\<close>

text \<open>Equality of values up to the order of object keys, which the encoder sorts away.\<close>

fun vnorm :: "Value \<Rightarrow> Value" where
  "vnorm (VArray vs) = VArray (map vnorm vs)"
| "vnorm (VObject kvs) = VObject (sort_key (str_bytes \<circ> fst) (map (\<lambda>kv. (fst kv, vnorm (snd kv))) kvs))"
| "vnorm v = v"

lemma insort_key_map: "insort_key f (h x) (map h xs) = map h (insort_key (f \<circ> h) x xs)"
  by (induction xs) auto

lemma sort_key_map: "sort_key f (map h xs) = map h (sort_key (f \<circ> h) xs)"
  by (induction xs) (simp_all add: insort_key_map [unfolded comp_def] comp_def)

lemma frames_inj:
  "traverse (\<lambda>v. bindr (e v) frame) vs = Inr ps \<Longrightarrow> traverse (\<lambda>v. bindr (e v) frame) ws = Inr qs \<Longrightarrow>
   length vs = length ws \<Longrightarrow> concat ps = concat qs \<Longrightarrow>
   list_all2 (\<lambda>v w. \<exists>b. e v = Inr b \<and> e w = Inr b) vs ws"
proof (induction vs arbitrary: ws ps qs)
  case Nil
  then show ?case by simp
next
  case (Cons v vs)
  then obtain w ws' where ws: "ws = w # ws'" by (cases ws) auto
  from Cons.prems ws obtain b p ps' c q qs' where *:
    "e v = Inr b" "frame b = Inr p" "traverse (\<lambda>v. bindr (e v) frame) vs = Inr ps'" "ps = p # ps'"
    "e w = Inr c" "frame c = Inr q" "traverse (\<lambda>v. bindr (e v) frame) ws' = Inr qs'" "qs = q # qs'"
    by (auto simp: bindr_Inr)
  then have "b = c \<and> concat ps' = concat qs'"
    using Cons.prems(4) frame_prefix [of b p c q "concat ps'" "concat qs'"] by simp
  with * Cons ws show ?case by simp
qed

lemma entries_inj:
  fixes e :: "Value \<Rightarrow> byte list result"
  defines "enc \<equiv> (\<lambda>kv. bindr (frame (str_bytes (fst kv))) (\<lambda>key.
              bindr (e (snd kv)) (\<lambda>encoded. bindr (frame encoded) (\<lambda>val. Inr (key @ val)))))"
  shows "traverse enc vs = Inr ps \<Longrightarrow> traverse enc ws = Inr qs \<Longrightarrow>
   length vs = length ws \<Longrightarrow> concat ps = concat qs \<Longrightarrow>
   list_all2 (\<lambda>v w. fst v = fst w \<and> (\<exists>k. frame (str_bytes (fst v)) = Inr k) \<and> (\<exists>b. e (snd v) = Inr b \<and> e (snd w) = Inr b)) vs ws"
proof (induction vs arbitrary: ws ps qs)
  case Nil
  then show ?case by simp
next
  case (Cons v vs)
  then obtain w ws' where ws: "ws = w # ws'" by (cases ws) auto
  from Cons.prems ws obtain k b p ps' l c q qs' where *:
    "frame (str_bytes (fst v)) = Inr k" "e (snd v) = Inr b" "frame b = Inr p"
    "traverse enc vs = Inr ps'" "ps = (k @ p) # ps'"
    "frame (str_bytes (fst w)) = Inr l" "e (snd w) = Inr c" "frame c = Inr q"
    "traverse enc ws' = Inr qs'" "qs = (l @ q) # qs'"
    by (auto simp: bindr_Inr enc_def)
  then have "str_bytes (fst v) = str_bytes (fst w) \<and> p @ concat ps' = q @ concat qs'"
    using Cons.prems(4) by (intro frame_prefix) auto
  moreover from this have "b = c \<and> concat ps' = concat qs'"
    using * by (intro frame_prefix) auto
  ultimately show ?case using * Cons ws by simp
qed

lemma encode_value_inj:
  "encode_value v = Inr bs \<Longrightarrow> encode_value w = Inr bs \<Longrightarrow> vnorm v = vnorm w"
proof (induction v arbitrary: w bs rule: encode_value.induct)
  case (3 n)
  then show ?case
    by (cases n; cases w; auto simp: bindr_Inr split: if_splits elim!: encode_number.elims)
next
  case (4 s)
  then show ?case
    by (cases w) (auto simp: bindr_Inr frame_Inr of_nat_u64_inject elim!: encode_number.elims split: if_splits)
next
  case (5 vs)
  from "5.prems"(1) obtain count parts where
    parts: "traverse (\<lambda>v. bindr (encode_value v) frame) vs = Inr parts"
    and bs: "bs = 6 # be_bytes64 count @ concat parts"
    and count: "ok_or (CanonicalEncoding ''array exceeds u64 length'') (u64_of_usize (length vs)) = Inr count"
    by (auto simp: bindr_Inr)
  from "5.prems"(2) bs obtain ws qs where w: "w = VArray ws"
    and qs: "traverse (\<lambda>v. bindr (encode_value v) frame) ws = Inr qs"
    and eq: "be_bytes64 count = be_bytes64 (of_nat (length ws))" "concat parts = concat qs"
    and lw: "length ws < 2 ^ 64"
    by (cases w) (auto simp: bindr_Inr result_simps u64_of_usize_Some split: if_splits elim!: encode_number.elims)
  have len: "length vs = length ws"
    using count eq(1) lw by (auto simp: result_simps u64_of_usize_Some of_nat_u64_inject)
  from frames_inj [OF parts qs len eq(2)]
  have "list_all2 (\<lambda>v w. vnorm v = vnorm w) vs ws"
    by (rule list.rel_mono_strong) (use "5.IH" [OF count] in blast)
  then have "map vnorm vs = map vnorm ws"
    by (simp add: list_all2_map1 list_all2_map2 flip: list.rel_eq)
  then show ?case by (simp add: w)
next
  case (6 kvs)
  let ?s = "sort_key (str_bytes \<circ> fst) :: (string \<times> Value) list \<Rightarrow> _"
  let ?e = "\<lambda>kv. bindr (frame (str_bytes (fst kv))) (\<lambda>key.
              bindr (encode_value (snd kv)) (\<lambda>encoded. bindr (frame encoded) (\<lambda>val. Inr (key @ val))))"
  from "6.prems"(1) obtain count parts where
    parts: "traverse ?e (?s kvs) = Inr parts"
    and bs: "bs = 7 # be_bytes64 count @ concat parts"
    and count: "ok_or (CanonicalEncoding ''object exceeds u64 length'') (u64_of_usize (length kvs)) = Inr count"
    by (auto simp: bindr_Inr)
  from "6.prems"(2) bs obtain lws qs where w: "w = VObject lws"
    and qs: "traverse ?e (?s lws) = Inr qs"
    and eq: "be_bytes64 count = be_bytes64 (of_nat (length lws))" "concat parts = concat qs"
    and lw: "length lws < 2 ^ 64"
    by (cases w) (auto simp: bindr_Inr result_simps u64_of_usize_Some split: if_splits elim!: encode_number.elims)
  have len: "length (?s kvs) = length (?s lws)"
    using count eq(1) lw by (auto simp: result_simps u64_of_usize_Some of_nat_u64_inject)
  from entries_inj [OF parts qs len eq(2)]
  have "list_all2 (\<lambda>v w. fst v = fst w \<and> vnorm (snd v) = vnorm (snd w)) (?s kvs) (?s lws)"
    by (rule list.rel_mono_strong) (use "6.IH" [OF count] in blast)
  then have "map (\<lambda>kv. (fst kv, vnorm (snd kv))) (?s kvs) = map (\<lambda>kv. (fst kv, vnorm (snd kv))) (?s lws)"
    by (simp add: list_all2_map1 list_all2_map2 flip: list.rel_eq)
  then show ?case by (simp add: w sort_key_map comp_def)
next
  case 1
  then show ?case
    by (cases w) (auto simp: bindr_Inr split: if_splits elim!: encode_number.elims)
next
  case (2 b)
  then show ?case
    by (cases w) (auto simp: bindr_Inr split: if_splits elim!: encode_number.elims)
qed

text \<open>
  C32: the canonical encoding is injective up to the order of object keys: two values with the
  same authority bytes agree after their objects are sorted, so a hash over the bytes commits to
  every field, element, length and tag.
\<close>

theorem encode_value_injective:
  assumes "encode_value v = Inr bs" and "encode_value w = Inr bs"
  shows "vnorm v = vnorm w"
  using assms by (rule encode_value_inj)

theorem encode_value_injective_witness:
  "vnorm (VObject [(''b'', VNumber (NPos 2)), (''a'', VBool True)])
     = vnorm (VObject [(''a'', VBool True), (''b'', VNumber (NPos 2))])"
proof -
  define bs where "bs = concat
    [[7], be_bytes64 2, be_bytes64 1, [97], be_bytes64 1, [2], be_bytes64 1, [98], be_bytes64 9, [3], be_bytes64 2]"
  have a: "encode_value (VObject [(''b'', VNumber (NPos 2)), (''a'', VBool True)]) = Inr bs"
    by (simp add: bs_def frame_def u64_of_usize_def be_bytes64_length)
  have b: "encode_value (VObject [(''a'', VBool True), (''b'', VNumber (NPos 2))]) = Inr bs"
    by (simp add: bs_def frame_def u64_of_usize_def be_bytes64_length)
  show ?thesis by (rule encode_value_injective [OF a b])
qed

text \<open>
  the encoder is total and length-exact on float-free values: it returns bytes exactly when
  no float occurs and every length fits 64 bits, and their number is \<open>vsize\<close>.  The only error
  reachable with lengths in range is the one for floats.
\<close>

theorem encode_value_exact_length:
  assumes "float_free v" and "vsize v < 2 ^ 64"
  shows "\<exists>bs. encode_value v = Inr bs \<and> length bs = vsize v"
  using encode_value_total [OF assms] encode_value_length by blast

theorem encode_value_exact_length_witness:
  "\<exists>bs. encode_value (VArray [VNull, VString ''ab'']) = Inr bs
     \<and> length bs = vsize (VArray [VNull, VString ''ab''])"
  by (rule encode_value_exact_length) simp_all

end
