(* ===== verification/Model.thy ===== *)
theory Model
  imports Canonical
begin

text \<open>
  The data model of \<open>model.rs\<close>: one record per struct and one datatype per enum, with the
  fields in the order of the source.  A field is prefixed with two letters of its struct because
  many structs share field names.  \<open>BTreeSet<String>\<close> is a finite set of strings,
  \<open>BTreeMap\<close> a finite map.
\<close>

section \<open>Scope, time, sealing\<close>

record MemoryScopeV1 =
  sc_memory_space_id :: string
  sc_repository_id :: "string option"
  sc_task_id :: "string option"
  sc_agent_id :: "string option"
  sc_session_id :: string

record TimeIntervalV1 =
  iv_started_at_us :: u64
  iv_ended_at_us :: u64
  iv_recorded_at_us :: u64

datatype SealReasonV1 =
    GoalCompleted | TerminalFailure | GoalChanged | ContextChanged | Checkpoint | Handoff | Timeout

datatype RetentionPermissionV1 =
    TransientOnly | SemanticAllowed | SemanticAndExactAllowed

section \<open>Episode content\<close>

record ObservationV1 =
  ob_at_us :: u64
  ob_source :: string
  ob_content :: string
  ob_artifact_digest :: "Digest32 option"

record InterpretationV1 =
  ip_content :: string
  ip_confidence :: Ppm
  ip_evidence :: "Digest32 list"

record BeliefV1 =
  be_proposition :: string
  be_confidence :: Ppm
  be_evidence :: "Digest32 list"

record DecisionRecordV1 =
  dr_decision :: string
  dr_rationale :: string

record RejectedAlternativeV1 =
  ra_alternative :: string
  ra_reason :: string

record ActionRecordV1 =
  ac_action :: string
  ac_result :: "string option"

record OutcomeV1 =
  oc_class :: string
  oc_summary :: string
  oc_succeeded :: bool

record FeedbackSignalV1 =
  fe_source :: string
  fe_positive :: bool
  fe_note :: "string option"

record FormationSignalsV1 =
  fo_utility :: Ppm
  fo_salience :: Ppm
  fo_novelty :: Ppm
  fo_uncertainty :: Ppm

definition FormationSignalsV1_default :: FormationSignalsV1 where
  "FormationSignalsV1_default = \<lparr>fo_utility = PPM_ZERO, fo_salience = PPM_ZERO,
     fo_novelty = PPM_ZERO, fo_uncertainty = PPM_ZERO\<rparr>"

record ProvenanceV1 =
  pv_producer :: string
  pv_source_event_digests :: "Digest32 list"
  pv_policy_digest :: Digest32

section \<open>Relations and artifacts\<close>

datatype MemoryRelationKindV1 = Continues | Supports | Contradicts | Supersedes | DerivedFrom

record MemoryRelationV1 =
  re_kind :: MemoryRelationKindV1
  re_target :: AtomId

record ArtifactRefV1 =
  ar_digest :: Digest32
  ar_size_bytes :: u64
  ar_media_type :: string
  ar_retention_allowed :: bool
  ar_inline_payload :: "byte list option"

section \<open>Payloads and the immutable body\<close>

record EpisodePayloadV1 =
  ep_event_sequence_start :: u64
  ep_event_sequence_end :: u64
  ep_continues :: "AtomId option"

record ConsolidationScoreV1 =
  cs_support :: Ppm
  cs_diversity :: Ppm
  cs_utility :: Ppm
  cs_salience :: Ppm
  cs_cohesion :: Ppm
  cs_novelty :: Ppm
  cs_uncertainty :: Ppm
  cs_total :: Ppm

record SemanticPayloadV1 =
  sp_source_ids :: "AtomId list"
  sp_source_body_digests :: "(AtomId, Digest32) fmap"
  sp_score :: ConsolidationScoreV1
  sp_consensus_numerator :: u32
  sp_consensus_denominator :: u32
  sp_supersedes :: "AtomId option"

datatype MemoryPayloadV1 = EpisodePayload EpisodePayloadV1 | SemanticPayload SemanticPayloadV1

datatype MemoryKindV1 = Episode | Semantic

record MemoryAtomBodyV1 =
  bd_contract_version :: string
  bd_scope :: MemoryScopeV1
  bd_interval :: TimeIntervalV1
  bd_trigger :: string
  bd_seal_reason :: SealReasonV1
  bd_goal :: "string option"
  bd_plan :: "string list"
  bd_internal_state_before :: "(string, string) fmap"
  bd_internal_state_after :: "(string, string) fmap"
  bd_observations :: "ObservationV1 list"
  bd_interpretations :: "InterpretationV1 list"
  bd_beliefs :: "BeliefV1 list"
  bd_decisions :: "DecisionRecordV1 list"
  bd_rejected_alternatives :: "RejectedAlternativeV1 list"
  bd_actions :: "ActionRecordV1 list"
  bd_outcome :: "OutcomeV1 option"
  bd_feedback :: "FeedbackSignalV1 list"
  bd_formation_signals :: FormationSignalsV1
  bd_topic_keys :: "string fset"
  bd_entity_ids :: "string fset"
  bd_outcome_class :: "string option"
  bd_goal_key :: "string option"
  bd_provenance :: ProvenanceV1
  bd_relations :: "MemoryRelationV1 list"
  bd_artifacts :: "ArtifactRefV1 list"
  bd_retention_permission :: RetentionPermissionV1
  bd_payload :: MemoryPayloadV1

definition body_kind :: "MemoryAtomBodyV1 \<Rightarrow> MemoryKindV1" where
  "body_kind b = (case bd_payload b of EpisodePayload _ \<Rightarrow> Episode | SemanticPayload _ \<Rightarrow> Semantic)"

definition retained_artifact_digests :: "MemoryAtomBodyV1 \<Rightarrow> Digest32 list" where
  "retained_artifact_digests b =
     remdups_adj (sort (map ar_digest (filter ar_retention_allowed (bd_artifacts b))))"

section \<open>Mutable state\<close>

datatype RetentionTierV1 =
    ShortTerm | SemanticLongTerm | EpisodicLongTerm | DualLongTerm | HeaderOnly

datatype ContentStatusV1 = Present | Forgotten | Corrupt

record AtomStateV1 =
  st_retention_tier :: RetentionTierV1
  st_content_status :: ContentStatusV1
  st_expires_at_us :: "u64 option"
  st_superseded_by :: "AtomId option"
  st_feedback_positive :: u64
  st_feedback_negative :: u64
  st_retrieval_count :: u64
  st_retirement_run_id :: "Digest32 option"

definition validated_utility :: "AtomStateV1 \<Rightarrow> Ppm" where
  "validated_utility s =
     Ppm_ratio (saturating_add (st_feedback_positive s) 1)
       (saturating_add (saturating_add (st_feedback_positive s) (st_feedback_negative s)) 2)"

definition is_episodic_ltm :: "AtomStateV1 \<Rightarrow> bool" where
  "is_episodic_ltm s \<longleftrightarrow> st_retention_tier s = EpisodicLongTerm \<or> st_retention_tier s = DualLongTerm"

datatype IntegrityStatusV1 = Complete | MissingBody | MissingArtifact | DigestMismatch

record RetirementCandidateV1 =
  rc_atom_id :: AtomId
  rc_body_digest :: Digest32
  rc_body :: "MemoryAtomBodyV1 option"
  rc_state :: AtomStateV1
  rc_integrity :: IntegrityStatusV1
  rc_exact_package_bytes :: u64

section \<open>Properties of the derived views\<close>

lemma set_retained_artifact_digests:
  "set (retained_artifact_digests b) = {ar_digest a | a. a \<in> set (bd_artifacts b) \<and> ar_retention_allowed a}"
  by (auto simp: retained_artifact_digests_def)

lemma sorted_distinct_remdups_adj: "sorted xs \<Longrightarrow> sorted_wrt (<) (remdups_adj (xs :: 'a::linorder list))"
  by (simp add: sorted_wrt_less_iff sorted_remdups_adj)
    (induction xs rule: remdups_adj.induct; auto)

text \<open>
  the artifact digests an exactly retained atom pins are exactly the digests of its
  retention-permitted artifacts, in strictly ascending order and without duplicates.
\<close>

theorem retained_artifact_digests_spec:
  "sorted_wrt (<) (retained_artifact_digests b) \<and>
   set (retained_artifact_digests b) = {ar_digest a | a. a \<in> set (bd_artifacts b) \<and> ar_retention_allowed a}"
proof
  show "sorted_wrt (<) (retained_artifact_digests b)"
    unfolding retained_artifact_digests_def by (rule sorted_distinct_remdups_adj) simp
qed (rule set_retained_artifact_digests)

lemma validated_utility_ok [simp]: "ppm_ok (validated_utility s)"
  by (simp add: validated_utility_def)

lemma validated_utility_eq:
  assumes "unat (st_feedback_positive s) + unat (st_feedback_negative s) + 2 < 2 ^ 64"
  shows "unat (ppm_get (validated_utility s)) =
    (unat (st_feedback_positive s) + 1) * 1000000
      div (unat (st_feedback_positive s) + unat (st_feedback_negative s) + 2)"
proof -
  let ?p = "unat (st_feedback_positive s)" and ?n = "unat (st_feedback_negative s)"
  have d: "unat (saturating_add (saturating_add (st_feedback_positive s) (st_feedback_negative s)) 2) = ?p + ?n + 2"
    using assms by (simp add: unat_simps)
  then have d0: "saturating_add (saturating_add (st_feedback_positive s) (st_feedback_negative s)) 2 \<noteq> 0"
    by (metis add_is_0 unat_0 zero_neq_numeral)
  have n: "unat (saturating_add (st_feedback_positive s) 1) = ?p + 1"
    using assms by (simp add: unat_simps)
  have "(?p + 1) * 1000000 div (?p + ?n + 2) \<le> (?p + ?n + 2) * 1000000 div (?p + ?n + 2)"
    by (rule div_le_mono) simp
  also have "\<dots> = 1000000" by (rule nonzero_mult_div_cancel_left) simp
  finally show ?thesis
    using d0 by (simp add: validated_utility_def unat_Ppm_ratio d n)
qed

lemma validated_utility_retrieval_irrelevant [simp]:
  "validated_utility (s\<lparr>st_retrieval_count := c\<rparr>) = validated_utility s"
  by (simp add: validated_utility_def)

end
