(* ===== verification/Encode.thy ===== *)
theory Encode
  imports Model
begin

text \<open>
  The authority bytes of the domain types.  \<open>v_T\<close> is the \<open>serde_json\<close> value that the
  \<open>derive(Serialize)\<close> of struct \<open>T\<close> produces: an object with one entry per field in
  declaration order, \<open>None\<close> as null, a unit variant as its snake-case name, an adjacently
  tagged enum as a kind and data object, a newtype as its content, a map with its keys as
  strings.  On top of it are the canonical bytes, the content address and the size functions of
  \<open>model.rs\<close>.
\<close>

section \<open>Leaves\<close>

definition v_u64 :: "u64 \<Rightarrow> Value" where
  "v_u64 x = VNumber (NPos x)"

definition v_u32 :: "u32 \<Rightarrow> Value" where
  "v_u32 x = VNumber (NPos (ucast x))"

definition v_usize :: "usize \<Rightarrow> Value" where
  "v_usize n = VNumber (NPos (of_nat n))"

definition v_byte :: "byte \<Rightarrow> Value" where
  "v_byte b = VNumber (NPos (ucast b))"

definition v_ppm :: "Ppm \<Rightarrow> Value" where
  "v_ppm p = v_u32 (ppm_get p)"

definition v_digest :: "Digest32 \<Rightarrow> Value" where
  "v_digest d = VString (to_hex d)"

definition v_atom_id :: "AtomId \<Rightarrow> Value" where
  "v_atom_id a = v_digest (atom_digest a)"

definition v_seed :: "Seed32 \<Rightarrow> Value" where
  "v_seed s = v_digest (seed_digest s)"

definition v_option :: "('a \<Rightarrow> Value) \<Rightarrow> 'a option \<Rightarrow> Value" where
  "v_option f x = (case x of None \<Rightarrow> VNull | Some v \<Rightarrow> f v)"

definition v_vec :: "('a \<Rightarrow> Value) \<Rightarrow> 'a list \<Rightarrow> Value" where
  "v_vec f xs = VArray (map f xs)"

definition v_string_set :: "string fset \<Rightarrow> Value" where
  "v_string_set A = v_vec VString (sorted_list_of_fset A)"

definition v_map :: "('k::linorder \<Rightarrow> string) \<Rightarrow> ('v \<Rightarrow> Value) \<Rightarrow> ('k, 'v) fmap \<Rightarrow> Value" where
  "v_map kf vf m = VObject (map (\<lambda>(k, v). (kf k, vf v)) (sorted_list_of_fmap m))"

section \<open>Enums\<close>

fun v_seal_reason :: "SealReasonV1 \<Rightarrow> Value" where
  "v_seal_reason GoalCompleted = VString ''goal_completed''"
| "v_seal_reason TerminalFailure = VString ''terminal_failure''"
| "v_seal_reason GoalChanged = VString ''goal_changed''"
| "v_seal_reason ContextChanged = VString ''context_changed''"
| "v_seal_reason Checkpoint = VString ''checkpoint''"
| "v_seal_reason Handoff = VString ''handoff''"
| "v_seal_reason Timeout = VString ''timeout''"

fun v_permission :: "RetentionPermissionV1 \<Rightarrow> Value" where
  "v_permission TransientOnly = VString ''transient_only''"
| "v_permission SemanticAllowed = VString ''semantic_allowed''"
| "v_permission SemanticAndExactAllowed = VString ''semantic_and_exact_allowed''"

fun v_relation_kind :: "MemoryRelationKindV1 \<Rightarrow> Value" where
  "v_relation_kind Continues = VString ''continues''"
| "v_relation_kind Supports = VString ''supports''"
| "v_relation_kind Contradicts = VString ''contradicts''"
| "v_relation_kind Supersedes = VString ''supersedes''"
| "v_relation_kind DerivedFrom = VString ''derived_from''"

fun v_kind :: "MemoryKindV1 \<Rightarrow> Value" where
  "v_kind Episode = VString ''episode''"
| "v_kind Semantic = VString ''semantic''"

fun v_tier :: "RetentionTierV1 \<Rightarrow> Value" where
  "v_tier ShortTerm = VString ''short_term''"
| "v_tier SemanticLongTerm = VString ''semantic_long_term''"
| "v_tier EpisodicLongTerm = VString ''episodic_long_term''"
| "v_tier DualLongTerm = VString ''dual_long_term''"
| "v_tier HeaderOnly = VString ''header_only''"

fun v_content_status :: "ContentStatusV1 \<Rightarrow> Value" where
  "v_content_status Present = VString ''present''"
| "v_content_status Forgotten = VString ''forgotten''"
| "v_content_status Corrupt = VString ''corrupt''"

fun v_integrity :: "IntegrityStatusV1 \<Rightarrow> Value" where
  "v_integrity Complete = VString ''complete''"
| "v_integrity MissingBody = VString ''missing_body''"
| "v_integrity MissingArtifact = VString ''missing_artifact''"
| "v_integrity DigestMismatch = VString ''digest_mismatch''"

section \<open>Structs\<close>

definition v_scope :: "MemoryScopeV1 \<Rightarrow> Value" where
  "v_scope s = VObject [
     (''memory_space_id'', VString (sc_memory_space_id s)),
     (''repository_id'', v_option VString (sc_repository_id s)),
     (''task_id'', v_option VString (sc_task_id s)),
     (''agent_id'', v_option VString (sc_agent_id s)),
     (''session_id'', VString (sc_session_id s))]"

definition v_interval :: "TimeIntervalV1 \<Rightarrow> Value" where
  "v_interval i = VObject [
     (''started_at_us'', v_u64 (iv_started_at_us i)),
     (''ended_at_us'', v_u64 (iv_ended_at_us i)),
     (''recorded_at_us'', v_u64 (iv_recorded_at_us i))]"

definition v_observation :: "ObservationV1 \<Rightarrow> Value" where
  "v_observation x = VObject [
     (''at_us'', v_u64 (ob_at_us x)),
     (''source'', VString (ob_source x)),
     (''content'', VString (ob_content x)),
     (''artifact_digest'', v_option v_digest (ob_artifact_digest x))]"

definition v_interpretation :: "InterpretationV1 \<Rightarrow> Value" where
  "v_interpretation x = VObject [
     (''content'', VString (ip_content x)),
     (''confidence'', v_ppm (ip_confidence x)),
     (''evidence'', v_vec v_digest (ip_evidence x))]"

definition v_belief :: "BeliefV1 \<Rightarrow> Value" where
  "v_belief x = VObject [
     (''proposition'', VString (be_proposition x)),
     (''confidence'', v_ppm (be_confidence x)),
     (''evidence'', v_vec v_digest (be_evidence x))]"

definition v_decision_record :: "DecisionRecordV1 \<Rightarrow> Value" where
  "v_decision_record x = VObject [
     (''decision'', VString (dr_decision x)),
     (''rationale'', VString (dr_rationale x))]"

definition v_rejected :: "RejectedAlternativeV1 \<Rightarrow> Value" where
  "v_rejected x = VObject [
     (''alternative'', VString (ra_alternative x)),
     (''reason'', VString (ra_reason x))]"

definition v_action :: "ActionRecordV1 \<Rightarrow> Value" where
  "v_action x = VObject [
     (''action'', VString (ac_action x)),
     (''result'', v_option VString (ac_result x))]"

definition v_outcome :: "OutcomeV1 \<Rightarrow> Value" where
  "v_outcome x = VObject [
     (''class'', VString (oc_class x)),
     (''summary'', VString (oc_summary x)),
     (''succeeded'', VBool (oc_succeeded x))]"

definition v_feedback :: "FeedbackSignalV1 \<Rightarrow> Value" where
  "v_feedback x = VObject [
     (''source'', VString (fe_source x)),
     (''positive'', VBool (fe_positive x)),
     (''note'', v_option VString (fe_note x))]"

definition v_formation :: "FormationSignalsV1 \<Rightarrow> Value" where
  "v_formation x = VObject [
     (''utility'', v_ppm (fo_utility x)),
     (''salience'', v_ppm (fo_salience x)),
     (''novelty'', v_ppm (fo_novelty x)),
     (''uncertainty'', v_ppm (fo_uncertainty x))]"

definition v_provenance :: "ProvenanceV1 \<Rightarrow> Value" where
  "v_provenance x = VObject [
     (''producer'', VString (pv_producer x)),
     (''source_event_digests'', v_vec v_digest (pv_source_event_digests x)),
     (''policy_digest'', v_digest (pv_policy_digest x))]"

definition v_relation :: "MemoryRelationV1 \<Rightarrow> Value" where
  "v_relation x = VObject [
     (''kind'', v_relation_kind (re_kind x)),
     (''target'', v_atom_id (re_target x))]"

definition v_artifact :: "ArtifactRefV1 \<Rightarrow> Value" where
  "v_artifact x = VObject [
     (''digest'', v_digest (ar_digest x)),
     (''size_bytes'', v_u64 (ar_size_bytes x)),
     (''media_type'', VString (ar_media_type x)),
     (''retention_allowed'', VBool (ar_retention_allowed x)),
     (''inline_payload'', v_option (v_vec v_byte) (ar_inline_payload x))]"

definition v_episode_payload :: "EpisodePayloadV1 \<Rightarrow> Value" where
  "v_episode_payload x = VObject [
     (''event_sequence_start'', v_u64 (ep_event_sequence_start x)),
     (''event_sequence_end'', v_u64 (ep_event_sequence_end x)),
     (''continues'', v_option v_atom_id (ep_continues x))]"

definition v_score :: "ConsolidationScoreV1 \<Rightarrow> Value" where
  "v_score x = VObject [
     (''support'', v_ppm (cs_support x)),
     (''diversity'', v_ppm (cs_diversity x)),
     (''utility'', v_ppm (cs_utility x)),
     (''salience'', v_ppm (cs_salience x)),
     (''cohesion'', v_ppm (cs_cohesion x)),
     (''novelty'', v_ppm (cs_novelty x)),
     (''uncertainty'', v_ppm (cs_uncertainty x)),
     (''total'', v_ppm (cs_total x))]"

definition v_semantic_payload :: "SemanticPayloadV1 \<Rightarrow> Value" where
  "v_semantic_payload x = VObject [
     (''source_ids'', v_vec v_atom_id (sp_source_ids x)),
     (''source_body_digests'', v_map (\<lambda>a. to_hex (atom_digest a)) v_digest (sp_source_body_digests x)),
     (''score'', v_score (sp_score x)),
     (''consensus_numerator'', v_u32 (sp_consensus_numerator x)),
     (''consensus_denominator'', v_u32 (sp_consensus_denominator x)),
     (''supersedes'', v_option v_atom_id (sp_supersedes x))]"

fun v_payload :: "MemoryPayloadV1 \<Rightarrow> Value" where
  "v_payload (EpisodePayload p) = VObject [(''kind'', VString ''episode''), (''data'', v_episode_payload p)]"
| "v_payload (SemanticPayload p) = VObject [(''kind'', VString ''semantic''), (''data'', v_semantic_payload p)]"

definition v_body :: "MemoryAtomBodyV1 \<Rightarrow> Value" where
  "v_body b = VObject [
     (''contract_version'', VString (bd_contract_version b)),
     (''scope'', v_scope (bd_scope b)),
     (''interval'', v_interval (bd_interval b)),
     (''trigger'', VString (bd_trigger b)),
     (''seal_reason'', v_seal_reason (bd_seal_reason b)),
     (''goal'', v_option VString (bd_goal b)),
     (''plan'', v_vec VString (bd_plan b)),
     (''internal_state_before'', v_map id VString (bd_internal_state_before b)),
     (''internal_state_after'', v_map id VString (bd_internal_state_after b)),
     (''observations'', v_vec v_observation (bd_observations b)),
     (''interpretations'', v_vec v_interpretation (bd_interpretations b)),
     (''beliefs'', v_vec v_belief (bd_beliefs b)),
     (''decisions'', v_vec v_decision_record (bd_decisions b)),
     (''rejected_alternatives'', v_vec v_rejected (bd_rejected_alternatives b)),
     (''actions'', v_vec v_action (bd_actions b)),
     (''outcome'', v_option v_outcome (bd_outcome b)),
     (''feedback'', v_vec v_feedback (bd_feedback b)),
     (''formation_signals'', v_formation (bd_formation_signals b)),
     (''topic_keys'', v_string_set (bd_topic_keys b)),
     (''entity_ids'', v_string_set (bd_entity_ids b)),
     (''outcome_class'', v_option VString (bd_outcome_class b)),
     (''goal_key'', v_option VString (bd_goal_key b)),
     (''provenance'', v_provenance (bd_provenance b)),
     (''relations'', v_vec v_relation (bd_relations b)),
     (''artifacts'', v_vec v_artifact (bd_artifacts b)),
     (''retention_permission'', v_permission (bd_retention_permission b)),
     (''payload'', v_payload (bd_payload b))]"

definition v_state :: "AtomStateV1 \<Rightarrow> Value" where
  "v_state s = VObject [
     (''retention_tier'', v_tier (st_retention_tier s)),
     (''content_status'', v_content_status (st_content_status s)),
     (''expires_at_us'', v_option v_u64 (st_expires_at_us s)),
     (''superseded_by'', v_option v_atom_id (st_superseded_by s)),
     (''feedback_positive'', v_u64 (st_feedback_positive s)),
     (''feedback_negative'', v_u64 (st_feedback_negative s)),
     (''retrieval_count'', v_u64 (st_retrieval_count s)),
     (''retirement_run_id'', v_option v_digest (st_retirement_run_id s))]"

section \<open>Content addresses and sizes\<close>

definition ATOM_HASH_DOMAIN :: "byte list" where
  "ATOM_HASH_DOMAIN = str_bytes ''naome-memory:atom:v1'' @ [0]"

definition body_canonical_bytes :: "MemoryAtomBodyV1 \<Rightarrow> byte list result" where
  "body_canonical_bytes b = encode_value (v_body b)"

definition atom_id :: "(byte list \<Rightarrow> Digest32) \<Rightarrow> MemoryAtomBodyV1 \<Rightarrow> AtomId result" where
  "atom_id sha b = bindr (body_canonical_bytes b)
     (\<lambda>bytes. Inr (AtomId (hash_prefixed sha ATOM_HASH_DOMAIN bytes)))"

definition encoded_size_bytes :: "MemoryAtomBodyV1 \<Rightarrow> u64 result" where
  "encoded_size_bytes b = bindr (body_canonical_bytes b)
     (\<lambda>bytes. ok_or (CanonicalEncoding ''atom body exceeds u64 length'') (u64_of_usize (length bytes)))"

definition retained_artifact_bytes :: "MemoryAtomBodyV1 \<Rightarrow> u64 result" where
  "retained_artifact_bytes b =
     try_fold (\<lambda>sum a. ok_or (CanonicalEncoding ''artifact byte total overflowed u64'')
         (checked_add sum (ar_size_bytes a))) 0
       (filter ar_retention_allowed (bd_artifacts b))"

definition exact_package_bytes :: "MemoryAtomBodyV1 \<Rightarrow> u64 result" where
  "exact_package_bytes b =
     bindr (retained_artifact_bytes b) (\<lambda>artifact_bytes.
     bindr (encoded_size_bytes b) (\<lambda>size.
       ok_or (CanonicalEncoding ''exact package byte total overflowed u64'')
         (checked_add size artifact_bytes)))"

definition from_present_body ::
  "(byte list \<Rightarrow> Digest32) \<Rightarrow> MemoryAtomBodyV1 \<Rightarrow> AtomStateV1 \<Rightarrow> RetirementCandidateV1 result" where
  "from_present_body sha body state =
     bindr (atom_id sha body) (\<lambda>aid.
     bindr (exact_package_bytes body) (\<lambda>bytes.
       Inr \<lparr>rc_atom_id = aid, rc_body_digest = atom_digest aid, rc_body = Some body,
            rc_state = state, rc_integrity = Complete, rc_exact_package_bytes = bytes\<rparr>))"

end
