(* ===== verification/Binding.thy ===== *)
theory Binding
  imports Encode
begin

text \<open>
  The authority bytes bind the whole domain value: every \<open>v_T\<close> of the theory \<open>Encode\<close> is
  injective, also up to the order of object keys, so with the injectivity of the encoder two
  bodies with the same canonical bytes are equal.  Content addresses, plan digests and receipt
  digests therefore commit to every field.
\<close>

named_theorems vnorm_inj \<open>injectivity of the value conversions up to key order\<close>

section \<open>Objects with the same keys\<close>

lemma assoc_mset_unique:
  assumes "mset xs = mset ys" "map fst xs = map fst ys" "distinct (map fst xs)"
  shows "xs = ys"
proof (rule nth_equalityI)
  show len: "length xs = length ys" using assms(2) by (metis length_map)
  fix i assume i: "i < length xs"
  have fst_eq: "fst (xs ! i) = fst (ys ! i)"
    using assms(2) i len by (metis nth_map)
  have "xs ! i \<in> set ys" using assms(1) i by (metis nth_mem set_mset_mset)
  moreover have "ys ! i \<in> set ys" using i len by simp
  moreover have "inj_on fst (set ys)" using assms(2,3) by (simp add: distinct_map)
  ultimately show "xs ! i = ys ! i" using fst_eq by (meson inj_onD)
qed

lemma vnorm_object_mset:
  assumes "vnorm (VObject kvs) = vnorm (VObject lws)"
  shows "mset (map (\<lambda>kv. (fst kv, vnorm (snd kv))) kvs) = mset (map (\<lambda>kv. (fst kv, vnorm (snd kv))) lws)"
proof -
  let ?n = "map (\<lambda>kv. (fst kv, vnorm (snd kv)))"
  have "sort_key (str_bytes \<circ> fst) (?n kvs) = sort_key (str_bytes \<circ> fst) (?n lws)"
    using assms unfolding vnorm.simps(2) Value.inject .
  then have "mset (sort_key (str_bytes \<circ> fst) (?n kvs)) = mset (sort_key (str_bytes \<circ> fst) (?n lws))"
    by (rule arg_cong)
  then show ?thesis unfolding mset_sort .
qed

lemma vnorm_object_eq:
  assumes "map fst kvs = map fst lws" "distinct (map fst kvs)"
  shows "vnorm (VObject kvs) = vnorm (VObject lws) \<longleftrightarrow>
    list_all2 (\<lambda>a b. vnorm a = vnorm b) (map snd kvs) (map snd lws)"
proof
  let ?n = "map (\<lambda>kv. (fst kv, vnorm (snd kv)))"
  assume "vnorm (VObject kvs) = vnorm (VObject lws)"
  then have "?n kvs = ?n lws"
    using assms by (intro assoc_mset_unique vnorm_object_mset) (simp_all add: comp_def)
  then have "map snd (?n kvs) = map snd (?n lws)" by simp
  then have "list_all2 (=) (map vnorm (map snd kvs)) (map vnorm (map snd lws))"
    by (simp add: comp_def list.rel_eq)
  then show "list_all2 (\<lambda>a b. vnorm a = vnorm b) (map snd kvs) (map snd lws)"
    by (simp add: list_all2_map1 list_all2_map2)
next
  assume "list_all2 (\<lambda>a b. vnorm a = vnorm b) (map snd kvs) (map snd lws)"
  then have "map (vnorm \<circ> snd) kvs = map (vnorm \<circ> snd) lws"
    by (simp add: list_all2_map1 list_all2_map2 list_all2_conv_all_nth list_eq_iff_nth_eq)
  then have "zip (map fst kvs) (map (vnorm \<circ> snd) kvs) = zip (map fst lws) (map (vnorm \<circ> snd) lws)"
    using assms(1) by simp
  then have "map (\<lambda>kv. (fst kv, vnorm (snd kv))) kvs = map (\<lambda>kv. (fst kv, vnorm (snd kv))) lws"
    by (simp add: zip_map_map zip_same_conv_map comp_def split_def)
  then show "vnorm (VObject kvs) = vnorm (VObject lws)" by (simp only: vnorm.simps)
qed

lemmas object_inj = vnorm_object_eq [OF refl]

lemma vnorm_kinds [simp]:
  "vnorm VNull = VNull" "vnorm (VBool b) = VBool b" "vnorm (VNumber n) = VNumber n"
  "vnorm (VString s) = VString s"
  by simp_all

lemma vnorm_not_null [simp]:
  "vnorm (VArray vs) \<noteq> VNull" "vnorm (VObject kvs) \<noteq> VNull"
  by simp_all

declare vnorm.simps(2) [simp del]

section \<open>Generic conversions\<close>

lemma v_u64_inj [vnorm_inj]: "vnorm (v_u64 x) = vnorm (v_u64 y) \<longleftrightarrow> x = y"
  by (simp add: v_u64_def)

lemma ucast_u32_u64_inject [simp]: "(ucast (x :: u32) :: u64) = ucast y \<longleftrightarrow> x = y"
  by (metis unat_ucast_u32_u64 unsigned_word_eqI)

lemma v_u32_inj [vnorm_inj]: "vnorm (v_u32 x) = vnorm (v_u32 y) \<longleftrightarrow> x = y"
  by (simp add: v_u32_def)

lemma v_byte_inj [vnorm_inj]: "vnorm (v_byte x) = vnorm (v_byte y) \<longleftrightarrow> x = y"
proof -
  have "unat (ucast b :: u64) = unat b" for b :: byte
    by (rule unat_ucast_up) simp
  then show ?thesis by (simp add: v_byte_def) (metis unsigned_word_eqI)
qed

lemma v_ppm_inj [vnorm_inj]: "vnorm (v_ppm x) = vnorm (v_ppm y) \<longleftrightarrow> x = y"
  by (auto simp: v_ppm_def vnorm_inj intro: Ppm.expand)

lemma v_string_inj [vnorm_inj]: "vnorm (VString x) = vnorm (VString y) \<longleftrightarrow> x = y"
  by simp

lemma v_bool_inj [vnorm_inj]: "vnorm (VBool x) = vnorm (VBool y) \<longleftrightarrow> x = y"
  by simp

lemma v_digest_inj [vnorm_inj]: "vnorm (v_digest x) = vnorm (v_digest y) \<longleftrightarrow> x = y"
  by (simp add: v_digest_def)

lemma v_atom_id_inj [vnorm_inj]: "vnorm (v_atom_id x) = vnorm (v_atom_id y) \<longleftrightarrow> x = y"
  by (simp add: v_atom_id_def vnorm_inj) (metis AtomId.expand)

lemma v_seed_inj [vnorm_inj]: "vnorm (v_seed x) = vnorm (v_seed y) \<longleftrightarrow> x = y"
  by (simp add: v_seed_def vnorm_inj) (metis Seed32.expand)

lemma v_option_inj:
  assumes "\<And>a b. vnorm (f a) = vnorm (f b) \<longleftrightarrow> a = b" "\<And>a. vnorm (f a) \<noteq> VNull"
  shows "vnorm (v_option f x) = vnorm (v_option f y) \<longleftrightarrow> x = y"
  using assms(1) assms(2) [symmetric] assms(2) by (cases x; cases y) (simp_all add: v_option_def)

lemma v_vec_inj:
  assumes "\<And>a b. vnorm (f a) = vnorm (f b) \<longleftrightarrow> a = b"
  shows "vnorm (v_vec f xs) = vnorm (v_vec f ys) \<longleftrightarrow> xs = ys"
proof -
  have "inj (vnorm \<circ> f)" using assms by (simp add: inj_def)
  then show ?thesis by (simp add: v_vec_def inj_map_eq_map)
qed

lemma v_string_set_inj [vnorm_inj]: "vnorm (v_string_set A) = vnorm (v_string_set B) \<longleftrightarrow> A = B"
  by (simp add: v_string_set_def v_vec_inj sorted_list_of_fset_inj)

lemma set_sorted_list_of_fmap: "set (sorted_list_of_fmap m) = {(k, v). fmlookup m k = Some v}"
  by (auto simp: sorted_list_of_fmap_def image_iff fmdom_notI dest: fmdomI)

lemma v_map_inj:
  assumes "\<And>a b. vnorm (vf a) = vnorm (vf b) \<longleftrightarrow> a = b" "inj kf"
  shows "vnorm (v_map kf vf m) = vnorm (v_map kf vf n) \<longleftrightarrow> m = n"
proof
  let ?g = "\<lambda>(k, v). (kf k, vnorm (vf v))"
  assume "vnorm (v_map kf vf m) = vnorm (v_map kf vf n)"
  then have "mset (map ?g (sorted_list_of_fmap m)) = mset (map ?g (sorted_list_of_fmap n))"
    unfolding v_map_def by (drule_tac vnorm_object_mset) (simp add: comp_def case_prod_beta')
  then have "set (map ?g (sorted_list_of_fmap m)) = set (map ?g (sorted_list_of_fmap n))"
    by (rule mset_eq_setD)
  then have "?g ` set (sorted_list_of_fmap m) = ?g ` set (sorted_list_of_fmap n)"
    by simp
  moreover have "inj ?g" using assms by (auto simp: inj_def)
  ultimately have "set (sorted_list_of_fmap m) = set (sorted_list_of_fmap n)"
    by (metis inj_image_eq_iff)
  then show "m = n"
    by (intro fmap_ext) (auto simp: set_sorted_list_of_fmap set_eq_iff
      intro: option.expand, metis not_None_eq)
qed simp


lemmas option_vec_inj = v_option_inj v_vec_inj

section \<open>Every domain type\<close>

lemma v_seal_reason_inj [vnorm_inj]: "vnorm (v_seal_reason x) = vnorm (v_seal_reason y) \<longleftrightarrow> x = y"
  by (cases x; cases y) simp_all

lemma v_permission_inj [vnorm_inj]: "vnorm (v_permission x) = vnorm (v_permission y) \<longleftrightarrow> x = y"
  by (cases x; cases y) simp_all

lemma v_relation_kind_inj [vnorm_inj]: "vnorm (v_relation_kind x) = vnorm (v_relation_kind y) \<longleftrightarrow> x = y"
  by (cases x; cases y) simp_all

lemma v_kind_inj [vnorm_inj]: "vnorm (v_kind x) = vnorm (v_kind y) \<longleftrightarrow> x = y"
  by (cases x; cases y) simp_all

lemma v_tier_inj [vnorm_inj]: "vnorm (v_tier x) = vnorm (v_tier y) \<longleftrightarrow> x = y"
  by (cases x; cases y) simp_all

lemma v_content_status_inj [vnorm_inj]: "vnorm (v_content_status x) = vnorm (v_content_status y) \<longleftrightarrow> x = y"
  by (cases x; cases y) simp_all

lemma v_integrity_inj [vnorm_inj]: "vnorm (v_integrity x) = vnorm (v_integrity y) \<longleftrightarrow> x = y"
  by (cases x; cases y) simp_all

lemma v_not_null [simp]:
  "vnorm (v_u64 a) \<noteq> VNull" "vnorm (v_digest d) \<noteq> VNull" "vnorm (v_atom_id i) \<noteq> VNull"
  "vnorm (v_outcome oc) \<noteq> VNull" "vnorm (v_vec f xs) \<noteq> VNull"
  by (simp_all add: v_u64_def v_digest_def v_atom_id_def v_outcome_def v_vec_def)

lemma inj_atom_key [simp]: "inj (\<lambda>a. to_hex (atom_digest a))"
  by (auto simp: inj_def intro: AtomId.expand)

lemma v_scope_inj [vnorm_inj]: "vnorm (v_scope x) = vnorm (v_scope y) \<longleftrightarrow> x = y"
  by (cases x; cases y) (simp add: v_scope_def vnorm_object_eq vnorm_inj option_vec_inj v_map_inj conj_ac)

lemma v_interval_inj [vnorm_inj]: "vnorm (v_interval x) = vnorm (v_interval y) \<longleftrightarrow> x = y"
  by (cases x; cases y) (simp add: v_interval_def vnorm_object_eq vnorm_inj option_vec_inj v_map_inj conj_ac)

lemma v_observation_inj [vnorm_inj]: "vnorm (v_observation x) = vnorm (v_observation y) \<longleftrightarrow> x = y"
  by (cases x; cases y) (simp add: v_observation_def vnorm_object_eq vnorm_inj option_vec_inj v_map_inj conj_ac)

lemma v_interpretation_inj [vnorm_inj]: "vnorm (v_interpretation x) = vnorm (v_interpretation y) \<longleftrightarrow> x = y"
  by (cases x; cases y) (simp add: v_interpretation_def vnorm_object_eq vnorm_inj option_vec_inj v_map_inj conj_ac)

lemma v_belief_inj [vnorm_inj]: "vnorm (v_belief x) = vnorm (v_belief y) \<longleftrightarrow> x = y"
  by (cases x; cases y) (simp add: v_belief_def vnorm_object_eq vnorm_inj option_vec_inj v_map_inj conj_ac)

lemma v_decision_record_inj [vnorm_inj]: "vnorm (v_decision_record x) = vnorm (v_decision_record y) \<longleftrightarrow> x = y"
  by (cases x; cases y) (simp add: v_decision_record_def vnorm_object_eq vnorm_inj option_vec_inj v_map_inj conj_ac)

lemma v_rejected_inj [vnorm_inj]: "vnorm (v_rejected x) = vnorm (v_rejected y) \<longleftrightarrow> x = y"
  by (cases x; cases y) (simp add: v_rejected_def vnorm_object_eq vnorm_inj option_vec_inj v_map_inj conj_ac)

lemma v_action_inj [vnorm_inj]: "vnorm (v_action x) = vnorm (v_action y) \<longleftrightarrow> x = y"
  by (cases x; cases y) (simp add: v_action_def vnorm_object_eq vnorm_inj option_vec_inj v_map_inj conj_ac)

lemma v_outcome_inj [vnorm_inj]: "vnorm (v_outcome x) = vnorm (v_outcome y) \<longleftrightarrow> x = y"
  by (cases x; cases y) (simp add: v_outcome_def vnorm_object_eq vnorm_inj option_vec_inj v_map_inj conj_ac)

lemma v_feedback_inj [vnorm_inj]: "vnorm (v_feedback x) = vnorm (v_feedback y) \<longleftrightarrow> x = y"
  by (cases x; cases y) (simp add: v_feedback_def vnorm_object_eq vnorm_inj option_vec_inj v_map_inj conj_ac)

lemma v_formation_inj [vnorm_inj]: "vnorm (v_formation x) = vnorm (v_formation y) \<longleftrightarrow> x = y"
  by (cases x; cases y) (simp add: v_formation_def vnorm_object_eq vnorm_inj option_vec_inj v_map_inj conj_ac)

lemma v_provenance_inj [vnorm_inj]: "vnorm (v_provenance x) = vnorm (v_provenance y) \<longleftrightarrow> x = y"
  by (cases x; cases y) (simp add: v_provenance_def vnorm_object_eq vnorm_inj option_vec_inj v_map_inj conj_ac)

lemma v_relation_inj [vnorm_inj]: "vnorm (v_relation x) = vnorm (v_relation y) \<longleftrightarrow> x = y"
  by (cases x; cases y) (simp add: v_relation_def vnorm_object_eq vnorm_inj option_vec_inj v_map_inj conj_ac)

lemma v_artifact_inj [vnorm_inj]: "vnorm (v_artifact x) = vnorm (v_artifact y) \<longleftrightarrow> x = y"
  by (cases x; cases y) (simp add: v_artifact_def vnorm_object_eq vnorm_inj option_vec_inj v_map_inj conj_ac)

lemma v_episode_payload_inj [vnorm_inj]: "vnorm (v_episode_payload x) = vnorm (v_episode_payload y) \<longleftrightarrow> x = y"
  by (cases x; cases y) (simp add: v_episode_payload_def vnorm_object_eq vnorm_inj option_vec_inj v_map_inj conj_ac)

lemma v_score_inj [vnorm_inj]: "vnorm (v_score x) = vnorm (v_score y) \<longleftrightarrow> x = y"
  by (cases x; cases y) (simp add: v_score_def vnorm_object_eq vnorm_inj option_vec_inj v_map_inj conj_ac)

lemma v_semantic_payload_inj [vnorm_inj]: "vnorm (v_semantic_payload x) = vnorm (v_semantic_payload y) \<longleftrightarrow> x = y"
  by (cases x; cases y) (simp add: v_semantic_payload_def vnorm_object_eq vnorm_inj option_vec_inj v_map_inj conj_ac)

lemma v_payload_inj [vnorm_inj]: "vnorm (v_payload x) = vnorm (v_payload y) \<longleftrightarrow> x = y"
  by (cases x; cases y) (simp_all add: vnorm_object_eq vnorm_inj)

lemma v_body_inj [vnorm_inj]: "vnorm (v_body x) = vnorm (v_body y) \<longleftrightarrow> x = y"
  by (cases x; cases y) (simp add: v_body_def vnorm_object_eq vnorm_inj option_vec_inj v_map_inj conj_ac)

lemma v_state_inj [vnorm_inj]: "vnorm (v_state x) = vnorm (v_state y) \<longleftrightarrow> x = y"
  by (cases x; cases y) (simp add: v_state_def vnorm_object_eq vnorm_inj option_vec_inj v_map_inj conj_ac)


section \<open>No domain value contains a float\<close>

named_theorems float_free_simps \<open>domain values are float-free\<close>

lemma float_free_leaves [float_free_simps]:
  "float_free (v_u64 x)" "float_free (v_u32 y)" "float_free (v_usize n)" "float_free (v_byte b)"
  "float_free (v_ppm p)" "float_free (v_digest d)" "float_free (v_atom_id a)" "float_free (v_seed s)"
  "float_free (v_string_set A)"
  by (simp_all add: v_u64_def v_u32_def v_usize_def v_byte_def v_ppm_def v_digest_def v_atom_id_def
      v_seed_def v_string_set_def v_vec_def list_all_iff)

lemma float_free_option [float_free_simps]: "(\<And>a. float_free (f a)) \<Longrightarrow> float_free (v_option f x)"
  by (cases x) (simp_all add: v_option_def)

lemma float_free_vec [float_free_simps]: "(\<And>a. float_free (f a)) \<Longrightarrow> float_free (v_vec f xs)"
  by (simp add: v_vec_def list_all_iff)

lemma float_free_map [float_free_simps]: "(\<And>a. float_free (f a)) \<Longrightarrow> float_free (v_map k f m)"
  by (auto simp: v_map_def list_all_iff)

lemma v_seal_reason_float_free [float_free_simps]: "float_free (v_seal_reason x)"
  by (cases x) simp_all

lemma v_permission_float_free [float_free_simps]: "float_free (v_permission x)"
  by (cases x) simp_all

lemma v_relation_kind_float_free [float_free_simps]: "float_free (v_relation_kind x)"
  by (cases x) simp_all

lemma v_kind_float_free [float_free_simps]: "float_free (v_kind x)"
  by (cases x) simp_all

lemma v_tier_float_free [float_free_simps]: "float_free (v_tier x)"
  by (cases x) simp_all

lemma v_content_status_float_free [float_free_simps]: "float_free (v_content_status x)"
  by (cases x) simp_all

lemma v_integrity_float_free [float_free_simps]: "float_free (v_integrity x)"
  by (cases x) simp_all

lemma v_scope_float_free [float_free_simps]: "float_free (v_scope x)"
  by (simp add: v_scope_def float_free_simps)

lemma v_interval_float_free [float_free_simps]: "float_free (v_interval x)"
  by (simp add: v_interval_def float_free_simps)

lemma v_observation_float_free [float_free_simps]: "float_free (v_observation x)"
  by (simp add: v_observation_def float_free_simps)

lemma v_interpretation_float_free [float_free_simps]: "float_free (v_interpretation x)"
  by (simp add: v_interpretation_def float_free_simps)

lemma v_belief_float_free [float_free_simps]: "float_free (v_belief x)"
  by (simp add: v_belief_def float_free_simps)

lemma v_decision_record_float_free [float_free_simps]: "float_free (v_decision_record x)"
  by (simp add: v_decision_record_def float_free_simps)

lemma v_rejected_float_free [float_free_simps]: "float_free (v_rejected x)"
  by (simp add: v_rejected_def float_free_simps)

lemma v_action_float_free [float_free_simps]: "float_free (v_action x)"
  by (simp add: v_action_def float_free_simps)

lemma v_outcome_float_free [float_free_simps]: "float_free (v_outcome x)"
  by (simp add: v_outcome_def float_free_simps)

lemma v_feedback_float_free [float_free_simps]: "float_free (v_feedback x)"
  by (simp add: v_feedback_def float_free_simps)

lemma v_formation_float_free [float_free_simps]: "float_free (v_formation x)"
  by (simp add: v_formation_def float_free_simps)

lemma v_provenance_float_free [float_free_simps]: "float_free (v_provenance x)"
  by (simp add: v_provenance_def float_free_simps)

lemma v_relation_float_free [float_free_simps]: "float_free (v_relation x)"
  by (simp add: v_relation_def float_free_simps)

lemma v_artifact_float_free [float_free_simps]: "float_free (v_artifact x)"
  by (simp add: v_artifact_def float_free_simps)

lemma v_episode_payload_float_free [float_free_simps]: "float_free (v_episode_payload x)"
  by (simp add: v_episode_payload_def float_free_simps)

lemma v_score_float_free [float_free_simps]: "float_free (v_score x)"
  by (simp add: v_score_def float_free_simps)

lemma v_semantic_payload_float_free [float_free_simps]: "float_free (v_semantic_payload x)"
  by (simp add: v_semantic_payload_def float_free_simps)

lemma v_payload_float_free [float_free_simps]: "float_free (v_payload x)"
  by (cases x) (simp_all add: float_free_simps)

lemma v_body_float_free [float_free_simps]: "float_free (v_body x)"
  by (simp add: v_body_def float_free_simps)

lemma v_state_float_free [float_free_simps]: "float_free (v_state x)"
  by (simp add: v_state_def float_free_simps)

section \<open>Content addresses\<close>

lemma body_canonical_bytes_inj:
  "body_canonical_bytes a = Inr bs \<Longrightarrow> body_canonical_bytes b = Inr bs \<Longrightarrow> a = b"
  unfolding body_canonical_bytes_def by (drule (1) encode_value_inj) (simp add: vnorm_inj)

lemma body_canonical_bytes_total:
  "vsize (v_body b) < 2 ^ 64 \<Longrightarrow> \<exists>bs. body_canonical_bytes b = Inr bs"
  unfolding body_canonical_bytes_def by (rule encode_value_total) (simp_all add: float_free_simps)

lemma body_canonical_bytes_length:
  "body_canonical_bytes b = Inr bs \<Longrightarrow> length bs = vsize (v_body b)"
  unfolding body_canonical_bytes_def by (rule encode_value_length)

lemma encoded_size_bytes_Inr:
  "encoded_size_bytes b = Inr n \<Longrightarrow> unat n = vsize (v_body b)"
  by (auto simp: encoded_size_bytes_def bindr_Inr ok_or_Inr
      dest!: u64_of_usize_SomeD body_canonical_bytes_length)

lemma atom_id_Inr:
  "atom_id sha b = Inr a \<longleftrightarrow>
    (\<exists>bs. body_canonical_bytes b = Inr bs \<and> a = AtomId (sha (ATOM_HASH_DOMAIN @ bs)))"
  by (auto simp: atom_id_def bindr_Inr hash_prefixed_def)

definition sample_body :: "string \<Rightarrow> MemoryAtomBodyV1" where
  "sample_body trigger = \<lparr>bd_contract_version = ''atom-v1'',
     bd_scope = \<lparr>sc_memory_space_id = ''space-a'', sc_repository_id = Some ''repo-a'', sc_task_id = None,
       sc_agent_id = None, sc_session_id = ''session-a''\<rparr>,
     bd_interval = \<lparr>iv_started_at_us = 10, iv_ended_at_us = 11, iv_recorded_at_us = 12\<rparr>,
     bd_trigger = trigger, bd_seal_reason = Checkpoint, bd_goal = None, bd_plan = [],
     bd_internal_state_before = fmempty, bd_internal_state_after = fmempty,
     bd_observations = [\<lparr>ob_at_us = 10, ob_source = ''test'', ob_content = ''seen'', ob_artifact_digest = None\<rparr>],
     bd_interpretations = [], bd_beliefs = [], bd_decisions = [], bd_rejected_alternatives = [],
     bd_actions = [], bd_outcome = None, bd_feedback = [],
     bd_formation_signals = FormationSignalsV1_default, bd_topic_keys = {||}, bd_entity_ids = {||},
     bd_outcome_class = None, bd_goal_key = None,
     bd_provenance = \<lparr>pv_producer = ''test'', pv_source_event_digests = [Digest32_ZERO],
       pv_policy_digest = Digest32_ZERO\<rparr>,
     bd_relations = [], bd_artifacts = [], bd_retention_permission = SemanticAndExactAllowed,
     bd_payload = EpisodePayload \<lparr>ep_event_sequence_start = 0, ep_event_sequence_end = 0,
       ep_continues = None\<rparr>\<rparr>"

lemmas v_struct_defs = v_body_def v_scope_def v_interval_def v_observation_def v_formation_def
  v_provenance_def v_episode_payload_def v_u64_def v_u32_def v_ppm_def v_digest_def v_option_def
  v_vec_def v_string_set_def v_map_def v_atom_id_def

lemma sample_body_vsize: "vsize (v_body (sample_body t)) = 2014 + length t"
  by (simp add: sample_body_def v_struct_defs sorted_list_of_fmap_def)

text \<open>
  C38: an atom identifier commits to the complete immutable body: if two different bodies
  received the same identifier, the two canonical byte strings behind it are different and
  collide under the hash.  No field of the body is outside the content address.
\<close>

theorem atom_id_binds_body:
  assumes "atom_id sha a = Inr i" and "atom_id sha b = Inr i" and "a \<noteq> b"
  shows "\<exists>x y. body_canonical_bytes a = Inr x \<and> body_canonical_bytes b = Inr y \<and> x \<noteq> y
    \<and> sha (ATOM_HASH_DOMAIN @ x) = sha (ATOM_HASH_DOMAIN @ y)"
  using assms body_canonical_bytes_inj by (fastforce simp: atom_id_Inr)

theorem atom_id_binds_body_witness:
  "\<exists>x y. body_canonical_bytes (sample_body ''t'') = Inr x \<and> body_canonical_bytes (sample_body ''u'') = Inr y
    \<and> x \<noteq> y \<and> (\<lambda>_. Digest32_ZERO) (ATOM_HASH_DOMAIN @ x) = (\<lambda>_. Digest32_ZERO) (ATOM_HASH_DOMAIN @ y)"
proof (rule atom_id_binds_body)
  have id: "atom_id (\<lambda>_. Digest32_ZERO) (sample_body [c]) = Inr AtomId_default" for c
    using body_canonical_bytes_total [of "sample_body [c]"]
    by (auto simp: sample_body_vsize atom_id_Inr AtomId_default_def)
  show "atom_id (\<lambda>_. Digest32_ZERO) (sample_body ''t'') = Inr AtomId_default"
    "atom_id (\<lambda>_. Digest32_ZERO) (sample_body ''u'') = Inr AtomId_default"
    by (rule id)+
qed (simp add: sample_body_def)

end
