(* ===== verification/Policy.thy ===== *)
theory Policy
  imports Binding
begin

text \<open>
  \<open>policy.rs\<close>: the closed policy \<open>poc-v1\<close>, its canonical digest and the equality check that
  every entry point of the crate performs.  There is no override: a policy that differs in any
  field is rejected.
\<close>

record PolicyV1 =
  po_policy_id :: string
  po_contract_version :: string
  po_stm_horizon_us :: u64
  po_max_cohort_atoms :: usize
  po_atom_target_bytes :: u64
  po_atom_hard_max_bytes :: u64
  po_inline_payload_max_bytes :: u64
  po_artifact_max_bytes :: u64
  po_exact_package_max_bytes :: u64
  po_similarity_topic_weight :: Ppm
  po_similarity_entity_weight :: Ppm
  po_similarity_outcome_weight :: Ppm
  po_cluster_similarity_threshold :: Ppm
  po_min_semantic_sources :: usize
  po_min_semantic_sessions :: usize
  po_support_saturation_atoms :: usize
  po_consolidation_support_weight :: Ppm
  po_consolidation_diversity_weight :: Ppm
  po_consolidation_utility_weight :: Ppm
  po_consolidation_salience_weight :: Ppm
  po_consolidation_cohesion_weight :: Ppm
  po_consolidation_novelty_weight :: Ppm
  po_consolidation_uncertainty_weight :: Ppm
  po_consolidation_threshold :: Ppm
  po_semantic_rate :: Ppm
  po_semantic_count_max :: usize
  po_semantic_body_budget_bytes :: u64
  po_consensus_numerator :: u32
  po_consensus_denominator :: u32
  po_episodic_rate :: Ppm
  po_episodic_count_max :: usize
  po_episodic_pin_budget_bytes :: u64
  po_retrieval_candidate_max :: usize
  po_retrieval_default_k :: usize
  po_retrieval_max_k :: usize
  po_retrieval_lexical_weight :: Ppm
  po_retrieval_semantic_weight :: Ppm
  po_retrieval_entity_weight :: Ppm
  po_retrieval_utility_weight :: Ppm
  po_retrieval_recency_weight :: Ppm
  po_retrieval_recency_horizon_us :: u64
  po_flashback_budget_max :: usize

definition DAY_US :: u64 where
  "DAY_US = 24 * 60 * 60 * 1000000"

definition poc_v1 :: PolicyV1 where
  "poc_v1 = \<lparr>
     po_policy_id = ''poc-v1'',
     po_contract_version = ''policy-v1'',
     po_stm_horizon_us = 7 * DAY_US,
     po_max_cohort_atoms = 100000,
     po_atom_target_bytes = 128 * 1024,
     po_atom_hard_max_bytes = 256 * 1024,
     po_inline_payload_max_bytes = 4 * 1024,
     po_artifact_max_bytes = 64 * 1024 * 1024,
     po_exact_package_max_bytes = 64 * 1024 * 1024,
     po_similarity_topic_weight = Ppm 600000,
     po_similarity_entity_weight = Ppm 250000,
     po_similarity_outcome_weight = Ppm 150000,
     po_cluster_similarity_threshold = Ppm 650000,
     po_min_semantic_sources = 3,
     po_min_semantic_sessions = 2,
     po_support_saturation_atoms = 10,
     po_consolidation_support_weight = Ppm 250000,
     po_consolidation_diversity_weight = Ppm 200000,
     po_consolidation_utility_weight = Ppm 200000,
     po_consolidation_salience_weight = Ppm 150000,
     po_consolidation_cohesion_weight = Ppm 100000,
     po_consolidation_novelty_weight = Ppm 100000,
     po_consolidation_uncertainty_weight = Ppm 150000,
     po_consolidation_threshold = Ppm 550000,
     po_semantic_rate = Ppm 20000,
     po_semantic_count_max = 100,
     po_semantic_body_budget_bytes = 8 * 1024 * 1024,
     po_consensus_numerator = 2,
     po_consensus_denominator = 3,
     po_episodic_rate = Ppm 5000,
     po_episodic_count_max = 25,
     po_episodic_pin_budget_bytes = 256 * 1024 * 1024,
     po_retrieval_candidate_max = 512,
     po_retrieval_default_k = 10,
     po_retrieval_max_k = 100,
     po_retrieval_lexical_weight = Ppm 450000,
     po_retrieval_semantic_weight = Ppm 250000,
     po_retrieval_entity_weight = Ppm 150000,
     po_retrieval_utility_weight = Ppm 100000,
     po_retrieval_recency_weight = Ppm 50000,
     po_retrieval_recency_horizon_us = 365 * DAY_US,
     po_flashback_budget_max = 3\<rparr>"

definition POLICY_HASH_DOMAIN :: "byte list" where
  "POLICY_HASH_DOMAIN = str_bytes ''naome-memory:policy:v1'' @ [0]"

definition v_policy :: "PolicyV1 \<Rightarrow> Value" where
  "v_policy p = VObject [
     (''policy_id'', VString (po_policy_id p)),
     (''contract_version'', VString (po_contract_version p)),
     (''stm_horizon_us'', v_u64 (po_stm_horizon_us p)),
     (''max_cohort_atoms'', v_usize (po_max_cohort_atoms p)),
     (''atom_target_bytes'', v_u64 (po_atom_target_bytes p)),
     (''atom_hard_max_bytes'', v_u64 (po_atom_hard_max_bytes p)),
     (''inline_payload_max_bytes'', v_u64 (po_inline_payload_max_bytes p)),
     (''artifact_max_bytes'', v_u64 (po_artifact_max_bytes p)),
     (''exact_package_max_bytes'', v_u64 (po_exact_package_max_bytes p)),
     (''similarity_topic_weight'', v_ppm (po_similarity_topic_weight p)),
     (''similarity_entity_weight'', v_ppm (po_similarity_entity_weight p)),
     (''similarity_outcome_weight'', v_ppm (po_similarity_outcome_weight p)),
     (''cluster_similarity_threshold'', v_ppm (po_cluster_similarity_threshold p)),
     (''min_semantic_sources'', v_usize (po_min_semantic_sources p)),
     (''min_semantic_sessions'', v_usize (po_min_semantic_sessions p)),
     (''support_saturation_atoms'', v_usize (po_support_saturation_atoms p)),
     (''consolidation_support_weight'', v_ppm (po_consolidation_support_weight p)),
     (''consolidation_diversity_weight'', v_ppm (po_consolidation_diversity_weight p)),
     (''consolidation_utility_weight'', v_ppm (po_consolidation_utility_weight p)),
     (''consolidation_salience_weight'', v_ppm (po_consolidation_salience_weight p)),
     (''consolidation_cohesion_weight'', v_ppm (po_consolidation_cohesion_weight p)),
     (''consolidation_novelty_weight'', v_ppm (po_consolidation_novelty_weight p)),
     (''consolidation_uncertainty_weight'', v_ppm (po_consolidation_uncertainty_weight p)),
     (''consolidation_threshold'', v_ppm (po_consolidation_threshold p)),
     (''semantic_rate'', v_ppm (po_semantic_rate p)),
     (''semantic_count_max'', v_usize (po_semantic_count_max p)),
     (''semantic_body_budget_bytes'', v_u64 (po_semantic_body_budget_bytes p)),
     (''consensus_numerator'', v_u32 (po_consensus_numerator p)),
     (''consensus_denominator'', v_u32 (po_consensus_denominator p)),
     (''episodic_rate'', v_ppm (po_episodic_rate p)),
     (''episodic_count_max'', v_usize (po_episodic_count_max p)),
     (''episodic_pin_budget_bytes'', v_u64 (po_episodic_pin_budget_bytes p)),
     (''retrieval_candidate_max'', v_usize (po_retrieval_candidate_max p)),
     (''retrieval_default_k'', v_usize (po_retrieval_default_k p)),
     (''retrieval_max_k'', v_usize (po_retrieval_max_k p)),
     (''retrieval_lexical_weight'', v_ppm (po_retrieval_lexical_weight p)),
     (''retrieval_semantic_weight'', v_ppm (po_retrieval_semantic_weight p)),
     (''retrieval_entity_weight'', v_ppm (po_retrieval_entity_weight p)),
     (''retrieval_utility_weight'', v_ppm (po_retrieval_utility_weight p)),
     (''retrieval_recency_weight'', v_ppm (po_retrieval_recency_weight p)),
     (''retrieval_recency_horizon_us'', v_u64 (po_retrieval_recency_horizon_us p)),
     (''flashback_budget_max'', v_usize (po_flashback_budget_max p))]"

definition policy_digest :: "(byte list \<Rightarrow> Digest32) \<Rightarrow> PolicyV1 \<Rightarrow> Digest32 result" where
  "policy_digest sha p =
     bindr (encode_value (v_policy p)) (\<lambda>bytes. Inr (hash_prefixed sha POLICY_HASH_DOMAIN bytes))"

definition validate_poc_v1 :: "PolicyV1 \<Rightarrow> unit result" where
  "validate_poc_v1 p = (if p \<noteq> poc_v1 then Inl PolicyMismatch else Inr ())"

section \<open>The committed values\<close>

lemma validate_poc_v1_Inr [result_simps]: "validate_poc_v1 p = Inr u \<longleftrightarrow> p = poc_v1"
  by (simp add: validate_poc_v1_def)

lemma validate_poc_v1_poc [simp]: "validate_poc_v1 poc_v1 = Inr ()"
  by (simp add: validate_poc_v1_def)

lemma poc_v1_simps [simp]:
  "po_policy_id poc_v1 = ''poc-v1''"
  "po_contract_version poc_v1 = ''policy-v1''"
  "po_max_cohort_atoms poc_v1 = 100000"
  "po_atom_target_bytes poc_v1 = 128 * 1024"
  "po_atom_hard_max_bytes poc_v1 = 256 * 1024"
  "po_inline_payload_max_bytes poc_v1 = 4 * 1024"
  "po_artifact_max_bytes poc_v1 = 64 * 1024 * 1024"
  "po_exact_package_max_bytes poc_v1 = 64 * 1024 * 1024"
  "po_similarity_topic_weight poc_v1 = Ppm 600000"
  "po_similarity_entity_weight poc_v1 = Ppm 250000"
  "po_similarity_outcome_weight poc_v1 = Ppm 150000"
  "po_cluster_similarity_threshold poc_v1 = Ppm 650000"
  "po_min_semantic_sources poc_v1 = 3"
  "po_min_semantic_sessions poc_v1 = 2"
  "po_support_saturation_atoms poc_v1 = 10"
  "po_consolidation_support_weight poc_v1 = Ppm 250000"
  "po_consolidation_diversity_weight poc_v1 = Ppm 200000"
  "po_consolidation_utility_weight poc_v1 = Ppm 200000"
  "po_consolidation_salience_weight poc_v1 = Ppm 150000"
  "po_consolidation_cohesion_weight poc_v1 = Ppm 100000"
  "po_consolidation_novelty_weight poc_v1 = Ppm 100000"
  "po_consolidation_uncertainty_weight poc_v1 = Ppm 150000"
  "po_consolidation_threshold poc_v1 = Ppm 550000"
  "po_semantic_rate poc_v1 = Ppm 20000"
  "po_semantic_count_max poc_v1 = 100"
  "po_semantic_body_budget_bytes poc_v1 = 8 * 1024 * 1024"
  "po_consensus_numerator poc_v1 = 2"
  "po_consensus_denominator poc_v1 = 3"
  "po_episodic_rate poc_v1 = Ppm 5000"
  "po_episodic_count_max poc_v1 = 25"
  "po_episodic_pin_budget_bytes poc_v1 = 256 * 1024 * 1024"
  "po_retrieval_candidate_max poc_v1 = 512"
  "po_retrieval_default_k poc_v1 = 10"
  "po_retrieval_max_k poc_v1 = 100"
  "po_retrieval_lexical_weight poc_v1 = Ppm 450000"
  "po_retrieval_semantic_weight poc_v1 = Ppm 250000"
  "po_retrieval_entity_weight poc_v1 = Ppm 150000"
  "po_retrieval_utility_weight poc_v1 = Ppm 100000"
  "po_retrieval_recency_weight poc_v1 = Ppm 50000"
  "po_flashback_budget_max poc_v1 = 3"
  by (simp_all add: poc_v1_def)

lemma poc_v1_horizons [simp]:
  "po_stm_horizon_us poc_v1 = 604800000000"
  "po_retrieval_recency_horizon_us poc_v1 = 31536000000000"
  by (simp_all add: poc_v1_def DAY_US_def)

lemma v_policy_float_free [float_free_simps]: "float_free (v_policy p)"
  by (simp add: v_policy_def float_free_simps)

lemma v_policy_vsize: "vsize (v_policy poc_v1) < 2 ^ 64"
  by (simp add: v_policy_def v_u64_def v_u32_def v_ppm_def v_usize_def)

lemma policy_digest_poc: "\<exists>bs. encode_value (v_policy poc_v1) = Inr bs \<and>
    policy_digest sha poc_v1 = Inr (sha (POLICY_HASH_DOMAIN @ bs))"
  using encode_value_total [OF v_policy_float_free v_policy_vsize]
  by (auto simp: policy_digest_def hash_prefixed_def)

end
