(* ===== verification/Validation.thy ===== *)
theory Validation
  imports Policy
begin

text \<open>
  \<open>validation.rs\<close>: the complete check of an immutable atom body, with its guards in the order
  of the source, and its refinement of a declarative well-formedness predicate.  The second half
  states what an accepted body satisfies; sealing, retirement and receipt verification use it.
\<close>

section \<open>The checks\<close>

fun relation_kind_key :: "MemoryRelationKindV1 \<Rightarrow> byte" where
  "relation_kind_key Continues = 0"
| "relation_kind_key Supports = 1"
| "relation_kind_key Contradicts = 2"
| "relation_kind_key Supersedes = 3"
| "relation_kind_key DerivedFrom = 4"

definition validate_scope :: "MemoryScopeV1 \<Rightarrow> unit result" where
  "validate_scope s =
     (if sc_memory_space_id s = '''' then Inl (EmptyField ''memory_space_id'')
      else if sc_session_id s = '''' then Inl (EmptyField ''session_id'')
      else try_each (\<lambda>(name, value). if value = Some '''' then Inl (EmptyField name) else Inr ())
        [(''repository_id'', sc_repository_id s), (''task_id'', sc_task_id s), (''agent_id'', sc_agent_id s)])"

text \<open>The size and content checks on one artifact, shared with the sealing input check.\<close>

definition validate_inline_payload :: "(byte list \<Rightarrow> Digest32) \<Rightarrow> PolicyV1 \<Rightarrow> ArtifactRefV1 \<Rightarrow> unit result" where
  "validate_inline_payload sha policy a =
     (case ar_inline_payload a of
        None \<Rightarrow> Inr ()
      | Some inline \<Rightarrow>
          bindr (ok_or (CanonicalEncoding ''inline payload exceeds u64 length'') (u64_of_usize (length inline)))
          (\<lambda>inline_size.
            if inline_size > po_inline_payload_max_bytes policy
            then Inl (InlinePayloadTooLarge inline_size (po_inline_payload_max_bytes policy))
            else if inline_size \<noteq> ar_size_bytes a \<or> hash_prefixed sha [] inline \<noteq> ar_digest a
            then Inl (ArtifactDigestMismatch (ar_digest a))
            else Inr ()))"

fun validate_artifacts_seen ::
  "(byte list \<Rightarrow> Digest32) \<Rightarrow> PolicyV1 \<Rightarrow> Digest32 set \<Rightarrow> ArtifactRefV1 list \<Rightarrow> unit result" where
  "validate_artifacts_seen sha policy digests [] = Inr ()"
| "validate_artifacts_seen sha policy digests (a # as) =
     (if ar_digest a \<in> digests
      then Inl (InvalidAtomBody ''artifact digests must be unique within an atom'')
      else if ar_media_type a = '''' then Inl (EmptyField ''artifact.media_type'')
      else if ar_size_bytes a > po_artifact_max_bytes policy
      then Inl (ArtifactTooLarge (ar_size_bytes a) (po_artifact_max_bytes policy))
      else bindr (validate_inline_payload sha policy a) (\<lambda>_.
        validate_artifacts_seen sha policy (insert (ar_digest a) digests) as))"

definition validate_artifacts ::
  "(byte list \<Rightarrow> Digest32) \<Rightarrow> ArtifactRefV1 list \<Rightarrow> PolicyV1 \<Rightarrow> unit result" where
  "validate_artifacts sha artifacts policy = validate_artifacts_seen sha policy {} artifacts"

definition relation_targets :: "MemoryRelationKindV1 \<Rightarrow> MemoryAtomBodyV1 \<Rightarrow> AtomId list" where
  "relation_targets k b = map re_target (filter (\<lambda>r. re_kind r = k) (bd_relations b))"

definition option_list :: "'a option \<Rightarrow> 'a list" where
  "option_list x = (case x of None \<Rightarrow> [] | Some v \<Rightarrow> [v])"

definition validate_episode_body :: "MemoryAtomBodyV1 \<Rightarrow> EpisodePayloadV1 \<Rightarrow> unit result" where
  "validate_episode_body body payload =
     (if ep_event_sequence_start payload > ep_event_sequence_end payload
      then Inl (InvalidAtomBody ''episode event sequence is inverted'')
      else bindr (ok_or (InvalidAtomBody ''episode event sequence count overflows u64'')
          (Option.bind (checked_sub (ep_event_sequence_end payload) (ep_event_sequence_start payload))
            (\<lambda>difference. checked_add difference 1)))
        (\<lambda>event_count.
          let digests = pv_source_event_digests (bd_provenance body) in
          if u64_of_usize (length digests) \<noteq> Some event_count
          then Inl (InvalidAtomBody ''episode provenance must contain one digest per event'')
          else if card (set digests) \<noteq> length digests
          then Inl (InvalidAtomBody ''episode source event digests must be unique'')
          else if bd_observations body = [] \<and> bd_decisions body = [] \<and> bd_actions body = []
              \<and> bd_outcome body = None \<and> bd_feedback body = []
          then Inl InsufficientEpisodeContent
          else if relation_targets Continues body \<noteq> option_list (ep_continues payload)
          then Inl (InvalidAtomBody ''episode payload and continues relation must match exactly'')
          else Inr ()))"

definition validate_semantic_body ::
  "MemoryAtomBodyV1 \<Rightarrow> SemanticPayloadV1 \<Rightarrow> PolicyV1 \<Rightarrow> unit result" where
  "validate_semantic_body body payload policy =
     (if bd_retention_permission body \<noteq> SemanticAllowed
      then Inl (InvalidAtomBody ''semantic atoms require semantic_allowed retention'')
      else if bd_observations body \<noteq> [] \<or> bd_interpretations body \<noteq> [] \<or> bd_beliefs body \<noteq> []
        \<or> bd_decisions body \<noteq> [] \<or> bd_rejected_alternatives body \<noteq> [] \<or> bd_actions body \<noteq> []
        \<or> bd_outcome body \<noteq> None \<or> bd_feedback body \<noteq> [] \<or> bd_artifacts body \<noteq> []
      then Inl (InvalidAtomBody ''semantic atoms may contain only deterministic structured consolidation fields'')
      else if length (sp_source_ids payload) < po_min_semantic_sources policy
      then Inl (InvalidAtomBody ''semantic atom has too few sources'')
      else if \<not> successively (<) (sp_source_ids payload)
      then Inl (InvalidAtomBody ''semantic source IDs must be unique and sorted'')
      else if fcard (fmdom (sp_source_body_digests payload)) \<noteq> length (sp_source_ids payload)
        \<or> list_ex (\<lambda>s. fmlookup (sp_source_body_digests payload) s \<noteq> Some (atom_digest s)) (sp_source_ids payload)
      then Inl (InvalidAtomBody ''semantic source body digest closure is incomplete'')
      else if pv_source_event_digests (bd_provenance body) \<noteq> map atom_digest (sp_source_ids payload)
      then Inl (InvalidAtomBody ''semantic provenance digest order does not match source IDs'')
      else if sp_consensus_numerator payload \<noteq> po_consensus_numerator policy
        \<or> sp_consensus_denominator payload \<noteq> po_consensus_denominator policy
      then Inl (InvalidAtomBody ''semantic consensus ratio does not match policy'')
      else if relation_targets DerivedFrom body \<noteq> sp_source_ids payload
      then Inl (InvalidAtomBody ''semantic DerivedFrom relations do not match source IDs'')
      else if relation_targets Supersedes body \<noteq> option_list (sp_supersedes payload)
        \<or> length (bd_relations body)
            \<noteq> length (relation_targets DerivedFrom body) + length (relation_targets Supersedes body)
      then Inl (InvalidAtomBody ''semantic relations must be exactly DerivedFrom plus optional Supersedes'')
      else Inr ())"

text \<open>The last part of the check: encoded size, then the exact-package closure.\<close>

definition validate_body_size :: "MemoryAtomBodyV1 \<Rightarrow> PolicyV1 \<Rightarrow> unit result" where
  "validate_body_size body policy =
     bindr (encoded_size_bytes body) (\<lambda>canonical_size_bytes.
       if canonical_size_bytes > po_atom_hard_max_bytes policy
       then Inl (AtomTooLarge canonical_size_bytes (po_atom_hard_max_bytes policy))
       else if bd_retention_permission body = SemanticAndExactAllowed
       then (if list_ex (\<lambda>a. ar_inline_payload a \<noteq> None \<and> \<not> ar_retention_allowed a) (bd_artifacts body)
             then Inl (InvalidAtomBody ''exact-eligible atoms cannot embed a retention-disallowed inline payload'')
             else bindr (exact_package_bytes body) (\<lambda>package_bytes.
               if package_bytes > po_exact_package_max_bytes policy
               then Inl (ExactPackageTooLarge package_bytes (po_exact_package_max_bytes policy))
               else Inr ()))
       else Inr ())"

definition validate_memory_atom_body ::
  "(byte list \<Rightarrow> Digest32) \<Rightarrow> MemoryAtomBodyV1 \<Rightarrow> PolicyV1 \<Rightarrow> unit result" where
  "validate_memory_atom_body sha body policy =
     bindr (validate_poc_v1 policy) (\<lambda>_.
     if bd_contract_version body \<noteq> ''atom-v1'' then Inl (UnknownVersion (bd_contract_version body))
     else bindr (validate_scope (bd_scope body)) (\<lambda>_.
     if bd_trigger body = '''' then Inl (EmptyField ''trigger'')
     else if pv_producer (bd_provenance body) = '''' then Inl (EmptyField ''provenance.producer'')
     else bindr (policy_digest sha policy) (\<lambda>digest.
     if pv_policy_digest (bd_provenance body) \<noteq> digest then Inl PolicyMismatch
     else if iv_started_at_us (bd_interval body) > iv_ended_at_us (bd_interval body)
       \<or> iv_ended_at_us (bd_interval body) > iv_recorded_at_us (bd_interval body)
     then Inl InvalidTimeInterval
     else if list_ex (\<lambda>ob. ob_at_us ob < iv_started_at_us (bd_interval body)
         \<or> ob_at_us ob > iv_ended_at_us (bd_interval body)) (bd_observations body)
     then Inl (InvalidAtomBody ''observation time lies outside the atom interval'')
     else if list_ex (\<lambda>ob. ob_source ob = '''' \<or> ob_content ob = '''') (bd_observations body)
     then Inl (InvalidAtomBody ''observation source and content must not be empty'')
     else if (case (bd_outcome body, bd_outcome_class body) of
         (Some outcome, Some cls) \<Rightarrow> oc_class outcome \<noteq> cls | _ \<Rightarrow> False)
     then Inl (InvalidAtomBody ''outcome_class does not match the episode outcome'')
     else bindr (validate_artifacts sha (bd_artifacts body) policy) (\<lambda>_.
     bindr (try_each (\<lambda>digest. if digest \<notin> ar_digest ` set (bd_artifacts body)
         then Inl (UndeclaredArtifactReference digest) else Inr ())
       (List.map_filter ob_artifact_digest (bd_observations body))) (\<lambda>_.
     if card (set (map (\<lambda>r. (relation_kind_key (re_kind r), re_target r)) (bd_relations body)))
       \<noteq> length (bd_relations body)
     then Inl (InvalidAtomBody ''relations must be unique by kind and target'')
     else bindr (case bd_payload body of
         EpisodePayload payload \<Rightarrow> validate_episode_body body payload
       | SemanticPayload payload \<Rightarrow> validate_semantic_body body payload policy) (\<lambda>_.
     validate_body_size body policy))))))"

section \<open>What a valid body is\<close>

definition scope_wf :: "MemoryScopeV1 \<Rightarrow> bool" where
  "scope_wf s \<longleftrightarrow> sc_memory_space_id s \<noteq> '''' \<and> sc_session_id s \<noteq> '''' \<and>
     sc_repository_id s \<noteq> Some '''' \<and> sc_task_id s \<noteq> Some '''' \<and> sc_agent_id s \<noteq> Some ''''"

definition inline_wf :: "(byte list \<Rightarrow> Digest32) \<Rightarrow> ArtifactRefV1 \<Rightarrow> bool" where
  "inline_wf sha a \<longleftrightarrow> (\<forall>bytes. ar_inline_payload a = Some bytes \<longrightarrow>
     length bytes \<le> 4096 \<and> unat (ar_size_bytes a) = length bytes \<and> ar_digest a = sha bytes)"

definition artifacts_wf :: "(byte list \<Rightarrow> Digest32) \<Rightarrow> ArtifactRefV1 list \<Rightarrow> bool" where
  "artifacts_wf sha as \<longleftrightarrow> distinct (map ar_digest as) \<and>
     (\<forall>a \<in> set as. ar_media_type a \<noteq> '''' \<and> unat (ar_size_bytes a) \<le> 67108864 \<and> inline_wf sha a)"

definition observations_wf :: "MemoryAtomBodyV1 \<Rightarrow> bool" where
  "observations_wf b \<longleftrightarrow> (\<forall>ob \<in> set (bd_observations b).
     iv_started_at_us (bd_interval b) \<le> ob_at_us ob \<and> ob_at_us ob \<le> iv_ended_at_us (bd_interval b) \<and>
     ob_source ob \<noteq> '''' \<and> ob_content ob \<noteq> '''' \<and>
     (\<forall>d. ob_artifact_digest ob = Some d \<longrightarrow> d \<in> ar_digest ` set (bd_artifacts b)))"

definition episode_wf :: "MemoryAtomBodyV1 \<Rightarrow> EpisodePayloadV1 \<Rightarrow> bool" where
  "episode_wf b p \<longleftrightarrow>
     unat (ep_event_sequence_end p) + 1
       = unat (ep_event_sequence_start p) + length (pv_source_event_digests (bd_provenance b)) \<and>
     pv_source_event_digests (bd_provenance b) \<noteq> [] \<and>
     length (pv_source_event_digests (bd_provenance b)) < 2 ^ 64 \<and>
     distinct (pv_source_event_digests (bd_provenance b)) \<and>
     (bd_observations b \<noteq> [] \<or> bd_decisions b \<noteq> [] \<or> bd_actions b \<noteq> [] \<or> bd_outcome b \<noteq> None
       \<or> bd_feedback b \<noteq> []) \<and>
     relation_targets Continues b = option_list (ep_continues p)"

definition semantic_wf :: "MemoryAtomBodyV1 \<Rightarrow> SemanticPayloadV1 \<Rightarrow> bool" where
  "semantic_wf b p \<longleftrightarrow>
     bd_retention_permission b = SemanticAllowed \<and>
     bd_observations b = [] \<and> bd_interpretations b = [] \<and> bd_beliefs b = [] \<and> bd_decisions b = [] \<and>
     bd_rejected_alternatives b = [] \<and> bd_actions b = [] \<and> bd_outcome b = None \<and> bd_feedback b = [] \<and>
     bd_artifacts b = [] \<and>
     3 \<le> length (sp_source_ids p) \<and> sorted_wrt (<) (sp_source_ids p) \<and>
     fmdom' (sp_source_body_digests p) = set (sp_source_ids p) \<and>
     (\<forall>s \<in> set (sp_source_ids p). fmlookup (sp_source_body_digests p) s = Some (atom_digest s)) \<and>
     pv_source_event_digests (bd_provenance b) = map atom_digest (sp_source_ids p) \<and>
     sp_consensus_numerator p = 2 \<and> sp_consensus_denominator p = 3 \<and>
     relation_targets DerivedFrom b = sp_source_ids p \<and>
     relation_targets Supersedes b = option_list (sp_supersedes p) \<and>
     (\<forall>r \<in> set (bd_relations b). re_kind r = DerivedFrom \<or> re_kind r = Supersedes)"

definition retained_bytes :: "MemoryAtomBodyV1 \<Rightarrow> nat" where
  "retained_bytes b = sum_list (map (unat \<circ> ar_size_bytes) (filter ar_retention_allowed (bd_artifacts b)))"

definition exact_wf :: "MemoryAtomBodyV1 \<Rightarrow> bool" where
  "exact_wf b \<longleftrightarrow> (bd_retention_permission b = SemanticAndExactAllowed \<longrightarrow>
     (\<forall>a \<in> set (bd_artifacts b). ar_inline_payload a \<noteq> None \<longrightarrow> ar_retention_allowed a) \<and>
     vsize (v_body b) + retained_bytes b \<le> 67108864)"

definition atom_body_wf :: "(byte list \<Rightarrow> Digest32) \<Rightarrow> MemoryAtomBodyV1 \<Rightarrow> bool" where
  "atom_body_wf sha b \<longleftrightarrow>
     bd_contract_version b = ''atom-v1'' \<and> scope_wf (bd_scope b) \<and> bd_trigger b \<noteq> '''' \<and>
     pv_producer (bd_provenance b) \<noteq> '''' \<and>
     policy_digest sha poc_v1 = Inr (pv_policy_digest (bd_provenance b)) \<and>
     iv_started_at_us (bd_interval b) \<le> iv_ended_at_us (bd_interval b) \<and>
     iv_ended_at_us (bd_interval b) \<le> iv_recorded_at_us (bd_interval b) \<and>
     observations_wf b \<and>
     (\<forall>oc cls. bd_outcome b = Some oc \<longrightarrow> bd_outcome_class b = Some cls \<longrightarrow> oc_class oc = cls) \<and>
     artifacts_wf sha (bd_artifacts b) \<and>
     distinct (bd_relations b) \<and>
     (case bd_payload b of EpisodePayload p \<Rightarrow> episode_wf b p | SemanticPayload p \<Rightarrow> semantic_wf b p) \<and>
     vsize (v_body b) \<le> 262144 \<and> exact_wf b"

section \<open>Each check decides its part\<close>

lemma validate_scope_Inr: "validate_scope s = Inr () \<longleftrightarrow> scope_wf s"
  by (auto simp: validate_scope_def scope_wf_def bindr_Inr)

lemma unat_word_gt: "(a :: u64) > b \<longleftrightarrow> unat b < unat a"
  by (simp add: word_less_nat_alt)

lemma validate_inline_payload_Inr:
  "validate_inline_payload sha poc_v1 a = Inr () \<longleftrightarrow> inline_wf sha a"
proof (cases "ar_inline_payload a")
  case None
  then show ?thesis by (simp add: validate_inline_payload_def inline_wf_def)
next
  case (Some bytes)
  have "of_nat (length bytes) \<le> (4096 :: u64) \<longleftrightarrow> length bytes \<le> 4096" if "length bytes < 2 ^ 64"
    using that by (simp add: word_le_nat_alt unat_of_nat)
  moreover have "(of_nat (length bytes) = ar_size_bytes a) \<longleftrightarrow> unat (ar_size_bytes a) = length bytes"
    if "length bytes < 2 ^ 64"
    using that by (metis u64_of_usize_SomeD u64_of_usize_Some u64_of_usize_unat option.inject)
  ultimately show ?thesis
    using Some by (auto simp: validate_inline_payload_def inline_wf_def u64_of_usize_def
        hash_prefixed_def not_less bindr_Inr ok_or_Inr split: if_splits)
qed

lemma validate_artifacts_seen_Inr:
  "validate_artifacts_seen sha poc_v1 seen as = Inr () \<longleftrightarrow>
     artifacts_wf sha as \<and> seen \<inter> ar_digest ` set as = {}"
proof (induction as arbitrary: seen)
  case Nil
  then show ?case by (simp add: artifacts_wf_def)
next
  case (Cons a as)
  have "\<not> ar_size_bytes a > 67108864 \<longleftrightarrow> unat (ar_size_bytes a) \<le> 67108864"
    by (simp add: word_less_nat_alt not_less)
  then show ?case
    by (auto simp: bindr_Inr Cons.IH artifacts_wf_def validate_inline_payload_Inr)
qed

lemma validate_artifacts_Inr: "validate_artifacts sha as poc_v1 = Inr () \<longleftrightarrow> artifacts_wf sha as"
  by (simp add: validate_artifacts_def validate_artifacts_seen_Inr)

lemma relation_kind_key_inject [simp]: "relation_kind_key a = relation_kind_key b \<longleftrightarrow> a = b"
  by (cases a; cases b) simp_all

lemma card_set_length_iff: "card (set xs) = length xs \<longleftrightarrow> distinct xs"
  by (metis card_distinct distinct_card)

lemma relation_key_inj: "inj (\<lambda>r :: MemoryRelationV1. (relation_kind_key (re_kind r), re_target r))"
  by (rule injI) (simp add: prod_eq_iff)

lemma relations_unique_iff:
  "card (set (map (\<lambda>r. (relation_kind_key (re_kind r), re_target r)) rs)) = length rs
     \<longleftrightarrow> distinct (rs :: MemoryRelationV1 list)"
  using card_set_length_iff [of "map (\<lambda>r :: MemoryRelationV1. (relation_kind_key (re_kind r), re_target r)) rs"]
  by (simp only: length_map distinct_map inj_on_subset [OF relation_key_inj subset_UNIV] simp_thms)

lemma event_count_iff:
  fixes s e :: u64
  shows "(\<not> s > e \<and> (\<exists>c. Option.bind (checked_sub e s) (\<lambda>x. checked_add x 1) = Some c \<and> u64_of_usize n = Some c))
    \<longleftrightarrow> unat e + 1 = unat s + n \<and> 0 < n \<and> n < 2 ^ 64" (is "?L \<longleftrightarrow> ?R")
proof
  assume ?L
  then obtain x c where x: "checked_sub e s = Some x" "checked_add x 1 = Some c"
    and c: "u64_of_usize n = Some c"
    by (auto simp: bind_eq_Some_conv)
  have "unat c = n" using c by (rule u64_of_usize_SomeD)
  moreover have "n < 2 ^ 64" using c by (simp only: u64_of_usize_Some)
  moreover have "unat e + 1 = unat s + unat c"
    using checked_sub_SomeD [OF x(1)] checked_add_SomeD [OF x(2)] by simp
  moreover have "0 < unat c" using checked_add_SomeD [OF x(2)] by simp
  ultimately show ?R by simp
next
  assume r: ?R
  then have le: "s \<le> e" unfolding word_le_nat_alt by linarith
  have "unat (e - s) = unat e - unat s" using le by (simp add: unat_sub)
  then have n: "n = unat (e - s) + 1" using r by linarith
  have "n < 2 ^ 64" using r by blast
  then have "checked_add (e - s) 1 = Some (e - s + 1)" "u64_of_usize n = Some (e - s + 1)"
    unfolding n by (simp_all add: checked_add_def u64_of_usize_def)
  then show ?L using le by (simp add: checked_sub_def not_less)
qed

lemma validate_episode_body_Inr:
  "validate_episode_body b p = Inr () \<longleftrightarrow> episode_wf b p"
proof -
  let ?s = "ep_event_sequence_start p" and ?e = "ep_event_sequence_end p"
  let ?d = "pv_source_event_digests (bd_provenance b)"
  let ?content = "bd_observations b \<noteq> [] \<or> bd_decisions b \<noteq> [] \<or> bd_actions b \<noteq> [] \<or> bd_outcome b \<noteq> None
       \<or> bd_feedback b \<noteq> []"
  have "validate_episode_body b p = Inr () \<longleftrightarrow>
      (\<not> ?s > ?e \<and> (\<exists>c. Option.bind (checked_sub ?e ?s) (\<lambda>x. checked_add x 1) = Some c
        \<and> u64_of_usize (length ?d) = Some c)) \<and> card (set ?d) = length ?d \<and>
      ?content \<and> relation_targets Continues b = option_list (ep_continues p)"
    unfolding validate_episode_body_def Let_def if_Inl_Inr bindr_Inr ok_or_Inr not_not de_Morgan_conj
    by (elim disjE | blast)+
  then show ?thesis
    unfolding event_count_iff card_set_length_iff episode_wf_def length_greater_0_conv by blast
qed

lemma fmdom_subset_card_eq:
  assumes "\<forall>s \<in> set xs. fmlookup m s \<noteq> None" "distinct xs" "fcard (fmdom m) = length xs"
  shows "fmdom' m = set xs"
proof -
  have sub: "set xs \<subseteq> fmdom' m" using assms(1) by (auto intro: fmdom'I)
  have "card (set xs) = length xs" using assms(2) by (rule distinct_card)
  moreover have "card (fmdom' m) = fcard (fmdom m)"
    by (simp add: fcard.rep_eq fmdom'_alt_def)
  moreover have "finite (fmdom' m)" by simp
  ultimately show ?thesis using sub assms(3) by (metis card_subset_eq)
qed

lemma length_filter_eq_iff: "length xs = length (filter P xs) \<longleftrightarrow> (\<forall>x \<in> set xs. P x)"
  by (metis filter_True length_filter_less less_irrefl)

lemma length_filter_or:
  "(\<And>x. \<not> (P x \<and> Q x)) \<Longrightarrow>
     length (filter (\<lambda>x. P x \<or> Q x) xs) = length (filter P xs) + length (filter Q xs)"
  by (induction xs) auto

lemma length_relation_targets:
  "length (bd_relations b) = length (relation_targets DerivedFrom b) + length (relation_targets Supersedes b)
     \<longleftrightarrow> (\<forall>r \<in> set (bd_relations b). re_kind r = DerivedFrom \<or> re_kind r = Supersedes)"
  unfolding relation_targets_def length_map
  by (subst length_filter_or [symmetric]) (simp_all add: length_filter_eq_iff)

lemma validate_semantic_body_Inr:
  "validate_semantic_body b p poc_v1 = Inr () \<longleftrightarrow> semantic_wf b p"
proof -
  let ?ids = "sp_source_ids p" and ?m = "sp_source_body_digests p"
  have closure: "\<not> (fcard (fmdom ?m) \<noteq> length ?ids \<or> list_ex (\<lambda>s. fmlookup ?m s \<noteq> Some (atom_digest s)) ?ids)
    \<longleftrightarrow> fmdom' ?m = set ?ids \<and> (\<forall>s \<in> set ?ids. fmlookup ?m s = Some (atom_digest s))"
    if "distinct ?ids"
    using that fmdom_subset_card_eq [of ?ids ?m]
    by (auto simp: list_ex_iff fcard.rep_eq fmdom'_alt_def distinct_card)
  show ?thesis
  proof (cases "sorted_wrt (<) ?ids")
    case True
    then have "distinct ?ids" by (simp add: sorted_wrt_less_iff)
    then show ?thesis
      using True closure length_relation_targets [of b]
      by (simp only: validate_semantic_body_def semantic_wf_def if_Inl_Inr de_Morgan_disj not_not
          successively_less_iff sorted_wrt_less_iff poc_v1_simps not_less) blast
  next
    case False
    then show ?thesis
      by (simp only: validate_semantic_body_def semantic_wf_def if_Inl_Inr de_Morgan_disj not_not
          successively_less_iff sorted_wrt_less_iff) blast
  qed
qed

lemma checked_sum_fold_Inr:
  "try_fold (\<lambda>sum a. ok_or e (checked_add sum (f a))) acc xs = Inr (n :: u64)
     \<longleftrightarrow> unat acc + sum_list (map (unat \<circ> f) xs) < 2 ^ 64 \<and> unat n = unat acc + sum_list (map (unat \<circ> f) xs)"
proof (induction xs arbitrary: acc)
  case Nil
  then show ?case using unat_u64_bound [of acc] by (auto simp: word_unat_eq_iff)
next
  case (Cons x xs)
  show ?case
  proof (cases "unat acc + unat (f x) < 2 ^ 64")
    case True
    then have "unat (acc + f x) = unat acc + unat (f x)" by (intro unat_word_add_lt) simp
    then show ?thesis using True Cons.IH [of "acc + f x"] by (simp add: checked_add_def add.assoc)
  next
    case False
    then show ?thesis by (simp add: checked_add_def)
  qed
qed

lemma retained_artifact_bytes_Inr:
  "retained_artifact_bytes b = Inr n \<longleftrightarrow> retained_bytes b < 2 ^ 64 \<and> unat n = retained_bytes b"
  by (simp add: retained_artifact_bytes_def retained_bytes_def checked_sum_fold_Inr)

lemma encoded_size_bytes_iff:
  "encoded_size_bytes b = Inr n \<longleftrightarrow> vsize (v_body b) < 2 ^ 64 \<and> unat n = vsize (v_body b)"
proof
  assume "encoded_size_bytes b = Inr n"
  then show "vsize (v_body b) < 2 ^ 64 \<and> unat n = vsize (v_body b)"
    using encoded_size_bytes_Inr unat_u64_bound [of n] by force
next
  assume a: "vsize (v_body b) < 2 ^ 64 \<and> unat n = vsize (v_body b)"
  then obtain bs where bs: "body_canonical_bytes b = Inr bs" using body_canonical_bytes_total by blast
  have "length bs = unat n" using a body_canonical_bytes_length [OF bs] by simp
  then show "encoded_size_bytes b = Inr n" using bs by (simp add: encoded_size_bytes_def)
qed

lemma exact_package_bytes_Inr:
  "exact_package_bytes b = Inr n \<longleftrightarrow>
     vsize (v_body b) + retained_bytes b < 2 ^ 64 \<and> unat n = vsize (v_body b) + retained_bytes b"
proof
  assume "exact_package_bytes b = Inr n"
  then obtain r s where "retained_artifact_bytes b = Inr r" "encoded_size_bytes b = Inr s"
      "checked_add s r = Some n"
    by (auto simp: exact_package_bytes_def bindr_Inr ok_or_Inr)
  then show "vsize (v_body b) + retained_bytes b < 2 ^ 64 \<and> unat n = vsize (v_body b) + retained_bytes b"
    using unat_u64_bound [of n] by (auto simp: retained_artifact_bytes_Inr encoded_size_bytes_iff dest!: checked_add_SomeD)
next
  assume a: "vsize (v_body b) + retained_bytes b < 2 ^ 64 \<and> unat n = vsize (v_body b) + retained_bytes b"
  have r: "retained_artifact_bytes b = Inr (of_nat (retained_bytes b))"
    unfolding retained_artifact_bytes_Inr using a by (simp add: unat_of_nat)
  have s: "encoded_size_bytes b = Inr (of_nat (vsize (v_body b)))"
    unfolding encoded_size_bytes_iff using a by (simp add: unat_of_nat)
  have "checked_add (of_nat (vsize (v_body b))) (of_nat (retained_bytes b)) = Some n"
    using a by (simp add: checked_add_def unat_of_nat word_unat_eq_iff unat_word_add_lt)
  then show "exact_package_bytes b = Inr n" by (simp add: exact_package_bytes_def r s)
qed

lemma validate_body_size_Inr:
  "validate_body_size b poc_v1 = Inr () \<longleftrightarrow> vsize (v_body b) \<le> 262144 \<and> exact_wf b"
proof (cases "vsize (v_body b) < 2 ^ 64")
  case False
  then have "encoded_size_bytes b \<noteq> Inr n" for n by (simp add: encoded_size_bytes_iff)
  then show ?thesis using False by (auto simp: validate_body_size_def bindr_Inr)
next
  case True
  define n :: u64 where "n = of_nat (vsize (v_body b))"
  have n: "unat n = vsize (v_body b)" using True by (simp add: n_def unat_of_nat)
  have size: "encoded_size_bytes b = Inr n" using True n by (simp add: encoded_size_bytes_iff)
  have small: "(\<not> n > 262144) = (vsize (v_body b) \<le> 262144)"
    by (simp add: n [symmetric] word_le_nat_alt not_less)
  have inline: "(\<not> list_ex (\<lambda>a. ar_inline_payload a \<noteq> None \<and> \<not> ar_retention_allowed a) (bd_artifacts b))
      = (\<forall>a \<in> set (bd_artifacts b). ar_inline_payload a \<noteq> None \<longrightarrow> ar_retention_allowed a)"
    by (auto simp: list_ex_iff)
  have package: "(\<exists>m. exact_package_bytes b = Inr m \<and> \<not> m > 67108864) =
      (vsize (v_body b) + retained_bytes b \<le> 67108864)"
  proof
    assume "\<exists>m. exact_package_bytes b = Inr m \<and> \<not> m > 67108864"
    then show "vsize (v_body b) + retained_bytes b \<le> 67108864"
      by (auto simp: exact_package_bytes_Inr word_le_nat_alt not_less)
  next
    assume "vsize (v_body b) + retained_bytes b \<le> 67108864"
    then show "\<exists>m. exact_package_bytes b = Inr m \<and> \<not> m > 67108864"
      by (intro exI [of _ "of_nat (vsize (v_body b) + retained_bytes b)"])
        (simp add: exact_package_bytes_Inr unat_of_nat word_le_nat_alt not_less del: of_nat_add)
  qed
  show ?thesis
  proof (cases "bd_retention_permission b = SemanticAndExactAllowed")
    case True
    have "validate_body_size b poc_v1 = Inr () \<longleftrightarrow> \<not> n > 262144 \<and>
      \<not> list_ex (\<lambda>a. ar_inline_payload a \<noteq> None \<and> \<not> ar_retention_allowed a) (bd_artifacts b) \<and>
      (\<exists>m. exact_package_bytes b = Inr m \<and> \<not> m > 67108864)"
      using True by (simp add: validate_body_size_def size bindr_Inr) blast
    then show ?thesis unfolding small inline package using True by (simp add: exact_wf_def)
  next
    case False
    then show ?thesis using small by (simp add: validate_body_size_def size exact_wf_def) blast
  qed
qed

lemma policy_mismatch_iff:
  "(\<exists>d. policy_digest sha p = Inr d \<and> x = d \<and> R) \<longleftrightarrow> policy_digest sha p = Inr x \<and> R"
  by blast

lemma observations_wf_iff:
  "observations_wf b \<longleftrightarrow>
     \<not> list_ex (\<lambda>ob. ob_at_us ob < iv_started_at_us (bd_interval b)
         \<or> ob_at_us ob > iv_ended_at_us (bd_interval b)) (bd_observations b) \<and>
     \<not> list_ex (\<lambda>ob. ob_source ob = '''' \<or> ob_content ob = '''') (bd_observations b) \<and>
     (\<forall>d \<in> set (List.map_filter ob_artifact_digest (bd_observations b)). d \<in> ar_digest ` set (bd_artifacts b))"
proof -
  have "set (List.map_filter ob_artifact_digest obs) = {d. \<exists>ob \<in> set obs. ob_artifact_digest ob = Some d}"
    for obs :: "ObservationV1 list"
    by (force simp: List.map_filter_def)
  then show ?thesis
    unfolding observations_wf_def list_ex_iff by (auto simp: not_less)
qed

lemma outcome_class_iff:
  "\<not> (case (x, y) of (Some outcome, Some cls) \<Rightarrow> oc_class outcome \<noteq> cls | _ \<Rightarrow> False)
     \<longleftrightarrow> (\<forall>oc cls. x = Some oc \<longrightarrow> y = Some cls \<longrightarrow> oc_class oc = cls)"
  by (cases x; cases y) auto

lemma unit_exists: "(\<exists>x :: unit. P x) = P ()"
  by auto

lemma validate_memory_atom_body_steps:
  "validate_memory_atom_body sha b poc_v1 = Inr () \<longleftrightarrow>
     bd_contract_version b = ''atom-v1'' \<and> scope_wf (bd_scope b) \<and> bd_trigger b \<noteq> '''' \<and>
     pv_producer (bd_provenance b) \<noteq> '''' \<and>
     policy_digest sha poc_v1 = Inr (pv_policy_digest (bd_provenance b)) \<and>
     (iv_started_at_us (bd_interval b) \<le> iv_ended_at_us (bd_interval b) \<and>
     iv_ended_at_us (bd_interval b) \<le> iv_recorded_at_us (bd_interval b)) \<and>
     \<not> list_ex (\<lambda>ob. ob_at_us ob < iv_started_at_us (bd_interval b)
         \<or> ob_at_us ob > iv_ended_at_us (bd_interval b)) (bd_observations b) \<and>
     \<not> list_ex (\<lambda>ob. ob_source ob = '''' \<or> ob_content ob = '''') (bd_observations b) \<and>
     (\<forall>oc cls. bd_outcome b = Some oc \<longrightarrow> bd_outcome_class b = Some cls \<longrightarrow> oc_class oc = cls) \<and>
     artifacts_wf sha (bd_artifacts b) \<and>
     (\<forall>d \<in> set (List.map_filter ob_artifact_digest (bd_observations b)). d \<in> ar_digest ` set (bd_artifacts b)) \<and>
     distinct (bd_relations b) \<and>
     (case bd_payload b of EpisodePayload p \<Rightarrow> episode_wf b p | SemanticPayload p \<Rightarrow> semantic_wf b p) \<and>
     vsize (v_body b) \<le> 262144 \<and> exact_wf b"
proof -
  have payload: "(case bd_payload b of
         EpisodePayload payload \<Rightarrow> validate_episode_body b payload
       | SemanticPayload payload \<Rightarrow> validate_semantic_body b payload poc_v1) = Inr () \<longleftrightarrow>
     (case bd_payload b of EpisodePayload p \<Rightarrow> episode_wf b p | SemanticPayload p \<Rightarrow> semantic_wf b p)"
    by (simp add: validate_episode_body_Inr validate_semantic_body_Inr split: MemoryPayloadV1.split)
  show ?thesis
    unfolding validate_memory_atom_body_def
    unfolding bindr_Inr if_Inl_Inr unit_exists validate_poc_v1_Inr validate_scope_Inr try_each_Inr
      validate_artifacts_Inr relations_unique_iff payload validate_body_size_Inr
      outcome_class_iff not_not simp_thms de_Morgan_disj not_less policy_mismatch_iff ..
qed

lemma validate_memory_atom_body_Inr: "validate_memory_atom_body sha b poc_v1 = Inr () \<longleftrightarrow> atom_body_wf sha b"
  unfolding validate_memory_atom_body_steps atom_body_wf_def observations_wf_iff
  by (simp only: conj_assoc) blast

lemmas atom_body_wfI = validate_memory_atom_body_Inr [THEN iffD1]

text \<open>
  C33: validation accepts a body exactly when the policy is the frozen one and the body is
  well-formed: non-empty scope and producer, this policy's digest, ordered times, observations
  inside the interval that cite declared artifacts, unique artifacts whose inline bytes match
  their digest and size, unique relations, an episode or semantic payload that agrees with the
  provenance and relations, and encoded sizes within the 256 KiB and 64 MiB limits.
\<close>

theorem validate_memory_atom_body_spec:
  "validate_memory_atom_body sha b policy = Inr () \<longleftrightarrow> policy = poc_v1 \<and> atom_body_wf sha b"
proof (cases "policy = poc_v1")
  case True
  then show ?thesis by (simp add: validate_memory_atom_body_Inr)
next
  case False
  then show ?thesis by (simp add: validate_memory_atom_body_def validate_poc_v1_def)
qed

lemma validate_body_unit: "validate_memory_atom_body sha b poc_v1 = Inr u \<longleftrightarrow> validate_memory_atom_body sha b poc_v1 = Inr ()"
  by simp

lemma atom_body_wf_encodes:
  assumes "atom_body_wf sha b"
  obtains bs where "body_canonical_bytes b = Inr bs" "length bs \<le> 262144"
  using assms body_canonical_bytes_total [of b] body_canonical_bytes_length [of b]
  by (auto simp: atom_body_wf_def)

end
