(* ===== verification/Outcome.thy ===== *)
theory Outcome
  imports Errors
begin

text \<open>
  Where the source indexes a slice or a vector with brackets, an index out of range is a panic and
  not an error value.  \<open>fault\<close> adds that outcome to the crate's error type, and the operations of
  this theory carry it, so that the absence of panics is a theorem and not an assumption.  The
  saturating and checked operations on \<open>usize\<close> are written out at 64 bits.
\<close>

datatype fault = Err MemoryError | Panic

type_synonym 'a outcome = "fault + 'a"

definition lift :: "'a result \<Rightarrow> 'a outcome" where
  "lift m = (case m of Inl e \<Rightarrow> Inl (Err e) | Inr x \<Rightarrow> Inr x)"

definition index :: "'a list \<Rightarrow> usize \<Rightarrow> 'a outcome" where
  "index xs i = (if i < length xs then Inr (xs ! i) else Inl Panic)"

definition store :: "'a list \<Rightarrow> usize \<Rightarrow> 'a \<Rightarrow> 'a list outcome" where
  "store xs i v = (if i < length xs then Inr (xs[i := v]) else Inl Panic)"

text \<open>\<open>slice.get(start..end)\<close> is \<open>None\<close> when the range is inverted or too long.\<close>

definition get_range :: "'a list \<Rightarrow> usize \<Rightarrow> usize \<Rightarrow> 'a list option" where
  "get_range xs start end = (if start \<le> end \<and> end \<le> length xs then Some (take (end - start) (drop start xs)) else None)"

definition get_index :: "'a list \<Rightarrow> usize \<Rightarrow> 'a option" where
  "get_index xs i = (if i < length xs then Some (xs ! i) else None)"

definition usize_saturating_add :: "usize \<Rightarrow> usize \<Rightarrow> usize" where
  "usize_saturating_add a b = min (a + b) usize_max"

definition usize_saturating_mul :: "usize \<Rightarrow> usize \<Rightarrow> usize" where
  "usize_saturating_mul a b = min (a * b) usize_max"

definition usize_checked_add :: "usize \<Rightarrow> usize \<Rightarrow> usize option" where
  "usize_checked_add a b = (if a + b \<le> usize_max then Some (a + b) else None)"

lemma lift_simps [simp]: "lift (Inl e) = Inl (Err e)" "lift (Inr x) = Inr x"
  by (simp_all add: lift_def)

lemma lift_Inr [result_simps]: "lift m = Inr x \<longleftrightarrow> m = Inr x"
  by (cases m) simp_all

lemma lift_Err [simp]: "lift m = Inl (Err e) \<longleftrightarrow> m = Inl e"
  by (cases m) simp_all

lemma lift_no_panic [simp]: "lift m \<noteq> Inl Panic"
  by (cases m) simp_all

lemma lift_bindr: "lift (bindr m f) = bindr (lift m) (\<lambda>x. lift (f x))"
  by (cases m) simp_all

lemma index_eq [simp]: "i < length xs \<Longrightarrow> index xs i = Inr (xs ! i)"
  by (simp add: index_def)

lemma store_eq [simp]: "i < length xs \<Longrightarrow> store xs i v = Inr (xs[i := v])"
  by (simp add: store_def)

lemma get_range_Some: "get_range xs s e = Some ys \<longleftrightarrow> s \<le> e \<and> e \<le> length xs \<and> ys = take (e - s) (drop s xs)"
  by (auto simp: get_range_def)

lemma usize_saturating_add_eq: "a + b \<le> usize_max \<Longrightarrow> usize_saturating_add a b = a + b"
  by (simp add: usize_saturating_add_def)

lemma usize_saturating_mul_eq: "a * b \<le> usize_max \<Longrightarrow> usize_saturating_mul a b = a * b"
  by (simp add: usize_saturating_mul_def)

lemma usize_checked_add_eq: "a + b \<le> usize_max \<Longrightarrow> usize_checked_add a b = Some (a + b)"
  by (simp add: usize_checked_add_def)

end
