(* ===== verification/Routes.thy ===== *)
theory Routes
  imports Outcome
begin

text \<open>
  The route index of \<open>seal.rs\<close>: a segment tree over candidate split points, used by the planner
  to find, among the reachable successors of a segment, the one with the fewest remaining segments
  and the latest end.  The tree is a vector of \<open>2 * leaf_count\<close> nodes, node \<open>1\<close> the root and
  the leaves from \<open>leaf_count\<close> on.
\<close>

section \<open>Choices\<close>

record RouteChoice =
  rt_remaining_segments :: usize
  rt_end :: usize

definition better_than :: "RouteChoice \<Rightarrow> RouteChoice \<Rightarrow> bool" where
  "better_than a b \<longleftrightarrow> rt_remaining_segments a < rt_remaining_segments b \<or>
     (rt_remaining_segments a = rt_remaining_segments b \<and> rt_end a > rt_end b)"

fun best_route_choice :: "RouteChoice option \<Rightarrow> RouteChoice option \<Rightarrow> RouteChoice option" where
  "best_route_choice (Some left) (Some right) = Some (if better_than left right then left else right)"
| "best_route_choice (Some choice) None = Some choice"
| "best_route_choice None (Some choice) = Some choice"
| "best_route_choice None None = None"

section \<open>The tree\<close>

record RouteChoices =
  rs_leaf_count :: usize
  rs_nodes :: "RouteChoice option list"

text \<open>\<open>usize::next_power_of_two\<close>.\<close>

fun next_power_of_two :: "usize \<Rightarrow> usize" where
  "next_power_of_two n = (if n \<le> 1 then 1 else 2 * next_power_of_two ((n + 1) div 2))"

declare next_power_of_two.simps [simp del]

definition RouteChoices_new :: "usize \<Rightarrow> RouteChoices" where
  "RouteChoices_new value_count =
     (let leaf_count = next_power_of_two value_count in
      \<lparr>rs_leaf_count = leaf_count, rs_nodes = replicate (usize_saturating_mul leaf_count 2) None\<rparr>)"

function pull_up :: "RouteChoice option list \<Rightarrow> usize \<Rightarrow> RouteChoice option list outcome" where
  "pull_up nodes node =
     (if node > 1
      then let parent = node div 2 in
        bindr (index nodes (parent * 2)) (\<lambda>left.
        bindr (index nodes (parent * 2 + 1)) (\<lambda>right.
        bindr (store nodes parent (best_route_choice left right)) (\<lambda>nodes'.
        pull_up nodes' parent)))
      else Inr nodes)"
  by pat_completeness auto
termination by (relation "measure snd") auto

declare pull_up.simps [simp del]

definition routes_insert :: "RouteChoices \<Rightarrow> usize \<Rightarrow> usize \<Rightarrow> RouteChoices outcome" where
  "routes_insert rs i remaining_segments =
     (let node = usize_saturating_add (rs_leaf_count rs) i in
      bindr (store (rs_nodes rs) node (Some \<lparr>rt_remaining_segments = remaining_segments, rt_end = i\<rparr>)) (\<lambda>nodes.
      bindr (pull_up nodes node) (\<lambda>nodes'.
      Inr (rs\<lparr>rs_nodes := nodes'\<rparr>))))"

function best_loop ::
  "RouteChoice option list \<Rightarrow> usize \<Rightarrow> usize \<Rightarrow> RouteChoice option \<Rightarrow> RouteChoice option outcome" where
  "best_loop nodes start end best =
     (if start < end
      then bindr (if start mod 2 = 1
             then bindr (index nodes start) (\<lambda>c. Inr (best_route_choice best c, usize_saturating_add start 1))
             else Inr (best, start)) (\<lambda>(best1, start1).
           bindr (if end mod 2 = 1
             then bindr (index nodes (end - 1)) (\<lambda>c. Inr (best_route_choice best1 c, end - 1))
             else Inr (best1, end)) (\<lambda>(best2, end1).
           best_loop nodes (start1 div 2) (end1 div 2) best2))
      else Inr best)"
  by pat_completeness auto
termination
  by (relation "measure (\<lambda>(nodes, start, end, best). end)") (auto split: if_splits simp: bindr_Inr)

declare best_loop.simps [simp del]

definition routes_best_in :: "RouteChoices \<Rightarrow> usize \<Rightarrow> usize \<Rightarrow> RouteChoice option outcome" where
  "routes_best_in rs start end =
     best_loop (rs_nodes rs) (usize_saturating_add start (rs_leaf_count rs))
       (usize_saturating_add end (rs_leaf_count rs)) None"

section \<open>The interface of the index\<close>

text \<open>
  A bottom-up segment tree answers a range query with any commutative monoid: it joins the range
  in an order that depends on the parities met on the way up.
\<close>

definition join_range :: "('a \<Rightarrow> 'a \<Rightarrow> 'a) \<Rightarrow> 'a \<Rightarrow> (nat \<Rightarrow> 'a) \<Rightarrow> nat \<Rightarrow> nat \<Rightarrow> 'a" where
  "join_range join none f lo hi = foldr (\<lambda>i acc. join (f i) acc) [lo..<hi] none"

locale choice_monoid =
  fixes join :: "'a \<Rightarrow> 'a \<Rightarrow> 'a" and none :: 'a
  assumes assoc: "join (join a b) c = join a (join b c)"
    and commute: "join a b = join b a"
    and left_none: "join none a = a"
begin

lemma right_none: "join a none = a"
  by (metis commute left_none)

lemma left_commute: "join a (join b c) = join b (join a c)"
  by (metis assoc commute)

lemma range_empty [simp]: "hi \<le> lo \<Longrightarrow> join_range join none f lo hi = none"
  by (simp add: join_range_def)

lemma range_first: "lo < hi \<Longrightarrow> join_range join none f lo hi = join (f lo) (join_range join none f (Suc lo) hi)"
  by (simp add: join_range_def upt_conv_Cons)

lemma fold_join: "foldr (\<lambda>i acc. join (f i) acc) xs z = join (foldr (\<lambda>i acc. join (f i) acc) xs none) z"
  by (induction xs) (simp_all add: left_none assoc)

lemma range_last: "lo \<le> hi \<Longrightarrow> join_range join none f lo (Suc hi) = join (join_range join none f lo hi) (f hi)"
  by (simp add: join_range_def right_none) (rule fold_join)

text \<open>Where every node is the join of its children, a range of one level is a range of the next.\<close>

lemma range_halve:
  assumes "a \<le> b" "\<And>p. a \<le> p \<Longrightarrow> p < b \<Longrightarrow> f p = join (f (2 * p)) (f (Suc (2 * p)))"
  shows "join_range join none f (2 * a) (2 * b) = join_range join none f a b"
  using assms
proof (induction b rule: dec_induct)
  case base
  show ?case by (simp only: range_empty [OF order_refl])
next
  case (step b)
  have two: "2 * Suc b = Suc (Suc (2 * b))" by simp
  have le: "2 * a \<le> 2 * b" "2 * a \<le> Suc (2 * b)" using step.hyps by simp_all
  have ih: "join_range join none f (2 * a) (2 * b) = join_range join none f a b"
    using step.IH step.prems by simp
  have fb: "f b = join (f (2 * b)) (f (Suc (2 * b)))" using step.prems [of b] step.hyps by simp
  show ?case
    unfolding two range_last [OF le(2)] range_last [OF le(1)] range_last [OF step.hyps(1)] ih assoc
    by (subst fb) (rule refl)
qed

lemma range_trim:
  assumes "s < e" "1 \<le> s"
    and tree: "\<And>p. 1 \<le> p \<Longrightarrow> Suc (2 * p) < e \<Longrightarrow> f p = join (f (2 * p)) (f (Suc (2 * p)))"
  shows "join_range join none f s e =
    join (if s mod 2 = 1 then f s else none)
      (join (if e mod 2 = 1 then f (e - 1) else none)
        (join_range join none f ((if s mod 2 = 1 then s + 1 else s) div 2) (e div 2)))"
proof -
  let ?s = "if s mod 2 = 1 then s + 1 else s" and ?e = "if e mod 2 = 1 then e - 1 else e"
  have even: "2 * (?s div 2) = ?s" "2 * (e div 2) = ?e" by presburger+
  have le: "?s div 2 \<le> e div 2" "?s \<le> ?e" using assms(1) by presburger+
  have "join_range join none f s e = join (if s mod 2 = 1 then f s else none) (join_range join none f ?s e)"
    using assms(1) by (simp add: range_first left_none)
  also have "join_range join none f ?s e = join (if e mod 2 = 1 then f (e - 1) else none) (join_range join none f ?s ?e)"
    using le(2) range_last [of ?s "e - 1" f] assms(1) by (auto simp: left_none commute)
  also have "join_range join none f ?s ?e = join_range join none f (?s div 2) (e div 2)"
  proof -
    have "f p = join (f (2 * p)) (f (Suc (2 * p)))" if "?s div 2 \<le> p" "p < e div 2" for p
    proof (rule tree)
      have "1 \<le> ?s div 2" using assms(2) by presburger
      then show "1 \<le> p" using that(1) by (rule order_trans)
      show "Suc (2 * p) < e" using that(2) by presburger
    qed
    from range_halve [OF le(1) this] show ?thesis unfolding even .
  qed
  finally show ?thesis .
qed

end

section \<open>Choices form such a monoid\<close>

lemma RouteChoice_eq: "rt_remaining_segments a = rt_remaining_segments b \<Longrightarrow> rt_end a = rt_end b \<Longrightarrow> a = (b :: RouteChoice)"
  by (cases a; cases b) simp

lemma better_than_total: "\<not> better_than a b \<Longrightarrow> \<not> better_than b a \<Longrightarrow> a = b"
  by (intro RouteChoice_eq) (auto simp: better_than_def)

lemma better_than_trans: "better_than a b \<Longrightarrow> better_than b c \<Longrightarrow> better_than a c"
  by (auto simp: better_than_def)

lemma better_than_asym: "better_than a b \<Longrightarrow> \<not> better_than b a"
  by (auto simp: better_than_def)

lemma better_than_irrefl [simp]: "\<not> better_than a a"
  by (simp add: better_than_def)

lemma best_route_choice_None [simp]: "best_route_choice a None = a" "best_route_choice None a = a"
  by (cases a; simp)+

interpretation route: choice_monoid best_route_choice None
proof
  show "best_route_choice (best_route_choice a b) c = best_route_choice a (best_route_choice b c)" for a b c
    by (cases a; cases b; cases c) (auto dest: better_than_trans better_than_asym better_than_total)
  show "best_route_choice a b = best_route_choice b a" for a b
    by (cases a; cases b) (auto dest: better_than_asym better_than_total)
qed simp

text \<open>The join of a range is the best choice present in it.\<close>

lemma best_in_range_None:
  "join_range best_route_choice None f lo hi = None \<longleftrightarrow> (\<forall>i. lo \<le> i \<and> i < hi \<longrightarrow> f i = None)"
proof (induction hi)
  case (Suc hi)
  have "best_route_choice a b = None \<longleftrightarrow> a = None \<and> b = None" for a b
    by (cases a; cases b) auto
  with Suc show ?case
    by (cases "lo \<le> hi") (auto simp: route.range_last less_Suc_eq)
qed simp

lemma best_route_choice_Some:
  "best_route_choice a b = Some c \<Longrightarrow>
     (a = Some c \<or> b = Some c) \<and> (\<forall>d. a = Some d \<or> b = Some d \<longrightarrow> \<not> better_than d c)"
  by (cases a; cases b) (auto dest: better_than_asym split: if_splits)

lemma not_better_trans: "\<not> better_than a b \<Longrightarrow> \<not> better_than b c \<Longrightarrow> \<not> better_than a c"
  by (auto simp: better_than_def)

lemma best_in_range_Some:
  "join_range best_route_choice None f lo hi = Some c \<Longrightarrow>
     (\<exists>i. lo \<le> i \<and> i < hi \<and> f i = Some c) \<and>
     (\<forall>i d. lo \<le> i \<and> i < hi \<and> f i = Some d \<longrightarrow> \<not> better_than d c)"
proof (induction hi arbitrary: c)
  case (Suc hi)
  have le: "lo \<le> hi" using Suc.prems by (cases "lo \<le> hi") auto
  let ?r = "join_range best_route_choice None f lo hi"
  have c: "best_route_choice ?r (f hi) = Some c" using Suc.prems le by (simp add: route.range_last)
  note best = best_route_choice_Some [OF c]
  have mem: "\<exists>i. lo \<le> i \<and> i < Suc hi \<and> f i = Some c"
    using best Suc.IH [of c] le less_Suc_eq by blast
  have "\<not> better_than d c" if d: "lo \<le> i" "i < Suc hi" "f i = Some d" for i d
  proof (cases "i = hi")
    case True
    then show ?thesis using best d by blast
  next
    case False
    then have "i < hi" using d by simp
    then obtain r where r: "?r = Some r" using d best_in_range_None [of f lo hi] by (cases ?r) auto
    then have "\<not> better_than d r" using Suc.IH d \<open>i < hi\<close> by blast
    then show ?thesis using best r not_better_trans by blast
  qed
  with mem show ?case by blast
qed simp

section \<open>The tree invariant\<close>

definition tree_node :: "RouteChoice option list \<Rightarrow> nat \<Rightarrow> bool" where
  "tree_node nodes p \<longleftrightarrow> nodes ! p = best_route_choice (nodes ! (2 * p)) (nodes ! Suc (2 * p))"

definition routes_inv :: "RouteChoices \<Rightarrow> usize \<Rightarrow> (nat \<Rightarrow> RouteChoice option) \<Rightarrow> bool" where
  "routes_inv rs n vals \<longleftrightarrow>
     n \<le> rs_leaf_count rs \<and> 1 \<le> rs_leaf_count rs \<and>
     length (rs_nodes rs) = 2 * rs_leaf_count rs \<and> 2 * rs_leaf_count rs \<le> usize_max \<and>
     (\<forall>p. 1 \<le> p \<and> p < rs_leaf_count rs \<longrightarrow> tree_node (rs_nodes rs) p) \<and>
     (\<forall>i < rs_leaf_count rs. rs_nodes rs ! (rs_leaf_count rs + i) = vals i)"

lemma next_power_of_two_bounds:
  "1 \<le> next_power_of_two n \<and> n \<le> next_power_of_two n \<and> (2 \<le> n \<longrightarrow> next_power_of_two n + 2 \<le> 2 * n)"
proof (induction n rule: next_power_of_two.induct)
  case (1 n)
  show ?case
  proof (cases "n \<le> 1")
    case True
    then show ?thesis by (simp add: next_power_of_two.simps [of n])
  next
    case False
    then have "next_power_of_two n = 2 * next_power_of_two ((n + 1) div 2)"
      by (simp add: next_power_of_two.simps [of n])
    moreover have "n \<le> 2 * ((n + 1) div 2)" "2 * ((n + 1) div 2) \<le> n + 1" by presburger+
    moreover have "(n + 1) div 2 \<le> 1 \<Longrightarrow> n = 2 \<and> (n + 1) div 2 = 1" using False by presburger
    ultimately show ?thesis using 1 [OF False] next_power_of_two.simps [of 1]
      by (cases "2 \<le> (n + 1) div 2") auto
  qed
qed

lemma RouteChoices_new_inv:
  assumes "1 \<le> n" "4 * n \<le> usize_max"
  shows "routes_inv (RouteChoices_new n) n (\<lambda>_. None)"
proof -
  let ?L = "next_power_of_two n"
  have L: "1 \<le> ?L" "n \<le> ?L" using next_power_of_two_bounds [of n] by auto
  have "?L \<le> 2 * n"
    using next_power_of_two_bounds [of n] next_power_of_two.simps [of 1] assms by (cases "n = 1") auto
  then have "?L * 2 \<le> usize_max" using assms by linarith
  then have "usize_saturating_mul ?L 2 = 2 * ?L" by (simp add: usize_saturating_mul_eq)
  then show ?thesis using L \<open>?L * 2 \<le> usize_max\<close>
    by (simp add: RouteChoices_new_def Let_def routes_inv_def tree_node_def)
qed

lemma tree_node_update:
  "tree_node nodes p \<Longrightarrow> p \<noteq> k \<Longrightarrow> 2 * p \<noteq> k \<Longrightarrow> Suc (2 * p) \<noteq> k \<Longrightarrow> tree_node (nodes[k := v]) p"
  by (simp add: tree_node_def)

lemma tree_node_parent:
  assumes "1 \<le> k" "k < length nodes"
  shows "tree_node (nodes[k := best_route_choice (nodes ! (k * 2)) (nodes ! (k * 2 + 1))]) k"
proof -
  have "2 * k \<noteq> k" "Suc (2 * k) \<noteq> k" using assms(1) by presburger+
  then show ?thesis using assms(2) by (simp add: tree_node_def mult.commute)
qed

lemma not_child: "q \<noteq> k div 2 \<Longrightarrow> 2 * q \<noteq> k \<and> Suc (2 * q) \<noteq> k"
  by auto

lemma pull_up_spec:
  "1 \<le> node \<Longrightarrow> node < 2 * L \<Longrightarrow> length nodes = 2 * L \<Longrightarrow>
   (\<forall>p. 1 \<le> p \<and> p < L \<and> p \<noteq> node div 2 \<longrightarrow> tree_node nodes p) \<Longrightarrow>
   \<exists>nodes'. pull_up nodes node = Inr nodes' \<and> length nodes' = 2 * L \<and>
     (\<forall>p. 1 \<le> p \<and> p < L \<longrightarrow> tree_node nodes' p) \<and> (\<forall>i. L \<le> i \<longrightarrow> nodes' ! i = nodes ! i)"
proof (induction nodes node rule: pull_up.induct)
  case (1 nodes node)
  show ?case
  proof (cases "node > 1")
    case False
    then have "node div 2 = 0" by simp
    then have "\<forall>p. 1 \<le> p \<and> p < L \<longrightarrow> tree_node nodes p" using "1.prems"(4) by (metis not_one_le_zero)
    then show ?thesis using "1.prems"(3) False by (simp add: pull_up.simps [of nodes node])
  next
    case True
    let ?p = "node div 2"
    let ?b = "best_route_choice (nodes ! (?p * 2)) (nodes ! (?p * 2 + 1))"
    let ?nodes = "nodes[?p := ?b]"
    have p: "1 \<le> ?p" "?p < L" "?p < 2 * L" "?p * 2 < 2 * L" "?p * 2 + 1 < 2 * L"
      using True "1.prems"(2) by presburger+
    note len = "1.prems"(3)
    have tree: "\<forall>q. 1 \<le> q \<and> q < L \<and> q \<noteq> ?p div 2 \<longrightarrow> tree_node ?nodes q"
    proof (intro allI impI)
      fix q assume q: "1 \<le> q \<and> q < L \<and> q \<noteq> ?p div 2"
      then have ne: "2 * q \<noteq> ?p" "Suc (2 * q) \<noteq> ?p" by (simp_all add: not_child)
      show "tree_node ?nodes q"
      proof (cases "q = ?p")
        case True
        then show ?thesis using tree_node_parent [of ?p nodes] p(1,3) len by (simp only:)
      next
        case False
        then have "tree_node nodes q" using "1.prems"(4) q by blast
        then show ?thesis using False ne by (rule tree_node_update)
      qed
    qed
    have ih: "\<exists>nodes'. pull_up ?nodes ?p = Inr nodes' \<and> length nodes' = 2 * L \<and>
       (\<forall>p. 1 \<le> p \<and> p < L \<longrightarrow> tree_node nodes' p) \<and> (\<forall>i. L \<le> i \<longrightarrow> nodes' ! i = ?nodes ! i)"
      by (rule "1.IH" [OF True refl index_eq index_eq store_eq]) (use p len tree in \<open>simp_all only: length_list_update\<close>)
    have step: "pull_up nodes node = pull_up ?nodes ?p"
      using p len True by (simp add: pull_up.simps [of nodes node] Let_def del: One_nat_def)
    have above: "?nodes ! i = nodes ! i" if "L \<le> i" for i
      using that p(2) by (intro nth_list_update_neq) linarith
    show ?thesis using ih unfolding step using above by metis
  qed
qed

lemma routes_insert_spec:
  assumes inv: "routes_inv rs n vals" and i: "i < n"
  shows "\<exists>rs'. routes_insert rs i k = Inr rs' \<and>
    routes_inv rs' n (vals(i := Some \<lparr>rt_remaining_segments = k, rt_end = i\<rparr>))"
proof -
  let ?L = "rs_leaf_count rs" and ?v = "Some \<lparr>rt_remaining_segments = k, rt_end = i\<rparr>"
  let ?nodes = "(rs_nodes rs)[?L + i := ?v]"
  have L: "n \<le> ?L" "1 \<le> ?L" "length (rs_nodes rs) = 2 * ?L" "2 * ?L \<le> usize_max"
    and inner: "\<forall>p. 1 \<le> p \<and> p < ?L \<longrightarrow> tree_node (rs_nodes rs) p"
    and leaves: "\<forall>i < ?L. rs_nodes rs ! (?L + i) = vals i"
    using inv unfolding routes_inv_def by blast+
  have node: "usize_saturating_add ?L i = ?L + i" using L i by (intro usize_saturating_add_eq) linarith
  have pos: "1 \<le> ?L + i" "?L + i < 2 * ?L" "length ?nodes = 2 * ?L" using L i by simp_all
  have tree: "\<forall>p. 1 \<le> p \<and> p < ?L \<and> p \<noteq> (?L + i) div 2 \<longrightarrow> tree_node ?nodes p"
  proof (intro allI impI)
    fix p assume p: "1 \<le> p \<and> p < ?L \<and> p \<noteq> (?L + i) div 2"
    then have "p \<noteq> ?L + i" "2 * p \<noteq> ?L + i" "Suc (2 * p) \<noteq> ?L + i" by (simp_all add: not_child)
    moreover have "tree_node (rs_nodes rs) p" using inner p by blast
    ultimately show "tree_node ?nodes p" by (intro tree_node_update)
  qed
  obtain nodes' where nodes': "pull_up ?nodes (?L + i) = Inr nodes'" "length nodes' = 2 * ?L"
      "\<forall>p. 1 \<le> p \<and> p < ?L \<longrightarrow> tree_node nodes' p" "\<forall>j. ?L \<le> j \<longrightarrow> nodes' ! j = ?nodes ! j"
    using pull_up_spec [OF pos tree] by blast
  have "routes_insert rs i k = Inr (rs\<lparr>rs_nodes := nodes'\<rparr>)"
    using pos(2) L(3) nodes'(1) by (simp add: routes_insert_def Let_def node)
  moreover have "nodes' ! (?L + j) = (vals(i := ?v)) j" if "j < ?L" for j
  proof -
    have "nodes' ! (?L + j) = ?nodes ! (?L + j)" using nodes'(4) by simp
    then show ?thesis using leaves that pos(2) L(3) by (cases "j = i") simp_all
  qed
  ultimately show ?thesis using L nodes' by (simp add: routes_inv_def)
qed

lemma best_loop_spec:
  "1 \<le> s \<Longrightarrow> e \<le> 2 * L \<Longrightarrow> length nodes = 2 * L \<Longrightarrow> 2 * L \<le> usize_max \<Longrightarrow>
   (\<forall>p. 1 \<le> p \<and> p < L \<longrightarrow> tree_node nodes p) \<Longrightarrow>
   best_loop nodes s e b = Inr (best_route_choice b (join_range best_route_choice None (\<lambda>i. nodes ! i) s e))"
proof (induction e arbitrary: s b rule: less_induct)
  case (less e)
  show ?case
  proof (cases "s < e")
    case False
    then show ?thesis by (simp add: best_loop.simps [of nodes s e b])
  next
    case True
    let ?s = "if s mod 2 = 1 then s + 1 else s"
    let ?b1 = "best_route_choice b (if s mod 2 = 1 then nodes ! s else None)"
    let ?b2 = "best_route_choice ?b1 (if e mod 2 = 1 then nodes ! (e - 1) else None)"
    have len: "s < length nodes" "e - 1 < length nodes" using True less.prems by auto
    have trim: "join_range best_route_choice None (\<lambda>i. nodes ! i) s e =
        best_route_choice (if s mod 2 = 1 then nodes ! s else None)
          (best_route_choice (if e mod 2 = 1 then nodes ! (e - 1) else None)
            (join_range best_route_choice None (\<lambda>i. nodes ! i) (?s div 2) (e div 2)))"
    proof (rule route.range_trim [OF True less.prems(1)])
      fix p assume "1 \<le> p" "Suc (2 * p) < e"
      then have "tree_node nodes p" using less.prems(2,5) by simp
      then show "nodes ! p = best_route_choice (nodes ! (2 * p)) (nodes ! Suc (2 * p))"
        by (simp only: tree_node_def)
    qed
    have half: "e mod 2 = 1 \<Longrightarrow> (e - 1) div 2 = e div 2" by presburger
    have "usize_saturating_add s 1 = s + 1" using True less.prems by (intro usize_saturating_add_eq) linarith
    then have "best_loop nodes s e b = best_loop nodes (?s div 2) (e div 2) ?b2"
      unfolding best_loop.simps [of nodes s e b] using True len half
      by simp
    also have "\<dots> = Inr (best_route_choice ?b2
        (join_range best_route_choice None (\<lambda>i. nodes ! i) (?s div 2) (e div 2)))"
      using less.prems True by (intro less.IH) (auto split: if_splits)
    also have "best_route_choice ?b2 (join_range best_route_choice None (\<lambda>i. nodes ! i) (?s div 2) (e div 2))
      = best_route_choice b (join_range best_route_choice None (\<lambda>i. nodes ! i) s e)"
      using True less.prems
      by (simp add: trim route.assoc)
    finally show ?thesis .
  qed
qed

lemma join_range_shift: "join_range j z f (lo + k) (hi + k) = join_range j z (\<lambda>i. f (k + i)) lo hi"
proof -
  have "[lo + k..<hi + k] = map (\<lambda>i. k + i) [lo..<hi]"
    by (rule nth_equalityI) auto
  then show ?thesis by (simp add: join_range_def foldr_map comp_def)
qed

lemma join_range_cong:
  "(\<And>i. lo \<le> i \<Longrightarrow> i < hi \<Longrightarrow> f i = g i) \<Longrightarrow> join_range j z f lo hi = join_range j z g lo hi"
  unfolding join_range_def by (rule foldr_cong) auto

lemma routes_best_in_spec:
  assumes inv: "routes_inv rs n vals" and "e \<le> n"
  shows "routes_best_in rs s e = Inr (join_range best_route_choice None vals s e)"
proof (cases "s < e")
  case True
  let ?L = "rs_leaf_count rs"
  have L: "n \<le> ?L" "1 \<le> ?L" "2 * ?L \<le> usize_max" "length (rs_nodes rs) = 2 * ?L"
    and tree: "\<forall>p. 1 \<le> p \<and> p < ?L \<longrightarrow> tree_node (rs_nodes rs) p"
    and leaves: "\<And>i. i < ?L \<Longrightarrow> rs_nodes rs ! (?L + i) = vals i"
    using inv unfolding routes_inv_def by blast+
  have s: "s + ?L \<le> usize_max" and e: "e + ?L \<le> usize_max" "e + ?L \<le> 2 * ?L" and s1: "1 \<le> s + ?L"
    using L assms(2) True by linarith+
  have "routes_best_in rs s e = Inr (join_range best_route_choice None (\<lambda>i. rs_nodes rs ! i) (s + ?L) (e + ?L))"
    by (simp only: routes_best_in_def usize_saturating_add_eq [OF s] usize_saturating_add_eq [OF e(1)]
      best_loop_spec [OF s1 e(2) L(4,3) tree] best_route_choice_None)
  also have "join_range best_route_choice None (\<lambda>i. rs_nodes rs ! i) (s + ?L) (e + ?L) =
      join_range best_route_choice None (\<lambda>i. rs_nodes rs ! (?L + i)) s e"
    by (rule join_range_shift)
  also have "\<dots> = join_range best_route_choice None vals s e"
  proof (rule join_range_cong)
    fix i assume "i < e"
    then show "rs_nodes rs ! (?L + i) = vals i" using leaves L(1) assms(2) by simp
  qed
  finally show ?thesis .
next
  case False
  then have "\<not> usize_saturating_add s (rs_leaf_count rs) < usize_saturating_add e (rs_leaf_count rs)"
    by (auto simp: usize_saturating_add_def)
  then have "routes_best_in rs s e = Inr None"
    unfolding routes_best_in_def by (subst best_loop.simps) (simp only: if_False)
  then show ?thesis using False by simp
qed

end
