(* ===== verification/Seal.thy ===== *)
theory Seal
  imports Validation Routes
begin

text \<open>
  The first half of \<open>seal.rs\<close>: episode events and requests, the check of a sealing input, the
  prepared event sizes, and the construction of an episode body from a range of events.  The
  second half of this theory computes the encoded size of such a body, the size model on which
  the split planner rests.
\<close>

section \<open>Events, buffers, requests\<close>

definition EVENT_HASH_DOMAIN :: "byte list" where
  "EVENT_HASH_DOMAIN = str_bytes ''naome-memory:event:v1'' @ [0]"

record EpisodeEventV1 =
  ev_sequence :: u64
  ev_at_us :: u64
  ev_scope :: MemoryScopeV1
  ev_observation :: "ObservationV1 option"
  ev_interpretation :: "InterpretationV1 option"
  ev_belief :: "BeliefV1 option"
  ev_decision :: "DecisionRecordV1 option"
  ev_action :: "ActionRecordV1 option"

definition v_event :: "EpisodeEventV1 \<Rightarrow> Value" where
  "v_event e = VObject [
     (''sequence'', v_u64 (ev_sequence e)),
     (''at_us'', v_u64 (ev_at_us e)),
     (''scope'', v_scope (ev_scope e)),
     (''observation'', v_option v_observation (ev_observation e)),
     (''interpretation'', v_option v_interpretation (ev_interpretation e)),
     (''belief'', v_option v_belief (ev_belief e)),
     (''decision'', v_option v_decision_record (ev_decision e)),
     (''action'', v_option v_action (ev_action e))]"

record EpisodeBufferV1 =
  bu_scope :: MemoryScopeV1
  bu_started_at_us :: u64
  bu_events :: "EpisodeEventV1 list"
  bu_continues :: "AtomId option"

record SealEpisodeRequestV1 =
  rq_as_of_us :: u64
  rq_ended_at_us :: u64
  rq_trigger :: string
  rq_seal_reason :: SealReasonV1
  rq_goal :: "string option"
  rq_plan :: "string list"
  rq_internal_state_before :: "(string, string) fmap"
  rq_internal_state_after :: "(string, string) fmap"
  rq_rejected_alternatives :: "RejectedAlternativeV1 list"
  rq_outcome :: "OutcomeV1 option"
  rq_feedback :: "FeedbackSignalV1 list"
  rq_formation_signals :: FormationSignalsV1
  rq_topic_keys :: "string fset"
  rq_entity_ids :: "string fset"
  rq_outcome_class :: "string option"
  rq_goal_key :: "string option"
  rq_retention_permission :: RetentionPermissionV1
  rq_artifacts :: "ArtifactRefV1 list"
  rq_relations :: "MemoryRelationV1 list"

record SealedEpisodeV1 =
  se_atom_id :: AtomId
  se_body :: MemoryAtomBodyV1
  se_canonical_size_bytes :: u64
  se_target_size_exceeded :: bool

record SealedEpisodeChainV1 =
  ch_contract_version :: string
  ch_source_event_count :: usize
  ch_episodes :: "SealedEpisodeV1 list"

section \<open>The input check\<close>

text \<open>The loop over the events: the expected sequence number and the previous time are its variables.\<close>

fun check_events ::
  "EpisodeBufferV1 \<Rightarrow> SealEpisodeRequestV1 \<Rightarrow> u64 \<Rightarrow> u64 option \<Rightarrow> EpisodeEventV1 list \<Rightarrow> unit result" where
  "check_events buffer request expected_sequence previous_at [] = Inr ()"
| "check_events buffer request expected_sequence previous_at (event # events) =
     (if ev_sequence event \<noteq> expected_sequence then Inl (NonContiguousEvents expected_sequence (ev_sequence event))
      else if ev_scope event \<noteq> bu_scope buffer then Inl (EventScopeMismatch (ev_sequence event))
      else if ev_at_us event < bu_started_at_us buffer \<or> ev_at_us event > rq_ended_at_us request
      then Inl (EventTimeOutOfRange (ev_sequence event))
      else bindr (case previous_at of
          Some previous \<Rightarrow>
            if ev_at_us event < previous
            then Inl (NonMonotonicEventTime (ev_sequence event) previous (ev_at_us event)) else Inr ()
        | None \<Rightarrow> Inr ()) (\<lambda>_.
        bindr (ok_or (NonContiguousEvents expected_sequence (ev_sequence event)) (checked_add expected_sequence 1)) (\<lambda>next_sequence.
        check_events buffer request next_sequence (Some (ev_at_us event)) events)))"

definition seal_validate_artifacts ::
  "(byte list \<Rightarrow> Digest32) \<Rightarrow> ArtifactRefV1 list \<Rightarrow> PolicyV1 \<Rightarrow> unit result" where
  "seal_validate_artifacts sha artifacts policy =
     try_each (\<lambda>a. if ar_size_bytes a > po_artifact_max_bytes policy
       then Inl (ArtifactTooLarge (ar_size_bytes a) (po_artifact_max_bytes policy))
       else validate_inline_payload sha policy a) artifacts"

definition is_substantive :: "EpisodeEventV1 \<Rightarrow> bool" where
  "is_substantive e \<longleftrightarrow> ev_observation e \<noteq> None \<or> ev_decision e \<noteq> None \<or> ev_action e \<noteq> None"

definition validate_episode_input ::
  "(byte list \<Rightarrow> Digest32) \<Rightarrow> EpisodeBufferV1 \<Rightarrow> SealEpisodeRequestV1 \<Rightarrow> PolicyV1 \<Rightarrow> unit result" where
  "validate_episode_input sha buffer request policy =
     bindr (validate_scope (bu_scope buffer)) (\<lambda>_.
     if rq_trigger request = '''' then Inl (EmptyField ''trigger'')
     else if bu_events buffer = [] then Inl EmptyEpisode
     else if bu_started_at_us buffer > rq_ended_at_us request \<or> rq_ended_at_us request > rq_as_of_us request
     then Inl InvalidTimeInterval
     else bindr (check_events buffer request (ev_sequence (hd (bu_events buffer))) None (bu_events buffer)) (\<lambda>_.
     bindr (seal_validate_artifacts sha (rq_artifacts request) policy) (\<lambda>_.
     if \<not> list_ex is_substantive (bu_events buffer) \<and> rq_outcome request = None \<and> rq_feedback request = []
     then Inl InsufficientEpisodeContent
     else Inr ())))"

section \<open>Prepared event sizes\<close>

record PreparedEpisodeEvents =
  pe_digests :: "Digest32 list"
  pe_cumulative_body_bytes :: "u64 list"
  pe_cumulative_substantive :: "usize list"

definition framed_canonical_size :: "Value \<Rightarrow> u64 result" where
  "framed_canonical_size value =
     bindr (encode_value value) (\<lambda>bytes.
     bindr (ok_or (CanonicalEncoding ''canonical value exceeds u64'') (u64_of_usize (length bytes))) (\<lambda>n.
     ok_or (CanonicalEncoding ''framed canonical size overflowed u64'') (checked_add n 8)))"

definition event_digest :: "(byte list \<Rightarrow> Digest32) \<Rightarrow> EpisodeEventV1 \<Rightarrow> Digest32 result" where
  "event_digest sha event =
     bindr (encode_value (v_event event)) (\<lambda>bytes. Inr (hash_prefixed sha EVENT_HASH_DOMAIN bytes))"

definition event_fields :: "EpisodeEventV1 \<Rightarrow> Value option list" where
  "event_fields event =
     [map_option v_observation (ev_observation event),
      map_option v_interpretation (ev_interpretation event),
      map_option v_belief (ev_belief event),
      map_option v_decision_record (ev_decision event),
      map_option v_action (ev_action event)]"

definition event_body_bytes :: "Digest32 \<Rightarrow> EpisodeEventV1 \<Rightarrow> u64 result" where
  "event_body_bytes digest event =
     bindr (framed_canonical_size (v_digest digest)) (\<lambda>digest_bytes.
     bindr (traverse (\<lambda>field. case field of
         None \<Rightarrow> Inr None
       | Some value \<Rightarrow> bindr (framed_canonical_size value) (\<lambda>n. Inr (Some n))) (event_fields event)) (\<lambda>field_bytes.
     try_fold (\<lambda>body_bytes field. ok_or (CanonicalEncoding ''episode event size overflowed u64'')
         (checked_add body_bytes (unwrap_or 0 field))) digest_bytes field_bytes))"

definition prepare_event ::
  "(byte list \<Rightarrow> Digest32) \<Rightarrow> PreparedEpisodeEvents \<Rightarrow> EpisodeEventV1 \<Rightarrow> PreparedEpisodeEvents result" where
  "prepare_event sha p event =
     bindr (event_digest sha event) (\<lambda>digest.
     bindr (event_body_bytes digest event) (\<lambda>body_bytes.
     bindr (ok_or (CanonicalEncoding ''episode event bytes overflowed u64'')
       (checked_add (if pe_cumulative_body_bytes p = [] then 0 else last (pe_cumulative_body_bytes p)) body_bytes)) (\<lambda>total.
     bindr (ok_or (CanonicalEncoding ''episode substantive event count overflowed usize'')
       (usize_checked_add (if pe_cumulative_substantive p = [] then 0 else last (pe_cumulative_substantive p))
         (if is_substantive event then 1 else 0))) (\<lambda>substantive_total.
     Inr \<lparr>pe_digests = pe_digests p @ [digest],
          pe_cumulative_body_bytes = pe_cumulative_body_bytes p @ [total],
          pe_cumulative_substantive = pe_cumulative_substantive p @ [substantive_total]\<rparr>))))"

definition prepare_events ::
  "(byte list \<Rightarrow> Digest32) \<Rightarrow> EpisodeEventV1 list \<Rightarrow> PreparedEpisodeEvents result" where
  "prepare_events sha events =
     try_fold (prepare_event sha)
       \<lparr>pe_digests = [], pe_cumulative_body_bytes = [0], pe_cumulative_substantive = [0]\<rparr> events"

definition range_body_bytes :: "PreparedEpisodeEvents \<Rightarrow> usize \<Rightarrow> usize \<Rightarrow> u64 result" where
  "range_body_bytes p start end =
     bindr (ok_or (CanonicalEncoding ''episode size range start failed'')
       (get_index (pe_cumulative_body_bytes p) start)) (\<lambda>start_bytes.
     bindr (ok_or (CanonicalEncoding ''episode size range end failed'')
       (get_index (pe_cumulative_body_bytes p) end)) (\<lambda>end_bytes.
     ok_or (CanonicalEncoding ''episode size range was inverted'') (checked_sub end_bytes start_bytes)))"

section \<open>Building a body\<close>

definition episode_relations :: "MemoryRelationV1 list \<Rightarrow> AtomId option \<Rightarrow> MemoryRelationV1 list" where
  "episode_relations relations continues =
     sort_key (\<lambda>r. (re_target r, relation_kind_key (re_kind r)))
       (filter (\<lambda>r. re_kind r \<noteq> Continues) relations @
        (case continues of None \<Rightarrow> [] | Some previous \<Rightarrow> [\<lparr>re_kind = Continues, re_target = previous\<rparr>]))"

definition build_episode_body ::
  "EpisodeBufferV1 \<Rightarrow> SealEpisodeRequestV1 \<Rightarrow> Digest32 \<Rightarrow> EpisodeEventV1 list \<Rightarrow> Digest32 list \<Rightarrow>
   u64 \<Rightarrow> u64 \<Rightarrow> AtomId option \<Rightarrow> MemoryAtomBodyV1 result" where
  "build_episode_body buffer request digest events event_digests started_at_us ended_at_us continues =
     (if events = [] then Inl EmptyEpisode
      else Inr \<lparr>
        bd_contract_version = ''atom-v1'',
        bd_scope = bu_scope buffer,
        bd_interval = \<lparr>iv_started_at_us = started_at_us, iv_ended_at_us = ended_at_us,
          iv_recorded_at_us = rq_as_of_us request\<rparr>,
        bd_trigger = rq_trigger request,
        bd_seal_reason = rq_seal_reason request,
        bd_goal = rq_goal request,
        bd_plan = rq_plan request,
        bd_internal_state_before = rq_internal_state_before request,
        bd_internal_state_after = rq_internal_state_after request,
        bd_observations = List.map_filter ev_observation events,
        bd_interpretations = List.map_filter ev_interpretation events,
        bd_beliefs = List.map_filter ev_belief events,
        bd_decisions = List.map_filter ev_decision events,
        bd_rejected_alternatives = rq_rejected_alternatives request,
        bd_actions = List.map_filter ev_action events,
        bd_outcome = rq_outcome request,
        bd_feedback = rq_feedback request,
        bd_formation_signals = rq_formation_signals request,
        bd_topic_keys = rq_topic_keys request,
        bd_entity_ids = rq_entity_ids request,
        bd_outcome_class = rq_outcome_class request,
        bd_goal_key = rq_goal_key request,
        bd_provenance = \<lparr>pv_producer = ''naome-memory-core/seal_episode'',
          pv_source_event_digests = event_digests, pv_policy_digest = digest\<rparr>,
        bd_relations = episode_relations (rq_relations request) continues,
        bd_artifacts = rq_artifacts request,
        bd_retention_permission = rq_retention_permission request,
        bd_payload = EpisodePayload \<lparr>ep_event_sequence_start = ev_sequence (hd events),
          ep_event_sequence_end = ev_sequence (last events), ep_continues = continues\<rparr>\<rparr>)"

section \<open>The size of an event\<close>

definition field_bytes :: "('a \<Rightarrow> Value) \<Rightarrow> 'a option \<Rightarrow> nat" where
  "field_bytes f x = (case x of None \<Rightarrow> 0 | Some v \<Rightarrow> 8 + vsize (f v))"

definition ev_bytes :: "EpisodeEventV1 \<Rightarrow> nat" where
  "ev_bytes e = 81 + field_bytes v_observation (ev_observation e)
     + field_bytes v_interpretation (ev_interpretation e) + field_bytes v_belief (ev_belief e)
     + field_bytes v_decision_record (ev_decision e) + field_bytes v_action (ev_action e)"

lemma field_bytes_simps [simp]: "field_bytes f None = 0" "field_bytes f (Some v) = 8 + vsize (f v)"
  by (simp_all add: field_bytes_def)

lemma field_bytes_map:
  "(case x of None \<Rightarrow> 0 | Some y \<Rightarrow> ((\<lambda>v. 8 + vsize v) \<circ> f) y) = field_bytes f x"
  by (cases x) simp_all

lemma vsize_leaves [simp]:
  "vsize (v_u64 x) = 9" "vsize (v_u32 y) = 9" "vsize (v_digest d) = 73" "vsize (v_atom_id a) = 73"
  "vsize (v_ppm p) = 9" "vsize (v_byte b) = 9" "vsize (v_usize n) = 9" "vsize (v_seed s) = 73"
  by (simp_all add: v_u64_def v_u32_def v_digest_def v_atom_id_def v_ppm_def v_byte_def v_usize_def v_seed_def)

lemma vsize_vec [simp]: "vsize (v_vec f xs) = 9 + sum_list (map (\<lambda>x. 8 + vsize (f x)) xs)"
  by (simp add: v_vec_def comp_def)

lemma vsize_option [simp]: "vsize (v_option f x) = (case x of None \<Rightarrow> 1 | Some v \<Rightarrow> vsize (f v))"
  by (simp add: v_option_def split: option.split)

lemma framed_canonical_size_Inr: "framed_canonical_size v = Inr n \<Longrightarrow> unat n = 8 + vsize v"
  by (auto simp: framed_canonical_size_def bindr_Inr ok_or_Inr
      dest!: checked_add_SomeD u64_of_usize_SomeD encode_value_length)

lemma event_body_bytes_Inr:
  assumes "event_body_bytes d e = Inr n"
  shows "unat n = ev_bytes e"
proof -
  let ?size = "\<lambda>field. case field of None \<Rightarrow> Inr None
       | Some value \<Rightarrow> bindr (framed_canonical_size value) (\<lambda>n. Inr (Some n))"
  obtain d0 fs where d0: "framed_canonical_size (v_digest d) = Inr d0"
    and fs: "traverse ?size (event_fields e) = Inr fs"
    and n: "unat d0 + sum_list (map (unat \<circ> unwrap_or 0) fs) = unat n"
    using assms by (auto simp: event_body_bytes_def bindr_Inr checked_sum_fold_Inr)
  have one: "unat (unwrap_or 0 y) = (case x of None \<Rightarrow> 0 | Some v \<Rightarrow> 8 + vsize v)" if "?size x = Inr y" for x y
    using that framed_canonical_size_Inr by (cases x) (auto simp: bindr_Inr)
  have all: "traverse ?size xs = Inr ys \<Longrightarrow> map (unat \<circ> unwrap_or 0) ys =
      map (\<lambda>x. case x of None \<Rightarrow> 0 | Some v \<Rightarrow> 8 + vsize v) xs" for xs ys
    by (induction xs arbitrary: ys) (auto simp: bindr_Inr dest!: one)
  have "unat d0 = 81" using framed_canonical_size_Inr [OF d0] by simp
  then show ?thesis
    using n unfolding all [OF fs] by (simp add: ev_bytes_def event_fields_def field_bytes_map)
qed

section \<open>Prepared events are prefix sums\<close>

lemma usize_checked_add_Some: "usize_checked_add a b = Some c \<Longrightarrow> c = a + b"
  by (simp add: usize_checked_add_def split: if_splits)

definition prepared_for :: "(byte list \<Rightarrow> Digest32) \<Rightarrow> EpisodeEventV1 list \<Rightarrow> PreparedEpisodeEvents \<Rightarrow> bool" where
  "prepared_for sha events p \<longleftrightarrow>
     list_all2 (\<lambda>e d. event_digest sha e = Inr d) events (pe_digests p) \<and>
     length (pe_cumulative_body_bytes p) = Suc (length events) \<and>
     length (pe_cumulative_substantive p) = Suc (length events) \<and>
     (\<forall>i \<le> length events. unat (pe_cumulative_body_bytes p ! i) = sum_list (map ev_bytes (take i events))) \<and>
     (\<forall>i \<le> length events. pe_cumulative_substantive p ! i = length (filter is_substantive (take i events)))"

lemma prepare_events_Inr: "prepare_events sha events = Inr p \<Longrightarrow> prepared_for sha events p"
proof (induction events arbitrary: p rule: rev_induct)
  case Nil
  then show ?case by (auto simp: prepare_events_def prepared_for_def)
next
  case (snoc e events)
  obtain q where q: "prepare_events sha events = Inr q" and step: "prepare_event sha q e = Inr p"
    using snoc.prems by (auto simp: prepare_events_def try_fold_append bindr_Inr)
  note ih = snoc.IH [OF q]
  obtain d n t s where d: "event_digest sha e = Inr d" and n: "event_body_bytes d e = Inr n"
    and t: "checked_add (last (pe_cumulative_body_bytes q)) n = Some t"
    and s: "usize_checked_add (last (pe_cumulative_substantive q)) (if is_substantive e then 1 else 0) = Some s"
    and p: "p = \<lparr>pe_digests = pe_digests q @ [d], pe_cumulative_body_bytes = pe_cumulative_body_bytes q @ [t],
      pe_cumulative_substantive = pe_cumulative_substantive q @ [s]\<rparr>"
    using step ih by (auto simp: prepare_event_def bindr_Inr ok_or_Inr prepared_for_def split: if_splits)
  have lens: "length (pe_cumulative_body_bytes q) = Suc (length events)"
      "length (pe_cumulative_substantive q) = Suc (length events)"
    using ih by (auto simp: prepared_for_def)
  have lasts: "last (pe_cumulative_body_bytes q) = pe_cumulative_body_bytes q ! length events"
      "last (pe_cumulative_substantive q) = pe_cumulative_substantive q ! length events"
    using lens by (subst last_conv_nth; auto)+
  have "unat t = sum_list (map ev_bytes events) + ev_bytes e"
    using checked_add_SomeD [OF t] event_body_bytes_Inr [OF n] ih lasts by (simp add: prepared_for_def)
  moreover have "s = length (filter is_substantive (events @ [e]))"
    using usize_checked_add_Some [OF s] ih lasts by (simp add: prepared_for_def)
  ultimately show ?case
    using ih d lens by (auto simp: prepared_for_def p nth_append le_Suc_eq list_all2_appendI)
qed

lemma prepared_for_length: "prepared_for sha events p \<Longrightarrow> length (pe_digests p) = length events"
  by (auto simp: prepared_for_def dest: list_all2_lengthD)

section \<open>The size model of a body\<close>

lemma sum_map_filter: "sum_list (map f (List.map_filter g xs)) = sum_list (map (\<lambda>x. case g x of None \<Rightarrow> 0 | Some y \<Rightarrow> f y) xs)"
  by (induction xs) (auto split: option.splits)

lemma vsize_field_list:
  "sum_list (map (\<lambda>x. 8 + vsize (f x)) (List.map_filter g es)) = sum_list (map (\<lambda>e. field_bytes f (g e)) es)"
  by (simp add: sum_map_filter field_bytes_def)

lemma sum_digests: "sum_list (map (\<lambda>d. 8 + vsize (v_digest d)) ds) = 81 * length ds"
  by (induction ds) simp_all

lemma sum_ev_bytes:
  "sum_list (map ev_bytes es) = 81 * length es
     + sum_list (map (\<lambda>e. field_bytes v_observation (ev_observation e)) es)
     + sum_list (map (\<lambda>e. field_bytes v_interpretation (ev_interpretation e)) es)
     + sum_list (map (\<lambda>e. field_bytes v_belief (ev_belief e)) es)
     + sum_list (map (\<lambda>e. field_bytes v_decision_record (ev_decision e)) es)
     + sum_list (map (\<lambda>e. field_bytes v_action (ev_action e)) es)"
  by (induction es) (simp_all add: ev_bytes_def)

definition relation_bytes :: "MemoryRelationV1 list \<Rightarrow> nat" where
  "relation_bytes rs = sum_list (map (\<lambda>r. 8 + vsize (v_relation r)) rs)"

lemma sum_list_sort_key_nat: "sum_list (map (h :: 'a \<Rightarrow> nat) (sort_key k xs)) = sum_list (map h xs)"
  by (metis mset_map mset_sort sum_mset_sum_list)

lemma vsize_relation_target: "vsize (v_relation (r\<lparr>re_target := a\<rparr>)) = vsize (v_relation r)"
  by (simp add: v_relation_def)

lemma relation_bytes_episode:
  "relation_bytes (episode_relations rs c) = relation_bytes (filter (\<lambda>r. re_kind r \<noteq> Continues) rs)
     + (case c of None \<Rightarrow> 0 | Some a \<Rightarrow> 8 + vsize (v_relation \<lparr>re_kind = Continues, re_target = AtomId_default\<rparr>))"
  unfolding relation_bytes_def episode_relations_def sum_list_sort_key_nat
  using vsize_relation_target [of _ "\<lparr>re_kind = Continues, re_target = AtomId_default\<rparr>"]
  by (simp split: option.split)

text \<open>Everything in a body that does not come from its events, for a first or a continued segment.\<close>

definition base_bytes :: "EpisodeBufferV1 \<Rightarrow> SealEpisodeRequestV1 \<Rightarrow> bool \<Rightarrow> nat" where
  "base_bytes buffer request continued =
     (case build_episode_body buffer request Digest32_ZERO
        [\<lparr>ev_sequence = 0, ev_at_us = 0, ev_scope = bu_scope buffer, ev_observation = None,
          ev_interpretation = None, ev_belief = None, ev_decision = None, ev_action = None\<rparr>]
        [] 0 0 (if continued then Some AtomId_default else None) of
        Inr b \<Rightarrow> vsize (v_body b) | Inl _ \<Rightarrow> 0)"

lemma build_episode_body_size:
  assumes b: "build_episode_body buffer request digest es ds s e c = Inr b" and len: "length ds = length es"
  shows "vsize (v_body b) = base_bytes buffer request (c \<noteq> None) + sum_list (map ev_bytes es)"
proof -
  have rel: "sum_list (map (\<lambda>r. 8 + vsize (v_relation r)) (episode_relations rs (Some a))) =
      sum_list (map (\<lambda>r. 8 + vsize (v_relation r)) (filter (\<lambda>r. re_kind r \<noteq> Continues) rs)) +
      (8 + vsize (v_relation \<lparr>re_kind = Continues, re_target = AtomId_default\<rparr>))" for rs a
    using relation_bytes_episode [of rs "Some a"] unfolding relation_bytes_def by simp
  have cont: "vsize (v_option v_atom_id (Some a)) = 73" for a by simp
  show ?thesis
    using b
    by (auto simp: build_episode_body_def base_bytes_def v_body_def v_provenance_def v_interval_def
        v_episode_payload_def sum_ev_bytes vsize_field_list sum_list_triv len rel cont
        simp del: vsize_option split: if_splits)
qed

end
