(* ===== verification/Planner.thy ===== *)
theory Planner
  imports Seal
begin

text \<open>
  The split planner of \<open>seal.rs\<close>: a backward dynamic program over the split points of an event
  stream, answered by the route index, then the walk that reads the ranges off.  The
  specification is a route: a contiguous sequence of feasible ranges from an event to the end of
  the stream.
\<close>

section \<open>The planner\<close>

record PlanState =
  pl_routes :: RouteChoices
  pl_remaining_segments :: "usize option list"
  pl_next_boundary :: "usize option list"

definition plan_init :: "usize \<Rightarrow> PlanState outcome" where
  "plan_init event_count =
     (let size = usize_saturating_add event_count 1 in
      bindr (store (replicate size None) event_count (Some 0)) (\<lambda>remaining.
      bindr (routes_insert (RouteChoices_new size) event_count 0) (\<lambda>routes.
      Inr \<lparr>pl_routes = routes, pl_remaining_segments = remaining, pl_next_boundary = replicate size None\<rparr>)))"

text \<open>The first end at which a segment from \<open>start\<close> has substantive content.\<close>

definition minimum_end_of ::
  "PreparedEpisodeEvents \<Rightarrow> bool \<Rightarrow> usize \<Rightarrow> usize \<Rightarrow> usize option outcome" where
  "minimum_end_of prepared shared_substantive start maximum_end =
     (if shared_substantive then Inr (Some (usize_saturating_add start 1))
      else bindr (index (pe_cumulative_substantive prepared) start) (\<lambda>substantive_before.
        let first_substantive_end =
          partition_point (\<lambda>count. count \<le> substantive_before) (pe_cumulative_substantive prepared)
        in if first_substantive_end > maximum_end then Inr None else Inr (Some first_substantive_end)))"

text \<open>One iteration of the backward loop; every \<open>continue\<close> leaves the state as it is.\<close>

definition plan_start ::
  "PreparedEpisodeEvents \<Rightarrow> bool \<Rightarrow> u64 \<Rightarrow> u64 \<Rightarrow> u64 \<Rightarrow> usize \<Rightarrow> PlanState \<Rightarrow> usize \<Rightarrow> PlanState outcome" where
  "plan_start prepared shared_substantive first_base_bytes continued_base_bytes target_bytes event_count st start =
     (let base_bytes = if start = 0 then first_base_bytes else continued_base_bytes in
      case checked_sub target_bytes base_bytes of
        None \<Rightarrow> Inr st
      | Some capacity \<Rightarrow>
          bindr (index (pe_cumulative_body_bytes prepared) start) (\<lambda>start_bytes.
          let limit = saturating_add start_bytes capacity;
              upper = partition_point (\<lambda>total. total \<le> limit) (pe_cumulative_body_bytes prepared);
              maximum_end = min (upper - 1) event_count
          in if maximum_end \<le> start then Inr st
             else bindr (minimum_end_of prepared shared_substantive start maximum_end) (\<lambda>minimum.
               case minimum of
                 None \<Rightarrow> Inr st
               | Some minimum_end \<Rightarrow>
                   bindr (routes_best_in (pl_routes st) minimum_end (usize_saturating_add maximum_end 1)) (\<lambda>best.
                   case best of
                     None \<Rightarrow> Inr st
                   | Some successor \<Rightarrow>
                       bindr (lift (ok_or (CanonicalEncoding ''episode chain length overflowed usize'')
                         (usize_checked_add (rt_remaining_segments successor) 1))) (\<lambda>segment_count.
                       bindr (store (pl_remaining_segments st) start (Some segment_count)) (\<lambda>remaining.
                       bindr (store (pl_next_boundary st) start (Some (rt_end successor))) (\<lambda>next_boundary.
                       bindr (routes_insert (pl_routes st) start segment_count) (\<lambda>routes.
                       Inr \<lparr>pl_routes = routes, pl_remaining_segments = remaining,
                            pl_next_boundary = next_boundary\<rparr>))))))))"

definition validate_partition_boundary :: "usize \<Rightarrow> usize \<Rightarrow> usize \<Rightarrow> unit result" where
  "validate_partition_boundary start end event_count =
     (if end \<le> start \<or> end > event_count
      then Inl (CanonicalEncoding ''episode partition route was invalid'') else Inr ())"

definition split_required :: "u64 \<Rightarrow> MemoryError" where
  "split_required target_bytes = EpisodeRequiresSplit (saturating_add target_bytes 1) target_bytes"

function walk_ranges :: "usize option list \<Rightarrow> u64 \<Rightarrow> usize \<Rightarrow> usize \<Rightarrow> (usize \<times> usize) list outcome" where
  "walk_ranges next_boundary target_bytes event_count start =
     (if start < event_count
      then bindr (index next_boundary start) (\<lambda>slot.
        bindr (lift (ok_or (split_required target_bytes) slot)) (\<lambda>end.
        bindr (lift (validate_partition_boundary start end event_count)) (\<lambda>_.
        bindr (walk_ranges next_boundary target_bytes event_count end) (\<lambda>ranges.
        Inr ((start, end) # ranges)))))
      else Inr [])"
  by pat_completeness auto
termination
  by (relation "measure (\<lambda>(next_boundary, target_bytes, event_count, start). event_count - start)")
    (auto simp: lift_Inr validate_partition_boundary_def split: if_splits)

declare walk_ranges.simps [simp del]

definition plan_episode_ranges ::
  "PreparedEpisodeEvents \<Rightarrow> SealEpisodeRequestV1 \<Rightarrow> u64 \<Rightarrow> u64 \<Rightarrow> u64 \<Rightarrow> (usize \<times> usize) list outcome" where
  "plan_episode_ranges prepared request first_base_bytes continued_base_bytes target_bytes =
     (let event_count = length (pe_digests prepared);
          shared_substantive = (rq_outcome request \<noteq> None \<or> rq_feedback request \<noteq> [])
      in bindr (plan_init event_count) (\<lambda>st0.
         bindr (try_fold (plan_start prepared shared_substantive first_base_bytes continued_base_bytes
             target_bytes event_count) st0 (rev [0..<event_count])) (\<lambda>st.
         bindr (index (pl_remaining_segments st) 0) (\<lambda>remaining.
         if remaining = None then Inl (Err (split_required target_bytes))
         else walk_ranges (pl_next_boundary st) target_bytes event_count 0))))"

section \<open>Routes\<close>

text \<open>The ranges of \<open>rs\<close> cut the stream from \<open>s\<close> to \<open>n\<close> into feasible segments.\<close>

fun is_route :: "(nat \<Rightarrow> nat \<Rightarrow> bool) \<Rightarrow> nat \<Rightarrow> nat \<Rightarrow> (nat \<times> nat) list \<Rightarrow> bool" where
  "is_route ok n s [] \<longleftrightarrow> s = n"
| "is_route ok n s ((a, b) # rs) \<longleftrightarrow> a = s \<and> ok a b \<and> is_route ok n b rs"

definition segment_ok :: "PreparedEpisodeEvents \<Rightarrow> bool \<Rightarrow> u64 \<Rightarrow> u64 \<Rightarrow> u64 \<Rightarrow> nat \<Rightarrow> nat \<Rightarrow> bool" where
  "segment_ok p shared first continued target s e \<longleftrightarrow>
     s < e \<and> e \<le> length (pe_digests p) \<and>
     unat (if s = 0 then first else continued)
       + (unat (pe_cumulative_body_bytes p ! e) - unat (pe_cumulative_body_bytes p ! s)) \<le> unat target \<and>
     (shared \<or> pe_cumulative_substantive p ! s < pe_cumulative_substantive p ! e)"

definition min_route :: "(nat \<Rightarrow> nat \<Rightarrow> bool) \<Rightarrow> nat \<Rightarrow> nat \<Rightarrow> nat option" where
  "min_route ok n s = (if \<exists>rs. is_route ok n s rs
     then Some (LEAST k. \<exists>rs. is_route ok n s rs \<and> length rs = k) else None)"

lemma min_route_Some:
  "min_route ok n s = Some k \<longleftrightarrow>
     (\<exists>rs. is_route ok n s rs \<and> length rs = k) \<and> (\<forall>rs. is_route ok n s rs \<longrightarrow> k \<le> length rs)"
proof
  assume "min_route ok n s = Some k"
  then obtain rs where "is_route ok n s rs" and k: "k = (LEAST k. \<exists>rs. is_route ok n s rs \<and> length rs = k)"
    by (auto simp: min_route_def split: if_splits)
  then show "(\<exists>rs. is_route ok n s rs \<and> length rs = k) \<and> (\<forall>rs. is_route ok n s rs \<longrightarrow> k \<le> length rs)"
    unfolding k using LeastI_ex [of "\<lambda>k. \<exists>rs. is_route ok n s rs \<and> length rs = k"]
      Least_le [of "\<lambda>k. \<exists>rs. is_route ok n s rs \<and> length rs = k"] by blast
next
  assume r: "(\<exists>rs. is_route ok n s rs \<and> length rs = k) \<and> (\<forall>rs. is_route ok n s rs \<longrightarrow> k \<le> length rs)"
  then have "(LEAST k. \<exists>rs. is_route ok n s rs \<and> length rs = k) = k"
    by (intro Least_equality) auto
  then show "min_route ok n s = Some k" using r by (auto simp: min_route_def)
qed

lemma min_route_None: "min_route ok n s = None \<longleftrightarrow> (\<forall>rs. \<not> is_route ok n s rs)"
  by (auto simp: min_route_def)

lemma is_route_bounds:
  "(\<And>a b. ok a b \<Longrightarrow> a < b \<and> b \<le> n) \<Longrightarrow> is_route ok n s rs \<Longrightarrow> length rs + s \<le> n"
proof (induction rs arbitrary: s)
  case (Cons r rs)
  obtain a b where r: "r = (a, b)" by (cases r)
  have "length rs + b \<le> n" using Cons r by auto
  moreover have "a < b" "a = s" using Cons.prems r by auto
  ultimately show ?case by simp
qed simp

lemma min_route_end: "(\<And>a b. ok a b \<Longrightarrow> a < b \<and> b \<le> n) \<Longrightarrow> min_route ok n n = Some 0"
  unfolding min_route_Some by (auto intro: exI [of _ "[]"])

text \<open>The recurrence: a shortest route takes one segment to the best of its successors.\<close>

lemma min_route_step:
  assumes "s < n" and e: "ok s e" "min_route ok n e = Some m"
    and best: "\<And>e' m'. ok s e' \<Longrightarrow> min_route ok n e' = Some m' \<Longrightarrow> m \<le> m'"
  shows "min_route ok n s = Some (Suc m)"
  unfolding min_route_Some
proof (intro conjI allI impI)
  obtain rs where "is_route ok n e rs" "length rs = m" using e(2) unfolding min_route_Some by blast
  then show "\<exists>rs. is_route ok n s rs \<and> length rs = Suc m"
    using e(1) by (intro exI [of _ "(s, e) # rs"]) simp
  fix rs assume r: "is_route ok n s rs"
  then obtain b rs' where rs: "rs = (s, b) # rs'" "ok s b" "is_route ok n b rs'"
    using assms(1) by (cases rs) auto
  then obtain m' where "min_route ok n b = Some m'" by (cases "min_route ok n b") (auto simp: min_route_None)
  then have "m \<le> m'" "m' \<le> length rs'" using best rs by (auto simp: min_route_Some)
  then show "Suc m \<le> length rs" using rs by simp
qed

lemma min_route_stuck:
  assumes "s < n" "\<And>e. ok s e \<Longrightarrow> min_route ok n e = None"
  shows "min_route ok n s = None"
  unfolding min_route_None
proof (intro allI notI)
  fix rs assume "is_route ok n s rs"
  then obtain b rs' where "ok s b" "is_route ok n b rs'" using assms(1) by (cases rs) auto
  then show False using assms(2) [of b] by (auto simp: min_route_None)
qed

section \<open>The window of feasible ends\<close>

text \<open>What the planner needs of prepared events, with every index inside \<open>usize\<close>.\<close>

definition prepared_wf :: "PreparedEpisodeEvents \<Rightarrow> bool" where
  "prepared_wf p \<longleftrightarrow>
     length (pe_cumulative_body_bytes p) = Suc (length (pe_digests p)) \<and>
     length (pe_cumulative_substantive p) = Suc (length (pe_digests p)) \<and>
     sorted (pe_cumulative_body_bytes p) \<and> sorted (pe_cumulative_substantive p) \<and>
     4 * Suc (length (pe_digests p)) \<le> usize_max"

lemma prepared_wf_end: "prepared_wf p \<Longrightarrow> e \<le> length (pe_digests p) \<Longrightarrow> e + 1 \<le> usize_max"
  by (simp add: prepared_wf_def)

lemma partition_point_less:
  assumes "sorted (xs :: 'a::linorder list)" "i < length xs"
  shows "i < partition_point (\<lambda>x. x \<le> b) xs \<longleftrightarrow> xs ! i \<le> b"
proof
  assume "i < partition_point (\<lambda>x. x \<le> b) xs"
  then show "xs ! i \<le> b" by (rule partition_point_nth)
next
  let ?k = "partition_point (\<lambda>x. x \<le> b) xs"
  assume le: "xs ! i \<le> b"
  show "i < ?k"
  proof (rule ccontr)
    assume "\<not> i < ?k"
    then have k: "?k \<le> i" "?k < length xs" using assms(2) by auto
    then have "\<not> xs ! ?k \<le> b" using partition_point_stop by blast
    moreover have "xs ! ?k \<le> xs ! i" using assms k by (simp add: sorted_nth_mono)
    ultimately show False using le by simp
  qed
qed

lemma partition_point_mono_sorted:
  "sorted (xs :: 'a::linorder list) \<Longrightarrow> i < length xs \<Longrightarrow> xs ! i \<le> b \<Longrightarrow> Suc i \<le> partition_point (\<lambda>x. x \<le> b) xs"
  using partition_point_less [of xs i b] by simp

lemma limit_iff:
  fixes t start base x :: u64
  assumes "start \<le> x" "base \<le> t"
  shows "x \<le> saturating_add start (t - base) \<longleftrightarrow> unat base + (unat x - unat start) \<le> unat t"
proof -
  have sub: "unat (t - base) = unat t - unat base" "unat base \<le> unat t"
    using assms(2) by (simp_all add: unat_sub word_le_nat_alt)
  have "unat x \<le> 2 ^ 64 - 1" using unat_u64_bound [of x] by simp
  then have "x \<le> saturating_add start (t - base) \<longleftrightarrow> unat x \<le> unat start + (unat t - unat base)"
    unfolding word_le_nat_alt unat_saturating_add sub by simp
  also have "\<dots> \<longleftrightarrow> unat base + (unat x - unat start) \<le> unat t"
    using assms(1) sub(2) unfolding word_le_nat_alt by linarith
  finally show ?thesis .
qed

lemma maximum_end_iff:
  assumes wf: "prepared_wf p" and s: "s < length (pe_digests p)" and e: "e \<le> length (pe_digests p)" "s < e"
    and base: "base \<le> target"
  defines "upper \<equiv> partition_point (\<lambda>t. t \<le> saturating_add (pe_cumulative_body_bytes p ! s) (target - base))
      (pe_cumulative_body_bytes p)"
  shows "e \<le> min (upper - 1) (length (pe_digests p)) \<longleftrightarrow>
     unat base + (unat (pe_cumulative_body_bytes p ! e) - unat (pe_cumulative_body_bytes p ! s)) \<le> unat target"
proof -
  have len: "length (pe_cumulative_body_bytes p) = Suc (length (pe_digests p))"
    and srt: "sorted (pe_cumulative_body_bytes p)"
    using wf by (auto simp: prepared_wf_def)
  have le: "pe_cumulative_body_bytes p ! s \<le> pe_cumulative_body_bytes p ! e"
    using srt len e by (intro sorted_nth_mono) auto
  have "e \<le> min (upper - 1) (length (pe_digests p)) \<longleftrightarrow> e < upper"
    using e by auto
  also have "\<dots> \<longleftrightarrow> pe_cumulative_body_bytes p ! e \<le> saturating_add (pe_cumulative_body_bytes p ! s) (target - base)"
    unfolding upper_def using srt len e by (intro partition_point_less) auto
  also have "\<dots> \<longleftrightarrow>
     unat base + (unat (pe_cumulative_body_bytes p ! e) - unat (pe_cumulative_body_bytes p ! s)) \<le> unat target"
    using le base by (rule limit_iff)
  finally show ?thesis .
qed

text \<open>The ends the planner considers from \<open>start\<close> are the feasible ones.\<close>

definition window :: "PlanState outcome \<Rightarrow> PreparedEpisodeEvents \<Rightarrow> (nat \<Rightarrow> nat \<Rightarrow> bool) \<Rightarrow> PlanState \<Rightarrow> nat \<Rightarrow> bool" where
  "window r p ok st s \<longleftrightarrow>
     ((\<forall>e. \<not> ok s e) \<and> r = Inr st) \<or>
     (\<exists>lo hi. s < lo \<and> lo \<le> hi \<and> hi \<le> length (pe_digests p) \<and> (\<forall>e. ok s e \<longleftrightarrow> lo \<le> e \<and> e \<le> hi) \<and>
       r = bindr (routes_best_in (pl_routes st) lo (hi + 1)) (\<lambda>best. case best of
           None \<Rightarrow> Inr st
         | Some successor \<Rightarrow>
             bindr (lift (ok_or (CanonicalEncoding ''episode chain length overflowed usize'')
               (usize_checked_add (rt_remaining_segments successor) 1))) (\<lambda>segment_count.
             bindr (store (pl_remaining_segments st) s (Some segment_count)) (\<lambda>remaining.
             bindr (store (pl_next_boundary st) s (Some (rt_end successor))) (\<lambda>next_boundary.
             bindr (routes_insert (pl_routes st) s segment_count) (\<lambda>routes.
             Inr \<lparr>pl_routes = routes, pl_remaining_segments = remaining, pl_next_boundary = next_boundary\<rparr>))))))"

lemma minimum_end_of_spec:
  assumes wf: "prepared_wf p" and s: "s < length (pe_digests p)" "s < hi" "hi \<le> length (pe_digests p)"
  obtains "minimum_end_of p shared s hi = Inr None"
      "\<forall>e. s < e \<and> e \<le> hi \<longrightarrow> \<not> (shared \<or> pe_cumulative_substantive p ! s < pe_cumulative_substantive p ! e)"
  | lo where "minimum_end_of p shared s hi = Inr (Some lo)" "s < lo" "lo \<le> hi"
      "\<forall>e. s < e \<and> e \<le> hi \<longrightarrow>
         (shared \<or> pe_cumulative_substantive p ! s < pe_cumulative_substantive p ! e) = (lo \<le> e)"
proof (cases shared)
  case True
  have "usize_saturating_add s 1 = s + 1"
    using wf s by (intro usize_saturating_add_eq) (auto simp: prepared_wf_def)
  then show ?thesis using True s by (intro that(2) [of "s + 1"]) (auto simp: minimum_end_of_def)
next
  case False
  let ?subs = "pe_cumulative_substantive p"
  let ?f = "partition_point (\<lambda>count. count \<le> ?subs ! s) ?subs"
  have len: "length ?subs = Suc (length (pe_digests p))" and srt: "sorted ?subs"
    using wf by (auto simp: prepared_wf_def)
  have above: "?subs ! s < ?subs ! e \<longleftrightarrow> ?f \<le> e" if "e \<le> length (pe_digests p)" for e
    using partition_point_less [OF srt, of e "?subs ! s"] that len by auto
  have "s < ?f" using partition_point_less [OF srt, of s "?subs ! s"] s len by simp
  then show ?thesis
    using False s len above
    by (cases "?f > hi") (auto simp: minimum_end_of_def Let_def intro: that)
qed

lemma plan_start_window:
  assumes wf: "prepared_wf p" and s: "s < length (pe_digests p)"
  shows "window (plan_start p shared fb cb target (length (pe_digests p)) st s) p
     (segment_ok p shared fb cb target) st s"
proof -
  let ?n = "length (pe_digests p)" and ?base = "if s = 0 then fb else cb"
  let ?ok = "segment_ok p shared fb cb target"
  have len: "length (pe_cumulative_body_bytes p) = Suc ?n" using wf by (simp add: prepared_wf_def)
  show ?thesis
  proof (cases "?base \<le> target")
    case False
    then have "\<not> ?ok s e" for e by (auto simp: segment_ok_def word_le_nat_alt)
    moreover have "checked_sub target ?base = None" using False by (simp add: checked_sub_def)
    ultimately show ?thesis by (simp add: window_def plan_start_def Let_def)
  next
    case True
    let ?limit = "saturating_add (pe_cumulative_body_bytes p ! s) (target - ?base)"
    let ?hi = "min (partition_point (\<lambda>t. t \<le> ?limit) (pe_cumulative_body_bytes p) - 1) ?n"
    have sub: "checked_sub target ?base = Some (target - ?base)" using True by (simp add: checked_sub_def)
    have fits: "e \<le> ?hi \<longleftrightarrow>
       unat ?base + (unat (pe_cumulative_body_bytes p ! e) - unat (pe_cumulative_body_bytes p ! s)) \<le> unat target"
      if "e \<le> ?n" "s < e" for e
      using maximum_end_iff [OF wf s that True] .
    have ok: "?ok s e \<longleftrightarrow> s < e \<and> e \<le> ?hi \<and> (shared \<or> pe_cumulative_substantive p ! s < pe_cumulative_substantive p ! e)"
      for e
      using fits [of e] by (auto simp: segment_ok_def)
    have start: "index (pe_cumulative_body_bytes p) s = Inr (pe_cumulative_body_bytes p ! s)"
      using len s by simp
    show ?thesis
    proof (cases "?hi \<le> s")
      case True
      then have "\<not> ?ok s e" for e using ok [of e] by linarith
      then show ?thesis using True by (simp add: window_def plan_start_def Let_def sub start)
    next
      case False
      have "s < ?hi" "?hi \<le> ?n" using False by (simp_all only: not_le min.cobounded2)
      from minimum_end_of_spec [OF wf s this, of shared] show ?thesis
      proof cases
        case 1
        then have "\<not> ?ok s e" for e using ok [of e] by blast
        then show ?thesis using False 1(1) by (simp add: window_def plan_start_def Let_def sub start)
      next
        case (2 lo)
        have "usize_saturating_add ?hi 1 = ?hi + 1"
          by (rule usize_saturating_add_eq [OF prepared_wf_end [OF wf \<open>?hi \<le> ?n\<close>]])
        then have run: "plan_start p shared fb cb target ?n st s =
          bindr (routes_best_in (pl_routes st) lo (?hi + 1)) (\<lambda>best. case best of
           None \<Rightarrow> Inr st
         | Some successor \<Rightarrow>
             bindr (lift (ok_or (CanonicalEncoding ''episode chain length overflowed usize'')
               (usize_checked_add (rt_remaining_segments successor) 1))) (\<lambda>segment_count.
             bindr (store (pl_remaining_segments st) s (Some segment_count)) (\<lambda>remaining.
             bindr (store (pl_next_boundary st) s (Some (rt_end successor))) (\<lambda>next_boundary.
             bindr (routes_insert (pl_routes st) s segment_count) (\<lambda>routes.
             Inr \<lparr>pl_routes = routes, pl_remaining_segments = remaining, pl_next_boundary = next_boundary\<rparr>)))))"
          using False 2(1) by (simp only: plan_start_def Let_def sub start option.case bindr_simps if_False)
        have "?ok s e \<longleftrightarrow> lo \<le> e \<and> e \<le> ?hi" for e
        proof
          assume "?ok s e"
          then show "lo \<le> e \<and> e \<le> ?hi" using ok [of e] 2(4) by blast
        next
          assume e: "lo \<le> e \<and> e \<le> ?hi"
          then have "s < e" using 2(2) by linarith
          then show "?ok s e" using ok [of e] 2(4) e by blast
        qed
        then show ?thesis
          unfolding window_def using run 2(2,3) \<open>?hi \<le> ?n\<close> by blast
      qed
    qed
  qed
qed

section \<open>The loop invariant\<close>

definition best_next :: "(nat \<Rightarrow> nat \<Rightarrow> bool) \<Rightarrow> nat \<Rightarrow> nat \<Rightarrow> nat option \<Rightarrow> bool" where
  "best_next ok n i x \<longleftrightarrow> (case x of
     None \<Rightarrow> min_route ok n i = None
   | Some e \<Rightarrow> ok i e \<and> (\<exists>m. min_route ok n e = Some m \<and> min_route ok n i = Some (Suc m) \<and>
       (\<forall>e' m'. ok i e' \<longrightarrow> min_route ok n e' = Some m' \<longrightarrow> m < m' \<or> (m = m' \<and> e' \<le> e))))"

definition route_vals :: "(nat \<Rightarrow> nat \<Rightarrow> bool) \<Rightarrow> nat \<Rightarrow> nat \<Rightarrow> nat \<Rightarrow> RouteChoice option" where
  "route_vals ok n s i = (if s \<le> i \<and> i \<le> n
     then map_option (\<lambda>k. \<lparr>rt_remaining_segments = k, rt_end = i\<rparr>) (min_route ok n i) else None)"

definition plan_inv :: "(nat \<Rightarrow> nat \<Rightarrow> bool) \<Rightarrow> nat \<Rightarrow> nat \<Rightarrow> PlanState \<Rightarrow> bool" where
  "plan_inv ok n s st \<longleftrightarrow>
     length (pl_remaining_segments st) = Suc n \<and> length (pl_next_boundary st) = Suc n \<and>
     (\<forall>i \<le> n. pl_remaining_segments st ! i = (if s \<le> i then min_route ok n i else None)) \<and>
     (\<forall>i < n. if s \<le> i then best_next ok n i (pl_next_boundary st ! i) else pl_next_boundary st ! i = None) \<and>
     routes_inv (pl_routes st) (Suc n) (route_vals ok n s)"

lemma plan_inv_skip:
  assumes inv: "plan_inv ok n (Suc s) st" and s: "s < n" and none: "min_route ok n s = None"
  shows "plan_inv ok n s st"
proof -
  have "route_vals ok n s = route_vals ok n (Suc s)"
    using none by (auto simp: route_vals_def fun_eq_iff le_eq_less_or_eq Suc_le_eq)
  moreover have "(if s \<le> i then min_route ok n i else None) = (if Suc s \<le> i then min_route ok n i else None)" for i
    using none by (auto simp: le_eq_less_or_eq)
  moreover have "if s \<le> i then best_next ok n i (pl_next_boundary st ! i) else pl_next_boundary st ! i = None"
    if "i < n" for i
    using inv that none s by (cases "i = s") (auto simp: plan_inv_def best_next_def split: if_splits)
  ultimately show ?thesis using inv by (simp add: plan_inv_def)
qed

lemma plan_inv_take:
  assumes inv: "plan_inv ok n (Suc s) st" and s: "s < n"
    and e: "ok s e" "min_route ok n e = Some m" "min_route ok n s = Some (Suc m)"
    and best: "\<And>e' m'. ok s e' \<Longrightarrow> min_route ok n e' = Some m' \<Longrightarrow> m < m' \<or> (m = m' \<and> e' \<le> e)"
    and routes: "routes_inv rs (Suc n) ((route_vals ok n (Suc s))(s := Some \<lparr>rt_remaining_segments = Suc m, rt_end = s\<rparr>))"
  shows "plan_inv ok n s \<lparr>pl_routes = rs,
    pl_remaining_segments = (pl_remaining_segments st)[s := Some (Suc m)],
    pl_next_boundary = (pl_next_boundary st)[s := Some e]\<rparr>"
proof -
  have lens: "length (pl_remaining_segments st) = Suc n" "length (pl_next_boundary st) = Suc n"
    using inv by (auto simp: plan_inv_def)
  have vals: "(route_vals ok n (Suc s))(s := Some \<lparr>rt_remaining_segments = Suc m, rt_end = s\<rparr>) = route_vals ok n s"
    using e(3) s by (auto simp: route_vals_def fun_eq_iff)
  have bn: "best_next ok n s (Some e)" using e best by (simp add: best_next_def)
  have "(pl_remaining_segments st)[s := Some (Suc m)] ! i = (if s \<le> i then min_route ok n i else None)"
    if "i \<le> n" for i
    using inv that e(3) lens s by (cases "i = s") (auto simp: plan_inv_def)
  moreover have "if s \<le> i then best_next ok n i ((pl_next_boundary st)[s := Some e] ! i)
      else (pl_next_boundary st)[s := Some e] ! i = None" if "i < n" for i
    using inv that lens s bn by (cases "i = s") (auto simp: plan_inv_def split: if_splits)
  ultimately show ?thesis using routes lens
    unfolding vals plan_inv_def PlanState.select_convs length_list_update by blast
qed

lemma plan_start_inv:
  assumes wf: "prepared_wf p" and n: "n = length (pe_digests p)" and s: "s < n"
    and inv: "plan_inv (segment_ok p shared fb cb target) n (Suc s) st"
  shows "\<exists>st'. plan_start p shared fb cb target n st s = Inr st' \<and>
    plan_inv (segment_ok p shared fb cb target) n s st'"
proof -
  let ?ok = "segment_ok p shared fb cb target" and ?r = "plan_start p shared fb cb target n st s"
  have okb: "a < b \<and> b \<le> n" if "?ok a b" for a b using that by (simp add: segment_ok_def n)
  have "window ?r p ?ok st s" using plan_start_window [OF wf, of s] s unfolding n .
  then show ?thesis
    unfolding window_def
  proof (elim disjE exE conjE, goal_cases)
    case 1
    have "min_route ?ok n s = None" by (rule min_route_stuck [OF s]) (use 1(1) in blast)
    then show ?case using plan_inv_skip [OF inv s] 1 by blast
  next
    case (2 lo hi)
    have hi: "hi \<le> n" using 2(3) n by simp
    have ok_iff: "?ok s e \<longleftrightarrow> lo \<le> e \<and> e \<le> hi" for e using 2(4) by blast
    note run = 2(5)
    let ?vals = "route_vals ?ok n (Suc s)"
    have routes: "routes_inv (pl_routes st) (Suc n) ?vals" using inv by (simp add: plan_inv_def)
    have query: "routes_best_in (pl_routes st) lo (hi + 1) = Inr (join_range best_route_choice None ?vals lo (hi + 1))"
      using routes hi by (intro routes_best_in_spec) auto
    have val: "?vals e = map_option (\<lambda>k. \<lparr>rt_remaining_segments = k, rt_end = e\<rparr>) (min_route ?ok n e)"
      if "?ok s e" for e
      using okb [OF that] by (simp add: route_vals_def)
    show ?case
    proof (cases "join_range best_route_choice None ?vals lo (hi + 1)")
      case None
      then have "min_route ?ok n e = None" if "?ok s e" for e
        using that val [OF that] ok_iff [of e] best_in_range_None [of ?vals lo "hi + 1"] by auto
      then have "min_route ?ok n s = None" by (intro min_route_stuck [OF s])
      then show ?thesis using plan_inv_skip [OF inv s] run query None by auto
    next
      case (Some c)
      obtain e where e: "lo \<le> e" "e < hi + 1" "?vals e = Some c"
        and top: "\<And>i d. lo \<le> i \<Longrightarrow> i < hi + 1 \<Longrightarrow> ?vals i = Some d \<Longrightarrow> \<not> better_than d c"
        using best_in_range_Some [OF Some] by blast
      have ok: "?ok s e" using e ok_iff by auto
      then obtain m where m: "min_route ?ok n e = Some m" "c = \<lparr>rt_remaining_segments = m, rt_end = e\<rparr>"
        using e val [OF ok] by (cases "min_route ?ok n e") auto
      have best: "m < m' \<or> (m = m' \<and> e' \<le> e)" if "?ok s e'" "min_route ?ok n e' = Some m'" for e' m'
        using top [of e' "\<lparr>rt_remaining_segments = m', rt_end = e'\<rparr>"] that val [OF that(1)] ok_iff [of e'] m(2)
        by (auto simp: better_than_def)
      have ms: "min_route ?ok n s = Some (Suc m)"
        by (rule min_route_step [OF s ok m(1)]) (use best in fastforce)
      obtain rs where "is_route ?ok n e rs" "length rs = m" using m(1) unfolding min_route_Some by blast
      then have "m \<le> n" using is_route_bounds [OF okb] by fastforce
      then have count: "usize_checked_add m 1 = Some (Suc m)"
        using wf n by (simp add: usize_checked_add_eq prepared_wf_def)
      obtain rs' where ins: "routes_insert (pl_routes st) s (Suc m) = Inr rs'"
        and inv': "routes_inv rs' (Suc n) (?vals(s := Some \<lparr>rt_remaining_segments = Suc m, rt_end = s\<rparr>))"
        using routes_insert_spec [OF routes, of s "Suc m"] s by auto
      have lens: "length (pl_remaining_segments st) = Suc n" "length (pl_next_boundary st) = Suc n"
        using inv by (auto simp: plan_inv_def)
      have "?r = Inr \<lparr>pl_routes = rs', pl_remaining_segments = (pl_remaining_segments st)[s := Some (Suc m)],
          pl_next_boundary = (pl_next_boundary st)[s := Some e]\<rparr>"
        unfolding run query Some using s lens ins count by (simp add: m(2))
      then show ?thesis using plan_inv_take [OF inv s ok m(1) ms best inv'] by blast
    qed
  qed
qed

lemma plan_loop_inv:
  assumes wf: "prepared_wf p" and n: "n = length (pe_digests p)"
  shows "k \<le> n \<Longrightarrow> plan_inv (segment_ok p shared fb cb target) n k st \<Longrightarrow>
    \<exists>st'. try_fold (plan_start p shared fb cb target n) st (rev [0..<k]) = Inr st' \<and>
      plan_inv (segment_ok p shared fb cb target) n 0 st'"
proof (induction k arbitrary: st)
  case (Suc k)
  obtain st1 where "plan_start p shared fb cb target n st k = Inr st1"
      "plan_inv (segment_ok p shared fb cb target) n k st1"
    using plan_start_inv [OF wf n, of k shared fb cb target st] Suc.prems by auto
  then show ?case using Suc.IH [of st1] Suc.prems by simp
qed simp

lemma plan_init_inv:
  assumes okb: "\<And>a b. ok a b \<Longrightarrow> a < b \<and> b \<le> n" and n: "4 * Suc n \<le> usize_max"
  shows "\<exists>st. plan_init n = Inr st \<and> plan_inv ok n n st"
proof -
  have size: "usize_saturating_add n 1 = Suc n" using n by (simp add: usize_saturating_add_eq)
  obtain rs where rs: "routes_insert (RouteChoices_new (Suc n)) n 0 = Inr rs"
    and inv: "routes_inv rs (Suc n) ((\<lambda>_. None)(n := Some \<lparr>rt_remaining_segments = 0, rt_end = n\<rparr>))"
    using routes_insert_spec [OF RouteChoices_new_inv [of "Suc n"], of n 0] n by auto
  have end_route: "min_route ok n n = Some 0" using okb by (rule min_route_end)
  have "(\<lambda>_. None)(n := Some \<lparr>rt_remaining_segments = 0, rt_end = n\<rparr>) = route_vals ok n n"
    using end_route by (auto simp: route_vals_def fun_eq_iff)
  moreover have "((replicate (Suc n) None)[n := Some 0]) ! i = (if n \<le> i then min_route ok n i else None)"
    if "i \<le> n" for i
    using that end_route by (cases "i = n") (auto simp del: replicate_Suc)
  ultimately have "plan_inv ok n n \<lparr>pl_routes = rs, pl_remaining_segments = (replicate (Suc n) None)[n := Some 0],
      pl_next_boundary = replicate (Suc n) None\<rparr>"
    using inv by (auto simp: plan_inv_def simp del: replicate_Suc)
  moreover have "plan_init n = Inr \<lparr>pl_routes = rs, pl_remaining_segments = (replicate (Suc n) None)[n := Some 0],
      pl_next_boundary = replicate (Suc n) None\<rparr>"
    unfolding plan_init_def size Let_def using rs by (simp del: replicate_Suc)
  ultimately show ?thesis by blast
qed

section \<open>The planner is optimal\<close>

definition best_route :: "(nat \<Rightarrow> nat \<Rightarrow> bool) \<Rightarrow> nat \<Rightarrow> nat \<Rightarrow> (nat \<times> nat) list \<Rightarrow> bool" where
  "best_route ok n s rs \<longleftrightarrow> is_route ok n s rs \<and>
     (\<forall>rs'. is_route ok n s rs' \<longrightarrow> length rs \<le> length rs' \<and>
       (length rs' = length rs \<longrightarrow> map snd rs' \<le> map snd rs))"

lemma best_route_step:
  assumes okb: "\<And>a b. ok a b \<Longrightarrow> a < b \<and> b \<le> n" and s: "s < n"
    and next_ok: "best_next ok n s (Some e)" and rs: "best_route ok n e rs"
  shows "best_route ok n s ((s, e) # rs)"
proof -
  obtain m where e: "ok s e" "min_route ok n e = Some m" "min_route ok n s = Some (Suc m)"
    and best: "\<And>e' m'. ok s e' \<Longrightarrow> min_route ok n e' = Some m' \<Longrightarrow> m < m' \<or> (m = m' \<and> e' \<le> e)"
    using next_ok by (auto simp: best_next_def)
  have route: "is_route ok n e rs" and rs_min: "\<And>rs'. is_route ok n e rs' \<Longrightarrow> length rs \<le> length rs'"
    and rs_lex: "\<And>rs'. is_route ok n e rs' \<Longrightarrow> length rs' = length rs \<Longrightarrow> map snd rs' \<le> map snd rs"
    using rs by (auto simp: best_route_def)
  have len: "length rs = m" using e(2) route rs_min unfolding min_route_Some by (metis le_antisym)
  have "length ((s, e) # rs) \<le> length rs' \<and>
      (length rs' = length ((s, e) # rs) \<longrightarrow> map snd rs' \<le> map snd ((s, e) # rs))"
    if r: "is_route ok n s rs'" for rs'
  proof -
    obtain b rs'' where rs': "rs' = (s, b) # rs''" "ok s b" "is_route ok n b rs''"
      using r s by (cases rs') auto
    obtain m' where m': "min_route ok n b = Some m'"
      using rs'(3) by (cases "min_route ok n b") (auto simp: min_route_None)
    have "m' \<le> length rs''" using m' rs'(3) by (auto simp: min_route_Some)
    moreover have "m < m' \<or> (m = m' \<and> b \<le> e)" using best [OF rs'(2) m'] .
    ultimately show ?thesis using rs_lex rs' len by (cases "b = e") auto
  qed
  then show ?thesis using e(1) route by (simp add: best_route_def)
qed

lemma walk_ranges_spec:
  assumes okb: "\<And>a b. ok a b \<Longrightarrow> a < b \<and> b \<le> n" and inv: "plan_inv ok n 0 st"
  shows "min_route ok n s = Some k \<Longrightarrow>
    \<exists>rs. walk_ranges (pl_next_boundary st) target n s = Inr rs \<and> best_route ok n s rs"
proof (induction k arbitrary: s)
  case 0
  then have "s = n" by (auto simp: min_route_Some)
  moreover have "is_route ok n n rs \<longleftrightarrow> rs = []" for rs
    using okb [of n] by (cases rs) (auto simp: not_le [symmetric])
  ultimately show ?case by (simp add: walk_ranges.simps best_route_def)
next
  case (Suc k)
  then obtain rs0 where "is_route ok n s rs0" "length rs0 = Suc k" by (auto simp: min_route_Some)
  then obtain b where "ok s b" by (cases rs0) auto
  then have s: "s < n" using okb [of s b] by linarith
  have bn: "best_next ok n s (pl_next_boundary st ! s)" using inv s by (simp add: plan_inv_def)
  then obtain e where e: "pl_next_boundary st ! s = Some e" using Suc.prems by (auto simp: best_next_def split: option.splits)
  then have "ok s e" "min_route ok n e = Some k" using bn Suc.prems by (auto simp: best_next_def)
  then obtain rs where rs: "walk_ranges (pl_next_boundary st) target n e = Inr rs" "best_route ok n e rs"
    using Suc.IH by blast
  have "validate_partition_boundary s e n = Inr ()"
    using okb [OF \<open>ok s e\<close>] by (simp add: validate_partition_boundary_def)
  moreover have "length (pl_next_boundary st) = Suc n" using inv by (simp add: plan_inv_def)
  ultimately have "walk_ranges (pl_next_boundary st) target n s = Inr ((s, e) # rs)"
    using s e rs(1) by (subst walk_ranges.simps) simp
  moreover have "best_route ok n s ((s, e) # rs)"
    using best_route_step [OF okb s _ rs(2)] bn e by simp
  ultimately show ?case by blast
qed

definition request_substantive :: "SealEpisodeRequestV1 \<Rightarrow> bool" where
  "request_substantive request \<longleftrightarrow> rq_outcome request \<noteq> None \<or> rq_feedback request \<noteq> []"

lemma plan_episode_ranges_cases:
  fixes request :: SealEpisodeRequestV1 and fb cb target :: u64
  assumes wf: "prepared_wf p"
  defines "ok \<equiv> segment_ok p (request_substantive request) fb cb target" and "n \<equiv> length (pe_digests p)"
  obtains rs where "plan_episode_ranges p request fb cb target = Inr rs" "best_route ok n 0 rs"
  | "plan_episode_ranges p request fb cb target = Inl (Err (split_required target))" "\<forall>rs. \<not> is_route ok n 0 rs"
proof -
  have okb: "a < b \<and> b \<le> n" if "ok a b" for a b using that by (simp add: ok_def n_def segment_ok_def)
  have "4 * Suc n \<le> usize_max" using wf by (simp add: prepared_wf_def n_def)
  then obtain st0 where st0: "plan_init n = Inr st0" "plan_inv ok n n st0"
    using plan_init_inv [OF okb] by blast
  obtain st where st: "try_fold (plan_start p (request_substantive request) fb cb target n) st0 (rev [0..<n]) = Inr st"
    and inv: "plan_inv ok n 0 st"
    using plan_loop_inv [OF wf meta_eq_to_obj_eq [OF n_def] order_refl] st0(2) unfolding ok_def by blast
  have rem: "index (pl_remaining_segments st) 0 = Inr (min_route ok n 0)"
    using inv by (simp add: plan_inv_def)
  have run: "plan_episode_ranges p request fb cb target =
      (if min_route ok n 0 = None then Inl (Err (split_required target))
       else walk_ranges (pl_next_boundary st) target n 0)"
    unfolding plan_episode_ranges_def Let_def
    using st0(1) st rem by (simp add: request_substantive_def n_def)
  show thesis
  proof (cases "min_route ok n 0")
    case None
    then show thesis using run that(2) by (auto simp: min_route_None)
  next
    case (Some k)
    then show thesis using run that(1) walk_ranges_spec [OF okb inv Some] by auto
  qed
qed

section \<open>Prepared events satisfy the planner's requirements\<close>

lemma sum_list_take_mono: "i \<le> j \<Longrightarrow> sum_list (map f (take i xs)) \<le> (sum_list (map f (take j xs)) :: nat)"
  by (metis le_add1 le_add_diff_inverse map_append sum_list_append take_add)

lemma prepared_for_wf:
  assumes p: "prepared_for sha events p" and n: "4 * Suc (length events) \<le> usize_max"
  shows "prepared_wf p"
proof -
  have len: "length (pe_digests p) = length events"
    "length (pe_cumulative_body_bytes p) = Suc (length events)"
    "length (pe_cumulative_substantive p) = Suc (length events)"
    using p prepared_for_length [OF p] by (auto simp: prepared_for_def)
  have "sorted (pe_cumulative_body_bytes p)"
    unfolding sorted_iff_nth_mono word_le_nat_alt len(2)
    using p by (auto simp: prepared_for_def less_Suc_eq_le intro: sum_list_take_mono)
  moreover have "length (filter is_substantive (take i events)) \<le> length (filter is_substantive (take j events))"
    if "i \<le> j" for i j
    using that by (metis filter_append le_add1 le_add_diff_inverse length_append take_add)
  then have "sorted (pe_cumulative_substantive p)"
    unfolding sorted_iff_nth_mono len(3)
    using p by (auto simp: prepared_for_def less_Suc_eq_le)
  ultimately show ?thesis using len n by (simp add: prepared_wf_def)
qed

lemma v_event_float_free [float_free_simps]: "float_free (v_event e)"
  by (simp add: v_event_def float_free_simps)

lemma framed_canonical_size_total:
  assumes "float_free v" "vsize v + 8 < 2 ^ 64"
  shows "\<exists>n. framed_canonical_size v = Inr n \<and> unat n = 8 + vsize v"
proof -
  obtain bs where bs: "encode_value v = Inr bs" using encode_value_total [of v] assms by auto
  have len: "length bs = vsize v" using encode_value_length [OF bs] .
  have "checked_add (of_nat (vsize v)) 8 = Some (of_nat (vsize v) + (8 :: u64))"
    using assms(2) by (simp add: checked_add_def unat_of_nat)
  then have "framed_canonical_size v = Inr (of_nat (vsize v) + 8)"
    using bs len assms(2) by (simp add: framed_canonical_size_def u64_of_usize_def)
  then show ?thesis using framed_canonical_size_Inr by blast
qed

lemma sample_event_prepared:
  assumes "ev_interpretation e = None" "ev_belief e = None" "ev_decision e = None" "ev_action e = None"
    and ob: "ev_observation e = Some ob" and small: "vsize (v_event e) < 2 ^ 63" "vsize (v_observation ob) < 2 ^ 62"
  shows "\<exists>p. prepare_events sha [e] = Inr p"
proof -
  obtain bs where bs: "encode_value (v_event e) = Inr bs"
    using encode_value_total [of "v_event e"] small by (auto simp: float_free_simps)
  obtain a where a: "framed_canonical_size (v_digest (sha (EVENT_HASH_DOMAIN @ bs))) = Inr a" "unat a = 81"
    using framed_canonical_size_total [of "v_digest (sha (EVENT_HASH_DOMAIN @ bs))"] by (auto simp: float_free_simps)
  obtain c where c: "framed_canonical_size (v_observation ob) = Inr c" "unat c = 8 + vsize (v_observation ob)"
    using framed_canonical_size_total [of "v_observation ob"] small by (auto simp: float_free_simps)
  have add: "checked_add a c = Some (a + c)" using a c small by (simp add: checked_add_def)
  show ?thesis
    using assms bs a c add unat_u64_bound [of "a + c"]
    by (simp add: prepare_events_def prepare_event_def event_digest_def event_body_bytes_def event_fields_def
        hash_prefixed_def usize_checked_add_def usize_max_def checked_add_def)
qed

text \<open>
  C28: the split planner is exact.  On prepared events it never panics and never fails internally:
  it returns a contiguous sequence of feasible ranges covering the whole stream, with the fewest
  ranges possible and, among the shortest, the lexicographically latest ends (each segment as long
  as possible, earliest first); and it asks for a split only when no feasible sequence exists.
\<close>

theorem plan_episode_ranges_optimal:
  assumes "prepare_events sha events = Inr p" "4 * Suc (length events) \<le> usize_max"
  shows "case plan_episode_ranges p request first continued target of
      Inr ranges \<Rightarrow>
        best_route (segment_ok p (request_substantive request) first continued target) (length events) 0 ranges
    | Inl fault \<Rightarrow> fault = Err (split_required target) \<and>
        (\<forall>rs. \<not> is_route (segment_ok p (request_substantive request) first continued target) (length events) 0 rs)"
proof -
  have p: "prepared_for sha events p" using assms(1) by (rule prepare_events_Inr)
  from plan_episode_ranges_cases [OF prepared_for_wf [OF p assms(2)], of request first continued target]
  show ?thesis by cases (simp_all add: prepared_for_length [OF p])
qed

definition sample_event :: "u64 \<Rightarrow> EpisodeEventV1" where
  "sample_event n = \<lparr>ev_sequence = n, ev_at_us = n, ev_scope = bd_scope (sample_body ''t''),
     ev_observation = Some \<lparr>ob_at_us = n, ob_source = ''test'', ob_content = ''seen'', ob_artifact_digest = None\<rparr>,
     ev_interpretation = None, ev_belief = None, ev_decision = None, ev_action = None\<rparr>"

theorem plan_episode_ranges_optimal_witness:
  "\<exists>p. prepare_events (\<lambda>_. Digest32_ZERO) [sample_event 7] = Inr p \<and>
     (\<forall>request first continued target. case plan_episode_ranges p request first continued target of
      Inr ranges \<Rightarrow>
        best_route (segment_ok p (request_substantive request) first continued target) 1 0 ranges
    | Inl fault \<Rightarrow> fault = Err (split_required target) \<and>
        (\<forall>rs. \<not> is_route (segment_ok p (request_substantive request) first continued target) 1 0 rs))"
proof -
  have "\<exists>p. prepare_events (\<lambda>_. Digest32_ZERO) [sample_event 7] = Inr p"
    by (rule sample_event_prepared [where ob = "\<lparr>ob_at_us = 7, ob_source = ''test'', ob_content = ''seen'',
          ob_artifact_digest = None\<rparr>"])
      (simp_all add: sample_event_def sample_body_def v_event_def v_scope_def v_observation_def)
  then obtain p where p: "prepare_events (\<lambda>_. Digest32_ZERO) [sample_event 7] = Inr p" by blast
  show ?thesis
    using p plan_episode_ranges_optimal [OF p, unfolded list.size One_nat_def [symmetric] add_0]
    by (auto simp: usize_max_def)
qed

end
