(* ===== verification/Chain.thy ===== *)
theory Chain
  imports Planner
begin

text \<open>
  The sealing entry points of \<open>seal.rs\<close>: one target-sized episode atom, or the shortest chain of
  atoms linked by their \<open>continues\<close> field, with the closure check over the finished chain; then what
  sealing accepts and which atoms it returns, stated without the sealer's own steps.
\<close>

section \<open>Sealing a range\<close>

text \<open>\<open>slice[..n]\<close> panics when the slice is shorter.\<close>

definition slice_to :: "'a list \<Rightarrow> usize \<Rightarrow> 'a list outcome" where
  "slice_to xs n = (if n \<le> length xs then Inr (take n xs) else Inl Panic)"

definition segment_base_bytes ::
  "EpisodeBufferV1 \<Rightarrow> SealEpisodeRequestV1 \<Rightarrow> Digest32 \<Rightarrow> PreparedEpisodeEvents \<Rightarrow> AtomId option \<Rightarrow> u64 outcome" where
  "segment_base_bytes buffer request digest prepared continues =
     bindr (slice_to (bu_events buffer) 1) (\<lambda>events.
     bindr (slice_to (pe_digests prepared) 1) (\<lambda>digests.
     bindr (lift (build_episode_body buffer request digest events digests (bu_started_at_us buffer)
       (rq_ended_at_us request) continues)) (\<lambda>body.
     bindr (lift (encoded_size_bytes body)) (\<lambda>size.
     bindr (lift (range_body_bytes prepared 0 1)) (\<lambda>range_bytes.
     lift (ok_or (CanonicalEncoding ''episode segment base size underflowed'') (checked_sub size range_bytes)))))))"

definition seal_episode_range ::
  "(byte list \<Rightarrow> Digest32) \<Rightarrow> EpisodeBufferV1 \<Rightarrow> SealEpisodeRequestV1 \<Rightarrow> PolicyV1 \<Rightarrow> PreparedEpisodeEvents \<Rightarrow>
   usize \<Rightarrow> usize \<Rightarrow> AtomId option \<Rightarrow> SealedEpisodeV1 result" where
  "seal_episode_range sha buffer request policy prepared start end continues =
     bindr (ok_or (CanonicalEncoding ''episode split range failed'') (get_range (bu_events buffer) start end)) (\<lambda>events.
     bindr (ok_or (CanonicalEncoding ''episode digest range failed'') (get_range (pe_digests prepared) start end)) (\<lambda>event_digests.
     let started_at_us = (if start = 0 then bu_started_at_us buffer
           else case events of [] \<Rightarrow> bu_started_at_us buffer | event # _ \<Rightarrow> ev_at_us event);
         ended_at_us = (if end = length (bu_events buffer) then rq_ended_at_us request
           else if events = [] then rq_ended_at_us request else ev_at_us (last events))
     in
     bindr (policy_digest sha policy) (\<lambda>digest.
     bindr (build_episode_body buffer request digest events event_digests started_at_us ended_at_us continues) (\<lambda>body.
     bindr (validate_memory_atom_body sha body policy) (\<lambda>_.
     bindr (encoded_size_bytes body) (\<lambda>canonical_size_bytes.
     bindr (atom_id sha body) (\<lambda>aid.
     Inr \<lparr>se_atom_id = aid, se_body = body, se_canonical_size_bytes = canonical_size_bytes,
          se_target_size_exceeded = (canonical_size_bytes > po_atom_target_bytes policy)\<rparr>)))))))"

definition seal_episode ::
  "(byte list \<Rightarrow> Digest32) \<Rightarrow> EpisodeBufferV1 \<Rightarrow> SealEpisodeRequestV1 \<Rightarrow> PolicyV1 \<Rightarrow> SealedEpisodeV1 result" where
  "seal_episode sha buffer request policy =
     bindr (validate_poc_v1 policy) (\<lambda>_.
     bindr (validate_episode_input sha buffer request policy) (\<lambda>_.
     bindr (prepare_events sha (bu_events buffer)) (\<lambda>prepared.
     bindr (seal_episode_range sha buffer request policy prepared 0 (length (bu_events buffer)) (bu_continues buffer)) (\<lambda>sealed.
     if se_target_size_exceeded sealed
     then Inl (EpisodeRequiresSplit (se_canonical_size_bytes sealed) (po_atom_target_bytes policy))
     else Inr sealed))))"

section \<open>Sealing a chain\<close>

text \<open>The loop over the planned ranges; \<open>previous\<close> is the id that the next atom continues.\<close>

fun seal_ranges ::
  "(byte list \<Rightarrow> Digest32) \<Rightarrow> EpisodeBufferV1 \<Rightarrow> SealEpisodeRequestV1 \<Rightarrow> PolicyV1 \<Rightarrow> PreparedEpisodeEvents \<Rightarrow>
   u64 \<Rightarrow> u64 \<Rightarrow> AtomId option \<Rightarrow> (usize \<times> usize) list \<Rightarrow> SealedEpisodeV1 list result" where
  "seal_ranges sha buffer request policy prepared first_base_bytes continued_base_bytes previous [] = Inr []"
| "seal_ranges sha buffer request policy prepared first_base_bytes continued_base_bytes previous ((start, end) # ranges) =
     bindr (seal_episode_range sha buffer request policy prepared start end previous) (\<lambda>sealed.
     let base_bytes = if start = 0 then first_base_bytes else continued_base_bytes in
     bindr (range_body_bytes prepared start end) (\<lambda>range_bytes.
     bindr (ok_or (CanonicalEncoding ''episode segment size overflowed u64'') (checked_add base_bytes range_bytes)) (\<lambda>planned_size.
     if se_canonical_size_bytes sealed \<noteq> planned_size
     then Inl (CanonicalEncoding ''episode partition size model drifted'')
     else if se_target_size_exceeded sealed
     then Inl (EpisodeRequiresSplit (se_canonical_size_bytes sealed) (po_atom_target_bytes policy))
     else bindr (seal_ranges sha buffer request policy prepared first_base_bytes continued_base_bytes
         (Some (se_atom_id sealed)) ranges) (\<lambda>episodes.
       Inr (sealed # episodes)))))"

text \<open>The closure loop returns the cursor at which it ends.\<close>

definition chain_incomplete :: MemoryError where
  "chain_incomplete = InvalidAtomBody ''episode chain does not close over its ordered source stream''"

fun check_chain_closure ::
  "(byte list \<Rightarrow> Digest32) \<Rightarrow> EpisodeBufferV1 \<Rightarrow> PreparedEpisodeEvents \<Rightarrow> PolicyV1 \<Rightarrow> usize \<Rightarrow> AtomId option \<Rightarrow>
   SealedEpisodeV1 list \<Rightarrow> usize result" where
  "check_chain_closure sha buffer prepared policy source_cursor previous [] = Inr source_cursor"
| "check_chain_closure sha buffer prepared policy source_cursor previous (episode # episodes) =
     (case bd_payload (se_body episode) of
        SemanticPayload _ \<Rightarrow> Inl (InvalidAtomBody ''episode chain contains a non-episode body'')
      | EpisodePayload payload \<Rightarrow>
          let digests = pv_source_event_digests (bd_provenance (se_body episode)) in
          bindr (ok_or (CanonicalEncoding ''episode chain event count overflowed usize'')
            (usize_checked_add source_cursor (length digests))) (\<lambda>source_end.
          bindr (ok_or (InvalidAtomBody ''episode chain exceeds the source event stream'')
            (get_range (bu_events buffer) source_cursor source_end)) (\<lambda>source_events.
          bindr (ok_or (InvalidAtomBody ''episode chain digest range is incomplete'')
            (get_range (pe_digests prepared) source_cursor source_end)) (\<lambda>expected_digests.
          if source_events = [] then Inl (InvalidAtomBody ''episode chain contains an empty atom'')
          else if ep_event_sequence_start payload \<noteq> ev_sequence (hd source_events)
            \<or> ep_event_sequence_end payload \<noteq> ev_sequence (last source_events)
            \<or> ep_continues payload \<noteq> previous
            \<or> digests \<noteq> expected_digests
          then Inl chain_incomplete
          else bindr (encoded_size_bytes (se_body episode)) (\<lambda>size.
            if se_canonical_size_bytes episode \<noteq> size
              \<or> se_canonical_size_bytes episode > po_atom_target_bytes policy
              \<or> se_canonical_size_bytes episode > po_atom_hard_max_bytes policy
            then Inl chain_incomplete
            else bindr (atom_id sha (se_body episode)) (\<lambda>aid.
              if se_atom_id episode \<noteq> aid then Inl chain_incomplete
              else check_chain_closure sha buffer prepared policy source_end (Some (se_atom_id episode)) episodes))))))"

definition validate_episode_chain_closure ::
  "(byte list \<Rightarrow> Digest32) \<Rightarrow> SealedEpisodeChainV1 \<Rightarrow> EpisodeBufferV1 \<Rightarrow> PreparedEpisodeEvents \<Rightarrow> PolicyV1 \<Rightarrow> unit result" where
  "validate_episode_chain_closure sha chain buffer prepared policy =
     bindr (check_chain_closure sha buffer prepared policy 0 (bu_continues buffer) (ch_episodes chain)) (\<lambda>source_cursor.
     if source_cursor \<noteq> length (bu_events buffer) \<or> ch_source_event_count chain \<noteq> length (bu_events buffer)
       \<or> ch_episodes chain = []
     then Inl (InvalidAtomBody ''episode chain source-event closure is incomplete'')
     else Inr ())"

definition seal_episode_chain ::
  "(byte list \<Rightarrow> Digest32) \<Rightarrow> EpisodeBufferV1 \<Rightarrow> SealEpisodeRequestV1 \<Rightarrow> PolicyV1 \<Rightarrow> SealedEpisodeChainV1 outcome" where
  "seal_episode_chain sha buffer request policy =
     bindr (lift (validate_poc_v1 policy)) (\<lambda>_.
     bindr (lift (validate_episode_input sha buffer request policy)) (\<lambda>_.
     bindr (lift (prepare_events sha (bu_events buffer))) (\<lambda>prepared.
     bindr (lift (policy_digest sha policy)) (\<lambda>digest.
     bindr (segment_base_bytes buffer request digest prepared (bu_continues buffer)) (\<lambda>first_base_bytes.
     bindr (segment_base_bytes buffer request digest prepared (Some AtomId_default)) (\<lambda>continued_base_bytes.
     bindr (plan_episode_ranges prepared request first_base_bytes continued_base_bytes (po_atom_target_bytes policy)) (\<lambda>ranges.
     bindr (lift (seal_ranges sha buffer request policy prepared first_base_bytes continued_base_bytes
       (bu_continues buffer) ranges)) (\<lambda>episodes.
     let chain = \<lparr>ch_contract_version = ''sealed-episode-chain-v1'',
           ch_source_event_count = length (bu_events buffer), ch_episodes = episodes\<rparr> in
     bindr (lift (validate_episode_chain_closure sha chain buffer prepared policy)) (\<lambda>_.
     Inr chain)))))))))"

section \<open>What a sealed range is\<close>

definition events_in :: "EpisodeEventV1 list \<Rightarrow> nat \<Rightarrow> nat \<Rightarrow> EpisodeEventV1 list" where
  "events_in events s e = take (e - s) (drop s events)"

definition sealed_ok :: "(byte list \<Rightarrow> Digest32) \<Rightarrow> SealedEpisodeV1 \<Rightarrow> bool" where
  "sealed_ok sha x \<longleftrightarrow> atom_body_wf sha (se_body x) \<and> atom_id sha (se_body x) = Inr (se_atom_id x) \<and>
     encoded_size_bytes (se_body x) = Inr (se_canonical_size_bytes x) \<and>
     unat (se_canonical_size_bytes x) = vsize (v_body (se_body x)) \<and>
     (se_target_size_exceeded x \<longleftrightarrow> 131072 < vsize (v_body (se_body x)))"

text \<open>The atom \<open>x\<close> carries exactly the events \<open>es\<close> with digests \<open>ds\<close> and continues \<open>c\<close>.\<close>

definition seals :: "EpisodeEventV1 list \<Rightarrow> Digest32 list \<Rightarrow> AtomId option \<Rightarrow> SealedEpisodeV1 \<Rightarrow> bool" where
  "seals es ds c x \<longleftrightarrow> es \<noteq> [] \<and>
     bd_payload (se_body x) = EpisodePayload \<lparr>ep_event_sequence_start = ev_sequence (hd es),
        ep_event_sequence_end = ev_sequence (last es), ep_continues = c\<rparr> \<and>
     pv_source_event_digests (bd_provenance (se_body x)) = ds \<and>
     bd_observations (se_body x) = List.map_filter ev_observation es \<and>
     bd_interpretations (se_body x) = List.map_filter ev_interpretation es \<and>
     bd_beliefs (se_body x) = List.map_filter ev_belief es \<and>
     bd_decisions (se_body x) = List.map_filter ev_decision es \<and>
     bd_actions (se_body x) = List.map_filter ev_action es"

lemma build_episode_body_seals:
  assumes "build_episode_body buffer request digest es ds s e c = Inr b" "se_body x = b"
  shows "seals es ds c x"
proof -
  have "es \<noteq> []" using assms(1) by (auto simp: build_episode_body_def)
  then show ?thesis using assms(1) unfolding seals_def assms(2) by (auto simp: build_episode_body_def)
qed

lemma seal_episode_range_Inr:
  assumes r: "seal_episode_range sha buffer request poc_v1 prepared s e c = Inr x"
    and p: "prepared_for sha (bu_events buffer) prepared"
  shows "s < e \<and> e \<le> length (bu_events buffer) \<and> sealed_ok sha x \<and>
    seals (events_in (bu_events buffer) s e) (take (e - s) (drop s (pe_digests prepared))) c x \<and>
    unat (se_canonical_size_bytes x) =
      base_bytes buffer request (c \<noteq> None) + sum_list (map ev_bytes (events_in (bu_events buffer) s e))"
proof -
  let ?es = "events_in (bu_events buffer) s e" and ?ds = "take (e - s) (drop s (pe_digests prepared))"
  obtain digest st en b n a where bounds: "s \<le> e" "e \<le> length (bu_events buffer)"
    and b: "build_episode_body buffer request digest ?es ?ds st en c = Inr b"
    and v: "validate_memory_atom_body sha b poc_v1 = Inr ()"
    and n: "encoded_size_bytes b = Inr n" and a: "atom_id sha b = Inr a"
    and x: "x = \<lparr>se_atom_id = a, se_body = b, se_canonical_size_bytes = n,
      se_target_size_exceeded = (n > 131072)\<rparr>"
    using r by (auto simp: seal_episode_range_def bindr_Inr ok_or_Inr get_range_Some Let_def events_in_def)
  have len: "length ?ds = length ?es" using prepared_for_length [OF p] bounds by (simp add: events_in_def)
  have size: "unat n = vsize (v_body b)" using n by (rule encoded_size_bytes_Inr)
  have "?es \<noteq> []" using b by (auto simp: build_episode_body_def)
  then have "s < e" by (auto simp: events_in_def)
  moreover have "sealed_ok sha x"
    using atom_body_wfI [OF v] a n size by (simp add: sealed_ok_def x word_less_nat_alt)
  ultimately show ?thesis
    using bounds build_episode_body_seals [OF b] build_episode_body_size [OF b len] size by (simp add: x)
qed

lemma sum_take_drop:
  assumes "s \<le> e"
  shows "sum_list (map f (take e xs)) - sum_list (map f (take s xs)) = (sum_list (map f (take (e - s) (drop s xs))) :: nat)"
proof -
  have "take e xs = take s xs @ take (e - s) (drop s xs)"
    using assms by (metis le_add_diff_inverse take_add)
  then show ?thesis by simp
qed

lemma prepared_range:
  assumes p: "prepared_for sha events prepared" and "s \<le> e" "e \<le> length events"
  shows "unat (pe_cumulative_body_bytes prepared ! e) - unat (pe_cumulative_body_bytes prepared ! s)
      = sum_list (map ev_bytes (events_in events s e))"
    and "\<exists>n. range_body_bytes prepared s e = Inr n \<and> unat n = sum_list (map ev_bytes (events_in events s e))"
proof -
  have len: "length (pe_cumulative_body_bytes prepared) = Suc (length events)" using p by (simp add: prepared_for_def)
  have cum: "unat (pe_cumulative_body_bytes prepared ! i) = sum_list (map ev_bytes (take i events))"
    if "i \<le> length events" for i
    using p that by (simp add: prepared_for_def)
  show diff: "unat (pe_cumulative_body_bytes prepared ! e) - unat (pe_cumulative_body_bytes prepared ! s)
      = sum_list (map ev_bytes (events_in events s e))"
    using cum assms(2,3) by (simp add: events_in_def sum_take_drop)
  have le: "pe_cumulative_body_bytes prepared ! s \<le> pe_cumulative_body_bytes prepared ! e"
    unfolding word_le_nat_alt using cum assms(2,3) by (simp add: sum_list_take_mono)
  then have "checked_sub (pe_cumulative_body_bytes prepared ! e) (pe_cumulative_body_bytes prepared ! s)
      = Some (pe_cumulative_body_bytes prepared ! e - pe_cumulative_body_bytes prepared ! s)"
    by (simp add: checked_sub_def)
  then show "\<exists>n. range_body_bytes prepared s e = Inr n \<and> unat n = sum_list (map ev_bytes (events_in events s e))"
    using len assms(2,3) diff le
    by (auto simp: range_body_bytes_def get_index_def unat_sub word_le_nat_alt)
qed

lemma segment_base_bytes_Inr:
  assumes base: "segment_base_bytes buffer request digest prepared c = Inr n"
    and p: "prepared_for sha (bu_events buffer) prepared"
  shows "unat n = base_bytes buffer request (c \<noteq> None)"
proof -
  let ?es = "take 1 (bu_events buffer)" and ?ds = "take 1 (pe_digests prepared)"
  obtain b size r where len: "1 \<le> length (bu_events buffer)"
    and b: "build_episode_body buffer request digest ?es ?ds (bu_started_at_us buffer) (rq_ended_at_us request) c = Inr b"
    and size: "encoded_size_bytes b = Inr size" and r: "range_body_bytes prepared 0 1 = Inr r"
    and n: "checked_sub size r = Some n"
    using base by (auto simp: segment_base_bytes_def bindr_Inr ok_or_Inr lift_Inr slice_to_def split: if_splits)
  have "length ?ds = length ?es" using prepared_for_length [OF p] by simp
  then have "vsize (v_body b) = base_bytes buffer request (c \<noteq> None) + sum_list (map ev_bytes ?es)"
    using build_episode_body_size [OF b] by simp
  moreover have "unat r = sum_list (map ev_bytes ?es)"
    using prepared_range(2) [OF p, of 0 1] len r by (simp add: events_in_def)
  ultimately show ?thesis
    using checked_sub_SomeD [OF n] encoded_size_bytes_Inr [OF size] by simp
qed

section \<open>The chain over a route\<close>

fun chain_of ::
  "(byte list \<Rightarrow> Digest32) \<Rightarrow> EpisodeEventV1 list \<Rightarrow> Digest32 list \<Rightarrow> AtomId option \<Rightarrow> (nat \<times> nat) list \<Rightarrow>
   SealedEpisodeV1 list \<Rightarrow> bool" where
  "chain_of sha events ds prev [] [] = True"
| "chain_of sha events ds prev ((s, e) # rs) (x # xs) \<longleftrightarrow>
     seals (events_in events s e) (take (e - s) (drop s ds)) prev x \<and> sealed_ok sha x \<and>
     \<not> se_target_size_exceeded x \<and> chain_of sha events ds (Some (se_atom_id x)) rs xs"
| "chain_of sha events ds prev _ _ = False"

lemma chain_of_length: "chain_of sha events ds prev rs xs \<Longrightarrow> length xs = length rs"
  by (induction sha events ds prev rs xs rule: chain_of.induct) auto

lemma seal_range_in_budget:
  assumes p: "prepared_for sha (bu_events buffer) prepared"
    and fb: "unat fb = base_bytes buffer request (bu_continues buffer \<noteq> None)"
    and cb: "unat cb = base_bytes buffer request True"
    and ok: "segment_ok prepared shared fb cb 131072 s e"
    and prev: "if s = 0 then prev = bu_continues buffer else prev \<noteq> None"
    and x: "seal_episode_range sha buffer request poc_v1 prepared s e prev = Inr x"
  shows "\<not> se_target_size_exceeded x"
    and "\<exists>n m. range_body_bytes prepared s e = Inr n \<and>
      checked_add (if s = 0 then fb else cb) n = Some m \<and> se_canonical_size_bytes x = m"
proof -
  let ?base = "if s = 0 then fb else cb" and ?sum = "sum_list (map ev_bytes (events_in (bu_events buffer) s e))"
  have bounds: "s < e" "e \<le> length (bu_events buffer)" and sealed: "sealed_ok sha x"
    and size: "unat (se_canonical_size_bytes x) = base_bytes buffer request (prev \<noteq> None) + ?sum"
    using seal_episode_range_Inr [OF x p] by auto
  have base: "unat ?base = base_bytes buffer request (prev \<noteq> None)"
    using prev fb cb by (auto split: if_splits)
  have "unat ?base + ?sum \<le> 131072"
    using ok prepared_range(1) [OF p, of s e] bounds by (simp add: segment_ok_def)
  then show "\<not> se_target_size_exceeded x" using sealed size base by (simp add: sealed_ok_def)
  obtain n where n: "range_body_bytes prepared s e = Inr n" "unat n = ?sum"
    using prepared_range(2) [OF p, of s e] bounds by auto
  have sum: "unat ?base + unat n = unat (se_canonical_size_bytes x)" using n size base by simp
  then have lt: "unat ?base + unat n < 2 ^ 64" using unat_u64_bound [of "se_canonical_size_bytes x"] by simp
  then have "?base + n = se_canonical_size_bytes x"
    using sum unat_word_add_lt [of ?base n] unfolding word_unat_eq_iff by simp
  then show "\<exists>n m. range_body_bytes prepared s e = Inr n \<and>
      checked_add ?base n = Some m \<and> se_canonical_size_bytes x = m"
    using n(1) lt by (auto simp: checked_add_def)
qed

lemma seal_ranges_route:
  assumes p: "prepared_for sha (bu_events buffer) prepared"
    and fb: "unat fb = base_bytes buffer request (bu_continues buffer \<noteq> None)"
    and cb: "unat cb = base_bytes buffer request True"
  shows "is_route (segment_ok prepared shared fb cb 131072) n s rs \<Longrightarrow>
    (if s = 0 then prev = bu_continues buffer else prev \<noteq> None) \<Longrightarrow>
    seal_ranges sha buffer request poc_v1 prepared fb cb prev rs = Inr xs \<Longrightarrow>
    chain_of sha (bu_events buffer) (pe_digests prepared) prev rs xs"
proof (induction rs arbitrary: s prev xs)
  case (Cons r rs)
  obtain e where r: "r = (s, e)" and ok: "segment_ok prepared shared fb cb 131072 s e"
    and rest: "is_route (segment_ok prepared shared fb cb 131072) n e rs"
    using Cons.prems(1) by (cases r) auto
  obtain x ys where x: "seal_episode_range sha buffer request poc_v1 prepared s e prev = Inr x"
    and tail: "seal_ranges sha buffer request poc_v1 prepared fb cb (Some (se_atom_id x)) rs = Inr ys"
    and xs: "xs = x # ys"
    using Cons.prems(3) by (auto simp: r Let_def bindr_Inr split: if_splits)
  have "s < e" using ok by (simp add: segment_ok_def)
  then have "chain_of sha (bu_events buffer) (pe_digests prepared) (Some (se_atom_id x)) rs ys"
    using tail by (intro Cons.IH [OF rest]) simp_all
  then show ?case
    using seal_episode_range_Inr [OF x p] seal_range_in_budget(1) [OF p fb cb ok Cons.prems(2) x] by (simp add: r xs)
qed simp

lemma check_chain_closure_ok:
  assumes p: "prepared_for sha (bu_events buffer) prepared" and n: "length (bu_events buffer) \<le> usize_max"
  shows "is_route (segment_ok prepared shared fb cb t) (length (bu_events buffer)) s rs \<Longrightarrow>
    chain_of sha (bu_events buffer) (pe_digests prepared) prev rs xs \<Longrightarrow>
    check_chain_closure sha buffer prepared poc_v1 s prev xs = Inr (length (bu_events buffer))"
proof (induction rs arbitrary: s prev xs)
  case Nil
  then show ?case by (cases xs) auto
next
  case (Cons r rs)
  obtain e where r: "r = (s, e)" and ok: "segment_ok prepared shared fb cb t s e"
    and rest: "is_route (segment_ok prepared shared fb cb t) (length (bu_events buffer)) e rs"
    using Cons.prems(1) by (cases r) auto
  obtain x xs' where xs: "xs = x # xs'" using Cons.prems(2) r by (cases xs) auto
  let ?es = "events_in (bu_events buffer) s e" and ?ds = "take (e - s) (drop s (pe_digests prepared))"
  have x: "seals ?es ?ds prev x" "sealed_ok sha x" "\<not> se_target_size_exceeded x"
    and tail: "chain_of sha (bu_events buffer) (pe_digests prepared) (Some (se_atom_id x)) rs xs'"
    using Cons.prems(2) by (auto simp: r xs)
  have len: "length (pe_digests prepared) = length (bu_events buffer)" using prepared_for_length [OF p] .
  have bounds: "s < e" "e \<le> length (bu_events buffer)" using ok len by (auto simp: segment_ok_def)
  have "length ?ds = e - s" using bounds len by simp
  then have next_cursor: "usize_checked_add s (length ?ds) = Some e"
    using bounds n by (simp add: usize_checked_add_def)
  have small: "\<not> se_canonical_size_bytes x > 131072" "\<not> se_canonical_size_bytes x > 262144"
    using x(2,3) by (auto simp: sealed_ok_def word_less_nat_alt)
  have ranges: "get_range (bu_events buffer) s e = Some ?es" "get_range (pe_digests prepared) s e = Some ?ds"
    using bounds len by (auto simp: get_range_def events_in_def)
  have "check_chain_closure sha buffer prepared poc_v1 s prev (x # xs') =
      check_chain_closure sha buffer prepared poc_v1 e (Some (se_atom_id x)) xs'"
    using x(1,2) next_cursor ranges small by (simp add: seals_def sealed_ok_def Let_def)
  then show ?case using Cons.IH [OF rest tail] by (simp add: xs)
qed

section \<open>Nothing is lost, and the atoms are linked\<close>

text \<open>
  A range fits when the body of its events, first or continued, stays within the target size and
  has content of its own (or the request supplies an outcome or feedback for every segment).
\<close>

definition range_fits :: "EpisodeBufferV1 \<Rightarrow> SealEpisodeRequestV1 \<Rightarrow> nat \<Rightarrow> nat \<Rightarrow> bool" where
  "range_fits buffer request s e \<longleftrightarrow> s < e \<and> e \<le> length (bu_events buffer) \<and>
     base_bytes buffer request (s = 0 \<longrightarrow> bu_continues buffer \<noteq> None)
       + sum_list (map ev_bytes (events_in (bu_events buffer) s e)) \<le> 131072 \<and>
     (request_substantive request \<or> list_ex is_substantive (events_in (bu_events buffer) s e))"

fun linked :: "AtomId option \<Rightarrow> SealedEpisodeV1 list \<Rightarrow> bool" where
  "linked prev [] = True"
| "linked prev (x # xs) \<longleftrightarrow>
     (case bd_payload (se_body x) of EpisodePayload p \<Rightarrow> ep_continues p = prev | SemanticPayload _ \<Rightarrow> False) \<and>
     linked (Some (se_atom_id x)) xs"

definition chain_content :: "(MemoryAtomBodyV1 \<Rightarrow> 'a list) \<Rightarrow> SealedEpisodeV1 list \<Rightarrow> 'a list" where
  "chain_content f xs = concat (map (f \<circ> se_body) xs)"

definition chain_closed :: "(byte list \<Rightarrow> Digest32) \<Rightarrow> EpisodeBufferV1 \<Rightarrow> SealedEpisodeV1 list \<Rightarrow> bool" where
  "chain_closed sha buffer xs \<longleftrightarrow>
     list_all2 (\<lambda>e d. event_digest sha e = Inr d) (bu_events buffer)
       (chain_content (pv_source_event_digests \<circ> bd_provenance) xs) \<and>
     chain_content bd_observations xs = List.map_filter ev_observation (bu_events buffer) \<and>
     chain_content bd_interpretations xs = List.map_filter ev_interpretation (bu_events buffer) \<and>
     chain_content bd_beliefs xs = List.map_filter ev_belief (bu_events buffer) \<and>
     chain_content bd_decisions xs = List.map_filter ev_decision (bu_events buffer) \<and>
     chain_content bd_actions xs = List.map_filter ev_action (bu_events buffer) \<and>
     linked (bu_continues buffer) xs"

lemma map_filter_split: "List.map_filter f (xs @ ys) = List.map_filter f xs @ List.map_filter f ys"
  by (induction xs) (auto split: option.split)

lemma drop_split: "s \<le> e \<Longrightarrow> drop s xs = take (e - s) (drop s xs) @ drop e xs"
  by (metis append_take_drop_id drop_drop le_add_diff_inverse2)

lemma chain_of_linked: "chain_of sha events ds prev rs xs \<Longrightarrow> linked prev xs"
  by (induction sha events ds prev rs xs rule: chain_of.induct) (auto simp: seals_def)

lemma chain_of_sealed: "chain_of sha events ds prev rs xs \<Longrightarrow>
    \<forall>x \<in> set xs. sealed_ok sha x \<and> \<not> se_target_size_exceeded x"
  by (induction sha events ds prev rs xs rule: chain_of.induct) auto

lemma chain_of_content:
  assumes okb: "\<And>a b. ok a b \<Longrightarrow> a < b \<and> b \<le> length events"
    and step: "\<And>s e c x. seals (events_in events s e) (take (e - s) (drop s ds)) c x \<Longrightarrow> f (se_body x) = g s e"
    and split: "\<And>s e. s < e \<Longrightarrow> e \<le> length events \<Longrightarrow> h s = g s e @ h e"
    and fin: "h (length events) = []"
  shows "is_route ok (length events) s rs \<Longrightarrow> chain_of sha events ds prev rs xs \<Longrightarrow> chain_content f xs = h s"
proof (induction rs arbitrary: s prev xs)
  case Nil
  then show ?case using fin by (cases xs) (auto simp: chain_content_def)
next
  case (Cons r rs)
  then obtain e x xs' where r: "r = (s, e)" "ok s e" "xs = x # xs'"
    and x: "seals (events_in events s e) (take (e - s) (drop s ds)) prev x"
    and tail: "is_route ok (length events) e rs" "chain_of sha events ds (Some (se_atom_id x)) rs xs'"
    by (cases r; cases xs) auto
  have "chain_content f xs = g s e @ chain_content f xs'"
    using step [OF x] by (simp add: chain_content_def r)
  then show ?case using Cons.IH [OF tail] split [of s e] okb [OF r(2)] by simp
qed

lemma chain_of_field:
  assumes okb: "\<And>a b. ok a b \<Longrightarrow> a < b \<and> b \<le> length events"
    and step: "\<And>es dg c x. seals es dg c x \<Longrightarrow> f (se_body x) = List.map_filter g es"
    and route: "is_route ok (length events) 0 rs" and chain: "chain_of sha events ds prev rs xs"
  shows "chain_content f xs = List.map_filter g events"
proof -
  have "chain_content f xs = List.map_filter g (drop 0 events)"
  proof (rule chain_of_content [OF okb _ _ _ route chain])
    show "f (se_body x) = List.map_filter g (events_in events s e)"
      if "seals (events_in events s e) (take (e - s) (drop s ds)) c x" for s e c x
      using that by (rule step)
    show "List.map_filter g (drop s events) = List.map_filter g (events_in events s e) @ List.map_filter g (drop e events)"
      if "s < e" for s e
      using that by (simp add: events_in_def flip: map_filter_split drop_split)
  qed simp_all
  then show ?thesis by simp
qed

lemma chain_of_digests:
  assumes okb: "\<And>a b. ok a b \<Longrightarrow> a < b \<and> b \<le> length events" and len: "length ds = length events"
    and route: "is_route ok (length events) 0 rs" and chain: "chain_of sha events ds prev rs xs"
  shows "chain_content (pv_source_event_digests \<circ> bd_provenance) xs = ds"
proof -
  have "chain_content (pv_source_event_digests \<circ> bd_provenance) xs = drop 0 ds"
  proof (rule chain_of_content [OF okb _ _ _ route chain])
    show "(pv_source_event_digests \<circ> bd_provenance) (se_body x) = take (e - s) (drop s ds)"
      if "seals (events_in events s e) (take (e - s) (drop s ds)) c x" for s e c x
      using that by (simp add: seals_def)
    show "drop s ds = take (e - s) (drop s ds) @ drop e ds" if "s < e" for s e
      using that by (intro drop_split) simp
  qed (simp_all add: len)
  then show ?thesis by simp
qed

lemma chain_of_closed:
  assumes p: "prepared_for sha (bu_events buffer) prepared"
    and okb: "\<And>a b. ok a b \<Longrightarrow> a < b \<and> b \<le> length (bu_events buffer)"
    and route: "is_route ok (length (bu_events buffer)) 0 rs"
    and chain: "chain_of sha (bu_events buffer) (pe_digests prepared) (bu_continues buffer) rs xs"
  shows "chain_closed sha buffer xs"
proof -
  note field = chain_of_field [OF okb _ route chain]
  have "chain_content bd_observations xs = List.map_filter ev_observation (bu_events buffer)"
    "chain_content bd_interpretations xs = List.map_filter ev_interpretation (bu_events buffer)"
    "chain_content bd_beliefs xs = List.map_filter ev_belief (bu_events buffer)"
    "chain_content bd_decisions xs = List.map_filter ev_decision (bu_events buffer)"
    "chain_content bd_actions xs = List.map_filter ev_action (bu_events buffer)"
    by (rule field, assumption, simp add: seals_def)+
  then show ?thesis
    using chain_of_digests [OF okb prepared_for_length [OF p] route chain] chain_of_linked [OF chain] p
    by (simp add: chain_closed_def prepared_for_def)
qed

lemma segment_ok_range_fits:
  assumes p: "prepared_for sha (bu_events buffer) prepared"
    and fb: "unat fb = base_bytes buffer request (bu_continues buffer \<noteq> None)"
    and cb: "unat cb = base_bytes buffer request True"
  shows "segment_ok prepared (request_substantive request) fb cb 131072 = range_fits buffer request"
proof (intro ext)
  fix s e
  show "segment_ok prepared (request_substantive request) fb cb 131072 s e = range_fits buffer request s e"
  proof (cases "s < e \<and> e \<le> length (bu_events buffer)")
    case True
    have "pe_cumulative_substantive prepared ! i = length (filter is_substantive (take i (bu_events buffer)))"
      if "i \<le> length (bu_events buffer)" for i
      using p that by (simp add: prepared_for_def)
    moreover have "take e (bu_events buffer) = take s (bu_events buffer) @ events_in (bu_events buffer) s e"
      using True by (metis events_in_def le_add_diff_inverse less_imp_le take_add)
    ultimately have sub: "pe_cumulative_substantive prepared ! s < pe_cumulative_substantive prepared ! e \<longleftrightarrow>
        list_ex is_substantive (events_in (bu_events buffer) s e)"
      using True by (auto simp: list_ex_iff filter_empty_conv)
    show ?thesis
      using True prepared_range(1) [OF p, of s e] prepared_for_length [OF p] fb cb sub
      by (cases "s = 0") (simp_all add: segment_ok_def range_fits_def)
  next
    case False
    then show ?thesis using prepared_for_length [OF p] by (auto simp: segment_ok_def range_fits_def)
  qed
qed

lemma u64_exists: "n < 2 ^ 64 \<Longrightarrow> \<exists>x :: u64. unat x = n"
  by (rule exI [of _ "of_nat n"]) (simp add: unat_of_nat)

lemma segment_base_bytes_total:
  assumes p: "prepared_for sha (bu_events buffer) prepared" and events: "bu_events buffer \<noteq> []"
    and small: "base_bytes buffer request (c \<noteq> None) + ev_bytes (hd (bu_events buffer)) < 2 ^ 64"
  shows "\<exists>n. segment_base_bytes buffer request digest prepared c = Inr n"
proof -
  let ?es = "take 1 (bu_events buffer)" and ?ds = "take 1 (pe_digests prepared)"
  have len: "1 \<le> length (bu_events buffer)" "1 \<le> length (pe_digests prepared)"
    using events prepared_for_length [OF p] by (cases "bu_events buffer"; simp)+
  have "?es = [hd (bu_events buffer)]" using events by (cases "bu_events buffer") auto
  obtain b where b: "build_episode_body buffer request digest ?es ?ds (bu_started_at_us buffer) (rq_ended_at_us request) c = Inr b"
    using events by (auto simp: build_episode_body_def)
  have "length ?ds = length ?es" using len by simp
  then have vs: "vsize (v_body b) = base_bytes buffer request (c \<noteq> None) + ev_bytes (hd (bu_events buffer))"
    using build_episode_body_size [OF b] \<open>?es = _\<close> by simp
  then obtain size where size: "encoded_size_bytes b = Inr size" "unat size = vsize (v_body b)"
    using small u64_exists [of "vsize (v_body b)"] by (auto simp: encoded_size_bytes_iff)
  obtain r where r: "range_body_bytes prepared 0 1 = Inr r" "unat r = ev_bytes (hd (bu_events buffer))"
    using prepared_range(2) [OF p, of 0 1] len \<open>?es = _\<close> by (auto simp: events_in_def)
  have "checked_sub size r = Some (size - r)" using size r vs by (simp add: checked_sub_def word_le_nat_alt)
  then show ?thesis
    using len b size r by (auto simp: segment_base_bytes_def slice_to_def)
qed

lemma po_target: "po_atom_target_bytes poc_v1 = 131072"
  by simp

section \<open>What sealing accepts\<close>

text \<open>
  The events of an episode: consecutive sequence numbers whose successor still fits 64 bits, one
  scope, times in order and within the episode.
\<close>

definition event_stream_ok :: "EpisodeBufferV1 \<Rightarrow> SealEpisodeRequestV1 \<Rightarrow> u64 \<Rightarrow> EpisodeEventV1 list \<Rightarrow> bool" where
  "event_stream_ok buffer request first events \<longleftrightarrow>
     map (unat \<circ> ev_sequence) events = [unat first ..< unat first + length events] \<and>
     unat first + length events < 2 ^ 64 \<and> sorted (map ev_at_us events) \<and>
     list_all (\<lambda>e. ev_scope e = bu_scope buffer \<and> bu_started_at_us buffer \<le> ev_at_us e \<and>
       ev_at_us e \<le> rq_ended_at_us request) events"

definition episode_input_ok :: "(byte list \<Rightarrow> Digest32) \<Rightarrow> EpisodeBufferV1 \<Rightarrow> SealEpisodeRequestV1 \<Rightarrow> bool" where
  "episode_input_ok sha buffer request \<longleftrightarrow> scope_wf (bu_scope buffer) \<and> rq_trigger request \<noteq> '''' \<and>
     bu_events buffer \<noteq> [] \<and> bu_started_at_us buffer \<le> rq_ended_at_us request \<and>
     rq_ended_at_us request \<le> rq_as_of_us request \<and>
     event_stream_ok buffer request (ev_sequence (hd (bu_events buffer))) (bu_events buffer) \<and>
     list_all (\<lambda>a. unat (ar_size_bytes a) \<le> 67108864 \<and> inline_wf sha a) (rq_artifacts request) \<and>
     (list_ex is_substantive (bu_events buffer) \<or> rq_outcome request \<noteq> None \<or> rq_feedback request \<noteq> [])"

lemma checked_succ: "(checked_add (k :: u64) 1 = Some k') \<longleftrightarrow> unat k' = Suc (unat k)"
proof
  assume "checked_add k 1 = Some k'"
  then show "unat k' = Suc (unat k)" using checked_add_SomeD [of k 1 k'] by simp
next
  assume k': "unat k' = Suc (unat k)"
  then have "unat k + unat (1 :: u64) < 2 ^ 64" using unat_u64_bound [of k'] by simp
  then show "checked_add k 1 = Some k'"
    using k' unat_word_add_lt [of k 1] by (simp add: checked_add_def word_unat_eq_iff)
qed

lemma event_stream_ok_Cons:
  "event_stream_ok buffer request k (e # es) \<longleftrightarrow> ev_sequence e = k \<and> ev_scope e = bu_scope buffer \<and>
     bu_started_at_us buffer \<le> ev_at_us e \<and> ev_at_us e \<le> rq_ended_at_us request \<and>
     (\<forall>x \<in> set es. ev_at_us e \<le> ev_at_us x) \<and>
     (\<exists>k'. unat k' = Suc (unat k) \<and> event_stream_ok buffer request k' es)"
proof -
  define R where "R n \<longleftrightarrow> map (unat \<circ> ev_sequence) es = [n ..< n + length es] \<and> n + length es < 2 ^ 64 \<and>
     sorted (map ev_at_us es) \<and> list_all (\<lambda>e. ev_scope e = bu_scope buffer \<and> bu_started_at_us buffer \<le> ev_at_us e \<and>
       ev_at_us e \<le> rq_ended_at_us request) es" for n
  have R: "event_stream_ok buffer request k' es \<longleftrightarrow> R (unat k')" for k'
    by (simp add: event_stream_ok_def R_def)
  have up: "[unat k ..< unat k + length (e # es)] = unat k # [Suc (unat k) ..< Suc (unat k) + length es]"
    using upt_conv_Cons [of "unat k" "unat k + length (e # es)"] by (simp del: upt_Suc)
  have small: "R n \<Longrightarrow> n < 2 ^ 64" for n by (simp add: R_def)
  have ex: "(\<exists>k' :: u64. unat k' = Suc (unat k) \<and> R (unat k')) \<longleftrightarrow> R (Suc (unat k))"
    using u64_exists [OF small, of "Suc (unat k)"] by metis
  have "event_stream_ok buffer request k (e # es) \<longleftrightarrow> ev_sequence e = k \<and> ev_scope e = bu_scope buffer \<and>
     bu_started_at_us buffer \<le> ev_at_us e \<and> ev_at_us e \<le> rq_ended_at_us request \<and>
     (\<forall>x \<in> set es. ev_at_us e \<le> ev_at_us x) \<and> R (Suc (unat k))"
    unfolding event_stream_ok_def up R_def by (auto simp: word_unat_eq_iff)
  then show ?thesis unfolding R ex .
qed

lemma check_events_Inr:
  "check_events buffer request k previous es = Inr () \<longleftrightarrow> event_stream_ok buffer request k es \<and>
     (\<forall>t. previous = Some t \<longrightarrow> (\<forall>e \<in> set es. t \<le> ev_at_us e))"
proof (induction es arbitrary: k previous)
  case Nil
  then show ?case using unat_u64_bound [of k] by (simp add: event_stream_ok_def)
next
  case (Cons e es)
  have time: "(case previous of Some t \<Rightarrow> if ev_at_us e < t then Inl (f t) else Inr () | None \<Rightarrow> Inr ()) = Inr u \<longleftrightarrow>
      (\<forall>t. previous = Some t \<longrightarrow> t \<le> ev_at_us e)" for f :: "u64 \<Rightarrow> MemoryError" and u
    by (auto simp: not_less split: option.splits)
  show ?case
    unfolding check_events.simps event_stream_ok_Cons if_Inl_Inr bindr_Inr ok_or_Inr time checked_succ Cons.IH
    by (auto simp: not_less dest: order_trans)
qed

lemma validate_episode_input_Inr:
  "validate_episode_input sha buffer request poc_v1 = Inr () \<longleftrightarrow> episode_input_ok sha buffer request"
proof -
  have big: "\<not> ar_size_bytes a > 67108864 \<longleftrightarrow> unat (ar_size_bytes a) \<le> 67108864" for a
    by (simp add: word_less_nat_alt not_less)
  have artifacts: "seal_validate_artifacts sha as poc_v1 = Inr () \<longleftrightarrow>
      list_all (\<lambda>a. unat (ar_size_bytes a) \<le> 67108864 \<and> inline_wf sha a) as" for as
    unfolding seal_validate_artifacts_def try_each_Inr if_Inl_Inr validate_inline_payload_Inr list_all_iff
    by (simp add: big)
  show ?thesis
    unfolding validate_episode_input_def episode_input_ok_def bindr_Inr if_Inl_Inr unit_exists validate_scope_Inr artifacts check_events_Inr
    by (auto simp: not_less)
qed

section \<open>What sealing can encode\<close>

text \<open>Every failure of the encoder, of the sizes and of the preparation is a canonical encoding error.\<close>

definition encoding_error :: "MemoryError \<Rightarrow> bool" where
  "encoding_error err \<longleftrightarrow> (\<exists>m. err = CanonicalEncoding m)"

lemma encoding_error_simps [simp]: "encoding_error (CanonicalEncoding m)"
  by (simp add: encoding_error_def)

lemma traverse_InlD: "traverse f xs = Inl e \<Longrightarrow> \<exists>x \<in> set xs. f x = Inl e"
  by (induction xs) (auto simp: bindr_Inl)

lemma try_fold_InlD: "try_fold f s xs = Inl e \<Longrightarrow> \<exists>s' x. x \<in> set xs \<and> f s' x = Inl e"
  by (induction xs arbitrary: s) (auto simp: bindr_Inl, blast)

lemma frame_Inl: "frame bs = Inl e \<Longrightarrow> encoding_error e"
  by (auto simp: frame_def bindr_Inl ok_or_Inl)

lemma encode_value_Inl: "encode_value v = Inl e \<Longrightarrow> encoding_error e"
proof (induction v arbitrary: e rule: encode_value.induct)
  case (3 n)
  then show ?case by (cases n) auto
next
  case (4 s)
  then show ?case by (auto simp: bindr_Inl dest: frame_Inl)
next
  case (5 vs)
  show ?case
  proof (cases "u64_of_usize (length vs)")
    case (Some count)
    then obtain v where v: "v \<in> set vs" "bindr (encode_value v) frame = Inl e"
      using "5.prems" by (auto simp: bindr_Inl dest!: traverse_InlD)
    then show ?thesis using "5.IH" Some frame_Inl by (fastforce simp: bindr_Inl)
  qed (use "5.prems" in auto)
next
  case (6 kvs)
  show ?case
  proof (cases "u64_of_usize (length kvs)")
    case (Some count)
    then obtain kv where kv: "kv \<in> set (sort_key (str_bytes \<circ> fst) kvs)"
      "bindr (frame (str_bytes (fst kv))) (\<lambda>key.
         bindr (encode_value (snd kv)) (\<lambda>encoded. bindr (frame encoded) (\<lambda>val. Inr (key @ val)))) = Inl e"
      using "6.prems" by (auto simp: bindr_Inl dest!: traverse_InlD)
    have "ok_or (CanonicalEncoding ''object exceeds u64 length'') (u64_of_usize (length kvs)) = Inr count"
      using Some by simp
    note ih = "6.IH" [OF this kv(1)]
    show ?thesis using kv(2) ih frame_Inl by (auto simp: bindr_Inl)
  qed (use "6.prems" in auto)
qed auto

lemma event_digest_Inl: "event_digest sha e = Inl err \<Longrightarrow> encoding_error err"
  by (auto simp: event_digest_def bindr_Inl dest: encode_value_Inl)

lemma framed_canonical_size_Inl: "framed_canonical_size v = Inl err \<Longrightarrow> encoding_error err"
  by (auto simp: framed_canonical_size_def bindr_Inl ok_or_Inl dest: encode_value_Inl)

lemma event_body_bytes_Inl: "event_body_bytes d e = Inl err \<Longrightarrow> encoding_error err"
  by (auto simp: event_body_bytes_def bindr_Inl ok_or_Inl split: option.splits
      dest!: traverse_InlD try_fold_InlD framed_canonical_size_Inl)

lemma prepare_events_Inl: "prepare_events sha es = Inl err \<Longrightarrow> encoding_error err"
  by (auto simp: prepare_events_def prepare_event_def bindr_Inl ok_or_Inl
      dest!: try_fold_InlD event_digest_Inl event_body_bytes_Inl)

lemma lift_Inl: "lift r = Inl fault \<longleftrightarrow> (\<exists>e. r = Inl e \<and> fault = Err e)"
  by (cases r) auto

lemma segment_base_bytes_Inl:
  assumes "bu_events buffer \<noteq> []" "prepared_for sha (bu_events buffer) prepared"
    and "segment_base_bytes buffer request digest prepared c = Inl fault"
  shows "\<exists>err. fault = Err err \<and> encoding_error err"
proof -
  have "1 \<le> length (bu_events buffer)" using assms(1) by (cases "bu_events buffer") auto
  moreover have "1 \<le> length (pe_digests prepared)" using calculation prepared_for_length [OF assms(2)] by simp
  moreover have "encoded_size_bytes b = Inl e \<Longrightarrow> encoding_error e" for b e
    by (auto simp: encoded_size_bytes_def body_canonical_bytes_def bindr_Inl ok_or_Inl dest: encode_value_Inl)
  moreover have "range_body_bytes prepared 0 1 = Inl e \<Longrightarrow> encoding_error e" for e
    by (auto simp: range_body_bytes_def bindr_Inl ok_or_Inl)
  ultimately show ?thesis using assms(1,3)
    by (auto simp: segment_base_bytes_def slice_to_def bindr_Inl lift_Inl lift_Inr build_episode_body_def ok_or_Inl split: if_splits)
qed

text \<open>
  The inputs whose sizes can be computed: every event has an encoding, the bytes of the events fit
  64 bits, and so does a first and a continued segment of the first event alone.
\<close>

definition encodable :: "EpisodeBufferV1 \<Rightarrow> SealEpisodeRequestV1 \<Rightarrow> bool" where
  "encodable buffer request \<longleftrightarrow> (\<forall>e \<in> set (bu_events buffer). \<exists>bs. encode_value (v_event e) = Inr bs) \<and>
     sum_list (map ev_bytes (bu_events buffer)) < 2 ^ 64 \<and>
     base_bytes buffer request (bu_continues buffer \<noteq> None) + ev_bytes (hd (bu_events buffer)) < 2 ^ 64 \<and>
     base_bytes buffer request True + ev_bytes (hd (bu_events buffer)) < 2 ^ 64"

lemma event_body_bytes_total:
  assumes "ev_bytes e < 2 ^ 64"
  shows "\<exists>n. event_body_bytes d e = Inr n"
proof -
  let ?size = "\<lambda>field. case field of None \<Rightarrow> Inr None
       | Some value \<Rightarrow> bindr (framed_canonical_size value) (\<lambda>n. Inr (Some n))"
  obtain d0 where d0: "framed_canonical_size (v_digest d) = Inr d0" "unat d0 = 81"
    using framed_canonical_size_total [of "v_digest d"] by (auto simp: float_free_simps)
  have free: "float_free v" if "Some v \<in> set (event_fields e)" for v
    using that
    by (auto simp: event_fields_def float_free_simps eq_commute [of "Some v"] map_option_eq_Some)
  have sum: "ev_bytes e = 81 + sum_list (map (\<lambda>f. case f of None \<Rightarrow> 0 | Some v \<Rightarrow> 8 + vsize v) (event_fields e))"
    by (simp add: ev_bytes_def event_fields_def field_bytes_map)
  have one: "\<exists>y. ?size f = Inr y \<and> unat (unwrap_or 0 y) = (case f of None \<Rightarrow> 0 | Some v \<Rightarrow> 8 + vsize v)"
    if f: "f \<in> set (event_fields e)" for f
  proof (cases f)
    case (Some v)
    have "8 + vsize v \<le> ev_bytes e"
      using member_le_sum_list [OF f, of "\<lambda>f. case f of None \<Rightarrow> 0 | Some v \<Rightarrow> 8 + vsize v"] Some sum by simp
    then show ?thesis
      using framed_canonical_size_total [of v] free [of v] f Some assms by fastforce
  qed simp
  then obtain g where g: "\<And>f. f \<in> set (event_fields e) \<Longrightarrow> ?size f = Inr (g f) \<and>
      unat (unwrap_or 0 (g f)) = (case f of None \<Rightarrow> 0 | Some v \<Rightarrow> 8 + vsize v)"
    by metis
  then have fs: "traverse ?size (event_fields e) = Inr (map g (event_fields e))"
    by (intro traverse_map_Inr) blast
  have "map (unat \<circ> unwrap_or 0) (map g (event_fields e)) =
      map (\<lambda>f. case f of None \<Rightarrow> 0 | Some v \<Rightarrow> 8 + vsize v) (event_fields e)"
    using g by simp
  then have "unat d0 + sum_list (map (unat \<circ> unwrap_or 0) (map g (event_fields e))) = ev_bytes e"
    unfolding sum d0(2) by (simp only:)
  moreover obtain n :: u64 where "unat n = ev_bytes e" using u64_exists [OF assms] by blast
  ultimately show ?thesis using d0(1) fs assms by (auto simp: event_body_bytes_def checked_sum_fold_Inr)
qed

lemma prepare_events_total:
  "length es \<le> usize_max \<Longrightarrow> \<forall>e \<in> set es. \<exists>bs. encode_value (v_event e) = Inr bs \<Longrightarrow>
    sum_list (map ev_bytes es) < 2 ^ 64 \<Longrightarrow> \<exists>p. prepare_events sha es = Inr p"
proof (induction es rule: rev_induct)
  case Nil
  then show ?case by (simp add: prepare_events_def)
next
  case (snoc e es)
  obtain p where p: "prepare_events sha es = Inr p" using snoc by auto
  note pf = prepare_events_Inr [OF p]
  obtain d where d: "event_digest sha e = Inr d" using snoc.prems by (auto simp: event_digest_def)
  obtain n where n: "event_body_bytes d e = Inr n" using event_body_bytes_total [of e d] snoc.prems by auto
  have lens: "length (pe_cumulative_body_bytes p) = Suc (length es)"
      "length (pe_cumulative_substantive p) = Suc (length es)"
    using pf by (auto simp: prepared_for_def)
  have bytes: "unat (last (pe_cumulative_body_bytes p)) = sum_list (map ev_bytes es)"
    using pf lens last_conv_nth [of "pe_cumulative_body_bytes p"] by (force simp: prepared_for_def)
  have subst: "last (pe_cumulative_substantive p) = length (filter is_substantive es)"
    using pf lens last_conv_nth [of "pe_cumulative_substantive p"] by (force simp: prepared_for_def)
  have "unat (last (pe_cumulative_body_bytes p)) + unat n < 2 ^ 64"
    using bytes event_body_bytes_Inr [OF n] snoc.prems(3) by simp
  then have "\<exists>t. checked_add (last (pe_cumulative_body_bytes p)) n = Some t" by (simp add: checked_add_def)
  moreover have "\<exists>s. usize_checked_add (last (pe_cumulative_substantive p)) (if is_substantive e then 1 else 0) = Some s"
    using subst snoc.prems(1) length_filter_le [of is_substantive es] by (simp add: usize_checked_add_def del: length_filter_le)
  ultimately show ?case
    using p d n lens by (auto simp: prepare_events_def try_fold_append prepare_event_def)
qed

lemma encodableI:
  assumes prep: "prepare_events sha (bu_events buffer) = Inr prepared" and events: "bu_events buffer \<noteq> []"
    and fb: "segment_base_bytes buffer request digest prepared (bu_continues buffer) = Inr fb"
    and cb: "segment_base_bytes buffer request digest prepared (Some AtomId_default) = Inr cb"
  shows "encodable buffer request"
proof -
  have p: "prepared_for sha (bu_events buffer) prepared" using prep by (rule prepare_events_Inr)
  have len: "1 \<le> length (bu_events buffer)" using events by (cases "bu_events buffer") auto
  have es: "take 1 (bu_events buffer) = [hd (bu_events buffer)]" using events by (cases "bu_events buffer") auto
  have base: "base_bytes buffer request (c \<noteq> None) + ev_bytes (hd (bu_events buffer)) < 2 ^ 64"
    if run: "segment_base_bytes buffer request digest prepared c = Inr n" for c n
  proof -
    obtain b size where b: "build_episode_body buffer request digest (take 1 (bu_events buffer)) (take 1 (pe_digests prepared))
        (bu_started_at_us buffer) (rq_ended_at_us request) c = Inr b" and size: "encoded_size_bytes b = Inr size"
      using run len by (auto simp: segment_base_bytes_def bindr_Inr ok_or_Inr lift_Inr slice_to_def split: if_splits)
    have "length (take 1 (pe_digests prepared)) = length (take 1 (bu_events buffer))"
      using prepared_for_length [OF p] by simp
    then show ?thesis
      using build_episode_body_size [OF b] encoded_size_bytes_Inr [OF size] unat_u64_bound [of size] unfolding es by simp
  qed
  have "\<forall>e \<in> set (bu_events buffer). \<exists>bs. encode_value (v_event e) = Inr bs"
    using p by (force simp: prepared_for_def list_all2_conv_all_nth in_set_conv_nth event_digest_def bindr_Inr)
  moreover have "sum_list (map ev_bytes (bu_events buffer)) < 2 ^ 64"
    using p unat_u64_bound [of "pe_cumulative_body_bytes prepared ! length (bu_events buffer)"]
    by (simp add: prepared_for_def)
  ultimately show ?thesis using base [OF fb] base [OF cb] by (simp add: encodable_def)
qed

lemma encodableE:
  assumes "encodable buffer request" "bu_events buffer \<noteq> []" "length (bu_events buffer) \<le> usize_max"
  obtains prepared fb cb where "prepare_events sha (bu_events buffer) = Inr prepared"
    "segment_base_bytes buffer request digest prepared (bu_continues buffer) = Inr fb"
    "segment_base_bytes buffer request digest prepared (Some AtomId_default) = Inr cb"
proof -
  obtain prepared where prep: "prepare_events sha (bu_events buffer) = Inr prepared"
    using prepare_events_total [OF assms(3), of sha] assms(1) unfolding encodable_def by blast
  note total = segment_base_bytes_total [OF prepare_events_Inr [OF prep] assms(2)]
  have cont: "(Some AtomId_default \<noteq> None) = True" by simp
  note parts = assms(1) [unfolded encodable_def, THEN conjunct2, THEN conjunct2]
  show thesis
    using that [OF prep] total [OF parts [THEN conjunct1]]
      total [of request "Some AtomId_default", unfolded cont, OF parts [THEN conjunct2]] by blast
qed

section \<open>The sealing of a route\<close>

text \<open>
  What the atom of a range must be, read off the buffer and the request alone: the events of the
  range with their digests, under the digest of the frozen policy, from the start of the episode or
  of its first event to the end of the episode or of its last, continuing the atom before it.
\<close>

definition range_body ::
  "(byte list \<Rightarrow> Digest32) \<Rightarrow> EpisodeBufferV1 \<Rightarrow> SealEpisodeRequestV1 \<Rightarrow> AtomId option \<Rightarrow> nat \<Rightarrow> nat \<Rightarrow> MemoryAtomBodyV1" where
  "range_body sha buffer request previous s e =
     (let events = events_in (bu_events buffer) s e in
      projr (build_episode_body buffer request (projr (policy_digest sha poc_v1)) events
        (map (projr \<circ> event_digest sha) events)
        (if s = 0 then bu_started_at_us buffer else ev_at_us (hd events))
        (if e = length (bu_events buffer) then rq_ended_at_us request else ev_at_us (last events)) previous))"

text \<open>
  The atoms of a route: each range's body must pass the body validator, whose verdict is the only
  error, and becomes the content-addressed atom that the next range continues.
\<close>

fun seal_route ::
  "(byte list \<Rightarrow> Digest32) \<Rightarrow> EpisodeBufferV1 \<Rightarrow> SealEpisodeRequestV1 \<Rightarrow> AtomId option \<Rightarrow> (nat \<times> nat) list \<Rightarrow>
   SealedEpisodeV1 list result" where
  "seal_route sha buffer request previous [] = Inr []"
| "seal_route sha buffer request previous ((s, e) # route) =
     (let body = range_body sha buffer request previous s e; aid = projr (atom_id sha body) in
      bindr (validate_memory_atom_body sha body poc_v1) (\<lambda>_.
      bindr (seal_route sha buffer request (Some aid) route) (\<lambda>atoms.
      Inr (\<lparr>se_atom_id = aid, se_body = body, se_canonical_size_bytes = of_nat (vsize (v_body body)),
             se_target_size_exceeded = False\<rparr> # atoms))))"

lemma prepared_digests:
  assumes "prepared_for sha (bu_events buffer) prepared"
  shows "take (e - s) (drop s (pe_digests prepared)) = map (projr \<circ> event_digest sha) (events_in (bu_events buffer) s e)"
proof -
  have "pe_digests prepared = map (projr \<circ> event_digest sha) (bu_events buffer)"
    using assms by (auto simp: prepared_for_def list_all2_conv_all_nth intro!: nth_equalityI)
  then show ?thesis by (simp add: events_in_def take_map drop_map)
qed

lemma seal_episode_range_body:
  fixes request :: SealEpisodeRequestV1 and previous :: "AtomId option"
  assumes p: "prepared_for sha (bu_events buffer) prepared" and se: "s < e" "e \<le> length (bu_events buffer)"
  defines "body \<equiv> range_body sha buffer request previous s e"
  shows "seal_episode_range sha buffer request poc_v1 prepared s e previous =
     bindr (validate_memory_atom_body sha body poc_v1) (\<lambda>_.
       Inr \<lparr>se_atom_id = projr (atom_id sha body), se_body = body,
            se_canonical_size_bytes = of_nat (vsize (v_body body)),
            se_target_size_exceeded = (131072 < vsize (v_body body))\<rparr>)"
proof -
  let ?es = "events_in (bu_events buffer) s e" and ?ds = "take (e - s) (drop s (pe_digests prepared))"
  let ?start = "if s = 0 then bu_started_at_us buffer else ev_at_us (hd ?es)"
  let ?stop = "if e = length (bu_events buffer) then rq_ended_at_us request else ev_at_us (last ?es)"
  obtain digest where digest: "policy_digest sha poc_v1 = Inr digest" using policy_digest_poc by blast
  have es: "?es \<noteq> []" using se by (simp add: events_in_def)
  then have start: "(if s = 0 then bu_started_at_us buffer
      else case ?es of [] \<Rightarrow> bu_started_at_us buffer | event # _ \<Rightarrow> ev_at_us event) = ?start"
    by (cases ?es) auto
  have ranges: "get_range (bu_events buffer) s e = Some ?es" "get_range (pe_digests prepared) s e = Some ?ds"
    using se prepared_for_length [OF p] by (auto simp: get_range_def events_in_def)
  have body: "build_episode_body buffer request digest ?es ?ds ?start ?stop previous = Inr body"
    unfolding body_def range_body_def Let_def prepared_digests [OF p] digest
    using es by (simp add: build_episode_body_def)
  have head: "seal_episode_range sha buffer request poc_v1 prepared s e previous =
      bindr (validate_memory_atom_body sha body poc_v1) (\<lambda>_. bindr (encoded_size_bytes body) (\<lambda>n.
      bindr (atom_id sha body) (\<lambda>aid. Inr \<lparr>se_atom_id = aid, se_body = body, se_canonical_size_bytes = n,
        se_target_size_exceeded = (n > 131072)\<rparr>)))"
    using body es unfolding seal_episode_range_def ranges ok_or_simps bindr_simps Let_def start digest
    by (simp only: bindr_simps if_False po_target)
  show ?thesis
  proof (cases "validate_memory_atom_body sha body poc_v1")
    case (Inr u)
    then have wf: "atom_body_wf sha body" by (simp add: validate_memory_atom_body_Inr)
    obtain bs where bs: "body_canonical_bytes body = Inr bs" "length bs \<le> 262144"
      using atom_body_wf_encodes [OF wf] .
    have small: "vsize (v_body body) \<le> 262144" using body_canonical_bytes_length [OF bs(1)] bs(2) by simp
    then have n: "unat (of_nat (vsize (v_body body)) :: u64) = vsize (v_body body)" by (simp add: unat_of_nat)
    then have "encoded_size_bytes body = Inr (of_nat (vsize (v_body body)))"
      using small by (simp add: encoded_size_bytes_iff)
    moreover obtain aid where "atom_id sha body = Inr aid" using bs(1) by (metis atom_id_Inr)
    ultimately show ?thesis using Inr n by (simp add: head word_less_nat_alt)
  qed (simp add: head)
qed

lemma seal_ranges_is_route:
  assumes p: "prepared_for sha (bu_events buffer) prepared"
    and fb: "unat fb = base_bytes buffer request (bu_continues buffer \<noteq> None)"
    and cb: "unat cb = base_bytes buffer request True"
  shows "is_route (segment_ok prepared shared fb cb 131072) n s rs \<Longrightarrow>
    (if s = 0 then prev = bu_continues buffer else prev \<noteq> None) \<Longrightarrow>
    seal_ranges sha buffer request poc_v1 prepared fb cb prev rs = seal_route sha buffer request prev rs"
proof (induction rs arbitrary: s prev)
  case (Cons r rs)
  obtain e where r: "r = (s, e)" and ok: "segment_ok prepared shared fb cb 131072 s e"
    and rest: "is_route (segment_ok prepared shared fb cb 131072) n e rs"
    using Cons.prems(1) by (cases r) auto
  have se: "s < e" "e \<le> length (bu_events buffer)" using ok prepared_for_length [OF p] by (auto simp: segment_ok_def)
  note run = seal_episode_range_body [OF p se, of request prev]
  show ?case
  proof (cases "validate_memory_atom_body sha (range_body sha buffer request prev s e) poc_v1")
    case (Inl err)
    then show ?thesis by (simp add: r run Let_def)
  next
    case (Inr u)
    then obtain x where x: "seal_episode_range sha buffer request poc_v1 prepared s e prev = Inr x" using run by simp
    note budget = seal_range_in_budget [OF p fb cb ok Cons.prems(2) x]
    obtain k m where k: "range_body_bytes prepared s e = Inr k"
      "checked_add (if s = 0 then fb else cb) k = Some m" "se_canonical_size_bytes x = m"
      using budget(2) by blast
    have step: "seal_ranges sha buffer request poc_v1 prepared fb cb prev (r # rs) =
        bindr (seal_ranges sha buffer request poc_v1 prepared fb cb (Some (se_atom_id x)) rs) (\<lambda>xs. Inr (x # xs))"
      using x k budget(1) by (simp add: r Let_def cong del: if_cong)
    have "seal_ranges sha buffer request poc_v1 prepared fb cb (Some (se_atom_id x)) rs =
        seal_route sha buffer request (Some (se_atom_id x)) rs"
      using se by (intro Cons.IH [OF rest]) simp
    then show ?thesis
      unfolding step using x run Inr budget(1) by (auto simp: r Let_def)
  qed
qed simp

section \<open>The sealed chain\<close>

lemma validate_episode_input_events:
  "validate_episode_input sha buffer request policy = Inr u \<Longrightarrow> bu_events buffer \<noteq> []"
  by (auto simp: validate_episode_input_def bindr_Inr split: if_splits)

definition chain_result :: "EpisodeBufferV1 \<Rightarrow> SealedEpisodeV1 list \<Rightarrow> SealedEpisodeChainV1" where
  "chain_result buffer xs = \<lparr>ch_contract_version = ''sealed-episode-chain-v1'',
     ch_source_event_count = length (bu_events buffer), ch_episodes = xs\<rparr>"

text \<open>Once the inputs are accepted, the chain is the sealed ranges of the best route: the size
  model and the closure check never object.\<close>

lemma seal_episode_chain_steps:
  assumes n: "4 * Suc (length (bu_events buffer)) \<le> usize_max"
    and input: "validate_episode_input sha buffer request poc_v1 = Inr ()"
    and prep: "prepare_events sha (bu_events buffer) = Inr prepared"
    and digest: "policy_digest sha poc_v1 = Inr digest"
    and fb: "segment_base_bytes buffer request digest prepared (bu_continues buffer) = Inr fb"
    and cb: "segment_base_bytes buffer request digest prepared (Some AtomId_default) = Inr cb"
  obtains rs where "best_route (range_fits buffer request) (length (bu_events buffer)) 0 rs"
      "seal_episode_chain sha buffer request poc_v1 = bindr
         (lift (seal_ranges sha buffer request poc_v1 prepared fb cb (bu_continues buffer) rs))
         (\<lambda>xs. Inr (chain_result buffer xs))"
      "seal_ranges sha buffer request poc_v1 prepared fb cb (bu_continues buffer) rs =
         seal_route sha buffer request (bu_continues buffer) rs"
      "\<forall>xs. seal_ranges sha buffer request poc_v1 prepared fb cb (bu_continues buffer) rs = Inr xs \<longrightarrow>
         chain_of sha (bu_events buffer) (pe_digests prepared) (bu_continues buffer) rs xs"
  | "\<forall>rs. \<not> is_route (range_fits buffer request) (length (bu_events buffer)) 0 rs"
      "seal_episode_chain sha buffer request poc_v1 = Inl (Err (EpisodeRequiresSplit 131073 131072))"
proof -
  have p: "prepared_for sha (bu_events buffer) prepared" using prep by (rule prepare_events_Inr)
  have wf: "prepared_wf prepared" using prepared_for_wf [OF p n] .
  have fb': "unat fb = base_bytes buffer request (bu_continues buffer \<noteq> None)"
    using segment_base_bytes_Inr [OF fb p] .
  have cb': "unat cb = base_bytes buffer request True" using segment_base_bytes_Inr [OF cb p] by simp
  have events: "bu_events buffer \<noteq> []"
    using input by (rule validate_episode_input_events)
  note fits = segment_ok_range_fits [OF p fb' cb']
  have head: "seal_episode_chain sha buffer request poc_v1 =
     bindr (plan_episode_ranges prepared request fb cb 131072) (\<lambda>ranges.
     bindr (lift (seal_ranges sha buffer request poc_v1 prepared fb cb (bu_continues buffer) ranges)) (\<lambda>episodes.
     bindr (lift (validate_episode_chain_closure sha (chain_result buffer episodes) buffer prepared poc_v1)) (\<lambda>_.
     Inr (chain_result buffer episodes))))"
    by (simp add: seal_episode_chain_def input prep digest fb cb chain_result_def Let_def)
  from plan_episode_ranges_cases [OF wf, of request fb cb 131072] show thesis
  proof cases
    case 2
    have "split_required 131072 = EpisodeRequiresSplit 131073 131072"
      by (simp add: split_required_def saturating_add_def)
    then show thesis
      using 2 prepared_for_length [OF p] head unfolding fits by (intro that(2)) simp_all
  next
    case (1 rs)
    have best: "best_route (range_fits buffer request) (length (bu_events buffer)) 0 rs"
      using 1(2) prepared_for_length [OF p] unfolding fits by simp
    then have route: "is_route (range_fits buffer request) (length (bu_events buffer)) 0 rs"
      by (simp add: best_route_def)
    have start: "if (0 :: nat) = 0 then bu_continues buffer = bu_continues buffer else bu_continues buffer \<noteq> None" by simp
    note seg = route [folded fits]
    have sealed: "chain_of sha (bu_events buffer) (pe_digests prepared) (bu_continues buffer) rs xs"
      if "seal_ranges sha buffer request poc_v1 prepared fb cb (bu_continues buffer) rs = Inr xs" for xs
      using seal_ranges_route [OF p fb' cb' seg start that] .
    have reference: "seal_ranges sha buffer request poc_v1 prepared fb cb (bu_continues buffer) rs =
        seal_route sha buffer request (bu_continues buffer) rs"
      using seal_ranges_is_route [OF p fb' cb' seg start] .
    have closure: "validate_episode_chain_closure sha (chain_result buffer xs) buffer prepared poc_v1 = Inr ()"
      if "seal_ranges sha buffer request poc_v1 prepared fb cb (bu_continues buffer) rs = Inr xs" for xs
    proof -
      have chain: "chain_of sha (bu_events buffer) (pe_digests prepared) (bu_continues buffer) rs xs"
        using sealed [OF that] .
      have "rs \<noteq> []" using route events by auto
      then have "xs \<noteq> []" using chain_of_length [OF chain] by auto
      moreover have "check_chain_closure sha buffer prepared poc_v1 0 (bu_continues buffer) xs = Inr (length (bu_events buffer))"
        using n by (intro check_chain_closure_ok [OF p _ _ chain, where shared = "request_substantive request"
              and fb = fb and cb = cb and t = 131072] route [folded fits]) simp
      ultimately show ?thesis by (simp add: validate_episode_chain_closure_def chain_result_def)
    qed
    have "seal_episode_chain sha buffer request poc_v1 = bindr
         (lift (seal_ranges sha buffer request poc_v1 prepared fb cb (bu_continues buffer) rs))
         (\<lambda>xs. Inr (chain_result buffer xs))"
      unfolding head using 1(1) closure
      by (cases "seal_ranges sha buffer request poc_v1 prepared fb cb (bu_continues buffer) rs") simp_all
    then show thesis using that(1) best reference sealed by blast
  qed
qed

text \<open>
  The verdict on every input, decided by the stages in their order: the policy, the input check, the
  encodability of the input, the existence of a split into fitting ranges, and the validation of the
  atoms of the best split.
\<close>

definition chain_rejected ::
  "(byte list \<Rightarrow> Digest32) \<Rightarrow> EpisodeBufferV1 \<Rightarrow> SealEpisodeRequestV1 \<Rightarrow> PolicyV1 \<Rightarrow> MemoryError \<Rightarrow> bool" where
  "chain_rejected sha buffer request policy err \<longleftrightarrow>
     (if policy \<noteq> poc_v1 then err = PolicyMismatch
      else if \<not> episode_input_ok sha buffer request then validate_episode_input sha buffer request policy = Inl err
      else if \<not> encodable buffer request then encoding_error err
      else if \<nexists>route. is_route (range_fits buffer request) (length (bu_events buffer)) 0 route
      then err = EpisodeRequiresSplit 131073 131072
      else \<exists>route. best_route (range_fits buffer request) (length (bu_events buffer)) 0 route \<and>
        seal_route sha buffer request (bu_continues buffer) route = Inl err)"

definition chain_sealed ::
  "(byte list \<Rightarrow> Digest32) \<Rightarrow> EpisodeBufferV1 \<Rightarrow> SealEpisodeRequestV1 \<Rightarrow> PolicyV1 \<Rightarrow> SealedEpisodeChainV1 \<Rightarrow> bool" where
  "chain_sealed sha buffer request policy chain \<longleftrightarrow> policy = poc_v1 \<and> episode_input_ok sha buffer request \<and>
     encodable buffer request \<and>
     (\<exists>route. best_route (range_fits buffer request) (length (bu_events buffer)) 0 route \<and>
       seal_route sha buffer request (bu_continues buffer) route = Inr (ch_episodes chain) \<and>
       (\<exists>prepared. prepare_events sha (bu_events buffer) = Inr prepared \<and>
         chain_of sha (bu_events buffer) (pe_digests prepared) (bu_continues buffer) route (ch_episodes chain))) \<and>
     chain = chain_result buffer (ch_episodes chain)"

definition chain_verdict ::
  "(byte list \<Rightarrow> Digest32) \<Rightarrow> EpisodeBufferV1 \<Rightarrow> SealEpisodeRequestV1 \<Rightarrow> PolicyV1 \<Rightarrow> SealedEpisodeChainV1 outcome \<Rightarrow> bool" where
  "chain_verdict sha buffer request policy r \<longleftrightarrow> (case r of
     Inr chain \<Rightarrow> chain_sealed sha buffer request policy chain
   | Inl fault \<Rightarrow> (\<exists>err. fault = Err err \<and> chain_rejected sha buffer request policy err))"

lemma seal_episode_chain_run:
  assumes n: "4 * Suc (length (bu_events buffer)) \<le> usize_max"
    and ok: "episode_input_ok sha buffer request" "encodable buffer request"
  shows "chain_verdict sha buffer request poc_v1 (seal_episode_chain sha buffer request poc_v1)"
proof -
  have input: "validate_episode_input sha buffer request poc_v1 = Inr ()"
    using ok(1) by (simp add: validate_episode_input_Inr)
  obtain digest where digest: "policy_digest sha poc_v1 = Inr digest" using policy_digest_poc by blast
  have "bu_events buffer \<noteq> []" "length (bu_events buffer) \<le> usize_max"
    using validate_episode_input_events [OF input] n by simp_all
  then obtain prepared fb cb where prep: "prepare_events sha (bu_events buffer) = Inr prepared"
    and base: "segment_base_bytes buffer request digest prepared (bu_continues buffer) = Inr fb"
      "segment_base_bytes buffer request digest prepared (Some AtomId_default) = Inr cb"
    using encodableE [OF ok(2)] by metis
  from seal_episode_chain_steps [OF n input prep digest base] show ?thesis
  proof cases
    case (1 route)
    then have exists: "\<exists>route. is_route (range_fits buffer request) (length (bu_events buffer)) 0 route"
      by (auto simp: best_route_def)
    show ?thesis
    proof (cases "seal_route sha buffer request (bu_continues buffer) route")
      case (Inl err)
      then show ?thesis using 1 ok exists by (auto simp: chain_verdict_def chain_rejected_def)
    next
      case (Inr atoms)
      then show ?thesis using 1 ok prep by (auto simp: chain_verdict_def chain_sealed_def chain_result_def)
    qed
  next
    case 2
    then show ?thesis using ok by (simp add: chain_verdict_def chain_rejected_def)
  qed
qed

lemma seal_episode_chain_unencodable:
  assumes n: "length (bu_events buffer) \<le> usize_max"
    and ok: "episode_input_ok sha buffer request" and bad: "\<not> encodable buffer request"
  shows "\<exists>err. seal_episode_chain sha buffer request poc_v1 = Inl (Err err) \<and> encoding_error err"
proof -
  have input: "validate_episode_input sha buffer request poc_v1 = Inr ()"
    using ok(1) by (simp add: validate_episode_input_Inr)
  note events = validate_episode_input_events [OF input]
  obtain digest where digest: "policy_digest sha poc_v1 = Inr digest" using policy_digest_poc by blast
  show ?thesis
  proof (cases "prepare_events sha (bu_events buffer)")
    case (Inl err)
    then show ?thesis using prepare_events_Inl [OF Inl] by (simp add: seal_episode_chain_def input)
  next
    case (Inr prepared)
    let ?base = "segment_base_bytes buffer request digest prepared"
    note fails = segment_base_bytes_Inl [OF events prepare_events_Inr [OF Inr], of request digest]
    consider fault where "?base (bu_continues buffer) = Inl fault"
      | fb fault where "?base (bu_continues buffer) = Inr fb" "?base (Some AtomId_default) = Inl fault"
      using encodableI [OF Inr events] bad
      by (cases "?base (bu_continues buffer)"; cases "?base (Some AtomId_default)") blast+
    then show ?thesis using fails by cases (force simp: seal_episode_chain_def input Inr digest)+
  qed
qed

lemma seal_episode_chain_verdict:
  assumes n: "4 * Suc (length (bu_events buffer)) \<le> usize_max"
  shows "chain_verdict sha buffer request policy (seal_episode_chain sha buffer request policy)"
proof (cases "policy = poc_v1")
  case False
  then have "validate_poc_v1 policy = Inl PolicyMismatch" by (simp add: validate_poc_v1_def)
  then show ?thesis using False by (simp add: chain_verdict_def seal_episode_chain_def chain_rejected_def)
next
  case policy: True
  consider "episode_input_ok sha buffer request" "encodable buffer request"
    | "episode_input_ok sha buffer request" "\<not> encodable buffer request"
    | "\<not> episode_input_ok sha buffer request" by blast
  then show ?thesis
  proof cases
    case 1
    then show ?thesis using seal_episode_chain_run [OF n] policy by simp
  next
    case 2
    have "length (bu_events buffer) \<le> usize_max" using n by simp
    from seal_episode_chain_unencodable [OF this 2] show ?thesis
      using 2 by (auto simp: chain_verdict_def chain_rejected_def policy)
  next
    case 3
    then obtain err where "validate_episode_input sha buffer request poc_v1 = Inl err"
      using validate_episode_input_Inr by (metis (full_types) old.sum.exhaust old.unit.exhaust)
    then show ?thesis using 3 by (simp add: chain_verdict_def chain_rejected_def policy seal_episode_chain_def)
  qed
qed

section \<open>One atom or a chain of one\<close>

lemma base_bytes_continued: "base_bytes buffer request c \<le> base_bytes buffer request False + 300"
proof (cases c)
  case True
  have rel: "sum_list (map (\<lambda>r. 8 + vsize (v_relation r)) (episode_relations rs c)) =
      sum_list (map (\<lambda>r. 8 + vsize (v_relation r)) (filter (\<lambda>r. re_kind r \<noteq> Continues) rs)) +
      (case c of None \<Rightarrow> 0 | Some a \<Rightarrow> 8 + vsize (v_relation \<lparr>re_kind = Continues, re_target = AtomId_default\<rparr>))" for rs c
    using relation_bytes_episode [of rs c] unfolding relation_bytes_def by simp
  have "vsize (v_relation \<lparr>re_kind = Continues, re_target = AtomId_default\<rparr>) \<le> 200"
    by (simp add: v_relation_def)
  then show ?thesis using True
    by (simp add: base_bytes_def build_episode_body_def v_body_def v_episode_payload_def rel)
qed simp

lemma seal_episode_Inr:
  "seal_episode sha buffer request policy = Inr x \<longleftrightarrow> policy = poc_v1 \<and>
     validate_episode_input sha buffer request poc_v1 = Inr () \<and>
     (\<exists>prepared. prepare_events sha (bu_events buffer) = Inr prepared \<and>
       seal_episode_range sha buffer request poc_v1 prepared 0 (length (bu_events buffer)) (bu_continues buffer) = Inr x) \<and>
     \<not> se_target_size_exceeded x"
  by (auto simp: seal_episode_def bindr_Inr validate_poc_v1_def)

lemma map_filter_Nil_iff: "List.map_filter f xs = [] \<longleftrightarrow> (\<forall>x \<in> set xs. f x = None)"
  by (induction xs) (auto split: option.splits)

lemma build_episode_body_request:
  "build_episode_body buffer request digest es ds s e c = Inr b \<Longrightarrow>
     bd_outcome b = rq_outcome request \<and> bd_feedback b = rq_feedback request"
  by (auto simp: build_episode_body_def split: if_splits)

lemma seal_episode_range_content:
  assumes x: "seal_episode_range sha buffer request poc_v1 prepared s e c = Inr x"
    and p: "prepared_for sha (bu_events buffer) prepared"
  shows "request_substantive request \<or> list_ex is_substantive (events_in (bu_events buffer) s e)"
proof -
  note sealed = seal_episode_range_Inr [OF x p]
  obtain digest st en where "build_episode_body buffer request digest (events_in (bu_events buffer) s e)
      (take (e - s) (drop s (pe_digests prepared))) st en c = Inr (se_body x)"
    using x by (auto simp: seal_episode_range_def bindr_Inr ok_or_Inr get_range_Some Let_def events_in_def)
  then have req: "bd_outcome (se_body x) = rq_outcome request" "bd_feedback (se_body x) = rq_feedback request"
    using build_episode_body_request by blast+
  have "bd_observations (se_body x) \<noteq> [] \<or> bd_decisions (se_body x) \<noteq> [] \<or> bd_actions (se_body x) \<noteq> []
      \<or> bd_outcome (se_body x) \<noteq> None \<or> bd_feedback (se_body x) \<noteq> []"
    using sealed by (auto simp: sealed_ok_def atom_body_wf_def seals_def episode_wf_def)
  then show ?thesis
    using sealed req by (auto simp: seals_def request_substantive_def list_ex_iff is_substantive_def map_filter_Nil_iff)
qed

lemma best_route_min: "best_route ok n s rs \<Longrightarrow> is_route ok n s rs' \<Longrightarrow> length rs \<le> length rs'"
  by (simp add: best_route_def)

lemma seal_ranges_single:
  assumes p: "prepared_for sha (bu_events buffer) prepared"
    and fb: "unat fb = base_bytes buffer request (bu_continues buffer \<noteq> None)"
    and cb: "unat cb = base_bytes buffer request True"
    and ok: "segment_ok prepared shared fb cb 131072 0 e"
    and x: "seal_episode_range sha buffer request poc_v1 prepared 0 e (bu_continues buffer) = Inr x"
  shows "seal_ranges sha buffer request poc_v1 prepared fb cb (bu_continues buffer) [(0, e)] = Inr [x]"
  using seal_range_in_budget [OF p fb cb ok _ x] x by (auto simp: Let_def)

lemma seal_episode_range_fits:
  assumes x: "seal_episode_range sha buffer request poc_v1 prepared 0 (length (bu_events buffer)) (bu_continues buffer) = Inr x"
    and p: "prepared_for sha (bu_events buffer) prepared" and target: "\<not> se_target_size_exceeded x"
  shows "range_fits buffer request 0 (length (bu_events buffer))"
    and "base_bytes buffer request (bu_continues buffer \<noteq> None) + sum_list (map ev_bytes (bu_events buffer)) \<le> 131072"
proof -
  note sealed = seal_episode_range_Inr [OF x p]
  have all: "events_in (bu_events buffer) 0 (length (bu_events buffer)) = bu_events buffer" by (simp add: events_in_def)
  have "unat (se_canonical_size_bytes x) \<le> 131072" using sealed target by (simp add: sealed_ok_def)
  then show size: "base_bytes buffer request (bu_continues buffer \<noteq> None) + sum_list (map ev_bytes (bu_events buffer)) \<le> 131072"
    using sealed all by simp
  show "range_fits buffer request 0 (length (bu_events buffer))"
    using size sealed seal_episode_range_content [OF x p] unfolding range_fits_def all by simp
qed

lemma seal_episode_chain_single:
  assumes n: "4 * Suc (length (bu_events buffer)) \<le> usize_max"
    and x: "seal_episode sha buffer request poc_v1 = Inr x"
  shows "seal_episode_chain sha buffer request poc_v1 = Inr (chain_result buffer [x])"
proof -
  let ?N = "length (bu_events buffer)"
  obtain prepared where input: "validate_episode_input sha buffer request poc_v1 = Inr ()"
    and prep: "prepare_events sha (bu_events buffer) = Inr prepared"
    and r: "seal_episode_range sha buffer request poc_v1 prepared 0 ?N (bu_continues buffer) = Inr x"
    and target: "\<not> se_target_size_exceeded x"
    using x unfolding seal_episode_Inr by blast
  have p: "prepared_for sha (bu_events buffer) prepared" using prep by (rule prepare_events_Inr)
  note fits = seal_episode_range_fits [OF r p target]
  have events: "bu_events buffer \<noteq> []" using input by (rule validate_episode_input_events)
  obtain digest where digest: "policy_digest sha poc_v1 = Inr digest" using policy_digest_poc by blast
  have hd: "ev_bytes (hd (bu_events buffer)) \<le> sum_list (map ev_bytes (bu_events buffer))"
    using events by (cases "bu_events buffer") auto
  obtain fb where fb: "segment_base_bytes buffer request digest prepared (bu_continues buffer) = Inr fb"
    using segment_base_bytes_total [OF p events, of request "bu_continues buffer"] fits(2) hd by fastforce
  have "base_bytes buffer request True \<le> base_bytes buffer request (bu_continues buffer \<noteq> None) + 300"
    using base_bytes_continued [of buffer request True] by (cases "bu_continues buffer") simp_all
  then obtain cb where cb: "segment_base_bytes buffer request digest prepared (Some AtomId_default) = Inr cb"
    using segment_base_bytes_total [OF p events, of request "Some AtomId_default"] fits(2) hd by fastforce
  have fb': "unat fb = base_bytes buffer request (bu_continues buffer \<noteq> None)"
    using segment_base_bytes_Inr [OF fb p] .
  have cb': "unat cb = base_bytes buffer request True" using segment_base_bytes_Inr [OF cb p] by simp
  have route: "is_route (range_fits buffer request) ?N 0 [(0, ?N)]" using fits(1) by simp
  from seal_episode_chain_steps [OF n input prep digest fb cb] show ?thesis
  proof cases
    case (1 rs)
    have "length rs \<le> length [(0 :: nat, ?N)]" by (rule best_route_min [OF 1(1) route])
    then have "length rs \<le> 1" by simp
    moreover have is_r: "is_route (range_fits buffer request) ?N 0 rs" using 1(1) by (simp add: best_route_def)
    ultimately have rs: "rs = [(0, ?N)]" using events by (cases rs) auto
    have "segment_ok prepared (request_substantive request) fb cb 131072 0 ?N"
      using fits(1) segment_ok_range_fits [OF p fb' cb'] by simp
    from seal_ranges_single [OF p fb' cb' this r] show ?thesis using 1(2) rs by simp
  next
    case 2
    then show ?thesis using route by blast
  qed
qed

lemma seal_episode_chain_single_conv:
  assumes n: "4 * Suc (length (bu_events buffer)) \<le> usize_max"
    and c: "seal_episode_chain sha buffer request poc_v1 = Inr (chain_result buffer [x])"
  shows "seal_episode sha buffer request poc_v1 = Inr x"
proof -
  let ?N = "length (bu_events buffer)"
  obtain prepared digest fb cb where input: "validate_episode_input sha buffer request poc_v1 = Inr ()"
    and prep: "prepare_events sha (bu_events buffer) = Inr prepared"
    and rest: "policy_digest sha poc_v1 = Inr digest"
      "segment_base_bytes buffer request digest prepared (bu_continues buffer) = Inr fb"
      "segment_base_bytes buffer request digest prepared (Some AtomId_default) = Inr cb"
    using c by (auto simp: seal_episode_chain_def bindr_Inr lift_Inr)
  from seal_episode_chain_steps [OF n input prep rest] show ?thesis
  proof cases
    case (1 rs)
    have "bindr (lift (seal_ranges sha buffer request poc_v1 prepared fb cb (bu_continues buffer) rs))
        (\<lambda>xs. Inr (chain_result buffer xs)) = Inr (chain_result buffer [x])"
      using c unfolding 1(2) .
    then have sealed: "seal_ranges sha buffer request poc_v1 prepared fb cb (bu_continues buffer) rs = Inr [x]"
      by (auto simp: bindr_Inr lift_Inr chain_result_def)
    then have chain: "chain_of sha (bu_events buffer) (pe_digests prepared) (bu_continues buffer) rs [x]"
      using 1(4) by blast
    obtain s e where rs: "rs = [(s, e)]" using chain_of_length [OF chain] by (cases rs) auto
    have se: "s = 0" "e = ?N" using 1(1) rs by (auto simp: best_route_def)
    have "seal_episode_range sha buffer request poc_v1 prepared 0 ?N (bu_continues buffer) = Inr x"
      "\<not> se_target_size_exceeded x"
      using sealed by (auto simp: rs se bindr_Inr Let_def split: if_splits)
    then show ?thesis using input prep by (simp add: seal_episode_Inr)
  next
    case 2
    then show ?thesis using c by simp
  qed
qed

section \<open>A concrete episode\<close>

definition sample_buffer :: EpisodeBufferV1 where
  "sample_buffer = \<lparr>bu_scope = bd_scope (sample_body ''t''), bu_started_at_us = 5,
     bu_events = [sample_event 7], bu_continues = None\<rparr>"

definition sample_request :: SealEpisodeRequestV1 where
  "sample_request = \<lparr>rq_as_of_us = 12, rq_ended_at_us = 11, rq_trigger = ''done'', rq_seal_reason = Checkpoint,
     rq_goal = None, rq_plan = [], rq_internal_state_before = fmempty, rq_internal_state_after = fmempty,
     rq_rejected_alternatives = [], rq_outcome = None, rq_feedback = [],
     rq_formation_signals = FormationSignalsV1_default, rq_topic_keys = {||}, rq_entity_ids = {||},
     rq_outcome_class = None, rq_goal_key = None, rq_retention_permission = SemanticAllowed,
     rq_artifacts = [], rq_relations = []\<rparr>"

lemma sample_events [simp]: "bu_events sample_buffer = [sample_event 7]"
  by (simp add: sample_buffer_def)

lemma sample_prepared: "\<exists>p. prepare_events sha [sample_event 7] = Inr p"
  by (rule sample_event_prepared [where ob = "\<lparr>ob_at_us = 7, ob_source = ''test'', ob_content = ''seen'',
        ob_artifact_digest = None\<rparr>"])
    (simp_all add: sample_event_def sample_body_def v_event_def v_scope_def v_observation_def)

lemma sample_input: "validate_episode_input sha sample_buffer sample_request poc_v1 = Inr ()"
  by (simp add: validate_episode_input_def sample_buffer_def sample_request_def sample_body_def validate_scope_def
      sample_event_def seal_validate_artifacts_def is_substantive_def checked_add_def)

definition sample_sealed_body :: "Digest32 \<Rightarrow> Digest32 \<Rightarrow> MemoryAtomBodyV1" where
  "sample_sealed_body digest d = (case build_episode_body sample_buffer sample_request digest [sample_event 7] [d] 5 11 None of
     Inr b \<Rightarrow> b | Inl _ \<Rightarrow> sample_body ''t'')"

lemma sorted_list_of_fset_empty [simp]: "sorted_list_of_fset {||} = []"
  by (simp add: sorted_list_of_fset.rep_eq)

lemma sample_sealed_body_wf:
  assumes "policy_digest sha poc_v1 = Inr digest"
  shows "atom_body_wf sha (sample_sealed_body digest d)"
    and "vsize (v_body (sample_sealed_body digest d)) \<le> 4000"
proof -
  show "vsize (v_body (sample_sealed_body digest d)) \<le> 4000"
    by (simp add: sample_sealed_body_def build_episode_body_def sample_buffer_def sample_request_def sample_event_def
        sample_body_def v_struct_defs episode_relations_def FormationSignalsV1_default_def
        sorted_list_of_fmap_def)
  then show "atom_body_wf sha (sample_sealed_body digest d)"
    using assms
    by (simp add: atom_body_wf_def sample_sealed_body_def build_episode_body_def sample_buffer_def sample_request_def
        sample_event_def sample_body_def scope_wf_def observations_wf_def artifacts_wf_def episode_relations_def
        episode_wf_def relation_targets_def option_list_def exact_wf_def)
qed

lemma sample_seal: "\<exists>x. seal_episode sha sample_buffer sample_request poc_v1 = Inr x"
proof -
  obtain digest where digest: "policy_digest sha poc_v1 = Inr digest" using policy_digest_poc by blast
  obtain p where p: "prepare_events sha [sample_event 7] = Inr p" using sample_prepared by blast
  have pf: "prepared_for sha [sample_event 7] p" using prepare_events_Inr [OF p] .
  then obtain d where d: "pe_digests p = [d]"
    using prepared_for_length [OF pf] by (cases "pe_digests p") auto
  let ?b = "sample_sealed_body digest d"
  note wf = sample_sealed_body_wf [OF digest, of d]
  have b: "build_episode_body sample_buffer sample_request digest [sample_event 7] [d] 5 11 None = Inr ?b"
    by (simp add: sample_sealed_body_def build_episode_body_def)
  obtain n where n: "encoded_size_bytes ?b = Inr n" "unat n = vsize (v_body ?b)"
    using wf(2) u64_exists [of "vsize (v_body ?b)"] by (auto simp: encoded_size_bytes_iff)
  obtain a where a: "atom_id sha ?b = Inr a"
    using atom_body_wf_encodes [OF wf(1)] by (metis atom_id_Inr)
  have fields: "bu_started_at_us sample_buffer = 5" "bu_continues sample_buffer = None" "rq_ended_at_us sample_request = 11"
    by (simp_all add: sample_buffer_def sample_request_def)
  have "\<not> n > 131072" using n wf(2) by (simp add: word_less_nat_alt)
  then have "seal_episode sha sample_buffer sample_request poc_v1 =
      Inr \<lparr>se_atom_id = a, se_body = ?b, se_canonical_size_bytes = n, se_target_size_exceeded = False\<rparr>"
    unfolding seal_episode_Inr
    using sample_input p n(1) a b d digest fields validate_memory_atom_body_Inr [of sha ?b] wf(1)
    by (simp add: seal_episode_range_def get_range_def Let_def)
  then show ?thesis by blast
qed

lemma chain_sealed_closed:
  assumes "chain_sealed sha buffer request policy chain"
  shows "chain_closed sha buffer (ch_episodes chain)"
    and "list_all (\<lambda>x. sealed_ok sha x \<and> \<not> se_target_size_exceeded x) (ch_episodes chain)"
proof -
  obtain prepared route where prep: "prepare_events sha (bu_events buffer) = Inr prepared"
    and best: "best_route (range_fits buffer request) (length (bu_events buffer)) 0 route"
    and chain: "chain_of sha (bu_events buffer) (pe_digests prepared) (bu_continues buffer) route (ch_episodes chain)"
    using assms by (auto simp: chain_sealed_def)
  show "chain_closed sha buffer (ch_episodes chain)"
  proof (rule chain_of_closed [OF prepare_events_Inr [OF prep] _ _ chain])
    show "a < b \<and> b \<le> length (bu_events buffer)" if "range_fits buffer request a b" for a b
      using that by (simp add: range_fits_def)
    show "is_route (range_fits buffer request) (length (bu_events buffer)) 0 route"
      using best by (simp add: best_route_def)
  qed
  show "list_all (\<lambda>x. sealed_ok sha x \<and> \<not> se_target_size_exceeded x) (ch_episodes chain)"
    using chain_of_sealed [OF chain] by (auto simp: list_all_iff)
qed

text \<open>
  C27: sealing a chain never panics and its result is determined.  An input is rejected exactly
  when a stage rejects it, the first such stage naming the error: another policy than the frozen
  one; an input that is not a well-formed episode, with the input check's error; one whose sizes
  have no 64-bit encoding; a stream that no split into fitting ranges serves; or the body of a
  range of the best split that the body validator refuses, with the validator's error.  Otherwise
  the chain is, atom by atom, the sealing of the best split (the fewest ranges, the latest ends):
  each atom holds the body that its range of the buffer determines, under its own content address,
  and continues the atom before it.  So the chain preserves the event stream (digests,
  observations, interpretations, beliefs, decisions and actions, in order), and its atoms are
  well-formed, linked and within the target size.  The planner's size model and the closure check
  never fail.
\<close>

theorem seal_episode_chain_exact:
  assumes "4 * Suc (length (bu_events buffer)) \<le> usize_max"
  shows "case seal_episode_chain sha buffer request policy of
      Inr chain \<Rightarrow> policy = poc_v1 \<and> episode_input_ok sha buffer request \<and> encodable buffer request \<and>
        (\<exists>route atoms. best_route (range_fits buffer request) (length (bu_events buffer)) 0 route \<and>
          seal_route sha buffer request (bu_continues buffer) route = Inr atoms \<and>
          chain = \<lparr>ch_contract_version = ''sealed-episode-chain-v1'',
            ch_source_event_count = length (bu_events buffer), ch_episodes = atoms\<rparr> \<and>
          length atoms = length route) \<and>
        chain_closed sha buffer (ch_episodes chain) \<and>
        list_all (\<lambda>x. sealed_ok sha x \<and> \<not> se_target_size_exceeded x) (ch_episodes chain)
    | Inl fault \<Rightarrow> \<exists>err. fault = Err err \<and>
        (if policy \<noteq> poc_v1 then err = PolicyMismatch
         else if \<not> episode_input_ok sha buffer request then validate_episode_input sha buffer request policy = Inl err
         else if \<not> encodable buffer request then \<exists>message. err = CanonicalEncoding message
         else if \<nexists>route. is_route (range_fits buffer request) (length (bu_events buffer)) 0 route
         then err = EpisodeRequiresSplit 131073 131072
         else \<exists>route. best_route (range_fits buffer request) (length (bu_events buffer)) 0 route \<and>
           seal_route sha buffer request (bu_continues buffer) route = Inl err)"
proof (cases "seal_episode_chain sha buffer request policy")
  case (Inl fault)
  then show ?thesis
    using seal_episode_chain_verdict [OF assms, of sha request policy]
    unfolding chain_verdict_def chain_rejected_def encoding_error_def Inl sum.case by (simp only:)
next
  case (Inr chain)
  then have sealed: "chain_sealed sha buffer request policy chain"
    using seal_episode_chain_verdict [OF assms, of sha request policy] by (simp add: chain_verdict_def)
  then obtain prepared :: PreparedEpisodeEvents and route where route: "best_route (range_fits buffer request) (length (bu_events buffer)) 0 route"
    "seal_route sha buffer request (bu_continues buffer) route = Inr (ch_episodes chain)"
    and chain: "chain_of sha (bu_events buffer) (pe_digests prepared) (bu_continues buffer) route (ch_episodes chain)"
    unfolding chain_sealed_def by (elim conjE exE) (rule that)
  have accepted: "policy = poc_v1" "episode_input_ok sha buffer request" "encodable buffer request"
    and shape: "chain = \<lparr>ch_contract_version = ''sealed-episode-chain-v1'',
      ch_source_event_count = length (bu_events buffer), ch_episodes = ch_episodes chain\<rparr>"
    by (rule sealed [unfolded chain_sealed_def chain_result_def, THEN conjunct1]
        sealed [unfolded chain_sealed_def chain_result_def, THEN conjunct2, THEN conjunct1]
        sealed [unfolded chain_sealed_def chain_result_def, THEN conjunct2, THEN conjunct2, THEN conjunct1]
        sealed [unfolded chain_sealed_def chain_result_def, THEN conjunct2, THEN conjunct2, THEN conjunct2, THEN conjunct2])+
  show ?thesis
    unfolding Inr sum.case
    by (intro conjI exI [of _ route] exI [of _ "ch_episodes chain"] accepted route shape chain_of_length [OF chain]
        chain_sealed_closed [OF sealed])
qed

theorem seal_episode_chain_exact_witness:
  "\<exists>chain route atoms. seal_episode_chain (\<lambda>_. Digest32_ZERO) sample_buffer sample_request poc_v1 = Inr chain \<and>
     chain_closed (\<lambda>_. Digest32_ZERO) sample_buffer (ch_episodes chain) \<and>
     best_route (range_fits sample_buffer sample_request) 1 0 route \<and>
     seal_route (\<lambda>_. Digest32_ZERO) sample_buffer sample_request None route = Inr atoms \<and> ch_episodes chain = atoms"
proof -
  have n: "4 * Suc (length (bu_events sample_buffer)) \<le> usize_max" by (simp add: usize_max_def)
  have one: "length (bu_events sample_buffer) = 1" "bu_continues sample_buffer = None"
    by (simp_all add: sample_buffer_def)
  obtain x where "seal_episode (\<lambda>_. Digest32_ZERO) sample_buffer sample_request poc_v1 = Inr x"
    using sample_seal by blast
  from seal_episode_chain_single [OF n this]
  have run: "seal_episode_chain (\<lambda>_. Digest32_ZERO) sample_buffer sample_request poc_v1
      = Inr (chain_result sample_buffer [x])" .
  from seal_episode_chain_exact [OF n, where sha = "\<lambda>_. Digest32_ZERO" and request = sample_request
      and policy = poc_v1, unfolded run sum.case one]
  show ?thesis using run by auto
qed

text \<open>
  the two entry points agree: sealing as one atom succeeds with an atom exactly when sealing
  as a chain succeeds with that atom alone.
\<close>

theorem seal_episode_is_chain_of_one:
  assumes "4 * Suc (length (bu_events buffer)) \<le> usize_max"
  shows "seal_episode sha buffer request policy = Inr x \<longleftrightarrow>
    seal_episode_chain sha buffer request policy = Inr \<lparr>ch_contract_version = ''sealed-episode-chain-v1'',
      ch_source_event_count = length (bu_events buffer), ch_episodes = [x]\<rparr>"
proof (cases "policy = poc_v1")
  case True
  show ?thesis
    unfolding True chain_result_def [symmetric]
    using seal_episode_chain_single [OF assms] seal_episode_chain_single_conv [OF assms] by (rule iffI)
next
  case False
  then show ?thesis
    by (simp add: seal_episode_def seal_episode_chain_def validate_poc_v1_def)
qed

theorem seal_episode_is_chain_of_one_witness:
  "\<exists>x. seal_episode_chain (\<lambda>_. Digest32_ZERO) sample_buffer sample_request poc_v1 =
     Inr \<lparr>ch_contract_version = ''sealed-episode-chain-v1'', ch_source_event_count = 1, ch_episodes = [x]\<rparr>"
proof -
  have n: "4 * Suc (length (bu_events sample_buffer)) \<le> usize_max" by (simp add: usize_max_def)
  obtain x where "seal_episode (\<lambda>_. Digest32_ZERO) sample_buffer sample_request poc_v1 = Inr x"
    using sample_seal by blast
  from seal_episode_is_chain_of_one [OF n, of "\<lambda>_. Digest32_ZERO" sample_request poc_v1 x, THEN iffD1, OF this]
  show ?thesis unfolding sample_events by (intro exI [of _ x]) simp
qed

end
