(* ===== verification/Plan.thy ===== *)
theory Plan
  imports Chain
begin

text \<open>
  The data of \<open>retirement.rs\<close>: cohort snapshots, retirement plans, their decisions and projected
  post-state, with the serialised forms and digests that bind them.
\<close>

section \<open>Snapshots, decisions, plans\<close>

definition INPUT_HASH_DOMAIN :: "byte list" where
  "INPUT_HASH_DOMAIN = str_bytes ''naome-memory:retirement-input:v1'' @ [0]"

definition POPULATION_HASH_DOMAIN :: "byte list" where
  "POPULATION_HASH_DOMAIN = str_bytes ''naome-memory:lottery-population:v1'' @ [0]"

definition PLAN_HASH_DOMAIN :: "byte list" where
  "PLAN_HASH_DOMAIN = str_bytes ''naome-memory:retirement-plan:v1'' @ [0]"

definition STATE_HASH_DOMAIN :: "byte list" where
  "STATE_HASH_DOMAIN = str_bytes ''naome-memory:projected-state:v1'' @ [0]"

definition DECISIONS_HASH_DOMAIN :: "byte list" where
  "DECISIONS_HASH_DOMAIN = str_bytes ''naome-memory:retirement-decisions:v1'' @ [0]"

definition PROVENANCE_HASH_DOMAIN :: "byte list" where
  "PROVENANCE_HASH_DOMAIN = str_bytes ''naome-memory:provenance:v1'' @ [0]"

definition MICROSECONDS_PER_DAY :: u64 where
  "MICROSECONDS_PER_DAY = 86400000000"

record RetirementSnapshotV1 =
  sn_contract_version :: string
  sn_memory_space_id :: string
  sn_cohort_day :: u64
  sn_as_of_us :: u64
  sn_atoms :: "RetirementCandidateV1 list"

record PlannedSemanticAtomV1 =
  ps_atom_id :: AtomId
  ps_body_digest :: Digest32
  ps_canonical_size_bytes :: u64
  ps_body :: MemoryAtomBodyV1

datatype SemanticCandidateDispositionV1 =
    Selected | SkippedAtomHardLimit | SkippedCountBudget | SkippedByteBudget

record SemanticCandidateDecisionV1 =
  sd_atom_id :: AtomId
  sd_source_ids :: "AtomId list"
  sd_score :: ConsolidationScoreV1
  sd_canonical_size_bytes :: u64
  sd_disposition :: SemanticCandidateDispositionV1

record RetirementDecisionV1 =
  rd_atom_id :: AtomId
  rd_semantic_atom_ids :: "AtomId list"
  rd_exact_retained :: bool
  rd_exact_artifact_digests :: "Digest32 list"
  rd_forget_episode_body :: bool

record RetirementPostStateAtomV1 =
  pa_atom_id :: AtomId
  pa_atom_kind :: MemoryKindV1
  pa_repository_id :: "string option"
  pa_task_id :: "string option"
  pa_agent_id :: "string option"
  pa_session_id :: "string option"
  pa_recorded_at_us :: u64
  pa_header_body_digest :: Digest32
  pa_header_body_bytes :: u64
  pa_retention_permission :: RetentionPermissionV1
  pa_provenance_digest :: Digest32
  pa_stored_body_digest :: "Digest32 option"
  pa_retention_tier :: RetentionTierV1
  pa_content_status :: ContentStatusV1
  pa_expires_at_us :: "u64 option"
  pa_superseded_by :: "AtomId option"
  pa_feedback_positive :: u64
  pa_feedback_negative :: u64
  pa_retrieval_count :: u64
  pa_retirement_run_bound :: bool
  pa_search_projection_present :: bool
  pa_pinned_artifact_digests :: "Digest32 list"

record RetirementPostStateV1 =
  pp_memory_space_id :: string
  pp_source_atoms :: "RetirementPostStateAtomV1 list"
  pp_semantic_atoms :: "RetirementPostStateAtomV1 list"

record RetirementPlanV1 =
  pn_contract_version :: string
  pn_policy_id :: string
  pn_policy_digest :: Digest32
  pn_seed :: Seed32
  pn_memory_space_id :: string
  pn_cohort_day :: u64
  pn_as_of_us :: u64
  pn_input_set_digest :: Digest32
  pn_rng_identifier :: string
  pn_episodic_population_digest :: Digest32
  pn_episodic_population_count :: usize
  pn_episodic_winner_budget :: usize
  pn_episodic_winner_bytes :: u64
  pn_semantic_count_budget :: usize
  pn_semantic_body_bytes :: u64
  pn_semantic_decisions :: "SemanticCandidateDecisionV1 list"
  pn_semantic_atoms :: "PlannedSemanticAtomV1 list"
  pn_episodic_winners :: "AtomId list"
  pn_decisions :: "RetirementDecisionV1 list"
  pn_projected_post_state :: RetirementPostStateV1
  pn_projected_state_digest :: Digest32

section \<open>Serialised forms\<close>

fun v_disposition :: "SemanticCandidateDispositionV1 \<Rightarrow> Value" where
  "v_disposition Selected = VString ''selected''"
| "v_disposition SkippedAtomHardLimit = VString ''skipped_atom_hard_limit''"
| "v_disposition SkippedCountBudget = VString ''skipped_count_budget''"
| "v_disposition SkippedByteBudget = VString ''skipped_byte_budget''"

definition v_planned_semantic :: "PlannedSemanticAtomV1 \<Rightarrow> Value" where
  "v_planned_semantic x = VObject [
     (''atom_id'', v_atom_id (ps_atom_id x)),
     (''body_digest'', v_digest (ps_body_digest x)),
     (''canonical_size_bytes'', v_u64 (ps_canonical_size_bytes x)),
     (''body'', v_body (ps_body x))]"

definition v_semantic_decision :: "SemanticCandidateDecisionV1 \<Rightarrow> Value" where
  "v_semantic_decision x = VObject [
     (''atom_id'', v_atom_id (sd_atom_id x)),
     (''source_ids'', v_vec v_atom_id (sd_source_ids x)),
     (''score'', v_score (sd_score x)),
     (''canonical_size_bytes'', v_u64 (sd_canonical_size_bytes x)),
     (''disposition'', v_disposition (sd_disposition x))]"

definition v_decision :: "RetirementDecisionV1 \<Rightarrow> Value" where
  "v_decision x = VObject [
     (''atom_id'', v_atom_id (rd_atom_id x)),
     (''semantic_atom_ids'', v_vec v_atom_id (rd_semantic_atom_ids x)),
     (''exact_retained'', VBool (rd_exact_retained x)),
     (''exact_artifact_digests'', v_vec v_digest (rd_exact_artifact_digests x)),
     (''forget_episode_body'', VBool (rd_forget_episode_body x))]"

definition v_post_atom :: "RetirementPostStateAtomV1 \<Rightarrow> Value" where
  "v_post_atom x = VObject [
     (''atom_id'', v_atom_id (pa_atom_id x)),
     (''atom_kind'', v_kind (pa_atom_kind x)),
     (''repository_id'', v_option VString (pa_repository_id x)),
     (''task_id'', v_option VString (pa_task_id x)),
     (''agent_id'', v_option VString (pa_agent_id x)),
     (''session_id'', v_option VString (pa_session_id x)),
     (''recorded_at_us'', v_u64 (pa_recorded_at_us x)),
     (''header_body_digest'', v_digest (pa_header_body_digest x)),
     (''header_body_bytes'', v_u64 (pa_header_body_bytes x)),
     (''retention_permission'', v_permission (pa_retention_permission x)),
     (''provenance_digest'', v_digest (pa_provenance_digest x)),
     (''stored_body_digest'', v_option v_digest (pa_stored_body_digest x)),
     (''retention_tier'', v_tier (pa_retention_tier x)),
     (''content_status'', v_content_status (pa_content_status x)),
     (''expires_at_us'', v_option v_u64 (pa_expires_at_us x)),
     (''superseded_by'', v_option v_atom_id (pa_superseded_by x)),
     (''feedback_positive'', v_u64 (pa_feedback_positive x)),
     (''feedback_negative'', v_u64 (pa_feedback_negative x)),
     (''retrieval_count'', v_u64 (pa_retrieval_count x)),
     (''retirement_run_bound'', VBool (pa_retirement_run_bound x)),
     (''search_projection_present'', VBool (pa_search_projection_present x)),
     (''pinned_artifact_digests'', v_vec v_digest (pa_pinned_artifact_digests x))]"

definition v_post_state :: "RetirementPostStateV1 \<Rightarrow> Value" where
  "v_post_state x = VObject [
     (''memory_space_id'', VString (pp_memory_space_id x)),
     (''source_atoms'', v_vec v_post_atom (pp_source_atoms x)),
     (''semantic_atoms'', v_vec v_post_atom (pp_semantic_atoms x))]"

definition v_plan :: "RetirementPlanV1 \<Rightarrow> Value" where
  "v_plan x = VObject [
     (''contract_version'', VString (pn_contract_version x)),
     (''policy_id'', VString (pn_policy_id x)),
     (''policy_digest'', v_digest (pn_policy_digest x)),
     (''seed'', v_seed (pn_seed x)),
     (''memory_space_id'', VString (pn_memory_space_id x)),
     (''cohort_day'', v_u64 (pn_cohort_day x)),
     (''as_of_us'', v_u64 (pn_as_of_us x)),
     (''input_set_digest'', v_digest (pn_input_set_digest x)),
     (''rng_identifier'', VString (pn_rng_identifier x)),
     (''episodic_population_digest'', v_digest (pn_episodic_population_digest x)),
     (''episodic_population_count'', v_usize (pn_episodic_population_count x)),
     (''episodic_winner_budget'', v_usize (pn_episodic_winner_budget x)),
     (''episodic_winner_bytes'', v_u64 (pn_episodic_winner_bytes x)),
     (''semantic_count_budget'', v_usize (pn_semantic_count_budget x)),
     (''semantic_body_bytes'', v_u64 (pn_semantic_body_bytes x)),
     (''semantic_decisions'', v_vec v_semantic_decision (pn_semantic_decisions x)),
     (''semantic_atoms'', v_vec v_planned_semantic (pn_semantic_atoms x)),
     (''episodic_winners'', v_vec v_atom_id (pn_episodic_winners x)),
     (''decisions'', v_vec v_decision (pn_decisions x)),
     (''projected_post_state'', v_post_state (pn_projected_post_state x)),
     (''projected_state_digest'', v_digest (pn_projected_state_digest x))]"

text \<open>The input authority binds a candidate by its digest and mutable state.\<close>

definition v_input_candidate :: "RetirementCandidateV1 \<Rightarrow> Value" where
  "v_input_candidate x = VObject [
     (''atom_id'', v_atom_id (rc_atom_id x)),
     (''body_digest'', v_digest (rc_body_digest x)),
     (''state'', v_state (rc_state x)),
     (''integrity'', v_integrity (rc_integrity x)),
     (''exact_package_bytes'', v_u64 (rc_exact_package_bytes x))]"

definition v_input_authority :: "RetirementSnapshotV1 \<Rightarrow> RetirementCandidateV1 list \<Rightarrow> Value" where
  "v_input_authority s atoms = VObject [
     (''contract_version'', VString (sn_contract_version s)),
     (''memory_space_id'', VString (sn_memory_space_id s)),
     (''cohort_day'', v_u64 (sn_cohort_day s)),
     (''as_of_us'', v_u64 (sn_as_of_us s)),
     (''atoms'', v_vec v_input_candidate atoms)]"

section \<open>Digests\<close>

definition digest_value :: "(byte list \<Rightarrow> Digest32) \<Rightarrow> byte list \<Rightarrow> Value \<Rightarrow> Digest32 result" where
  "digest_value sha domain v = bindr (encode_value v) (\<lambda>bytes. Inr (hash_prefixed sha domain bytes))"

definition post_state_digest :: "(byte list \<Rightarrow> Digest32) \<Rightarrow> RetirementPostStateV1 \<Rightarrow> Digest32 result" where
  "post_state_digest sha s = digest_value sha STATE_HASH_DOMAIN (v_post_state s)"

definition plan_digest :: "(byte list \<Rightarrow> Digest32) \<Rightarrow> RetirementPlanV1 \<Rightarrow> Digest32 result" where
  "plan_digest sha p = digest_value sha PLAN_HASH_DOMAIN (v_plan p)"

definition decision_digest :: "(byte list \<Rightarrow> Digest32) \<Rightarrow> RetirementPlanV1 \<Rightarrow> Digest32 result" where
  "decision_digest sha p = digest_value sha DECISIONS_HASH_DOMAIN (v_vec v_decision (pn_decisions p))"

definition retirement_input_digest :: "(byte list \<Rightarrow> Digest32) \<Rightarrow> RetirementSnapshotV1 \<Rightarrow> Digest32 result" where
  "retirement_input_digest sha s =
     digest_value sha INPUT_HASH_DOMAIN (v_input_authority s (sort_key rc_atom_id (sn_atoms s)))"

lemma digest_value_Inr:
  "digest_value sha domain v = Inr d \<longleftrightarrow> (\<exists>bs. encode_value v = Inr bs \<and> d = sha (domain @ bs))"
  by (auto simp: digest_value_def bindr_Inr hash_prefixed_def)

end
