(* ===== verification/Consensus.thy ===== *)
theory Consensus
  imports Plan
begin

text \<open>
  The consensus functions of \<open>retirement.rs\<close>: a value enters a semantic atom when enough source
  atoms agree on it.  The counting maps are finite maps; iterating one visits its keys in order.
\<close>

section \<open>Counting\<close>

text \<open>\<open>*counts.entry(value).or_default() += 1\<close> for every value of an iterator.\<close>

definition count_entry :: "'k \<Rightarrow> ('k, usize) fmap \<Rightarrow> ('k, usize) fmap" where
  "count_entry k m = fmupd k (unwrap_or 0 (fmlookup m k) + 1) m"

definition count_values :: "'k list \<Rightarrow> ('k, usize) fmap" where
  "count_values ks = fold count_entry ks fmempty"

definition consensus_required :: "usize \<Rightarrow> PolicyV1 \<Rightarrow> usize" where
  "consensus_required n policy =
     (let numerator = of_nat n * ucast (po_consensus_numerator policy) :: u128
      in unwrap_or usize_max (usize_of_u128 (u128_div_ceil numerator (ucast (po_consensus_denominator policy)))))"

definition consensus_optional :: "string list \<Rightarrow> usize \<Rightarrow> string option" where
  "consensus_optional values required =
     map_option fst (List.find (\<lambda>(value, votes). required \<le> votes)
       (sorted_list_of_fmap (count_values (filter (\<lambda>v. v \<noteq> '''') values))))"

definition consensus_strings :: "string list \<Rightarrow> usize \<Rightarrow> string list" where
  "consensus_strings values required =
     map fst (filter (\<lambda>(_, votes). required \<le> votes)
       (sorted_list_of_fmap (count_values (filter (\<lambda>v. v \<noteq> '''') values))))"

text \<open>Each source votes once for each distinct value of its list.\<close>

definition consensus_body_strings ::
  "MemoryAtomBodyV1 list \<Rightarrow> usize \<Rightarrow> (MemoryAtomBodyV1 \<Rightarrow> string list) \<Rightarrow> string list" where
  "consensus_body_strings bodies required values =
     map fst (filter (\<lambda>(_, votes). required \<le> votes)
       (sorted_list_of_fmap (count_values
         (concat (map (\<lambda>body. sorted_list_of_fset (fset_of_list (filter (\<lambda>v. v \<noteq> '''') (values body)))) bodies)))))"

definition consensus_set :: "string list \<Rightarrow> usize \<Rightarrow> string fset" where
  "consensus_set values required = fset_of_list (consensus_strings values required)"

definition consensus_map :: "MemoryAtomBodyV1 list \<Rightarrow> usize \<Rightarrow> bool \<Rightarrow> (string, string) fmap" where
  "consensus_map bodies required after =
     fold (\<lambda>(key, value) m. fmupd key value m)
       (map fst (filter (\<lambda>(_, votes). required \<le> votes)
         (sorted_list_of_fmap (count_values (concat (map (\<lambda>body.
           sorted_list_of_fmap (if after then bd_internal_state_after body else bd_internal_state_before body)) bodies))))))
       fmempty"

section \<open>What the counts are\<close>

lemma fmlookup_fold_count:
  "fmlookup (fold count_entry ks m) k =
     (if k \<in> set ks then Some (unwrap_or 0 (fmlookup m k) + count_list ks k) else fmlookup m k)"
proof (induction ks arbitrary: m)
  case (Cons a ks)
  then show ?case by (auto simp: count_entry_def)
qed simp

lemma fmlookup_count_values:
  "fmlookup (count_values ks) k = (if k \<in> set ks then Some (count_list ks k) else None)"
  by (simp add: count_values_def fmlookup_fold_count)

lemma sorted_list_of_fmap_fst: "map fst (sorted_list_of_fmap m) = sorted_list_of_fset (fmdom m)"
  by (simp add: sorted_list_of_fmap_def comp_def)

lemma fmdom_count_values: "fmdom (count_values ks) = fset_of_list ks"
  by (rule fset_eqI) (auto simp: fmlookup_count_values fmlookup_dom_iff fset_of_list.rep_eq split: if_splits)

lemma sorted_list_of_fmap_filter:
  "map fst (filter (\<lambda>(_, c). P c) (sorted_list_of_fmap m)) =
     filter (\<lambda>k. P (the (fmlookup m k))) (sorted_list_of_fset (fmdom m))"
  by (simp add: sorted_list_of_fmap_def filter_map comp_def)

lemma counted_values:
  "map fst (filter (\<lambda>(_, votes). required \<le> votes) (sorted_list_of_fmap (count_values ks))) =
     filter (\<lambda>k. required \<le> count_list ks k) (sorted_list_of_fset (fset_of_list ks))"
  unfolding sorted_list_of_fmap_filter fmdom_count_values
  by (rule filter_cong) (auto simp: fmlookup_count_values fset_of_list.rep_eq)

lemma sorted_list_of_fset_set [simp]: "set (sorted_list_of_fset A) = fset A"
  by (simp add: sorted_list_of_fset.rep_eq)

lemma counted_values_set:
  "set (map fst (filter (\<lambda>(_, votes). required \<le> votes) (sorted_list_of_fmap (count_values ks)))) =
     {k \<in> set ks. required \<le> count_list ks k}"
  unfolding counted_values by (auto simp: fset_of_list.rep_eq)

lemma counted_values_sorted:
  "sorted_wrt (<) (map fst (filter (\<lambda>(_, votes). required \<le> votes) (sorted_list_of_fmap (count_values ks))))"
  unfolding counted_values sorted_wrt_less_iff by (simp add: sorted_wrt_filter)

section \<open>Votes\<close>

text \<open>The number of source atoms that satisfy a predicate.\<close>

definition votes_for :: "(MemoryAtomBodyV1 \<Rightarrow> bool) \<Rightarrow> MemoryAtomBodyV1 list \<Rightarrow> nat" where
  "votes_for p bodies = length (filter p bodies)"

lemma count_list_pos: "0 < count_list xs x \<longleftrightarrow> x \<in> set xs"
  by (induction xs) auto

lemma count_list_concat: "count_list (concat xss) x = sum_list (map (\<lambda>xs. count_list xs x) xss)"
  by (induction xss) auto

lemma count_list_distinct: "distinct xs \<Longrightarrow> count_list xs x = (if x \<in> set xs then 1 else 0)"
  by (induction xs) auto

lemma sum_indicator: "sum_list (map (\<lambda>b. if p b then 1 else 0) bodies) = votes_for p bodies"
  by (induction bodies) (auto simp: votes_for_def)

lemma count_list_votes:
  assumes "\<And>b. distinct (g b)"
  shows "count_list (concat (map g bodies)) x = votes_for (\<lambda>b. x \<in> set (g b)) bodies"
  using assms sum_indicator [of "\<lambda>b. x \<in> set (g b)" bodies]
  by (simp add: count_list_concat comp_def count_list_distinct)

lemma count_list_filter: "count_list (filter p xs) x = (if p x then count_list xs x else 0)"
  by (induction xs) auto

lemma count_list_map_filter: "count_list (List.map_filter f bodies) v = votes_for (\<lambda>b. f b = Some v) bodies"
  by (induction bodies) (auto simp: votes_for_def split: option.splits)

lemma length_map_filter_le: "length (List.map_filter f xs) \<le> length xs"
  by (induction xs) (auto split: option.splits)

lemma votes_disjoint:
  "(\<And>b. \<not> (p b \<and> q b)) \<Longrightarrow> votes_for p bodies + votes_for q bodies \<le> length bodies"
  by (induction bodies) (auto simp: votes_for_def le_SucI)

lemma count_list_sum_le:
  assumes "x \<noteq> y" shows "count_list xs x + count_list xs y \<le> length xs"
  using assms by (induction xs) auto

section \<open>What consensus returns\<close>

lemma consensus_strings_set:
  "v \<in> set (consensus_strings values required) \<longleftrightarrow>
     v \<in> set values \<and> v \<noteq> '''' \<and> required \<le> count_list values v"
  unfolding consensus_strings_def counted_values_set by (auto simp: count_list_filter)

lemma consensus_set_member:
  "v |\<in>| consensus_set values required \<longleftrightarrow> v \<in> set values \<and> v \<noteq> '''' \<and> required \<le> count_list values v"
  by (simp add: consensus_set_def fset_of_list.rep_eq consensus_strings_set)

lemma consensus_body_strings_set:
  assumes "0 < required"
  shows "v \<in> set (consensus_body_strings bodies required values) \<longleftrightarrow>
     v \<noteq> '''' \<and> required \<le> votes_for (\<lambda>b. v \<in> set (values b)) bodies"
proof -
  let ?g = "\<lambda>body. sorted_list_of_fset (fset_of_list (filter (\<lambda>v. v \<noteq> '''') (values body)))"
  have count: "count_list (concat (map ?g bodies)) v = votes_for (\<lambda>b. v \<noteq> '''' \<and> v \<in> set (values b)) bodies"
    by (subst count_list_votes) (auto simp: fset_of_list.rep_eq conj_commute)
  have "v \<in> set (concat (map ?g bodies)) \<longleftrightarrow> 0 < count_list (concat (map ?g bodies)) v"
    by (simp only: count_list_pos)
  then have "v \<in> set (consensus_body_strings bodies required values) \<longleftrightarrow>
      required \<le> votes_for (\<lambda>b. v \<noteq> '''' \<and> v \<in> set (values b)) bodies"
    unfolding consensus_body_strings_def counted_values_set using assms count by auto
  also have "\<dots> \<longleftrightarrow> v \<noteq> '''' \<and> required \<le> votes_for (\<lambda>b. v \<in> set (values b)) bodies"
    using assms by (cases "v = ''''") (simp_all add: votes_for_def)
  finally show ?thesis .
qed

lemma find_unique:
  assumes "x \<in> set xs" "p x" "\<And>y. y \<in> set xs \<Longrightarrow> p y \<Longrightarrow> y = x"
  shows "List.find p xs = Some x"
proof (cases "List.find p xs")
  case None
  then show ?thesis using assms(1,2) by (auto simp: find_None_iff)
next
  case (Some y)
  then have "y \<in> set xs" "p y" by (auto simp: find_Some_iff)
  then show ?thesis using assms(3) Some by simp
qed

lemma consensus_optional_Some:
  assumes "length values < 2 * required"
  shows "consensus_optional values required = Some v \<longleftrightarrow> v \<noteq> '''' \<and> required \<le> count_list values v"
proof -
  let ?vs = "filter (\<lambda>v. v \<noteq> '''') values"
  let ?xs = "sorted_list_of_fmap (count_values ?vs)"
  have xs: "(a, c) \<in> set ?xs \<longleftrightarrow> a \<in> set values \<and> a \<noteq> '''' \<and> c = count_list values a" for a c
    by (auto simp: set_sorted_list_of_fmap fmlookup_count_values count_list_filter)
  show ?thesis
  proof
    assume "consensus_optional values required = Some v"
    then obtain c where "(v, c) \<in> set ?xs" "required \<le> c"
      by (auto simp: consensus_optional_def find_Some_iff) (metis nth_mem)
    then show "v \<noteq> '''' \<and> required \<le> count_list values v" using xs by simp
  next
    assume v: "v \<noteq> '''' \<and> required \<le> count_list values v"
    then have "v \<in> set values" using assms by (metis count_notin le_0_eq mult_0_right not_less0)
    then have mem: "(v, count_list values v) \<in> set ?xs" using xs v by simp
    have uniq: "y = (v, count_list values v)" if "y \<in> set ?xs" "case y of (_, votes) \<Rightarrow> required \<le> votes" for y
    proof (cases y)
      case (Pair a c)
      have "a = v"
      proof (rule ccontr)
        assume "a \<noteq> v"
        then have "count_list values a + count_list values v \<le> length values" by (rule count_list_sum_le)
        then show False using that v assms xs Pair by auto
      qed
      then show ?thesis using that xs Pair by simp
    qed
    have "List.find (\<lambda>(value, votes). required \<le> votes) ?xs = Some (v, count_list values v)"
      by (rule find_unique [OF mem _ uniq]) (use v in simp)
    then show "consensus_optional values required = Some v" by (simp add: consensus_optional_def)
  qed
qed

lemma fold_fmupd_lookup:
  "fmlookup (fold (\<lambda>(key, value) m. fmupd key value m) xs m) k =
     (case map_of (rev xs) k of None \<Rightarrow> fmlookup m k | Some v \<Rightarrow> Some v)"
  by (induction xs arbitrary: m) (auto simp: map_add_def split: option.splits)

lemma distinct_sorted_list_of_fmap: "distinct (sorted_list_of_fmap m)"
  by (simp add: sorted_list_of_fmap_def distinct_map inj_on_def)

lemma map_of_rev_unique:
  assumes "\<And>a b. (k, a) \<in> set xs \<Longrightarrow> (k, b) \<in> set xs \<Longrightarrow> a = b"
  shows "map_of (rev xs) k = Some v \<longleftrightarrow> (k, v) \<in> set xs"
proof
  assume "map_of (rev xs) k = Some v"
  then show "(k, v) \<in> set xs" using map_of_SomeD by fastforce
next
  assume kv: "(k, v) \<in> set xs"
  then have "k \<in> fst ` set (rev xs)" by force
  then obtain w where w: "map_of (rev xs) k = Some w" by (cases "map_of (rev xs) k") (auto simp: map_of_eq_None_iff)
  then have "(k, w) \<in> set xs" using map_of_SomeD by fastforce
  then show "map_of (rev xs) k = Some v" using assms kv w by blast
qed

lemma consensus_map_Some:
  fixes after :: bool
  assumes "length bodies < 2 * required"
  defines "state \<equiv> \<lambda>body. if after then bd_internal_state_after body else bd_internal_state_before body"
  shows "fmlookup (consensus_map bodies required after) k = Some v \<longleftrightarrow>
     required \<le> votes_for (\<lambda>b. fmlookup (state b) k = Some v) bodies"
proof -
  let ?ks = "concat (map (\<lambda>body. sorted_list_of_fmap (state body)) bodies)"
  let ?xs = "map fst (filter (\<lambda>(_, votes). required \<le> votes) (sorted_list_of_fmap (count_values ?ks)))"
  have count: "count_list ?ks kv = votes_for (\<lambda>b. fmlookup (state b) (fst kv) = Some (snd kv)) bodies" for kv
    by (subst count_list_votes)
      (auto simp: distinct_sorted_list_of_fmap set_sorted_list_of_fmap case_prod_beta)
  have mem: "(k, v) \<in> set ?xs \<longleftrightarrow> required \<le> votes_for (\<lambda>b. fmlookup (state b) k = Some v) bodies" for k v
  proof -
    have "(k, v) \<in> set ?ks \<longleftrightarrow> 0 < count_list ?ks (k, v)" by (simp only: count_list_pos)
    then show ?thesis unfolding counted_values_set using count [of "(k, v)"] assms(1) by auto
  qed
  have unique: "a = b" if "(k, a) \<in> set ?xs" "(k, b) \<in> set ?xs" for a b
  proof (rule ccontr)
    assume "a \<noteq> b"
    then have "votes_for (\<lambda>x. fmlookup (state x) k = Some a) bodies
        + votes_for (\<lambda>x. fmlookup (state x) k = Some b) bodies \<le> length bodies"
      by (intro votes_disjoint) auto
    then show False using that mem assms(1) by auto
  qed
  have "fmlookup (consensus_map bodies required after) k = map_of (rev ?xs) k"
    by (simp only: consensus_map_def state_def fold_fmupd_lookup fmempty_lookup) (simp split: option.split)
  moreover have "map_of (rev ?xs) k = Some v \<longleftrightarrow> (k, v) \<in> set ?xs"
    by (rule map_of_rev_unique) (rule unique)
  ultimately show ?thesis using mem by (simp only:)
qed

section \<open>Two thirds\<close>

lemma consensus_required_eq:
  assumes "n < 2 ^ 64"
  shows "consensus_required n poc_v1 = (2 * n + 2) div 3"
proof -
  have n: "unat (of_nat n :: u128) = n" using assms by (simp add: unat_of_nat)
  have two: "ucast (2 :: u32) = (2 :: u128)" and three: "ucast (3 :: u32) = (3 :: u128)" by simp_all
  have prod: "unat ((of_nat n :: u128) * 2) = n * 2"
    using assms by (subst unat_word_mult_lt) (simp_all add: n)
  have "unat (u128_div_ceil ((of_nat n :: u128) * ucast (2 :: u32)) (ucast (3 :: u32))) = (2 * n + 2) div 3"
    unfolding two three
    using assms by (subst u128_div_ceil_unat) (simp_all add: prod word_less_nat_alt mult.commute)
  moreover have "(2 * n + 2) div 3 \<le> usize_max" using assms by (simp add: usize_max_def)
  ultimately show ?thesis
    by (simp add: consensus_required_def usize_of_u128_def)
qed

lemma consensus_required_bounds:
  assumes "n < 2 ^ 64" "0 < n"
  shows "n < 2 * consensus_required n poc_v1" "0 < consensus_required n poc_v1"
    "consensus_required n poc_v1 \<le> k \<longleftrightarrow> 2 * n \<le> 3 * k"
  using assms(2) unfolding consensus_required_eq [OF assms(1)] by presburger+

text \<open>
  C31: consensus is a two-thirds vote of the source atoms.  With the threshold the planner
  computes for \<open>n\<close> sources, an optional field takes the unique non-empty value that at least
  two thirds of the sources have, a key set or list contains exactly the non-empty values that at
  least two thirds of the sources contain, and a state map contains a binding exactly when at
  least two thirds of the sources contain that binding (so no key can have two values).
\<close>

theorem consensus_is_two_thirds_vote:
  assumes "bodies \<noteq> []" "length bodies < 2 ^ 64"
  shows "(consensus_optional (List.map_filter f bodies) (consensus_required (length bodies) poc_v1) = Some v
      \<longleftrightarrow> v \<noteq> '''' \<and> 2 * length bodies \<le> 3 * votes_for (\<lambda>b. f b = Some v) bodies) \<and>
    (v \<in> set (consensus_body_strings bodies (consensus_required (length bodies) poc_v1) g)
      \<longleftrightarrow> v \<noteq> '''' \<and> 2 * length bodies \<le> 3 * votes_for (\<lambda>b. v \<in> set (g b)) bodies) \<and>
    (v |\<in>| consensus_set (concat (map (\<lambda>b. sorted_list_of_fset (h b)) bodies)) (consensus_required (length bodies) poc_v1)
      \<longleftrightarrow> v \<noteq> '''' \<and> 2 * length bodies \<le> 3 * votes_for (\<lambda>b. v |\<in>| h b) bodies) \<and>
    (fmlookup (consensus_map bodies (consensus_required (length bodies) poc_v1) after) k = Some v
      \<longleftrightarrow> 2 * length bodies \<le> 3 * votes_for (\<lambda>b. fmlookup
          (if after then bd_internal_state_after b else bd_internal_state_before b) k = Some v) bodies)"
proof (intro conjI)
  let ?r = "consensus_required (length bodies) poc_v1"
  have pos: "0 < length bodies" using assms(1) by simp
  note req = consensus_required_bounds [OF assms(2) pos]
  have "length (List.map_filter f bodies) < 2 * ?r"
    using length_map_filter_le [of f bodies] req(1) by linarith
  then show "consensus_optional (List.map_filter f bodies) ?r = Some v
      \<longleftrightarrow> v \<noteq> '''' \<and> 2 * length bodies \<le> 3 * votes_for (\<lambda>b. f b = Some v) bodies"
    by (simp add: consensus_optional_Some count_list_map_filter req(3))
  show "v \<in> set (consensus_body_strings bodies ?r g)
      \<longleftrightarrow> v \<noteq> '''' \<and> 2 * length bodies \<le> 3 * votes_for (\<lambda>b. v \<in> set (g b)) bodies"
    using req(2) by (simp add: consensus_body_strings_set req(3))
  have count: "count_list (concat (map (\<lambda>b. sorted_list_of_fset (h b)) bodies)) v = votes_for (\<lambda>b. v |\<in>| h b) bodies"
    by (subst count_list_votes) simp_all
  have "v \<in> set (concat (map (\<lambda>b. sorted_list_of_fset (h b)) bodies)) \<longleftrightarrow> 0 < votes_for (\<lambda>b. v |\<in>| h b) bodies"
    unfolding count [symmetric] count_list_pos ..
  then show "v |\<in>| consensus_set (concat (map (\<lambda>b. sorted_list_of_fset (h b)) bodies)) ?r
      \<longleftrightarrow> v \<noteq> '''' \<and> 2 * length bodies \<le> 3 * votes_for (\<lambda>b. v |\<in>| h b) bodies"
    unfolding consensus_set_member count req(3) using pos by auto
  show "fmlookup (consensus_map bodies ?r after) k = Some v
      \<longleftrightarrow> 2 * length bodies \<le> 3 * votes_for (\<lambda>b. fmlookup
          (if after then bd_internal_state_after b else bd_internal_state_before b) k = Some v) bodies"
    unfolding consensus_map_Some [OF req(1)] req(3) ..
qed

theorem consensus_is_two_thirds_vote_witness:
  "consensus_optional (List.map_filter bd_goal (replicate 3 (sample_body ''t''\<lparr>bd_goal := Some ''g''\<rparr>)))
      (consensus_required 3 poc_v1) = Some ''g''"
  using consensus_is_two_thirds_vote [of "replicate 3 (sample_body ''t''\<lparr>bd_goal := Some ''g''\<rparr>)" bd_goal "''g''"]
  by (simp add: votes_for_def)

end
