(* ===== verification/Lottery.thy ===== *)
theory Lottery
  imports Outcome Model
begin

text \<open>
  The episodic lottery of \<open>retirement.rs\<close>: \<open>partial_fisher_yates\<close> and its rejection
  sampler \<open>uniform_below\<close>.  The ChaCha20 generator is a parameter: \<open>chacha seed\<close> is the
  sequence of \<open>next_u64\<close> values of the generator with that seed, and a generator state is a
  position in it.  The sampler loops until a value is accepted, so its result is an option and
  \<open>None\<close> is a loop that never ends.
\<close>

section \<open>Rejection sampling\<close>

type_synonym stream = "nat \<Rightarrow> u64"

partial_function (option) uniform_loop :: "stream \<Rightarrow> u64 \<Rightarrow> u64 \<Rightarrow> nat \<Rightarrow> (u64 \<times> nat) option" where
  "uniform_loop stream threshold bound pos =
     (let value = stream pos in
      if checked_sub value threshold \<noteq> None then Some (value mod bound, pos + 1)
      else uniform_loop stream threshold bound (pos + 1))"

definition rejection_threshold :: "u64 \<Rightarrow> u64" where
  "rejection_threshold bound = (- bound) mod bound"

definition uniform_below :: "stream \<Rightarrow> u64 \<Rightarrow> nat \<Rightarrow> (u64 \<times> nat) option" where
  "uniform_below stream bound pos =
     (if bound = 0 \<or> bound = 1 then Some (0, pos)
      else uniform_loop stream (rejection_threshold bound) bound pos)"

section \<open>Selection\<close>

text \<open>\<open>slice::swap\<close> panics on an index out of range.\<close>

definition swap :: "'a list \<Rightarrow> usize \<Rightarrow> usize \<Rightarrow> 'a list outcome" where
  "swap xs i j = (if i < length xs \<and> j < length xs then Inr (xs[i := xs ! j, j := xs ! i]) else Inl Panic)"

text \<open>
  The loop of \<open>partial_fisher_yates\<close> from \<open>index\<close> on.  \<open>Inr None\<close> is the early return of
  an empty vector.
\<close>

function fisher_yates_loop ::
  "stream \<Rightarrow> usize \<Rightarrow> usize \<Rightarrow> usize \<Rightarrow> nat \<Rightarrow> usize list \<Rightarrow> usize list option outcome option" where
  "fisher_yates_loop stream population selected at pos positions =
     (if selected \<le> at then Some (Inr (Some positions))
      else if population < at then Some (Inr None)
      else case uniform_below stream (unwrap_or (- 1) (u64_of_usize (population - at))) pos of
        None \<Rightarrow> None
      | Some (offset, pos') \<Rightarrow>
          (case usize_checked_add at (unat offset) of
            None \<Rightarrow> Some (Inr None)
          | Some swap_position \<Rightarrow>
              (case swap positions at swap_position of
                Inl e \<Rightarrow> Some (Inl e)
              | Inr positions' \<Rightarrow> fisher_yates_loop stream population selected (at + 1) pos' positions')))"
  by pat_completeness auto
termination by (relation "measure (\<lambda>(_, _, selected, at, _, _). selected - at)") auto

declare fisher_yates_loop.simps [simp del]

definition partial_fisher_yates ::
  "(byte list \<Rightarrow> stream) \<Rightarrow> usize \<Rightarrow> usize \<Rightarrow> byte list \<Rightarrow> usize list outcome option" where
  "partial_fisher_yates chacha population wanted seed =
     (let selected = min wanted population in
      map_option (\<lambda>r. bindr r (\<lambda>positions. Inr (case positions of None \<Rightarrow> [] | Some ps \<Rightarrow> take selected ps)))
        (fisher_yates_loop (chacha seed) population selected 0 0 [0..<population]))"

section \<open>The sampler\<close>

definition accepted :: "u64 \<Rightarrow> u64 \<Rightarrow> bool" where
  "accepted bound v \<longleftrightarrow> bound \<le> 1 \<or> rejection_threshold bound \<le> v"

lemma uniform_loop_skip:
  assumes "\<forall>i < n. stream (pos + i) < threshold"
  shows "uniform_loop stream threshold bound pos = uniform_loop stream threshold bound (pos + n)"
  using assms
proof (induction n arbitrary: pos)
  case (Suc n)
  from Suc.prems [rule_format, of 0] have "checked_sub (stream pos) threshold = None"
    by (simp add: checked_sub_def)
  then have "uniform_loop stream threshold bound pos = uniform_loop stream threshold bound (pos + 1)"
    by (subst uniform_loop.simps) simp
  also have "\<dots> = uniform_loop stream threshold bound (pos + 1 + n)"
  proof (rule Suc.IH, intro allI impI)
    fix i assume "i < n"
    then show "stream (pos + 1 + i) < threshold" using Suc.prems [rule_format, of "Suc i"] by simp
  qed
  finally show ?case by (simp add: add.assoc)
qed simp

lemma uniform_loop_accept:
  assumes "threshold \<le> stream pos"
  shows "uniform_loop stream threshold bound pos = Some (stream pos mod bound, pos + 1)"
  using assms by (subst uniform_loop.simps) (simp add: checked_sub_def)

lemma uniform_loop_first:
  assumes "\<forall>i < n. stream (pos + i) < threshold" "threshold \<le> stream (pos + n)"
  shows "uniform_loop stream threshold bound pos = Some (stream (pos + n) mod bound, pos + n + 1)"
  using uniform_loop_skip [OF assms(1), of bound] uniform_loop_accept [of threshold stream "pos + n" bound] assms(2)
  by simp

definition first_accept :: "stream \<Rightarrow> u64 \<Rightarrow> nat \<Rightarrow> nat \<Rightarrow> bool" where
  "first_accept stream threshold pos n \<longleftrightarrow> (\<forall>i < n. stream (pos + i) < threshold) \<and> threshold \<le> stream (pos + n)"

lemma first_accept_Suc:
  assumes "stream pos < threshold" "first_accept stream threshold (pos + 1) n"
  shows "first_accept stream threshold pos (Suc n)"
proof -
  have later: "\<And>i. i < n \<Longrightarrow> stream (Suc (pos + i)) < threshold" and last: "threshold \<le> stream (Suc (pos + n))"
    using assms(2) unfolding first_accept_def by simp_all
  have "stream (pos + i) < threshold" if "i < Suc n" for i
    using assms(1) later that by (cases i) simp_all
  with last show ?thesis unfolding first_accept_def by simp
qed

lemma uniform_loop_someD:
  "uniform_loop stream threshold bound pos = Some r \<Longrightarrow>
     \<exists>n. first_accept stream threshold pos n \<and> r = (stream (pos + n) mod bound, pos + n + 1)"
proof (rule uniform_loop.raw_induct [where P = "\<lambda>stream threshold bound pos r.
    \<exists>n. first_accept stream threshold pos n \<and> r = (stream (pos + n) mod bound, pos + n + 1)"])
  fix loop :: "stream \<Rightarrow> u64 \<Rightarrow> u64 \<Rightarrow> nat \<Rightarrow> (u64 \<times> nat) option" and stream threshold bound pos r
  assume ih: "\<And>stream threshold bound pos r. loop stream threshold bound pos = Some r \<Longrightarrow>
      \<exists>n. first_accept stream threshold pos n \<and> r = (stream (pos + n) mod bound, pos + n + 1)"
    and step: "(let value = stream pos in
      if checked_sub value threshold \<noteq> None then Some (value mod bound, pos + 1)
      else loop stream threshold bound (pos + 1)) = Some r"
  show "\<exists>n. first_accept stream threshold pos n \<and> r = (stream (pos + n) mod bound, pos + n + 1)"
  proof (cases "stream pos < threshold")
    case True
    then have "loop stream threshold bound (pos + 1) = Some r" using step by (simp add: checked_sub_def Let_def linorder_not_le [symmetric])
    then obtain n where "first_accept stream threshold (pos + 1) n" "r = (stream (pos + 1 + n) mod bound, pos + 1 + n + 1)"
      using ih by blast
    moreover from True this(1) have "first_accept stream threshold pos (Suc n)" by (rule first_accept_Suc [of stream pos threshold n])
    ultimately show ?thesis by (intro exI [of _ "Suc n"] conjI) simp_all
  next
    case False
    then have "r = (stream pos mod bound, pos + 1)" using step by (simp add: checked_sub_def Let_def not_less)
    then show ?thesis using False by (intro exI [of _ "0 :: nat"]) (simp add: first_accept_def not_less)
  qed
qed

lemma unat_rejection_threshold:
  assumes "0 < bound"
  shows "unat (rejection_threshold bound) = 2 ^ 64 mod unat bound"
proof -
  have b: "0 < unat bound" using assms by (simp add: word_less_nat_alt)
  have le: "unat bound \<le> 2 ^ 64" using unat_u64_bound [of bound] by simp
  have "(of_nat (2 ^ 64 - unat bound) :: u64) = of_nat (2 ^ 64) - bound"
    using le by (subst of_nat_diff) simp_all
  also have "\<dots> = - bound" by simp
  finally have "unat (- bound) = unat (of_nat (2 ^ 64 - unat bound) :: u64)" by simp
  also have "\<dots> = 2 ^ 64 - unat bound"
    using b by (simp add: unat_of_nat)
  finally have negated: "unat (- bound) = 2 ^ 64 - unat bound" .
  show ?thesis
    unfolding rejection_threshold_def unat_mod negated using le by (rule le_mod_geq [symmetric])
qed

lemma unat_mod_less: "0 < bound \<Longrightarrow> v mod bound < (bound :: u64)"
  by (simp add: word_less_nat_alt unat_mod)

lemma uniform_below_cases:
  "uniform_below stream bound pos = (if bound \<le> 1 then Some (0, pos)
     else uniform_loop stream (rejection_threshold bound) bound pos)"
proof -
  have "bound = 0 \<or> bound = 1 \<longleftrightarrow> bound \<le> 1"
    by (auto simp: word_le_nat_alt word_unat_eq_iff)
  then show ?thesis by (simp add: uniform_below_def)
qed

lemma uniform_below_less:
  assumes "uniform_below stream bound pos = Some (r, pos')" "0 < bound"
  shows "r < bound"
  using assms by (auto simp: uniform_below_cases unat_mod_less dest!: uniform_loop_someD split: if_splits)

lemma uniform_below_halts:
  "uniform_below stream bound pos \<noteq> None \<longleftrightarrow> (\<exists>i \<ge> pos. accepted bound (stream i)) \<or> bound \<le> 1"
proof (cases "bound \<le> 1")
  case True
  then show ?thesis by (simp add: uniform_below_cases)
next
  case False
  let ?t = "rejection_threshold bound"
  have "uniform_loop stream ?t bound pos \<noteq> None \<longleftrightarrow> (\<exists>i \<ge> pos. ?t \<le> stream i)"
  proof
    assume "uniform_loop stream ?t bound pos \<noteq> None"
    then obtain r where "uniform_loop stream ?t bound pos = Some r" by blast
    from uniform_loop_someD [OF this] obtain n where "?t \<le> stream (pos + n)"
      by (auto simp: first_accept_def)
    then show "\<exists>i \<ge> pos. ?t \<le> stream i" by (intro exI [of _ "pos + n"]) simp
  next
    assume "\<exists>i \<ge> pos. ?t \<le> stream i"
    then obtain i where i: "pos \<le> i" "?t \<le> stream i" by blast
    define n where "n = (LEAST n. ?t \<le> stream (pos + n))"
    have "?t \<le> stream (pos + n)"
      unfolding n_def by (rule LeastI [of _ "i - pos"]) (use i in simp)
    moreover have "stream (pos + m) < ?t" if "m < n" for m
      using not_less_Least [OF that [unfolded n_def]] by simp
    ultimately have "uniform_loop stream ?t bound pos = Some (stream (pos + n) mod bound, pos + n + 1)"
      by (intro uniform_loop_first) auto
    then show "uniform_loop stream ?t bound pos \<noteq> None" by simp
  qed
  with False show ?thesis by (simp add: uniform_below_cases accepted_def)
qed

text \<open>Every residue has the same number of accepted words, so the sampler has no modulo bias.\<close>

lemma mod_inj_window: "inj_on (\<lambda>v. v mod b) {a..<a + (b :: nat)}"
proof (rule inj_onI)
  have eq: "x = y" if win: "x mod b = y mod b" "x \<le> y" "a \<le> x" "y < a + b" for x y :: nat
  proof -
    obtain s where s: "y = x + b * s" using mod_eq_nat2E [OF win(1,2)] by blast
    have "b * s < b" using s win(3,4) by linarith
    then have "s = 0" by (cases s) simp_all
    then show ?thesis using s by simp
  qed
  show "x = y" if "x \<in> {a..<a + b}" "y \<in> {a..<a + b}" "x mod b = y mod b" for x y
    using that eq [of x y] eq [of y x] by (cases "x \<le> y") simp_all
qed

lemma card_window_residue:
  assumes "r < (b :: nat)"
  shows "card {v. a \<le> v \<and> v < a + b \<and> v mod b = r} = 1"
proof -
  have "(\<lambda>v. v mod b) ` {a..<a + b} = {..<b}"
    using assms by (intro card_subset_eq) (auto simp: card_image mod_inj_window)
  then obtain v where v: "v \<in> {a..<a + b}" "v mod b = r"
    using assms by (metis imageE lessThan_iff)
  have "{v. a \<le> v \<and> v < a + b \<and> v mod b = r} = {v}"
    using v mod_inj_window [of b a] by (auto simp: inj_on_def)
  then show ?thesis by simp
qed

lemma card_windows_residue:
  assumes "r < (b :: nat)"
  shows "card {v. a \<le> v \<and> v < a + q * b \<and> v mod b = r} = q"
proof (induction q)
  case (Suc q)
  let ?A = "{v. a \<le> v \<and> v < a + q * b \<and> v mod b = r}"
  let ?B = "{v. a + q * b \<le> v \<and> v < a + q * b + b \<and> v mod b = r}"
  have "{v. a \<le> v \<and> v < a + Suc q * b \<and> v mod b = r} = ?A \<union> ?B" by auto
  moreover have "card (?A \<union> ?B) = card ?A + card ?B"
    by (rule card_Un_disjoint) auto
  ultimately show ?case using Suc.IH card_window_residue [OF assms, of "a + q * b"] by simp
qed simp

lemma card_accepted_residue:
  assumes "r < bound"
  shows "card {v. accepted bound v \<and> v mod bound = r} = 2 ^ 64 div unat bound"
proof -
  have b: "0 < bound" using assms by (simp add: word_less_nat_alt)
  define t where "t = (2 ^ 64 :: nat) mod unat bound"
  define q where "q = (2 ^ 64 :: nat) div unat bound"
  have M: "t + q * unat bound = 2 ^ 64"
    unfolding t_def q_def by (subst add.commute) (rule div_mult_mod_eq)
  have below: "unat v < t + q * unat bound" for v :: u64 unfolding M by (rule unat_u64_bound)
  have accepted: "accepted bound v \<longleftrightarrow> t \<le> unat v" for v
  proof (cases "bound \<le> 1")
    case True
    then have "unat bound = 1" using b by (simp add: word_le_nat_alt word_less_nat_alt)
    then show ?thesis using True by (simp add: accepted_def t_def)
  next
    case False
    then show ?thesis by (simp add: accepted_def t_def word_le_nat_alt unat_rejection_threshold [OF b])
  qed
  have "unat ` {v. accepted bound v \<and> v mod bound = r} =
    {n. t \<le> n \<and> n < t + q * unat bound \<and> n mod unat bound = unat r}" (is "_ = ?S")
  proof (intro set_eqI iffI)
    fix n assume "n \<in> unat ` {v. accepted bound v \<and> v mod bound = r}"
    then show "n \<in> ?S" using below by (auto simp: accepted unat_mod)
  next
    fix n assume n: "n \<in> ?S"
    define w where "w = (of_nat n :: u64)"
    have w: "unat w = n" using n M by (simp add: w_def unat_of_nat)
    have "w mod bound = r" using n w by (simp add: word_unat_eq_iff unat_mod)
    moreover have "accepted bound w" using n w by (simp add: accepted)
    ultimately have "w \<in> {v. accepted bound v \<and> v mod bound = r}" by blast
    then show "n \<in> unat ` {v. accepted bound v \<and> v mod bound = r}" using w by blast
  qed
  then have image: "card (unat ` {v. accepted bound v \<and> v mod bound = r}) = card ?S" by (rule arg_cong)
  have "inj_on unat {v :: u64. accepted bound v \<and> v mod bound = r}"
    by (rule inj_onI) (simp only: word_unat_eq_iff)
  then have "card {v. accepted bound v \<and> v mod bound = r} = card ?S" unfolding image [symmetric] by (rule card_image [symmetric])
  also have "\<dots> = q"
    by (rule card_windows_residue) (use assms in \<open>simp add: word_less_nat_alt\<close>)
  finally show ?thesis by (simp only: q_def)
qed

section \<open>Selections as sequences of offsets\<close>

text \<open>
  The reference description of the shuffle: each draw picks one of the remaining positions by an
  offset, and the first of them takes its place.
\<close>

fun picks :: "'a list \<Rightarrow> nat list \<Rightarrow> 'a list" where
  "picks xs [] = []"
| "picks xs (k # ks) = xs ! k # picks (tl (xs[0 := xs ! k, k := xs ! 0])) ks"

fun offsets :: "stream \<Rightarrow> nat \<Rightarrow> nat \<Rightarrow> nat \<Rightarrow> nat list option" where
  "offsets stream n 0 pos = Some []"
| "offsets stream n (Suc k) pos =
     (case uniform_below stream (of_nat n) pos of
       None \<Rightarrow> None
     | Some (x, pos') \<Rightarrow> map_option ((#) (unat x)) (offsets stream (n - 1) k pos'))"

fun offsets_ok :: "nat \<Rightarrow> nat list \<Rightarrow> bool" where
  "offsets_ok n [] = True"
| "offsets_ok n (k # ks) = (k < n \<and> offsets_ok (n - 1) ks)"

lemma mset_tl_swap:
  "k < length xs \<Longrightarrow> mset (tl (xs[0 := xs ! k, k := xs ! 0])) = mset xs - {#xs ! k#}"
proof -
  assume k: "k < length xs"
  let ?ys = "xs[0 := xs ! k, k := xs ! 0]"
  have "?ys = xs ! k # tl ?ys" using k by (cases xs) (auto simp: nth_Cons split: nat.splits)
  then have "mset ?ys = add_mset (xs ! k) (mset (tl ?ys))" by (metis mset.simps(2))
  moreover have "mset ?ys = mset xs" using k by (intro mset_swap) auto
  ultimately show ?thesis by simp
qed

lemma swap_tl:
  assumes "distinct xs" "k < length xs"
  shows "distinct (tl (xs[0 := xs ! k, k := xs ! 0]))"
    and "set (tl (xs[0 := xs ! k, k := xs ! 0])) = set xs - {xs ! k}"
    and "length (tl (xs[0 := xs ! k, k := xs ! 0])) = length xs - 1"
proof -
  let ?ys = "tl (xs[0 := xs ! k, k := xs ! 0])"
  have m: "mset ?ys = mset xs - {#xs ! k#}" using assms(2) by (rule mset_tl_swap)
  have "mset (remove1 (xs ! k) xs) = mset ?ys" by (simp add: m)
  then have "distinct ?ys \<and> set ?ys = set (remove1 (xs ! k) xs)"
    using assms(1) by (metis distinct_remove1 mset_eq_imp_distinct_iff mset_eq_setD)
  then show "distinct ?ys" "set ?ys = set xs - {xs ! k}" using assms(1) by auto
  show "length ?ys = length xs - 1" by simp
qed

lemma picks_selects:
  assumes "distinct xs" "offsets_ok (length xs) ks"
  shows "length (picks xs ks) = length ks \<and> distinct (picks xs ks) \<and> set (picks xs ks) \<subseteq> set xs"
  using assms
proof (induction ks arbitrary: xs)
  case (Cons k ks)
  note tail = swap_tl [OF Cons.prems(1), of k]
  have "k < length xs" using Cons.prems(2) by simp
  note tail = tail [OF this]
  from Cons.IH [OF tail(1)] Cons.prems(2) tail(2,3) show ?case
    using \<open>k < length xs\<close> by auto
qed simp

lemma picks_inj:
  assumes "distinct xs" "offsets_ok (length xs) ks" "offsets_ok (length xs) ls" "length ks = length ls"
    "picks xs ks = picks xs ls"
  shows "ks = ls"
  using assms
proof (induction ks arbitrary: xs ls)
  case (Cons k ks)
  then obtain l ls' where ls: "ls = l # ls'" by (cases ls) auto
  have k: "k < length xs" "l < length xs" using Cons.prems ls by auto
  have "xs ! k = xs ! l" using Cons.prems(5) ls by simp
  then have kl: "k = l" using Cons.prems(1) k by (simp add: nth_eq_iff_index_eq)
  have "ks = ls'"
    using Cons.prems ls kl swap_tl(3) [OF Cons.prems(1) k(1)]
    by (intro Cons.IH [OF swap_tl(1) [OF Cons.prems(1) k(1)]]) auto
  with ls kl show ?case by simp
qed simp

lemma picks_surj:
  assumes "distinct xs" "distinct ys" "set ys \<subseteq> set xs"
  shows "\<exists>ks. length ks = length ys \<and> offsets_ok (length xs) ks \<and> picks xs ks = ys"
  using assms
proof (induction ys arbitrary: xs)
  case (Cons y ys)
  then obtain k where k: "k < length xs" "xs ! k = y" by (auto simp: in_set_conv_nth)
  note tail = swap_tl [OF Cons.prems(1) k(1)]
  obtain ks where "length ks = length ys" "offsets_ok (length xs - 1) ks"
    "picks (tl (xs[0 := xs ! k, k := xs ! 0])) ks = ys"
    using Cons.IH [OF tail(1)] Cons.prems tail(2,3) k(2) by (auto simp: tail(3))
  then show ?case using k by (intro exI [of _ "k # ks"]) simp
qed simp

lemma picks_bij:
  "bij_betw (picks [0..<n]) {ks. length ks = k \<and> offsets_ok n ks}
     {ps. length ps = k \<and> distinct ps \<and> set ps \<subseteq> {..<n}}"
  unfolding bij_betw_def
proof
  show "inj_on (picks [0..<n]) {ks. length ks = k \<and> offsets_ok n ks}"
    using picks_inj [of "[0..<n]"] by (auto intro!: inj_onI)
  show "picks [0..<n] ` {ks. length ks = k \<and> offsets_ok n ks} = {ps. length ps = k \<and> distinct ps \<and> set ps \<subseteq> {..<n}}"
  proof (intro set_eqI iffI)
    fix ps assume "ps \<in> picks [0..<n] ` {ks. length ks = k \<and> offsets_ok n ks}"
    then show "ps \<in> {ps. length ps = k \<and> distinct ps \<and> set ps \<subseteq> {..<n}}"
      using picks_selects [of "[0..<n]"] by (force simp: atLeast0LessThan)
  next
    fix ps assume "ps \<in> {ps. length ps = k \<and> distinct ps \<and> set ps \<subseteq> {..<n}}"
    then show "ps \<in> picks [0..<n] ` {ks. length ks = k \<and> offsets_ok n ks}"
      using picks_surj [of "[0..<n]" ps] by (auto simp: image_iff atLeast0LessThan)
  qed
qed

section \<open>The loop draws offsets\<close>

definition finish_draw :: "usize \<Rightarrow> usize list option outcome \<Rightarrow> usize list outcome" where
  "finish_draw selected r =
     bindr r (\<lambda>positions. Inr (case positions of None \<Rightarrow> [] | Some ps \<Rightarrow> take selected ps))"

lemma offsets_okD:
  assumes "offsets stream n k pos = Some ks" "k \<le> n" "n < 2 ^ 64"
  shows "length ks = k \<and> offsets_ok n ks"
  using assms
proof (induction k arbitrary: n pos ks)
  case (Suc k)
  then obtain x pos' ks' where x: "uniform_below stream (of_nat n) pos = Some (x, pos')"
    and ks': "offsets stream (n - 1) k pos' = Some ks'" "ks = unat x # ks'"
    by (auto split: option.splits prod.splits)
  have "(of_nat n :: u64) > 0" using Suc.prems by (simp add: word_less_nat_alt unat_of_nat)
  from uniform_below_less [OF x this] have "unat x < n"
    using Suc.prems by (simp add: word_less_nat_alt unat_of_nat)
  with Suc.IH [OF ks'(1)] Suc.prems ks'(2) show ?case by auto
qed simp

lemma swap_middle:
  assumes "length front = i" "k < length rest"
  shows "swap (front @ rest) i (i + k) = Inr ((front @ [rest ! k]) @ tl (rest[0 := rest ! k, k := rest ! 0]))"
proof -
  have "rest[0 := rest ! k, k := rest ! 0] = rest ! k # tl (rest[0 := rest ! k, k := rest ! 0])"
    using assms(2) by (cases rest) (auto simp: nth_Cons split: nat.splits)
  then show ?thesis using assms by (auto simp: swap_def list_update_append nth_append)
qed

lemma fisher_yates_loop_offsets:
  assumes "length front = at" "length rest = population - at" "selected = at + k"
    "selected \<le> population" "population < 2 ^ 64"
  shows "map_option (finish_draw selected) (fisher_yates_loop stream population selected at pos (front @ rest)) =
     map_option (\<lambda>ks. Inr (front @ picks rest ks)) (offsets stream (population - at) k pos)"
  using assms
proof (induction k arbitrary: front rest at pos)
  case 0
  then show ?case by (simp add: fisher_yates_loop.simps finish_draw_def)
next
  case (Suc k)
  have at: "at < selected" "\<not> population < at" "u64_of_usize (population - at) = Some (of_nat (population - at))"
    using Suc.prems by (simp_all add: u64_of_usize_def)
  show ?case
  proof (cases "uniform_below stream (of_nat (population - at)) pos")
    case None
    then show ?thesis using at by (simp add: fisher_yates_loop.simps [of _ _ _ at] unwrap_or_def)
  next
    case (Some r)
    obtain x pos' where x: "r = (x, pos')" by (cases r)
    have pos: "0 < population - at" "population - at < 2 ^ 64" using Suc.prems by simp_all
    from uniform_below_less [OF Some [unfolded x] of_nat_u64_pos [OF pos]]
    have lt: "unat x < population - at"
      by (simp only: word_less_nat_alt unat_of_nat_u64 [OF pos(2)])
    let ?front = "front @ [rest ! unat x]" and ?rest = "tl (rest[0 := rest ! unat x, unat x := rest ! 0])"
    have checked: "usize_checked_add at (unat x) = Some (at + unat x)"
      using lt Suc.prems(5) by (simp add: usize_checked_add_def usize_max_def)
    have swap: "swap (front @ rest) at (at + unat x) = Inr (?front @ ?rest)"
      using Suc.prems lt by (intro swap_middle) simp_all
    have "fisher_yates_loop stream population selected at pos (front @ rest) =
        fisher_yates_loop stream population selected (at + 1) pos' (?front @ ?rest)"
      using at Some x checked swap by (subst fisher_yates_loop.simps) simp
    also have "map_option (finish_draw selected) \<dots> =
        map_option (\<lambda>ks. Inr (?front @ picks ?rest ks)) (offsets stream (population - (at + 1)) k pos')"
      using Suc.prems by (intro Suc.IH) simp_all
    finally show ?thesis
      using Some x by (simp add: option.map_comp comp_def)
  qed
qed

lemma partial_fisher_yates_offsets:
  assumes "n < 2 ^ 64"
  shows "partial_fisher_yates chacha n w seed =
    map_option (\<lambda>ks. Inr (picks [0..<n] ks)) (offsets (chacha seed) n (min w n) 0)"
  using fisher_yates_loop_offsets [of "[]" 0 "[0..<n]" n "min w n" "min w n" "chacha seed" 0] assms
  by (simp add: partial_fisher_yates_def finish_draw_def [abs_def] Let_def)

lemma offsets_halt:
  assumes "k \<le> n" "n < 2 ^ 64" "\<And>p. \<exists>i \<ge> p. of_nat n \<le> stream i"
  shows "offsets stream n k pos \<noteq> None"
  using assms
proof (induction k arbitrary: n pos)
  case (Suc k)
  let ?b = "of_nat n :: u64"
  have b: "0 < ?b" using Suc.prems by (simp add: word_less_nat_alt unat_of_nat)
  obtain i where i: "pos \<le> i" "?b \<le> stream i" using Suc.prems(3) by blast
  have "rejection_threshold ?b < ?b" unfolding rejection_threshold_def by (rule unat_mod_less) (rule b)
  then have "accepted ?b (stream i)" using i(2) by (auto simp: accepted_def)
  then have "uniform_below stream ?b pos \<noteq> None" using i(1) unfolding uniform_below_halts by blast
  then obtain x pos' where x: "uniform_below stream ?b pos = Some (x, pos')" by auto
  have "\<exists>i \<ge> p. (of_nat (n - 1) :: u64) \<le> stream i" for p
  proof -
    obtain i where "p \<le> i" "?b \<le> stream i" using Suc.prems(3) by blast
    moreover have "(of_nat (n - 1) :: u64) \<le> ?b"
    proof -
      have "n - 1 < 2 ^ 64" using Suc.prems(2) by linarith
      then show ?thesis unfolding word_le_nat_alt by (simp only: unat_of_nat_u64 Suc.prems(2))
    qed
    ultimately show ?thesis by (meson order_trans)
  qed
  then have "offsets stream (n - 1) k pos' \<noteq> None" using Suc.prems by (intro Suc.IH) simp_all
  then show ?case using x by simp
qed simp

section \<open>Counting the words behind a selection\<close>

lemma uniform_loop_Some:
  "uniform_loop stream threshold bound pos = Some r \<longleftrightarrow>
     (\<exists>n. first_accept stream threshold pos n \<and> r = (stream (pos + n) mod bound, pos + n + 1))"
  using uniform_loop_someD uniform_loop_first unfolding first_accept_def by metis

lemma first_accept_shift: "first_accept stream t (Suc pos) n = first_accept (\<lambda>i. stream (Suc i)) t pos n"
  by (simp add: first_accept_def)

lemma uniform_loop_shift:
  "uniform_loop stream t bound (Suc pos) = map_option (\<lambda>(x, p). (x, Suc p)) (uniform_loop (\<lambda>i. stream (Suc i)) t bound pos)"
proof (cases "uniform_loop (\<lambda>i. stream (Suc i)) t bound pos")
  case None
  then have "\<not> first_accept (\<lambda>i. stream (Suc i)) t pos n" for n
    using uniform_loop_Some [of "\<lambda>i. stream (Suc i)" t bound pos] by auto
  then have "uniform_loop stream t bound (Suc pos) \<noteq> Some r" for r
    unfolding uniform_loop_Some first_accept_shift by simp
  then have "uniform_loop stream t bound (Suc pos) = None" by (meson not_None_eq)
  then show ?thesis using None by simp
next
  case (Some r)
  then obtain n where "first_accept (\<lambda>i. stream (Suc i)) t pos n" "r = (stream (Suc (pos + n)) mod bound, pos + n + 1)"
    unfolding uniform_loop_Some by auto
  moreover from this(1) have "uniform_loop stream t bound (Suc pos) = Some (stream (Suc pos + n) mod bound, Suc pos + n + 1)"
    unfolding uniform_loop_Some first_accept_def by (intro exI [of _ n]) simp
  ultimately show ?thesis using Some by simp
qed

lemma uniform_below_shift:
  "uniform_below stream bound (Suc pos) = map_option (\<lambda>(x, p). (x, Suc p)) (uniform_below (\<lambda>i. stream (Suc i)) bound pos)"
  by (simp add: uniform_below_cases uniform_loop_shift)

lemma offsets_shift: "offsets stream n k (Suc pos) = offsets (\<lambda>i. stream (Suc i)) n k pos"
proof (induction k arbitrary: n pos)
  case (Suc k)
  then show ?case by (auto simp: uniform_below_shift split: option.splits)
qed simp

text \<open>One word of the generator: it is rejected, or it decides the first offset.\<close>

lemma offsets_step:
  assumes "\<not> (of_nat n :: u64) \<le> 1"
  shows "offsets (case_nat w stream) n (Suc k) 0 =
    (if accepted (of_nat n) w then map_option ((#) (unat (w mod of_nat n))) (offsets stream (n - 1) k 0)
     else offsets stream n (Suc k) 0)"
proof (cases "accepted (of_nat n) w")
  case True
  then have "uniform_below (case_nat w stream) (of_nat n) 0 = Some (w mod of_nat n, 1)"
    using assms uniform_loop_accept [of "rejection_threshold (of_nat n)" "case_nat w stream" 0 "of_nat n"]
    by (simp add: uniform_below_cases accepted_def)
  then show ?thesis using True offsets_shift [of "case_nat w stream" "n - 1" k 0] by simp
next
  case False
  then have "uniform_below (case_nat w stream) (of_nat n) 0 = uniform_below (case_nat w stream) (of_nat n) 1"
    using assms uniform_loop_skip [of 1 "case_nat w stream" 0 "rejection_threshold (of_nat n)" "of_nat n"]
    by (auto simp: uniform_below_cases accepted_def)
  then show ?thesis using False offsets_shift [of "case_nat w stream" n "Suc k" 0] by simp
qed

text \<open>\<open>draws ws n k ks\<close>: on every stream that starts with the words \<open>ws\<close> the offsets \<open>ks\<close> are drawn.\<close>

definition starts :: "u64 list \<Rightarrow> stream \<Rightarrow> bool" where
  "starts ws stream \<longleftrightarrow> (\<forall>i < length ws. stream i = ws ! i)"

definition draws :: "u64 list \<Rightarrow> nat \<Rightarrow> nat \<Rightarrow> nat list \<Rightarrow> bool" where
  "draws ws n k ks \<longleftrightarrow> (\<forall>stream. starts ws stream \<longrightarrow> offsets stream n k 0 = Some ks)"

lemma starts_exists: "\<exists>stream. starts ws stream"
  unfolding starts_def by (rule exI [of _ "(!) ws"]) simp

lemma starts_Cons: "starts (w # ws) stream \<longleftrightarrow> (\<exists>rest. stream = case_nat w rest \<and> starts ws rest)"
proof
  assume w: "starts (w # ws) stream"
  then have "stream 0 = w" "starts ws (\<lambda>i. stream (Suc i))" by (auto simp: starts_def)
  moreover from this(1) have "stream = case_nat w (\<lambda>i. stream (Suc i))" by (auto split: nat.split)
  ultimately show "\<exists>rest. stream = case_nat w rest \<and> starts ws rest" by blast
qed (auto simp: starts_def nth_Cons split: nat.split)

lemma of_nat_le_1: "n < 2 ^ 64 \<Longrightarrow> (of_nat n :: u64) \<le> 1 \<longleftrightarrow> n \<le> 1"
  by (simp add: word_le_nat_alt unat_of_nat)

lemma draws_Cons:
  assumes "1 < n" "n < 2 ^ 64"
  shows "draws (w # ws) n (Suc k) ks \<longleftrightarrow>
    (if accepted (of_nat n) w then \<exists>ks'. ks = unat (w mod of_nat n) # ks' \<and> draws ws (n - 1) k ks' else draws ws n (Suc k) ks)"
proof -
  have n: "\<not> (of_nat n :: u64) \<le> 1" using of_nat_le_1 [OF assms(2)] assms(1) by simp
  obtain s where "starts ws s" using starts_exists by blast
  then show ?thesis
    unfolding draws_def starts_Cons using offsets_step [OF n, of w] by (cases ks) (auto simp: map_option_eq_Some)
qed

text \<open>Without a word nothing with two candidates is decided.\<close>

lemma draws_Nil:
  assumes "1 < n" "n < 2 ^ 64"
  shows "\<not> draws [] n (Suc k) ks"
proof
  assume d: "draws [] n (Suc k) ks"
  let ?b = "of_nat n :: u64"
  have n: "\<not> ?b \<le> 1" "unat ?b = n" using of_nat_le_1 [OF assms(2)] assms by (simp_all add: unat_of_nat)
  have head: "ks \<noteq> [] \<and> hd ks = unat (w mod ?b)" if "accepted ?b w" for w
  proof -
    have "offsets (case_nat w (\<lambda>_. w)) n (Suc k) 0 = Some ks" using d by (simp add: draws_def starts_def)
    then have "map_option ((#) (unat (w mod ?b))) (offsets (\<lambda>_. w) (n - 1) k 0) = Some ks"
      unfolding offsets_step [OF n(1)] using that by simp
    then show ?thesis by (auto simp: map_option_eq_Some)
  qed
  have t: "unat (rejection_threshold ?b) < n" using unat_rejection_threshold [of ?b] assms n by (simp add: word_less_nat_alt)
  have last: "unat (- 1 :: u64) = 2 ^ 64 - 1" "unat (- 2 :: u64) = 2 ^ 64 - 2" by (simp_all add: unat_minus_one_word)
  have "accepted ?b (- 1)" "accepted ?b (- 2)" using t assms unfolding accepted_def word_le_nat_alt last by linarith+
  then have "(2 ^ 64 - 1) mod n = (2 ^ 64 - 2 :: nat) mod n" using head unfolding unat_mod n(2) last [symmetric] by metis
  then have "n dvd 2 ^ 64 - 1 - (2 ^ 64 - 2)" by (subst (asm) mod_eq_dvd_iff_nat) simp_all
  then show False using assms(1) by simp
qed

lemma draws_one:
  assumes "n \<le> 1" "k \<le> n" "offsets_ok n ks" "length ks = k"
  shows "draws ws n k ks"
proof (cases k)
  case (Suc m)
  then have "n = 1" "k = 1" using assms by simp_all
  moreover from this have "ks = [0]" using assms by (cases ks) auto
  ultimately show ?thesis by (simp add: draws_def uniform_below_def)
qed (use assms in \<open>simp add: draws_def\<close>)

lemma draws_none: "draws ws n 0 []"
  by (simp add: draws_def)

text \<open>How many of the sequences of \<open>N\<close> words draw given \<open>k\<close> offsets from \<open>n\<close> candidates.\<close>

fun drawing_count :: "nat \<Rightarrow> nat \<Rightarrow> nat \<Rightarrow> nat" where
  "drawing_count 0 n k = (if k = 0 \<or> n \<le> 1 then 1 else 0)"
| "drawing_count (Suc N) n k =
     (if k = 0 \<or> n \<le> 1 then (2 ^ 64) ^ Suc N
      else (2 ^ 64 mod n) * drawing_count N n k + (2 ^ 64 div n) * drawing_count N (n - 1) (k - 1))"

definition drawing :: "nat \<Rightarrow> nat \<Rightarrow> nat \<Rightarrow> nat list \<Rightarrow> u64 list set" where
  "drawing N n k ks = {ws. length ws = N \<and> draws ws n k ks}"

lemma card_words: "card {ws :: u64 list. length ws = N} = (2 ^ 64) ^ N"
  using card_lists_length_eq [of "UNIV :: u64 set" N] by (simp add: card_word)

lemma finite_drawing [simp]: "finite (drawing N n k ks)"
  unfolding drawing_def using finite_lists_length_eq [of "UNIV :: u64 set" N] by (auto intro: rev_finite_subset)

lemma card_rejected:
  assumes "1 < n" "n < 2 ^ 64"
  shows "card {w :: u64. \<not> accepted (of_nat n) w} = 2 ^ 64 mod n"
proof -
  let ?b = "of_nat n :: u64"
  have n: "\<not> ?b \<le> 1" "unat ?b = n" "0 < ?b"
    using of_nat_le_1 [OF assms(2)] assms by (simp_all add: unat_of_nat word_less_nat_alt)
  define t where "t = (2 ^ 64 :: nat) mod n"
  have t: "t < n" unfolding t_def by (rule mod_less_divisor) (use assms(1) in linarith)
  have rejected: "\<not> accepted ?b w \<longleftrightarrow> unat w < t" for w
    using n(1) unat_rejection_threshold [OF n(3)] unfolding n(2) t_def [symmetric] by (simp add: accepted_def word_le_nat_alt not_le)
  have "unat ` {w :: u64. \<not> accepted ?b w} = {..<t}"
  proof (intro set_eqI iffI)
    fix x assume x: "x \<in> {..<t}"
    then have "x < 2 ^ 64" using t assms(2) by (metis lessThan_iff less_trans)
    then have "unat (of_nat x :: u64) = x" by (rule unat_of_nat_u64)
    then show "x \<in> unat ` {w :: u64. \<not> accepted ?b w}"
      using x unfolding rejected by (intro image_eqI [of _ _ "of_nat x"]) simp_all
  qed (auto simp: rejected)
  moreover have "card (unat ` {w :: u64. \<not> accepted ?b w}) = card {w :: u64. \<not> accepted ?b w}"
    by (rule card_image) (simp add: inj_on_def word_unat_eq_iff)
  ultimately show ?thesis by (simp add: t_def)
qed

lemma card_deciding:
  assumes "1 < n" "n < 2 ^ 64" "x < n"
  shows "card {w :: u64. accepted (of_nat n) w \<and> unat (w mod of_nat n) = x} = 2 ^ 64 div n"
proof -
  have n: "unat (of_nat n :: u64) = n" "unat (of_nat x :: u64) = x" using assms by (simp_all add: unat_of_nat)
  then have "unat (w mod of_nat n) = x \<longleftrightarrow> w mod of_nat n = (of_nat x :: u64)" for w by (simp add: word_unat_eq_iff)
  then show ?thesis
    using card_accepted_residue [of "of_nat x" "of_nat n"] n assms(3) by (simp add: word_less_nat_alt)
qed

lemma drawing_Suc:
  assumes "1 < n" "n < 2 ^ 64"
  shows "drawing (Suc N) n (Suc k) (x # ks) = (\<lambda>(w, ws). w # ws) `
    ({w. \<not> accepted (of_nat n) w} \<times> drawing N n (Suc k) (x # ks) \<union>
     {w. accepted (of_nat n) w \<and> unat (w mod of_nat n) = x} \<times> drawing N (n - 1) k ks)" (is "?l = ?f ` ?r")
proof (intro set_eqI iffI)
  fix ws assume ws: "ws \<in> ?l"
  then obtain w rest where "ws = w # rest" by (cases ws) (auto simp: drawing_def)
  then show "ws \<in> ?f ` ?r"
    using ws by (intro image_eqI [of _ _ "(w, rest)"]) (auto simp: drawing_def draws_Cons [OF assms] split: if_splits)
qed (auto simp: drawing_def draws_Cons [OF assms])

lemma card_drawing:
  assumes "n < 2 ^ 64" "k \<le> n" "offsets_ok n ks" "length ks = k"
  shows "card (drawing N n k ks) = drawing_count N n k"
  using assms
proof (induction N n k arbitrary: ks rule: drawing_count.induct)
  case (1 n k)
  show ?case
  proof (cases "k = 0 \<or> n \<le> 1")
    case True
    then have "drawing 0 n k ks = {[]}" using draws_one [of n k ks] draws_none 1 by (auto simp: drawing_def)
    then show ?thesis using True by simp
  next
    case False
    then obtain m where "k = Suc m" by (cases k) auto
    then have "drawing 0 n k ks = {}" using draws_Nil [of n m ks] False 1(1) by (auto simp: drawing_def)
    then show ?thesis using False by simp
  qed
next
  case (2 N n k)
  show ?case
  proof (cases "k = 0 \<or> n \<le> 1")
    case True
    then have "drawing (Suc N) n k ks = {ws. length ws = Suc N}" using draws_one [of n k ks] draws_none 2 by (auto simp: drawing_def)
    then show ?thesis using True card_words [of "Suc N"] by simp
  next
    case False
    then obtain m x xs where k: "k = Suc m" "ks = x # xs" using 2(6) by (cases k; cases ks) auto
    have n: "1 < n" using False by simp
    let ?A = "{w. \<not> accepted (of_nat n) w} \<times> drawing N n (Suc m) (x # xs)"
    let ?B = "{w. accepted (of_nat n) w \<and> unat (w mod of_nat n) = x} \<times> drawing N (n - 1) m xs"
    have "card (drawing (Suc N) n k ks) = card (?A \<union> ?B)"
      unfolding k drawing_Suc [OF n 2(3)] by (rule card_image) (auto simp: inj_on_def)
    also have "\<dots> = card ?A + card ?B" by (rule card_Un_disjoint) auto
    also have "\<dots> = 2 ^ 64 mod n * card (drawing N n k ks) + 2 ^ 64 div n * card (drawing N (n - 1) m xs)"
      using card_rejected [OF n 2(3)] card_deciding [OF n 2(3), of x] 2(5) unfolding k by (simp add: card_cartesian_product)
    also have "\<dots> = 2 ^ 64 mod n * drawing_count N n k + 2 ^ 64 div n * drawing_count N (n - 1) m"
      using "2.IH"(1) [OF False 2(3-6)] "2.IH"(2) [OF False, of xs] 2(3-6) k by simp
    finally show ?thesis using False k by simp
  qed
qed

lemma drawing_count_pos: "k \<le> N \<Longrightarrow> n < 2 ^ 64 \<Longrightarrow> 0 < drawing_count N n k"
proof (induction N n k rule: drawing_count.induct)
  case (2 N n k)
  show ?case
  proof (cases "k = 0 \<or> n \<le> 1")
    case False
    then have "0 < drawing_count N (n - 1) (k - 1)" using 2 by (intro "2.IH"(2)) auto
    moreover have "0 < 2 ^ 64 div n" using False 2(4) by (simp add: div_greater_zero_iff)
    ultimately show ?thesis using False by simp
  qed auto
qed auto

section \<open>Uniformity\<close>

text \<open>What the lottery may return: distinct positions, as many as wanted or all of them.\<close>

definition selection :: "usize \<Rightarrow> usize \<Rightarrow> usize list \<Rightarrow> bool" where
  "selection population wanted ps \<longleftrightarrow> length ps = min wanted population \<and> distinct ps \<and> set ps \<subseteq> {..<population}"

text \<open>
  The words \<open>ws\<close> decide for \<open>ps\<close>: whatever the generator produces after them, the lottery returns
  \<open>ps\<close>.
\<close>

definition decides :: "usize \<Rightarrow> usize \<Rightarrow> usize list \<Rightarrow> u64 list \<Rightarrow> bool" where
  "decides population wanted ps ws \<longleftrightarrow> (\<forall>chacha seed. (\<forall>i < length ws. chacha seed i = ws ! i) \<longrightarrow>
     partial_fisher_yates chacha population wanted seed = Some (Inr ps))"

lemma decides_draws:
  assumes "population < 2 ^ 64" "offsets_ok population ks" "length ks = min wanted population"
  shows "decides population wanted (picks [0..<population] ks) ws \<longleftrightarrow> draws ws population (min wanted population) ks"
proof -
  have "ls = ks" if "offsets stream population (min wanted population) 0 = Some ls" "picks [0..<population] ls = picks [0..<population] ks"
    for ls stream
    using picks_inj [of "[0..<population]" ls ks] offsets_okD [OF that(1) _ assms(1)] that(2) assms(2,3) by simp
  then have drawn: "partial_fisher_yates chacha population wanted seed = Some (Inr (picks [0..<population] ks)) \<longleftrightarrow>
      offsets (chacha seed) population (min wanted population) 0 = Some ks" for chacha seed
    unfolding partial_fisher_yates_offsets [OF assms(1)] by (auto simp: map_option_eq_Some)
  have "(\<forall>(chacha :: byte list \<Rightarrow> stream) seed. starts ws (chacha seed) \<longrightarrow> P (chacha seed)) \<longleftrightarrow> (\<forall>stream. starts ws stream \<longrightarrow> P stream)"
    for P :: "stream \<Rightarrow> bool"
  proof (intro iffI allI impI)
    fix stream assume "\<forall>(chacha :: byte list \<Rightarrow> stream) seed. starts ws (chacha seed) \<longrightarrow> P (chacha seed)" "starts ws stream"
    then show "P stream" by (elim allE [of _ "\<lambda>_. stream"]) blast
  qed blast
  then show ?thesis unfolding decides_def drawn draws_def starts_def .
qed

lemma card_decides:
  assumes "population < 2 ^ 64" "selection population wanted ps"
  shows "card {ws. length ws = N \<and> decides population wanted ps ws} = drawing_count N population (min wanted population)"
proof -
  obtain ks where ks: "length ks = min wanted population" "offsets_ok population ks" "picks [0..<population] ks = ps"
    using picks_surj [of "[0..<population]" ps] assms(2) by (auto simp: selection_def atLeast0LessThan)
  have "{ws. length ws = N \<and> decides population wanted ps ws} = drawing N population (min wanted population) ks"
    unfolding drawing_def ks(3) [symmetric] decides_draws [OF assms(1) ks(2,1)] ..
  then show ?thesis using card_drawing [OF assms(1) _ ks(2,1)] by simp
qed

text \<open>
  C29: the lottery is uniform.  A result is always a selection of distinct positions, as many as were
  asked for (or the population), never a panic; and no selection is favoured: for every number N of
  generator words, each selection is decided by the same number of the sequences of N words, a
  number that is positive as soon as there is a word for every draw.
\<close>

theorem lottery_is_uniform:
  assumes "population < 2 ^ 64" "selection population wanted ps" "selection population wanted qs"
  shows "card {ws. length ws = N \<and> decides population wanted ps ws} = card {ws. length ws = N \<and> decides population wanted qs ws} \<and>
    (min wanted population \<le> N \<longrightarrow> 0 < card {ws. length ws = N \<and> decides population wanted ps ws}) \<and>
    (\<forall>r. partial_fisher_yates chacha population wanted seed = Some r \<longrightarrow> (\<exists>us. r = Inr us \<and> selection population wanted us))"
proof -
  have "selection population wanted (picks [0..<population] ks)"
    if "offsets (chacha seed) population (min wanted population) 0 = Some ks" for ks
    using offsets_okD [OF that _ assms(1)] picks_selects [of "[0..<population]" ks] by (auto simp: selection_def atLeast0LessThan)
  then show ?thesis
    using card_decides [OF assms(1,2)] card_decides [OF assms(1,3)] drawing_count_pos assms(1)
    by (auto simp: partial_fisher_yates_offsets map_option_eq_Some)
qed

lemma min_wanted_le: "min wanted (population :: nat) \<le> population"
  by simp

text \<open>
  C36: the lottery returns.  When the generator keeps producing words that are at least the
  population size, every rejection loop ends, nothing panics, and the result is a list of
  distinct positions inside the population, as many as were asked for (or the population).
\<close>

theorem lottery_returns:
  assumes "population < 2 ^ 64" "\<And>p. \<exists>i \<ge> p. of_nat population \<le> chacha seed i"
  shows "\<exists>ps. partial_fisher_yates chacha population wanted seed = Some (Inr ps) \<and>
    length ps = min wanted population \<and> distinct ps \<and> set ps \<subseteq> {..<population}"
proof -
  obtain ks where ks: "offsets (chacha seed) population (min wanted population) 0 = Some ks"
    using offsets_halt [OF min_wanted_le assms, of wanted 0] by blast
  from offsets_okD [OF ks min_wanted_le assms(1)] picks_selects [of "[0..<population]" ks]
  show ?thesis
    using partial_fisher_yates_offsets [OF assms(1), of chacha wanted seed] ks by (auto simp: atLeast0LessThan)
qed

lemma uniform_below_now:
  "\<not> bound \<le> 1 \<Longrightarrow> rejection_threshold bound \<le> stream pos \<Longrightarrow>
     uniform_below stream bound pos = Some (stream pos mod bound, pos + 1)"
  by (simp add: uniform_below_cases uniform_loop_accept)

text \<open>Two of five positions, drawn with three words: each of the twenty selections is decided alike, and one of them is drawn.\<close>

theorem lottery_is_uniform_witness:
  "partial_fisher_yates (\<lambda>_ i. of_nat (7 * i + 8)) 5 2 [] = Some (Inr [3, 4]) \<and>
   0 < card {ws. length ws = 3 \<and> decides 5 2 [3, 4] ws} \<and>
   card {ws. length ws = 3 \<and> decides 5 2 [3, 4] ws} = card {ws. length ws = 3 \<and> decides 5 2 [0, 1] ws}"
proof -
  have thresholds: "rejection_threshold 5 = 1" "rejection_threshold 4 = 0"
    by (simp_all add: word_unat_eq_iff unat_rejection_threshold word_less_nat_alt)
  have now: "uniform_below (\<lambda>i. of_nat (7 * i + 8)) 5 0 = Some (3, 1)"
      "uniform_below (\<lambda>i. of_nat (7 * i + 8)) 4 1 = Some (3, 2)"
    by (subst uniform_below_now; simp add: thresholds word_le_nat_alt)+
  have two: "(2 :: nat) = Suc (Suc 0)" by simp
  have draws: "offsets (\<lambda>i. of_nat (7 * i + 8)) 5 2 0 = Some [3, 3]"
    unfolding two by (simp add: now [simplified])
  have "[0..<5] = [0, 1, 2, 3, 4]" by (simp add: upt_rec)
  then have picked: "picks [0..<5] [3, 3] = [3, 4]" by simp
  have size: "(5 :: nat) < 2 ^ 64" by simp
  have selections: "selection 5 2 [3, 4]" "selection 5 2 [0, 1]" by (simp_all add: selection_def)
  have "min (2 :: nat) 5 = 2" by simp
  then have "partial_fisher_yates (\<lambda>_ i. of_nat (7 * i + 8)) 5 2 [] = Some (Inr [3, 4])"
    unfolding partial_fisher_yates_offsets [OF size] by (simp only: draws picked option.map)
  then show ?thesis using lottery_is_uniform [OF size selections, of 3 "\<lambda>_ i. of_nat (7 * i + 8)" "[]"] by simp
qed

theorem lottery_returns_witness:
  "\<exists>ps. partial_fisher_yates (\<lambda>_ i. of_nat (i + 8)) 5 2 [] = Some (Inr ps) \<and> length ps = 2 \<and>
     distinct ps \<and> set ps \<subseteq> {..<5}"
proof -
  have "\<exists>i \<ge> p. of_nat 5 \<le> (of_nat (i + 8) :: u64)" for p :: nat
  proof (intro exI conjI)
    show "p \<le> 2 ^ 64 * p" by simp
    have "(of_nat (2 ^ 64 * p + 8) :: u64) = of_nat (2 ^ 64) * of_nat p + 8" by (simp only: of_nat_add of_nat_mult of_nat_numeral)
    also have "(of_nat (2 ^ 64) :: u64) = 0" by simp
    finally show "of_nat 5 \<le> (of_nat (2 ^ 64 * p + 8) :: u64)" by simp
  qed
  from lottery_returns [of 5 "\<lambda>_ i. of_nat (i + 8)" "[]" 2, OF _ this] show ?thesis by simp
qed

end
