(* ===== verification/Clusters.thy ===== *)
theory Clusters
  imports Consensus Lottery
begin

text \<open>
  The clustering and scoring half of \<open>retirement.rs\<close>: similarity of two bodies, greedy
  complete-link clustering of the semantic-eligible candidates, and the consolidation score of a
  cluster.  Candidates are addressed by position; indexing out of range is a panic.
\<close>

section \<open>Similarity\<close>

definition jaccard :: "string fset \<Rightarrow> string fset \<Rightarrow> Ppm" where
  "jaccard left right =
     (let union = fcard (left |\<union>| right) in
      if union = 0 then PPM_ZERO
      else Ppm_ratio (unwrap_or (- 1) (u64_of_usize (fcard (left |\<inter>| right))))
        (unwrap_or (- 1) (u64_of_usize union)))"

text \<open>\<open>Ppm::from_raw_unchecked\<close> asserts its range.\<close>

definition asserted :: "Ppm option \<Rightarrow> Ppm outcome" where
  "asserted p = (case p of None \<Rightarrow> Inl Panic | Some x \<Rightarrow> Inr x)"

definition sum_positive :: "Ppm list \<Rightarrow> Ppm outcome" where
  "sum_positive values =
     (let sum = min (sum_list (map (ucast \<circ> ppm_get) values) :: u64) (ucast PPM_SCALE)
      in asserted (Ppm_from_raw_unchecked (unwrap_or PPM_SCALE (u32_of_u64 sum))))"

definition same_outcome_class :: "MemoryAtomBodyV1 \<Rightarrow> MemoryAtomBodyV1 \<Rightarrow> bool" where
  "same_outcome_class left right \<longleftrightarrow>
     (case bd_outcome_class left of None \<Rightarrow> False | Some value \<Rightarrow> value \<noteq> '''') \<and>
     bd_outcome_class left = bd_outcome_class right"

definition semantic_similarity :: "MemoryAtomBodyV1 \<Rightarrow> MemoryAtomBodyV1 \<Rightarrow> PolicyV1 \<Rightarrow> Ppm outcome" where
  "semantic_similarity left right policy =
     (let topic = jaccard (bd_topic_keys left) (bd_topic_keys right);
          entity = jaccard (bd_entity_ids left) (bd_entity_ids right);
          outcome = (if same_outcome_class left right then PPM_ONE else PPM_ZERO)
      in sum_positive
        [Ppm_multiply (po_similarity_topic_weight policy) topic,
         Ppm_multiply (po_similarity_entity_weight policy) entity,
         Ppm_multiply (po_similarity_outcome_weight policy) outcome])"

section \<open>Complete-link clustering\<close>

text \<open>\<open>Iterator::all\<close> stops at the first \<open>false\<close>.\<close>

fun try_all :: "('a \<Rightarrow> bool outcome) \<Rightarrow> 'a list \<Rightarrow> bool outcome" where
  "try_all p [] = Inr True"
| "try_all p (x # xs) = bindr (p x) (\<lambda>b. if b then try_all p xs else Inr False)"

definition compatible_pair :: "RetirementCandidateV1 list \<Rightarrow> PolicyV1 \<Rightarrow> usize \<Rightarrow> usize \<Rightarrow> bool outcome" where
  "compatible_pair candidates policy at member =
     bindr (index candidates at) (\<lambda>left.
     bindr (index candidates member) (\<lambda>right.
     case (rc_body left, rc_body right) of
       (Some l, Some r) \<Rightarrow> bindr (semantic_similarity l r policy) (\<lambda>s.
         Inr (s \<ge> po_cluster_similarity_threshold policy))
     | _ \<Rightarrow> Inr False))"

text \<open>The inner loop: the position of the first cluster all of whose members are compatible.\<close>

fun find_destination ::
  "RetirementCandidateV1 list \<Rightarrow> PolicyV1 \<Rightarrow> usize \<Rightarrow> usize list list \<Rightarrow> usize \<Rightarrow> usize option outcome" where
  "find_destination candidates policy at [] cluster_index = Inr None"
| "find_destination candidates policy at (cluster # clusters) cluster_index =
     bindr (try_all (compatible_pair candidates policy at) cluster) (\<lambda>compatible.
     if compatible then Inr (Some cluster_index)
     else find_destination candidates policy at clusters (cluster_index + 1))"

definition place_candidate ::
  "RetirementCandidateV1 list \<Rightarrow> PolicyV1 \<Rightarrow> usize list list \<Rightarrow> usize \<Rightarrow> usize list list outcome" where
  "place_candidate candidates policy clusters at =
     bindr (find_destination candidates policy at clusters 0) (\<lambda>destination.
     case destination of
       Some cluster_index \<Rightarrow> bindr (index clusters cluster_index) (\<lambda>cluster.
         store clusters cluster_index (cluster @ [at]))
     | None \<Rightarrow> Inr (clusters @ [[at]]))"

definition complete_link_clusters ::
  "RetirementCandidateV1 list \<Rightarrow> usize list \<Rightarrow> PolicyV1 \<Rightarrow> usize list list outcome" where
  "complete_link_clusters candidates ordered_indices policy =
     try_fold (place_candidate candidates policy) [] ordered_indices"

section \<open>The consolidation score\<close>

text \<open>\<open>remaining_bodies.split_first()\<close> until the slice is empty.\<close>

fun cohesion_loop :: "PolicyV1 \<Rightarrow> Ppm \<Rightarrow> MemoryAtomBodyV1 list \<Rightarrow> Ppm outcome" where
  "cohesion_loop policy cohesion [] = Inr cohesion"
| "cohesion_loop policy cohesion (left # tail) =
     bindr (try_fold (\<lambda>c right. bindr (semantic_similarity left right policy) (\<lambda>s. Inr (min c s))) cohesion tail)
       (\<lambda>cohesion'. cohesion_loop policy cohesion' tail)"

definition cluster_candidates :: "RetirementCandidateV1 list \<Rightarrow> usize list \<Rightarrow> RetirementCandidateV1 list outcome" where
  "cluster_candidates candidates cluster = traverse (index candidates) cluster"

definition weighted :: "Ppm \<Rightarrow> Ppm \<Rightarrow> u64" where
  "weighted weight x = ucast (ppm_get (Ppm_multiply weight x))"

definition score_total :: "PolicyV1 \<Rightarrow> Ppm \<Rightarrow> Ppm \<Rightarrow> Ppm \<Rightarrow> Ppm \<Rightarrow> Ppm \<Rightarrow> Ppm \<Rightarrow> Ppm \<Rightarrow> Ppm outcome" where
  "score_total policy support diversity utility salience cohesion novelty uncertainty =
     (let positive = weighted (po_consolidation_support_weight policy) support
            + weighted (po_consolidation_diversity_weight policy) diversity
            + weighted (po_consolidation_utility_weight policy) utility
            + weighted (po_consolidation_salience_weight policy) salience
            + weighted (po_consolidation_cohesion_weight policy) cohesion
            + weighted (po_consolidation_novelty_weight policy) novelty;
          negative = weighted (po_consolidation_uncertainty_weight policy) uncertainty;
          bounded = min (saturating_sub positive negative) (ucast PPM_SCALE)
      in asserted (Ppm_from_raw_unchecked (unwrap_or PPM_SCALE (u32_of_u64 bounded))))"

definition session_count :: "MemoryAtomBodyV1 list \<Rightarrow> usize" where
  "session_count bodies = fcard (fset_of_list (map (sc_session_id \<circ> bd_scope) bodies))"

definition consolidation_score ::
  "RetirementCandidateV1 list \<Rightarrow> usize list \<Rightarrow> PolicyV1 \<Rightarrow> ConsolidationScoreV1 outcome" where
  "consolidation_score candidates cluster policy =
     bindr (cluster_candidates candidates cluster) (\<lambda>members.
     let bodies = List.map_filter rc_body members;
         support = Ppm_ratio (unwrap_or (- 1) (u64_of_usize (length bodies)))
           (unwrap_or (- 1) (u64_of_usize (po_support_saturation_atoms policy)));
         sessions = session_count bodies;
         diversity = Ppm_ratio (unwrap_or (- 1) (u64_of_usize sessions))
           (unwrap_or (- 1) (u64_of_usize (length bodies)));
         utility = Ppm_mean (map (validated_utility \<circ> rc_state) members);
         salience = Ppm_mean (map (fo_salience \<circ> bd_formation_signals) bodies);
         novelty = Ppm_mean (map (fo_novelty \<circ> bd_formation_signals) bodies);
         uncertainty = Ppm_mean (map (fo_uncertainty \<circ> bd_formation_signals) bodies)
     in bindr (cohesion_loop policy PPM_ONE bodies) (\<lambda>cohesion.
        bindr (score_total policy support diversity utility salience cohesion novelty uncertainty) (\<lambda>total.
        Inr \<lparr>cs_support = support, cs_diversity = diversity, cs_utility = utility,
             cs_salience = salience, cs_cohesion = cohesion, cs_novelty = novelty,
             cs_uncertainty = uncertainty, cs_total = total\<rparr>)))"

section \<open>The similarity is total, bounded and symmetric\<close>

lemma asserted_clamp:
  "asserted (Ppm_from_raw_unchecked (unwrap_or PPM_SCALE (u32_of_u64 (min x (ucast PPM_SCALE)))))
     = Inr (Ppm (unwrap_or PPM_SCALE (u32_of_u64 (min x (ucast PPM_SCALE)))))"
proof -
  have "unat (unwrap_or PPM_SCALE (u32_of_u64 (min x (ucast PPM_SCALE)))) \<le> 1000000"
    by (auto simp: u32_of_u64_def unat_simps unsigned_ucast_eq take_bit_nat_eq_self)
  then show ?thesis by (simp add: asserted_def Ppm_from_raw_unchecked_def word_le_nat_alt)
qed

lemma unat_clamp_min:
  "unat (unwrap_or PPM_SCALE (u32_of_u64 (min x (ucast PPM_SCALE)))) = min (unat x) 1000000"
  by (auto simp: u32_of_u64_def unat_simps unsigned_ucast_eq take_bit_nat_eq_self)

definition similarity :: "MemoryAtomBodyV1 \<Rightarrow> MemoryAtomBodyV1 \<Rightarrow> PolicyV1 \<Rightarrow> Ppm" where
  "similarity left right policy =
     Ppm (unwrap_or PPM_SCALE (u32_of_u64 (min (sum_list (map (ucast \<circ> ppm_get)
       [Ppm_multiply (po_similarity_topic_weight policy) (jaccard (bd_topic_keys left) (bd_topic_keys right)),
        Ppm_multiply (po_similarity_entity_weight policy) (jaccard (bd_entity_ids left) (bd_entity_ids right)),
        Ppm_multiply (po_similarity_outcome_weight policy)
          (if same_outcome_class left right then PPM_ONE else PPM_ZERO)])) (ucast PPM_SCALE))))"

lemma semantic_similarity_eq: "semantic_similarity left right policy = Inr (similarity left right policy)"
  unfolding semantic_similarity_def sum_positive_def Let_def asserted_clamp similarity_def ..

lemma jaccard_commute: "jaccard a b = jaccard b a"
  by (simp add: jaccard_def Let_def sup_commute inf_commute)

lemma same_outcome_class_commute: "same_outcome_class a b = same_outcome_class b a"
  by (auto simp: same_outcome_class_def)

lemma similarity_commute: "similarity a b policy = similarity b a policy"
  by (simp only: similarity_def jaccard_commute [of "bd_topic_keys a"] jaccard_commute [of "bd_entity_ids a"]
      same_outcome_class_commute [of a])

lemma ppm_ok_jaccard [simp]: "ppm_ok (jaccard a b)"
  by (simp add: jaccard_def Let_def)

lemma ppm_ok_similarity [simp]: "ppm_ok (similarity a b policy)"
  by (simp only: similarity_def ppm_ok_iff Ppm.sel unat_clamp_min min.cobounded2)

section \<open>Greedy complete-link clustering, declaratively\<close>

text \<open>The clustering over an arbitrary compatibility relation: the first cluster that fits.\<close>

fun place :: "('a \<Rightarrow> 'a \<Rightarrow> bool) \<Rightarrow> 'a \<Rightarrow> 'a list list \<Rightarrow> 'a list list" where
  "place link x [] = [[x]]"
| "place link x (c # cs) = (if list_all (link x) c then (c @ [x]) # cs else c # place link x cs)"

definition first_fit :: "('a \<Rightarrow> 'a \<Rightarrow> bool) \<Rightarrow> 'a list \<Rightarrow> 'a list list" where
  "first_fit link xs = foldl (\<lambda>cs x. place link x cs) [] xs"

definition linked_at :: "RetirementCandidateV1 list \<Rightarrow> PolicyV1 \<Rightarrow> usize \<Rightarrow> usize \<Rightarrow> bool" where
  "linked_at candidates policy i j =
     (case (rc_body (candidates ! i), rc_body (candidates ! j)) of
       (Some l, Some r) \<Rightarrow> po_cluster_similarity_threshold policy \<le> similarity l r policy
     | _ \<Rightarrow> False)"

lemma linked_at_commute: "linked_at candidates policy i j = linked_at candidates policy j i"
  by (simp add: linked_at_def similarity_commute split: option.split)

lemma compatible_pair_eq:
  "i < length candidates \<Longrightarrow> j < length candidates \<Longrightarrow>
     compatible_pair candidates policy i j = Inr (linked_at candidates policy i j)"
  by (simp add: compatible_pair_def linked_at_def semantic_similarity_eq split: option.split)

lemma try_all_compatible:
  "i < length candidates \<Longrightarrow> \<forall>j \<in> set c. j < length candidates \<Longrightarrow>
     try_all (compatible_pair candidates policy i) c = Inr (list_all (linked_at candidates policy i) c)"
  by (induction c) (auto simp: compatible_pair_eq)

text \<open>The position found by the inner loop is where \<open>place\<close> appends.\<close>

lemma find_destination_place:
  assumes "i < length candidates" "\<forall>c \<in> set cs. \<forall>j \<in> set c. j < length candidates"
  shows "case find_destination candidates policy i cs k of
      Inl e \<Rightarrow> False
    | Inr None \<Rightarrow> place (linked_at candidates policy) i cs = cs @ [[i]]
    | Inr (Some d) \<Rightarrow> k \<le> d \<and> d - k < length cs \<and>
        place (linked_at candidates policy) i cs = cs[d - k := cs ! (d - k) @ [i]]"
  using assms
proof (induction cs arbitrary: k)
  case (Cons c cs)
  then have all: "try_all (compatible_pair candidates policy i) c = Inr (list_all (linked_at candidates policy i) c)"
    by (intro try_all_compatible) auto
  show ?case
  proof (cases "list_all (linked_at candidates policy i) c")
    case False
    then have step: "find_destination candidates policy i (c # cs) k = find_destination candidates policy i cs (k + 1)"
      by (simp add: all)
    have shift: "d - k = Suc (d - (k + 1))" if "k + 1 \<le> d" for d using that by simp
    show ?thesis
      using Cons.IH [of "k + 1"] Cons.prems False shift unfolding step
      by (simp split: sum.splits option.splits)
  qed (simp add: all)
qed simp

lemma place_candidate_eq:
  assumes "i < length candidates" "\<forall>c \<in> set cs. \<forall>j \<in> set c. j < length candidates"
  shows "place_candidate candidates policy cs i = Inr (place (linked_at candidates policy) i cs)"
  using find_destination_place [OF assms, of policy 0]
  by (auto simp: place_candidate_def split: sum.splits option.splits)

lemma set_concat_place: "set (concat (place link x cs)) = insert x (set (concat cs))"
  by (induction cs) auto

lemma complete_link_clusters_fold:
  assumes "\<forall>i \<in> set is. i < length candidates" "\<forall>c \<in> set cs. \<forall>j \<in> set c. j < length candidates"
  shows "try_fold (place_candidate candidates policy) cs is =
    Inr (foldl (\<lambda>cs i. place (linked_at candidates policy) i cs) cs is)"
  using assms
proof (induction "is" arbitrary: cs)
  case (Cons i "is")
  have "\<forall>c \<in> set (place (linked_at candidates policy) i cs). \<forall>j \<in> set c. j < length candidates"
    using set_concat_place [of "linked_at candidates policy" i cs] Cons.prems by auto
  with Cons show ?case by (simp add: place_candidate_eq)
qed simp

lemma complete_link_clusters_eq:
  "\<forall>i \<in> set is. i < length candidates \<Longrightarrow>
     complete_link_clusters candidates is policy = Inr (first_fit (linked_at candidates policy) is)"
  unfolding complete_link_clusters_def first_fit_def by (rule complete_link_clusters_fold) simp_all

section \<open>What the clustering satisfies\<close>

text \<open>
  \<open>clustering link xs cs\<close>: the clusters partition the indices \<open>xs\<close>, every cluster is in
  ascending order with pairwise linked members, and a member of a later cluster was refused by
  every earlier one: some smaller member there is not linked to it.
\<close>

definition clustering :: "(nat \<Rightarrow> nat \<Rightarrow> bool) \<Rightarrow> nat list \<Rightarrow> nat list list \<Rightarrow> bool" where
  "clustering link xs cs \<longleftrightarrow>
     mset (concat cs) = mset xs \<and> [] \<notin> set cs \<and>
     (\<forall>c \<in> set cs. sorted_wrt (\<lambda>x y. x < y \<and> link y x) c) \<and>
     (\<forall>b < length cs. \<forall>a < b. \<forall>y \<in> set (cs ! b). \<exists>x \<in> set (cs ! a). x < y \<and> \<not> link y x)"

lemma place_cases:
  "\<exists>d \<le> length cs. (\<forall>a < d. \<not> list_all (link x) (cs ! a)) \<and>
     (if d < length cs then list_all (link x) (cs ! d) \<and> place link x cs = cs[d := cs ! d @ [x]]
      else place link x cs = cs @ [[x]])"
proof (induction cs)
  case (Cons c cs)
  show ?case
  proof (cases "list_all (link x) c")
    case True
    then show ?thesis by (intro exI [of _ 0]) simp
  next
    case False
    from Cons.IH obtain d where "d \<le> length cs" "\<forall>a < d. \<not> list_all (link x) (cs ! a)"
      "if d < length cs then list_all (link x) (cs ! d) \<and> place link x cs = cs[d := cs ! d @ [x]]
       else place link x cs = cs @ [[x]]" by blast
    with False show ?thesis
      by (intro exI [of _ "Suc d"]) (auto simp: nth_Cons split: nat.split if_splits)
  qed
qed simp

lemma mset_concat_update:
  "d < length cs \<Longrightarrow> mset (concat (cs[d := cs ! d @ [x]])) = add_mset x (mset (concat cs))"
proof (induction cs arbitrary: d)
  case (Cons c cs)
  then show ?case by (cases d) simp_all
qed simp

lemma place_clustering:
  assumes "clustering link xs cs" "\<forall>y \<in> set xs. y < x"
  shows "clustering link (xs @ [x]) (place link x cs)"
proof -
  have "set (concat cs) = set xs" using assms(1) unfolding clustering_def by (blast dest: mset_eq_setD)
  then have members: "y < x" if "c \<in> set cs" "y \<in> set c" for c y using assms(2) that by auto
  from place_cases [of cs link x] obtain d where d: "d \<le> length cs" "\<forall>a < d. \<not> list_all (link x) (cs ! a)"
    "if d < length cs then list_all (link x) (cs ! d) \<and> place link x cs = cs[d := cs ! d @ [x]]
       else place link x cs = cs @ [[x]]" by blast
  have refused: "\<exists>z \<in> set (cs ! a). z < x \<and> \<not> link x z" if "a < d" for a
    using d(1,2) that members [of "cs ! a"] by (auto simp: list_all_iff)
  have later: "\<exists>z \<in> set (cs ! a). z < y \<and> \<not> link y z" if "a < b" "b < length cs" "y \<in> set (cs ! b)" for a b y
    using assms(1) that by (auto simp: clustering_def)
  show ?thesis
  proof (cases "d < length cs")
    case True
    then have eq: "place link x cs = cs[d := cs ! d @ [x]]" and all: "list_all (link x) (cs ! d)" using d(3) by auto
    have "sorted_wrt (\<lambda>x y. x < y \<and> link y x) (cs ! d @ [x])"
      using assms(1) True all members [of "cs ! d"] by (auto simp: clustering_def sorted_wrt_append list_all_iff)
    then have "\<forall>c \<in> set (cs[d := cs ! d @ [x]]). sorted_wrt (\<lambda>x y. x < y \<and> link y x) c"
      using assms(1) by (auto simp: clustering_def dest!: set_update_subset_insert [THEN subsetD])
    moreover have "\<exists>z \<in> set (cs[d := cs ! d @ [x]] ! a). z < y \<and> \<not> link y z"
      if "a < b" "b < length cs" "y \<in> set (cs[d := cs ! d @ [x]] ! b)" for a b y
      using that True refused later by (auto simp: nth_list_update split: if_splits)
    moreover have "[] \<notin> set (cs[d := cs ! d @ [x]])"
      using assms(1) by (auto simp: clustering_def dest!: set_update_subset_insert [THEN subsetD])
    ultimately show ?thesis
      using assms(1) True unfolding clustering_def eq by (simp add: mset_concat_update)
  next
    case False
    then have eq: "place link x cs = cs @ [[x]]" "d = length cs" using d by auto
    show ?thesis
      using assms(1) refused later unfolding clustering_def eq by (auto simp: nth_append less_Suc_eq split: if_splits)
  qed
qed

lemma first_fit_clustering:
  "sorted_wrt (<) xs \<Longrightarrow> clustering link xs (first_fit link xs)"
proof (induction xs rule: rev_induct)
  case Nil
  show ?case by (simp add: clustering_def first_fit_def)
next
  case (snoc x xs)
  then show ?case
    using place_clustering [of link xs "first_fit link xs" x] by (simp add: first_fit_def sorted_wrt_append)
qed

text \<open>These laws determine the clusters, so the greedy procedure is the only way to satisfy them.\<close>

lemma place_at:
  "\<forall>a < d. \<not> list_all (link x) (cs ! a) \<Longrightarrow> d < length cs \<Longrightarrow> list_all (link x) (cs ! d) \<Longrightarrow>
     place link x cs = cs[d := cs ! d @ [x]]"
proof (induction cs arbitrary: d)
  case (Cons c cs)
  show ?case
  proof (cases d)
    case (Suc e)
    then have "\<forall>a < e. \<not> list_all (link x) (cs ! a)" using Cons.prems(1) by (metis Suc_less_eq nth_Cons_Suc)
    with Cons Suc show ?thesis by (metis length_Cons list_update_code(3) Suc_less_eq nth_Cons_0 nth_Cons_Suc place.simps(2) zero_less_Suc)
  qed (use Cons in simp)
qed simp

lemma place_end:
  "\<forall>a < length cs. \<not> list_all (link x) (cs ! a) \<Longrightarrow> place link x cs = cs @ [[x]]"
proof (induction cs)
  case (Cons c cs)
  then have "\<forall>a < length cs. \<not> list_all (link x) (cs ! a)" "\<not> list_all (link x) c"
    by (metis length_Cons Suc_less_eq nth_Cons_Suc, metis length_Cons nth_Cons_0 zero_less_Suc)
  with Cons.IH show ?case by simp
qed simp

lemma clustering_last:
  assumes "clustering link (xs @ [x]) cs" "\<forall>y \<in> set xs. y < x"
  shows "\<exists>cs0. clustering link xs cs0 \<and> cs = place link x cs0"
proof -
  note parts = assms(1) [unfolded clustering_def]
  have mset: "mset (concat cs) = mset (xs @ [x])" using parts by blast
  then have elems: "set (concat cs) = insert x (set xs)" by (metis mset_eq_setD set_append list.set(1,2) Un_commute insert_is_Un)
  then have "x \<in> set (concat cs)" by simp
  then obtain c where "c \<in> set cs" "x \<in> set c" by auto
  then obtain d where d: "d < length cs" "x \<in> set (cs ! d)" by (metis in_set_conv_nth)
  have le: "y \<le> x" if "b < length cs" "y \<in> set (cs ! b)" for b y
  proof -
    have "y \<in> set (concat cs)" using that by auto
    then show ?thesis using assms(2) unfolding elems by auto
  qed
  obtain us vs where split: "cs ! d = us @ x # vs" using d(2) by (meson split_list)
  have sorted: "sorted_wrt (\<lambda>x y. x < y \<and> link y x) (us @ x # vs)"
    using parts d(1) split by (metis nth_mem)
  have "vs = []"
  proof (cases vs)
    case (Cons v vs')
    then have "x < v" using sorted by (simp add: sorted_wrt_append)
    moreover have "v \<le> x" using le [OF d(1), of v] split Cons by simp
    ultimately show ?thesis by simp
  qed
  with split sorted have last: "cs ! d = us @ [x]" and us: "sorted_wrt (\<lambda>x y. x < y \<and> link y x) us" "list_all (link x) us"
    by (auto simp: sorted_wrt_append list_all_iff)
  have refused: "\<not> list_all (link x) (cs ! a)" if "a < d" for a
    using parts d that unfolding list_all_iff by blast
  have split_cs: "cs = take d cs @ (us @ [x]) # drop (Suc d) cs"
    using id_take_nth_drop [OF d(1)] last by simp
  have "mset (concat cs) = add_mset x (mset (concat (take d cs)) + mset us + mset (concat (drop (Suc d) cs)))"
    by (subst split_cs) simp
  then have total: "mset (concat (take d cs)) + mset us + mset (concat (drop (Suc d) cs)) = mset xs"
    using mset by simp
  show ?thesis
  proof (cases "us = []")
    case True
    have "drop (Suc d) cs = []"
    proof (rule ccontr)
      assume "drop (Suc d) cs \<noteq> []"
      then have b: "Suc d < length cs" by simp
      then obtain y where y: "y \<in> set (cs ! Suc d)" using parts by (metis last_in_set nth_mem)
      then have "\<exists>z \<in> set (cs ! d). z < y" using parts b by blast
      then show False using le [OF b y] last True by auto
    qed
    then have cs: "cs = take d cs @ [[x]]" using split_cs True by simp
    have "\<exists>z \<in> set (take d cs ! a). z < y \<and> \<not> link y z" if "a < b" "b < d" "y \<in> set (take d cs ! b)" for a b y
    proof -
      have "b < length cs" "y \<in> set (cs ! b)" using that d(1) by simp_all
      then have "\<exists>z \<in> set (cs ! a). z < y \<and> \<not> link y z" using parts that(1) by blast
      then show ?thesis using that by simp
    qed
    then have "clustering link xs (take d cs)"
      using parts total True \<open>drop (Suc d) cs = []\<close> d(1) unfolding clustering_def
      by (simp add: min_def) (meson in_set_takeD)
    moreover have "place link x (take d cs) = take d cs @ [[x]]"
      by (rule place_end) (use refused in simp)
    ultimately show ?thesis using cs by (metis (no_types))
  next
    case False
    let ?cs = "cs[d := us]"
    have restore: "cs = ?cs[d := ?cs ! d @ [x]]" using d(1) last by (metis length_list_update list_update_id list_update_overwrite nth_list_update_eq)
    have "mset (concat ?cs) = mset xs"
      using total d(1) by (simp add: upd_conv_take_nth_drop add.assoc)
    moreover have "[] \<notin> set ?cs" using parts False by (auto dest!: set_update_subset_insert [THEN subsetD])
    moreover have "\<forall>c \<in> set ?cs. sorted_wrt (\<lambda>x y. x < y \<and> link y x) c"
      using parts us by (auto dest!: set_update_subset_insert [THEN subsetD])
    moreover have "\<exists>z \<in> set (?cs ! a). z < y \<and> \<not> link y z" if pos: "a < b" "b < length cs" "y \<in> set (?cs ! b)" for a b y
    proof -
      have y: "y \<in> set (cs ! b)" using pos last d(1) by (auto simp: nth_list_update split: if_splits)
      then obtain z where z: "z \<in> set (cs ! a)" "z < y" "\<not> link y z" using parts pos by blast
      have "z \<noteq> x" using le [OF pos(2) y] z(2) by simp
      then have "z \<in> set (?cs ! a)" using z(1) last d(1) pos by (auto simp: nth_list_update)
      with z show ?thesis by blast
    qed
    ultimately have "clustering link xs ?cs" unfolding clustering_def by simp
    moreover have "place link x ?cs = ?cs[d := ?cs ! d @ [x]]"
      using refused us(2) d(1) by (intro place_at) auto
    ultimately show ?thesis using restore by (metis (no_types))
  qed
qed

lemma clustering_unique: "sorted_wrt (<) xs \<Longrightarrow> clustering link xs cs \<longleftrightarrow> cs = first_fit link xs"
proof (induction xs arbitrary: cs rule: rev_induct)
  case Nil
  have "cs = []" if "\<forall>c \<in> set cs. c = []" "[] \<notin> set cs" using that by (cases cs) auto
  then show ?case by (auto simp: clustering_def first_fit_def)
next
  case (snoc x xs)
  then have sorted: "sorted_wrt (<) xs" "\<forall>y \<in> set xs. y < x" by (simp_all add: sorted_wrt_append)
  have step: "first_fit link (xs @ [x]) = place link x (first_fit link xs)" by (simp add: first_fit_def)
  show ?case
  proof
    assume "clustering link (xs @ [x]) cs"
    then obtain cs0 where "clustering link xs cs0" "cs = place link x cs0"
      using clustering_last [of link xs x cs] sorted(2) by blast
    then show "cs = first_fit link (xs @ [x])" using snoc.IH [OF sorted(1)] step by simp
  next
    assume "cs = first_fit link (xs @ [x])"
    then show "clustering link (xs @ [x]) cs" using first_fit_clustering [OF snoc.prems] by simp
  qed
qed

text \<open>
  C30: the greedy clustering of candidates at ascending positions never panics and returns the
  unique partition into pairwise similar clusters in which every member of a later cluster was
  refused by each earlier one.
\<close>

theorem complete_link_clusters_spec:
  assumes "sorted_wrt (<) indices" "\<forall>i \<in> set indices. i < length candidates"
  shows "complete_link_clusters candidates indices policy = Inr clusters \<longleftrightarrow>
    clustering (linked_at candidates policy) indices clusters"
  unfolding complete_link_clusters_eq [OF assms(2)] clustering_unique [OF assms(1)] by auto

section \<open>The consolidation score\<close>

lemma cohesion_inner:
  "try_fold (\<lambda>c right. bindr (semantic_similarity left right policy) (\<lambda>s. Inr (min c s))) c tail =
     Inr (fold (\<lambda>right c. min c (similarity left right policy)) tail c)"
  by (induction tail arbitrary: c) (simp_all add: semantic_similarity_eq)

lemma le_fold_min: "(p :: Ppm) \<le> fold (\<lambda>x c. min c (f x)) xs c \<longleftrightarrow> p \<le> c \<and> (\<forall>x \<in> set xs. p \<le> f x)"
  by (induction xs arbitrary: c) auto

lemma cohesion_loop_spec:
  "\<exists>c'. cohesion_loop policy c bodies = Inr c' \<and>
     (\<forall>p. p \<le> c' \<longleftrightarrow> p \<le> c \<and> sorted_wrt (\<lambda>l r. p \<le> similarity l r policy) bodies)"
proof (induction bodies arbitrary: c)
  case (Cons b bodies)
  let ?c = "fold (\<lambda>right c. min c (similarity b right policy)) bodies c"
  from Cons.IH [of ?c] obtain c' where "cohesion_loop policy ?c bodies = Inr c'"
    "\<And>p. p \<le> c' \<longleftrightarrow> p \<le> ?c \<and> sorted_wrt (\<lambda>l r. p \<le> similarity l r policy) bodies" by blast
  then show ?case by (intro exI [of _ c']) (auto simp: cohesion_inner le_fold_min)
qed simp

lemma cohesion_loop_total: "\<exists>c'. cohesion_loop policy c bodies = Inr c' \<and> c' \<le> c"
  using cohesion_loop_spec [of policy c bodies] by blast

lemma unat_weighted: "unat (weighted w x) = min (unat (ppm_get w) * unat (ppm_get x) div 1000000) 1000000"
  by (simp add: weighted_def unat_Ppm_multiply)

lemma weighted_le: "unat (weighted w x) \<le> 1000000"
  by (simp add: unat_weighted)

lemma unat_sum6:
  fixes a b c d e f :: u64
  assumes "unat a \<le> 1000000" "unat b \<le> 1000000" "unat c \<le> 1000000" "unat d \<le> 1000000"
    "unat e \<le> 1000000" "unat f \<le> 1000000"
  shows "unat (a + b + c + d + e + f) = unat a + unat b + unat c + unat d + unat e + unat f"
proof -
  have "unat (a + b) = unat a + unat b" using assms by (subst unat_word_add_lt) simp_all
  moreover from this have "unat (a + b + c) = unat a + unat b + unat c"
    using assms by (subst unat_word_add_lt) simp_all
  moreover from this have "unat (a + b + c + d) = unat a + unat b + unat c + unat d"
    using assms by (subst unat_word_add_lt) simp_all
  moreover from this have "unat (a + b + c + d + e) = unat a + unat b + unat c + unat d + unat e"
    using assms by (subst unat_word_add_lt) simp_all
  ultimately show ?thesis using assms by (subst unat_word_add_lt) simp_all
qed

lemma score_total_spec:
  "\<exists>t. score_total policy s d u l c n x = Inr t \<and> unat (ppm_get t) =
     min (unat (weighted (po_consolidation_support_weight policy) s)
       + unat (weighted (po_consolidation_diversity_weight policy) d)
       + unat (weighted (po_consolidation_utility_weight policy) u)
       + unat (weighted (po_consolidation_salience_weight policy) l)
       + unat (weighted (po_consolidation_cohesion_weight policy) c)
       + unat (weighted (po_consolidation_novelty_weight policy) n)
       - unat (weighted (po_consolidation_uncertainty_weight policy) x)) 1000000"
  by (simp add: score_total_def Let_def asserted_clamp unat_clamp_min unat_saturating_sub unat_sum6 weighted_le)

definition score_ok :: "ConsolidationScoreV1 \<Rightarrow> bool" where
  "score_ok s \<longleftrightarrow> ppm_ok (cs_support s) \<and> ppm_ok (cs_diversity s) \<and> ppm_ok (cs_utility s) \<and> ppm_ok (cs_salience s)
     \<and> ppm_ok (cs_cohesion s) \<and> ppm_ok (cs_novelty s) \<and> ppm_ok (cs_uncertainty s) \<and> ppm_ok (cs_total s)"

lemma cluster_candidates_eq:
  "\<forall>i \<in> set cluster. i < length candidates \<Longrightarrow>
     cluster_candidates candidates cluster = Inr (map ((!) candidates) cluster)"
  unfolding cluster_candidates_def by (rule traverse_map_Inr) simp

definition cluster_bodies :: "RetirementCandidateV1 list \<Rightarrow> usize list \<Rightarrow> MemoryAtomBodyV1 list" where
  "cluster_bodies candidates cluster = List.map_filter rc_body (map ((!) candidates) cluster)"

definition weighted_sum :: "ConsolidationScoreV1 \<Rightarrow> nat" where
  "weighted_sum s =
     (25 * unat (ppm_get (cs_support s))) div 100 + unat (ppm_get (cs_diversity s)) div 5
     + unat (ppm_get (cs_utility s)) div 5 + (15 * unat (ppm_get (cs_salience s))) div 100
     + unat (ppm_get (cs_cohesion s)) div 10 + unat (ppm_get (cs_novelty s)) div 10"

text \<open>
  the consolidation score of a non-empty cluster of candidates with bodies.  Scoring never
  panics; every component is a valid fixed-point value; support counts sources against the
  saturation, diversity is the share of distinct sessions, cohesion is the greatest lower bound of
  the pairwise similarities; and the total is the weighted sum of the positive components less the
  weighted uncertainty, not below zero, with no rounding beyond each product's floor.
\<close>

theorem consolidation_score_spec:
  assumes "\<forall>i \<in> set cluster. i < length candidates \<and> rc_body (candidates ! i) \<noteq> None"
    and "cluster \<noteq> []" "length cluster < 2 ^ 64"
  shows "\<exists>s. consolidation_score candidates cluster poc_v1 = Inr s \<and> score_ok s \<and>
    unat (ppm_get (cs_total s)) = weighted_sum s - (15 * unat (ppm_get (cs_uncertainty s))) div 100 \<and>
    unat (ppm_get (cs_support s)) = min (length cluster * 100000) 1000000 \<and>
    unat (ppm_get (cs_diversity s)) =
      session_count (cluster_bodies candidates cluster) * 1000000 div length cluster \<and>
    (\<forall>p. p \<le> cs_cohesion s \<longleftrightarrow> p \<le> PPM_ONE \<and>
      sorted_wrt (\<lambda>l r. p \<le> similarity l r poc_v1) (cluster_bodies candidates cluster))"
proof -
  let ?bodies = "cluster_bodies candidates cluster"
  have range: "\<forall>i \<in> set cluster. i < length candidates" using assms(1) by blast
  have len: "length ?bodies = length cluster" using assms(1)
    unfolding cluster_bodies_def by (induction cluster) (auto simp: List.map_filter_simps)
  obtain c where c: "cohesion_loop poc_v1 PPM_ONE ?bodies = Inr c"
    "\<And>p. p \<le> c \<longleftrightarrow> p \<le> PPM_ONE \<and> sorted_wrt (\<lambda>l r. p \<le> similarity l r poc_v1) ?bodies"
    using cohesion_loop_spec by blast
  then have c_ok: "ppm_ok c" using c(2) [of c] by (simp add: ppm_ok_def less_eq_Ppm_def PPM_ONE_def)
  define support where "support = Ppm_ratio (unwrap_or (- 1) (u64_of_usize (length ?bodies))) (unwrap_or (- 1) (u64_of_usize 10))"
  define diversity where "diversity = Ppm_ratio (unwrap_or (- 1) (u64_of_usize (session_count ?bodies)))
     (unwrap_or (- 1) (u64_of_usize (length ?bodies)))"
  define utility where "utility = Ppm_mean (map (validated_utility \<circ> rc_state) (map ((!) candidates) cluster))"
  define salience where "salience = Ppm_mean (map (fo_salience \<circ> bd_formation_signals) ?bodies)"
  define novelty where "novelty = Ppm_mean (map (fo_novelty \<circ> bd_formation_signals) ?bodies)"
  define uncertainty where "uncertainty = Ppm_mean (map (fo_uncertainty \<circ> bd_formation_signals) ?bodies)"
  note defs = support_def diversity_def utility_def salience_def novelty_def uncertainty_def
  obtain t where t: "score_total poc_v1 support diversity utility salience c novelty uncertainty = Inr t"
    and total: "unat (ppm_get t) = min (unat (weighted (po_consolidation_support_weight poc_v1) support)
       + unat (weighted (po_consolidation_diversity_weight poc_v1) diversity)
       + unat (weighted (po_consolidation_utility_weight poc_v1) utility)
       + unat (weighted (po_consolidation_salience_weight poc_v1) salience)
       + unat (weighted (po_consolidation_cohesion_weight poc_v1) c)
       + unat (weighted (po_consolidation_novelty_weight poc_v1) novelty)
       - unat (weighted (po_consolidation_uncertainty_weight poc_v1) uncertainty)) 1000000"
    using score_total_spec by blast
  let ?s = "\<lparr>cs_support = support, cs_diversity = diversity, cs_utility = utility, cs_salience = salience,
     cs_cohesion = c, cs_novelty = novelty, cs_uncertainty = uncertainty, cs_total = t\<rparr>"
  have result: "consolidation_score candidates cluster poc_v1 = Inr ?s"
    using c(1) t unfolding consolidation_score_def cluster_candidates_eq [OF range]
    by (simp add: Let_def cluster_bodies_def defs)
  have ok: "ppm_ok support" "ppm_ok diversity" "ppm_ok utility" "ppm_ok salience" "ppm_ok novelty" "ppm_ok uncertainty"
    by (simp_all add: defs)
  have "ppm_ok t" using total by (simp add: ppm_ok_iff)
  with ok c_ok have "score_ok ?s" by (simp add: score_ok_def)
  moreover have "unat (ppm_get t) = weighted_sum ?s - (15 * unat (ppm_get uncertainty)) div 100"
    using ok c_ok unfolding total weighted_sum_def
    by (simp add: unat_weighted poc_v1_def ppm_ok_iff) 
  moreover have "unat (ppm_get support) = min (length cluster * 100000) 1000000"
    using assms(3) by (simp add: support_def unat_Ppm_ratio len u64_of_usize_def unat_of_nat)
  moreover have "unat (ppm_get diversity) = session_count ?bodies * 1000000 div length cluster"
  proof -
    have le: "session_count ?bodies \<le> length cluster"
      using card_length [of "map (sc_session_id \<circ> bd_scope) ?bodies"]
      by (simp add: session_count_def fcard.rep_eq fset_of_list.rep_eq len)
    then have "session_count ?bodies * 1000000 div length cluster \<le> length cluster * 1000000 div length cluster"
      by (intro div_le_mono) simp
    also have "\<dots> = 1000000" using assms(2) by simp
    finally have bound: "session_count ?bodies * 1000000 div length cluster \<le> 1000000" .
    have nz: "(of_nat (length cluster) :: u64) \<noteq> 0"
      using of_nat_u64_pos [of "length cluster"] assms(2,3) by auto
    have conv: "u64_of_usize (session_count ?bodies) = Some (of_nat (session_count ?bodies))"
      "u64_of_usize (length cluster) = Some (of_nat (length cluster))"
      using le assms(3) by (simp_all add: u64_of_usize_def)
    have "unat (of_nat (session_count ?bodies) :: u64) = session_count ?bodies"
      "unat (of_nat (length cluster) :: u64) = length cluster"
      by (rule unat_of_nat_u64, use le assms(3) in linarith)+
    then show ?thesis using nz bound by (simp add: diversity_def unat_Ppm_ratio len conv)
  qed
  ultimately show ?thesis using result c(2) by (intro exI [of _ ?s]) simp
qed

definition sample_member :: "string \<Rightarrow> RetirementCandidateV1" where
  "sample_member key = \<lparr>rc_atom_id = AtomId Digest32_ZERO, rc_body_digest = Digest32_ZERO,
     rc_body = Some ((sample_body ''t'')\<lparr>bd_topic_keys := {|key|}, bd_entity_ids := {|key|}\<rparr>),
     rc_state = \<lparr>st_retention_tier = ShortTerm, st_content_status = Present, st_expires_at_us = None,
       st_superseded_by = None, st_feedback_positive = 3, st_feedback_negative = 0, st_retrieval_count = 0,
       st_retirement_run_id = None\<rparr>,
     rc_integrity = Complete, rc_exact_package_bytes = 0\<rparr>"

lemma jaccard_single: "jaccard {|k|} {|l|} = (if k = l then PPM_ONE else PPM_ZERO)"
  by (cases "k = l") (simp_all add: jaccard_def Let_def Ppm_eq_unat unat_Ppm_ratio u64_of_usize_def PPM_ONE_def
      PPM_ZERO_def fcard_fempty fcard_finsert_if)

lemma sample_linked:
  "i < 3 \<Longrightarrow> j < 3 \<Longrightarrow> linked_at [sample_member ''a'', sample_member ''b'', sample_member ''a''] poc_v1 i j \<longleftrightarrow>
     (i = 1) = (j = 1)"
proof -
  have "po_cluster_similarity_threshold poc_v1 \<le> similarity (the (rc_body (sample_member k))) (the (rc_body (sample_member l))) poc_v1
    \<longleftrightarrow> k = l" for k l
    by (simp add: similarity_def sample_member_def sample_body_def jaccard_single same_outcome_class_def
        less_eq_Ppm_unat unat_clamp_min poc_v1_def)
      (simp add: Ppm_multiply_def PPM_ONE_def PPM_ZERO_def PPM_SCALE_def u32_of_u64_def Let_def)
  then show "i < 3 \<Longrightarrow> j < 3 \<Longrightarrow> ?thesis" 
    by (auto simp: linked_at_def numeral_3_eq_3 less_Suc_eq sample_member_def)
qed

theorem complete_link_clusters_spec_witness:
  "complete_link_clusters [sample_member ''a'', sample_member ''b'', sample_member ''a''] [0, 1, 2] poc_v1
     = Inr [[0, 2], [1]]"
proof -
  let ?cs = "[sample_member ''a'', sample_member ''b'', sample_member ''a'']"
  have "clustering (linked_at ?cs poc_v1) [0, 1, 2] [[0, 2], [1]]"
    by (simp add: clustering_def sample_linked less_Suc_eq)
  then show ?thesis
    by (subst complete_link_clusters_spec) simp_all
qed

theorem consolidation_score_spec_witness:
  "\<exists>s. consolidation_score [sample_member ''a'', sample_member ''b'', sample_member ''a''] [0, 2] poc_v1 = Inr s \<and>
     unat (ppm_get (cs_support s)) = 200000 \<and> unat (ppm_get (cs_diversity s)) = 500000 \<and> score_ok s"
proof -
  let ?cs = "[sample_member ''a'', sample_member ''b'', sample_member ''a'']"
  have "session_count (cluster_bodies ?cs [0, 2]) = 1"
    by (simp add: session_count_def cluster_bodies_def sample_member_def sample_body_def List.map_filter_simps
        fcard_finsert_if fcard_fempty)
  moreover have "rc_body (sample_member k) \<noteq> None" for k by (simp add: sample_member_def)
  then have "\<forall>i \<in> set [0, 2]. i < length ?cs \<and> rc_body (?cs ! i) \<noteq> None" by simp
  note consolidation_score_spec [OF this]
  moreover have "length [0 :: nat, 2] = 2" "(1 :: nat) * 1000000 div 2 = 500000" "min (2 * 100000) 1000000 = (200000 :: nat)"
    by simp_all
  ultimately show ?thesis by (simp only: list.simps length_0_conv simp_thms) auto
qed

end
