(* ===== verification/Retirement.thy ===== *)
theory Retirement
  imports Clusters
begin

text \<open>
  The planning half of \<open>retirement.rs\<close>: cohort validation, construction and selection of
  semantic atoms, the lottery draw, the decisions and the projected post-state, composed in the
  order of \<open>plan_retirement\<close>.
\<close>

section \<open>Cohort validation\<close>

definition validate_cohort_size :: "usize \<Rightarrow> PolicyV1 \<Rightarrow> unit result" where
  "validate_cohort_size atom_count policy =
     (if atom_count > po_max_cohort_atoms policy
      then Inl (CohortTooLarge atom_count (po_max_cohort_atoms policy)) else Inr ())"

definition cohort_end :: "u64 \<Rightarrow> u64 result" where
  "cohort_end cohort_day =
     ok_or (InvalidAtomBody ''retirement cohort day upper boundary overflows u64'')
       (Option.bind (checked_add cohort_day 1) (\<lambda>day. checked_mul day MICROSECONDS_PER_DAY))"

definition validate_snapshot :: "RetirementSnapshotV1 \<Rightarrow> PolicyV1 \<Rightarrow> unit result" where
  "validate_snapshot snapshot policy =
     bindr (validate_poc_v1 policy) (\<lambda>_.
     if sn_contract_version snapshot \<noteq> ''retirement-snapshot-v1''
     then Inl (UnknownVersion (sn_contract_version snapshot))
     else if sn_memory_space_id snapshot = '''' then Inl (EmptyField ''memory_space_id'')
     else bindr (validate_cohort_size (length (sn_atoms snapshot)) policy) (\<lambda>_.
     if sn_atoms snapshot = [] then Inl EmptyRetirementCohort
     else bindr (cohort_end (sn_cohort_day snapshot)) (\<lambda>cohort_end_us.
     if sn_as_of_us snapshot < cohort_end_us
     then Inl (RetirementCohortNotClosed (sn_as_of_us snapshot) cohort_end_us)
     else Inr ())))"

definition validate_candidate_scope :: "MemoryAtomBodyV1 \<Rightarrow> string \<Rightarrow> unit result" where
  "validate_candidate_scope body memory_space_id =
     (if sc_memory_space_id (bd_scope body) \<noteq> memory_space_id then Inl MemorySpaceMismatch else Inr ())"

text \<open>The lifecycle guards of the loop body, up to the body itself.\<close>

definition validate_candidate_state :: "RetirementCandidateV1 \<Rightarrow> u64 \<Rightarrow> u64 result" where
  "validate_candidate_state candidate cohort_day =
     (let state = rc_state candidate; aid = rc_atom_id candidate in
      if st_retention_tier state \<noteq> ShortTerm \<or> st_content_status state \<noteq> Present
        \<or> st_retirement_run_id state \<noteq> None \<or> st_superseded_by state \<noteq> None
      then Inl (InvalidRetirementCandidate aid ''candidate is not an unretired present STM atom'')
      else bindr (ok_or (InvalidRetirementCandidate aid ''STM candidate has no expiry'') (st_expires_at_us state)) (\<lambda>expires_at_us.
      if expires_at_us div MICROSECONDS_PER_DAY \<noteq> cohort_day
      then Inl (InvalidRetirementCandidate aid ''candidate expiry does not belong to the requested UTC cohort day'')
      else if rc_integrity candidate \<noteq> Complete
      then Inl (InvalidRetirementCandidate aid ''candidate integrity is incomplete'')
      else if rc_body_digest candidate \<noteq> atom_digest aid
      then Inl (AtomDigestMismatch aid)
      else Inr expires_at_us))"

text \<open>The content-address and exact-package closure at the end of the loop body.\<close>

definition validate_candidate_content ::
  "(byte list \<Rightarrow> Digest32) \<Rightarrow> RetirementCandidateV1 \<Rightarrow> MemoryAtomBodyV1 \<Rightarrow> unit result" where
  "validate_candidate_content sha candidate body =
     bindr (body_canonical_bytes body) (\<lambda>canonical_body.
     bindr (ok_or (CanonicalEncoding ''atom body exceeds u64 length'') (u64_of_usize (length canonical_body))) (\<lambda>canonical_size.
     bindr (try_fold (\<lambda>sum a. ok_or (CanonicalEncoding ''artifact byte total overflowed u64'')
         (checked_add sum (ar_size_bytes a))) 0 (filter ar_retention_allowed (bd_artifacts body))) (\<lambda>artifact_bytes.
     bindr (ok_or (CanonicalEncoding ''exact package byte total overflowed u64'')
         (checked_add canonical_size artifact_bytes)) (\<lambda>package_bytes.
     let computed_atom_id = AtomId (hash_prefixed sha ATOM_HASH_DOMAIN canonical_body) in
     if package_bytes \<noteq> rc_exact_package_bytes candidate \<or> computed_atom_id \<noteq> rc_atom_id candidate
     then Inl (AtomDigestMismatch (rc_atom_id candidate))
     else Inr ()))))"

definition validate_candidate ::
  "(byte list \<Rightarrow> Digest32) \<Rightarrow> RetirementSnapshotV1 \<Rightarrow> PolicyV1 \<Rightarrow> RetirementCandidateV1 \<Rightarrow> unit result" where
  "validate_candidate sha snapshot policy candidate =
     (let aid = rc_atom_id candidate in
      bindr (validate_candidate_state candidate (sn_cohort_day snapshot)) (\<lambda>expires_at_us.
      bindr (ok_or (AtomDigestMismatch aid) (rc_body candidate)) (\<lambda>body.
      bindr (validate_memory_atom_body sha body policy) (\<lambda>_.
      bindr (ok_or (InvalidRetirementCandidate aid ''recorded time plus STM horizon overflows u64'')
          (checked_add (iv_recorded_at_us (bd_interval body)) (po_stm_horizon_us policy))) (\<lambda>expected_expires_at_us.
      if expires_at_us \<noteq> expected_expires_at_us
      then Inl (InvalidRetirementCandidate aid ''STM expiry does not equal recorded time plus policy horizon'')
      else (case bd_payload body of
        SemanticPayload _ \<Rightarrow> Inl (InvalidRetirementCandidate aid ''STM retirement cohort contains a non-episode atom'')
      | EpisodePayload _ \<Rightarrow>
          bindr (validate_candidate_scope body (sn_memory_space_id snapshot)) (\<lambda>_.
          validate_candidate_content sha candidate body)))))))"

fun validate_candidates_from ::
  "(byte list \<Rightarrow> Digest32) \<Rightarrow> RetirementSnapshotV1 \<Rightarrow> PolicyV1 \<Rightarrow> AtomId option \<Rightarrow> RetirementCandidateV1 list \<Rightarrow> unit result" where
  "validate_candidates_from sha snapshot policy previous [] = Inr ()"
| "validate_candidates_from sha snapshot policy previous (candidate # candidates) =
     (if previous = Some (rc_atom_id candidate) then Inl (DuplicateAtom (rc_atom_id candidate))
      else bindr (validate_candidate sha snapshot policy candidate) (\<lambda>_.
        validate_candidates_from sha snapshot policy (Some (rc_atom_id candidate)) candidates))"

definition validate_candidates ::
  "(byte list \<Rightarrow> Digest32) \<Rightarrow> RetirementCandidateV1 list \<Rightarrow> RetirementSnapshotV1 \<Rightarrow> PolicyV1 \<Rightarrow> unit result" where
  "validate_candidates sha candidates snapshot policy = validate_candidates_from sha snapshot policy None candidates"

section \<open>Semantic bodies\<close>

text \<open>The decimal form that \<open>format!\<close> writes.\<close>

fun decimal :: "nat \<Rightarrow> string" where
  "decimal n = (if n < 10 then [char_of (48 + n)] else decimal (n div 10) @ [char_of (48 + n mod 10)])"

declare decimal.simps [simp del]

definition atom_id_or_default :: "(byte list \<Rightarrow> Digest32) \<Rightarrow> MemoryAtomBodyV1 \<Rightarrow> AtomId" where
  "atom_id_or_default sha body = (case atom_id sha body of Inl _ \<Rightarrow> AtomId_default | Inr i \<Rightarrow> i)"

definition semantic_scope ::
  "MemoryAtomBodyV1 list \<Rightarrow> usize \<Rightarrow> RetirementSnapshotV1 \<Rightarrow> MemoryScopeV1" where
  "semantic_scope bodies required snapshot =
     \<lparr>sc_memory_space_id = sn_memory_space_id snapshot,
      sc_repository_id = consensus_optional (List.map_filter (sc_repository_id \<circ> bd_scope) bodies) required,
      sc_task_id = consensus_optional (List.map_filter (sc_task_id \<circ> bd_scope) bodies) required,
      sc_agent_id = consensus_optional (List.map_filter (sc_agent_id \<circ> bd_scope) bodies) required,
      sc_session_id = ''semantic:'' @ decimal (unat (sn_cohort_day snapshot))\<rparr>"

definition iter_min :: "u64 \<Rightarrow> u64 list \<Rightarrow> u64" where
  "iter_min d xs = (case xs of [] \<Rightarrow> d | x # xs' \<Rightarrow> fold min xs' x)"

definition iter_max :: "u64 \<Rightarrow> u64 list \<Rightarrow> u64" where
  "iter_max d xs = (case xs of [] \<Rightarrow> d | x # xs' \<Rightarrow> fold max xs' x)"

text \<open>The body over the sources in identifier order, once their identifiers are known.\<close>

definition semantic_body_of ::
  "MemoryAtomBodyV1 list \<Rightarrow> AtomId list \<Rightarrow> ConsolidationScoreV1 \<Rightarrow> RetirementSnapshotV1 \<Rightarrow> Digest32 \<Rightarrow> PolicyV1 \<Rightarrow> MemoryAtomBodyV1" where
  "semantic_body_of bodies source_ids score snapshot digest policy =
     (let required = consensus_required (length bodies) policy in
      \<lparr>bd_contract_version = ''atom-v1'',
       bd_scope = semantic_scope bodies required snapshot,
       bd_interval = \<lparr>iv_started_at_us = iter_min (sn_as_of_us snapshot) (map (iv_started_at_us \<circ> bd_interval) bodies),
         iv_ended_at_us = iter_max (sn_as_of_us snapshot) (map (iv_ended_at_us \<circ> bd_interval) bodies),
         iv_recorded_at_us = sn_as_of_us snapshot\<rparr>,
       bd_trigger = ''poc-v1-retirement'',
       bd_seal_reason = Checkpoint,
       bd_goal = consensus_optional (List.map_filter bd_goal bodies) required,
       bd_plan = consensus_body_strings bodies required bd_plan,
       bd_internal_state_before = consensus_map bodies required False,
       bd_internal_state_after = consensus_map bodies required True,
       bd_observations = [], bd_interpretations = [], bd_beliefs = [], bd_decisions = [],
       bd_rejected_alternatives = [], bd_actions = [], bd_outcome = None, bd_feedback = [],
       bd_formation_signals = \<lparr>fo_utility = cs_utility score, fo_salience = cs_salience score,
         fo_novelty = cs_novelty score, fo_uncertainty = cs_uncertainty score\<rparr>,
       bd_topic_keys = consensus_set (concat (map (\<lambda>b. sorted_list_of_fset (bd_topic_keys b)) bodies)) required,
       bd_entity_ids = consensus_set (concat (map (\<lambda>b. sorted_list_of_fset (bd_entity_ids b)) bodies)) required,
       bd_outcome_class = consensus_optional (List.map_filter bd_outcome_class bodies) required,
       bd_goal_key = consensus_optional (List.map_filter bd_goal_key bodies) required,
       bd_provenance = \<lparr>pv_producer = ''naome-memory-core/plan_retirement'',
         pv_source_event_digests = map atom_digest source_ids, pv_policy_digest = digest\<rparr>,
       bd_relations = map (\<lambda>source. \<lparr>re_kind = DerivedFrom, re_target = source\<rparr>) source_ids,
       bd_artifacts = [],
       bd_retention_permission = SemanticAllowed,
       bd_payload = SemanticPayload \<lparr>sp_source_ids = source_ids,
         sp_source_body_digests = fmap_of_list (map (\<lambda>source. (source, atom_digest source)) source_ids),
         sp_score = score, sp_consensus_numerator = po_consensus_numerator policy,
         sp_consensus_denominator = po_consensus_denominator policy, sp_supersedes = None\<rparr>\<rparr>)"

definition build_semantic_body ::
  "(byte list \<Rightarrow> Digest32) \<Rightarrow> RetirementCandidateV1 list \<Rightarrow> usize list \<Rightarrow> ConsolidationScoreV1 \<Rightarrow>
   RetirementSnapshotV1 \<Rightarrow> Digest32 \<Rightarrow> PolicyV1 \<Rightarrow> MemoryAtomBodyV1 outcome" where
  "build_semantic_body sha candidates cluster score snapshot digest policy =
     bindr (traverse (\<lambda>at. bindr (index candidates at) (\<lambda>candidate.
         lift (ok_or (CanonicalEncoding ''semantic cluster contains no body'') (rc_body candidate)))) cluster) (\<lambda>members.
     let bodies = sort_key (atom_id_or_default sha) members in
     bindr (lift (traverse (atom_id sha) bodies)) (\<lambda>source_ids.
     Inr (semantic_body_of bodies source_ids score snapshot digest policy)))"

section \<open>Semantic candidates\<close>

definition positions_where :: "('a \<Rightarrow> bool) \<Rightarrow> 'a list \<Rightarrow> usize list" where
  "positions_where p xs = map fst (filter (p \<circ> snd) (enumerate 0 xs))"

definition semantic_eligible :: "RetirementCandidateV1 \<Rightarrow> bool" where
  "semantic_eligible candidate =
     (case rc_body candidate of None \<Rightarrow> False | Some body \<Rightarrow> bd_retention_permission body \<noteq> TransientOnly)"

definition exact_eligible :: "RetirementCandidateV1 \<Rightarrow> bool" where
  "exact_eligible candidate =
     (case rc_body candidate of None \<Rightarrow> False | Some body \<Rightarrow> bd_retention_permission body = SemanticAndExactAllowed)"

type_synonym scored = "ConsolidationScoreV1 \<times> PlannedSemanticAtomV1"

text \<open>One cluster of the loop: too small, too few sessions and a low score are skipped.\<close>

definition consider_cluster ::
  "(byte list \<Rightarrow> Digest32) \<Rightarrow> RetirementSnapshotV1 \<Rightarrow> PolicyV1 \<Rightarrow> Digest32 \<Rightarrow> RetirementCandidateV1 list \<Rightarrow>
   scored list \<Rightarrow> usize list \<Rightarrow> scored list outcome" where
  "consider_cluster sha snapshot policy digest candidates acc cluster =
     (if length cluster < po_min_semantic_sources policy then Inr acc
      else bindr (cluster_candidates candidates cluster) (\<lambda>members.
      if session_count (List.map_filter rc_body members) < po_min_semantic_sessions policy then Inr acc
      else bindr (consolidation_score candidates cluster policy) (\<lambda>score.
      if cs_total score \<ge> po_consolidation_threshold policy
      then bindr (build_semantic_body sha candidates cluster score snapshot digest policy) (\<lambda>body.
        bindr (lift (validate_memory_atom_body sha body policy)) (\<lambda>_.
        bindr (lift (encoded_size_bytes body)) (\<lambda>canonical_size_bytes.
        bindr (lift (atom_id sha body)) (\<lambda>aid.
        Inr (acc @ [(score, \<lparr>ps_atom_id = aid, ps_body_digest = atom_digest aid,
          ps_canonical_size_bytes = canonical_size_bytes, ps_body = body\<rparr>)])))))
      else Inr acc)))"

text \<open>\<open>sort_unstable_by\<close>: total descending, then identifier ascending.\<close>

definition scored_key :: "scored \<Rightarrow> int \<times> AtomId" where
  "scored_key x = (- int (unat (ppm_get (cs_total (fst x)))), ps_atom_id (snd x))"

definition semantic_candidates ::
  "(byte list \<Rightarrow> Digest32) \<Rightarrow> RetirementSnapshotV1 \<Rightarrow> PolicyV1 \<Rightarrow> Digest32 \<Rightarrow> RetirementCandidateV1 list \<Rightarrow> scored list outcome" where
  "semantic_candidates sha snapshot policy digest candidates =
     bindr (complete_link_clusters candidates (positions_where semantic_eligible candidates) policy) (\<lambda>clusters.
     bindr (try_fold (consider_cluster sha snapshot policy digest candidates) [] clusters) (\<lambda>scored.
     Inr (sort_key scored_key scored)))"

section \<open>Selection under the budgets\<close>

definition semantic_candidate_disposition ::
  "u64 \<Rightarrow> usize \<Rightarrow> usize \<Rightarrow> u64 \<Rightarrow> PolicyV1 \<Rightarrow> (SemanticCandidateDispositionV1 \<times> u64) result" where
  "semantic_candidate_disposition candidate_bytes selected_count count_budget selected_bytes policy =
     (if candidate_bytes > po_atom_hard_max_bytes policy then Inr (SkippedAtomHardLimit, selected_bytes)
      else if selected_count \<ge> count_budget then Inr (SkippedCountBudget, selected_bytes)
      else bindr (ok_or (CanonicalEncoding ''semantic byte total overflowed u64'')
          (checked_add selected_bytes candidate_bytes)) (\<lambda>new_total.
        if new_total > po_semantic_body_budget_bytes policy then Inr (SkippedByteBudget, selected_bytes)
        else Inr (Selected, new_total)))"

record SemanticSelection =
  sl_atoms :: "PlannedSemanticAtomV1 list"
  sl_decisions :: "SemanticCandidateDecisionV1 list"
  sl_body_bytes :: u64

definition select_semantic :: "PolicyV1 \<Rightarrow> usize \<Rightarrow> SemanticSelection \<Rightarrow> scored \<Rightarrow> SemanticSelection result" where
  "select_semantic policy count_budget st x =
     (let score = fst x; semantic = snd x in
      bindr (case bd_payload (ps_body semantic) of
          SemanticPayload payload \<Rightarrow> Inr (sp_source_ids payload)
        | EpisodePayload _ \<Rightarrow> Inl (CanonicalEncoding ''planned semantic candidate has episode payload'')) (\<lambda>source_ids.
      bindr (semantic_candidate_disposition (ps_canonical_size_bytes semantic) (length (sl_atoms st)) count_budget
          (sl_body_bytes st) policy) (\<lambda>(disposition, next_semantic_body_bytes).
      Inr \<lparr>sl_atoms = (if disposition = Selected then sl_atoms st @ [semantic] else sl_atoms st),
           sl_decisions = sl_decisions st @ [\<lparr>sd_atom_id = ps_atom_id semantic, sd_source_ids = source_ids,
             sd_score = score, sd_canonical_size_bytes = ps_canonical_size_bytes semantic,
             sd_disposition = disposition\<rparr>],
           sl_body_bytes = next_semantic_body_bytes\<rparr>)))"

definition select_semantics :: "PolicyV1 \<Rightarrow> usize \<Rightarrow> scored list \<Rightarrow> SemanticSelection result" where
  "select_semantics policy count_budget scored =
     try_fold (select_semantic policy count_budget) \<lparr>sl_atoms = [], sl_decisions = [], sl_body_bytes = 0\<rparr> scored"

section \<open>The lottery population\<close>

definition v_population :: "RetirementCandidateV1 \<Rightarrow> Value" where
  "v_population c = VArray [v_atom_id (rc_atom_id c), v_digest (rc_body_digest c), v_u64 (rc_exact_package_bytes c)]"

definition population_digest ::
  "(byte list \<Rightarrow> Digest32) \<Rightarrow> RetirementCandidateV1 list \<Rightarrow> usize list \<Rightarrow> Digest32 outcome" where
  "population_digest sha candidates population =
     bindr (cluster_candidates candidates population) (\<lambda>members.
     lift (digest_value sha POPULATION_HASH_DOMAIN (v_vec v_population members)))"

definition validate_episodic_budget :: "u64 \<Rightarrow> PolicyV1 \<Rightarrow> unit result" where
  "validate_episodic_budget episodic_winner_bytes policy =
     (if episodic_winner_bytes > po_episodic_pin_budget_bytes policy
      then Inl (EpisodicBudgetExceeded episodic_winner_bytes (po_episodic_pin_budget_bytes policy)) else Inr ())"

text \<open>The candidates at the drawn positions of the population.\<close>

definition drawn_candidates ::
  "RetirementCandidateV1 list \<Rightarrow> usize list \<Rightarrow> usize list \<Rightarrow> RetirementCandidateV1 list outcome" where
  "drawn_candidates candidates population drawn =
     traverse (\<lambda>position. bindr (index population position) (\<lambda>at. index candidates at)) drawn"

definition winner_bytes :: "RetirementCandidateV1 list \<Rightarrow> u64 result" where
  "winner_bytes winners =
     try_fold (\<lambda>sum c. ok_or (CanonicalEncoding ''episodic byte total overflowed u64'')
       (checked_add sum (rc_exact_package_bytes c))) 0 winners"

section \<open>Decisions\<close>

definition add_semantic_sources ::
  "(AtomId, AtomId list) fmap \<Rightarrow> PlannedSemanticAtomV1 \<Rightarrow> (AtomId, AtomId list) fmap result" where
  "add_semantic_sources m semantic =
     (case bd_payload (ps_body semantic) of
        EpisodePayload _ \<Rightarrow> Inl (CanonicalEncoding ''planned semantic atom has episode payload'')
      | SemanticPayload payload \<Rightarrow>
          Inr (fold (\<lambda>source m. fmupd source (unwrap_or [] (fmlookup m source) @ [ps_atom_id semantic]) m)
            (sp_source_ids payload) m))"

definition semantic_source_map :: "PlannedSemanticAtomV1 list \<Rightarrow> (AtomId, AtomId list) fmap result" where
  "semantic_source_map atoms = try_fold add_semantic_sources fmempty atoms"

definition decide_candidate ::
  "AtomId fset \<Rightarrow> AtomId list \<Rightarrow> RetirementCandidateV1 \<Rightarrow> RetirementDecisionV1" where
  "decide_candidate winner_set semantic_ids candidate =
     (let exact_retained = (rc_atom_id candidate |\<in>| winner_set) in
      \<lparr>rd_atom_id = rc_atom_id candidate,
       rd_semantic_atom_ids = sort semantic_ids,
       rd_exact_retained = exact_retained,
       rd_exact_artifact_digests = (if exact_retained
         then (case rc_body candidate of None \<Rightarrow> [] | Some body \<Rightarrow> retained_artifact_digests body) else []),
       rd_forget_episode_body =
         ((case rc_body candidate of None \<Rightarrow> False | Some body \<Rightarrow> body_kind body = Episode) \<and> \<not> exact_retained)\<rparr>)"

text \<open>The loop removes a candidate's entry from the source map when it takes it.\<close>

fun decide_all ::
  "AtomId fset \<Rightarrow> (AtomId, AtomId list) fmap \<Rightarrow> RetirementCandidateV1 list \<Rightarrow> RetirementDecisionV1 list" where
  "decide_all winner_set sources [] = []"
| "decide_all winner_set sources (candidate # candidates) =
     decide_candidate winner_set (unwrap_or [] (fmlookup sources (rc_atom_id candidate))) candidate #
     decide_all winner_set (fmdrop (rc_atom_id candidate) sources) candidates"

section \<open>The projected post-state\<close>

definition post_source_atom ::
  "(byte list \<Rightarrow> Digest32) \<Rightarrow> RetirementCandidateV1 \<times> RetirementDecisionV1 \<Rightarrow> RetirementPostStateAtomV1 result" where
  "post_source_atom sha x =
     (let candidate = fst x; decision = snd x in
      bindr (ok_or (AtomDigestMismatch (rc_atom_id candidate)) (rc_body candidate)) (\<lambda>body.
      bindr (body_canonical_bytes body) (\<lambda>bytes.
      bindr (ok_or (CanonicalEncoding ''atom body exceeds u64 length'') (u64_of_usize (length bytes))) (\<lambda>header_body_bytes.
      let (tier, status, stored, present) =
        (if rd_exact_retained decision then (EpisodicLongTerm, Present, Some (rc_body_digest candidate), True)
         else (HeaderOnly, Forgotten, None, False))
      in bindr (digest_value sha PROVENANCE_HASH_DOMAIN (v_provenance (bd_provenance body))) (\<lambda>provenance_digest.
      Inr \<lparr>pa_atom_id = rc_atom_id candidate,
           pa_atom_kind = Episode,
           pa_repository_id = sc_repository_id (bd_scope body),
           pa_task_id = sc_task_id (bd_scope body),
           pa_agent_id = sc_agent_id (bd_scope body),
           pa_session_id = Some (sc_session_id (bd_scope body)),
           pa_recorded_at_us = iv_recorded_at_us (bd_interval body),
           pa_header_body_digest = rc_body_digest candidate,
           pa_header_body_bytes = header_body_bytes,
           pa_retention_permission = bd_retention_permission body,
           pa_provenance_digest = provenance_digest,
           pa_stored_body_digest = stored,
           pa_retention_tier = tier,
           pa_content_status = status,
           pa_expires_at_us = None,
           pa_superseded_by = None,
           pa_feedback_positive = st_feedback_positive (rc_state candidate),
           pa_feedback_negative = st_feedback_negative (rc_state candidate),
           pa_retrieval_count = st_retrieval_count (rc_state candidate),
           pa_retirement_run_bound = True,
           pa_search_projection_present = present,
           pa_pinned_artifact_digests = rd_exact_artifact_digests decision\<rparr>)))))"

definition post_semantic_atom ::
  "(byte list \<Rightarrow> Digest32) \<Rightarrow> PlannedSemanticAtomV1 \<Rightarrow> RetirementPostStateAtomV1 result" where
  "post_semantic_atom sha semantic =
     (let body = ps_body semantic in
      bindr (digest_value sha PROVENANCE_HASH_DOMAIN (v_provenance (bd_provenance body))) (\<lambda>provenance_digest.
      Inr \<lparr>pa_atom_id = ps_atom_id semantic,
           pa_atom_kind = Semantic,
           pa_repository_id = sc_repository_id (bd_scope body),
           pa_task_id = sc_task_id (bd_scope body),
           pa_agent_id = sc_agent_id (bd_scope body),
           pa_session_id = Some (sc_session_id (bd_scope body)),
           pa_recorded_at_us = iv_recorded_at_us (bd_interval body),
           pa_header_body_digest = ps_body_digest semantic,
           pa_header_body_bytes = ps_canonical_size_bytes semantic,
           pa_retention_permission = bd_retention_permission body,
           pa_provenance_digest = provenance_digest,
           pa_stored_body_digest = Some (ps_body_digest semantic),
           pa_retention_tier = SemanticLongTerm,
           pa_content_status = Present,
           pa_expires_at_us = None,
           pa_superseded_by = None,
           pa_feedback_positive = 0,
           pa_feedback_negative = 0,
           pa_retrieval_count = 0,
           pa_retirement_run_bound = False,
           pa_search_projection_present = True,
           pa_pinned_artifact_digests = []\<rparr>))"

definition projected_post_state ::
  "(byte list \<Rightarrow> Digest32) \<Rightarrow> string \<Rightarrow> RetirementCandidateV1 list \<Rightarrow> RetirementDecisionV1 list \<Rightarrow>
   PlannedSemanticAtomV1 list \<Rightarrow> RetirementPostStateV1 result" where
  "projected_post_state sha memory_space_id candidates decisions semantic_atoms =
     bindr (traverse (post_source_atom sha) (zip candidates decisions)) (\<lambda>source_atoms.
     bindr (traverse (post_semantic_atom sha) semantic_atoms) (\<lambda>semantics.
     Inr \<lparr>pp_memory_space_id = memory_space_id, pp_source_atoms = source_atoms, pp_semantic_atoms = semantics\<rparr>))"

section \<open>The plan\<close>

text \<open>Everything before the draw.\<close>

record RetirementInputs =
  in_candidates :: "RetirementCandidateV1 list"
  in_input_set_digest :: Digest32
  in_policy_digest :: Digest32
  in_semantic_count_budget :: usize
  in_selection :: SemanticSelection
  in_exact_population :: "usize list"
  in_population_digest :: Digest32
  in_winner_budget :: usize

definition plan_inputs ::
  "(byte list \<Rightarrow> Digest32) \<Rightarrow> RetirementSnapshotV1 \<Rightarrow> PolicyV1 \<Rightarrow> RetirementInputs outcome" where
  "plan_inputs sha snapshot policy =
     bindr (lift (validate_snapshot snapshot policy)) (\<lambda>_.
     let candidates = sort_key rc_atom_id (sn_atoms snapshot) in
     bindr (lift (validate_candidates sha candidates snapshot policy)) (\<lambda>_.
     bindr (lift (retirement_input_digest sha snapshot)) (\<lambda>input_set_digest.
     bindr (lift (policy_digest sha policy)) (\<lambda>digest.
     bindr (semantic_candidates sha snapshot policy digest candidates) (\<lambda>scored.
     let semantic_count_budget = min (Ppm_ceil_count (po_semantic_rate policy) (length candidates)) (po_semantic_count_max policy) in
     bindr (lift (select_semantics policy semantic_count_budget scored)) (\<lambda>selection.
     let exact_population = positions_where exact_eligible candidates in
     bindr (population_digest sha candidates exact_population) (\<lambda>population.
     Inr \<lparr>in_candidates = candidates, in_input_set_digest = input_set_digest, in_policy_digest = digest,
          in_semantic_count_budget = semantic_count_budget, in_selection = selection,
          in_exact_population = exact_population, in_population_digest = population,
          in_winner_budget = min (Ppm_ceil_count (po_episodic_rate policy) (length exact_population))
            (po_episodic_count_max policy)\<rparr>)))))))"

text \<open>Everything after the draw.\<close>

definition plan_finish ::
  "(byte list \<Rightarrow> Digest32) \<Rightarrow> RetirementSnapshotV1 \<Rightarrow> PolicyV1 \<Rightarrow> Seed32 \<Rightarrow> RetirementInputs \<Rightarrow> usize list \<Rightarrow>
   RetirementPlanV1 outcome" where
  "plan_finish sha snapshot policy seed inputs drawn =
     bindr (drawn_candidates (in_candidates inputs) (in_exact_population inputs) drawn) (\<lambda>winners.
     bindr (lift (winner_bytes winners)) (\<lambda>episodic_winner_bytes.
     bindr (lift (validate_episodic_budget episodic_winner_bytes policy)) (\<lambda>_.
     let episodic_winners = sort (map rc_atom_id winners);
         semantic_atoms = sl_atoms (in_selection inputs) in
     bindr (lift (semantic_source_map semantic_atoms)) (\<lambda>sources.
     let decisions = decide_all (fset_of_list episodic_winners) sources (in_candidates inputs) in
     bindr (lift (projected_post_state sha (sn_memory_space_id snapshot) (in_candidates inputs) decisions semantic_atoms)) (\<lambda>post_state.
     bindr (lift (post_state_digest sha post_state)) (\<lambda>state_digest.
     Inr \<lparr>pn_contract_version = ''retirement-plan-v1'',
          pn_policy_id = po_policy_id policy,
          pn_policy_digest = in_policy_digest inputs,
          pn_seed = seed,
          pn_memory_space_id = sn_memory_space_id snapshot,
          pn_cohort_day = sn_cohort_day snapshot,
          pn_as_of_us = sn_as_of_us snapshot,
          pn_input_set_digest = in_input_set_digest inputs,
          pn_rng_identifier = ''chacha20-rand_chacha-0.3/partial-fisher-yates-v1'',
          pn_episodic_population_digest = in_population_digest inputs,
          pn_episodic_population_count = length (in_exact_population inputs),
          pn_episodic_winner_budget = in_winner_budget inputs,
          pn_episodic_winner_bytes = episodic_winner_bytes,
          pn_semantic_count_budget = in_semantic_count_budget inputs,
          pn_semantic_body_bytes = sl_body_bytes (in_selection inputs),
          pn_semantic_decisions = sl_decisions (in_selection inputs),
          pn_semantic_atoms = semantic_atoms,
          pn_episodic_winners = episodic_winners,
          pn_decisions = decisions,
          pn_projected_post_state = post_state,
          pn_projected_state_digest = state_digest\<rparr>))))))"

text \<open>The whole planner; \<open>None\<close> is a draw that never ends.\<close>

definition plan_retirement ::
  "(byte list \<Rightarrow> Digest32) \<Rightarrow> (byte list \<Rightarrow> stream) \<Rightarrow> RetirementSnapshotV1 \<Rightarrow> PolicyV1 \<Rightarrow> Seed32 \<Rightarrow>
   RetirementPlanV1 outcome option" where
  "plan_retirement sha chacha snapshot policy seed =
     (case plan_inputs sha snapshot policy of
        Inl e \<Rightarrow> Some (Inl e)
      | Inr inputs \<Rightarrow>
          map_option (\<lambda>drawn. bindr drawn (plan_finish sha snapshot policy seed inputs))
            (partial_fisher_yates chacha (length (in_exact_population inputs)) (in_winner_budget inputs) (seed_as_bytes seed)))"

end
