(* ===== verification/Cohort.thy ===== *)
theory Cohort
  imports Retirement
begin

text \<open>
  What the retirement cohort checks decide: a declarative description of an admissible cohort, the
  refinement of the guards to it, and the independence of the whole planner from the order in
  which a snapshot lists its atoms.
\<close>

section \<open>Admissible candidates\<close>

definition candidate_wf :: "(byte list \<Rightarrow> Digest32) \<Rightarrow> RetirementSnapshotV1 \<Rightarrow> RetirementCandidateV1 \<Rightarrow> bool" where
  "candidate_wf sha snapshot c \<longleftrightarrow>
     (\<exists>body payload expires. rc_body c = Some body \<and> bd_payload body = EpisodePayload payload \<and>
        atom_body_wf sha body \<and> sc_memory_space_id (bd_scope body) = sn_memory_space_id snapshot \<and>
        st_expires_at_us (rc_state c) = Some expires \<and>
        unat expires = unat (iv_recorded_at_us (bd_interval body)) + 604800000000 \<and>
        unat expires div 86400000000 = unat (sn_cohort_day snapshot) \<and>
        atom_id sha body = Inr (rc_atom_id c) \<and>
        unat (rc_exact_package_bytes c) = vsize (v_body body) + retained_bytes body) \<and>
     st_retention_tier (rc_state c) = ShortTerm \<and> st_content_status (rc_state c) = Present \<and>
     st_retirement_run_id (rc_state c) = None \<and> st_superseded_by (rc_state c) = None \<and>
     rc_integrity c = Complete \<and> rc_body_digest c = atom_digest (rc_atom_id c)"

definition cohort_wf :: "(byte list \<Rightarrow> Digest32) \<Rightarrow> RetirementSnapshotV1 \<Rightarrow> bool" where
  "cohort_wf sha snapshot \<longleftrightarrow>
     sn_contract_version snapshot = ''retirement-snapshot-v1'' \<and> sn_memory_space_id snapshot \<noteq> '''' \<and>
     sn_atoms snapshot \<noteq> [] \<and> length (sn_atoms snapshot) \<le> 100000 \<and>
     (unat (sn_cohort_day snapshot) + 1) * 86400000000 \<le> unat (sn_as_of_us snapshot) \<and>
     distinct (map rc_atom_id (sn_atoms snapshot)) \<and>
     (\<forall>c \<in> set (sn_atoms snapshot). candidate_wf sha snapshot c)"

section \<open>Each guard\<close>

lemma unat_day [simp]: "unat MICROSECONDS_PER_DAY = 86400000000"
  by (simp add: MICROSECONDS_PER_DAY_def)

lemma validate_candidate_state_Inr:
  "validate_candidate_state c day = Inr e \<longleftrightarrow>
     st_retention_tier (rc_state c) = ShortTerm \<and> st_content_status (rc_state c) = Present \<and>
     st_retirement_run_id (rc_state c) = None \<and> st_superseded_by (rc_state c) = None \<and>
     st_expires_at_us (rc_state c) = Some e \<and> unat e div 86400000000 = unat day \<and>
     rc_integrity c = Complete \<and> rc_body_digest c = atom_digest (rc_atom_id c)"
proof -
  have "e div MICROSECONDS_PER_DAY = day \<longleftrightarrow> unat e div 86400000000 = unat day" for e
    by (simp add: word_unat_eq_iff unat_div)
  then show ?thesis
    by (cases "st_expires_at_us (rc_state c)") (auto simp: validate_candidate_state_def Let_def)
qed

lemma validate_candidate_content_Inr:
  assumes "atom_body_wf sha body"
  shows "validate_candidate_content sha c body = Inr () \<longleftrightarrow>
    vsize (v_body body) + retained_bytes body < 2 ^ 64 \<and>
    unat (rc_exact_package_bytes c) = vsize (v_body body) + retained_bytes body \<and> atom_id sha body = Inr (rc_atom_id c)"
proof -
  obtain bs where bs: "body_canonical_bytes body = Inr bs" "length bs \<le> 262144"
    using atom_body_wf_encodes [OF assms] by blast
  then have len: "length bs = vsize (v_body body)" by (simp add: body_canonical_bytes_length)
  have size: "u64_of_usize (length bs) = Some (of_nat (length bs))" using bs(2) by (simp add: u64_of_usize_def)
  have unat_len: "unat (of_nat (length bs) :: u64) = length bs" using bs(2) by (simp add: unat_of_nat)
  let ?sum = "\<lambda>n. try_fold (\<lambda>sum a. ok_or (CanonicalEncoding ''artifact byte total overflowed u64'')
         (checked_add sum (ar_size_bytes a))) 0 (filter ar_retention_allowed (bd_artifacts body)) = Inr n"
  have sum: "?sum n \<longleftrightarrow> retained_bytes body < 2 ^ 64 \<and> unat n = retained_bytes body" for n
    by (simp add: checked_sum_fold_Inr retained_bytes_def)
  have "validate_candidate_content sha c body = Inr () \<longleftrightarrow> (\<exists>n p. ?sum n \<and> checked_add (of_nat (length bs)) n = Some p \<and>
      p = rc_exact_package_bytes c \<and> AtomId (hash_prefixed sha ATOM_HASH_DOMAIN bs) = rc_atom_id c)"
    unfolding validate_candidate_content_def bs(1) size bindr_simps ok_or_simps
    by (auto simp: bindr_Inr ok_or_Inr Let_def split: if_splits)
  also have "\<dots> \<longleftrightarrow> vsize (v_body body) + retained_bytes body < 2 ^ 64 \<and>
    unat (rc_exact_package_bytes c) = vsize (v_body body) + retained_bytes body \<and>
    AtomId (hash_prefixed sha ATOM_HASH_DOMAIN bs) = rc_atom_id c" (is "?L \<longleftrightarrow> ?R")
  proof
    assume ?L
    then obtain n p where n: "unat n = retained_bytes body" "checked_add (of_nat (length bs)) n = Some p"
      "p = rc_exact_package_bytes c" "AtomId (hash_prefixed sha ATOM_HASH_DOMAIN bs) = rc_atom_id c"
      unfolding sum by blast
    have "unat p = length bs + retained_bytes body"
      using checked_add_SomeD [OF n(2)] unat_len n(1) by simp
    then show ?R using n(3,4) len unat_u64_bound [of p] by simp
  next
    assume r: ?R
    define n :: u64 where "n = of_nat (retained_bytes body)"
    have n: "unat n = retained_bytes body" using r by (simp add: n_def unat_of_nat)
    have "checked_add (of_nat (length bs)) n = Some (rc_exact_package_bytes c)"
      using r n unat_len len by (simp add: checked_add_def word_unat_eq_iff unat_word_add_lt)
    then show ?L unfolding sum using r n by auto
  qed
  also have "AtomId (hash_prefixed sha ATOM_HASH_DOMAIN bs) = rc_atom_id c \<longleftrightarrow> atom_id sha body = Inr (rc_atom_id c)"
    by (simp add: atom_id_def bs(1))
  finally show ?thesis .
qed

lemma horizon_value: "unat (po_stm_horizon_us poc_v1) = 604800000000"
  by (simp add: poc_v1_def DAY_US_def)

lemma checked_add_exists:
  "(\<exists>x. checked_add a b = Some x \<and> e = x) \<longleftrightarrow> unat e = unat a + unat (b :: u64)"
proof -
  have "checked_add a b = Some e \<longleftrightarrow> unat e = unat a + unat b"
  proof
    assume "unat e = unat a + unat b"
    moreover from this have lt: "unat a + unat b < 2 ^ 64" using unat_u64_bound [of e] by simp
    then have "unat (a + b) = unat a + unat b" by (intro unat_word_add_lt) simp
    ultimately show "checked_add a b = Some e" using lt by (simp add: checked_add_def word_unat_eq_iff)
  qed (rule checked_add_SomeD)
  then show ?thesis by blast
qed

lemma validate_candidate_Inr:
  "validate_candidate sha snapshot poc_v1 c = Inr () \<longleftrightarrow> candidate_wf sha snapshot c"
proof (cases "rc_body c")
  case None
  then show ?thesis by (auto simp: validate_candidate_def candidate_wf_def Let_def bindr_Inr)
next
  case (Some body)
  have content: "validate_candidate_content sha c body = Inr () \<longleftrightarrow>
      unat (rc_exact_package_bytes c) = vsize (v_body body) + retained_bytes body \<and> atom_id sha body = Inr (rc_atom_id c)"
    if "atom_body_wf sha body"
    using validate_candidate_content_Inr [OF that, of c] unat_u64_bound [of "rc_exact_package_bytes c"] by auto
  have step: "validate_candidate sha snapshot poc_v1 c = Inr () \<longleftrightarrow>
      (\<exists>e. validate_candidate_state c (sn_cohort_day snapshot) = Inr e \<and> validate_memory_atom_body sha body poc_v1 = Inr () \<and>
        (\<exists>x. checked_add (iv_recorded_at_us (bd_interval body)) (po_stm_horizon_us poc_v1) = Some x \<and> e = x) \<and>
        (\<exists>p. bd_payload body = EpisodePayload p) \<and> sc_memory_space_id (bd_scope body) = sn_memory_space_id snapshot \<and>
        validate_candidate_content sha c body = Inr ())"
    by (cases "bd_payload body")
      (auto simp: validate_candidate_def Let_def Some bindr_Inr ok_or_Inr validate_candidate_scope_def)
  show ?thesis
    unfolding step validate_candidate_state_Inr validate_memory_atom_body_Inr checked_add_exists horizon_value candidate_wf_def
    using content by (auto simp: Some)
qed

lemma validate_candidates_from_Inr:
  "sorted (map rc_atom_id cs) \<Longrightarrow>
   validate_candidates_from sha snapshot poc_v1 previous cs = Inr () \<longleftrightarrow>
     distinct (map rc_atom_id cs) \<and> (\<forall>c \<in> set cs. candidate_wf sha snapshot c) \<and>
     (cs \<noteq> [] \<longrightarrow> previous \<noteq> Some (rc_atom_id (hd cs)))"
proof (induction cs arbitrary: previous)
  case (Cons c cs)
  have "rc_atom_id c \<in> rc_atom_id ` set cs \<longleftrightarrow> (cs \<noteq> [] \<and> rc_atom_id c = rc_atom_id (hd cs))"
  proof
    assume "rc_atom_id c \<in> rc_atom_id ` set cs"
    then obtain d where d: "d \<in> set cs" "rc_atom_id d = rc_atom_id c" by auto
    then have ne: "cs \<noteq> []" by auto
    then have "rc_atom_id (hd cs) \<le> rc_atom_id d" using Cons.prems d(1) by (cases cs) auto
    moreover have "rc_atom_id c \<le> rc_atom_id (hd cs)" using Cons.prems ne by (cases cs) auto
    ultimately show "cs \<noteq> [] \<and> rc_atom_id c = rc_atom_id (hd cs)" using d(2) ne by simp
  next
    assume "cs \<noteq> [] \<and> rc_atom_id c = rc_atom_id (hd cs)"
    then show "rc_atom_id c \<in> rc_atom_id ` set cs" by auto
  qed
  with Cons show ?case by (auto simp: bindr_Inr validate_candidate_Inr)
qed simp

lemma validate_candidates_Inr:
  "validate_candidates sha (sort_key rc_atom_id atoms) snapshot poc_v1 = Inr () \<longleftrightarrow>
     distinct (map rc_atom_id atoms) \<and> (\<forall>c \<in> set atoms. candidate_wf sha snapshot c)"
proof -
  have "distinct (map rc_atom_id (sort_key rc_atom_id atoms)) \<longleftrightarrow> distinct (map rc_atom_id atoms)"
    by (rule mset_eq_imp_distinct_iff) simp
  then show ?thesis by (simp add: validate_candidates_def validate_candidates_from_Inr)
qed

lemma cohort_end_Inr:
  "cohort_end day = Inr e \<longleftrightarrow> (unat day + 1) * 86400000000 < 2 ^ 64 \<and> unat e = (unat day + 1) * 86400000000"
proof (cases "unat day + 1 < 2 ^ 64")
  case True
  then have "unat (day + 1) = unat day + 1" by (subst unat_word_add_lt) simp_all
  then show ?thesis
    using True by (auto simp: cohort_end_def checked_add_def checked_mul_def word_unat_eq_iff unat_word_mult_lt ok_or_Inr)
next
  case False
  then show ?thesis by (auto simp: cohort_end_def checked_add_def)
qed

lemma validate_snapshot_Inr:
  "validate_snapshot snapshot policy = Inr () \<longleftrightarrow> policy = poc_v1 \<and>
     sn_contract_version snapshot = ''retirement-snapshot-v1'' \<and> sn_memory_space_id snapshot \<noteq> '''' \<and>
     sn_atoms snapshot \<noteq> [] \<and> length (sn_atoms snapshot) \<le> 100000 \<and>
     (unat (sn_cohort_day snapshot) + 1) * 86400000000 \<le> unat (sn_as_of_us snapshot)"
proof -
  have "(\<exists>e. cohort_end (sn_cohort_day snapshot) = Inr e \<and> \<not> sn_as_of_us snapshot < e) \<longleftrightarrow>
      (unat (sn_cohort_day snapshot) + 1) * 86400000000 \<le> unat (sn_as_of_us snapshot)" (is "?L \<longleftrightarrow> ?R")
  proof
    assume ?L
    then show ?R by (auto simp: cohort_end_Inr word_less_nat_alt not_less)
  next
    assume r: ?R
    then have lt: "(unat (sn_cohort_day snapshot) + 1) * 86400000000 < 2 ^ 64"
      using unat_u64_bound [of "sn_as_of_us snapshot"] by linarith
    then have "unat (of_nat ((unat (sn_cohort_day snapshot) + 1) * 86400000000) :: u64) = (unat (sn_cohort_day snapshot) + 1) * 86400000000"
      by (rule unat_of_nat_u64)
    then show ?L using r lt unfolding cohort_end_Inr word_less_nat_alt not_less by metis
  qed
  then show ?thesis
    by (auto simp: validate_snapshot_def validate_poc_v1_def validate_cohort_size_def bindr_Inr poc_v1_simps not_less
        split: if_splits)
qed

text \<open>
  C34: the cohort checks accept exactly the admissible cohorts: the frozen policy, a non-empty
  cohort of at most 100,000 atoms whose day has closed, no duplicate identifiers, and every atom an
  unretired, present, complete short-term episode of this memory space, valid, content-addressed by
  its identifier, with the exact package size, and expiring on the cohort day seven days after it
  was recorded.
\<close>

theorem cohort_validation_spec:
  "validate_snapshot snapshot policy = Inr () \<and>
   validate_candidates sha (sort_key rc_atom_id (sn_atoms snapshot)) snapshot policy = Inr () \<longleftrightarrow>
     policy = poc_v1 \<and> cohort_wf sha snapshot"
  unfolding validate_snapshot_Inr cohort_wf_def using validate_candidates_Inr by auto

section \<open>Order independence\<close>

lemma snapshot_fields:
  "sn_contract_version (s\<lparr>sn_atoms := xs\<rparr>) = sn_contract_version s"
  "sn_memory_space_id (s\<lparr>sn_atoms := xs\<rparr>) = sn_memory_space_id s"
  "sn_cohort_day (s\<lparr>sn_atoms := xs\<rparr>) = sn_cohort_day s"
  "sn_as_of_us (s\<lparr>sn_atoms := xs\<rparr>) = sn_as_of_us s"
  by simp_all

lemma snapshot_atoms_irrelevant [simp]:
  "validate_candidate sha (s\<lparr>sn_atoms := xs\<rparr>) policy c = validate_candidate sha s policy c"
  "v_input_authority (s\<lparr>sn_atoms := xs\<rparr>) cs = v_input_authority s cs"
  "semantic_body_of bodies ids score (s\<lparr>sn_atoms := xs\<rparr>) digest policy = semantic_body_of bodies ids score s digest policy"
  unfolding validate_candidate_def v_input_authority_def semantic_body_of_def semantic_scope_def
    snapshot_fields by (rule refl)+

lemma validate_candidates_from_atoms [simp]:
  "validate_candidates_from sha (s\<lparr>sn_atoms := xs\<rparr>) policy previous cs = validate_candidates_from sha s policy previous cs"
  by (induction cs arbitrary: previous) simp_all

lemma semantic_candidates_atoms [simp]:
  "semantic_candidates sha (s\<lparr>sn_atoms := xs\<rparr>) policy digest cs = semantic_candidates sha s policy digest cs"
proof -
  have "consider_cluster sha (s\<lparr>sn_atoms := xs\<rparr>) policy digest cs = consider_cluster sha s policy digest cs"
    by (intro ext) (simp only: consider_cluster_def build_semantic_body_def snapshot_atoms_irrelevant)
  then show ?thesis by (simp add: semantic_candidates_def)
qed

lemma plan_finish_atoms [simp]:
  "plan_finish sha (s\<lparr>sn_atoms := xs\<rparr>) policy seed inputs drawn = plan_finish sha s policy seed inputs drawn"
  unfolding plan_finish_def snapshot_fields by (rule refl)

text \<open>
  a retirement plan does not depend on the order in which the snapshot lists the atoms of the
  cohort: two snapshots with the same atoms under distinct identifiers get the same result, error
  or plan, including every digest in it.
\<close>

theorem plan_retirement_order_independent:
  assumes "mset xs = mset (sn_atoms snapshot)" "distinct (map rc_atom_id (sn_atoms snapshot))"
  shows "plan_retirement sha chacha (snapshot\<lparr>sn_atoms := xs\<rparr>) policy seed = plan_retirement sha chacha snapshot policy seed"
proof -
  have sorted: "sort_key rc_atom_id xs = sort_key rc_atom_id (sn_atoms snapshot)"
  proof (rule sort_key_distinct_unique)
    show "distinct (map rc_atom_id xs)"
      using assms by (metis mset_eq_imp_distinct_iff mset_map)
  qed (simp_all add: assms(1))
  have "length xs = length (sn_atoms snapshot)" using assms(1) by (rule mset_eq_length)
  moreover from this have "xs = [] \<longleftrightarrow> sn_atoms snapshot = []" by auto
  ultimately have "validate_snapshot (snapshot\<lparr>sn_atoms := xs\<rparr>) policy = validate_snapshot snapshot policy"
    unfolding validate_snapshot_def snapshot_fields by simp
  moreover have "retirement_input_digest sha (snapshot\<lparr>sn_atoms := xs\<rparr>) = retirement_input_digest sha snapshot"
    by (simp add: retirement_input_digest_def sorted)
  ultimately have "plan_inputs sha (snapshot\<lparr>sn_atoms := xs\<rparr>) policy = plan_inputs sha snapshot policy"
    by (simp add: plan_inputs_def sorted validate_candidates_def)
  moreover have "plan_finish sha (snapshot\<lparr>sn_atoms := xs\<rparr>) policy seed = plan_finish sha snapshot policy seed"
    by (intro ext) simp
  ultimately show ?thesis by (simp only: plan_retirement_def)
qed

definition sample_snapshot :: "RetirementCandidateV1 list \<Rightarrow> RetirementSnapshotV1" where
  "sample_snapshot atoms = \<lparr>sn_contract_version = ''retirement-snapshot-v1'', sn_memory_space_id = ''space-a'',
     sn_cohort_day = 7, sn_as_of_us = 8 * MICROSECONDS_PER_DAY, sn_atoms = atoms\<rparr>"

theorem plan_retirement_order_independent_witness:
  "plan_retirement (\<lambda>_. Digest32_ZERO) (\<lambda>_ i. of_nat i)
     ((sample_snapshot [sample_member ''a'', (sample_member ''b'')\<lparr>rc_atom_id := AtomId (digest_of_bytes [1])\<rparr>])
        \<lparr>sn_atoms := [(sample_member ''b'')\<lparr>rc_atom_id := AtomId (digest_of_bytes [1])\<rparr>, sample_member ''a'']\<rparr>)
     poc_v1 (Seed32 Digest32_ZERO) =
   plan_retirement (\<lambda>_. Digest32_ZERO) (\<lambda>_ i. of_nat i)
     (sample_snapshot [sample_member ''a'', (sample_member ''b'')\<lparr>rc_atom_id := AtomId (digest_of_bytes [1])\<rparr>])
     poc_v1 (Seed32 Digest32_ZERO)"
proof (rule plan_retirement_order_independent)
  show "distinct (map rc_atom_id (sn_atoms (sample_snapshot
      [sample_member ''a'', (sample_member ''b'')\<lparr>rc_atom_id := AtomId (digest_of_bytes [1])\<rparr>])))"
    by (simp add: sample_snapshot_def sample_member_def Digest32_ZERO_def digest_bytes_inject_iff [symmetric]
        eval_nat_numeral)
qed (simp add: sample_snapshot_def)

end
