(* ===== verification/SemanticBody.thy ===== *)
theory SemanticBody
  imports Cohort
begin

text \<open>
  The semantic atoms of a plan: in an admissible cohort the body built for a cluster passes every
  check of the validator except possibly the size limit, so the only way semantic planning can
  fail is a body over 256 KiB.
\<close>

section \<open>Candidates of an admissible cohort\<close>

text \<open>The sorted candidates of an admissible cohort.\<close>

definition sorted_cohort :: "(byte list \<Rightarrow> Digest32) \<Rightarrow> RetirementSnapshotV1 \<Rightarrow> RetirementCandidateV1 list \<Rightarrow> bool" where
  "sorted_cohort sha snapshot cs \<longleftrightarrow> cohort_wf sha snapshot \<and> cs = sort_key rc_atom_id (sn_atoms snapshot)"

definition body_of :: "RetirementCandidateV1 \<Rightarrow> MemoryAtomBodyV1" where
  "body_of c = the (rc_body c)"

lemma candidate_wfD:
  assumes "candidate_wf sha snapshot c"
  shows "rc_body c = Some (body_of c)" "atom_body_wf sha (body_of c)"
    "sc_memory_space_id (bd_scope (body_of c)) = sn_memory_space_id snapshot"
    "atom_id sha (body_of c) = Inr (rc_atom_id c)" "body_kind (body_of c) = Episode"
    "rc_body_digest c = atom_digest (rc_atom_id c)"
    "unat (rc_exact_package_bytes c) = vsize (v_body (body_of c)) + retained_bytes (body_of c)"
  using assms by (auto simp: candidate_wf_def body_of_def body_kind_def)

lemma candidate_wf_times:
  assumes "candidate_wf sha snapshot c" "(unat (sn_cohort_day snapshot) + 1) * 86400000000 \<le> unat (sn_as_of_us snapshot)"
  shows "iv_started_at_us (bd_interval (body_of c)) \<le> iv_ended_at_us (bd_interval (body_of c))"
    "iv_ended_at_us (bd_interval (body_of c)) \<le> sn_as_of_us snapshot"
proof -
  obtain body and expires :: u64 where c: "rc_body c = Some body" "atom_body_wf sha body"
    "unat expires = unat (iv_recorded_at_us (bd_interval body)) + 604800000000"
    "unat expires div 86400000000 = unat (sn_cohort_day snapshot)"
    using assms(1) unfolding candidate_wf_def by blast
  then have iv: "iv_started_at_us (bd_interval body) \<le> iv_ended_at_us (bd_interval body)"
    "iv_ended_at_us (bd_interval body) \<le> iv_recorded_at_us (bd_interval body)"
    by (simp_all add: atom_body_wf_def)
  have "unat expires < (unat (sn_cohort_day snapshot) + 1) * 86400000000"
    unfolding c(4) [symmetric] by (simp add: less_Suc_eq_le [symmetric] dividend_less_div_times)
  then have "iv_recorded_at_us (bd_interval body) \<le> sn_as_of_us snapshot"
    using assms(2) c(3) by (simp add: word_le_nat_alt)
  then show "iv_started_at_us (bd_interval (body_of c)) \<le> iv_ended_at_us (bd_interval (body_of c))"
    "iv_ended_at_us (bd_interval (body_of c)) \<le> sn_as_of_us snapshot"
    using iv c(1) by (auto simp: body_of_def)
qed

lemma sorted_cohortD:
  assumes "sorted_cohort sha snapshot cs"
  shows "\<And>c. c \<in> set cs \<Longrightarrow> candidate_wf sha snapshot c" "sorted_wrt (<) (map rc_atom_id cs)"
    "cs \<noteq> []" "length cs \<le> 100000" "sn_memory_space_id snapshot \<noteq> ''''"
    "(unat (sn_cohort_day snapshot) + 1) * 86400000000 \<le> unat (sn_as_of_us snapshot)"
proof -
  have "mset (map rc_atom_id cs) = mset (map rc_atom_id (sn_atoms snapshot))"
    using assms by (simp add: sorted_cohort_def)
  then have "distinct (map rc_atom_id cs)"
    using assms by (metis cohort_wf_def mset_eq_imp_distinct_iff sorted_cohort_def)
  then show "sorted_wrt (<) (map rc_atom_id cs)"
    using assms by (simp add: sorted_wrt_less_iff sorted_cohort_def)
  show "cs \<noteq> []" using assms by (metis cohort_wf_def length_0_conv length_sort sorted_cohort_def)
qed (use assms in \<open>auto simp: sorted_cohort_def cohort_wf_def\<close>)

section \<open>The body of a cluster\<close>

lemma fold_min_least: "fold min xs (a :: u64) \<le> a \<and> (\<forall>x \<in> set xs. fold min xs a \<le> x) \<and> fold min xs a \<in> insert a (set xs)"
  by (induction xs arbitrary: a) (auto simp: min_def, (meson order_trans le_cases)+)

lemma fold_max_greatest: "a \<le> fold max xs (a :: u64) \<and> (\<forall>x \<in> set xs. x \<le> fold max xs a) \<and> fold max xs a \<in> insert a (set xs)"
  by (induction xs arbitrary: a) (auto simp: max_def, (meson order_trans le_cases)+)

lemma iter_min_le: "x \<in> set xs \<Longrightarrow> iter_min d xs \<le> x"
  using fold_min_least by (cases xs) (auto simp: iter_min_def)

lemma iter_max_ge: "x \<in> set xs \<Longrightarrow> x \<le> iter_max d xs"
  using fold_max_greatest by (cases xs) (auto simp: iter_max_def)

lemma iter_max_le: "xs \<noteq> [] \<Longrightarrow> (\<forall>x \<in> set xs. x \<le> b) \<Longrightarrow> iter_max d xs \<le> b"
  using fold_max_greatest [of "hd xs" "tl xs"] by (cases xs) (auto simp: iter_max_def)

lemma decimal_not_empty: "decimal n \<noteq> ''''"
  by (subst decimal.simps) simp

lemma map_find_neq: "\<forall>x \<in> set xs. f x \<noteq> a \<Longrightarrow> map_option f (List.find P xs) \<noteq> Some a"
  by (induction xs) auto

lemma consensus_optional_not_empty: "consensus_optional values required \<noteq> Some ''''"
  unfolding consensus_optional_def
proof (rule map_find_neq, rule ballI)
  fix x assume "x \<in> set (sorted_list_of_fmap (count_values (filter (\<lambda>v. v \<noteq> '''') values)))"
  moreover obtain v n where "x = (v, n)" by (cases x)
  ultimately show "fst x \<noteq> ''''"
    by (simp add: set_sorted_list_of_fmap fmlookup_count_values split: if_splits)
qed

lemma relation_targets_derived:
  "map re_target (filter (\<lambda>r. re_kind r = k) (map (\<lambda>s. \<lparr>re_kind = DerivedFrom, re_target = s\<rparr>) ids)) =
     (if k = DerivedFrom then ids else [])"
  by (induction ids) auto

lemma fmap_of_list_digests:
  "fmlookup (fmap_of_list (map (\<lambda>s. (s, f s)) ids)) s = (if s \<in> set ids then Some (f s) else None)"
  by (induction ids) (auto simp: fmlookup_of_list)

lemma fmdom_of_list_digests: "fmdom (fmap_of_list (map (\<lambda>s. (s, f s)) ids)) = fset_of_list ids"
  by (rule fset_eqI) (auto simp: fmlookup_dom_iff fmap_of_list_digests fset_of_list.rep_eq split: if_splits)

lemma semantic_body_payload_valid:
  assumes "3 \<le> length ids" "sorted_wrt (<) ids"
  shows "semantic_wf (semantic_body_of bodies ids score snapshot digest poc_v1)
    \<lparr>sp_source_ids = ids, sp_source_body_digests = fmap_of_list (map (\<lambda>s. (s, atom_digest s)) ids),
     sp_score = score, sp_consensus_numerator = 2, sp_consensus_denominator = 3, sp_supersedes = None\<rparr>"
proof -
  have "fmdom' (fmap_of_list (map (\<lambda>s. (s, atom_digest s)) ids)) = set ids"
    by (simp add: fmdom'_alt_def fmdom_of_list_digests fset_of_list.rep_eq)
  then show ?thesis
    using assms by (auto simp: semantic_wf_def semantic_body_of_def Let_def relation_targets_def relation_targets_derived
        fmap_of_list_digests option_list_def comp_def)
qed

lemma semantic_body_validation:
  fixes score
  assumes "3 \<le> length ids" "sorted_wrt (<) ids" "policy_digest sha poc_v1 = Inr digest"
    and "sn_memory_space_id snapshot \<noteq> ''''" "bodies \<noteq> []"
    and "\<And>b. b \<in> set bodies \<Longrightarrow> iv_started_at_us (bd_interval b) \<le> iv_ended_at_us (bd_interval b)"
    and "\<And>b. b \<in> set bodies \<Longrightarrow> iv_ended_at_us (bd_interval b) \<le> sn_as_of_us snapshot"
  defines "body \<equiv> semantic_body_of bodies ids score snapshot digest poc_v1"
  shows "validate_memory_atom_body sha body poc_v1 = validate_body_size body poc_v1"
proof -
  have scope: "validate_scope (bd_scope body) = Inr ()"
    unfolding validate_scope_Inr scope_wf_def
    using assms(4) by (simp add: body_def semantic_body_of_def semantic_scope_def Let_def consensus_optional_not_empty)
  have interval: "iv_started_at_us (bd_interval body) \<le> iv_ended_at_us (bd_interval body)"
    "iv_ended_at_us (bd_interval body) \<le> iv_recorded_at_us (bd_interval body)"
  proof -
    obtain b where b: "b \<in> set bodies" using assms(5) by (cases bodies) auto
    let ?s = "map (iv_started_at_us \<circ> bd_interval) bodies" and ?e = "map (iv_ended_at_us \<circ> bd_interval) bodies"
    have "iter_min (sn_as_of_us snapshot) ?s \<le> iv_started_at_us (bd_interval b)" using b by (intro iter_min_le) auto
    also have "\<dots> \<le> iv_ended_at_us (bd_interval b)" using assms(6) b by blast
    also have "\<dots> \<le> iter_max (sn_as_of_us snapshot) ?e" using b by (intro iter_max_ge) auto
    finally show "iv_started_at_us (bd_interval body) \<le> iv_ended_at_us (bd_interval body)"
      by (simp add: body_def semantic_body_of_def Let_def)
    have "iter_max (sn_as_of_us snapshot) ?e \<le> sn_as_of_us snapshot"
      using assms(5,7) by (intro iter_max_le) auto
    then show "iv_ended_at_us (bd_interval body) \<le> iv_recorded_at_us (bd_interval body)"
      by (simp add: body_def semantic_body_of_def Let_def)
  qed
  have payload: "bd_payload body = SemanticPayload \<lparr>sp_source_ids = ids,
     sp_source_body_digests = fmap_of_list (map (\<lambda>s. (s, atom_digest s)) ids),
     sp_score = score, sp_consensus_numerator = 2, sp_consensus_denominator = 3, sp_supersedes = None\<rparr>" (is "_ = SemanticPayload ?p")
    by (simp add: body_def semantic_body_of_def Let_def poc_v1_simps)
  have valid: "validate_semantic_body body ?p poc_v1 = Inr ()"
    unfolding validate_semantic_body_Inr body_def by (rule semantic_body_payload_valid) (rule assms)+
  have "distinct (bd_relations body)"
    using assms(2) by (auto simp: body_def semantic_body_of_def Let_def sorted_wrt_less_iff distinct_map inj_on_def)
  then have relations: "card (set (map (\<lambda>r. (relation_kind_key (re_kind r), re_target r)) (bd_relations body))) = length (bd_relations body)"
    by (simp only: relations_unique_iff)
  have fields: "bd_contract_version body = ''atom-v1''" "bd_trigger body \<noteq> ''''" "pv_producer (bd_provenance body) \<noteq> ''''"
    "pv_policy_digest (bd_provenance body) = digest" "bd_observations body = []" "bd_outcome body = None" "bd_artifacts body = []"
    by (simp_all add: body_def semantic_body_of_def Let_def)
  show ?thesis
    unfolding validate_memory_atom_body_def
    using scope interval [THEN leD] payload valid relations fields assms(3)
    by (simp add: validate_poc_v1_def validate_artifacts_def List.map_filter_simps)
qed

section \<open>The semantic candidates of a cohort\<close>

text \<open>What a cluster of an admissible cohort becomes.\<close>

definition cluster_score :: "RetirementCandidateV1 list \<Rightarrow> usize list \<Rightarrow> ConsolidationScoreV1" where
  "cluster_score cs cluster = projr (consolidation_score cs cluster poc_v1)"

definition cluster_ids :: "RetirementCandidateV1 list \<Rightarrow> usize list \<Rightarrow> AtomId list" where
  "cluster_ids cs cluster = map (\<lambda>i. rc_atom_id (cs ! i)) cluster"

definition cluster_body ::
  "(byte list \<Rightarrow> Digest32) \<Rightarrow> RetirementSnapshotV1 \<Rightarrow> RetirementCandidateV1 list \<Rightarrow> usize list \<Rightarrow> MemoryAtomBodyV1" where
  "cluster_body sha snapshot cs cluster =
     semantic_body_of (map (\<lambda>i. body_of (cs ! i)) cluster) (cluster_ids cs cluster) (cluster_score cs cluster)
       snapshot (projr (policy_digest sha poc_v1)) poc_v1"

definition qualifies :: "RetirementCandidateV1 list \<Rightarrow> usize list \<Rightarrow> bool" where
  "qualifies cs cluster \<longleftrightarrow> 3 \<le> length cluster \<and> 2 \<le> session_count (map (\<lambda>i. body_of (cs ! i)) cluster) \<and>
     550000 \<le> unat (ppm_get (cs_total (cluster_score cs cluster)))"

text \<open>Positions of a cluster: ascending and inside the cohort.\<close>

definition positions_ok :: "RetirementCandidateV1 list \<Rightarrow> usize list \<Rightarrow> bool" where
  "positions_ok cs cluster \<longleftrightarrow> sorted_wrt (<) cluster \<and> (\<forall>i \<in> set cluster. i < length cs)"

lemma positions_ok_length: "positions_ok cs cluster \<Longrightarrow> length cluster \<le> length cs"
proof -
  assume "positions_ok cs cluster"
  then have "distinct cluster" "set cluster \<subseteq> {..<length cs}"
    by (auto simp: positions_ok_def sorted_wrt_less_iff)
  then show "length cluster \<le> length cs"
    by (metis card_lessThan card_mono distinct_card finite_lessThan)
qed

lemma cluster_bodies_eq:
  assumes "sorted_cohort sha snapshot cs" "positions_ok cs cluster"
  shows "List.map_filter rc_body (map ((!) cs) cluster) = map (\<lambda>i. body_of (cs ! i)) cluster"
proof -
  have "rc_body (cs ! i) = Some (body_of (cs ! i))" if "i \<in> set cluster" for i
    using assms that by (intro candidate_wfD(1) sorted_cohortD(1)) (auto simp: positions_ok_def)
  then show ?thesis by (induction cluster) (simp_all add: List.map_filter_simps)
qed

lemma cluster_ids_sorted:
  assumes "sorted_cohort sha snapshot cs" "positions_ok cs cluster"
  shows "sorted_wrt (<) (cluster_ids cs cluster)"
proof -
  have "rc_atom_id (cs ! i) < rc_atom_id (cs ! j)" if "i < j" "j < length cs" for i j
    using sorted_cohortD(2) [OF assms(1)] that by (simp add: sorted_wrt_iff_nth_less)
  then show ?thesis
    using assms(2) unfolding cluster_ids_def positions_ok_def
    by (induction cluster) auto
qed

lemma consolidation_score_runs:
  assumes "\<forall>i \<in> set cluster. i < length cs"
  shows "\<exists>s. consolidation_score cs cluster policy = Inr s"
proof -
  obtain c where "cohesion_loop policy PPM_ONE (List.map_filter rc_body (map ((!) cs) cluster)) = Inr c"
    using cohesion_loop_total by blast
  moreover have "\<exists>t. score_total policy s d u l c n x = Inr t" for s d u l c n x
    using score_total_spec by blast
  ultimately show ?thesis
    by (simp add: consolidation_score_def cluster_candidates_eq [OF assms] Let_def) (metis bindr_simps(2))
qed

lemma cluster_score_eq:
  "positions_ok cs cluster \<Longrightarrow> consolidation_score cs cluster poc_v1 = Inr (cluster_score cs cluster)"
  using consolidation_score_runs [of cluster cs poc_v1] by (auto simp: positions_ok_def cluster_score_def)

lemma positions_candidate_wf:
  "sorted_cohort sha snapshot cs \<Longrightarrow> positions_ok cs cluster \<Longrightarrow> i \<in> set cluster \<Longrightarrow> candidate_wf sha snapshot (cs ! i)"
  by (intro sorted_cohortD(1)) (auto simp: positions_ok_def)

lemma build_semantic_body_eq:
  assumes "sorted_cohort sha snapshot cs" "positions_ok cs cluster"
  shows "build_semantic_body sha cs cluster score snapshot digest policy =
    Inr (semantic_body_of (map (\<lambda>i. body_of (cs ! i)) cluster) (cluster_ids cs cluster) score snapshot digest policy)"
proof -
  let ?bodies = "map (\<lambda>i. body_of (cs ! i)) cluster"
  note wf = positions_candidate_wf [OF assms]
  have present: "rc_body (cs ! i) = Some (body_of (cs ! i))" if "i \<in> set cluster" for i
    using wf [OF that] by (rule candidate_wfD(1))
  have members: "traverse (\<lambda>at. bindr (index cs at) (\<lambda>candidate.
         lift (ok_or (CanonicalEncoding ''semantic cluster contains no body'') (rc_body candidate)))) cluster = Inr ?bodies"
    by (rule traverse_map_Inr) (use present assms(2) in \<open>auto simp: positions_ok_def\<close>)
  have ids: "atom_id sha (body_of (cs ! i)) = Inr (rc_atom_id (cs ! i))" if "i \<in> set cluster" for i
    using wf [OF that] by (rule candidate_wfD(4))
  then have "map (atom_id_or_default sha) ?bodies = cluster_ids cs cluster"
    by (simp add: atom_id_or_default_def cluster_ids_def)
  then have sorted: "sort_key (atom_id_or_default sha) ?bodies = ?bodies"
    using cluster_ids_sorted [OF assms] by (intro sort_key_id_if_sorted) (simp add: sorted_wrt_less_iff)
  have "traverse (atom_id sha) ?bodies = Inr (cluster_ids cs cluster)"
  proof -
    have "traverse (atom_id sha) ?bodies = traverse (\<lambda>i. atom_id sha (body_of (cs ! i))) cluster"
      by (induction cluster) simp_all
    then show ?thesis unfolding cluster_ids_def by (simp add: traverse_map_Inr ids)
  qed
  then show ?thesis by (simp add: build_semantic_body_def members sorted)
qed

definition planned :: "(byte list \<Rightarrow> Digest32) \<Rightarrow> RetirementSnapshotV1 \<Rightarrow> RetirementCandidateV1 list \<Rightarrow> usize list \<Rightarrow> scored" where
  "planned sha snapshot cs cluster =
     (let body = cluster_body sha snapshot cs cluster; aid = projr (atom_id sha body) in
      (cluster_score cs cluster, \<lparr>ps_atom_id = aid, ps_body_digest = atom_digest aid,
        ps_canonical_size_bytes = of_nat (vsize (v_body body)), ps_body = body\<rparr>))"

definition fits :: "(byte list \<Rightarrow> Digest32) \<Rightarrow> RetirementSnapshotV1 \<Rightarrow> RetirementCandidateV1 list \<Rightarrow> usize list \<Rightarrow> bool" where
  "fits sha snapshot cs cluster \<longleftrightarrow> vsize (v_body (cluster_body sha snapshot cs cluster)) \<le> 262144"

lemma cluster_body_validation:
  assumes "sorted_cohort sha snapshot cs" "positions_ok cs cluster" "3 \<le> length cluster"
    and "policy_digest sha poc_v1 = Inr digest"
  shows "validate_memory_atom_body sha (cluster_body sha snapshot cs cluster) poc_v1 =
    validate_body_size (cluster_body sha snapshot cs cluster) poc_v1"
  unfolding cluster_body_def assms(4) sum.sel
proof (rule semantic_body_validation)
  show "3 \<le> length (cluster_ids cs cluster)" using assms(3) by (simp add: cluster_ids_def)
  show "sorted_wrt (<) (cluster_ids cs cluster)" by (rule cluster_ids_sorted) (rule assms)+
  show "sn_memory_space_id snapshot \<noteq> ''''" by (rule sorted_cohortD(5)) (rule assms)
  show "map (\<lambda>i. body_of (cs ! i)) cluster \<noteq> []" using assms(3) by auto
  note times = candidate_wf_times [OF positions_candidate_wf [OF assms(1,2)] sorted_cohortD(6) [OF assms(1)]]
  show "iv_started_at_us (bd_interval b) \<le> iv_ended_at_us (bd_interval b)"
    "iv_ended_at_us (bd_interval b) \<le> sn_as_of_us snapshot" if "b \<in> set (map (\<lambda>i. body_of (cs ! i)) cluster)" for b
    using that times by auto
qed (rule assms(4))

lemma semantic_permission: "bd_retention_permission (semantic_body_of bodies ids score snapshot digest policy) = SemanticAllowed"
  by (simp add: semantic_body_of_def Let_def)

lemma exact_wf_semantic: "exact_wf (semantic_body_of bodies ids score snapshot digest policy)"
  by (simp add: exact_wf_def semantic_permission)

lemma validate_body_size_semantic:
  assumes "exact_wf b"
  shows "validate_body_size b poc_v1 = Inr () \<longleftrightarrow> vsize (v_body b) \<le> 262144"
  using assms by (simp add: validate_body_size_Inr)

lemma oversized_body:
  assumes "262144 < vsize (v_body b)" "vsize (v_body b) < 2 ^ 64"
  shows "validate_body_size b poc_v1 = Inl (AtomTooLarge (of_nat (vsize (v_body b))) 262144)"
proof -
  have size: "encoded_size_bytes b = Inr (of_nat (vsize (v_body b)))"
    unfolding encoded_size_bytes_iff using assms(2) by (simp add: unat_of_nat_u64)
  have "(of_nat (vsize (v_body b)) :: u64) > 262144"
    using assms by (simp only: word_less_nat_alt unat_of_nat_u64) simp
  then show ?thesis by (simp add: validate_body_size_def size poc_v1_simps)
qed

lemma atom_id_fits:
  assumes "vsize (v_body b) \<le> 262144"
  shows "atom_id sha b = Inr (projr (atom_id sha b))"
    and "encoded_size_bytes b = Inr (of_nat (vsize (v_body b)))"
proof -
  obtain bs where "body_canonical_bytes b = Inr bs"
    using body_canonical_bytes_total [of b] assms by auto
  then show "atom_id sha b = Inr (projr (atom_id sha b))" by (simp add: atom_id_def)
  show "encoded_size_bytes b = Inr (of_nat (vsize (v_body b)))"
    unfolding encoded_size_bytes_iff using assms by (simp add: unat_of_nat_u64)
qed

definition size_error :: "(byte list \<Rightarrow> Digest32) \<Rightarrow> RetirementSnapshotV1 \<Rightarrow> RetirementCandidateV1 list \<Rightarrow> usize list \<Rightarrow> MemoryError" where
  "size_error sha snapshot cs cluster = projl (validate_body_size (cluster_body sha snapshot cs cluster) poc_v1)"

lemma consider_cluster_eq:
  assumes "sorted_cohort sha snapshot cs" "positions_ok cs cluster" "policy_digest sha poc_v1 = Inr digest"
  shows "consider_cluster sha snapshot poc_v1 digest cs acc cluster =
    (if \<not> qualifies cs cluster then Inr acc
     else if fits sha snapshot cs cluster then Inr (acc @ [planned sha snapshot cs cluster])
     else Inl (Err (size_error sha snapshot cs cluster)))"
proof (cases "qualifies cs cluster")
  case False
  have range: "\<forall>i \<in> set cluster. i < length cs" using assms(2) by (simp add: positions_ok_def)
  show ?thesis
    using False
    by (auto simp: consider_cluster_def qualifies_def poc_v1_simps cluster_candidates_eq [OF range] less_eq_Ppm_unat
        cluster_bodies_eq [OF assms(1,2)] cluster_score_eq [OF assms(2)])
next
  case True
  let ?b = "cluster_body sha snapshot cs cluster"
  have range: "\<forall>i \<in> set cluster. i < length cs" using assms(2) by (simp add: positions_ok_def)
  have body: "build_semantic_body sha cs cluster (cluster_score cs cluster) snapshot digest poc_v1 = Inr ?b"
    using build_semantic_body_eq [OF assms(1,2)] by (simp add: cluster_body_def assms(3))
  have len: "3 \<le> length cluster" using True by (simp add: qualifies_def)
  have valid: "validate_memory_atom_body sha ?b poc_v1 = validate_body_size ?b poc_v1"
    using assms(1,2) len assms(3) by (rule cluster_body_validation)
  have size: "validate_body_size ?b poc_v1 = Inr () \<longleftrightarrow> fits sha snapshot cs cluster"
    unfolding fits_def cluster_body_def by (rule validate_body_size_semantic) (rule exact_wf_semantic)
  have step: "consider_cluster sha snapshot poc_v1 digest cs acc cluster =
      bindr (lift (validate_body_size ?b poc_v1)) (\<lambda>_.
        bindr (lift (encoded_size_bytes ?b)) (\<lambda>canonical_size_bytes.
        bindr (lift (atom_id sha ?b)) (\<lambda>aid.
        Inr (acc @ [(cluster_score cs cluster, \<lparr>ps_atom_id = aid, ps_body_digest = atom_digest aid,
          ps_canonical_size_bytes = canonical_size_bytes, ps_body = ?b\<rparr>)]))))"
    using True by (simp add: consider_cluster_def qualifies_def poc_v1_simps cluster_candidates_eq [OF range] less_eq_Ppm_unat
        cluster_bodies_eq [OF assms(1,2)] cluster_score_eq [OF assms(2)] body valid)
  show ?thesis
  proof (cases "fits sha snapshot cs cluster")
    case fit: True
    then have "vsize (v_body ?b) \<le> 262144" by (simp add: fits_def)
    from atom_id_fits(1) [OF this, of sha] obtain aid where aid: "atom_id sha ?b = Inr aid" by blast
    note size_eq = atom_id_fits(2) [OF \<open>vsize (v_body ?b) \<le> 262144\<close>]
    have "validate_body_size ?b poc_v1 = Inr ()" using size fit by blast
    then show ?thesis unfolding step size_eq aid planned_def Let_def using True fit by simp
  next
    case False
    then obtain e where "validate_body_size ?b poc_v1 = Inl e"
      using size by (cases "validate_body_size ?b poc_v1") auto
    then show ?thesis unfolding step using True False by (simp add: size_error_def)
  qed
qed

lemma consider_clusters_eq:
  assumes "sorted_cohort sha snapshot cs" "policy_digest sha poc_v1 = Inr digest" "\<forall>c \<in> set clusters. positions_ok cs c"
  shows "try_fold (consider_cluster sha snapshot poc_v1 digest cs) acc clusters =
    (case List.find (\<lambda>c. qualifies cs c \<and> \<not> fits sha snapshot cs c) clusters of
       None \<Rightarrow> Inr (acc @ map (planned sha snapshot cs) (filter (qualifies cs) clusters))
     | Some c \<Rightarrow> Inl (Err (size_error sha snapshot cs c)))"
  using assms(3) by (induction clusters arbitrary: acc) (simp_all add: consider_cluster_eq [OF assms(1) _ assms(2)] split: option.split)

definition cohort_clusters :: "RetirementCandidateV1 list \<Rightarrow> usize list list" where
  "cohort_clusters cs = first_fit (linked_at cs poc_v1) (positions_where semantic_eligible cs)"

lemma positions_where_ok: "positions_ok cs (positions_where p cs)"
  unfolding positions_ok_def positions_where_def
proof
  show "sorted_wrt (<) (map fst (filter (p \<circ> snd) (enumerate 0 cs)))"
  proof -
    have "sorted_wrt (\<lambda>x y. fst x < fst y) (enumerate 0 cs)"
      by (simp add: sorted_wrt_iff_nth_less nth_enumerate_eq)
    then show ?thesis by (simp add: sorted_wrt_map sorted_wrt_filter)
  qed
qed (auto simp: in_set_enumerate_eq)

lemma set_positions_where: "set (positions_where p xs) = {i. i < length xs \<and> p (xs ! i)}"
  unfolding positions_where_def by (force simp: in_set_enumerate_eq image_iff)

lemma cohort_clusters_clustering:
  "clustering (linked_at cs poc_v1) (positions_where semantic_eligible cs) (cohort_clusters cs)"
  unfolding cohort_clusters_def using positions_where_ok by (intro first_fit_clustering) (auto simp: positions_ok_def)

lemma cohort_clusters_ok: "c \<in> set (cohort_clusters cs) \<Longrightarrow> positions_ok cs c"
proof -
  assume c: "c \<in> set (cohort_clusters cs)"
  note parts = cohort_clusters_clustering [of cs, unfolded clustering_def]
  have "set (concat (cohort_clusters cs)) = set (positions_where semantic_eligible cs)"
    using parts by (blast dest: mset_eq_setD)
  then have "set c \<subseteq> set (positions_where semantic_eligible cs)" using c by auto
  moreover have "sorted_wrt (<) c"
  proof -
    have "sorted_wrt (\<lambda>x y. x < y \<and> linked_at cs poc_v1 y x) c" using parts c by blast
    then show ?thesis by (rule sorted_wrt_mono_rel [rotated]) simp
  qed
  ultimately show "positions_ok cs c" using positions_where_ok [of cs semantic_eligible] by (auto simp: positions_ok_def)
qed

lemma semantic_candidates_eq:
  assumes "sorted_cohort sha snapshot cs" "policy_digest sha poc_v1 = Inr digest"
  shows "semantic_candidates sha snapshot poc_v1 digest cs =
    (case List.find (\<lambda>c. qualifies cs c \<and> \<not> fits sha snapshot cs c) (cohort_clusters cs) of
       None \<Rightarrow> Inr (sort_key scored_key (map (planned sha snapshot cs) (filter (qualifies cs) (cohort_clusters cs))))
     | Some c \<Rightarrow> Inl (Err (size_error sha snapshot cs c)))"
proof -
  have "complete_link_clusters cs (positions_where semantic_eligible cs) poc_v1 = Inr (cohort_clusters cs)"
    unfolding cohort_clusters_def using positions_where_ok by (intro complete_link_clusters_eq) (auto simp: positions_ok_def)
  moreover note consider_clusters_eq [OF assms, of "cohort_clusters cs" "[]"]
  ultimately show ?thesis
    using cohort_clusters_ok by (simp add: semantic_candidates_def split: option.split)
qed

end
