(* ===== verification/Content.thy ===== *)
theory Content
  imports Plan
begin

text \<open>
  Content addressing as an interface.  Every digest of the crate is the hash of a domain prefix and
  a canonical encoding; the locale states what such an address promises, given that the serialised
  form determines the value, and it is interpreted for every hashed type.
\<close>

section \<open>The interface\<close>

locale content_address =
  fixes to_value :: "'a \<Rightarrow> Value" and ok :: "'a \<Rightarrow> bool"
  assumes value_inj: "ok x \<Longrightarrow> ok y \<Longrightarrow> vnorm (to_value x) = vnorm (to_value y) \<Longrightarrow> x = y"
    and value_float_free: "float_free (to_value x)"
begin

lemma bytes_inj:
  assumes "encode_value (to_value x) = Inr bs" "encode_value (to_value y) = Inr bs" "ok x" "ok y"
  shows "x = y"
  using encode_value_inj [OF assms(1,2)] value_inj [OF assms(3,4)] by blast

lemma digest_total: "vsize (to_value x) < 2 ^ 64 \<Longrightarrow> \<exists>d. digest_value sha domain (to_value x) = Inr d"
  using encode_value_total [OF value_float_free, of x] by (auto simp: digest_value_Inr)

text \<open>Equal digests of different values exhibit a collision of the hash on the two preimages.\<close>

lemma digest_binds:
  assumes "digest_value sha domain (to_value x) = Inr d" "digest_value sha domain (to_value y) = Inr d"
    and "ok x" "ok y" "x \<noteq> y"
  shows "\<exists>a b. encode_value (to_value x) = Inr a \<and> encode_value (to_value y) = Inr b \<and> a \<noteq> b \<and>
    sha (domain @ a) = sha (domain @ b)"
  using assms bytes_inj [of x _ y] by (auto simp: digest_value_Inr)

end

section \<open>The serialised forms determine the values\<close>

lemma v_disposition_inj [vnorm_inj]: "vnorm (v_disposition x) = vnorm (v_disposition y) \<longleftrightarrow> x = y"
  by (cases x; cases y) simp_all

lemma v_disposition_float_free [float_free_simps]: "float_free (v_disposition x)"
  by (cases x) simp_all

lemma event_field_not_null [simp]:
  "vnorm (v_observation a) \<noteq> VNull" "vnorm (v_interpretation b) \<noteq> VNull" "vnorm (v_belief c) \<noteq> VNull"
  "vnorm (v_decision_record d) \<noteq> VNull" "vnorm (v_action e) \<noteq> VNull"
  by (simp_all add: v_observation_def v_interpretation_def v_belief_def v_decision_record_def v_action_def)

lemma v_planned_semantic_inj [vnorm_inj]: "vnorm (v_planned_semantic x) = vnorm (v_planned_semantic y) \<longleftrightarrow> x = y"
  by (cases x; cases y) (simp add: v_planned_semantic_def vnorm_object_eq vnorm_inj option_vec_inj v_map_inj conj_ac)

lemma v_planned_semantic_float_free [float_free_simps]: "float_free (v_planned_semantic x)"
  by (simp add: v_planned_semantic_def float_free_simps)

lemma v_semantic_decision_inj [vnorm_inj]: "vnorm (v_semantic_decision x) = vnorm (v_semantic_decision y) \<longleftrightarrow> x = y"
  by (cases x; cases y) (simp add: v_semantic_decision_def vnorm_object_eq vnorm_inj option_vec_inj v_map_inj conj_ac)

lemma v_semantic_decision_float_free [float_free_simps]: "float_free (v_semantic_decision x)"
  by (simp add: v_semantic_decision_def float_free_simps)

lemma v_decision_inj [vnorm_inj]: "vnorm (v_decision x) = vnorm (v_decision y) \<longleftrightarrow> x = y"
  by (cases x; cases y) (simp add: v_decision_def vnorm_object_eq vnorm_inj option_vec_inj v_map_inj conj_ac)

lemma v_decision_float_free [float_free_simps]: "float_free (v_decision x)"
  by (simp add: v_decision_def float_free_simps)

lemma v_post_atom_inj [vnorm_inj]: "vnorm (v_post_atom x) = vnorm (v_post_atom y) \<longleftrightarrow> x = y"
  by (cases x; cases y) (simp add: v_post_atom_def vnorm_object_eq vnorm_inj option_vec_inj v_map_inj conj_ac)

lemma v_post_atom_float_free [float_free_simps]: "float_free (v_post_atom x)"
  by (simp add: v_post_atom_def float_free_simps)

lemma v_post_state_inj [vnorm_inj]: "vnorm (v_post_state x) = vnorm (v_post_state y) \<longleftrightarrow> x = y"
  by (cases x; cases y) (simp add: v_post_state_def vnorm_object_eq vnorm_inj option_vec_inj v_map_inj conj_ac)

lemma v_post_state_float_free [float_free_simps]: "float_free (v_post_state x)"
  by (simp add: v_post_state_def float_free_simps)

lemma v_event_inj [vnorm_inj]: "vnorm (v_event x) = vnorm (v_event y) \<longleftrightarrow> x = y"
  by (cases x; cases y) (simp add: v_event_def vnorm_object_eq vnorm_inj option_vec_inj v_map_inj conj_ac)

text \<open>A \<open>usize\<close> is serialised as a \<open>u64\<close>; the counts of a plan fit.\<close>

definition plan_counts_fit :: "RetirementPlanV1 \<Rightarrow> bool" where
  "plan_counts_fit p \<longleftrightarrow> pn_episodic_population_count p < 2 ^ 64 \<and>
     pn_episodic_winner_budget p < 2 ^ 64 \<and> pn_semantic_count_budget p < 2 ^ 64"

lemma v_usize_inj: "m < 2 ^ 64 \<Longrightarrow> n < 2 ^ 64 \<Longrightarrow> vnorm (v_usize m) = vnorm (v_usize n) \<longleftrightarrow> m = n"
  by (simp add: v_usize_def of_nat_u64_inject)

lemma v_plan_inj:
  "plan_counts_fit x \<Longrightarrow> plan_counts_fit y \<Longrightarrow> vnorm (v_plan x) = vnorm (v_plan y) \<longleftrightarrow> x = y"
  by (cases x; cases y)
    (simp add: plan_counts_fit_def v_plan_def vnorm_object_eq vnorm_inj option_vec_inj v_usize_inj conj_ac)

lemma v_plan_float_free [float_free_simps]: "float_free (v_plan x)"
  by (simp add: v_plan_def float_free_simps)

section \<open>Interpretations\<close>

interpretation atom_content: content_address v_body "\<lambda>_. True"
  by unfold_locales (simp_all add: vnorm_inj float_free_simps)

interpretation event_content: content_address v_event "\<lambda>_. True"
  by unfold_locales (simp_all add: vnorm_inj float_free_simps)

interpretation post_state_content: content_address v_post_state "\<lambda>_. True"
  by unfold_locales (simp_all add: vnorm_inj float_free_simps)

interpretation decisions_content: content_address "v_vec v_decision" "\<lambda>_. True"
  by unfold_locales (simp_all add: vnorm_inj v_vec_inj float_free_simps)

interpretation plan_content: content_address v_plan plan_counts_fit
  by unfold_locales (simp_all add: v_plan_inj float_free_simps)

section \<open>A plan digest commits to the whole plan\<close>

text \<open>
  the plan digest, from which the run identifier and the receipt are derived, commits to every
  field of the plan: if two different plans had the same digest, their two canonical byte strings
  would be different and collide under the hash.
\<close>

theorem plan_digest_binds_plan:
  assumes "plan_digest sha p = Inr d" "plan_digest sha q = Inr d"
    and "plan_counts_fit p" "plan_counts_fit q" "p \<noteq> q"
  shows "\<exists>a b. encode_value (v_plan p) = Inr a \<and> encode_value (v_plan q) = Inr b \<and> a \<noteq> b \<and>
    sha (PLAN_HASH_DOMAIN @ a) = sha (PLAN_HASH_DOMAIN @ b)"
  using assms unfolding plan_digest_def by (rule plan_content.digest_binds)

definition sample_plan :: "u64 \<Rightarrow> RetirementPlanV1" where
  "sample_plan day = \<lparr>pn_contract_version = ''retirement-plan-v1'', pn_policy_id = ''poc-v1'',
     pn_policy_digest = Digest32_ZERO, pn_seed = Seed32 Digest32_ZERO, pn_memory_space_id = ''space-a'',
     pn_cohort_day = day, pn_as_of_us = 0, pn_input_set_digest = Digest32_ZERO, pn_rng_identifier = ''rng'',
     pn_episodic_population_digest = Digest32_ZERO, pn_episodic_population_count = 0,
     pn_episodic_winner_budget = 0, pn_episodic_winner_bytes = 0, pn_semantic_count_budget = 1,
     pn_semantic_body_bytes = 0, pn_semantic_decisions = [], pn_semantic_atoms = [], pn_episodic_winners = [],
     pn_decisions = [], pn_projected_post_state = \<lparr>pp_memory_space_id = ''space-a'', pp_source_atoms = [],
       pp_semantic_atoms = []\<rparr>, pn_projected_state_digest = Digest32_ZERO\<rparr>"

theorem plan_digest_binds_plan_witness:
  "\<exists>a b. encode_value (v_plan (sample_plan 1)) = Inr a \<and> encode_value (v_plan (sample_plan 2)) = Inr b \<and> a \<noteq> b \<and>
    (\<lambda>_. Digest32_ZERO) (PLAN_HASH_DOMAIN @ a) = (\<lambda>_. Digest32_ZERO) (PLAN_HASH_DOMAIN @ b)"
proof (rule plan_digest_binds_plan)
  have "vsize (v_plan (sample_plan n)) < 2 ^ 64" for n
    by (simp add: sample_plan_def v_plan_def v_post_state_def)
  then have "plan_digest (\<lambda>_. Digest32_ZERO) (sample_plan n) = Inr Digest32_ZERO" for n
    using plan_content.digest_total [of "sample_plan n"] by (force simp: plan_digest_def digest_value_Inr)
  then show "plan_digest (\<lambda>_. Digest32_ZERO) (sample_plan 1) = Inr Digest32_ZERO"
    "plan_digest (\<lambda>_. Digest32_ZERO) (sample_plan 2) = Inr Digest32_ZERO" by blast+
  show "plan_counts_fit (sample_plan 1)" "plan_counts_fit (sample_plan 2)"
    by (simp_all add: sample_plan_def plan_counts_fit_def)
  show "sample_plan 1 \<noteq> sample_plan 2" by (simp add: sample_plan_def)
qed

end
