(* ===== verification/Planning.thy ===== *)
theory Planning
  imports SemanticBody Content
begin

text \<open>
  What \<open>plan_retirement\<close> computes on an admissible cohort: every size it encodes is in range,
  selection is the greedy one under both budgets, and the plan is the record determined by the
  qualifying clusters and the lottery winners.
\<close>

section \<open>Nothing overflows\<close>

lemma sum_list_map_le: "(\<And>x. x \<in> set xs \<Longrightarrow> f x \<le> b) \<Longrightarrow> sum_list (map f xs) \<le> length xs * (b :: nat)"
proof (induction xs)
  case (Cons x xs)
  then have "f x \<le> b" "sum_list (map f xs) \<le> length xs * b" by simp_all
  then show ?case by simp
qed simp

lemma vsize_state_le: "vsize (v_state s) \<le> 1000"
proof -
  have "vsize (v_tier t) \<le> 100" for t by (cases t) simp_all
  moreover have "vsize (v_content_status t) \<le> 100" for t by (cases t) simp_all
  ultimately show ?thesis
    using add_mono [of "vsize (v_tier (st_retention_tier s))" 100 "vsize (v_content_status (st_content_status s))" 100]
    by (simp add: v_state_def split: option.split)
qed

lemma vsize_input_candidate_le: "vsize (v_input_candidate c) \<le> 2000"
proof -
  have "vsize (v_integrity t) \<le> 100" for t by (cases t) simp_all
  then show ?thesis
    using add_mono [OF vsize_state_le [of "rc_state c"], of "vsize (v_integrity (rc_integrity c))" 100]
    by (simp add: v_input_candidate_def)
qed

lemma scope_le_body:
  "length (sc_memory_space_id (bd_scope b)) \<le> vsize (v_body b)"
  "vsize (v_provenance (bd_provenance b)) \<le> vsize (v_body b)"
  "vsize (v_scope (bd_scope b)) \<le> vsize (v_body b)"
  by (simp_all add: v_body_def v_scope_def)

lemma wf_body_size: "candidate_wf sha snapshot c \<Longrightarrow> vsize (v_body (body_of c)) \<le> 262144"
  using candidate_wfD(2) by (simp add: atom_body_wf_def)

lemma memory_space_small:
  assumes "sorted_cohort sha snapshot cs"
  shows "length (sn_memory_space_id snapshot) \<le> 262144"
proof -
  obtain c where c: "c \<in> set cs" using sorted_cohortD(3) [OF assms] by (cases cs) auto
  note wf = sorted_cohortD(1) [OF assms c]
  show ?thesis
    using scope_le_body(1) [of "body_of c"] wf_body_size [OF wf] candidate_wfD(3) [OF wf] by simp
qed

lemma retirement_input_digest_total:
  assumes "sorted_cohort sha snapshot cs"
  shows "\<exists>d. retirement_input_digest sha snapshot = Inr d"
proof -
  have sizes: "sum_list (map (\<lambda>c. 8 + vsize (v_input_candidate c)) cs) \<le> length cs * 2008"
    by (rule sum_list_map_le) (use vsize_input_candidate_le in simp)
  have cs: "sort_key rc_atom_id (sn_atoms snapshot) = cs" "sn_contract_version snapshot = ''retirement-snapshot-v1''"
    using assms by (simp_all add: sorted_cohort_def cohort_wf_def)
  have "vsize (v_input_authority snapshot cs) < 2 ^ 64"
    using sizes sorted_cohortD(4) [OF assms] memory_space_small [OF assms]
    by (simp add: v_input_authority_def cs(2))
  moreover have "float_free (v_input_authority snapshot cs)"
    by (simp add: v_input_authority_def v_input_candidate_def float_free_simps)
  ultimately show ?thesis
    using encode_value_total by (auto simp: retirement_input_digest_def cs(1) digest_value_Inr)
qed

lemma population_digest_total:
  assumes "sorted_cohort sha snapshot cs" "positions_ok cs population"
  shows "\<exists>d. population_digest sha cs population = Inr d"
proof -
  let ?members = "map ((!) cs) population"
  have "sum_list (map (\<lambda>c. 8 + vsize (v_population c)) ?members) \<le> length ?members * 1000"
    by (rule sum_list_map_le) (simp add: v_population_def)
  then have "vsize (v_vec v_population ?members) < 2 ^ 64"
    using positions_ok_length [OF assms(2)] sorted_cohortD(4) [OF assms(1)] by (simp add: comp_def)
  moreover have "float_free (v_vec v_population ?members)"
    by (simp add: v_population_def float_free_simps)
  ultimately show ?thesis
    using encode_value_total [of "v_vec v_population ?members"] assms(2)
    by (auto simp: population_digest_def cluster_candidates_eq positions_ok_def lift_Inr digest_value_Inr)
qed

section \<open>Selection\<close>

text \<open>The greedy selection: one disposition per candidate from the counts so far.\<close>

fun dispositions :: "usize \<Rightarrow> usize \<Rightarrow> nat \<Rightarrow> nat list \<Rightarrow> SemanticCandidateDispositionV1 list" where
  "dispositions budget taken bytes [] = []"
| "dispositions budget taken bytes (s # ss) =
     (if budget \<le> taken then SkippedCountBudget # dispositions budget taken bytes ss
      else if 8388608 < bytes + s then SkippedByteBudget # dispositions budget taken bytes ss
      else Selected # dispositions budget (Suc taken) (bytes + s) ss)"

fun selected_of :: "'a list \<Rightarrow> SemanticCandidateDispositionV1 list \<Rightarrow> 'a list" where
  "selected_of (x # xs) (d # ds) = (if d = Selected then x # selected_of xs ds else selected_of xs ds)"
| "selected_of _ _ = []"

definition scored_ok :: "scored \<Rightarrow> bool" where
  "scored_ok x \<longleftrightarrow> unat (ps_canonical_size_bytes (snd x)) \<le> 262144 \<and>
     (\<exists>p. bd_payload (ps_body (snd x)) = SemanticPayload p)"

definition source_ids_of :: "MemoryAtomBodyV1 \<Rightarrow> AtomId list" where
  "source_ids_of b = (case bd_payload b of SemanticPayload p \<Rightarrow> sp_source_ids p | EpisodePayload _ \<Rightarrow> [])"

definition semantic_decision :: "scored \<Rightarrow> SemanticCandidateDispositionV1 \<Rightarrow> SemanticCandidateDecisionV1" where
  "semantic_decision x d = \<lparr>sd_atom_id = ps_atom_id (snd x), sd_source_ids = source_ids_of (ps_body (snd x)),
     sd_score = fst x, sd_canonical_size_bytes = ps_canonical_size_bytes (snd x), sd_disposition = d\<rparr>"

abbreviation planned_size :: "PlannedSemanticAtomV1 \<Rightarrow> nat" where
  "planned_size p \<equiv> unat (ps_canonical_size_bytes p)"

lemma dispositions_length [simp]: "length (dispositions budget taken bytes ss) = length ss"
  by (induction ss arbitrary: taken bytes) simp_all

lemma dispositions_not_hard: "SkippedAtomHardLimit \<notin> set (dispositions budget taken bytes ss)"
  by (induction ss arbitrary: taken bytes) simp_all

lemma map2_semantic_decision:
  "length xs = length ds \<Longrightarrow> map sd_disposition (map2 semantic_decision xs ds) = ds \<and>
     map sd_atom_id (map2 semantic_decision xs ds) = map (ps_atom_id \<circ> snd) xs"
  by (induction xs ds rule: list_induct2) (simp_all add: semantic_decision_def)

lemma semantic_candidate_disposition_eq:
  assumes "unat n \<le> 262144" "unat bytes \<le> 8388608"
  shows "semantic_candidate_disposition n taken budget bytes poc_v1 =
    Inr (if budget \<le> taken then (SkippedCountBudget, bytes)
         else if 8388608 < unat bytes + unat n then (SkippedByteBudget, bytes)
         else (Selected, bytes + n))"
proof -
  have sum: "unat (bytes + n) = unat bytes + unat n" using assms by (intro unat_word_add_lt) simp
  have fit: "\<not> n > 262144" using assms(1) by (simp add: word_less_nat_alt)
  have add: "checked_add bytes n = Some (bytes + n)" using assms by (simp add: checked_add_def)
  have over: "bytes + n > 8388608 \<longleftrightarrow> 8388608 < unat bytes + unat n" by (simp add: word_less_nat_alt sum)
  show ?thesis
    using fit by (simp add: semantic_candidate_disposition_def poc_v1_simps add over)
qed

lemma select_semantics_from:
  assumes "\<forall>x \<in> set xs. scored_ok x" "unat (sl_body_bytes st) \<le> 8388608"
  shows "\<exists>st'. try_fold (select_semantic poc_v1 budget) st xs = Inr st' \<and>
    (let ds = dispositions budget (length (sl_atoms st)) (unat (sl_body_bytes st)) (map (planned_size \<circ> snd) xs) in
      sl_atoms st' = sl_atoms st @ selected_of (map snd xs) ds \<and>
      sl_decisions st' = sl_decisions st @ map2 semantic_decision xs ds \<and>
      unat (sl_body_bytes st') = unat (sl_body_bytes st) + sum_list (map planned_size (selected_of (map snd xs) ds)) \<and>
      unat (sl_body_bytes st') \<le> 8388608 \<and>
      length (sl_atoms st') \<le> max budget (length (sl_atoms st)))"
  using assms
proof (induction xs arbitrary: st)
  case (Cons x xs)
  have ok: "scored_ok x" using Cons.prems by simp
  then obtain p where p: "bd_payload (ps_body (snd x)) = SemanticPayload p"
    and fit: "unat (ps_canonical_size_bytes (snd x)) \<le> 262144" by (auto simp: scored_ok_def)
  let ?size = "ps_canonical_size_bytes (snd x)"
  define d where "d = (if budget \<le> length (sl_atoms st) then SkippedCountBudget
     else if 8388608 < unat (sl_body_bytes st) + unat ?size then SkippedByteBudget else Selected)"
  define st1 where "st1 = \<lparr>sl_atoms = (if d = Selected then sl_atoms st @ [snd x] else sl_atoms st),
     sl_decisions = sl_decisions st @ [semantic_decision x d],
     sl_body_bytes = (if d = Selected then sl_body_bytes st + ?size else sl_body_bytes st)\<rparr>"
  have step: "select_semantic poc_v1 budget st x = Inr st1"
    using semantic_candidate_disposition_eq [OF fit Cons.prems(2), of "length (sl_atoms st)" budget]
    by (simp add: select_semantic_def p Let_def st1_def d_def semantic_decision_def source_ids_of_def)
  have sum: "d = Selected \<Longrightarrow> unat (sl_body_bytes st + ?size) = unat (sl_body_bytes st) + unat ?size"
    using fit Cons.prems(2) by (intro unat_word_add_lt) simp
  have "unat (sl_body_bytes st1) \<le> 8388608"
    using sum Cons.prems(2) by (auto simp: st1_def d_def split: if_splits)
  moreover have "\<forall>x \<in> set xs. scored_ok x" using Cons.prems(1) by simp
  ultimately obtain st' where st': "try_fold (select_semantic poc_v1 budget) st1 xs = Inr st'"
    "let ds = dispositions budget (length (sl_atoms st1)) (unat (sl_body_bytes st1)) (map (planned_size \<circ> snd) xs) in
      sl_atoms st' = sl_atoms st1 @ selected_of (map snd xs) ds \<and>
      sl_decisions st' = sl_decisions st1 @ map2 semantic_decision xs ds \<and>
      unat (sl_body_bytes st') = unat (sl_body_bytes st1) + sum_list (map planned_size (selected_of (map snd xs) ds)) \<and>
      unat (sl_body_bytes st') \<le> 8388608 \<and>
      length (sl_atoms st') \<le> max budget (length (sl_atoms st1))" using Cons.IH [of st1] by blast
  show ?case
  proof (intro exI [of _ st'] conjI)
    show "try_fold (select_semantic poc_v1 budget) st (x # xs) = Inr st'" using step st'(1) by simp
    show "let ds = dispositions budget (length (sl_atoms st)) (unat (sl_body_bytes st)) (map (planned_size \<circ> snd) (x # xs)) in
      sl_atoms st' = sl_atoms st @ selected_of (map snd (x # xs)) ds \<and>
      sl_decisions st' = sl_decisions st @ map2 semantic_decision (x # xs) ds \<and>
      unat (sl_body_bytes st') = unat (sl_body_bytes st) + sum_list (map planned_size (selected_of (map snd (x # xs)) ds)) \<and>
      unat (sl_body_bytes st') \<le> 8388608 \<and>
      length (sl_atoms st') \<le> max budget (length (sl_atoms st))"
      using st'(2) sum by (cases "d = Selected") (auto simp: Let_def st1_def d_def split: if_splits)
  qed
qed simp

text \<open>
  semantic atoms are selected greedily.  For candidates that passed validation, the selection
  never fails: each candidate gets the disposition of the first-come rule (count budget first, then
  the 8 MiB byte budget), the selected atoms are those candidates in order, the byte total is their
  sum, both budgets hold, and no candidate is ever recorded as over the hard limit.
\<close>

theorem semantic_selection_is_greedy:
  assumes "\<forall>x \<in> set scored. scored_ok x"
  shows "\<exists>sel. select_semantics poc_v1 budget scored = Inr sel \<and>
    map sd_disposition (sl_decisions sel) = dispositions budget 0 0 (map (planned_size \<circ> snd) scored) \<and>
    map sd_atom_id (sl_decisions sel) = map (ps_atom_id \<circ> snd) scored \<and>
    sl_atoms sel = selected_of (map snd scored) (map sd_disposition (sl_decisions sel)) \<and>
    unat (sl_body_bytes sel) = sum_list (map planned_size (sl_atoms sel)) \<and>
    unat (sl_body_bytes sel) \<le> 8388608 \<and> length (sl_atoms sel) \<le> budget \<and>
    SkippedAtomHardLimit \<notin> sd_disposition ` set (sl_decisions sel)"
proof -
  let ?ds = "dispositions budget 0 0 (map (planned_size \<circ> snd) scored)"
  obtain sel where sel: "select_semantics poc_v1 budget scored = Inr sel"
    "sl_atoms sel = selected_of (map snd scored) ?ds" "sl_decisions sel = map2 semantic_decision scored ?ds"
    "unat (sl_body_bytes sel) = sum_list (map planned_size (sl_atoms sel))"
    "unat (sl_body_bytes sel) \<le> 8388608" "length (sl_atoms sel) \<le> budget"
    using select_semantics_from [OF assms, of "\<lparr>sl_atoms = [], sl_decisions = [], sl_body_bytes = 0\<rparr>" budget]
    by (auto simp: Let_def select_semantics_def)
  have dispositions: "map sd_disposition (sl_decisions sel) = ?ds"
    and ids: "map sd_atom_id (sl_decisions sel) = map (ps_atom_id \<circ> snd) scored"
    using map2_semantic_decision [of scored ?ds] by (simp_all add: sel(3))
  have "SkippedAtomHardLimit \<notin> set (map sd_disposition (sl_decisions sel))"
    unfolding dispositions by (rule dispositions_not_hard)
  then show ?thesis using sel dispositions ids by (intro exI [of _ sel]) (simp add: image_iff)
qed

section \<open>Decisions\<close>

lemma fold_push_source:
  "distinct srcs \<Longrightarrow>
   unwrap_or [] (fmlookup (fold (\<lambda>s m. fmupd s (unwrap_or [] (fmlookup m s) @ [i]) m) srcs m) a) =
     unwrap_or [] (fmlookup m a) @ (if a \<in> set srcs then [i] else [])"
  by (induction srcs arbitrary: m) auto

lemma semantic_source_map_from:
  assumes "\<forall>p \<in> set atoms. distinct (source_ids_of (ps_body p)) \<and> (\<exists>q. bd_payload (ps_body p) = SemanticPayload q)"
  shows "\<exists>m'. try_fold add_semantic_sources m atoms = Inr m' \<and> (\<forall>a. unwrap_or [] (fmlookup m' a) =
    unwrap_or [] (fmlookup m a) @ map ps_atom_id (filter (\<lambda>p. a \<in> set (source_ids_of (ps_body p))) atoms))"
  using assms
proof (induction atoms arbitrary: m)
  case (Cons p atoms)
  then obtain q where q: "bd_payload (ps_body p) = SemanticPayload q" by auto
  let ?m = "fold (\<lambda>s m. fmupd s (unwrap_or [] (fmlookup m s) @ [ps_atom_id p]) m) (sp_source_ids q) m"
  have step: "add_semantic_sources m p = Inr ?m" by (simp add: add_semantic_sources_def q)
  have src: "source_ids_of (ps_body p) = sp_source_ids q" by (simp add: source_ids_of_def q)
  have "unwrap_or [] (fmlookup ?m a) = unwrap_or [] (fmlookup m a) @ (if a \<in> set (sp_source_ids q) then [ps_atom_id p] else [])" for a
    using Cons.prems by (intro fold_push_source) (simp add: src [symmetric])
  moreover obtain m' where "try_fold add_semantic_sources ?m atoms = Inr m'" "\<And>a. unwrap_or [] (fmlookup m' a) =
    unwrap_or [] (fmlookup ?m a) @ map ps_atom_id (filter (\<lambda>p. a \<in> set (source_ids_of (ps_body p))) atoms)"
    using Cons.IH [of ?m] Cons.prems by auto
  ultimately show ?case using step by (intro exI [of _ m']) (simp add: src)
qed simp

definition consolidated_into :: "PlannedSemanticAtomV1 list \<Rightarrow> AtomId \<Rightarrow> AtomId list" where
  "consolidated_into atoms a = map ps_atom_id (filter (\<lambda>p. a \<in> set (source_ids_of (ps_body p))) atoms)"

lemma semantic_source_map_eq:
  assumes "\<forall>p \<in> set atoms. distinct (source_ids_of (ps_body p)) \<and> (\<exists>q. bd_payload (ps_body p) = SemanticPayload q)"
  shows "\<exists>m. semantic_source_map atoms = Inr m \<and> (\<forall>a. unwrap_or [] (fmlookup m a) = consolidated_into atoms a)"
  using semantic_source_map_from [OF assms, of fmempty] by (simp add: semantic_source_map_def consolidated_into_def)

lemma decide_all_eq:
  "distinct (map rc_atom_id cs) \<Longrightarrow>
     decide_all w m cs = map (\<lambda>c. decide_candidate w (unwrap_or [] (fmlookup m (rc_atom_id c))) c) cs"
proof (induction cs arbitrary: m)
  case (Cons c cs)
  have "decide_candidate w (unwrap_or [] (fmlookup (fmdrop (rc_atom_id c) m) (rc_atom_id d))) d =
      decide_candidate w (unwrap_or [] (fmlookup m (rc_atom_id d))) d" if "d \<in> set cs" for d
    using Cons.prems that by (auto simp: image_iff)
  then show ?case using Cons by (simp cong: map_cong)
qed simp

section \<open>The post-state\<close>

lemma provenance_digest_total:
  assumes "vsize (v_body b) \<le> 262144"
  shows "\<exists>d. digest_value sha PROVENANCE_HASH_DOMAIN (v_provenance (bd_provenance b)) = Inr d"
proof -
  have "vsize (v_provenance (bd_provenance b)) < 2 ^ 64" using scope_le_body(2) [of b] assms by simp
  moreover have "float_free (v_provenance (bd_provenance b))" by (simp add: v_provenance_def float_free_simps)
  ultimately show ?thesis using encode_value_total by (auto simp: digest_value_Inr)
qed

lemma post_source_atom_total:
  assumes "candidate_wf sha snapshot c"
  shows "\<exists>a. post_source_atom sha (c, d) = Inr a"
proof -
  obtain bs where "body_canonical_bytes (body_of c) = Inr bs" "length bs \<le> 262144"
    using atom_body_wf_encodes [OF candidate_wfD(2) [OF assms]] by blast
  moreover obtain p where "digest_value sha PROVENANCE_HASH_DOMAIN (v_provenance (bd_provenance (body_of c))) = Inr p"
    using provenance_digest_total [OF wf_body_size [OF assms]] by blast
  ultimately show ?thesis
    using candidate_wfD(1) [OF assms] by (simp add: post_source_atom_def u64_of_usize_def split_def Let_def)
qed

lemma post_semantic_atom_total:
  assumes "vsize (v_body (ps_body p)) \<le> 262144"
  shows "\<exists>a. post_semantic_atom sha p = Inr a"
  using provenance_digest_total [OF assms, of sha] by (auto simp: post_semantic_atom_def Let_def)

lemma scope_parts_le:
  "vsize (v_option VString (sc_repository_id s)) \<le> vsize (v_scope s)"
  "vsize (v_option VString (sc_task_id s)) \<le> vsize (v_scope s)"
  "vsize (v_option VString (sc_agent_id s)) \<le> vsize (v_scope s)"
  "vsize (VString (sc_session_id s)) \<le> vsize (v_scope s)"
  by (simp_all add: v_scope_def)

lemma small_enums:
  "vsize (v_kind k) \<le> 100" "vsize (v_permission p) \<le> 100" "vsize (v_tier t) \<le> 100" "vsize (v_content_status s) \<le> 100"
  by (cases k, simp_all) (cases p, simp_all, cases t, simp_all, cases s, simp_all)+

lemma vsize_post_atom_le:
  assumes "vsize (v_option VString (pa_repository_id a)) \<le> n" "vsize (v_option VString (pa_task_id a)) \<le> n"
    "vsize (v_option VString (pa_agent_id a)) \<le> n" "vsize (v_option VString (pa_session_id a)) \<le> n"
    "length (pa_pinned_artifact_digests a) \<le> n"
  shows "vsize (v_post_atom a) \<le> 5000 + 85 * n"
proof -
  have opt: "vsize (v_option v_digest x) \<le> 73" "vsize (v_option v_u64 y) \<le> 9" "vsize (v_option v_atom_id z) \<le> 73" for x y z
    by (simp_all split: option.split)
  have "sum_list (map (\<lambda>x. 8 + vsize (v_digest x)) (pa_pinned_artifact_digests a)) \<le> n * 81"
    using assms(5) by (simp add: sum_list_triv)
  then show ?thesis
    using assms(1-4) small_enums(1) [of "pa_atom_kind a"] small_enums(2) [of "pa_retention_permission a"]
      small_enums(3) [of "pa_retention_tier a"] small_enums(4) [of "pa_content_status a"]
      opt(1) [of "pa_stored_body_digest a"] opt(2) [of "pa_expires_at_us a"] opt(3) [of "pa_superseded_by a"]
    unfolding v_post_atom_def by (simp del: vsize_option)
qed

lemma post_source_atom_fields:
  assumes "candidate_wf sha snapshot c" "post_source_atom sha (c, d) = Inr a"
  shows "pa_atom_id a = rc_atom_id c" "pa_atom_kind a = Episode"
    "pa_repository_id a = sc_repository_id (bd_scope (body_of c))" "pa_task_id a = sc_task_id (bd_scope (body_of c))"
    "pa_agent_id a = sc_agent_id (bd_scope (body_of c))" "pa_session_id a = Some (sc_session_id (bd_scope (body_of c)))"
    "pa_stored_body_digest a = (if rd_exact_retained d then Some (rc_body_digest c) else None)"
    "pa_retention_tier a = (if rd_exact_retained d then EpisodicLongTerm else HeaderOnly)"
    "pa_content_status a = (if rd_exact_retained d then Present else Forgotten)"
    "pa_search_projection_present a = rd_exact_retained d" "pa_retirement_run_bound a"
    "pa_pinned_artifact_digests a = rd_exact_artifact_digests d"
    "unat (pa_header_body_bytes a) = vsize (v_body (body_of c))"
    "pa_header_body_digest a = rc_body_digest c" "pa_retention_permission a = bd_retention_permission (body_of c)"
    "pa_expires_at_us a = None" "pa_superseded_by a = None"
  using assms candidate_wfD(1) [OF assms(1)] body_canonical_bytes_length [of "body_of c"]
  by (auto simp: post_source_atom_def Let_def bindr_Inr ok_or_Inr split_def dest!: u64_of_usize_SomeD split: if_splits)

lemma post_semantic_atom_fields:
  assumes "post_semantic_atom sha p = Inr a"
  shows "pa_atom_id a = ps_atom_id p" "pa_atom_kind a = Semantic" "pa_pinned_artifact_digests a = []"
    "pa_repository_id a = sc_repository_id (bd_scope (ps_body p))" "pa_task_id a = sc_task_id (bd_scope (ps_body p))"
    "pa_agent_id a = sc_agent_id (bd_scope (ps_body p))" "pa_session_id a = Some (sc_session_id (bd_scope (ps_body p)))"
    "pa_retention_tier a = SemanticLongTerm" "pa_stored_body_digest a = Some (ps_body_digest p)" "pa_content_status a = Present"
  using assms by (auto simp: post_semantic_atom_def Let_def bindr_Inr)

lemma retained_artifact_digests_le: "length (retained_artifact_digests b) \<le> vsize (v_body b)"
proof -
  have "length (retained_artifact_digests b) \<le> length (bd_artifacts b)"
    unfolding retained_artifact_digests_def
    by (rule order_trans [OF remdups_adj_length]) (simp add: length_filter_le)
  moreover have "length (bd_artifacts b) \<le> vsize (v_vec v_artifact (bd_artifacts b))"
    using sum_list_mono [of "bd_artifacts b" "\<lambda>_. 1" "\<lambda>x. 8 + vsize (v_artifact x)"] by (simp add: sum_list_triv)
  moreover have "vsize (v_vec v_artifact (bd_artifacts b)) \<le> vsize (v_body b)"
    by (simp add: v_body_def del: vsize_vec)
  ultimately show ?thesis by simp
qed

lemma post_source_atom_small:
  assumes "candidate_wf sha snapshot c" "post_source_atom sha (c, decide_candidate w ids c) = Inr a"
  shows "vsize (v_post_atom a) \<le> 5000 + 85 * 262144"
proof (rule vsize_post_atom_le)
  note fields = post_source_atom_fields [OF assms]
  have scope: "vsize (v_scope (bd_scope (body_of c))) \<le> 262144"
    using scope_le_body(3) [of "body_of c"] wf_body_size [OF assms(1)] by simp
  show "vsize (v_option VString (pa_repository_id a)) \<le> 262144" "vsize (v_option VString (pa_task_id a)) \<le> 262144"
    "vsize (v_option VString (pa_agent_id a)) \<le> 262144" "vsize (v_option VString (pa_session_id a)) \<le> 262144"
    unfolding fields(3-6)
    using order_trans [OF scope_parts_le(1) scope] order_trans [OF scope_parts_le(2) scope]
      order_trans [OF scope_parts_le(3) scope] order_trans [OF scope_parts_le(4) scope]
    by (simp_all del: vsize.simps add: v_option_def)
  show "length (pa_pinned_artifact_digests a) \<le> 262144"
    unfolding fields(12)
    using retained_artifact_digests_le [of "body_of c"] wf_body_size [OF assms(1)] candidate_wfD(1) [OF assms(1)]
    by (simp add: decide_candidate_def Let_def)
qed

lemma post_semantic_atom_small:
  assumes "vsize (v_body (ps_body p)) \<le> 262144" "post_semantic_atom sha p = Inr a"
  shows "vsize (v_post_atom a) \<le> 5000 + 85 * 262144"
proof (rule vsize_post_atom_le)
  note fields = post_semantic_atom_fields [OF assms(2)]
  have scope: "vsize (v_scope (bd_scope (ps_body p))) \<le> 262144"
    using scope_le_body(3) [of "ps_body p"] assms(1) by simp
  show "vsize (v_option VString (pa_repository_id a)) \<le> 262144" "vsize (v_option VString (pa_task_id a)) \<le> 262144"
    "vsize (v_option VString (pa_agent_id a)) \<le> 262144" "vsize (v_option VString (pa_session_id a)) \<le> 262144"
    unfolding fields(4-7)
    using order_trans [OF scope_parts_le(1) scope] order_trans [OF scope_parts_le(2) scope]
      order_trans [OF scope_parts_le(3) scope] order_trans [OF scope_parts_le(4) scope]
    by (simp_all del: vsize.simps add: v_option_def)
  show "length (pa_pinned_artifact_digests a) \<le> 262144" by (simp add: fields(3))
qed

text \<open>The decision on each candidate, and the post-state they project.\<close>

definition decisions_of ::
  "AtomId fset \<Rightarrow> PlannedSemanticAtomV1 list \<Rightarrow> RetirementCandidateV1 list \<Rightarrow> RetirementDecisionV1 list" where
  "decisions_of w atoms cs = map (\<lambda>c. decide_candidate w (consolidated_into atoms (rc_atom_id c)) c) cs"

lemma post_state_size:
  assumes "sorted_cohort sha snapshot cs" "\<forall>p \<in> set atoms. vsize (v_body (ps_body p)) \<le> 262144" "length atoms \<le> 100"
    and "pp_memory_space_id s = sn_memory_space_id snapshot"
    and "list_all2 (\<lambda>c a. post_source_atom sha (c, decide_candidate w (ids c) c) = Inr a) cs (pp_source_atoms s)"
    and "list_all2 (\<lambda>p a. post_semantic_atom sha p = Inr a) atoms (pp_semantic_atoms s)"
  shows "vsize (v_post_state s) \<le> 2 ^ 60"
proof -
  have "\<forall>a \<in> set (pp_source_atoms s). vsize (v_post_atom a) \<le> 5000 + 85 * 262144"
    using assms(5) post_source_atom_small [OF sorted_cohortD(1) [OF assms(1)]]
    by (fastforce simp: list_all2_conv_all_nth in_set_conv_nth)
  then have "sum_list (map (\<lambda>x. 8 + vsize (v_post_atom x)) (pp_source_atoms s)) \<le> length (pp_source_atoms s) * (5008 + 85 * 262144)"
    by (intro sum_list_map_le) force
  moreover have "\<forall>a \<in> set (pp_semantic_atoms s). vsize (v_post_atom a) \<le> 5000 + 85 * 262144"
    using assms(2,6) post_semantic_atom_small by (fastforce simp: list_all2_conv_all_nth in_set_conv_nth)
  then have "sum_list (map (\<lambda>x. 8 + vsize (v_post_atom x)) (pp_semantic_atoms s)) \<le> length (pp_semantic_atoms s) * (5008 + 85 * 262144)"
    by (intro sum_list_map_le) force
  ultimately show ?thesis
    using assms(3,4) list_all2_lengthD [OF assms(5)] list_all2_lengthD [OF assms(6)]
      sorted_cohortD(4) [OF assms(1)] memory_space_small [OF assms(1)]
    by (simp add: v_post_state_def)
qed

lemma projected_post_state_total:
  assumes "sorted_cohort sha snapshot cs" "\<forall>p \<in> set atoms. vsize (v_body (ps_body p)) \<le> 262144" "length atoms \<le> 100"
  shows "\<exists>s d. projected_post_state sha (sn_memory_space_id snapshot) cs (decisions_of w atoms cs) atoms = Inr s \<and>
    post_state_digest sha s = Inr d \<and>
    list_all2 (\<lambda>c a. post_source_atom sha (c, decide_candidate w (consolidated_into atoms (rc_atom_id c)) c) = Inr a)
      cs (pp_source_atoms s) \<and>
    list_all2 (\<lambda>p a. post_semantic_atom sha p = Inr a) atoms (pp_semantic_atoms s)"
proof -
  let ?d = "\<lambda>c. decide_candidate w (consolidated_into atoms (rc_atom_id c)) c"
  note wf = sorted_cohortD(1) [OF assms(1)]
  define f where "f c = projr (post_source_atom sha (c, ?d c))" for c
  have f: "post_source_atom sha (c, ?d c) = Inr (f c)" if "c \<in> set cs" for c
    using post_source_atom_total [OF wf [OF that], of "?d c"] by (auto simp: f_def)
  define g where "g p = projr (post_semantic_atom sha p)" for p
  have g: "post_semantic_atom sha p = Inr (g p)" if "p \<in> set atoms" for p
    using post_semantic_atom_total [of p sha] assms(2) that by (auto simp: g_def)
  have zip: "zip cs (decisions_of w atoms cs) = map (\<lambda>c. (c, ?d c)) cs"
    by (simp add: decisions_of_def zip_map2 zip_same_conv_map)
  have sources: "traverse (post_source_atom sha) (map (\<lambda>c. (c, ?d c)) cs) = Inr (map f cs)"
    using f by (induction cs) auto
  have semantics: "traverse (post_semantic_atom sha) atoms = Inr (map g atoms)"
    by (rule traverse_map_Inr) (rule g)
  define s where "s = \<lparr>pp_memory_space_id = sn_memory_space_id snapshot, pp_source_atoms = map f cs, pp_semantic_atoms = map g atoms\<rparr>"
  have each: "list_all2 (\<lambda>c a. post_source_atom sha (c, ?d c) = Inr a) cs (map f cs)"
    "list_all2 (\<lambda>p a. post_semantic_atom sha p = Inr a) atoms (map g atoms)"
    using f g by (simp_all add: list_all2_conv_all_nth)
  have "vsize (v_post_state s) \<le> 2 ^ 60"
    by (rule post_state_size [OF assms]) (use each in \<open>simp_all add: s_def\<close>)
  then have "vsize (v_post_state s) < 2 ^ 64" by simp
  then obtain d where "post_state_digest sha s = Inr d"
    using encode_value_total [OF v_post_state_float_free, of s] by (auto simp: post_state_digest_def digest_value_Inr)
  moreover have "projected_post_state sha (sn_memory_space_id snapshot) cs (decisions_of w atoms cs) atoms = Inr s"
    by (simp add: projected_post_state_def zip sources semantics s_def)
  ultimately show ?thesis using each by (intro exI [of _ s] exI [of _ d]) (simp add: s_def)
qed

section \<open>The inputs of the draw\<close>

definition oversized :: "(byte list \<Rightarrow> Digest32) \<Rightarrow> RetirementSnapshotV1 \<Rightarrow> RetirementCandidateV1 list \<Rightarrow> usize list option" where
  "oversized sha snapshot cs = List.find (\<lambda>c. qualifies cs c \<and> \<not> fits sha snapshot cs c) (cohort_clusters cs)"

definition cohort_scored :: "(byte list \<Rightarrow> Digest32) \<Rightarrow> RetirementSnapshotV1 \<Rightarrow> RetirementCandidateV1 list \<Rightarrow> scored list" where
  "cohort_scored sha snapshot cs =
     sort_key scored_key (map (planned sha snapshot cs) (filter (qualifies cs) (cohort_clusters cs)))"

definition semantic_budget :: "RetirementCandidateV1 list \<Rightarrow> nat" where
  "semantic_budget cs = min ((length cs * 20000 + 999999) div 1000000) 100"

definition winner_budget :: "usize list \<Rightarrow> nat" where
  "winner_budget population = min ((length population * 5000 + 999999) div 1000000) 25"

lemma semantic_budget_eq:
  "length cs < 2 ^ 64 \<Longrightarrow> min (Ppm_ceil_count (po_semantic_rate poc_v1) (length cs)) (po_semantic_count_max poc_v1) = semantic_budget cs"
  by (subst Ppm_ceil_count_eq) (simp_all add: poc_v1_def ppm_ok_iff semantic_budget_def)

lemma winner_budget_eq:
  "length p < 2 ^ 64 \<Longrightarrow> min (Ppm_ceil_count (po_episodic_rate poc_v1) (length p)) (po_episodic_count_max poc_v1) = winner_budget p"
  by (subst Ppm_ceil_count_eq) (simp_all add: poc_v1_def ppm_ok_iff winner_budget_def)

lemma winner_budget_le: "winner_budget p \<le> length p"
proof -
  have "(length p * 5000 + 999999) div 1000000 \<le> (length p * 1000000 + 999999) div 1000000"
    by (intro div_le_mono) simp
  also have "\<dots> = length p" by simp
  finally show ?thesis by (simp add: winner_budget_def)
qed

lemma find_None_all: "List.find P xs = None \<longleftrightarrow> (\<forall>x \<in> set xs. \<not> P x)"
  by (induction xs) auto

lemma cohort_scored_ok:
  assumes "oversized sha snapshot cs = None" "x \<in> set (cohort_scored sha snapshot cs)"
  shows "scored_ok x" "vsize (v_body (ps_body (snd x))) \<le> 262144"
    "\<exists>c \<in> set (cohort_clusters cs). qualifies cs c \<and> x = planned sha snapshot cs c"
proof -
  obtain c where c: "c \<in> set (cohort_clusters cs)" "qualifies cs c" "x = planned sha snapshot cs c"
    using assms(2) by (auto simp: cohort_scored_def)
  then show "\<exists>c \<in> set (cohort_clusters cs). qualifies cs c \<and> x = planned sha snapshot cs c" by blast
  have "fits sha snapshot cs c" using assms(1) c by (simp add: oversized_def find_None_all)
  then have size: "vsize (v_body (cluster_body sha snapshot cs c)) \<le> 262144" by (simp add: fits_def)
  then show "vsize (v_body (ps_body (snd x))) \<le> 262144" by (simp add: c(3) planned_def Let_def)
  show "scored_ok x"
    using size by (simp add: scored_ok_def c(3) planned_def Let_def unat_of_nat_u64)
      (simp add: cluster_body_def semantic_body_of_def Let_def)
qed

definition select_of :: "RetirementCandidateV1 list \<Rightarrow> scored list \<Rightarrow> SemanticSelection" where
  "select_of cs scored = projr (select_semantics poc_v1 (semantic_budget cs) scored)"

lemma select_of_spec:
  assumes "oversized sha snapshot cs = None"
  defines "sel \<equiv> select_of cs (cohort_scored sha snapshot cs)"
    and "ds \<equiv> dispositions (semantic_budget cs) 0 0 (map (planned_size \<circ> snd) (cohort_scored sha snapshot cs))"
  shows "select_semantics poc_v1 (semantic_budget cs) (cohort_scored sha snapshot cs) = Inr sel"
    "sl_atoms sel = selected_of (map snd (cohort_scored sha snapshot cs)) ds"
    "sl_decisions sel = map2 semantic_decision (cohort_scored sha snapshot cs) ds"
    "unat (sl_body_bytes sel) = sum_list (map planned_size (sl_atoms sel))"
    "unat (sl_body_bytes sel) \<le> 8388608" "length (sl_atoms sel) \<le> semantic_budget cs"
proof -
  have "\<forall>x \<in> set (cohort_scored sha snapshot cs). scored_ok x" using cohort_scored_ok(1) [OF assms(1)] by blast
  from select_semantics_from [OF this, of "\<lparr>sl_atoms = [], sl_decisions = [], sl_body_bytes = 0\<rparr>" "semantic_budget cs"]
  obtain st where st: "select_semantics poc_v1 (semantic_budget cs) (cohort_scored sha snapshot cs) = Inr st"
    "sl_atoms st = selected_of (map snd (cohort_scored sha snapshot cs)) ds"
    "sl_decisions st = map2 semantic_decision (cohort_scored sha snapshot cs) ds"
    "unat (sl_body_bytes st) = sum_list (map planned_size (sl_atoms st))"
    "unat (sl_body_bytes st) \<le> 8388608" "length (sl_atoms st) \<le> semantic_budget cs"
    by (auto simp: Let_def select_semantics_def ds_def)
  have "sel = st" using st(1) by (simp add: sel_def select_of_def)
  with st show "select_semantics poc_v1 (semantic_budget cs) (cohort_scored sha snapshot cs) = Inr sel"
    "sl_atoms sel = selected_of (map snd (cohort_scored sha snapshot cs)) ds"
    "sl_decisions sel = map2 semantic_decision (cohort_scored sha snapshot cs) ds"
    "unat (sl_body_bytes sel) = sum_list (map planned_size (sl_atoms sel))"
    "unat (sl_body_bytes sel) \<le> 8388608" "length (sl_atoms sel) \<le> semantic_budget cs" by simp_all
qed

lemma plan_inputs_eq:
  assumes "sorted_cohort sha snapshot cs"
  shows "case oversized sha snapshot cs of
      Some c \<Rightarrow> plan_inputs sha snapshot poc_v1 = Inl (Err (size_error sha snapshot cs c))
    | None \<Rightarrow> \<exists>input policy pop. retirement_input_digest sha snapshot = Inr input \<and> policy_digest sha poc_v1 = Inr policy \<and>
        population_digest sha cs (positions_where exact_eligible cs) = Inr pop \<and>
        plan_inputs sha snapshot poc_v1 = Inr \<lparr>in_candidates = cs, in_input_set_digest = input, in_policy_digest = policy,
          in_semantic_count_budget = semantic_budget cs, in_selection = select_of cs (cohort_scored sha snapshot cs),
          in_exact_population = positions_where exact_eligible cs, in_population_digest = pop,
          in_winner_budget = winner_budget (positions_where exact_eligible cs)\<rparr>"
proof -
  have snap: "cohort_wf sha snapshot" "sort_key rc_atom_id (sn_atoms snapshot) = cs" using assms by (simp_all add: sorted_cohort_def)
  have guards: "validate_snapshot snapshot poc_v1 = Inr ()" "validate_candidates sha cs snapshot poc_v1 = Inr ()"
    using snap validate_candidates_Inr [of sha "sn_atoms snapshot" snapshot]
    by (simp_all add: validate_snapshot_Inr cohort_wf_def)
  obtain input where input: "retirement_input_digest sha snapshot = Inr input"
    using retirement_input_digest_total [OF assms] by blast
  obtain policy where policy: "policy_digest sha poc_v1 = Inr policy" using policy_digest_poc by blast
  obtain pop where pop: "population_digest sha cs (positions_where exact_eligible cs) = Inr pop"
    using population_digest_total [OF assms positions_where_ok] by blast
  have len: "length cs < 2 ^ 64" "length (positions_where exact_eligible cs) < 2 ^ 64"
    using sorted_cohortD(4) [OF assms] positions_ok_length [OF positions_where_ok, of exact_eligible cs] by simp_all
  show ?thesis
  proof (cases "oversized sha snapshot cs")
    case (Some c)
    then show ?thesis
      using semantic_candidates_eq [OF assms policy] by (simp add: plan_inputs_def guards snap(2) input policy Let_def oversized_def)
  next
    case None
    then have "semantic_candidates sha snapshot poc_v1 policy cs = Inr (cohort_scored sha snapshot cs)"
      using semantic_candidates_eq [OF assms policy] by (simp add: oversized_def cohort_scored_def)
    then show ?thesis
      using None select_of_spec(1) [OF None] input policy pop
      by (simp add: plan_inputs_def guards snap(2) Let_def semantic_budget_eq [OF len(1), simplified]
          winner_budget_eq [OF len(2), simplified])
  qed
qed

section \<open>The plan\<close>

definition drawn_winners :: "RetirementCandidateV1 list \<Rightarrow> nat list \<Rightarrow> RetirementCandidateV1 list" where
  "drawn_winners cs ks =
     (let population = positions_where exact_eligible cs
      in map (\<lambda>p. cs ! (population ! p)) (picks [0..<length population] ks))"

definition package_total :: "RetirementCandidateV1 list \<Rightarrow> nat" where
  "package_total cs = sum_list (map (unat \<circ> rc_exact_package_bytes) cs)"

text \<open>The plan that an admissible cohort, its clusters and a set of winners determine.\<close>

definition plan_for ::
  "(byte list \<Rightarrow> Digest32) \<Rightarrow> RetirementSnapshotV1 \<Rightarrow> Seed32 \<Rightarrow> RetirementCandidateV1 list \<Rightarrow> RetirementCandidateV1 list \<Rightarrow> RetirementPlanV1" where
  "plan_for sha snapshot seed cs winners =
     (let population = positions_where exact_eligible cs;
          sel = select_of cs (cohort_scored sha snapshot cs);
          winner_ids = sort (map rc_atom_id winners);
          decisions = decisions_of (fset_of_list winner_ids) (sl_atoms sel) cs;
          post = projr (projected_post_state sha (sn_memory_space_id snapshot) cs decisions (sl_atoms sel)) in
      \<lparr>pn_contract_version = ''retirement-plan-v1'', pn_policy_id = ''poc-v1'',
       pn_policy_digest = projr (policy_digest sha poc_v1), pn_seed = seed,
       pn_memory_space_id = sn_memory_space_id snapshot, pn_cohort_day = sn_cohort_day snapshot,
       pn_as_of_us = sn_as_of_us snapshot, pn_input_set_digest = projr (retirement_input_digest sha snapshot),
       pn_rng_identifier = ''chacha20-rand_chacha-0.3/partial-fisher-yates-v1'',
       pn_episodic_population_digest = projr (population_digest sha cs population),
       pn_episodic_population_count = length population, pn_episodic_winner_budget = winner_budget population,
       pn_episodic_winner_bytes = of_nat (package_total winners), pn_semantic_count_budget = semantic_budget cs,
       pn_semantic_body_bytes = sl_body_bytes sel, pn_semantic_decisions = sl_decisions sel,
       pn_semantic_atoms = sl_atoms sel, pn_episodic_winners = winner_ids, pn_decisions = decisions,
       pn_projected_post_state = post, pn_projected_state_digest = projr (post_state_digest sha post)\<rparr>)"

lemma exact_eligible_package:
  assumes "candidate_wf sha snapshot c" "exact_eligible c"
  shows "unat (rc_exact_package_bytes c) \<le> 67108864"
  using candidate_wfD(1,2,7) [OF assms(1)] assms(2) by (simp add: exact_eligible_def atom_body_wf_def exact_wf_def)

lemma selected_of_subset: "set (selected_of xs ds) \<subseteq> set xs"
  by (induction xs ds rule: selected_of.induct) auto

lemma selected_atoms_ok:
  assumes "oversized sha snapshot cs = None" "p \<in> set (sl_atoms (select_of cs (cohort_scored sha snapshot cs)))"
  shows "\<exists>c \<in> set (cohort_clusters cs). qualifies cs c \<and> p = snd (planned sha snapshot cs c)"
    and "vsize (v_body (ps_body p)) \<le> 262144"
proof -
  have "p \<in> snd ` set (cohort_scored sha snapshot cs)"
    using assms(2) selected_of_subset unfolding select_of_spec(2) [OF assms(1)] by fastforce
  then obtain x where x: "x \<in> set (cohort_scored sha snapshot cs)" "p = snd x" by blast
  from cohort_scored_ok(2,3) [OF assms(1) x(1)] x(2)
  show "\<exists>c \<in> set (cohort_clusters cs). qualifies cs c \<and> p = snd (planned sha snapshot cs c)"
    "vsize (v_body (ps_body p)) \<le> 262144" by auto
qed

lemma planned_sources: "source_ids_of (ps_body (snd (planned sha snapshot cs c))) = cluster_ids cs c"
  by (simp add: planned_def Let_def source_ids_of_def cluster_body_def semantic_body_of_def)

lemma planned_payload: "\<exists>q. bd_payload (ps_body (snd (planned sha snapshot cs c))) = SemanticPayload q"
  by (simp add: planned_def Let_def cluster_body_def semantic_body_of_def)

lemma drawn_winners_eq:
  assumes "offsets_ok (length (positions_where exact_eligible cs)) ks"
  shows "drawn_candidates cs (positions_where exact_eligible cs) (picks [0..<length (positions_where exact_eligible cs)] ks)
      = Inr (drawn_winners cs ks)"
    and "\<forall>c \<in> set (drawn_winners cs ks). c \<in> set cs \<and> exact_eligible c"
    and "length (drawn_winners cs ks) = length ks"
    and "distinct (map rc_atom_id cs) \<Longrightarrow> distinct (map rc_atom_id (drawn_winners cs ks))"
proof -
  let ?pop = "positions_where exact_eligible cs"
  have picked: "length (picks [0..<length ?pop] ks) = length ks" "distinct (picks [0..<length ?pop] ks)"
    "\<forall>p \<in> set (picks [0..<length ?pop] ks). p < length ?pop"
    using picks_selects [of "[0..<length ?pop]" ks] assms by auto
  have pos: "?pop ! p < length cs \<and> exact_eligible (cs ! (?pop ! p))" if "p < length ?pop" for p
    using nth_mem [OF that] by (simp add: set_positions_where)
  show "drawn_candidates cs ?pop (picks [0..<length ?pop] ks) = Inr (drawn_winners cs ks)"
    unfolding drawn_candidates_def drawn_winners_def Let_def
    by (rule traverse_map_Inr) (use picked(3) pos in simp)
  show "\<forall>c \<in> set (drawn_winners cs ks). c \<in> set cs \<and> exact_eligible c"
    using picked(3) pos by (auto simp: drawn_winners_def Let_def)
  show "length (drawn_winners cs ks) = length ks" by (simp add: drawn_winners_def Let_def picked(1))
  assume d: "distinct (map rc_atom_id cs)"
  have "distinct ?pop" using positions_where_ok [of cs exact_eligible] by (simp add: positions_ok_def sorted_wrt_less_iff)
  then have inj: "rc_atom_id (cs ! (?pop ! p)) = rc_atom_id (cs ! (?pop ! q)) \<longleftrightarrow> p = q"
    if "p < length ?pop" "q < length ?pop" for p q
    using d pos [OF that(1)] pos [OF that(2)] that by (metis length_map nth_eq_iff_index_eq nth_map)
  show "distinct (map rc_atom_id (drawn_winners cs ks))"
    using picked(2,3) inj by (auto simp: drawn_winners_def Let_def distinct_map comp_def intro!: inj_onI)
qed

lemma winner_bytes_eq:
  assumes "sorted_cohort sha snapshot cs" "\<forall>c \<in> set winners. c \<in> set cs \<and> exact_eligible c" "length winners \<le> 25"
  shows "winner_bytes winners = Inr (of_nat (package_total winners))" "package_total winners < 2 ^ 64"
proof -
  have "package_total winners \<le> length winners * 67108864"
    unfolding package_total_def comp_def
    by (rule sum_list_map_le) (use assms(2) exact_eligible_package sorted_cohortD(1) [OF assms(1)] in blast)
  then show lt: "package_total winners < 2 ^ 64" using assms(3) by simp
  then show "winner_bytes winners = Inr (of_nat (package_total winners))"
    unfolding winner_bytes_def checked_sum_fold_Inr package_total_def [symmetric] by (simp add: unat_of_nat_u64)
qed

definition plan_result ::
  "(byte list \<Rightarrow> Digest32) \<Rightarrow> RetirementSnapshotV1 \<Rightarrow> Seed32 \<Rightarrow> RetirementCandidateV1 list \<Rightarrow> RetirementCandidateV1 list \<Rightarrow>
   RetirementPlanV1 outcome" where
  "plan_result sha snapshot seed cs winners =
     (if 268435456 < package_total winners
      then Inl (Err (EpisodicBudgetExceeded (of_nat (package_total winners)) 268435456))
      else Inr (plan_for sha snapshot seed cs winners))"

lemma plan_finish_eq:
  assumes "sorted_cohort sha snapshot cs" "oversized sha snapshot cs = None"
    and "length ks = winner_budget (positions_where exact_eligible cs)"
    and "offsets_ok (length (positions_where exact_eligible cs)) ks"
    and "retirement_input_digest sha snapshot = Inr input" "policy_digest sha poc_v1 = Inr policy"
      "population_digest sha cs (positions_where exact_eligible cs) = Inr pop"
  shows "plan_finish sha snapshot poc_v1 seed \<lparr>in_candidates = cs, in_input_set_digest = input, in_policy_digest = policy,
          in_semantic_count_budget = semantic_budget cs, in_selection = select_of cs (cohort_scored sha snapshot cs),
          in_exact_population = positions_where exact_eligible cs, in_population_digest = pop,
          in_winner_budget = winner_budget (positions_where exact_eligible cs)\<rparr>
          (picks [0..<length (positions_where exact_eligible cs)] ks) =
    plan_result sha snapshot seed cs (drawn_winners cs ks)"
proof -
  let ?atoms = "sl_atoms (select_of cs (cohort_scored sha snapshot cs))" and ?w = "drawn_winners cs ks"
  let ?ids = "sort (map rc_atom_id ?w)"
  note drawn = drawn_winners_eq [OF assms(4)]
  have distinct: "distinct (map rc_atom_id cs)" using sorted_cohortD(2) [OF assms(1)] by (simp add: sorted_wrt_less_iff)
  have "length ?w \<le> 25" using drawn(3) assms(3) by (simp add: winner_budget_def)
  note bytes = winner_bytes_eq [OF assms(1) drawn(2) this]
  have budget: "validate_episodic_budget (of_nat (package_total ?w)) poc_v1 =
      (if 268435456 < package_total ?w then Inl (EpisodicBudgetExceeded (of_nat (package_total ?w)) 268435456) else Inr ())"
    using bytes(2) by (simp add: validate_episodic_budget_def poc_v1_simps word_less_nat_alt unat_of_nat_u64)
  have atoms: "\<forall>p \<in> set ?atoms. distinct (source_ids_of (ps_body p)) \<and> (\<exists>q. bd_payload (ps_body p) = SemanticPayload q)"
  proof
    fix p assume "p \<in> set ?atoms"
    then obtain c where c: "c \<in> set (cohort_clusters cs)" "p = snd (planned sha snapshot cs c)"
      using selected_atoms_ok(1) [OF assms(2)] by blast
    then have "sorted_wrt (<) (cluster_ids cs c)" using cluster_ids_sorted [OF assms(1) cohort_clusters_ok] by blast
    then show "distinct (source_ids_of (ps_body p)) \<and> (\<exists>q. bd_payload (ps_body p) = SemanticPayload q)"
      using planned_payload unfolding c(2) planned_sources by (simp add: sorted_wrt_less_iff)
  qed
  obtain m where m: "semantic_source_map ?atoms = Inr m" "\<And>a. unwrap_or [] (fmlookup m a) = consolidated_into ?atoms a"
    using semantic_source_map_eq [OF atoms] by blast
  have decisions: "decide_all (fset_of_list ?ids) m cs = decisions_of (fset_of_list ?ids) ?atoms cs"
    unfolding decide_all_eq [OF distinct] decisions_of_def m(2) ..
  have "length ?atoms \<le> 100"
    using select_of_spec(6) [OF assms(2)] by (simp add: semantic_budget_def)
  then obtain post d where post: "projected_post_state sha (sn_memory_space_id snapshot) cs
      (decisions_of (fset_of_list ?ids) ?atoms cs) ?atoms = Inr post" "post_state_digest sha post = Inr d"
    using projected_post_state_total [OF assms(1), of ?atoms "fset_of_list ?ids"] selected_atoms_ok(2) [OF assms(2)] by blast
  show ?thesis
    unfolding plan_finish_def RetirementInputs.select_convs drawn(1) bindr_simps bytes(1) lift_simps Let_def m(1) decisions post
    by (simp add: budget plan_result_def plan_for_def Let_def post assms(5-7) poc_v1_simps)
qed

text \<open>The result of the planner on a cohort, by cases.\<close>

definition planner_spec ::
  "(byte list \<Rightarrow> Digest32) \<Rightarrow> stream \<Rightarrow> RetirementSnapshotV1 \<Rightarrow> Seed32 \<Rightarrow> RetirementPlanV1 outcome option" where
  "planner_spec sha stream snapshot seed =
     (let cs = sort_key rc_atom_id (sn_atoms snapshot); population = positions_where exact_eligible cs in
      case oversized sha snapshot cs of
        Some c \<Rightarrow> Some (Inl (Err (size_error sha snapshot cs c)))
      | None \<Rightarrow> map_option (\<lambda>ks. plan_result sha snapshot seed cs (drawn_winners cs ks))
          (offsets stream (length population) (winner_budget population) 0))"

lemma plan_retirement_eq:
  assumes "cohort_wf sha snapshot"
  shows "plan_retirement sha chacha snapshot poc_v1 seed = planner_spec sha (chacha (seed_as_bytes seed)) snapshot seed"
proof -
  define cs where "cs = sort_key rc_atom_id (sn_atoms snapshot)"
  let ?pop = "positions_where exact_eligible cs"
  have cohort: "sorted_cohort sha snapshot cs" using assms by (simp add: sorted_cohort_def cs_def)
  note inputs = plan_inputs_eq [OF cohort]
  have lt: "length ?pop < 2 ^ 64"
    using sorted_cohortD(4) [OF cohort] positions_ok_length [OF positions_where_ok, of exact_eligible cs] by simp
  show ?thesis
  proof (cases "oversized sha snapshot cs")
    case (Some c)
    then show ?thesis using inputs by (simp add: plan_retirement_def planner_spec_def cs_def [symmetric] Let_def)
  next
    case None
    then obtain input policy pop where i: "retirement_input_digest sha snapshot = Inr input" "policy_digest sha poc_v1 = Inr policy"
      "population_digest sha cs ?pop = Inr pop"
      "plan_inputs sha snapshot poc_v1 = Inr \<lparr>in_candidates = cs, in_input_set_digest = input, in_policy_digest = policy,
          in_semantic_count_budget = semantic_budget cs, in_selection = select_of cs (cohort_scored sha snapshot cs),
          in_exact_population = ?pop, in_population_digest = pop, in_winner_budget = winner_budget ?pop\<rparr>" using inputs by auto
    have draw: "partial_fisher_yates chacha (length ?pop) (winner_budget ?pop) (seed_as_bytes seed) =
        map_option (\<lambda>ks. Inr (picks [0..<length ?pop] ks)) (offsets (chacha (seed_as_bytes seed)) (length ?pop) (winner_budget ?pop) 0)"
      using partial_fisher_yates_offsets [OF lt] winner_budget_le [of ?pop] by (simp add: min_absorb1)
    show ?thesis
    proof (cases "offsets (chacha (seed_as_bytes seed)) (length ?pop) (winner_budget ?pop) 0")
      case none: None
      then show ?thesis using None by (simp add: plan_retirement_def planner_spec_def i(4) draw cs_def [symmetric] Let_def)
    next
      case (Some ks)
      from offsets_okD [OF Some winner_budget_le lt] have ks: "length ks = winner_budget ?pop" "offsets_ok (length ?pop) ks" by auto
      show ?thesis
        using None Some plan_finish_eq [OF cohort None ks i(1-3)]
        by (simp add: plan_retirement_def planner_spec_def i(4) draw cs_def [symmetric] Let_def)
    qed
  qed
qed

theorem semantic_selection_is_greedy_witness:
  "\<exists>sel. select_semantics poc_v1 1 [(projr (consolidation_score [] [] poc_v1),
     \<lparr>ps_atom_id = AtomId_default, ps_body_digest = Digest32_ZERO, ps_canonical_size_bytes = 700,
       ps_body = semantic_body_of [] [] (projr (consolidation_score [] [] poc_v1)) (sample_snapshot []) Digest32_ZERO poc_v1\<rparr>)] = Inr sel \<and>
     map sd_disposition (sl_decisions sel) = [Selected] \<and> unat (sl_body_bytes sel) = 700"
proof -
  let ?x = "(projr (consolidation_score [] [] poc_v1),
     \<lparr>ps_atom_id = AtomId_default, ps_body_digest = Digest32_ZERO, ps_canonical_size_bytes = 700,
       ps_body = semantic_body_of [] [] (projr (consolidation_score [] [] poc_v1)) (sample_snapshot []) Digest32_ZERO poc_v1\<rparr>)"
  have "\<forall>x \<in> set [?x]. scored_ok x" by (simp add: scored_ok_def semantic_body_of_def Let_def)
  from semantic_selection_is_greedy [OF this, of 1] show ?thesis by auto
qed

end
