(* ===== verification/PlanLaws.thy ===== *)
theory PlanLaws
  imports Planning
begin

text \<open>
  The laws of a retirement plan: when planning succeeds and with which plan, and what every
  successful plan guarantees about winners, decisions, semantic atoms and the projected post-state.
\<close>

section \<open>When a plan is returned\<close>

definition cohort_error :: "(byte list \<Rightarrow> Digest32) \<Rightarrow> RetirementSnapshotV1 \<Rightarrow> PolicyV1 \<Rightarrow> MemoryError" where
  "cohort_error sha snapshot policy =
     (case validate_snapshot snapshot policy of
        Inl e \<Rightarrow> e
      | Inr _ \<Rightarrow> projl (validate_candidates sha (sort_key rc_atom_id (sn_atoms snapshot)) snapshot policy))"

lemma plan_retirement_rejected:
  assumes "\<not> (policy = poc_v1 \<and> cohort_wf sha snapshot)"
  shows "plan_retirement sha chacha snapshot policy seed = Some (Inl (Err (cohort_error sha snapshot policy)))"
proof -
  have valid: "validate_candidates sha (sort_key rc_atom_id (sn_atoms snapshot)) snapshot poc_v1 = Inr () \<longleftrightarrow> cohort_wf sha snapshot"
    if "validate_snapshot snapshot poc_v1 = Inr ()"
    using that validate_candidates_Inr [of sha "sn_atoms snapshot" snapshot] by (simp add: validate_snapshot_Inr cohort_wf_def)
  show ?thesis
  proof (cases "validate_snapshot snapshot policy")
    case (Inl e)
    then show ?thesis by (simp add: plan_retirement_def plan_inputs_def cohort_error_def)
  next
    case (Inr u)
    then have snap: "validate_snapshot snapshot policy = Inr ()" by simp
    then have "policy = poc_v1" by (simp add: validate_snapshot_Inr)
    then have "validate_candidates sha (sort_key rc_atom_id (sn_atoms snapshot)) snapshot policy \<noteq> Inr ()"
      using assms valid snap by simp
    then obtain e where "validate_candidates sha (sort_key rc_atom_id (sn_atoms snapshot)) snapshot policy = Inl e"
      by (cases "validate_candidates sha (sort_key rc_atom_id (sn_atoms snapshot)) snapshot policy") auto
    then show ?thesis using snap by (simp add: plan_retirement_def plan_inputs_def cohort_error_def Let_def)
  qed
qed

text \<open>
  C1: the planner refines its specification.  A cohort that is not admissible, or another policy,
  gives the error of the first failing check.  On an admissible cohort there is no panic and no
  overflow: the result is an error when some qualifying cluster yields a semantic body over the
  size limit, otherwise the draw alone decides whether a result is returned, and the result is the
  budget error when the drawn packages exceed 256 MiB and the determined plan when they do not.
\<close>

theorem plan_retirement_refines_spec:
  "plan_retirement sha chacha snapshot policy seed =
     (if policy = poc_v1 \<and> cohort_wf sha snapshot
      then planner_spec sha (chacha (seed_as_bytes seed)) snapshot seed
      else Some (Inl (Err (cohort_error sha snapshot policy))))"
  using plan_retirement_eq plan_retirement_rejected by auto

lemma plan_retirement_InrD:
  assumes "plan_retirement sha chacha snapshot policy seed = Some (Inr plan)"
  obtains cs ks where "policy = poc_v1" "sorted_cohort sha snapshot cs" "oversized sha snapshot cs = None"
    "length ks = winner_budget (positions_where exact_eligible cs)" "offsets_ok (length (positions_where exact_eligible cs)) ks"
    "plan = plan_for sha snapshot seed cs (drawn_winners cs ks)" "package_total (drawn_winners cs ks) \<le> 268435456"
proof -
  define cs where "cs = sort_key rc_atom_id (sn_atoms snapshot)"
  let ?pop = "positions_where exact_eligible cs"
  have "policy = poc_v1 \<and> cohort_wf sha snapshot"
  proof (rule ccontr)
    assume "\<not> (policy = poc_v1 \<and> cohort_wf sha snapshot)"
    then show False using assms by (simp add: plan_retirement_rejected)
  qed
  then have ok: "policy = poc_v1" "cohort_wf sha snapshot" by simp_all
  then have cohort: "sorted_cohort sha snapshot cs" by (simp add: sorted_cohort_def cs_def)
  have spec: "planner_spec sha (chacha (seed_as_bytes seed)) snapshot seed = Some (Inr plan)"
    using assms plan_retirement_eq [OF ok(2)] ok(1) by simp
  then have none: "oversized sha snapshot cs = None"
    by (auto simp: planner_spec_def cs_def [symmetric] Let_def split: option.splits)
  then obtain ks where ks: "offsets (chacha (seed_as_bytes seed)) (length ?pop) (winner_budget ?pop) 0 = Some ks"
    "plan_result sha snapshot seed cs (drawn_winners cs ks) = Inr plan"
    using spec by (auto simp: planner_spec_def cs_def [symmetric] Let_def)
  have "length ?pop < 2 ^ 64"
    using sorted_cohortD(4) [OF cohort] positions_ok_length [OF positions_where_ok, of exact_eligible cs] by simp
  note drawn = offsets_okD [OF ks(1) winner_budget_le this]
  show thesis
    using ks(2) drawn by (intro that [OF ok(1) cohort none]) (auto simp: plan_result_def split: if_splits)
qed

text \<open>
  C37: planning returns.  If the generator keeps producing words that are at least the number of
  exact-eligible atoms, \<open>plan_retirement\<close> ends with a plan or an error value, never a panic.
\<close>

theorem plan_retirement_returns:
  assumes "\<And>p. \<exists>i \<ge> p. of_nat (length (positions_where exact_eligible (sort_key rc_atom_id (sn_atoms snapshot))))
      \<le> chacha (seed_as_bytes seed) i"
  shows "\<exists>r. plan_retirement sha chacha snapshot policy seed = Some r \<and> r \<noteq> Inl Panic"
proof (cases "policy = poc_v1 \<and> cohort_wf sha snapshot")
  case False
  then show ?thesis by (simp add: plan_retirement_rejected)
next
  case True
  define cs where "cs = sort_key rc_atom_id (sn_atoms snapshot)"
  let ?pop = "positions_where exact_eligible cs"
  have cohort: "sorted_cohort sha snapshot cs" using True by (simp add: sorted_cohort_def cs_def)
  have lt: "length ?pop < 2 ^ 64"
    using sorted_cohortD(4) [OF cohort] positions_ok_length [OF positions_where_ok, of exact_eligible cs] by simp
  obtain ks where "offsets (chacha (seed_as_bytes seed)) (length ?pop) (winner_budget ?pop) 0 = Some ks"
    using offsets_halt [OF winner_budget_le lt, of "chacha (seed_as_bytes seed)" 0] assms unfolding cs_def by blast
  then show ?thesis
    using True by (simp add: plan_retirement_eq planner_spec_def cs_def [symmetric] Let_def plan_result_def split: option.split)
qed

section \<open>What every plan guarantees\<close>

lemma decisions_of_ids: "map rd_atom_id (decisions_of w atoms cs) = map rc_atom_id cs"
  by (simp add: decisions_of_def decide_candidate_def Let_def comp_def)

lemma decisions_of_member:
  assumes "sorted_cohort sha snapshot cs" "d \<in> set (decisions_of w atoms cs)"
  shows "\<exists>c \<in> set cs. rd_atom_id d = rc_atom_id c \<and> rd_exact_retained d = (rc_atom_id c |\<in>| w) \<and>
    rd_forget_episode_body d = (rc_atom_id c |\<notin>| w) \<and>
    rd_semantic_atom_ids d = sort (consolidated_into atoms (rc_atom_id c)) \<and>
    rd_exact_artifact_digests d = (if rc_atom_id c |\<in>| w then retained_artifact_digests (body_of c) else [])"
proof -
  obtain c where c: "c \<in> set cs" "d = decide_candidate w (consolidated_into atoms (rc_atom_id c)) c"
    using assms(2) by (auto simp: decisions_of_def)
  note wf = sorted_cohortD(1) [OF assms(1) c(1)]
  show ?thesis
    using c candidate_wfD(1,5) [OF wf] by (intro bexI [of _ c]) (auto simp: decide_candidate_def Let_def)
qed

lemma decisions_of_winner:
  assumes "sorted_cohort sha snapshot cs" "d \<in> set (decisions_of (fset_of_list ws) atoms cs)"
  shows "rd_exact_retained d = (rd_atom_id d \<in> set ws) \<and> rd_forget_episode_body d = (\<not> rd_exact_retained d) \<and>
    (\<not> rd_exact_retained d \<longrightarrow> rd_exact_artifact_digests d = [])"
proof -
  obtain c where "c \<in> set cs" "rd_atom_id d = rc_atom_id c" "rd_exact_retained d = (rc_atom_id c |\<in>| fset_of_list ws)"
    "rd_forget_episode_body d = (rc_atom_id c |\<notin>| fset_of_list ws)"
    "rd_exact_artifact_digests d = (if rc_atom_id c |\<in>| fset_of_list ws then retained_artifact_digests (body_of c) else [])"
    using decisions_of_member [OF assms] by blast
  then show ?thesis by (simp add: fset_of_list.rep_eq)
qed

text \<open>
  C2: retirement decides every atom once and keeps exactly the lottery winners.  In any plan, the
  decisions list the cohort's atoms in ascending order; the winners are distinct, ascending,
  exact-eligible atoms of the cohort, as many as the budget (at most 25), with a package total of
  at most 256 MiB that the plan states; an atom is exactly retained precisely when it won, its
  body is forgotten precisely when it did not, and only winners pin artifacts.
\<close>

theorem retirement_decisions_sound:
  assumes "plan_retirement sha chacha snapshot policy seed = Some (Inr plan)"
  shows "map rd_atom_id (pn_decisions plan) = sort (map rc_atom_id (sn_atoms snapshot)) \<and>
    sorted_wrt (<) (map rd_atom_id (pn_decisions plan)) \<and>
    sorted_wrt (<) (pn_episodic_winners plan) \<and>
    length (pn_episodic_winners plan) = pn_episodic_winner_budget plan \<and> pn_episodic_winner_budget plan \<le> 25 \<and>
    set (pn_episodic_winners plan) \<subseteq> {rc_atom_id c | c. c \<in> set (sn_atoms snapshot) \<and> exact_eligible c} \<and>
    unat (pn_episodic_winner_bytes plan) \<le> 268435456 \<and>
    (\<forall>d \<in> set (pn_decisions plan).
      rd_exact_retained d = (rd_atom_id d \<in> set (pn_episodic_winners plan)) \<and>
      rd_forget_episode_body d = (\<not> rd_exact_retained d) \<and>
      (\<not> rd_exact_retained d \<longrightarrow> rd_exact_artifact_digests d = []))"
proof -
  obtain cs ks where r: "policy = poc_v1" "sorted_cohort sha snapshot cs" "oversized sha snapshot cs = None"
    "length ks = winner_budget (positions_where exact_eligible cs)" "offsets_ok (length (positions_where exact_eligible cs)) ks"
    "plan = plan_for sha snapshot seed cs (drawn_winners cs ks)" "package_total (drawn_winners cs ks) \<le> 268435456"
    using plan_retirement_InrD [OF assms] by blast
  note drawn = drawn_winners_eq [OF r(5)]
  have sorted: "sorted_wrt (<) (map rc_atom_id cs)" by (rule sorted_cohortD(2)) (rule r(2))
  have cs: "set cs = set (sn_atoms snapshot)" "map rc_atom_id cs = sort (map rc_atom_id (sn_atoms snapshot))"
    using r(2) sorted by (auto simp: sorted_cohort_def sorted_wrt_less_iff intro!: properties_for_sort [symmetric])
  let ?w = "drawn_winners cs ks" let ?atoms = "sl_atoms (select_of cs (cohort_scored sha snapshot cs))"
  have plan: "pn_decisions plan = decisions_of (fset_of_list (sort (map rc_atom_id ?w))) ?atoms cs"
    "pn_episodic_winners plan = sort (map rc_atom_id ?w)" "pn_episodic_winner_bytes plan = of_nat (package_total ?w)"
    "pn_episodic_winner_budget plan = winner_budget (positions_where exact_eligible cs)"
    by (simp_all add: r(6) plan_for_def Let_def)
  have "distinct (map rc_atom_id ?w)" using drawn(4) sorted by (simp add: sorted_wrt_less_iff)
  then have winners: "sorted_wrt (<) (pn_episodic_winners plan)" by (simp add: plan(2) sorted_wrt_less_iff)
  have bytes: "unat (pn_episodic_winner_bytes plan) \<le> 268435456"
    using r(7) by (simp add: plan(3) unat_of_nat_u64)
  have each: "\<forall>d \<in> set (pn_decisions plan).
      rd_exact_retained d = (rd_atom_id d \<in> set (pn_episodic_winners plan)) \<and>
      rd_forget_episode_body d = (\<not> rd_exact_retained d) \<and>
      (\<not> rd_exact_retained d \<longrightarrow> rd_exact_artifact_digests d = [])"
    unfolding plan(1,2) using decisions_of_winner [OF r(2)] by blast
  show ?thesis
    using winners bytes each drawn(2,3) r(4) sorted cs by (auto simp: plan decisions_of_ids winner_budget_def)
qed

section \<open>Semantic atoms\<close>

lemma mset_selected_of: "mset (selected_of xs ds) \<subseteq># mset xs"
  by (induction xs ds rule: selected_of.induct) (auto intro: subset_mset.order_trans)

lemma mset_concat_map: "mset (concat (map f xs)) = sum_mset (image_mset (mset \<circ> f) (mset xs))"
  by (induction xs) simp_all

lemma distinct_submset:
  assumes "mset ys \<subseteq># mset xs" "distinct xs"
  shows "distinct ys"
  unfolding distinct_count_atmost_1
proof
  fix a
  have "count (mset ys) a \<le> count (mset xs) a" using assms(1) by (rule mset_subset_eq_count)
  also have "\<dots> \<le> 1" using assms(2) by (simp add: distinct_count_atmost_1)
  finally show "count (mset ys) a = (if a \<in> set ys then 1 else 0)"
    by (cases "a \<in> set ys") (simp_all add: le_antisym Suc_leI count_greater_zero_iff)
qed

lemma distinct_concat_submset:
  assumes "mset ys \<subseteq># mset xs" "distinct (concat (map f xs))"
  shows "distinct (concat (map f ys))"
proof -
  obtain K where "mset xs = mset ys + K" using assms(1) by (metis subset_mset.le_iff_add)
  then have "mset (concat (map f ys)) \<subseteq># mset (concat (map f xs))"
    by (simp add: mset_concat_map)
  then show ?thesis using assms(2) by (rule distinct_submset)
qed

lemma cluster_ids_distinct:
  assumes "sorted_cohort sha snapshot cs"
  shows "distinct (concat (map (cluster_ids cs) (cohort_clusters cs)))"
proof -
  have "mset (concat (cohort_clusters cs)) = mset (positions_where semantic_eligible cs)"
    using cohort_clusters_clustering [of cs] by (simp add: clustering_def)
  moreover have "distinct (positions_where semantic_eligible cs)" "set (positions_where semantic_eligible cs) \<subseteq> {..<length cs}"
    using positions_where_ok [of cs semantic_eligible] by (auto simp: positions_ok_def sorted_wrt_less_iff)
  ultimately have d: "distinct (concat (cohort_clusters cs))" "set (concat (cohort_clusters cs)) \<subseteq> {..<length cs}"
    by (metis mset_eq_imp_distinct_iff, metis mset_eq_setD)
  have "inj_on (\<lambda>i. rc_atom_id (cs ! i)) {..<length cs}"
    using sorted_cohortD(2) [OF assms] by (auto simp: inj_on_def sorted_wrt_less_iff nth_eq_iff_index_eq distinct_conv_nth)
  then have "distinct (map (\<lambda>i. rc_atom_id (cs ! i)) (concat (cohort_clusters cs)))"
    using d by (metis distinct_map inj_on_subset)
  moreover have "concat (map (cluster_ids cs) (cohort_clusters cs)) = map (\<lambda>i. rc_atom_id (cs ! i)) (concat (cohort_clusters cs))"
    by (simp add: cluster_ids_def [abs_def] map_concat)
  ultimately show ?thesis by simp
qed

lemma selected_sources_distinct:
  assumes "sorted_cohort sha snapshot cs" "oversized sha snapshot cs = None"
  shows "distinct (concat (map (source_ids_of \<circ> ps_body) (sl_atoms (select_of cs (cohort_scored sha snapshot cs)))))"
proof (rule distinct_concat_submset)
  let ?qualified = "filter (qualifies cs) (cohort_clusters cs)"
  let ?atoms = "map (snd \<circ> planned sha snapshot cs) ?qualified"
  have "mset (map snd (cohort_scored sha snapshot cs)) = mset ?atoms"
    by (simp add: cohort_scored_def multiset.map_comp)
  then show "mset (sl_atoms (select_of cs (cohort_scored sha snapshot cs))) \<subseteq># mset ?atoms"
    unfolding select_of_spec(2) [OF assms(2)] by (metis mset_selected_of)
  have "map (source_ids_of \<circ> ps_body) ?atoms = map (cluster_ids cs) ?qualified"
    by (simp add: planned_sources)
  moreover have "distinct (concat (map (cluster_ids cs) ?qualified))"
    by (rule distinct_concat_submset [OF _ cluster_ids_distinct [OF assms(1)]]) (simp add: multiset_filter_subset)
  ultimately show "distinct (concat (map (source_ids_of \<circ> ps_body) ?atoms))" by (simp only:)
qed

lemma selected_atom_laws:
  assumes "sorted_cohort sha snapshot cs" "oversized sha snapshot cs = None"
    and "p \<in> set (sl_atoms (select_of cs (cohort_scored sha snapshot cs)))"
  shows "validate_memory_atom_body sha (ps_body p) poc_v1 = Inr ()" "atom_id sha (ps_body p) = Inr (ps_atom_id p)"
    "ps_body_digest p = atom_digest (ps_atom_id p)" "planned_size p = vsize (v_body (ps_body p))"
    "3 \<le> length (source_ids_of (ps_body p))"
    "set (source_ids_of (ps_body p)) \<subseteq> {rc_atom_id c | c. c \<in> set cs \<and> semantic_eligible c}"
proof -
  obtain c where c: "c \<in> set (cohort_clusters cs)" "qualifies cs c" "p = snd (planned sha snapshot cs c)"
    using selected_atoms_ok(1) [OF assms(2,3)] by blast
  have size: "vsize (v_body (ps_body p)) \<le> 262144" by (rule selected_atoms_ok(2) [OF assms(2,3)])
  have body: "ps_body p = cluster_body sha snapshot cs c" by (simp add: c(3) planned_def Let_def)
  obtain digest where digest: "policy_digest sha poc_v1 = Inr digest" using policy_digest_poc by blast
  have len: "3 \<le> length c" using c(2) by (simp add: qualifies_def)
  have "validate_body_size (cluster_body sha snapshot cs c) poc_v1 = Inr ()"
    using size unfolding body cluster_body_def by (simp add: validate_body_size_semantic exact_wf_semantic)
  then show "validate_memory_atom_body sha (ps_body p) poc_v1 = Inr ()"
    unfolding body cluster_body_validation [OF assms(1) cohort_clusters_ok [OF c(1)] len digest] .
  obtain aid where aid: "atom_id sha (ps_body p) = Inr aid" using atom_id_fits(1) [OF size] by blast
  then show "atom_id sha (ps_body p) = Inr (ps_atom_id p)" unfolding body by (simp add: c(3) planned_def Let_def)
  show "ps_body_digest p = atom_digest (ps_atom_id p)" by (simp add: c(3) planned_def Let_def)
  show "planned_size p = vsize (v_body (ps_body p))"
    using size by (simp add: c(3) planned_def Let_def unat_of_nat_u64)
  have sources: "source_ids_of (ps_body p) = cluster_ids cs c" unfolding c(3) by (rule planned_sources)
  show "3 \<le> length (source_ids_of (ps_body p))" unfolding sources using len by (simp add: cluster_ids_def)
  have "set (concat (cohort_clusters cs)) = set (positions_where semantic_eligible cs)"
    using cohort_clusters_clustering [of cs] unfolding clustering_def by (blast dest: mset_eq_setD)
  then have "set c \<subseteq> {i. i < length cs \<and> semantic_eligible (cs ! i)}" using c(1) by (auto simp: set_positions_where)
  then show "set (source_ids_of (ps_body p)) \<subseteq> {rc_atom_id c | c. c \<in> set cs \<and> semantic_eligible c}"
    unfolding sources cluster_ids_def by (fastforce dest: nth_mem)
qed

text \<open>
  C3: the semantic atoms of a plan.  In any plan, they stay within the count budget (at most 100)
  and the 8 MiB byte budget the plan states; each is a body that passes the validator, stored under
  its own content address and size, consolidating at least three sources that are atoms of the
  cohort whose retention permits it; and no atom of the cohort is a source of two of them.
\<close>

theorem retirement_semantics_sound:
  assumes "plan_retirement sha chacha snapshot policy seed = Some (Inr plan)"
  shows "length (pn_semantic_atoms plan) \<le> pn_semantic_count_budget plan \<and> pn_semantic_count_budget plan \<le> 100 \<and>
    unat (pn_semantic_body_bytes plan) = sum_list (map planned_size (pn_semantic_atoms plan)) \<and>
    unat (pn_semantic_body_bytes plan) \<le> 8388608 \<and>
    (\<forall>p \<in> set (pn_semantic_atoms plan).
      validate_memory_atom_body sha (ps_body p) poc_v1 = Inr () \<and> atom_id sha (ps_body p) = Inr (ps_atom_id p) \<and>
      ps_body_digest p = atom_digest (ps_atom_id p) \<and> planned_size p = vsize (v_body (ps_body p)) \<and>
      3 \<le> length (source_ids_of (ps_body p)) \<and>
      set (source_ids_of (ps_body p)) \<subseteq> {rc_atom_id c | c. c \<in> set (sn_atoms snapshot) \<and> semantic_eligible c}) \<and>
    distinct (concat (map (source_ids_of \<circ> ps_body) (pn_semantic_atoms plan)))"
proof -
  obtain cs ks where r: "sorted_cohort sha snapshot cs" "oversized sha snapshot cs = None"
    "plan = plan_for sha snapshot seed cs (drawn_winners cs ks)"
    using plan_retirement_InrD [OF assms] by metis
  let ?sel = "select_of cs (cohort_scored sha snapshot cs)"
  have plan: "pn_semantic_atoms plan = sl_atoms ?sel" "pn_semantic_count_budget plan = semantic_budget cs"
    "pn_semantic_body_bytes plan = sl_body_bytes ?sel" by (simp_all add: r(3) plan_for_def Let_def)
  have cs: "set (sn_atoms snapshot) = set cs" using r(1) by (simp add: sorted_cohort_def)
  show ?thesis
    unfolding plan cs
    using select_of_spec(4-6) [OF r(2)] selected_atom_laws [OF r(1,2)] selected_sources_distinct [OF r(1,2)]
    by (auto simp: semantic_budget_def)
qed

text \<open>
  The clusters whose semantic body is over the size limit of an atom, among those that qualify for
  consolidation, in the order in which the planner considers them.
\<close>

definition too_large :: "(byte list \<Rightarrow> Digest32) \<Rightarrow> RetirementSnapshotV1 \<Rightarrow> usize list list" where
  "too_large sha snapshot =
     (let cs = sort_key rc_atom_id (sn_atoms snapshot) in
      filter (\<lambda>c. qualifies cs c \<and> 262144 < vsize (v_body (cluster_body sha snapshot cs c))) (cohort_clusters cs))"

lemma oversized_too_large:
  "oversized sha snapshot (sort_key rc_atom_id (sn_atoms snapshot)) = (case too_large sha snapshot of [] \<Rightarrow> None | c # _ \<Rightarrow> Some c)"
proof -
  have "List.find P xs = (case filter P xs of [] \<Rightarrow> None | x # _ \<Rightarrow> Some x)" for P and xs :: "usize list list"
    by (induction xs) simp_all
  then show ?thesis by (simp add: oversized_def too_large_def fits_def not_le Let_def)
qed

lemma planned_fits:
  assumes "plan_retirement sha chacha snapshot policy seed = Some (Inr plan)"
  shows "mset (map sd_atom_id (pn_semantic_decisions plan)) =
      mset (map (\<lambda>c. projr (atom_id sha (cluster_body sha snapshot (sort_key rc_atom_id (sn_atoms snapshot)) c)))
        (filter (qualifies (sort_key rc_atom_id (sn_atoms snapshot))) (cohort_clusters (sort_key rc_atom_id (sn_atoms snapshot)))))"
    "SkippedAtomHardLimit \<notin> sd_disposition ` set (pn_semantic_decisions plan)"
proof -
  let ?cs = "sort_key rc_atom_id (sn_atoms snapshot)"
  obtain cs ks where r: "sorted_cohort sha snapshot cs" "oversized sha snapshot cs = None"
    "plan = plan_for sha snapshot seed cs (drawn_winners cs ks)"
    using plan_retirement_InrD [OF assms] by metis
  have cs: "cs = ?cs" using r(1) by (simp add: sorted_cohort_def)
  let ?scored = "cohort_scored sha snapshot cs"
  let ?ds = "dispositions (semantic_budget cs) 0 0 (map (planned_size \<circ> snd) ?scored)"
  have decisions: "pn_semantic_decisions plan = map2 semantic_decision ?scored ?ds"
    unfolding select_of_spec(3) [OF r(2), symmetric] by (simp add: r(3) plan_for_def Let_def)
  then have "map sd_disposition (pn_semantic_decisions plan) = ?ds"
    using map2_semantic_decision [of ?scored ?ds] by simp
  then have "sd_disposition ` set (pn_semantic_decisions plan) = set ?ds" by (metis set_map)
  then show "SkippedAtomHardLimit \<notin> sd_disposition ` set (pn_semantic_decisions plan)" using dispositions_not_hard by metis
  have "map sd_atom_id (pn_semantic_decisions plan) = map (ps_atom_id \<circ> snd) ?scored"
    unfolding decisions using map2_semantic_decision [of ?scored ?ds] by simp
  then show "mset (map sd_atom_id (pn_semantic_decisions plan)) =
      mset (map (\<lambda>c. projr (atom_id sha (cluster_body sha snapshot ?cs c))) (filter (qualifies ?cs) (cohort_clusters ?cs)))"
    unfolding cs [symmetric] by (simp add: cohort_scored_def planned_def Let_def image_mset.compositionality comp_def)
qed

text \<open>
  C39: an oversized semantic candidate aborts planning, so the hard-limit disposition is dead.  On an
  admissible cohort, if some qualifying cluster has a semantic body over 262,144 bytes, planning
  returns the error of the first such cluster, which states its size when that fits 64 bits.  If
  there is none, a plan records every qualifying cluster, under the identifier of its body, and none
  of them as \<open>skipped_atom_hard_limit\<close>.
\<close>

theorem hard_limit_disposition_unreachable:
  assumes "cohort_wf sha snapshot"
  shows "case too_large sha snapshot of
      c # _ \<Rightarrow> let size = vsize (v_body (cluster_body sha snapshot (sort_key rc_atom_id (sn_atoms snapshot)) c)) in
        \<exists>e. plan_retirement sha chacha snapshot poc_v1 seed = Some (Inl (Err e)) \<and>
          (size < 2 ^ 64 \<longrightarrow> e = AtomTooLarge (of_nat size) 262144)
    | [] \<Rightarrow> \<forall>plan. plan_retirement sha chacha snapshot poc_v1 seed = Some (Inr plan) \<longrightarrow>
        SkippedAtomHardLimit \<notin> sd_disposition ` set (pn_semantic_decisions plan) \<and>
        mset (map sd_atom_id (pn_semantic_decisions plan)) =
          mset (map (\<lambda>c. projr (atom_id sha (cluster_body sha snapshot (sort_key rc_atom_id (sn_atoms snapshot)) c)))
            (filter (qualifies (sort_key rc_atom_id (sn_atoms snapshot))) (cohort_clusters (sort_key rc_atom_id (sn_atoms snapshot)))))"
proof (cases "too_large sha snapshot")
  case Nil
  then show ?thesis using planned_fits by simp
next
  case (Cons c rest)
  let ?body = "cluster_body sha snapshot (sort_key rc_atom_id (sn_atoms snapshot)) c"
  have "c \<in> set (too_large sha snapshot)" using Cons by simp
  then have "262144 < vsize (v_body ?body)" by (simp add: too_large_def Let_def)
  then have "vsize (v_body ?body) < 2 ^ 64 \<Longrightarrow>
      size_error sha snapshot (sort_key rc_atom_id (sn_atoms snapshot)) c = AtomTooLarge (of_nat (vsize (v_body ?body))) 262144"
    using oversized_body [of ?body] by (simp add: size_error_def)
  then show ?thesis
    unfolding Cons list.case Let_def plan_retirement_eq [OF assms] planner_spec_def oversized_too_large by simp
qed

section \<open>The post-state\<close>

text \<open>
  C35: the projected post-state of a plan is what its decisions say.  Its source atoms are the
  decided atoms in order, each moved to long-term episodic storage with its body and pins when it
  is exactly retained and reduced to a forgotten header otherwise; its semantic atoms are the
  selected ones, present in semantic long-term storage; and the plan carries its digest.
\<close>

theorem retirement_post_state_follows_decisions:
  assumes "plan_retirement sha chacha snapshot policy seed = Some (Inr plan)"
  shows "pp_memory_space_id (pn_projected_post_state plan) = sn_memory_space_id snapshot \<and>
    list_all2 (\<lambda>d a. pa_atom_id a = rd_atom_id d \<and> pa_atom_kind a = Episode \<and>
        pa_retention_tier a = (if rd_exact_retained d then EpisodicLongTerm else HeaderOnly) \<and>
        pa_content_status a = (if rd_exact_retained d then Present else Forgotten) \<and>
        pa_stored_body_digest a = (if rd_exact_retained d then Some (atom_digest (rd_atom_id d)) else None) \<and>
        pa_search_projection_present a = rd_exact_retained d \<and>
        pa_pinned_artifact_digests a = rd_exact_artifact_digests d)
      (pn_decisions plan) (pp_source_atoms (pn_projected_post_state plan)) \<and>
    list_all2 (\<lambda>p a. pa_atom_id a = ps_atom_id p \<and> pa_atom_kind a = Semantic \<and> pa_retention_tier a = SemanticLongTerm \<and>
        pa_content_status a = Present \<and> pa_stored_body_digest a = Some (ps_body_digest p))
      (pn_semantic_atoms plan) (pp_semantic_atoms (pn_projected_post_state plan)) \<and>
    post_state_digest sha (pn_projected_post_state plan) = Inr (pn_projected_state_digest plan)"
proof -
  obtain cs ks where r: "sorted_cohort sha snapshot cs" "oversized sha snapshot cs = None"
    "plan = plan_for sha snapshot seed cs (drawn_winners cs ks)"
    using plan_retirement_InrD [OF assms] by metis
  let ?sel = "select_of cs (cohort_scored sha snapshot cs)" and ?w = "fset_of_list (sort (map rc_atom_id (drawn_winners cs ks)))"
  let ?d = "\<lambda>c. decide_candidate ?w (consolidated_into (sl_atoms ?sel) (rc_atom_id c)) c"
  have len: "length (sl_atoms ?sel) \<le> 100" using select_of_spec(6) [OF r(2)] by (simp add: semantic_budget_def)
  have small: "\<forall>p \<in> set (sl_atoms ?sel). vsize (v_body (ps_body p)) \<le> 262144" using selected_atoms_ok(2) [OF r(2)] by blast
  obtain s d where s: "projected_post_state sha (sn_memory_space_id snapshot) cs (decisions_of ?w (sl_atoms ?sel) cs) (sl_atoms ?sel) = Inr s"
    "post_state_digest sha s = Inr d" "list_all2 (\<lambda>c a. post_source_atom sha (c, ?d c) = Inr a) cs (pp_source_atoms s)"
    "list_all2 (\<lambda>p a. post_semantic_atom sha p = Inr a) (sl_atoms ?sel) (pp_semantic_atoms s)"
    using projected_post_state_total [OF r(1) small len, of ?w] by blast
  have plan: "pn_projected_post_state plan = s" "pn_projected_state_digest plan = d"
    "pn_decisions plan = map ?d cs" "pn_semantic_atoms plan = sl_atoms ?sel"
    using s(1,2) by (simp_all add: r(3) plan_for_def Let_def decisions_of_def)
  have "list_all2 (\<lambda>c a. pa_atom_id a = rd_atom_id (?d c) \<and> pa_atom_kind a = Episode \<and>
        pa_retention_tier a = (if rd_exact_retained (?d c) then EpisodicLongTerm else HeaderOnly) \<and>
        pa_content_status a = (if rd_exact_retained (?d c) then Present else Forgotten) \<and>
        pa_stored_body_digest a = (if rd_exact_retained (?d c) then Some (atom_digest (rd_atom_id (?d c))) else None) \<and>
        pa_search_projection_present a = rd_exact_retained (?d c) \<and>
        pa_pinned_artifact_digests a = rd_exact_artifact_digests (?d c)) cs (pp_source_atoms s)"
  proof (rule list.rel_mono_strong [OF s(3)])
    fix c a assume c: "c \<in> set cs" "post_source_atom sha (c, ?d c) = Inr a"
    note wf = sorted_cohortD(1) [OF r(1) c(1)]
    have "rd_atom_id (?d c) = rc_atom_id c" by (simp add: decide_candidate_def Let_def)
    then show "pa_atom_id a = rd_atom_id (?d c) \<and> pa_atom_kind a = Episode \<and>
        pa_retention_tier a = (if rd_exact_retained (?d c) then EpisodicLongTerm else HeaderOnly) \<and>
        pa_content_status a = (if rd_exact_retained (?d c) then Present else Forgotten) \<and>
        pa_stored_body_digest a = (if rd_exact_retained (?d c) then Some (atom_digest (rd_atom_id (?d c))) else None) \<and>
        pa_search_projection_present a = rd_exact_retained (?d c) \<and>
        pa_pinned_artifact_digests a = rd_exact_artifact_digests (?d c)"
      using post_source_atom_fields [OF wf c(2)] candidate_wfD(6) [OF wf] by simp
  qed
  moreover have "list_all2 (\<lambda>p a. pa_atom_id a = ps_atom_id p \<and> pa_atom_kind a = Semantic \<and> pa_retention_tier a = SemanticLongTerm \<and>
        pa_content_status a = Present \<and> pa_stored_body_digest a = Some (ps_body_digest p)) (sl_atoms ?sel) (pp_semantic_atoms s)"
    using s(4) by (rule list.rel_mono_strong) (simp add: post_semantic_atom_fields)
  moreover have "pp_memory_space_id s = sn_memory_space_id snapshot" using s(1) by (auto simp: projected_post_state_def bindr_Inr)
  ultimately show ?thesis unfolding plan using s(2) by (simp add: list_all2_map1)
qed

section \<open>A concrete cohort\<close>

definition sample_candidate :: RetirementCandidateV1 where
  "sample_candidate = \<lparr>rc_atom_id = AtomId Digest32_ZERO, rc_body_digest = Digest32_ZERO, rc_body = Some (sample_body ''t''),
     rc_state = \<lparr>st_retention_tier = ShortTerm, st_content_status = Present, st_expires_at_us = Some 604800000012,
       st_superseded_by = None, st_feedback_positive = 0, st_feedback_negative = 0, st_retrieval_count = 0,
       st_retirement_run_id = None\<rparr>,
     rc_integrity = Complete, rc_exact_package_bytes = 2015\<rparr>"

abbreviation zero_sha :: "byte list \<Rightarrow> Digest32" where
  "zero_sha \<equiv> \<lambda>_. Digest32_ZERO"

lemma sample_body_wf: "atom_body_wf zero_sha (sample_body ''t'')"
proof -
  have "policy_digest zero_sha poc_v1 = Inr Digest32_ZERO" using policy_digest_poc [of zero_sha] by auto
  moreover have "vsize (v_body (sample_body ''t'')) = 2015" by (simp add: sample_body_vsize)
  moreover have "bd_payload (sample_body ''t'') = EpisodePayload \<lparr>ep_event_sequence_start = 0, ep_event_sequence_end = 0, ep_continues = None\<rparr>"
    by (simp add: sample_body_def)
  ultimately show ?thesis
    by (simp add: atom_body_wf_def exact_wf_def)
      (simp add: sample_body_def scope_wf_def observations_wf_def artifacts_wf_def episode_wf_def retained_bytes_def
        relation_targets_def option_list_def word_le_nat_alt)
qed

lemma sample_cohort_wf: "cohort_wf zero_sha (sample_snapshot [sample_candidate])"
proof -
  obtain bs where "body_canonical_bytes (sample_body ''t'') = Inr bs" using atom_body_wf_encodes [OF sample_body_wf] by blast
  then have "atom_id zero_sha (sample_body ''t'') = Inr (AtomId Digest32_ZERO)" by (simp add: atom_id_def hash_prefixed_def)
  moreover have "bd_payload (sample_body ''t'') = EpisodePayload \<lparr>ep_event_sequence_start = 0, ep_event_sequence_end = 0, ep_continues = None\<rparr>"
    "sc_memory_space_id (bd_scope (sample_body ''t'')) = ''space-a''" "iv_recorded_at_us (bd_interval (sample_body ''t'')) = 12"
    "retained_bytes (sample_body ''t'') = 0"
    by (simp_all add: sample_body_def retained_bytes_def)
  ultimately have "candidate_wf zero_sha (sample_snapshot [sample_candidate]) sample_candidate"
    using sample_body_wf by (simp add: candidate_wf_def sample_candidate_def sample_snapshot_def sample_body_vsize)
  then show ?thesis by (simp add: cohort_wf_def sample_snapshot_def MICROSECONDS_PER_DAY_def)
qed

lemma sample_plan_exists:
  "\<exists>plan. plan_retirement zero_sha (\<lambda>_ _. 0) (sample_snapshot [sample_candidate]) poc_v1 (Seed32 Digest32_ZERO) = Some (Inr plan)"
proof -
  let ?cs = "[sample_candidate]"
  have cs: "sort_key rc_atom_id (sn_atoms (sample_snapshot ?cs)) = ?cs" by (simp add: sample_snapshot_def)
  have "rc_body sample_candidate = Some (sample_body ''t'')" "bd_retention_permission (sample_body ''t'') = SemanticAndExactAllowed"
    by (simp_all add: sample_candidate_def sample_body_def)
  then have pos: "positions_where exact_eligible ?cs = [0]" "positions_where semantic_eligible ?cs = [0]"
    by (simp_all add: positions_where_def exact_eligible_def semantic_eligible_def)
  have none: "oversized zero_sha (sample_snapshot ?cs) ?cs = None"
    by (simp add: oversized_def cohort_clusters_def pos first_fit_def qualifies_def)
  have budget: "winner_budget [0] = Suc 0" by (simp add: winner_budget_def)
  have draw: "offsets (\<lambda>_. 0) 1 (Suc 0) 0 = Some [0]" by (simp add: uniform_below_def)
  have winners: "drawn_winners ?cs [0] = ?cs" by (simp add: drawn_winners_def Let_def pos)
  have "planner_spec zero_sha (\<lambda>_. 0) (sample_snapshot ?cs) (Seed32 Digest32_ZERO) =
      Some (Inr (plan_for zero_sha (sample_snapshot ?cs) (Seed32 Digest32_ZERO) ?cs ?cs))"
    unfolding planner_spec_def cs Let_def none pos budget option.case list.size(3,4) 
    using draw by (simp add: winners plan_result_def package_total_def) (simp add: sample_candidate_def)
  then show ?thesis using plan_retirement_eq [OF sample_cohort_wf] by simp
qed

theorem plan_retirement_returns_witness:
  "\<exists>r. plan_retirement zero_sha (\<lambda>_ _. 5) (sample_snapshot [sample_candidate]) poc_v1 (Seed32 Digest32_ZERO) = Some r \<and> r \<noteq> Inl Panic"
proof (rule plan_retirement_returns)
  have "positions_where exact_eligible (sort_key rc_atom_id (sn_atoms (sample_snapshot [sample_candidate]))) = [0]"
    by (simp add: sample_snapshot_def positions_where_def exact_eligible_def sample_candidate_def sample_body_def)
  then show "\<exists>i \<ge> p. of_nat (length (positions_where exact_eligible (sort_key rc_atom_id (sn_atoms (sample_snapshot [sample_candidate])))))
      \<le> (5 :: u64)" for p :: nat
    by (simp add: word_le_nat_alt) (rule exI [of _ p], rule order_refl)
qed

theorem retirement_decisions_sound_witness:
  "\<exists>plan. plan_retirement zero_sha (\<lambda>_ _. 0) (sample_snapshot [sample_candidate]) poc_v1 (Seed32 Digest32_ZERO) = Some (Inr plan) \<and>
     map rd_atom_id (pn_decisions plan) = [AtomId Digest32_ZERO]"
proof -
  obtain plan where plan: "plan_retirement zero_sha (\<lambda>_ _. 0) (sample_snapshot [sample_candidate]) poc_v1 (Seed32 Digest32_ZERO) = Some (Inr plan)"
    using sample_plan_exists by blast
  from retirement_decisions_sound [OF plan]
  have "map rd_atom_id (pn_decisions plan) = sort (map rc_atom_id (sn_atoms (sample_snapshot [sample_candidate])))" by (rule conjunct1)
  then show ?thesis using plan by (auto simp: sample_snapshot_def sample_candidate_def)
qed

theorem retirement_semantics_sound_witness:
  "\<exists>plan. plan_retirement zero_sha (\<lambda>_ _. 0) (sample_snapshot [sample_candidate]) poc_v1 (Seed32 Digest32_ZERO) = Some (Inr plan) \<and>
     length (pn_semantic_atoms plan) \<le> 100"
proof -
  obtain plan where plan: "plan_retirement zero_sha (\<lambda>_ _. 0) (sample_snapshot [sample_candidate]) poc_v1 (Seed32 Digest32_ZERO) = Some (Inr plan)"
    using sample_plan_exists by blast
  from retirement_semantics_sound [OF plan] have "length (pn_semantic_atoms plan) \<le> 100" by linarith
  with plan show ?thesis by blast
qed

theorem hard_limit_disposition_unreachable_witness:
  "\<exists>plan. plan_retirement zero_sha (\<lambda>_ _. 0) (sample_snapshot [sample_candidate]) poc_v1 (Seed32 Digest32_ZERO) = Some (Inr plan) \<and>
     too_large zero_sha (sample_snapshot [sample_candidate]) = [] \<and>
     SkippedAtomHardLimit \<notin> sd_disposition ` set (pn_semantic_decisions plan)"
proof -
  obtain plan where plan: "plan_retirement zero_sha (\<lambda>_ _. 0) (sample_snapshot [sample_candidate]) poc_v1 (Seed32 Digest32_ZERO) = Some (Inr plan)"
    using sample_plan_exists by blast
  obtain cs where "sorted_cohort zero_sha (sample_snapshot [sample_candidate]) cs" "oversized zero_sha (sample_snapshot [sample_candidate]) cs = None"
    using plan_retirement_InrD [OF plan] by metis
  then have "too_large zero_sha (sample_snapshot [sample_candidate]) = []"
    using oversized_too_large [of zero_sha "sample_snapshot [sample_candidate]"] by (simp add: sorted_cohort_def split: list.splits)
  then show ?thesis
    using hard_limit_disposition_unreachable [OF sample_cohort_wf, of "\<lambda>_ _. 0" "Seed32 Digest32_ZERO"] plan by simp
qed

theorem retirement_post_state_follows_decisions_witness:
  "\<exists>plan. plan_retirement zero_sha (\<lambda>_ _. 0) (sample_snapshot [sample_candidate]) poc_v1 (Seed32 Digest32_ZERO) = Some (Inr plan) \<and>
     length (pp_source_atoms (pn_projected_post_state plan)) = length (pn_decisions plan)"
proof -
  obtain plan where plan: "plan_retirement zero_sha (\<lambda>_ _. 0) (sample_snapshot [sample_candidate]) poc_v1 (Seed32 Digest32_ZERO) = Some (Inr plan)"
    using sample_plan_exists by blast
  from retirement_post_state_follows_decisions [OF plan]
  have "length (pn_decisions plan) = length (pp_source_atoms (pn_projected_post_state plan))"
    by (elim conjE) (rule list_all2_lengthD)
  with plan show ?thesis by auto
qed

end
