(* ===== verification/Receipt.thy ===== *)
theory Receipt
  imports PlanLaws
begin

text \<open>
  Retirement receipts, \<open>receipt.rs\<close>: the structural verification of a plan, the application of a
  plan to a repository with the closure checks that precede the receipt, and the verification of
  a receipt by recomputing the plan.
\<close>

section \<open>Receipts\<close>

definition RUN_HASH_DOMAIN :: "byte list" where
  "RUN_HASH_DOMAIN = str_bytes ''naome-memory:retirement-run:v1'' @ [0]"

definition RECEIPT_HASH_DOMAIN :: "byte list" where
  "RECEIPT_HASH_DOMAIN = str_bytes ''naome-memory:proof-receipt:v1'' @ [0]"

datatype InvariantStatusV1 = InvariantVerified | InvariantRejected | InvariantInconclusive

datatype OverallProofStatusV1 = ProofPassed | ProofFailed | ProofInconclusive | ProofInvalid

record ReceiptClosureV1 =
  cl_source_atom_ids :: "AtomId list"
  cl_semantic_atom_ids :: "AtomId list"
  cl_exact_episode_ids :: "AtomId list"
  cl_exact_artifact_digests :: "(AtomId, Digest32 list) fmap"

definition closure_from_plan :: "RetirementPlanV1 \<Rightarrow> ReceiptClosureV1" where
  "closure_from_plan plan =
     \<lparr>cl_source_atom_ids = map rd_atom_id (pn_decisions plan),
      cl_semantic_atom_ids = map ps_atom_id (pn_semantic_atoms plan),
      cl_exact_episode_ids = pn_episodic_winners plan,
      cl_exact_artifact_digests = fmap_of_list (rev (map (\<lambda>d. (rd_atom_id d, rd_exact_artifact_digests d))
        (filter rd_exact_retained (pn_decisions plan))))\<rparr>"

record ProofReceiptV1 =
  rp_contract_version :: string
  rp_receipt_id :: Digest32
  rp_run_id :: Digest32
  rp_memory_space_id :: string
  rp_cohort_day :: u64
  rp_as_of_us :: u64
  rp_policy_id :: string
  rp_policy_digest :: Digest32
  rp_seed :: Seed32
  rp_input_set_digest :: Digest32
  rp_rng_identifier :: string
  rp_population_digest :: Digest32
  rp_episodic_population_count :: usize
  rp_episodic_winner_budget :: usize
  rp_episodic_winner_bytes :: u64
  rp_semantic_count_budget :: usize
  rp_semantic_body_bytes :: u64
  rp_plan_digest :: Digest32
  rp_decision_digest :: Digest32
  rp_state_digest :: Digest32
  rp_closure :: ReceiptClosureV1
  rp_invariants :: "(string, InvariantStatusV1) fmap"
  rp_overall_status :: OverallProofStatusV1

fun v_invariant_status :: "InvariantStatusV1 \<Rightarrow> Value" where
  "v_invariant_status InvariantVerified = VString ''verified''"
| "v_invariant_status InvariantRejected = VString ''rejected''"
| "v_invariant_status InvariantInconclusive = VString ''inconclusive''"

fun v_proof_status :: "OverallProofStatusV1 \<Rightarrow> Value" where
  "v_proof_status ProofPassed = VString ''passed''"
| "v_proof_status ProofFailed = VString ''failed''"
| "v_proof_status ProofInconclusive = VString ''inconclusive''"
| "v_proof_status ProofInvalid = VString ''invalid''"

definition v_closure :: "ReceiptClosureV1 \<Rightarrow> Value" where
  "v_closure c = VObject [
     (''source_atom_ids'', v_vec v_atom_id (cl_source_atom_ids c)),
     (''semantic_atom_ids'', v_vec v_atom_id (cl_semantic_atom_ids c)),
     (''exact_episode_ids'', v_vec v_atom_id (cl_exact_episode_ids c)),
     (''exact_artifact_digests'', v_map (\<lambda>a. to_hex (atom_digest a)) (v_vec v_digest) (cl_exact_artifact_digests c))]"

text \<open>Everything but the receipt identifier itself.\<close>

definition v_receipt_authority :: "ProofReceiptV1 \<Rightarrow> Value" where
  "v_receipt_authority r = VObject [
     (''contract_version'', VString (rp_contract_version r)),
     (''run_id'', v_digest (rp_run_id r)),
     (''memory_space_id'', VString (rp_memory_space_id r)),
     (''cohort_day'', v_u64 (rp_cohort_day r)),
     (''as_of_us'', v_u64 (rp_as_of_us r)),
     (''policy_id'', VString (rp_policy_id r)),
     (''policy_digest'', v_digest (rp_policy_digest r)),
     (''seed'', v_seed (rp_seed r)),
     (''input_set_digest'', v_digest (rp_input_set_digest r)),
     (''rng_identifier'', VString (rp_rng_identifier r)),
     (''population_digest'', v_digest (rp_population_digest r)),
     (''episodic_population_count'', v_usize (rp_episodic_population_count r)),
     (''episodic_winner_budget'', v_usize (rp_episodic_winner_budget r)),
     (''episodic_winner_bytes'', v_u64 (rp_episodic_winner_bytes r)),
     (''semantic_count_budget'', v_usize (rp_semantic_count_budget r)),
     (''semantic_body_bytes'', v_u64 (rp_semantic_body_bytes r)),
     (''plan_digest'', v_digest (rp_plan_digest r)),
     (''decision_digest'', v_digest (rp_decision_digest r)),
     (''state_digest'', v_digest (rp_state_digest r)),
     (''closure'', v_closure (rp_closure r)),
     (''invariants'', v_map id v_invariant_status (rp_invariants r)),
     (''overall_status'', v_proof_status (rp_overall_status r))]"

definition recompute_receipt_id :: "(byte list \<Rightarrow> Digest32) \<Rightarrow> ProofReceiptV1 \<Rightarrow> Digest32 result" where
  "recompute_receipt_id sha r = digest_value sha RECEIPT_HASH_DOMAIN (v_receipt_authority r)"

definition invariant_map :: "(string, InvariantStatusV1) fmap" where
  "invariant_map = fmap_of_list (map (\<lambda>name. (name, InvariantVerified))
     [''budgets_structurally_bounded'', ''plan_structure_verified'', ''repository_outcome_closure_verified''])"

definition normalize_artifacts :: "(AtomId, Digest32 list) fmap \<Rightarrow> (AtomId, Digest32 list) fmap" where
  "normalize_artifacts artifacts = fmmap (\<lambda>digests. remdups_adj (sort digests)) artifacts"

section \<open>Structure of a plan\<close>

definition source_post_state_ok ::
  "PolicyV1 \<Rightarrow> RetirementPostStateAtomV1 \<Rightarrow> RetirementDecisionV1 \<Rightarrow> bool" where
  "source_post_state_ok policy state decision =
     (let expected_tier = (if rd_exact_retained decision then EpisodicLongTerm else HeaderOnly);
          expected_status = (if rd_exact_retained decision then Present else Forgotten) in
      \<not> (pa_atom_id state \<noteq> rd_atom_id decision
        \<or> pa_atom_kind state \<noteq> Episode
        \<or> (case pa_session_id state of None \<Rightarrow> True | Some s \<Rightarrow> s = '''')
        \<or> pa_header_body_digest state \<noteq> atom_digest (rd_atom_id decision)
        \<or> pa_header_body_bytes state = 0
        \<or> pa_header_body_bytes state > po_atom_hard_max_bytes policy
        \<or> pa_stored_body_digest state \<noteq> (if rd_exact_retained decision then Some (atom_digest (rd_atom_id decision)) else None)
        \<or> pa_retention_tier state \<noteq> expected_tier
        \<or> pa_content_status state \<noteq> expected_status
        \<or> pa_expires_at_us state \<noteq> None
        \<or> pa_superseded_by state \<noteq> None
        \<or> \<not> pa_retirement_run_bound state
        \<or> pa_search_projection_present state \<noteq> rd_exact_retained decision
        \<or> pa_pinned_artifact_digests state \<noteq> rd_exact_artifact_digests decision
        \<or> rd_forget_episode_body decision = rd_exact_retained decision
        \<or> (rd_exact_retained decision \<and> pa_retention_permission state \<noteq> SemanticAndExactAllowed)))"

definition verify_source_post_state ::
  "PolicyV1 \<Rightarrow> RetirementPostStateAtomV1 \<times> RetirementDecisionV1 \<Rightarrow> unit result" where
  "verify_source_post_state policy x =
     (if \<not> source_post_state_ok policy (fst x) (snd x)
      then Inl (ReceiptRejected ''projected source post-state mismatch'') else Inr ())"

text \<open>
  The provenance digest is computed only when every earlier comparison agrees, so its encoding
  error can only arise there.
\<close>

definition verify_semantic_post_state ::
  "(byte list \<Rightarrow> Digest32) \<Rightarrow> RetirementPostStateAtomV1 \<times> PlannedSemanticAtomV1 \<Rightarrow> unit result" where
  "verify_semantic_post_state sha x =
     (let state = fst x; semantic = snd x; body = ps_body semantic;
          mismatch = Inl (ReceiptRejected ''projected semantic post-state mismatch'') in
      if pa_atom_id state \<noteq> ps_atom_id semantic
        \<or> pa_atom_kind state \<noteq> Semantic
        \<or> pa_repository_id state \<noteq> sc_repository_id (bd_scope body)
        \<or> pa_task_id state \<noteq> sc_task_id (bd_scope body)
        \<or> pa_agent_id state \<noteq> sc_agent_id (bd_scope body)
        \<or> pa_session_id state \<noteq> Some (sc_session_id (bd_scope body))
        \<or> pa_recorded_at_us state \<noteq> iv_recorded_at_us (bd_interval body)
        \<or> pa_header_body_digest state \<noteq> ps_body_digest semantic
        \<or> pa_header_body_bytes state \<noteq> ps_canonical_size_bytes semantic
        \<or> pa_retention_permission state \<noteq> bd_retention_permission body
      then mismatch
      else bindr (digest_value sha PROVENANCE_HASH_DOMAIN (v_provenance (bd_provenance body))) (\<lambda>provenance.
        if pa_provenance_digest state \<noteq> provenance
          \<or> pa_stored_body_digest state \<noteq> Some (ps_body_digest semantic)
          \<or> pa_retention_tier state \<noteq> SemanticLongTerm
          \<or> pa_content_status state \<noteq> Present
          \<or> pa_expires_at_us state \<noteq> None
          \<or> pa_superseded_by state \<noteq> None
          \<or> pa_feedback_positive state \<noteq> 0
          \<or> pa_feedback_negative state \<noteq> 0
          \<or> pa_retrieval_count state \<noteq> 0
          \<or> pa_retirement_run_bound state
          \<or> \<not> pa_search_projection_present state
          \<or> pa_pinned_artifact_digests state \<noteq> []
        then mismatch else Inr ()))"

definition verify_projected_post_state ::
  "(byte list \<Rightarrow> Digest32) \<Rightarrow> RetirementPlanV1 \<Rightarrow> PolicyV1 \<Rightarrow> unit result" where
  "verify_projected_post_state sha plan policy =
     (let post = pn_projected_post_state plan in
      if pp_memory_space_id post \<noteq> pn_memory_space_id plan
        \<or> length (pp_source_atoms post) \<noteq> length (pn_decisions plan)
        \<or> length (pp_semantic_atoms post) \<noteq> length (pn_semantic_atoms plan)
      then Inl (ReceiptRejected ''projected post-state closure mismatch'')
      else bindr (try_each (verify_source_post_state policy) (zip (pp_source_atoms post) (pn_decisions plan))) (\<lambda>_.
        try_each (verify_semantic_post_state sha) (zip (pp_semantic_atoms post) (pn_semantic_atoms plan))))"

definition ensure_sorted_unique_decisions :: "RetirementDecisionV1 list \<Rightarrow> unit result" where
  "ensure_sorted_unique_decisions decisions =
     (if \<not> successively (\<lambda>a b. rd_atom_id a < rd_atom_id b) decisions
      then Inl (ReceiptRejected ''decisions are not strictly atom-id ordered'') else Inr ())"

text \<open>One step of the loop over the semantic atoms, with the identifiers seen so far.\<close>

definition ensure_semantic_atom ::
  "(byte list \<Rightarrow> Digest32) \<Rightarrow> PolicyV1 \<Rightarrow> AtomId fset \<Rightarrow> PlannedSemanticAtomV1 \<Rightarrow> AtomId fset result" where
  "ensure_semantic_atom sha policy atom_ids semantic =
     (let body = ps_body semantic; mismatch = Inl (ReceiptRejected ''semantic atom authority mismatch'') in
      if ps_atom_id semantic |\<in>| atom_ids
      then Inl (ReceiptRejected ''semantic atom id occurs more than once'')
      else bindr (validate_memory_atom_body sha body policy) (\<lambda>_.
      if bd_contract_version body \<noteq> ''atom-v1'' then mismatch
      else bindr (atom_id sha body) (\<lambda>aid.
      if aid \<noteq> ps_atom_id semantic \<or> ps_body_digest semantic \<noteq> atom_digest (ps_atom_id semantic) then mismatch
      else bindr (encoded_size_bytes body) (\<lambda>n.
      if n \<noteq> ps_canonical_size_bytes semantic then mismatch
      else Inr (finsert (ps_atom_id semantic) atom_ids)))))"

definition ensure_semantic_atoms ::
  "(byte list \<Rightarrow> Digest32) \<Rightarrow> PlannedSemanticAtomV1 list \<Rightarrow> PolicyV1 \<Rightarrow> unit result" where
  "ensure_semantic_atoms sha semantic_atoms policy =
     bindr (try_fold (ensure_semantic_atom sha policy) {||} semantic_atoms) (\<lambda>_. Inr ())"

definition ensure_candidate_sources ::
  "PolicyV1 \<Rightarrow> AtomId fset \<Rightarrow> SemanticCandidateDecisionV1 \<Rightarrow> AtomId fset result" where
  "ensure_candidate_sources policy candidate_ids decision =
     (if sd_atom_id decision |\<in>| candidate_ids
      then Inl (ReceiptRejected ''semantic candidate id occurs more than once'')
      else if length (sd_source_ids decision) < po_min_semantic_sources policy
        \<or> \<not> successively (<) (sd_source_ids decision)
      then Inl (ReceiptRejected ''semantic candidate source closure is incomplete or unordered'')
      else Inr (finsert (sd_atom_id decision) candidate_ids))"

definition expected_semantic_disposition ::
  "u64 \<Rightarrow> usize \<Rightarrow> u64 \<Rightarrow> usize \<Rightarrow> PolicyV1 \<Rightarrow> (SemanticCandidateDispositionV1 \<times> u64) result" where
  "expected_semantic_disposition candidate_bytes selected_count selected_bytes count_budget policy =
     bindr (ok_or (ReceiptRejected ''semantic candidate byte count overflow'')
         (checked_add selected_bytes candidate_bytes)) (\<lambda>next_bytes.
     Inr (if candidate_bytes > po_atom_hard_max_bytes policy then SkippedAtomHardLimit
          else if selected_count \<ge> count_budget then SkippedCountBudget
          else if next_bytes > po_semantic_body_budget_bytes policy then SkippedByteBudget
          else Selected, next_bytes))"

text \<open>The replay of the selection: the state is the selected count, bytes and position.\<close>

definition replay_disposition ::
  "PolicyV1 \<Rightarrow> usize \<Rightarrow> PlannedSemanticAtomV1 list \<Rightarrow> usize \<times> u64 \<times> usize \<Rightarrow> SemanticCandidateDecisionV1 \<Rightarrow>
   (usize \<times> u64 \<times> usize) result" where
  "replay_disposition policy count_budget semantic_atoms st decision =
     (case st of (selected_count, selected_bytes, selected_index) \<Rightarrow>
      bindr (expected_semantic_disposition (sd_canonical_size_bytes decision) selected_count selected_bytes
          count_budget policy) (\<lambda>(expected_disposition, next_bytes).
      if sd_disposition decision \<noteq> expected_disposition
      then Inl (ReceiptRejected ''semantic candidate disposition does not follow policy budgets'')
      else if expected_disposition = Selected
      then bindr (ok_or (ReceiptRejected ''selected semantic candidate body is missing'')
          (get_index semantic_atoms selected_index)) (\<lambda>semantic.
        case bd_payload (ps_body semantic) of
          EpisodePayload _ \<Rightarrow> Inl (ReceiptRejected ''selected semantic candidate has episode payload'')
        | SemanticPayload payload \<Rightarrow>
            if ps_atom_id semantic \<noteq> sd_atom_id decision
              \<or> ps_canonical_size_bytes semantic \<noteq> sd_canonical_size_bytes decision
              \<or> sp_source_ids payload \<noteq> sd_source_ids decision
              \<or> sp_score payload \<noteq> sd_score decision
            then Inl (ReceiptRejected ''selected semantic candidate does not match its evidence'')
            else Inr (usize_saturating_add selected_count 1, next_bytes, usize_saturating_add selected_index 1))
      else Inr st))"

definition ensure_semantic_evidence ::
  "(byte list \<Rightarrow> Digest32) \<Rightarrow> SemanticCandidateDecisionV1 list \<Rightarrow> PlannedSemanticAtomV1 list \<Rightarrow> usize \<Rightarrow>
   PolicyV1 \<Rightarrow> unit result" where
  "ensure_semantic_evidence sha decisions semantic_atoms count_budget policy =
     bindr (ensure_semantic_atoms sha semantic_atoms policy) (\<lambda>_.
     bindr (try_fold (ensure_candidate_sources policy) {||} decisions) (\<lambda>_.
     if \<not> successively (\<lambda>a b. \<not> (cs_total (sd_score a) < cs_total (sd_score b)
         \<or> cs_total (sd_score a) = cs_total (sd_score b) \<and> sd_atom_id a \<ge> sd_atom_id b)) decisions
     then Inl (ReceiptRejected ''semantic candidates are not ordered by score then atom id'')
     else bindr (try_fold (replay_disposition policy count_budget semantic_atoms) (0, 0, 0) decisions)
       (\<lambda>(selected_count, selected_bytes, selected_index).
     if selected_index \<noteq> length semantic_atoms
     then Inl (ReceiptRejected ''semantic atom exists without selected candidate evidence'')
     else Inr ())))"

definition verify_budgets :: "RetirementPlanV1 \<Rightarrow> PolicyV1 \<Rightarrow> unit result" where
  "verify_budgets plan policy =
     (if \<not> successively (<) (pn_episodic_winners plan)
      then Inl (ReceiptRejected ''episodic winners are not strictly atom-id ordered'')
      else
        let winners = fset_of_list (pn_episodic_winners plan);
            decision_winners = fset_of_list (map rd_atom_id (filter rd_exact_retained (pn_decisions plan)));
            expected_episodic_budget =
              min (Ppm_ceil_count (po_episodic_rate policy) (pn_episodic_population_count plan)) (po_episodic_count_max policy);
            expected_semantic_budget =
              min (Ppm_ceil_count (po_semantic_rate policy) (length (pn_decisions plan))) (po_semantic_count_max policy) in
        bindr (try_fold (\<lambda>sum a. ok_or (ReceiptRejected ''semantic body byte count overflow'')
            (checked_add sum (ps_canonical_size_bytes a))) 0 (pn_semantic_atoms plan)) (\<lambda>semantic_body_bytes.
        if winners \<noteq> decision_winners
          \<or> pn_episodic_winner_budget plan \<noteq> expected_episodic_budget
          \<or> length (pn_episodic_winners plan) \<noteq> pn_episodic_winner_budget plan
          \<or> pn_semantic_count_budget plan \<noteq> expected_semantic_budget
          \<or> pn_semantic_body_bytes plan \<noteq> semantic_body_bytes
          \<or> pn_episodic_winner_bytes plan > po_episodic_pin_budget_bytes policy
        then Inl (ReceiptRejected ''lottery or semantic budget mismatch'')
        else Inr ()))"

definition verify_plan_structure :: "(byte list \<Rightarrow> Digest32) \<Rightarrow> RetirementPlanV1 \<Rightarrow> unit result" where
  "verify_plan_structure sha plan =
     (if pn_contract_version plan \<noteq> ''retirement-plan-v1'' then Inl (UnknownVersion (pn_contract_version plan))
      else if pn_policy_id plan \<noteq> ''poc-v1'' then Inl PolicyMismatch
      else
        let policy = poc_v1 in
        bindr (policy_digest sha policy) (\<lambda>digest.
        if pn_policy_digest plan \<noteq> digest
          \<or> pn_rng_identifier plan \<noteq> ''chacha20-rand_chacha-0.3/partial-fisher-yates-v1''
        then Inl PolicyMismatch
        else bindr (verify_projected_post_state sha plan policy) (\<lambda>_.
        bindr (post_state_digest sha (pn_projected_post_state plan)) (\<lambda>state_digest.
        if state_digest \<noteq> pn_projected_state_digest plan
        then Inl (ReceiptRejected ''projected state digest mismatch'')
        else bindr (ensure_sorted_unique_decisions (pn_decisions plan)) (\<lambda>_.
        bindr (ensure_semantic_evidence sha (pn_semantic_decisions plan) (pn_semantic_atoms plan)
          (pn_semantic_count_budget plan) policy) (\<lambda>_.
        verify_budgets plan policy))))))"

section \<open>Applying a plan\<close>

record ApplyRetirementOutcomeV1 =
  ao_observed_input_digest :: Digest32
  ao_state_digest :: Digest32
  ao_applied_decision_count :: usize
  ao_semantic_atom_ids :: "AtomId list"
  ao_episodic_atom_ids :: "AtomId list"
  ao_exact_artifact_digests :: "(AtomId, Digest32 list) fmap"
  ao_already_applied :: bool

definition check_apply_outcome :: "RetirementPlanV1 \<Rightarrow> ApplyRetirementOutcomeV1 \<Rightarrow> unit result" where
  "check_apply_outcome plan out =
     (if ao_observed_input_digest out \<noteq> pn_input_set_digest plan
      then Inl (StalePlan (pn_input_set_digest plan) (ao_observed_input_digest out))
      else if ao_state_digest out \<noteq> pn_projected_state_digest plan
      then Inl (InvalidApplyClosure ''state digest mismatch'')
      else if ao_applied_decision_count out \<noteq> length (pn_decisions plan)
      then Inl (InvalidApplyClosure ''decision count mismatch'')
      else
        let expected_closure = closure_from_plan plan in
        if ao_semantic_atom_ids out \<noteq> cl_semantic_atom_ids expected_closure
          \<or> ao_episodic_atom_ids out \<noteq> cl_exact_episode_ids expected_closure
          \<or> normalize_artifacts (ao_exact_artifact_digests out) \<noteq> cl_exact_artifact_digests expected_closure
        then Inl (InvalidApplyClosure ''semantic, episodic, or artifact closure mismatch'')
        else Inr ())"

definition issue_receipt ::
  "(byte list \<Rightarrow> Digest32) \<Rightarrow> RetirementPlanV1 \<Rightarrow> Digest32 \<Rightarrow> ProofReceiptV1 result" where
  "issue_receipt sha plan state_digest =
     bindr (plan_digest sha plan) (\<lambda>p_digest.
     bindr (decision_digest sha plan) (\<lambda>d_digest.
     let receipt = \<lparr>rp_contract_version = ''proof-receipt-v1'',
       rp_receipt_id = Digest32_ZERO,
       rp_run_id = hash_prefixed sha RUN_HASH_DOMAIN (digest_bytes p_digest),
       rp_memory_space_id = pn_memory_space_id plan,
       rp_cohort_day = pn_cohort_day plan,
       rp_as_of_us = pn_as_of_us plan,
       rp_policy_id = pn_policy_id plan,
       rp_policy_digest = pn_policy_digest plan,
       rp_seed = pn_seed plan,
       rp_input_set_digest = pn_input_set_digest plan,
       rp_rng_identifier = pn_rng_identifier plan,
       rp_population_digest = pn_episodic_population_digest plan,
       rp_episodic_population_count = pn_episodic_population_count plan,
       rp_episodic_winner_budget = pn_episodic_winner_budget plan,
       rp_episodic_winner_bytes = pn_episodic_winner_bytes plan,
       rp_semantic_count_budget = pn_semantic_count_budget plan,
       rp_semantic_body_bytes = pn_semantic_body_bytes plan,
       rp_plan_digest = p_digest,
       rp_decision_digest = d_digest,
       rp_state_digest = state_digest,
       rp_closure = closure_from_plan plan,
       rp_invariants = invariant_map,
       rp_overall_status = ProofPassed\<rparr>
     in bindr (recompute_receipt_id sha receipt) (\<lambda>receipt_id.
     Inr (receipt\<lparr>rp_receipt_id := receipt_id\<rparr>))))"

text \<open>
  The repository is a parameter: \<open>apply_plan\<close> is the implementation of
  \<open>RetirementRepositoryV1::apply_plan_atomically\<close> over a repository state of any type.
\<close>

definition apply_retirement ::
  "(byte list \<Rightarrow> Digest32) \<Rightarrow> ('r \<Rightarrow> RetirementPlanV1 \<Rightarrow> ApplyRetirementOutcomeV1 result \<times> 'r) \<Rightarrow>
   'r \<Rightarrow> RetirementPlanV1 \<Rightarrow> ProofReceiptV1 result \<times> 'r" where
  "apply_retirement sha apply_plan repository plan =
     (case verify_plan_structure sha plan of
        Inl e \<Rightarrow> (Inl e, repository)
      | Inr _ \<Rightarrow>
          (case apply_plan repository plan of (applied, repository') \<Rightarrow>
            (bindr applied (\<lambda>out.
             bindr (check_apply_outcome plan out) (\<lambda>_.
             issue_receipt sha plan (ao_state_digest out))), repository')))"

section \<open>Verifying a receipt\<close>

record ReceiptVerificationInputsV1 =
  vi_policy :: PolicyV1
  vi_snapshot :: RetirementSnapshotV1
  vi_seed :: Seed32
  vi_observed_state_digest :: Digest32
  vi_observed_exact_artifact_digests :: "(AtomId, Digest32 list) fmap"

record VerifiedReceiptV1 =
  vr_receipt_id :: Digest32
  vr_run_id :: Digest32
  vr_plan_digest :: Digest32
  vr_status :: InvariantStatusV1

text \<open>The checks against the recomputed plan.\<close>

definition check_receipt ::
  "(byte list \<Rightarrow> Digest32) \<Rightarrow> ProofReceiptV1 \<Rightarrow> ReceiptVerificationInputsV1 \<Rightarrow> RetirementPlanV1 \<Rightarrow>
   VerifiedReceiptV1 result" where
  "check_receipt sha receipt inputs plan =
     (let mismatch = Inl (ReceiptRejected ''input, policy, seed, decision, state, or closure mismatch'') in
      bindr (verify_plan_structure sha plan) (\<lambda>_.
      bindr (plan_digest sha plan) (\<lambda>p_digest.
      bindr (recompute_receipt_id sha receipt) (\<lambda>receipt_id.
      if rp_receipt_id receipt \<noteq> receipt_id then Inl (ReceiptRejected ''receipt id mismatch'')
      else if rp_run_id receipt \<noteq> hash_prefixed sha RUN_HASH_DOMAIN (digest_bytes p_digest)
        \<or> rp_memory_space_id receipt \<noteq> pn_memory_space_id plan
        \<or> rp_cohort_day receipt \<noteq> pn_cohort_day plan
        \<or> rp_as_of_us receipt \<noteq> pn_as_of_us plan
        \<or> rp_policy_id receipt \<noteq> pn_policy_id plan
        \<or> rp_policy_digest receipt \<noteq> pn_policy_digest plan
        \<or> rp_plan_digest receipt \<noteq> p_digest
      then mismatch
      else bindr (decision_digest sha plan) (\<lambda>d_digest.
      if rp_decision_digest receipt \<noteq> d_digest then mismatch
      else bindr (policy_digest sha (vi_policy inputs)) (\<lambda>po_digest.
      if rp_policy_digest receipt \<noteq> po_digest
        \<or> rp_seed receipt \<noteq> vi_seed inputs
        \<or> rp_input_set_digest receipt \<noteq> pn_input_set_digest plan
        \<or> rp_rng_identifier receipt \<noteq> pn_rng_identifier plan
        \<or> rp_population_digest receipt \<noteq> pn_episodic_population_digest plan
        \<or> rp_episodic_population_count receipt \<noteq> pn_episodic_population_count plan
        \<or> rp_episodic_winner_budget receipt \<noteq> pn_episodic_winner_budget plan
        \<or> rp_episodic_winner_bytes receipt \<noteq> pn_episodic_winner_bytes plan
        \<or> rp_semantic_count_budget receipt \<noteq> pn_semantic_count_budget plan
        \<or> rp_semantic_body_bytes receipt \<noteq> pn_semantic_body_bytes plan
        \<or> rp_state_digest receipt \<noteq> pn_projected_state_digest plan
        \<or> rp_state_digest receipt \<noteq> vi_observed_state_digest inputs
        \<or> rp_closure receipt \<noteq> closure_from_plan plan
      then mismatch
      else if normalize_artifacts (vi_observed_exact_artifact_digests inputs) \<noteq> cl_exact_artifact_digests (rp_closure receipt)
      then Inl (ReceiptRejected ''observed exact artifacts do not close'')
      else if rp_overall_status receipt \<noteq> ProofPassed \<or> rp_invariants receipt \<noteq> invariant_map
      then Inl (ReceiptRejected ''receipt does not claim verified invariants'')
      else Inr \<lparr>vr_receipt_id = rp_receipt_id receipt, vr_run_id = rp_run_id receipt,
        vr_plan_digest = rp_plan_digest receipt, vr_status = InvariantVerified\<rparr>))))))"

definition verify_receipt ::
  "(byte list \<Rightarrow> Digest32) \<Rightarrow> (byte list \<Rightarrow> stream) \<Rightarrow> ProofReceiptV1 \<Rightarrow> ReceiptVerificationInputsV1 \<Rightarrow>
   VerifiedReceiptV1 outcome option" where
  "verify_receipt sha chacha receipt inputs =
     (if rp_contract_version receipt \<noteq> ''proof-receipt-v1''
      then Some (Inl (Err (UnknownVersion (rp_contract_version receipt))))
      else case validate_poc_v1 (vi_policy inputs) of
        Inl e \<Rightarrow> Some (Inl (Err e))
      | Inr _ \<Rightarrow> map_option (\<lambda>planned. bindr planned (\<lambda>plan. lift (check_receipt sha receipt inputs plan)))
          (plan_retirement sha chacha (vi_snapshot inputs) (vi_policy inputs) (vi_seed inputs)))"

section \<open>What a verified plan guarantees\<close>

lemma successively_keys: "successively (\<lambda>a b. f a < (f b :: 'a::linorder)) xs \<longleftrightarrow> sorted_wrt (<) (map f xs)"
  unfolding successively_map [of "(<)" f xs, symmetric] successively_less_iff sorted_wrt_less_iff ..

lemma ensure_sorted_unique_decisions_Inr:
  "ensure_sorted_unique_decisions ds = Inr u \<longleftrightarrow> sorted_wrt (<) (map rd_atom_id ds)"
  by (simp add: ensure_sorted_unique_decisions_def successively_keys)

text \<open>A semantic atom that carries its own content address and size and passes the validator.\<close>

definition planned_atom_wf :: "(byte list \<Rightarrow> Digest32) \<Rightarrow> PlannedSemanticAtomV1 \<Rightarrow> bool" where
  "planned_atom_wf sha p \<longleftrightarrow> validate_memory_atom_body sha (ps_body p) poc_v1 = Inr () \<and>
     atom_id sha (ps_body p) = Inr (ps_atom_id p) \<and> ps_body_digest p = atom_digest (ps_atom_id p) \<and>
     encoded_size_bytes (ps_body p) = Inr (ps_canonical_size_bytes p)"

lemma validated_contract: "validate_memory_atom_body sha body policy = Inr () \<Longrightarrow> bd_contract_version body = ''atom-v1''"
  by (auto simp: validate_memory_atom_body_def bindr_Inr split: if_splits)

lemma ensure_semantic_atom_Inr:
  "ensure_semantic_atom sha poc_v1 seen p = Inr seen' \<longleftrightarrow>
     ps_atom_id p |\<notin>| seen \<and> planned_atom_wf sha p \<and> seen' = finsert (ps_atom_id p) seen"
  using validated_contract [of sha "ps_body p" poc_v1]
  by (auto simp: ensure_semantic_atom_def Let_def bindr_Inr planned_atom_wf_def)

lemma ensure_semantic_atoms_Inr:
  "ensure_semantic_atoms sha ps poc_v1 = Inr () \<longleftrightarrow> distinct (map ps_atom_id ps) \<and> (\<forall>p \<in> set ps. planned_atom_wf sha p)"
proof -
  have "(\<exists>seen'. try_fold (ensure_semantic_atom sha poc_v1) seen ps = Inr seen') \<longleftrightarrow>
     distinct (map ps_atom_id ps) \<and> (\<forall>p \<in> set ps. ps_atom_id p |\<notin>| seen \<and> planned_atom_wf sha p)" for seen
    by (induction ps arbitrary: seen) (auto simp: bindr_Inr ensure_semantic_atom_Inr, metis imageI)
  then show ?thesis by (auto simp: ensure_semantic_atoms_def bindr_Inr)
qed

lemma ensure_candidate_sources_Inr:
  "(\<exists>seen'. try_fold (ensure_candidate_sources poc_v1) {||} ds = Inr seen') \<longleftrightarrow>
     distinct (map sd_atom_id ds) \<and> (\<forall>d \<in> set ds. 3 \<le> length (sd_source_ids d) \<and> sorted_wrt (<) (sd_source_ids d))"
proof -
  have step: "ensure_candidate_sources poc_v1 seen d = Inr seen' \<longleftrightarrow> sd_atom_id d |\<notin>| seen \<and>
      3 \<le> length (sd_source_ids d) \<and> sorted_wrt (<) (sd_source_ids d) \<and> seen' = finsert (sd_atom_id d) seen" for seen seen' d
    by (auto simp: ensure_candidate_sources_def poc_v1_simps successively_less_iff sorted_wrt_less_iff)
  have "(\<exists>seen'. try_fold (ensure_candidate_sources poc_v1) seen ds = Inr seen') \<longleftrightarrow>
     distinct (map sd_atom_id ds) \<and> (\<forall>d \<in> set ds. sd_atom_id d |\<notin>| seen \<and> 3 \<le> length (sd_source_ids d) \<and> sorted_wrt (<) (sd_source_ids d))" for seen
    by (induction ds arbitrary: seen) (auto simp: bindr_Inr step, metis imageI)
  then show ?thesis by simp
qed

text \<open>The atoms that stand for the selected candidates.\<close>

definition evidences :: "PlannedSemanticAtomV1 \<Rightarrow> SemanticCandidateDecisionV1 \<Rightarrow> bool" where
  "evidences p d \<longleftrightarrow> ps_atom_id p = sd_atom_id d \<and> ps_canonical_size_bytes p = sd_canonical_size_bytes d \<and>
     (\<exists>payload. bd_payload (ps_body p) = SemanticPayload payload \<and> sp_source_ids payload = sd_source_ids d \<and>
       sp_score payload = sd_score d)"

abbreviation selected_decisions :: "SemanticCandidateDecisionV1 list \<Rightarrow> SemanticCandidateDecisionV1 list" where
  "selected_decisions ds \<equiv> filter (\<lambda>d. sd_disposition d = Selected) ds"

lemma expected_semantic_disposition_eq:
  assumes "unat bytes + unat n < 2 ^ 64"
  shows "expected_semantic_disposition n taken bytes budget poc_v1 =
    Inr (if 262144 < unat n then SkippedAtomHardLimit
         else if budget \<le> taken then SkippedCountBudget
         else if 8388608 < unat bytes + unat n then SkippedByteBudget else Selected, bytes + n)"
proof -
  have sum: "unat (bytes + n) = unat bytes + unat n" using assms by (intro unat_word_add_lt) simp
  have add: "checked_add bytes n = Some (bytes + n)" using assms by (simp add: checked_add_def)
  show ?thesis by (simp add: expected_semantic_disposition_def poc_v1_simps add word_less_nat_alt sum)
qed

lemma expected_semantic_disposition_Inr:
  "expected_semantic_disposition n taken bytes budget poc_v1 = Inr x \<Longrightarrow> unat bytes + unat n < 2 ^ 64"
  by (auto simp: expected_semantic_disposition_def bindr_Inr ok_or_Inr checked_add_def split: if_splits)

lemma replay_step:
  assumes "replay_disposition poc_v1 budget atoms (c, b, c) d = Inr st" "c < usize_max"
  shows "(sd_disposition d = Selected \<and> c < budget \<and> c < length atoms \<and> evidences (atoms ! c) d \<and>
      unat b + unat (sd_canonical_size_bytes d) \<le> 8388608 \<and> unat (b + sd_canonical_size_bytes d) = unat b + unat (sd_canonical_size_bytes d) \<and>
      st = (Suc c, b + sd_canonical_size_bytes d, Suc c)) \<or>
    (sd_disposition d \<noteq> Selected \<and> st = (c, b, c))"
proof -
  obtain x where x: "expected_semantic_disposition (sd_canonical_size_bytes d) c b budget poc_v1 = Inr x"
    using assms(1) by (auto simp: replay_disposition_def bindr_Inr)
  note lt = expected_semantic_disposition_Inr [OF x]
  have sum: "unat (b + sd_canonical_size_bytes d) = unat b + unat (sd_canonical_size_bytes d)"
    using lt by (intro unat_word_add_lt) simp
  have inc: "usize_saturating_add c 1 = Suc c" using assms(2) by (simp add: usize_saturating_add_def)
  show ?thesis
    using assms(1) sum inc
    by (auto simp: replay_disposition_def expected_semantic_disposition_eq [OF lt] bindr_Inr ok_or_Inr get_index_def evidences_def
        split: if_splits MemoryPayloadV1.splits)
qed

lemma replay_sound:
  assumes "try_fold (replay_disposition poc_v1 budget atoms) (c, b, c) ds = Inr (c', b', i')"
    and "budget \<le> 100" "c \<le> budget" "c \<le> length atoms" "unat b \<le> 8388608"
  shows "i' = c' \<and> c \<le> c' \<and> c' \<le> budget \<and> c' \<le> length atoms \<and> unat b' \<le> 8388608 \<and>
    list_all2 evidences (take (c' - c) (drop c atoms)) (selected_decisions ds) \<and>
    unat b' = unat b + sum_list (map (unat \<circ> sd_canonical_size_bytes) (selected_decisions ds))"
  using assms
proof (induction ds arbitrary: c b)
  case (Cons d ds)
  from Cons.prems(1) obtain st where st: "replay_disposition poc_v1 budget atoms (c, b, c) d = Inr st"
    "try_fold (replay_disposition poc_v1 budget atoms) st ds = Inr (c', b', i')" by (auto simp: bindr_Inr)
  have "c < usize_max" using Cons.prems(2,3) by (simp add: usize_max_def)
  from replay_step [OF st(1) this] show ?case
  proof (elim disjE conjE)
    assume d: "sd_disposition d = Selected" "c < budget" "c < length atoms" "evidences (atoms ! c) d"
      "unat b + unat (sd_canonical_size_bytes d) \<le> 8388608" "unat (b + sd_canonical_size_bytes d) = unat b + unat (sd_canonical_size_bytes d)"
      "st = (Suc c, b + sd_canonical_size_bytes d, Suc c)"
    have rest: "i' = c' \<and> Suc c \<le> c' \<and> c' \<le> budget \<and> c' \<le> length atoms \<and> unat b' \<le> 8388608 \<and>
        list_all2 evidences (take (c' - Suc c) (drop (Suc c) atoms)) (selected_decisions ds) \<and>
        unat b' = unat (b + sd_canonical_size_bytes d) + sum_list (map (unat \<circ> sd_canonical_size_bytes) (selected_decisions ds))"
      using Cons.prems d by (intro Cons.IH) (use st(2) in auto)
    then have "take (c' - c) (drop c atoms) = atoms ! c # take (c' - Suc c) (drop (Suc c) atoms)"
      using d(3) by (simp add: Cons_nth_drop_Suc [symmetric] take_Cons' Suc_diff_Suc [symmetric])
    then show ?thesis using rest d by (simp add: comp_def)
  next
    assume "sd_disposition d \<noteq> Selected" "st = (c, b, c)"
    then show ?thesis using Cons.IH [of c b] st(2) Cons.prems(2-5) by simp
  qed
qed simp

definition ranked_before :: "SemanticCandidateDecisionV1 \<Rightarrow> SemanticCandidateDecisionV1 \<Rightarrow> bool" where
  "ranked_before a b \<longleftrightarrow> cs_total (sd_score b) < cs_total (sd_score a) \<or>
     cs_total (sd_score a) = cs_total (sd_score b) \<and> sd_atom_id a < sd_atom_id b"

lemma ranked_before_order:
  "successively (\<lambda>a b. \<not> (cs_total (sd_score a) < cs_total (sd_score b)
      \<or> cs_total (sd_score a) = cs_total (sd_score b) \<and> sd_atom_id a \<ge> sd_atom_id b)) ds \<longleftrightarrow> sorted_wrt ranked_before ds"
proof -
  have "(\<lambda>a b. \<not> (cs_total (sd_score a) < cs_total (sd_score b)
      \<or> cs_total (sd_score a) = cs_total (sd_score b) \<and> sd_atom_id a \<ge> sd_atom_id b)) = ranked_before" (is "?f = _")
    by (auto simp: ranked_before_def fun_eq_iff not_less less_le)
  moreover have "transp ranked_before" by (auto simp: ranked_before_def transp_def)
  ultimately show ?thesis using successively_conv_sorted_wrt [of ranked_before ds] by metis
qed

lemma ensure_semantic_evidence_InrD:
  assumes "ensure_semantic_evidence sha ds atoms budget poc_v1 = Inr ()" "budget \<le> 100"
  shows "distinct (map ps_atom_id atoms)" "\<forall>p \<in> set atoms. planned_atom_wf sha p"
    "sorted_wrt ranked_before ds" "list_all2 evidences atoms (selected_decisions ds)"
    "length atoms \<le> budget" "sum_list (map planned_size atoms) \<le> 8388608"
    "\<forall>d \<in> set ds. 3 \<le> length (sd_source_ids d) \<and> sorted_wrt (<) (sd_source_ids d)"
proof -
  from assms(1) have parts: "ensure_semantic_atoms sha atoms poc_v1 = Inr ()"
    "\<exists>seen. try_fold (ensure_candidate_sources poc_v1) {||} ds = Inr seen"
    "sorted_wrt ranked_before ds" "\<exists>c b. try_fold (replay_disposition poc_v1 budget atoms) (0, 0, 0) ds = Inr (c, b, length atoms)"
    unfolding ensure_semantic_evidence_def ranked_before_order by (auto simp: bindr_Inr split: if_splits)
  then obtain c b where "try_fold (replay_disposition poc_v1 budget atoms) (0, 0, 0) ds = Inr (c, b, length atoms)" by blast
  from replay_sound [OF this assms(2)] have s: "c = length atoms" "c \<le> budget" "unat b \<le> 8388608"
    "list_all2 evidences (take c atoms) (selected_decisions ds)"
    "unat b = sum_list (map (unat \<circ> sd_canonical_size_bytes) (selected_decisions ds))" by auto
  note r = s(1) s(2) [unfolded s(1)] s(3) s(4) [unfolded s(1), simplified] s(5)
  have "map planned_size atoms = map (unat \<circ> sd_canonical_size_bytes) (selected_decisions ds)"
    using r(4) by (induction rule: list_all2_induct) (simp_all add: evidences_def)
  then show "sum_list (map planned_size atoms) \<le> 8388608" using r(3,5) by (simp add: comp_def)
  show "distinct (map ps_atom_id atoms)" "\<forall>p \<in> set atoms. planned_atom_wf sha p"
    using parts(1) by (simp_all add: ensure_semantic_atoms_Inr)
  show "\<forall>d \<in> set ds. 3 \<le> length (sd_source_ids d) \<and> sorted_wrt (<) (sd_source_ids d)"
    using parts(2) by (simp add: ensure_candidate_sources_Inr)
  show "sorted_wrt ranked_before ds" "list_all2 evidences atoms (selected_decisions ds)" "length atoms \<le> budget"
    using parts(3) r by simp_all
qed

lemma verify_budgets_Inr:
  "verify_budgets plan poc_v1 = Inr () \<longleftrightarrow>
     sorted_wrt (<) (pn_episodic_winners plan) \<and>
     set (pn_episodic_winners plan) = rd_atom_id ` {d \<in> set (pn_decisions plan). rd_exact_retained d} \<and>
     length (pn_episodic_winners plan) = pn_episodic_winner_budget plan \<and>
     pn_episodic_winner_budget plan = min (Ppm_ceil_count (po_episodic_rate poc_v1) (pn_episodic_population_count plan)) 25 \<and>
     pn_semantic_count_budget plan = min (Ppm_ceil_count (po_semantic_rate poc_v1) (length (pn_decisions plan))) 100 \<and>
     unat (pn_semantic_body_bytes plan) = sum_list (map planned_size (pn_semantic_atoms plan)) \<and>
     unat (pn_episodic_winner_bytes plan) \<le> 268435456"
proof -
  have sets: "fset_of_list ws = fset_of_list (map rd_atom_id (filter rd_exact_retained ds)) \<longleftrightarrow>
      set ws = rd_atom_id ` {d \<in> set ds. rd_exact_retained d}" for ws ds
    unfolding fset_inject [symmetric] fset_of_list.rep_eq by simp
  have total: "try_fold (\<lambda>sum a. ok_or e (checked_add sum (ps_canonical_size_bytes a))) 0 atoms = Inr b \<longleftrightarrow>
      unat b = sum_list (map planned_size atoms)" for e :: MemoryError and atoms and b :: u64
    using checked_sum_fold_Inr [of e ps_canonical_size_bytes 0 atoms b] unat_u64_bound [of b] by (auto simp: comp_def)
  show ?thesis
    unfolding verify_budgets_def Let_def sets
    by (auto simp: bindr_Inr total successively_less_iff sorted_wrt_less_iff poc_v1_simps word_le_nat_alt not_less
        word_less_nat_alt)
qed

lemma list_all2_zip_Inr:
  "length xs = length ys \<Longrightarrow> try_each f (zip xs ys) = Inr u \<longleftrightarrow> list_all2 (\<lambda>x y. f (x, y) = Inr ()) xs ys"
  by (auto simp: try_each_Inr list_all2_iff)

lemma verify_projected_post_state_Inr:
  "verify_projected_post_state sha plan policy = Inr () \<longleftrightarrow>
     pp_memory_space_id (pn_projected_post_state plan) = pn_memory_space_id plan \<and>
     list_all2 (source_post_state_ok policy) (pp_source_atoms (pn_projected_post_state plan)) (pn_decisions plan) \<and>
     list_all2 (\<lambda>a p. verify_semantic_post_state sha (a, p) = Inr ())
       (pp_semantic_atoms (pn_projected_post_state plan)) (pn_semantic_atoms plan)"
proof -
  have source: "verify_source_post_state policy (a, d) = Inr () \<longleftrightarrow> source_post_state_ok policy a d" for a d
    by (simp add: verify_source_post_state_def)
  show ?thesis
    by (auto simp: verify_projected_post_state_def Let_def bindr_Inr list_all2_zip_Inr source split: if_splits
        dest: list_all2_lengthD)
qed

text \<open>
  C17: what the structural check of a plan establishes, whoever produced the plan.  A plan that
  passes decides distinct atoms in ascending order; the winners are exactly the retained atoms and
  fill the lottery budget of the stated population; the semantic atoms are valid bodies under
  their own content address and size, are the selected candidates in order, and fit the count and
  byte budgets; every candidate has three or more distinct sources and the candidates are ranked;
  and the projected post-state agrees with the decisions and has the stated digest.
\<close>

theorem verify_plan_structure_sound:
  assumes "verify_plan_structure sha plan = Inr ()"
  shows "sorted_wrt (<) (map rd_atom_id (pn_decisions plan)) \<and>
    sorted_wrt (<) (pn_episodic_winners plan) \<and>
    set (pn_episodic_winners plan) = rd_atom_id ` {d \<in> set (pn_decisions plan). rd_exact_retained d} \<and>
    length (pn_episodic_winners plan) =
      min (Ppm_ceil_count (po_episodic_rate poc_v1) (pn_episodic_population_count plan)) 25 \<and>
    unat (pn_episodic_winner_bytes plan) \<le> 268435456 \<and>
    (\<forall>p \<in> set (pn_semantic_atoms plan). planned_atom_wf sha p) \<and>
    list_all2 evidences (pn_semantic_atoms plan) (selected_decisions (pn_semantic_decisions plan)) \<and>
    length (pn_semantic_atoms plan) \<le>
      min (Ppm_ceil_count (po_semantic_rate poc_v1) (length (pn_decisions plan))) 100 \<and>
    unat (pn_semantic_body_bytes plan) = sum_list (map planned_size (pn_semantic_atoms plan)) \<and>
    unat (pn_semantic_body_bytes plan) \<le> 8388608 \<and>
    sorted_wrt ranked_before (pn_semantic_decisions plan) \<and>
    (\<forall>d \<in> set (pn_semantic_decisions plan). 3 \<le> length (sd_source_ids d) \<and> sorted_wrt (<) (sd_source_ids d)) \<and>
    list_all2 (source_post_state_ok poc_v1) (pp_source_atoms (pn_projected_post_state plan)) (pn_decisions plan) \<and>
    post_state_digest sha (pn_projected_post_state plan) = Inr (pn_projected_state_digest plan)"
proof -
  from assms have parts: "verify_projected_post_state sha plan poc_v1 = Inr ()"
    "post_state_digest sha (pn_projected_post_state plan) = Inr (pn_projected_state_digest plan)"
    "ensure_sorted_unique_decisions (pn_decisions plan) = Inr ()"
    "ensure_semantic_evidence sha (pn_semantic_decisions plan) (pn_semantic_atoms plan) (pn_semantic_count_budget plan) poc_v1 = Inr ()"
    "verify_budgets plan poc_v1 = Inr ()"
    by (auto simp: verify_plan_structure_def Let_def bindr_Inr split: if_splits)
  note budgets = parts(5) [unfolded verify_budgets_Inr]
  have "pn_semantic_count_budget plan \<le> 100" using budgets by simp
  note evidence = ensure_semantic_evidence_InrD [OF parts(4) this]
  show ?thesis
    using parts(1-3) budgets evidence
    unfolding verify_projected_post_state_Inr ensure_sorted_unique_decisions_Inr by metis
qed

end
