(* ===== verification/ReceiptLaws.thy ===== *)
theory ReceiptLaws
  imports Receipt
begin

text \<open>
  The laws that connect planning, application and verification: the planner's plans pass the
  structural check, the receipt of an applied plan is accepted, and no other receipt is.
\<close>

section \<open>The post-state of a planned retirement passes\<close>

lemma planned_source_ok:
  assumes "candidate_wf sha snapshot c" "post_source_atom sha (c, decide_candidate w ids c) = Inr a"
    and "rc_atom_id c |\<in>| w \<Longrightarrow> exact_eligible c"
  shows "source_post_state_ok poc_v1 a (decide_candidate w ids c)"
proof -
  note fields = post_source_atom_fields [OF assms(1,2)]
  have wf: "rc_body c = Some (body_of c)" "body_kind (body_of c) = Episode" "rc_body_digest c = atom_digest (rc_atom_id c)"
    by (rule candidate_wfD(1,5,6) [OF assms(1)])+
  have "sc_session_id (bd_scope (body_of c)) \<noteq> ''''"
    using candidate_wfD(2) [OF assms(1)] by (simp add: atom_body_wf_def scope_wf_def)
  moreover have "0 < unat (pa_header_body_bytes a)" by (simp add: fields v_body_def)
  then have "pa_header_body_bytes a \<noteq> 0" by auto
  moreover have "\<not> pa_header_body_bytes a > po_atom_hard_max_bytes poc_v1"
    using wf_body_size [OF assms(1)] by (simp add: word_less_nat_alt fields poc_v1_simps)
  moreover have "rc_atom_id c |\<in>| w \<longrightarrow> bd_retention_permission (body_of c) = SemanticAndExactAllowed"
    using assms(3) by (auto simp: exact_eligible_def wf)
  moreover have "rd_atom_id (decide_candidate w ids c) = rc_atom_id c"
    "rd_exact_retained (decide_candidate w ids c) = (rc_atom_id c |\<in>| w)"
    "rd_forget_episode_body (decide_candidate w ids c) = (rc_atom_id c |\<notin>| w)"
    by (simp_all add: decide_candidate_def Let_def wf)
  ultimately show ?thesis
    unfolding source_post_state_ok_def Let_def using fields wf by simp
qed

lemma planned_semantic_ok: "post_semantic_atom sha p = Inr a \<Longrightarrow> verify_semantic_post_state sha (a, p) = Inr ()"
  by (auto simp: post_semantic_atom_def Let_def bindr_Inr verify_semantic_post_state_def)

section \<open>The evidence of a planned retirement passes\<close>

definition scored_evidence :: "scored \<Rightarrow> bool" where
  "scored_evidence x \<longleftrightarrow> unat (ps_canonical_size_bytes (snd x)) \<le> 262144 \<and>
     (\<exists>p. bd_payload (ps_body (snd x)) = SemanticPayload p \<and> sp_score p = fst x)"

lemma semantic_decision_evidence: "scored_evidence x \<Longrightarrow> evidences (snd x) (semantic_decision x d)"
  by (auto simp: scored_evidence_def evidences_def semantic_decision_def source_ids_of_def)

lemma replay_one:
  assumes "unat b + unat (sd_canonical_size_bytes d) < 2 ^ 64" "unat (sd_canonical_size_bytes d) \<le> 262144"
    and "sd_disposition d = (if budget \<le> c then SkippedCountBudget
      else if 8388608 < unat b + unat (sd_canonical_size_bytes d) then SkippedByteBudget else Selected)"
    and "sd_disposition d = Selected \<Longrightarrow> c < length atoms \<and> evidences (atoms ! c) d" "c < usize_max"
  shows "replay_disposition poc_v1 budget atoms (c, b, c) d =
    Inr (if sd_disposition d = Selected then (Suc c, b + sd_canonical_size_bytes d, Suc c) else (c, b, c))"
proof (cases "sd_disposition d = Selected")
  case True
  from assms(4) [OF True] obtain p where p: "c < length atoms" "ps_atom_id (atoms ! c) = sd_atom_id d"
    "ps_canonical_size_bytes (atoms ! c) = sd_canonical_size_bytes d" "bd_payload (ps_body (atoms ! c)) = SemanticPayload p"
    "sp_source_ids p = sd_source_ids d" "sp_score p = sd_score d" by (auto simp: evidences_def)
  show ?thesis
    using True assms(2,3,5) p
    by (simp add: replay_disposition_def expected_semantic_disposition_eq [OF assms(1)] get_index_def
        usize_saturating_add_def split: if_splits)
next
  case False
  then show ?thesis
    using assms(2,3) by (auto simp: replay_disposition_def expected_semantic_disposition_eq [OF assms(1)])
qed

lemma replay_complete:
  assumes "\<forall>x \<in> set xs. scored_evidence x" "unat b \<le> 8388608" "length pre \<le> 100" "budget \<le> 100"
  defines "ds \<equiv> dispositions budget (length pre) (unat b) (map (planned_size \<circ> snd) xs)"
  shows "\<exists>b'. try_fold (replay_disposition poc_v1 budget (pre @ selected_of (map snd xs) ds)) (length pre, b, length pre)
      (map2 semantic_decision xs ds) =
    Inr (length pre + length (selected_of (map snd xs) ds), b', length pre + length (selected_of (map snd xs) ds))"
  using assms(1-3) unfolding ds_def
proof (induction xs arbitrary: b pre)
  case (Cons x xs)
  let ?size = "ps_canonical_size_bytes (snd x)"
  define d where "d = (if budget \<le> length pre then SkippedCountBudget
     else if 8388608 < unat b + unat ?size then SkippedByteBudget else Selected)"
  define b1 where "b1 = (if d = Selected then b + ?size else b)"
  define pre1 where "pre1 = (if d = Selected then pre @ [snd x] else pre)"
  let ?rest = "dispositions budget (length pre1) (unat b1) (map (planned_size \<circ> snd) xs)"
  let ?atoms = "pre1 @ selected_of (map snd xs) ?rest"
  have x: "scored_evidence x" and fit: "unat ?size \<le> 262144" using Cons.prems(1) by (simp_all add: scored_evidence_def)
  have lt: "unat b + unat ?size < 2 ^ 64" using fit Cons.prems(2) by simp
  then have sum: "unat (b + ?size) = unat b + unat ?size" by (intro unat_word_add_lt) simp
  have b1: "unat b1 \<le> 8388608" using Cons.prems(2) by (auto simp: b1_def d_def sum)
  have ds: "dispositions budget (length pre) (unat b) (map (planned_size \<circ> snd) (x # xs)) = d # ?rest"
    by (simp add: d_def b1_def pre1_def sum)
  have atoms: "pre @ selected_of (map snd (x # xs)) (d # ?rest) = ?atoms" by (simp add: pre1_def)
  have "length pre1 \<le> 100" using Cons.prems(3) assms(4) by (auto simp: pre1_def d_def split: if_splits)
  note IH = Cons.IH [OF _ b1 this]
  have "\<forall>x \<in> set xs. scored_evidence x" using Cons.prems(1) by simp
  from IH [OF this] obtain b' where
    b': "try_fold (replay_disposition poc_v1 budget ?atoms) (length pre1, b1, length pre1) (map2 semantic_decision xs ?rest) =
      Inr (length ?atoms, b', length ?atoms)" unfolding length_append by blast
  have "replay_disposition poc_v1 budget ?atoms (length pre, b, length pre) (semantic_decision x d) =
      Inr (if sd_disposition (semantic_decision x d) = Selected
        then (Suc (length pre), b + sd_canonical_size_bytes (semantic_decision x d), Suc (length pre)) else (length pre, b, length pre))"
    using lt fit semantic_decision_evidence [OF x] Cons.prems(3)
    by (intro replay_one) (simp_all add: semantic_decision_def d_def pre1_def nth_append usize_max_def split: if_splits)
  then have "replay_disposition poc_v1 budget ?atoms (length pre, b, length pre) (semantic_decision x d) =
      Inr (length pre1, b1, length pre1)" by (simp add: semantic_decision_def pre1_def b1_def)
  then have "try_fold (replay_disposition poc_v1 budget ?atoms) (length pre, b, length pre)
      (map2 semantic_decision (x # xs) (d # ?rest)) = Inr (length ?atoms, b', length ?atoms)" using b' by simp
  moreover have "length pre + length (selected_of (map snd (x # xs)) (d # ?rest)) = length ?atoms"
    using arg_cong [OF atoms, of length] by simp
  ultimately show ?case unfolding ds atoms by auto
qed simp

lemma planned_evidence:
  assumes "oversized sha snapshot cs = None" "x \<in> set (cohort_scored sha snapshot cs)"
  shows "scored_evidence x"
proof -
  obtain c where x: "x = planned sha snapshot cs c" using cohort_scored_ok(3) [OF assms] by blast
  have "unat (ps_canonical_size_bytes (snd x)) \<le> 262144" using cohort_scored_ok(1) [OF assms] by (simp add: scored_ok_def)
  moreover have "\<exists>p. bd_payload (ps_body (snd x)) = SemanticPayload p \<and> sp_score p = fst x"
    by (simp add: x planned_def cluster_body_def semantic_body_of_def Let_def)
  ultimately show ?thesis by (simp add: scored_evidence_def)
qed

lemma cohort_scored_ranked:
  assumes "distinct (map (ps_atom_id \<circ> snd) xs)" "sorted (map scored_key xs)" "length ds = length xs"
  shows "sorted_wrt ranked_before (map2 semantic_decision xs ds)"
proof -
  have ppm: "p < q \<longleftrightarrow> uint (ppm_get p) < uint (ppm_get q)" "p = q \<longleftrightarrow> uint (ppm_get p) = uint (ppm_get q)" for p q
    by (simp add: less_Ppm_def word_less_def) (cases p; cases q; simp add: word_uint_eq_iff)
  have "ranked_before (map2 semantic_decision xs ds ! i) (map2 semantic_decision xs ds ! j)"
    if "i < j" "j < length xs" for i j
  proof -
    have "scored_key (xs ! i) \<le> scored_key (xs ! j)" using sorted_nth_mono [OF assms(2), of i j] that by simp
    moreover have "ps_atom_id (snd (xs ! i)) \<noteq> ps_atom_id (snd (xs ! j))"
      using nth_eq_iff_index_eq [OF assms(1), of i j] that by simp
    ultimately show ?thesis
      using that assms(3) by (auto simp: ranked_before_def semantic_decision_def scored_key_def ppm(1) ppm(2) [of "cs_total _"])
  qed
  then show ?thesis using assms(3) by (simp add: sorted_wrt_iff_nth_less)
qed

lemma selected_of_map: "map f (selected_of xs ds) = selected_of (map f xs) ds"
  by (induction xs ds rule: selected_of.induct) simp_all

lemma selected_of_distinct: "distinct xs \<Longrightarrow> distinct (selected_of xs ds)"
  using distinct_submset [OF mset_selected_of] .

lemma planned_evidence_verified:
  assumes "sorted_cohort sha snapshot cs" "oversized sha snapshot cs = None"
  defines "sel \<equiv> select_of cs (cohort_scored sha snapshot cs)"
  shows "ensure_semantic_evidence sha (sl_decisions sel) (sl_atoms sel) (semantic_budget cs) poc_v1 = Inr () \<longleftrightarrow>
    distinct (map sd_atom_id (sl_decisions sel))"
proof
  assume "ensure_semantic_evidence sha (sl_decisions sel) (sl_atoms sel) (semantic_budget cs) poc_v1 = Inr ()"
  then have "\<exists>seen. try_fold (ensure_candidate_sources poc_v1) {||} (sl_decisions sel) = Inr seen"
    by (auto simp: ensure_semantic_evidence_def bindr_Inr)
  then show "distinct (map sd_atom_id (sl_decisions sel))" unfolding ensure_candidate_sources_Inr by (rule conjunct1)
next
  assume distinct: "distinct (map sd_atom_id (sl_decisions sel))"
  let ?xs = "cohort_scored sha snapshot cs"
  let ?ds = "dispositions (semantic_budget cs) 0 0 (map (planned_size \<circ> snd) ?xs)"
  have sel: "sl_atoms sel = selected_of (map snd ?xs) ?ds" "sl_decisions sel = map2 semantic_decision ?xs ?ds"
    unfolding sel_def by (rule select_of_spec(2,3) [OF assms(2)])+
  have ids: "map sd_atom_id (sl_decisions sel) = map (ps_atom_id \<circ> snd) ?xs"
    using map2_semantic_decision [of ?xs ?ds] by (simp add: sel(2))
  have "map ps_atom_id (sl_atoms sel) = selected_of (map (ps_atom_id \<circ> snd) ?xs) ?ds"
    unfolding sel(1) selected_of_map by simp
  then have atom_ids: "distinct (map ps_atom_id (sl_atoms sel))"
    using distinct ids selected_of_distinct by metis
  have atoms: "\<forall>p \<in> set (sl_atoms sel). planned_atom_wf sha p"
  proof
    fix p assume p: "p \<in> set (sl_atoms sel)"
    note laws = selected_atom_laws [OF assms(1,2) p [unfolded sel_def]]
    have "unat (ps_canonical_size_bytes p) = vsize (v_body (ps_body p))" by (rule laws(4))
    then show "planned_atom_wf sha p" using laws(1-3) unat_u64_bound [of "ps_canonical_size_bytes p"]
      by (simp add: planned_atom_wf_def encoded_size_bytes_iff)
  qed
  have sources: "3 \<le> length (sd_source_ids d) \<and> sorted_wrt (<) (sd_source_ids d)" if "d \<in> set (sl_decisions sel)" for d
  proof -
    obtain x e where x: "x \<in> set ?xs" "d = semantic_decision x e"
      using \<open>d \<in> set (sl_decisions sel)\<close> by (auto simp: sel(2) dest: set_zip_leftD)
    obtain c where c: "c \<in> set (cohort_clusters cs)" "qualifies cs c" "x = planned sha snapshot cs c"
      using cohort_scored_ok(3) [OF assms(2) x(1)] by blast
    have "sd_source_ids d = cluster_ids cs c" by (simp add: x(2) semantic_decision_def c(3) planned_sources)
    then show ?thesis
      using c(2) cluster_ids_sorted [OF assms(1) cohort_clusters_ok [OF c(1)]] by (simp add: qualifies_def cluster_ids_def)
  qed
  have "sorted (map scored_key ?xs)" by (simp add: cohort_scored_def)
  then have ranked: "sorted_wrt ranked_before (sl_decisions sel)"
    unfolding sel(2) using distinct [unfolded ids] by (intro cohort_scored_ranked) simp_all
  have "\<forall>x \<in> set ?xs. scored_evidence x" using planned_evidence [OF assms(2)] by blast
  from replay_complete [OF this, of 0 "[]" "semantic_budget cs"] obtain b where
    "try_fold (replay_disposition poc_v1 (semantic_budget cs) (sl_atoms sel)) (0, 0, 0) (sl_decisions sel) =
      Inr (length (sl_atoms sel), b, length (sl_atoms sel))" by (auto simp: sel semantic_budget_def)
  then show "ensure_semantic_evidence sha (sl_decisions sel) (sl_atoms sel) (semantic_budget cs) poc_v1 = Inr ()"
    using atom_ids atoms distinct sources ranked ensure_candidate_sources_Inr [of "sl_decisions sel"]
    unfolding ensure_semantic_evidence_def ranked_before_order
    by (auto simp: ensure_semantic_atoms_Inr [THEN iffD2])
qed

section \<open>The planner's plans pass\<close>

lemma decide_candidate_fields [simp]:
  "rd_atom_id (decide_candidate w ids c) = rc_atom_id c" "rd_exact_retained (decide_candidate w ids c) = (rc_atom_id c |\<in>| w)"
  by (simp_all add: decide_candidate_def Let_def)

lemma retained_ids:
  "rd_atom_id ` {d \<in> set (decisions_of w atoms cs). rd_exact_retained d} = {a \<in> rc_atom_id ` set cs. a |\<in>| w}"
  unfolding decisions_of_def by force

lemma planned_budgets_verified:
  assumes "sorted_cohort sha snapshot cs" "oversized sha snapshot cs = None"
    and "length ks = winner_budget (positions_where exact_eligible cs)" "offsets_ok (length (positions_where exact_eligible cs)) ks"
    and "package_total (drawn_winners cs ks) \<le> 268435456"
  shows "verify_budgets (plan_for sha snapshot seed cs (drawn_winners cs ks)) poc_v1 = Inr ()"
proof -
  let ?pop = "positions_where exact_eligible cs" and ?w = "drawn_winners cs ks"
  let ?sel = "select_of cs (cohort_scored sha snapshot cs)"
  note drawn = drawn_winners_eq [OF assms(4)]
  have sorted: "sorted_wrt (<) (map rc_atom_id cs)" by (rule sorted_cohortD(2) [OF assms(1)])
  then have "distinct (map rc_atom_id ?w)" using drawn(4) by (simp add: sorted_wrt_less_iff)
  then have winners: "sorted_wrt (<) (sort (map rc_atom_id ?w))" by (simp add: sorted_wrt_less_iff)
  have len: "length cs < 2 ^ 64" "length ?pop < 2 ^ 64"
    using sorted_cohortD(4) [OF assms(1)] positions_ok_length [OF positions_where_ok, of exact_eligible cs] by simp_all
  have retained: "rc_atom_id ` set ?w = rd_atom_id ` {d \<in> set (decisions_of (fset_of_list (sort (map rc_atom_id ?w))) (sl_atoms ?sel) cs). rd_exact_retained d}"
    unfolding retained_ids using drawn(2) by (auto simp: fset_of_list.rep_eq)
  have bytes: "unat (of_nat (package_total ?w) :: u64) \<le> 268435456"
    using assms(5) by (simp add: unat_of_nat_u64)
  have ceil: "min (Ppm_ceil_count (po_semantic_rate poc_v1) (length cs)) 100 = semantic_budget cs"
    "min (Ppm_ceil_count (po_episodic_rate poc_v1) (length ?pop)) 25 = winner_budget ?pop"
    using semantic_budget_eq [OF len(1)] winner_budget_eq [OF len(2)] by simp_all
  have "unat (sl_body_bytes ?sel) = sum_list (map planned_size (sl_atoms ?sel))" by (rule select_of_spec(4) [OF assms(2)])
  then show ?thesis
    unfolding verify_budgets_Inr using winners retained bytes ceil drawn(3) assms(3)
    by (simp add: plan_for_def Let_def decisions_of_def)
qed

lemma planned_plan_structure:
  assumes "plan_retirement sha chacha snapshot policy seed = Some (Inr plan)"
  shows "verify_plan_structure sha plan = Inr () \<longleftrightarrow> distinct (map sd_atom_id (pn_semantic_decisions plan))"
proof -
  obtain cs ks where r: "sorted_cohort sha snapshot cs" "oversized sha snapshot cs = None"
    "length ks = winner_budget (positions_where exact_eligible cs)" "offsets_ok (length (positions_where exact_eligible cs)) ks"
    "plan = plan_for sha snapshot seed cs (drawn_winners cs ks)" "package_total (drawn_winners cs ks) \<le> 268435456"
    using plan_retirement_InrD [OF assms] by metis
  let ?sel = "select_of cs (cohort_scored sha snapshot cs)" and ?w = "fset_of_list (sort (map rc_atom_id (drawn_winners cs ks)))"
  obtain digest where digest: "policy_digest sha poc_v1 = Inr digest" using policy_digest_poc by blast
  have small: "\<forall>p \<in> set (sl_atoms ?sel). vsize (v_body (ps_body p)) \<le> 262144" using selected_atoms_ok(2) [OF r(2)] by blast
  have len: "length (sl_atoms ?sel) \<le> 100" using select_of_spec(6) [OF r(2)] by (simp add: semantic_budget_def)
  obtain s d where s: "projected_post_state sha (sn_memory_space_id snapshot) cs (decisions_of ?w (sl_atoms ?sel) cs) (sl_atoms ?sel) = Inr s"
    "post_state_digest sha s = Inr d"
    "list_all2 (\<lambda>c a. post_source_atom sha (c, decide_candidate ?w (consolidated_into (sl_atoms ?sel) (rc_atom_id c)) c) = Inr a) cs (pp_source_atoms s)"
    "list_all2 (\<lambda>p a. post_semantic_atom sha p = Inr a) (sl_atoms ?sel) (pp_semantic_atoms s)"
    using projected_post_state_total [OF r(1) small len, of ?w] by blast
  have plan: "pn_contract_version plan = ''retirement-plan-v1''" "pn_policy_id plan = ''poc-v1''" "pn_policy_digest plan = digest"
    "pn_rng_identifier plan = ''chacha20-rand_chacha-0.3/partial-fisher-yates-v1''" "pn_memory_space_id plan = sn_memory_space_id snapshot"
    "pn_projected_post_state plan = s" "pn_projected_state_digest plan = d" "pn_decisions plan = decisions_of ?w (sl_atoms ?sel) cs"
    "pn_semantic_atoms plan = sl_atoms ?sel" "pn_semantic_decisions plan = sl_decisions ?sel" "pn_semantic_count_budget plan = semantic_budget cs"
    using s(1,2) digest by (simp_all add: r(5) plan_for_def Let_def)
  have eligible: "rc_atom_id c |\<in>| ?w \<Longrightarrow> exact_eligible c" if "c \<in> set cs" for c
    using drawn_winners_eq(2) [OF r(4)] sorted_cohortD(2) [OF r(1)] that
    by (auto simp: fset_of_list.rep_eq sorted_wrt_less_iff distinct_map dest: inj_onD)
  have "list_all2 (\<lambda>c a. source_post_state_ok poc_v1 a (decide_candidate ?w (consolidated_into (sl_atoms ?sel) (rc_atom_id c)) c)) cs (pp_source_atoms s)"
    using s(3) by (rule list.rel_mono_strong) (rule planned_source_ok [OF sorted_cohortD(1) [OF r(1)] _ eligible])
  then have "list_all2 (source_post_state_ok poc_v1) (pp_source_atoms s) (decisions_of ?w (sl_atoms ?sel) cs)"
    by (simp add: list_all2_conv_all_nth decisions_of_def)
  moreover have "list_all2 (\<lambda>p a. verify_semantic_post_state sha (a, p) = Inr ()) (sl_atoms ?sel) (pp_semantic_atoms s)"
    using s(4) by (rule list.rel_mono_strong) (rule planned_semantic_ok)
  then have "list_all2 (\<lambda>a p. verify_semantic_post_state sha (a, p) = Inr ()) (pp_semantic_atoms s) (sl_atoms ?sel)"
    by (simp add: list_all2_conv_all_nth)
  moreover have "pp_memory_space_id s = sn_memory_space_id snapshot" using s(1) by (auto simp: projected_post_state_def bindr_Inr)
  ultimately have post: "verify_projected_post_state sha plan poc_v1 = Inr ()"
    unfolding verify_projected_post_state_Inr plan by blast
  have decisions: "ensure_sorted_unique_decisions (pn_decisions plan) = Inr ()"
    unfolding ensure_sorted_unique_decisions_Inr plan decisions_of_ids by (rule sorted_cohortD(2) [OF r(1)])
  have budgets: "verify_budgets plan poc_v1 = Inr ()" unfolding r(5) by (rule planned_budgets_verified) (rule r)+
  have "verify_plan_structure sha plan = Inr () \<longleftrightarrow>
      ensure_semantic_evidence sha (sl_decisions ?sel) (sl_atoms ?sel) (semantic_budget cs) poc_v1 = Inr ()"
    unfolding verify_plan_structure_def plan(1-4) Let_def digest bindr_simps post decisions [unfolded plan] budgets plan(6-11) s(2)
    by (cases "ensure_semantic_evidence sha (sl_decisions ?sel) (sl_atoms ?sel) (semantic_budget cs) poc_v1") (simp_all add: digest)
  then show ?thesis unfolding planned_evidence_verified [OF r(1,2)] plan(10) .
qed

section \<open>Every digest of a planned retirement is computed\<close>

lemma vsize_score_le: "vsize (v_score s) \<le> 1000"
  by (simp add: v_score_def)

lemma vsize_disposition_le: "vsize (v_disposition d) \<le> 100"
  by (cases d) simp_all

lemma vsize_semantic_decision_le: "vsize (v_semantic_decision d) \<le> 2000 + 81 * length (sd_source_ids d)"
  using add_mono [OF vsize_score_le [of "sd_score d"] vsize_disposition_le [of "sd_disposition d"]]
  by (simp add: v_semantic_decision_def sum_list_triv)

lemma vsize_decision_le:
  "vsize (v_decision d) \<le> 1000 + 81 * length (rd_semantic_atom_ids d) + 81 * length (rd_exact_artifact_digests d)"
  by (simp add: v_decision_def sum_list_triv)

lemma vsize_planned_le: "vsize (v_planned_semantic p) \<le> 1000 + vsize (v_body (ps_body p))"
  by (simp add: v_planned_semantic_def)

lemma qualified_clusters_le:
  "length (filter (qualifies cs) (cohort_clusters cs)) \<le> length cs"
proof -
  have "length (filter (qualifies cs) clusters) \<le> length (concat clusters)" for clusters
    by (induction clusters) (auto simp: qualifies_def)
  then have "length (filter (qualifies cs) (cohort_clusters cs)) \<le> length (concat (cohort_clusters cs))" .
  also have "\<dots> = length (positions_where semantic_eligible cs)"
    using cohort_clusters_clustering [of cs] unfolding clustering_def by (metis size_mset)
  also have "\<dots> \<le> length cs" by (rule positions_ok_length [OF positions_where_ok])
  finally show ?thesis .
qed

lemma vsize_plan:
  assumes "pn_contract_version p = ''retirement-plan-v1''" "pn_policy_id p = ''poc-v1''"
    "pn_rng_identifier p = ''chacha20-rand_chacha-0.3/partial-fisher-yates-v1''"
    and "length (pn_memory_space_id p) \<le> 262144"
    and "vsize (v_vec v_semantic_decision (pn_semantic_decisions p)) \<le> 100000 * 10000000 + 9"
    and "vsize (v_vec v_planned_semantic (pn_semantic_atoms p)) \<le> 100 * 300000 + 9"
    and "vsize (v_vec v_atom_id (pn_episodic_winners p)) \<le> 25 * 81 + 9"
    and "vsize (v_vec v_decision (pn_decisions p)) \<le> 100000 * 22000000 + 9"
    and "vsize (v_post_state (pn_projected_post_state p)) \<le> 2 ^ 60"
  shows "vsize (v_plan p) < 2 ^ 64"
  using assms(4-9) unfolding v_plan_def assms(1-3) by (simp del: vsize_vec)

lemma plan_for_size:
  fixes seed
  assumes "sorted_cohort sha snapshot cs" "oversized sha snapshot cs = None"
    and "length ks = winner_budget (positions_where exact_eligible cs)" "offsets_ok (length (positions_where exact_eligible cs)) ks"
  defines "plan \<equiv> plan_for sha snapshot seed cs (drawn_winners cs ks)"
  shows "vsize (v_plan plan) < 2 ^ 64" "vsize (v_vec v_decision (pn_decisions plan)) < 2 ^ 60"
    "length (pn_decisions plan) \<le> 100000" "length (pn_semantic_atoms plan) \<le> 100" "length (pn_episodic_winners plan) \<le> 25"
    "length (pn_memory_space_id plan) \<le> 262144" "pn_policy_id plan = ''poc-v1''"
    "pn_rng_identifier plan = ''chacha20-rand_chacha-0.3/partial-fisher-yates-v1''"
    "\<forall>d \<in> set (pn_decisions plan). length (rd_exact_artifact_digests d) \<le> 262144"
    "distinct (map rd_atom_id (pn_decisions plan))"
proof -
  let ?sel = "select_of cs (cohort_scored sha snapshot cs)" and ?w = "fset_of_list (sort (map rc_atom_id (drawn_winners cs ks)))"
  let ?ds = "dispositions (semantic_budget cs) 0 0 (map (planned_size \<circ> snd) (cohort_scored sha snapshot cs))"
  have cs: "length cs \<le> 100000" by (rule sorted_cohortD(4) [OF assms(1)])
  have small: "\<forall>p \<in> set (sl_atoms ?sel). vsize (v_body (ps_body p)) \<le> 262144" using selected_atoms_ok(2) [OF assms(2)] by blast
  have len: "length (sl_atoms ?sel) \<le> 100" using select_of_spec(6) [OF assms(2)] by (simp add: semantic_budget_def)
  obtain s d where s: "projected_post_state sha (sn_memory_space_id snapshot) cs (decisions_of ?w (sl_atoms ?sel) cs) (sl_atoms ?sel) = Inr s"
    "list_all2 (\<lambda>c a. post_source_atom sha (c, decide_candidate ?w (consolidated_into (sl_atoms ?sel) (rc_atom_id c)) c) = Inr a) cs (pp_source_atoms s)"
    "list_all2 (\<lambda>p a. post_semantic_atom sha p = Inr a) (sl_atoms ?sel) (pp_semantic_atoms s)"
    using projected_post_state_total [OF assms(1) small len, of ?w] by blast
  have plan: "pn_decisions plan = decisions_of ?w (sl_atoms ?sel) cs" "pn_semantic_atoms plan = sl_atoms ?sel"
    "pn_semantic_decisions plan = map2 semantic_decision (cohort_scored sha snapshot cs) ?ds"
    "pn_episodic_winners plan = sort (map rc_atom_id (drawn_winners cs ks))" "pn_projected_post_state plan = s"
    "pn_memory_space_id plan = sn_memory_space_id snapshot"
    using s(1) by (simp_all add: plan_def plan_for_def Let_def select_of_spec(3) [OF assms(2)])
  have "pp_memory_space_id s = sn_memory_space_id snapshot" using s(1) by (auto simp: projected_post_state_def bindr_Inr)
  note post = post_state_size [OF assms(1) small len this s(2,3)]
  have digests: "length (rd_exact_artifact_digests d) \<le> 262144 \<and> length (rd_semantic_atom_ids d) \<le> 100" if d: "d \<in> set (pn_decisions plan)" for d
  proof -
    obtain c where c: "c \<in> set cs" "rd_semantic_atom_ids d = sort (consolidated_into (sl_atoms ?sel) (rc_atom_id c))"
      "rd_exact_artifact_digests d = (if rc_atom_id c |\<in>| ?w then retained_artifact_digests (body_of c) else [])"
      using decisions_of_member [OF assms(1) d [unfolded plan]] by blast
    have "length (retained_artifact_digests (body_of c)) \<le> 262144"
      using retained_artifact_digests_le [of "body_of c"] wf_body_size [OF sorted_cohortD(1) [OF assms(1) c(1)]] by simp
    moreover have "length (consolidated_into (sl_atoms ?sel) (rc_atom_id c)) \<le> length (sl_atoms ?sel)"
      unfolding consolidated_into_def by simp
    ultimately show ?thesis using c len by simp
  qed
  then show "\<forall>d \<in> set (pn_decisions plan). length (rd_exact_artifact_digests d) \<le> 262144" by blast
  show n: "length (pn_decisions plan) \<le> 100000" using cs by (simp add: plan decisions_of_def)
  show "distinct (map rd_atom_id (pn_decisions plan))"
    using sorted_cohortD(2) [OF assms(1)] by (simp add: plan decisions_of_ids sorted_wrt_less_iff)
  show "length (pn_semantic_atoms plan) \<le> 100" by (simp add: plan len)
  show w: "length (pn_episodic_winners plan) \<le> 25"
    using drawn_winners_eq(3) [OF assms(4)] assms(3) by (simp add: plan winner_budget_def)
  show m: "length (pn_memory_space_id plan) \<le> 262144" using memory_space_small [OF assms(1)] by (simp add: plan)
  show strings: "pn_policy_id plan = ''poc-v1''" "pn_rng_identifier plan = ''chacha20-rand_chacha-0.3/partial-fisher-yates-v1''"
    by (simp_all add: plan_def plan_for_def Let_def)
  have "8 + vsize (v_decision d) \<le> 22000000" if "d \<in> set (pn_decisions plan)" for d
    using vsize_decision_le [of d] digests [OF that] by simp
  then have "sum_list (map (\<lambda>d. 8 + vsize (v_decision d)) (pn_decisions plan)) \<le> length (pn_decisions plan) * 22000000"
    by (rule sum_list_map_le)
  then have decisions: "vsize (v_vec v_decision (pn_decisions plan)) \<le> 100000 * 22000000 + 9" using n by simp
  then show "vsize (v_vec v_decision (pn_decisions plan)) < 2 ^ 60" by simp
  have "8 + vsize (v_planned_semantic p) \<le> 300000" if "p \<in> set (pn_semantic_atoms plan)" for p
  proof -
    have "vsize (v_body (ps_body p)) \<le> 262144" using small that unfolding plan(2) by blast
    then show ?thesis using vsize_planned_le [of p] by linarith
  qed
  then have "sum_list (map (\<lambda>p. 8 + vsize (v_planned_semantic p)) (pn_semantic_atoms plan)) \<le> length (pn_semantic_atoms plan) * 300000"
    by (rule sum_list_map_le)
  then have atoms: "vsize (v_vec v_planned_semantic (pn_semantic_atoms plan)) \<le> 100 * 300000 + 9" using len by (simp add: plan)
  have "8 + vsize (v_semantic_decision d) \<le> 10000000" if d: "d \<in> set (pn_semantic_decisions plan)" for d
  proof -
    obtain x e where x: "x \<in> set (cohort_scored sha snapshot cs)" "d = semantic_decision x e"
      using d by (auto simp: plan dest: set_zip_leftD)
    obtain c where c: "c \<in> set (cohort_clusters cs)" "x = planned sha snapshot cs c"
      using cohort_scored_ok(3) [OF assms(2) x(1)] by blast
    have "sd_source_ids d = cluster_ids cs c" by (simp add: x(2) semantic_decision_def c(2) planned_sources)
    then have "length (sd_source_ids d) \<le> 100000"
      using positions_ok_length [OF cohort_clusters_ok [OF c(1)]] cs by (simp add: cluster_ids_def)
    then show ?thesis using vsize_semantic_decision_le [of d] by simp
  qed
  then have "sum_list (map (\<lambda>d. 8 + vsize (v_semantic_decision d)) (pn_semantic_decisions plan)) \<le>
      length (pn_semantic_decisions plan) * 10000000" by (rule sum_list_map_le)
  moreover have "length (pn_semantic_decisions plan) \<le> 100000"
    using qualified_clusters_le [of cs] cs by (simp add: plan cohort_scored_def)
  ultimately have candidates: "vsize (v_vec v_semantic_decision (pn_semantic_decisions plan)) \<le> 100000 * 10000000 + 9" by simp
  have winners: "vsize (v_vec v_atom_id (pn_episodic_winners plan)) \<le> 25 * 81 + 9" using w by (simp add: sum_list_triv)
  have "pn_contract_version plan = ''retirement-plan-v1''" by (simp add: plan_def plan_for_def Let_def)
  then show "vsize (v_plan plan) < 2 ^ 64"
    using strings m candidates atoms winners decisions post unfolding plan(5) [symmetric] by (rule vsize_plan)
qed

lemma sorted_list_of_fmap_of_list_le: "length (sorted_list_of_fmap (fmap_of_list xs)) \<le> length xs"
proof -
  have "length (sorted_list_of_fmap (fmap_of_list xs)) = fcard (fmdom (fmap_of_list xs))"
    by (metis length_map sorted_list_of_fmap_fst sorted_list_of_fset_length)
  also have "\<dots> = card (set (map fst xs))" by (simp add: fcard.rep_eq fset_of_list.rep_eq)
  also have "\<dots> \<le> length xs" using card_length [of "map fst xs"] by simp
  finally show ?thesis .
qed

lemma vsize_closure_le:
  assumes "length (pn_decisions p) \<le> 100000" "length (pn_semantic_atoms p) \<le> 100" "length (pn_episodic_winners p) \<le> 25"
    and "\<forall>d \<in> set (pn_decisions p). length (rd_exact_artifact_digests d) \<le> 262144"
  shows "vsize (v_closure (closure_from_plan p)) \<le> 2 ^ 60"
proof -
  let ?pairs = "rev (map (\<lambda>d. (rd_atom_id d, rd_exact_artifact_digests d)) (filter rd_exact_retained (pn_decisions p)))"
  let ?m = "fmap_of_list ?pairs"
  have "16 + length (fst kv) + vsize (snd kv) \<le> 22000000"
    if "kv \<in> set (map (\<lambda>(k, v). (to_hex (atom_digest k), v_vec v_digest v)) (sorted_list_of_fmap ?m))" for kv
  proof -
    from that obtain k v where kv: "kv = (to_hex (atom_digest k), v_vec v_digest v)" "fmlookup ?m k = Some v"
      by (auto simp: set_sorted_list_of_fmap)
    then have "(k, v) \<in> set ?pairs" unfolding fmlookup_of_list by (rule_tac map_of_SomeD)
    then have "length v \<le> 262144" using assms(4) by auto
    then show ?thesis by (simp add: kv(1) sum_list_triv)
  qed
  then have "sum_list (map (\<lambda>kv. 16 + length (fst kv) + vsize (snd kv))
      (map (\<lambda>(k, v). (to_hex (atom_digest k), v_vec v_digest v)) (sorted_list_of_fmap ?m))) \<le> 
      length (map (\<lambda>(k, v). (to_hex (atom_digest k), v_vec v_digest v)) (sorted_list_of_fmap ?m)) * 22000000"
    by (rule sum_list_map_le)
  moreover have "length (sorted_list_of_fmap ?m) \<le> 100000"
    by (rule order_trans [OF sorted_list_of_fmap_of_list_le]) (use assms(1) in \<open>simp add: order_trans [OF length_filter_le]\<close>)
  ultimately have map: "vsize (v_map (\<lambda>a. to_hex (atom_digest a)) (v_vec v_digest) ?m) \<le> 100000 * 22000000 + 9"
    unfolding v_map_def vsize.simps length_map by linarith
  have ids: "vsize (v_vec v_atom_id xs) = 9 + 81 * length xs" for xs by (simp add: sum_list_triv)
  show ?thesis
    using map assms(1-3) unfolding v_closure_def closure_from_plan_def ReceiptClosureV1.select_convs
    by (simp add: ids del: vsize_vec)
qed

lemma v_invariant_status_inj [vnorm_inj]: "vnorm (v_invariant_status x) = vnorm (v_invariant_status y) \<longleftrightarrow> x = y"
  by (cases x; cases y) simp_all

lemma v_invariant_status_float_free [float_free_simps]: "float_free (v_invariant_status x)"
  by (cases x) simp_all

lemma v_proof_status_inj [vnorm_inj]: "vnorm (v_proof_status x) = vnorm (v_proof_status y) \<longleftrightarrow> x = y"
  by (cases x; cases y) simp_all

lemma v_proof_status_float_free [float_free_simps]: "float_free (v_proof_status x)"
  by (cases x) simp_all

lemma v_closure_inj [vnorm_inj]: "vnorm (v_closure x) = vnorm (v_closure y) \<longleftrightarrow> x = y"
  by (cases x; cases y) (simp add: v_closure_def vnorm_object_eq vnorm_inj option_vec_inj v_map_inj v_vec_inj conj_ac)

lemma v_closure_float_free [float_free_simps]: "float_free (v_closure x)"
  by (simp add: v_closure_def float_free_simps)

text \<open>Two receipts with the same authority differ at most in the identifier it leaves out.\<close>

definition receipt_counts_fit :: "ProofReceiptV1 \<Rightarrow> bool" where
  "receipt_counts_fit r \<longleftrightarrow> rp_episodic_population_count r < 2 ^ 64 \<and> rp_episodic_winner_budget r < 2 ^ 64 \<and>
     rp_semantic_count_budget r < 2 ^ 64 \<and> rp_receipt_id r = Digest32_ZERO"

lemma v_receipt_authority_inj:
  "receipt_counts_fit x \<Longrightarrow> receipt_counts_fit y \<Longrightarrow> vnorm (v_receipt_authority x) = vnorm (v_receipt_authority y) \<longleftrightarrow> x = y"
  by (cases x; cases y)
    (simp add: receipt_counts_fit_def v_receipt_authority_def vnorm_object_eq vnorm_inj option_vec_inj v_map_inj v_usize_inj, blast)

lemma v_receipt_authority_float_free [float_free_simps]: "float_free (v_receipt_authority x)"
  by (simp add: v_receipt_authority_def float_free_simps)

interpretation receipt_content: content_address v_receipt_authority receipt_counts_fit
  by unfold_locales (simp_all add: v_receipt_authority_inj float_free_simps)

section \<open>Issuing a receipt\<close>

text \<open>A receipt that states a plan and carries its own identifier.\<close>

definition receipt_states :: "(byte list \<Rightarrow> Digest32) \<Rightarrow> RetirementPlanV1 \<Rightarrow> Digest32 \<Rightarrow> ProofReceiptV1 \<Rightarrow> bool" where
  "receipt_states sha plan state r \<longleftrightarrow>
     plan_digest sha plan = Inr (rp_plan_digest r) \<and> decision_digest sha plan = Inr (rp_decision_digest r) \<and>
     recompute_receipt_id sha r = Inr (rp_receipt_id r) \<and> rp_contract_version r = ''proof-receipt-v1'' \<and>
     rp_run_id r = hash_prefixed sha RUN_HASH_DOMAIN (digest_bytes (rp_plan_digest r)) \<and>
     rp_memory_space_id r = pn_memory_space_id plan \<and> rp_cohort_day r = pn_cohort_day plan \<and>
     rp_as_of_us r = pn_as_of_us plan \<and> rp_policy_id r = pn_policy_id plan \<and>
     rp_policy_digest r = pn_policy_digest plan \<and> rp_seed r = pn_seed plan \<and>
     rp_input_set_digest r = pn_input_set_digest plan \<and> rp_rng_identifier r = pn_rng_identifier plan \<and>
     rp_population_digest r = pn_episodic_population_digest plan \<and>
     rp_episodic_population_count r = pn_episodic_population_count plan \<and>
     rp_episodic_winner_budget r = pn_episodic_winner_budget plan \<and>
     rp_episodic_winner_bytes r = pn_episodic_winner_bytes plan \<and>
     rp_semantic_count_budget r = pn_semantic_count_budget plan \<and>
     rp_semantic_body_bytes r = pn_semantic_body_bytes plan \<and> rp_state_digest r = state \<and>
     rp_closure r = closure_from_plan plan \<and> rp_invariants r = invariant_map \<and> rp_overall_status r = ProofPassed"

lemma issue_receipt_Inr: "issue_receipt sha plan state = Inr r \<longleftrightarrow> receipt_states sha plan state r"
proof
  assume "issue_receipt sha plan state = Inr r"
  then show "receipt_states sha plan state r"
    by (auto simp: issue_receipt_def Let_def bindr_Inr recompute_receipt_id_def v_receipt_authority_def receipt_states_def)
next
  assume "receipt_states sha plan state r"
  then show "issue_receipt sha plan state = Inr r"
    by (cases r) (simp add: receipt_states_def issue_receipt_def Let_def recompute_receipt_id_def v_receipt_authority_def)
qed

lemma vsize_invariant_map: "vsize (v_map id v_invariant_status invariant_map) \<le> 1000"
proof -
  let ?l = "sorted_list_of_fmap invariant_map"
  have status: "vsize (v_invariant_status v) \<le> 100" for v by (cases v) simp_all
  let ?names = "[''budgets_structurally_bounded'', ''plan_structure_verified'', ''repository_outcome_closure_verified'']"
  have bound: "\<forall>k \<in> set ?names. length k \<le> 100" by simp
  have names: "length k \<le> 100" if "(k, v) \<in> set ?l" for k v
  proof -
    have "map_of (map (\<lambda>name. (name, InvariantVerified)) ?names) k = Some v"
      using that unfolding set_sorted_list_of_fmap invariant_map_def fmlookup_of_list by blast
    then have "k \<in> set ?names" by (drule_tac map_of_SomeD) (simp only: set_map image_iff, blast)
    then show ?thesis using bound by blast
  qed
  have "sum_list (map (\<lambda>kv. 16 + length (fst kv) + vsize (snd kv)) (map (\<lambda>(k, v). (id k, v_invariant_status v)) ?l))
      \<le> length (map (\<lambda>(k, v). (id k, v_invariant_status v)) ?l) * 216"
  proof (rule sum_list_map_le)
    fix kv assume "kv \<in> set (map (\<lambda>(k, v). (id k, v_invariant_status v)) ?l)"
    then obtain k v where kv: "(k, v) \<in> set ?l" "kv = (k, v_invariant_status v)" by auto
    show "16 + length (fst kv) + vsize (snd kv) \<le> 216"
      using names [OF kv(1)] status [of v] unfolding kv(2) fst_conv snd_conv by linarith
  qed
  moreover have "length ?l \<le> 3"
    unfolding invariant_map_def by (rule order_trans [OF sorted_list_of_fmap_of_list_le]) simp
  ultimately show ?thesis unfolding v_map_def vsize.simps length_map by linarith
qed

lemma planned_receipt_issued:
  assumes "plan_retirement sha chacha snapshot policy seed = Some (Inr plan)"
  shows "\<exists>r. issue_receipt sha plan state = Inr r"
proof -
  obtain cs ks where r: "sorted_cohort sha snapshot cs" "oversized sha snapshot cs = None"
    "length ks = winner_budget (positions_where exact_eligible cs)" "offsets_ok (length (positions_where exact_eligible cs)) ks"
    "plan = plan_for sha snapshot seed cs (drawn_winners cs ks)"
    using plan_retirement_InrD [OF assms] by metis
  note size = plan_for_size [OF r(1-4), of seed, folded r(5)]
  obtain p where p: "plan_digest sha plan = Inr p"
    using plan_content.digest_total [OF size(1), of sha] unfolding plan_digest_def by blast
  have "vsize (v_vec v_decision (pn_decisions plan)) < 2 ^ 64" using size(2) by simp
  from decisions_content.digest_total [OF this, of sha] obtain d where d: "decision_digest sha plan = Inr d"
    unfolding decision_digest_def by blast
  have closure: "vsize (v_closure (closure_from_plan plan)) \<le> 2 ^ 60" by (rule vsize_closure_le) (rule size)+
  note inv = vsize_invariant_map
  have total: "\<exists>i. recompute_receipt_id sha x = Inr i"
    if "rp_contract_version x = ''proof-receipt-v1''" "rp_memory_space_id x = pn_memory_space_id plan"
      "rp_policy_id x = pn_policy_id plan" "rp_rng_identifier x = pn_rng_identifier plan"
      "rp_closure x = closure_from_plan plan" "rp_invariants x = invariant_map" "rp_overall_status x = ProofPassed" for x
  proof -
    have "vsize (v_receipt_authority x) < 2 ^ 64"
      using closure inv size(6) unfolding v_receipt_authority_def that size(7,8) by simp
    then show ?thesis unfolding recompute_receipt_id_def by (rule receipt_content.digest_total)
  qed
  show ?thesis by (simp add: issue_receipt_def p d Let_def bindr_Inr) (rule total, simp_all)
qed

section \<open>The only receipt a verification accepts\<close>

lemma check_receipt_Inr:
  "check_receipt sha receipt inputs plan = Inr v \<longleftrightarrow>
     verify_plan_structure sha plan = Inr () \<and> policy_digest sha (vi_policy inputs) = Inr (pn_policy_digest plan) \<and>
     vi_observed_state_digest inputs = pn_projected_state_digest plan \<and>
     normalize_artifacts (vi_observed_exact_artifact_digests inputs) = cl_exact_artifact_digests (closure_from_plan plan) \<and>
     receipt_states sha plan (pn_projected_state_digest plan) receipt \<and>
     v = \<lparr>vr_receipt_id = rp_receipt_id receipt, vr_run_id = rp_run_id receipt, vr_plan_digest = rp_plan_digest receipt,
       vr_status = InvariantVerified\<rparr>"
  if "rp_contract_version receipt = ''proof-receipt-v1''" "pn_seed plan = vi_seed inputs"
  unfolding check_receipt_def receipt_states_def Let_def
  using that by (auto simp: bindr_Inr split: if_splits)

lemma planned_seed:
  assumes "plan_retirement sha chacha snapshot policy seed = Some (Inr plan)"
  shows "policy = poc_v1" "pn_seed plan = seed" "policy_digest sha poc_v1 = Inr (pn_policy_digest plan)"
proof -
  obtain cs ks where r: "policy = poc_v1" "plan = plan_for sha snapshot seed cs (drawn_winners cs ks)"
    using plan_retirement_InrD [OF assms] by metis
  obtain digest where "policy_digest sha poc_v1 = Inr digest" using policy_digest_poc by blast
  then show "policy = poc_v1" "pn_seed plan = seed" "policy_digest sha poc_v1 = Inr (pn_policy_digest plan)"
    using r by (simp_all add: plan_for_def Let_def)
qed

text \<open>
  C16: the planner and the receipt layer agree.  Every plan the planner returns passes the
  structural check, provided its candidate semantic atoms have different identifiers (two equal
  identifiers would be a hash collision); and when two candidates do collide, the plan is rejected.
\<close>

theorem planned_structure_verified:
  assumes "plan_retirement sha chacha snapshot policy seed = Some (Inr plan)"
  shows "verify_plan_structure sha plan = Inr () \<longleftrightarrow> distinct (map sd_atom_id (pn_semantic_decisions plan))"
  using assms by (rule planned_plan_structure)

text \<open>
  C4: verification accepts exactly one receipt.  For given inputs, a receipt is accepted if and
  only if the policy is the committed one, replanning succeeds with a plan whose candidates have
  different identifiers, the observed state and artifacts are the ones the plan projects, and the
  receipt is the receipt that applying this plan issues, field for field; the answer names its
  identifier, run and plan digest.
\<close>

theorem receipt_verification_exact:
  "verify_receipt sha chacha receipt inputs = Some (Inr v) \<longleftrightarrow>
     vi_policy inputs = poc_v1 \<and>
     (\<exists>plan. plan_retirement sha chacha (vi_snapshot inputs) poc_v1 (vi_seed inputs) = Some (Inr plan) \<and>
       distinct (map sd_atom_id (pn_semantic_decisions plan)) \<and>
       vi_observed_state_digest inputs = pn_projected_state_digest plan \<and>
       normalize_artifacts (vi_observed_exact_artifact_digests inputs) = cl_exact_artifact_digests (closure_from_plan plan) \<and>
       issue_receipt sha plan (pn_projected_state_digest plan) = Inr receipt) \<and>
     v = \<lparr>vr_receipt_id = rp_receipt_id receipt, vr_run_id = rp_run_id receipt, vr_plan_digest = rp_plan_digest receipt,
       vr_status = InvariantVerified\<rparr>"
proof -
  let ?plan = "plan_retirement sha chacha (vi_snapshot inputs) poc_v1 (vi_seed inputs)"
  let ?ok = "\<lambda>plan. distinct (map sd_atom_id (pn_semantic_decisions plan)) \<and>
       vi_observed_state_digest inputs = pn_projected_state_digest plan \<and>
       normalize_artifacts (vi_observed_exact_artifact_digests inputs) = cl_exact_artifact_digests (closure_from_plan plan) \<and>
       receipt_states sha plan (pn_projected_state_digest plan) receipt \<and>
       v = \<lparr>vr_receipt_id = rp_receipt_id receipt, vr_run_id = rp_run_id receipt, vr_plan_digest = rp_plan_digest receipt,
         vr_status = InvariantVerified\<rparr>"
  have check: "check_receipt sha receipt inputs plan = Inr v \<longleftrightarrow> ?ok plan"
    if "?plan = Some (Inr plan)" "vi_policy inputs = poc_v1" "rp_contract_version receipt = ''proof-receipt-v1''" for plan
    using check_receipt_Inr [OF that(3) planned_seed(2) [OF that(1)]] that(2) planned_seed(3) [OF that(1)]
      planned_plan_structure [OF that(1)] by simp
  have version: "rp_contract_version receipt = ''proof-receipt-v1''" if "?ok plan" for plan
    using that by (simp add: receipt_states_def)
  have "verify_receipt sha chacha receipt inputs = Some (Inr v) \<longleftrightarrow>
     vi_policy inputs = poc_v1 \<and> rp_contract_version receipt = ''proof-receipt-v1'' \<and>
     (\<exists>plan. ?plan = Some (Inr plan) \<and> check_receipt sha receipt inputs plan = Inr v)"
    by (auto simp: verify_receipt_def validate_poc_v1_def bindr_Inr lift_Inr)
  also have "\<dots> \<longleftrightarrow> vi_policy inputs = poc_v1 \<and> (\<exists>plan. ?plan = Some (Inr plan) \<and> ?ok plan)"
    using check version by blast
  finally show ?thesis unfolding issue_receipt_Inr by blast
qed

section \<open>Applying a plan\<close>

lemma check_apply_outcome_Inr:
  "check_apply_outcome plan out = Inr u \<longleftrightarrow>
     ao_observed_input_digest out = pn_input_set_digest plan \<and> ao_state_digest out = pn_projected_state_digest plan \<and>
     ao_applied_decision_count out = length (pn_decisions plan) \<and>
     ao_semantic_atom_ids out = map ps_atom_id (pn_semantic_atoms plan) \<and>
     ao_episodic_atom_ids out = pn_episodic_winners plan \<and>
     normalize_artifacts (ao_exact_artifact_digests out) = cl_exact_artifact_digests (closure_from_plan plan)"
  by (auto simp: check_apply_outcome_def Let_def closure_from_plan_def)

text \<open>
  C15: a receipt is earned.  \<open>apply_retirement\<close> hands the plan to the repository only when it
  passes the structural check, and otherwise leaves the repository as it is.  It issues a receipt
  only when the repository reports that it saw the planned inputs, reached the projected state,
  applied every decision, and holds exactly the planned semantic atoms, episodes and artifacts; the
  receipt is then the one that states the plan and its projected state.
\<close>

theorem apply_retirement_receipt_earned:
  "(fst (apply_retirement sha apply_plan repository plan) = Inr receipt \<longleftrightarrow>
     verify_plan_structure sha plan = Inr () \<and>
     (\<exists>out. fst (apply_plan repository plan) = Inr out \<and>
       ao_observed_input_digest out = pn_input_set_digest plan \<and> ao_state_digest out = pn_projected_state_digest plan \<and>
       ao_applied_decision_count out = length (pn_decisions plan) \<and>
       ao_semantic_atom_ids out = map ps_atom_id (pn_semantic_atoms plan) \<and>
       ao_episodic_atom_ids out = pn_episodic_winners plan \<and>
       normalize_artifacts (ao_exact_artifact_digests out) = cl_exact_artifact_digests (closure_from_plan plan)) \<and>
     issue_receipt sha plan (pn_projected_state_digest plan) = Inr receipt) \<and>
   snd (apply_retirement sha apply_plan repository plan) =
     (if verify_plan_structure sha plan = Inr () then snd (apply_plan repository plan) else repository)"
  by (cases "verify_plan_structure sha plan")
    (auto simp: apply_retirement_def split_def bindr_Inr check_apply_outcome_Inr)

text \<open>
  C14: plan, apply, verify.  When the planner's plan for a cohort has different candidate
  identifiers and the repository applies it with an outcome that closes, \<open>apply_retirement\<close> issues
  a receipt (no digest of the plan or of the receipt can fail to be computed), and verifying this
  receipt against the same snapshot, policy and seed and the state the repository reported succeeds.
\<close>

theorem applied_receipt_verifies:
  assumes "plan_retirement sha chacha snapshot policy seed = Some (Inr plan)"
    and "distinct (map sd_atom_id (pn_semantic_decisions plan))"
    and "apply_plan repository plan = (Inr out, repository')" "check_apply_outcome plan out = Inr ()"
  shows "\<exists>receipt. apply_retirement sha apply_plan repository plan = (Inr receipt, repository') \<and>
    verify_receipt sha chacha receipt \<lparr>vi_policy = policy, vi_snapshot = snapshot, vi_seed = seed,
      vi_observed_state_digest = ao_state_digest out,
      vi_observed_exact_artifact_digests = ao_exact_artifact_digests out\<rparr> =
    Some (Inr \<lparr>vr_receipt_id = rp_receipt_id receipt, vr_run_id = rp_run_id receipt,
      vr_plan_digest = rp_plan_digest receipt, vr_status = InvariantVerified\<rparr>)"
proof -
  note out = assms(4) [unfolded check_apply_outcome_Inr]
  have policy: "policy = poc_v1" by (rule planned_seed(1) [OF assms(1)])
  note seed = planned_seed(2,3) [OF assms(1)]
  have verified: "verify_plan_structure sha plan = Inr ()" using planned_plan_structure [OF assms(1)] assms(2) by simp
  obtain receipt where issued: "issue_receipt sha plan (pn_projected_state_digest plan) = Inr receipt"
    using planned_receipt_issued [OF assms(1)] by blast
  let ?inputs = "\<lparr>vi_policy = policy, vi_snapshot = snapshot, vi_seed = seed, vi_observed_state_digest = ao_state_digest out,
      vi_observed_exact_artifact_digests = ao_exact_artifact_digests out\<rparr>"
  have states: "receipt_states sha plan (pn_projected_state_digest plan) receipt" using issued by (simp add: issue_receipt_Inr)
  then have version: "rp_contract_version receipt = ''proof-receipt-v1''" by (simp add: receipt_states_def)
  have "check_receipt sha receipt ?inputs plan = Inr \<lparr>vr_receipt_id = rp_receipt_id receipt, vr_run_id = rp_run_id receipt,
      vr_plan_digest = rp_plan_digest receipt, vr_status = InvariantVerified\<rparr>"
    using check_receipt_Inr [OF version, of plan ?inputs] seed verified out states policy by simp
  then have "verify_receipt sha chacha receipt ?inputs = Some (Inr \<lparr>vr_receipt_id = rp_receipt_id receipt,
      vr_run_id = rp_run_id receipt, vr_plan_digest = rp_plan_digest receipt, vr_status = InvariantVerified\<rparr>)"
    using assms(1) version by (simp add: verify_receipt_def validate_poc_v1_def policy)
  moreover have "apply_retirement sha apply_plan repository plan = (Inr receipt, repository')"
    using verified assms(3,4) issued out by (simp add: apply_retirement_def)
  ultimately show ?thesis by blast
qed

text \<open>
  a stale plan is refused.  If the repository's inputs changed since planning, no receipt is
  issued and the error names the planned and the observed input digest.
\<close>

theorem apply_retirement_stale:
  assumes "verify_plan_structure sha plan = Inr ()" "apply_plan repository plan = (Inr out, repository')"
    and "ao_observed_input_digest out \<noteq> pn_input_set_digest plan"
  shows "apply_retirement sha apply_plan repository plan =
    (Inl (StalePlan (pn_input_set_digest plan) (ao_observed_input_digest out)), repository')"
  using assms by (simp add: apply_retirement_def check_apply_outcome_def)

text \<open>
  a receipt identifier commits to the whole receipt.  If two receipts that differ in anything
  but their stated identifier had the same recomputed identifier, the canonical encodings of their
  authorities would be two different byte strings that collide under the hash.
\<close>

theorem receipt_id_binds_receipt:
  fixes r1 r2 :: ProofReceiptV1
  defines "x \<equiv> r1\<lparr>rp_receipt_id := Digest32_ZERO\<rparr>" and "y \<equiv> r2\<lparr>rp_receipt_id := Digest32_ZERO\<rparr>"
  assumes "recompute_receipt_id sha r1 = Inr d" "recompute_receipt_id sha r2 = Inr d"
    and "receipt_counts_fit x" "receipt_counts_fit y" "x \<noteq> y"
  shows "\<exists>a b. encode_value (v_receipt_authority r1) = Inr a \<and> encode_value (v_receipt_authority r2) = Inr b \<and> a \<noteq> b \<and>
    sha (RECEIPT_HASH_DOMAIN @ a) = sha (RECEIPT_HASH_DOMAIN @ b)"
proof -
  have same: "v_receipt_authority x = v_receipt_authority r1" "v_receipt_authority y = v_receipt_authority r2"
    by (simp_all add: x_def y_def v_receipt_authority_def)
  show ?thesis
    using receipt_content.digest_binds [of sha RECEIPT_HASH_DOMAIN x d y] assms(3-7)
    unfolding same recompute_receipt_id_def by blast
qed

section \<open>Concrete receipts\<close>

lemma normalize_fmap_of_list:
  "(\<And>k v. (k, v) \<in> set xs \<Longrightarrow> remdups_adj (sort v) = v) \<Longrightarrow> normalize_artifacts (fmap_of_list xs) = fmap_of_list xs"
  unfolding normalize_artifacts_def
  by (rule fmap_ext) (auto simp: fmlookup_of_list dest!: map_of_SomeD split: option.split intro!: option.map_ident_strong)

lemma planned_artifacts_normal:
  assumes "plan_retirement sha chacha snapshot policy seed = Some (Inr plan)"
  shows "normalize_artifacts (cl_exact_artifact_digests (closure_from_plan plan)) = cl_exact_artifact_digests (closure_from_plan plan)"
proof -
  obtain cs ks where r: "sorted_cohort sha snapshot cs" "plan = plan_for sha snapshot seed cs (drawn_winners cs ks)"
    using plan_retirement_InrD [OF assms] by metis
  have "remdups_adj (sort (rd_exact_artifact_digests d)) = rd_exact_artifact_digests d" if "d \<in> set (pn_decisions plan)" for d
  proof -
    from that obtain w atoms where "d \<in> set (decisions_of w atoms cs)" by (auto simp: r(2) plan_for_def Let_def)
    from decisions_of_member [OF r(1) this] obtain c where
      "rd_exact_artifact_digests d = (if rc_atom_id c |\<in>| w then retained_artifact_digests (body_of c) else [])" by blast
    moreover have "sorted_wrt (<) (retained_artifact_digests b)" for b
      unfolding retained_artifact_digests_def by (rule sorted_distinct_remdups_adj) simp
    ultimately show ?thesis
      by (auto simp: sorted_wrt_less_iff sorted_sort_id remdups_adj_distinct distinct_adj_conv_nth distinct_conv_nth)
  qed
  then show ?thesis unfolding closure_from_plan_def ReceiptClosureV1.select_convs by (intro normalize_fmap_of_list) auto
qed

definition closing_outcome :: "RetirementPlanV1 \<Rightarrow> Digest32 \<Rightarrow> ApplyRetirementOutcomeV1" where
  "closing_outcome plan observed = \<lparr>ao_observed_input_digest = observed, ao_state_digest = pn_projected_state_digest plan,
     ao_applied_decision_count = length (pn_decisions plan), ao_semantic_atom_ids = map ps_atom_id (pn_semantic_atoms plan),
     ao_episodic_atom_ids = pn_episodic_winners plan,
     ao_exact_artifact_digests = cl_exact_artifact_digests (closure_from_plan plan), ao_already_applied = False\<rparr>"

lemma sample_plan_verified:
  "\<exists>plan. plan_retirement zero_sha (\<lambda>_ _. 0) (sample_snapshot [sample_candidate]) poc_v1 (Seed32 Digest32_ZERO) = Some (Inr plan) \<and>
     distinct (map sd_atom_id (pn_semantic_decisions plan)) \<and> verify_plan_structure zero_sha plan = Inr ()"
proof -
  obtain plan where plan: "plan_retirement zero_sha (\<lambda>_ _. 0) (sample_snapshot [sample_candidate]) poc_v1 (Seed32 Digest32_ZERO) = Some (Inr plan)"
    using sample_plan_exists by blast
  obtain cs ks where r: "sorted_cohort zero_sha (sample_snapshot [sample_candidate]) cs"
    "oversized zero_sha (sample_snapshot [sample_candidate]) cs = None"
    "plan = plan_for zero_sha (sample_snapshot [sample_candidate]) (Seed32 Digest32_ZERO) cs (drawn_winners cs ks)"
    using plan_retirement_InrD [OF plan] by metis
  have "cs = [sample_candidate]" using r(1) by (simp add: sorted_cohort_def sample_snapshot_def)
  then have "\<not> qualifies cs c" if "c \<in> set (cohort_clusters cs)" for c
    using positions_ok_length [OF cohort_clusters_ok [OF that]] by (simp add: qualifies_def)
  then have "cohort_scored zero_sha (sample_snapshot [sample_candidate]) cs = []"
    by (simp add: cohort_scored_def filter_empty_conv)
  then have "pn_semantic_decisions plan = []"
    using select_of_spec(3) [OF r(2)] by (simp add: r(3) plan_for_def Let_def)
  then show ?thesis using plan planned_plan_structure [OF plan] by auto
qed

theorem planned_structure_verified_witness:
  "\<exists>plan. plan_retirement zero_sha (\<lambda>_ _. 0) (sample_snapshot [sample_candidate]) poc_v1 (Seed32 Digest32_ZERO) = Some (Inr plan) \<and>
     verify_plan_structure zero_sha plan = Inr ()"
proof -
  obtain plan where plan: "plan_retirement zero_sha (\<lambda>_ _. 0) (sample_snapshot [sample_candidate]) poc_v1 (Seed32 Digest32_ZERO) = Some (Inr plan)"
    "distinct (map sd_atom_id (pn_semantic_decisions plan))" using sample_plan_verified by blast
  with planned_structure_verified [OF plan(1)] show ?thesis by blast
qed

theorem applied_receipt_verifies_witness:
  "\<exists>plan receipt. apply_retirement zero_sha (\<lambda>r p. (Inr (closing_outcome p (pn_input_set_digest p)), r + 1)) (0 :: nat) plan = (Inr receipt, 1) \<and>
     verify_receipt zero_sha (\<lambda>_ _. 0) receipt \<lparr>vi_policy = poc_v1, vi_snapshot = sample_snapshot [sample_candidate],
       vi_seed = Seed32 Digest32_ZERO, vi_observed_state_digest = pn_projected_state_digest plan,
       vi_observed_exact_artifact_digests = cl_exact_artifact_digests (closure_from_plan plan)\<rparr> =
     Some (Inr \<lparr>vr_receipt_id = rp_receipt_id receipt, vr_run_id = rp_run_id receipt,
       vr_plan_digest = rp_plan_digest receipt, vr_status = InvariantVerified\<rparr>)"
proof -
  obtain plan where plan: "plan_retirement zero_sha (\<lambda>_ _. 0) (sample_snapshot [sample_candidate]) poc_v1 (Seed32 Digest32_ZERO) = Some (Inr plan)"
    "distinct (map sd_atom_id (pn_semantic_decisions plan))" using sample_plan_verified by blast
  let ?out = "closing_outcome plan (pn_input_set_digest plan)"
  have "check_apply_outcome plan ?out = Inr ()"
    unfolding check_apply_outcome_Inr by (simp add: closing_outcome_def planned_artifacts_normal [OF plan(1)])
  from applied_receipt_verifies [OF plan, of "\<lambda>r p. (Inr (closing_outcome p (pn_input_set_digest p)), r + 1)" "0 :: nat" ?out "1", OF _ this]
  show ?thesis by (auto simp: closing_outcome_def)
qed

theorem apply_retirement_stale_witness:
  "\<exists>plan observed. observed \<noteq> pn_input_set_digest plan \<and>
     apply_retirement zero_sha (\<lambda>r p. (Inr (closing_outcome p observed), r + 1)) (0 :: nat) plan =
       (Inl (StalePlan (pn_input_set_digest plan) observed), 1)"
proof -
  obtain plan where plan: "verify_plan_structure zero_sha plan = Inr ()" using sample_plan_verified by blast
  have "digest_of_bytes (replicate 32 1) \<noteq> digest_of_bytes (replicate 32 0)"
  proof
    assume "digest_of_bytes (replicate 32 1) = digest_of_bytes (replicate 32 0)"
    then have "digest_bytes (digest_of_bytes (replicate 32 1)) = digest_bytes (digest_of_bytes (replicate 32 0))" by simp
    then show False by (simp add: digest_bytes_of_bytes)
  qed
  then obtain observed where observed: "observed \<noteq> pn_input_set_digest plan" by metis
  let ?out = "closing_outcome plan observed"
  have "ao_observed_input_digest ?out \<noteq> pn_input_set_digest plan" using observed by (simp add: closing_outcome_def)
  from apply_retirement_stale [OF plan, of "\<lambda>r p. (Inr (closing_outcome p observed), r + 1)" "0 :: nat" ?out 1, OF _ this]
  show ?thesis using observed by (auto simp: closing_outcome_def)
qed

theorem verify_plan_structure_sound_witness:
  "\<exists>plan. verify_plan_structure zero_sha plan = Inr () \<and> unat (pn_episodic_winner_bytes plan) \<le> 268435456"
proof -
  obtain plan where plan: "verify_plan_structure zero_sha plan = Inr ()" using sample_plan_verified by blast
  from verify_plan_structure_sound [OF plan] have "unat (pn_episodic_winner_bytes plan) \<le> 268435456" by (elim conjE)
  with plan show ?thesis by blast
qed

definition sample_receipt :: "u64 \<Rightarrow> ProofReceiptV1" where
  "sample_receipt day = \<lparr>rp_contract_version = ''proof-receipt-v1'', rp_receipt_id = Digest32_ZERO, rp_run_id = Digest32_ZERO,
     rp_memory_space_id = ''space-a'', rp_cohort_day = day, rp_as_of_us = 0, rp_policy_id = ''poc-v1'',
     rp_policy_digest = Digest32_ZERO, rp_seed = Seed32 Digest32_ZERO, rp_input_set_digest = Digest32_ZERO,
     rp_rng_identifier = ''rng'', rp_population_digest = Digest32_ZERO, rp_episodic_population_count = 0,
     rp_episodic_winner_budget = 0, rp_episodic_winner_bytes = 0, rp_semantic_count_budget = 0, rp_semantic_body_bytes = 0,
     rp_plan_digest = Digest32_ZERO, rp_decision_digest = Digest32_ZERO, rp_state_digest = Digest32_ZERO,
     rp_closure = \<lparr>cl_source_atom_ids = [], cl_semantic_atom_ids = [], cl_exact_episode_ids = [],
       cl_exact_artifact_digests = fmempty\<rparr>, rp_invariants = fmempty, rp_overall_status = ProofPassed\<rparr>"

theorem receipt_id_binds_receipt_witness:
  "\<exists>a b. encode_value (v_receipt_authority (sample_receipt 1)) = Inr a \<and>
     encode_value (v_receipt_authority (sample_receipt 2)) = Inr b \<and> a \<noteq> b \<and>
     zero_sha (RECEIPT_HASH_DOMAIN @ a) = zero_sha (RECEIPT_HASH_DOMAIN @ b)"
proof (rule receipt_id_binds_receipt)
  have "vsize (v_receipt_authority (sample_receipt n)) < 2 ^ 64" for n
    by (simp add: sample_receipt_def v_receipt_authority_def v_closure_def v_map_def sorted_list_of_fmap_def)
  then have "recompute_receipt_id zero_sha (sample_receipt n) = Inr Digest32_ZERO" for n
    using receipt_content.digest_total [of "sample_receipt n"] by (force simp: recompute_receipt_id_def digest_value_Inr)
  then show "recompute_receipt_id zero_sha (sample_receipt 1) = Inr Digest32_ZERO"
    "recompute_receipt_id zero_sha (sample_receipt 2) = Inr Digest32_ZERO" by blast+
qed (simp_all add: receipt_counts_fit_def sample_receipt_def)

end
