(* ===== verification/Retrieval.thy ===== *)
theory Retrieval
  imports Clusters Content
begin

text \<open>
  Retrieval, \<open>retrieval.rs\<close>: the guards of a query, the scoring and ranking of candidates and
  the spontaneous recall drawn from the episodic pool.
\<close>

section \<open>Queries, candidates, results\<close>

definition QUERY_HASH_DOMAIN :: "byte list" where
  "QUERY_HASH_DOMAIN = str_bytes ''naome-memory:retrieval-query:v1'' @ [0]"

definition FLASHBACK_POPULATION_DOMAIN :: "byte list" where
  "FLASHBACK_POPULATION_DOMAIN = str_bytes ''naome-memory:flashback-population:v1'' @ [0]"

record SpontaneousRecallRequestV1 =
  sr_seed :: Seed32
  sr_budget :: usize

record RetrievalQueryV1 =
  qy_contract_version :: string
  qy_memory_space_id :: string
  qy_repository_id :: "string option"
  qy_memory_space_wide :: bool
  qy_as_of_us :: u64
  qy_terms :: "string list"
  qy_topic_keys :: "string fset"
  qy_entity_ids :: "string fset"
  qy_k :: "usize option"
  qy_spontaneous :: "SpontaneousRecallRequestV1 option"

record RetrievalCandidateV1 =
  ca_atom_id :: AtomId
  ca_body :: MemoryAtomBodyV1
  ca_state :: AtomStateV1
  ca_lexical_score :: Ppm
  ca_integrity :: IntegrityStatusV1

record RetrievalCandidatesV1 =
  rk_ranked :: "RetrievalCandidateV1 list"
  rk_episodic_pool :: "RetrievalCandidateV1 list"

record RetrievalScoreV1 =
  rs_lexical :: Ppm
  rs_semantic :: Ppm
  rs_entity :: Ppm
  rs_validated_utility :: Ppm
  rs_recency :: Ppm
  rs_total :: Ppm

datatype RecallReasonV1 = QueryRanked | Spontaneous

datatype GeneralityV1 = GeneralSemantic | SingleEpisode

record RetrievalHitV1 =
  hi_atom_id :: AtomId
  hi_score :: "RetrievalScoreV1 option"
  hi_recall_reason :: RecallReasonV1
  hi_generality :: GeneralityV1

record SpontaneousRecallResultV1 =
  so_seed :: Seed32
  so_budget :: usize
  so_population_digest :: Digest32
  so_population_count :: usize
  so_hits :: "RetrievalHitV1 list"

record RetrievalResultV1 =
  rr_contract_version :: string
  rr_query_digest :: Digest32
  rr_hits :: "RetrievalHitV1 list"
  rr_spontaneous :: "SpontaneousRecallResultV1 option"

definition v_recall_request :: "SpontaneousRecallRequestV1 \<Rightarrow> Value" where
  "v_recall_request r = VObject [(''seed'', v_seed (sr_seed r)), (''budget'', v_usize (sr_budget r))]"

definition v_query :: "RetrievalQueryV1 \<Rightarrow> Value" where
  "v_query q = VObject [
     (''contract_version'', VString (qy_contract_version q)),
     (''memory_space_id'', VString (qy_memory_space_id q)),
     (''repository_id'', v_option VString (qy_repository_id q)),
     (''memory_space_wide'', VBool (qy_memory_space_wide q)),
     (''as_of_us'', v_u64 (qy_as_of_us q)),
     (''terms'', v_vec VString (qy_terms q)),
     (''topic_keys'', v_string_set (qy_topic_keys q)),
     (''entity_ids'', v_string_set (qy_entity_ids q)),
     (''k'', v_option v_usize (qy_k q)),
     (''spontaneous'', v_option v_recall_request (qy_spontaneous q))]"

section \<open>Guards\<close>

text \<open>
  \<open>str::trim\<close> removes the characters of Unicode's \<open>White_Space\<close> property, so what it leaves of
  a string is empty exactly when the whole string is made of them.  A string is its UTF-8 bytes:
  the six one-byte spaces, U+0085 and U+00A0 in two bytes, and U+1680, U+2000 to U+200A, U+2028,
  U+2029, U+202F, U+205F and U+3000 in three.
\<close>

definition space3 :: "byte \<Rightarrow> byte \<Rightarrow> byte \<Rightarrow> bool" where
  "space3 b c d \<longleftrightarrow>
     (b = 0xE1 \<and> c = 0x9A \<and> d = 0x80) \<or>
     (b = 0xE2 \<and> c = 0x80 \<and> (0x80 \<le> d \<and> d \<le> 0x8A \<or> d = 0xA8 \<or> d = 0xA9 \<or> d = 0xAF)) \<or>
     (b = 0xE2 \<and> c = 0x81 \<and> d = 0x9F) \<or>
     (b = 0xE3 \<and> c = 0x80 \<and> d = 0x80)"

fun blank_bytes :: "byte list \<Rightarrow> bool" where
  "blank_bytes [] = True"
| "blank_bytes (b # bs) =
     (if 9 \<le> b \<and> b \<le> 13 \<or> b = 32 then blank_bytes bs
      else case bs of [] \<Rightarrow> False
        | c # cs \<Rightarrow>
            if b = 0xC2 \<and> (c = 0x85 \<or> c = 0xA0) then blank_bytes cs
            else (case cs of [] \<Rightarrow> False | d # ds \<Rightarrow> space3 b c d \<and> blank_bytes ds))"

definition trim_is_empty :: "string \<Rightarrow> bool" where
  "trim_is_empty value = blank_bytes (str_bytes value)"

definition has_meaningful_query_input :: "RetrievalQueryV1 \<Rightarrow> bool" where
  "has_meaningful_query_input query =
     list_ex (\<lambda>value. \<not> trim_is_empty value)
       (qy_terms query @ sorted_list_of_fset (qy_topic_keys query) @ sorted_list_of_fset (qy_entity_ids query))"

fun validate_unique_from :: "AtomId fset \<Rightarrow> RetrievalCandidateV1 list \<Rightarrow> unit result" where
  "validate_unique_from seen [] = Inr ()"
| "validate_unique_from seen (candidate # candidates) =
     (if ca_atom_id candidate |\<in>| seen then Inl (DuplicateAtom (ca_atom_id candidate))
      else validate_unique_from (finsert (ca_atom_id candidate) seen) candidates)"

definition validate_unique :: "RetrievalCandidateV1 list \<Rightarrow> unit result" where
  "validate_unique candidates = validate_unique_from {||} candidates"

definition validate_candidate_times :: "RetrievalCandidateV1 list \<Rightarrow> u64 \<Rightarrow> unit result" where
  "validate_candidate_times candidates as_of_us =
     try_each (\<lambda>candidate.
       if iv_recorded_at_us (bd_interval (ca_body candidate)) > as_of_us
       then Inl (InvalidRetrievalCandidate (ca_atom_id candidate) ''candidate recorded_at_us is later than query as_of_us'')
       else Inr ()) candidates"

definition validate_retrieval_candidate ::
  "(byte list \<Rightarrow> Digest32) \<Rightarrow> RetrievalCandidateV1 \<Rightarrow> unit result" where
  "validate_retrieval_candidate sha candidate =
     (let body = ca_body candidate; aid = ca_atom_id candidate; tier = st_retention_tier (ca_state candidate) in
      if bd_contract_version body \<noteq> ''atom-v1'' then Inl (UnknownVersion (bd_contract_version body))
      else bindr (atom_id sha body) (\<lambda>body_id.
      if body_id \<noteq> aid then Inl (AtomDigestMismatch aid)
      else if st_content_status (ca_state candidate) \<noteq> Present \<or> tier = HeaderOnly
      then Inl (InvalidRetrievalCandidate aid ''retrieval requires a present body outside the header-only tier'')
      else
        let tier_matches_kind = (case body_kind body of
            Episode \<Rightarrow> tier = ShortTerm \<or> tier = EpisodicLongTerm \<or> tier = DualLongTerm
          | Semantic \<Rightarrow> tier = SemanticLongTerm) in
        if \<not> tier_matches_kind
        then Inl (InvalidRetrievalCandidate aid ''memory kind and retention tier disagree'')
        else Inr ()))"

definition in_query_scope :: "RetrievalQueryV1 \<Rightarrow> MemoryAtomBodyV1 \<Rightarrow> bool" where
  "in_query_scope query body \<longleftrightarrow>
     sc_memory_space_id (bd_scope body) = qy_memory_space_id query \<and>
     (qy_memory_space_wide query \<or> sc_repository_id (bd_scope body) = qy_repository_id query)"

definition query_k :: "RetrievalQueryV1 \<Rightarrow> PolicyV1 \<Rightarrow> usize" where
  "query_k query policy = unwrap_or (po_retrieval_default_k policy) (qy_k query)"

text \<open>Everything before scoring, in the order of the source.\<close>

definition validate_query ::
  "RetrievalQueryV1 \<Rightarrow> RetrievalCandidatesV1 \<Rightarrow> PolicyV1 \<Rightarrow> unit result" where
  "validate_query query candidates policy =
     bindr (validate_poc_v1 policy) (\<lambda>_.
     if qy_contract_version query \<noteq> ''retrieval-query-v1'' then Inl (UnknownVersion (qy_contract_version query))
     else if qy_memory_space_id query = '''' then Inl (EmptyField ''memory_space_id'')
     else if \<not> qy_memory_space_wide query \<and> qy_repository_id query = None then Inl (EmptyField ''repository_id'')
     else if \<not> has_meaningful_query_input query then Inl (EmptyField ''retrieval_query'')
     else if query_k query policy = 0 \<or> query_k query policy > po_retrieval_max_k policy
     then Inl (RetrievalLimitExceeded (query_k query policy) (po_retrieval_max_k policy))
     else if length (rk_ranked candidates) > po_retrieval_candidate_max policy
     then Inl (CandidateLimitExceeded (length (rk_ranked candidates)) (po_retrieval_candidate_max policy))
     else
       bindr (validate_unique (rk_ranked candidates)) (\<lambda>_.
       bindr (validate_unique (rk_episodic_pool candidates)) (\<lambda>_.
       bindr (validate_candidate_times (rk_ranked candidates) (qy_as_of_us query)) (\<lambda>_.
       validate_candidate_times (rk_episodic_pool candidates) (qy_as_of_us query)))))"

section \<open>Scores\<close>

definition recency_score :: "u64 \<Rightarrow> u64 \<Rightarrow> u64 \<Rightarrow> Ppm" where
  "recency_score as_of_us recorded_at_us horizon_us =
     (if recorded_at_us > as_of_us \<or> horizon_us = 0 then PPM_ZERO
      else let age = as_of_us - recorded_at_us in
        if age \<ge> horizon_us then PPM_ZERO else Ppm_ratio (horizon_us - age) horizon_us)"

definition query_jaccard :: "string fset \<Rightarrow> string fset \<Rightarrow> Ppm" where
  "query_jaccard left right =
     (let union = fcard (left |\<union>| right) in
      if union = 0 then PPM_ZERO
      else Ppm_ratio (unwrap_or (- 1) (u64_of_usize (fcard (left |\<inter>| right))))
        (unwrap_or (- 1) (u64_of_usize union)))"

definition sum_scores :: "Ppm list \<Rightarrow> Ppm outcome" where
  "sum_scores values =
     (let raw = min (sum_list (map (ucast \<circ> ppm_get) values) :: u64) (ucast PPM_SCALE)
      in asserted (Ppm_from_raw_unchecked (unwrap_or PPM_SCALE (u32_of_u64 raw))))"

fun generality :: "MemoryKindV1 \<Rightarrow> GeneralityV1" where
  "generality Episode = SingleEpisode"
| "generality Semantic = GeneralSemantic"

type_synonym ranked = "AtomId \<times> MemoryKindV1 \<times> RetrievalScoreV1"

definition score_candidate :: "RetrievalQueryV1 \<Rightarrow> PolicyV1 \<Rightarrow> RetrievalCandidateV1 \<Rightarrow> ranked outcome" where
  "score_candidate query policy candidate =
     (let body = ca_body candidate;
          semantic = query_jaccard (qy_topic_keys query) (bd_topic_keys body);
          entity = query_jaccard (qy_entity_ids query) (bd_entity_ids body);
          utility = validated_utility (ca_state candidate);
          recency = recency_score (qy_as_of_us query) (iv_recorded_at_us (bd_interval body)) (po_retrieval_recency_horizon_us policy)
      in bindr (sum_scores
          [Ppm_multiply (po_retrieval_lexical_weight policy) (ca_lexical_score candidate),
           Ppm_multiply (po_retrieval_semantic_weight policy) semantic,
           Ppm_multiply (po_retrieval_entity_weight policy) entity,
           Ppm_multiply (po_retrieval_utility_weight policy) utility,
           Ppm_multiply (po_retrieval_recency_weight policy) recency]) (\<lambda>total.
      Inr (ca_atom_id candidate, body_kind body,
        \<lparr>rs_lexical = ca_lexical_score candidate, rs_semantic = semantic, rs_entity = entity,
         rs_validated_utility = utility, rs_recency = recency, rs_total = total\<rparr>)))"

definition consider_candidate ::
  "(byte list \<Rightarrow> Digest32) \<Rightarrow> RetrievalQueryV1 \<Rightarrow> PolicyV1 \<Rightarrow> ranked list \<Rightarrow> RetrievalCandidateV1 \<Rightarrow> ranked list outcome" where
  "consider_candidate sha query policy scored candidate =
     bindr (lift (validate_retrieval_candidate sha candidate)) (\<lambda>_.
     if ca_integrity candidate \<noteq> Complete \<or> \<not> in_query_scope query (ca_body candidate) then Inr scored
     else bindr (score_candidate query policy candidate) (\<lambda>x. Inr (scored @ [x])))"

text \<open>\<open>sort_unstable_by\<close>: total descending, then identifier ascending.\<close>

definition ranked_key :: "ranked \<Rightarrow> int \<times> AtomId" where
  "ranked_key x = (- int (unat (ppm_get (rs_total (snd (snd x))))), fst x)"

definition ranked_hit :: "ranked \<Rightarrow> RetrievalHitV1" where
  "ranked_hit x = \<lparr>hi_atom_id = fst x, hi_score = Some (snd (snd x)), hi_recall_reason = QueryRanked,
     hi_generality = generality (fst (snd x))\<rparr>"

definition ranked_hits ::
  "(byte list \<Rightarrow> Digest32) \<Rightarrow> RetrievalQueryV1 \<Rightarrow> RetrievalCandidateV1 list \<Rightarrow> PolicyV1 \<Rightarrow> RetrievalHitV1 list outcome" where
  "ranked_hits sha query candidates policy =
     bindr (try_fold (consider_candidate sha query policy) [] candidates) (\<lambda>scored.
     Inr (map ranked_hit (take (query_k query policy) (sort_key ranked_key scored))))"

section \<open>Spontaneous recall\<close>

definition recall_eligible :: "RetrievalQueryV1 \<Rightarrow> AtomId fset \<Rightarrow> RetrievalCandidateV1 \<Rightarrow> bool" where
  "recall_eligible query excluded candidate \<longleftrightarrow>
     ca_integrity candidate = Complete \<and> body_kind (ca_body candidate) = Episode \<and>
     is_episodic_ltm (ca_state candidate) \<and> in_query_scope query (ca_body candidate) \<and>
     ca_atom_id candidate |\<notin>| excluded"

definition recall_pool ::
  "(byte list \<Rightarrow> Digest32) \<Rightarrow> RetrievalQueryV1 \<Rightarrow> AtomId fset \<Rightarrow> RetrievalCandidateV1 list \<Rightarrow> RetrievalCandidateV1 list result" where
  "recall_pool sha query excluded candidates =
     bindr (try_fold (\<lambda>pool candidate. bindr (validate_retrieval_candidate sha candidate) (\<lambda>_.
         Inr (if recall_eligible query excluded candidate then pool @ [candidate] else pool))) [] candidates) (\<lambda>pool.
     Inr (sort_key ca_atom_id pool))"

definition flashback_hit :: "RetrievalCandidateV1 \<Rightarrow> RetrievalHitV1" where
  "flashback_hit candidate = \<lparr>hi_atom_id = ca_atom_id candidate, hi_score = None,
     hi_recall_reason = Spontaneous, hi_generality = SingleEpisode\<rparr>"

definition spontaneous_recall ::
  "(byte list \<Rightarrow> Digest32) \<Rightarrow> (byte list \<Rightarrow> stream) \<Rightarrow> RetrievalQueryV1 \<Rightarrow> AtomId fset \<Rightarrow>
   RetrievalCandidateV1 list \<Rightarrow> PolicyV1 \<Rightarrow> SpontaneousRecallRequestV1 \<Rightarrow> SpontaneousRecallResultV1 outcome option" where
  "spontaneous_recall sha chacha query excluded candidates policy request =
     (if sr_budget request = 0 \<or> sr_budget request > po_flashback_budget_max policy
      then Some (Inl (Err (InvalidFlashbackBudget (po_flashback_budget_max policy))))
      else case bindr (recall_pool sha query excluded candidates) (\<lambda>pool.
          bindr (digest_value sha FLASHBACK_POPULATION_DOMAIN (v_vec v_atom_id (map ca_atom_id pool))) (\<lambda>digest.
          Inr (pool, digest))) of
        Inl e \<Rightarrow> Some (Inl (Err e))
      | Inr (pool, digest) \<Rightarrow>
          map_option (\<lambda>drawn. bindr drawn (\<lambda>positions.
            bindr (traverse (\<lambda>position. bindr (index pool position) (\<lambda>candidate. Inr (flashback_hit candidate))) positions) (\<lambda>hits.
            Inr \<lparr>so_seed = sr_seed request, so_budget = sr_budget request, so_population_digest = digest,
                 so_population_count = length pool, so_hits = hits\<rparr>)))
            (partial_fisher_yates chacha (length pool) (min (sr_budget request) (length pool)) (seed_as_bytes (sr_seed request))))"

section \<open>The query\<close>

definition retrieval_result ::
  "(byte list \<Rightarrow> Digest32) \<Rightarrow> RetrievalQueryV1 \<Rightarrow> RetrievalHitV1 list \<Rightarrow> SpontaneousRecallResultV1 option \<Rightarrow> RetrievalResultV1 result" where
  "retrieval_result sha query hits spontaneous =
     bindr (digest_value sha QUERY_HASH_DOMAIN (v_query query)) (\<lambda>digest.
     Inr \<lparr>rr_contract_version = ''retrieval-result-v1'', rr_query_digest = digest, rr_hits = hits, rr_spontaneous = spontaneous\<rparr>)"

definition rank_retrieval ::
  "(byte list \<Rightarrow> Digest32) \<Rightarrow> (byte list \<Rightarrow> stream) \<Rightarrow> RetrievalQueryV1 \<Rightarrow> RetrievalCandidatesV1 \<Rightarrow> PolicyV1 \<Rightarrow>
   RetrievalResultV1 outcome option" where
  "rank_retrieval sha chacha query candidates policy =
     (case bindr (lift (validate_query query candidates policy)) (\<lambda>_. ranked_hits sha query (rk_ranked candidates) policy) of
        Inl e \<Rightarrow> Some (Inl e)
      | Inr hits \<Rightarrow>
          (let excluded = fset_of_list (map hi_atom_id hits) in
           case qy_spontaneous query of
             None \<Rightarrow> Some (lift (retrieval_result sha query hits None))
           | Some request \<Rightarrow>
               map_option (\<lambda>recalled. bindr recalled (\<lambda>r. lift (retrieval_result sha query hits (Some r))))
                 (spontaneous_recall sha chacha query excluded (rk_episodic_pool candidates) policy request)))"

end
