(* ===== verification/RetrievalLaws.thy ===== *)
theory RetrievalLaws
  imports Retrieval
begin

text \<open>
  The laws of retrieval: when a query is answered, which hits it returns and in which order, that
  nothing outside the query's scope is ever returned, and what the spontaneous draw may add.
\<close>

section \<open>Scores\<close>

lemma unat_sum_ppm:
  assumes "\<forall>p \<in> set ps. ppm_ok p" "length ps \<le> 1000"
  shows "unat (sum_list (map (ucast \<circ> ppm_get) ps) :: u64) = sum_list (map (unat \<circ> ppm_get) ps)"
proof -
  have "unat (\<Sum>p\<leftarrow>ps. ucast (ppm_get p) :: u64) = (\<Sum>p\<leftarrow>ps. unat (ppm_get p)) \<and>
      (\<Sum>p\<leftarrow>ps. unat (ppm_get p)) \<le> length ps * 1000000"
    using assms
  proof (induction ps)
    case (Cons p ps)
    then have ps: "\<forall>p \<in> set ps. ppm_ok p" "length ps \<le> 999" and p: "unat (ppm_get p) \<le> 1000000"
      by (simp_all add: ppm_ok_iff)
    then have "length ps \<le> 1000" by simp
    note IH = Cons.IH [OF ps(1) this]
    have "unat (ucast (ppm_get p) + (\<Sum>p\<leftarrow>ps. ucast (ppm_get p) :: u64)) =
        unat (ucast (ppm_get p) :: u64) + unat (\<Sum>p\<leftarrow>ps. ucast (ppm_get p) :: u64)"
      using IH p ps by (intro unat_word_add_lt) simp
    then show ?case using IH p by simp
  qed simp
  then show ?thesis unfolding comp_def by blast
qed

definition score_of :: "RetrievalQueryV1 \<Rightarrow> RetrievalCandidateV1 \<Rightarrow> ranked" where
  "score_of query c = projr (score_candidate query poc_v1 c)"

lemma score_candidate_eq: "score_candidate query poc_v1 c = Inr (score_of query c)"
  by (simp only: score_of_def score_candidate_def Let_def sum_scores_def asserted_clamp bindr_simps sum.sel)

lemma score_of_fields [simp]:
  "fst (score_of query c) = ca_atom_id c" "fst (snd (score_of query c)) = body_kind (ca_body c)"
  by (simp_all only: score_of_def score_candidate_def Let_def sum_scores_def asserted_clamp bindr_simps sum.sel fst_conv snd_conv)

abbreviation hit_score :: "RetrievalQueryV1 \<Rightarrow> RetrievalCandidateV1 \<Rightarrow> RetrievalScoreV1" where
  "hit_score query c \<equiv> snd (snd (score_of query c))"

abbreviation ppm :: "Ppm \<Rightarrow> nat" where
  "ppm p \<equiv> unat (ppm_get p)"

lemma ppm_ok_query_jaccard [simp]: "ppm_ok (query_jaccard a b)"
  by (simp add: query_jaccard_def Let_def)

lemma ppm_ok_recency [simp]: "ppm_ok (recency_score a r h)"
  by (simp add: recency_score_def Let_def)

lemma score_parts:
  "rs_lexical (hit_score query c) = ca_lexical_score c"
  "rs_semantic (hit_score query c) = query_jaccard (qy_topic_keys query) (bd_topic_keys (ca_body c))"
  "rs_entity (hit_score query c) = query_jaccard (qy_entity_ids query) (bd_entity_ids (ca_body c))"
  "rs_validated_utility (hit_score query c) = validated_utility (ca_state c)"
  "rs_recency (hit_score query c) =
     recency_score (qy_as_of_us query) (iv_recorded_at_us (bd_interval (ca_body c))) 31536000000000"
  by (simp_all only: score_of_def score_candidate_def Let_def sum_scores_def asserted_clamp bindr_simps sum.sel snd_conv
      RetrievalScoreV1.select_convs poc_v1_simps poc_v1_horizons)

lemma unat_recency:
  assumes "recorded \<le> as_of" "0 < horizon"
  shows "ppm (recency_score as_of recorded horizon) = (unat horizon - (unat as_of - unat recorded)) * 1000000 div unat horizon"
proof -
  have age: "unat (as_of - recorded) = unat as_of - unat recorded" using assms(1) by (simp add: unat_sub)
  have h: "0 < unat horizon" using assms(2) by (simp add: word_less_nat_alt)
  show ?thesis
  proof (cases "horizon \<le> as_of - recorded")
    case True
    then have "unat horizon \<le> unat as_of - unat recorded" by (simp add: word_le_nat_alt age)
    then show ?thesis using True assms by (simp add: recency_score_def Let_def not_less PPM_ZERO_def)
  next
    case False
    then have "unat (horizon - (as_of - recorded)) = unat horizon - (unat as_of - unat recorded)"
      by (simp add: unat_sub age)
    moreover have "(unat horizon - (unat as_of - unat recorded)) * 1000000 div unat horizon \<le> unat horizon * 1000000 div unat horizon"
      by (intro div_le_mono mult_le_mono1) (rule diff_le_self)
    then have "(unat horizon - (unat as_of - unat recorded)) * 1000000 div unat horizon \<le> 1000000" using h by simp
    moreover have "recency_score as_of recorded horizon = Ppm_ratio (horizon - (as_of - recorded)) horizon"
      unfolding recency_score_def Let_def using False assms(1) [THEN leD] assms(2) by auto
    ultimately show ?thesis using assms(2) by (simp only: unat_Ppm_ratio min_absorb1) simp
  qed
qed

text \<open>
  the score of a hit.  For a lexical score in range, the total is exactly the sum of the five
  weighted components, each rounded down, with weights of 45, 25, 15, 10 and 5 percent; the clamp
  never applies, the total is at most 1.0, recency falls linearly to zero over 365 days, and a
  candidate as recent as the query whose other components are 1.0 scores exactly 1.0.
\<close>

theorem retrieval_score_exact:
  assumes "ppm_ok (ca_lexical_score c)" "iv_recorded_at_us (bd_interval (ca_body c)) \<le> qy_as_of_us query"
  defines "s \<equiv> hit_score query c"
  shows "ppm (rs_total s) = 450000 * ppm (rs_lexical s) div 1000000 + 250000 * ppm (rs_semantic s) div 1000000 +
      150000 * ppm (rs_entity s) div 1000000 + 100000 * ppm (rs_validated_utility s) div 1000000 +
      50000 * ppm (rs_recency s) div 1000000 \<and>
    ppm (rs_total s) \<le> 1000000 \<and>
    ppm (rs_recency s) = (31536000000000 - (unat (qy_as_of_us query) -
      unat (iv_recorded_at_us (bd_interval (ca_body c))))) * 1000000 div 31536000000000"
proof -
  let ?ps = "[Ppm_multiply (Ppm 450000) (rs_lexical s), Ppm_multiply (Ppm 250000) (rs_semantic s),
     Ppm_multiply (Ppm 150000) (rs_entity s), Ppm_multiply (Ppm 100000) (rs_validated_utility s),
     Ppm_multiply (Ppm 50000) (rs_recency s)]"
  have ok: "ppm (rs_lexical s) \<le> 1000000" "ppm (rs_semantic s) \<le> 1000000" "ppm (rs_entity s) \<le> 1000000"
    "ppm (rs_validated_utility s) \<le> 1000000" "ppm (rs_recency s) \<le> 1000000"
    using assms(1) by (simp_all add: s_def score_parts ppm_ok_iff [symmetric])
  have total: "rs_total s = Ppm (unwrap_or PPM_SCALE (u32_of_u64 (min (sum_list (map (ucast \<circ> ppm_get) ?ps)) (ucast PPM_SCALE))))"
    unfolding s_def score_parts
    by (simp only: score_of_def score_candidate_def Let_def sum_scores_def asserted_clamp bindr_simps sum.sel snd_conv
      RetrievalScoreV1.select_convs poc_v1_simps poc_v1_horizons)
  have sum: "unat (sum_list (map (ucast \<circ> ppm_get) ?ps) :: u64) = sum_list (map (unat \<circ> ppm_get) ?ps)"
    by (rule unat_sum_ppm) simp_all
  have weight: "ppm (Ppm_multiply (Ppm w) p) = unat w * ppm p div 1000000"
    if "ppm p \<le> 1000000" "unat w \<le> 1000000" for w p
  proof -
    have "unat w * ppm p \<le> 1000000 * 1000000" using that by (intro mult_mono) simp_all
    then have "unat w * ppm p div 1000000 \<le> 1000000 * 1000000 div 1000000" by (rule div_le_mono)
    then show ?thesis by (simp add: unat_Ppm_multiply)
  qed
  have parts: "sum_list (map (unat \<circ> ppm_get) ?ps) = 450000 * ppm (rs_lexical s) div 1000000 +
      250000 * ppm (rs_semantic s) div 1000000 + 150000 * ppm (rs_entity s) div 1000000 +
      100000 * ppm (rs_validated_utility s) div 1000000 + 50000 * ppm (rs_recency s) div 1000000"
    using ok by (simp add: weight)
  have "sum_list (map (unat \<circ> ppm_get) ?ps) \<le> 1000000" unfolding parts using ok by linarith
  moreover have "ppm (rs_total s) = min (sum_list (map (unat \<circ> ppm_get) ?ps)) 1000000"
    unfolding total Ppm.sel unat_clamp_min sum ..
  moreover have "ppm (rs_recency s) = (31536000000000 - (unat (qy_as_of_us query) -
      unat (iv_recorded_at_us (bd_interval (ca_body c))))) * 1000000 div 31536000000000"
    unfolding s_def score_parts using unat_recency [OF assms(2), of 31536000000000] by simp
  ultimately show ?thesis unfolding parts by simp
qed

section \<open>Ranked hits\<close>

definition query_eligible :: "RetrievalQueryV1 \<Rightarrow> RetrievalCandidateV1 \<Rightarrow> bool" where
  "query_eligible query c \<longleftrightarrow> ca_integrity c = Complete \<and> in_query_scope query (ca_body c)"

definition retrievable :: "(byte list \<Rightarrow> Digest32) \<Rightarrow> RetrievalCandidateV1 \<Rightarrow> bool" where
  "retrievable sha c \<longleftrightarrow> bd_contract_version (ca_body c) = ''atom-v1'' \<and> atom_id sha (ca_body c) = Inr (ca_atom_id c) \<and>
     st_content_status (ca_state c) = Present \<and>
     st_retention_tier (ca_state c) \<in> (if body_kind (ca_body c) = Episode then {ShortTerm, EpisodicLongTerm, DualLongTerm}
       else {SemanticLongTerm})"

lemma validate_retrieval_candidate_Inr: "validate_retrieval_candidate sha c = Inr () \<longleftrightarrow> retrievable sha c"
  by (cases "body_kind (ca_body c)")
    (auto simp: validate_retrieval_candidate_def retrievable_def Let_def bindr_Inr)

definition candidate_error :: "(byte list \<Rightarrow> Digest32) \<Rightarrow> RetrievalCandidateV1 \<Rightarrow> MemoryError" where
  "candidate_error sha c = projl (validate_retrieval_candidate sha c)"

lemma validate_retrieval_candidate_eq:
  "validate_retrieval_candidate sha c = (if retrievable sha c then Inr () else Inl (candidate_error sha c))"
  using validate_retrieval_candidate_Inr [of sha c]
  by (cases "validate_retrieval_candidate sha c") (auto simp: candidate_error_def)

lemma consider_candidates_eq:
  "try_fold (consider_candidate sha query poc_v1) acc cs =
    (case List.find (\<lambda>c. \<not> retrievable sha c) cs of
       Some c \<Rightarrow> Inl (Err (candidate_error sha c))
     | None \<Rightarrow> Inr (acc @ map (score_of query) (filter (query_eligible query) cs)))"
  by (induction cs arbitrary: acc)
    (auto simp: consider_candidate_def validate_retrieval_candidate_eq score_candidate_eq query_eligible_def split: option.split)

definition top_hits :: "RetrievalQueryV1 \<Rightarrow> RetrievalCandidateV1 list \<Rightarrow> RetrievalHitV1 list" where
  "top_hits query cs = map ranked_hit (take (query_k query poc_v1)
     (sort_key ranked_key (map (score_of query) (filter (query_eligible query) cs))))"

lemma ranked_hits_eq:
  "ranked_hits sha query cs poc_v1 =
    (case List.find (\<lambda>c. \<not> retrievable sha c) cs of
       Some c \<Rightarrow> Inl (Err (candidate_error sha c)) | None \<Rightarrow> Inr (top_hits query cs))"
  by (simp add: ranked_hits_def consider_candidates_eq top_hits_def split: option.split)

lemma ranked_hit_fields [simp]:
  "hi_atom_id (ranked_hit x) = fst x" "hi_score (ranked_hit x) = Some (snd (snd x))" "hi_recall_reason (ranked_hit x) = QueryRanked"
  by (simp_all add: ranked_hit_def)

text \<open>The rank order of two candidates: higher total first, then the smaller identifier.\<close>

definition outranks :: "RetrievalQueryV1 \<Rightarrow> RetrievalCandidateV1 \<Rightarrow> RetrievalCandidateV1 \<Rightarrow> bool" where
  "outranks query c d \<longleftrightarrow> rs_total (hit_score query d) < rs_total (hit_score query c) \<or>
     rs_total (hit_score query c) = rs_total (hit_score query d) \<and> ca_atom_id c < ca_atom_id d"

lemma ranked_key_less: "ranked_key (score_of query c) < ranked_key (score_of query d) \<longleftrightarrow> outranks query c d"
proof -
  have "- int (ppm p) < - int (ppm q) \<longleftrightarrow> q < p" "- int (ppm p) = - int (ppm q) \<longleftrightarrow> p = q" for p q
    unfolding neg_less_iff_less neg_equal_iff_equal of_nat_less_iff of_nat_eq_iff by (simp_all only: less_Ppm_unat Ppm_eq_unat)
  then show ?thesis unfolding ranked_key_def outranks_def less_prod_def fst_conv snd_conv score_of_fields
    by (auto simp: less_le)
qed

lemma top_hits_eq:
  "top_hits query cs = map (ranked_hit \<circ> score_of query)
     (take (query_k query poc_v1) (sort_key (ranked_key \<circ> score_of query) (filter (query_eligible query) cs)))"
  by (simp add: top_hits_def sort_key_map take_map)

lemma sorted_distinct_take_drop:
  fixes f :: "'a \<Rightarrow> 'b::linorder"
  assumes "distinct (map f xs)"
  shows "sorted_wrt (\<lambda>a b. f a < f b) (take k (sort_key f xs))"
    and "a \<in> set (take k (sort_key f xs)) \<Longrightarrow> b \<in> set xs \<Longrightarrow> b \<notin> set (take k (sort_key f xs)) \<Longrightarrow> f a < f b"
proof -
  let ?s = "sort_key f xs"
  have "distinct (map f ?s)" using assms by (metis mset_eq_imp_distinct_iff mset_map mset_sort)
  then have strict: "sorted_wrt (\<lambda>a b. f a < f b) ?s" by (simp add: sorted_wrt_map [symmetric] sorted_wrt_less_iff)
  then show "sorted_wrt (\<lambda>a b. f a < f b) (take k ?s)" by (rule sorted_wrt_take)
  assume "a \<in> set (take k ?s)" "b \<in> set xs" "b \<notin> set (take k ?s)"
  moreover have "set xs = set (take k ?s) \<union> set (drop k ?s)" by (metis append_take_drop_id set_append set_sort)
  moreover have "sorted_wrt (\<lambda>a b. f a < f b) (take k ?s @ drop k ?s)" using strict by simp
  ultimately show "f a < f b" unfolding sorted_wrt_append by blast
qed

lemma validate_unique_from_Inr:
  "validate_unique_from seen cs = Inr u \<longleftrightarrow> distinct (map ca_atom_id cs) \<and> (\<forall>c \<in> set cs. ca_atom_id c |\<notin>| seen)"
  by (induction cs arbitrary: seen) (auto, metis imageI)

lemma validate_candidate_times_Inr:
  "validate_candidate_times cs as_of = Inr u \<longleftrightarrow> (\<forall>c \<in> set cs. iv_recorded_at_us (bd_interval (ca_body c)) \<le> as_of)"
  by (auto simp: validate_candidate_times_def try_each_Inr not_less)

definition query_wf :: "RetrievalQueryV1 \<Rightarrow> RetrievalCandidatesV1 \<Rightarrow> bool" where
  "query_wf query cands \<longleftrightarrow> qy_contract_version query = ''retrieval-query-v1'' \<and> qy_memory_space_id query \<noteq> '''' \<and>
     (qy_memory_space_wide query \<or> qy_repository_id query \<noteq> None) \<and> has_meaningful_query_input query \<and>
     0 < query_k query poc_v1 \<and> query_k query poc_v1 \<le> 100 \<and> length (rk_ranked cands) \<le> 512 \<and>
     distinct (map ca_atom_id (rk_ranked cands)) \<and> distinct (map ca_atom_id (rk_episodic_pool cands)) \<and>
     (\<forall>c \<in> set (rk_ranked cands) \<union> set (rk_episodic_pool cands).
       iv_recorded_at_us (bd_interval (ca_body c)) \<le> qy_as_of_us query)"

lemma validate_query_Inr: "validate_query query cands policy = Inr () \<longleftrightarrow> policy = poc_v1 \<and> query_wf query cands"
  unfolding validate_query_def query_wf_def validate_unique_def
  by (auto simp: bindr_Inr validate_poc_v1_def validate_unique_from_Inr validate_candidate_times_Inr poc_v1_simps)

text \<open>What a successful query went through.\<close>

lemma rank_retrieval_InrD:
  assumes "rank_retrieval sha chacha query cands policy = Some (Inr r)"
  shows "policy = poc_v1" "query_wf query cands" "\<forall>c \<in> set (rk_ranked cands). retrievable sha c"
    "rr_hits r = top_hits query (rk_ranked cands)" "digest_value sha QUERY_HASH_DOMAIN (v_query query) = Inr (rr_query_digest r)"
    "case qy_spontaneous query of None \<Rightarrow> rr_spontaneous r = None
     | Some request \<Rightarrow> \<exists>s. rr_spontaneous r = Some s \<and>
         spontaneous_recall sha chacha query (fset_of_list (map hi_atom_id (rr_hits r))) (rk_episodic_pool cands) poc_v1 request = Some (Inr s)"
    "rr_contract_version r = ''retrieval-result-v1''"
proof -
  from assms obtain hits where hits: "validate_query query cands policy = Inr ()" "ranked_hits sha query (rk_ranked cands) policy = Inr hits"
    by (auto simp: rank_retrieval_def bindr_Inr lift_Inr split: sum.splits)
  then show guards: "policy = poc_v1" "query_wf query cands" by (simp_all add: validate_query_Inr)
  have none: "List.find (\<lambda>c. \<not> retrievable sha c) (rk_ranked cands) = None" and top: "hits = top_hits query (rk_ranked cands)"
    using hits(2) unfolding guards(1) ranked_hits_eq by (auto split: option.splits)
  show "\<forall>c \<in> set (rk_ranked cands). retrievable sha c" using none by (simp add: find_None_iff)
  show h: "rr_hits r = top_hits query (rk_ranked cands)" "digest_value sha QUERY_HASH_DOMAIN (v_query query) = Inr (rr_query_digest r)"
    "rr_contract_version r = ''retrieval-result-v1''"
    using assms hits top by (auto simp: rank_retrieval_def retrieval_result_def Let_def bindr_Inr lift_Inr split: option.splits)
  show "case qy_spontaneous query of None \<Rightarrow> rr_spontaneous r = None
     | Some request \<Rightarrow> \<exists>s. rr_spontaneous r = Some s \<and>
         spontaneous_recall sha chacha query (fset_of_list (map hi_atom_id (rr_hits r))) (rk_episodic_pool cands) poc_v1 request = Some (Inr s)"
    using assms hits top unfolding h(1) guards(1)
    by (auto simp: rank_retrieval_def retrieval_result_def Let_def bindr_Inr lift_Inr split: option.splits)
qed

text \<open>
  C18: the hits of a query are its top candidates.  A successful query returns, in rank order and
  without duplicates, exactly as many hits as it asked for or as are eligible (complete and in
  scope), each hit being an eligible candidate with its score; every eligible candidate that is
  left out ranks below every hit, by a smaller total or by the larger identifier at the same total.
\<close>

theorem retrieval_returns_top_hits:
  assumes "rank_retrieval sha chacha query cands policy = Some (Inr r)"
  defines "eligible \<equiv> filter (query_eligible query) (rk_ranked cands)"
  shows "\<exists>top. rr_hits r = map (ranked_hit \<circ> score_of query) top \<and> set top \<subseteq> set eligible \<and>
    length top = min (query_k query poc_v1) (length eligible) \<and> length top \<le> 100 \<and>
    sorted_wrt (outranks query) top \<and> distinct (map hi_atom_id (rr_hits r)) \<and>
    (\<forall>c \<in> set top. \<forall>d \<in> set eligible - set top. outranks query c d)"
proof (intro exI conjI)
  note d = rank_retrieval_InrD [OF assms(1)]
  let ?f = "ranked_key \<circ> score_of query"
  define top where "top = take (query_k query poc_v1) (sort_key ?f eligible)"
  have ids: "distinct (map ca_atom_id eligible)"
    using d(2) by (simp add: eligible_def query_wf_def distinct_map_filter)
  have "distinct (map ?f eligible)"
    using ids by (auto simp: distinct_map inj_on_def ranked_key_def)
  note order = sorted_distinct_take_drop [OF this, where k = "query_k query poc_v1", folded top_def]
  show hits: "rr_hits r = map (ranked_hit \<circ> score_of query) top"
    unfolding d(4) top_hits_eq top_def eligible_def ..
  show sub: "set top \<subseteq> set eligible" unfolding top_def by (metis set_sort set_take_subset)
  show len: "length top = min (query_k query poc_v1) (length eligible)" by (simp add: top_def min.commute)
  show "length top \<le> 100" using d(2) by (simp add: len query_wf_def min.coboundedI1)
  show "sorted_wrt (outranks query) top" using order(1) by (simp add: ranked_key_less)
  show "\<forall>c \<in> set top. \<forall>d \<in> set eligible - set top. outranks query c d"
    using order(2) by (auto simp: ranked_key_less)
  have "distinct (map ca_atom_id (sort_key ?f eligible))" using ids by (metis mset_eq_imp_distinct_iff mset_map mset_sort)
  then have "distinct (map ca_atom_id top)" unfolding top_def take_map [symmetric] by (rule distinct_take)
  moreover have "map hi_atom_id (rr_hits r) = map ca_atom_id top" by (simp add: hits)
  ultimately show "distinct (map hi_atom_id (rr_hits r))" by (simp only:)
qed

section \<open>Spontaneous recall\<close>

lemma recall_pool_Inr:
  "recall_pool sha query excluded cs = Inr pool \<longleftrightarrow>
     (\<forall>c \<in> set cs. retrievable sha c) \<and> pool = sort_key ca_atom_id (filter (recall_eligible query excluded) cs)"
proof -
  have "try_fold (\<lambda>pool candidate. bindr (validate_retrieval_candidate sha candidate) (\<lambda>_.
         Inr (if recall_eligible query excluded candidate then pool @ [candidate] else pool))) acc cs = Inr res \<longleftrightarrow>
      (\<forall>c \<in> set cs. retrievable sha c) \<and> res = acc @ filter (recall_eligible query excluded) cs" for acc res
    by (induction cs arbitrary: acc) (auto simp: validate_retrieval_candidate_eq)
  then show ?thesis by (auto simp: recall_pool_def bindr_Inr)
qed

lemma spontaneous_recall_InrD:
  assumes "spontaneous_recall sha chacha query excluded cs poc_v1 request = Some (Inr s)" "length cs < 2 ^ 64"
  defines "pool \<equiv> sort_key ca_atom_id (filter (recall_eligible query excluded) cs)"
  obtains ps where "0 < sr_budget request" "sr_budget request \<le> 3" "\<forall>c \<in> set cs. retrievable sha c"
    "distinct ps" "set ps \<subseteq> {..<length pool}" "length ps = min (sr_budget request) (length pool)"
    "so_hits s = map (\<lambda>p. flashback_hit (pool ! p)) ps" "so_population_count s = length pool"
    "so_seed s = sr_seed request" "so_budget s = sr_budget request"
    "digest_value sha FLASHBACK_POPULATION_DOMAIN (v_vec v_atom_id (map ca_atom_id pool)) = Inr (so_population_digest s)"
proof -
  let ?w = "min (sr_budget request) (length pool)"
  from assms(1) obtain drawn where budget: "0 < sr_budget request" "sr_budget request \<le> 3"
    and ok: "recall_pool sha query excluded cs = Inr pool"
      "digest_value sha FLASHBACK_POPULATION_DOMAIN (v_vec v_atom_id (map ca_atom_id pool)) = Inr (so_population_digest s)"
    and drawn: "partial_fisher_yates chacha (length pool) ?w (seed_as_bytes (sr_seed request)) = Some (Inr drawn)"
    and hits: "traverse (\<lambda>position. bindr (index pool position) (\<lambda>candidate. Inr (flashback_hit candidate))) drawn = Inr (so_hits s)"
    and rest: "so_population_count s = length pool" "so_seed s = sr_seed request" "so_budget s = sr_budget request"
    by (auto simp: spontaneous_recall_def recall_pool_Inr bindr_Inr pool_def split: if_splits sum.splits)
  have "length pool \<le> length cs" by (simp add: pool_def)
  then have lt: "length pool < 2 ^ 64" using assms(2) by simp
  obtain ks where ks: "offsets (chacha (seed_as_bytes (sr_seed request))) (length pool) ?w 0 = Some ks"
    "drawn = picks [0..<length pool] ks"
    using drawn unfolding partial_fisher_yates_offsets [OF lt] by (auto simp: min_absorb1)
  have "length ks = ?w \<and> offsets_ok (length pool) ks" by (rule offsets_okD [OF ks(1) _ lt]) simp
  then have ps: "distinct drawn" "set drawn \<subseteq> {..<length pool}" "length drawn = ?w"
    using picks_selects [of "[0..<length pool]" ks] by (auto simp: ks(2))
  have "traverse (\<lambda>position. bindr (index pool position) (\<lambda>candidate. Inr (flashback_hit candidate))) drawn =
      Inr (map (\<lambda>p. flashback_hit (pool ! p)) drawn)"
    by (rule traverse_map_Inr) (use ps(2) in auto)
  then have "so_hits s = map (\<lambda>p. flashback_hit (pool ! p)) drawn" using hits by simp
  then show thesis using that budget ok ps rest by (simp add: recall_pool_Inr)
qed

lemma flashback_member:
  assumes "spontaneous_recall sha chacha query excluded cs poc_v1 request = Some (Inr s)" "length cs < 2 ^ 64" "h \<in> set (so_hits s)"
  obtains c where "c \<in> set cs" "h = flashback_hit c" "recall_eligible query excluded c" "retrievable sha c"
proof -
  define pool where "pool = sort_key ca_atom_id (filter (recall_eligible query excluded) cs)"
  from spontaneous_recall_InrD [OF assms(1,2), folded pool_def] obtain ps where ps: "\<forall>c \<in> set cs. retrievable sha c"
    "set ps \<subseteq> {..<length pool}" "so_hits s = map (\<lambda>p. flashback_hit (pool ! p)) ps" by metis
  obtain p where p: "p \<in> set ps" "h = flashback_hit (pool ! p)" using assms(3) by (auto simp: ps(3))
  then have "pool ! p \<in> set pool" using ps(2) by (auto intro: nth_mem)
  then have "pool ! p \<in> set cs" "recall_eligible query excluded (pool ! p)" unfolding pool_def by simp_all
  then show thesis using that p(2) ps(1) by blast
qed

text \<open>
  C25: nothing outside the query's scope is recalled.  Every ranked hit of a successful query and
  every spontaneous one names a candidate of the query's memory space (and of its repository,
  unless the query spans the space) whose body is present and complete, hashes to that identifier
  and was recorded no later than the query's time.
\<close>

theorem retrieval_scope_isolated:
  assumes "rank_retrieval sha chacha query cands policy = Some (Inr r)" "length (rk_episodic_pool cands) < 2 ^ 64"
  shows "\<forall>h \<in> set (rr_hits r) \<union> (case rr_spontaneous r of None \<Rightarrow> {} | Some s \<Rightarrow> set (so_hits s)).
    \<exists>c \<in> set (rk_ranked cands) \<union> set (rk_episodic_pool cands). hi_atom_id h = ca_atom_id c \<and>
      atom_id sha (ca_body c) = Inr (hi_atom_id h) \<and> in_query_scope query (ca_body c) \<and>
      ca_integrity c = Complete \<and> st_content_status (ca_state c) = Present \<and>
      iv_recorded_at_us (bd_interval (ca_body c)) \<le> qy_as_of_us query"
proof
  note d = rank_retrieval_InrD [OF assms(1)]
  fix h assume "h \<in> set (rr_hits r) \<union> (case rr_spontaneous r of None \<Rightarrow> {} | Some s \<Rightarrow> set (so_hits s))"
  then consider (ranked) "h \<in> set (rr_hits r)" | (drawn) s where "rr_spontaneous r = Some s" "h \<in> set (so_hits s)"
    by (auto split: option.splits)
  then show "\<exists>c \<in> set (rk_ranked cands) \<union> set (rk_episodic_pool cands). hi_atom_id h = ca_atom_id c \<and>
      atom_id sha (ca_body c) = Inr (hi_atom_id h) \<and> in_query_scope query (ca_body c) \<and>
      ca_integrity c = Complete \<and> st_content_status (ca_state c) = Present \<and>
      iv_recorded_at_us (bd_interval (ca_body c)) \<le> qy_as_of_us query"
  proof cases
    case ranked
    then obtain c where c: "c \<in> set (filter (query_eligible query) (rk_ranked cands))" "h = ranked_hit (score_of query c)"
      unfolding d(4) top_hits_eq by (auto dest: in_set_takeD)
    then have c': "c \<in> set (rk_ranked cands)" "query_eligible query c" by auto
    have "retrievable sha c" using d(3) c'(1) by blast
    moreover have "iv_recorded_at_us (bd_interval (ca_body c)) \<le> qy_as_of_us query" using d(2) c'(1) unfolding query_wf_def by blast
    ultimately show ?thesis using c(2) c' by (intro bexI [of _ c]) (simp_all add: retrievable_def query_eligible_def)
  next
    case drawn
    then obtain request where recalled: "spontaneous_recall sha chacha query (fset_of_list (map hi_atom_id (rr_hits r)))
        (rk_episodic_pool cands) poc_v1 request = Some (Inr s)"
      using d(6) by (auto split: option.splits)
    from flashback_member [OF this assms(2) drawn(2)] obtain c where c: "h = flashback_hit c"
      and c': "c \<in> set (rk_episodic_pool cands)" "recall_eligible query (fset_of_list (map hi_atom_id (rr_hits r))) c"
      and "retrievable sha c" by metis
    moreover have "iv_recorded_at_us (bd_interval (ca_body c)) \<le> qy_as_of_us query" using d(2) c'(1) unfolding query_wf_def by blast
    ultimately show ?thesis
      using c c' by (intro bexI [of _ c]) (simp_all add: retrievable_def recall_eligible_def flashback_hit_def)
  qed
qed

text \<open>
  C26: spontaneous recall adds a bounded draw.  When a query asks for it, a successful result has
  exactly as many flashbacks as the budget (one to three) or as the population has; they are
  distinct, unscored, marked spontaneous, come from long-term episodes of the pool, and repeat no
  ranked hit; and the result states the population they were drawn from.  Without a request the
  result has none.
\<close>

theorem retrieval_flashbacks_sound:
  assumes "rank_retrieval sha chacha query cands policy = Some (Inr r)" "length (rk_episodic_pool cands) < 2 ^ 64"
  shows "(qy_spontaneous query = None \<longleftrightarrow> rr_spontaneous r = None) \<and>
    (\<forall>request s. qy_spontaneous query = Some request \<longrightarrow> rr_spontaneous r = Some s \<longrightarrow>
      0 < sr_budget request \<and> sr_budget request \<le> 3 \<and>
      so_population_count s = length (filter (recall_eligible query (fset_of_list (map hi_atom_id (rr_hits r)))) (rk_episodic_pool cands)) \<and>
      length (so_hits s) = min (sr_budget request) (so_population_count s) \<and> distinct (map hi_atom_id (so_hits s)) \<and>
      set (map hi_atom_id (so_hits s)) \<inter> set (map hi_atom_id (rr_hits r)) = {} \<and>
      (\<forall>h \<in> set (so_hits s). hi_score h = None \<and> hi_recall_reason h = Spontaneous \<and>
        (\<exists>c \<in> set (rk_episodic_pool cands). ca_atom_id c = hi_atom_id h \<and> is_episodic_ltm (ca_state c) \<and> body_kind (ca_body c) = Episode)))"
proof (intro conjI allI impI)
  note d = rank_retrieval_InrD [OF assms(1)]
  show "qy_spontaneous query = None \<longleftrightarrow> rr_spontaneous r = None" using d(6) by (auto split: option.splits)
  fix request s assume some: "qy_spontaneous query = Some request" "rr_spontaneous r = Some s"
  let ?excluded = "fset_of_list (map hi_atom_id (rr_hits r))"
  let ?filtered = "filter (recall_eligible query ?excluded) (rk_episodic_pool cands)"
  define pool where "pool = sort_key ca_atom_id ?filtered"
  have recalled: "spontaneous_recall sha chacha query ?excluded (rk_episodic_pool cands) poc_v1 request = Some (Inr s)"
    using d(6) some by simp
  from spontaneous_recall_InrD [OF recalled assms(2), folded pool_def] obtain ps where ps:
    "0 < sr_budget request" "sr_budget request \<le> 3" "distinct ps" "set ps \<subseteq> {..<length pool}"
    "length ps = min (sr_budget request) (length pool)" "so_hits s = map (\<lambda>p. flashback_hit (pool ! p)) ps"
    "so_population_count s = length pool" by metis
  note member = flashback_member [OF recalled assms(2)]
  show "0 < sr_budget request" "sr_budget request \<le> 3" by (rule ps)+
  show "so_population_count s = length ?filtered" by (simp add: ps(7) pool_def)
  show "length (so_hits s) = min (sr_budget request) (so_population_count s)" by (simp add: ps(5-7))
  have "distinct (map ca_atom_id ?filtered)" using d(2) by (simp add: query_wf_def distinct_map_filter)
  then have pool: "distinct (map ca_atom_id pool)" unfolding pool_def by (metis mset_eq_imp_distinct_iff mset_map mset_sort)
  have ids: "map hi_atom_id (so_hits s) = map (\<lambda>p. map ca_atom_id pool ! p) ps"
    using ps(4) by (auto simp: ps(6) flashback_hit_def)
  show "distinct (map hi_atom_id (so_hits s))"
    unfolding ids distinct_map using ps(3) inj_on_nth [OF pool, of "set ps"] ps(4) by (auto simp del: nth_map)
  show "set (map hi_atom_id (so_hits s)) \<inter> set (map hi_atom_id (rr_hits r)) = {}"
    by (auto simp: flashback_hit_def recall_eligible_def fset_of_list.rep_eq elim!: member)
  show "\<forall>h \<in> set (so_hits s). hi_score h = None \<and> hi_recall_reason h = Spontaneous \<and>
      (\<exists>c \<in> set (rk_episodic_pool cands). ca_atom_id c = hi_atom_id h \<and> is_episodic_ltm (ca_state c) \<and> body_kind (ca_body c) = Episode)"
  proof
    fix h assume "h \<in> set (so_hits s)"
    from member [OF this] obtain c where "c \<in> set (rk_episodic_pool cands)" "h = flashback_hit c" "recall_eligible query ?excluded c" .
    then show "hi_score h = None \<and> hi_recall_reason h = Spontaneous \<and>
      (\<exists>c \<in> set (rk_episodic_pool cands). ca_atom_id c = hi_atom_id h \<and> is_episodic_ltm (ca_state c) \<and> body_kind (ca_body c) = Episode)"
      by (auto simp: flashback_hit_def recall_eligible_def)
  qed
qed

section \<open>Order and termination\<close>

lemma fset_of_list_perm: "mset xs = mset ys \<Longrightarrow> fset_of_list xs = fset_of_list ys"
  unfolding fset_inject [symmetric] fset_of_list.rep_eq by (rule mset_eq_setD)

text \<open>
  the order in which candidates are supplied is irrelevant.  A query that succeeds on some
  listing of its ranked candidates and of its pool has the same result on every other listing.
\<close>

theorem retrieval_order_independent:
  assumes "rank_retrieval sha chacha query cands policy = Some (Inr r)"
    and "mset (rk_ranked cands') = mset (rk_ranked cands)" "mset (rk_episodic_pool cands') = mset (rk_episodic_pool cands)"
  shows "rank_retrieval sha chacha query cands' policy = Some (Inr r)"
proof -
  note d = rank_retrieval_InrD [OF assms(1)]
  have sets: "set (rk_ranked cands') = set (rk_ranked cands)" "set (rk_episodic_pool cands') = set (rk_episodic_pool cands)"
    using assms(2,3) by (auto dest: mset_eq_setD)
  have dist: "distinct (map ca_atom_id xs) = distinct (map ca_atom_id ys)" if "mset xs = mset ys" for xs ys
    using that by (metis mset_eq_imp_distinct_iff mset_map)
  have "query_wf query cands'"
    using d(2) unfolding query_wf_def sets dist [OF assms(2)] dist [OF assms(3)] using assms(2) by (metis size_mset)
  then have guards: "validate_query query cands' policy = Inr ()" using d(1) by (simp add: validate_query_Inr)
  have sorted_eq: "sort_key f (filter P xs) = sort_key f (filter P ys)"
    if "mset xs = mset ys" "inj_on f (set (filter P xs))" for f :: "RetrievalCandidateV1 \<Rightarrow> 'b::linorder" and P xs ys
    using that by (intro sort_key_inj_key_eq) simp_all
  have inj: "inj_on ca_atom_id (set (rk_ranked cands))" "inj_on ca_atom_id (set (rk_episodic_pool cands))"
    using d(2) by (simp_all add: query_wf_def distinct_map)
  have "top_hits query (rk_ranked cands') = top_hits query (rk_ranked cands)"
    unfolding top_hits_eq
    by (subst sorted_eq [OF assms(2)]) (use inj(1) in \<open>auto simp: sets inj_on_def ranked_key_def\<close>)
  moreover have "List.find (\<lambda>c. \<not> retrievable sha c) (rk_ranked cands') = None"
    using d(3) by (simp add: find_None_iff sets)
  ultimately have ranked: "ranked_hits sha query (rk_ranked cands') poc_v1 = Inr (rr_hits r)"
    by (simp add: ranked_hits_eq d(4))
  have pool: "recall_pool sha query excluded (rk_episodic_pool cands') = recall_pool sha query excluded (rk_episodic_pool cands)"
    if "recall_pool sha query excluded (rk_episodic_pool cands) = Inr p" for excluded p
  proof -
    have "sort_key ca_atom_id (filter (recall_eligible query excluded) (rk_episodic_pool cands')) =
        sort_key ca_atom_id (filter (recall_eligible query excluded) (rk_episodic_pool cands))"
      by (rule sorted_eq [OF assms(3)]) (use inj(2) in \<open>auto simp: sets inj_on_def\<close>)
    then have "recall_pool sha query excluded (rk_episodic_pool cands') = Inr p"
      using that unfolding recall_pool_Inr sets by simp
    then show ?thesis using that by simp
  qed
  have recalled: "spontaneous_recall sha chacha query excluded (rk_episodic_pool cands') poc_v1 request = Some (Inr s)"
    if "spontaneous_recall sha chacha query excluded (rk_episodic_pool cands) poc_v1 request = Some (Inr s)" for excluded request s
    using that pool [of excluded] unfolding spontaneous_recall_def
    by (cases "recall_pool sha query excluded (rk_episodic_pool cands)") (auto split: if_splits)
  have result: "retrieval_result sha query (rr_hits r) s = Inr (r\<lparr>rr_spontaneous := s\<rparr>)" for s
    using d(5,7) by (cases r) (simp add: retrieval_result_def)
  show ?thesis
    using d(6) guards ranked recalled result
    by (cases "qy_spontaneous query") (auto simp: rank_retrieval_def Let_def d(1))
qed

lemma ranked_hits_no_panic: "ranked_hits sha query cs poc_v1 \<noteq> Inl Panic"
  by (simp add: ranked_hits_eq split: option.split)

text \<open>
  C40: retrieval returns.  If the generator keeps producing words that are at least the size of the
  pool, every query ends with a result or an error value; no index is out of range, no arithmetic
  overflows and no assertion fails.
\<close>

theorem retrieval_returns:
  assumes "length (rk_episodic_pool cands) < 2 ^ 64"
    and "\<And>seed n p. n \<le> length (rk_episodic_pool cands) \<Longrightarrow> \<exists>i \<ge> p. of_nat n \<le> chacha seed i"
  shows "\<exists>res. rank_retrieval sha chacha query cands policy = Some res \<and> res \<noteq> Inl Panic"
proof (cases "validate_query query cands policy")
  case (Inl e)
  then show ?thesis by (simp add: rank_retrieval_def)
next
  case (Inr u)
  then have ok: "validate_query query cands policy = Inr ()" "policy = poc_v1" using validate_query_Inr [of query cands policy] by simp_all
  have recall: "\<exists>res. spontaneous_recall sha chacha query excluded (rk_episodic_pool cands) poc_v1 request = Some res \<and> res \<noteq> Inl Panic"
    for excluded request
  proof (cases "bindr (recall_pool sha query excluded (rk_episodic_pool cands)) (\<lambda>pool.
      bindr (digest_value sha FLASHBACK_POPULATION_DOMAIN (v_vec v_atom_id (map ca_atom_id pool))) (\<lambda>digest. Inr (pool, digest)))")
    case (Inl e)
    then show ?thesis by (simp add: spontaneous_recall_def)
  next
    case (Inr x)
    then obtain pool digest where x: "x = (pool, digest)" "recall_pool sha query excluded (rk_episodic_pool cands) = Inr pool"
      by (auto simp: bindr_Inr)
    let ?w = "min (sr_budget request) (length pool)"
    have "length pool \<le> length (rk_episodic_pool cands)" using x(2) by (simp add: recall_pool_Inr)
    then have lt: "length pool < 2 ^ 64" using assms(1) by simp
    obtain ks where ks: "offsets (chacha (seed_as_bytes (sr_seed request))) (length pool) ?w 0 = Some ks"
      using offsets_halt [of ?w "length pool" "chacha (seed_as_bytes (sr_seed request))" 0] lt assms(2) \<open>length pool \<le> _\<close> by auto
    have "length ks = ?w \<and> offsets_ok (length pool) ks" by (rule offsets_okD [OF ks _ lt]) simp
    then have "set (picks [0..<length pool] ks) \<subseteq> {..<length pool}" using picks_selects [of "[0..<length pool]" ks] by auto
    then have "traverse (\<lambda>position. bindr (index pool position) (\<lambda>candidate. Inr (flashback_hit candidate))) (picks [0..<length pool] ks) =
        Inr (map (\<lambda>p. flashback_hit (pool ! p)) (picks [0..<length pool] ks))"
      by (intro traverse_map_Inr) auto
    then show ?thesis
      using Inr ks by (simp add: spontaneous_recall_def x(1) partial_fisher_yates_offsets [OF lt] min_absorb1)
  qed
  show ?thesis
  proof (cases "ranked_hits sha query (rk_ranked cands) policy")
    case (Inl e)
    then show ?thesis using ok ranked_hits_no_panic by (auto simp: rank_retrieval_def)
  next
    case hits: (Inr hits)
    show ?thesis
    proof (cases "qy_spontaneous query")
      case None
      then show ?thesis using ok hits by (simp add: rank_retrieval_def)
    next
      case (Some request)
      obtain res where res: "spontaneous_recall sha chacha query (fset_of_list (map hi_atom_id hits)) (rk_episodic_pool cands) poc_v1 request = Some res"
        "res \<noteq> Inl Panic" using recall by blast
      then show ?thesis using ok hits Some by (cases res) (auto simp: rank_retrieval_def)
    qed
  qed
qed

section \<open>A concrete query\<close>

definition sample_query :: "SpontaneousRecallRequestV1 option \<Rightarrow> RetrievalQueryV1" where
  "sample_query spontaneous = \<lparr>qy_contract_version = ''retrieval-query-v1'', qy_memory_space_id = ''space-a'',
     qy_repository_id = Some ''repo-a'', qy_memory_space_wide = False, qy_as_of_us = 100, qy_terms = [''memory''],
     qy_topic_keys = {||}, qy_entity_ids = {||}, qy_k = Some 2, qy_spontaneous = spontaneous\<rparr>"

definition sample_retrievable :: "RetentionTierV1 \<Rightarrow> RetrievalCandidateV1" where
  "sample_retrievable tier = \<lparr>ca_atom_id = AtomId Digest32_ZERO, ca_body = sample_body ''t'',
     ca_state = \<lparr>st_retention_tier = tier, st_content_status = Present, st_expires_at_us = None, st_superseded_by = None,
       st_feedback_positive = 0, st_feedback_negative = 0, st_retrieval_count = 0, st_retirement_run_id = None\<rparr>,
     ca_lexical_score = Ppm 500000, ca_integrity = Complete\<rparr>"

abbreviation sample_request :: SpontaneousRecallRequestV1 where
  "sample_request \<equiv> \<lparr>sr_seed = Seed32 Digest32_ZERO, sr_budget = 1\<rparr>"

lemma sample_body_fields:
  "body_kind (sample_body ''t'') = Episode" "iv_recorded_at_us (bd_interval (sample_body ''t'')) = 12"
  "bd_contract_version (sample_body ''t'') = ''atom-v1''" "bd_scope (sample_body ''t'') = \<lparr>sc_memory_space_id = ''space-a'',
     sc_repository_id = Some ''repo-a'', sc_task_id = None, sc_agent_id = None, sc_session_id = ''session-a''\<rparr>"
  by (simp_all add: sample_body_def body_kind_def)

lemma sample_retrievable_ok:
  "tier \<in> {ShortTerm, EpisodicLongTerm} \<Longrightarrow> retrievable (\<lambda>_. Digest32_ZERO) (sample_retrievable tier)"
proof -
  obtain bs where "body_canonical_bytes (sample_body ''t'') = Inr bs"
    using body_canonical_bytes_total [of "sample_body ''t''"] by (auto simp: sample_body_vsize)
  then have "atom_id (\<lambda>_. Digest32_ZERO) (sample_body ''t'') = Inr (AtomId Digest32_ZERO)" by (simp add: atom_id_def hash_prefixed_def)
  then show "tier \<in> {ShortTerm, EpisodicLongTerm} \<Longrightarrow> retrievable (\<lambda>_. Digest32_ZERO) (sample_retrievable tier)"
    by (auto simp: retrievable_def sample_retrievable_def sample_body_fields)
qed

lemma sample_query_valid:
  "cs = [] \<or> cs = [sample_retrievable t] \<Longrightarrow> ps = [] \<or> ps = [sample_retrievable u] \<Longrightarrow>
   query_wf (sample_query sp) \<lparr>rk_ranked = cs, rk_episodic_pool = ps\<rparr>"
  by (auto simp: query_wf_def sample_query_def query_k_def has_meaningful_query_input_def trim_is_empty_def str_bytes_def
      sample_retrievable_def sample_body_fields space3_def word_le_nat_alt)

lemma sample_query_digest: "\<exists>d. digest_value sha QUERY_HASH_DOMAIN (v_query (sample_query sp)) = Inr d"
proof -
  have "vsize (v_query (sample_query sp)) < 2 ^ 64" "float_free (v_query (sample_query sp))"
    by (simp_all add: v_query_def sample_query_def v_recall_request_def v_string_set_def float_free_simps split: option.split)
  then show ?thesis using encode_value_total by (auto simp: digest_value_Inr)
qed

lemma sample_ranked:
  "\<exists>r. rank_retrieval (\<lambda>_. Digest32_ZERO) (\<lambda>_ _. 0) (sample_query None)
     \<lparr>rk_ranked = [sample_retrievable ShortTerm], rk_episodic_pool = []\<rparr> poc_v1 = Some (Inr r)"
proof -
  let ?c = "sample_retrievable ShortTerm" and ?cands = "\<lparr>rk_ranked = [sample_retrievable ShortTerm], rk_episodic_pool = []\<rparr>"
  have "validate_query (sample_query None) ?cands poc_v1 = Inr ()"
    unfolding validate_query_Inr using sample_query_valid by blast
  moreover have "ranked_hits (\<lambda>_. Digest32_ZERO) (sample_query None) [?c] poc_v1 = Inr (top_hits (sample_query None) [?c])"
    by (simp add: ranked_hits_eq sample_retrievable_ok)
  moreover obtain d where "digest_value (\<lambda>_. Digest32_ZERO) QUERY_HASH_DOMAIN (v_query (sample_query None)) = Inr d"
    using sample_query_digest by blast
  moreover have "qy_spontaneous (sample_query None) = None" by (simp add: sample_query_def)
  ultimately show ?thesis by (simp add: rank_retrieval_def retrieval_result_def)
qed

lemma sample_recalled:
  "\<exists>r s. rank_retrieval (\<lambda>_. Digest32_ZERO) (\<lambda>_ _. 0) (sample_query (Some sample_request))
     \<lparr>rk_ranked = [], rk_episodic_pool = [sample_retrievable EpisodicLongTerm]\<rparr> poc_v1 = Some (Inr r) \<and>
     rr_spontaneous r = Some s"
proof -
  let ?c = "sample_retrievable EpisodicLongTerm" and ?q = "sample_query (Some sample_request)"
  let ?cands = "\<lparr>rk_ranked = [], rk_episodic_pool = [?c]\<rparr>" and ?z = "\<lambda>_ :: byte list. Digest32_ZERO"
  have "validate_query ?q ?cands poc_v1 = Inr ()" unfolding validate_query_Inr using sample_query_valid by blast
  moreover have "ranked_hits ?z ?q [] poc_v1 = Inr []" by (simp add: ranked_hits_eq top_hits_def)
  moreover obtain d where "digest_value ?z QUERY_HASH_DOMAIN (v_query ?q) = Inr d" using sample_query_digest by blast
  moreover have "\<exists>s. spontaneous_recall ?z (\<lambda>_ _. 0) ?q {||} [?c] poc_v1 sample_request = Some (Inr s)"
  proof -
    have elig: "recall_eligible ?q {||} ?c"
      by (simp add: recall_eligible_def sample_retrievable_def sample_body_fields is_episodic_ltm_def in_query_scope_def sample_query_def)
    then have pool: "recall_pool ?z ?q {||} [?c] = Inr [?c]" by (simp add: recall_pool_Inr sample_retrievable_ok)
    obtain p where "digest_value ?z FLASHBACK_POPULATION_DOMAIN (v_vec v_atom_id [ca_atom_id ?c]) = Inr p"
      using encode_value_total [of "v_vec v_atom_id [ca_atom_id ?c]"] by (auto simp: digest_value_Inr float_free_simps)
    moreover have "partial_fisher_yates (\<lambda>_ _. 0) 1 1 (seed_as_bytes (Seed32 Digest32_ZERO)) = Some (Inr [0])"
      by (subst partial_fisher_yates_offsets) (simp_all add: uniform_below_def)
    ultimately show ?thesis using pool by (simp add: spontaneous_recall_def)
  qed
  then obtain s where "spontaneous_recall ?z (\<lambda>_ _. 0) ?q {||} [?c] poc_v1 sample_request = Some (Inr s)" by blast
  moreover have "qy_spontaneous ?q = Some sample_request" by (simp add: sample_query_def)
  ultimately show ?thesis by (simp add: rank_retrieval_def retrieval_result_def)
qed

theorem retrieval_score_exact_witness:
  "ppm (rs_total (hit_score (sample_query None) (sample_retrievable ShortTerm))) \<le> 1000000"
proof -
  have "ppm_ok (ca_lexical_score (sample_retrievable ShortTerm))" by (simp add: sample_retrievable_def ppm_ok_iff)
  moreover have "iv_recorded_at_us (bd_interval (ca_body (sample_retrievable ShortTerm))) \<le> qy_as_of_us (sample_query None)"
    by (simp add: sample_retrievable_def sample_query_def sample_body_fields word_le_nat_alt)
  ultimately show ?thesis using retrieval_score_exact by blast
qed

theorem retrieval_returns_top_hits_witness:
  "\<exists>r. rank_retrieval (\<lambda>_. Digest32_ZERO) (\<lambda>_ _. 0) (sample_query None)
     \<lparr>rk_ranked = [sample_retrievable ShortTerm], rk_episodic_pool = []\<rparr> poc_v1 = Some (Inr r) \<and> distinct (map hi_atom_id (rr_hits r))"
proof -
  obtain r where r: "rank_retrieval (\<lambda>_. Digest32_ZERO) (\<lambda>_ _. 0) (sample_query None)
     \<lparr>rk_ranked = [sample_retrievable ShortTerm], rk_episodic_pool = []\<rparr> poc_v1 = Some (Inr r)" using sample_ranked by blast
  from retrieval_returns_top_hits [OF r] have "distinct (map hi_atom_id (rr_hits r))" by blast
  with r show ?thesis by blast
qed

theorem retrieval_scope_isolated_witness:
  "\<exists>r. rank_retrieval (\<lambda>_. Digest32_ZERO) (\<lambda>_ _. 0) (sample_query None)
     \<lparr>rk_ranked = [sample_retrievable ShortTerm], rk_episodic_pool = []\<rparr> poc_v1 = Some (Inr r) \<and>
     (\<forall>h \<in> set (rr_hits r). hi_atom_id h = AtomId Digest32_ZERO)"
proof -
  obtain r where r: "rank_retrieval (\<lambda>_. Digest32_ZERO) (\<lambda>_ _. 0) (sample_query None)
     \<lparr>rk_ranked = [sample_retrievable ShortTerm], rk_episodic_pool = []\<rparr> poc_v1 = Some (Inr r)" using sample_ranked by blast
  from retrieval_scope_isolated [OF r] have "\<forall>h \<in> set (rr_hits r). hi_atom_id h = AtomId Digest32_ZERO"
    by (auto simp: sample_retrievable_def)
  with r show ?thesis by blast
qed

theorem retrieval_flashbacks_sound_witness:
  "\<exists>r s. rank_retrieval (\<lambda>_. Digest32_ZERO) (\<lambda>_ _. 0) (sample_query (Some sample_request))
     \<lparr>rk_ranked = [], rk_episodic_pool = [sample_retrievable EpisodicLongTerm]\<rparr> poc_v1 = Some (Inr r) \<and>
     rr_spontaneous r = Some s \<and> distinct (map hi_atom_id (so_hits s))"
proof -
  obtain r s where r: "rank_retrieval (\<lambda>_. Digest32_ZERO) (\<lambda>_ _. 0) (sample_query (Some sample_request))
     \<lparr>rk_ranked = [], rk_episodic_pool = [sample_retrievable EpisodicLongTerm]\<rparr> poc_v1 = Some (Inr r)" "rr_spontaneous r = Some s"
    using sample_recalled by blast
  have "qy_spontaneous (sample_query (Some sample_request)) = Some sample_request" by (simp add: sample_query_def)
  with retrieval_flashbacks_sound [OF r(1)] r(2) have "distinct (map hi_atom_id (so_hits s))" by simp
  with r show ?thesis by blast
qed

theorem retrieval_order_independent_witness:
  "\<exists>r. rank_retrieval (\<lambda>_. Digest32_ZERO) (\<lambda>_ _. 0) (sample_query None)
     \<lparr>rk_ranked = rev [sample_retrievable ShortTerm], rk_episodic_pool = []\<rparr> poc_v1 = Some (Inr r)"
proof -
  obtain r where r: "rank_retrieval (\<lambda>_. Digest32_ZERO) (\<lambda>_ _. 0) (sample_query None)
     \<lparr>rk_ranked = [sample_retrievable ShortTerm], rk_episodic_pool = []\<rparr> poc_v1 = Some (Inr r)" using sample_ranked by blast
  from retrieval_order_independent [OF r, of "\<lparr>rk_ranked = rev [sample_retrievable ShortTerm], rk_episodic_pool = []\<rparr>"]
  show ?thesis by auto
qed

theorem retrieval_returns_witness:
  "\<exists>res. rank_retrieval (\<lambda>_. Digest32_ZERO) (\<lambda>_ _. 5) (sample_query (Some sample_request))
     \<lparr>rk_ranked = [], rk_episodic_pool = [sample_retrievable EpisodicLongTerm]\<rparr> poc_v1 = Some res \<and> res \<noteq> Inl Panic"
proof (rule retrieval_returns)
  fix seed :: "byte list" and n p :: nat
  assume "n \<le> length (rk_episodic_pool \<lparr>rk_ranked = [], rk_episodic_pool = [sample_retrievable EpisodicLongTerm]\<rparr>)"
  then have "n = 0 \<or> n = 1" by auto
  then show "\<exists>i \<ge> p. of_nat n \<le> (5 :: u64)" by (auto simp: word_le_nat_alt)
qed simp

end
