(* ===== verification/StoreBase.thy ===== *)
theory StoreBase
  imports Outcome
begin

text \<open>
  The error taxonomy of \<open>naome-memory-sqlite/src/error.rs\<close> and the shape of its stateful
  operations.  An operation of the store takes the state and returns a \<open>Result\<close> together with the
  state it leaves: the state of a failed operation is kept, because a file that was written or
  unlinked stays written or unlinked when a later step fails.  What is undone is undone explicitly,
  by a transaction (theory \<open>Database\<close>) or by a drop guard (theory \<open>ArtifactStore\<close>).
\<close>

section \<open>Errors\<close>

text \<open>
  A path is the list of its component names below the artifact root.  The kinds of operating-system
  error that the code distinguishes, or that its calls can meet on a healthy disk, have a
  constructor; any other one, with the message the system gives, is \<open>OtherIo\<close>.
\<close>

type_synonym path = "string list"

datatype IoError = NotFound | AlreadyExists | NotADirectory | IsADirectory | OtherIo string

datatype SqlError = ConstraintViolation string | QueryReturnedNoRows | FromSqlConversionFailure usize | IntegerOverflow

datatype StoreError =
    Core MemoryError
  | Sqlite SqlError
  | Io IoError
  | Json string
  | IntegerOutOfRange string u64
  | InvalidDigestLength string usize
  | UnsupportedSchema u32 u32
  | Integrity string
  | StoredArtifactTooLarge u64
  | StoredArtifactDigestMismatch path
  | ArtifactMissing path
  | InvalidArtifactPath string
  | StoreStalePlan string string
  | RetirementConflict
  | InvalidRetirementPlan string
  | DraftConflict string
  | ImmutableConflict string
  | InvalidInput string

text \<open>Messages keep their fixed text and the names they quote; the numbers they render are left out.\<close>

type_synonym 'a store_result = "StoreError + 'a"

text \<open>The conversion that the question-mark operator makes of an error of the core crate.\<close>

definition core :: "'a result \<Rightarrow> 'a store_result" where
  "core m = (case m of Inl e \<Rightarrow> Inl (Core e) | Inr x \<Rightarrow> Inr x)"

lemma core_simps [simp]: "core (Inl e) = Inl (Core e)" "core (Inr x) = Inr x"
  by (simp_all add: core_def)

lemma core_Inr [result_simps]: "core m = Inr x \<longleftrightarrow> m = Inr x"
  by (cases m) simp_all

section \<open>Stateful operations\<close>

type_synonym ('s, 'a) action = "'s \<Rightarrow> 'a store_result \<times> 's"

text \<open>
  \<open>pure m\<close> computes without touching the state, \<open>query q\<close> reads it, \<open>and_then\<close> is the
  question-mark operator between two stateful steps, \<open>each\<close> a \<open>for\<close> loop whose body may fail.
\<close>

definition pure :: "'a store_result \<Rightarrow> ('s, 'a) action" where
  "pure m s = (m, s)"

definition query :: "('s \<Rightarrow> 'a store_result) \<Rightarrow> ('s, 'a) action" where
  "query q s = (q s, s)"

definition and_then :: "('s, 'a) action \<Rightarrow> ('a \<Rightarrow> ('s, 'b) action) \<Rightarrow> ('s, 'b) action" where
  "and_then m f s = (case m s of (Inl e, s') \<Rightarrow> (Inl e, s') | (Inr x, s') \<Rightarrow> f x s')"

fun each :: "('x \<Rightarrow> ('s, unit) action) \<Rightarrow> 'x list \<Rightarrow> ('s, unit) action" where
  "each f [] = pure (Inr ())"
| "each f (x # xs) = and_then (f x) (\<lambda>_. each f xs)"

lemma pure_simp [simp]: "pure m s = (m, s)"
  by (simp add: pure_def)

lemma query_simp [simp]: "query q s = (q s, s)"
  by (simp add: query_def)

lemma and_then_pure [simp]: "and_then (pure (Inr x)) f = f x" "and_then (pure (Inl e)) f = pure (Inl e)"
  by (auto simp: and_then_def)

lemma and_then_query [simp]:
  "and_then (query q) f s = (case q s of Inl e \<Rightarrow> (Inl e, s) | Inr x \<Rightarrow> f x s)"
  by (simp add: and_then_def split: sum.splits)

lemma and_then_eq: "m s = (Inr x, s') \<Longrightarrow> and_then m f s = f x s'"
  by (simp add: and_then_def)

lemma and_then_fails: "m s = (Inl e, s') \<Longrightarrow> and_then m f s = (Inl e, s')"
  by (simp add: and_then_def)

lemma and_then_Inr:
  "and_then m f s = (Inr y, s'') \<longleftrightarrow> (\<exists>x s'. m s = (Inr x, s') \<and> f x s' = (Inr y, s''))"
  by (auto simp: and_then_def split: prod.splits sum.splits)

lemma and_then_Inl:
  "and_then m f s = (Inl e, s'') \<longleftrightarrow>
     m s = (Inl e, s'') \<or> (\<exists>x s'. m s = (Inr x, s') \<and> f x s' = (Inl e, s''))"
  by (auto simp: and_then_def split: prod.splits sum.splits)

text \<open>An invariant that every step keeps, whether it succeeds or fails, is kept by their sequence.\<close>

definition keeps :: "('s \<Rightarrow> bool) \<Rightarrow> ('s, 'a) action \<Rightarrow> bool" where
  "keeps P m \<longleftrightarrow> (\<forall>s. P s \<longrightarrow> P (snd (m s)))"

lemma keepsI: "(\<And>s. P s \<Longrightarrow> P (snd (m s))) \<Longrightarrow> keeps P m"
  by (simp add: keeps_def)

lemma keepsD: "keeps P m \<Longrightarrow> P s \<Longrightarrow> P (snd (m s))"
  by (simp add: keeps_def)

lemma keeps_pure [simp, intro]: "keeps P (pure m)" "keeps P (query q)"
  by (simp_all add: keeps_def)

lemma keeps_and_then [intro]: "keeps P m \<Longrightarrow> (\<And>x. keeps P (f x)) \<Longrightarrow> keeps P (and_then m f)"
  by (fastforce simp: keeps_def and_then_def split: prod.splits sum.splits)

lemma keeps_each: "(\<And>x. x \<in> set xs \<Longrightarrow> keeps P (f x)) \<Longrightarrow> keeps P (each f xs)"
  by (induction xs) (auto intro!: keeps_and_then)

section \<open>SQLite integers\<close>

text \<open>
  A SQLite integer is a signed 64-bit value; the columns of the model hold it as an \<open>int\<close> and
  these conversions write the range out.
\<close>

definition sqlite_integer :: "u64 \<Rightarrow> string \<Rightarrow> int store_result" where
  "sqlite_integer v field = (if unat v < 2 ^ 63 then Inr (int (unat v)) else Inl (IntegerOutOfRange field v))"

definition unsigned_integer :: "int \<Rightarrow> string \<Rightarrow> u64 store_result" where
  "unsigned_integer v field =
     (if 0 \<le> v then Inr (of_int v) else Inl (Integrity (''negative SQLite integer for '' @ field)))"

lemma sqlite_integer_Inr [result_simps]: "sqlite_integer v f = Inr i \<longleftrightarrow> unat v < 2 ^ 63 \<and> i = int (unat v)"
  by (auto simp: sqlite_integer_def)

lemma unsigned_integer_Inr [result_simps]: "unsigned_integer i f = Inr v \<longleftrightarrow> 0 \<le> i \<and> v = of_int i"
  by (auto simp: unsigned_integer_def)

lemma unsigned_sqlite_integer [simp]: "sqlite_integer v f = Inr i \<Longrightarrow> unsigned_integer i g = Inr v"
  by (auto simp: result_simps)

end
