(* ===== verification/FileSystem.thy ===== *)
theory FileSystem
  imports StoreBase "HOL-Library.Finite_Map"
begin

text \<open>
  The part of \<open>std::fs\<close> and \<open>std::path\<close> that the artifact store uses, on a tree of files kept as
  a finite map from paths to nodes.  A completed call has its effect and no other one: a full disk
  or a failing device (any \<open>OtherIo\<close>) is not modelled, except in the reader a file is ingested
  from, and \<open>sync_all\<close> has no effect, as the map is the state after the calls have reached the disk.
\<close>

datatype node = RegularFile "byte list" | Directory | OtherNode

type_synonym fs = "(path, node) fmap"

definition parent :: "path \<Rightarrow> path" where
  "parent p = butlast p"

text \<open>
  \<open>symlink_metadata\<close>: the node at the path.  When a proper prefix is not a directory the call
  reports that instead of \<open>NotFound\<close>.
\<close>

definition symlink_metadata :: "fs \<Rightarrow> path \<Rightarrow> IoError + node" where
  "symlink_metadata fs p =
     (case fmlookup fs p of
        Some n \<Rightarrow> Inr n
      | None \<Rightarrow> if list_ex (\<lambda>i. fmlookup fs (take i p) \<notin> {None, Some Directory}) [0..<length p]
                then Inl NotADirectory else Inl NotFound)"

definition path_exists :: "fs \<Rightarrow> path \<Rightarrow> bool" where
  "path_exists fs p \<longleftrightarrow> fmlookup fs p \<noteq> None"

definition create_dir :: "fs \<Rightarrow> path \<Rightarrow> IoError + fs" where
  "create_dir fs p =
     (if fmlookup fs p \<noteq> None then Inl AlreadyExists
      else if p \<noteq> [] \<and> fmlookup fs (parent p) \<noteq> Some Directory then Inl NotFound
      else Inr (fmupd p Directory fs))"

text \<open>\<open>OpenOptions::create_new\<close>, a write at the end of an open file, and \<open>read_to_end\<close>.\<close>

definition create_new :: "fs \<Rightarrow> path \<Rightarrow> IoError + fs" where
  "create_new fs p =
     (if fmlookup fs p \<noteq> None then Inl AlreadyExists
      else if fmlookup fs (parent p) \<noteq> Some Directory then Inl NotFound
      else Inr (fmupd p (RegularFile []) fs))"

definition write_all :: "fs \<Rightarrow> path \<Rightarrow> byte list \<Rightarrow> IoError + fs" where
  "write_all fs p bs =
     (case fmlookup fs p of Some (RegularFile old) \<Rightarrow> Inr (fmupd p (RegularFile (old @ bs)) fs) | _ \<Rightarrow> Inl NotFound)"

definition read_file :: "fs \<Rightarrow> path \<Rightarrow> IoError + byte list" where
  "read_file fs p =
     (case fmlookup fs p of
        Some (RegularFile bs) \<Rightarrow> Inr bs
      | Some Directory \<Rightarrow> Inl IsADirectory
      | Some OtherNode \<Rightarrow> Inl (OtherIo ''not a regular file'')
      | None \<Rightarrow> Inl NotFound)"

definition remove_file :: "fs \<Rightarrow> path \<Rightarrow> IoError + fs" where
  "remove_file fs p =
     (case fmlookup fs p of
        None \<Rightarrow> Inl NotFound
      | Some Directory \<Rightarrow> Inl IsADirectory
      | Some _ \<Rightarrow> Inr (fmdrop p fs))"

definition rename :: "fs \<Rightarrow> path \<Rightarrow> path \<Rightarrow> IoError + fs" where
  "rename fs old new =
     (case fmlookup fs old of
        None \<Rightarrow> Inl NotFound
      | Some n \<Rightarrow>
          if fmlookup fs (parent new) \<noteq> Some Directory then Inl NotFound
          else if fmlookup fs new = Some Directory then Inl IsADirectory
          else Inr (fmupd new n (fmdrop old fs)))"

definition sync_directory :: "fs \<Rightarrow> path \<Rightarrow> IoError + unit" where
  "sync_directory fs p = (if fmlookup fs p = None then Inl NotFound else Inr ())"

text \<open>
  The names that \<open>read_dir\<close> yields.  The system lists them in an order of its own, so the order
  is a parameter \<open>ls\<close> of every definition that lists a directory, and \<open>lists_dir\<close> is what is
  known of it: every name once.
\<close>

definition children :: "fs \<Rightarrow> path \<Rightarrow> string set" where
  "children fs p = {name. fmlookup fs (p @ [name]) \<noteq> None}"

definition lists_dir :: "(fs \<Rightarrow> path \<Rightarrow> string list) \<Rightarrow> bool" where
  "lists_dir ls \<longleftrightarrow> (\<forall>fs p. distinct (ls fs p) \<and> set (ls fs p) = children fs p)"

definition read_dir :: "(fs \<Rightarrow> path \<Rightarrow> string list) \<Rightarrow> fs \<Rightarrow> path \<Rightarrow> IoError + string list" where
  "read_dir ls fs p =
     (case fmlookup fs p of
        Some Directory \<Rightarrow> Inr (ls fs p)
      | Some _ \<Rightarrow> Inl NotADirectory
      | None \<Rightarrow> Inl NotFound)"

section \<open>Path components\<close>

text \<open>
  \<open>Path::components\<close> on a Unix path: empty components and inner dots disappear, a leading slash
  is the root, a leading dot the current directory.
\<close>

datatype component = RootDir | CurDir | ParentDir | Normal string

fun split_slash :: "string \<Rightarrow> string list" where
  "split_slash [] = [[]]"
| "split_slash (c # s) = (if c = CHR ''/'' then [] # split_slash s
     else case split_slash s of [] \<Rightarrow> [[c]] | part # parts \<Rightarrow> (c # part) # parts)"

definition inner_component :: "string \<Rightarrow> component option" where
  "inner_component part =
     (if part = [] \<or> part = ''.'' then None else if part = ''..'' then Some ParentDir else Some (Normal part))"

definition path_components :: "string \<Rightarrow> component list" where
  "path_components p =
     (case split_slash p of
        [] \<Rightarrow> []
      | first # rest \<Rightarrow>
          (if first = [] \<and> rest \<noteq> [] then [RootDir] else if first = ''.'' then [CurDir]
           else case inner_component first of None \<Rightarrow> [] | Some c \<Rightarrow> [c]) @
          List.map_filter inner_component rest)"

definition is_safe_relative_path :: "string \<Rightarrow> bool" where
  "is_safe_relative_path p \<longleftrightarrow> p \<noteq> [] \<and> list_all (\<lambda>c. case c of Normal _ \<Rightarrow> True | _ \<Rightarrow> False) (path_components p)"

text \<open>
  \<open>root.join(relative)\<close> below the root, for a relative path that passed the test above: joining
  appends its components.
\<close>

definition join_root :: "string \<Rightarrow> path" where
  "join_root relative = List.map_filter (\<lambda>c. case c of Normal name \<Rightarrow> Some name | _ \<Rightarrow> None) (path_components relative)"

lemma split_slash_no_slash: "CHR ''/'' \<notin> set s \<Longrightarrow> split_slash s = [s]"
  by (induction s) auto

lemma split_slash_append: "CHR ''/'' \<notin> set s \<Longrightarrow> split_slash (s @ CHR ''/'' # t) = s # split_slash t"
  by (induction s) auto

section \<open>Well-formed trees\<close>

text \<open>Every node stands in a directory.\<close>

definition fs_wf :: "fs \<Rightarrow> bool" where
  "fs_wf fs \<longleftrightarrow> (\<forall>p n. p \<noteq> [] \<longrightarrow> fmlookup fs p = Some n \<longrightarrow> fmlookup fs (parent p) = Some Directory)"

lemma symlink_metadata_Inr: "symlink_metadata fs p = Inr n \<longleftrightarrow> fmlookup fs p = Some n"
  by (simp add: symlink_metadata_def split: option.splits)

lemma take_parent: "Suc i = length p \<Longrightarrow> take i p = parent p"
  unfolding parent_def butlast_conv_take by (metis diff_Suc_1)

lemma fs_wf_prefix: "fs_wf fs \<Longrightarrow> fmlookup fs p = Some n \<Longrightarrow> i < length p \<Longrightarrow> fmlookup fs (take i p) = Some Directory"
proof (induction "length p - i" arbitrary: i)
  case 0
  then show ?case by simp
next
  case (Suc k)
  show ?case
  proof (cases "Suc i = length p")
    case True
    then have "take i p = parent p" by (rule take_parent)
    moreover have "p \<noteq> []" using True by auto
    ultimately show ?thesis using Suc.prems unfolding fs_wf_def by metis
  next
    case False
    then have "fmlookup fs (take (Suc i) p) = Some Directory" using Suc by simp
    moreover have "take (Suc i) p \<noteq> []" "parent (take (Suc i) p) = take i p"
      using Suc.prems(3) by (auto simp: parent_def butlast_take)
    ultimately show ?thesis using Suc.prems(1) unfolding fs_wf_def by metis
  qed
qed

text \<open>Below an existing directory a missing path is reported as such.\<close>

lemma symlink_metadata_missing:
  assumes "fs_wf fs" "fmlookup fs (parent p) = Some Directory" "fmlookup fs p = None"
  shows "symlink_metadata fs p = Inl NotFound"
proof -
  have "fmlookup fs (take i p) = Some Directory" if "i < length p" for i
  proof (cases "i < length (parent p)")
    case True
    then have "take i p = take i (parent p)" by (simp add: parent_def take_butlast)
    then show ?thesis using fs_wf_prefix [OF assms(1,2) True] by simp
  next
    case False
    then have "take i p = parent p" using that by (intro take_parent) (simp add: parent_def)
    then show ?thesis using assms(2) by simp
  qed
  then show ?thesis using assms(3) by (auto simp: symlink_metadata_def list_ex_iff)
qed

end
