(* ===== verification/ArtifactStore.thy ===== *)
theory ArtifactStore
  imports FileSystem Retirement
begin

text \<open>
  \<open>naome-memory-sqlite/src/artifact.rs\<close>: the content-addressed store of artifact files.  An
  \<open>ArtifactDigest\<close> is a newtype over the 32-byte array, so it is \<open>Digest32\<close> here.  The state is the
  tree of files below the root, the process-wide counter of staging names and the process
  identifier that goes into them.
\<close>

definition MAX_ARTIFACT_BYTES :: u64 where
  "MAX_ARTIFACT_BYTES = 64 * 1024 * 1024"

definition COPY_BUFFER_BYTES :: usize where
  "COPY_BUFFER_BYTES = 64 * 1024"

type_synonym ArtifactDigest = Digest32

definition ArtifactDigest_from_slice :: "byte list \<Rightarrow> string \<Rightarrow> ArtifactDigest store_result" where
  "ArtifactDigest_from_slice bytes field =
     (if length bytes = 32 then Inr (digest_of_bytes bytes) else Inl (InvalidDigestLength field (length bytes)))"

record ArtifactRecord =
  ac_digest :: ArtifactDigest
  ac_byte_len :: u64
  ac_relative_path :: string

record ArtifactStore =
  as_files :: fs
  as_sequence :: u64
  as_process :: nat

section \<open>Paths\<close>

definition relative_path_for :: "ArtifactDigest \<Rightarrow> string" where
  "relative_path_for digest =
     (let hex = to_hex digest in ''sha256/'' @ take 2 hex @ ''/'' @ take 2 (drop 2 hex) @ ''/'' @ hex)"

definition path_for :: "ArtifactDigest \<Rightarrow> path" where
  "path_for digest = join_root (relative_path_for digest)"

definition lowercase_hex_component :: "string \<Rightarrow> usize \<Rightarrow> string store_result" where
  "lowercase_hex_component name expected_len =
     (if length name \<noteq> expected_len
        \<or> \<not> list_all (\<lambda>b. 48 \<le> b \<and> b \<le> 57 \<or> 97 \<le> b \<and> b \<le> 102) (str_bytes name)
      then Inl (InvalidArtifactPath name) else Inr name)"

definition validate_record_metadata :: "ArtifactRecord \<Rightarrow> unit store_result" where
  "validate_record_metadata entry =
     (if ac_byte_len entry > MAX_ARTIFACT_BYTES then Inl (StoredArtifactTooLarge (ac_byte_len entry))
      else if ac_relative_path entry \<noteq> relative_path_for (ac_digest entry)
        \<or> \<not> is_safe_relative_path (ac_relative_path entry)
      then Inl (InvalidArtifactPath (ac_relative_path entry))
      else Inr ())"

section \<open>Reading and hashing\<close>

text \<open>
  A reader is the list of what its \<open>read\<close> calls return: a chunk, or the error that ends it.  An
  empty chunk is the end of the stream.  A file is read in chunks of at most the buffer's length.
\<close>

type_synonym reader = "(IoError + byte list) list"

function chunks_of :: "nat \<Rightarrow> byte list \<Rightarrow> byte list list" where
  "chunks_of n bs = (if bs = [] \<or> n = 0 then [] else take n bs # chunks_of n (drop n bs))"
  by pat_completeness auto
termination by (relation "measure (\<lambda>(n, bs). length bs)") auto

declare chunks_of.simps [simp del]

text \<open>
  The two copy loops share their accounting: \<open>count_chunk\<close> adds the length of a chunk to the
  running total, or rejects it.
\<close>

definition count_chunk :: "u64 \<Rightarrow> byte list \<Rightarrow> u64 store_result" where
  "count_chunk so_far chunk =
     bindr (ok_or (StoredArtifactTooLarge (- 1)) (u64_of_usize (length chunk))) (\<lambda>read.
     bindr (ok_or (StoredArtifactTooLarge (- 1)) (checked_add so_far read)) (\<lambda>sum.
     if sum > MAX_ARTIFACT_BYTES then Inl (StoredArtifactTooLarge sum) else Inr sum))"

text \<open>The hasher is the list of the bytes it was fed, \<open>finalize\<close> is \<open>sha\<close>.\<close>

fun hash_loop :: "byte list list \<Rightarrow> byte list \<Rightarrow> u64 \<Rightarrow> (byte list \<times> u64) store_result" where
  "hash_loop [] hasher observed = Inr (hasher, observed)"
| "hash_loop (chunk # chunks) hasher observed =
     bindr (count_chunk observed chunk) (\<lambda>sum. hash_loop chunks (hasher @ chunk) sum)"

definition hash_file :: "(byte list \<Rightarrow> Digest32) \<Rightarrow> fs \<Rightarrow> path \<Rightarrow> u64 \<Rightarrow> ArtifactDigest store_result" where
  "hash_file sha fs p declared_len =
     (if declared_len > MAX_ARTIFACT_BYTES then Inl (StoredArtifactTooLarge declared_len)
      else case read_file fs p of
        Inl e \<Rightarrow> Inl (Io e)
      | Inr bytes \<Rightarrow>
          bindr (hash_loop (chunks_of COPY_BUFFER_BYTES bytes) [] 0) (\<lambda>(hasher, observed).
          if observed \<noteq> declared_len then Inl (StoredArtifactDigestMismatch p) else Inr (sha hasher)))"

definition verify_path :: "(byte list \<Rightarrow> Digest32) \<Rightarrow> fs \<Rightarrow> path \<Rightarrow> ArtifactDigest \<Rightarrow> u64 \<Rightarrow> unit store_result" where
  "verify_path sha fs p digest byte_len =
     (case symlink_metadata fs p of
        Inr (RegularFile bytes) \<Rightarrow>
          if (of_nat (length bytes) :: u64) \<noteq> byte_len then Inl (StoredArtifactDigestMismatch p)
          else bindr (hash_file sha fs p byte_len) (\<lambda>actual.
            if actual \<noteq> digest then Inl (StoredArtifactDigestMismatch p) else Inr ())
      | Inr _ \<Rightarrow> Inl (StoredArtifactDigestMismatch p)
      | Inl NotFound \<Rightarrow> Inl (ArtifactMissing p)
      | Inl e \<Rightarrow> Inl (Io e))"

definition verify_artifact :: "(byte list \<Rightarrow> Digest32) \<Rightarrow> ArtifactRecord \<Rightarrow> fs \<Rightarrow> unit store_result" where
  "verify_artifact sha entry fs =
     bindr (validate_record_metadata entry) (\<lambda>_.
     verify_path sha fs (join_root (ac_relative_path entry)) (ac_digest entry) (ac_byte_len entry))"

definition read_verified :: "(byte list \<Rightarrow> Digest32) \<Rightarrow> ArtifactRecord \<Rightarrow> fs \<Rightarrow> byte list store_result" where
  "read_verified sha entry fs =
     bindr (verify_artifact sha entry fs) (\<lambda>_.
     case read_file fs (join_root (ac_relative_path entry)) of Inl e \<Rightarrow> Inl (Io e) | Inr bytes \<Rightarrow> Inr bytes)"

section \<open>Changing the tree\<close>

text \<open>One system call: its error is an \<open>Io\<close> error of the store, its effect replaces the tree.\<close>

definition sys :: "(fs \<Rightarrow> IoError + fs) \<Rightarrow> (ArtifactStore, unit) action" where
  "sys call s = (case call (as_files s) of Inl e \<Rightarrow> (Inl (Io e), s) | Inr fs \<Rightarrow> (Inr (), s\<lparr>as_files := fs\<rparr>))"

definition sync :: "path \<Rightarrow> (ArtifactStore, unit) action" where
  "sync p = query (\<lambda>s. case sync_directory (as_files s) p of Inl e \<Rightarrow> Inl (Io e) | Inr u \<Rightarrow> Inr u)"

text \<open>
  \<open>create_dir_all_durable\<close>, on the components from the innermost one outwards.  Directories above
  the artifact root belong to the caller.
\<close>

definition create_missing_dir :: "path \<Rightarrow> (ArtifactStore, unit) action" where
  "create_missing_dir p s =
     (case create_dir (as_files s) p of
        Inr fs \<Rightarrow> sync (parent p) (s\<lparr>as_files := fs\<rparr>)
      | Inl AlreadyExists \<Rightarrow>
          (case symlink_metadata (as_files s) p of
             Inl e \<Rightarrow> (Inl (Io e), s)
           | Inr Directory \<Rightarrow> sync (parent p) s
           | Inr _ \<Rightarrow> (Inl (Io AlreadyExists), s))
      | Inl e \<Rightarrow> (Inl (Io e), s))"

fun create_dir_all_durable :: "path \<Rightarrow> (ArtifactStore, unit) action" where
  "create_dir_all_durable [] s =
     (case symlink_metadata (as_files s) [] of
        Inr Directory \<Rightarrow> (Inr (), s)
      | Inr _ \<Rightarrow> (Inl (Io AlreadyExists), s)
      | Inl NotFound \<Rightarrow> create_missing_dir [] s
      | Inl e \<Rightarrow> (Inl (Io e), s))"
| "create_dir_all_durable (name # outer) s =
     (case symlink_metadata (as_files s) (rev (name # outer)) of
        Inr Directory \<Rightarrow> (Inr (), s)
      | Inr _ \<Rightarrow> (Inl (Io AlreadyExists), s)
      | Inl NotFound \<Rightarrow> and_then (create_dir_all_durable outer) (\<lambda>_. create_missing_dir (rev (name # outer))) s
      | Inl e \<Rightarrow> (Inl (Io e), s))"

definition ensure_dir :: "path \<Rightarrow> (ArtifactStore, unit) action" where
  "ensure_dir p = create_dir_all_durable (rev p)"

definition open_store :: "(ArtifactStore, unit) action" where
  "open_store =
     and_then (ensure_dir []) (\<lambda>_. and_then (ensure_dir [''sha256'']) (\<lambda>_. ensure_dir [''.tmp'']))"

section \<open>Ingesting\<close>

definition staging_path :: "nat \<Rightarrow> u64 \<Rightarrow> path" where
  "staging_path process seq =
     [''.tmp'', ''ingest-'' @ decimal process @ ''-'' @ decimal (unat seq) @ ''.partial'']"

text \<open>At most 128 names are tried, each under a fresh value of the process-wide counter.\<close>

fun try_temporary_paths :: "nat \<Rightarrow> (ArtifactStore, path) action" where
  "try_temporary_paths 0 s = (Inl (Io AlreadyExists), s)"
| "try_temporary_paths (Suc tries) s =
     (let p = staging_path (as_process s) (as_sequence s);
          s' = s\<lparr>as_sequence := as_sequence s + 1\<rparr> in
      if \<not> path_exists (as_files s') p then (Inr p, s') else try_temporary_paths tries s')"

definition unique_temporary_path :: "(ArtifactStore, path) action" where
  "unique_temporary_path = try_temporary_paths 128"

text \<open>The copy loop: every chunk is counted, hashed and written to the staging file.\<close>

fun ingest_loop :: "path \<Rightarrow> reader \<Rightarrow> byte list \<Rightarrow> u64 \<Rightarrow> (ArtifactStore, byte list \<times> u64) action" where
  "ingest_loop temporary [] hasher byte_len = pure (Inr (hasher, byte_len))"
| "ingest_loop temporary (Inl e # reader) hasher byte_len = pure (Inl (Io e))"
| "ingest_loop temporary (Inr chunk # reader) hasher byte_len =
     (if chunk = [] then pure (Inr (hasher, byte_len))
      else and_then (pure (count_chunk byte_len chunk)) (\<lambda>sum.
           and_then (sys (\<lambda>fs. write_all fs temporary chunk)) (\<lambda>_.
           ingest_loop temporary reader (hasher @ chunk) sum)))"

text \<open>
  The drop guard of \<open>TemporaryArtifact\<close>: when the body fails while it is armed, the staging file is
  removed and the outcome of the removal is ignored.
\<close>

definition guarded :: "path \<Rightarrow> (ArtifactStore, 'a) action \<Rightarrow> (ArtifactStore, 'a) action" where
  "guarded temporary body s =
     (case body s of
        (Inr x, s') \<Rightarrow> (Inr x, s')
      | (Inl e, s') \<Rightarrow> (Inl e, case remove_file (as_files s') temporary of
          Inl _ \<Rightarrow> s' | Inr fs \<Rightarrow> s'\<lparr>as_files := fs\<rparr>))"

text \<open>
  From the finished staging file to its place: an object that is already there is verified and the
  staging file removed, else the staging file is renamed to it.  The guard is disarmed after either.
\<close>

definition place_object ::
  "(byte list \<Rightarrow> Digest32) \<Rightarrow> path \<Rightarrow> ArtifactDigest \<Rightarrow> u64 \<Rightarrow> (ArtifactStore, bool) action" where
  "place_object sha temporary digest byte_len s =
     (let destination = path_for digest in
      case symlink_metadata (as_files s) destination of
        Inr _ \<Rightarrow>
          and_then (query (\<lambda>s. verify_path sha (as_files s) destination digest byte_len)) (\<lambda>_.
          and_then (sys (\<lambda>fs. remove_file fs temporary)) (\<lambda>_. pure (Inr False))) s
      | Inl NotFound \<Rightarrow>
          and_then (sys (\<lambda>fs. rename fs temporary destination)) (\<lambda>_. pure (Inr True)) s
      | Inl e \<Rightarrow> (Inl (Io e), s))"

definition stage_object :: "(byte list \<Rightarrow> Digest32) \<Rightarrow> path \<Rightarrow> reader \<Rightarrow> (ArtifactStore, ArtifactRecord \<times> bool) action" where
  "stage_object sha temporary reader =
     and_then (sys (\<lambda>fs. create_new fs temporary)) (\<lambda>_.
     and_then (ingest_loop temporary reader [] 0) (\<lambda>(hasher, byte_len).
     let digest = sha hasher in
     and_then (ensure_dir (parent (path_for digest))) (\<lambda>_.
     and_then (place_object sha temporary digest byte_len) (\<lambda>renamed.
     pure (Inr (\<lparr>ac_digest = digest, ac_byte_len = byte_len, ac_relative_path = relative_path_for digest\<rparr>, renamed))))))"

definition ingest :: "(byte list \<Rightarrow> Digest32) \<Rightarrow> reader \<Rightarrow> (ArtifactStore, ArtifactRecord) action" where
  "ingest sha reader =
     and_then unique_temporary_path (\<lambda>temporary.
     and_then (guarded temporary (stage_object sha temporary reader)) (\<lambda>(entry, renamed).
     and_then (if renamed then sync (parent (path_for (ac_digest entry))) else pure (Inr ())) (\<lambda>_.
     and_then (sync (parent temporary)) (\<lambda>_.
     pure (Inr entry)))))"

text \<open>\<open>ingest_bytes\<close> reads from a cursor, which fills the buffer at every call.\<close>

definition ingest_bytes :: "(byte list \<Rightarrow> Digest32) \<Rightarrow> byte list \<Rightarrow> (ArtifactStore, ArtifactRecord) action" where
  "ingest_bytes sha bytes = ingest sha (map Inr (chunks_of COPY_BUFFER_BYTES bytes))"

section \<open>Removal and discovery\<close>

definition remove_verified_or_missing :: "(byte list \<Rightarrow> Digest32) \<Rightarrow> ArtifactRecord \<Rightarrow> (ArtifactStore, unit) action" where
  "remove_verified_or_missing sha entry =
     and_then (pure (validate_record_metadata entry)) (\<lambda>_ s.
     let p = join_root (ac_relative_path entry) in
     case symlink_metadata (as_files s) p of
       Inr _ \<Rightarrow>
         and_then (query (\<lambda>s. verify_path sha (as_files s) p (ac_digest entry) (ac_byte_len entry))) (\<lambda>_.
         and_then (sys (\<lambda>fs. remove_file fs p)) (\<lambda>_. sync (parent p))) s
     | Inl NotFound \<Rightarrow> (Inr (), s)
     | Inl e \<Rightarrow> (Inl (Io e), s))"

definition require_directory_entry :: "fs \<Rightarrow> path \<Rightarrow> unit store_result" where
  "require_directory_entry fs p =
     (if fmlookup fs p = Some Directory then Inr () else Inl (InvalidArtifactPath (concat (map (\<lambda>c. CHR ''/'' # c) p))))"

definition require_file_entry :: "fs \<Rightarrow> path \<Rightarrow> unit store_result" where
  "require_file_entry fs p =
     (case fmlookup fs p of
        Some (RegularFile _) \<Rightarrow> Inr ()
      | _ \<Rightarrow> Inl (InvalidArtifactPath (concat (map (\<lambda>c. CHR ''/'' # c) p))))"

definition discover_object ::
  "(byte list \<Rightarrow> Digest32) \<Rightarrow> fs \<Rightarrow> string \<Rightarrow> string \<Rightarrow> string \<Rightarrow> ArtifactRecord store_result" where
  "discover_object sha fs first second name =
     (let p = [''sha256'', first, second, name] in
      bindr (require_file_entry fs p) (\<lambda>_.
      bindr (lowercase_hex_component name 64) (\<lambda>object.
      if take (length first) object \<noteq> first \<or> take 2 (drop 2 object) \<noteq> second
      then Inl (InvalidArtifactPath (concat (map (\<lambda>c. CHR ''/'' # c) p)))
      else bindr (ok_or (InvalidArtifactPath (concat (map (\<lambda>c. CHR ''/'' # c) p))) (parse_hex (str_bytes object))) (\<lambda>bytes.
      bindr (ArtifactDigest_from_slice bytes ''CAS file name'') (\<lambda>digest.
      bindr (case read_file fs p of Inl e \<Rightarrow> Inl (Io e) | Inr bs \<Rightarrow> Inr (of_nat (length bs))) (\<lambda>byte_len.
      if byte_len > MAX_ARTIFACT_BYTES then Inl (StoredArtifactTooLarge byte_len)
      else bindr (verify_path sha fs p digest byte_len) (\<lambda>_.
      Inr \<lparr>ac_digest = digest, ac_byte_len = byte_len, ac_relative_path = relative_path_for digest\<rparr>)))))))"

text \<open>The three nested directory loops, each with its body; an I/O error of \<open>read_dir\<close> ends them.\<close>

definition io :: "IoError + 'a \<Rightarrow> 'a store_result" where
  "io m = (case m of Inl e \<Rightarrow> Inl (Io e) | Inr x \<Rightarrow> Inr x)"

definition discover_second ::
  "(byte list \<Rightarrow> Digest32) \<Rightarrow> (fs \<Rightarrow> path \<Rightarrow> string list) \<Rightarrow> fs \<Rightarrow> string \<Rightarrow> string \<Rightarrow> ArtifactRecord list store_result" where
  "discover_second sha ls fs first entry =
     bindr (require_directory_entry fs [''sha256'', first, entry]) (\<lambda>_.
     bindr (lowercase_hex_component entry 2) (\<lambda>second.
     bindr (io (read_dir ls fs [''sha256'', first, entry])) (\<lambda>objects.
     traverse (discover_object sha fs first second) objects)))"

definition discover_first ::
  "(byte list \<Rightarrow> Digest32) \<Rightarrow> (fs \<Rightarrow> path \<Rightarrow> string list) \<Rightarrow> fs \<Rightarrow> string \<Rightarrow> ArtifactRecord list store_result" where
  "discover_first sha ls fs entry =
     bindr (require_directory_entry fs [''sha256'', entry]) (\<lambda>_.
     bindr (lowercase_hex_component entry 2) (\<lambda>first.
     bindr (io (read_dir ls fs [''sha256'', entry])) (\<lambda>seconds.
     bindr (traverse (discover_second sha ls fs first) seconds) (\<lambda>records. Inr (concat records)))))"

definition discover_records ::
  "(byte list \<Rightarrow> Digest32) \<Rightarrow> (fs \<Rightarrow> path \<Rightarrow> string list) \<Rightarrow> fs \<Rightarrow> ArtifactRecord list store_result" where
  "discover_records sha ls fs =
     bindr (io (read_dir ls fs [''sha256''])) (\<lambda>firsts.
     bindr (traverse (discover_first sha ls fs) firsts) (\<lambda>records.
     Inr (sort_key ac_digest (concat records))))"

end
