(* ===== verification/ArtifactLaws.thy ===== *)
theory ArtifactLaws
  imports ArtifactStore
begin

text \<open>
  What the artifact store promises: a path that is determined by the digest, verification that
  accepts exactly the file whose bytes have the digest and the length, an ingest that leaves either
  the object or nothing, and a discovery that finds exactly the objects.
\<close>

section \<open>Paths\<close>

definition object_path :: "Digest32 \<Rightarrow> path" where
  "object_path d = [''sha256'', take 2 (to_hex d), take 2 (drop 2 (to_hex d)), to_hex d]"

lemma hex_table_chars: "set hex_table = set ''0123456789abcdef''"
  by (simp add: hex_table_def)

lemma to_hex_chars: "set (to_hex d) \<subseteq> set hex_table"
proof -
  have "hex_table ! n \<in> set hex_table" if "n < 16" for n
    using that by (intro nth_mem) (simp add: hex_table_def)
  then show ?thesis using nibbles_less by (auto simp: to_hex_def)
qed

lemma hex_part:
  assumes "set part \<subseteq> set hex_table" "part \<noteq> []"
  shows "CHR ''/'' \<notin> set part" "inner_component part = Some (Normal part)"
proof -
  have "CHR ''.'' \<notin> set part" "CHR ''/'' \<notin> set part" using assms by (auto simp: hex_table_chars)
  then show "CHR ''/'' \<notin> set part" "inner_component part = Some (Normal part)"
    using assms(2) by (auto simp: inner_component_def)
qed

lemma to_hex_parts:
  "set (take 2 (to_hex d)) \<subseteq> set hex_table" "set (take 2 (drop 2 (to_hex d))) \<subseteq> set hex_table"
  "take 2 (to_hex d) \<noteq> []" "take 2 (drop 2 (to_hex d)) \<noteq> []" "to_hex d \<noteq> []"
proof -
  show "set (take 2 (to_hex d)) \<subseteq> set hex_table" by (rule order_trans [OF set_take_subset to_hex_chars])
  show "set (take 2 (drop 2 (to_hex d))) \<subseteq> set hex_table"
    by (rule order_trans [OF set_take_subset order_trans [OF set_drop_subset to_hex_chars]])
  have "length (to_hex d) = 64" by simp
  then have "to_hex d \<noteq> []" by (metis list.size(3) zero_neq_numeral)
  then show "take 2 (to_hex d) \<noteq> []" "take 2 (drop 2 (to_hex d)) \<noteq> []" "to_hex d \<noteq> []" by simp_all
qed

lemma relative_path_components:
  "path_components (relative_path_for d) = map Normal (object_path d)"
proof -
  note part = hex_part [OF to_hex_parts(1,3) [of d]] hex_part [OF to_hex_parts(2,4) [of d]]
    hex_part [OF to_hex_chars to_hex_parts(5) [of d]]
  have "split_slash (relative_path_for d) = object_path d"
    using part(1,3,5) split_slash_append [of "''sha256''"]
    by (simp add: relative_path_for_def object_path_def Let_def split_slash_append split_slash_no_slash)
  then show ?thesis using part by (simp add: path_components_def object_path_def inner_component_def List.map_filter_simps)
qed

lemma join_root_relative [simp]: "join_root (relative_path_for d) = object_path d"
  by (simp add: join_root_def relative_path_components) (simp add: object_path_def List.map_filter_simps)

lemma path_for_eq [simp]: "path_for d = object_path d"
  by (simp add: path_for_def)

lemma relative_path_safe: "is_safe_relative_path (relative_path_for d)"
proof -
  have "relative_path_for d \<noteq> []" by (simp add: relative_path_for_def Let_def)
  then show ?thesis by (simp add: is_safe_relative_path_def relative_path_components object_path_def)
qed

lemma object_path_inject [simp]: "object_path a = object_path b \<longleftrightarrow> a = b"
  by (auto simp: object_path_def)

section \<open>Verification\<close>

lemma concat_chunks_of: "0 < n \<Longrightarrow> concat (chunks_of n bs) = bs"
proof (induction n bs rule: chunks_of.induct)
  case (1 n bs)
  then show ?case by (subst chunks_of.simps) simp
qed

lemma count_chunk_Inr:
  assumes "unat t \<le> 67108864"
  shows "count_chunk t c = Inr m \<longleftrightarrow> unat t + length c \<le> 67108864 \<and> m = t + of_nat (length c)"
proof -
  have *: "unat (t + of_nat (length c) :: u64) = unat t + length c" if "unat t + length c < 2 ^ 64"
    using that by (subst unat_word_add_lt) (simp_all add: unat_of_nat_u64)
  show ?thesis
    by (auto simp: count_chunk_def result_simps u64_of_usize_Some checked_add_def MAX_ARTIFACT_BYTES_def
        word_less_nat_alt word_le_nat_alt unat_of_nat_u64 *)
qed

lemma count_chunk_Inl: "count_chunk t c = Inl e \<Longrightarrow> \<exists>n. e = StoredArtifactTooLarge n"
  by (auto simp: count_chunk_def bindr_Inl result_simps split: if_splits)

lemma unat_total: "unat t \<le> 67108864 \<Longrightarrow> unat t + n \<le> 67108864 \<Longrightarrow> unat (t + of_nat n :: u64) = unat t + n"
  by (subst unat_word_add_lt) (simp_all add: unat_of_nat_u64)

lemma hash_loop_Inr:
  "unat t \<le> 67108864 \<Longrightarrow> hash_loop cs h t = Inr (h', m) \<longleftrightarrow>
     unat t + length (concat cs) \<le> 67108864 \<and> h' = h @ concat cs \<and> m = t + of_nat (length (concat cs))"
proof (induction cs arbitrary: h t)
  case Nil
  then show ?case by auto
next
  case (Cons c cs)
  show ?case
  proof (cases "unat t + length c \<le> 67108864")
    case True
    then have "count_chunk t c = Inr (t + of_nat (length c))" using count_chunk_Inr [OF Cons.prems] by simp
    then show ?thesis
      using True Cons.IH [of "t + of_nat (length c)"] unat_total [OF Cons.prems True]
      by (simp add: algebra_simps)
  next
    case False
    then have "\<nexists>m. count_chunk t c = Inr m" using count_chunk_Inr [OF Cons.prems] by simp
    then show ?thesis using False by (auto simp: bindr_Inr)
  qed
qed

text \<open>The object of a digest: a regular file of at most 64 MiB whose bytes have that digest.\<close>

definition object_at :: "(byte list \<Rightarrow> Digest32) \<Rightarrow> fs \<Rightarrow> path \<Rightarrow> Digest32 \<Rightarrow> byte list \<Rightarrow> bool" where
  "object_at sha fs p d bs \<longleftrightarrow> fmlookup fs p = Some (RegularFile bs) \<and> sha bs = d \<and> length bs \<le> 67108864"

definition entry_for :: "Digest32 \<Rightarrow> byte list \<Rightarrow> ArtifactRecord" where
  "entry_for d bs = \<lparr>ac_digest = d, ac_byte_len = of_nat (length bs), ac_relative_path = relative_path_for d\<rparr>"

lemma verify_path_Inr:
  "verify_path sha fs p d n = Inr u \<longleftrightarrow> (\<exists>bs. object_at sha fs p d bs \<and> n = of_nat (length bs))"
proof (cases "fmlookup fs p")
  case None
  then show ?thesis by (auto simp: verify_path_def symlink_metadata_def object_at_def split: option.splits if_splits)
next
  case (Some node)
  show ?thesis
  proof (cases node)
    case (RegularFile bs)
    have "hash_file sha fs p n = Inr h \<longleftrightarrow> length bs \<le> 67108864 \<and> n = of_nat (length bs) \<and> h = sha bs" for h
      using Some RegularFile hash_loop_Inr [of 0 "chunks_of COPY_BUFFER_BYTES bs" "[]"]
      by (auto simp: hash_file_def read_file_def concat_chunks_of COPY_BUFFER_BYTES_def result_simps MAX_ARTIFACT_BYTES_def
          word_less_nat_alt word_le_nat_alt unat_of_nat_u64 split: if_splits)
    then show ?thesis using Some RegularFile
      by (auto simp: verify_path_def symlink_metadata_def object_at_def result_simps split: if_splits)
  qed (auto simp: Some verify_path_def symlink_metadata_def object_at_def)
qed

lemma unat_entry_len: "length bs \<le> 67108864 \<Longrightarrow> unat (of_nat (length bs) :: u64) = length bs"
  by (rule unat_of_nat_u64) simp

lemma entry_for_sel [simp]:
  "ac_digest (entry_for d bs) = d" "ac_byte_len (entry_for d bs) = of_nat (length bs)"
  "ac_relative_path (entry_for d bs) = relative_path_for d"
  by (simp_all add: entry_for_def)

lemma entry_eqI:
  "ac_byte_len entry = of_nat (length bs) \<Longrightarrow> ac_relative_path entry = relative_path_for (ac_digest entry) \<Longrightarrow>
   entry = entry_for (ac_digest entry) bs"
  by (simp add: entry_for_def)

lemma validate_record_metadata_Inr:
  "validate_record_metadata entry = Inr u \<longleftrightarrow>
     unat (ac_byte_len entry) \<le> 67108864 \<and> ac_relative_path entry = relative_path_for (ac_digest entry)"
  by (auto simp: validate_record_metadata_def relative_path_safe MAX_ARTIFACT_BYTES_def word_less_nat_alt)

lemma object_at_length: "object_at sha fs p d bs \<Longrightarrow> unat (of_nat (length bs) :: u64) = length bs \<and> length bs \<le> 67108864"
  by (simp add: object_at_def unat_entry_len)

lemma verify_artifact_Inr:
  "verify_artifact sha entry fs = Inr u \<longleftrightarrow>
     (\<exists>bs. object_at sha fs (object_path (ac_digest entry)) (ac_digest entry) bs \<and> entry = entry_for (ac_digest entry) bs)"
    (is "?L \<longleftrightarrow> ?R")
proof
  assume ?L
  then have meta: "unat (ac_byte_len entry) \<le> 67108864" "ac_relative_path entry = relative_path_for (ac_digest entry)"
    and "verify_path sha fs (join_root (ac_relative_path entry)) (ac_digest entry) (ac_byte_len entry) = Inr u"
    by (auto simp: verify_artifact_def bindr_Inr validate_record_metadata_Inr)
  then obtain bs where "object_at sha fs (object_path (ac_digest entry)) (ac_digest entry) bs" "ac_byte_len entry = of_nat (length bs)"
    by (auto simp: verify_path_Inr)
  then show ?R using entry_eqI meta(2) by blast
next
  assume ?R
  then obtain bs where bs: "object_at sha fs (object_path (ac_digest entry)) (ac_digest entry) bs"
    and e: "ac_byte_len entry = of_nat (length bs)" "ac_relative_path entry = relative_path_for (ac_digest entry)"
    by (metis entry_for_sel)
  have "validate_record_metadata entry = Inr ()" using object_at_length [OF bs] e by (simp add: validate_record_metadata_Inr)
  moreover have "verify_path sha fs (object_path (ac_digest entry)) (ac_digest entry) (ac_byte_len entry) = Inr ()"
    using bs e by (auto simp: verify_path_Inr)
  ultimately show ?L using e by (simp add: verify_artifact_def)
qed

lemma read_verified_Inr:
  "read_verified sha entry fs = Inr bs \<longleftrightarrow>
     object_at sha fs (object_path (ac_digest entry)) (ac_digest entry) bs \<and> entry = entry_for (ac_digest entry) bs"
proof -
  have path: "join_root (ac_relative_path entry) = object_path (ac_digest entry)" if "entry = entry_for (ac_digest entry) cs" for cs
    using that by (metis entry_for_sel(3) join_root_relative)
  have "read_verified sha entry fs = Inr bs \<longleftrightarrow>
      verify_artifact sha entry fs = Inr () \<and> read_file fs (join_root (ac_relative_path entry)) = Inr bs"
    by (auto simp: read_verified_def bindr_Inr split: sum.splits)
  also have "\<dots> \<longleftrightarrow> object_at sha fs (object_path (ac_digest entry)) (ac_digest entry) bs \<and> entry = entry_for (ac_digest entry) bs"
    unfolding verify_artifact_Inr using path by (auto simp: object_at_def read_file_def split: option.splits node.splits)
  finally show ?thesis .
qed

section \<open>Discovery\<close>

definition hex_name :: "nat \<Rightarrow> string \<Rightarrow> bool" where
  "hex_name n name \<longleftrightarrow> length name = n \<and> set name \<subseteq> set hex_table"

lemma hex_char_iff:
  "48 \<le> (of_char c :: byte) \<and> (of_char c :: byte) \<le> 57 \<or> 97 \<le> (of_char c :: byte) \<and> (of_char c :: byte) \<le> 102 \<longleftrightarrow>
   c \<in> set hex_table" (is "?L \<longleftrightarrow> _")
proof
  assume ?L
  then have "(of_char c :: nat) \<in> {48..<58} \<union> {97..<103}"
    by (auto simp: word_le_nat_alt unat_of_char_byte)
  then have "char_of (of_char c :: nat) \<in> char_of ` ({48..<58 :: nat} \<union> {97..<103})" by (rule imageI)
  then have "c \<in> char_of ` ({48..<58 :: nat} \<union> {97..<103})" by simp
  also have "\<dots> \<subseteq> set hex_table" unfolding hex_table_chars by code_simp
  finally show "c \<in> set hex_table" .
next
  assume "c \<in> set hex_table"
  then show ?L unfolding hex_table_chars by (auto simp: word_le_nat_alt unat_of_char_byte)
qed

lemma lowercase_hex_component_Inr [simp]: "lowercase_hex_component name n = Inr m \<longleftrightarrow> m = name \<and> hex_name n name"
  using hex_char_iff by (auto simp: lowercase_hex_component_def hex_name_def str_bytes_def list_all_iff)

lemma hex_name_object: "hex_name 2 (take 2 (to_hex d))" "hex_name 2 (take 2 (drop 2 (to_hex d)))" "hex_name 64 (to_hex d)"
  using to_hex_parts [of d] to_hex_chars [of d] by (simp_all add: hex_name_def)

lemma lowercase_hex_to_hex: "lowercase_hex_component (to_hex d) 64 = Inr (to_hex d)"
  using hex_name_object(3) by simp

lemma parse_hex_total: "list_all (\<lambda>b. 48 \<le> b \<and> b \<le> 57 \<or> 97 \<le> b \<and> b \<le> 102) bs \<Longrightarrow> \<exists>r. parse_hex bs = Some r"
  by (induction bs rule: parse_hex.induct) (auto simp: from_hex_def)

lemma hex_name_digest:
  assumes "hex_name 64 name"
  obtains d where "parse_hex (str_bytes name) = Some (digest_bytes d)" "name = to_hex d"
proof -
  have hex: "list_all (\<lambda>b. 48 \<le> b \<and> b \<le> 57 \<or> 97 \<le> b \<and> b \<le> 102) (str_bytes name)"
    using assms hex_char_iff by (auto simp: hex_name_def str_bytes_def list_all_iff)
  then obtain bytes where bytes: "parse_hex (str_bytes name) = Some bytes" using parse_hex_total by blast
  have "is_ascii name" using hex by (auto simp: is_ascii_def list_all_iff word_less_nat_alt word_le_nat_alt)
  then have "digest_from_str () name = Inr (digest_of_bytes bytes)"
    using assms bytes by (simp add: digest_from_str_def hex_name_def)
  then have name: "name = to_hex (digest_of_bytes bytes)" by (rule digest_from_str_Inr)
  then have "parse_hex (str_bytes name) = Some (digest_bytes (digest_of_bytes bytes))" using parse_hex_digest by metis
  then show ?thesis using that name by blast
qed

text \<open>The entry of the file at a path, when that file is the object the path names.\<close>

definition object_entry :: "(byte list \<Rightarrow> Digest32) \<Rightarrow> fs \<Rightarrow> path \<Rightarrow> ArtifactRecord \<Rightarrow> bool" where
  "object_entry sha fs p e \<longleftrightarrow> (\<exists>d bs. p = object_path d \<and> object_at sha fs p d bs \<and> e = entry_for d bs)"

lemma object_entry_exists: "object_entry sha fs p e \<Longrightarrow> fmlookup fs p \<noteq> None"
  by (auto simp: object_entry_def object_at_def)

lemma discover_object_Inr:
  assumes "hex_name 2 a"
  shows "discover_object sha fs a b c = Inr e \<longleftrightarrow> object_entry sha fs [''sha256'', a, b, c] e"
proof
  assume L: "discover_object sha fs a b c = Inr e"
  then have c: "hex_name 64 c" "take 2 c = a" "take 2 (drop 2 c) = b"
    using assms by (auto simp: discover_object_def Let_def result_simps hex_name_def)
  obtain d where d: "parse_hex (str_bytes c) = Some (digest_bytes d)" "c = to_hex d" using hex_name_digest [OF c(1)] .
  then have p: "[''sha256'', a, b, c] = object_path d" using c by (simp add: object_path_def)
  obtain bs where "object_at sha fs (object_path d) d bs" "e = entry_for d bs"
    using L assms d p by (auto simp: discover_object_def Let_def result_simps ArtifactDigest_from_slice_def verify_path_Inr
        hex_name_def entry_for_def split: if_splits)
  then show "object_entry sha fs [''sha256'', a, b, c] e" unfolding object_entry_def p by blast
next
  assume "object_entry sha fs [''sha256'', a, b, c] e"
  then obtain d bs where p: "[''sha256'', a, b, c] = object_path d" and o: "object_at sha fs (object_path d) d bs"
    and e: "e = entry_for d bs" unfolding object_entry_def by metis
  have c: "c = to_hex d" "a = take 2 c" "b = take 2 (drop 2 c)" using p by (simp_all add: object_path_def)
  have len: "length a = 2" using assms by (simp add: hex_name_def)
  have node: "fmlookup fs (object_path d) = Some (RegularFile bs)" "\<not> of_nat (length bs) > MAX_ARTIFACT_BYTES"
    using o object_at_length [OF o] by (simp_all add: object_at_def MAX_ARTIFACT_BYTES_def word_less_nat_alt)
  have hash: "verify_path sha fs (object_path d) d (of_nat (length bs)) = Inr ()" using o by (auto simp: verify_path_Inr)
  show "discover_object sha fs a b c = Inr e"
    unfolding discover_object_def p Let_def require_file_entry_def using node hash len c
    by (simp add: lowercase_hex_to_hex parse_hex_digest ArtifactDigest_from_slice_def read_file_def e entry_for_def)
qed

text \<open>
  A clean tree below \<open>sha256\<close>: two levels of directories named by two hexadecimal digits, and files
  that are objects under their own path.
\<close>

definition cas_clean :: "(byte list \<Rightarrow> Digest32) \<Rightarrow> fs \<Rightarrow> bool" where
  "cas_clean sha fs \<longleftrightarrow>
     fmlookup fs [''sha256''] = Some Directory \<and>
     (\<forall>a. fmlookup fs [''sha256'', a] \<noteq> None \<longrightarrow> fmlookup fs [''sha256'', a] = Some Directory \<and> hex_name 2 a) \<and>
     (\<forall>a b. fmlookup fs [''sha256'', a, b] \<noteq> None \<longrightarrow> fmlookup fs [''sha256'', a, b] = Some Directory \<and> hex_name 2 b) \<and>
     (\<forall>a b c. fmlookup fs [''sha256'', a, b, c] \<noteq> None \<longrightarrow> (\<exists>e. object_entry sha fs [''sha256'', a, b, c] e))"

text \<open>The entries of all objects.\<close>

definition entries :: "(byte list \<Rightarrow> Digest32) \<Rightarrow> fs \<Rightarrow> ArtifactRecord set" where
  "entries sha fs = {e. \<exists>p. object_entry sha fs p e}"

lemma entries_iff: "e \<in> entries sha fs \<longleftrightarrow> verify_artifact sha e fs = Inr ()"
proof
  assume "e \<in> entries sha fs"
  then obtain d bs where "object_at sha fs (object_path d) d bs" "e = entry_for d bs"
    by (auto simp: entries_def object_entry_def)
  then show "verify_artifact sha e fs = Inr ()" by (auto simp: verify_artifact_Inr)
next
  assume "verify_artifact sha e fs = Inr ()"
  then show "e \<in> entries sha fs" unfolding verify_artifact_Inr entries_def object_entry_def by blast
qed

lemma entries_digest: "e \<in> entries sha fs \<Longrightarrow> f \<in> entries sha fs \<Longrightarrow> ac_digest e = ac_digest f \<Longrightarrow> e = f"
proof -
  assume "e \<in> entries sha fs" "f \<in> entries sha fs" and d: "ac_digest e = ac_digest f"
  then obtain bs cs where e: "object_at sha fs (object_path (ac_digest e)) (ac_digest e) bs" "e = entry_for (ac_digest e) bs"
    and f: "object_at sha fs (object_path (ac_digest f)) (ac_digest f) cs" "f = entry_for (ac_digest f) cs"
    unfolding entries_iff verify_artifact_Inr by blast
  have "bs = cs" using e(1) f(1) d by (simp add: object_at_def)
  then show "e = f" using e(2) f(2) d by metis
qed

lemma traverse_ex: "(\<exists>ys. traverse f xs = Inr ys) \<longleftrightarrow> (\<forall>x \<in> set xs. \<exists>y. f x = Inr y)"
proof (induction xs)
  case (Cons x xs)
  then show ?case by (cases "f x"; cases "traverse f xs") auto
qed simp

lemma traverse_set: "traverse f xs = Inr ys \<Longrightarrow> set ys = {y. \<exists>x \<in> set xs. f x = Inr y}"
  by (induction xs arbitrary: ys) (auto simp: bindr_Inr)

lemma io_read_dir_Inr: "io (read_dir ls fs p) = Inr xs \<longleftrightarrow> fmlookup fs p = Some Directory \<and> xs = ls fs p"
  by (auto simp: io_def read_dir_def split: option.splits node.splits)

lemma require_directory_Inr [simp]: "require_directory_entry fs p = Inr u \<longleftrightarrow> fmlookup fs p = Some Directory"
  by (simp add: require_directory_entry_def)

lemma listed: "lists_dir ls \<Longrightarrow> distinct (ls fs p) \<and> (x \<in> set (ls fs p) \<longleftrightarrow> fmlookup fs (p @ [x]) \<noteq> None)"
  by (simp add: lists_dir_def children_def)

lemma dirs_above:
  assumes "fs_wf fs"
  shows "fmlookup fs [x, a, b] \<noteq> None \<Longrightarrow> fmlookup fs [x, a] \<noteq> None"
    "fmlookup fs [x, a, b, c] \<noteq> None \<Longrightarrow> fmlookup fs [x, a, b] \<noteq> None"
  using fs_wf_prefix [OF assms, of "[x, a, b]" _ 2] fs_wf_prefix [OF assms, of "[x, a, b, c]" _ 3]
  by (auto simp: numeral_eq_Suc)

lemma object_entry_dirs:
  assumes "fs_wf fs" "object_entry sha fs [x, a, b, c] e"
  shows "fmlookup fs [x, a] \<noteq> None" "fmlookup fs [x, a, b] \<noteq> None"
  using dirs_above [OF assms(1)] object_entry_exists [OF assms(2)] by blast+

lemma traverse_concat_set:
  "traverse f xs = Inr rss \<Longrightarrow> (\<And>x r. x \<in> set xs \<Longrightarrow> f x = Inr r \<Longrightarrow> set r = {e. P x e}) \<Longrightarrow>
   set (concat rss) = {e. \<exists>x \<in> set xs. P x e}"
proof (induction xs arbitrary: rss)
  case (Cons x xs)
  then obtain r rest where r: "f x = Inr r" "traverse f xs = Inr rest" "rss = r # rest" by (auto simp: bindr_Inr)
  have "set r = {e. P x e}" using Cons.prems(2) [of x r] r by simp
  moreover have "set (concat rest) = {e. \<exists>x \<in> set xs. P x e}" using Cons.IH [OF r(2)] Cons.prems(2) by simp
  ultimately show ?case using r(3) by auto
qed simp

lemma discover_second_unfold:
  "discover_second sha ls fs a b = Inr rs \<longleftrightarrow> fmlookup fs [''sha256'', a, b] = Some Directory \<and> hex_name 2 b \<and>
     traverse (discover_object sha fs a b) (ls fs [''sha256'', a, b]) = Inr rs"
  by (auto simp: discover_second_def bindr_Inr io_read_dir_Inr)

lemma discover_second_ok:
  assumes "lists_dir ls" "hex_name 2 a"
  shows "(\<exists>rs. discover_second sha ls fs a b = Inr rs) \<longleftrightarrow>
      fmlookup fs [''sha256'', a, b] = Some Directory \<and> hex_name 2 b \<and>
      (\<forall>c. fmlookup fs [''sha256'', a, b, c] \<noteq> None \<longrightarrow> (\<exists>e. object_entry sha fs [''sha256'', a, b, c] e))"
  unfolding discover_second_unfold ex_simps traverse_ex discover_object_Inr [OF assms(2)]
  using listed [OF assms(1), of fs "[''sha256'', a, b]"] by auto

lemma discover_second_set:
  assumes "lists_dir ls" "hex_name 2 a" "discover_second sha ls fs a b = Inr rs"
  shows "set rs = {e. \<exists>c. object_entry sha fs [''sha256'', a, b, c] e}"
proof -
  have "set rs = {e. \<exists>c \<in> set (ls fs [''sha256'', a, b]). object_entry sha fs [''sha256'', a, b, c] e}"
    using assms(3) traverse_set discover_object_Inr [OF assms(2)] unfolding discover_second_unfold by blast
  also have "\<dots> = {e. \<exists>c. object_entry sha fs [''sha256'', a, b, c] e}"
    using listed [OF assms(1), of fs "[''sha256'', a, b]"] object_entry_exists by fastforce
  finally show ?thesis .
qed

lemma discover_first_unfold:
  "discover_first sha ls fs a = Inr rs \<longleftrightarrow> fmlookup fs [''sha256'', a] = Some Directory \<and> hex_name 2 a \<and>
     (\<exists>rss. traverse (discover_second sha ls fs a) (ls fs [''sha256'', a]) = Inr rss \<and> rs = concat rss)"
  by (auto simp: discover_first_def bindr_Inr io_read_dir_Inr)

lemma discover_first_ok:
  assumes "lists_dir ls"
  shows "(\<exists>rs. discover_first sha ls fs a = Inr rs) \<longleftrightarrow>
      fmlookup fs [''sha256'', a] = Some Directory \<and> hex_name 2 a \<and>
      (\<forall>b. fmlookup fs [''sha256'', a, b] \<noteq> None \<longrightarrow> fmlookup fs [''sha256'', a, b] = Some Directory \<and> hex_name 2 b \<and>
        (\<forall>c. fmlookup fs [''sha256'', a, b, c] \<noteq> None \<longrightarrow> (\<exists>e. object_entry sha fs [''sha256'', a, b, c] e)))"
proof -
  have "(\<exists>rs. discover_first sha ls fs a = Inr rs) \<longleftrightarrow> fmlookup fs [''sha256'', a] = Some Directory \<and> hex_name 2 a \<and>
      (\<forall>b \<in> set (ls fs [''sha256'', a]). \<exists>rs. discover_second sha ls fs a b = Inr rs)"
    unfolding discover_first_unfold traverse_ex [symmetric] by blast
  moreover have "b \<in> set (ls fs [''sha256'', a]) \<longleftrightarrow> fmlookup fs [''sha256'', a, b] \<noteq> None" for b
    using listed [OF assms, of fs "[''sha256'', a]"] by simp
  ultimately show ?thesis using discover_second_ok [OF assms, where fs = fs and a = a and sha = sha] by blast
qed

lemma discover_first_set:
  assumes "lists_dir ls" "fs_wf fs" "discover_first sha ls fs a = Inr rs"
  shows "set rs = {e. \<exists>b c. object_entry sha fs [''sha256'', a, b, c] e}"
proof -
  obtain rss where rss: "traverse (discover_second sha ls fs a) (ls fs [''sha256'', a]) = Inr rss" "rs = concat rss"
    and a: "hex_name 2 a" using assms(3) by (auto simp: discover_first_unfold)
  have "set rs = {e. \<exists>b \<in> set (ls fs [''sha256'', a]). \<exists>c. object_entry sha fs [''sha256'', a, b, c] e}"
    unfolding rss(2) by (rule traverse_concat_set [OF rss(1)]) (rule discover_second_set [OF assms(1) a])
  also have "\<dots> = {e. \<exists>b c. object_entry sha fs [''sha256'', a, b, c] e}"
  proof -
    have "b \<in> set (ls fs [''sha256'', a])" if "object_entry sha fs [''sha256'', a, b, c] e" for b c e
      using object_entry_dirs(2) [OF assms(2) that] listed [OF assms(1), of fs "[''sha256'', a]"] by simp
    then show ?thesis by blast
  qed
  finally show ?thesis .
qed

lemma discover_records_ok:
  assumes "lists_dir ls" "fs_wf fs"
  shows "(\<exists>rs. discover_records sha ls fs = Inr rs) \<longleftrightarrow> cas_clean sha fs"
proof -
  have "(\<exists>rs. discover_records sha ls fs = Inr rs) \<longleftrightarrow> fmlookup fs [''sha256''] = Some Directory \<and>
      (\<forall>a \<in> set (ls fs [''sha256'']). \<exists>rs. discover_first sha ls fs a = Inr rs)"
    unfolding traverse_ex [symmetric] by (auto simp: discover_records_def bindr_Inr io_read_dir_Inr)
  also have "\<dots> \<longleftrightarrow> fmlookup fs [''sha256''] = Some Directory \<and>
      (\<forall>a. fmlookup fs [''sha256'', a] \<noteq> None \<longrightarrow> (\<exists>rs. discover_first sha ls fs a = Inr rs))"
    using listed [OF assms(1), of fs "[''sha256'']"] by auto
  also have "\<dots> \<longleftrightarrow> cas_clean sha fs"
    unfolding cas_clean_def discover_first_ok [OF assms(1), where fs = fs and sha = sha]
    using dirs_above(1) [OF assms(2), of "''sha256''"] dirs_above(2) [OF assms(2), of "''sha256''"] by metis
  finally show ?thesis .
qed

lemma discover_records_set:
  assumes "lists_dir ls" "fs_wf fs" "discover_records sha ls fs = Inr rs"
  shows "set rs = entries sha fs" "sorted (map ac_digest rs)"
proof -
  obtain rss where rss: "traverse (discover_first sha ls fs) (ls fs [''sha256'']) = Inr rss" "rs = sort_key ac_digest (concat rss)"
    using assms(3) by (auto simp: discover_records_def bindr_Inr io_read_dir_Inr)
  have "set rs = set (concat rss)" by (simp add: rss(2))
  also have "\<dots> = {e. \<exists>a \<in> set (ls fs [''sha256'']). \<exists>b c. object_entry sha fs [''sha256'', a, b, c] e}"
    by (rule traverse_concat_set [OF rss(1)]) (rule discover_first_set [OF assms(1,2)])
  also have "\<dots> = {e. \<exists>a b c. object_entry sha fs [''sha256'', a, b, c] e}"
  proof -
    have "a \<in> set (ls fs [''sha256''])" if "object_entry sha fs [''sha256'', a, b, c] e" for a b c e
      using object_entry_dirs(1) [OF assms(2) that] listed [OF assms(1), of fs "[''sha256'']"] by simp
    then show ?thesis by blast
  qed
  also have "\<dots> = entries sha fs" unfolding entries_def by (auto simp: object_entry_def object_path_def)
  finally show "set rs = entries sha fs" .
  show "sorted (map ac_digest rs)" using rss(2) by simp
qed

text \<open>Distinct names give distinct objects, so the discovered list has every digest once.\<close>

lemma traverse_distinct:
  "traverse f xs = Inr ys \<Longrightarrow> distinct xs \<Longrightarrow> (\<And>x y. f x = Inr y \<Longrightarrow> key y = x) \<Longrightarrow> map key ys = xs"
  by (induction xs arbitrary: ys) (auto simp: bindr_Inr)

lemma traverse_concat_distinct:
  "traverse f xs = Inr rss \<Longrightarrow> distinct xs \<Longrightarrow> (\<And>x r. f x = Inr r \<Longrightarrow> distinct r \<and> (\<forall>e \<in> set r. key e = x)) \<Longrightarrow>
   distinct (concat rss) \<and> (\<forall>e \<in> set (concat rss). key e \<in> set xs)"
proof (induction xs arbitrary: rss)
  case (Cons x xs)
  then obtain r rest where r: "f x = Inr r" "traverse f xs = Inr rest" "rss = r # rest" by (auto simp: bindr_Inr)
  have "distinct r" "\<forall>e \<in> set r. key e = x" using Cons.prems(3) r(1) by blast+
  moreover have "distinct (concat rest)" "\<forall>e \<in> set (concat rest). key e \<in> set xs"
    using Cons.IH [OF r(2)] Cons.prems by auto
  ultimately show ?case using r(3) Cons.prems(2) by auto
qed simp

lemma object_entry_name: "object_entry sha fs [''sha256'', a, b, c] e \<Longrightarrow>
    to_hex (ac_digest e) = c \<and> take 2 (drop 2 (to_hex (ac_digest e))) = b \<and> take 2 (to_hex (ac_digest e)) = a"
  by (auto simp: object_entry_def object_path_def)

lemma discover_second_distinct:
  assumes "lists_dir ls" "hex_name 2 a" "discover_second sha ls fs a b = Inr rs"
  shows "distinct rs"
proof -
  have "traverse (discover_object sha fs a b) (ls fs [''sha256'', a, b]) = Inr rs" "distinct (ls fs [''sha256'', a, b])"
    using assms(3) listed [OF assms(1)] by (auto simp: discover_second_unfold)
  then have "map (\<lambda>e. to_hex (ac_digest e)) rs = ls fs [''sha256'', a, b]"
    by (rule traverse_distinct) (use object_entry_name discover_object_Inr [OF assms(2)] in blast)
  then have "distinct (map (\<lambda>e. to_hex (ac_digest e)) rs)" using listed [OF assms(1)] by simp
  then show ?thesis by (simp add: distinct_map)
qed

lemma discover_first_distinct:
  assumes "lists_dir ls" "fs_wf fs" "discover_first sha ls fs a = Inr rs"
  shows "distinct rs"
proof -
  obtain rss where rss: "traverse (discover_second sha ls fs a) (ls fs [''sha256'', a]) = Inr rss" "rs = concat rss"
    and a: "hex_name 2 a" using assms(3) by (auto simp: discover_first_unfold)
  have "distinct r \<and> (\<forall>e \<in> set r. take 2 (drop 2 (to_hex (ac_digest e))) = b)"
    if "discover_second sha ls fs a b = Inr r" for b r
    using discover_second_distinct [OF assms(1) a that] discover_second_set [OF assms(1) a that] object_entry_name by blast
  then show ?thesis
    using traverse_concat_distinct [OF rss(1), where key = "\<lambda>e. take 2 (drop 2 (to_hex (ac_digest e)))"]
      listed [OF assms(1), of fs "[''sha256'', a]"] rss(2) by blast
qed

lemma discover_records_distinct:
  assumes "lists_dir ls" "fs_wf fs" "discover_records sha ls fs = Inr rs"
  shows "distinct (map ac_digest rs)"
proof -
  obtain rss where rss: "traverse (discover_first sha ls fs) (ls fs [''sha256'']) = Inr rss" "rs = sort_key ac_digest (concat rss)"
    using assms(3) by (auto simp: discover_records_def bindr_Inr io_read_dir_Inr)
  have "distinct r \<and> (\<forall>e \<in> set r. take 2 (to_hex (ac_digest e)) = a)" if "discover_first sha ls fs a = Inr r" for a r
    using discover_first_distinct [OF assms(1,2) that] discover_first_set [OF assms(1,2) that] object_entry_name by blast
  then have "distinct rs"
    using traverse_concat_distinct [OF rss(1), where key = "\<lambda>e. take 2 (to_hex (ac_digest e))"]
      listed [OF assms(1), of fs "[''sha256'']"] rss(2) by simp
  moreover have "inj_on ac_digest (set rs)"
    unfolding discover_records_set(1) [OF assms] by (rule inj_onI) (rule entries_digest)
  ultimately show ?thesis by (simp add: distinct_map)
qed

section \<open>Ingesting\<close>

definition store_wf :: "(byte list \<Rightarrow> Digest32) \<Rightarrow> ArtifactStore \<Rightarrow> bool" where
  "store_wf sha s \<longleftrightarrow> fs_wf (as_files s) \<and> fmlookup (as_files s) [] = Some Directory \<and>
     fmlookup (as_files s) [''.tmp''] = Some Directory \<and> cas_clean sha (as_files s)"

text \<open>What a reader delivers before its end: all its bytes, or the error that cut it off.\<close>

fun stream_bytes :: "reader \<Rightarrow> IoError + byte list" where
  "stream_bytes [] = Inr []"
| "stream_bytes (Inl e # r) = Inl e"
| "stream_bytes (Inr c # r) = (if c = [] then Inr [] else bindr (stream_bytes r) (\<lambda>bs. Inr (c @ bs)))"

lemma stream_bytes_chunks: "0 < n \<Longrightarrow> stream_bytes (map Inr (chunks_of n bs)) = Inr bs"
proof (induction n bs rule: chunks_of.induct)
  case (1 n bs)
  then show ?case by (subst chunks_of.simps) simp
qed

lemma fmupd_same: "fmlookup m k = Some v \<Longrightarrow> fmupd k v m = m"
  by (rule fmap_ext) auto

lemma fmdrop_fresh: "fmlookup m k = None \<Longrightarrow> fmdrop k (fmupd k v m) = m"
  by (rule fmap_ext) auto

lemma ingest_loop_spec:
  assumes "fmlookup (as_files s) t = Some (RegularFile old)" "unat n \<le> 67108864"
  shows "\<exists>w. snd (ingest_loop t r h n s) = s\<lparr>as_files := fmupd t (RegularFile (old @ w)) (as_files s)\<rparr> \<and>
    (case fst (ingest_loop t r h n s) of
       Inr (h', m) \<Rightarrow> stream_bytes r = Inr w \<and> unat n + length w \<le> 67108864 \<and> h' = h @ w \<and> m = n + of_nat (length w)
     | Inl e \<Rightarrow> (\<nexists>bs. stream_bytes r = Inr bs \<and> unat n + length bs \<le> 67108864) \<and>
         ((\<exists>m. e = StoredArtifactTooLarge m) \<or> (\<exists>i. stream_bytes r = Inl i \<and> e = Io i)))"
  using assms
proof (induction r arbitrary: old h n s)
  case Nil
  then show ?case by (intro exI [of _ "[]"]) (simp add: fmupd_same)
next
  case (Cons x r)
  show ?case
  proof (cases x)
    case (Inl i)
    then show ?thesis using Cons.prems by (intro exI [of _ "[]"]) (simp add: fmupd_same)
  next
    case (Inr c)
    show ?thesis
    proof (cases "c = []")
      case True
      then show ?thesis using Inr Cons.prems by (intro exI [of _ "[]"]) (simp add: fmupd_same)
    next
      case False
      show ?thesis
      proof (cases "unat n + length c \<le> 67108864")
        case True
        let ?s = "s\<lparr>as_files := fmupd t (RegularFile (old @ c)) (as_files s)\<rparr>"
        have "count_chunk n c = Inr (n + of_nat (length c))" using count_chunk_Inr [OF Cons.prems(2)] True by simp
        then have step: "ingest_loop t (x # r) h n s = ingest_loop t r (h @ c) (n + of_nat (length c)) ?s"
          using Inr False Cons.prems(1) by (simp add: and_then_def sys_def write_all_def)
        obtain w where w: "snd (ingest_loop t r (h @ c) (n + of_nat (length c)) ?s) =
            ?s\<lparr>as_files := fmupd t (RegularFile ((old @ c) @ w)) (as_files ?s)\<rparr>"
          "case fst (ingest_loop t r (h @ c) (n + of_nat (length c)) ?s) of
             Inr (h', m) \<Rightarrow> stream_bytes r = Inr w \<and> unat (n + of_nat (length c) :: u64) + length w \<le> 67108864 \<and>
               h' = (h @ c) @ w \<and> m = n + of_nat (length c) + of_nat (length w)
           | Inl e \<Rightarrow> (\<nexists>bs. stream_bytes r = Inr bs \<and> unat (n + of_nat (length c) :: u64) + length bs \<le> 67108864) \<and>
               ((\<exists>m. e = StoredArtifactTooLarge m) \<or> (\<exists>i. stream_bytes r = Inl i \<and> e = Io i))"
          using Cons.IH [of ?s "old @ c" "n + of_nat (length c)" "h @ c"] unat_total [OF Cons.prems(2) True] True by auto
        show ?thesis unfolding step
          by (rule exI [of _ "c @ w"])
            (use w Inr False unat_total [OF Cons.prems(2) True] in \<open>auto simp: algebra_simps bindr_Inr bindr_Inl split: sum.splits\<close>)
      next
        case big: False
        then obtain e where e: "count_chunk n c = Inl e"
          using count_chunk_Inr [OF Cons.prems(2), of c] by (cases "count_chunk n c") auto
        have "\<nexists>bs. stream_bytes (x # r) = Inr bs \<and> unat n + length bs \<le> 67108864"
          using big Inr False by (auto simp: bindr_Inr)
        then show ?thesis
          using e Inr False count_chunk_Inl [OF e] Cons.prems(1)
          by (intro exI [of _ "[]"]) (simp add: fmupd_same)
      qed
    qed
  qed
qed

text \<open>The two directories above an object, and the tree with an object added below them.\<close>

definition dir1 :: "Digest32 \<Rightarrow> path" where
  "dir1 d = [''sha256'', take 2 (to_hex d)]"

definition dir2 :: "Digest32 \<Rightarrow> path" where
  "dir2 d = [''sha256'', take 2 (to_hex d), take 2 (drop 2 (to_hex d))]"

definition with_dirs :: "Digest32 \<Rightarrow> fs \<Rightarrow> fs" where
  "with_dirs d fs = fmupd (dir2 d) Directory (fmupd (dir1 d) Directory fs)"

lemma symlink_metadata_NotFound:
  "fmlookup fs p = None \<Longrightarrow> (\<And>i. i < length p \<Longrightarrow> fmlookup fs (take i p) \<in> {None, Some Directory}) \<Longrightarrow>
   symlink_metadata fs p = Inl NotFound"
  by (auto simp: symlink_metadata_def list_ex_iff)

lemma sync_exists: "fmlookup (as_files s) p \<noteq> None \<Longrightarrow> sync p s = (Inr (), s)"
  by (auto simp: sync_def sync_directory_def)

lemma create_missing_dir_spec:
  "fmlookup (as_files s) p = None \<Longrightarrow> p \<noteq> [] \<Longrightarrow> fmlookup (as_files s) (parent p) = Some Directory \<Longrightarrow>
   create_missing_dir p s = (Inr (), s\<lparr>as_files := fmupd p Directory (as_files s)\<rparr>)"
  by (simp add: create_missing_dir_def create_dir_def sync_exists)

text \<open>One level of \<open>create_dir_all_durable\<close> below a directory that is or will be there.\<close>

lemma ensure_dir_step:
  assumes outer: "create_dir_all_durable outer s = (Inr (), s\<lparr>as_files := fs\<rparr>)" "fmlookup fs (rev outer) = Some Directory"
    and p: "fmlookup fs (rev (x # outer)) = fmlookup (as_files s) (rev (x # outer))"
      "fmlookup (as_files s) (rev (x # outer)) \<in> {None, Some Directory}"
    and above: "\<And>i. i < Suc (length outer) \<Longrightarrow> fmlookup (as_files s) (take i (rev (x # outer))) \<in> {None, Some Directory}"
    and same: "fmlookup (as_files s) (rev (x # outer)) = Some Directory \<Longrightarrow> fs = as_files s"
  shows "create_dir_all_durable (x # outer) s = (Inr (), s\<lparr>as_files := fmupd (rev (x # outer)) Directory fs\<rparr>)"
proof (cases "fmlookup (as_files s) (rev (x # outer))")
  case None
  have "symlink_metadata (as_files s) (rev (x # outer)) = Inl NotFound"
    using None above by (intro symlink_metadata_NotFound) simp_all
  then show ?thesis
    using None outer p(1) create_missing_dir_spec [of "s\<lparr>as_files := fs\<rparr>" "rev (x # outer)"]
    by (simp add: and_then_def parent_def)
next
  case (Some n)
  then have "symlink_metadata (as_files s) (rev (x # outer)) = Inr Directory" "fs = as_files s"
    using p(2) same by (auto simp: symlink_metadata_Inr)
  then show ?thesis using Some p(2) by (simp add: fmupd_same)
qed

lemma store_wfD:
  assumes "store_wf sha s"
  shows "fs_wf (as_files s)" "fmlookup (as_files s) [] = Some Directory" "fmlookup (as_files s) [''.tmp''] = Some Directory"
    "cas_clean sha (as_files s)" "fmlookup (as_files s) [''sha256''] = Some Directory"
    "fmlookup (as_files s) (dir1 d) \<in> {None, Some Directory}" "fmlookup (as_files s) (dir2 d) \<in> {None, Some Directory}"
    "fmlookup (as_files s) (dir1 d) = None \<Longrightarrow> fmlookup (as_files s) (dir2 d) = None"
    "fmlookup (as_files s) (dir2 d) = None \<Longrightarrow> fmlookup (as_files s) (object_path d) = None"
proof -
  show wf: "fs_wf (as_files s)" "fmlookup (as_files s) [] = Some Directory" "fmlookup (as_files s) [''.tmp''] = Some Directory"
    "cas_clean sha (as_files s)" "fmlookup (as_files s) [''sha256''] = Some Directory"
    using assms by (simp_all add: store_wf_def cas_clean_def)
  show "fmlookup (as_files s) (dir1 d) \<in> {None, Some Directory}" "fmlookup (as_files s) (dir2 d) \<in> {None, Some Directory}"
    using wf(4) unfolding cas_clean_def dir1_def dir2_def by blast+
  show "fmlookup (as_files s) (dir1 d) = None \<Longrightarrow> fmlookup (as_files s) (dir2 d) = None"
    "fmlookup (as_files s) (dir2 d) = None \<Longrightarrow> fmlookup (as_files s) (object_path d) = None"
    using dirs_above [OF wf(1)] unfolding dir1_def dir2_def object_path_def by blast+
qed

lemma ensure_object_dir:
  assumes files: "as_files s = fmupd t v (as_files s0)" and t: "fmlookup (as_files s0) t = None" "t = [''.tmp'', name]"
    and wf: "store_wf sha s0"
  shows "ensure_dir (dir2 d) s = (Inr (), s\<lparr>as_files := with_dirs d (as_files s)\<rparr>)"
proof -
  note w = store_wfD [OF wf]
  let ?fs = "as_files s"
  have same: "fmlookup ?fs p = fmlookup (as_files s0) p" if "p \<noteq> t" for p using that files by simp
  have s: "fmlookup ?fs [''sha256''] = Some Directory" "fmlookup ?fs [] = Some Directory"
    "fmlookup ?fs (dir1 d) \<in> {None, Some Directory}" "fmlookup ?fs (dir2 d) \<in> {None, Some Directory}"
    "fmlookup ?fs (dir1 d) = None \<Longrightarrow> fmlookup ?fs (dir2 d) = None"
    using same w t(2) by (simp_all add: dir1_def dir2_def)
  have zero: "create_dir_all_durable [''sha256''] s = (Inr (), s\<lparr>as_files := ?fs\<rparr>)"
    using s(1) by (simp add: symlink_metadata_Inr [symmetric])
  have "create_dir_all_durable [take 2 (to_hex d), ''sha256''] s =
      (Inr (), s\<lparr>as_files := fmupd (rev [take 2 (to_hex d), ''sha256'']) Directory ?fs\<rparr>)"
    by (rule ensure_dir_step [OF zero]) (use s in \<open>auto simp: less_Suc_eq dir1_def\<close>)
  then have one: "create_dir_all_durable [take 2 (to_hex d), ''sha256''] s = (Inr (), s\<lparr>as_files := fmupd (dir1 d) Directory ?fs\<rparr>)"
    by (simp add: dir1_def)
  have "create_dir_all_durable [take 2 (drop 2 (to_hex d)), take 2 (to_hex d), ''sha256''] s =
      (Inr (), s\<lparr>as_files := fmupd (rev [take 2 (drop 2 (to_hex d)), take 2 (to_hex d), ''sha256'']) Directory
        (fmupd (dir1 d) Directory ?fs)\<rparr>)"
    by (rule ensure_dir_step [OF one]) (use s in \<open>auto simp: less_Suc_eq dir1_def dir2_def fmupd_same\<close>)
  then show ?thesis by (simp add: ensure_dir_def dir2_def with_dirs_def)
qed

definition add_object :: "Digest32 \<Rightarrow> byte list \<Rightarrow> fs \<Rightarrow> fs" where
  "add_object d bs fs = fmupd (object_path d) (RegularFile bs) (with_dirs d fs)"

lemma path_parent [simp]:
  "parent (object_path d) = dir2 d" "parent (dir2 d) = dir1 d" "parent (dir1 d) = [''sha256'']"
  by (simp_all add: object_path_def dir1_def dir2_def parent_def)

lemma path_neq:
  "object_path d \<noteq> dir1 e" "object_path d \<noteq> dir2 e" "dir1 d \<noteq> dir2 e" "dir1 d \<noteq> [''.tmp'', x]" "dir2 d \<noteq> [''.tmp'', x]"
  "object_path d \<noteq> [''.tmp'', x]" "object_path d \<noteq> [''.tmp'']" "dir1 d \<noteq> [''.tmp'']" "dir2 d \<noteq> [''.tmp'']"
  "object_path d \<noteq> []" "dir1 d \<noteq> []" "dir2 d \<noteq> []" "object_path d \<noteq> [''sha256'']" "dir1 d \<noteq> [''sha256'']"
  "dir2 d \<noteq> [''sha256'']"
  by (simp_all add: object_path_def dir1_def dir2_def)

lemmas path_distinct = path_neq path_neq [symmetric]

lemmas lookup_added = add_object_def with_dirs_def path_distinct

text \<open>The object of a digest in a clean store, if there is one.\<close>

lemma clean_object:
  assumes "cas_clean sha fs" "fmlookup fs (object_path d) = Some n"
  obtains bs where "n = RegularFile bs" "sha bs = d" "length bs \<le> 67108864"
proof -
  have "\<exists>e. object_entry sha fs (object_path d) e"
    using assms unfolding cas_clean_def object_path_def by (metis option.distinct(1))
  then show ?thesis using that assms(2) by (auto simp: object_entry_def object_at_def)
qed

lemma place_absent:
  assumes "store_wf sha s" "fmlookup (as_files s) t = None" "t = [''.tmp'', name]" "fmlookup (as_files s) (object_path d) = None"
  shows "place_object sha t d n (s\<lparr>as_files := with_dirs d (fmupd t (RegularFile bs) (as_files s))\<rparr>) =
    (Inr True, s\<lparr>as_files := add_object d bs (as_files s)\<rparr>)"
proof -
  let ?fs = "with_dirs d (fmupd t (RegularFile bs) (as_files s))"
  note w = store_wfD [OF assms(1)]
  have lookups: "fmlookup ?fs (object_path d) = None" "fmlookup ?fs t = Some (RegularFile bs)"
    "fmlookup ?fs (dir2 d) = Some Directory" "fmlookup ?fs (dir1 d) = Some Directory"
    "fmlookup ?fs [''sha256''] = Some Directory" "fmlookup ?fs [] = Some Directory"
    using assms w by (auto simp: lookup_added)
  have "symlink_metadata ?fs (object_path d) = Inl NotFound"
  proof (rule symlink_metadata_NotFound [OF lookups(1)])
    fix i assume "i < length (object_path d)"
    then have "i = 0 \<or> i = 1 \<or> i = 2 \<or> i = 3" by (auto simp: object_path_def)
    then have "take i (object_path d) \<in> {[], [''sha256''], dir1 d, dir2 d}"
      by (auto simp: object_path_def dir1_def dir2_def numeral_eq_Suc)
    then show "fmlookup ?fs (take i (object_path d)) \<in> {None, Some Directory}" using lookups by auto
  qed
  moreover have "fmupd (object_path d) (RegularFile bs) (fmdrop t ?fs) = add_object d bs (as_files s)"
    using assms(2,3) by (intro fmap_ext) (auto simp: lookup_added)
  ultimately show ?thesis
    using lookups by (simp add: place_object_def and_then_def sys_def rename_def path_distinct)
qed

lemma place_present:
  assumes wf: "store_wf sha s" and t: "fmlookup (as_files s) t = None" "t = [''.tmp'', name]"
    and old: "fmlookup (as_files s) (object_path d) = Some (RegularFile old)" "sha old = d" "length bs \<le> 67108864"
  shows "place_object sha t d (of_nat (length bs)) (s\<lparr>as_files := with_dirs d (fmupd t (RegularFile bs) (as_files s))\<rparr>) =
    (if length old = length bs then (Inr False, s)
     else (Inl (StoredArtifactDigestMismatch (object_path d)), s\<lparr>as_files := fmupd t (RegularFile bs) (as_files s)\<rparr>))"
proof -
  note w = store_wfD [OF wf]
  have dirs: "fmlookup (as_files s) (dir1 d) = Some Directory" "fmlookup (as_files s) (dir2 d) = Some Directory"
    using w(6-9) [of d] old by auto
  have files: "with_dirs d (fmupd t (RegularFile bs) (as_files s)) = fmupd t (RegularFile bs) (as_files s)"
    using dirs t(2) by (intro fmap_ext) (auto simp: lookup_added)
  let ?fs = "fmupd t (RegularFile bs) (as_files s)"
  have node: "fmlookup ?fs (object_path d) = Some (RegularFile old)" using old t(2) by (simp add: path_distinct)
  have len: "length old \<le> 67108864" using clean_object [OF w(4) old(1)] by fastforce
  have same_len: "of_nat (length bs) = (of_nat (length old) :: u64) \<longleftrightarrow> length old = length bs"
    using len old(3) unat_entry_len by metis
  have drop: "fmdrop t ?fs = as_files s" using t(1) by (rule fmdrop_fresh)
  have verify: "verify_path sha ?fs (object_path d) d (of_nat (length bs)) = Inr () \<longleftrightarrow> length old = length bs"
    using node old(2) len same_len by (auto simp: verify_path_Inr object_at_def)
  have mismatch: "verify_path sha ?fs (object_path d) d (of_nat (length bs)) = Inl (StoredArtifactDigestMismatch (object_path d))"
    if "length old \<noteq> length bs"
  proof -
    have "(of_nat (length old) :: u64) \<noteq> of_nat (length bs)" using that same_len by metis
    then show ?thesis using node by (simp add: verify_path_def symlink_metadata_def)
  qed
  have meta: "symlink_metadata ?fs (object_path d) = Inr (RegularFile old)" using node by (simp add: symlink_metadata_Inr)
  have staged: "remove_file ?fs t = Inr (as_files s)" using drop by (simp add: remove_file_def)
  have accept: "verify_path sha ?fs (object_path d) d (of_nat (length bs)) = Inr ()" if "length old = length bs"
    using verify that by simp
  show ?thesis unfolding files
    using accept mismatch by (cases "length old = length bs") (simp_all add: place_object_def Let_def meta and_then_def sys_def staged)
qed

text \<open>
  The guarded part of an ingest leaves either the tree with the object in it, or the tree it found.
\<close>

definition ingested :: "Digest32 \<Rightarrow> byte list \<Rightarrow> fs \<Rightarrow> fs" where
  "ingested d bs fs = (if fmlookup fs (object_path d) = None then add_object d bs fs else fs)"

definition stage_post :: "(byte list \<Rightarrow> Digest32) \<Rightarrow> reader \<Rightarrow> ArtifactStore \<Rightarrow> (ArtifactRecord \<times> bool) store_result \<times> ArtifactStore \<Rightarrow> bool" where
  "stage_post sha r s res \<longleftrightarrow>
     (case res of
        (Inr (e, renamed), s') \<Rightarrow> \<exists>bs. stream_bytes r = Inr bs \<and> length bs \<le> 67108864 \<and> e = entry_for (sha bs) bs \<and>
          s' = s\<lparr>as_files := ingested (sha bs) bs (as_files s)\<rparr> \<and>
          (\<forall>old. fmlookup (as_files s) (object_path (sha bs)) = Some (RegularFile old) \<longrightarrow> length old = length bs)
      | (Inl e, s') \<Rightarrow> s' = s \<and>
          (\<forall>bs. stream_bytes r = Inr bs \<longrightarrow> length bs \<le> 67108864 \<longrightarrow>
            (\<exists>old. fmlookup (as_files s) (object_path (sha bs)) = Some (RegularFile old) \<and> length old \<noteq> length bs)) \<and>
          ((\<exists>m. e = StoredArtifactTooLarge m) \<or> (\<exists>i. stream_bytes r = Inl i \<and> e = Io i) \<or>
            (\<exists>bs. stream_bytes r = Inr bs \<and> e = StoredArtifactDigestMismatch (object_path (sha bs)))))"

lemma guarded_stage:
  assumes wf: "store_wf sha s" and t: "fmlookup (as_files s) t = None" "t = [''.tmp'', name]"
  shows "stage_post sha r s (guarded t (stage_object sha t r) s)"
proof -
  note w = store_wfD [OF wf]
  let ?at = "\<lambda>bs. s\<lparr>as_files := fmupd t (RegularFile bs) (as_files s)\<rparr>"
  have "parent t = [''.tmp'']" using t(2) by (simp add: parent_def)
  then have create: "sys (\<lambda>fs. create_new fs t) s = (Inr (), ?at [])" using t(1) w(3) by (simp add: sys_def create_new_def)
  have "\<exists>v. snd (ingest_loop t r [] 0 (?at [])) = ?at v \<and> (case fst (ingest_loop t r [] 0 (?at [])) of
       Inr (h', m) \<Rightarrow> stream_bytes r = Inr v \<and> length v \<le> 67108864 \<and> h' = v \<and> m = of_nat (length v)
     | Inl e \<Rightarrow> (\<nexists>bs. stream_bytes r = Inr bs \<and> length bs \<le> 67108864) \<and>
         ((\<exists>m. e = StoredArtifactTooLarge m) \<or> (\<exists>i. stream_bytes r = Inl i \<and> e = Io i)))"
    using ingest_loop_spec [of "?at []" t "[]" 0 r "[]", unfolded unat_0 add_0 append_Nil] by simp
  then obtain v where snd: "snd (ingest_loop t r [] 0 (?at [])) = ?at v"
    and fst: "case fst (ingest_loop t r [] 0 (?at [])) of
       Inr (h', m) \<Rightarrow> stream_bytes r = Inr v \<and> length v \<le> 67108864 \<and> h' = v \<and> m = of_nat (length v)
     | Inl e \<Rightarrow> (\<nexists>bs. stream_bytes r = Inr bs \<and> length bs \<le> 67108864) \<and>
         ((\<exists>m. e = StoredArtifactTooLarge m) \<or> (\<exists>i. stream_bytes r = Inl i \<and> e = Io i))"
    by blast
  have undo: "(case remove_file (as_files (?at bs)) t of Inl _ \<Rightarrow> ?at bs | Inr fs \<Rightarrow> (?at bs)\<lparr>as_files := fs\<rparr>) = s" for bs
    using t(1) by (simp add: remove_file_def fmdrop_fresh)
  show ?thesis
  proof (cases "fst (ingest_loop t r [] 0 (?at []))")
    case (Inl e)
    then have "ingest_loop t r [] 0 (?at []) = (Inl e, ?at v)" using snd by (simp add: prod_eq_iff)
    then have "guarded t (stage_object sha t r) s = (Inl e, s)"
      using undo by (simp add: guarded_def stage_object_def and_then_def create)
    then show ?thesis using fst Inl by (auto simp: stage_post_def)
  next
    case (Inr hm)
    then have loop: "ingest_loop t r [] 0 (?at []) = (Inr (v, of_nat (length v)), ?at v)" and v: "stream_bytes r = Inr v" "length v \<le> 67108864"
      using fst snd by (auto simp: prod_eq_iff split: prod.splits)
    let ?d = "sha v"
    have dirs: "ensure_dir (dir2 ?d) (?at v) = (Inr (), s\<lparr>as_files := with_dirs ?d (fmupd t (RegularFile v) (as_files s))\<rparr>)"
      using ensure_object_dir [of "?at v", OF _ t wf] by simp
    have stage: "stage_object sha t r s =
        and_then (place_object sha t ?d (of_nat (length v))) (\<lambda>renamed. pure (Inr (entry_for ?d v, renamed)))
          (s\<lparr>as_files := with_dirs ?d (fmupd t (RegularFile v) (as_files s))\<rparr>)"
      using create loop dirs by (simp add: stage_object_def and_then_def entry_for_def Let_def)
    show ?thesis
    proof (cases "fmlookup (as_files s) (object_path ?d)")
      case None
      then show ?thesis using stage place_absent [OF wf t None, of "of_nat (length v)" v] v
        by (simp add: guarded_def and_then_def stage_post_def ingested_def)
    next
      case (Some n)
      then obtain old where old: "fmlookup (as_files s) (object_path ?d) = Some (RegularFile old)" "sha old = ?d"
        using clean_object [OF w(4)] by metis
      show ?thesis using stage place_present [OF wf t old v(2)] v old undo [of v]
        by (simp add: guarded_def and_then_def stage_post_def ingested_def)
    qed
  qed
qed

text \<open>The staging name is fresh when one is found, and one is found when no name is in use.\<close>

lemma try_temporary_paths_spec:
  "\<exists>q. snd (try_temporary_paths k s) = s\<lparr>as_sequence := q\<rparr> \<and>
    (case fst (try_temporary_paths k s) of
       Inr t \<Rightarrow> fmlookup (as_files s) t = None \<and> (\<exists>i. t = staging_path (as_process s) i)
     | Inl e \<Rightarrow> e = Io AlreadyExists \<and> (0 < k \<longrightarrow> (\<exists>i. fmlookup (as_files s) (staging_path (as_process s) i) \<noteq> None)))"
proof (induction k arbitrary: s)
  case 0
  then show ?case by (simp add: exI [of _ "as_sequence s"])
next
  case (Suc k)
  show ?case
  proof (cases "fmlookup (as_files s) (staging_path (as_process s) (as_sequence s))")
    case None
    then show ?thesis by (auto simp: Let_def path_exists_def)
  next
    case (Some n)
    then show ?thesis using Suc.IH [of "s\<lparr>as_sequence := as_sequence s + 1\<rparr>"]
      by (auto simp: Let_def path_exists_def split: sum.splits)
  qed
qed

lemma unique_temporary_path_spec:
  "\<exists>q. snd (unique_temporary_path s) = s\<lparr>as_sequence := q\<rparr> \<and>
    (case fst (unique_temporary_path s) of
       Inr t \<Rightarrow> fmlookup (as_files s) t = None \<and> (\<exists>i. t = staging_path (as_process s) i)
     | Inl e \<Rightarrow> e = Io AlreadyExists \<and> (\<exists>i. fmlookup (as_files s) (staging_path (as_process s) i) \<noteq> None))"
  using try_temporary_paths_spec [of 128 s] unfolding unique_temporary_path_def
  by (cases "fst (try_temporary_paths 128 s)") auto

lemma staging_path_form: "\<exists>name. staging_path p q = [''.tmp'', name]"
  by (simp add: staging_path_def)

text \<open>
  The outcome of a whole ingest: the state differs from the one before at most in the staging
  counter and in the object.
\<close>

definition ingest_post ::
  "(byte list \<Rightarrow> Digest32) \<Rightarrow> reader \<Rightarrow> ArtifactStore \<Rightarrow> u64 \<Rightarrow> ArtifactRecord store_result \<times> ArtifactStore \<Rightarrow> bool" where
  "ingest_post sha r s q res \<longleftrightarrow>
     (case res of
        (Inr e, s') \<Rightarrow> \<exists>bs. stream_bytes r = Inr bs \<and> length bs \<le> 67108864 \<and> e = entry_for (sha bs) bs \<and>
          s' = s\<lparr>as_sequence := q, as_files := ingested (sha bs) bs (as_files s)\<rparr> \<and>
          (\<forall>old. fmlookup (as_files s) (object_path (sha bs)) = Some (RegularFile old) \<longrightarrow> length old = length bs)
      | (Inl e, s') \<Rightarrow> s' = s\<lparr>as_sequence := q\<rparr> \<and>
          (\<forall>bs. stream_bytes r = Inr bs \<longrightarrow> length bs \<le> 67108864 \<longrightarrow>
            (\<exists>old. fmlookup (as_files s) (object_path (sha bs)) = Some (RegularFile old) \<and> length old \<noteq> length bs) \<or>
            (\<exists>i. fmlookup (as_files s) (staging_path (as_process s) i) \<noteq> None)))"

lemma ingest_spec:
  assumes wf: "store_wf sha s"
  shows "\<exists>q. ingest_post sha r s q (ingest sha r s)"
proof -
  obtain q where snd: "snd (unique_temporary_path s) = s\<lparr>as_sequence := q\<rparr>"
    and fst: "case fst (unique_temporary_path s) of
       Inr t \<Rightarrow> fmlookup (as_files s) t = None \<and> (\<exists>i. t = staging_path (as_process s) i)
     | Inl e \<Rightarrow> e = Io AlreadyExists \<and> (\<exists>i. fmlookup (as_files s) (staging_path (as_process s) i) \<noteq> None)"
    using unique_temporary_path_spec [of s] by blast
  let ?s = "s\<lparr>as_sequence := q\<rparr>"
  show ?thesis
  proof (cases "fst (unique_temporary_path s)")
    case (Inl e)
    then have "ingest sha r s = (Inl e, ?s)" using snd by (simp add: ingest_def and_then_def prod_eq_iff split: prod.splits)
    then show ?thesis using fst Inl by (intro exI [of _ q]) (auto simp: ingest_post_def)
  next
    case (Inr t)
    then have temp: "unique_temporary_path s = (Inr t, ?s)" using snd by (simp add: prod_eq_iff)
    obtain name where t: "fmlookup (as_files ?s) t = None" "t = [''.tmp'', name]"
      using fst Inr staging_path_form by auto metis
    have wf': "store_wf sha ?s" using wf by (simp add: store_wf_def)
    have post: "stage_post sha r ?s (guarded t (stage_object sha t r) ?s)" by (rule guarded_stage [OF wf' t])
    show ?thesis
    proof (cases "guarded t (stage_object sha t r) ?s")
      case (Pair res s')
      show ?thesis
      proof (cases res)
        case (Inl e)
        then have "ingest sha r s = (Inl e, ?s)" using Pair post temp by (simp add: ingest_def and_then_def stage_post_def)
        then show ?thesis using Pair Inl post by (intro exI [of _ q]) (auto simp: stage_post_def ingest_post_def)
      next
        case (Inr er)
        then obtain e renamed bs where er: "er = (e, renamed)" "stream_bytes r = Inr bs" "length bs \<le> 67108864" "e = entry_for (sha bs) bs"
          "s' = ?s\<lparr>as_files := ingested (sha bs) bs (as_files ?s)\<rparr>"
          "\<forall>old. fmlookup (as_files s) (object_path (sha bs)) = Some (RegularFile old) \<longrightarrow> length old = length bs"
          using post Pair by (cases er) (auto simp: stage_post_def)
        have lookup: "fmlookup (as_files s') (dir2 (sha bs)) \<noteq> None" "fmlookup (as_files s') [''.tmp''] \<noteq> None"
          using store_wfD(3) [OF wf] store_wfD(9) [OF wf, of "sha bs"] er(5)
          by (cases "fmlookup (as_files s) (dir2 (sha bs))"; auto simp: ingested_def lookup_added)+
        have "parent t = [''.tmp'']" using t(2) by (simp add: parent_def)
        then have "ingest sha r s = (Inr e, s')"
          using temp Pair Inr er(1,4) lookup by (simp add: ingest_def and_then_def sync_exists)
        then show ?thesis using er by (intro exI [of _ q]) (auto simp: ingest_post_def)
      qed
    qed
  qed
qed

section \<open>The invariant is kept\<close>

lemma fs_wf_add_object:
  assumes "fs_wf fs" "fmlookup fs [''sha256''] = Some Directory" "fmlookup fs (object_path d) = None"
    "fmlookup fs (dir1 d) \<in> {None, Some Directory}" "fmlookup fs (dir2 d) \<in> {None, Some Directory}"
  shows "fs_wf (add_object d bs fs)"
  unfolding fs_wf_def
proof (intro allI impI)
  fix p n assume p: "p \<noteq> []" "fmlookup (add_object d bs fs) p = Some n"
  show "fmlookup (add_object d bs fs) (parent p) = Some Directory"
  proof (cases "p \<in> {object_path d, dir2 d, dir1 d}")
    case True
    then consider "parent p = dir2 d" | "parent p = dir1 d" | "parent p = [''sha256'']" by auto
    then show ?thesis using assms(2) by cases (simp_all add: lookup_added)
  next
    case False
    then have "fmlookup fs p = Some n" using p(2) by (auto simp: add_object_def with_dirs_def split: if_splits)
    then have "fmlookup fs (parent p) = Some Directory" using assms(1) p(1) unfolding fs_wf_def by blast
    moreover from this have "parent p \<noteq> object_path d" using assms(3) by auto
    ultimately show ?thesis by (simp add: add_object_def with_dirs_def)
  qed
qed

lemma object_entry_add:
  assumes "fmlookup fs (object_path d) = None" "sha bs = d" "length bs \<le> 67108864"
  shows "object_entry sha (add_object d bs fs) p e \<longleftrightarrow> object_entry sha fs p e \<or> p = object_path d \<and> e = entry_for d bs"
  using assms by (auto simp: object_entry_def object_at_def lookup_added)

lemma cas_clean_add_object:
  assumes "cas_clean sha fs" "fmlookup fs (object_path d) = None" "sha bs = d" "length bs \<le> 67108864"
  shows "cas_clean sha (add_object d bs fs)"
proof -
  let ?fs = "add_object d bs fs"
  have old: "fmlookup fs [''sha256''] = Some Directory"
    "\<And>a. fmlookup fs [''sha256'', a] \<noteq> None \<Longrightarrow> fmlookup fs [''sha256'', a] = Some Directory \<and> hex_name 2 a"
    "\<And>a b. fmlookup fs [''sha256'', a, b] \<noteq> None \<Longrightarrow> fmlookup fs [''sha256'', a, b] = Some Directory \<and> hex_name 2 b"
    "\<And>a b c. fmlookup fs [''sha256'', a, b, c] \<noteq> None \<Longrightarrow> \<exists>e. object_entry sha fs [''sha256'', a, b, c] e"
    using assms(1) unfolding cas_clean_def by blast+
  have "fmlookup ?fs [''sha256''] = Some Directory" using old(1) by (simp add: lookup_added)
  moreover have "fmlookup ?fs [''sha256'', a] = Some Directory \<and> hex_name 2 a" if "fmlookup ?fs [''sha256'', a] \<noteq> None" for a
  proof (cases "[''sha256'', a] = dir1 d")
    case True
    then show ?thesis using hex_name_object(1) by (simp add: lookup_added) (simp add: dir1_def)
  next
    case False
    then have "fmlookup ?fs [''sha256'', a] = fmlookup fs [''sha256'', a]" by (auto simp: lookup_added) (auto simp: dir2_def object_path_def)
    then show ?thesis using old(2) that by simp
  qed
  moreover have "fmlookup ?fs [''sha256'', a, b] = Some Directory \<and> hex_name 2 b" if "fmlookup ?fs [''sha256'', a, b] \<noteq> None" for a b
  proof (cases "[''sha256'', a, b] = dir2 d")
    case True
    then show ?thesis using hex_name_object(2) by (simp add: lookup_added) (simp add: dir2_def)
  next
    case False
    then have "fmlookup ?fs [''sha256'', a, b] = fmlookup fs [''sha256'', a, b]" by (auto simp: lookup_added) (auto simp: dir1_def object_path_def)
    then show ?thesis using old(3) that by simp
  qed
  moreover have "\<exists>e. object_entry sha ?fs [''sha256'', a, b, c] e" if "fmlookup ?fs [''sha256'', a, b, c] \<noteq> None" for a b c
  proof (cases "[''sha256'', a, b, c] = object_path d")
    case True
    then show ?thesis using object_entry_add [where sha = sha, OF assms(2-4)] by blast
  next
    case False
    then have "fmlookup ?fs [''sha256'', a, b, c] = fmlookup fs [''sha256'', a, b, c]"
      by (auto simp: lookup_added) (auto simp: dir1_def dir2_def)
    then show ?thesis using old(4) that object_entry_add [where sha = sha, OF assms(2-4)] by metis
  qed
  ultimately show ?thesis unfolding cas_clean_def by blast
qed

lemma entries_add:
  assumes "fmlookup fs (object_path d) = None" "sha bs = d" "length bs \<le> 67108864"
  shows "entries sha (add_object d bs fs) = insert (entry_for d bs) (entries sha fs)"
  using object_entry_add [where sha = sha, OF assms] by (auto simp: entries_def)

lemma ingested_wf:
  assumes wf: "store_wf sha s" and bs: "length bs \<le> 67108864"
  shows "store_wf sha (s\<lparr>as_sequence := q, as_files := ingested (sha bs) bs (as_files s)\<rparr>)"
proof (cases "fmlookup (as_files s) (object_path (sha bs))")
  case None
  note w = store_wfD(1-5) [OF wf] store_wfD(6-9) [OF wf, of "sha bs"]
  have "fs_wf (add_object (sha bs) bs (as_files s))" by (rule fs_wf_add_object [OF w(1,5) None w(6,7)])
  moreover have "cas_clean sha (add_object (sha bs) bs (as_files s))" by (rule cas_clean_add_object [OF w(4) None refl bs])
  ultimately show ?thesis using None w(2,3) by (simp add: store_wf_def ingested_def lookup_added)
next
  case (Some n)
  then show ?thesis using wf by (simp add: store_wf_def ingested_def)
qed

text \<open>Removing an object.\<close>

lemma removed_wf:
  assumes wf: "fs_wf fs" "cas_clean sha fs"
  shows "fs_wf (fmdrop (object_path d) fs)" "cas_clean sha (fmdrop (object_path d) fs)"
    "entries sha (fmdrop (object_path d) fs) = {e \<in> entries sha fs. ac_digest e \<noteq> d}"
proof -
  have entry: "object_entry sha (fmdrop (object_path d) fs) p e \<longleftrightarrow> object_entry sha fs p e \<and> p \<noteq> object_path d" for p e
    by (auto simp: object_entry_def object_at_def)
  have leaf: "fmlookup fs p = None" if "parent p = object_path d" "p \<noteq> []" for p
  proof (rule ccontr)
    assume "fmlookup fs p \<noteq> None"
    then have "fmlookup fs (object_path d) = Some Directory" using wf(1) that unfolding fs_wf_def by (metis not_None_eq)
    then show False using clean_object [OF wf(2)] by (metis node.distinct(1))
  qed
  show "fs_wf (fmdrop (object_path d) fs)"
    using wf(1) leaf unfolding fs_wf_def by (auto split: if_splits)
  show "cas_clean sha (fmdrop (object_path d) fs)"
    using wf(2) unfolding cas_clean_def entry by (auto simp: object_path_def split: if_splits)
  show "entries sha (fmdrop (object_path d) fs) = {e \<in> entries sha fs. ac_digest e \<noteq> d}"
  proof -
    have "p = object_path (ac_digest e)" if "object_entry sha fs p e" for p e
      using that by (auto simp: object_entry_def)
    then show ?thesis unfolding entries_def entry by fastforce
  qed
qed

section \<open>What the store promises\<close>

lemma sorted_entries_unique:
  assumes "sorted_wrt (<) (map ac_digest rs)" "sorted_wrt (<) (map ac_digest qs)" "set rs = set qs"
  shows "rs = qs"
proof -
  have "map ac_digest rs = map ac_digest qs"
    using assms by (intro sorted_distinct_set_unique) (simp_all add: sorted_wrt_less_iff)
  moreover have "inj_on ac_digest (set rs \<union> set qs)"
    using assms by (simp add: sorted_wrt_less_iff distinct_map)
  ultimately show ?thesis by (metis map_inj_on)
qed

lemma discover_records_exact:
  assumes "lists_dir ls" "fs_wf fs"
  shows "discover_records sha ls fs = Inr rs \<longleftrightarrow>
    cas_clean sha fs \<and> set rs = entries sha fs \<and> sorted_wrt (<) (map ac_digest rs)"
proof -
  have post: "set qs = entries sha fs \<and> sorted_wrt (<) (map ac_digest qs)" if "discover_records sha ls fs = Inr qs" for qs
    using discover_records_set [OF assms that] discover_records_distinct [OF assms that] by (simp add: sorted_wrt_less_iff)
  show ?thesis using post discover_records_ok [OF assms, of sha] sorted_entries_unique by metis
qed

text \<open>
  C22: discovery is exact.  Whatever the order in which the system lists directories, the scan of the
  store succeeds exactly when the tree holds nothing but objects under their own names, and returns
  the entry of every object once, in the order of the digests.
\<close>

theorem discovery_exact:
  assumes "lists_dir ls" "fs_wf fs"
  shows "discover_records sha ls fs = Inr rs \<longleftrightarrow>
    cas_clean sha fs \<and> set rs = {e. verify_artifact sha e fs = Inr ()} \<and> sorted_wrt (<) (map ac_digest rs)"
  using discover_records_exact [OF assms] by (simp add: entries_iff [symmetric])

text \<open>
  C21: an ingest that succeeds can be read back.  The entry carries the digest and the length of the
  streamed bytes; reading it verified returns bytes of that digest and length, the streamed ones
  unless the store had the object before; no other object appears, changes or disappears, an object
  that was there is not written again, and the tree stays well formed.
\<close>

theorem artifact_ingest_roundtrip:
  assumes "store_wf sha s" "ingest sha r s = (Inr e, s')"
  shows "\<exists>bs stored. stream_bytes r = Inr bs \<and> ac_digest e = sha bs \<and> unat (ac_byte_len e) = length bs \<and>
    read_verified sha e (as_files s') = Inr stored \<and> sha stored = sha bs \<and> length stored = length bs \<and>
    (e \<notin> entries sha (as_files s) \<longrightarrow> stored = bs) \<and> (e \<in> entries sha (as_files s) \<longrightarrow> as_files s' = as_files s) \<and>
    entries sha (as_files s') = insert e (entries sha (as_files s)) \<and> store_wf sha s'"
proof -
  obtain q bs where bs: "stream_bytes r = Inr bs" "length bs \<le> 67108864" "e = entry_for (sha bs) bs"
    "s' = s\<lparr>as_sequence := q, as_files := ingested (sha bs) bs (as_files s)\<rparr>"
    "\<forall>old. fmlookup (as_files s) (object_path (sha bs)) = Some (RegularFile old) \<longrightarrow> length old = length bs"
    using ingest_spec [OF assms(1), of r] assms(2) by (auto simp: ingest_post_def)
  note wf = ingested_wf [OF assms(1) bs(2), of q, folded bs(4)]
  note len = unat_entry_len [OF bs(2)]
  show ?thesis
  proof (cases "fmlookup (as_files s) (object_path (sha bs))")
    case None
    have files: "as_files s' = add_object (sha bs) bs (as_files s)" using bs(4) None by (simp add: ingested_def)
    have "e \<notin> entries sha (as_files s)"
      using None bs(3) by (auto simp: entries_def object_entry_def object_at_def entry_for_def)
    moreover have "read_verified sha e (as_files s') = Inr bs"
      unfolding read_verified_Inr using bs(2,3) by (simp add: files object_at_def lookup_added)
    moreover have "entries sha (as_files s') = insert e (entries sha (as_files s))"
      unfolding files bs(3) by (rule entries_add [OF None _ bs(2)]) simp
    ultimately show ?thesis using bs(1,3) wf len by auto
  next
    case (Some n)
    obtain old where old: "fmlookup (as_files s) (object_path (sha bs)) = Some (RegularFile old)" "sha old = sha bs"
      using clean_object [OF store_wfD(4) [OF assms(1)] Some] Some by metis
    have same: "length old = length bs" using bs(5) old(1) by blast
    have files: "as_files s' = as_files s" using bs(4) Some by (simp add: ingested_def)
    have "object_at sha (as_files s) (object_path (sha bs)) (sha bs) old" using old same bs(2) by (simp add: object_at_def)
    moreover have e: "e = entry_for (sha bs) old" using bs(3) same by (simp add: entry_for_def)
    ultimately have read: "read_verified sha e (as_files s') = Inr old" and "e \<in> entries sha (as_files s)"
      unfolding read_verified_Inr entries_def object_entry_def by (auto simp: files)
    then show ?thesis using bs(1,3) old(2) same files wf len by (auto intro!: exI [of _ old])
  qed
qed

lemma ingest_outcome:
  assumes "store_wf sha s" "\<And>i. fmlookup (as_files s) (staging_path (as_process s) i) = None"
  shows "((\<exists>e. fst (ingest sha r s) = Inr e) \<longleftrightarrow>
      (\<exists>bs. stream_bytes r = Inr bs \<and> length bs \<le> 67108864 \<and>
        (\<forall>old. fmlookup (as_files s) (object_path (sha bs)) = Some (RegularFile old) \<longrightarrow> length old = length bs))) \<and>
    ((\<exists>err. fst (ingest sha r s) = Inl err) \<longrightarrow> as_files (snd (ingest sha r s)) = as_files s)"
proof (cases "ingest sha r s")
  case (Pair res s')
  obtain q where spec: "ingest_post sha r s q (ingest sha r s)" using ingest_spec [OF assms(1)] by blast
  show ?thesis
  proof (cases res)
    case (Inl e)
    have "s' = s\<lparr>as_sequence := q\<rparr>" "\<And>bs. stream_bytes r = Inr bs \<Longrightarrow> length bs \<le> 67108864 \<Longrightarrow>
        \<exists>old. fmlookup (as_files s) (object_path (sha bs)) = Some (RegularFile old) \<and> length old \<noteq> length bs"
      using spec Pair Inl assms(2) by (simp_all add: ingest_post_def)
    then show ?thesis using Pair Inl by auto
  next
    case (Inr e)
    then show ?thesis using spec Pair by (auto simp: ingest_post_def)
  qed
qed

text \<open>
  C24: an ingest either places the object or leaves the tree as it found it.  With no stale staging
  file in the way it succeeds exactly when the reader ends without an error, delivers at most 64 MiB
  and does not collide with a stored object of the same digest and another length; when it fails,
  for whatever reason, the tree is unchanged and no staging file is left.
\<close>

theorem artifact_ingest_rejects_cleanly:
  assumes "store_wf sha s" "\<And>i. fmlookup (as_files s) (staging_path (as_process s) i) = None"
  shows "((\<exists>e. fst (ingest sha r s) = Inr e) \<longleftrightarrow>
      (\<exists>bs. stream_bytes r = Inr bs \<and> length bs \<le> 67108864 \<and>
        (\<forall>old. fmlookup (as_files s) (object_path (sha bs)) = Some (RegularFile old) \<longrightarrow> length old = length bs))) \<and>
    ((\<exists>err. fst (ingest sha r s) = Inl err) \<longrightarrow> as_files (snd (ingest sha r s)) = as_files s)"
  using ingest_outcome [OF assms] .

section \<open>Instances\<close>

text \<open>The store that \<open>open\<close> leaves on an empty disk.\<close>

definition empty_store :: ArtifactStore where
  "empty_store = \<lparr>as_files = fmap_of_list [([], Directory), ([''sha256''], Directory), ([''.tmp''], Directory)],
     as_sequence = 0, as_process = 1\<rparr>"

lemma empty_store_lookup:
  "fmlookup (as_files empty_store) p = (if p \<in> {[], [''sha256''], [''.tmp'']} then Some Directory else None)"
  by (simp add: empty_store_def fmlookup_of_list)

lemma empty_store_opened:
  "open_store \<lparr>as_files = fmempty, as_sequence = 0, as_process = 1\<rparr> = (Inr (), empty_store)"
  by (simp add: open_store_def ensure_dir_def and_then_def symlink_metadata_def create_missing_dir_def create_dir_def
      sync_def sync_directory_def parent_def empty_store_def list_ex_iff) (rule fmap_ext, simp add: fmlookup_of_list)

lemma empty_store_wf: "store_wf sha empty_store"
proof -
  have "fs_wf (as_files empty_store)"
    unfolding fs_wf_def by (auto simp: empty_store_lookup parent_def split: if_splits)
  moreover have "cas_clean sha (as_files empty_store)" by (simp add: cas_clean_def empty_store_lookup)
  ultimately show ?thesis by (simp add: store_wf_def empty_store_lookup)
qed

lemma finite_children: "finite (children fs p)"
proof -
  have "(\<lambda>x. p @ [x]) ` children fs p \<subseteq> fset (fmdom fs)" by (auto simp: children_def fmlookup_dom_iff)
  then have "finite ((\<lambda>x. p @ [x]) ` children fs p)" by (rule finite_subset) simp
  then show ?thesis by (rule finite_imageD) (simp add: inj_on_def)
qed

lemma lists_dir_sorted: "lists_dir (\<lambda>fs p. sorted_list_of_set (children fs p))"
  by (simp add: lists_dir_def finite_children)

theorem discovery_exact_witness:
  "discover_records (\<lambda>_. Digest32_ZERO) (\<lambda>fs p. sorted_list_of_set (children fs p)) (as_files empty_store) = Inr []"
  by (subst discovery_exact [OF lists_dir_sorted store_wfD(1) [OF empty_store_wf]])
    (use empty_store_wf in \<open>auto simp: store_wf_def verify_artifact_Inr object_at_def empty_store_lookup path_distinct\<close>)

lemma sample_ingest: "\<exists>e s'. ingest sha [Inr [7]] empty_store = (Inr e, s')"
  using ingest_outcome [OF empty_store_wf, of sha "[Inr [7]]"]
  by (auto simp: empty_store_lookup staging_path_def path_distinct prod_eq_iff)

theorem artifact_ingest_roundtrip_witness:
  "\<exists>e s'. ingest (\<lambda>_. Digest32_ZERO) [Inr [7]] empty_store = (Inr e, s') \<and>
    read_verified (\<lambda>_. Digest32_ZERO) e (as_files s') = Inr [7]"
proof -
  obtain e s' where run: "ingest (\<lambda>_. Digest32_ZERO) [Inr [7]] empty_store = (Inr e, s')" using sample_ingest by blast
  have "e \<notin> entries (\<lambda>_. Digest32_ZERO) (as_files empty_store)"
    by (auto simp: entries_iff verify_artifact_Inr object_at_def empty_store_lookup path_distinct)
  then show ?thesis using artifact_ingest_roundtrip [OF empty_store_wf run] run by auto
qed

theorem artifact_ingest_rejects_cleanly_witness:
  "\<exists>err. fst (ingest (\<lambda>_. Digest32_ZERO) [Inr [7], Inl NotFound] empty_store) = Inl err \<and>
    as_files (snd (ingest (\<lambda>_. Digest32_ZERO) [Inr [7], Inl NotFound] empty_store)) = as_files empty_store"
proof -
  let ?run = "ingest (\<lambda>_. Digest32_ZERO) [Inr [7], Inl NotFound] empty_store"
  have "\<nexists>e. fst ?run = Inr e"
    using artifact_ingest_rejects_cleanly [OF empty_store_wf, of "\<lambda>_. Digest32_ZERO" "[Inr [7], Inl NotFound]"]
    by (simp add: empty_store_lookup staging_path_def)
  then obtain err where "fst ?run = Inl err" by (cases "fst ?run") auto
  then show ?thesis
    using artifact_ingest_rejects_cleanly [OF empty_store_wf, of "\<lambda>_. Digest32_ZERO" "[Inr [7], Inl NotFound]"]
    by (simp add: empty_store_lookup staging_path_def)
qed

end
