(* ===== verification/Database.thy ===== *)
theory Database
  imports ArtifactLaws
begin

text \<open>
  The SQLite schema of \<open>naome-memory-sqlite/migrations/0001_initial.sql\<close>, as far as the modelled
  operations use it, and the statements they execute.  A table is a finite map from its primary key
  to the other columns; an SQL integer is an \<open>int\<close>, a 32-byte blob a \<open>Digest32\<close>.  A statement returns
  the new tables and the number of rows it changed, or the error of the constraint it violates.
\<close>

section \<open>Rows\<close>

record policy_row =
  py_policy_digest :: Digest32
  py_canonical_body :: "byte list"
  py_json_projection :: string
  py_installed_at_us :: int

datatype DraftStatus = Open | Sealed | Abandoned

record draft_row =
  dr_memory_space_id :: string
  dr_repository_id :: "string option"
  dr_task_id :: "string option"
  dr_agent_id :: "string option"
  dr_session_id :: string
  dr_created_at_us :: int
  dr_next_sequence :: int
  dr_status :: DraftStatus
  dr_sealed_atom_id :: "Digest32 option"

record event_row =
  er_event_at_us :: int
  er_event_kind :: string
  er_canonical_payload :: "byte list"
  er_payload_digest :: Digest32

record header_row =
  hr_atom_kind :: string
  hr_memory_space_id :: string
  hr_repository_id :: "string option"
  hr_task_id :: "string option"
  hr_agent_id :: "string option"
  hr_session_id :: "string option"
  hr_recorded_at_us :: int
  hr_body_digest :: Digest32
  hr_body_bytes :: int
  hr_retention_permission :: string
  hr_provenance_digest :: Digest32

record body_row =
  br_canonical_body :: "byte list"
  br_json_projection :: string

record state_row =
  sr_retention_tier :: string
  sr_content_status :: string
  sr_expires_at_us :: "int option"
  sr_superseded_by :: "Digest32 option"
  sr_feedback_positive :: int
  sr_feedback_negative :: int
  sr_retrieval_count :: int
  sr_retirement_run_id :: "Digest32 option"

record provenance_row =
  pw_producer :: string
  pw_policy_digest :: Digest32
  pw_canonical_provenance :: "byte list"
  pw_json_projection :: string
  pw_provenance_digest :: Digest32

record projection_row =
  jr_memory_space_id :: string
  jr_repository_id :: "string option"
  jr_searchable_text :: string
  jr_topic_keys_json :: string
  jr_entity_ids_json :: string
  jr_outcome_class :: "string option"
  jr_projection_digest :: Digest32

record feedback_row =
  fr_atom_id :: Digest32
  fr_as_of_us :: int
  fr_outcome :: int
  fr_source :: string
  fr_evidence_digest :: Digest32

record artifact_row =
  at_byte_len :: int
  at_relative_path :: string
  at_integrity_status :: string
  at_created_at_us :: int
  at_gc_marked_at_us :: "int option"

record run_row =
  ru_memory_space_id :: string
  ru_cohort_day :: int
  ru_as_of_us :: int
  ru_policy_id :: string
  ru_policy_digest :: Digest32
  ru_seed :: Digest32
  ru_rng_id :: string
  ru_input_set_digest :: Digest32
  ru_store_snapshot_digest :: Digest32
  ru_population_digest :: Digest32
  ru_plan_digest :: Digest32
  ru_projected_state_digest :: Digest32
  ru_status :: string
  ru_started_at_us :: int
  ru_completed_at_us :: "int option"
  ru_receipt_digest :: "Digest32 option"

record decision_row =
  dn_decision :: string
  dn_canonical_details :: "byte list"
  dn_details_digest :: Digest32

record post_state_row =
  pt_state_digest :: Digest32
  pt_canonical_state :: "byte list"
  pt_json_projection :: string

record receipt_row =
  rw_run_id :: Digest32
  rw_canonical_receipt :: "byte list"
  rw_json_projection :: string
  rw_closure_digest :: Digest32
  rw_created_at_us :: int

text \<open>
  The keys of members, decisions and pins name the run and the atom; a member row holds the digest
  of the state before the run.  \<open>db_search\<close> is the full-text table, which has no key.
\<close>

record Database =
  db_policies :: "(string, policy_row) fmap"
  db_drafts :: "(string, draft_row) fmap"
  db_events :: "(string \<times> int, event_row) fmap"
  db_headers :: "(Digest32, header_row) fmap"
  db_bodies :: "(Digest32, body_row) fmap"
  db_states :: "(Digest32, state_row) fmap"
  db_provenance :: "(Digest32, provenance_row) fmap"
  db_provenance_sources :: "(Digest32 \<times> int, Digest32) fmap"
  db_relations :: "(Digest32 \<times> Digest32 \<times> string, Digest32) fmap"
  db_projections :: "(Digest32, projection_row) fmap"
  db_search :: "(string \<times> string) list"
  db_feedback :: "(Digest32, feedback_row) fmap"
  db_runs :: "(Digest32, run_row) fmap"
  db_members :: "(Digest32 \<times> Digest32, Digest32) fmap"
  db_decisions :: "(Digest32 \<times> Digest32, decision_row) fmap"
  db_post_states :: "(Digest32, post_state_row) fmap"
  db_receipts :: "(Digest32, receipt_row) fmap"
  db_artifacts :: "(Digest32, artifact_row) fmap"
  db_artifact_refs :: "(Digest32 \<times> Digest32 \<times> string, bool) fmap"
  db_artifact_provenance :: "(Digest32 \<times> Digest32 \<times> string, bool) fmap"
  db_artifact_pins :: "(Digest32 \<times> Digest32 \<times> Digest32, int) fmap"

record SqliteRepository =
  re_database :: Database
  re_artifacts :: ArtifactStore

section \<open>Statements and transactions\<close>

type_synonym statement = "Database \<Rightarrow> (Database \<times> usize) store_result"

definition execute :: "statement \<Rightarrow> (SqliteRepository, usize) action" where
  "execute stmt r =
     (case stmt (re_database r) of
        Inl e \<Rightarrow> (Inl e, r)
      | Inr (db, changed) \<Rightarrow> (Inr changed, r\<lparr>re_database := db\<rparr>))"

definition select :: "(Database \<Rightarrow> 'a store_result) \<Rightarrow> (SqliteRepository, 'a) action" where
  "select q = query (\<lambda>r. q (re_database r))"

definition on_store :: "(ArtifactStore, 'a) action \<Rightarrow> (SqliteRepository, 'a) action" where
  "on_store m r = (case m (re_artifacts r) of (x, s) \<Rightarrow> (x, r\<lparr>re_artifacts := s\<rparr>))"

text \<open>
  \<open>BEGIN IMMEDIATE \<dots> COMMIT\<close>: a transaction that is dropped before its commit is rolled back.  The
  tables return to what they were; files that the body wrote or unlinked do not.
\<close>

definition transaction :: "(SqliteRepository, 'a) action \<Rightarrow> (SqliteRepository, 'a) action" where
  "transaction body r =
     (case body r of
        (Inl e, r') \<Rightarrow> (Inl e, r'\<lparr>re_database := re_database r\<rparr>)
      | (Inr x, r') \<Rightarrow> (Inr x, r'))"

definition violates :: "string \<Rightarrow> 'a store_result" where
  "violates constraint = Inl (Sqlite (ConstraintViolation constraint))"

definition ensure_single_gc_change :: "string \<Rightarrow> usize \<Rightarrow> unit store_result" where
  "ensure_single_gc_change operation changed =
     (if changed \<noteq> 1 then Inl (Integrity (operation @ '' changed an unexpected number of rows'')) else Inr ())"

definition ensure_exact_change_count :: "usize \<Rightarrow> usize \<Rightarrow> unit store_result" where
  "ensure_exact_change_count changed expected_count =
     (if changed \<noteq> expected_count then Inl RetirementConflict else Inr ())"

lemma execute_Inr: "execute stmt r = (Inr n, r') \<longleftrightarrow>
    (\<exists>db. stmt (re_database r) = Inr (db, n) \<and> r' = r\<lparr>re_database := db\<rparr>)"
  by (auto simp: execute_def split: sum.splits)

lemma execute_Inl: "execute stmt r = (Inl e, r') \<longleftrightarrow> stmt (re_database r) = Inl e \<and> r' = r"
  by (auto simp: execute_def split: sum.splits)

lemma select_simp [simp]: "select q r = (q (re_database r), r)"
  by (simp add: select_def)

lemma transaction_Inr: "transaction body r = (Inr x, r') \<longleftrightarrow> body r = (Inr x, r')"
  by (auto simp: transaction_def split: prod.splits sum.splits)

lemma transaction_rolls_back: "fst (transaction body r) = Inl e \<Longrightarrow> re_database (snd (transaction body r)) = re_database r"
  by (auto simp: transaction_def split: prod.splits sum.splits)

text \<open>
  A body that touches only the tables is atomic: its failure leaves the repository as it was.
\<close>

definition tables_only :: "(SqliteRepository, 'a) action \<Rightarrow> bool" where
  "tables_only m \<longleftrightarrow> (\<forall>r. re_artifacts (snd (m r)) = re_artifacts r)"

lemma tables_only_basic [simp, intro]:
  "tables_only (pure x)" "tables_only (query f)" "tables_only (select q)" "tables_only (execute stmt)"
  by (auto simp: tables_only_def execute_def split: sum.splits)

lemma tables_only_and_then [intro]:
  assumes "tables_only m" "\<And>x. tables_only (f x)"
  shows "tables_only (and_then m f)"
  unfolding tables_only_def
proof
  fix r
  obtain x r' where m: "m r = (x, r')" by fastforce
  then have "re_artifacts r' = re_artifacts r" using assms(1) unfolding tables_only_def by (metis snd_conv)
  then show "re_artifacts (snd (and_then m f r)) = re_artifacts r"
    using m assms(2) by (cases x) (simp_all add: and_then_def tables_only_def)
qed

lemma tables_only_each: "(\<And>x. tables_only (f x)) \<Longrightarrow> tables_only (each f xs)"
  by (induction xs) (auto intro!: tables_only_and_then)

lemma transaction_atomic:
  assumes "tables_only body" "fst (transaction body r) = Inl e"
  shows "snd (transaction body r) = r"
proof -
  obtain x r' where body: "body r = (x, r')" by fastforce
  then have "re_artifacts r' = re_artifacts r" using assms(1) unfolding tables_only_def by (metis snd_conv)
  then show ?thesis using assms(2) body by (cases x) (simp_all add: transaction_def)
qed

lemma transaction_failed: "transaction body r = (Inl e, r') \<Longrightarrow> tables_only body \<Longrightarrow> r' = r"
  using transaction_atomic [of body r e] by simp

text \<open>The tables of a freshly migrated database.\<close>

definition empty_database :: Database where
  "empty_database = \<lparr>db_policies = fmempty, db_drafts = fmempty, db_events = fmempty, db_headers = fmempty, db_bodies = fmempty,
     db_states = fmempty, db_provenance = fmempty, db_provenance_sources = fmempty, db_relations = fmempty,
     db_projections = fmempty, db_search = [], db_feedback = fmempty, db_runs = fmempty, db_members = fmempty,
     db_decisions = fmempty, db_post_states = fmempty, db_receipts = fmempty, db_artifacts = fmempty,
     db_artifact_refs = fmempty, db_artifact_provenance = fmempty, db_artifact_pins = fmempty\<rparr>"

end
