(* ===== verification/Tables.thy ===== *)
theory Tables
  imports Database Receipt
begin

text \<open>
  The tables as an interface.  A \<open>schema\<close> names a table, says where its rows live in the database
  and states its column checks, its uniqueness constraint besides the primary key, and its foreign
  keys.  The statements \<open>INSERT\<close>, \<open>INSERT \<dots> ON CONFLICT DO NOTHING\<close> and \<open>UPDATE \<dots> WHERE key\<close> are
  defined once over a schema; the locale \<open>table\<close> holds what they promise and is interpreted for
  every table of \<open>0001_initial.sql\<close> that the modelled operations write.
\<close>

section \<open>The JSON codec\<close>

text \<open>
  \<open>serde_json\<close> and SQLite's \<open>json_valid\<close> are outside the repository.  They are a parameter: each
  function returns the text it renders or the value it parses, or the message of its error.
\<close>

record json_codec =
  js_body :: "MemoryAtomBodyV1 \<Rightarrow> string + string"
  js_body_of :: "string \<Rightarrow> string + MemoryAtomBodyV1"
  js_provenance :: "ProvenanceV1 \<Rightarrow> string + string"
  js_provenance_of :: "string \<Rightarrow> string + ProvenanceV1"
  js_texts :: "string list \<Rightarrow> string + string"
  js_policy :: "PolicyV1 \<Rightarrow> string + string"
  js_post_state :: "RetirementPostStateV1 \<Rightarrow> string + string"
  js_post_state_of :: "string \<Rightarrow> string + RetirementPostStateV1"
  js_receipt :: "ProofReceiptV1 \<Rightarrow> string + string"
  js_receipt_of :: "string \<Rightarrow> string + ProofReceiptV1"
  js_value :: "string \<Rightarrow> string + unit"
  js_valid :: "string \<Rightarrow> bool"

definition json :: "string + 'a \<Rightarrow> 'a store_result" where
  "json m = (case m of Inl message \<Rightarrow> Inl (Json message) | Inr x \<Rightarrow> Inr x)"

lemma json_simps [simp]: "json (Inl m) = Inl (Json m)" "json (Inr x) = Inr x"
  by (simp_all add: json_def)

lemma json_Inr [result_simps]: "json m = Inr x \<longleftrightarrow> m = Inr x"
  by (cases m) simp_all

section \<open>Schemas\<close>

record ('k, 'v) schema =
  tb_name :: string
  tb_rows :: "Database \<Rightarrow> ('k, 'v) fmap"
  tb_store :: "('k, 'v) fmap \<Rightarrow> Database \<Rightarrow> Database"
  tb_check :: "'k \<Rightarrow> 'v \<Rightarrow> bool"
  tb_unique :: "('k, 'v) fmap \<Rightarrow> 'k \<Rightarrow> 'v \<Rightarrow> bool"
  tb_refs :: "Database \<Rightarrow> 'k \<Rightarrow> 'v \<Rightarrow> bool"

text \<open>An \<open>INTEGER\<close> column of a strict table with the check that it is not negative.\<close>

definition int_ok :: "int \<Rightarrow> bool" where
  "int_ok i \<longleftrightarrow> 0 \<le> i \<and> i < 2 ^ 63"

definition optional :: "('a \<Rightarrow> bool) \<Rightarrow> 'a option \<Rightarrow> bool" where
  "optional P x = (case x of None \<Rightarrow> True | Some v \<Rightarrow> P v)"

lemma optional_simps [simp]: "optional P None" "optional P (Some v) = P v"
  by (simp_all add: optional_def)

lemma sqlite_integer_ok: "sqlite_integer v f = Inr i \<Longrightarrow> int_ok i"
proof -
  assume "sqlite_integer v f = Inr i"
  then have "unat v < 2 ^ 63" "i = int (unat v)" by (auto simp only: sqlite_integer_Inr)
  then show "int_ok i" unfolding int_ok_def by (metis of_nat_0_le_iff of_nat_less_iff of_nat_numeral of_nat_power)
qed

definition has_header :: "Database \<Rightarrow> Digest32 \<Rightarrow> bool" where
  "has_header db atom \<longleftrightarrow> atom |\<in>| fmdom (db_headers db)"

section \<open>Statements\<close>

text \<open>
  SQLite evaluates the checks of a row before it looks for a conflicting key, and foreign keys at
  the end of the statement.  The error names the constraint.
\<close>

definition insert_row :: "('k, 'v) schema \<Rightarrow> 'k \<Rightarrow> 'v \<Rightarrow> statement" where
  "insert_row T k v db =
     (if \<not> tb_check T k v then violates (tb_name T)
      else if k |\<in>| fmdom (tb_rows T db) then violates (tb_name T @ '' key'')
      else if \<not> tb_unique T (tb_rows T db) k v then violates (tb_name T @ '' unique'')
      else if \<not> tb_refs T db k v then violates ''foreign key''
      else Inr (tb_store T (fmupd k v (tb_rows T db)) db, 1))"

definition insert_ignore :: "('k, 'v) schema \<Rightarrow> 'k \<Rightarrow> 'v \<Rightarrow> statement" where
  "insert_ignore T k v db =
     (if tb_check T k v \<and> k |\<in>| fmdom (tb_rows T db) then Inr (db, 0) else insert_row T k v db)"

definition update_row :: "('k, 'v) schema \<Rightarrow> 'k \<Rightarrow> ('v \<Rightarrow> bool) \<Rightarrow> ('v \<Rightarrow> 'v) \<Rightarrow> statement" where
  "update_row T k matches change db =
     (case fmlookup (tb_rows T db) k of
        None \<Rightarrow> Inr (db, 0)
      | Some v \<Rightarrow>
          if \<not> matches v then Inr (db, 0)
          else if \<not> tb_check T k (change v) then violates (tb_name T)
          else if \<not> tb_refs T db k (change v) then violates ''foreign key''
          else Inr (tb_store T (fmupd k (change v) (tb_rows T db)) db, 1))"

text \<open>
  The set-based \<open>UPDATE\<close> and \<open>DELETE\<close>, over every row that matches.  No table refers to one that the
  program deletes rows from with a \<open>DELETE\<close> over a schema.
\<close>

definition matching :: "('k, 'v) schema \<Rightarrow> ('k \<Rightarrow> 'v \<Rightarrow> bool) \<Rightarrow> Database \<Rightarrow> 'k fset" where
  "matching T p db = ffilter (\<lambda>k. case fmlookup (tb_rows T db) k of None \<Rightarrow> False | Some v \<Rightarrow> p k v) (fmdom (tb_rows T db))"

definition update_where :: "('k, 'v) schema \<Rightarrow> ('k \<Rightarrow> 'v \<Rightarrow> bool) \<Rightarrow> ('v \<Rightarrow> 'v) \<Rightarrow> statement" where
  "update_where T p change db =
     (let hit = matching T p db; changed = (\<lambda>k. change (the (fmlookup (tb_rows T db) k))) in
      if \<not> fBall hit (\<lambda>k. tb_check T k (changed k)) then violates (tb_name T)
      else if \<not> fBall hit (\<lambda>k. tb_refs T db k (changed k)) then violates ''foreign key''
      else Inr (tb_store T (fmmap_keys (\<lambda>k v. if p k v then change v else v) (tb_rows T db)) db, fcard hit))"

definition delete_where :: "('k, 'v) schema \<Rightarrow> ('k \<Rightarrow> 'v \<Rightarrow> bool) \<Rightarrow> statement" where
  "delete_where T p db =
     (let hit = matching T p db in Inr (tb_store T (fmfilter (\<lambda>k. k |\<notin>| hit) (tb_rows T db)) db, fcard hit))"

text \<open>\<open>query_row\<close> without and with \<open>optional\<close>.\<close>

definition find_row :: "('k, 'v) schema \<Rightarrow> 'k \<Rightarrow> Database \<Rightarrow> 'v option store_result" where
  "find_row T k db = Inr (fmlookup (tb_rows T db) k)"

definition query_row :: "('k, 'v) schema \<Rightarrow> 'k \<Rightarrow> Database \<Rightarrow> 'v store_result" where
  "query_row T k db = ok_or (Sqlite QueryReturnedNoRows) (fmlookup (tb_rows T db) k)"

text \<open>
  The idiom of every immutable table: insert unless the key is there, read the row back, and reject
  a row whose content differs.
\<close>

definition put_once ::
  "('k, 'v) schema \<Rightarrow> 'k \<Rightarrow> 'v \<Rightarrow> ('v \<Rightarrow> 'c) \<Rightarrow> string \<Rightarrow> (SqliteRepository, unit) action" where
  "put_once T k v content what =
     and_then (execute (insert_ignore T k v)) (\<lambda>_.
     and_then (select (query_row T k)) (\<lambda>persisted.
     pure (if content persisted = content v then Inr () else Inl (ImmutableConflict what))))"

section \<open>What the statements promise\<close>

text \<open>Storing the rows of a table is a lens on the database.\<close>

locale table =
  fixes T :: "('k, 'v) schema"
  assumes rows_store [simp]: "tb_rows T (tb_store T m db) = m"
    and store_rows [simp]: "tb_store T (tb_rows T db) db = db"
    and store_store [simp]: "tb_store T m (tb_store T m' db) = tb_store T m db"
begin

lemma insert_row_Inr: "insert_row T k v db = Inr (db', n) \<longleftrightarrow>
    tb_check T k v \<and> k |\<notin>| fmdom (tb_rows T db) \<and> tb_unique T (tb_rows T db) k v \<and> tb_refs T db k v \<and>
    n = 1 \<and> db' = tb_store T (fmupd k v (tb_rows T db)) db"
  by (auto simp: insert_row_def violates_def)

lemma insert_ignore_Inr: "insert_ignore T k v db = Inr (db', n) \<longleftrightarrow>
    tb_check T k v \<and> (if k |\<in>| fmdom (tb_rows T db) then n = 0 \<and> db' = db
      else tb_unique T (tb_rows T db) k v \<and> tb_refs T db k v \<and> n = 1 \<and> db' = tb_store T (fmupd k v (tb_rows T db)) db)"
  by (auto simp: insert_ignore_def insert_row_def violates_def)

text \<open>A row that is there survives an insert into its table unchanged.\<close>

lemma insert_row_grows: "insert_row T k v db = Inr (db', n) \<Longrightarrow> fmsubset (tb_rows T db) (tb_rows T db')"
  by (auto simp: insert_row_Inr fmsubset_alt_def fmpred_iff dest: fmdomI)

lemma insert_ignore_grows: "insert_ignore T k v db = Inr (db', n) \<Longrightarrow> fmsubset (tb_rows T db) (tb_rows T db')"
  by (auto simp: insert_ignore_Inr fmsubset_alt_def fmpred_iff dest: fmdomI split: if_splits)

lemma matching_iff: "k |\<in>| matching T p db \<longleftrightarrow> (\<exists>v. fmlookup (tb_rows T db) k = Some v \<and> p k v)"
  by (auto simp: matching_def fmlookup_dom_iff split: option.splits)

lemma update_where_Inr: "update_where T p f db = Inr (db', n) \<longleftrightarrow>
    (\<forall>k v. fmlookup (tb_rows T db) k = Some v \<and> p k v \<longrightarrow> tb_check T k (f v) \<and> tb_refs T db k (f v)) \<and>
    n = fcard (matching T p db) \<and>
    db' = tb_store T (fmmap_keys (\<lambda>k v. if p k v then f v else v) (tb_rows T db)) db"
proof -
  have "(fBall (matching T p db) (\<lambda>k. tb_check T k (f (the (fmlookup (tb_rows T db) k)))) \<and>
      fBall (matching T p db) (\<lambda>k. tb_refs T db k (f (the (fmlookup (tb_rows T db) k))))) \<longleftrightarrow>
    (\<forall>k v. fmlookup (tb_rows T db) k = Some v \<and> p k v \<longrightarrow> tb_check T k (f v) \<and> tb_refs T db k (f v))"
    by (auto simp: matching_iff Ball_def)
  then show ?thesis by (auto simp: update_where_def Let_def violates_def)
qed

lemma delete_where_Inr: "delete_where T p db = Inr (db', n) \<longleftrightarrow>
    n = fcard (matching T p db) \<and> db' = tb_store T (fmfilter (\<lambda>k. k |\<notin>| matching T p db) (tb_rows T db)) db"
  by (auto simp: delete_where_def Let_def)

lemma delete_where_lookup: "delete_where T p db = Inr (db', n) \<Longrightarrow>
    fmlookup (tb_rows T db') k = (case fmlookup (tb_rows T db) k of None \<Rightarrow> None | Some v \<Rightarrow> if p k v then None else Some v)"
  by (auto simp: delete_where_Inr matching_iff split: option.splits)

lemma update_row_Inr: "update_row T k p f db = Inr (db', n) \<longleftrightarrow>
    (if \<exists>v. fmlookup (tb_rows T db) k = Some v \<and> p v
     then tb_check T k (f (the (fmlookup (tb_rows T db) k))) \<and> tb_refs T db k (f (the (fmlookup (tb_rows T db) k))) \<and> n = 1 \<and>
       db' = tb_store T (fmupd k (f (the (fmlookup (tb_rows T db) k))) (tb_rows T db)) db
     else n = 0 \<and> db' = db)"
  by (auto simp: update_row_def violates_def split: option.splits)

text \<open>The put-once idiom, on every branch.\<close>

lemma put_once_eq:
  "put_once T k v content what r =
    (if \<not> tb_check T k v then (violates (tb_name T), r)
     else case fmlookup (tb_rows T (re_database r)) k of
       Some old \<Rightarrow> ((if content old = content v then Inr () else Inl (ImmutableConflict what)), r)
     | None \<Rightarrow>
         if \<not> tb_unique T (tb_rows T (re_database r)) k v then (violates (tb_name T @ '' unique''), r)
         else if \<not> tb_refs T (re_database r) k v then (violates ''foreign key'', r)
         else (Inr (), r\<lparr>re_database := tb_store T (fmupd k v (tb_rows T (re_database r))) (re_database r)\<rparr>))"
proof (cases "fmlookup (tb_rows T (re_database r)) k")
  case None
  then have "k |\<notin>| fmdom (tb_rows T (re_database r))" by (simp add: fmdom_notI)
  with None show ?thesis
    by (simp add: put_once_def execute_def insert_ignore_def insert_row_def violates_def query_row_def and_then_def)
next
  case (Some old)
  then have "k |\<in>| fmdom (tb_rows T (re_database r))" by (simp add: fmdomI)
  with Some show ?thesis
    by (simp add: put_once_def execute_def insert_ignore_def insert_row_def violates_def query_row_def and_then_def)
qed

lemma put_once_Inr:
  "put_once T k v content what r = (Inr u, r') \<longleftrightarrow> tb_check T k v \<and>
    (case fmlookup (tb_rows T (re_database r)) k of
       Some old \<Rightarrow> content old = content v \<and> r' = r
     | None \<Rightarrow> tb_unique T (tb_rows T (re_database r)) k v \<and> tb_refs T (re_database r) k v \<and>
         r' = r\<lparr>re_database := tb_store T (fmupd k v (tb_rows T (re_database r))) (re_database r)\<rparr>)"
  unfolding put_once_eq by (auto simp: violates_def split: option.splits)

lemma put_once_idempotent:
  assumes "put_once T k v content what r = (Inr u, r')"
  shows "put_once T k v content what r' = (Inr (), r')"
  using assms unfolding put_once_Inr by (auto simp: put_once_eq split: option.splits)

lemma put_once_grows:
  "fmsubset (tb_rows T (re_database r)) (tb_rows T (re_database (snd (put_once T k v content what r))))"
  unfolding put_once_eq by (auto simp: fmsubset_alt_def fmpred_iff dest: fmdomI split: option.splits)

end

section \<open>The tables of the schema\<close>

definition policies_table :: "json_codec \<Rightarrow> (string, policy_row) schema" where
  "policies_table js =
     \<lparr>tb_name = ''policies'', tb_rows = db_policies, tb_store = (\<lambda>m. db_policies_update (\<lambda>_. m)),
      tb_check = (\<lambda>_ row. js_valid js (py_json_projection row) \<and> int_ok (py_installed_at_us row)),
      tb_unique = (\<lambda>_ _ _. True),
      tb_refs = (\<lambda>_ _ _. True)\<rparr>"

definition drafts_table :: "(string, draft_row) schema" where
  "drafts_table =
     \<lparr>tb_name = ''episode_drafts'', tb_rows = db_drafts, tb_store = (\<lambda>m. db_drafts_update (\<lambda>_. m)),
      tb_check = (\<lambda>_ row. int_ok (dr_created_at_us row) \<and> int_ok (dr_next_sequence row)),
      tb_unique = (\<lambda>_ _ _. True),
      tb_refs = (\<lambda>_ _ _. True)\<rparr>"

definition events_table :: "(string \<times> int, event_row) schema" where
  "events_table =
     \<lparr>tb_name = ''episode_events'', tb_rows = db_events, tb_store = (\<lambda>m. db_events_update (\<lambda>_. m)),
      tb_check = (\<lambda>(_, seq) row. int_ok seq \<and> int_ok (er_event_at_us row)),
      tb_unique = (\<lambda>_ _ _. True),
      tb_refs = (\<lambda>db (draft, _) _. draft |\<in>| fmdom (db_drafts db))\<rparr>"

definition headers_table :: "(Digest32, header_row) schema" where
  "headers_table =
     \<lparr>tb_name = ''atom_headers'', tb_rows = db_headers, tb_store = (\<lambda>m. db_headers_update (\<lambda>_. m)),
      tb_check = (\<lambda>_ row. hr_atom_kind row \<in> {''episode'', ''semantic''} \<and>
        int_ok (hr_recorded_at_us row) \<and>
        0 \<le> hr_body_bytes row \<and>
        hr_body_bytes row \<le> 262144 \<and>
        hr_retention_permission row \<in> {''transient_only'', ''semantic_allowed'', ''semantic_and_exact_allowed''}),
      tb_unique = (\<lambda>_ _ _. True),
      tb_refs = (\<lambda>_ _ _. True)\<rparr>"

definition bodies_table :: "json_codec \<Rightarrow> (Digest32, body_row) schema" where
  "bodies_table js =
     \<lparr>tb_name = ''atom_bodies'', tb_rows = db_bodies, tb_store = (\<lambda>m. db_bodies_update (\<lambda>_. m)),
      tb_check = (\<lambda>_ row. js_valid js (br_json_projection row) \<and> length (br_canonical_body row) \<le> 262144),
      tb_unique = (\<lambda>_ _ _. True),
      tb_refs = (\<lambda>db atom _. has_header db atom)\<rparr>"

definition states_table :: "(Digest32, state_row) schema" where
  "states_table =
     \<lparr>tb_name = ''atom_state'', tb_rows = db_states, tb_store = (\<lambda>m. db_states_update (\<lambda>_. m)),
      tb_check = (\<lambda>_ row. sr_retention_tier row \<in> {''stm'', ''ltm_semantic'', ''ltm_episodic'', ''ltm_dual'', ''forgotten''} \<and>
        sr_content_status row \<in> {''present'', ''forgotten'', ''quarantined''} \<and>
        optional int_ok (sr_expires_at_us row) \<and>
        int_ok (sr_feedback_positive row) \<and>
        int_ok (sr_feedback_negative row) \<and>
        int_ok (sr_retrieval_count row) \<and>
        (sr_content_status row \<noteq> ''present'' \<or> sr_retention_tier row \<noteq> ''forgotten'')),
      tb_unique = (\<lambda>_ _ _. True),
      tb_refs = (\<lambda>db atom row. has_header db atom \<and> optional (has_header db) (sr_superseded_by row))\<rparr>"

definition provenance_table :: "json_codec \<Rightarrow> (Digest32, provenance_row) schema" where
  "provenance_table js =
     \<lparr>tb_name = ''atom_provenance'', tb_rows = db_provenance, tb_store = (\<lambda>m. db_provenance_update (\<lambda>_. m)),
      tb_check = (\<lambda>_ row. js_valid js (pw_json_projection row)),
      tb_unique = (\<lambda>_ _ _. True),
      tb_refs = (\<lambda>db atom _. has_header db atom)\<rparr>"

definition provenance_sources_table :: "(Digest32 \<times> int, Digest32) schema" where
  "provenance_sources_table =
     \<lparr>tb_name = ''atom_provenance_sources'', tb_rows = db_provenance_sources, tb_store = (\<lambda>m. db_provenance_sources_update (\<lambda>_. m)),
      tb_check = (\<lambda>(_, ordinal) _. int_ok ordinal),
      tb_unique = (\<lambda>rows (atom, _) digest. \<not> fBex (fmdom rows) (\<lambda>k. fst k = atom \<and> fmlookup rows k = Some digest)),
      tb_refs = (\<lambda>db (atom, _) _. has_header db atom)\<rparr>"

definition relations_table :: "(Digest32 \<times> Digest32 \<times> string, Digest32) schema" where
  "relations_table =
     \<lparr>tb_name = ''atom_relations'', tb_rows = db_relations, tb_store = (\<lambda>m. db_relations_update (\<lambda>_. m)),
      tb_check = (\<lambda>_ _. True),
      tb_unique = (\<lambda>_ _ _. True),
      tb_refs = (\<lambda>db (source, target, _) _. has_header db source \<and> has_header db target)\<rparr>"

definition projections_table :: "json_codec \<Rightarrow> (Digest32, projection_row) schema" where
  "projections_table js =
     \<lparr>tb_name = ''search_projection'', tb_rows = db_projections, tb_store = (\<lambda>m. db_projections_update (\<lambda>_. m)),
      tb_check = (\<lambda>_ row. js_valid js (jr_topic_keys_json row) \<and> js_valid js (jr_entity_ids_json row)),
      tb_unique = (\<lambda>_ _ _. True),
      tb_refs = (\<lambda>db atom _. has_header db atom)\<rparr>"

definition feedback_table :: "(Digest32, feedback_row) schema" where
  "feedback_table =
     \<lparr>tb_name = ''feedback'', tb_rows = db_feedback, tb_store = (\<lambda>m. db_feedback_update (\<lambda>_. m)),
      tb_check = (\<lambda>_ row. int_ok (fr_as_of_us row) \<and> (fr_outcome row = - 1 \<or> fr_outcome row = 1)),
      tb_unique = (\<lambda>_ _ _. True),
      tb_refs = (\<lambda>db _ row. has_header db (fr_atom_id row))\<rparr>"

definition artifact_row_ok :: "artifact_row \<Rightarrow> bool" where
  "artifact_row_ok row \<longleftrightarrow>
     0 \<le> at_byte_len row \<and> at_byte_len row \<le> 67108864 \<and>
     (at_integrity_status row = ''verified'' \<or> at_integrity_status row = ''quarantined'') \<and>
     0 \<le> at_created_at_us row \<and>
     (case at_gc_marked_at_us row of None \<Rightarrow> True | Some marked \<Rightarrow> at_created_at_us row \<le> marked)"

definition artifacts_table :: "(Digest32, artifact_row) schema" where
  "artifacts_table =
     \<lparr>tb_name = ''artifacts'', tb_rows = db_artifacts, tb_store = (\<lambda>m. db_artifacts_update (\<lambda>_. m)),
      tb_check = (\<lambda>_ row. artifact_row_ok row),
      tb_unique = (\<lambda>rows _ row. at_relative_path row |\<notin>| at_relative_path |`| fmran rows),
      tb_refs = (\<lambda>_ _ _. True)\<rparr>"

definition artifact_refs_table :: "(Digest32 \<times> Digest32 \<times> string, bool) schema" where
  "artifact_refs_table =
     \<lparr>tb_name = ''artifact_refs'', tb_rows = db_artifact_refs, tb_store = (\<lambda>m. db_artifact_refs_update (\<lambda>_. m)),
      tb_check = (\<lambda>_ _. True),
      tb_unique = (\<lambda>_ _ _. True),
      tb_refs = (\<lambda>db (digest, atom, _) _. digest |\<in>| fmdom (db_artifacts db) \<and> has_header db atom)\<rparr>"

definition artifact_provenance_table :: "(Digest32 \<times> Digest32 \<times> string, bool) schema" where
  "artifact_provenance_table =
     \<lparr>tb_name = ''artifact_provenance_edges'', tb_rows = db_artifact_provenance, tb_store = (\<lambda>m. db_artifact_provenance_update (\<lambda>_. m)),
      tb_check = (\<lambda>_ _. True),
      tb_unique = (\<lambda>_ _ _. True),
      tb_refs = (\<lambda>db (atom, _, _) _. has_header db atom)\<rparr>"

definition runs_table :: "(Digest32, run_row) schema" where
  "runs_table =
     \<lparr>tb_name = ''retirement_runs'', tb_rows = db_runs, tb_store = (\<lambda>m. db_runs_update (\<lambda>_. m)),
      tb_check = (\<lambda>_ row. - (2 ^ 63) \<le> ru_cohort_day row \<and> ru_cohort_day row < 2 ^ 63 \<and>
        int_ok (ru_as_of_us row) \<and>
        ru_status row \<in> {''applying'', ''applied'', ''rejected''} \<and>
        int_ok (ru_started_at_us row) \<and>
        optional (\<lambda>t. int_ok t \<and> ru_started_at_us row \<le> t) (ru_completed_at_us row)),
      tb_unique = (\<lambda>rows _ row. (ru_memory_space_id row, ru_cohort_day row) |\<notin>|
        (\<lambda>old. (ru_memory_space_id old, ru_cohort_day old)) |`| fmran rows),
      tb_refs = (\<lambda>db _ row. ru_policy_id row |\<in>| fmdom (db_policies db) \<and>
        optional (\<lambda>d. d |\<in>| fmdom (db_receipts db)) (ru_receipt_digest row))\<rparr>"

definition members_table :: "(Digest32 \<times> Digest32, Digest32) schema" where
  "members_table =
     \<lparr>tb_name = ''retirement_members'', tb_rows = db_members, tb_store = (\<lambda>m. db_members_update (\<lambda>_. m)),
      tb_check = (\<lambda>_ _. True),
      tb_unique = (\<lambda>_ _ _. True),
      tb_refs = (\<lambda>db (run, atom) _. run |\<in>| fmdom (db_runs db) \<and> has_header db atom)\<rparr>"

definition decisions_table :: "(Digest32 \<times> Digest32, decision_row) schema" where
  "decisions_table =
     \<lparr>tb_name = ''retirement_decisions'', tb_rows = db_decisions, tb_store = (\<lambda>m. db_decisions_update (\<lambda>_. m)),
      tb_check = (\<lambda>_ row. dn_decision row \<in>
        {''semantic_source'', ''episodic_winner'', ''semantic_and_episodic'', ''forgotten'', ''unchanged''}),
      tb_unique = (\<lambda>_ _ _. True),
      tb_refs = (\<lambda>db (run, atom) _. run |\<in>| fmdom (db_runs db) \<and> has_header db atom)\<rparr>"

definition post_states_table :: "json_codec \<Rightarrow> (Digest32, post_state_row) schema" where
  "post_states_table js =
     \<lparr>tb_name = ''retirement_post_states'', tb_rows = db_post_states, tb_store = (\<lambda>m. db_post_states_update (\<lambda>_. m)),
      tb_check = (\<lambda>_ row. js_valid js (pt_json_projection row)),
      tb_unique = (\<lambda>_ _ _. True),
      tb_refs = (\<lambda>db run _. run |\<in>| fmdom (db_runs db))\<rparr>"

definition receipts_table :: "json_codec \<Rightarrow> (Digest32, receipt_row) schema" where
  "receipts_table js =
     \<lparr>tb_name = ''proof_receipts'', tb_rows = db_receipts, tb_store = (\<lambda>m. db_receipts_update (\<lambda>_. m)),
      tb_check = (\<lambda>_ row. js_valid js (rw_json_projection row) \<and> int_ok (rw_created_at_us row)),
      tb_unique = (\<lambda>rows _ row. rw_run_id row |\<notin>| rw_run_id |`| fmran rows),
      tb_refs = (\<lambda>db _ row. rw_run_id row |\<in>| fmdom (db_runs db))\<rparr>"

definition pins_table :: "(Digest32 \<times> Digest32 \<times> Digest32, int) schema" where
  "pins_table =
     \<lparr>tb_name = ''artifact_pins'', tb_rows = db_artifact_pins, tb_store = (\<lambda>m. db_artifact_pins_update (\<lambda>_. m)),
      tb_check = (\<lambda>_ pinned_at. int_ok pinned_at),
      tb_unique = (\<lambda>_ _ _. True),
      tb_refs = (\<lambda>db (digest, run, atom) _. digest |\<in>| fmdom (db_artifacts db) \<and> run |\<in>| fmdom (db_runs db) \<and> has_header db atom)\<rparr>"

lemmas schema_defs =
  policies_table_def
  drafts_table_def
  events_table_def
  headers_table_def
  bodies_table_def
  states_table_def
  provenance_table_def
  provenance_sources_table_def
  relations_table_def
  projections_table_def
  feedback_table_def
  artifacts_table_def
  artifact_refs_table_def
  artifact_provenance_table_def
  runs_table_def
  members_table_def
  decisions_table_def
  post_states_table_def
  receipts_table_def
  pins_table_def

lemma table_rows [simp]:
  "tb_rows (policies_table js) = db_policies"
  "tb_rows drafts_table = db_drafts"
  "tb_rows events_table = db_events"
  "tb_rows headers_table = db_headers"
  "tb_rows (bodies_table js) = db_bodies"
  "tb_rows states_table = db_states"
  "tb_rows (provenance_table js) = db_provenance"
  "tb_rows provenance_sources_table = db_provenance_sources"
  "tb_rows relations_table = db_relations"
  "tb_rows (projections_table js) = db_projections"
  "tb_rows feedback_table = db_feedback"
  "tb_rows artifacts_table = db_artifacts"
  "tb_rows artifact_refs_table = db_artifact_refs"
  "tb_rows artifact_provenance_table = db_artifact_provenance"
  "tb_rows runs_table = db_runs"
  "tb_rows members_table = db_members"
  "tb_rows decisions_table = db_decisions"
  "tb_rows (post_states_table js) = db_post_states"
  "tb_rows (receipts_table js) = db_receipts"
  "tb_rows pins_table = db_artifact_pins"
  by (simp_all add: schema_defs)

lemma table_store [simp]:
  "tb_store (policies_table js) = (\<lambda>m. db_policies_update (\<lambda>_. m))"
  "tb_store drafts_table = (\<lambda>m. db_drafts_update (\<lambda>_. m))"
  "tb_store events_table = (\<lambda>m. db_events_update (\<lambda>_. m))"
  "tb_store headers_table = (\<lambda>m. db_headers_update (\<lambda>_. m))"
  "tb_store (bodies_table js) = (\<lambda>m. db_bodies_update (\<lambda>_. m))"
  "tb_store states_table = (\<lambda>m. db_states_update (\<lambda>_. m))"
  "tb_store (provenance_table js) = (\<lambda>m. db_provenance_update (\<lambda>_. m))"
  "tb_store provenance_sources_table = (\<lambda>m. db_provenance_sources_update (\<lambda>_. m))"
  "tb_store relations_table = (\<lambda>m. db_relations_update (\<lambda>_. m))"
  "tb_store (projections_table js) = (\<lambda>m. db_projections_update (\<lambda>_. m))"
  "tb_store feedback_table = (\<lambda>m. db_feedback_update (\<lambda>_. m))"
  "tb_store artifacts_table = (\<lambda>m. db_artifacts_update (\<lambda>_. m))"
  "tb_store artifact_refs_table = (\<lambda>m. db_artifact_refs_update (\<lambda>_. m))"
  "tb_store artifact_provenance_table = (\<lambda>m. db_artifact_provenance_update (\<lambda>_. m))"
  "tb_store runs_table = (\<lambda>m. db_runs_update (\<lambda>_. m))"
  "tb_store members_table = (\<lambda>m. db_members_update (\<lambda>_. m))"
  "tb_store decisions_table = (\<lambda>m. db_decisions_update (\<lambda>_. m))"
  "tb_store (post_states_table js) = (\<lambda>m. db_post_states_update (\<lambda>_. m))"
  "tb_store (receipts_table js) = (\<lambda>m. db_receipts_update (\<lambda>_. m))"
  "tb_store pins_table = (\<lambda>m. db_artifact_pins_update (\<lambda>_. m))"
  by (simp_all add: schema_defs)

lemmas table_checks [simp] =
  schema_defs [THEN arg_cong [where f = tb_check], unfolded schema.simps]
  schema_defs [THEN arg_cong [where f = tb_unique], unfolded schema.simps]
  schema_defs [THEN arg_cong [where f = tb_refs], unfolded schema.simps]

section \<open>Interpretations\<close>

interpretation policies_tab: table "policies_table js" for js
  by unfold_locales simp_all

interpretation drafts_tab: table "drafts_table"
  by unfold_locales simp_all

interpretation events_tab: table "events_table"
  by unfold_locales simp_all

interpretation headers_tab: table "headers_table"
  by unfold_locales simp_all

interpretation bodies_tab: table "bodies_table js" for js
  by unfold_locales simp_all

interpretation states_tab: table "states_table"
  by unfold_locales simp_all

interpretation provenance_tab: table "provenance_table js" for js
  by unfold_locales simp_all

interpretation provenance_sources_tab: table "provenance_sources_table"
  by unfold_locales simp_all

interpretation relations_tab: table "relations_table"
  by unfold_locales simp_all

interpretation projections_tab: table "projections_table js" for js
  by unfold_locales simp_all

interpretation feedback_tab: table "feedback_table"
  by unfold_locales simp_all

interpretation artifacts_tab: table "artifacts_table"
  by unfold_locales simp_all

interpretation artifact_refs_tab: table "artifact_refs_table"
  by unfold_locales simp_all

interpretation artifact_provenance_tab: table "artifact_provenance_table"
  by unfold_locales simp_all

interpretation runs_tab: table "runs_table"
  by unfold_locales simp_all

interpretation members_tab: table "members_table"
  by unfold_locales simp_all

interpretation decisions_tab: table "decisions_table"
  by unfold_locales simp_all

interpretation post_states_tab: table "post_states_table js" for js
  by unfold_locales simp_all

interpretation receipts_tab: table "receipts_table js" for js
  by unfold_locales simp_all

interpretation pins_tab: table "pins_table"
  by unfold_locales simp_all

end
