(* ===== verification/Integrity.thy ===== *)
theory Integrity
  imports Tables
begin

text \<open>
  The schema as an invariant.  Every row of every table satisfies its column checks and its foreign
  keys (\<open>schema_ok\<close>), and the tables that the schema calls immutable only ever gain rows
  (\<open>db_grows\<close>).  Both are proved once for the statements and lifted to the operations, which are
  built from statements by sequencing, loops and transactions.
\<close>

lemma int_ok_int: "int_ok (int n) \<longleftrightarrow> n < 2 ^ 63" "int_ok (int n + 1) \<longleftrightarrow> n + 1 < 2 ^ 63"
proof -
  show "int_ok (int n) \<longleftrightarrow> n < 2 ^ 63" for n unfolding int_ok_def by simp
  show "int_ok (int n + 1) \<longleftrightarrow> n + 1 < 2 ^ 63" unfolding int_ok_def by simp
qed

section \<open>Lifting from statements to operations\<close>

definition preserves :: "(Database \<Rightarrow> bool) \<Rightarrow> statement \<Rightarrow> bool" where
  "preserves P stmt \<longleftrightarrow> (\<forall>db db' n. P db \<longrightarrow> stmt db = Inr (db', n) \<longrightarrow> P db')"

abbreviation keeps_db :: "(Database \<Rightarrow> bool) \<Rightarrow> (SqliteRepository, 'a) action \<Rightarrow> bool" where
  "keeps_db P \<equiv> keeps (\<lambda>r. P (re_database r))"

lemma keeps_execute: "preserves P stmt \<Longrightarrow> keeps_db P (execute stmt)"
  by (auto simp: keeps_def preserves_def execute_def split: sum.splits)

lemma snd_transaction: "re_database (snd (transaction body r)) =
    (case body r of (Inl _, _) \<Rightarrow> re_database r | (Inr _, r') \<Rightarrow> re_database r')"
  by (simp add: transaction_def split: prod.splits sum.splits)

lemma keeps_transaction: "keeps_db P body \<Longrightarrow> keeps_db P (transaction body)"
proof (rule keepsI)
  fix r :: SqliteRepository assume "keeps_db P body" "P (re_database r)"
  then have "P (re_database (snd (body r)))" by (rule keepsD)
  with \<open>P (re_database r)\<close> show "P (re_database (snd (transaction body r)))"
    by (cases "body r"; cases "fst (body r)") (auto simp: snd_transaction)
qed

lemma keeps_on_store [intro]: "keeps_db P (on_store m)"
  by (auto simp: keeps_def on_store_def split: prod.splits)

lemma keeps_if: "(c \<Longrightarrow> keeps P m) \<Longrightarrow> (\<not> c \<Longrightarrow> keeps P n) \<Longrightarrow> keeps P (if c then m else n)"
  by simp

text \<open>A relation between the tables before and after; it must be reflexive and transitive.\<close>

definition moves :: "(Database \<Rightarrow> Database \<Rightarrow> bool) \<Rightarrow> (SqliteRepository, 'a) action \<Rightarrow> bool" where
  "moves R m \<longleftrightarrow> (\<forall>r. R (re_database r) (re_database (snd (m r))))"

locale db_preorder =
  fixes R :: "Database \<Rightarrow> Database \<Rightarrow> bool"
  assumes refl [simp]: "R db db" and trans: "R a b \<Longrightarrow> R b c \<Longrightarrow> R a c"
begin

lemma moves_pure: "moves R (pure x)" "moves R (query q)" "moves R (select q')" "moves R (on_store m)"
  by (auto simp: moves_def on_store_def split: prod.splits)

lemma moves_and_then:
  assumes "moves R m" "\<And>x. moves R (f x)"
  shows "moves R (and_then m f)"
  unfolding moves_def
proof
  fix r
  obtain x r' where m: "m r = (x, r')" by fastforce
  then have 1: "R (re_database r) (re_database r')" using assms(1) unfolding moves_def by (metis snd_conv)
  show "R (re_database r) (re_database (snd (and_then m f r)))"
  proof (cases x)
    case (Inl e)
    then show ?thesis using m 1 by (simp add: and_then_def)
  next
    case (Inr y)
    have "R (re_database r') (re_database (snd (f y r')))" using assms(2) unfolding moves_def by blast
    then show ?thesis using m 1 Inr trans by (simp add: and_then_def)
  qed
qed

lemma moves_each: "(\<And>x. moves R (f x)) \<Longrightarrow> moves R (each f xs)"
  by (induction xs) (auto intro: moves_and_then moves_pure)

lemma moves_transaction:
  assumes "moves R body"
  shows "moves R (transaction body)"
  unfolding moves_def
proof
  fix r
  have "R (re_database r) (re_database (snd (body r)))" using assms unfolding moves_def by blast
  then show "R (re_database r) (re_database (snd (transaction body r)))"
    by (cases "body r"; cases "fst (body r)") (auto simp: snd_transaction)
qed

lemma moves_execute: "(\<And>db db' n. stmt db = Inr (db', n) \<Longrightarrow> R db db') \<Longrightarrow> moves R (execute stmt)"
  by (auto simp: moves_def execute_def split: sum.splits)

lemma moves_if: "(c \<Longrightarrow> moves R m) \<Longrightarrow> (\<not> c \<Longrightarrow> moves R n) \<Longrightarrow> moves R (if c then m else n)"
  by simp

lemmas moves_intros = moves_pure moves_and_then moves_each moves_transaction moves_execute moves_if

end

section \<open>Checks and foreign keys\<close>

definition table_ok :: "('k, 'v) schema \<Rightarrow> Database \<Rightarrow> bool" where
  "table_ok T db \<longleftrightarrow> (\<forall>k v. fmlookup (tb_rows T db) k = Some v \<longrightarrow> tb_check T k v \<and> tb_refs T db k v)"

text \<open>The rows that foreign keys point to stay.\<close>

definition parents_grow :: "Database \<Rightarrow> Database \<Rightarrow> bool" where
  "parents_grow db db' \<longleftrightarrow> fmdom (db_drafts db) |\<subseteq>| fmdom (db_drafts db') \<and>
     fmdom (db_headers db) |\<subseteq>| fmdom (db_headers db') \<and> fmdom (db_artifacts db) |\<subseteq>| fmdom (db_artifacts db') \<and>
     fmdom (db_policies db) |\<subseteq>| fmdom (db_policies db') \<and> fmdom (db_runs db) |\<subseteq>| fmdom (db_runs db') \<and>
     fmdom (db_receipts db) |\<subseteq>| fmdom (db_receipts db')"

lemma parents_grow_refl [simp]: "parents_grow db db"
  by (simp add: parents_grow_def)

locale child_table = table T for T :: "('k, 'v) schema" +
  assumes refs_mono: "parents_grow db db' \<Longrightarrow> tb_refs T db k v \<Longrightarrow> tb_refs T db' k v"
    and store_parents: "fmdom (tb_rows T db) |\<subseteq>| fmdom m \<Longrightarrow> parents_grow db (tb_store T m db)"
begin

lemma upd_parents: "parents_grow db (tb_store T (fmupd k v (tb_rows T db)) db)"
  by (rule store_parents) auto

lemma table_ok_upd:
  "table_ok T db \<Longrightarrow> tb_check T k v \<Longrightarrow> tb_refs T db k v \<Longrightarrow> table_ok T (tb_store T (fmupd k v (tb_rows T db)) db)"
  using refs_mono [OF upd_parents] by (auto simp: table_ok_def split: if_splits)

lemma table_ok_frame: "table_ok T db \<Longrightarrow> parents_grow db db' \<Longrightarrow> tb_rows T db' = tb_rows T db \<Longrightarrow> table_ok T db'"
  using refs_mono by (simp add: table_ok_def)

lemma table_ok_update_where:
  assumes "table_ok T db" "update_where T p f db = Inr (db', n)"
  shows "table_ok T db'" "parents_grow db db'"
proof -
  have db': "db' = tb_store T (fmmap_keys (\<lambda>k v. if p k v then f v else v) (tb_rows T db)) db"
    and ok: "\<And>k v. fmlookup (tb_rows T db) k = Some v \<Longrightarrow> p k v \<Longrightarrow> tb_check T k (f v) \<and> tb_refs T db k (f v)"
    using assms(2) by (auto simp: update_where_Inr)
  show grow: "parents_grow db db'" unfolding db' by (rule store_parents) simp
  show "table_ok T db'"
    unfolding table_ok_def
  proof (intro allI impI)
    fix k w assume "fmlookup (tb_rows T db') k = Some w"
    then obtain v where v: "fmlookup (tb_rows T db) k = Some v" "w = (if p k v then f v else v)"
      by (auto simp: db')
    then have "tb_check T k w \<and> tb_refs T db k w" using ok assms(1) by (auto simp: table_ok_def)
    then show "tb_check T k w \<and> tb_refs T db' k w" using refs_mono [OF grow] by blast
  qed
qed

text \<open>What is kept when a checked row is stored is kept by all three statements.\<close>

lemma preserves_statements:
  assumes "\<And>db k v. P db \<Longrightarrow> tb_check T k v \<Longrightarrow> tb_refs T db k v \<Longrightarrow> P (tb_store T (fmupd k v (tb_rows T db)) db)"
  shows "preserves P (insert_row T k v)" "preserves P (insert_ignore T k v)" "preserves P (update_row T k p f)"
  using assms
  by (auto simp: preserves_def insert_row_Inr insert_ignore_Inr update_row_Inr split: if_splits)

end

interpretation policies_tab: child_table "policies_table js" for js
  by unfold_locales (auto simp: parents_grow_def has_header_def optional_def fsubset_iff split: option.splits prod.splits)

interpretation drafts_tab: child_table "drafts_table"
  by unfold_locales (auto simp: parents_grow_def has_header_def optional_def fsubset_iff split: option.splits prod.splits)

interpretation events_tab: child_table "events_table"
  by unfold_locales (auto simp: parents_grow_def has_header_def optional_def fsubset_iff split: option.splits prod.splits)

interpretation headers_tab: child_table "headers_table"
  by unfold_locales (auto simp: parents_grow_def has_header_def optional_def fsubset_iff split: option.splits prod.splits)

interpretation bodies_tab: child_table "bodies_table js" for js
  by unfold_locales (auto simp: parents_grow_def has_header_def optional_def fsubset_iff split: option.splits prod.splits)

interpretation states_tab: child_table "states_table"
  by unfold_locales (auto simp: parents_grow_def has_header_def optional_def fsubset_iff split: option.splits prod.splits)

interpretation provenance_tab: child_table "provenance_table js" for js
  by unfold_locales (auto simp: parents_grow_def has_header_def optional_def fsubset_iff split: option.splits prod.splits)

interpretation provenance_sources_tab: child_table "provenance_sources_table"
  by unfold_locales (auto simp: parents_grow_def has_header_def optional_def fsubset_iff split: option.splits prod.splits)

interpretation relations_tab: child_table "relations_table"
  by unfold_locales (auto simp: parents_grow_def has_header_def optional_def fsubset_iff split: option.splits prod.splits)

interpretation projections_tab: child_table "projections_table js" for js
  by unfold_locales (auto simp: parents_grow_def has_header_def optional_def fsubset_iff split: option.splits prod.splits)

interpretation feedback_tab: child_table "feedback_table"
  by unfold_locales (auto simp: parents_grow_def has_header_def optional_def fsubset_iff split: option.splits prod.splits)

interpretation artifacts_tab: child_table "artifacts_table"
  by unfold_locales (auto simp: parents_grow_def has_header_def optional_def fsubset_iff split: option.splits prod.splits)

interpretation artifact_refs_tab: child_table "artifact_refs_table"
  by unfold_locales (auto simp: parents_grow_def has_header_def optional_def fsubset_iff split: option.splits prod.splits)

interpretation artifact_provenance_tab: child_table "artifact_provenance_table"
  by unfold_locales (auto simp: parents_grow_def has_header_def optional_def fsubset_iff split: option.splits prod.splits)

interpretation runs_tab: child_table "runs_table"
  by unfold_locales (auto simp: parents_grow_def has_header_def optional_def fsubset_iff split: option.splits prod.splits)

interpretation members_tab: child_table "members_table"
  by unfold_locales (auto simp: parents_grow_def has_header_def optional_def fsubset_iff split: option.splits prod.splits)

interpretation decisions_tab: child_table "decisions_table"
  by unfold_locales (auto simp: parents_grow_def has_header_def optional_def fsubset_iff split: option.splits prod.splits)

interpretation post_states_tab: child_table "post_states_table js" for js
  by unfold_locales (auto simp: parents_grow_def has_header_def optional_def fsubset_iff split: option.splits prod.splits)

interpretation receipts_tab: child_table "receipts_table js" for js
  by unfold_locales (auto simp: parents_grow_def has_header_def optional_def fsubset_iff split: option.splits prod.splits)

interpretation pins_tab: child_table "pins_table"
  by unfold_locales (auto simp: parents_grow_def has_header_def optional_def fsubset_iff split: option.splits prod.splits)

definition schema_ok :: "json_codec \<Rightarrow> Database \<Rightarrow> bool" where
  "schema_ok js db \<longleftrightarrow>
     table_ok (policies_table js) db \<and> table_ok drafts_table db \<and> table_ok events_table db \<and>
     table_ok headers_table db \<and> table_ok (bodies_table js) db \<and> table_ok states_table db \<and>
     table_ok (provenance_table js) db \<and> table_ok provenance_sources_table db \<and> table_ok relations_table db \<and>
     table_ok (projections_table js) db \<and> table_ok feedback_table db \<and> table_ok artifacts_table db \<and>
     table_ok artifact_refs_table db \<and> table_ok artifact_provenance_table db \<and> table_ok runs_table db \<and>
     table_ok members_table db \<and> table_ok decisions_table db \<and> table_ok (post_states_table js) db \<and>
     table_ok (receipts_table js) db \<and> table_ok pins_table db"

lemmas table_frames =
  policies_tab.table_ok_frame
  drafts_tab.table_ok_frame
  events_tab.table_ok_frame
  headers_tab.table_ok_frame
  bodies_tab.table_ok_frame
  states_tab.table_ok_frame
  provenance_tab.table_ok_frame
  provenance_sources_tab.table_ok_frame
  relations_tab.table_ok_frame
  projections_tab.table_ok_frame
  feedback_tab.table_ok_frame
  artifacts_tab.table_ok_frame
  artifact_refs_tab.table_ok_frame
  artifact_provenance_tab.table_ok_frame
  runs_tab.table_ok_frame
  members_tab.table_ok_frame
  decisions_tab.table_ok_frame
  post_states_tab.table_ok_frame
  receipts_tab.table_ok_frame
  pins_tab.table_ok_frame

text \<open>A table of the schema: storing its rows leaves every other table as it is.\<close>

locale schema_table = child_table T for T :: "('k, 'v) schema" +
  fixes js :: json_codec
  assumes member: "schema_ok js db \<Longrightarrow> table_ok T db"
    and frame: "schema_ok js db \<Longrightarrow> table_ok T (tb_store T m db) \<Longrightarrow> parents_grow db (tb_store T m db) \<Longrightarrow>
      schema_ok js (tb_store T m db)"
begin

lemma schema_ok_upd:
  "schema_ok js db \<Longrightarrow> tb_check T k v \<Longrightarrow> tb_refs T db k v \<Longrightarrow>
   schema_ok js (tb_store T (fmupd k v (tb_rows T db)) db)"
  by (intro frame table_ok_upd upd_parents member)

lemmas preserves_schema = preserves_statements [where P = "schema_ok js", OF schema_ok_upd]

lemma keeps_insert: "keeps_db (schema_ok js) (execute (insert_row T k v))"
  and keeps_insert_ignore: "keeps_db (schema_ok js) (execute (insert_ignore T k v))"
  and keeps_update: "keeps_db (schema_ok js) (execute (update_row T k p f))"
  by (intro keeps_execute preserves_schema; assumption)+

lemma keeps_update_where: "keeps_db (schema_ok js) (execute (update_where T p f))"
proof (rule keeps_execute, unfold preserves_def, intro allI impI)
  fix db db' n assume ok: "schema_ok js db" and run: "update_where T p f db = Inr (db', n)"
  then have db': "db' = tb_store T (fmmap_keys (\<lambda>k v. if p k v then f v else v) (tb_rows T db)) db"
    by (auto simp: update_where_Inr)
  show "schema_ok js db'"
    using frame [OF ok] table_ok_update_where [OF member [OF ok] run] unfolding db' by blast
qed

lemma keeps_put_once: "keeps_db (schema_ok js) (put_once T k v content what)"
  unfolding put_once_def select_def by (intro keeps_and_then keeps_pure keeps_insert_ignore)

end

interpretation policies_tab: schema_table "policies_table js" js for js
  by unfold_locales (auto simp: schema_ok_def intro: table_frames)

interpretation drafts_tab: schema_table "drafts_table" js for js
  by unfold_locales (auto simp: schema_ok_def intro: table_frames)

interpretation events_tab: schema_table "events_table" js for js
  by unfold_locales (auto simp: schema_ok_def intro: table_frames)

interpretation headers_tab: schema_table "headers_table" js for js
  by unfold_locales (auto simp: schema_ok_def intro: table_frames)

interpretation bodies_tab: schema_table "bodies_table js" js for js
  by unfold_locales (auto simp: schema_ok_def intro: table_frames)

interpretation states_tab: schema_table "states_table" js for js
  by unfold_locales (auto simp: schema_ok_def intro: table_frames)

interpretation provenance_tab: schema_table "provenance_table js" js for js
  by unfold_locales (auto simp: schema_ok_def intro: table_frames)

interpretation provenance_sources_tab: schema_table "provenance_sources_table" js for js
  by unfold_locales (auto simp: schema_ok_def intro: table_frames)

interpretation relations_tab: schema_table "relations_table" js for js
  by unfold_locales (auto simp: schema_ok_def intro: table_frames)

interpretation projections_tab: schema_table "projections_table js" js for js
  by unfold_locales (auto simp: schema_ok_def intro: table_frames)

interpretation feedback_tab: schema_table "feedback_table" js for js
  by unfold_locales (auto simp: schema_ok_def intro: table_frames)

interpretation artifacts_tab: schema_table "artifacts_table" js for js
  by unfold_locales (auto simp: schema_ok_def intro: table_frames)

interpretation artifact_refs_tab: schema_table "artifact_refs_table" js for js
  by unfold_locales (auto simp: schema_ok_def intro: table_frames)

interpretation artifact_provenance_tab: schema_table "artifact_provenance_table" js for js
  by unfold_locales (auto simp: schema_ok_def intro: table_frames)

interpretation runs_tab: schema_table "runs_table" js for js
  by unfold_locales (auto simp: schema_ok_def intro: table_frames)

interpretation members_tab: schema_table "members_table" js for js
  by unfold_locales (auto simp: schema_ok_def intro: table_frames)

interpretation decisions_tab: schema_table "decisions_table" js for js
  by unfold_locales (auto simp: schema_ok_def intro: table_frames)

interpretation post_states_tab: schema_table "post_states_table js" js for js
  by unfold_locales (auto simp: schema_ok_def intro: table_frames)

interpretation receipts_tab: schema_table "receipts_table js" js for js
  by unfold_locales (auto simp: schema_ok_def intro: table_frames)

interpretation pins_tab: schema_table "pins_table" js for js
  by unfold_locales (auto simp: schema_ok_def intro: table_frames)

text \<open>Rows that no foreign key points to may be deleted.\<close>

locale leaf_table = schema_table T js for T :: "('k, 'v) schema" and js +
  assumes leaf: "parents_grow db (tb_store T m db)"
begin

lemma keeps_delete_where: "keeps_db (schema_ok js) (execute (delete_where T p))"
proof (rule keeps_execute, unfold preserves_def, intro allI impI)
  fix db db' n assume ok: "schema_ok js db" and run: "delete_where T p db = Inr (db', n)"
  then have db': "db' = tb_store T (fmfilter (\<lambda>k. k |\<notin>| matching T p db) (tb_rows T db)) db"
    by (auto simp: delete_where_Inr)
  have "table_ok T db'"
    using member [OF ok] refs_mono [OF leaf] unfolding db' table_ok_def by (auto split: if_splits)
  then show "schema_ok js db'" using frame [OF ok _ leaf] unfolding db' by blast
qed

end

interpretation bodies_tab: leaf_table "bodies_table js" js for js
  by unfold_locales (simp add: parents_grow_def)

interpretation projections_tab: leaf_table "projections_table js" js for js
  by unfold_locales (simp add: parents_grow_def)

interpretation artifact_refs_tab: leaf_table "artifact_refs_table" js for js
  by unfold_locales (simp add: parents_grow_def)

lemmas schema_keeps =
  policies_tab.keeps_insert policies_tab.keeps_insert_ignore policies_tab.keeps_update policies_tab.keeps_put_once
  drafts_tab.keeps_insert drafts_tab.keeps_insert_ignore drafts_tab.keeps_update drafts_tab.keeps_put_once
  events_tab.keeps_insert events_tab.keeps_insert_ignore events_tab.keeps_update events_tab.keeps_put_once
  headers_tab.keeps_insert headers_tab.keeps_insert_ignore headers_tab.keeps_update headers_tab.keeps_put_once
  bodies_tab.keeps_insert bodies_tab.keeps_insert_ignore bodies_tab.keeps_update bodies_tab.keeps_put_once
  states_tab.keeps_insert states_tab.keeps_insert_ignore states_tab.keeps_update states_tab.keeps_put_once
  provenance_tab.keeps_insert provenance_tab.keeps_insert_ignore provenance_tab.keeps_update provenance_tab.keeps_put_once
  provenance_sources_tab.keeps_insert provenance_sources_tab.keeps_insert_ignore provenance_sources_tab.keeps_update provenance_sources_tab.keeps_put_once
  relations_tab.keeps_insert relations_tab.keeps_insert_ignore relations_tab.keeps_update relations_tab.keeps_put_once
  projections_tab.keeps_insert projections_tab.keeps_insert_ignore projections_tab.keeps_update projections_tab.keeps_put_once
  feedback_tab.keeps_insert feedback_tab.keeps_insert_ignore feedback_tab.keeps_update feedback_tab.keeps_put_once
  artifacts_tab.keeps_insert artifacts_tab.keeps_insert_ignore artifacts_tab.keeps_update artifacts_tab.keeps_put_once
  artifact_refs_tab.keeps_insert artifact_refs_tab.keeps_insert_ignore artifact_refs_tab.keeps_update artifact_refs_tab.keeps_put_once
  runs_tab.keeps_insert runs_tab.keeps_insert_ignore runs_tab.keeps_update runs_tab.keeps_put_once
  members_tab.keeps_insert members_tab.keeps_insert_ignore members_tab.keeps_update members_tab.keeps_put_once
  decisions_tab.keeps_insert decisions_tab.keeps_insert_ignore decisions_tab.keeps_update decisions_tab.keeps_put_once
  post_states_tab.keeps_insert post_states_tab.keeps_insert_ignore post_states_tab.keeps_update post_states_tab.keeps_put_once
  receipts_tab.keeps_insert receipts_tab.keeps_insert_ignore receipts_tab.keeps_update receipts_tab.keeps_put_once
  pins_tab.keeps_insert pins_tab.keeps_insert_ignore pins_tab.keeps_update pins_tab.keeps_put_once
  states_tab.keeps_update_where bodies_tab.keeps_delete_where projections_tab.keeps_delete_where artifact_refs_tab.keeps_delete_where
  artifact_provenance_tab.keeps_insert artifact_provenance_tab.keeps_insert_ignore artifact_provenance_tab.keeps_update artifact_provenance_tab.keeps_put_once

section \<open>History\<close>

text \<open>
  The tables that nothing may rewrite: policies, draft events, headers, provenance, relations,
  feedback, artifact provenance, applied retirement runs and everything that records them.  Bodies,
  projections and live artifact references are not among them, because forgetting an episode removes
  them.
\<close>

definition db_grows :: "Database \<Rightarrow> Database \<Rightarrow> bool" where
  "db_grows db db' \<longleftrightarrow>
     fmsubset (db_policies db) (db_policies db') \<and> fmsubset (db_events db) (db_events db') \<and>
     fmsubset (db_headers db) (db_headers db') \<and> fmsubset (db_provenance db) (db_provenance db') \<and>
     fmsubset (db_provenance_sources db) (db_provenance_sources db') \<and>
     fmsubset (db_relations db) (db_relations db') \<and> fmsubset (db_feedback db) (db_feedback db') \<and>
     fmsubset (db_artifact_provenance db) (db_artifact_provenance db') \<and>
     (\<forall>run row. fmlookup (db_runs db) run = Some row \<longrightarrow> ru_status row = ''applied'' \<longrightarrow> fmlookup (db_runs db') run = Some row) \<and>
     fmsubset (db_members db) (db_members db') \<and> fmsubset (db_decisions db) (db_decisions db') \<and>
     fmsubset (db_post_states db) (db_post_states db') \<and> fmsubset (db_receipts db) (db_receipts db') \<and>
     fmsubset (db_artifact_pins db) (db_artifact_pins db')"

lemma fmsubset_refl [simp]: "fmsubset m m"
  by (simp add: fmsubset_alt_def fmpred_iff)

lemma fmsubset_trans: "fmsubset a b \<Longrightarrow> fmsubset b c \<Longrightarrow> fmsubset a c"
  by (auto simp: fmsubset_alt_def fmpred_iff)

lemma fmsubsetD: "fmsubset m n \<Longrightarrow> fmlookup m k = Some v \<Longrightarrow> fmlookup n k = Some v"
  by (auto simp: fmsubset_alt_def fmpred_iff)

interpretation grows: db_preorder db_grows
  by unfold_locales (auto simp: db_grows_def intro: fmsubset_trans)

locale immutable_table = table T for T :: "('k, 'v) schema" +
  assumes grow: "fmsubset (tb_rows T db) m \<Longrightarrow> db_grows db (tb_store T m db)"
begin

lemma moves_insert: "moves db_grows (execute (insert_row T k v))"
  by (rule grows.moves_execute) (auto simp: insert_row_Inr fmsubset_alt_def fmpred_iff dest: fmdomI intro!: grow)

lemma moves_insert_ignore: "moves db_grows (execute (insert_ignore T k v))"
  by (rule grows.moves_execute)
    (auto simp: insert_ignore_Inr fmsubset_alt_def fmpred_iff dest: fmdomI intro!: grow split: if_splits)

lemma moves_put_once: "moves db_grows (put_once T k v content what)"
  unfolding put_once_def by (intro grows.moves_and_then grows.moves_pure moves_insert_ignore)

end

locale mutable_table = table T for T :: "('k, 'v) schema" +
  assumes store_grows: "db_grows db (tb_store T m db)"
begin

lemma moves_statements:
  "moves db_grows (execute (insert_row T k v))" "moves db_grows (execute (insert_ignore T k v))"
  "moves db_grows (execute (update_row T k p f))" "moves db_grows (execute (update_where T q f))"
  "moves db_grows (execute (delete_where T q))"
  by (rule grows.moves_execute, auto simp: insert_row_Inr insert_ignore_Inr update_row_Inr update_where_Inr delete_where_Inr
      store_grows split: if_splits)+

lemma moves_put_once: "moves db_grows (put_once T k v content what)"
  unfolding put_once_def by (intro grows.moves_and_then grows.moves_pure moves_statements)

end

interpretation policies_tab: immutable_table "policies_table js" for js
  by unfold_locales (simp_all add: db_grows_def)

interpretation drafts_tab: mutable_table "drafts_table"
  by unfold_locales (simp_all add: db_grows_def)

interpretation events_tab: immutable_table "events_table"
  by unfold_locales (simp_all add: db_grows_def)

interpretation headers_tab: immutable_table "headers_table"
  by unfold_locales (simp_all add: db_grows_def)

interpretation bodies_tab: mutable_table "bodies_table js" for js
  by unfold_locales (simp_all add: db_grows_def)

interpretation states_tab: mutable_table "states_table"
  by unfold_locales (simp_all add: db_grows_def)

interpretation provenance_tab: immutable_table "provenance_table js" for js
  by unfold_locales (simp_all add: db_grows_def)

interpretation provenance_sources_tab: immutable_table "provenance_sources_table"
  by unfold_locales (simp_all add: db_grows_def)

interpretation relations_tab: immutable_table "relations_table"
  by unfold_locales (simp_all add: db_grows_def)

interpretation projections_tab: mutable_table "projections_table js" for js
  by unfold_locales (simp_all add: db_grows_def)

interpretation feedback_tab: immutable_table "feedback_table"
  by unfold_locales (simp_all add: db_grows_def)

interpretation artifacts_tab: mutable_table "artifacts_table"
  by unfold_locales (simp_all add: db_grows_def)

interpretation artifact_refs_tab: mutable_table "artifact_refs_table"
  by unfold_locales (simp_all add: db_grows_def)

interpretation artifact_provenance_tab: immutable_table "artifact_provenance_table"
  by unfold_locales (simp_all add: db_grows_def)

interpretation runs_tab: immutable_table "runs_table"
  by unfold_locales (auto simp: db_grows_def dest: fmsubsetD)

interpretation members_tab: immutable_table "members_table"
  by unfold_locales (auto simp: db_grows_def dest: fmsubsetD)

interpretation decisions_tab: immutable_table "decisions_table"
  by unfold_locales (auto simp: db_grows_def dest: fmsubsetD)

interpretation post_states_tab: immutable_table "post_states_table js" for js
  by unfold_locales (auto simp: db_grows_def dest: fmsubsetD)

interpretation receipts_tab: immutable_table "receipts_table js" for js
  by unfold_locales (auto simp: db_grows_def dest: fmsubsetD)

interpretation pins_tab: immutable_table "pins_table"
  by unfold_locales (auto simp: db_grows_def dest: fmsubsetD)

lemmas grows_moves =
  policies_tab.moves_insert policies_tab.moves_insert_ignore policies_tab.moves_put_once
  drafts_tab.moves_statements drafts_tab.moves_put_once
  events_tab.moves_insert events_tab.moves_insert_ignore events_tab.moves_put_once
  headers_tab.moves_insert headers_tab.moves_insert_ignore headers_tab.moves_put_once
  bodies_tab.moves_statements bodies_tab.moves_put_once
  states_tab.moves_statements states_tab.moves_put_once
  provenance_tab.moves_insert provenance_tab.moves_insert_ignore provenance_tab.moves_put_once
  provenance_sources_tab.moves_insert provenance_sources_tab.moves_insert_ignore provenance_sources_tab.moves_put_once
  relations_tab.moves_insert relations_tab.moves_insert_ignore relations_tab.moves_put_once
  projections_tab.moves_statements projections_tab.moves_put_once
  feedback_tab.moves_insert feedback_tab.moves_insert_ignore feedback_tab.moves_put_once
  artifacts_tab.moves_statements artifacts_tab.moves_put_once
  artifact_refs_tab.moves_statements artifact_refs_tab.moves_put_once
  artifact_provenance_tab.moves_insert artifact_provenance_tab.moves_insert_ignore artifact_provenance_tab.moves_put_once
  runs_tab.moves_insert runs_tab.moves_insert_ignore runs_tab.moves_put_once
  members_tab.moves_insert members_tab.moves_insert_ignore members_tab.moves_put_once
  decisions_tab.moves_insert decisions_tab.moves_insert_ignore decisions_tab.moves_put_once
  post_states_tab.moves_insert post_states_tab.moves_insert_ignore post_states_tab.moves_put_once
  receipts_tab.moves_insert receipts_tab.moves_insert_ignore receipts_tab.moves_put_once
  pins_tab.moves_insert pins_tab.moves_insert_ignore pins_tab.moves_put_once

end
