(* ===== verification/Feedback.thy ===== *)
theory Feedback
  imports Integrity
begin

text \<open>
  Feedback and retrieval counters of \<open>repository.rs\<close>: \<open>add_feedback\<close> and \<open>record_retrievals\<close>.  The
  counters of an atom are redundant with the feedback table; that they agree with it is the
  invariant \<open>counters_ok\<close>.
\<close>

section \<open>Operations\<close>

definition count_feedback :: "bool \<Rightarrow> state_row \<Rightarrow> state_row" where
  "count_feedback positive row =
     (if positive then row\<lparr>sr_feedback_positive := sr_feedback_positive row + 1\<rparr>
      else row\<lparr>sr_feedback_negative := sr_feedback_negative row + 1\<rparr>)"

definition add_feedback ::
  "Digest32 \<Rightarrow> Digest32 \<Rightarrow> u64 \<Rightarrow> bool \<Rightarrow> string \<Rightarrow> Digest32 \<Rightarrow> (SqliteRepository, unit) action" where
  "add_feedback feedback_id atom as_of_us positive source evidence_digest =
     (if source = [] then pure (Inl (InvalidInput ''feedback source must not be empty''))
      else transaction
        (and_then (pure (sqlite_integer as_of_us ''as_of_us'')) (\<lambda>as_of.
         let row = \<lparr>fr_atom_id = atom, fr_as_of_us = as_of, fr_outcome = (if positive then 1 else - 1),
                    fr_source = source, fr_evidence_digest = evidence_digest\<rparr> in
         and_then (execute (insert_ignore feedback_table feedback_id row)) (\<lambda>inserted.
         if inserted = 0
         then and_then (select (query_row feedback_table feedback_id)) (\<lambda>persisted.
              pure (if persisted \<noteq> row then Inl (ImmutableConflict (''feedback '' @ to_hex feedback_id)) else Inr ()))
         else and_then (execute (update_row states_table atom (\<lambda>_. True) (count_feedback positive))) (\<lambda>changed.
              pure (if changed \<noteq> 1 then Inl (Integrity ''feedback target atom state is missing'') else Inr ()))))))"

definition count_retrieval :: "Digest32 \<Rightarrow> (SqliteRepository, unit) action" where
  "count_retrieval atom =
     and_then (execute (update_row states_table atom (\<lambda>row. sr_content_status row = ''present'')
         (\<lambda>row. row\<lparr>sr_retrieval_count := sr_retrieval_count row + 1\<rparr>))) (\<lambda>changed.
     pure (if changed \<noteq> 1 then Inl (Integrity (''retrieval target '' @ to_hex atom @ '' is unavailable'')) else Inr ()))"

definition record_retrievals :: "Digest32 list \<Rightarrow> (SqliteRepository, unit) action" where
  "record_retrievals atoms =
     (if \<not> distinct atoms then pure (Inl (InvalidInput ''retrieval atom IDs must be unique''))
      else transaction (each count_retrieval atoms))"

section \<open>Counters and rows agree\<close>

definition feedback_of :: "Database \<Rightarrow> Digest32 \<Rightarrow> int \<Rightarrow> Digest32 set" where
  "feedback_of db atom outcome =
     {f. \<exists>row. fmlookup (db_feedback db) f = Some row \<and> fr_atom_id row = atom \<and> fr_outcome row = outcome}"

definition counters_ok :: "Database \<Rightarrow> bool" where
  "counters_ok db \<longleftrightarrow>
     (\<forall>atom. has_header db atom \<longleftrightarrow> atom |\<in>| fmdom (db_states db)) \<and>
     (\<forall>atom row. fmlookup (db_states db) atom = Some row \<longrightarrow>
        sr_feedback_positive row = int (card (feedback_of db atom 1)) \<and>
        sr_feedback_negative row = int (card (feedback_of db atom (- 1))))"

lemma finite_feedback_of [simp]: "finite (feedback_of db atom outcome)"
  by (rule finite_subset [of _ "fset (fmdom (db_feedback db))"]) (auto simp: feedback_of_def intro: fmdomI)

lemma feedback_of_insert:
  assumes "f |\<notin>| fmdom (db_feedback db)" "db_feedback db' = fmupd f row (db_feedback db)"
  shows "feedback_of db' atom outcome = (if fr_atom_id row = atom \<and> fr_outcome row = outcome
    then insert f (feedback_of db atom outcome) else feedback_of db atom outcome)"
  using assms by (auto simp: feedback_of_def fmlookup_dom_iff)

lemma feedback_of_fresh: "f |\<notin>| fmdom (db_feedback db) \<Longrightarrow> f \<notin> feedback_of db atom outcome"
  by (auto simp: feedback_of_def intro: fmdomI)

text \<open>The row that a call writes, and the tables after it was counted.\<close>

definition feedback_entry :: "Digest32 \<Rightarrow> u64 \<Rightarrow> bool \<Rightarrow> string \<Rightarrow> Digest32 \<Rightarrow> feedback_row" where
  "feedback_entry atom as_of_us positive source evidence =
     \<lparr>fr_atom_id = atom, fr_as_of_us = int (unat as_of_us), fr_outcome = (if positive then 1 else - 1),
      fr_source = source, fr_evidence_digest = evidence\<rparr>"

definition counted :: "Digest32 \<Rightarrow> feedback_row \<Rightarrow> Database \<Rightarrow> Database" where
  "counted f row db = db\<lparr>
     db_feedback := fmupd f row (db_feedback db),
     db_states := fmupd (fr_atom_id row) (count_feedback (fr_outcome row = 1) (the (fmlookup (db_states db) (fr_atom_id row)))) (db_states db)\<rparr>"

lemma counted_ok:
  assumes ok: "counters_ok db" and row: "has_header db (fr_atom_id row)" "fr_outcome row = 1 \<or> fr_outcome row = - 1"
    and fresh: "f |\<notin>| fmdom (db_feedback db)"
  shows "counters_ok (counted f row db)"
proof -
  obtain st where st: "fmlookup (db_states db) (fr_atom_id row) = Some st"
    using ok row(1) unfolding counters_ok_def by (meson fmlookup_dom_iff)
  have fb: "feedback_of (counted f row db) atom out = (if fr_atom_id row = atom \<and> fr_outcome row = out
    then insert f (feedback_of db atom out) else feedback_of db atom out)" for atom out
    by (rule feedback_of_insert [OF fresh]) (simp add: counted_def)
  have card: "card (insert f (feedback_of db atom out)) = Suc (card (feedback_of db atom out))" for atom out
    using feedback_of_fresh [OF fresh] by simp
  have states: "fmlookup (db_states (counted f row db)) atom =
      (if atom = fr_atom_id row then Some (count_feedback (fr_outcome row = 1) st) else fmlookup (db_states db) atom)" for atom
    by (simp add: counted_def st)
  have dom: "fmdom (db_states (counted f row db)) = fmdom (db_states db)"
    using st by (auto simp: counted_def dest: fmdomI)
  have headers: "has_header (counted f row db) = has_header db"
    by (rule ext) (simp add: has_header_def counted_def)
  show ?thesis
    unfolding counters_ok_def headers dom
  proof (intro conjI allI impI)
    show "has_header db atom \<longleftrightarrow> atom |\<in>| fmdom (db_states db)" for atom
      using ok unfolding counters_ok_def by blast
    fix atom s assume s: "fmlookup (db_states (counted f row db)) atom = Some s"
    have old: "fmlookup (db_states db) atom = Some t \<Longrightarrow>
        sr_feedback_positive t = int (card (feedback_of db atom 1)) \<and>
        sr_feedback_negative t = int (card (feedback_of db atom (- 1)))" for t
      using ok unfolding counters_ok_def by blast
    show "sr_feedback_positive s = int (card (feedback_of (counted f row db) atom 1))"
      "sr_feedback_negative s = int (card (feedback_of (counted f row db) atom (- 1)))"
      using s old st row(2) by (auto simp: states fb card count_feedback_def split: if_splits)
  qed
qed

section \<open>Feedback on every branch\<close>

definition counter_full :: "Database \<Rightarrow> Digest32 \<Rightarrow> bool \<Rightarrow> bool" where
  "counter_full db atom positive \<longleftrightarrow>
     (case fmlookup (db_states db) atom of None \<Rightarrow> False
      | Some row \<Rightarrow> \<not> int_ok ((if positive then sr_feedback_positive row else sr_feedback_negative row) + 1))"

lemma count_feedback_check:
  assumes "tb_check states_table atom row"
  shows "tb_check states_table atom (count_feedback positive row) \<longleftrightarrow>
    int_ok ((if positive then sr_feedback_positive row else sr_feedback_negative row) + 1)"
  using assms by (auto simp: count_feedback_def)

lemma count_feedback_refs: "tb_refs states_table db atom (count_feedback positive row) \<longleftrightarrow> tb_refs states_table db atom row"
  by (simp add: count_feedback_def)

lemma add_feedback_eq:
  assumes db_def: "db = re_database r" and row_def: "row = feedback_entry atom as_of_us positive source evidence"
    and counters: "counters_ok db" and states: "table_ok states_table db"
  shows "add_feedback f atom as_of_us positive source evidence r =
    (if source = [] then (Inl (InvalidInput ''feedback source must not be empty''), r)
     else if \<not> unat as_of_us < 2 ^ 63 then (Inl (IntegerOutOfRange ''as_of_us'' as_of_us), r)
     else case fmlookup (db_feedback db) f of
       Some old \<Rightarrow> (if old = row then Inr () else Inl (ImmutableConflict (''feedback '' @ to_hex f)), r)
     | None \<Rightarrow>
         if \<not> has_header db atom then (violates ''foreign key'', r)
         else if counter_full db atom positive then (violates ''atom_state'', r)
         else (Inr (), r\<lparr>re_database := counted f row db\<rparr>))"
proof (cases "source = [] \<or> \<not> unat as_of_us < 2 ^ 63")
  case True
  then show ?thesis by (auto simp: add_feedback_def sqlite_integer_def transaction_def)
next
  case False
  have int: "sqlite_integer as_of_us ''as_of_us'' = Inr (int (unat as_of_us))"
    using False by (simp add: sqlite_integer_def del: of_nat_unat)
  have entry: "\<lparr>fr_atom_id = atom, fr_as_of_us = int (unat as_of_us), fr_outcome = (if positive then 1 else - 1),
      fr_source = source, fr_evidence_digest = evidence\<rparr> = row"
    by (simp add: row_def feedback_entry_def)
  have check: "tb_check feedback_table f row"
    using False int_ok_int(1) [of "unat as_of_us"] by (simp add: row_def feedback_entry_def del: of_nat_unat)
  have atom: "fr_atom_id row = atom" "(fr_outcome row = 1) = positive"
    by (simp_all add: row_def feedback_entry_def)
  have run: "add_feedback f atom as_of_us positive source evidence r = transaction
     (and_then (execute (insert_ignore feedback_table f row)) (\<lambda>inserted.
         if inserted = 0
         then and_then (select (query_row feedback_table f)) (\<lambda>persisted.
              pure (if persisted \<noteq> row then Inl (ImmutableConflict (''feedback '' @ to_hex f)) else Inr ()))
         else and_then (execute (update_row states_table atom (\<lambda>_. True) (count_feedback positive))) (\<lambda>changed.
              pure (if changed \<noteq> 1 then Inl (Integrity ''feedback target atom state is missing'') else Inr ())))) r"
    using False unfolding add_feedback_def int and_then_pure Let_def entry by (simp only: if_False de_Morgan_disj)
  show ?thesis
  proof (cases "fmlookup (db_feedback db) f")
    case (Some old)
    then have "insert_ignore feedback_table f row db = Inr (db, 0)"
      using check by (simp add: insert_ignore_def fmdomI)
    then show ?thesis
      using False Some unfolding run
      by (simp add: transaction_def and_then_def execute_def query_row_def db_def [symmetric])
  next
    case None
    then have fresh: "f |\<notin>| fmdom (db_feedback db)" by (simp add: fmdom_notI)
    show ?thesis
    proof (cases "has_header db atom")
      case False
      then have "insert_ignore feedback_table f row db = violates ''foreign key''"
        using check fresh atom by (simp add: insert_ignore_def insert_row_def)
      then show ?thesis
        using \<open>\<not> (source = [] \<or> \<not> unat as_of_us < 2 ^ 63)\<close> None False unfolding run
        by (simp add: transaction_def and_then_def execute_def violates_def db_def [symmetric])
    next
      case True
      define db1 where "db1 = db\<lparr>db_feedback := fmupd f row (db_feedback db)\<rparr>"
      have ins: "insert_ignore feedback_table f row db = Inr (db1, 1)"
        using check fresh atom True by (simp add: insert_ignore_def insert_row_def db1_def)
      obtain st where st: "fmlookup (db_states db) atom = Some st"
        using counters True unfolding counters_ok_def by (meson fmlookup_dom_iff)
      have st_ok: "tb_check states_table atom st" "tb_refs states_table db atom st"
        using states st by (auto simp: table_ok_def simp del: table_checks)
      have refs1: "tb_refs states_table db1 atom st"
        using st_ok(2) by (simp add: db1_def has_header_def optional_def split: option.splits)
      have upd: "update_row states_table atom (\<lambda>_. True) (count_feedback positive) db1 =
          (if counter_full db atom positive then violates ''atom_state'' else Inr (counted f row db, 1))"
        using refs1 st atom unfolding update_row_def
        by (simp add: count_feedback_check [OF st_ok(1)] count_feedback_refs counter_full_def counted_def db1_def
            del: table_checks) (simp add: states_table_def)
      show ?thesis
        using \<open>\<not> (source = [] \<or> \<not> unat as_of_us < 2 ^ 63)\<close> None True ins upd unfolding run
        by (simp add: transaction_def and_then_def execute_def violates_def db_def [symmetric])
    qed
  qed
qed

lemma counted_states_ok:
  assumes "table_ok states_table db" "\<not> counter_full db (fr_atom_id row) (fr_outcome row = 1)"
    and "fr_atom_id row |\<in>| fmdom (db_states db)"
  shows "table_ok states_table (counted f row db)"
proof -
  obtain st where st: "fmlookup (db_states db) (fr_atom_id row) = Some st" using assms(3) by (auto simp: fmlookup_dom_iff)
  then have ok: "tb_check states_table (fr_atom_id row) st" "tb_refs states_table db (fr_atom_id row) st"
    using assms(1) by (auto simp: table_ok_def simp del: table_checks)
  have "tb_check states_table (fr_atom_id row) (count_feedback (fr_outcome row = 1) st)"
    using assms(2) st by (simp add: count_feedback_check [OF ok(1)] counter_full_def del: table_checks)
  moreover have "tb_refs states_table db (fr_atom_id row) (count_feedback (fr_outcome row = 1) st)"
    using ok(2) by (simp add: count_feedback_refs del: table_checks)
  ultimately have "table_ok states_table (tb_store states_table (fmupd (fr_atom_id row)
      (count_feedback (fr_outcome row = 1) st) (tb_rows states_table db)) db)"
    by (rule states_tab.table_ok_upd [OF assms(1)])
  from states_tab.table_ok_frame [OF this, of "counted f row db"] show ?thesis
    by (simp add: counted_def st parents_grow_def)
qed

text \<open>
  C12: feedback counts once.  On a database whose counters agree with the feedback table, a call is
  rejected for an empty source, a time that SQLite cannot hold, an unknown atom, a full counter or
  an identifier that is taken by a different row, and then changes nothing; a repetition of a row
  that is there succeeds and changes nothing; any other call adds its row and increments the one
  counter of the one atom.  The counters agree with the table afterwards, and repeating a
  successful call succeeds without a further effect.
\<close>

theorem feedback_counts_once:
  assumes counters: "counters_ok (re_database r)" and states: "table_ok states_table (re_database r)"
  shows "(case add_feedback f atom as_of_us positive source evidence r of
     (Inl _, r') \<Rightarrow> r' = r \<and>
       (source = [] \<or> 2 ^ 63 \<le> unat as_of_us \<or>
        (case fmlookup (db_feedback (re_database r)) f of
           Some old \<Rightarrow> old \<noteq> feedback_entry atom as_of_us positive source evidence
         | None \<Rightarrow> \<not> has_header (re_database r) atom \<or> counter_full (re_database r) atom positive))
   | (Inr _, r') \<Rightarrow>
       r' = (if f |\<in>| fmdom (db_feedback (re_database r)) then r
             else r\<lparr>re_database := counted f (feedback_entry atom as_of_us positive source evidence) (re_database r)\<rparr>) \<and>
       fmlookup (db_feedback (re_database r')) f = Some (feedback_entry atom as_of_us positive source evidence) \<and>
       counters_ok (re_database r') \<and>
       add_feedback f atom as_of_us positive source evidence r' = (Inr (), r'))"
proof -
  define db where "db = re_database r"
  define row where "row = feedback_entry atom as_of_us positive source evidence"
  have atom: "fr_atom_id row = atom" "(fr_outcome row = 1) = positive" "fr_outcome row = 1 \<or> fr_outcome row = - 1"
    by (simp_all add: row_def feedback_entry_def)
  note eq = add_feedback_eq [OF db_def row_def counters [folded db_def] states [folded db_def], of f]
  show ?thesis
  proof (cases "source = [] \<or> \<not> unat as_of_us < 2 ^ 63 \<or> f |\<in>| fmdom (db_feedback db)")
    case True
    show ?thesis
      using True counters unfolding eq db_def [symmetric] row_def [symmetric]
      by (auto simp: fmlookup_dom_iff eq not_less db_def [symmetric] split: option.splits dest: fmdomI)
  next
    case new: False
    then have fresh: "fmlookup (db_feedback db) f = None" by (simp add: fmdom_notD)
    show ?thesis
    proof (cases "has_header db atom \<and> \<not> counter_full db atom positive")
      case True
      have run: "add_feedback f atom as_of_us positive source evidence r = (Inr (), r\<lparr>re_database := counted f row db\<rparr>)"
        unfolding eq using new fresh True by simp
      have cnt: "counters_ok (counted f row db)"
        by (rule counted_ok) (use True counters new atom in \<open>simp_all add: db_def\<close>)
      have sts: "table_ok states_table (counted f row db)"
        by (rule counted_states_ok) (use True counters states atom in \<open>simp_all add: db_def counters_ok_def\<close>)
      have "add_feedback f atom as_of_us positive source evidence (r\<lparr>re_database := counted f row db\<rparr>) =
          (Inr (), r\<lparr>re_database := counted f row db\<rparr>)"
        using add_feedback_eq [of "counted f row db" "r\<lparr>re_database := counted f row db\<rparr>" row atom as_of_us positive source evidence f]
          new cnt sts row_def by (simp add: counted_def)
      then show ?thesis unfolding run using new cnt by (simp add: db_def row_def counted_def)
    next
      case False
      then show ?thesis unfolding eq using new fresh by (simp add: db_def violates_def)
    qed
  qed
qed

section \<open>Retrieval counts\<close>

definition retrievable :: "Database \<Rightarrow> Digest32 \<Rightarrow> bool" where
  "retrievable db atom \<longleftrightarrow> (\<exists>row. fmlookup (db_states db) atom = Some row \<and> sr_content_status row = ''present'' \<and>
     int_ok (sr_retrieval_count row + 1))"

definition retrieved :: "Digest32 list \<Rightarrow> Database \<Rightarrow> Database" where
  "retrieved atoms db = db\<lparr>db_states := fmmap_keys (\<lambda>a row. if a \<in> set atoms
     then row\<lparr>sr_retrieval_count := sr_retrieval_count row + 1\<rparr> else row) (db_states db)\<rparr>"

lemma count_retrieval_Inr:
  assumes states: "table_ok states_table (re_database r)"
  shows "count_retrieval a r = (Inr u, r') \<longleftrightarrow>
    retrievable (re_database r) a \<and> r' = r\<lparr>re_database := retrieved [a] (re_database r)\<rparr>"
proof (cases "fmlookup (db_states (re_database r)) a")
  case None
  then show ?thesis
    by (auto simp: count_retrieval_def and_then_Inr execute_Inr states_tab.update_row_Inr retrievable_def)
next
  case (Some row)
  then have ok: "tb_check states_table a row" "tb_refs states_table (re_database r) a row"
    using states by (auto simp: table_ok_def simp del: table_checks)
  have one: "fmupd a (row\<lparr>sr_retrieval_count := sr_retrieval_count row + 1\<rparr>) (db_states (re_database r)) =
      fmmap_keys (\<lambda>b row. if b = a then row\<lparr>sr_retrieval_count := sr_retrieval_count row + 1\<rparr> else row) (db_states (re_database r))"
    by (rule fmap_ext) (auto simp: Some option.map_ident)
  show ?thesis
    using ok Some one
    by (auto simp: count_retrieval_def and_then_Inr execute_Inr states_tab.update_row_Inr retrievable_def retrieved_def)
qed

lemma retrieved_Nil [simp]: "retrieved [] db = db"
proof -
  have "fmmap_keys (\<lambda>a row. row) (db_states db) = db_states db" by (rule fmap_ext) (simp add: option.map_ident)
  then show ?thesis by (simp add: retrieved_def)
qed

lemma retrieved_states_ok:
  assumes "table_ok states_table db" "\<And>a. a \<in> set atoms \<Longrightarrow> retrievable db a"
  shows "table_ok states_table (retrieved atoms db)"
  unfolding table_ok_def
proof (intro allI impI)
  fix a v assume v: "fmlookup (tb_rows states_table (retrieved atoms db)) a = Some v"
  then obtain row where row: "fmlookup (db_states db) a = Some row" by (auto simp: retrieved_def)
  with assms(1) have "tb_check states_table a row" "tb_refs states_table db a row"
    by (auto simp: table_ok_def simp del: table_checks)
  then show "tb_check states_table a v \<and> tb_refs states_table (retrieved atoms db) a v"
    using v row assms(2) [of a]
    by (auto simp: retrieved_def retrievable_def has_header_def optional_def split: if_splits option.splits)
qed

lemma retrieved_append:
  assumes "a \<notin> set atoms"
  shows "retrieved atoms (retrieved [a] db) = retrieved (a # atoms) db"
    "b \<in> set atoms \<Longrightarrow> retrievable (retrieved [a] db) b \<longleftrightarrow> retrievable db b"
proof -
  have "fmmap_keys (\<lambda>x row. if x \<in> set atoms then row\<lparr>sr_retrieval_count := sr_retrieval_count row + 1\<rparr> else row)
       (fmmap_keys (\<lambda>x row. if x = a then row\<lparr>sr_retrieval_count := sr_retrieval_count row + 1\<rparr> else row) (db_states db)) =
     fmmap_keys (\<lambda>x row. if x = a \<or> x \<in> set atoms then row\<lparr>sr_retrieval_count := sr_retrieval_count row + 1\<rparr> else row) (db_states db)"
    by (rule fmap_ext) (use assms in \<open>auto split: option.splits simp: option.map_comp comp_def intro!: map_option_cong\<close>)
  then show "retrieved atoms (retrieved [a] db) = retrieved (a # atoms) db" by (simp add: retrieved_def)
  show "b \<in> set atoms \<Longrightarrow> retrievable (retrieved [a] db) b \<longleftrightarrow> retrievable db b"
    using assms by (auto simp: retrievable_def retrieved_def)
qed

lemma each_count_retrieval_Inr:
  "table_ok states_table (re_database r) \<Longrightarrow> distinct atoms \<Longrightarrow>
   each count_retrieval atoms r = (Inr u, r') \<longleftrightarrow>
     (\<forall>a \<in> set atoms. retrievable (re_database r) a) \<and> r' = r\<lparr>re_database := retrieved atoms (re_database r)\<rparr>"
proof (induction atoms arbitrary: r)
  case Nil
  then show ?case by auto
next
  case (Cons a atoms)
  have ok: "table_ok states_table (retrieved [a] (re_database r))" if "retrievable (re_database r) a"
    by (rule retrieved_states_ok) (use Cons.prems that in auto)
  show ?case
    using Cons.prems Cons.IH [of "r\<lparr>re_database := retrieved [a] (re_database r)\<rparr>"] ok
      retrieved_append [where a = a and atoms = atoms and db = "re_database r"]
    by (auto simp: and_then_Inr count_retrieval_Inr)
qed

lemma tables_only_count_retrieval: "tables_only (count_retrieval a)"
  unfolding count_retrieval_def by (intro tables_only_and_then tables_only_basic)

lemma record_retrievals_Inl: "record_retrievals atoms r = (Inl e, r') \<Longrightarrow> r' = r"
  by (auto simp: record_retrievals_def split: if_splits
      dest!: transaction_failed intro!: tables_only_each tables_only_count_retrieval)

lemma record_retrievals_Inr:
  "table_ok states_table (re_database r) \<Longrightarrow> record_retrievals atoms r = (Inr u, r') \<longleftrightarrow>
    distinct atoms \<and> (\<forall>a \<in> set atoms. retrievable (re_database r) a) \<and>
    r' = r\<lparr>re_database := retrieved atoms (re_database r)\<rparr>"
  by (auto simp: record_retrievals_def transaction_Inr each_count_retrieval_Inr)

lemma retrieved_counters_ok: "counters_ok db \<Longrightarrow> counters_ok (retrieved atoms db)"
proof -
  have "feedback_of (retrieved atoms db) = feedback_of db" "has_header (retrieved atoms db) = has_header db"
    by (auto simp: feedback_of_def has_header_def retrieved_def fun_eq_iff)
  moreover have "fmdom (db_states (retrieved atoms db)) = fmdom (db_states db)"
    by (simp add: retrieved_def)
  ultimately show "counters_ok db \<Longrightarrow> counters_ok (retrieved atoms db)"
    by (auto simp: counters_ok_def retrieved_def split: if_splits)
qed

section \<open>An instance\<close>

definition sample_state_row :: state_row where
  "sample_state_row = \<lparr>sr_retention_tier = ''stm'', sr_content_status = ''present'', sr_expires_at_us = None,
     sr_superseded_by = None, sr_feedback_positive = 0, sr_feedback_negative = 0, sr_retrieval_count = 0,
     sr_retirement_run_id = None\<rparr>"

definition sample_atom_database :: Database where
  "sample_atom_database = empty_database\<lparr>
     db_headers := fmupd Digest32_ZERO \<lparr>hr_atom_kind = ''episode'', hr_memory_space_id = ''m'', hr_repository_id = None,
       hr_task_id = None, hr_agent_id = None, hr_session_id = None, hr_recorded_at_us = 0, hr_body_digest = Digest32_ZERO,
       hr_body_bytes = 0, hr_retention_permission = ''transient_only'', hr_provenance_digest = Digest32_ZERO\<rparr> fmempty,
     db_states := fmupd Digest32_ZERO sample_state_row fmempty\<rparr>"

lemma sample_counters_ok: "counters_ok sample_atom_database" "table_ok states_table sample_atom_database"
  by (auto simp: counters_ok_def sample_atom_database_def empty_database_def feedback_of_def has_header_def
      table_ok_def sample_state_row_def int_ok_def split: if_splits)

text \<open>A first positive feedback is counted, its repetition is not.\<close>

theorem feedback_counts_once_witness:
  "\<exists>r'. add_feedback Digest32_ZERO Digest32_ZERO 7 True ''s'' Digest32_ZERO
         \<lparr>re_database = sample_atom_database, re_artifacts = empty_store\<rparr> = (Inr (), r') \<and>
       add_feedback Digest32_ZERO Digest32_ZERO 7 True ''s'' Digest32_ZERO r' = (Inr (), r') \<and>
       fmlookup (db_states (re_database r')) Digest32_ZERO = Some (sample_state_row\<lparr>sr_feedback_positive := 1\<rparr>)"
proof -
  let ?r = "\<lparr>re_database = sample_atom_database, re_artifacts = empty_store\<rparr>"
  let ?row = "feedback_entry Digest32_ZERO 7 True ''s'' Digest32_ZERO"
  have none: "fmlookup (db_feedback sample_atom_database) Digest32_ZERO = None"
    "Digest32_ZERO |\<notin>| fmdom (db_feedback sample_atom_database)"
    by (simp_all add: sample_atom_database_def empty_database_def)
  have hdr: "has_header sample_atom_database Digest32_ZERO" "\<not> counter_full sample_atom_database Digest32_ZERO True"
    by (simp_all add: sample_atom_database_def has_header_def counter_full_def sample_state_row_def int_ok_def)
  have post: "fmlookup (db_states (counted Digest32_ZERO ?row sample_atom_database)) Digest32_ZERO =
      Some (sample_state_row\<lparr>sr_feedback_positive := 1\<rparr>)"
    by (simp add: counted_def sample_atom_database_def feedback_entry_def count_feedback_def sample_state_row_def)
  show ?thesis
    using feedback_counts_once [where r = ?r and f = Digest32_ZERO and atom = Digest32_ZERO and as_of_us = 7 and
      positive = True and source = "''s''" and evidence = Digest32_ZERO]
      sample_counters_ok none hdr post
    by (cases "add_feedback Digest32_ZERO Digest32_ZERO 7 True ''s'' Digest32_ZERO ?r") (auto split: sum.splits)
qed

end
