(* ===== verification/Atoms.thy ===== *)
theory Atoms
  imports Feedback
begin

text \<open>
  Immutable atoms of \<open>repository.rs\<close>: the storage record of a body (\<open>AtomRecord::from_core\<close>), the
  admission rules for initial states, and the insertion of one atom inside a transaction
  (\<open>put_atom_transaction\<close> with its provenance and search projection), alone and in batches.
\<close>

section \<open>Text columns\<close>

definition atom_kind_text :: "MemoryPayloadV1 \<Rightarrow> string" where
  "atom_kind_text payload = (case payload of EpisodePayload _ \<Rightarrow> ''episode'' | SemanticPayload _ \<Rightarrow> ''semantic'')"

fun retention_permission_text :: "RetentionPermissionV1 \<Rightarrow> string" where
  "retention_permission_text TransientOnly = ''transient_only''"
| "retention_permission_text SemanticAllowed = ''semantic_allowed''"
| "retention_permission_text SemanticAndExactAllowed = ''semantic_and_exact_allowed''"

fun retention_tier_text :: "RetentionTierV1 \<Rightarrow> string" where
  "retention_tier_text ShortTerm = ''stm''"
| "retention_tier_text SemanticLongTerm = ''ltm_semantic''"
| "retention_tier_text EpisodicLongTerm = ''ltm_episodic''"
| "retention_tier_text DualLongTerm = ''ltm_dual''"
| "retention_tier_text HeaderOnly = ''forgotten''"

fun content_status_text :: "ContentStatusV1 \<Rightarrow> string" where
  "content_status_text Present = ''present''"
| "content_status_text Forgotten = ''forgotten''"
| "content_status_text Corrupt = ''quarantined''"

definition retention_tier_from_store :: "string \<Rightarrow> RetentionTierV1 store_result" where
  "retention_tier_from_store v =
     (if v = ''stm'' then Inr ShortTerm
      else if v = ''ltm_semantic'' then Inr SemanticLongTerm
      else if v = ''ltm_episodic'' then Inr EpisodicLongTerm
      else if v = ''ltm_dual'' then Inr DualLongTerm
      else if v = ''forgotten'' then Inr HeaderOnly
      else Inl (Integrity (''unknown persisted retention tier '' @ v)))"

definition retention_permission_from_store :: "string \<Rightarrow> RetentionPermissionV1 store_result" where
  "retention_permission_from_store v =
     (if v = ''transient_only'' then Inr TransientOnly
      else if v = ''semantic_allowed'' then Inr SemanticAllowed
      else if v = ''semantic_and_exact_allowed'' then Inr SemanticAndExactAllowed
      else Inl (Integrity (''unknown retention permission '' @ v)))"

definition content_status_from_store :: "string \<Rightarrow> ContentStatusV1 store_result" where
  "content_status_from_store v =
     (if v = ''present'' then Inr Present
      else if v = ''forgotten'' then Inr Forgotten
      else if v = ''quarantined'' then Inr Corrupt
      else Inl (Integrity (''unknown persisted content status '' @ v)))"

fun relation_kind_text :: "MemoryRelationKindV1 \<Rightarrow> string" where
  "relation_kind_text Continues = ''continues''"
| "relation_kind_text Supports = ''supports''"
| "relation_kind_text Contradicts = ''contradicts''"
| "relation_kind_text Supersedes = ''supersedes''"
| "relation_kind_text DerivedFrom = ''derived_from''"

lemma relation_kind_text_inj: "relation_kind_text a = relation_kind_text b \<longleftrightarrow> a = b"
  by (cases a; cases b) simp_all

section \<open>The storage record of an atom\<close>

record AtomRecord =
  am_atom_id :: Digest32
  am_atom_kind :: string
  am_memory_space_id :: string
  am_repository_id :: "string option"
  am_task_id :: "string option"
  am_agent_id :: "string option"
  am_session_id :: "string option"
  am_recorded_at_us :: u64
  am_body_digest :: Digest32
  am_canonical_body :: "byte list"
  am_json_projection :: string
  am_retention_permission :: string
  am_provenance_digest :: Digest32
  am_provenance_producer :: string
  am_provenance_policy_digest :: Digest32
  am_canonical_provenance :: "byte list"
  am_provenance_json_projection :: string
  am_provenance_source_digests :: "Digest32 list"
  am_retention_tier :: string
  am_content_status :: string
  am_expires_at_us :: "u64 option"
  am_searchable_text :: string
  am_topic_keys_json :: string
  am_entity_ids_json :: string
  am_outcome_class :: "string option"

text \<open>\<open>Vec::join\<close> with a line feed.\<close>

fun join_lines :: "string list \<Rightarrow> string" where
  "join_lines [] = []"
| "join_lines [x] = x"
| "join_lines (x # y # ys) = x @ [char_of (10 :: nat)] @ join_lines (y # ys)"

definition searchable_text :: "MemoryAtomBodyV1 \<Rightarrow> string" where
  "searchable_text body = join_lines
     ([bd_trigger body] @
      (case bd_goal body of None \<Rightarrow> [] | Some goal \<Rightarrow> [goal]) @
      bd_plan body @
      map ob_content (bd_observations body) @
      map ip_content (bd_interpretations body) @
      map be_proposition (bd_beliefs body) @
      map dr_decision (bd_decisions body) @
      map ac_action (bd_actions body) @
      (case bd_outcome body of None \<Rightarrow> [] | Some out \<Rightarrow> [oc_summary out]) @
      sorted_list_of_fset (bd_topic_keys body) @
      sorted_list_of_fset (bd_entity_ids body))"

definition from_core ::
  "(byte list \<Rightarrow> Digest32) \<Rightarrow> json_codec \<Rightarrow> MemoryAtomBodyV1 \<Rightarrow> AtomStateV1 \<Rightarrow> AtomRecord store_result" where
  "from_core sha js body state =
     bindr (core (validate_memory_atom_body sha body poc_v1)) (\<lambda>_.
     bindr (core (body_canonical_bytes body)) (\<lambda>canonical_body.
     bindr (core (atom_id sha body)) (\<lambda>atom.
     bindr (core (encode_value (v_provenance (bd_provenance body)))) (\<lambda>provenance_bytes.
     bindr (json (js_texts js (sorted_list_of_fset (bd_topic_keys body)))) (\<lambda>topic_keys_json.
     bindr (json (js_texts js (sorted_list_of_fset (bd_entity_ids body)))) (\<lambda>entity_ids_json.
     bindr (json (js_body js body)) (\<lambda>json_projection.
     bindr (json (js_provenance js (bd_provenance body))) (\<lambda>provenance_json.
     Inr \<lparr>am_atom_id = atom_digest atom,
          am_atom_kind = atom_kind_text (bd_payload body),
          am_memory_space_id = sc_memory_space_id (bd_scope body),
          am_repository_id = sc_repository_id (bd_scope body),
          am_task_id = sc_task_id (bd_scope body),
          am_agent_id = sc_agent_id (bd_scope body),
          am_session_id = Some (sc_session_id (bd_scope body)),
          am_recorded_at_us = iv_recorded_at_us (bd_interval body),
          am_body_digest = atom_digest atom,
          am_canonical_body = canonical_body,
          am_json_projection = json_projection,
          am_retention_permission = retention_permission_text (bd_retention_permission body),
          am_provenance_digest = hash_prefixed sha PROVENANCE_HASH_DOMAIN provenance_bytes,
          am_provenance_producer = pv_producer (bd_provenance body),
          am_provenance_policy_digest = pv_policy_digest (bd_provenance body),
          am_canonical_provenance = provenance_bytes,
          am_provenance_json_projection = provenance_json,
          am_provenance_source_digests = pv_source_event_digests (bd_provenance body),
          am_retention_tier = retention_tier_text (st_retention_tier state),
          am_content_status = content_status_text (st_content_status state),
          am_expires_at_us = st_expires_at_us state,
          am_searchable_text = searchable_text body,
          am_topic_keys_json = topic_keys_json,
          am_entity_ids_json = entity_ids_json,
          am_outcome_class = bd_outcome_class body\<rparr>))))))))"

section \<open>Admission of initial states\<close>

definition initial_expiry_ok :: "MemoryAtomBodyV1 \<Rightarrow> AtomStateV1 \<Rightarrow> unit store_result" where
  "initial_expiry_ok body state =
     (case (bd_payload body, st_retention_tier state) of
        (EpisodePayload _, ShortTerm) \<Rightarrow>
          bindr (ok_or (InvalidInput ''episode recorded time plus STM horizon overflows u64'')
            (checked_add (iv_recorded_at_us (bd_interval body)) (po_stm_horizon_us poc_v1))) (\<lambda>expected_expiry.
          if st_expires_at_us state \<noteq> Some expected_expiry
          then Inl (InvalidInput ''STM episode expiry must equal recorded_at_us plus the policy horizon'')
          else Inr ())
      | (EpisodePayload _, EpisodicLongTerm) \<Rightarrow>
          if st_expires_at_us state \<noteq> None
          then Inl (InvalidInput ''initial long-term atom state must not carry an STM expiry'') else Inr ()
      | (EpisodePayload _, DualLongTerm) \<Rightarrow>
          if st_expires_at_us state \<noteq> None
          then Inl (InvalidInput ''initial long-term atom state must not carry an STM expiry'') else Inr ()
      | (SemanticPayload _, SemanticLongTerm) \<Rightarrow>
          if st_expires_at_us state \<noteq> None
          then Inl (InvalidInput ''initial long-term atom state must not carry an STM expiry'') else Inr ()
      | _ \<Rightarrow> Inl (InvalidInput ''atom kind and initial retention tier are incoherent''))"

definition validate_initial_atom_state :: "MemoryAtomBodyV1 \<Rightarrow> AtomStateV1 \<Rightarrow> unit store_result" where
  "validate_initial_atom_state body state =
     (if st_superseded_by state \<noteq> None \<or> st_feedback_positive state \<noteq> 0 \<or> st_feedback_negative state \<noteq> 0
         \<or> st_retrieval_count state \<noteq> 0 \<or> st_retirement_run_id state \<noteq> None
      then Inl (InvalidInput ''initial typed atom insertion cannot import mutable counters, supersession, or a retirement-run binding'')
      else if st_content_status state \<noteq> Present
      then Inl (InvalidInput ''typed atom insertion requires present immutable content'')
      else initial_expiry_ok body state)"

section \<open>Validation of a record\<close>

definition MAX_ATOM_BYTES :: usize where
  "MAX_ATOM_BYTES = 256 * 1024"

definition validate_json :: "json_codec \<Rightarrow> string \<Rightarrow> string \<Rightarrow> unit store_result" where
  "validate_json js v label =
     (case js_value js v of Inr _ \<Rightarrow> Inr () | Inl message \<Rightarrow> Inl (Integrity (''invalid '' @ label @ '' JSON: '' @ message)))"

definition validate_provenance :: "(byte list \<Rightarrow> Digest32) \<Rightarrow> json_codec \<Rightarrow> AtomRecord \<Rightarrow> unit store_result" where
  "validate_provenance sha js atom =
     bindr (json (js_provenance_of js (am_provenance_json_projection atom))) (\<lambda>provenance.
     bindr (core (policy_digest sha poc_v1)) (\<lambda>expected_policy_digest.
     bindr (core (encode_value (v_provenance provenance))) (\<lambda>bytes.
     if bytes \<noteq> am_canonical_provenance atom
        \<or> pv_producer provenance \<noteq> am_provenance_producer atom
        \<or> pv_policy_digest provenance \<noteq> am_provenance_policy_digest atom
        \<or> am_provenance_policy_digest atom \<noteq> expected_policy_digest
        \<or> hash_prefixed sha PROVENANCE_HASH_DOMAIN (am_canonical_provenance atom) \<noteq> am_provenance_digest atom
        \<or> pv_source_event_digests provenance \<noteq> am_provenance_source_digests atom
     then Inl (Integrity ''atom provenance authority is inconsistent'') else Inr ())))"

definition validate_atom :: "(byte list \<Rightarrow> Digest32) \<Rightarrow> json_codec \<Rightarrow> AtomRecord \<Rightarrow> unit store_result" where
  "validate_atom sha js atom =
     (if length (am_canonical_body atom) > MAX_ATOM_BYTES then Inl (Integrity ''atom body exceeds 262144 bytes'')
      else if hash_prefixed sha ATOM_HASH_DOMAIN (am_canonical_body atom) \<noteq> am_body_digest atom
        \<or> hash_prefixed sha ATOM_HASH_DOMAIN (am_canonical_body atom) \<noteq> am_atom_id atom
      then Inl (Integrity ''atom ID or body digest does not match canonical authority bytes'')
      else bindr (validate_json js (am_json_projection atom) ''atom'') (\<lambda>_.
      bindr (validate_json js (am_provenance_json_projection atom) ''atom provenance'') (\<lambda>_.
      bindr (validate_json js (am_topic_keys_json atom) ''topic keys'') (\<lambda>_.
      bindr (validate_json js (am_entity_ids_json atom) ''entity ids'') (\<lambda>_.
      if am_atom_kind atom \<notin> {''episode'', ''semantic''} then Inl (Integrity ''invalid atom kind'')
      else if am_retention_permission atom \<notin> {''transient_only'', ''semantic_allowed'', ''semantic_and_exact_allowed''}
      then Inl (Integrity ''invalid retention permission'')
      else if am_retention_tier atom \<notin> {''stm'', ''ltm_semantic'', ''ltm_episodic'', ''ltm_dual'', ''forgotten''}
        \<or> am_content_status atom \<notin> {''present'', ''forgotten'', ''quarantined''}
      then Inl (Integrity ''invalid atom state'')
      else validate_provenance sha js atom)))))"

end
