(* ===== verification/AtomStore.thy ===== *)
theory AtomStore
  imports Atoms
begin

text \<open>
  Insertion of one atom inside a transaction: \<open>put_atom_transaction\<close>, its provenance rows and its
  search projection, and \<open>put_core_atoms_batch\<close> on top of it.
\<close>

section \<open>The search projection digest\<close>

definition hash_frame :: "byte list \<Rightarrow> byte list" where
  "hash_frame bytes = be_bytes64 (unwrap_or (- 1) (u64_of_usize (length bytes))) @ bytes"

definition hash_optional :: "byte list option \<Rightarrow> byte list" where
  "hash_optional bytes = (case bytes of Some bs \<Rightarrow> 1 # hash_frame bs | None \<Rightarrow> [0])"

definition sha256_projection :: "(byte list \<Rightarrow> Digest32) \<Rightarrow> AtomRecord \<Rightarrow> Digest32" where
  "sha256_projection sha atom =
     sha (str_bytes ''naome-memory:sqlite:search-projection:v1'' @ [0] @
       hash_frame (str_bytes (am_searchable_text atom)) @
       hash_frame (str_bytes (am_topic_keys_json atom)) @
       hash_frame (str_bytes (am_entity_ids_json atom)) @
       hash_optional (map_option str_bytes (am_outcome_class atom)))"

section \<open>Provenance rows\<close>

definition provenance_row_of :: "AtomRecord \<Rightarrow> provenance_row" where
  "provenance_row_of atom =
     \<lparr>pw_producer = am_provenance_producer atom, pw_policy_digest = am_provenance_policy_digest atom,
      pw_canonical_provenance = am_canonical_provenance atom,
      pw_json_projection = am_provenance_json_projection atom,
      pw_provenance_digest = am_provenance_digest atom\<rparr>"

definition insert_provenance_source :: "Digest32 \<Rightarrow> usize \<times> Digest32 \<Rightarrow> (SqliteRepository, unit) action" where
  "insert_provenance_source atom source =
     (let (ordinal, digest) = source in
      if \<not> ordinal < 2 ^ 63 then pure (Inl (InvalidInput ''atom provenance source ordinal exceeds i64''))
      else and_then (execute (insert_row provenance_sources_table (atom, int ordinal) digest)) (\<lambda>changed.
           pure (ensure_exact_change_count changed 1)))"

definition insert_atom_provenance_transaction :: "json_codec \<Rightarrow> AtomRecord \<Rightarrow> (SqliteRepository, unit) action" where
  "insert_atom_provenance_transaction js atom =
     and_then (execute (insert_row (provenance_table js) (am_atom_id atom) (provenance_row_of atom))) (\<lambda>changed.
     and_then (pure (ensure_exact_change_count changed 1)) (\<lambda>_.
     each (insert_provenance_source (am_atom_id atom)) (enumerate 0 (am_provenance_source_digests atom))))"

text \<open>The source rows of an atom in the order of their ordinals.\<close>

definition provenance_sources :: "Digest32 \<Rightarrow> Database \<Rightarrow> Digest32 list" where
  "provenance_sources atom db =
     map snd (filter (\<lambda>((a, _), _). a = atom) (sorted_list_of_fmap (db_provenance_sources db)))"

definition verify_atom_provenance_transaction :: "AtomRecord \<Rightarrow> Database \<Rightarrow> unit store_result" where
  "verify_atom_provenance_transaction atom db =
     (case fmlookup (db_provenance db) (am_atom_id atom) of
        None \<Rightarrow> Inl (Integrity (''atom '' @ to_hex (am_atom_id atom) @ '' is missing immutable provenance''))
      | Some stored \<Rightarrow>
          if stored \<noteq> provenance_row_of atom
             \<or> provenance_sources (am_atom_id atom) db \<noteq> am_provenance_source_digests atom
          then Inl (ImmutableConflict (''atom provenance '' @ to_hex (am_atom_id atom))) else Inr ())"

section \<open>One atom\<close>

definition header_row_of :: "AtomRecord \<Rightarrow> int \<Rightarrow> int \<Rightarrow> header_row" where
  "header_row_of atom recorded_at body_bytes =
     \<lparr>hr_atom_kind = am_atom_kind atom, hr_memory_space_id = am_memory_space_id atom,
      hr_repository_id = am_repository_id atom, hr_task_id = am_task_id atom, hr_agent_id = am_agent_id atom,
      hr_session_id = am_session_id atom, hr_recorded_at_us = recorded_at, hr_body_digest = am_body_digest atom,
      hr_body_bytes = body_bytes, hr_retention_permission = am_retention_permission atom,
      hr_provenance_digest = am_provenance_digest atom\<rparr>"

definition body_row_of :: "AtomRecord \<Rightarrow> body_row" where
  "body_row_of atom = \<lparr>br_canonical_body = am_canonical_body atom, br_json_projection = am_json_projection atom\<rparr>"

definition state_row_of :: "AtomRecord \<Rightarrow> int option \<Rightarrow> state_row" where
  "state_row_of atom expires_at =
     \<lparr>sr_retention_tier = am_retention_tier atom, sr_content_status = am_content_status atom,
      sr_expires_at_us = expires_at, sr_superseded_by = None, sr_feedback_positive = 0, sr_feedback_negative = 0,
      sr_retrieval_count = 0, sr_retirement_run_id = None\<rparr>"

definition projection_row_of :: "(byte list \<Rightarrow> Digest32) \<Rightarrow> AtomRecord \<Rightarrow> projection_row" where
  "projection_row_of sha atom =
     \<lparr>jr_memory_space_id = am_memory_space_id atom, jr_repository_id = am_repository_id atom,
      jr_searchable_text = am_searchable_text atom, jr_topic_keys_json = am_topic_keys_json atom,
      jr_entity_ids_json = am_entity_ids_json atom, jr_outcome_class = am_outcome_class atom,
      jr_projection_digest = sha256_projection sha atom\<rparr>"

definition optional_integer :: "u64 option \<Rightarrow> string \<Rightarrow> int option store_result" where
  "optional_integer v field = (case v of None \<Rightarrow> Inr None | Some x \<Rightarrow> bindr (sqlite_integer x field) (\<lambda>i. Inr (Some i)))"

text \<open>No short-term atom may enter a cohort whose day has been retired.\<close>

definition check_cohort_open :: "AtomRecord \<Rightarrow> Database \<Rightarrow> unit store_result" where
  "check_cohort_open atom db =
     (if am_retention_tier atom \<noteq> ''stm'' then Inr ()
      else bindr (ok_or (InvalidInput ''STM atom insertion requires an expiry'') (am_expires_at_us atom)) (\<lambda>expires_at_us.
      bindr (sqlite_integer (expires_at_us div MICROSECONDS_PER_DAY) ''cohort_day'') (\<lambda>cohort_day.
      if (am_memory_space_id atom, cohort_day) |\<in>| (\<lambda>run. (ru_memory_space_id run, ru_cohort_day run)) |`| fmran (db_runs db) then Inl RetirementConflict else Inr ())))"

definition insert_search :: "string \<Rightarrow> string \<Rightarrow> statement" where
  "insert_search atom_hex searchable db = Inr (db\<lparr>db_search := db_search db @ [(atom_hex, searchable)]\<rparr>, 1)"

definition insert_atom_rows :: "(byte list \<Rightarrow> Digest32) \<Rightarrow> json_codec \<Rightarrow> AtomRecord \<Rightarrow> (SqliteRepository, unit) action" where
  "insert_atom_rows sha js atom =
     and_then (pure (sqlite_integer (am_recorded_at_us atom) ''recorded_at_us'')) (\<lambda>recorded_at.
     and_then (pure (ok_or (InvalidRetirementPlan ''atom body length exceeds u64'') (u64_of_usize (length (am_canonical_body atom))))) (\<lambda>body_len.
     and_then (pure (sqlite_integer body_len ''body_bytes'')) (\<lambda>body_bytes.
     and_then (execute (insert_row headers_table (am_atom_id atom) (header_row_of atom recorded_at body_bytes))) (\<lambda>_.
     and_then (execute (insert_row (bodies_table js) (am_atom_id atom) (body_row_of atom))) (\<lambda>_.
     and_then (insert_atom_provenance_transaction js atom) (\<lambda>_.
     and_then (pure (optional_integer (am_expires_at_us atom) ''expires_at_us'')) (\<lambda>expires_at.
     and_then (execute (insert_row states_table (am_atom_id atom) (state_row_of atom expires_at))) (\<lambda>_.
     and_then (execute (insert_row (projections_table js) (am_atom_id atom) (projection_row_of sha atom))) (\<lambda>_.
     and_then (execute (insert_search (to_hex (am_atom_id atom)) (am_searchable_text atom))) (\<lambda>_.
     pure (Inr ())))))))))))"

definition put_atom_transaction :: "(byte list \<Rightarrow> Digest32) \<Rightarrow> json_codec \<Rightarrow> AtomRecord \<Rightarrow> (SqliteRepository, bool) action" where
  "put_atom_transaction sha js atom =
     and_then (pure (validate_atom sha js atom)) (\<lambda>_.
     and_then (select (find_row headers_table (am_atom_id atom))) (\<lambda>header.
     case header of
       Some h \<Rightarrow>
         and_then (select (find_row (bodies_table js) (am_atom_id atom))) (\<lambda>body.
         if hr_body_digest h \<noteq> am_body_digest atom \<or> map_option br_canonical_body body \<noteq> Some (am_canonical_body atom)
         then pure (Inl (ImmutableConflict (''atom '' @ to_hex (am_atom_id atom))))
         else and_then (select (verify_atom_provenance_transaction atom)) (\<lambda>_. pure (Inr False)))
     | None \<Rightarrow>
         and_then (select (check_cohort_open atom)) (\<lambda>_.
         and_then (insert_atom_rows sha js atom) (\<lambda>_. pure (Inr True)))))"

section \<open>Batches\<close>

definition MAX_ATOM_INSERT_BATCH :: usize where
  "MAX_ATOM_INSERT_BATCH = 1000"

record AtomBatchInsertOutcome =
  bo_requested :: usize
  bo_inserted :: usize
  bo_already_present :: usize

fun put_atoms ::
  "(byte list \<Rightarrow> Digest32) \<Rightarrow> json_codec \<Rightarrow> (MemoryAtomBodyV1 \<times> AtomStateV1) list \<Rightarrow> usize \<Rightarrow> (SqliteRepository, usize) action" where
  "put_atoms sha js [] inserted = pure (Inr inserted)"
| "put_atoms sha js ((body, state) # atoms) inserted =
     and_then (pure (validate_initial_atom_state body state)) (\<lambda>_.
     and_then (pure (from_core sha js body state)) (\<lambda>atom.
     and_then (put_atom_transaction sha js atom) (\<lambda>fresh.
     put_atoms sha js atoms (if fresh then min (inserted + 1) usize_max else inserted))))"

definition put_core_atoms_batch ::
  "(byte list \<Rightarrow> Digest32) \<Rightarrow> json_codec \<Rightarrow> (MemoryAtomBodyV1 \<times> AtomStateV1) list \<Rightarrow> (SqliteRepository, AtomBatchInsertOutcome) action" where
  "put_core_atoms_batch sha js atoms =
     (if length atoms > MAX_ATOM_INSERT_BATCH
      then pure (Inl (InvalidInput ''atom batch exceeds the maximum''))
      else if \<exists>(body, _) \<in> set atoms. bd_artifacts body \<noteq> [] \<or> bd_relations body \<noteq> []
      then pure (Inl (InvalidInput ''typed batch insertion accepts only unlinked atoms''))
      else if atoms = []
      then pure (Inr \<lparr>bo_requested = 0, bo_inserted = 0, bo_already_present = 0\<rparr>)
      else and_then (transaction (put_atoms sha js atoms 0)) (\<lambda>inserted.
           pure (Inr \<lparr>bo_requested = length atoms, bo_inserted = inserted, bo_already_present = length atoms - inserted\<rparr>)))"

end
