(* ===== verification/Gc.thy ===== *)
theory Gc
  imports Tables
begin

text \<open>
  Artifact registration and the two-stage garbage collection of \<open>repository.rs\<close>
  (\<open>register_artifact\<close>, \<open>garbage_collect\<close> and what they call).  The fault-injection observer is a
  parameter: its answer at the n-th call.  A process that is killed inside it leaves the files as
  they are and the tables as they were before the transaction, which is the state the model leaves
  when the observer answers with an error.
\<close>

datatype GcAction = WouldMark | Marked | WaitingForGrace | WouldDelete | Deleted

record GcEntry =
  ge_digest :: ArtifactDigest
  ge_byte_len :: u64
  ge_action :: GcAction

record GcReport =
  gr_dry_run :: bool
  gr_as_of_us :: u64
  gr_grace_period_us :: u64
  gr_entries :: "GcEntry list"

section \<open>Statements on the artifact tables\<close>

definition referenced :: "Database \<Rightarrow> ArtifactDigest \<Rightarrow> bool" where
  "referenced db d \<longleftrightarrow> d |\<in>| fst |`| fmdom (db_artifact_refs db)"

definition pinned :: "Database \<Rightarrow> ArtifactDigest \<Rightarrow> bool" where
  "pinned db d \<longleftrightarrow> d |\<in>| fst |`| fmdom (db_artifact_pins db)"

definition delete_collectable :: "ArtifactDigest \<Rightarrow> int \<Rightarrow> statement" where
  "delete_collectable d marked db =
     (case fmlookup (db_artifacts db) d of
        None \<Rightarrow> Inr (db, 0)
      | Some row \<Rightarrow>
          if at_gc_marked_at_us row = Some marked \<and> \<not> referenced db d \<and> \<not> pinned db d
          then Inr (db\<lparr>db_artifacts := fmdrop d (db_artifacts db)\<rparr>, 1) else Inr (db, 0))"

definition mark_collectable :: "ArtifactDigest \<Rightarrow> int \<Rightarrow> statement" where
  "mark_collectable d as_of db =
     update_row artifacts_table d (\<lambda>row. at_gc_marked_at_us row = None \<and> \<not> referenced db d \<and> \<not> pinned db d)
       (\<lambda>row. row\<lparr>at_gc_marked_at_us := Some as_of\<rparr>) db"

section \<open>Queries\<close>

definition artifact_record_from_row :: "ArtifactDigest \<Rightarrow> artifact_row \<Rightarrow> ArtifactRecord store_result" where
  "artifact_record_from_row d row =
     (if at_byte_len row < 0 then Inl (Sqlite (FromSqlConversionFailure 1))
      else Inr \<lparr>ac_digest = d, ac_byte_len = of_int (at_byte_len row), ac_relative_path = at_relative_path row\<rparr>)"

definition load_artifact_record :: "ArtifactDigest \<Rightarrow> Database \<Rightarrow> ArtifactRecord option store_result" where
  "load_artifact_record d db =
     (case fmlookup (db_artifacts db) d of
        None \<Rightarrow> Inr None
      | Some row \<Rightarrow> bindr (artifact_record_from_row d row) (\<lambda>entry. Inr (Some entry)))"

text \<open>
  Both loaders collect the rows in the order of the digest, the key of the table; a digest cannot
  appear twice, which is what their duplicate error guards against.
\<close>

definition load_all_artifact_records :: "Database \<Rightarrow> ArtifactRecord list store_result" where
  "load_all_artifact_records db =
     traverse (\<lambda>(d, row). artifact_record_from_row d row) (sorted_list_of_fmap (db_artifacts db))"

definition load_unreferenced_artifacts :: "Database \<Rightarrow> (ArtifactRecord \<times> int option) list store_result" where
  "load_unreferenced_artifacts db =
     traverse (\<lambda>(d, row). bindr (artifact_record_from_row d row) (\<lambda>entry. Inr (entry, at_gc_marked_at_us row)))
       (filter (\<lambda>(d, row). \<not> referenced db d \<and> \<not> pinned db d) (sorted_list_of_fmap (db_artifacts db)))"

definition find_record :: "ArtifactRecord list \<Rightarrow> ArtifactDigest \<Rightarrow> ArtifactRecord option" where
  "find_record records d = List.find (\<lambda>entry. ac_digest entry = d) records"

definition validate_discovered_artifact_metadata :: "ArtifactRecord list \<Rightarrow> ArtifactRecord list \<Rightarrow> unit store_result" where
  "validate_discovered_artifact_metadata persisted discovered =
     bindr (try_each validate_record_metadata persisted) (\<lambda>_.
     try_each (\<lambda>entry. case find_record persisted (ac_digest entry) of
         Some stored \<Rightarrow> if stored \<noteq> entry
           then Inl (Integrity (''artifact '' @ to_hex (ac_digest entry) @ '' CAS metadata disagrees with SQLite''))
           else Inr ()
       | None \<Rightarrow> Inr ()) discovered)"

section \<open>Registration\<close>

definition verified_row :: "ArtifactRecord \<Rightarrow> int \<Rightarrow> int \<Rightarrow> int option \<Rightarrow> artifact_row" where
  "verified_row entry byte_len created_at marked =
     \<lparr>at_byte_len = byte_len, at_relative_path = ac_relative_path entry, at_integrity_status = ''verified'',
      at_created_at_us = created_at, at_gc_marked_at_us = marked\<rparr>"

definition register_artifact ::
  "(byte list \<Rightarrow> Digest32) \<Rightarrow> ArtifactRecord \<Rightarrow> u64 \<Rightarrow> (SqliteRepository, unit) action" where
  "register_artifact sha entry created_at_us =
     and_then (query (\<lambda>r. verify_artifact sha entry (as_files (re_artifacts r)))) (\<lambda>_.
     and_then (pure (sqlite_integer (ac_byte_len entry) ''artifact byte_len'')) (\<lambda>byte_len.
     and_then (pure (sqlite_integer created_at_us ''created_at_us'')) (\<lambda>created_at.
     and_then (execute (insert_ignore artifacts_table (ac_digest entry) (verified_row entry byte_len created_at None))) (\<lambda>_.
     and_then (select (load_artifact_record (ac_digest entry))) (\<lambda>loaded.
     and_then (pure (ok_or (Integrity ''artifact insert disappeared'') loaded)) (\<lambda>persisted.
     pure (if persisted \<noteq> entry then Inl (ImmutableConflict (''artifact '' @ to_hex (ac_digest entry))) else Inr ())))))))"

section \<open>Garbage collection\<close>

definition gc_entry :: "ArtifactRecord \<Rightarrow> GcAction \<Rightarrow> GcEntry" where
  "gc_entry entry action = \<lparr>ge_digest = ac_digest entry, ge_byte_len = ac_byte_len entry, ge_action = action\<rparr>"

definition dry_run_action :: "u64 \<Rightarrow> u64 \<Rightarrow> int option \<Rightarrow> GcAction store_result" where
  "dry_run_action as_of_us grace_period_us marked_at =
     (case marked_at of
        None \<Rightarrow> Inr WouldMark
      | Some marked \<Rightarrow> bindr (unsigned_integer marked ''gc_marked_at_us'') (\<lambda>marked_at_us.
          Inr (if saturating_sub as_of_us marked_at_us < grace_period_us then WaitingForGrace else WouldDelete)))"

text \<open>The two loops insert into one map that is keyed by the digest and read in its order.\<close>

definition gc_dry_run_entries :: "ArtifactRecord list \<Rightarrow> u64 \<Rightarrow> u64 \<Rightarrow> Database \<Rightarrow> GcEntry list store_result" where
  "gc_dry_run_entries discovered as_of_us grace_period_us db =
     bindr (load_all_artifact_records db) (\<lambda>persisted.
     bindr (validate_discovered_artifact_metadata persisted discovered) (\<lambda>_.
     bindr (load_unreferenced_artifacts db) (\<lambda>candidates.
     bindr (traverse (\<lambda>(entry, marked_at). bindr (dry_run_action as_of_us grace_period_us marked_at) (\<lambda>action.
         Inr (gc_entry entry action))) candidates) (\<lambda>collected.
     let orphans = map (\<lambda>entry. gc_entry entry WouldMark) (filter (\<lambda>entry. find_record persisted (ac_digest entry) = None) discovered) in
     Inr (sort_key ge_digest (collected @ orphans))))))"

text \<open>A finalized file without a row is given one that is marked at once.\<close>

definition recover_orphan :: "ArtifactRecord list \<Rightarrow> int \<Rightarrow> ArtifactRecord \<Rightarrow> (SqliteRepository, unit) action" where
  "recover_orphan persisted as_of entry =
     (if find_record persisted (ac_digest entry) \<noteq> None then pure (Inr ())
      else and_then (pure (sqlite_integer (ac_byte_len entry) ''artifact byte_len'')) (\<lambda>byte_len.
           and_then (execute (insert_row artifacts_table (ac_digest entry) (verified_row entry byte_len as_of (Some as_of)))) (\<lambda>changed.
           pure (ensure_single_gc_change ''orphan artifact recovery mark'' changed))))"

text \<open>One candidate; the second component counts the calls of the observer.\<close>

definition sweep_candidate ::
  "(byte list \<Rightarrow> Digest32) \<Rightarrow> (usize \<Rightarrow> unit store_result) \<Rightarrow> u64 \<Rightarrow> int \<Rightarrow> u64 \<Rightarrow> ArtifactDigest list \<Rightarrow> usize \<Rightarrow>
   ArtifactRecord \<times> int option \<Rightarrow> (SqliteRepository, GcAction \<times> usize) action" where
  "sweep_candidate sha observer as_of_us as_of grace_period_us newly_marked calls candidate =
     (let (entry, marked_at) = candidate in
      if ac_digest entry \<in> set newly_marked then pure (Inr (Marked, calls))
      else case marked_at of
        Some marked \<Rightarrow>
          and_then (pure (unsigned_integer marked ''gc_marked_at_us'')) (\<lambda>marked_at_us.
          if saturating_sub as_of_us marked_at_us < grace_period_us then pure (Inr (WaitingForGrace, calls))
          else and_then (execute (delete_collectable (ac_digest entry) marked)) (\<lambda>deleted.
            if deleted = 1
            then and_then (on_store (remove_verified_or_missing sha entry)) (\<lambda>_.
                 and_then (pure (observer calls)) (\<lambda>_. pure (Inr (Deleted, calls + 1))))
            else pure (Inr (WaitingForGrace, calls))))
      | None \<Rightarrow>
          and_then (execute (mark_collectable (ac_digest entry) as_of)) (\<lambda>changed.
          and_then (pure (ensure_single_gc_change ''artifact GC mark'' changed)) (\<lambda>_. pure (Inr (Marked, calls)))))"

fun sweep ::
  "(byte list \<Rightarrow> Digest32) \<Rightarrow> (usize \<Rightarrow> unit store_result) \<Rightarrow> u64 \<Rightarrow> int \<Rightarrow> u64 \<Rightarrow> ArtifactDigest list \<Rightarrow> usize \<Rightarrow>
   (ArtifactRecord \<times> int option) list \<Rightarrow> (SqliteRepository, GcEntry list) action" where
  "sweep sha observer as_of_us as_of grace newly_marked calls [] = pure (Inr [])"
| "sweep sha observer as_of_us as_of grace newly_marked calls (candidate # candidates) =
     and_then (sweep_candidate sha observer as_of_us as_of grace newly_marked calls candidate) (\<lambda>(action, calls').
     and_then (sweep sha observer as_of_us as_of grace newly_marked calls' candidates) (\<lambda>rest.
     pure (Inr (gc_entry (fst candidate) action # rest))))"

definition collect_transaction ::
  "(byte list \<Rightarrow> Digest32) \<Rightarrow> (usize \<Rightarrow> unit store_result) \<Rightarrow> u64 \<Rightarrow> int \<Rightarrow> u64 \<Rightarrow> ArtifactRecord list \<Rightarrow>
   (SqliteRepository, GcEntry list) action" where
  "collect_transaction sha observer as_of_us as_of grace discovered =
     transaction
       (and_then (select load_all_artifact_records) (\<lambda>persisted.
        and_then (pure (validate_discovered_artifact_metadata persisted discovered)) (\<lambda>_.
        and_then (each (recover_orphan persisted as_of) discovered) (\<lambda>_.
        let newly_marked = map ac_digest (filter (\<lambda>entry. find_record persisted (ac_digest entry) = None) discovered) in
        and_then (select load_unreferenced_artifacts) (\<lambda>candidates.
        sweep sha observer as_of_us as_of grace newly_marked 0 candidates)))))"

definition garbage_collect_observed ::
  "(byte list \<Rightarrow> Digest32) \<Rightarrow> (fs \<Rightarrow> path \<Rightarrow> string list) \<Rightarrow> u64 \<Rightarrow> u64 \<Rightarrow> bool \<Rightarrow> (usize \<Rightarrow> unit store_result) \<Rightarrow>
   (SqliteRepository, GcReport) action" where
  "garbage_collect_observed sha ls as_of_us grace_period_us dry_run observer =
     (if grace_period_us < MICROSECONDS_PER_DAY
      then pure (Inl (InvalidInput ''artifact GC grace period must be at least 86400000000 microseconds''))
      else and_then (pure (sqlite_integer as_of_us ''as_of_us'')) (\<lambda>as_of.
           and_then (query (\<lambda>r. discover_records sha ls (as_files (re_artifacts r)))) (\<lambda>discovered.
           and_then (if dry_run then select (gc_dry_run_entries discovered as_of_us grace_period_us)
                     else collect_transaction sha observer as_of_us as_of grace_period_us discovered) (\<lambda>found_entries.
           pure (Inr \<lparr>gr_dry_run = dry_run, gr_as_of_us = as_of_us, gr_grace_period_us = grace_period_us,
                      gr_entries = found_entries\<rparr>)))))"

text \<open>The observer of the production entry point does nothing.\<close>

definition garbage_collect ::
  "(byte list \<Rightarrow> Digest32) \<Rightarrow> (fs \<Rightarrow> path \<Rightarrow> string list) \<Rightarrow> u64 \<Rightarrow> u64 \<Rightarrow> bool \<Rightarrow> (SqliteRepository, GcReport) action" where
  "garbage_collect sha ls as_of_us grace_period_us dry_run =
     garbage_collect_observed sha ls as_of_us grace_period_us dry_run (\<lambda>_. Inr ())"

lemma and_then_select [simp]:
  "and_then (select q) f r = (case q (re_database r) of Inl e \<Rightarrow> (Inl e, r) | Inr x \<Rightarrow> f x r)"
  by (simp add: select_def)

end
