(* ===== verification/Drafts.thy ===== *)
theory Drafts
  imports Integrity
begin

text \<open>
  Policies and episode drafts of \<open>repository.rs\<close>: \<open>install_policy\<close>, \<open>create_draft\<close>,
  \<open>append_event\<close> with its fault-injection observer, and \<open>load_events\<close>.  The log of a draft is
  specified as the list of its events; appending refines appending to that list.
\<close>

section \<open>Data\<close>

record DraftEvent =
  de_sequence :: u64
  de_event_at_us :: u64
  de_event_kind :: string
  de_canonical_payload :: "byte list"
  de_payload_digest :: Digest32

datatype RepositoryFaultPointV1 =
    DraftAppendAfterSequenceClaim | DraftAppendAfterEventInsert
  | DraftSealAfterAtomInsert | DraftSealAfterStatusUpdate
  | RetirementAfterRunCreation | RetirementAfterSemanticInsertion | RetirementAfterDecisionPersistence
  | RetirementAfterStateMutation | RetirementAfterForgetting | RetirementAfterArtifactPins
  | RetirementAfterReceiptInsertion | RetirementAfterRunCompletion | RetirementBeforeCommit

text \<open>
  An observer answers at each boundary; an error makes the operation fail there, as a crash does.
  Every operation passes a boundary at most once, so its answer is a function of the boundary.
\<close>

type_synonym observer = "RepositoryFaultPointV1 \<Rightarrow> unit store_result"

definition ignore_transaction_boundary :: observer where
  "ignore_transaction_boundary point = Inr ()"

section \<open>Policies\<close>

definition install_policy ::
  "(byte list \<Rightarrow> Digest32) \<Rightarrow> json_codec \<Rightarrow> PolicyV1 \<Rightarrow> u64 \<Rightarrow> (SqliteRepository, unit) action" where
  "install_policy sha js policy installed_at_us =
     and_then (pure (core (validate_poc_v1 policy))) (\<lambda>_.
     and_then (pure (core (policy_digest sha policy))) (\<lambda>digest.
     and_then (pure (core (encode_value (v_policy policy)))) (\<lambda>canonical_body.
     and_then (pure (json (js_policy js policy))) (\<lambda>json_projection.
     and_then (pure (sqlite_integer installed_at_us ''installed_at_us'')) (\<lambda>installed_at.
     transaction
       (put_once (policies_table js) (po_policy_id policy)
          \<lparr>py_policy_digest = digest, py_canonical_body = canonical_body, py_json_projection = json_projection,
           py_installed_at_us = installed_at\<rparr>
          (\<lambda>row. (py_policy_digest row, py_canonical_body row, py_json_projection row))
          (''policy '' @ po_policy_id policy)))))))"

section \<open>Drafts and their events\<close>

definition create_draft ::
  "string \<Rightarrow> string \<Rightarrow> string option \<Rightarrow> string option \<Rightarrow> string option \<Rightarrow> string \<Rightarrow> u64 \<Rightarrow> (SqliteRepository, unit) action" where
  "create_draft draft_id memory_space_id repository_id task_id agent_id session_id created_at_us =
     and_then (pure (sqlite_integer created_at_us ''created_at_us'')) (\<lambda>created_at.
     and_then (execute (insert_ignore drafts_table draft_id
         \<lparr>dr_memory_space_id = memory_space_id, dr_repository_id = repository_id, dr_task_id = task_id,
          dr_agent_id = agent_id, dr_session_id = session_id, dr_created_at_us = created_at,
          dr_next_sequence = 0, dr_status = Open, dr_sealed_atom_id = None\<rparr>)) (\<lambda>inserted.
     pure (if inserted = 0 then Inl (DraftConflict (''draft '' @ draft_id @ '' already exists'')) else Inr ())))"

definition claim_sequence :: "string \<Rightarrow> int \<Rightarrow> statement" where
  "claim_sequence draft_id seq =
     update_row drafts_table draft_id (\<lambda>row. dr_status row = Open \<and> dr_next_sequence row = seq)
       (\<lambda>row. row\<lparr>dr_next_sequence := dr_next_sequence row + 1\<rparr>)"

definition append_event_observed ::
  "(byte list \<Rightarrow> Digest32) \<Rightarrow> string \<Rightarrow> DraftEvent \<Rightarrow> observer \<Rightarrow> (SqliteRepository, unit) action" where
  "append_event_observed sha draft_id event observer =
     and_then (pure (sqlite_integer (de_sequence event) ''sequence'')) (\<lambda>seq.
     and_then (pure (sqlite_integer (de_event_at_us event) ''event_at_us'')) (\<lambda>event_at.
     if sha (de_canonical_payload event) \<noteq> de_payload_digest event
     then pure (Inl (Integrity ''episode event payload digest mismatch''))
     else transaction
       (and_then (execute (claim_sequence draft_id seq)) (\<lambda>changed.
        if changed \<noteq> 1 then pure (Inl (DraftConflict (''draft '' @ draft_id @ '' is not open at sequence'')))
        else and_then (pure (observer DraftAppendAfterSequenceClaim)) (\<lambda>_.
             and_then (execute (insert_row events_table (draft_id, seq)
                \<lparr>er_event_at_us = event_at, er_event_kind = de_event_kind event,
                 er_canonical_payload = de_canonical_payload event, er_payload_digest = de_payload_digest event\<rparr>)) (\<lambda>_.
             pure (observer DraftAppendAfterEventInsert)))))))"

definition append_event :: "(byte list \<Rightarrow> Digest32) \<Rightarrow> string \<Rightarrow> DraftEvent \<Rightarrow> (SqliteRepository, unit) action" where
  "append_event sha draft_id event = append_event_observed sha draft_id event ignore_transaction_boundary"

definition event_of_row :: "int \<Rightarrow> event_row \<Rightarrow> DraftEvent store_result" where
  "event_of_row seq row =
     bindr (unsigned_integer seq ''sequence'') (\<lambda>sequence_number.
     bindr (unsigned_integer (er_event_at_us row) ''event_at_us'') (\<lambda>event_at_us.
     Inr \<lparr>de_sequence = sequence_number, de_event_at_us = event_at_us, de_event_kind = er_event_kind row,
          de_canonical_payload = er_canonical_payload row, de_payload_digest = er_payload_digest row\<rparr>))"

definition load_events :: "string \<Rightarrow> Database \<Rightarrow> DraftEvent list store_result" where
  "load_events draft_id db =
     traverse (\<lambda>((_, seq), row). event_of_row seq row)
       (filter (\<lambda>((draft, _), _). draft = draft_id) (sorted_list_of_fmap (db_events db)))"

section \<open>The log of a draft\<close>

definition event_row_ok :: "(byte list \<Rightarrow> Digest32) \<Rightarrow> event_row \<Rightarrow> bool" where
  "event_row_ok sha row \<longleftrightarrow> int_ok (er_event_at_us row) \<and> sha (er_canonical_payload row) = er_payload_digest row"

text \<open>
  The sequence numbers of a draft are gapless: its events are exactly those numbered below its
  \<open>next_sequence\<close>, and each carries the digest of its payload.
\<close>

definition drafts_wf :: "(byte list \<Rightarrow> Digest32) \<Rightarrow> Database \<Rightarrow> bool" where
  "drafts_wf sha db \<longleftrightarrow>
     (\<forall>d row. fmlookup (db_drafts db) d = Some row \<longrightarrow> int_ok (dr_created_at_us row) \<and> int_ok (dr_next_sequence row)) \<and>
     (\<forall>d s. (d, s) |\<in>| fmdom (db_events db) \<longleftrightarrow>
        (\<exists>row. fmlookup (db_drafts db) d = Some row \<and> 0 \<le> s \<and> s < dr_next_sequence row)) \<and>
     (\<forall>k row. fmlookup (db_events db) k = Some row \<longrightarrow> event_row_ok sha row)"

definition logged_event :: "nat \<Rightarrow> event_row \<Rightarrow> DraftEvent" where
  "logged_event i row =
     \<lparr>de_sequence = of_nat i, de_event_at_us = of_int (er_event_at_us row), de_event_kind = er_event_kind row,
      de_canonical_payload = er_canonical_payload row, de_payload_digest = er_payload_digest row\<rparr>"

definition draft_log :: "Database \<Rightarrow> string \<Rightarrow> DraftEvent list" where
  "draft_log db d =
     (case fmlookup (db_drafts db) d of
        None \<Rightarrow> []
      | Some row \<Rightarrow> map (\<lambda>i. logged_event i (the (fmlookup (db_events db) (d, int i)))) [0..<nat (dr_next_sequence row)])"

lemma drafts_wfD:
  assumes "drafts_wf sha db"
  shows "fmlookup (db_drafts db) d = Some row \<Longrightarrow> int_ok (dr_created_at_us row) \<and> int_ok (dr_next_sequence row)"
    and "(d, s) |\<in>| fmdom (db_events db) \<longleftrightarrow>
      (\<exists>row. fmlookup (db_drafts db) d = Some row \<and> 0 \<le> s \<and> s < dr_next_sequence row)"
    and "fmlookup (db_events db) k = Some erow \<Longrightarrow> event_row_ok sha erow"
  using assms unfolding drafts_wf_def by blast+

lemma event_of_row_ok: "event_row_ok sha row \<Longrightarrow> event_of_row (int i) row = Inr (logged_event i row)"
  by (simp add: event_of_row_def unsigned_integer_def event_row_ok_def int_ok_def logged_event_def)

lemma filter_keys_of_draft:
  assumes "\<And>s. (d, s) |\<in>| A \<longleftrightarrow> 0 \<le> s \<and> s < int n"
  shows "filter (\<lambda>(draft, _). draft = d) (sorted_list_of_fset A) = map (\<lambda>i. (d, int i)) [0..<n]"
proof (rule sorted_distinct_set_unique)
  show "sorted (filter (\<lambda>(draft, _). draft = d) (sorted_list_of_fset A))"
    by (intro sorted_filter [where f = "\<lambda>x. x", simplified]) simp
  show "sorted (map (\<lambda>i. (d, int i)) [0..<n])"
    by (auto simp: sorted_iff_nth_mono)
  show "set (filter (\<lambda>(draft, _). draft = d) (sorted_list_of_fset A)) = set (map (\<lambda>i. (d, int i)) [0..<n])"
  proof (intro set_eqI iffI)
    fix x assume "x \<in> set (filter (\<lambda>(draft, _). draft = d) (sorted_list_of_fset A))"
    then obtain s where "x = (d, s)" "(d, s) |\<in>| A" by auto
    then have "0 \<le> s" "s < int n" "x = (d, s)" using assms by auto
    then show "x \<in> set (map (\<lambda>i. (d, int i)) [0..<n])"
      by (auto intro!: image_eqI [of _ _ "nat s"])
  next
    fix x assume "x \<in> set (map (\<lambda>i. (d, int i)) [0..<n])"
    then obtain i where "x = (d, int i)" "i < n" by auto
    then show "x \<in> set (filter (\<lambda>(draft, _). draft = d) (sorted_list_of_fset A))"
      using assms [of "int i"] by auto
  qed
qed (auto simp: distinct_map inj_on_def)

lemma filter_rows_of_draft:
  assumes "\<And>s. (d, s) |\<in>| fmdom m \<longleftrightarrow> 0 \<le> s \<and> s < int n"
  shows "filter (\<lambda>((draft, _), _). draft = d) (sorted_list_of_fmap m) =
    map (\<lambda>i. ((d, int i), the (fmlookup m (d, int i)))) [0..<n]"
  using filter_keys_of_draft [of d "fmdom m" n, OF assms]
  by (simp add: sorted_list_of_fmap_def filter_map o_def case_prod_beta')

lemma traverse_map: "traverse f (map g xs) = traverse (\<lambda>x. f (g x)) xs"
  by (induction xs) simp_all

lemma load_events_log:
  assumes wf: "drafts_wf sha db"
  shows "load_events d db = Inr (draft_log db d)"
proof -
  define n where "n = (case fmlookup (db_drafts db) d of None \<Rightarrow> 0 | Some row \<Rightarrow> nat (dr_next_sequence row))"
  have dom: "(d, s) |\<in>| fmdom (db_events db) \<longleftrightarrow> 0 \<le> s \<and> s < int n" for s
    unfolding drafts_wfD(2) [OF wf] n_def by (auto split: option.splits)
  have keys: "filter (\<lambda>((draft, _), _). draft = d) (sorted_list_of_fmap (db_events db)) =
      map (\<lambda>i. ((d, int i), the (fmlookup (db_events db) (d, int i)))) [0..<n]"
    by (rule filter_rows_of_draft [OF dom])
  have "traverse (\<lambda>i. event_of_row (int i) (the (fmlookup (db_events db) (d, int i)))) [0..<n] =
      Inr (map (\<lambda>i. logged_event i (the (fmlookup (db_events db) (d, int i)))) [0..<n])"
  proof (rule traverse_map_Inr)
    fix i assume "i \<in> set [0..<n]"
    then have "(d, int i) |\<in>| fmdom (db_events db)" using dom by simp
    then obtain row where "fmlookup (db_events db) (d, int i) = Some row" by (auto simp: fmlookup_dom_iff)
    then show "event_of_row (int i) (the (fmlookup (db_events db) (d, int i))) =
        Inr (logged_event i (the (fmlookup (db_events db) (d, int i))))"
      using event_of_row_ok [OF drafts_wfD(3) [OF wf]] by simp
  qed
  then show ?thesis
    by (simp add: load_events_def keys traverse_map draft_log_def n_def split: option.splits)
qed

section \<open>Appending\<close>

definition append_ok :: "(byte list \<Rightarrow> Digest32) \<Rightarrow> Database \<Rightarrow> string \<Rightarrow> DraftEvent \<Rightarrow> bool" where
  "append_ok sha db d e \<longleftrightarrow>
     unat (de_sequence e) + 1 < 2 ^ 63 \<and> unat (de_event_at_us e) < 2 ^ 63 \<and>
     sha (de_canonical_payload e) = de_payload_digest e \<and>
     (\<exists>row. fmlookup (db_drafts db) d = Some row \<and> dr_status row = Open \<and> dr_next_sequence row = int (unat (de_sequence e)))"

definition append_row :: "DraftEvent \<Rightarrow> event_row" where
  "append_row e = \<lparr>er_event_at_us = int (unat (de_event_at_us e)), er_event_kind = de_event_kind e,
     er_canonical_payload = de_canonical_payload e, er_payload_digest = de_payload_digest e\<rparr>"

definition appended :: "string \<Rightarrow> DraftEvent \<Rightarrow> Database \<Rightarrow> Database" where
  "appended d e db = db\<lparr>
     db_drafts := fmupd d ((the (fmlookup (db_drafts db) d))\<lparr>dr_next_sequence := int (unat (de_sequence e)) + 1\<rparr>) (db_drafts db),
     db_events := fmupd (d, int (unat (de_sequence e))) (append_row e) (db_events db)\<rparr>"

lemma tables_only_if [intro]: "(c \<Longrightarrow> tables_only m) \<Longrightarrow> (\<not> c \<Longrightarrow> tables_only n) \<Longrightarrow> tables_only (if c then m else n)"
  by simp

lemma append_transaction_Inr:
  assumes wf: "drafts_wf sha (re_database r)" and n: "int_ok (int n)" "int_ok at"
  shows "transaction
       (and_then (execute (claim_sequence d (int n))) (\<lambda>changed.
        if changed \<noteq> 1 then pure (Inl e1)
        else and_then (pure o1) (\<lambda>_.
             and_then (execute (insert_row events_table (d, int n) erow)) (\<lambda>_. pure o2)))) r = (Inr u, r') \<longleftrightarrow>
    (\<exists>row. fmlookup (db_drafts (re_database r)) d = Some row \<and> dr_status row = Open \<and> dr_next_sequence row = int n) \<and>
    n + 1 < 2 ^ 63 \<and> int_ok (er_event_at_us erow) \<and> o1 = Inr () \<and> o2 = Inr () \<and>
    r' = r\<lparr>re_database := (re_database r)\<lparr>
       db_drafts := fmupd d ((the (fmlookup (db_drafts (re_database r)) d))\<lparr>dr_next_sequence := int n + 1\<rparr>) (db_drafts (re_database r)),
       db_events := fmupd (d, int n) erow (db_events (re_database r))\<rparr>\<rparr>"
proof (cases "\<exists>row. fmlookup (db_drafts (re_database r)) d = Some row \<and> dr_status row = Open \<and> dr_next_sequence row = int n")
  case True
  then obtain row where row: "fmlookup (db_drafts (re_database r)) d = Some row" "dr_status row = Open" "dr_next_sequence row = int n" by blast
  have fresh: "(d, int n) |\<notin>| fmdom (db_events (re_database r))"
    using drafts_wfD(2) [OF wf, of d "int n"] row by auto
  show ?thesis
  proof (cases "int_ok (int n + 1)")
    case True
    show ?thesis
      using row fresh drafts_wfD(1) [OF wf row(1)] True n
      by (cases o1; cases o2)
        (auto simp: transaction_Inr and_then_Inr execute_Inr claim_sequence_def drafts_tab.update_row_Inr events_tab.insert_row_Inr int_ok_int fmdomI)
  next
    case False
    then show ?thesis
      using row by (auto simp: transaction_Inr and_then_Inr execute_Inr claim_sequence_def drafts_tab.update_row_Inr int_ok_int)
  qed
next
  case False
  then show ?thesis
    by (auto simp: transaction_Inr and_then_Inr execute_Inr claim_sequence_def drafts_tab.update_row_Inr)
qed

lemma append_event_Inr:
  assumes wf: "drafts_wf sha (re_database r)"
  shows "append_event_observed sha d e observer r = (Inr u, r') \<longleftrightarrow>
    append_ok sha (re_database r) d e \<and> observer DraftAppendAfterSequenceClaim = Inr () \<and>
    observer DraftAppendAfterEventInsert = Inr () \<and>
    r' = r\<lparr>re_database := appended d e (re_database r)\<rparr>" (is "?run \<longleftrightarrow> ?ok")
proof (cases "unat (de_sequence e) < 2 ^ 63 \<and> unat (de_event_at_us e) < 2 ^ 63 \<and> sha (de_canonical_payload e) = de_payload_digest e")
  case True
  then have "sqlite_integer (de_sequence e) f = Inr (int (unat (de_sequence e)))"
    "sqlite_integer (de_event_at_us e) f = Inr (int (unat (de_event_at_us e)))"
    "int_ok (int (unat (de_sequence e)))" "int_ok (int (unat (de_event_at_us e)))" for f
    by (simp_all add: sqlite_integer_def int_ok_int del: of_nat_unat)
  then show ?thesis
    using True append_transaction_Inr [OF wf, where n = "unat (de_sequence e)"]
    by (simp add: append_event_observed_def append_ok_def appended_def append_row_def conj_ac del: of_nat_unat)
next
  case False
  then show ?thesis
    by (auto simp: append_event_observed_def append_ok_def sqlite_integer_def and_then_Inr split: if_splits)
qed

lemma append_event_Inl:
  assumes "append_event_observed sha d e observer r = (Inl err, r')"
  shows "r' = r"
  using assms
  by (auto simp: append_event_observed_def and_then_Inl split: if_splits
      dest!: transaction_failed intro!: tables_only_and_then)

lemma appended_wf:
  assumes wf: "drafts_wf sha db" and ok: "append_ok sha db d e"
  shows "drafts_wf sha (appended d e db)"
proof -
  define n where "n = unat (de_sequence e)"
  obtain row where row: "fmlookup (db_drafts db) d = Some row" "dr_next_sequence row = int n"
    and n: "n + 1 < 2 ^ 63" and e: "int_ok (int (unat (de_event_at_us e)))" "sha (de_canonical_payload e) = de_payload_digest e"
    using ok unfolding append_ok_def n_def int_ok_int by blast
  have created: "int_ok (dr_created_at_us row)" using drafts_wfD(1) [OF wf row(1)] by simp
  have next_ok: "int_ok (int n + 1)" unfolding int_ok_int by (rule n)
  have erow: "event_row_ok sha (append_row e)"
    using e by (simp add: event_row_ok_def append_row_def)
  have post: "appended d e db = db\<lparr>db_drafts := fmupd d (row\<lparr>dr_next_sequence := int n + 1\<rparr>) (db_drafts db),
      db_events := fmupd (d, int n) (append_row e) (db_events db)\<rparr>"
    by (simp add: appended_def row n_def)
  show ?thesis
    unfolding post drafts_wf_def
  proof (intro conjI allI impI)
    fix d' row' assume "fmlookup (db_drafts (db\<lparr>db_drafts := fmupd d (row\<lparr>dr_next_sequence := int n + 1\<rparr>) (db_drafts db),
        db_events := fmupd (d, int n) (append_row e) (db_events db)\<rparr>)) d' = Some row'"
    then show "int_ok (dr_created_at_us row')" "int_ok (dr_next_sequence row')"
      using created next_ok drafts_wfD(1) [OF wf, of d' row'] by (auto split: if_splits)
  next
    fix d' s
    show "(d', s) |\<in>| fmdom (db_events (db\<lparr>db_drafts := fmupd d (row\<lparr>dr_next_sequence := int n + 1\<rparr>) (db_drafts db),
        db_events := fmupd (d, int n) (append_row e) (db_events db)\<rparr>)) \<longleftrightarrow>
      (\<exists>row'. fmlookup (db_drafts (db\<lparr>db_drafts := fmupd d (row\<lparr>dr_next_sequence := int n + 1\<rparr>) (db_drafts db),
        db_events := fmupd (d, int n) (append_row e) (db_events db)\<rparr>)) d' = Some row' \<and> 0 \<le> s \<and> s < dr_next_sequence row')"
      using drafts_wfD(2) [OF wf, of d' s] row by (cases "d' = d") auto
  next
    fix k row' assume "fmlookup (db_events (db\<lparr>db_drafts := fmupd d (row\<lparr>dr_next_sequence := int n + 1\<rparr>) (db_drafts db),
        db_events := fmupd (d, int n) (append_row e) (db_events db)\<rparr>)) k = Some row'"
    then show "event_row_ok sha row'" using erow drafts_wfD(3) [OF wf, of k row'] by (auto split: if_splits)
  qed
qed

lemma appended_log:
  assumes ok: "append_ok sha db d e"
  shows "draft_log (appended d e db) d' = (if d' = d then draft_log db d @ [e] else draft_log db d')"
proof -
  define n where "n = unat (de_sequence e)"
  obtain row where row: "fmlookup (db_drafts db) d = Some row" "dr_next_sequence row = int n"
    using ok unfolding append_ok_def n_def by blast
  have post: "appended d e db = db\<lparr>db_drafts := fmupd d (row\<lparr>dr_next_sequence := int n + 1\<rparr>) (db_drafts db),
      db_events := fmupd (d, int n) (append_row e) (db_events db)\<rparr>"
    by (simp add: appended_def row n_def)
  have e: "logged_event n (append_row e) = e"
    by (simp add: logged_event_def append_row_def n_def)
  have "nat (int n + 1) = Suc n" by simp
  then show ?thesis
    by (auto simp: draft_log_def post row e intro!: map_cong split: option.splits)
qed

lemma create_draft_Inr:
  "create_draft d space repo task agent session at r = (Inr u, r') \<longleftrightarrow>
    unat at < 2 ^ 63 \<and> d |\<notin>| fmdom (db_drafts (re_database r)) \<and>
    r' = r\<lparr>re_database := (re_database r)\<lparr>db_drafts := fmupd d
       \<lparr>dr_memory_space_id = space, dr_repository_id = repo, dr_task_id = task, dr_agent_id = agent,
        dr_session_id = session, dr_created_at_us = int (unat at), dr_next_sequence = 0, dr_status = Open,
        dr_sealed_atom_id = None\<rparr> (db_drafts (re_database r))\<rparr>\<rparr>"
proof -
  have "int_ok 0" by (simp add: int_ok_def)
  then show ?thesis
    by (auto simp: create_draft_def and_then_Inr execute_Inr drafts_tab.insert_ignore_Inr sqlite_integer_def int_ok_int
      simp del: of_nat_unat split: if_splits)
qed

lemma create_draft_Inl: "create_draft d space repo task agent session at r = (Inl err, r') \<Longrightarrow> r' = r"
proof (cases "d |\<in>| fmdom (db_drafts (re_database r))")
  case True
  moreover assume "create_draft d space repo task agent session at r = (Inl err, r')"
  ultimately show ?thesis
    by (auto simp: create_draft_def and_then_Inl execute_Inr execute_Inl drafts_tab.insert_ignore_Inr split: if_splits)
next
  case False
  moreover assume "create_draft d space repo task agent session at r = (Inl err, r')"
  ultimately show ?thesis
    by (auto simp: create_draft_def and_then_Inl execute_Inr execute_Inl drafts_tab.insert_ignore_Inr split: if_splits)
qed

lemma create_draft_wf:
  assumes wf: "drafts_wf sha (re_database r)" and "create_draft d space repo task agent session at r = (x, r')"
  shows "drafts_wf sha (re_database r')"
proof (cases x)
  case (Inl err)
  then show ?thesis using assms create_draft_Inl by metis
next
  case (Inr u)
  then have new: "unat at < 2 ^ 63" "d |\<notin>| fmdom (db_drafts (re_database r))"
    "re_database r' = (re_database r)\<lparr>db_drafts := fmupd d
       \<lparr>dr_memory_space_id = space, dr_repository_id = repo, dr_task_id = task, dr_agent_id = agent,
        dr_session_id = session, dr_created_at_us = int (unat at), dr_next_sequence = 0, dr_status = Open,
        dr_sealed_atom_id = None\<rparr> (db_drafts (re_database r))\<rparr>"
    using assms(2) by (auto simp: create_draft_Inr simp del: of_nat_unat)
  have "int_ok 0" "int_ok (int (unat at))" using new(1) by (simp_all add: int_ok_int del: of_nat_unat) (simp add: int_ok_def)
  then show ?thesis
    using wf new(2) unfolding new(3) drafts_wf_def by (auto simp: fmlookup_dom_iff)
qed

section \<open>The log refines a list\<close>

text \<open>
  C9: a draft is an append-only list of events.  On every well-formed database \<open>load_events\<close> returns
  the log of a draft in sequence order; an append succeeds exactly when the draft is open, the
  event carries the next sequence number, its numbers fit SQLite, its payload has the stated digest
  and no boundary observer fails; it then adds this one event at the end of this one log; and an
  append that fails, also at a fault point inside the transaction, leaves the repository as it was.
\<close>

theorem draft_log_refines_list:
  assumes wf: "drafts_wf sha (re_database r)"
  shows "load_events d (re_database r) = Inr (draft_log (re_database r) d) \<and>
    (case append_event_observed sha d e observer r of
       (Inl _, r') \<Rightarrow> r' = r \<and>
         \<not> (append_ok sha (re_database r) d e \<and> observer DraftAppendAfterSequenceClaim = Inr () \<and>
            observer DraftAppendAfterEventInsert = Inr ())
     | (Inr _, r') \<Rightarrow> append_ok sha (re_database r) d e \<and> drafts_wf sha (re_database r') \<and>
         load_events d (re_database r') = Inr (draft_log (re_database r) d @ [e]) \<and>
         (\<forall>d'. d' = d \<or> load_events d' (re_database r') = load_events d' (re_database r)) \<and>
         re_artifacts r' = re_artifacts r)"
proof (cases "append_event_observed sha d e observer r")
  case (Pair x r')
  show ?thesis
  proof (cases x)
    case (Inl err)
    have "r' = r" using append_event_Inl Pair Inl by blast
    moreover have "\<not> (append_ok sha (re_database r) d e \<and> observer DraftAppendAfterSequenceClaim = Inr () \<and>
            observer DraftAppendAfterEventInsert = Inr ())"
      using append_event_Inr [OF wf, of d e observer "()"] Pair Inl by auto
    ultimately show ?thesis using load_events_log [OF wf] Pair Inl by simp
  next
    case (Inr u)
    then have ok: "append_ok sha (re_database r) d e" "r' = r\<lparr>re_database := appended d e (re_database r)\<rparr>"
      using append_event_Inr [OF wf, of d e observer u r'] Pair by auto
    have wf': "drafts_wf sha (re_database r')" using appended_wf [OF wf ok(1)] ok(2) by simp
    show ?thesis
      using load_events_log [OF wf] load_events_log [OF wf'] appended_log [OF ok(1)] wf' ok Pair Inr by simp
  qed
qed

definition sample_draft_database :: Database where
  "sample_draft_database = empty_database\<lparr>db_drafts := fmupd ''d''
     \<lparr>dr_memory_space_id = ''m'', dr_repository_id = None, dr_task_id = None, dr_agent_id = None,
      dr_session_id = ''s'', dr_created_at_us = 0, dr_next_sequence = 0, dr_status = Open, dr_sealed_atom_id = None\<rparr> fmempty\<rparr>"

definition sample_event :: DraftEvent where
  "sample_event = \<lparr>de_sequence = 0, de_event_at_us = 7, de_event_kind = ''k'', de_canonical_payload = [1],
     de_payload_digest = Digest32_ZERO\<rparr>"

lemma sample_drafts_wf: "drafts_wf (\<lambda>_. Digest32_ZERO) sample_draft_database"
  by (auto simp: drafts_wf_def sample_draft_database_def empty_database_def int_ok_def split: if_splits)

text \<open>The first event of an open draft is accepted, and the log then holds it.\<close>

theorem draft_log_refines_list_witness:
  "\<exists>u r'. append_event (\<lambda>_. Digest32_ZERO) ''d'' sample_event
       \<lparr>re_database = sample_draft_database, re_artifacts = empty_store\<rparr> = (Inr u, r') \<and>
     load_events ''d'' (re_database r') = Inr [sample_event]"
proof -
  let ?r = "\<lparr>re_database = sample_draft_database, re_artifacts = empty_store\<rparr>"
  let ?run = "append_event_observed (\<lambda>_. Digest32_ZERO) ''d'' sample_event ignore_transaction_boundary ?r"
  have ok: "append_ok (\<lambda>_. Digest32_ZERO) (re_database ?r) ''d'' sample_event"
    by (simp add: append_ok_def sample_draft_database_def sample_event_def)
  have log: "draft_log (re_database ?r) ''d'' = []"
    by (simp add: draft_log_def sample_draft_database_def)
  obtain x r' where run: "?run = (x, r')" by fastforce
  have post: "case ?run of
       (Inl _, r') \<Rightarrow> r' = ?r \<and> \<not> (append_ok (\<lambda>_. Digest32_ZERO) (re_database ?r) ''d'' sample_event \<and>
         ignore_transaction_boundary DraftAppendAfterSequenceClaim = Inr () \<and>
         ignore_transaction_boundary DraftAppendAfterEventInsert = Inr ())
     | (Inr _, r') \<Rightarrow> append_ok (\<lambda>_. Digest32_ZERO) (re_database ?r) ''d'' sample_event \<and>
         drafts_wf (\<lambda>_. Digest32_ZERO) (re_database r') \<and>
         load_events ''d'' (re_database r') = Inr (draft_log (re_database ?r) ''d'' @ [sample_event]) \<and>
         (\<forall>d'. d' = ''d'' \<or> load_events d' (re_database r') = load_events d' (re_database ?r)) \<and>
         re_artifacts r' = re_artifacts ?r"
    using draft_log_refines_list [of "\<lambda>_. Digest32_ZERO" ?r "''d''" sample_event ignore_transaction_boundary] sample_drafts_wf
    by simp
  show ?thesis
  proof (cases x)
    case (Inl err)
    with post run ok show ?thesis by (simp add: ignore_transaction_boundary_def)
  next
    case (Inr u)
    with post run log have "load_events ''d'' (re_database r') = Inr [sample_event]" by simp
    with run Inr show ?thesis unfolding append_event_def by blast
  qed
qed

end
