(* ===== verification/Links.thy ===== *)
theory Links
  imports AtomStore Gc Drafts
begin

text \<open>
  Atoms with their artifact and relation links (\<open>put_core_atom\<close>) and the sealing of a draft into one
  atom or a whole episode chain (\<open>seal_core_draft\<close>, \<open>seal_core_draft_chain\<close>).  Links are prepared and
  validated before the transaction; inline artifacts are stored in that phase and stay when the
  transaction fails, where the garbage collector finds them.
\<close>

section \<open>Links\<close>

record AtomArtifactLink =
  al_artifact_digest :: ArtifactDigest
  al_role :: string
  al_retention_allowed :: bool

record AtomRelationLink =
  rl_target_atom_id :: Digest32
  rl_relation_kind :: string
  rl_canonical_relation :: "byte list"

definition digest_marker :: "ArtifactDigest \<Rightarrow> path" where
  "digest_marker digest = [''digest:'' @ to_hex digest]"

definition prepare_inline :: "(byte list \<Rightarrow> Digest32) \<Rightarrow> MemoryAtomBodyV1 \<Rightarrow> ArtifactRefV1 \<Rightarrow> byte list \<Rightarrow> (SqliteRepository, unit) action" where
  "prepare_inline sha body artifact bytes =
     (if length bytes > 4 * 1024 then pure (Inl (InvalidInput ''inline artifact exceeds 4 KiB''))
      else and_then (on_store (ingest_bytes sha bytes)) (\<lambda>entry.
           if ac_digest entry \<noteq> ar_digest artifact \<or> ac_byte_len entry \<noteq> ar_size_bytes artifact
           then pure (Inl (Integrity ''inline artifact digest or declared size mismatch''))
           else register_artifact sha entry (iv_recorded_at_us (bd_interval body))))"

definition prepare_stored :: "(byte list \<Rightarrow> Digest32) \<Rightarrow> ArtifactRefV1 \<Rightarrow> (SqliteRepository, unit) action" where
  "prepare_stored sha artifact =
     and_then (select (load_artifact_record (ar_digest artifact))) (\<lambda>loaded.
     and_then (pure (ok_or (ArtifactMissing (digest_marker (ar_digest artifact))) loaded)) (\<lambda>entry.
     if ac_byte_len entry \<noteq> ar_size_bytes artifact
     then pure (Inl (Integrity ''artifact declared size does not match CAS metadata''))
     else query (\<lambda>r. verify_artifact sha entry (as_files (re_artifacts r)))))"

definition prepare_artifact :: "(byte list \<Rightarrow> Digest32) \<Rightarrow> MemoryAtomBodyV1 \<Rightarrow> ArtifactRefV1 \<Rightarrow> (SqliteRepository, unit) action" where
  "prepare_artifact sha body artifact =
     (case ar_inline_payload artifact of
        Some bytes \<Rightarrow> prepare_inline sha body artifact bytes
      | None \<Rightarrow> prepare_stored sha artifact)"

definition artifact_links_of :: "MemoryAtomBodyV1 \<Rightarrow> AtomArtifactLink list" where
  "artifact_links_of body = map (\<lambda>artifact. \<lparr>al_artifact_digest = ar_digest artifact,
     al_role = ar_media_type artifact, al_retention_allowed = ar_retention_allowed artifact\<rparr>) (bd_artifacts body)"

definition relation_link_of :: "MemoryRelationV1 \<Rightarrow> AtomRelationLink store_result" where
  "relation_link_of relation =
     bindr (core (encode_value (v_relation relation))) (\<lambda>bytes.
     Inr \<lparr>rl_target_atom_id = atom_digest (re_target relation), rl_relation_kind = relation_kind_text (re_kind relation),
          rl_canonical_relation = bytes\<rparr>)"

definition prepare_core_links ::
  "(byte list \<Rightarrow> Digest32) \<Rightarrow> MemoryAtomBodyV1 \<Rightarrow> (SqliteRepository, AtomArtifactLink list \<times> AtomRelationLink list) action" where
  "prepare_core_links sha body =
     and_then (each (prepare_artifact sha body) (bd_artifacts body)) (\<lambda>_.
     and_then (pure (traverse relation_link_of (bd_relations body))) (\<lambda>relation_links.
     pure (Inr (artifact_links_of body, relation_links))))"

section \<open>Validation before the transaction\<close>

definition load_atom_memory_space :: "Digest32 \<Rightarrow> string \<Rightarrow> Database \<Rightarrow> string store_result" where
  "load_atom_memory_space atom role db =
     ok_or (Integrity (role @ '' atom '' @ to_hex atom @ '' does not exist''))
       (map_option hr_memory_space_id (fmlookup (db_headers db) atom))"

definition validate_relation_memory_space :: "Digest32 \<Rightarrow> Digest32 \<Rightarrow> Database \<Rightarrow> unit store_result" where
  "validate_relation_memory_space source target db =
     bindr (load_atom_memory_space source ''relation source'' db) (\<lambda>source_space.
     bindr (load_atom_memory_space target ''relation target'' db) (\<lambda>target_space.
     if source_space \<noteq> target_space
     then Inl (InvalidInput (''relation '' @ to_hex source @ '' -> '' @ to_hex target @ '' crosses memory spaces''))
     else Inr ()))"

fun validate_artifact_links ::
  "(byte list \<Rightarrow> Digest32) \<Rightarrow> (ArtifactDigest \<times> string) list \<Rightarrow> AtomArtifactLink list \<Rightarrow> SqliteRepository \<Rightarrow> unit store_result" where
  "validate_artifact_links sha seen [] r = Inr ()"
| "validate_artifact_links sha seen (link # links) r =
     (if al_role link = [] \<or> (al_artifact_digest link, al_role link) \<in> set seen
      then Inl (InvalidInput ''artifact links require non-empty, unique digest/role pairs'')
      else bindr (load_artifact_record (al_artifact_digest link) (re_database r)) (\<lambda>loaded.
      bindr (ok_or (ArtifactMissing (digest_marker (al_artifact_digest link))) loaded) (\<lambda>entry.
      bindr (query_row artifacts_table (al_artifact_digest link) (re_database r)) (\<lambda>row.
      if at_integrity_status row \<noteq> ''verified''
      then Inl (Integrity (''artifact '' @ to_hex (al_artifact_digest link) @ '' is not verified''))
      else bindr (verify_artifact sha entry (as_files (re_artifacts r))) (\<lambda>_.
      validate_artifact_links sha ((al_artifact_digest link, al_role link) # seen) links r)))))"

fun validate_relation_links ::
  "string \<Rightarrow> (Digest32, string) fmap \<Rightarrow> (Digest32 \<times> string) list \<Rightarrow> AtomRelationLink list \<Rightarrow> Database \<Rightarrow> unit store_result" where
  "validate_relation_links source_space batch seen [] db = Inr ()"
| "validate_relation_links source_space batch seen (link # links) db =
     (if rl_relation_kind link = [] \<or> rl_canonical_relation link = []
         \<or> (rl_target_atom_id link, rl_relation_kind link) \<in> set seen
      then Inl (InvalidInput ''relation links require non-empty, unique target/kind pairs and authority bytes'')
      else bindr (case fmlookup batch (rl_target_atom_id link) of
          Some space \<Rightarrow> Inr space
        | None \<Rightarrow> load_atom_memory_space (rl_target_atom_id link) ''relation target'' db) (\<lambda>target_space.
      if target_space \<noteq> source_space
      then Inl (InvalidInput (''relation target '' @ to_hex (rl_target_atom_id link) @ '' belongs to a different memory space''))
      else validate_relation_links source_space batch ((rl_target_atom_id link, rl_relation_kind link) # seen) links db))"

definition validate_atom_links_with_batch ::
  "(byte list \<Rightarrow> Digest32) \<Rightarrow> string \<Rightarrow> AtomArtifactLink list \<Rightarrow> AtomRelationLink list \<Rightarrow> (Digest32, string) fmap \<Rightarrow>
   SqliteRepository \<Rightarrow> unit store_result" where
  "validate_atom_links_with_batch sha space artifact_links relation_links batch r =
     bindr (validate_artifact_links sha [] artifact_links r) (\<lambda>_.
     validate_relation_links space batch [] relation_links (re_database r))"

definition validate_atom_links ::
  "(byte list \<Rightarrow> Digest32) \<Rightarrow> string \<Rightarrow> AtomArtifactLink list \<Rightarrow> AtomRelationLink list \<Rightarrow> SqliteRepository \<Rightarrow> unit store_result" where
  "validate_atom_links sha space artifact_links relation_links r =
     validate_atom_links_with_batch sha space artifact_links relation_links fmempty r"

text \<open>
  The links must be exactly those the typed body declares, as multisets (both sides are sorted
  before they are compared).
\<close>

definition validate_declared_core_link_closure ::
  "(byte list \<Rightarrow> Digest32) \<Rightarrow> json_codec \<Rightarrow> AtomRecord \<Rightarrow> AtomArtifactLink list \<Rightarrow> AtomRelationLink list \<Rightarrow> unit store_result" where
  "validate_declared_core_link_closure sha js atom artifact_links relation_links =
     (case js_body_of js (am_json_projection atom) of
        Inl _ \<Rightarrow> Inr ()
      | Inr body \<Rightarrow>
          bindr (core (body_canonical_bytes body)) (\<lambda>canonical_body.
          bindr (core (atom_id sha body)) (\<lambda>body_id.
          if canonical_body \<noteq> am_canonical_body atom \<or> atom_digest body_id \<noteq> am_atom_id atom
             \<or> atom_digest body_id \<noteq> am_body_digest atom
          then Inl (Integrity ''typed atom projection does not match its canonical authority body'')
          else if mset (map (\<lambda>a. (ar_digest a, ar_media_type a, ar_retention_allowed a)) (bd_artifacts body)) \<noteq>
              mset (map (\<lambda>l. (al_artifact_digest l, al_role l, al_retention_allowed l)) artifact_links)
          then Inl (InvalidInput ''artifact links do not close over the typed atom body'')
          else bindr (traverse relation_link_of (bd_relations body)) (\<lambda>expected_links.
          if mset expected_links \<noteq> mset relation_links
          then Inl (InvalidInput ''relation links do not close over the typed atom body'')
          else Inr ()))))"

section \<open>Links inside the transaction\<close>

definition clear_gc_mark :: "ArtifactDigest \<Rightarrow> statement" where
  "clear_gc_mark digest = update_row artifacts_table digest (\<lambda>_. True) (\<lambda>row. row\<lparr>at_gc_marked_at_us := None\<rparr>)"

definition insert_artifact_link :: "Digest32 \<Rightarrow> AtomArtifactLink \<Rightarrow> (SqliteRepository, unit) action" where
  "insert_artifact_link atom link =
     and_then (put_once artifact_refs_table (al_artifact_digest link, atom, al_role link) (al_retention_allowed link) (\<lambda>b. b)
       (''artifact link '' @ to_hex (al_artifact_digest link) @ '' / '' @ to_hex atom @ '' / '' @ al_role link)) (\<lambda>_.
     and_then (put_once artifact_provenance_table (atom, al_artifact_digest link, al_role link) (al_retention_allowed link) (\<lambda>b. b)
       (''artifact provenance '' @ to_hex (al_artifact_digest link) @ '' / '' @ to_hex atom @ '' / '' @ al_role link)) (\<lambda>_.
     and_then (execute (clear_gc_mark (al_artifact_digest link))) (\<lambda>_. pure (Inr ()))))"

definition insert_relation_link :: "(byte list \<Rightarrow> Digest32) \<Rightarrow> Digest32 \<Rightarrow> AtomRelationLink \<Rightarrow> (SqliteRepository, unit) action" where
  "insert_relation_link sha atom link =
     and_then (select (validate_relation_memory_space atom (rl_target_atom_id link))) (\<lambda>_.
     put_once relations_table (atom, rl_target_atom_id link, rl_relation_kind link) (sha (rl_canonical_relation link)) (\<lambda>d. d)
       (''relation '' @ to_hex atom @ '' -> '' @ to_hex (rl_target_atom_id link) @ '' ('' @ rl_relation_kind link @ '')''))"

definition insert_atom_links_transaction ::
  "(byte list \<Rightarrow> Digest32) \<Rightarrow> Digest32 \<Rightarrow> AtomArtifactLink list \<Rightarrow> AtomRelationLink list \<Rightarrow> (SqliteRepository, unit) action" where
  "insert_atom_links_transaction sha atom artifact_links relation_links =
     and_then (each (insert_artifact_link atom) artifact_links) (\<lambda>_.
     each (insert_relation_link sha atom) relation_links)"

section \<open>One atom\<close>

definition put_core_atom ::
  "(byte list \<Rightarrow> Digest32) \<Rightarrow> json_codec \<Rightarrow> MemoryAtomBodyV1 \<Rightarrow> AtomStateV1 \<Rightarrow> (SqliteRepository, unit) action" where
  "put_core_atom sha js body state =
     and_then (pure (validate_initial_atom_state body state)) (\<lambda>_.
     and_then (pure (from_core sha js body state)) (\<lambda>atom.
     and_then (prepare_core_links sha body) (\<lambda>(artifact_links, relation_links).
     and_then (pure (validate_declared_core_link_closure sha js atom artifact_links relation_links)) (\<lambda>_.
     and_then (query (validate_atom_links sha (am_memory_space_id atom) artifact_links relation_links)) (\<lambda>_.
     transaction
       (and_then (put_atom_transaction sha js atom) (\<lambda>_.
        insert_atom_links_transaction sha (am_atom_id atom) artifact_links relation_links)))))))"

section \<open>Sealing a draft\<close>

definition draft_row_for :: "string \<Rightarrow> Database \<Rightarrow> draft_row store_result" where
  "draft_row_for draft_id db = ok_or (DraftConflict (''unknown draft '' @ draft_id)) (fmlookup (db_drafts db) draft_id)"

definition draft_matches :: "draft_row \<Rightarrow> AtomRecord \<Rightarrow> bool" where
  "draft_matches row atom \<longleftrightarrow> dr_status row = Open \<and> dr_memory_space_id row = am_memory_space_id atom \<and>
     dr_repository_id row = am_repository_id atom \<and> dr_task_id row = am_task_id atom \<and>
     dr_agent_id row = am_agent_id atom \<and> Some (dr_session_id row) = am_session_id atom"

definition seal_status :: "string \<Rightarrow> Digest32 \<Rightarrow> statement" where
  "seal_status draft_id atom =
     update_row drafts_table draft_id (\<lambda>row. dr_status row = Open)
       (\<lambda>row. row\<lparr>dr_status := Sealed, dr_sealed_atom_id := Some atom\<rparr>)"

definition seal_draft_with_links_observed ::
  "(byte list \<Rightarrow> Digest32) \<Rightarrow> json_codec \<Rightarrow> string \<Rightarrow> AtomRecord \<Rightarrow> AtomArtifactLink list \<Rightarrow> AtomRelationLink list \<Rightarrow> observer \<Rightarrow>
   (SqliteRepository, unit) action" where
  "seal_draft_with_links_observed sha js draft_id atom artifact_links relation_links observer =
     and_then (pure (validate_declared_core_link_closure sha js atom artifact_links relation_links)) (\<lambda>_.
     and_then (query (validate_atom_links sha (am_memory_space_id atom) artifact_links relation_links)) (\<lambda>_.
     transaction
       (and_then (select (draft_row_for draft_id)) (\<lambda>row.
        if \<not> draft_matches row atom
        then pure (Inl (DraftConflict (''draft '' @ draft_id @ '' status or scope does not match sealed atom'')))
        else and_then (put_atom_transaction sha js atom) (\<lambda>_.
        and_then (insert_atom_links_transaction sha (am_atom_id atom) artifact_links relation_links) (\<lambda>_.
        and_then (pure (observer DraftSealAfterAtomInsert)) (\<lambda>_.
        and_then (execute (seal_status draft_id (am_atom_id atom))) (\<lambda>changed.
        if changed \<noteq> 1 then pure (Inl (DraftConflict (''draft '' @ draft_id @ '' was concurrently sealed'')))
        else pure (observer DraftSealAfterStatusUpdate)))))))))"

definition seal_core_draft_observed ::
  "(byte list \<Rightarrow> Digest32) \<Rightarrow> json_codec \<Rightarrow> string \<Rightarrow> MemoryAtomBodyV1 \<Rightarrow> AtomStateV1 \<Rightarrow> observer \<Rightarrow> (SqliteRepository, unit) action" where
  "seal_core_draft_observed sha js draft_id body state observer =
     and_then (pure (validate_initial_atom_state body state)) (\<lambda>_.
     and_then (pure (from_core sha js body state)) (\<lambda>atom.
     and_then (prepare_core_links sha body) (\<lambda>(artifact_links, relation_links).
     seal_draft_with_links_observed sha js draft_id atom artifact_links relation_links observer)))"

definition seal_core_draft ::
  "(byte list \<Rightarrow> Digest32) \<Rightarrow> json_codec \<Rightarrow> string \<Rightarrow> MemoryAtomBodyV1 \<Rightarrow> AtomStateV1 \<Rightarrow> (SqliteRepository, unit) action" where
  "seal_core_draft sha js draft_id body state =
     seal_core_draft_observed sha js draft_id body state ignore_transaction_boundary"

section \<open>Sealing a chain\<close>

definition check_chain_member ::
  "(byte list \<Rightarrow> Digest32) \<Rightarrow> MemoryAtomBodyV1 \<times> AtomStateV1 \<Rightarrow> (AtomId \<times> u64) option \<Rightarrow> MemoryAtomBodyV1 \<times> AtomStateV1 \<Rightarrow>
   (AtomId \<times> u64) option store_result" where
  "check_chain_member sha first previous member =
     (let (body, state) = member in
      bindr (validate_initial_atom_state body state) (\<lambda>_.
      if bd_scope body \<noteq> bd_scope (fst first)
         \<or> iv_recorded_at_us (bd_interval body) \<noteq> iv_recorded_at_us (bd_interval (fst first)) \<or> state \<noteq> snd first
      then Inl (InvalidInput ''episode-chain scope, recorded time, and initial state must be identical'')
      else case bd_payload body of
        SemanticPayload _ \<Rightarrow> Inl (InvalidInput ''episode chain contains a semantic atom'')
      | EpisodePayload payload \<Rightarrow>
          if map re_target (filter (\<lambda>rel. re_kind rel = Continues) (bd_relations body)) \<noteq>
              (case ep_continues payload of None \<Rightarrow> [] | Some t \<Rightarrow> [t])
          then Inl (InvalidInput ''episode payload and declared continues relation do not match exactly'')
          else bindr (case previous of
              None \<Rightarrow> Inr ()
            | Some (expected_previous, previous_end) \<Rightarrow>
                bindr (ok_or (InvalidInput ''episode-chain sequence overflows u64'') (checked_add previous_end 1)) (\<lambda>expected_start.
                if ep_continues payload \<noteq> Some expected_previous \<or> ep_event_sequence_start payload \<noteq> expected_start
                then Inl (InvalidInput ''episode-chain members are not a contiguous newest-to-previous sequence'')
                else Inr ())) (\<lambda>_.
          if ep_event_sequence_start payload > ep_event_sequence_end payload
          then Inl (InvalidInput ''episode-chain member has an inverted event sequence'')
          else bindr (core (atom_id sha body)) (\<lambda>body_id. Inr (Some (body_id, ep_event_sequence_end payload))))))"

definition validate_core_episode_chain ::
  "(byte list \<Rightarrow> Digest32) \<Rightarrow> (MemoryAtomBodyV1 \<times> AtomStateV1) list \<Rightarrow> unit store_result" where
  "validate_core_episode_chain sha atoms =
     (case atoms of
        [] \<Rightarrow> Inl (InvalidInput ''episode chain must not be empty'')
      | first # _ \<Rightarrow> bindr (try_fold (check_chain_member sha first) None atoms) (\<lambda>_. Inr ()))"

type_synonym prepared = "AtomRecord \<times> AtomArtifactLink list \<times> AtomRelationLink list"

fun prepare_chain ::
  "(byte list \<Rightarrow> Digest32) \<Rightarrow> json_codec \<Rightarrow> (Digest32, string) fmap \<Rightarrow> (MemoryAtomBodyV1 \<times> AtomStateV1) list \<Rightarrow>
   (SqliteRepository, (Digest32, string) fmap \<times> prepared list) action" where
  "prepare_chain sha js batch [] = pure (Inr (batch, []))"
| "prepare_chain sha js batch ((body, state) # atoms) =
     and_then (pure (from_core sha js body state)) (\<lambda>atom.
     if am_atom_id atom |\<in>| fmdom batch
     then pure (Inl (InvalidInput ''episode chain contains a duplicate atom ID''))
     else and_then (prepare_core_links sha body) (\<lambda>(artifact_links, relation_links).
     and_then (pure (validate_declared_core_link_closure sha js atom artifact_links relation_links)) (\<lambda>_.
     and_then (prepare_chain sha js (fmupd (am_atom_id atom) (am_memory_space_id atom) batch) atoms) (\<lambda>(batch', rest).
     pure (Inr (batch', (atom, artifact_links, relation_links) # rest))))))"

definition seal_core_draft_chain ::
  "(byte list \<Rightarrow> Digest32) \<Rightarrow> json_codec \<Rightarrow> string \<Rightarrow> (MemoryAtomBodyV1 \<times> AtomStateV1) list \<Rightarrow> (SqliteRepository, unit) action" where
  "seal_core_draft_chain sha js draft_id atoms =
     and_then (pure (validate_core_episode_chain sha atoms)) (\<lambda>_.
     and_then (prepare_chain sha js fmempty atoms) (\<lambda>(batch, prepared).
     and_then (query (\<lambda>r. try_each (\<lambda>(atom, artifact_links, relation_links).
         validate_atom_links_with_batch sha (am_memory_space_id atom) artifact_links relation_links batch r) prepared)) (\<lambda>_.
     transaction
       (and_then (select (draft_row_for draft_id)) (\<lambda>row.
        and_then (pure (try_each (\<lambda>(atom, _). if \<not> draft_matches row atom
            then Inl (DraftConflict (''draft '' @ draft_id @ '' status or scope does not match every episode-chain atom''))
            else Inr ()) prepared)) (\<lambda>_.
        and_then (each (\<lambda>(atom, _). and_then (put_atom_transaction sha js atom) (\<lambda>_. pure (Inr ()))) prepared) (\<lambda>_.
        and_then (each (\<lambda>(atom, artifact_links, relation_links).
            insert_atom_links_transaction sha (am_atom_id atom) artifact_links relation_links) prepared) (\<lambda>_.
        if prepared = [] then pure (Inl (InvalidInput ''episode chain must not be empty''))
        else and_then (execute (seal_status draft_id (am_atom_id (fst (last prepared))))) (\<lambda>changed.
        pure (if changed \<noteq> 1 then Inl (DraftConflict (''draft '' @ draft_id @ '' was concurrently sealed'')) else Inr ()))))))))))"

end
