(* ===== verification/AtomLaws.thy ===== *)
theory AtomLaws
  imports Links
begin

text \<open>
  What the insertion of an atom leaves: \<open>put_atom_transaction\<close> either finds the atom with the same
  content, and changes nothing, or adds exactly its rows.
\<close>

section \<open>The rows of an atom\<close>

definition add_sources :: "Digest32 \<Rightarrow> (usize \<times> Digest32) list \<Rightarrow> (Digest32 \<times> int, Digest32) fmap \<Rightarrow> (Digest32 \<times> int, Digest32) fmap" where
  "add_sources atom = fold (\<lambda>(ordinal, digest). fmupd (atom, int ordinal) digest)"

definition inserted_atom :: "(byte list \<Rightarrow> Digest32) \<Rightarrow> AtomRecord \<Rightarrow> Database \<Rightarrow> Database" where
  "inserted_atom sha atom db = db\<lparr>
     db_headers := fmupd (am_atom_id atom)
       (header_row_of atom (int (unat (am_recorded_at_us atom))) (int (length (am_canonical_body atom)))) (db_headers db),
     db_bodies := fmupd (am_atom_id atom) (body_row_of atom) (db_bodies db),
     db_provenance := fmupd (am_atom_id atom) (provenance_row_of atom) (db_provenance db),
     db_provenance_sources :=
       add_sources (am_atom_id atom) (enumerate 0 (am_provenance_source_digests atom)) (db_provenance_sources db),
     db_states := fmupd (am_atom_id atom)
       (state_row_of atom (map_option (\<lambda>t. int (unat t)) (am_expires_at_us atom))) (db_states db),
     db_projections := fmupd (am_atom_id atom) (projection_row_of sha atom) (db_projections db),
     db_search := db_search db @ [(to_hex (am_atom_id atom), am_searchable_text atom)]\<rparr>"

lemma sqlite_integer_int: "sqlite_integer v f = Inr i \<longleftrightarrow> unat v < 2 ^ 63 \<and> i = int (unat v)"
  by (auto simp only: sqlite_integer_def split: if_splits)

lemma optional_integer_Inr:
  "optional_integer v f = Inr i \<longleftrightarrow> (\<forall>t. v = Some t \<longrightarrow> unat t < 2 ^ 63) \<and> i = map_option (\<lambda>t. int (unat t)) v"
  by (cases v) (auto simp only: optional_integer_def option.simps bindr_Inr sqlite_integer_int)

lemma insert_sources_Inr:
  "each (insert_provenance_source atom) xs r = (Inr u, r') \<Longrightarrow>
   r' = r\<lparr>re_database := (re_database r)\<lparr>db_provenance_sources := add_sources atom xs (db_provenance_sources (re_database r))\<rparr>\<rparr>"
proof (induction xs arbitrary: r)
  case Nil
  then show ?case by (simp add: add_sources_def)
next
  case (Cons x xs)
  obtain ordinal digest where x: "x = (ordinal, digest)" by fastforce
  from Cons.prems obtain r1 where r1: "insert_provenance_source atom x r = (Inr (), r1)"
    "each (insert_provenance_source atom) xs r1 = (Inr u, r')" by (auto simp: and_then_Inr)
  then have "r1 = r\<lparr>re_database := (re_database r)\<lparr>db_provenance_sources :=
      fmupd (atom, int ordinal) digest (db_provenance_sources (re_database r))\<rparr>\<rparr>"
    by (auto simp: insert_provenance_source_def x and_then_Inr execute_Inr provenance_sources_tab.insert_row_Inr split: if_splits)
  then show ?case using Cons.IH [OF r1(2)] by (simp add: add_sources_def x)
qed

lemma insert_atom_rows_Inr:
  assumes "insert_atom_rows sha js atom r = (Inr u, r')"
  shows "r' = r\<lparr>re_database := inserted_atom sha atom (re_database r)\<rparr>"
    "unat (am_recorded_at_us atom) < 2 ^ 63"
  using assms
  by (auto simp: insert_atom_rows_def insert_atom_provenance_transaction_def and_then_Inr execute_Inr
      headers_tab.insert_row_Inr bodies_tab.insert_row_Inr provenance_tab.insert_row_Inr states_tab.insert_row_Inr
      projections_tab.insert_row_Inr insert_search_def sqlite_integer_int optional_integer_Inr result_simps
      inserted_atom_def u64_of_usize_SomeD simp del: of_nat_unat table_checks dest!: insert_sources_Inr)

lemma add_sources_lookup:
  "fmlookup (add_sources a (enumerate n ds) m) (b, i) =
    (if b = a \<and> int n \<le> i \<and> i < int (n + length ds) then Some (ds ! nat (i - int n)) else fmlookup m (b, i))"
proof (induction ds arbitrary: n m)
  case Nil
  then show ?case by (auto simp: add_sources_def)
next
  case (Cons d ds)
  have step: "add_sources a (enumerate n (d # ds)) m = add_sources a (enumerate (Suc n) ds) (fmupd (a, int n) d m)"
    by (simp add: add_sources_def)
  show ?case
    unfolding step Cons.IH
    by (auto simp: nth_Cons' nat_diff_distrib intro!: arg_cong [of _ _ "nth ds"])
qed

lemma add_sources_dom: "fmdom m |\<subseteq>| fmdom (add_sources a (enumerate n ds) m)"
  by (auto simp: fmlookup_dom_iff add_sources_lookup)

lemma provenance_sources_inserted:
  assumes "\<And>i. (am_atom_id atom, i) |\<notin>| fmdom (db_provenance_sources db)"
  shows "provenance_sources (am_atom_id atom) (inserted_atom sha atom db) = am_provenance_source_digests atom"
proof -
  let ?ds = "am_provenance_source_digests atom"
  let ?m = "add_sources (am_atom_id atom) (enumerate 0 ?ds) (db_provenance_sources db)"
  have none: "fmlookup (db_provenance_sources db) (am_atom_id atom, i) = None" for i
    using assms by (simp add: fmdom_notD)
  have look: "fmlookup ?m (am_atom_id atom, i) = (if 0 \<le> i \<and> i < int (length ?ds) then Some (?ds ! nat i) else None)" for i
    by (simp add: add_sources_lookup none)
  have "(am_atom_id atom, i) |\<in>| fmdom ?m \<longleftrightarrow> 0 \<le> i \<and> i < int (length ?ds)" for i
    by (simp add: fmlookup_dom_iff look)
  note rows = filter_rows_of_draft [OF this]
  have "map (\<lambda>i. the (fmlookup ?m (am_atom_id atom, int i))) [0..<length ?ds] = map (nth ?ds) [0..<length ?ds]"
    by (rule map_cong) (simp_all add: look)
  then show ?thesis
    by (simp add: provenance_sources_def inserted_atom_def rows o_def map_nth)
qed

section \<open>Outcomes\<close>

definition stored_atom :: "AtomRecord \<Rightarrow> Database \<Rightarrow> bool" where
  "stored_atom atom db \<longleftrightarrow>
     (\<exists>h b. fmlookup (db_headers db) (am_atom_id atom) = Some h \<and> hr_body_digest h = am_body_digest atom \<and>
       fmlookup (db_bodies db) (am_atom_id atom) = Some b \<and> br_canonical_body b = am_canonical_body atom) \<and>
     fmlookup (db_provenance db) (am_atom_id atom) = Some (provenance_row_of atom) \<and>
     provenance_sources (am_atom_id atom) db = am_provenance_source_digests atom"

lemma put_atom_present:
  assumes "has_header (re_database r) (am_atom_id atom)" "validate_atom sha js atom = Inr ()"
  shows "put_atom_transaction sha js atom r =
    (if stored_atom atom (re_database r) then (Inr False, r)
     else (fst (put_atom_transaction sha js atom r), r))"
    "fst (put_atom_transaction sha js atom r) = Inr v \<Longrightarrow> stored_atom atom (re_database r)"
proof -
  obtain h where h: "fmlookup (db_headers (re_database r)) (am_atom_id atom) = Some h"
    using assms(1) by (auto simp: has_header_def fmlookup_dom_iff)
  show "put_atom_transaction sha js atom r =
    (if stored_atom atom (re_database r) then (Inr False, r)
     else (fst (put_atom_transaction sha js atom r), r))"
    "fst (put_atom_transaction sha js atom r) = Inr v \<Longrightarrow> stored_atom atom (re_database r)"
    using assms(2) h
    by (auto simp: put_atom_transaction_def find_row_def stored_atom_def verify_atom_provenance_transaction_def
        split: option.splits if_splits)
qed

lemma put_atom_Inr:
  assumes "put_atom_transaction sha js atom r = (Inr fresh, r')"
  shows "validate_atom sha js atom = Inr ()"
    and "fresh \<longleftrightarrow> \<not> has_header (re_database r) (am_atom_id atom)"
    and "fresh \<Longrightarrow> check_cohort_open atom (re_database r) = Inr () \<and>
      r' = r\<lparr>re_database := inserted_atom sha atom (re_database r)\<rparr>"
    and "\<not> fresh \<Longrightarrow> r' = r \<and> stored_atom atom (re_database r)"
proof -
  show v: "validate_atom sha js atom = Inr ()" using assms by (auto simp: put_atom_transaction_def and_then_Inr)
  show fresh: "fresh \<longleftrightarrow> \<not> has_header (re_database r) (am_atom_id atom)"
  proof (cases "fmlookup (db_headers (re_database r)) (am_atom_id atom)")
    case None
    then show ?thesis
      using assms by (auto simp: put_atom_transaction_def find_row_def v has_header_def fmdom_notI and_then_Inr split: sum.splits)
  next
    case (Some h)
    then show ?thesis
      using assms by (auto simp: put_atom_transaction_def find_row_def v has_header_def fmdomI split: if_splits sum.splits)
  qed
  show "fresh \<Longrightarrow> check_cohort_open atom (re_database r) = Inr () \<and>
      r' = r\<lparr>re_database := inserted_atom sha atom (re_database r)\<rparr>"
    using assms fresh by (auto simp: put_atom_transaction_def find_row_def v has_header_def fmlookup_dom_iff and_then_Inr
        split: option.splits sum.splits dest: insert_atom_rows_Inr)
  show "\<not> fresh \<Longrightarrow> r' = r \<and> stored_atom atom (re_database r)"
    using put_atom_present(1) [of r atom sha js] put_atom_present(2) [of r atom sha js fresh] v assms fresh by (auto split: if_splits)
qed

end
