(* ===== verification/WriteLaws.thy ===== *)
theory WriteLaws
  imports AtomLaws
begin

text \<open>
  The invariant of the tables and its preservation by the write path: the schema, gapless drafts,
  feedback counters, content-addressed atoms that are validated bodies of the core crate, and
  relations inside one memory space.
\<close>

section \<open>More rules for operations\<close>

definition gives :: "('a \<Rightarrow> bool) \<Rightarrow> ('s, 'a) action \<Rightarrow> bool" where
  "gives Q m \<longleftrightarrow> (\<forall>s x s'. m s = (Inr x, s') \<longrightarrow> Q x)"

lemma keeps_and_then_pure: "(\<And>x. m = Inr x \<Longrightarrow> keeps P (f x)) \<Longrightarrow> keeps P (and_then (pure m) f)"
  by (cases m) simp_all

lemma keeps_and_then_gives:
  assumes "keeps P m" "gives Q m" "\<And>x. Q x \<Longrightarrow> keeps P (f x)"
  shows "keeps P (and_then m f)"
proof (rule keepsI)
  fix s assume "P s"
  obtain x s' where m: "m s = (x, s')" by fastforce
  with assms(1) \<open>P s\<close> have "P s'" using keepsD by fastforce
  show "P (snd (and_then m f s))"
  proof (cases x)
    case (Inl e)
    then show ?thesis using m \<open>P s'\<close> by (simp add: and_then_def)
  next
    case (Inr y)
    then have "Q y" using m assms(2) unfolding gives_def by blast
    then have "P (snd (f y s'))" using keepsD [OF assms(3) \<open>P s'\<close>] by blast
    then show ?thesis using m Inr by (simp add: and_then_def)
  qed
qed

lemma keeps_select: "keeps P (select q)"
  by (simp add: keeps_def)

lemma keeps_option: "keeps P m \<Longrightarrow> (\<And>x. keeps P (f x)) \<Longrightarrow> keeps P (case v of None \<Rightarrow> m | Some x \<Rightarrow> f x)"
  by (cases v) simp_all

lemma keeps_conj: "keeps P m \<Longrightarrow> keeps Q m \<Longrightarrow> keeps (\<lambda>s. P s \<and> Q s) m"
  by (simp add: keeps_def)

lemmas keeps_rules = keeps_and_then_pure keeps_and_then keeps_pure keeps_select keeps_if keeps_option keeps_transaction keeps_each

section \<open>The invariant\<close>

text \<open>
  A header, its state, its body and its provenance: the canonical bytes are those of a valid body.  An
  atom that has been forgotten has no body and no search projection left.
\<close>

definition body_ok :: "(byte list \<Rightarrow> Digest32) \<Rightarrow> Database \<Rightarrow> Digest32 \<Rightarrow> header_row \<Rightarrow> bool" where
  "body_ok sha db atom h \<longleftrightarrow>
     (\<exists>b body. fmlookup (db_bodies db) atom = Some b \<and> atom_body_wf sha body \<and>
        body_canonical_bytes body = Inr (br_canonical_body b) \<and>
        atom_id sha body = Inr (AtomId atom) \<and>
        hr_body_bytes h = int (length (br_canonical_body b)) \<and>
        hr_memory_space_id h = sc_memory_space_id (bd_scope body) \<and>
        hr_atom_kind h = atom_kind_text (bd_payload body) \<and>
        hr_recorded_at_us h = int (unat (iv_recorded_at_us (bd_interval body))) \<and>
        hr_retention_permission h = retention_permission_text (bd_retention_permission body)) \<and>
     fmlookup (db_projections db) atom \<noteq> None"

definition erased :: "Database \<Rightarrow> Digest32 \<Rightarrow> bool" where
  "erased db atom \<longleftrightarrow> fmlookup (db_bodies db) atom = None \<and> fmlookup (db_projections db) atom = None"

definition status_of :: "Database \<Rightarrow> Digest32 \<Rightarrow> string option" where
  "status_of db atom = map_option sr_content_status (fmlookup (db_states db) atom)"

definition atom_ok :: "(byte list \<Rightarrow> Digest32) \<Rightarrow> Database \<Rightarrow> Digest32 \<Rightarrow> header_row \<Rightarrow> bool" where
  "atom_ok sha db atom h \<longleftrightarrow>
     hr_body_digest h = atom \<and>
     (if status_of db atom = Some ''forgotten'' then erased db atom else body_ok sha db atom h) \<and>
     (\<exists>p. fmlookup (db_provenance db) atom = Some p \<and> hr_provenance_digest h = pw_provenance_digest p \<and>
        hash_prefixed sha PROVENANCE_HASH_DOMAIN (pw_canonical_provenance p) = pw_provenance_digest p)"

definition atoms_wf :: "(byte list \<Rightarrow> Digest32) \<Rightarrow> Database \<Rightarrow> bool" where
  "atoms_wf sha db \<longleftrightarrow> (\<forall>atom h. fmlookup (db_headers db) atom = Some h \<longrightarrow> atom_ok sha db atom h)"

definition space_of :: "Database \<Rightarrow> Digest32 \<Rightarrow> string option" where
  "space_of db atom = map_option hr_memory_space_id (fmlookup (db_headers db) atom)"

definition spaces_ok :: "Database \<Rightarrow> bool" where
  "spaces_ok db \<longleftrightarrow> (\<forall>source target kind. (source, target, kind) |\<in>| fmdom (db_relations db) \<longrightarrow>
     space_of db source \<noteq> None \<and> space_of db source = space_of db target)"

text \<open>Only atoms that are not forgotten have live artifact references.\<close>

definition kept :: "Database \<Rightarrow> Digest32 \<Rightarrow> bool" where
  "kept db atom \<longleftrightarrow> (\<exists>status. status_of db atom = Some status \<and> status \<noteq> ''forgotten'')"

definition refs_ok :: "Database \<Rightarrow> bool" where
  "refs_ok db \<longleftrightarrow> (\<forall>d atom role. (d, atom, role) |\<in>| fmdom (db_artifact_refs db) \<longrightarrow> kept db atom)"

definition db_inv :: "(byte list \<Rightarrow> Digest32) \<Rightarrow> json_codec \<Rightarrow> Database \<Rightarrow> bool" where
  "db_inv sha js db \<longleftrightarrow> schema_ok js db \<and> drafts_wf sha db \<and> counters_ok db \<and> atoms_wf sha db \<and> spaces_ok db \<and>
     refs_ok db"

lemma db_invD:
  assumes "db_inv sha js db"
  shows "schema_ok js db" "drafts_wf sha db" "counters_ok db" "atoms_wf sha db" "spaces_ok db" "refs_ok db"
  using assms by (simp_all add: db_inv_def)

text \<open>The link tables do not matter to the invariants of drafts, counters and atoms.\<close>

definition same_core :: "Database \<Rightarrow> Database \<Rightarrow> bool" where
  "same_core db db' \<longleftrightarrow> db_drafts db' = db_drafts db \<and> db_events db' = db_events db \<and> db_headers db' = db_headers db \<and>
     db_bodies db' = db_bodies db \<and> db_states db' = db_states db \<and> db_provenance db' = db_provenance db \<and>
     db_projections db' = db_projections db \<and> db_feedback db' = db_feedback db"

lemma same_core_wf:
  assumes "same_core db db'"
  shows "drafts_wf sha db \<Longrightarrow> drafts_wf sha db'" "counters_ok db \<Longrightarrow> counters_ok db'" "atoms_wf sha db \<Longrightarrow> atoms_wf sha db'"
    "space_of db' = space_of db" "kept db' = kept db"
proof -
  have "status_of db' = status_of db" "erased db' = erased db" "body_ok sha db' = body_ok sha db"
    using assms by (simp_all add: same_core_def status_of_def erased_def body_ok_def fun_eq_iff)
  then show "drafts_wf sha db \<Longrightarrow> drafts_wf sha db'" "counters_ok db \<Longrightarrow> counters_ok db'" "atoms_wf sha db \<Longrightarrow> atoms_wf sha db'"
    "space_of db' = space_of db" "kept db' = kept db"
    using assms
    by (simp_all add: same_core_def drafts_wf_def counters_ok_def feedback_of_def has_header_def atoms_wf_def atom_ok_def
        space_of_def kept_def fun_eq_iff)
qed

lemma refs_ok_frame: "kept db' = kept db \<Longrightarrow> db_artifact_refs db' = db_artifact_refs db \<Longrightarrow> refs_ok db \<Longrightarrow> refs_ok db'"
  by (simp add: refs_ok_def)

lemma same_core_spaces: "same_core db db' \<Longrightarrow> db_relations db' = db_relations db \<Longrightarrow> spaces_ok db \<Longrightarrow> spaces_ok db'"
  unfolding spaces_ok_def using same_core_wf(4) by metis

text \<open>What changes only drafts and events.\<close>

definition same_atoms :: "Database \<Rightarrow> Database \<Rightarrow> bool" where
  "same_atoms db db' \<longleftrightarrow> db_headers db' = db_headers db \<and> db_bodies db' = db_bodies db \<and> db_states db' = db_states db \<and>
     db_provenance db' = db_provenance db \<and> db_projections db' = db_projections db \<and> db_feedback db' = db_feedback db \<and>
     db_relations db' = db_relations db \<and> db_artifact_refs db' = db_artifact_refs db"

lemma same_atoms_wf:
  assumes "same_atoms db db'"
  shows "counters_ok db' = counters_ok db" "atoms_wf sha db' = atoms_wf sha db" "spaces_ok db' = spaces_ok db"
    "refs_ok db' = refs_ok db" "kept db' = kept db"
  using assms
  by (simp_all add: same_atoms_def counters_ok_def feedback_of_def has_header_def atoms_wf_def atom_ok_def body_ok_def erased_def
      status_of_def spaces_ok_def space_of_def refs_ok_def kept_def fun_eq_iff)

lemma db_inv_same_atoms:
  "same_atoms db db' \<Longrightarrow> db_inv sha js db \<Longrightarrow> schema_ok js db' \<Longrightarrow> drafts_wf sha db' \<Longrightarrow> db_inv sha js db'"
  by (simp add: db_inv_def same_atoms_wf)

lemma db_inv_same_core:
  assumes "db_inv sha js db" "same_core db db'" "db_relations db' = db_relations db" "refs_ok db'" "schema_ok js db'"
  shows "db_inv sha js db'"
  using assms same_core_wf [OF assms(2)] same_core_spaces [OF assms(2,3)] by (simp add: db_inv_def)

section \<open>Inserting an atom\<close>

lemma from_core_Inr:
  assumes "from_core sha js body state = Inr atom"
  shows "atom_body_wf sha body" "body_canonical_bytes body = Inr (am_canonical_body atom)"
    "atom_id sha body = Inr (AtomId (am_atom_id atom))" "am_body_digest atom = am_atom_id atom"
    "am_memory_space_id atom = sc_memory_space_id (bd_scope body)" "am_atom_kind atom = atom_kind_text (bd_payload body)"
    "am_recorded_at_us atom = iv_recorded_at_us (bd_interval body)"
    "am_retention_permission atom = retention_permission_text (bd_retention_permission body)"
    "am_provenance_digest atom = hash_prefixed sha PROVENANCE_HASH_DOMAIN (am_canonical_provenance atom)"
  using assms
  by (auto simp: from_core_def bindr_Inr core_Inr json_Inr validate_memory_atom_body_Inr)

lemma inserted_atom_ok:
  assumes core: "from_core sha js body state = Inr atom" and status: "am_content_status atom \<noteq> ''forgotten''"
  shows "atom_ok sha (inserted_atom sha atom db) (am_atom_id atom)
    (header_row_of atom (int (unat (am_recorded_at_us atom))) (int (length (am_canonical_body atom))))"
  using from_core_Inr [OF core]
  using status
  by (auto simp: atom_ok_def body_ok_def status_of_def inserted_atom_def header_row_of_def body_row_of_def provenance_row_of_def
      state_row_of_def simp del: of_nat_unat intro!: exI [of _ body])

lemma inserted_atoms_wf:
  assumes "from_core sha js body state = Inr atom" "am_content_status atom \<noteq> ''forgotten''" "atoms_wf sha db"
    "\<not> has_header db (am_atom_id atom)"
  shows "atoms_wf sha (inserted_atom sha atom db)"
  unfolding atoms_wf_def
proof (intro allI impI)
  fix a h assume h: "fmlookup (db_headers (inserted_atom sha atom db)) a = Some h"
  show "atom_ok sha (inserted_atom sha atom db) a h"
  proof (cases "a = am_atom_id atom")
    case True
    then show ?thesis using h inserted_atom_ok [OF assms(1,2)] by (auto simp: inserted_atom_def)
  next
    case False
    then have "atom_ok sha db a h" using h assms(3) by (auto simp: inserted_atom_def atoms_wf_def)
    moreover have "status_of (inserted_atom sha atom db) a = status_of db a" "erased (inserted_atom sha atom db) a = erased db a"
      "body_ok sha (inserted_atom sha atom db) a h = body_ok sha db a h"
      using False by (simp_all add: status_of_def erased_def body_ok_def inserted_atom_def)
    ultimately show ?thesis using False by (simp add: atom_ok_def) (simp add: inserted_atom_def)
  qed
qed

lemma inserted_spaces_ok:
  assumes "spaces_ok db" "\<not> has_header db (am_atom_id atom)"
  shows "spaces_ok (inserted_atom sha atom db)"
proof -
  have "space_of db (am_atom_id atom) = None" using assms(2) by (simp add: space_of_def has_header_def fmdom_notD)
  moreover have "space_of (inserted_atom sha atom db) a = space_of db a" if "space_of db a \<noteq> None" for a
    using that calculation by (auto simp: space_of_def inserted_atom_def)
  ultimately show ?thesis
    using assms(1) unfolding spaces_ok_def by (simp add: inserted_atom_def) metis
qed

lemma inserted_counters_ok:
  assumes "counters_ok db" "table_ok feedback_table db" "\<not> has_header db (am_atom_id atom)"
  shows "counters_ok (inserted_atom sha atom db)"
proof -
  let ?id = "am_atom_id atom"
  have fb: "feedback_of (inserted_atom sha atom db) = feedback_of db"
    by (simp add: feedback_of_def inserted_atom_def fun_eq_iff)
  have none: "feedback_of db ?id out = {}" for out
    using assms(2,3) by (auto simp: feedback_of_def table_ok_def) metis
  show ?thesis
    using assms(1) none unfolding counters_ok_def fb
    by (auto simp: inserted_atom_def has_header_def state_row_of_def split: if_splits)
qed

lemma inserted_kept:
  "kept (inserted_atom sha atom db) a \<longleftrightarrow> (if a = am_atom_id atom then am_content_status atom \<noteq> ''forgotten'' else kept db a)"
  by (simp add: kept_def status_of_def inserted_atom_def state_row_of_def)

lemma inserted_refs_ok:
  assumes "refs_ok db" "am_content_status atom \<noteq> ''forgotten''"
  shows "refs_ok (inserted_atom sha atom db)"
  using assms unfolding refs_ok_def inserted_kept by (auto simp: inserted_atom_def)

lemma inserted_drafts_wf: "drafts_wf sha db \<Longrightarrow> drafts_wf sha (inserted_atom sha' atom db)"
  by (simp add: drafts_wf_def inserted_atom_def)

lemma preserves_search [intro]: "preserves (schema_ok js) (insert_search a b)"
  by (auto simp: preserves_def insert_search_def schema_ok_def parents_grow_def intro: table_frames)

lemma keeps_insert_rows: "keeps_db (schema_ok js) (insert_atom_rows sha js atom)"
  unfolding insert_atom_rows_def insert_atom_provenance_transaction_def insert_provenance_source_def Let_def split_beta
  by (intro keeps_rules schema_keeps keeps_execute [OF preserves_search])

lemma put_atom_schema: "keeps_db (schema_ok js) (put_atom_transaction sha js atom)"
  unfolding put_atom_transaction_def by (intro keeps_rules keeps_insert_rows)

section \<open>Inside a transaction\<close>

text \<open>
  Inside a transaction an invariant has to hold again only when the body succeeds; a body that fails
  is rolled back.
\<close>

definition carries :: "(Database \<Rightarrow> bool) \<Rightarrow> (SqliteRepository, 'a) action \<Rightarrow> bool" where
  "carries P m \<longleftrightarrow> (\<forall>r x r'. P (re_database r) \<longrightarrow> m r = (Inr x, r') \<longrightarrow> P (re_database r'))"

lemma carriesI: "(\<And>r x r'. P (re_database r) \<Longrightarrow> m r = (Inr x, r') \<Longrightarrow> P (re_database r')) \<Longrightarrow> carries P m"
  unfolding carries_def by blast

lemma carriesD: "carries P m \<Longrightarrow> P (re_database r) \<Longrightarrow> m r = (Inr x, r') \<Longrightarrow> P (re_database r')"
  unfolding carries_def by blast

lemma carries_keeps: "keeps_db P m \<Longrightarrow> carries P m"
  by (fastforce simp: carries_def keeps_def)

lemma carries_and_then: "carries P m \<Longrightarrow> (\<And>x. carries P (f x)) \<Longrightarrow> carries P (and_then m f)"
  unfolding carries_def and_then_Inr by blast

lemma carries_each: "(\<And>x. x \<in> set xs \<Longrightarrow> carries P (f x)) \<Longrightarrow> carries P (each f xs)"
  by (induction xs) (auto intro: carries_and_then carries_keeps keeps_pure)

lemma carries_basic: "carries P (pure x)" "carries P (select q)" "carries P (query q')"
  by (auto simp: carries_def)

lemma carries_if: "(c \<Longrightarrow> carries P m) \<Longrightarrow> (\<not> c \<Longrightarrow> carries P n) \<Longrightarrow> carries P (if c then m else n)"
  by simp

lemma keeps_transaction_carries:
  assumes "carries P body"
  shows "keeps_db P (transaction body)"
proof (rule keepsI)
  fix r :: SqliteRepository assume "P (re_database r)"
  then show "P (re_database (snd (transaction body r)))"
    using carriesD [OF assms] by (cases "body r"; cases "fst (body r)") (auto simp: snd_transaction)
qed

lemmas carries_rules = carries_and_then carries_each carries_basic carries_if

lemma put_atom_inv:
  assumes "from_core sha js body state = Inr atom" "am_content_status atom \<noteq> ''forgotten''"
  shows "carries (db_inv sha js) (put_atom_transaction sha js atom)"
proof (rule carriesI)
  fix r r' fresh
  assume inv: "db_inv sha js (re_database r)" and run: "put_atom_transaction sha js atom r = (Inr fresh, r')"
  have schema: "schema_ok js (re_database r')"
    by (rule carriesD [OF carries_keeps [OF put_atom_schema] db_invD(1) [OF inv] run])
  show "db_inv sha js (re_database r')"
  proof (cases fresh)
    case True
    then have "\<not> has_header (re_database r) (am_atom_id atom)" "re_database r' = inserted_atom sha atom (re_database r)"
      using put_atom_Inr(2,3) [OF run] by auto
    then show ?thesis
      using inv schema inserted_atoms_wf [OF assms] inserted_spaces_ok inserted_counters_ok inserted_drafts_wf
        inserted_refs_ok [OF _ assms(2)]
      by (auto simp: db_inv_def schema_ok_def)
  next
    case False
    then show ?thesis using put_atom_Inr(4) [OF run] inv by auto
  qed
qed

text \<open>After an insertion that succeeds the atom has its body.\<close>

lemma put_atom_kept:
  assumes inv: "db_inv sha js (re_database r)" and run: "put_atom_transaction sha js atom r = (Inr fresh, r')"
    and status: "am_content_status atom \<noteq> ''forgotten''"
  shows "kept (re_database r') (am_atom_id atom)" "kept (re_database r) a \<Longrightarrow> kept (re_database r') a"
proof -
  show "kept (re_database r') (am_atom_id atom)"
  proof (cases fresh)
    case True
    then have "re_database r' = inserted_atom sha atom (re_database r)" using put_atom_Inr(3) [OF run] by simp
    then show ?thesis using status by (simp add: inserted_kept)
  next
    case False
    then have post: "r' = r" "stored_atom atom (re_database r)" using put_atom_Inr(4) [OF run] by auto
    then obtain h b where h: "fmlookup (db_headers (re_database r)) (am_atom_id atom) = Some h"
      "fmlookup (db_bodies (re_database r)) (am_atom_id atom) = Some b" by (auto simp: stored_atom_def)
    have "atom_ok sha (re_database r) (am_atom_id atom) h" using db_invD(4) [OF inv] h(1) by (simp add: atoms_wf_def)
    with h(2) have "status_of (re_database r) (am_atom_id atom) \<noteq> Some ''forgotten''"
      by (auto simp: atom_ok_def erased_def)
    moreover have "am_atom_id atom |\<in>| fmdom (db_states (re_database r))"
      using db_invD(3) [OF inv] h(1) by (auto simp: counters_ok_def has_header_def fmlookup_dom_iff)
    ultimately show ?thesis by (auto simp: post kept_def status_of_def fmlookup_dom_iff)
  qed
  show "kept (re_database r') a" if "kept (re_database r) a"
    using that put_atom_Inr(3,4) [OF run] status by (cases fresh) (auto simp: inserted_kept)
qed

section \<open>Links\<close>

lemma same_core_refl [simp]: "same_core db db"
  by (simp add: same_core_def)

lemma same_core_trans: "same_core a b \<Longrightarrow> same_core b c \<Longrightarrow> same_core a c"
  by (simp add: same_core_def)

lemma keeps_artifact_link: "keeps_db (schema_ok js) (insert_artifact_link atom link)"
  unfolding insert_artifact_link_def clear_gc_mark_def by (intro keeps_rules schema_keeps)

lemma keeps_relation_link: "keeps_db (schema_ok js) (insert_relation_link sha atom link)"
  unfolding insert_relation_link_def by (intro keeps_rules schema_keeps)

text \<open>Storing artifact rows and artifact links leaves everything else alone.\<close>

definition link_frame :: "Database \<Rightarrow> Database \<Rightarrow> bool" where
  "link_frame db db' \<longleftrightarrow> same_core db db' \<and> db_relations db' = db_relations db"

interpretation link: db_preorder link_frame
  by unfold_locales (auto simp: link_frame_def intro: same_core_trans)

lemma link_frame_statements:
  "moves link_frame (execute (update_row artifacts_table d p f))"
  "moves link_frame (execute (insert_row artifacts_table d row))"
  "moves link_frame (execute (insert_ignore artifacts_table d row))"
  "moves link_frame (execute (insert_ignore artifact_refs_table k v))"
  "moves link_frame (execute (insert_ignore artifact_provenance_table k v))"
  by (rule link.moves_execute, auto simp: artifacts_tab.update_row_Inr artifacts_tab.insert_row_Inr artifacts_tab.insert_ignore_Inr
      artifact_refs_tab.insert_ignore_Inr artifact_provenance_tab.insert_ignore_Inr link_frame_def same_core_def split: if_splits)+

lemma insert_artifact_link_frame: "moves link_frame (insert_artifact_link atom link)"
  unfolding insert_artifact_link_def put_once_def clear_gc_mark_def
  by (intro link.moves_and_then link.moves_pure link_frame_statements)

lemma movesD: "moves R m \<Longrightarrow> m r = (x, r') \<Longrightarrow> R (re_database r) (re_database r')"
  unfolding moves_def by (metis snd_conv)

lemma db_inv_link_frame: "db_inv sha js db \<Longrightarrow> link_frame db db' \<Longrightarrow> refs_ok db' \<Longrightarrow> schema_ok js db' \<Longrightarrow> db_inv sha js db'"
  using db_inv_same_core unfolding link_frame_def by blast

lemma link_frame_refs_ok:
  "link_frame db db' \<Longrightarrow> db_artifact_refs db' = db_artifact_refs db \<Longrightarrow> db_inv sha js db \<Longrightarrow> refs_ok db'"
  using refs_ok_frame [OF same_core_wf(5)] db_invD(6) unfolding link_frame_def by blast

text \<open>The atoms of \<open>A\<close> may be linked: they are there and not forgotten.\<close>

definition linkable :: "(byte list \<Rightarrow> Digest32) \<Rightarrow> json_codec \<Rightarrow> Digest32 set \<Rightarrow> Database \<Rightarrow> bool" where
  "linkable sha js A db \<longleftrightarrow> db_inv sha js db \<and> (\<forall>atom \<in> A. kept db atom)"

lemma linkable_inv: "linkable sha js A db \<Longrightarrow> db_inv sha js db"
  by (simp add: linkable_def)

lemma linkable_empty: "linkable sha js {} = db_inv sha js"
  by (simp add: linkable_def fun_eq_iff)

lemma linkable_same_atoms:
  "same_atoms db db' \<Longrightarrow> linkable sha js A db \<Longrightarrow> schema_ok js db' \<Longrightarrow> drafts_wf sha db' \<Longrightarrow> linkable sha js A db'"
  by (simp add: linkable_def db_inv_same_atoms same_atoms_wf)

text \<open>A step may establish more than it needs.\<close>

definition leads :: "(Database \<Rightarrow> bool) \<Rightarrow> (Database \<Rightarrow> bool) \<Rightarrow> (SqliteRepository, 'a) action \<Rightarrow> bool" where
  "leads P Q m \<longleftrightarrow> (\<forall>r x r'. P (re_database r) \<longrightarrow> m r = (Inr x, r') \<longrightarrow> Q (re_database r'))"

lemma leadsI: "(\<And>r x r'. P (re_database r) \<Longrightarrow> m r = (Inr x, r') \<Longrightarrow> Q (re_database r')) \<Longrightarrow> leads P Q m"
  unfolding leads_def by blast

lemma leads_carries: "carries P m \<Longrightarrow> leads P P m"
  by (simp add: leads_def carries_def)

lemma leads_and_then: "leads P Q m \<Longrightarrow> (\<And>x. leads Q R (f x)) \<Longrightarrow> leads P R (and_then m f)"
  unfolding leads_def and_then_Inr by blast

lemma leads_weaken: "leads P Q m \<Longrightarrow> (\<And>db. Q db \<Longrightarrow> R db) \<Longrightarrow> leads P R m"
  unfolding leads_def by blast

lemma carries_leads: "leads P Q m \<Longrightarrow> (\<And>db. Q db \<Longrightarrow> P db) \<Longrightarrow> carries P m"
  unfolding leads_def carries_def by blast

lemma put_atom_leads:
  assumes "from_core sha js body state = Inr atom" "am_content_status atom \<noteq> ''forgotten''"
  shows "leads (linkable sha js A) (linkable sha js (insert (am_atom_id atom) A)) (put_atom_transaction sha js atom)"
proof (rule leadsI)
  fix r r' fresh assume A: "linkable sha js A (re_database r)" and run: "put_atom_transaction sha js atom r = (Inr fresh, r')"
  note inv = linkable_inv [OF A]
  show "linkable sha js (insert (am_atom_id atom) A) (re_database r')"
    using A put_atom_kept [OF inv run assms(2)] carriesD [OF put_atom_inv [OF assms] inv run] by (simp add: linkable_def)
qed

lemma carries_put_links:
  assumes "from_core sha js body state = Inr atom" "am_content_status atom \<noteq> ''forgotten''"
    "\<And>x. carries (linkable sha js {am_atom_id atom}) (f x)"
  shows "carries (db_inv sha js) (and_then (put_atom_transaction sha js atom) f)"
proof (rule carries_leads)
  show "leads (db_inv sha js) (linkable sha js {am_atom_id atom}) (and_then (put_atom_transaction sha js atom) f)"
    using leads_and_then [OF put_atom_leads [OF assms(1,2), where A = "{}"], unfolded linkable_empty] leads_carries [OF assms(3)] by blast
qed (rule linkable_inv)

lemma artifact_link_refs:
  assumes "insert_artifact_link atom link r = (Inr u, r')"
  shows "fmdom (db_artifact_refs (re_database r')) |\<subseteq>|
    finsert (al_artifact_digest link, atom, al_role link) (fmdom (db_artifact_refs (re_database r)))"
  using assms
  by (auto simp: insert_artifact_link_def and_then_Inr artifact_refs_tab.put_once_Inr artifact_provenance_tab.put_once_Inr
      clear_gc_mark_def execute_Inr artifacts_tab.update_row_Inr split: option.splits if_splits)

lemma insert_artifact_link_inv:
  assumes "atom \<in> A"
  shows "carries (linkable sha js A) (insert_artifact_link atom link)"
proof (rule carriesI)
  fix r r' u assume A: "linkable sha js A (re_database r)" and run: "insert_artifact_link atom link r = (Inr u, r')"
  note inv = linkable_inv [OF A]
  have schema: "schema_ok js (re_database r')"
    by (rule carriesD [OF carries_keeps [OF keeps_artifact_link] db_invD(1) [OF inv] run])
  have frame: "link_frame (re_database r) (re_database r')" by (rule movesD [OF insert_artifact_link_frame run])
  then have kept: "kept (re_database r') = kept (re_database r)" using same_core_wf(5) unfolding link_frame_def by blast
  have "refs_ok (re_database r')"
    using artifact_link_refs [OF run] db_invD(6) [OF inv] A assms unfolding refs_ok_def kept linkable_def by blast
  then show "linkable sha js A (re_database r')"
    using db_inv_link_frame [OF inv frame] schema A kept by (simp add: linkable_def)
qed

lemma validate_relation_memory_space_Inr:
  "validate_relation_memory_space source target db = Inr u \<longleftrightarrow>
    space_of db source \<noteq> None \<and> space_of db source = space_of db target"
  by (cases "fmlookup (db_headers db) source"; cases "fmlookup (db_headers db) target")
    (auto simp: validate_relation_memory_space_def load_atom_memory_space_def space_of_def)

lemma insert_relation_link_Inr:
  assumes "insert_relation_link sha atom link r = (Inr u, r')"
  shows "space_of (re_database r) atom \<noteq> None"
    "space_of (re_database r) atom = space_of (re_database r) (rl_target_atom_id link)"
    "\<exists>d. re_database r' = (re_database r)\<lparr>db_relations :=
       fmupd (atom, rl_target_atom_id link, rl_relation_kind link) d (db_relations (re_database r))\<rparr>"
proof -
  from assms have "validate_relation_memory_space atom (rl_target_atom_id link) (re_database r) = Inr ()"
    and put: "put_once relations_table (atom, rl_target_atom_id link, rl_relation_kind link) (sha (rl_canonical_relation link)) (\<lambda>d. d)
       (''relation '' @ to_hex atom @ '' -> '' @ to_hex (rl_target_atom_id link) @ '' ('' @ rl_relation_kind link @ '')'') r = (Inr u, r')"
    by (auto simp: insert_relation_link_def split: sum.splits)
  then show "space_of (re_database r) atom \<noteq> None"
    "space_of (re_database r) atom = space_of (re_database r) (rl_target_atom_id link)"
    unfolding validate_relation_memory_space_Inr by blast+
  show "\<exists>d. re_database r' = (re_database r)\<lparr>db_relations :=
       fmupd (atom, rl_target_atom_id link, rl_relation_kind link) d (db_relations (re_database r))\<rparr>"
  proof (cases "fmlookup (db_relations (re_database r)) (atom, rl_target_atom_id link, rl_relation_kind link)")
    case None
    then show ?thesis using put by (auto simp: relations_tab.put_once_Inr)
  next
    case (Some d)
    then show ?thesis using put by (intro exI [of _ d]) (auto simp: relations_tab.put_once_Inr fmupd_same)
  qed
qed

lemma insert_relation_link_inv: "carries (linkable sha js A) (insert_relation_link sha atom link)"
proof (rule carriesI)
  fix r r' u assume A: "linkable sha js A (re_database r)" and run: "insert_relation_link sha atom link r = (Inr u, r')"
  note inv = linkable_inv [OF A]
  have schema: "schema_ok js (re_database r')"
    by (rule carriesD [OF carries_keeps [OF keeps_relation_link] db_invD(1) [OF inv] run])
  obtain d where post: "re_database r' = (re_database r)\<lparr>db_relations :=
       fmupd (atom, rl_target_atom_id link, rl_relation_kind link) d (db_relations (re_database r))\<rparr>"
    using insert_relation_link_Inr(3) [OF run] by blast
  have core: "same_core (re_database r) (re_database r')" by (simp add: post same_core_def)
  have "spaces_ok (re_database r')"
    using db_invD(5) [OF inv] insert_relation_link_Inr(1,2) [OF run] same_core_wf(4) [OF core]
    unfolding spaces_ok_def by (simp add: post) metis
  moreover have "refs_ok (re_database r')"
    by (rule refs_ok_frame [OF same_core_wf(5) [OF core] _ db_invD(6) [OF inv]]) (simp add: post)
  ultimately show "linkable sha js A (re_database r')"
    using inv schema A same_core_wf [OF core] by (simp add: linkable_def db_inv_def)
qed

lemma insert_links_inv: "atom \<in> A \<Longrightarrow> carries (linkable sha js A) (insert_atom_links_transaction sha atom artifact_links relation_links)"
  unfolding insert_atom_links_transaction_def
  by (intro carries_rules insert_artifact_link_inv insert_relation_link_inv)

section \<open>Sealing\<close>

lemma seal_status_inv: "carries (linkable sha js A) (execute (seal_status draft atom))"
proof (rule carriesI)
  fix r r' n assume A: "linkable sha js A (re_database r)" and run: "execute (seal_status draft atom) r = (Inr n, r')"
  note inv = linkable_inv [OF A]
  have "carries (schema_ok js) (execute (seal_status draft atom))"
    unfolding seal_status_def by (intro carries_keeps schema_keeps)
  then have schema: "schema_ok js (re_database r')" using db_invD(1) [OF inv] run unfolding carries_def by blast
  consider "re_database r' = re_database r"
    | row where "fmlookup (db_drafts (re_database r)) draft = Some row"
      "re_database r' = (re_database r)\<lparr>db_drafts := fmupd draft (row\<lparr>dr_status := Sealed, dr_sealed_atom_id := Some atom\<rparr>) (db_drafts (re_database r))\<rparr>"
    using run by (auto simp: execute_Inr seal_status_def drafts_tab.update_row_Inr split: if_splits)
  then show "linkable sha js A (re_database r')"
  proof cases
    case 1
    then show ?thesis using A by simp
  next
    case 2
    have "drafts_wf sha (re_database r')"
      using db_invD(2) [OF inv] 2(1) unfolding 2(2) drafts_wf_def by (auto split: if_splits)
    moreover have "same_atoms (re_database r) (re_database r')" by (simp add: 2(2) same_atoms_def)
    ultimately show ?thesis using linkable_same_atoms [OF _ A schema] by blast
  qed
qed

end
