(* ===== verification/GcSweep.thy ===== *)
theory GcSweep
  imports Gc
begin

text \<open>
  The sweep of the garbage collector, one candidate after the other: what a step does when it
  succeeds, what a step that fails leaves behind, and the run over a whole list of candidates.
\<close>

section \<open>Unlinking one object\<close>

definition drop_objects :: "Digest32 set \<Rightarrow> fs \<Rightarrow> fs" where
  "drop_objects D fs = fmfilter (\<lambda>p. p \<notin> object_path ` D) fs"

lemma drop_objects_lookup: "fmlookup (drop_objects D fs) p = (if p \<in> object_path ` D then None else fmlookup fs p)"
  by (simp add: drop_objects_def)

lemma drop_objects_empty [simp]: "drop_objects {} fs = fs"
  by (rule fmap_ext) (simp add: drop_objects_lookup)

lemma drop_objects_insert: "drop_objects D (fmdrop (object_path d) fs) = drop_objects (insert d D) fs"
  by (rule fmap_ext) (auto simp: drop_objects_lookup)

lemma drop_objects_drop: "drop_objects D (drop_objects E fs) = drop_objects (D \<union> E) fs"
  by (rule fmap_ext) (auto simp: drop_objects_lookup)

lemma fmdrop_absent: "fmlookup m k = None \<Longrightarrow> fmdrop k m = m"
  by (rule fmap_ext) auto

definition removable :: "(byte list \<Rightarrow> Digest32) \<Rightarrow> fs \<Rightarrow> ArtifactRecord \<Rightarrow> bool" where
  "removable sha fs entry \<longleftrightarrow> validate_record_metadata entry = Inr () \<and>
     (fmlookup fs (object_path (ac_digest entry)) = None \<or> entry \<in> entries sha fs)"

lemma object_missing:
  assumes "store_wf sha s" "fmlookup (as_files s) (object_path d) = None"
  shows "symlink_metadata (as_files s) (object_path d) = Inl NotFound"
proof (rule symlink_metadata_NotFound [OF assms(2)])
  note w = store_wfD(2,5) [OF assms(1)] store_wfD(6,7) [OF assms(1), of d]
  fix i assume "i < length (object_path d)"
  then have "i = 0 \<or> i = 1 \<or> i = 2 \<or> i = 3" by (auto simp: object_path_def)
  then have "take i (object_path d) \<in> {[], [''sha256''], dir1 d, dir2 d}"
    by (auto simp: object_path_def dir1_def dir2_def numeral_eq_Suc)
  then show "fmlookup (as_files s) (take i (object_path d)) \<in> {None, Some Directory}" using w by auto
qed

lemma removed_store_wf:
  assumes "store_wf sha s"
  shows "store_wf sha (s\<lparr>as_files := fmdrop (object_path d) (as_files s)\<rparr>)"
  using removed_wf(1,2) [OF store_wfD(1,4) [OF assms], of d] store_wfD(2,3) [OF assms]
  by (simp add: store_wf_def path_distinct)

lemma remove_verified_or_missing_eq:
  assumes wf: "store_wf sha s" and ok: "removable sha (as_files s) entry"
  shows "remove_verified_or_missing sha entry s = (Inr (), s\<lparr>as_files := fmdrop (object_path (ac_digest entry)) (as_files s)\<rparr>)"
proof -
  let ?p = "object_path (ac_digest entry)"
  have meta: "validate_record_metadata entry = Inr ()" and path: "join_root (ac_relative_path entry) = ?p"
    using ok by (auto simp: removable_def validate_record_metadata_Inr)
  show ?thesis
  proof (cases "fmlookup (as_files s) ?p")
    case None
    then show ?thesis using object_missing [OF wf None] meta path
      by (simp add: remove_verified_or_missing_def fmdrop_absent)
  next
    case (Some n)
    then have "verify_artifact sha entry (as_files s) = Inr ()" using ok by (simp add: removable_def entries_iff)
    then have verify: "verify_path sha (as_files s) ?p (ac_digest entry) (ac_byte_len entry) = Inr ()"
      using meta path by (simp add: verify_artifact_def)
    obtain bs where "n = RegularFile bs" using clean_object [OF store_wfD(4) [OF wf] Some] by blast
    then have node: "fmlookup (as_files s) ?p = Some (RegularFile bs)" using Some by simp
    have "fmlookup (as_files s) (dir2 (ac_digest entry)) \<noteq> None" using store_wfD(9) [OF wf] Some by force
    then have "sync (parent ?p) (s\<lparr>as_files := fmdrop ?p (as_files s)\<rparr>) = (Inr (), s\<lparr>as_files := fmdrop ?p (as_files s)\<rparr>)"
      by (intro sync_exists) (simp add: path_distinct)
    then show ?thesis using node verify meta path
      by (simp add: remove_verified_or_missing_def Let_def symlink_metadata_def and_then_def sys_def remove_file_def)
  qed
qed

lemma remove_verified_or_missing_fails:
  assumes wf: "store_wf sha s" and bad: "\<not> removable sha (as_files s) entry"
  shows "\<exists>e. remove_verified_or_missing sha entry s = (Inl e, s)"
proof (cases "validate_record_metadata entry")
  case (Inl e)
  then show ?thesis by (simp add: remove_verified_or_missing_def)
next
  case (Inr u)
  let ?p = "object_path (ac_digest entry)"
  have path: "join_root (ac_relative_path entry) = ?p" using Inr by (auto simp: validate_record_metadata_Inr)
  obtain n where node: "fmlookup (as_files s) ?p = Some n" using bad Inr by (auto simp: removable_def)
  have "verify_artifact sha entry (as_files s) \<noteq> Inr ()" using bad Inr by (simp add: removable_def entries_iff)
  then obtain e where "verify_path sha (as_files s) ?p (ac_digest entry) (ac_byte_len entry) = Inl e"
    using Inr path by (cases "verify_path sha (as_files s) ?p (ac_digest entry) (ac_byte_len entry)") (simp_all add: verify_artifact_def)
  then show ?thesis using node Inr path
    by (simp add: remove_verified_or_missing_def Let_def symlink_metadata_def and_then_def)
qed

section \<open>The sweep\<close>

type_synonym candidate = "ArtifactRecord \<times> int option"

abbreviation digest_of :: "candidate \<Rightarrow> ArtifactDigest" where
  "digest_of c \<equiv> ac_digest (fst c)"

text \<open>The grace period has passed since the mark.\<close>

definition grace_over :: "u64 \<Rightarrow> u64 \<Rightarrow> int \<Rightarrow> bool" where
  "grace_over as_of_us grace marked \<longleftrightarrow> unat grace \<le> unat as_of_us - unat (of_int marked :: u64)"

lemma grace_over_iff: "\<not> saturating_sub as_of_us (of_int marked) < grace \<longleftrightarrow> grace_over as_of_us grace marked"
  by (simp add: grace_over_def word_less_nat_alt unat_saturating_sub not_less)

definition sweep_action :: "u64 \<Rightarrow> u64 \<Rightarrow> ArtifactDigest set \<Rightarrow> candidate \<Rightarrow> GcAction" where
  "sweep_action as_of_us grace newly c =
     (if digest_of c \<in> newly then Marked
      else case snd c of None \<Rightarrow> Marked | Some marked \<Rightarrow> if grace_over as_of_us grace marked then Deleted else WaitingForGrace)"

text \<open>A candidate is a row that nothing uses, or an orphan that was marked in this run.\<close>

definition candidate_ok :: "Database \<Rightarrow> ArtifactDigest set \<Rightarrow> candidate \<Rightarrow> bool" where
  "candidate_ok db newly c \<longleftrightarrow> digest_of c \<in> newly \<or>
     (\<exists>row. fmlookup (db_artifacts db) (digest_of c) = Some row \<and> at_gc_marked_at_us row = snd c \<and>
        (\<forall>m. snd c = Some m \<longrightarrow> 0 \<le> m) \<and> artifact_row_ok row \<and>
        \<not> referenced db (digest_of c) \<and> \<not> pinned db (digest_of c))"

text \<open>A mark must not lie before the creation of the row.\<close>

definition markable :: "Database \<Rightarrow> int \<Rightarrow> ArtifactDigest \<Rightarrow> bool" where
  "markable db as_of d \<longleftrightarrow> (\<forall>row. fmlookup (db_artifacts db) d = Some row \<longrightarrow> at_created_at_us row \<le> as_of)"

definition step_ok :: "(byte list \<Rightarrow> Digest32) \<Rightarrow> u64 \<Rightarrow> int \<Rightarrow> u64 \<Rightarrow> ArtifactDigest set \<Rightarrow> SqliteRepository \<Rightarrow> candidate \<Rightarrow> bool" where
  "step_ok sha as_of_us as_of grace newly r c \<longleftrightarrow>
     (case sweep_action as_of_us grace newly c of
        Deleted \<Rightarrow> removable sha (as_files (re_artifacts r)) (fst c)
      | Marked \<Rightarrow> digest_of c \<in> newly \<or> markable (re_database r) as_of (digest_of c)
      | _ \<Rightarrow> True)"

definition sweep_rows :: "u64 \<Rightarrow> int \<Rightarrow> u64 \<Rightarrow> ArtifactDigest set \<Rightarrow> candidate \<Rightarrow> (Digest32, artifact_row) fmap \<Rightarrow> (Digest32, artifact_row) fmap" where
  "sweep_rows as_of_us as_of grace newly c rows =
     (case sweep_action as_of_us grace newly c of
        Deleted \<Rightarrow> fmdrop (digest_of c) rows
      | Marked \<Rightarrow> if digest_of c \<in> newly then rows
          else (case fmlookup rows (digest_of c) of None \<Rightarrow> rows
                | Some row \<Rightarrow> fmupd (digest_of c) (row\<lparr>at_gc_marked_at_us := Some as_of\<rparr>) rows)
      | _ \<Rightarrow> rows)"

definition deleted_digests :: "u64 \<Rightarrow> u64 \<Rightarrow> ArtifactDigest set \<Rightarrow> candidate list \<Rightarrow> ArtifactDigest set" where
  "deleted_digests as_of_us grace newly cs = digest_of ` {c \<in> set cs. sweep_action as_of_us grace newly c = Deleted}"

definition swept_by :: "u64 \<Rightarrow> int \<Rightarrow> u64 \<Rightarrow> ArtifactDigest set \<Rightarrow> candidate list \<Rightarrow> SqliteRepository \<Rightarrow> SqliteRepository" where
  "swept_by as_of_us as_of grace newly cs r =
     r\<lparr>re_database := (re_database r)\<lparr>db_artifacts := fold (sweep_rows as_of_us as_of grace newly) cs (db_artifacts (re_database r))\<rparr>,
       re_artifacts := (re_artifacts r)\<lparr>as_files := drop_objects (deleted_digests as_of_us grace newly cs) (as_files (re_artifacts r))\<rparr>\<rparr>"

lemma deleted_digests_Nil [simp]: "deleted_digests as_of_us grace newly [] = {}"
  by (simp add: deleted_digests_def)

lemma deleted_digests_Cons:
  "deleted_digests as_of_us grace newly (c # cs) =
     (if sweep_action as_of_us grace newly c = Deleted then {digest_of c} else {}) \<union> deleted_digests as_of_us grace newly cs"
  by (auto simp: deleted_digests_def)

lemma sweep_candidate_ok:
  assumes cand: "candidate_ok (re_database r) (set newly) c" and wf: "store_wf sha (re_artifacts r)"
    and ok: "step_ok sha as_of_us as_of grace (set newly) r c"
    and obs: "sweep_action as_of_us grace (set newly) c = Deleted \<Longrightarrow> observer calls = Inr ()"
  shows "\<exists>calls'. sweep_candidate sha observer as_of_us as_of grace newly calls c r =
    (Inr (sweep_action as_of_us grace (set newly) c, calls'), swept_by as_of_us as_of grace (set newly) [c] r)"
proof -
  obtain entry marked_at where c: "c = (entry, marked_at)" by fastforce
  show ?thesis
  proof (cases "ac_digest entry \<in> set newly")
    case True
    then show ?thesis
      by (simp add: c sweep_candidate_def sweep_action_def swept_by_def sweep_rows_def deleted_digests_Cons)
  next
    case False
    then obtain row where row: "fmlookup (db_artifacts (re_database r)) (ac_digest entry) = Some row"
      "at_gc_marked_at_us row = marked_at" "\<forall>m. marked_at = Some m \<longrightarrow> 0 \<le> m" "artifact_row_ok row"
      "\<not> referenced (re_database r) (ac_digest entry)" "\<not> pinned (re_database r) (ac_digest entry)"
      using cand by (auto simp: candidate_ok_def c)
    show ?thesis
    proof (cases marked_at)
      case None
      have "artifact_row_ok (row\<lparr>at_gc_marked_at_us := Some as_of\<rparr>)"
        using ok row None False by (auto simp: step_ok_def sweep_action_def c markable_def artifact_row_ok_def)
      then show ?thesis
        using row None False
        by (simp add: c sweep_candidate_def sweep_action_def swept_by_def sweep_rows_def deleted_digests_Cons and_then_def
            execute_def mark_collectable_def update_row_def artifacts_table_def ensure_single_gc_change_def Let_def)
    next
      case (Some marked)
      then have pos: "unsigned_integer marked f = Inr (of_int marked)" for f
        using row(3) by (simp add: unsigned_integer_def)
      show ?thesis
      proof (cases "grace_over as_of_us grace marked")
        case False
        then show ?thesis using Some pos \<open>ac_digest entry \<notin> set newly\<close> grace_over_iff [of as_of_us marked grace]
          by (simp add: c sweep_candidate_def sweep_action_def swept_by_def sweep_rows_def deleted_digests_Cons)
      next
        case True
        have act: "sweep_action as_of_us grace (set newly) c = Deleted"
          using Some True False by (simp add: c sweep_action_def)
        have gone: "remove_verified_or_missing sha entry (re_artifacts r) =
            (Inr (), (re_artifacts r)\<lparr>as_files := fmdrop (object_path (ac_digest entry)) (as_files (re_artifacts r))\<rparr>)"
          using ok act by (intro remove_verified_or_missing_eq [OF wf]) (simp add: step_ok_def c)
        have one: "drop_objects {ac_digest entry} fs = fmdrop (object_path (ac_digest entry)) fs" for fs
          using drop_objects_insert [of "{}" "ac_digest entry" fs] by simp
        have "deleted_digests as_of_us grace (set newly) [c] = {ac_digest entry}"
          using act by (simp add: deleted_digests_Cons) (simp add: c)
        then show ?thesis
          using row Some pos False True gone obs [OF act] act grace_over_iff [of as_of_us marked grace]
          by (simp add: sweep_candidate_def swept_by_def sweep_rows_def c and_then_def execute_def
              delete_collectable_def on_store_def one)
      qed
    qed
  qed
qed

text \<open>The state a failed step leaves: its file may be gone already.\<close>

definition unlinked :: "Digest32 set \<Rightarrow> ArtifactStore \<Rightarrow> ArtifactStore \<Rightarrow> bool" where
  "unlinked D s s' \<longleftrightarrow> (\<exists>E \<subseteq> D. s' = s\<lparr>as_files := drop_objects E (as_files s)\<rparr>)"

lemma unlinked_refl [simp]: "unlinked D s s"
  unfolding unlinked_def by (rule exI [of _ "{}"]) simp

lemma unlinked_one: "d \<in> D \<Longrightarrow> unlinked D s (s\<lparr>as_files := fmdrop (object_path d) (as_files s)\<rparr>)"
  unfolding unlinked_def using drop_objects_insert [of "{}" d "as_files s"] by (intro exI [of _ "{d}"]) simp

lemma unlinked_trans:
  "unlinked D s t \<Longrightarrow> unlinked E t u \<Longrightarrow> unlinked (D \<union> E) s u"
  unfolding unlinked_def by (clarsimp simp: drop_objects_drop) blast

lemma sweep_candidate_bad:
  assumes cand: "candidate_ok (re_database r) (set newly) c" and wf: "store_wf sha (re_artifacts r)"
    and bad: "\<not> (step_ok sha as_of_us as_of grace (set newly) r c \<and>
      (sweep_action as_of_us grace (set newly) c = Deleted \<longrightarrow> observer calls = Inr ()))"
  shows "\<exists>e r'. sweep_candidate sha observer as_of_us as_of grace newly calls c r = (Inl e, r') \<and>
    unlinked (deleted_digests as_of_us grace (set newly) [c]) (re_artifacts r) (re_artifacts r')"
proof -
  obtain entry marked_at where c: "c = (entry, marked_at)" by fastforce
  have False: "ac_digest entry \<notin> set newly" using bad by (auto simp: step_ok_def sweep_action_def c)
  then obtain row where row: "fmlookup (db_artifacts (re_database r)) (ac_digest entry) = Some row"
    "at_gc_marked_at_us row = marked_at" "\<forall>m. marked_at = Some m \<longrightarrow> 0 \<le> m" "artifact_row_ok row"
    "\<not> referenced (re_database r) (ac_digest entry)" "\<not> pinned (re_database r) (ac_digest entry)"
    using cand by (auto simp: candidate_ok_def c)
  show ?thesis
  proof (cases marked_at)
    case None
    have "\<not> artifact_row_ok (row\<lparr>at_gc_marked_at_us := Some as_of\<rparr>)"
      using bad row None False by (auto simp: step_ok_def sweep_action_def c markable_def artifact_row_ok_def)
    then show ?thesis using row None False
      by (simp add: c sweep_candidate_def and_then_def execute_def mark_collectable_def update_row_def artifacts_table_def violates_def Let_def)
  next
    case (Some marked)
    then have pos: "unsigned_integer marked f = Inr (of_int marked)" for f
      using row(3) by (simp add: unsigned_integer_def)
    have over: "grace_over as_of_us grace marked"
      by (rule ccontr) (use bad Some False in \<open>simp add: step_ok_def sweep_action_def c\<close>)
    then have act: "sweep_action as_of_us grace (set newly) c = Deleted" using Some False by (simp add: c sweep_action_def)
    have d: "ac_digest entry \<in> deleted_digests as_of_us grace (set newly) [c]"
      using act by (simp add: deleted_digests_Cons) (simp add: c)
    have run: "sweep_candidate sha observer as_of_us as_of grace newly calls c r =
        and_then (on_store (remove_verified_or_missing sha entry)) (\<lambda>_.
          and_then (pure (observer calls)) (\<lambda>_. pure (Inr (Deleted, calls + 1))))
        (r\<lparr>re_database := (re_database r)\<lparr>db_artifacts := fmdrop (ac_digest entry) (db_artifacts (re_database r))\<rparr>\<rparr>)"
      using row Some pos False over grace_over_iff [of as_of_us marked grace]
      by (simp add: sweep_candidate_def c and_then_def execute_def delete_collectable_def)
    show ?thesis
    proof (cases "removable sha (as_files (re_artifacts r)) entry")
      case True
      then obtain e where "observer calls = Inl e"
        using bad act by (cases "observer calls") (auto simp: step_ok_def c)
      then show ?thesis unfolding run using remove_verified_or_missing_eq [OF wf True] unlinked_one [OF d]
        by (simp add: and_then_def on_store_def)
    next
      case False
      then show ?thesis unfolding run using remove_verified_or_missing_fails [OF wf False]
        by (auto simp: and_then_def on_store_def)
    qed
  qed
qed

text \<open>A step changes nothing for the other candidates.\<close>

lemma sweep_rows_other: "d \<noteq> digest_of c \<Longrightarrow> fmlookup (sweep_rows as_of_us as_of grace newly c rows) d = fmlookup rows d"
  by (auto simp: sweep_rows_def split: GcAction.splits option.splits)

lemma swept_by_fields [simp]:
  "db_artifacts (re_database (swept_by as_of_us as_of grace newly cs r)) =
    fold (sweep_rows as_of_us as_of grace newly) cs (db_artifacts (re_database r))"
  "as_files (re_artifacts (swept_by as_of_us as_of grace newly cs r)) =
    drop_objects (deleted_digests as_of_us grace newly cs) (as_files (re_artifacts r))"
  "referenced (re_database (swept_by as_of_us as_of grace newly cs r)) = referenced (re_database r)"
  "pinned (re_database (swept_by as_of_us as_of grace newly cs r)) = pinned (re_database r)"
  by (auto simp: swept_by_def referenced_def pinned_def)

lemma swept_by_Cons: "swept_by as_of_us as_of grace newly (c # cs) r =
    swept_by as_of_us as_of grace newly cs (swept_by as_of_us as_of grace newly [c] r)"
  by (simp add: swept_by_def drop_objects_drop deleted_digests_Cons Un_commute)

lemma drop_store_wf: "finite D \<Longrightarrow> store_wf sha s \<Longrightarrow> store_wf sha (s\<lparr>as_files := drop_objects D (as_files s)\<rparr>)"
proof (induction D arbitrary: s rule: finite_induct)
  case (insert d D)
  have "store_wf sha (s\<lparr>as_files := fmdrop (object_path d) (as_files s)\<rparr>)" by (rule removed_store_wf [OF insert.prems])
  from insert.IH [OF this] show ?case by (simp add: drop_objects_insert)
qed simp

lemma drop_entries:
  "finite D \<Longrightarrow> store_wf sha s \<Longrightarrow> entries sha (drop_objects D (as_files s)) = {e \<in> entries sha (as_files s). ac_digest e \<notin> D}"
proof (induction D arbitrary: s rule: finite_induct)
  case (insert d D)
  let ?s = "s\<lparr>as_files := fmdrop (object_path d) (as_files s)\<rparr>"
  have "entries sha (drop_objects D (as_files ?s)) = {e \<in> entries sha (as_files ?s). ac_digest e \<notin> D}"
    by (rule insert.IH [OF removed_store_wf [OF insert.prems]])
  then show ?case using removed_wf(3) [OF store_wfD(1,4) [OF insert.prems], of d] by (auto simp: drop_objects_insert)
qed simp

lemma finite_deleted [simp]: "finite (deleted_digests as_of_us grace newly cs)"
  by (simp add: deleted_digests_def)

lemma swept_by_wf: "store_wf sha (re_artifacts r) \<Longrightarrow> store_wf sha (re_artifacts (swept_by as_of_us as_of grace newly cs r))"
  using drop_store_wf [OF finite_deleted] by (simp add: swept_by_def)

lemma removable_drop:
  assumes "store_wf sha s" "finite D" "ac_digest entry \<notin> D"
  shows "removable sha (drop_objects D (as_files s)) entry \<longleftrightarrow> removable sha (as_files s) entry"
  using drop_entries [OF assms(2,1)] assms(3) by (auto simp: removable_def drop_objects_lookup)

lemma swept_other:
  assumes "digest_of c' \<noteq> digest_of c" "store_wf sha (re_artifacts r)"
  shows "candidate_ok (re_database (swept_by as_of_us as_of grace newly [c] r)) newly c' \<longleftrightarrow> candidate_ok (re_database r) newly c'"
    "step_ok sha as_of_us as_of grace newly (swept_by as_of_us as_of grace newly [c] r) c' \<longleftrightarrow>
      step_ok sha as_of_us as_of grace newly r c'"
proof -
  have "digest_of c' \<notin> deleted_digests as_of_us grace newly [c]" using assms(1) by (auto simp: deleted_digests_def)
  then show "step_ok sha as_of_us as_of grace newly (swept_by as_of_us as_of grace newly [c] r) c' \<longleftrightarrow>
      step_ok sha as_of_us as_of grace newly r c'"
    using removable_drop [OF assms(2) finite_deleted, of "fst c'"] sweep_rows_other [OF assms(1)]
    by (simp add: step_ok_def markable_def split: GcAction.splits)
  show "candidate_ok (re_database (swept_by as_of_us as_of grace newly [c] r)) newly c' \<longleftrightarrow> candidate_ok (re_database r) newly c'"
    using sweep_rows_other [OF assms(1)] by (simp add: candidate_ok_def)
qed

lemma sweep_spec:
  assumes "distinct (map digest_of cs)" "\<forall>c \<in> set cs. candidate_ok (re_database r) (set newly) c"
    "store_wf sha (re_artifacts r)"
  shows "case sweep sha observer as_of_us as_of grace newly calls cs r of
      (Inr es, r') \<Rightarrow> es = map (\<lambda>c. gc_entry (fst c) (sweep_action as_of_us grace (set newly) c)) cs \<and>
        r' = swept_by as_of_us as_of grace (set newly) cs r \<and> (\<forall>c \<in> set cs. step_ok sha as_of_us as_of grace (set newly) r c) \<and>
        (deleted_digests as_of_us grace (set newly) cs \<noteq> {} \<longrightarrow> (\<exists>n. observer n = Inr ()))
    | (Inl e, r') \<Rightarrow> unlinked (deleted_digests as_of_us grace (set newly) cs) (re_artifacts r) (re_artifacts r') \<and>
        \<not> ((\<forall>c \<in> set cs. step_ok sha as_of_us as_of grace (set newly) r c) \<and> (\<forall>n. observer n = Inr ()))"
  using assms
proof (induction cs arbitrary: r calls)
  case Nil
  then show ?case by (simp add: swept_by_def)
next
  case (Cons c cs)
  let ?act = "sweep_action as_of_us grace (set newly)"
  let ?r = "swept_by as_of_us as_of grace (set newly) [c] r"
  have cand: "candidate_ok (re_database r) (set newly) c" and wf: "store_wf sha (re_artifacts r)" using Cons.prems by simp_all
  have others: "digest_of c' \<noteq> digest_of c" if "c' \<in> set cs" for c' 
  proof
    assume "digest_of c' = digest_of c"
    then have "digest_of c \<in> digest_of ` set cs" using imageI [OF that, of digest_of] by simp
    then show False using Cons.prems(1) by simp
  qed
  have same: "candidate_ok (re_database ?r) (set newly) c' = candidate_ok (re_database r) (set newly) c'"
    "step_ok sha as_of_us as_of grace (set newly) ?r c' = step_ok sha as_of_us as_of grace (set newly) r c'"
    if "c' \<in> set cs" for c' using swept_other [OF others [OF that] wf] by blast+
  show ?case
  proof (cases "step_ok sha as_of_us as_of grace (set newly) r c \<and> (?act c = Deleted \<longrightarrow> observer calls = Inr ())")
    case False
    then obtain e r' where step: "sweep_candidate sha observer as_of_us as_of grace newly calls c r = (Inl e, r')"
      "unlinked (deleted_digests as_of_us grace (set newly) [c]) (re_artifacts r) (re_artifacts r')"
      using sweep_candidate_bad [OF cand wf] by blast
    have "unlinked (deleted_digests as_of_us grace (set newly) (c # cs)) (re_artifacts r) (re_artifacts r')"
      using unlinked_trans [OF step(2) unlinked_refl [of "deleted_digests as_of_us grace (set newly) cs"]]
      by (simp add: deleted_digests_Cons)
    moreover have "sweep sha observer as_of_us as_of grace newly calls (c # cs) r = (Inl e, r')"
      using step(1) by (simp add: and_then_def)
    moreover have "\<not> ((\<forall>c' \<in> set (c # cs). step_ok sha as_of_us as_of grace (set newly) r c') \<and> (\<forall>n. observer n = Inr ()))"
      using False by auto
    ultimately show ?thesis by simp
  next
    case True
    then obtain calls' where step: "sweep_candidate sha observer as_of_us as_of grace newly calls c r = (Inr (?act c, calls'), ?r)"
      using sweep_candidate_ok [OF cand wf] by blast
    have IH: "case sweep sha observer as_of_us as_of grace newly calls' cs ?r of
      (Inr es, r') \<Rightarrow> es = map (\<lambda>c. gc_entry (fst c) (?act c)) cs \<and>
        r' = swept_by as_of_us as_of grace (set newly) cs ?r \<and> (\<forall>c \<in> set cs. step_ok sha as_of_us as_of grace (set newly) ?r c) \<and>
        (deleted_digests as_of_us grace (set newly) cs \<noteq> {} \<longrightarrow> (\<exists>n. observer n = Inr ()))
    | (Inl e, r') \<Rightarrow> unlinked (deleted_digests as_of_us grace (set newly) cs) (re_artifacts ?r) (re_artifacts r') \<and>
        \<not> ((\<forall>c \<in> set cs. step_ok sha as_of_us as_of grace (set newly) ?r c) \<and> (\<forall>n. observer n = Inr ()))"
      using Cons.IH [of ?r calls'] Cons.prems swept_by_wf [OF wf] same(1) by simp
    show ?thesis
    proof (cases "sweep sha observer as_of_us as_of grace newly calls' cs ?r")
      case (Pair res r')
      show ?thesis
      proof (cases res)
        case (Inr es)
        then have "es = map (\<lambda>c. gc_entry (fst c) (?act c)) cs" "r' = swept_by as_of_us as_of grace (set newly) (c # cs) r"
          "\<forall>c' \<in> set (c # cs). step_ok sha as_of_us as_of grace (set newly) r c'"
          "deleted_digests as_of_us grace (set newly) cs \<noteq> {} \<longrightarrow> (\<exists>n. observer n = Inr ())"
          using IH Pair True same(2) swept_by_Cons [of as_of_us as_of grace "set newly" c cs r] by simp_all
        moreover have "sweep sha observer as_of_us as_of grace newly calls (c # cs) r =
            (Inr (gc_entry (fst c) (?act c) # es), r')"
          using step Pair Inr by (simp add: and_then_def)
        moreover have "deleted_digests as_of_us grace (set newly) (c # cs) \<noteq> {} \<longrightarrow> (\<exists>n. observer n = Inr ())"
          using calculation(4) True by (auto simp: deleted_digests_Cons)
        ultimately show ?thesis by simp
      next
        case (Inl e)
        have "unlinked (deleted_digests as_of_us grace (set newly) [c]) (re_artifacts r) (re_artifacts ?r)"
          unfolding unlinked_def by (rule exI [of _ "deleted_digests as_of_us grace (set newly) [c]"]) (simp add: swept_by_def)
        from unlinked_trans [OF this] have
          "unlinked (deleted_digests as_of_us grace (set newly) (c # cs)) (re_artifacts r) (re_artifacts r')"
          using IH Pair Inl by (simp add: deleted_digests_Cons)
        moreover have "sweep sha observer as_of_us as_of grace newly calls (c # cs) r = (Inl e, r')"
          using step Pair Inl by (simp add: and_then_def)
        moreover have "\<not> ((\<forall>c' \<in> set (c # cs). step_ok sha as_of_us as_of grace (set newly) r c') \<and> (\<forall>n. observer n = Inr ()))"
          using IH Pair Inl same(2) by auto
        ultimately show ?thesis by simp
      qed
    qed
  qed
qed

end
