(* ===== verification/GcLaws.thy ===== *)
theory GcLaws
  imports GcSweep
begin

text \<open>
  What the garbage collector guarantees: it removes nothing that is referenced, pinned or within its
  grace period, its dry run predicts it, and a run that is cut off at any point between an unlink
  and the commit is completed by the next one.
\<close>

section \<open>Loading the tables\<close>

text \<open>
  What the schema enforces on the artifact tables: the column checks of every row, and that a
  reference or a pin points to a row.
\<close>

definition artifacts_ok :: "Database \<Rightarrow> bool" where
  "artifacts_ok db \<longleftrightarrow>
     (\<forall>d row. fmlookup (db_artifacts db) d = Some row \<longrightarrow> artifact_row_ok row) \<and>
     (\<forall>d. referenced db d \<or> pinned db d \<longrightarrow> fmlookup (db_artifacts db) d \<noteq> None)"

definition row_record :: "ArtifactDigest \<Rightarrow> artifact_row \<Rightarrow> ArtifactRecord" where
  "row_record d row = \<lparr>ac_digest = d, ac_byte_len = of_int (at_byte_len row), ac_relative_path = at_relative_path row\<rparr>"

lemma row_record_sel [simp]:
  "ac_digest (row_record d row) = d" "ac_byte_len (row_record d row) = of_int (at_byte_len row)"
  "ac_relative_path (row_record d row) = at_relative_path row"
  by (simp_all add: row_record_def)

definition candidates_of :: "Database \<Rightarrow> candidate list" where
  "candidates_of db = map (\<lambda>(d, row). (row_record d row, at_gc_marked_at_us row))
     (filter (\<lambda>(d, row). \<not> referenced db d \<and> \<not> pinned db d) (sorted_list_of_fmap (db_artifacts db)))"

definition persisted_of :: "Database \<Rightarrow> ArtifactRecord list" where
  "persisted_of db = map (\<lambda>(d, row). row_record d row) (sorted_list_of_fmap (db_artifacts db))"

lemma artifact_record_from_row_ok: "artifact_row_ok row \<Longrightarrow> artifact_record_from_row d row = Inr (row_record d row)"
  by (simp add: artifact_record_from_row_def artifact_row_ok_def row_record_def)

lemma rows_of_list: "(d, row) \<in> set (sorted_list_of_fmap m) \<longleftrightarrow> fmlookup m d = Some row"
  by (simp add: set_sorted_list_of_fmap)

lemma load_all_ok: "artifacts_ok db \<Longrightarrow> load_all_artifact_records db = Inr (persisted_of db)"
  unfolding load_all_artifact_records_def persisted_of_def
  by (rule traverse_map_Inr) (auto simp: rows_of_list artifacts_ok_def artifact_record_from_row_ok)

lemma load_unreferenced_ok: "artifacts_ok db \<Longrightarrow> load_unreferenced_artifacts db = Inr (candidates_of db)"
  unfolding load_unreferenced_artifacts_def candidates_of_def
  by (rule traverse_map_Inr) (auto simp: rows_of_list artifacts_ok_def artifact_record_from_row_ok)

lemma find_record_persisted: "find_record (persisted_of db) d = map_option (row_record d) (fmlookup (db_artifacts db) d)"
proof -
  have "List.find (\<lambda>e. ac_digest e = d) (map (\<lambda>(d, row). row_record d row) xs) =
      map_option (row_record d) (map_of xs d)" for xs
    by (induction xs) auto
  then show ?thesis by (simp add: find_record_def persisted_of_def)
qed

definition consistent :: "Database \<Rightarrow> ArtifactRecord list \<Rightarrow> bool" where
  "consistent db discovered \<longleftrightarrow>
     (\<forall>d row. fmlookup (db_artifacts db) d = Some row \<longrightarrow> validate_record_metadata (row_record d row) = Inr ()) \<and>
     (\<forall>e \<in> set discovered. \<forall>row. fmlookup (db_artifacts db) (ac_digest e) = Some row \<longrightarrow> row_record (ac_digest e) row = e)"

lemma validate_discovered_Inr:
  "validate_discovered_artifact_metadata (persisted_of db) discovered = Inr u \<longleftrightarrow> consistent db discovered"
proof -
  have "(\<forall>e \<in> set (persisted_of db). validate_record_metadata e = Inr ()) \<longleftrightarrow>
      (\<forall>d row. fmlookup (db_artifacts db) d = Some row \<longrightarrow> validate_record_metadata (row_record d row) = Inr ())"
    by (auto simp: persisted_of_def set_sorted_list_of_fmap)
  then show ?thesis
    by (auto simp: validate_discovered_artifact_metadata_def consistent_def bindr_Inr try_each_Inr find_record_persisted
        split: option.splits if_splits)
qed

lemma set_candidates: "c \<in> set (candidates_of db) \<longleftrightarrow>
    (\<exists>d row. fmlookup (db_artifacts db) d = Some row \<and> \<not> referenced db d \<and> \<not> pinned db d \<and>
      c = (row_record d row, at_gc_marked_at_us row))"
  by (force simp: candidates_of_def rows_of_list)

lemma candidate_member: "fmlookup (db_artifacts db) d = Some row \<Longrightarrow> \<not> referenced db d \<Longrightarrow> \<not> pinned db d \<Longrightarrow>
    (row_record d row, at_gc_marked_at_us row) \<in> set (candidates_of db)"
  unfolding set_candidates by blast

lemma candidate_cases:
  assumes "c \<in> set (candidates_of db)"
  obtains d row where "fmlookup (db_artifacts db) d = Some row" "\<not> referenced db d" "\<not> pinned db d"
    "c = (row_record d row, at_gc_marked_at_us row)"
  using assms unfolding set_candidates by blast

lemma candidates_sorted: "sorted_wrt (<) (map digest_of (candidates_of db))"
proof -
  have "map digest_of (candidates_of db) =
      map fst (filter (\<lambda>(d, row). \<not> referenced db d \<and> \<not> pinned db d) (sorted_list_of_fmap (db_artifacts db)))"
    by (auto simp: candidates_of_def)
  moreover have "sorted_wrt (<) (map fst (sorted_list_of_fmap (db_artifacts db)))"
    by (simp add: sorted_list_of_fmap_fst sorted_wrt_less_iff)
  ultimately show ?thesis
    by (simp add: sorted_wrt_less_iff sorted_filter distinct_map_filter)
qed

lemma candidates_ok: "artifacts_ok db \<Longrightarrow> c \<in> set (candidates_of db) \<Longrightarrow> candidate_ok db newly c"
  by (fastforce simp: set_candidates candidate_ok_def artifacts_ok_def artifact_row_ok_def)

section \<open>Recovering orphans\<close>

definition is_orphan :: "Database \<Rightarrow> ArtifactRecord \<Rightarrow> bool" where
  "is_orphan db e \<longleftrightarrow> fmlookup (db_artifacts db) (ac_digest e) = None"

definition add_orphan :: "int \<Rightarrow> ArtifactRecord \<Rightarrow> (Digest32, artifact_row) fmap \<Rightarrow> (Digest32, artifact_row) fmap" where
  "add_orphan as_of e rows = fmupd (ac_digest e) (verified_row e (int (unat (ac_byte_len e))) as_of (Some as_of)) rows"

definition with_orphans :: "int \<Rightarrow> ArtifactRecord list \<Rightarrow> Database \<Rightarrow> Database" where
  "with_orphans as_of discovered db =
     db\<lparr>db_artifacts := fold (add_orphan as_of) (filter (is_orphan db) discovered) (db_artifacts db)\<rparr>"

definition orphan_digests :: "Database \<Rightarrow> ArtifactRecord list \<Rightarrow> ArtifactDigest set" where
  "orphan_digests db discovered = ac_digest ` {e \<in> set discovered. is_orphan db e}"

lemma orphan_row_ok:
  "0 \<le> as_of \<Longrightarrow> validate_record_metadata e = Inr () \<Longrightarrow>
   artifact_row_ok (verified_row e (int (unat (ac_byte_len e))) as_of (Some as_of))"
proof -
  assume "0 \<le> as_of" "validate_record_metadata e = Inr ()"
  moreover have "int (unat (ac_byte_len e)) \<le> int 67108864"
    by (rule iffD2 [OF of_nat_le_iff]) (use \<open>validate_record_metadata e = Inr ()\<close> in \<open>simp add: validate_record_metadata_Inr\<close>)
  ultimately show ?thesis by (simp add: artifact_row_ok_def verified_row_def)
qed

lemma relative_path_inject: "relative_path_for a = relative_path_for b \<longleftrightarrow> a = b"
  by (metis join_root_relative object_path_inject)

lemma recover_one:
  assumes "fmlookup (db_artifacts (re_database r)) (ac_digest e) = None" "find_record persisted (ac_digest e) = None"
    "validate_record_metadata e = Inr ()" "0 \<le> as_of"
    "\<And>d row. fmlookup (db_artifacts (re_database r)) d = Some row \<Longrightarrow> at_relative_path row = relative_path_for d"
  shows "recover_orphan persisted as_of e r =
    (Inr (), r\<lparr>re_database := (re_database r)\<lparr>db_artifacts := add_orphan as_of e (db_artifacts (re_database r))\<rparr>\<rparr>)"
proof -
  have len: "sqlite_integer (ac_byte_len e) f = Inr (int (unat (ac_byte_len e)))" for f
    using assms(3) by (simp add: sqlite_integer_def validate_record_metadata_Inr)
  have path: "ac_relative_path e = relative_path_for (ac_digest e)" using assms(3) by (simp add: validate_record_metadata_Inr)
  have "ac_relative_path e |\<notin>| at_relative_path |`| fmran (db_artifacts (re_database r))"
    using assms(1,5) path relative_path_inject by (auto simp: fmlookup_ran_iff)
  then show ?thesis
    using assms(1,2) len orphan_row_ok [OF assms(4,3)]
    by (simp add: recover_orphan_def and_then_def execute_def insert_row_def artifacts_table_def fmlookup_dom_iff
        ensure_single_gc_change_def add_orphan_def verified_row_def)
qed

lemma recover_all:
  assumes "distinct (map ac_digest es)" "\<forall>e \<in> set es. validate_record_metadata e = Inr ()" "0 \<le> as_of"
    "\<forall>d row. fmlookup (db_artifacts (re_database r)) d = Some row \<longrightarrow> at_relative_path row = relative_path_for d"
    "\<forall>e \<in> set es. find_record persisted (ac_digest e) = None \<longrightarrow> fmlookup (db_artifacts (re_database r)) (ac_digest e) = None"
  shows "each (recover_orphan persisted as_of) es r =
    (Inr (), r\<lparr>re_database := (re_database r)\<lparr>db_artifacts :=
      fold (add_orphan as_of) (filter (\<lambda>e. find_record persisted (ac_digest e) = None) es) (db_artifacts (re_database r))\<rparr>\<rparr>)"
  using assms
proof (induction es arbitrary: r)
  case (Cons e es)
  show ?case
  proof (cases "find_record persisted (ac_digest e)")
    case (Some f)
    then have "recover_orphan persisted as_of e r = (Inr (), r)" by (simp add: recover_orphan_def)
    then show ?thesis using Cons.IH [of r] Cons.prems Some by (simp add: and_then_def)
  next
    case None
    let ?r = "r\<lparr>re_database := (re_database r)\<lparr>db_artifacts := add_orphan as_of e (db_artifacts (re_database r))\<rparr>\<rparr>"
    have "recover_orphan persisted as_of e r = (Inr (), ?r)"
      using Cons.prems None by (intro recover_one) simp_all
    moreover have "each (recover_orphan persisted as_of) es ?r =
      (Inr (), ?r\<lparr>re_database := (re_database ?r)\<lparr>db_artifacts :=
        fold (add_orphan as_of) (filter (\<lambda>e. find_record persisted (ac_digest e) = None) es) (db_artifacts (re_database ?r))\<rparr>\<rparr>)"
    proof (rule Cons.IH)
      show "\<forall>d row. fmlookup (db_artifacts (re_database ?r)) d = Some row \<longrightarrow> at_relative_path row = relative_path_for d"
        using Cons.prems(2,4) by (auto simp: add_orphan_def verified_row_def validate_record_metadata_Inr)
      show "\<forall>f \<in> set es. find_record persisted (ac_digest f) = None \<longrightarrow> fmlookup (db_artifacts (re_database ?r)) (ac_digest f) = None"
        using Cons.prems(1,5) by (auto simp: add_orphan_def image_iff)
    qed (use Cons.prems in simp_all)
    ultimately show ?thesis using None by (simp add: and_then_def)
  qed
qed simp

lemma add_orphans_lookup:
  "fmlookup (fold (add_orphan as_of) es rows) d =
     (case List.find (\<lambda>e. ac_digest e = d) (rev es) of
        Some e \<Rightarrow> Some (verified_row e (int (unat (ac_byte_len e))) as_of (Some as_of)) | None \<Rightarrow> fmlookup rows d)"
  by (induction es arbitrary: rows rule: rev_induct) (auto simp: add_orphan_def split: option.splits)

lemma find_SomeD: "List.find P xs = Some x \<Longrightarrow> x \<in> set xs \<and> P x"
  by (induction xs) (auto split: if_splits)

lemma with_orphans_lookup:
  assumes "distinct (map ac_digest discovered)"
  shows "e \<in> set discovered \<Longrightarrow> is_orphan db e \<Longrightarrow> fmlookup (db_artifacts (with_orphans as_of discovered db)) (ac_digest e) =
      Some (verified_row e (int (unat (ac_byte_len e))) as_of (Some as_of))"
    "d \<notin> orphan_digests db discovered \<Longrightarrow> fmlookup (db_artifacts (with_orphans as_of discovered db)) d = fmlookup (db_artifacts db) d"
proof -
  let ?es = "rev (filter (is_orphan db) discovered)"
  have inj: "inj_on ac_digest (set discovered)" using assms by (simp add: distinct_map)
  show "fmlookup (db_artifacts (with_orphans as_of discovered db)) (ac_digest e) =
      Some (verified_row e (int (unat (ac_byte_len e))) as_of (Some as_of))"
    if "e \<in> set discovered" "is_orphan db e"
  proof (cases "List.find (\<lambda>f. ac_digest f = ac_digest e) ?es")
    case None
    then show ?thesis using that by (auto simp: find_None_iff)
  next
    case (Some f)
    then have "f \<in> set discovered" "ac_digest f = ac_digest e" using find_SomeD by fastforce+
    then have "f = e" using inj that(1) by (simp add: inj_on_def)
    then show ?thesis using Some by (simp add: with_orphans_def add_orphans_lookup)
  qed
  assume d: "d \<notin> orphan_digests db discovered"
  have "List.find (\<lambda>f. ac_digest f = d) ?es = None" using d by (auto simp: find_None_iff orphan_digests_def)
  then show "fmlookup (db_artifacts (with_orphans as_of discovered db)) d = fmlookup (db_artifacts db) d"
    by (simp add: with_orphans_def add_orphans_lookup)
qed

section \<open>One collecting transaction\<close>

lemma referenced_with_orphans [simp]:
  "referenced (with_orphans as_of discovered db) = referenced db" "pinned (with_orphans as_of discovered db) = pinned db"
  by (auto simp: with_orphans_def referenced_def pinned_def)

text \<open>The scan of the store that a collection starts from.\<close>

definition scan :: "(byte list \<Rightarrow> Digest32) \<Rightarrow> fs \<Rightarrow> ArtifactRecord list \<Rightarrow> bool" where
  "scan sha fs discovered \<longleftrightarrow> set discovered = entries sha fs \<and> sorted_wrt (<) (map ac_digest discovered)"

lemma scan_distinct: "scan sha fs discovered \<Longrightarrow> distinct (map ac_digest discovered)"
  by (simp add: scan_def sorted_wrt_less_iff)

lemma entries_metadata: "e \<in> entries sha fs \<Longrightarrow> validate_record_metadata e = Inr ()"
  unfolding entries_iff verify_artifact_def by (cases "validate_record_metadata e") simp_all

lemma artifacts_ok_with_orphans:
  assumes "artifacts_ok db" "scan sha fs discovered" "0 \<le> as_of"
  shows "artifacts_ok (with_orphans as_of discovered db)"
proof -
  let ?rows = "db_artifacts (with_orphans as_of discovered db)"
  have "artifact_row_ok row" if "fmlookup ?rows d = Some row" for d row
  proof (cases "d \<in> orphan_digests db discovered")
    case True
    then obtain e where e: "e \<in> set discovered" "is_orphan db e" "d = ac_digest e" by (auto simp: orphan_digests_def)
    have "row = verified_row e (int (unat (ac_byte_len e))) as_of (Some as_of)"
      using with_orphans_lookup(1) [OF scan_distinct [OF assms(2)] e(1,2)] that e(3) by simp
    then show ?thesis using orphan_row_ok [OF assms(3) entries_metadata] e(1) assms(2) by (simp add: scan_def)
  next
    case False
    then show ?thesis using with_orphans_lookup(2) [OF scan_distinct [OF assms(2)] False, of as_of] that assms(1)
      by (simp add: artifacts_ok_def)
  qed
  moreover have "fmlookup ?rows d \<noteq> None" if "referenced db d \<or> pinned db d" for d
  proof -
    have "fmlookup (db_artifacts db) d \<noteq> None" using assms(1) that by (auto simp: artifacts_ok_def)
    then have "d \<notin> orphan_digests db discovered" by (auto simp: orphan_digests_def is_orphan_def)
    then show ?thesis using with_orphans_lookup(2) [OF scan_distinct [OF assms(2)], of d db as_of]
        \<open>fmlookup (db_artifacts db) d \<noteq> None\<close> by simp
  qed
  ultimately show ?thesis by (simp add: artifacts_ok_def)
qed

text \<open>The candidates of a run, and those of them that are deleted.\<close>

definition run_candidates :: "int \<Rightarrow> ArtifactRecord list \<Rightarrow> Database \<Rightarrow> candidate list" where
  "run_candidates as_of discovered db = candidates_of (with_orphans as_of discovered db)"

definition run_action :: "u64 \<Rightarrow> u64 \<Rightarrow> ArtifactRecord list \<Rightarrow> Database \<Rightarrow> candidate \<Rightarrow> GcAction" where
  "run_action as_of_us grace discovered db = sweep_action as_of_us grace (orphan_digests db discovered)"

definition collectable :: "Database \<Rightarrow> u64 \<Rightarrow> u64 \<Rightarrow> ArtifactDigest \<Rightarrow> bool" where
  "collectable db as_of_us grace d \<longleftrightarrow>
     (\<exists>row marked. fmlookup (db_artifacts db) d = Some row \<and> at_gc_marked_at_us row = Some marked \<and>
        grace_over as_of_us grace marked \<and> \<not> referenced db d \<and> \<not> pinned db d)"

lemma deleted_collectable:
  assumes "scan sha fs discovered"
  shows "deleted_digests as_of_us grace (orphan_digests db discovered) (run_candidates as_of discovered db) =
    {d. collectable db as_of_us grace d}"
proof (intro set_eqI iffI)
  fix d assume "d \<in> deleted_digests as_of_us grace (orphan_digests db discovered) (run_candidates as_of discovered db)"
  then obtain c where c: "c \<in> set (run_candidates as_of discovered db)" "d = digest_of c"
    "sweep_action as_of_us grace (orphan_digests db discovered) c = Deleted" by (auto simp: deleted_digests_def)
  obtain row where row: "fmlookup (db_artifacts (with_orphans as_of discovered db)) d = Some row" "\<not> referenced db d" "\<not> pinned db d"
    "c = (row_record d row, at_gc_marked_at_us row)"
    using c(1,2) unfolding run_candidates_def by (elim candidate_cases) simp
  have new: "d \<notin> orphan_digests db discovered" using c(2,3) by (simp add: sweep_action_def split: if_splits)
  then have old: "fmlookup (db_artifacts db) d = Some row" using with_orphans_lookup(2) [OF scan_distinct [OF assms] new] row(1) by simp
  have "\<exists>marked. at_gc_marked_at_us row = Some marked \<and> grace_over as_of_us grace marked"
    using c(3) new unfolding row(4) by (cases "at_gc_marked_at_us row") (simp_all add: sweep_action_def split: if_splits)
  then show "d \<in> {d. collectable db as_of_us grace d}" using old row(2,3) by (auto simp: collectable_def)
next
  fix d assume "d \<in> {d. collectable db as_of_us grace d}"
  then obtain row marked where row: "fmlookup (db_artifacts db) d = Some row" "at_gc_marked_at_us row = Some marked"
    "grace_over as_of_us grace marked" "\<not> referenced db d" "\<not> pinned db d" by (auto simp: collectable_def)
  have new: "d \<notin> orphan_digests db discovered" using row(1) by (auto simp: orphan_digests_def is_orphan_def)
  let ?c = "(row_record d row, at_gc_marked_at_us row)"
  have "?c \<in> set (run_candidates as_of discovered db)"
    unfolding run_candidates_def
    by (rule candidate_member) (use row with_orphans_lookup(2) [OF scan_distinct [OF assms] new, of as_of] in simp_all)
  moreover have "sweep_action as_of_us grace (orphan_digests db discovered) ?c = Deleted" using row new by (simp add: sweep_action_def)
  ultimately show "d \<in> deleted_digests as_of_us grace (orphan_digests db discovered) (run_candidates as_of discovered db)"
    unfolding deleted_digests_def by (intro image_eqI [of _ _ ?c]) simp_all
qed

text \<open>After the consistency check a deletion cannot fail, and a mark fails only before the creation of its row.\<close>

definition marks_ok :: "int \<Rightarrow> Database \<Rightarrow> bool" where
  "marks_ok as_of db \<longleftrightarrow>
     (\<forall>d row. fmlookup (db_artifacts db) d = Some row \<and> at_gc_marked_at_us row = None \<and> \<not> referenced db d \<and> \<not> pinned db d \<longrightarrow>
        at_created_at_us row \<le> as_of)"

lemma steps_ok_iff:
  assumes wf: "store_wf sha (re_artifacts r)" and scan: "scan sha (as_files (re_artifacts r)) discovered"
    and con: "consistent (re_database r) discovered"
  shows "(\<forall>c \<in> set (run_candidates as_of discovered (re_database r)).
      step_ok sha as_of_us as_of grace (orphan_digests (re_database r) discovered)
        (r\<lparr>re_database := with_orphans as_of discovered (re_database r)\<rparr>) c) \<longleftrightarrow> marks_ok as_of (re_database r)"
    (is "(\<forall>c \<in> _. ?ok c) \<longleftrightarrow> _")
proof -
  let ?db = "re_database r"
  let ?new = "orphan_digests ?db discovered"
  have step: "?ok (row_record d row, at_gc_marked_at_us row) \<longleftrightarrow>
      (d \<in> ?new \<or> at_gc_marked_at_us row \<noteq> None \<or> at_created_at_us row \<le> as_of)"
    if row: "fmlookup (db_artifacts (with_orphans as_of discovered ?db)) d = Some row" for d row
  proof (cases "d \<in> ?new")
    case True
    then show ?thesis by (simp add: step_ok_def sweep_action_def)
  next
    case False
    then have old: "fmlookup (db_artifacts ?db) d = Some row" using with_orphans_lookup(2) [OF scan_distinct [OF scan] False] row by simp
    have "removable sha (as_files (re_artifacts r)) (row_record d row)"
      unfolding removable_def
    proof
      show "validate_record_metadata (row_record d row) = Inr ()" using con old by (simp add: consistent_def)
      show "fmlookup (as_files (re_artifacts r)) (object_path (ac_digest (row_record d row))) = None \<or>
          row_record d row \<in> entries sha (as_files (re_artifacts r))"
      proof (cases "fmlookup (as_files (re_artifacts r)) (object_path d)")
        case (Some n)
        then obtain bs where "n = RegularFile bs" "sha bs = d" "length bs \<le> 67108864"
          using clean_object [OF store_wfD(4) [OF wf]] by blast
        then have "entry_for d bs \<in> entries sha (as_files (re_artifacts r))"
          using Some by (auto simp: entries_def object_entry_def object_at_def)
        then have "entry_for d bs \<in> set discovered" using scan by (simp add: scan_def)
        then have "row_record d row = entry_for d bs" using con old by (force simp: consistent_def)
        then show ?thesis using \<open>entry_for d bs \<in> entries sha (as_files (re_artifacts r))\<close> by simp
      qed simp
    qed
    then show ?thesis using False row
      by (auto simp: step_ok_def sweep_action_def markable_def split: option.splits)
  qed
  show ?thesis
  proof
    assume all: "\<forall>c \<in> set (run_candidates as_of discovered ?db). ?ok c"
    show "marks_ok as_of ?db" unfolding marks_ok_def
    proof (intro allI impI)
      fix d row assume *: "fmlookup (db_artifacts ?db) d = Some row \<and> at_gc_marked_at_us row = None \<and> \<not> referenced ?db d \<and> \<not> pinned ?db d"
      have new: "d \<notin> ?new" using * by (auto simp: orphan_digests_def is_orphan_def)
      then have row: "fmlookup (db_artifacts (with_orphans as_of discovered ?db)) d = Some row"
        using with_orphans_lookup(2) [OF scan_distinct [OF scan] new] * by simp
      then have "(row_record d row, at_gc_marked_at_us row) \<in> set (run_candidates as_of discovered ?db)"
        unfolding run_candidates_def by (intro candidate_member) (use * in simp_all)
      then show "at_created_at_us row \<le> as_of" using all step [OF row] * new by auto
    qed
  next
    assume marks: "marks_ok as_of ?db"
    show "\<forall>c \<in> set (run_candidates as_of discovered ?db). ?ok c"
    proof
      fix c assume "c \<in> set (run_candidates as_of discovered ?db)"
      then obtain d row where row: "fmlookup (db_artifacts (with_orphans as_of discovered ?db)) d = Some row" "\<not> referenced ?db d"
        "\<not> pinned ?db d" "c = (row_record d row, at_gc_marked_at_us row)"
        unfolding run_candidates_def by (elim candidate_cases) simp
      have "d \<in> ?new \<or> fmlookup (db_artifacts ?db) d = Some row"
        using with_orphans_lookup(2) [OF scan_distinct [OF scan], of d ?db as_of] row(1) by (cases "d \<in> ?new") simp_all
      then show "?ok c" unfolding row(4) using step [OF row(1)] marks row(2,3) by (auto simp: marks_ok_def)
    qed
  qed
qed

text \<open>The tables and the entries that a successful collection leaves.\<close>

definition collected :: "u64 \<Rightarrow> int \<Rightarrow> u64 \<Rightarrow> ArtifactRecord list \<Rightarrow> SqliteRepository \<Rightarrow> SqliteRepository" where
  "collected as_of_us as_of grace discovered r =
     swept_by as_of_us as_of grace (orphan_digests (re_database r) discovered)
       (run_candidates as_of discovered (re_database r))
       (r\<lparr>re_database := with_orphans as_of discovered (re_database r)\<rparr>)"

definition collected_entries :: "u64 \<Rightarrow> int \<Rightarrow> u64 \<Rightarrow> ArtifactRecord list \<Rightarrow> Database \<Rightarrow> GcEntry list" where
  "collected_entries as_of_us as_of grace discovered db =
     map (\<lambda>c. gc_entry (fst c) (run_action as_of_us grace discovered db c)) (run_candidates as_of discovered db)"

lemma collect_spec:
  assumes wf: "store_wf sha (re_artifacts r)" and ok: "artifacts_ok (re_database r)"
    and scan: "scan sha (as_files (re_artifacts r)) discovered" and pos: "0 \<le> as_of"
  shows "case collect_transaction sha observer as_of_us as_of grace discovered r of
      (Inr es, r') \<Rightarrow> consistent (re_database r) discovered \<and> marks_ok as_of (re_database r) \<and>
        es = collected_entries as_of_us as_of grace discovered (re_database r) \<and>
        r' = collected as_of_us as_of grace discovered r \<and>
        ({d. collectable (re_database r) as_of_us grace d} \<noteq> {} \<longrightarrow> (\<exists>n. observer n = Inr ()))
    | (Inl e, r') \<Rightarrow> re_database r' = re_database r \<and>
        unlinked {d. collectable (re_database r) as_of_us grace d} (re_artifacts r) (re_artifacts r') \<and>
        \<not> (consistent (re_database r) discovered \<and> marks_ok as_of (re_database r) \<and> (\<forall>n. observer n = Inr ()))"
proof (cases "validate_discovered_artifact_metadata (persisted_of (re_database r)) discovered")
  case (Inl e)
  then have "\<not> consistent (re_database r) discovered" using validate_discovered_Inr by (metis Inl_Inr_False)
  then show ?thesis using Inl load_all_ok [OF ok] by (simp add: collect_transaction_def transaction_def)
next
  case (Inr u)
  let ?db = "re_database r"
  let ?r = "r\<lparr>re_database := with_orphans as_of discovered ?db\<rparr>"
  let ?new = "map ac_digest (filter (\<lambda>e. find_record (persisted_of ?db) (ac_digest e) = None) discovered)"
  have con: "consistent ?db discovered" using Inr validate_discovered_Inr by blast
  have orphan: "(\<lambda>e. find_record (persisted_of ?db) (ac_digest e) = None) = is_orphan ?db"
    by (rule ext) (simp add: find_record_persisted is_orphan_def)
  have new: "set ?new = orphan_digests ?db discovered" by (simp add: orphan orphan_digests_def)
  have paths: "\<forall>d row. fmlookup (db_artifacts ?db) d = Some row \<longrightarrow> at_relative_path row = relative_path_for d"
    using con by (simp add: consistent_def validate_record_metadata_Inr)
  have meta: "\<forall>e \<in> set discovered. validate_record_metadata e = Inr ()"
    using scan entries_metadata by (simp add: scan_def)
  have recover: "each (recover_orphan (persisted_of ?db) as_of) discovered r = (Inr (), ?r)"
    using recover_all [OF scan_distinct [OF scan] meta pos paths, of "persisted_of ?db"]
    by (simp add: with_orphans_def find_record_persisted is_orphan_def [abs_def])
  have ok': "artifacts_ok (with_orphans as_of discovered ?db)" by (rule artifacts_ok_with_orphans [OF ok scan pos])
  let ?cs = "run_candidates as_of discovered ?db"
  have run: "collect_transaction sha observer as_of_us as_of grace discovered r =
      (case sweep sha observer as_of_us as_of grace ?new 0 ?cs ?r of
         (Inl e, r') \<Rightarrow> (Inl e, r'\<lparr>re_database := ?db\<rparr>) | (Inr x, r') \<Rightarrow> (Inr x, r'))"
    using load_all_ok [OF ok] Inr load_unreferenced_ok [OF ok']
    by (simp add: collect_transaction_def transaction_def run_candidates_def Let_def and_then_eq [where m = "each (recover_orphan (persisted_of ?db) as_of) discovered" and s = r, OF recover])
  have distinct: "distinct (map digest_of ?cs)"
    using candidates_sorted unfolding run_candidates_def sorted_wrt_less_iff by blast
  have cand: "\<forall>c \<in> set ?cs. candidate_ok (re_database ?r) (set ?new) c"
    using candidates_ok [OF ok'] by (simp add: run_candidates_def)
  have wf': "store_wf sha (re_artifacts ?r)" using wf by simp
  note steps = steps_ok_iff [OF wf scan con]
  show ?thesis
  proof (cases "sweep sha observer as_of_us as_of grace ?new 0 ?cs ?r")
    case (Pair res r')
    note spec = sweep_spec [OF distinct cand wf', where observer = observer and as_of_us = as_of_us and as_of = as_of and grace = grace and calls = 0, unfolded Pair new]
    show ?thesis
    proof (cases res)
      case (Inl e)
      then show ?thesis using run Pair spec steps deleted_collectable [OF scan] by simp
    next
      case (Inr es)
      then show ?thesis using run Pair spec steps con deleted_collectable [OF scan]
        by (simp add: collected_entries_def run_action_def collected_def)
    qed
  qed
qed

section \<open>The tables after a collection\<close>

lemma sweep_rows_local:
  "fmlookup rows d = fmlookup rows' d \<Longrightarrow>
   fmlookup (sweep_rows as_of_us as_of grace newly c rows) d = fmlookup (sweep_rows as_of_us as_of grace newly c rows') d"
  by (cases "d = digest_of c") (auto simp: sweep_rows_def split: GcAction.splits option.splits)

lemma sweep_rows_fold:
  shows "d \<notin> digest_of ` set cs \<Longrightarrow> fmlookup (fold (sweep_rows as_of_us as_of grace newly) cs rows) d = fmlookup rows d"
    "distinct (map digest_of cs) \<Longrightarrow> c \<in> set cs \<Longrightarrow> fmlookup (fold (sweep_rows as_of_us as_of grace newly) cs rows) (digest_of c) =
      fmlookup (sweep_rows as_of_us as_of grace newly c rows) (digest_of c)"
proof -
  show other: "d \<notin> digest_of ` set cs \<Longrightarrow> fmlookup (fold (sweep_rows as_of_us as_of grace newly) cs rows) d = fmlookup rows d" for cs d rows
    by (induction cs arbitrary: rows) (simp_all add: sweep_rows_other)
  show "distinct (map digest_of cs) \<Longrightarrow> c \<in> set cs \<Longrightarrow> fmlookup (fold (sweep_rows as_of_us as_of grace newly) cs rows) (digest_of c) =
      fmlookup (sweep_rows as_of_us as_of grace newly c rows) (digest_of c)"
  proof (induction cs arbitrary: rows)
    case (Cons x cs)
    show ?case
    proof (cases "x = c")
      case True
      then show ?thesis using other [of "digest_of c" cs] Cons.prems(1) by simp
    next
      case False
      then have c: "c \<in> set cs" using Cons.prems(2) by simp
      have "digest_of x \<notin> digest_of ` set cs" using Cons.prems(1) by simp
      then have "digest_of c \<noteq> digest_of x" using imageI [OF c, of digest_of] by metis
      then have "fmlookup (sweep_rows as_of_us as_of grace newly x rows) (digest_of c) = fmlookup rows (digest_of c)"
        by (rule sweep_rows_other)
      then show ?thesis using Cons.IH [OF _ c] Cons.prems(1) sweep_rows_local by (metis distinct.simps(2) fold_simps(2) list.simps(9))
    qed
  qed simp
qed

text \<open>The row of a digest that had one before the run.\<close>

definition row_after :: "Database \<Rightarrow> u64 \<Rightarrow> u64 \<Rightarrow> ArtifactDigest \<Rightarrow> artifact_row \<Rightarrow> artifact_row option" where
  "row_after db as_of_us grace d row =
     (if referenced db d \<or> pinned db d then Some row
      else case at_gc_marked_at_us row of
        None \<Rightarrow> Some (row\<lparr>at_gc_marked_at_us := Some (int (unat as_of_us))\<rparr>)
      | Some marked \<Rightarrow> if grace_over as_of_us grace marked then None else Some row)"

lemma collected_row:
  assumes scan: "scan sha fs discovered" and row: "fmlookup (db_artifacts (re_database r)) d = Some row"
  shows "fmlookup (db_artifacts (re_database (collected as_of_us (int (unat as_of_us)) grace discovered r))) d =
    row_after (re_database r) as_of_us grace d row"
proof -
  let ?db = "re_database r"
  let ?as_of = "int (unat as_of_us)"
  let ?cs = "run_candidates ?as_of discovered ?db"
  have new: "d \<notin> orphan_digests ?db discovered" using row by (auto simp: orphan_digests_def is_orphan_def)
  have row': "fmlookup (db_artifacts (with_orphans ?as_of discovered ?db)) d = Some row"
    using with_orphans_lookup(2) [OF scan_distinct [OF scan] new] row by simp
  have distinct: "distinct (map digest_of ?cs)"
    using candidates_sorted unfolding run_candidates_def sorted_wrt_less_iff by blast
  show ?thesis
  proof (cases "referenced ?db d \<or> pinned ?db d")
    case True
    have "digest_of c \<noteq> d" if "c \<in> set ?cs" for c
      using that True unfolding run_candidates_def by (elim candidate_cases) auto
    then have "d \<notin> digest_of ` set ?cs" by blast
    then show ?thesis using True row' by (simp add: collected_def sweep_rows_fold(1) row_after_def)
  next
    case False
    let ?c = "(row_record d row, at_gc_marked_at_us row)"
    have "?c \<in> set ?cs" unfolding run_candidates_def by (rule candidate_member) (use row' False in simp_all)
    from sweep_rows_fold(2) [OF distinct this, of as_of_us ?as_of grace "orphan_digests ?db discovered"
        "db_artifacts (with_orphans ?as_of discovered ?db)"]
    have "fmlookup (db_artifacts (re_database (collected as_of_us ?as_of grace discovered r))) d =
        fmlookup (sweep_rows as_of_us ?as_of grace (orphan_digests ?db discovered) ?c (db_artifacts (with_orphans ?as_of discovered ?db))) d"
      by (simp add: collected_def)
    also have "\<dots> = row_after ?db as_of_us grace d row"
      using False row' new by (auto simp: sweep_rows_def sweep_action_def row_after_def split: option.splits)
    finally show ?thesis .
  qed
qed

text \<open>A digest that had no row: a discovered object is adopted, with a mark of this run; nothing else gets a row.\<close>

lemma collected_orphan:
  assumes scan: "scan sha fs discovered" and row: "fmlookup (db_artifacts (re_database r)) d = None"
  shows "fmlookup (db_artifacts (re_database (collected as_of_us as_of grace discovered r))) d =
    fmlookup (db_artifacts (with_orphans as_of discovered (re_database r))) d"
proof -
  let ?db = "re_database r" and ?cs = "run_candidates as_of discovered (re_database r)"
  let ?rows = "db_artifacts (with_orphans as_of discovered ?db)"
  have distinct: "distinct (map digest_of ?cs)"
    using candidates_sorted unfolding run_candidates_def sorted_wrt_less_iff by blast
  show ?thesis
  proof (cases "d \<in> digest_of ` set ?cs")
    case True
    then obtain c where c: "c \<in> set ?cs" "d = digest_of c" by blast
    then have "fmlookup ?rows d \<noteq> None" unfolding run_candidates_def by (elim candidate_cases) auto
    then have "d \<in> orphan_digests ?db discovered" using with_orphans_lookup(2) [OF scan_distinct [OF scan]] row by metis
    then have "sweep_rows as_of_us as_of grace (orphan_digests ?db discovered) c ?rows = ?rows"
      unfolding c(2) by (simp add: sweep_rows_def sweep_action_def)
    then show ?thesis using sweep_rows_fold(2) [OF distinct c(1)] by (simp add: collected_def c(2))
  next
    case False
    then show ?thesis by (simp add: collected_def sweep_rows_fold(1))
  qed
qed

lemma collected_tables:
  "re_database (collected as_of_us as_of grace discovered r) =
     (re_database r)\<lparr>db_artifacts := db_artifacts (re_database (collected as_of_us as_of grace discovered r))\<rparr>"
  by (simp add: collected_def swept_by_def with_orphans_def)

lemma collected_files:
  assumes "scan sha fs discovered"
  shows "re_artifacts (collected as_of_us as_of grace discovered r) =
    (re_artifacts r)\<lparr>as_files := drop_objects {d. collectable (re_database r) as_of_us grace d} (as_files (re_artifacts r))\<rparr>"
  by (simp add: collected_def swept_by_def deleted_collectable [OF assms])

lemma finite_collectable: "finite {d. collectable db as_of_us grace d}"
proof -
  have "{d. collectable db as_of_us grace d} \<subseteq> fset (fmdom (db_artifacts db))"
    by (auto simp: collectable_def fmlookup_dom_iff)
  then show ?thesis by (rule finite_subset) simp
qed

lemma unlinked_collectable:
  assumes "unlinked {d. collectable db as_of_us grace d} s s'" "store_wf sha s"
  shows "store_wf sha s'" "entries sha (as_files s') \<subseteq> entries sha (as_files s)"
    "\<forall>e \<in> entries sha (as_files s) - entries sha (as_files s'). collectable db as_of_us grace (ac_digest e)"
proof -
  obtain E where E: "E \<subseteq> {d. collectable db as_of_us grace d}" "s' = s\<lparr>as_files := drop_objects E (as_files s)\<rparr>"
    using assms(1) by (auto simp: unlinked_def)
  have "finite E" by (rule finite_subset [OF E(1) finite_collectable])
  then show "store_wf sha s'" "entries sha (as_files s') \<subseteq> entries sha (as_files s)"
    "\<forall>e \<in> entries sha (as_files s) - entries sha (as_files s'). collectable db as_of_us grace (ac_digest e)"
    using drop_store_wf [OF _ assms(2)] drop_entries [OF _ assms(2)] E by auto
qed

section \<open>Whole runs\<close>

lemma scan_exists:
  assumes "store_wf sha s" "lists_dir ls"
  obtains discovered where "discover_records sha ls (as_files s) = Inr discovered" "scan sha (as_files s) discovered"
  using discover_records_ok [OF assms(2) store_wfD(1) [OF assms(1)], of sha]
    discover_records_exact [OF assms(2) store_wfD(1) [OF assms(1)], of sha] store_wfD(4) [OF assms(1)]
  by (auto simp: scan_def)

definition report :: "bool \<Rightarrow> u64 \<Rightarrow> u64 \<Rightarrow> GcEntry list \<Rightarrow> GcReport" where
  "report dry_run as_of_us grace es =
     \<lparr>gr_dry_run = dry_run, gr_as_of_us = as_of_us, gr_grace_period_us = grace, gr_entries = es\<rparr>"

lemma report_sel [simp]: "gr_entries (report dry_run as_of_us grace es) = es"
  by (simp add: report_def)

lemma garbage_collect_eq:
  assumes "discover_records sha ls (as_files (re_artifacts r)) = Inr discovered"
    "\<not> grace < MICROSECONDS_PER_DAY" "unat as_of_us < 2 ^ 63"
  shows "garbage_collect_observed sha ls as_of_us grace True observer r =
      (case gc_dry_run_entries discovered as_of_us grace (re_database r) of
         Inl e \<Rightarrow> (Inl e, r) | Inr es \<Rightarrow> (Inr (report True as_of_us grace es), r))"
    "garbage_collect_observed sha ls as_of_us grace False observer r =
      (case collect_transaction sha observer as_of_us (int (unat as_of_us)) grace discovered r of
         (Inl e, r') \<Rightarrow> (Inl e, r') | (Inr es, r') \<Rightarrow> (Inr (report False as_of_us grace es), r'))"
  using assms
  by (simp_all add: garbage_collect_observed_def sqlite_integer_def report_def and_then_def [of "collect_transaction _ _ _ _ _ _"]
      split: sum.splits prod.splits)

lemma garbage_collect_refused:
  "grace < MICROSECONDS_PER_DAY \<or> \<not> unat as_of_us < 2 ^ 63 \<Longrightarrow>
   \<exists>e. garbage_collect_observed sha ls as_of_us grace dry_run observer r = (Inl e, r)"
  by (auto simp: garbage_collect_observed_def sqlite_integer_def)

lemma garbage_collect_dry: "snd (garbage_collect_observed sha ls as_of_us grace True observer r) = r"
  by (simp add: garbage_collect_observed_def sqlite_integer_def split: sum.splits)

lemma garbage_collect_real:
  assumes wf: "store_wf sha (re_artifacts r)" "artifacts_ok (re_database r)"
    and scan: "discover_records sha ls (as_files (re_artifacts r)) = Inr discovered" "scan sha (as_files (re_artifacts r)) discovered"
  shows "case garbage_collect_observed sha ls as_of_us grace False observer r of
      (Inr rep, r') \<Rightarrow> \<not> grace < MICROSECONDS_PER_DAY \<and> unat as_of_us < 2 ^ 63 \<and>
        consistent (re_database r) discovered \<and> marks_ok (int (unat as_of_us)) (re_database r) \<and>
        rep = report False as_of_us grace (collected_entries as_of_us (int (unat as_of_us)) grace discovered (re_database r)) \<and>
        r' = collected as_of_us (int (unat as_of_us)) grace discovered r \<and>
        ({d. collectable (re_database r) as_of_us grace d} \<noteq> {} \<longrightarrow> (\<exists>n. observer n = Inr ()))
    | (Inl e, r') \<Rightarrow> re_database r' = re_database r \<and>
        unlinked {d. collectable (re_database r) as_of_us grace d} (re_artifacts r) (re_artifacts r') \<and>
        \<not> (\<not> grace < MICROSECONDS_PER_DAY \<and> unat as_of_us < 2 ^ 63 \<and>
          consistent (re_database r) discovered \<and> marks_ok (int (unat as_of_us)) (re_database r) \<and> (\<forall>n. observer n = Inr ()))"
proof (cases "grace < MICROSECONDS_PER_DAY \<or> \<not> unat as_of_us < 2 ^ 63")
  case True
  then obtain e where "garbage_collect_observed sha ls as_of_us grace False observer r = (Inl e, r)"
    using garbage_collect_refused by blast
  then show ?thesis using True by auto
next
  case False
  then have ok: "\<not> grace < MICROSECONDS_PER_DAY" "unat as_of_us < 2 ^ 63" by simp_all
  have "0 \<le> int (unat as_of_us)" by simp
  note spec = collect_spec [OF wf scan(2) this, where observer = observer and as_of_us = as_of_us and grace = grace]
  show ?thesis
  proof (cases "collect_transaction sha observer as_of_us (int (unat as_of_us)) grace discovered r")
    case (Pair res r')
    then show ?thesis
      unfolding garbage_collect_eq(2) [OF scan(1) ok] using spec ok by (cases res) simp_all
  qed
qed

lemma garbage_collect_effect:
  assumes "store_wf sha (re_artifacts r)" "artifacts_ok (re_database r)" "lists_dir ls"
    "garbage_collect_observed sha ls as_of_us grace dry_run observer r = (res, r')"
  shows "store_wf sha (re_artifacts r') \<and>
    entries sha (as_files (re_artifacts r')) \<subseteq> entries sha (as_files (re_artifacts r)) \<and>
    (\<forall>e \<in> entries sha (as_files (re_artifacts r)) - entries sha (as_files (re_artifacts r')).
       \<not> dry_run \<and> collectable (re_database r) as_of_us grace (ac_digest e)) \<and>
    (case res of
       Inl _ \<Rightarrow> re_database r' = re_database r
     | Inr _ \<Rightarrow> re_database r' = (re_database r)\<lparr>db_artifacts := db_artifacts (re_database r')\<rparr> \<and>
         (\<forall>d row. fmlookup (db_artifacts (re_database r)) d = Some row \<longrightarrow>
            fmlookup (db_artifacts (re_database r')) d =
              (if dry_run then Some row else row_after (re_database r) as_of_us grace d row)))"
proof (cases dry_run)
  case True
  then have "r' = r" using garbage_collect_dry assms(4) by (metis snd_conv)
  then show ?thesis using True assms(1) by (simp split: sum.split)
next
  case False
  obtain discovered where scan: "discover_records sha ls (as_files (re_artifacts r)) = Inr discovered"
    "scan sha (as_files (re_artifacts r)) discovered" using scan_exists [OF assms(1,3)] .
  note run = garbage_collect_real [OF assms(1,2) scan, where as_of_us = as_of_us and grace = grace and observer = observer]
  let ?C = "{d. collectable (re_database r) as_of_us grace d}"
  have files: "unlinked ?C (re_artifacts r) (re_artifacts r')"
  proof (cases res)
    case (Inr rep)
    then show ?thesis using run assms(4) False collected_files [OF scan(2)] by (auto simp: unlinked_def)
  qed (use run assms(4) False in simp)
  note after = unlinked_collectable [OF files assms(1)]
  show ?thesis
  proof (cases res)
    case (Inl e)
    then show ?thesis using run assms(4) False after by simp
  next
    case (Inr rep)
    then have r': "r' = collected as_of_us (int (unat as_of_us)) grace discovered r" using run assms(4) False by simp
    show ?thesis using Inr after False collected_tables collected_row [OF scan(2)] unfolding r' by simp
  qed
qed

lemma collected_adopts:
  assumes "scan sha fs discovered" "e \<in> entries sha fs" "fmlookup (db_artifacts (re_database r)) (ac_digest e) = None"
  shows "fmlookup (db_artifacts (re_database (collected as_of_us as_of grace discovered r))) (ac_digest e) =
    Some (verified_row e (int (unat (ac_byte_len e))) as_of (Some as_of))"
  using with_orphans_lookup(1) [OF scan_distinct [OF assms(1)], of e "re_database r"] assms(2)
  unfolding collected_orphan [OF assms(1,3)] by (simp add: is_orphan_def assms(3) scan_def [of sha fs discovered, THEN iffD1, OF assms(1)])

lemma collected_adds_no_other:
  assumes "scan sha fs discovered" "\<forall>e \<in> entries sha fs. ac_digest e \<noteq> d" "fmlookup (db_artifacts (re_database r)) d = None"
  shows "fmlookup (db_artifacts (re_database (collected as_of_us as_of grace discovered r))) d = None"
proof -
  have "d \<notin> orphan_digests (re_database r) discovered" using assms(1,2) by (auto simp: orphan_digests_def scan_def)
  then show ?thesis
    using with_orphans_lookup(2) [OF scan_distinct [OF assms(1)]] assms(3) unfolding collected_orphan [OF assms(1,3)] by simp
qed

text \<open>
  C19: the collector takes exactly the garbage.  A dry run changes nothing.  A real run that succeeds
  has unlinked exactly the objects whose row had been marked by an earlier run at least a grace
  period ago and that nothing references or pins, and no other file; it has changed only the
  \<open>artifacts\<close> table, in which a row that is referenced or pinned or within its grace period is as
  before, an unmarked one is marked, a collected one is gone, a stored object without a row has one
  that is marked by this run, and no other digest has got a row.  A run that fails, or is killed
  after an unlink, has changed no table and has unlinked only such objects.
\<close>

theorem gc_collects_only_garbage:
  assumes "store_wf sha (re_artifacts r)" "artifacts_ok (re_database r)" "lists_dir ls"
    "garbage_collect_observed sha ls as_of_us grace dry_run observer r = (res, r')"
  shows "store_wf sha (re_artifacts r') \<and>
    (case res of
       Inl _ \<Rightarrow> re_database r' = re_database r \<and>
         (\<exists>D \<subseteq> {d. \<not> dry_run \<and> collectable (re_database r) as_of_us grace d}.
            re_artifacts r' = (re_artifacts r)\<lparr>as_files := drop_objects D (as_files (re_artifacts r))\<rparr>)
     | Inr _ \<Rightarrow> if dry_run then r' = r else
         re_artifacts r' = (re_artifacts r)\<lparr>as_files :=
           drop_objects {d. collectable (re_database r) as_of_us grace d} (as_files (re_artifacts r))\<rparr> \<and>
         re_database r' = (re_database r)\<lparr>db_artifacts := db_artifacts (re_database r')\<rparr> \<and>
         (\<forall>d row. fmlookup (db_artifacts (re_database r)) d = Some row \<longrightarrow>
            fmlookup (db_artifacts (re_database r')) d = row_after (re_database r) as_of_us grace d row) \<and>
         (\<forall>e \<in> entries sha (as_files (re_artifacts r)). fmlookup (db_artifacts (re_database r)) (ac_digest e) = None \<longrightarrow>
            fmlookup (db_artifacts (re_database r')) (ac_digest e) =
              Some (verified_row e (int (unat (ac_byte_len e))) (int (unat as_of_us)) (Some (int (unat as_of_us))))) \<and>
         (\<forall>d. fmlookup (db_artifacts (re_database r)) d = None \<longrightarrow>
            (\<forall>e \<in> entries sha (as_files (re_artifacts r)). ac_digest e \<noteq> d) \<longrightarrow>
            fmlookup (db_artifacts (re_database r')) d = None))"
proof (cases dry_run)
  case True
  then have "r' = r" using garbage_collect_dry assms(4) by (metis snd_conv)
  then show ?thesis using True assms(1) by (simp split: sum.split)
next
  case False
  obtain discovered where scan: "discover_records sha ls (as_files (re_artifacts r)) = Inr discovered"
    "scan sha (as_files (re_artifacts r)) discovered" using scan_exists [OF assms(1,3)] .
  note run = garbage_collect_real [OF assms(1,2) scan, where as_of_us = as_of_us and grace = grace and observer = observer]
  have wf: "store_wf sha (re_artifacts r')" using garbage_collect_effect [OF assms] by blast
  show ?thesis
  proof (cases res)
    case (Inl e)
    then show ?thesis using run assms(4) False wf by (simp add: unlinked_def)
  next
    case (Inr rep)
    then have r': "r' = collected as_of_us (int (unat as_of_us)) grace discovered r" using run assms(4) False by simp
    show ?thesis
      using Inr False wf collected_files [OF scan(2)] collected_tables collected_row [OF scan(2)] collected_adopts [OF scan(2)]
        collected_adds_no_other [OF scan(2)]
      unfolding r' by (simp del: of_nat_unat)
  qed
qed

section \<open>The dry run\<close>

lemma sorted_key_unique:
  fixes f :: "'a \<Rightarrow> 'b::linorder"
  assumes "sorted_wrt (<) (map f xs)" "sorted_wrt (<) (map f ys)" "set xs = set ys"
  shows "xs = ys"
proof -
  have "map f xs = map f ys"
    using assms by (intro sorted_distinct_set_unique) (simp_all add: sorted_wrt_less_iff)
  moreover have "inj_on f (set xs \<union> set ys)"
    using assms by (simp add: sorted_wrt_less_iff distinct_map)
  ultimately show ?thesis by (metis map_inj_on)
qed

definition dry_action :: "u64 \<Rightarrow> u64 \<Rightarrow> candidate \<Rightarrow> GcAction" where
  "dry_action as_of_us grace c =
     (case snd c of None \<Rightarrow> WouldMark
      | Some marked \<Rightarrow> if grace_over as_of_us grace marked then WouldDelete else WaitingForGrace)"

definition perform :: "GcEntry \<Rightarrow> GcEntry" where
  "perform entry = entry\<lparr>ge_action :=
     (case ge_action entry of WouldMark \<Rightarrow> Marked | WouldDelete \<Rightarrow> Deleted | action \<Rightarrow> action)\<rparr>"

lemma gc_entry_digest [simp]: "ge_digest (gc_entry e action) = ac_digest e"
  by (simp add: gc_entry_def)

lemma perform_gc_entry: "perform (gc_entry e action) =
    gc_entry e (case action of WouldMark \<Rightarrow> Marked | WouldDelete \<Rightarrow> Deleted | action \<Rightarrow> action)"
  by (simp add: perform_def gc_entry_def split: GcAction.split)

definition dry_entries :: "u64 \<Rightarrow> u64 \<Rightarrow> ArtifactRecord list \<Rightarrow> Database \<Rightarrow> GcEntry list" where
  "dry_entries as_of_us grace discovered db = sort_key ge_digest
     (map (\<lambda>c. gc_entry (fst c) (dry_action as_of_us grace c)) (candidates_of db) @
      map (\<lambda>e. gc_entry e WouldMark) (filter (is_orphan db) discovered))"

lemma dry_run_action_ok:
  assumes "artifacts_ok db" "c \<in> set (candidates_of db)"
  shows "dry_run_action as_of_us grace (snd c) = Inr (dry_action as_of_us grace c)"
proof -
  obtain d row where row: "fmlookup (db_artifacts db) d = Some row" "c = (row_record d row, at_gc_marked_at_us row)"
    using assms(2) by (elim candidate_cases)
  then have "artifact_row_ok row" using assms(1) by (simp add: artifacts_ok_def)
  then show ?thesis using grace_over_iff
    by (auto simp: row(2) dry_run_action_def dry_action_def unsigned_integer_def artifact_row_ok_def split: option.splits)
qed

lemma gc_dry_run_entries_eq:
  assumes "artifacts_ok db"
  shows "gc_dry_run_entries discovered as_of_us grace db = Inr es \<longleftrightarrow>
    consistent db discovered \<and> es = dry_entries as_of_us grace discovered db"
proof -
  have "traverse (\<lambda>(entry, marked_at). bindr (dry_run_action as_of_us grace marked_at) (\<lambda>action. Inr (gc_entry entry action)))
      (candidates_of db) = Inr (map (\<lambda>c. gc_entry (fst c) (dry_action as_of_us grace c)) (candidates_of db))"
    by (rule traverse_map_Inr) (use dry_run_action_ok [OF assms] in \<open>fastforce split: prod.splits\<close>)
  moreover have "(\<lambda>e. find_record (persisted_of db) (ac_digest e) = None) = is_orphan db"
    by (rule ext) (simp add: find_record_persisted is_orphan_def)
  ultimately show ?thesis
    using validate_discovered_Inr [of db discovered "()"]
    by (auto simp: gc_dry_run_entries_def load_all_ok [OF assms] load_unreferenced_ok [OF assms] bindr_Inr Let_def dry_entries_def)
qed

lemma orphan_candidate: "row_record (ac_digest e) (verified_row e (int (unat (ac_byte_len e))) as_of marked) = e"
  by (simp add: row_record_def verified_row_def)

lemma set_run_candidates:
  assumes ok: "artifacts_ok db" and scan: "scan sha fs discovered"
  shows "set (run_candidates as_of discovered db) = set (candidates_of db) \<union> {(e, Some as_of) | e. e \<in> set discovered \<and> is_orphan db e}"
proof (intro set_eqI iffI)
  note lookup = with_orphans_lookup [OF scan_distinct [OF scan]]
  fix c assume "c \<in> set (run_candidates as_of discovered db)"
  then obtain d row where row: "fmlookup (db_artifacts (with_orphans as_of discovered db)) d = Some row" "\<not> referenced db d"
    "\<not> pinned db d" "c = (row_record d row, at_gc_marked_at_us row)"
    unfolding run_candidates_def by (elim candidate_cases) simp
  show "c \<in> set (candidates_of db) \<union> {(e, Some as_of) | e. e \<in> set discovered \<and> is_orphan db e}"
  proof (cases "d \<in> orphan_digests db discovered")
    case True
    then obtain e where e: "e \<in> set discovered" "is_orphan db e" "d = ac_digest e" by (auto simp: orphan_digests_def)
    then have "row = verified_row e (int (unat (ac_byte_len e))) as_of (Some as_of)" using lookup(1) [OF e(1,2), of as_of] row(1) by simp
    then have "c = (e, Some as_of)" using row(4) orphan_candidate [of e as_of "Some as_of"] e(3) by (simp add: verified_row_def)
    then show ?thesis using e by blast
  next
    case False
    then show ?thesis unfolding row(4) using lookup(2) [OF False, of as_of] row candidate_member by auto
  qed
next
  note lookup = with_orphans_lookup [OF scan_distinct [OF scan]]
  fix c assume "c \<in> set (candidates_of db) \<union> {(e, Some as_of) | e. e \<in> set discovered \<and> is_orphan db e}"
  then show "c \<in> set (run_candidates as_of discovered db)"
  proof
    assume "c \<in> set (candidates_of db)"
    then obtain d row where row: "fmlookup (db_artifacts db) d = Some row" "\<not> referenced db d" "\<not> pinned db d"
      "c = (row_record d row, at_gc_marked_at_us row)" by (elim candidate_cases)
    have "d \<notin> orphan_digests db discovered" using row(1) by (auto simp: orphan_digests_def is_orphan_def)
    then show ?thesis unfolding row(4) run_candidates_def
      by (intro candidate_member) (use lookup(2) row in simp_all)
  next
    assume "c \<in> {(e, Some as_of) | e. e \<in> set discovered \<and> is_orphan db e}"
    then obtain e where e: "e \<in> set discovered" "is_orphan db e" "c = (e, Some as_of)" by blast
    have "\<not> referenced db (ac_digest e)" "\<not> pinned db (ac_digest e)" using ok e(2) by (auto simp: artifacts_ok_def is_orphan_def)
    then have "(row_record (ac_digest e) (verified_row e (int (unat (ac_byte_len e))) as_of (Some as_of)), Some as_of)
        \<in> set (run_candidates as_of discovered db)"
      unfolding run_candidates_def using candidate_member [OF lookup(1) [OF e(1,2), of as_of]] by (simp add: verified_row_def)
    then show ?thesis unfolding orphan_candidate e(3) .
  qed
qed

lemma dry_entries_perform:
  assumes ok: "artifacts_ok db" and scan: "scan sha fs discovered"
  shows "collected_entries as_of_us as_of grace discovered db = map perform (dry_entries as_of_us grace discovered db)"
proof (rule sorted_key_unique [where f = ge_digest])
  have "map ge_digest (collected_entries as_of_us as_of grace discovered db) = map digest_of (run_candidates as_of discovered db)"
    by (simp add: collected_entries_def)
  then show "sorted_wrt (<) (map ge_digest (collected_entries as_of_us as_of grace discovered db))"
    using candidates_sorted by (simp add: run_candidates_def)
  have keys: "map ge_digest (map perform es) = map ge_digest es" for es by (simp add: perform_def)
  have "distinct (map digest_of (candidates_of db) @ map ac_digest (filter (is_orphan db) discovered))"
  proof -
    have "digest_of ` set (candidates_of db) \<inter> ac_digest ` set (filter (is_orphan db) discovered) = {}"
      by (auto simp: is_orphan_def elim!: candidate_cases)
    then show ?thesis
      using candidates_sorted scan_distinct [OF scan] by (simp add: sorted_wrt_less_iff distinct_map_filter)
  qed
  moreover have "mset (map ge_digest (dry_entries as_of_us grace discovered db)) =
      mset (map digest_of (candidates_of db) @ map ac_digest (filter (is_orphan db) discovered))"
    by (simp add: dry_entries_def multiset.map_comp comp_def)
  ultimately have "distinct (map ge_digest (dry_entries as_of_us grace discovered db))" using mset_eq_imp_distinct_iff by blast
  moreover have "sorted (map ge_digest (dry_entries as_of_us grace discovered db))" unfolding dry_entries_def by (rule sorted_sort_key)
  ultimately show "sorted_wrt (<) (map ge_digest (map perform (dry_entries as_of_us grace discovered db)))"
    unfolding keys by (simp add: sorted_wrt_less_iff)
  have old: "gc_entry (fst c) (run_action as_of_us grace discovered db c) = perform (gc_entry (fst c) (dry_action as_of_us grace c))"
    if "c \<in> set (candidates_of db)" for c
  proof -
    have "digest_of c \<notin> orphan_digests db discovered"
      using that by (auto simp: orphan_digests_def is_orphan_def elim!: candidate_cases)
    then show ?thesis by (simp add: perform_gc_entry run_action_def sweep_action_def dry_action_def split: option.split)
  qed
  have new: "gc_entry e (run_action as_of_us grace discovered db (e, m)) = perform (gc_entry e WouldMark)"
    if "e \<in> set discovered" "is_orphan db e" for e m
    using that by (auto simp: perform_gc_entry run_action_def sweep_action_def orphan_digests_def)
  have "set (collected_entries as_of_us as_of grace discovered db) =
      (\<lambda>c. gc_entry (fst c) (run_action as_of_us grace discovered db c)) ` set (candidates_of db) \<union>
      (\<lambda>c. gc_entry (fst c) (run_action as_of_us grace discovered db c)) ` {(e, Some as_of) | e. e \<in> set discovered \<and> is_orphan db e}"
    by (simp add: collected_entries_def set_run_candidates [OF ok scan] image_Un)
  also have "\<dots> = perform ` ((\<lambda>c. gc_entry (fst c) (dry_action as_of_us grace c)) ` set (candidates_of db) \<union>
      (\<lambda>e. gc_entry e WouldMark) ` {e \<in> set discovered. is_orphan db e})"
    unfolding image_Un image_image
    by (rule arg_cong2 [where f = "(\<union>)"]) (force simp: old new image_iff)+
  also have "\<dots> = set (map perform (dry_entries as_of_us grace discovered db))"
    by (simp add: dry_entries_def image_Un)
  finally show "set (collected_entries as_of_us as_of grace discovered db) = set (map perform (dry_entries as_of_us grace discovered db))" .
qed

lemma garbage_collect_dry_eq:
  assumes ok: "artifacts_ok (re_database r)" and scan: "discover_records sha ls (as_files (re_artifacts r)) = Inr discovered"
  shows "fst (garbage_collect_observed sha ls as_of_us grace True observer r) = Inr plan \<longleftrightarrow>
    \<not> grace < MICROSECONDS_PER_DAY \<and> unat as_of_us < 2 ^ 63 \<and> consistent (re_database r) discovered \<and>
    plan = report True as_of_us grace (dry_entries as_of_us grace discovered (re_database r))"
proof (cases "grace < MICROSECONDS_PER_DAY \<or> \<not> unat as_of_us < 2 ^ 63")
  case True
  then obtain e where "garbage_collect_observed sha ls as_of_us grace True observer r = (Inl e, r)"
    using garbage_collect_refused by blast
  then show ?thesis using True by auto
next
  case False
  then have run: "garbage_collect_observed sha ls as_of_us grace True observer r =
      (case gc_dry_run_entries discovered as_of_us grace (re_database r) of
         Inl e \<Rightarrow> (Inl e, r) | Inr es \<Rightarrow> (Inr (report True as_of_us grace es), r))"
    using garbage_collect_eq(1) [OF scan] by simp
  note eq = gc_dry_run_entries_eq [OF ok, of discovered as_of_us grace]
  show ?thesis
  proof (cases "gc_dry_run_entries discovered as_of_us grace (re_database r)")
    case (Inl e)
    then show ?thesis using run eq [of "dry_entries as_of_us grace discovered (re_database r)"] by auto
  next
    case (Inr es)
    then have "consistent (re_database r) discovered" "es = dry_entries as_of_us grace discovered (re_database r)"
      using eq [of es] by simp_all
    then show ?thesis using run Inr False by auto
  qed
qed

text \<open>
  C23: the dry run predicts the collection.  It changes nothing; the real run on the same state
  succeeds exactly when the dry run does and no unmarked garbage was created after the given time
  (the schema rejects such a mark); and its report is then the dry run's with every announced mark
  and deletion made, orphaned files included.
\<close>

theorem gc_dry_run_predicts:
  assumes "store_wf sha (re_artifacts r)" "artifacts_ok (re_database r)" "lists_dir ls"
  shows "snd (garbage_collect sha ls as_of_us grace True r) = r \<and>
    ((\<exists>done. fst (garbage_collect sha ls as_of_us grace False r) = Inr done) \<longleftrightarrow>
      (\<exists>plan. fst (garbage_collect sha ls as_of_us grace True r) = Inr plan) \<and>
      marks_ok (int (unat as_of_us)) (re_database r)) \<and>
    (\<forall>plan result. fst (garbage_collect sha ls as_of_us grace True r) = Inr plan \<longrightarrow>
      fst (garbage_collect sha ls as_of_us grace False r) = Inr result \<longrightarrow>
      gr_entries result = map perform (gr_entries plan))"
proof -
  obtain discovered where scan: "discover_records sha ls (as_files (re_artifacts r)) = Inr discovered"
    "scan sha (as_files (re_artifacts r)) discovered" using scan_exists [OF assms(1,3)] .
  note real = garbage_collect_real [OF assms(1,2) scan, where as_of_us = as_of_us and grace = grace and observer = "\<lambda>_. Inr ()"]
  note dry = garbage_collect_dry_eq [OF assms(2) scan(1), where as_of_us = as_of_us and grace = grace and observer = "\<lambda>_. Inr ()"]
  show ?thesis
  proof (cases "garbage_collect_observed sha ls as_of_us grace False (\<lambda>_. Inr ()) r")
    case (Pair res r')
    then show ?thesis
      using real dry garbage_collect_dry dry_entries_perform [OF assms(2) scan(2)]
      by (cases res) (auto simp: garbage_collect_def)
  qed
qed

text \<open>
  C20: an interrupted collection is completed by the next one.  When a run fails, or is killed inside
  the observer after any of its unlinks, while an uninterrupted run would have succeeded, then no table
  has changed, and a run over the state that is left returns the report of the uninterrupted run and
  ends in its state.
\<close>

theorem gc_interrupted_run_recovers:
  assumes "store_wf sha (re_artifacts r)" "artifacts_ok (re_database r)" "lists_dir ls"
    "garbage_collect sha ls as_of_us grace False r = (Inr result, r')"
    "garbage_collect_observed sha ls as_of_us grace False observer r = (Inl e, r1)"
  shows "re_database r1 = re_database r \<and> garbage_collect sha ls as_of_us grace False r1 = (Inr result, r')"
proof -
  let ?as_of = "int (unat as_of_us)"
  let ?C = "{d. collectable (re_database r) as_of_us grace d}"
  obtain discovered where scan: "discover_records sha ls (as_files (re_artifacts r)) = Inr discovered"
    "scan sha (as_files (re_artifacts r)) discovered" using scan_exists [OF assms(1,3)] .
  have full: "\<not> grace < MICROSECONDS_PER_DAY" "unat as_of_us < 2 ^ 63" "consistent (re_database r) discovered"
    "marks_ok ?as_of (re_database r)"
    "result = report False as_of_us grace (collected_entries as_of_us ?as_of grace discovered (re_database r))"
    "r' = collected as_of_us ?as_of grace discovered r"
    using garbage_collect_real [OF assms(1,2) scan, where as_of_us = as_of_us and grace = grace and observer = "\<lambda>_. Inr ()"] assms(4)
    by (simp_all add: garbage_collect_def)
  have cut: "re_database r1 = re_database r" "unlinked ?C (re_artifacts r) (re_artifacts r1)"
    using garbage_collect_real [OF assms(1,2) scan, where as_of_us = as_of_us and grace = grace and observer = observer] assms(5)
    by simp_all
  obtain E where E: "E \<subseteq> ?C" "re_artifacts r1 = (re_artifacts r)\<lparr>as_files := drop_objects E (as_files (re_artifacts r))\<rparr>"
    using cut(2) by (auto simp: unlinked_def)
  have finite: "finite E" by (rule finite_subset [OF E(1) finite_collectable])
  have wf1: "store_wf sha (re_artifacts r1)" using unlinked_collectable(1) [OF cut(2) assms(1)] .
  obtain left where scan1: "discover_records sha ls (as_files (re_artifacts r1)) = Inr left"
    "scan sha (as_files (re_artifacts r1)) left" using scan_exists [OF wf1 assms(3)] .
  have left: "set left = {e \<in> set discovered. ac_digest e \<notin> E}"
    using scan(2) scan1(2) drop_entries [OF finite assms(1)] E(2) by (simp add: scan_def)
  have kept: "is_orphan (re_database r) e \<Longrightarrow> ac_digest e \<notin> E" for e
    using E(1) by (auto simp: is_orphan_def collectable_def)
  have "filter (is_orphan (re_database r)) left = filter (is_orphan (re_database r)) discovered"
  proof (rule sorted_key_unique [where f = ac_digest])
    show "sorted_wrt (<) (map ac_digest (filter (is_orphan (re_database r)) left))"
      "sorted_wrt (<) (map ac_digest (filter (is_orphan (re_database r)) discovered))"
      using scan(2) scan1(2) by (simp_all add: scan_def sorted_wrt_map sorted_wrt_filter)
    show "set (filter (is_orphan (re_database r)) left) = set (filter (is_orphan (re_database r)) discovered)"
      using left kept by auto
  qed
  then have same: "with_orphans ?as_of left (re_database r) = with_orphans ?as_of discovered (re_database r)"
    "orphan_digests (re_database r) left = orphan_digests (re_database r) discovered"
    by (simp_all add: with_orphans_def orphan_digests_def flip: set_filter)
  have entries: "collected_entries as_of_us ?as_of grace left (re_database r) =
      collected_entries as_of_us ?as_of grace discovered (re_database r)"
    unfolding collected_entries_def run_candidates_def run_action_def same ..
  have state: "collected as_of_us ?as_of grace left r1 = r'"
  proof (rule SqliteRepository.equality)
    show "re_database (collected as_of_us ?as_of grace left r1) = re_database r'"
      unfolding full(6) collected_def swept_by_def run_candidates_def cut(1) same by simp
    have "E \<union> ?C = ?C" using E(1) by blast
    then show "re_artifacts (collected as_of_us ?as_of grace left r1) = re_artifacts r'"
      unfolding full(6) by (simp add: collected_files [OF scan(2)] collected_files [OF scan1(2)] cut(1) E(2) drop_objects_drop Un_commute)
  qed (simp add: full(6))
  have consistent: "consistent (re_database r1) left" using full(3) left cut(1) by (auto simp: consistent_def)
  have ok1: "artifacts_ok (re_database r1)" using assms(2) cut(1) by simp
  note run = garbage_collect_real [OF wf1 ok1 scan1, where as_of_us = as_of_us and grace = grace and observer = "\<lambda>_. Inr ()"]
  show ?thesis
  proof (cases "garbage_collect_observed sha ls as_of_us grace False (\<lambda>_. Inr ()) r1")
    case (Pair res r2)
    then show ?thesis using cut(1) run consistent full(1,2,4,5) cut(1) entries state
      by (cases res) (simp_all add: garbage_collect_def)
  qed
qed

section \<open>Instances\<close>

text \<open>A repository with one stored object, whose row was marked at time zero and that nothing uses.\<close>

definition zero_sha :: "byte list \<Rightarrow> Digest32" where
  "zero_sha bs = Digest32_ZERO"

definition sorted_ls :: "fs \<Rightarrow> path \<Rightarrow> string list" where
  "sorted_ls fs p = sorted_list_of_set (children fs p)"

definition sample_repository :: SqliteRepository where
  "sample_repository =
     \<lparr>re_database = empty_database\<lparr>db_artifacts :=
        fmap_of_list [(Digest32_ZERO, verified_row (entry_for Digest32_ZERO [7]) 1 0 (Some 0))]\<rparr>,
      re_artifacts = empty_store\<lparr>as_sequence := 0, as_files := ingested (zero_sha [7]) [7] (as_files empty_store)\<rparr>\<rparr>"

lemma sample_store_wf: "store_wf zero_sha (re_artifacts sample_repository)"
  unfolding sample_repository_def SqliteRepository.simps by (rule ingested_wf [OF empty_store_wf]) simp

lemma sorted_ls_lists: "lists_dir sorted_ls"
  using lists_dir_sorted by (simp add: sorted_ls_def [abs_def])

lemma sample_rows: "fmlookup (db_artifacts (re_database sample_repository)) d =
    (if d = Digest32_ZERO then Some (verified_row (entry_for Digest32_ZERO [7]) 1 0 (Some 0)) else None)"
  by (simp add: sample_repository_def)

lemma sample_unused [simp]: "\<not> referenced (re_database sample_repository) d" "\<not> pinned (re_database sample_repository) d"
  by (simp_all add: sample_repository_def referenced_def pinned_def empty_database_def)

lemma sample_artifacts_ok: "artifacts_ok (re_database sample_repository)"
  by (simp add: artifacts_ok_def sample_rows artifact_row_ok_def verified_row_def)

lemma sample_collectable: "collectable (re_database sample_repository) 864000000000 86400000000 Digest32_ZERO"
  by (simp add: collectable_def sample_rows verified_row_def grace_over_def)

lemma sample_run:
  obtains discovered where "discover_records zero_sha sorted_ls (as_files (re_artifacts sample_repository)) = Inr discovered"
    "scan zero_sha (as_files (re_artifacts sample_repository)) discovered" "consistent (re_database sample_repository) discovered"
proof -
  obtain discovered where scan: "discover_records zero_sha sorted_ls (as_files (re_artifacts sample_repository)) = Inr discovered"
    "scan zero_sha (as_files (re_artifacts sample_repository)) discovered" using scan_exists [OF sample_store_wf sorted_ls_lists] .
  have "entries zero_sha (as_files empty_store) = {}"
    by (auto simp: entries_def object_entry_def object_at_def empty_store_lookup path_distinct)
  moreover have absent: "fmlookup (as_files empty_store) (object_path Digest32_ZERO) = None" by (simp add: empty_store_lookup path_distinct)
  moreover have "as_files (re_artifacts sample_repository) = add_object Digest32_ZERO [7] (as_files empty_store)"
    using absent by (simp add: sample_repository_def ingested_def zero_sha_def)
  ultimately have "set discovered = {entry_for Digest32_ZERO [7]}"
    using scan(2) entries_add [OF absent, of zero_sha "[7]"] by (simp add: scan_def zero_sha_def)
  then have "consistent (re_database sample_repository) discovered"
    by (simp add: consistent_def sample_rows row_record_def verified_row_def validate_record_metadata_Inr entry_for_def)
  then show ?thesis using that scan by blast
qed

lemma sample_collects: "\<exists>result r'. garbage_collect zero_sha sorted_ls 864000000000 86400000000 False sample_repository = (Inr result, r')"
proof -
  obtain discovered where scan: "discover_records zero_sha sorted_ls (as_files (re_artifacts sample_repository)) = Inr discovered"
    "scan zero_sha (as_files (re_artifacts sample_repository)) discovered" "consistent (re_database sample_repository) discovered"
    using sample_run .
  have "marks_ok i (re_database sample_repository)" for i by (simp add: marks_ok_def sample_rows verified_row_def)
  then show ?thesis
    using garbage_collect_real [OF sample_store_wf sample_artifacts_ok scan(1,2), where as_of_us = 864000000000
        and grace = 86400000000 and observer = "\<lambda>_. Inr ()"] scan(3)
    by (cases "garbage_collect_observed zero_sha sorted_ls 864000000000 86400000000 False (\<lambda>_. Inr ()) sample_repository")
      (auto simp: garbage_collect_def MICROSECONDS_PER_DAY_def split: sum.splits)
qed

lemma sample_interrupted: "\<exists>e r1. garbage_collect_observed zero_sha sorted_ls 864000000000 86400000000 False
    (\<lambda>_. Inl RetirementConflict) sample_repository = (Inl e, r1)"
proof -
  obtain discovered where scan: "discover_records zero_sha sorted_ls (as_files (re_artifacts sample_repository)) = Inr discovered"
    "scan zero_sha (as_files (re_artifacts sample_repository)) discovered" "consistent (re_database sample_repository) discovered"
    using sample_run .
  have "{d. collectable (re_database sample_repository) 864000000000 86400000000 d} \<noteq> {}" using sample_collectable by blast
  then show ?thesis
    using garbage_collect_real [OF sample_store_wf sample_artifacts_ok scan(1,2), where as_of_us = 864000000000
        and grace = 86400000000 and observer = "\<lambda>_. Inl RetirementConflict"]
    by (cases "garbage_collect_observed zero_sha sorted_ls 864000000000 86400000000 False (\<lambda>_. Inl RetirementConflict) sample_repository")
      (auto split: sum.splits)
qed

theorem gc_collects_only_garbage_witness:
  "\<exists>result r'. garbage_collect_observed zero_sha sorted_ls 864000000000 86400000000 False (\<lambda>_. Inr ()) sample_repository = (Inr result, r') \<and>
    fmlookup (db_artifacts (re_database r')) Digest32_ZERO = None \<and>
    fmlookup (as_files (re_artifacts r')) (object_path Digest32_ZERO) = None"
proof -
  obtain result r' where run: "garbage_collect_observed zero_sha sorted_ls 864000000000 86400000000 False (\<lambda>_. Inr ()) sample_repository = (Inr result, r')"
    using sample_collects unfolding garbage_collect_def by blast
  have "row_after (re_database sample_repository) 864000000000 86400000000 Digest32_ZERO
      (verified_row (entry_for Digest32_ZERO [7]) 1 0 (Some 0)) = None"
    by (simp add: row_after_def verified_row_def grace_over_def)
  then show ?thesis
    using gc_collects_only_garbage [OF sample_store_wf sample_artifacts_ok sorted_ls_lists run] run sample_collectable
    by (simp add: sample_rows drop_objects_lookup)
qed

theorem gc_dry_run_predicts_witness:
  "\<exists>plan result. fst (garbage_collect zero_sha sorted_ls 864000000000 86400000000 True sample_repository) = Inr plan \<and>
    fst (garbage_collect zero_sha sorted_ls 864000000000 86400000000 False sample_repository) = Inr result \<and>
    gr_entries result = map perform (gr_entries plan)"
  using gc_dry_run_predicts [OF sample_store_wf sample_artifacts_ok sorted_ls_lists, of 864000000000 86400000000] sample_collects
  by (metis fst_conv)

theorem gc_interrupted_run_recovers_witness:
  "\<exists>e r1 result r'. garbage_collect_observed zero_sha sorted_ls 864000000000 86400000000 False
      (\<lambda>_. Inl RetirementConflict) sample_repository = (Inl e, r1) \<and> re_database r1 = re_database sample_repository \<and>
    garbage_collect zero_sha sorted_ls 864000000000 86400000000 False r1 = (Inr result, r')"
  using gc_interrupted_run_recovers [OF sample_store_wf sample_artifacts_ok sorted_ls_lists] sample_collects sample_interrupted
  by metis

end
