(* ===== verification/RepoLaws.thy ===== *)
theory RepoLaws
  imports WriteLaws GcLaws
begin

text \<open>
  The invariant of the whole repository, tables and files: the table invariant, a clean
  content-addressed store, and every artifact that a reference or a pin names has a verified row and
  its intact object on disk.  Every public operation keeps it, whether it succeeds or fails.
\<close>

section \<open>Artifacts in use\<close>

definition live :: "(byte list \<Rightarrow> Digest32) \<Rightarrow> fs \<Rightarrow> Database \<Rightarrow> ArtifactDigest \<Rightarrow> bool" where
  "live sha fs db d \<longleftrightarrow> (\<exists>row. fmlookup (db_artifacts db) d = Some row \<and> at_integrity_status row = ''verified'' \<and>
     row_record d row \<in> entries sha fs)"

definition used :: "Database \<Rightarrow> ArtifactDigest \<Rightarrow> bool" where
  "used db d \<longleftrightarrow> referenced db d \<or> pinned db d"

definition live_inv :: "(byte list \<Rightarrow> Digest32) \<Rightarrow> fs \<Rightarrow> ArtifactDigest set \<Rightarrow> Database \<Rightarrow> bool" where
  "live_inv sha fs D db \<longleftrightarrow> (\<forall>d. used db d \<or> d \<in> D \<longrightarrow> live sha fs db d)"

definition repo_inv :: "(byte list \<Rightarrow> Digest32) \<Rightarrow> json_codec \<Rightarrow> SqliteRepository \<Rightarrow> bool" where
  "repo_inv sha js r \<longleftrightarrow> db_inv sha js (re_database r) \<and> store_wf sha (re_artifacts r) \<and>
     live_inv sha (as_files (re_artifacts r)) {} (re_database r)"

lemma repo_invD:
  assumes "repo_inv sha js r"
  shows "db_inv sha js (re_database r)" "schema_ok js (re_database r)" "store_wf sha (re_artifacts r)"
    "live_inv sha (as_files (re_artifacts r)) {} (re_database r)"
  using assms by (simp_all add: repo_inv_def db_inv_def)

definition same_artifacts :: "Database \<Rightarrow> Database \<Rightarrow> bool" where
  "same_artifacts db db' \<longleftrightarrow> db_artifacts db' = db_artifacts db \<and> db_artifact_refs db' = db_artifact_refs db \<and>
     db_artifact_pins db' = db_artifact_pins db"

lemma same_artifacts_live: "same_artifacts db db' \<Longrightarrow> live_inv sha fs D db \<Longrightarrow> live_inv sha fs D db'"
  by (simp add: same_artifacts_def live_inv_def live_def used_def referenced_def pinned_def)

interpretation artifact_frame: db_preorder same_artifacts
  by unfold_locales (simp_all add: same_artifacts_def)

lemma carries_same_artifacts: "moves same_artifacts m \<Longrightarrow> carries (live_inv sha fs D) m"
  by (rule carriesI) (metis movesD same_artifacts_live)

lemma same_artifacts_statements:
  "moves same_artifacts (execute (update_row drafts_table d p f))"
  "moves same_artifacts (execute (insert_ignore relations_table k v))"
  "moves same_artifacts (execute (insert_ignore (policies_table js) name prow))"
  by (rule artifact_frame.moves_execute, auto simp: drafts_tab.update_row_Inr relations_tab.insert_ignore_Inr
      policies_tab.insert_ignore_Inr same_artifacts_def split: if_splits)+

lemma put_atom_live: "carries (live_inv sha' fs D) (put_atom_transaction sha js atom)"
proof (rule carriesI)
  fix r r' fresh assume live: "live_inv sha' fs D (re_database r)" and run: "put_atom_transaction sha js atom r = (Inr fresh, r')"
  have "same_artifacts (re_database r) (re_database r')"
    using put_atom_Inr(3,4) [OF run] by (cases fresh) (auto simp: same_artifacts_def inserted_atom_def)
  then show "live_inv sha' fs D (re_database r')" using same_artifacts_live live by blast
qed

lemma relation_link_live: "carries (live_inv sha' fs D) (insert_relation_link sha atom link)"
  unfolding insert_relation_link_def put_once_def
  by (intro carries_same_artifacts artifact_frame.moves_and_then artifact_frame.moves_pure same_artifacts_statements)

lemma seal_status_live: "carries (live_inv sha' fs D) (execute (seal_status draft atom))"
  unfolding seal_status_def by (intro carries_same_artifacts same_artifacts_statements)

text \<open>A new reference points to a live artifact, and clearing the mark of a row keeps it live.\<close>

lemma referenced_upd: "referenced (db\<lparr>db_artifact_refs := fmupd (d, k) v (db_artifact_refs db)\<rparr>) e \<longleftrightarrow> referenced db e \<or> e = d"
  by (auto simp: referenced_def)

lemma put_ref_live:
  assumes "d \<in> D"
  shows "carries (live_inv sha fs D) (put_once artifact_refs_table (d, k) v content what)"
proof (rule carriesI)
  fix r r' u assume live: "live_inv sha fs D (re_database r)"
    and run: "put_once artifact_refs_table (d, k) v content what r = (Inr u, r')"
  show "live_inv sha fs D (re_database r')"
  proof (cases "fmlookup (db_artifact_refs (re_database r)) (d, k)")
    case None
    then have "re_database r' = (re_database r)\<lparr>db_artifact_refs := fmupd (d, k) v (db_artifact_refs (re_database r))\<rparr>"
      using run by (auto simp: artifact_refs_tab.put_once_Inr)
    then show ?thesis using live assms
      by (auto simp: live_inv_def used_def live_def referenced_upd pinned_def)
  next
    case (Some w)
    then show ?thesis using run live by (auto simp: artifact_refs_tab.put_once_Inr)
  qed
qed

lemma clear_mark_live: "carries (live_inv sha fs D) (execute (clear_gc_mark d))"
proof (rule carriesI)
  fix r r' n assume live: "live_inv sha fs D (re_database r)" and run: "execute (clear_gc_mark d) r = (Inr n, r')"
  consider "re_database r' = re_database r"
    | row where "fmlookup (db_artifacts (re_database r)) d = Some row"
      "re_database r' = (re_database r)\<lparr>db_artifacts := fmupd d (row\<lparr>at_gc_marked_at_us := None\<rparr>) (db_artifacts (re_database r))\<rparr>"
    using run by (auto simp: execute_Inr clear_gc_mark_def artifacts_tab.update_row_Inr split: if_splits)
  then show "live_inv sha fs D (re_database r')"
  proof cases
    case 2
    have "live sha fs (re_database r) e \<Longrightarrow> live sha fs (re_database r') e" for e
      using 2 by (auto simp: live_def row_record_def)
    then show ?thesis using live 2(2) by (simp add: live_inv_def used_def referenced_def pinned_def)
  qed (use live in simp)
qed

lemma artifact_link_live:
  assumes "al_artifact_digest link \<in> D"
  shows "carries (live_inv sha fs D) (insert_artifact_link atom link)"
proof -
  have "moves same_artifacts (put_once artifact_provenance_table k v content what)" for k v what and content :: "bool \<Rightarrow> bool"
    unfolding put_once_def
    by (intro artifact_frame.moves_and_then artifact_frame.moves_pure artifact_frame.moves_execute)
      (auto simp: artifact_provenance_tab.insert_ignore_Inr same_artifacts_def split: if_splits)
  then show ?thesis
    unfolding insert_artifact_link_def
    by (intro carries_and_then carries_basic put_ref_live assms clear_mark_live carries_same_artifacts)
qed

lemma insert_links_live:
  assumes "al_artifact_digest ` set artifact_links \<subseteq> D"
  shows "carries (live_inv sha' fs D) (insert_atom_links_transaction sha atom artifact_links relation_links)"
  unfolding insert_atom_links_transaction_def
  using assms by (intro carries_rules artifact_link_live relation_link_live) auto

text \<open>A transaction on the tables, under an invariant its body carries.\<close>

lemma transaction_repo_inv:
  assumes inv: "repo_inv sha js r" and tables: "tables_only body" and db: "carries (db_inv sha js) body"
    and live: "carries (live_inv sha (as_files (re_artifacts r)) D) body"
    and D: "\<And>d. d \<in> D \<Longrightarrow> live sha (as_files (re_artifacts r)) (re_database r) d"
  shows "repo_inv sha js (snd (transaction body r))"
proof (cases "transaction body r")
  case (Pair x r')
  show ?thesis
  proof (cases x)
    case (Inl e)
    then show ?thesis using transaction_failed [OF _ tables] Pair inv by auto
  next
    case (Inr y)
    then have run: "body r = (Inr y, r')" using Pair by (simp add: transaction_Inr)
    have files: "re_artifacts r' = re_artifacts r" using tables run unfolding tables_only_def by (metis snd_conv)
    have "live_inv sha (as_files (re_artifacts r)) D (re_database r)"
      using repo_invD(4) [OF inv] D by (auto simp: live_inv_def)
    from carriesD [OF live this run] have "live_inv sha (as_files (re_artifacts r)) {} (re_database r')"
      by (simp add: live_inv_def)
    moreover have "db_inv sha js (re_database r')" using carriesD [OF db repo_invD(1) [OF inv] run] .
    ultimately show ?thesis using repo_invD(3) [OF inv] files Pair by (simp add: repo_inv_def)
  qed
qed

lemmas tables_rules = tables_only_and_then tables_only_basic tables_only_each tables_only_if

section \<open>Every operation keeps the invariant\<close>

lemma artifact_rows_ok: "schema_ok js db \<Longrightarrow> fmlookup (db_artifacts db) d = Some row \<Longrightarrow> artifact_row_ok row"
  by (auto simp: schema_ok_def table_ok_def)

lemma repo_artifacts_ok:
  assumes "repo_inv sha js r"
  shows "artifacts_ok (re_database r)"
  using artifact_rows_ok [OF repo_invD(2) [OF assms]] repo_invD(4) [OF assms]
  by (auto simp: artifacts_ok_def live_inv_def live_def used_def)

lemma validate_artifact_links_live:
  assumes "schema_ok js (re_database r)"
  shows "validate_artifact_links sha seen links r = Inr u \<Longrightarrow> d \<in> al_artifact_digest ` set links \<Longrightarrow>
    live sha (as_files (re_artifacts r)) (re_database r) d"
proof (induction links arbitrary: seen)
  case (Cons link links)
  let ?d = "al_artifact_digest link"
  obtain row where row: "fmlookup (db_artifacts (re_database r)) ?d = Some row"
    using Cons.prems(1) by (auto simp: query_row_def bindr_Inr ok_or_Inr split: if_splits)
  have "artifact_record_from_row ?d row = Inr (row_record ?d row)"
    using artifact_record_from_row_ok artifact_rows_ok [OF assms row] by blast
  then have load: "load_artifact_record ?d (re_database r) = Inr (Some (row_record ?d row))"
    by (simp add: load_artifact_record_def row)
  have "at_integrity_status row = ''verified''" "verify_artifact sha (row_record ?d row) (as_files (re_artifacts r)) = Inr ()"
    and rest: "validate_artifact_links sha ((?d, al_role link) # seen) links r = Inr u"
    using Cons.prems(1) by (auto simp: load query_row_def row bindr_Inr split: if_splits)
  then have "live sha (as_files (re_artifacts r)) (re_database r) ?d"
    using row by (auto simp: live_def entries_iff)
  then show ?case using Cons.prems(2) Cons.IH [OF rest] by auto
qed simp

lemma validate_links_live:
  assumes "schema_ok js (re_database r)" "validate_atom_links_with_batch sha space artifact_links relation_links batch r = Inr u"
    "d \<in> al_artifact_digest ` set artifact_links"
  shows "live sha (as_files (re_artifacts r)) (re_database r) d"
  using assms(2) validate_artifact_links_live [OF assms(1) _ assms(3)]
  by (auto simp: validate_atom_links_with_batch_def bindr_Inr)

lemma tables_only_option: "tables_only m \<Longrightarrow> (\<And>x. tables_only (f x)) \<Longrightarrow> tables_only (case v of None \<Rightarrow> m | Some x \<Rightarrow> f x)"
  by (cases v) simp_all

lemma tables_only_put_atom: "tables_only (put_atom_transaction sha js atom)"
  unfolding put_atom_transaction_def insert_atom_rows_def insert_atom_provenance_transaction_def
    insert_provenance_source_def Let_def split_beta
  by (intro tables_rules tables_only_option)

lemma tables_only_links: "tables_only (insert_atom_links_transaction sha atom artifact_links relation_links)"
  unfolding insert_atom_links_transaction_def insert_artifact_link_def insert_relation_link_def put_once_def
  by (intro tables_rules)

text \<open>Operations that only touch other tables.\<close>

lemma repo_inv_frame:
  assumes "repo_inv sha js r" "db_inv sha js (re_database r')" "same_artifacts (re_database r) (re_database r')"
    "re_artifacts r' = re_artifacts r"
  shows "repo_inv sha js r'"
  using assms same_artifacts_live [OF assms(3)] by (simp add: repo_inv_def)

lemma install_policy_inv: "keeps (repo_inv sha js) (install_policy sha' js policy at)"
proof (rule keepsI)
  fix r assume inv: "repo_inv sha js r"
  obtain x r' where run: "install_policy sha' js policy at r = (x, r')" by fastforce
  have schema: "keeps_db (schema_ok js) (install_policy sha' js policy at)"
    unfolding install_policy_def by (intro keeps_rules schema_keeps)
  have art: "moves same_artifacts (install_policy sha' js policy at)"
    unfolding install_policy_def put_once_def
    by (intro artifact_frame.moves_and_then artifact_frame.moves_pure artifact_frame.moves_transaction same_artifacts_statements)
  have frame: "moves link_frame (install_policy sha' js policy at)"
    unfolding install_policy_def put_once_def
    by (intro link.moves_and_then link.moves_pure link.moves_transaction link.moves_execute)
      (auto simp: policies_tab.insert_ignore_Inr link_frame_def same_core_def split: if_splits)
  have "schema_ok js (re_database r')" using keepsD [OF schema repo_invD(2) [OF inv]] run by simp
  moreover have "db_artifact_refs (re_database r') = db_artifact_refs (re_database r)"
    using movesD [OF art run] by (simp add: same_artifacts_def)
  ultimately have db: "db_inv sha js (re_database r')"
    using db_inv_link_frame [OF repo_invD(1) [OF inv] movesD [OF frame run]] link_frame_refs_ok [OF movesD [OF frame run] _ repo_invD(1) [OF inv]] by blast
  have "tables_only (install_policy sha' js policy at)"
    unfolding install_policy_def put_once_def tables_only_def
    by (auto simp: and_then_def transaction_def execute_def split: prod.splits sum.splits)
  then have "re_artifacts r' = re_artifacts r" using run unfolding tables_only_def by (metis snd_conv)
  then show "repo_inv sha js (snd (install_policy sha' js policy at r))"
    using repo_inv_frame [OF inv db movesD [OF art run]] run by simp
qed

lemma drafts_frame_inv:
  assumes inv: "repo_inv sha js r" and schema: "schema_ok js (re_database r')" and drafts: "drafts_wf sha (re_database r')"
    and post: "re_database r' = (re_database r)\<lparr>db_drafts := ds, db_events := es\<rparr>" and files: "re_artifacts r' = re_artifacts r"
  shows "repo_inv sha js r'"
proof (rule repo_inv_frame [OF inv])
  have "same_atoms (re_database r) (re_database r')" by (simp add: post same_atoms_def)
  then show "db_inv sha js (re_database r')" by (rule db_inv_same_atoms [OF _ repo_invD(1) [OF inv] schema drafts])
qed (simp_all add: post same_artifacts_def files)

lemma append_event_inv: "keeps (repo_inv sha js) (append_event_observed sha draft event observer)"
proof (rule keepsI)
  fix r assume inv: "repo_inv sha js r"
  obtain x r' where run: "append_event_observed sha draft event observer r = (x, r')" by fastforce
  have schema: "keeps_db (schema_ok js) (append_event_observed sha draft event observer)"
    unfolding append_event_observed_def claim_sequence_def by (intro keeps_rules schema_keeps)
  have drafts: "drafts_wf sha (re_database r)" using repo_invD(1) [OF inv] by (simp add: db_inv_def)
  have "repo_inv sha js r'"
  proof (cases x)
    case (Inl e)
    then show ?thesis using append_event_Inl run inv by metis
  next
    case (Inr u)
    then have ok: "append_ok sha (re_database r) draft event" "r' = r\<lparr>re_database := appended draft event (re_database r)\<rparr>"
      using append_event_Inr [OF drafts] run by auto
    have "schema_ok js (re_database r')" using keepsD [OF schema repo_invD(2) [OF inv]] run by simp
    then show ?thesis
      using drafts_frame_inv [OF inv, where r' = r' and ds = "db_drafts (re_database r')" and es = "db_events (re_database r')"] appended_wf [OF drafts ok(1)]
      by (simp add: ok(2) appended_def)
  qed
  then show "repo_inv sha js (snd (append_event_observed sha draft event observer r))" by (simp add: run)
qed

lemma create_draft_inv: "keeps (repo_inv sha js) (create_draft d space repo task agent session at)"
proof (rule keepsI)
  fix r assume inv: "repo_inv sha js r"
  obtain x r' where run: "create_draft d space repo task agent session at r = (x, r')" by fastforce
  have schema: "keeps_db (schema_ok js) (create_draft d space repo task agent session at)"
    unfolding create_draft_def by (intro keeps_rules schema_keeps)
  have drafts: "drafts_wf sha (re_database r)" using repo_invD(1) [OF inv] by (simp add: db_inv_def)
  have "repo_inv sha js r'"
  proof (cases x)
    case (Inl e)
    then show ?thesis using create_draft_Inl run inv by metis
  next
    case (Inr u)
    have "schema_ok js (re_database r')" using keepsD [OF schema repo_invD(2) [OF inv]] run by simp
    then show ?thesis
      using drafts_frame_inv [OF inv, where r' = r' and ds = "db_drafts (re_database r')" and es = "db_events (re_database r')"]
        create_draft_wf [OF drafts run] run Inr by (simp add: create_draft_Inr)
  qed
  then show "repo_inv sha js (snd (create_draft d space repo task agent session at r))" by (simp add: run)
qed

lemma states_frame_inv:
  assumes inv: "repo_inv sha js r" and schema: "schema_ok js (re_database r')" and counters: "counters_ok (re_database r')"
    and status: "status_of (re_database r') = status_of (re_database r)"
    and post: "re_database r' = (re_database r)\<lparr>db_states := ss, db_feedback := fs\<rparr>" and files: "re_artifacts r' = re_artifacts r"
  shows "repo_inv sha js r'"
proof (rule repo_inv_frame [OF inv])
  have same: "db_headers (re_database r') = db_headers (re_database r)" "db_provenance (re_database r') = db_provenance (re_database r)"
    "db_artifact_refs (re_database r') = db_artifact_refs (re_database r)" by (simp_all add: post)
  have "erased (re_database r') = erased (re_database r)" "body_ok sha (re_database r') = body_ok sha (re_database r)"
    by (simp_all add: erased_def body_ok_def post fun_eq_iff)
  moreover have "kept (re_database r') = kept (re_database r)" by (simp add: kept_def status fun_eq_iff)
  ultimately have "atoms_wf sha (re_database r') = atoms_wf sha (re_database r)" "refs_ok (re_database r') = refs_ok (re_database r)"
    by (simp_all add: atoms_wf_def atom_ok_def refs_ok_def status same)
  moreover have "drafts_wf sha (re_database r') = drafts_wf sha (re_database r)" "spaces_ok (re_database r') = spaces_ok (re_database r)"
    by (simp_all add: drafts_wf_def spaces_ok_def space_of_def post)
  ultimately show "db_inv sha js (re_database r')"
    using repo_invD(1) [OF inv] schema counters by (simp add: db_inv_def)
qed (simp_all add: post same_artifacts_def files)

lemma schema_states: "schema_ok js db \<Longrightarrow> table_ok states_table db"
  by (simp add: schema_ok_def)

lemma counted_shape: "\<exists>ss fs. counted f row db = db\<lparr>db_states := ss, db_feedback := fs\<rparr>"
  by (rule exI [of _ "fmupd (fr_atom_id row) (count_feedback (fr_outcome row = 1)
        (the (fmlookup (db_states db) (fr_atom_id row)))) (db_states db)"], rule exI [of _ "fmupd f row (db_feedback db)"])
    (simp add: counted_def)

lemma count_status: "sr_content_status (count_feedback positive row) = sr_content_status row"
  by (simp add: count_feedback_def)

lemma counted_status: "fr_atom_id row |\<in>| fmdom (db_states db) \<Longrightarrow> status_of (counted f row db) = status_of db"
  by (auto simp: status_of_def counted_def count_status fun_eq_iff fmlookup_dom_iff)

lemma retrieved_status: "status_of (retrieved atoms db) = status_of db"
  by (auto simp: status_of_def retrieved_def fun_eq_iff option.map_comp comp_def intro!: option.map_cong)

lemma counter_update_schema:
  "keeps_db (schema_ok js) (add_feedback f atom as_of positive source evidence)"
  "keeps_db (schema_ok js) (record_retrievals atoms)"
  unfolding add_feedback_def record_retrievals_def count_retrieval_def Let_def
  by (intro keeps_rules schema_keeps)+

lemma add_feedback_inv: "keeps (repo_inv sha js) (add_feedback f atom as_of positive source evidence)"
proof (rule keepsI)
  fix r assume inv: "repo_inv sha js r"
  let ?run = "add_feedback f atom as_of positive source evidence r"
  have counters: "counters_ok (re_database r)" using repo_invD(1) [OF inv] by (simp add: db_inv_def)
  note eq = add_feedback_eq [OF refl refl counters schema_states [OF repo_invD(2) [OF inv]],
      of f atom as_of positive source evidence]
  show "repo_inv sha js (snd ?run)"
  proof (cases "snd ?run = r")
    case True
    then show ?thesis using inv by simp
  next
    case False
    let ?row = "feedback_entry atom as_of positive source evidence"
    have new: "has_header (re_database r) atom" "f |\<notin>| fmdom (db_feedback (re_database r))"
      "snd ?run = r\<lparr>re_database := counted f ?row (re_database r)\<rparr>"
      using False unfolding eq by (auto split: if_splits option.splits simp: fmdom_notI)
    have "counters_ok (counted f ?row (re_database r))"
      by (rule counted_ok) (use counters new in \<open>auto simp: feedback_entry_def\<close>)
    moreover have "schema_ok js (re_database (snd ?run))"
      by (rule keepsD [OF counter_update_schema(1) repo_invD(2) [OF inv]])
    moreover have "status_of (counted f ?row (re_database r)) = status_of (re_database r)"
      by (rule counted_status) (use counters new(1) in \<open>simp add: counters_ok_def feedback_entry_def\<close>)
    moreover obtain ss fs where "counted f ?row (re_database r) = (re_database r)\<lparr>db_states := ss, db_feedback := fs\<rparr>"
      using counted_shape by blast
    ultimately show ?thesis
      using states_frame_inv [OF inv, where r' = "snd ?run" and ss = ss and fs = fs] unfolding new(3) by simp
  qed
qed

lemma record_retrievals_inv: "keeps (repo_inv sha js) (record_retrievals atoms)"
proof (rule keepsI)
  fix r assume inv: "repo_inv sha js r"
  obtain x r' where run: "record_retrievals atoms r = (x, r')" by fastforce
  have counters: "counters_ok (re_database r)" using repo_invD(1) [OF inv] by (simp add: db_inv_def)
  have "repo_inv sha js r'"
  proof (cases x)
    case (Inl e)
    then show ?thesis using record_retrievals_Inl run inv by metis
  next
    case (Inr u)
    then have post: "r' = r\<lparr>re_database := retrieved atoms (re_database r)\<rparr>"
      using record_retrievals_Inr [OF schema_states [OF repo_invD(2) [OF inv]]] run by blast
    have "schema_ok js (re_database r')" using keepsD [OF counter_update_schema(2) repo_invD(2) [OF inv], of atoms] run by simp
    then show ?thesis
      using states_frame_inv [OF inv, where r' = r' and ss = "db_states (re_database r')" and fs = "db_feedback (re_database r')"]
        retrieved_counters_ok [OF counters, of atoms] retrieved_status [of atoms] by (simp add: post) (simp add: retrieved_def)
  qed
  then show "repo_inv sha js (snd (record_retrievals atoms r))" by (simp add: run)
qed

section \<open>Operations that store artifacts\<close>

lemma ingest_grows:
  assumes "store_wf sha s"
  shows "store_wf sha (snd (ingest sha reader s))"
    "entries sha (as_files s) \<subseteq> entries sha (as_files (snd (ingest sha reader s)))"
proof -
  obtain q where post: "ingest_post sha reader s q (ingest sha reader s)" using ingest_spec [OF assms] by blast
  obtain x s' where run: "ingest sha reader s = (x, s')" by fastforce
  have "store_wf sha s' \<and> entries sha (as_files s) \<subseteq> entries sha (as_files s')"
  proof (cases x)
    case (Inl e)
    then have "s' = s\<lparr>as_sequence := q\<rparr>" using post run by (simp add: ingest_post_def)
    then show ?thesis using assms by (simp add: store_wf_def)
  next
    case (Inr e)
    then obtain bs where bs: "length bs \<le> 67108864" "s' = s\<lparr>as_sequence := q, as_files := ingested (sha bs) bs (as_files s)\<rparr>"
      using post run by (auto simp: ingest_post_def)
    have "entries sha (as_files s) \<subseteq> entries sha (ingested (sha bs) bs (as_files s))"
      using entries_add [OF _ refl bs(1), where fs = "as_files s" and sha = sha]
      by (cases "fmlookup (as_files s) (object_path (sha bs))") (auto simp: ingested_def)
    then show ?thesis using ingested_wf [OF assms bs(1), of q] bs(2) by simp
  qed
  then show "store_wf sha (snd (ingest sha reader s))"
    "entries sha (as_files s) \<subseteq> entries sha (as_files (snd (ingest sha reader s)))" by (simp_all add: run)
qed

lemma live_inv_mono: "entries sha fs \<subseteq> entries sha fs' \<Longrightarrow> live_inv sha fs D db \<Longrightarrow> live_inv sha fs' D db"
  by (fastforce simp: live_inv_def live_def)

lemma ingest_inv: "keeps (repo_inv sha js) (on_store (ingest sha reader))"
proof (rule keepsI)
  fix r assume inv: "repo_inv sha js r"
  show "repo_inv sha js (snd (on_store (ingest sha reader) r))"
    using inv ingest_grows [OF repo_invD(3) [OF inv], of reader] live_inv_mono
    by (cases "ingest sha reader (re_artifacts r)") (auto simp: on_store_def repo_inv_def)
qed

lemma insert_ignore_live: "keeps_db (live_inv sha fs D) (execute (insert_ignore artifacts_table d row))"
proof (rule keeps_execute, unfold preserves_def, intro allI impI)
  fix db db' n assume inv: "live_inv sha fs D db" and run: "insert_ignore artifacts_table d row db = Inr (db', n)"
  consider "db' = db" | "fmlookup (db_artifacts db) d = None" "db' = db\<lparr>db_artifacts := fmupd d row (db_artifacts db)\<rparr>"
    using run by (auto simp: artifacts_tab.insert_ignore_Inr fmdom_notD simp del: table_checks split: if_splits)
  then show "live_inv sha fs D db'"
  proof cases
    case 2
    have "live sha fs db' e" if "live sha fs db e" for e
      using that 2(1) unfolding 2(2) live_def by auto
    then show ?thesis using inv unfolding 2(2) live_inv_def used_def by (simp add: referenced_def pinned_def)
  qed (use inv in simp)
qed

definition same_refs :: "Database \<Rightarrow> Database \<Rightarrow> bool" where
  "same_refs db db' \<longleftrightarrow> db_artifact_refs db' = db_artifact_refs db"

interpretation same_refs: db_preorder same_refs
  by unfold_locales (simp_all add: same_refs_def)

lemma register_artifact_inv: "keeps (repo_inv sha js) (register_artifact sha entry at)"
proof (rule keepsI)
  fix r assume inv: "repo_inv sha js r"
  obtain x r' where run: "register_artifact sha entry at r = (x, r')" by fastforce
  have schema: "keeps_db (schema_ok js) (register_artifact sha entry at)"
    unfolding register_artifact_def by (intro keeps_rules schema_keeps)
  have frame: "moves link_frame (register_artifact sha entry at)"
    unfolding register_artifact_def by (intro link.moves_and_then link.moves_pure link_frame_statements)
  have "keeps_db (live_inv sha fs D) (register_artifact sha entry at)" for fs D
    unfolding register_artifact_def by (intro keeps_rules insert_ignore_live)
  from keepsD [OF this repo_invD(4) [OF inv]] have live: "live_inv sha (as_files (re_artifacts r)) {} (re_database r')" using run by simp
  have "tables_only (register_artifact sha entry at)"
    unfolding register_artifact_def by (intro tables_rules)
  then have "re_artifacts r' = re_artifacts r" using run unfolding tables_only_def by (metis snd_conv)
  moreover have "moves same_refs (register_artifact sha entry at)"
    unfolding register_artifact_def
    by (intro same_refs.moves_and_then same_refs.moves_pure same_refs.moves_execute)
      (auto simp: artifacts_tab.insert_ignore_Inr same_refs_def split: if_splits)
  then have "db_artifact_refs (re_database r') = db_artifact_refs (re_database r)"
    using movesD [where R = same_refs and m = "register_artifact sha entry at", OF _ run] by (simp add: same_refs_def)
  then have "db_inv sha js (re_database r')"
    using db_inv_link_frame [OF repo_invD(1) [OF inv] movesD [OF frame run] link_frame_refs_ok [OF movesD [OF frame run] _ repo_invD(1) [OF inv]]]
      keepsD [OF schema repo_invD(2) [OF inv]] run by simp
  ultimately have "repo_inv sha js r'" using live repo_invD(3) [OF inv] by (simp add: repo_inv_def)
  then show "repo_inv sha js (snd (register_artifact sha entry at r))" by (simp add: run)
qed

lemma keeps_query: "keeps P (query q)"
  by (simp add: keeps_def)

lemma prepare_links_inv: "keeps (repo_inv sha js) (prepare_core_links sha body)"
proof -
  have "keeps (repo_inv sha js) (prepare_artifact sha body artifact)" for artifact
    unfolding prepare_artifact_def prepare_inline_def prepare_stored_def ingest_bytes_def
    by (intro keeps_option keeps_if keeps_and_then keeps_pure ingest_inv register_artifact_inv keeps_select keeps_query)
  then show ?thesis
    unfolding prepare_core_links_def by (intro keeps_and_then keeps_pure keeps_each)
qed

end
