(* ===== verification/RepoOps.thy ===== *)
theory RepoOps
  imports RepoLaws
begin

text \<open>
  The invariant of the repository is kept by the operations that write atoms, seal drafts and
  collect garbage.
\<close>

section \<open>Validated transactions\<close>

text \<open>
  What a check that runs just before a transaction establishes of the artifacts, the transaction may
  use, because nothing happens in between.
\<close>

lemma validated_transaction_inv:
  assumes check: "\<And>r d. repo_inv sha js r \<Longrightarrow> check r = Inr () \<Longrightarrow> d \<in> D \<Longrightarrow> live sha (as_files (re_artifacts r)) (re_database r) d"
    and body: "tables_only body" "carries (db_inv sha js) body" "\<And>fs. carries (live_inv sha fs D) body"
  shows "keeps (repo_inv sha js) (and_then (query check) (\<lambda>_. transaction body))"
proof (rule keepsI)
  fix r assume inv: "repo_inv sha js r"
  show "repo_inv sha js (snd (and_then (query check) (\<lambda>_. transaction body) r))"
    using inv check [OF inv] transaction_repo_inv [OF inv body] by (cases "check r") simp_all
qed

lemma keeps_prod: "(\<And>a b. keeps P (f a b)) \<Longrightarrow> keeps P (case x of (a, b) \<Rightarrow> f a b)"
  by (cases x) simp

lemma carries_and_then_pure: "(\<And>x. m = Inr x \<Longrightarrow> carries P (f x)) \<Longrightarrow> carries P (and_then (pure m) f)"
  by (cases m) (simp_all add: carries_def)

lemma carries_prod: "(\<And>a b. x = (a, b) \<Longrightarrow> carries P (f a b)) \<Longrightarrow> carries P (case x of (a, b) \<Rightarrow> f a b)"
  by (cases x) simp

lemma tables_only_prod: "(\<And>a b. tables_only (f a b)) \<Longrightarrow> tables_only (case x of (a, b) \<Rightarrow> f a b)"
  by (cases x) simp

lemma tables_only_transaction: "tables_only body \<Longrightarrow> tables_only (transaction body)"
  by (simp add: tables_only_def transaction_def split: prod.splits sum.splits) (metis snd_conv)

section \<open>Atoms\<close>

text \<open>The checks of an initial state admit only present content.\<close>

lemma initial_present:
  "validate_initial_atom_state body state = Inr u \<Longrightarrow> from_core sha js body state = Inr atom \<Longrightarrow> am_content_status atom \<noteq> ''forgotten''"
  by (auto simp: validate_initial_atom_state_def from_core_def bindr_Inr split: if_splits)

lemma put_initial_atom_inv:
  "validate_initial_atom_state body state = Inr u \<Longrightarrow> from_core sha js body state = Inr atom \<Longrightarrow>
   carries (db_inv sha js) (put_atom_transaction sha js atom)"
  using put_atom_inv initial_present by blast

lemma put_core_atom_inv: "keeps (repo_inv sha js) (put_core_atom sha js body state)"
proof -
  have run: "keeps (repo_inv sha js) (and_then (query (validate_atom_links sha (am_memory_space_id atom) artifact_links relation_links))
      (\<lambda>_. transaction (and_then (put_atom_transaction sha js atom) (\<lambda>_.
        insert_atom_links_transaction sha (am_atom_id atom) artifact_links relation_links))))"
    if "from_core sha js body state = Inr atom" "am_content_status atom \<noteq> ''forgotten''" for atom artifact_links relation_links
    by (rule validated_transaction_inv [where D = "al_artifact_digest ` set artifact_links"])
      (auto simp: validate_atom_links_def intro: validate_links_live [OF repo_invD(2)]
        intro!: tables_only_put_atom tables_only_links carries_put_links [OF that] carries_and_then insert_links_inv put_atom_live insert_links_live)
  show ?thesis
    unfolding put_core_atom_def
    by (intro keeps_and_then_pure keeps_and_then [OF prepare_links_inv] keeps_prod run) (assumption, rule initial_present)
qed

lemma put_atoms_tables: "tables_only (put_atoms sha js atoms n)"
proof (induction atoms arbitrary: n)
  case (Cons a atoms)
  then show ?case by (cases a) (auto intro!: tables_rules tables_only_put_atom)
qed simp

lemma put_atoms_carries: "carries (db_inv sha js) (put_atoms sha js atoms n)" "carries (live_inv sha' fs D) (put_atoms sha js atoms n)"
proof (induction atoms arbitrary: n)
  case (Cons a atoms)
  { case 1 show ?case
      by (cases a) (auto intro!: carries_and_then_pure carries_and_then Cons.IH(1) put_initial_atom_inv)
  next
    case 2 show ?case
      by (cases a) (auto intro!: carries_and_then_pure carries_and_then Cons.IH(2) put_atom_live) }
qed (simp_all add: carries_def)

lemma put_core_atoms_batch_inv: "keeps (repo_inv sha js) (put_core_atoms_batch sha js atoms)"
proof -
  have "keeps (repo_inv sha js) (transaction (put_atoms sha js atoms 0))"
    by (rule keepsI, rule transaction_repo_inv [OF _ put_atoms_tables put_atoms_carries(1) put_atoms_carries(2) [where D = "{}"]]) simp_all
  then show ?thesis
    unfolding put_core_atoms_batch_def by (intro keeps_if keeps_and_then keeps_pure)
qed

section \<open>Sealing\<close>

lemma seal_draft_inv:
  assumes "from_core sha js body state = Inr atom" "am_content_status atom \<noteq> ''forgotten''"
  shows "keeps (repo_inv sha js) (seal_draft_with_links_observed sha js draft atom artifact_links relation_links observer)"
  unfolding seal_draft_with_links_observed_def
  by (rule keeps_and_then_pure, rule validated_transaction_inv [where D = "al_artifact_digest ` set artifact_links"])
    (auto simp: validate_atom_links_def intro: validate_links_live [OF repo_invD(2)]
      intro!: tables_rules tables_only_put_atom tables_only_links
        carries_put_links [OF assms] carries_rules insert_links_inv seal_status_inv put_atom_live insert_links_live seal_status_live)

lemma seal_core_draft_inv: "keeps (repo_inv sha js) (seal_core_draft_observed sha js draft body state observer)"
  unfolding seal_core_draft_observed_def
  by (intro keeps_and_then_pure keeps_and_then prepare_links_inv keeps_prod) (rule seal_draft_inv [OF _ initial_present])

text \<open>Every member of a prepared chain comes from a typed body.\<close>

lemma prepare_chain_inv: "keeps (repo_inv sha js) (prepare_chain sha js batch atoms)"
proof (induction atoms arbitrary: batch)
  case (Cons a atoms)
  then show ?case by (cases a) (auto intro!: keeps_and_then_pure keeps_if keeps_and_then prepare_links_inv keeps_prod keeps_pure)
qed simp

definition typed_atom :: "(byte list \<Rightarrow> Digest32) \<Rightarrow> json_codec \<Rightarrow> AtomRecord \<Rightarrow> bool" where
  "typed_atom sha js atom \<longleftrightarrow> (\<exists>body state. from_core sha js body state = Inr atom) \<and> am_content_status atom \<noteq> ''forgotten''"

lemma prepare_chain_atoms:
  assumes "\<forall>(body, state) \<in> set atoms. validate_initial_atom_state body state = Inr ()"
  shows "gives (\<lambda>(_, prepared). \<forall>(atom, _) \<in> set prepared. typed_atom sha js atom) (prepare_chain sha js batch atoms)"
  using assms
proof (induction atoms arbitrary: batch)
  case (Cons a atoms)
  obtain body state where a: "a = (body, state)" by fastforce
  have "from_core sha js body state = Inr atom \<Longrightarrow> typed_atom sha js atom" for atom
    using Cons.prems initial_present unfolding a typed_atom_def by auto
  then show ?case using Cons.IH Cons.prems by (fastforce simp: a gives_def and_then_Inr split: if_splits)
qed (simp add: gives_def)

lemma chain_members_initial:
  assumes "validate_core_episode_chain sha atoms = Inr u"
  shows "\<forall>(body, state) \<in> set atoms. validate_initial_atom_state body state = Inr ()"
proof -
  have "try_fold (check_chain_member sha first) previous members = Inr z \<Longrightarrow>
      \<forall>(body, state) \<in> set members. validate_initial_atom_state body state = Inr ()" for first previous members z
  proof (induction members arbitrary: previous)
    case (Cons m members)
    obtain body state where "m = (body, state)" by fastforce
    then show ?case using Cons by (auto simp: bindr_Inr check_chain_member_def)
  qed simp
  moreover obtain first z where "try_fold (check_chain_member sha first) None atoms = Inr z"
    using assms by (cases atoms) (auto simp: validate_core_episode_chain_def bindr_Inr)
  ultimately show ?thesis by blast
qed

lemma put_typed_atoms:
  assumes "\<forall>(atom, _) \<in> set prepared. typed_atom sha js atom"
  shows "leads (linkable sha js A) (linkable sha js (A \<union> (\<lambda>(atom, _). am_atom_id atom) ` set prepared))
    (each (\<lambda>(atom, _). and_then (put_atom_transaction sha js atom) (\<lambda>_. pure (Inr ()))) prepared)"
  using assms
proof (induction prepared arbitrary: A)
  case (Cons p prepared)
  obtain atom rest where p: "p = (atom, rest)" by fastforce
  then obtain body state where core: "from_core sha js body state = Inr atom" "am_content_status atom \<noteq> ''forgotten''"
    using Cons.prems by (auto simp: typed_atom_def)
  have "leads (linkable sha js A) (linkable sha js (insert (am_atom_id atom) A))
      (and_then (put_atom_transaction sha js atom) (\<lambda>_. pure (Inr ())))"
    by (rule leads_and_then [OF put_atom_leads [OF core] leads_carries]) (rule carries_basic)
  moreover have "A \<union> (\<lambda>(atom, _). am_atom_id atom) ` set (p # prepared) =
      insert (am_atom_id atom) A \<union> (\<lambda>(atom, _). am_atom_id atom) ` set prepared" by (auto simp: p)
  ultimately show ?case
    unfolding p each.simps prod.case using leads_and_then Cons.IH Cons.prems by (metis (no_types, lifting) list.set_intros(2))
qed (simp add: leads_carries carries_basic)

lemma carries_put_typed_atoms:
  assumes "\<forall>(atom, _) \<in> set prepared. typed_atom sha js atom"
    "\<And>x. carries (linkable sha js ((\<lambda>(atom, _). am_atom_id atom) ` set prepared)) (f x)"
  shows "carries (db_inv sha js)
    (and_then (each (\<lambda>(atom, _). and_then (put_atom_transaction sha js atom) (\<lambda>_. pure (Inr ()))) prepared) f)"
proof (rule carries_leads)
  show "leads (db_inv sha js) (linkable sha js ((\<lambda>(atom, _). am_atom_id atom) ` set prepared))
      (and_then (each (\<lambda>(atom, _). and_then (put_atom_transaction sha js atom) (\<lambda>_. pure (Inr ()))) prepared) f)"
    using leads_and_then [OF put_typed_atoms [OF assms(1), where A = "{}"], unfolded linkable_empty] leads_carries [OF assms(2)] by simp
qed (rule linkable_inv)

lemma seal_core_draft_chain_inv: "keeps (repo_inv sha js) (seal_core_draft_chain sha js draft atoms)"
  unfolding seal_core_draft_chain_def
proof (rule keeps_and_then_pure, rule keeps_and_then_gives [OF prepare_chain_inv prepare_chain_atoms], erule chain_members_initial,
    unfold split_paired_all prod.case, rule validated_transaction_inv)
  fix prepared :: "prepared list" and r d and batch
  let ?D = "\<Union>(atom, artifact_links, _) \<in> set prepared. al_artifact_digest ` set artifact_links"
  assume atoms: "\<forall>(atom, _) \<in> set prepared. typed_atom sha js atom"
  show "live sha (as_files (re_artifacts r)) (re_database r) d" if "repo_inv sha js r" "d \<in> ?D"
    "try_each (\<lambda>(atom, artifact_links, relation_links).
         validate_atom_links_with_batch sha (am_memory_space_id atom) artifact_links relation_links batch r) prepared = Inr ()"
    using that validate_links_live [OF repo_invD(2) [OF that(1)]] by (fastforce simp: try_each_Inr)
qed (intro tables_rules tables_only_prod tables_only_put_atom tables_only_links carries_put_typed_atoms carries_rules carries_prod
    insert_links_inv seal_status_inv put_atom_live insert_links_live seal_status_live; fastforce)+

section \<open>Garbage collection\<close>

lemma delete_collectable_cases:
  assumes "delete_collectable d marked db = Inr (db', n)"
  shows "db' = db \<or> (db' = db\<lparr>db_artifacts := fmdrop d (db_artifacts db)\<rparr> \<and> \<not> referenced db d \<and> \<not> pinned db d)"
  using assms by (auto simp: delete_collectable_def split: option.splits if_splits)

lemma delete_collectable_schema: "keeps_db (schema_ok js) (execute (delete_collectable d marked))"
proof (rule keeps_execute, unfold preserves_def, intro allI impI)
  fix db db' n assume ok: "schema_ok js db" and run: "delete_collectable d marked db = Inr (db', n)"
  from delete_collectable_cases [OF run] show "schema_ok js db'"
  proof
    assume drop: "db' = db\<lparr>db_artifacts := fmdrop d (db_artifacts db)\<rparr> \<and> \<not> referenced db d \<and> \<not> pinned db d"
    have headers: "has_header (db\<lparr>db_artifacts := m\<rparr>) = has_header db" for m by (simp add: has_header_def fun_eq_iff)
    have none: "(d, k) |\<notin>| fmdom (db_artifact_refs db)" "(d, j) |\<notin>| fmdom (db_artifact_pins db)" for k j
      using drop unfolding referenced_def pinned_def by (metis fimageI fst_conv)+
    have tables: "table_ok artifact_refs_table db" "table_ok pins_table db" using ok by (simp_all add: schema_ok_def)
    have refs: "e |\<in>| fmdom (db_artifacts db')" if "fmlookup (db_artifact_refs db) (e, k) = Some v" for e k v
      using that tables(1) none(1) [of k] fmdomI [OF that] drop by (cases k; cases "e = d") (fastforce simp: table_ok_def)+
    have pins: "e |\<in>| fmdom (db_artifacts db')" if "fmlookup (db_artifact_pins db) (e, k) = Some w" for e k w
      using that tables(2) none(2) [of k] fmdomI [OF that] drop by (cases k; cases "e = d") (fastforce simp: table_ok_def)+
    have "table_ok artifact_refs_table db'" "table_ok pins_table db'"
      using tables headers drop refs pins by (fastforce simp: table_ok_def)+
    then show ?thesis using ok drop by (simp add: schema_ok_def table_ok_def headers split: if_splits)
  qed (use ok in simp)
qed

lemma mark_collectable_schema: "keeps_db (schema_ok js) (execute (mark_collectable d as_of))"
  using artifacts_tab.keeps_update unfolding keeps_def execute_def mark_collectable_def by blast

lemma sweep_schema: "keeps_db (schema_ok js) (sweep sha observer as_of_us as_of grace newly calls candidates)"
proof (induction candidates arbitrary: calls)
  case (Cons c candidates)
  have "keeps_db (schema_ok js) (sweep_candidate sha observer as_of_us as_of grace newly calls c)" for calls
    unfolding sweep_candidate_def Let_def split_beta
    by (intro keeps_rules delete_collectable_schema mark_collectable_schema keeps_on_store)
  then show ?case using Cons.IH by (auto intro!: keeps_and_then keeps_prod keeps_pure)
qed simp

lemma garbage_collect_schema: "keeps_db (schema_ok js) (garbage_collect_observed sha ls as_of_us grace dry_run observer)"
  unfolding garbage_collect_observed_def collect_transaction_def recover_orphan_def Let_def
  by (intro keeps_rules keeps_query artifacts_tab.keeps_insert sweep_schema)

lemma garbage_collect_inv:
  assumes "lists_dir ls"
  shows "keeps (repo_inv sha js) (garbage_collect_observed sha ls as_of_us grace dry_run observer)"
proof (rule keepsI)
  fix r assume inv: "repo_inv sha js r"
  obtain res r' where run: "garbage_collect_observed sha ls as_of_us grace dry_run observer r = (res, r')" by fastforce
  note effect = garbage_collect_effect [OF repo_invD(3) [OF inv] repo_artifacts_ok [OF inv] assms run]
  obtain rows where post: "re_database r' = (re_database r)\<lparr>db_artifacts := rows\<rparr>"
    and kept: "\<And>d row. used (re_database r) d \<Longrightarrow> fmlookup (db_artifacts (re_database r)) d = Some row \<Longrightarrow> fmlookup rows d = Some row"
  proof (cases res)
    case (Inl e)
    then have "re_database r' = (re_database r)\<lparr>db_artifacts := db_artifacts (re_database r)\<rparr>" using effect by simp
    then show ?thesis using that by blast
  next
    case (Inr rep)
    then show ?thesis using effect that [of "db_artifacts (re_database r')"] by (auto simp: used_def row_after_def split: if_splits)
  qed
  have "live sha (as_files (re_artifacts r')) (re_database r') d" if used: "used (re_database r) d" for d
  proof -
    obtain row where row: "fmlookup (db_artifacts (re_database r)) d = Some row" "at_integrity_status row = ''verified''"
      "row_record d row \<in> entries sha (as_files (re_artifacts r))"
      using repo_invD(4) [OF inv] used by (auto simp: live_inv_def live_def)
    have "row_record d row \<in> entries sha (as_files (re_artifacts r'))"
    proof (rule ccontr)
      assume "row_record d row \<notin> entries sha (as_files (re_artifacts r'))"
      then have "collectable (re_database r) as_of_us grace (ac_digest (row_record d row))" using effect row(3) by blast
      then show False using used by (auto simp: collectable_def used_def)
    qed
    then show ?thesis using kept [OF used row(1)] row(2) by (simp add: live_def post)
  qed
  then have live: "live_inv sha (as_files (re_artifacts r')) {} (re_database r')"
    by (simp add: live_inv_def used_def post referenced_def pinned_def)
  have frame: "link_frame (re_database r) (re_database r')" by (simp add: post link_frame_def same_core_def)
  then have "refs_ok (re_database r')" by (rule link_frame_refs_ok [OF _ _ repo_invD(1) [OF inv]]) (simp add: post)
  moreover have "schema_ok js (re_database r')"
    using keepsD [OF garbage_collect_schema repo_invD(2) [OF inv]] run by (metis snd_conv)
  ultimately have "db_inv sha js (re_database r')" using db_inv_link_frame [OF repo_invD(1) [OF inv] frame] by blast
  then show "repo_inv sha js (snd (garbage_collect_observed sha ls as_of_us grace dry_run observer r))"
    using effect live by (simp add: run repo_inv_def)
qed

section \<open>The history only grows\<close>

lemma insert_search_grows: "moves db_grows (execute (insert_search a b))"
  by (rule grows.moves_execute) (auto simp: insert_search_def db_grows_def)

lemma delete_collectable_grows: "moves db_grows (execute (delete_collectable d marked))"
  by (rule grows.moves_execute) (auto dest!: delete_collectable_cases simp: db_grows_def)

lemma mark_collectable_grows: "moves db_grows (execute (mark_collectable d as_of))"
  using artifacts_tab.moves_statements(3) unfolding moves_def execute_def mark_collectable_def by blast

lemma moves_prod: "(\<And>a b. moves R (f a b)) \<Longrightarrow> moves R (case x of (a, b) \<Rightarrow> f a b)"
  by (cases x) simp

lemma moves_option: "moves R m \<Longrightarrow> (\<And>x. moves R (f x)) \<Longrightarrow> moves R (case v of None \<Rightarrow> m | Some x \<Rightarrow> f x)"
  by (cases v) simp_all

lemmas grows_rules = grows.moves_pure grows.moves_and_then grows.moves_each grows.moves_transaction grows.moves_if
  moves_prod moves_option grows_moves insert_search_grows delete_collectable_grows mark_collectable_grows

lemma draft_operations_grow:
  "moves db_grows (install_policy sha js policy at)"
  "moves db_grows (create_draft d space repo task agent session at)"
  "moves db_grows (append_event_observed sha draft event observer)"
  unfolding install_policy_def create_draft_def append_event_observed_def claim_sequence_def by (intro grows_rules)+

lemma counter_operations_grow:
  "moves db_grows (add_feedback f atom as_of positive source evidence)"
  "moves db_grows (record_retrievals atoms)"
  unfolding add_feedback_def record_retrievals_def count_retrieval_def Let_def by (intro grows_rules)+

lemma artifact_operations_grow:
  "moves db_grows (register_artifact sha entry at)"
  "moves db_grows (prepare_core_links sha body)"
  unfolding register_artifact_def prepare_core_links_def prepare_artifact_def prepare_inline_def prepare_stored_def
  by (intro grows_rules)+

lemma sweep_grows: "moves db_grows (sweep sha observer as_of_us as_of grace newly calls candidates)"
proof (induction candidates arbitrary: calls)
  case (Cons c candidates)
  have "moves db_grows (sweep_candidate sha observer as_of_us as_of grace newly calls c)" for calls
    unfolding sweep_candidate_def Let_def split_beta by (intro grows_rules)
  then show ?case using Cons.IH by (auto intro!: grows.moves_and_then moves_prod grows.moves_pure)
qed (simp add: grows.moves_pure)

lemma garbage_collect_grows: "moves db_grows (garbage_collect_observed sha ls as_of_us grace dry_run observer)"
  unfolding garbage_collect_observed_def collect_transaction_def recover_orphan_def Let_def
  by (intro grows_rules sweep_grows)

lemma atom_grows:
  "moves db_grows (put_atom_transaction sha js atom)"
  "moves db_grows (insert_atom_links_transaction sha source artifact_links relation_links)"
  unfolding put_atom_transaction_def insert_atom_rows_def insert_atom_provenance_transaction_def insert_provenance_source_def
    insert_atom_links_transaction_def insert_artifact_link_def insert_relation_link_def clear_gc_mark_def Let_def split_beta
  by (intro grows_rules)+

lemma put_atoms_grow: "moves db_grows (put_atoms sha js atoms n)"
proof (induction atoms arbitrary: n)
  case (Cons a atoms)
  then show ?case by (cases a) (auto intro!: grows.moves_pure grows.moves_and_then atom_grows)
qed (simp add: grows.moves_pure)

lemma prepare_chain_grows: "moves db_grows (prepare_chain sha js batch atoms)"
proof (induction atoms arbitrary: batch)
  case (Cons a atoms)
  then show ?case by (cases a) (auto intro!: grows.moves_pure grows.moves_and_then grows.moves_if moves_prod artifact_operations_grow)
qed (simp add: grows.moves_pure)

lemma atom_operations_grow:
  "moves db_grows (put_core_atom sha js body state)"
  "moves db_grows (put_core_atoms_batch sha js atoms)"
  "moves db_grows (seal_core_draft_observed sha js draft body state observer)"
  "moves db_grows (seal_core_draft_chain sha js draft atoms)"
  unfolding put_core_atom_def put_core_atoms_batch_def seal_core_draft_observed_def seal_draft_with_links_observed_def
    seal_core_draft_chain_def seal_status_def
  by (intro grows_rules atom_grows put_atoms_grow prepare_chain_grows artifact_operations_grow)+

section \<open>What a transaction on links leaves alone\<close>

definition links_only :: "Database \<Rightarrow> Database \<Rightarrow> bool" where
  "links_only db db' \<longleftrightarrow> same_core db db' \<and> db_policies db' = db_policies db \<and>
     db_provenance_sources db' = db_provenance_sources db \<and> db_search db' = db_search db \<and> db_runs db' = db_runs db \<and>
     db_artifact_pins db' = db_artifact_pins db \<and> db_members db' = db_members db \<and> db_decisions db' = db_decisions db \<and>
     db_post_states db' = db_post_states db \<and> db_receipts db' = db_receipts db"

definition artifacts_only :: "Database \<Rightarrow> Database \<Rightarrow> bool" where
  "artifacts_only db db' \<longleftrightarrow> links_only db db' \<and> db_relations db' = db_relations db \<and>
     db_artifact_refs db' = db_artifact_refs db \<and> db_artifact_provenance db' = db_artifact_provenance db"

lemma artifacts_only_eq: "artifacts_only db db' \<Longrightarrow> db' = db\<lparr>db_artifacts := db_artifacts db'\<rparr>"
  by (simp add: artifacts_only_def links_only_def same_core_def)

interpretation links_only: db_preorder links_only
  by unfold_locales (auto simp: links_only_def intro: same_core_trans)

interpretation artifacts_only: db_preorder artifacts_only
  by unfold_locales (auto simp: artifacts_only_def intro: links_only.trans)

lemma links_only_statements:
  "moves links_only (execute (update_row artifacts_table d p f))"
  "moves links_only (execute (insert_ignore artifact_refs_table ref allowed))"
  "moves links_only (execute (insert_ignore artifact_provenance_table k v))"
  "moves links_only (execute (insert_ignore relations_table rel digest))"
  by (rule links_only.moves_execute, auto simp: artifacts_tab.update_row_Inr artifact_refs_tab.insert_ignore_Inr
      artifact_provenance_tab.insert_ignore_Inr relations_tab.insert_ignore_Inr links_only_def same_core_def split: if_splits)+

lemma insert_links_only: "moves links_only (insert_atom_links_transaction sha atom artifact_links relation_links)"
  unfolding insert_atom_links_transaction_def insert_artifact_link_def insert_relation_link_def put_once_def clear_gc_mark_def
  by (intro links_only.moves_pure links_only.moves_and_then links_only.moves_each links_only_statements)

lemma prepare_links_only_artifacts: "moves artifacts_only (prepare_core_links sha body)"
proof -
  have "moves artifacts_only (execute (insert_ignore artifacts_table d row))" for d row
    by (rule artifacts_only.moves_execute)
      (auto simp: artifacts_tab.insert_ignore_Inr artifacts_only_def links_only_def same_core_def split: if_splits)
  then show ?thesis
    unfolding prepare_core_links_def prepare_artifact_def prepare_inline_def prepare_stored_def register_artifact_def
    by (intro artifacts_only.moves_pure artifacts_only.moves_and_then artifacts_only.moves_each artifacts_only.moves_if moves_option)
qed

lemma prepare_links_Inr:
  "prepare_core_links sha body r = (Inr (artifact_links, relation_links), r') \<Longrightarrow>
   artifact_links = artifact_links_of body \<and> traverse relation_link_of (bd_relations body) = Inr relation_links"
  by (auto simp: prepare_core_links_def and_then_Inr)

lemma stored_atom_links_only: "links_only db db' \<Longrightarrow> stored_atom atom db \<Longrightarrow> stored_atom atom db'"
  by (simp add: stored_atom_def provenance_sources_def links_only_def same_core_def)

section \<open>Storing an atom twice\<close>

lemma inserted_stored:
  assumes "\<not> has_header db (am_atom_id atom)" "table_ok provenance_sources_table db"
  shows "stored_atom atom (inserted_atom sha atom db)"
proof -
  have "(am_atom_id atom, i) |\<notin>| fmdom (db_provenance_sources db)" for i
    using assms by (fastforce simp: table_ok_def fmlookup_dom_iff)
  from provenance_sources_inserted [OF this] show ?thesis
    by (simp add: stored_atom_def) (simp add: inserted_atom_def header_row_of_def body_row_of_def)
qed

lemma put_atom_stored:
  assumes "put_atom_transaction sha js atom r = (Inr fresh, r')" "table_ok provenance_sources_table (re_database r)"
  shows "stored_atom atom (re_database r')"
  using put_atom_Inr(2-4) [OF assms(1)] inserted_stored [OF _ assms(2)] by (cases fresh) auto

lemma put_stored_atom:
  assumes "stored_atom atom (re_database r)" "validate_atom sha js atom = Inr ()"
  shows "put_atom_transaction sha js atom r = (Inr False, r)"
proof -
  have "has_header (re_database r) (am_atom_id atom)" using assms(1) by (auto simp: stored_atom_def has_header_def fmlookup_dom_iff)
  then show ?thesis by (subst put_atom_present(1) [OF _ assms(2)]) (simp_all add: assms(1))
qed

section \<open>The links a transaction leaves\<close>

definition links_grow :: "Database \<Rightarrow> Database \<Rightarrow> bool" where
  "links_grow db db' \<longleftrightarrow> fmsubset (db_artifact_refs db) (db_artifact_refs db') \<and> fmsubset (db_relations db) (db_relations db')"

interpretation links_grow: db_preorder links_grow
  by unfold_locales (auto simp: links_grow_def intro: fmsubset_trans)

lemma fmsubset_fmupd: "k |\<notin>| fmdom m \<Longrightarrow> fmsubset m (fmupd k v m)"
  by (auto simp: fmsubset_alt_def fmpred_iff dest: fmdomI)

lemma links_grow_statements:
  "moves links_grow (execute (update_row artifacts_table d p f))"
  "moves links_grow (execute (insert_ignore artifact_refs_table ref allowed))"
  "moves links_grow (execute (insert_ignore artifact_provenance_table k v))"
  "moves links_grow (execute (insert_ignore relations_table rel digest))"
  by (rule links_grow.moves_execute, auto simp: artifacts_tab.update_row_Inr artifact_refs_tab.insert_ignore_Inr
      artifact_provenance_tab.insert_ignore_Inr relations_tab.insert_ignore_Inr links_grow_def fmsubset_fmupd split: if_splits)+

lemma insert_link_grows: "moves links_grow (insert_artifact_link atom link)" "moves links_grow (insert_relation_link sha atom link')"
  unfolding insert_artifact_link_def insert_relation_link_def put_once_def clear_gc_mark_def
  by (intro links_grow.moves_pure links_grow.moves_and_then links_grow_statements)+

text \<open>What every call of a loop establishes holds after it, if later calls cannot take it away.\<close>

lemma each_establishes:
  assumes moves: "\<And>x. moves R (f x)" and stable: "\<And>x db db'. R db db' \<Longrightarrow> Q x db \<Longrightarrow> Q x db'" and R: "db_preorder R"
    and once: "\<And>x r r'. f x r = (Inr (), r') \<Longrightarrow> Q x (re_database r')"
  shows "each f xs r = (Inr u, r') \<Longrightarrow> \<forall>x \<in> set xs. Q x (re_database r')"
proof (induction xs arbitrary: r)
  case (Cons x xs)
  then obtain r1 where r1: "f x r = (Inr (), r1)" "each f xs r1 = (Inr u, r')" by (auto simp: and_then_Inr)
  have "R (re_database r1) (re_database r')" by (rule movesD [OF db_preorder.moves_each [OF R moves] r1(2)])
  then have "Q x (re_database r')" using once [OF r1(1)] stable by blast
  then show ?case using Cons.IH [OF r1(2)] by simp
qed simp

definition artifact_linked :: "Digest32 \<Rightarrow> AtomArtifactLink \<Rightarrow> Database \<Rightarrow> bool" where
  "artifact_linked atom link db \<longleftrightarrow>
     fmlookup (db_artifact_refs db) (al_artifact_digest link, atom, al_role link) = Some (al_retention_allowed link)"

definition relation_linked :: "Digest32 \<Rightarrow> AtomRelationLink \<Rightarrow> Database \<Rightarrow> bool" where
  "relation_linked atom link db \<longleftrightarrow> (atom, rl_target_atom_id link, rl_relation_kind link) |\<in>| fmdom (db_relations db)"

lemma insert_artifact_link_linked:
  assumes "insert_artifact_link atom link r = (Inr u, r')"
  shows "artifact_linked atom link (re_database r')"
proof -
  let ?k = "(al_artifact_digest link, atom, al_role link)"
  let ?rest = "\<lambda>_::unit. and_then (put_once artifact_provenance_table (atom, al_artifact_digest link, al_role link) (al_retention_allowed link) (\<lambda>b. b)
       (''artifact provenance '' @ to_hex (al_artifact_digest link) @ '' / '' @ to_hex atom @ '' / '' @ al_role link)) (\<lambda>_.
     and_then (execute (clear_gc_mark (al_artifact_digest link))) (\<lambda>_. pure (Inr ())))"
  obtain r1 w where put: "put_once artifact_refs_table ?k (al_retention_allowed link) (\<lambda>b. b)
       (''artifact link '' @ to_hex (al_artifact_digest link) @ '' / '' @ to_hex atom @ '' / '' @ al_role link) r = (Inr w, r1)"
    and rest: "?rest () r1 = (Inr u, r')"
    using assms unfolding insert_artifact_link_def and_then_Inr [where m = "put_once artifact_refs_table _ _ _ _"] by blast
  have "fmlookup (db_artifact_refs (re_database r1)) ?k = Some (al_retention_allowed link)"
    using put by (auto simp: artifact_refs_tab.put_once_Inr split: option.splits)
  moreover have grow: "moves links_grow (?rest ())"
    unfolding put_once_def clear_gc_mark_def
    by (intro links_grow.moves_pure links_grow.moves_and_then links_grow_statements)
  have "links_grow (re_database r1) (re_database r')"
    using movesD [where R = links_grow, OF grow] rest by blast
  ultimately show ?thesis by (auto simp: artifact_linked_def links_grow_def dest: fmsubsetD)
qed

lemma insert_relation_link_linked:
  "insert_relation_link sha atom link r = (Inr u, r') \<Longrightarrow> relation_linked atom link (re_database r')"
  using insert_relation_link_Inr(3) by (fastforce simp: relation_linked_def)

lemma linked_stable:
  "links_grow db db' \<Longrightarrow> artifact_linked atom link db \<Longrightarrow> artifact_linked atom link db'"
  "links_grow db db' \<Longrightarrow> relation_linked atom link' db \<Longrightarrow> relation_linked atom link' db'"
  by (auto simp: links_grow_def artifact_linked_def relation_linked_def fmlookup_dom_iff dest: fmsubsetD)

lemma insert_links_linked:
  assumes "insert_atom_links_transaction sha atom artifact_links relation_links r = (Inr u, r')"
  shows "\<forall>link \<in> set artifact_links. artifact_linked atom link (re_database r')"
    "\<forall>link \<in> set relation_links. relation_linked atom link (re_database r')"
proof -
  obtain r1 where r1: "each (insert_artifact_link atom) artifact_links r = (Inr (), r1)"
    "each (insert_relation_link sha atom) relation_links r1 = (Inr u, r')"
    using assms by (auto simp: insert_atom_links_transaction_def and_then_Inr)
  have "\<forall>link \<in> set artifact_links. artifact_linked atom link (re_database r1)"
    by (rule each_establishes [where R = links_grow and Q = "artifact_linked atom", OF insert_link_grows(1) linked_stable(1) links_grow.db_preorder_axioms insert_artifact_link_linked r1(1)])
  moreover have "links_grow (re_database r1) (re_database r')"
    by (rule movesD [OF links_grow.moves_each [OF insert_link_grows(2)] r1(2)])
  ultimately show "\<forall>link \<in> set artifact_links. artifact_linked atom link (re_database r')"
    using linked_stable(1) by blast
  show "\<forall>link \<in> set relation_links. relation_linked atom link (re_database r')"
    by (rule each_establishes [where R = links_grow and Q = "relation_linked atom", OF insert_link_grows(2) linked_stable(2) links_grow.db_preorder_axioms insert_relation_link_linked r1(2)])
qed

end
