(* ===== verification/Samples.thy ===== *)
theory Samples
  imports RepoOps PlanLaws
begin

text \<open>
  A concrete typed atom with one inline artifact, the codec its projections are written with, and
  its preparation and insertion: the input of the witnesses of the write path.
\<close>

section \<open>The atom\<close>

definition sample_artifact :: ArtifactRefV1 where
  "sample_artifact = \<lparr>ar_digest = Digest32_ZERO, ar_size_bytes = 1, ar_media_type = ''m'', ar_retention_allowed = True,
     ar_inline_payload = Some [7]\<rparr>"

text \<open>With a constant digest every atom has the identifier zero, also the one it supports.\<close>

definition self_relation :: MemoryRelationV1 where
  "self_relation = \<lparr>re_kind = Supports, re_target = AtomId Digest32_ZERO\<rparr>"

definition linked_body :: "MemoryRelationV1 list \<Rightarrow> MemoryAtomBodyV1" where
  "linked_body rels = (sample_body ''t'')\<lparr>bd_artifacts := [sample_artifact], bd_relations := rels\<rparr>"

definition sample_codec :: "MemoryRelationV1 list \<Rightarrow> json_codec" where
  "sample_codec rels = \<lparr>js_body = (\<lambda>_. Inr ''b''), js_body_of = (\<lambda>_. Inr (linked_body rels)), js_provenance = (\<lambda>_. Inr ''p''),
     js_provenance_of = (\<lambda>_. Inr (bd_provenance (sample_body ''t''))), js_texts = (\<lambda>_. Inr ''[]''), js_policy = (\<lambda>_. Inr ''{}''),
     js_post_state = (\<lambda>_. Inl ''''), js_post_state_of = (\<lambda>_. Inl ''''), js_receipt = (\<lambda>_. Inl ''''), js_receipt_of = (\<lambda>_. Inl ''''),
     js_value = (\<lambda>_. Inr ()), js_valid = (\<lambda>_. True)\<rparr>"

definition sample_initial_state :: AtomStateV1 where
  "sample_initial_state = \<lparr>st_retention_tier = ShortTerm, st_content_status = Present, st_expires_at_us = Some 604800000012,
       st_superseded_by = None, st_feedback_positive = 0, st_feedback_negative = 0, st_retrieval_count = 0,
       st_retirement_run_id = None\<rparr>"

definition sample_atom :: "byte list \<Rightarrow> byte list \<Rightarrow> AtomRecord" where
  "sample_atom bs ps =
     \<lparr>am_atom_id = Digest32_ZERO, am_atom_kind = ''episode'', am_memory_space_id = ''space-a'',
      am_repository_id = Some ''repo-a'', am_task_id = None, am_agent_id = None, am_session_id = Some ''session-a'',
      am_recorded_at_us = 12, am_body_digest = Digest32_ZERO, am_canonical_body = bs, am_json_projection = ''b'',
      am_retention_permission = ''semantic_and_exact_allowed'', am_provenance_digest = Digest32_ZERO,
      am_provenance_producer = ''test'', am_provenance_policy_digest = Digest32_ZERO, am_canonical_provenance = ps,
      am_provenance_json_projection = ''p'', am_provenance_source_digests = [Digest32_ZERO], am_retention_tier = ''stm'',
      am_content_status = ''present'', am_expires_at_us = Some 604800000012, am_searchable_text = searchable_text (sample_body ''t''),
      am_topic_keys_json = ''[]'', am_entity_ids_json = ''[]'', am_outcome_class = None\<rparr>"

lemma linked_body_sel [simp]: "bd_artifacts (linked_body rels) = [sample_artifact]" "bd_relations (linked_body rels) = rels"
  by (simp_all add: linked_body_def)

lemma linked_body_vsize:
  "vsize (v_body (linked_body [])) \<le> 10000" "vsize (v_body (linked_body [self_relation])) \<le> 10000"
  by (simp_all add: linked_body_def sample_artifact_def self_relation_def sample_body_def v_struct_defs v_artifact_def v_relation_def
      sorted_list_of_fmap_def)

lemma linked_body_wf:
  assumes "rels = [] \<or> rels = [self_relation]"
  shows "atom_body_wf (\<lambda>_. Digest32_ZERO) (linked_body rels)"
proof -
  have "policy_digest (\<lambda>_. Digest32_ZERO) poc_v1 = Inr Digest32_ZERO" using policy_digest_poc [of "\<lambda>_. Digest32_ZERO"] by auto
  moreover have "vsize (v_body (linked_body rels)) \<le> 10000" using assms linked_body_vsize by auto
  moreover have "bd_payload (linked_body rels) = EpisodePayload \<lparr>ep_event_sequence_start = 0, ep_event_sequence_end = 0, ep_continues = None\<rparr>"
    by (simp add: linked_body_def sample_body_def)
  ultimately show ?thesis using assms
    by (simp add: atom_body_wf_def exact_wf_def)
      (auto simp: linked_body_def sample_artifact_def self_relation_def sample_body_def scope_wf_def observations_wf_def artifacts_wf_def
        inline_wf_def episode_wf_def retained_bytes_def relation_targets_def option_list_def word_le_nat_alt)
qed

lemma sample_from_core:
  assumes rels: "rels = [] \<or> rels = [self_relation]"
  obtains bs ps where "from_core (\<lambda>_. Digest32_ZERO) (sample_codec rels) (linked_body rels) sample_initial_state = Inr (sample_atom bs ps)"
    "validate_atom (\<lambda>_. Digest32_ZERO) (sample_codec rels) (sample_atom bs ps) = Inr ()"
    "length bs \<le> 10000" "body_canonical_bytes (linked_body rels) = Inr bs"
    "atom_id (\<lambda>_. Digest32_ZERO) (linked_body rels) = Inr (AtomId Digest32_ZERO)"
proof -
  let ?b = "linked_body rels"
  obtain bs where bs: "body_canonical_bytes ?b = Inr bs" using atom_body_wf_encodes [OF linked_body_wf [OF rels]] by blast
  then have len: "length bs \<le> 10000" using body_canonical_bytes_length linked_body_vsize rels by auto
  have id: "atom_id (\<lambda>_. Digest32_ZERO) ?b = Inr (AtomId Digest32_ZERO)" using bs by (simp add: atom_id_def hash_prefixed_def)
  obtain ps where ps: "encode_value (v_provenance (bd_provenance (sample_body ''t''))) = Inr ps"
    using encode_value_total [of "v_provenance (bd_provenance (sample_body ''t''))"] by (auto simp: sample_body_def v_struct_defs)
  have policy: "policy_digest (\<lambda>_. Digest32_ZERO) poc_v1 = Inr Digest32_ZERO" using policy_digest_poc [of "\<lambda>_. Digest32_ZERO"] by auto
  have valid: "validate_memory_atom_body (\<lambda>_. Digest32_ZERO) ?b poc_v1 = Inr ()"
    using linked_body_wf [OF rels] by (simp add: validate_memory_atom_body_Inr)
  have fields: "atom_kind_text (bd_payload ?b) = ''episode''" "bd_scope ?b = \<lparr>sc_memory_space_id = ''space-a'',
      sc_repository_id = Some ''repo-a'', sc_task_id = None, sc_agent_id = None, sc_session_id = ''session-a''\<rparr>"
    "iv_recorded_at_us (bd_interval ?b) = 12" "retention_permission_text (bd_retention_permission ?b) = ''semantic_and_exact_allowed''"
    "bd_provenance ?b = bd_provenance (sample_body ''t'')" "bd_outcome_class ?b = None" "searchable_text ?b = searchable_text (sample_body ''t'')"
    by (simp_all add: linked_body_def sample_body_def atom_kind_text_def searchable_text_def)
  have prov: "pv_producer (bd_provenance (sample_body ''t'')) = ''test''"
    "pv_source_event_digests (bd_provenance (sample_body ''t'')) = [Digest32_ZERO]"
    "pv_policy_digest (bd_provenance (sample_body ''t'')) = Digest32_ZERO"
    by (simp_all add: sample_body_def)
  have "from_core (\<lambda>_. Digest32_ZERO) (sample_codec rels) ?b sample_initial_state = Inr (sample_atom bs ps)"
    using bs id ps valid fields prov
    by (simp add: from_core_def sample_codec_def hash_prefixed_def sample_atom_def sample_initial_state_def)
  moreover have "validate_atom (\<lambda>_. Digest32_ZERO) (sample_codec rels) (sample_atom bs ps) = Inr ()"
    using ps policy prov len
    by (simp add: validate_atom_def validate_provenance_def validate_json_def hash_prefixed_def MAX_ATOM_BYTES_def sample_codec_def sample_atom_def)
  ultimately show ?thesis using that len bs id by blast
qed

section \<open>Its insertion\<close>

lemma sample_insert:
  assumes "length bs \<le> 10000" "validate_atom (\<lambda>_. Digest32_ZERO) (sample_codec rels) (sample_atom bs ps) = Inr ()"
    "db_headers db = fmempty" "db_bodies db = fmempty" "db_provenance db = fmempty" "db_provenance_sources db = fmempty"
    "db_states db = fmempty" "db_projections db = fmempty" "db_runs db = fmempty" "re_database r = db"
  shows "\<exists>r'. put_atom_transaction (\<lambda>_. Digest32_ZERO) (sample_codec rels) (sample_atom bs ps) r = (Inr True, r')"
proof -
  have "unat (word_of_nat (length bs) :: u64) = length bs" using assms(1) by (simp add: unat_of_nat)
  moreover from this have "uint (word_of_nat (length bs) :: u64) = int (length bs)" by (metis uint_nat)
  ultimately show ?thesis using assms
  by (simp add: put_atom_transaction_def find_row_def check_cohort_open_def sample_atom_def sqlite_integer_def MICROSECONDS_PER_DAY_def
      insert_atom_rows_def insert_atom_provenance_transaction_def insert_provenance_source_def and_then_def
      execute_def insert_row_def insert_search_def has_header_def header_row_of_def body_row_of_def
      provenance_row_of_def state_row_of_def projection_row_of_def optional_integer_def int_ok_def optional_def
      ensure_exact_change_count_def u64_of_usize_def sample_codec_def enumerate_eq_zip)
qed

section \<open>Its preparation\<close>

abbreviation sample_entry :: ArtifactRecord where
  "sample_entry \<equiv> entry_for Digest32_ZERO [7]"

lemma sample_ingest_bytes:
  obtains s' where "ingest_bytes (\<lambda>_. Digest32_ZERO) [7] empty_store = (Inr sample_entry, s')"
    "sample_entry \<in> entries (\<lambda>_. Digest32_ZERO) (as_files s')"
proof -
  have chunks: "map Inr (chunks_of COPY_BUFFER_BYTES [7]) = [Inr [7]]" by (simp add: COPY_BUFFER_BYTES_def chunks_of.simps)
  obtain e s' where run: "ingest (\<lambda>_. Digest32_ZERO) [Inr [7]] empty_store = (Inr e, s')" using sample_ingest by blast
  obtain q where "ingest_post (\<lambda>_. Digest32_ZERO) [Inr [7]] empty_store q (Inr e, s')"
    using ingest_spec [OF empty_store_wf, of "\<lambda>_. Digest32_ZERO" "[Inr [7]]"] run by auto
  then have "e = sample_entry" "as_files s' = ingested Digest32_ZERO [7] (as_files empty_store)"
    by (auto simp: ingest_post_def)
  moreover have absent: "fmlookup (as_files empty_store) (object_path Digest32_ZERO) = None"
    by (simp add: empty_store_lookup path_distinct)
  moreover have "sample_entry \<in> entries (\<lambda>_. Digest32_ZERO) (add_object Digest32_ZERO [7] (as_files empty_store))"
    using entries_add [OF absent, of "\<lambda>_. Digest32_ZERO" "[7]"] by simp
  ultimately show ?thesis using that run by (simp add: ingest_bytes_def chunks ingested_def)
qed

definition sample_row :: artifact_row where
  "sample_row = verified_row sample_entry 1 12 None"

lemma sample_row_loads:
  "fmlookup (db_artifacts db) Digest32_ZERO = Some sample_row \<Longrightarrow> load_artifact_record Digest32_ZERO db = Inr (Some sample_entry)"
  "artifact_row_ok sample_row"
  by (simp_all add: load_artifact_record_def artifact_record_from_row_def sample_row_def verified_row_def entry_for_def artifact_row_ok_def int_ok_def)

definition sample_relation_links :: "MemoryRelationV1 list \<Rightarrow> AtomRelationLink list" where
  "sample_relation_links rels = (case traverse relation_link_of rels of Inr links \<Rightarrow> links | Inl _ \<Rightarrow> [])"

lemma sample_relations:
  assumes "rels = [] \<or> rels = [self_relation]"
  shows "traverse relation_link_of rels = Inr (sample_relation_links rels)"
    "\<forall>link \<in> set (sample_relation_links rels). rl_target_atom_id link = Digest32_ZERO \<and> rl_relation_kind link = ''supports'' \<and>
       rl_canonical_relation link \<noteq> []"
proof -
  obtain bs where bs: "encode_value (v_relation self_relation) = Inr bs"
    using encode_value_total [of "v_relation self_relation"] by (auto simp: v_relation_def self_relation_def v_struct_defs)
  then have "bs \<noteq> []" using encode_value_length [OF bs] by (auto simp: v_relation_def)
  then show "traverse relation_link_of rels = Inr (sample_relation_links rels)"
    "\<forall>link \<in> set (sample_relation_links rels). rl_target_atom_id link = Digest32_ZERO \<and> rl_relation_kind link = ''supports'' \<and>
       rl_canonical_relation link \<noteq> []"
    using assms bs by (auto simp: sample_relation_links_def relation_link_of_def self_relation_def)
qed

lemma sample_prepare:
  assumes "db_artifacts db = fmempty" "rels = [] \<or> rels = [self_relation]"
  obtains s' where "prepare_core_links (\<lambda>_. Digest32_ZERO) (linked_body rels) \<lparr>re_database = db, re_artifacts = empty_store\<rparr> =
      (Inr (artifact_links_of (linked_body rels), sample_relation_links rels),
       \<lparr>re_database = db\<lparr>db_artifacts := fmupd Digest32_ZERO sample_row fmempty\<rparr>, re_artifacts = s'\<rparr>)"
    "verify_artifact (\<lambda>_. Digest32_ZERO) sample_entry (as_files s') = Inr ()"
proof -
  obtain s' where run: "ingest_bytes (\<lambda>_. Digest32_ZERO) [7] empty_store = (Inr sample_entry, s')"
    and "sample_entry \<in> entries (\<lambda>_. Digest32_ZERO) (as_files s')" using sample_ingest_bytes .
  then have verify: "verify_artifact (\<lambda>_. Digest32_ZERO) sample_entry (as_files s') = Inr ()" by (simp add: entries_iff)
  have row: "ac_digest sample_entry = Digest32_ZERO" "ac_byte_len sample_entry = 1" "verified_row sample_entry 1 12 None = sample_row"
    by (simp_all add: sample_row_def)
  have time: "iv_recorded_at_us (bd_interval (linked_body rels)) = 12" by (simp add: linked_body_def sample_body_def)
  have "prepare_artifact (\<lambda>_. Digest32_ZERO) (linked_body rels) sample_artifact \<lparr>re_database = db, re_artifacts = empty_store\<rparr> =
      (Inr (), \<lparr>re_database = db\<lparr>db_artifacts := fmupd Digest32_ZERO sample_row fmempty\<rparr>, re_artifacts = s'\<rparr>)"
    using run verify time assms(1) sample_row_loads row
    by (simp add: prepare_artifact_def prepare_inline_def sample_artifact_def on_store_def and_then_def register_artifact_def
        sqlite_integer_def execute_def insert_ignore_def insert_row_def del: entry_for_sel(3))
  then show ?thesis
    using that verify sample_relations(1) [OF assms(2)] by (simp add: prepare_core_links_def and_then_def)
qed

section \<open>Its links\<close>

lemma sample_links_valid:
  assumes "re_database r = db\<lparr>db_artifacts := fmupd Digest32_ZERO sample_row fmempty\<rparr>"
    "verify_artifact (\<lambda>_. Digest32_ZERO) sample_entry (as_files (re_artifacts r)) = Inr ()"
    "rels = [] \<or> (rels = [self_relation] \<and> fmlookup batch Digest32_ZERO = Some ''space-a'')"
  shows "validate_atom_links_with_batch (\<lambda>_. Digest32_ZERO) ''space-a'' (artifact_links_of (linked_body rels)) (sample_relation_links rels) batch r = Inr ()"
proof -
  have artifacts: "validate_artifact_links (\<lambda>_. Digest32_ZERO) [] (artifact_links_of (linked_body rels)) r = Inr ()"
    using assms(1,2) by (simp add: artifact_links_of_def sample_artifact_def sample_row_loads(1) query_row_def)
      (simp add: sample_row_def verified_row_def)
  have "validate_relation_links ''space-a'' batch [] (sample_relation_links rels) (re_database r) = Inr ()"
  proof (cases rels)
    case Nil
    then show ?thesis by (simp add: sample_relation_links_def)
  next
    case (Cons rel rest)
    then have rels: "rels = [self_relation]" "fmlookup batch Digest32_ZERO = Some ''space-a''" using assms(3) by auto
    have "length (sample_relation_links rels) = 1"
      using traverse_length [OF sample_relations(1) [of rels]] rels by simp
    then obtain link where link: "sample_relation_links rels = [link]" by (auto simp: length_Suc_conv)
    then show ?thesis using sample_relations(2) [of rels] rels by simp
  qed
  with artifacts show ?thesis by (simp add: validate_atom_links_with_batch_def)
qed

lemma sample_link:
  assumes db: "re_database r = inserted_atom (\<lambda>_. Digest32_ZERO) (sample_atom bs ps) (db\<lparr>db_artifacts := fmupd Digest32_ZERO sample_row fmempty\<rparr>)"
    and empty: "db_relations db = fmempty" "db_artifact_refs db = fmempty" "db_artifact_provenance db = fmempty"
    and rels: "rels = [] \<or> rels = [self_relation]"
  shows "\<exists>r'. insert_atom_links_transaction (\<lambda>_. Digest32_ZERO) Digest32_ZERO (artifact_links_of (linked_body rels)) (sample_relation_links rels) r = (Inr (), r')"
proof -
  let ?link = "\<lparr>al_artifact_digest = Digest32_ZERO, al_role = ''m'', al_retention_allowed = True\<rparr>"
  have links: "artifact_links_of (linked_body rels) = [?link]" by (simp add: artifact_links_of_def sample_artifact_def)
  have id: "am_atom_id (sample_atom bs ps) = Digest32_ZERO" "am_memory_space_id (sample_atom bs ps) = ''space-a''" by (simp_all add: sample_atom_def)
  have same: "sample_row\<lparr>at_gc_marked_at_us := None\<rparr> = sample_row" by (simp add: sample_row_def verified_row_def)
  have row: "fmlookup (db_artifacts (re_database r)) Digest32_ZERO = Some sample_row"
    and header: "fmlookup (db_headers (re_database r)) Digest32_ZERO \<noteq> None" "has_header (re_database r) Digest32_ZERO"
    and refs: "db_artifact_refs (re_database r) = fmempty" "db_artifact_provenance (re_database r) = fmempty" "db_relations (re_database r) = fmempty"
    using empty by (simp_all add: db inserted_atom_def id has_header_def)
  then have dom: "Digest32_ZERO |\<in>| fmdom (db_artifacts (re_database r))" by (simp add: fmdomI)
  obtain r1 where r1: "insert_artifact_link Digest32_ZERO ?link r = (Inr (), r1)" "db_headers (re_database r1) = db_headers (re_database r)"
      "db_relations (re_database r1) = fmempty"
  proof -
    have "\<exists>r1. insert_artifact_link Digest32_ZERO ?link r = (Inr (), r1) \<and> db_headers (re_database r1) = db_headers (re_database r) \<and>
        db_relations (re_database r1) = fmempty"
      using row header refs dom same sample_row_loads(2)
      by (simp add: insert_artifact_link_def artifact_refs_tab.put_once_eq artifact_provenance_tab.put_once_eq and_then_def
          execute_def clear_gc_mark_def update_row_def has_header_def)
    then show ?thesis using that by blast
  qed
  have "\<exists>r2. each (insert_relation_link (\<lambda>_. Digest32_ZERO) Digest32_ZERO) (sample_relation_links rels) r1 = (Inr (), r2)"
  proof (cases rels)
    case Nil
    then show ?thesis by (simp add: sample_relation_links_def)
  next
    case (Cons rel rest)
    then have "length (sample_relation_links rels) = 1"
      using traverse_length [OF sample_relations(1) [OF rels]] rels by auto
    then obtain link where link: "sample_relation_links rels = [link]" by (auto simp: length_Suc_conv)
    then show ?thesis using sample_relations(2) [OF rels] header r1(2,3)
      by (auto simp: insert_relation_link_def relations_tab.put_once_eq and_then_def validate_relation_memory_space_def
          load_atom_memory_space_def has_header_def)
  qed
  then show ?thesis using r1(1) by (simp add: insert_atom_links_transaction_def and_then_def links)
qed

section \<open>A draft and its seals\<close>

definition sample_draft :: draft_row where
  "sample_draft = \<lparr>dr_memory_space_id = ''space-a'', dr_repository_id = Some ''repo-a'', dr_task_id = None, dr_agent_id = None,
     dr_session_id = ''session-a'', dr_created_at_us = 5, dr_next_sequence = 0, dr_status = Open, dr_sealed_atom_id = None\<rparr>"

definition with_draft :: SqliteRepository where
  "with_draft = \<lparr>re_database = empty_database\<lparr>db_drafts := fmupd ''d'' sample_draft fmempty\<rparr>, re_artifacts = empty_store\<rparr>"

lemma with_draft_created:
  "create_draft ''d'' ''space-a'' (Some ''repo-a'') None None ''session-a'' 5 \<lparr>re_database = empty_database, re_artifacts = empty_store\<rparr> =
    (Inr (), with_draft)"
  by (simp add: create_draft_Inr with_draft_def sample_draft_def empty_database_def)

lemma sample_closure:
  assumes "body_canonical_bytes (linked_body rels) = Inr bs" "atom_id (\<lambda>_. Digest32_ZERO) (linked_body rels) = Inr (AtomId Digest32_ZERO)"
    "rels = [] \<or> rels = [self_relation]"
  shows "validate_declared_core_link_closure (\<lambda>_. Digest32_ZERO) (sample_codec rels) (sample_atom bs ps)
    (artifact_links_of (linked_body rels)) (sample_relation_links rels) = Inr ()"
  using assms sample_relations(1) [OF assms(3)]
  by (simp add: validate_declared_core_link_closure_def sample_codec_def sample_atom_def artifact_links_of_def)

text \<open>The transaction of either seal, over prepared links, runs to its end.\<close>

lemma sample_transaction:
  assumes rels: "rels = [] \<or> rels = [self_relation]" and bs: "length bs \<le> 10000"
    and valid: "validate_atom (\<lambda>_. Digest32_ZERO) (sample_codec rels) (sample_atom bs ps) = Inr ()"
    and r: "re_database r = (re_database with_draft)\<lparr>db_artifacts := fmupd Digest32_ZERO sample_row fmempty\<rparr>"
  obtains r1 r2 r3 where "put_atom_transaction (\<lambda>_. Digest32_ZERO) (sample_codec rels) (sample_atom bs ps) r = (Inr True, r1)"
    "insert_atom_links_transaction (\<lambda>_. Digest32_ZERO) Digest32_ZERO (artifact_links_of (linked_body rels)) (sample_relation_links rels) r1 = (Inr (), r2)"
    "execute (seal_status ''d'' Digest32_ZERO) r2 = (Inr 1, r3)"
proof -
  obtain r1 where r1: "put_atom_transaction (\<lambda>_. Digest32_ZERO) (sample_codec rels) (sample_atom bs ps) r = (Inr True, r1)"
    using sample_insert [OF bs valid _ _ _ _ _ _ _ refl, of r] by (auto simp: r with_draft_def empty_database_def)
  then have db1: "re_database r1 = inserted_atom (\<lambda>_. Digest32_ZERO) (sample_atom bs ps) (re_database r)"
    using put_atom_Inr(3) [OF r1] by simp
  obtain r2 where r2: "insert_atom_links_transaction (\<lambda>_. Digest32_ZERO) Digest32_ZERO (artifact_links_of (linked_body rels)) (sample_relation_links rels) r1 = (Inr (), r2)"
    using sample_link [OF db1 [unfolded r] _ _ _ rels] by (auto simp: with_draft_def empty_database_def)
  have "links_only (re_database r1) (re_database r2)" by (rule movesD [OF insert_links_only r2])
  then have "db_drafts (re_database r2) = fmupd ''d'' sample_draft fmempty"
    by (simp add: links_only_def same_core_def db1 inserted_atom_def r with_draft_def)
  then have "\<exists>r3. execute (seal_status ''d'' Digest32_ZERO) r2 = (Inr 1, r3)"
    by (simp add: execute_def seal_status_def update_row_def sample_draft_def int_ok_def)
  then show ?thesis using that r1 r2 by blast
qed

lemma sample_memory_space: "am_memory_space_id (sample_atom bs ps) = ''space-a''" "am_atom_id (sample_atom bs ps) = Digest32_ZERO"
  "draft_matches sample_draft (sample_atom bs ps)"
  by (simp_all add: sample_atom_def draft_matches_def sample_draft_def)

lemma linked_body_initial: "validate_initial_atom_state (linked_body rels) sample_initial_state = Inr ()"
  by (simp add: validate_initial_atom_state_def sample_initial_state_def initial_expiry_ok_def linked_body_def sample_body_def
      poc_v1_def checked_add_def DAY_US_def)

lemma sample_draft_seal:
  obtains r' where "seal_core_draft_observed (\<lambda>_. Digest32_ZERO) (sample_codec []) ''d'' (linked_body []) sample_initial_state
     ignore_transaction_boundary with_draft = (Inr (), r')"
proof -
  have rels: "([] :: MemoryRelationV1 list) = [] \<or> [] = [self_relation]" by simp
  obtain bs ps where core: "from_core (\<lambda>_. Digest32_ZERO) (sample_codec []) (linked_body []) sample_initial_state = Inr (sample_atom bs ps)"
    "validate_atom (\<lambda>_. Digest32_ZERO) (sample_codec []) (sample_atom bs ps) = Inr ()" "length bs \<le> 10000"
    "body_canonical_bytes (linked_body []) = Inr bs" "atom_id (\<lambda>_. Digest32_ZERO) (linked_body []) = Inr (AtomId Digest32_ZERO)"
    using sample_from_core [OF rels] .
  obtain s' where prep: "prepare_core_links (\<lambda>_. Digest32_ZERO) (linked_body []) with_draft =
      (Inr (artifact_links_of (linked_body []), sample_relation_links []),
       \<lparr>re_database = (re_database with_draft)\<lparr>db_artifacts := fmupd Digest32_ZERO sample_row fmempty\<rparr>, re_artifacts = s'\<rparr>)"
    "verify_artifact (\<lambda>_. Digest32_ZERO) sample_entry (as_files s') = Inr ()"
    using sample_prepare [OF _ rels, of "re_database with_draft"] by (auto simp: with_draft_def empty_database_def)
  let ?r = "\<lparr>re_database = (re_database with_draft)\<lparr>db_artifacts := fmupd Digest32_ZERO sample_row fmempty\<rparr>, re_artifacts = s'\<rparr>"
  have valid: "validate_atom_links (\<lambda>_. Digest32_ZERO) ''space-a'' (artifact_links_of (linked_body [])) (sample_relation_links []) ?r = Inr ()"
    unfolding validate_atom_links_def by (rule sample_links_valid) (use prep(2) in simp_all)
  obtain r1 r2 r3 where run: "put_atom_transaction (\<lambda>_. Digest32_ZERO) (sample_codec []) (sample_atom bs ps) ?r = (Inr True, r1)"
    "insert_atom_links_transaction (\<lambda>_. Digest32_ZERO) Digest32_ZERO (artifact_links_of (linked_body [])) (sample_relation_links []) r1 = (Inr (), r2)"
    "execute (seal_status ''d'' Digest32_ZERO) r2 = (Inr 1, r3)"
    using sample_transaction [OF rels core(3,2), of ?r] by auto
  have row: "draft_row_for ''d'' (re_database ?r) = Inr sample_draft" by (simp add: draft_row_for_def with_draft_def)
  have "seal_core_draft_observed (\<lambda>_. Digest32_ZERO) (sample_codec []) ''d'' (linked_body []) sample_initial_state
     ignore_transaction_boundary with_draft = (Inr (), r3)"
    using prep(1) core valid run row sample_closure [OF core(4,5) rels, of ps] sample_memory_space [of bs ps] linked_body_initial
    by (simp add: seal_core_draft_observed_def seal_draft_with_links_observed_def and_then_def [of "prepare_core_links _ _"]
        transaction_def and_then_def ignore_transaction_boundary_def)
  then show ?thesis using that by blast
qed

lemma sample_chain:
  obtains r' where "seal_core_draft_chain (\<lambda>_. Digest32_ZERO) (sample_codec [self_relation]) ''d''
     [(linked_body [self_relation], sample_initial_state)] with_draft = (Inr (), r')"
    "fmlookup (db_artifact_refs (re_database r')) (Digest32_ZERO, Digest32_ZERO, ''m'') = Some True"
    "(Digest32_ZERO, Digest32_ZERO, ''supports'') |\<in>| fmdom (db_relations (re_database r'))"
proof -
  let ?rels = "[self_relation]"
  have rels: "?rels = [] \<or> ?rels = [self_relation]" by simp
  obtain bs ps where core: "from_core (\<lambda>_. Digest32_ZERO) (sample_codec ?rels) (linked_body ?rels) sample_initial_state = Inr (sample_atom bs ps)"
    "validate_atom (\<lambda>_. Digest32_ZERO) (sample_codec ?rels) (sample_atom bs ps) = Inr ()" "length bs \<le> 10000"
    "body_canonical_bytes (linked_body ?rels) = Inr bs" "atom_id (\<lambda>_. Digest32_ZERO) (linked_body ?rels) = Inr (AtomId Digest32_ZERO)"
    using sample_from_core [OF rels] .
  obtain s' where prep: "prepare_core_links (\<lambda>_. Digest32_ZERO) (linked_body ?rels) with_draft =
      (Inr (artifact_links_of (linked_body ?rels), sample_relation_links ?rels),
       \<lparr>re_database = (re_database with_draft)\<lparr>db_artifacts := fmupd Digest32_ZERO sample_row fmempty\<rparr>, re_artifacts = s'\<rparr>)"
    "verify_artifact (\<lambda>_. Digest32_ZERO) sample_entry (as_files s') = Inr ()"
    using sample_prepare [OF _ rels, of "re_database with_draft"] by (auto simp: with_draft_def empty_database_def)
  let ?r = "\<lparr>re_database = (re_database with_draft)\<lparr>db_artifacts := fmupd Digest32_ZERO sample_row fmempty\<rparr>, re_artifacts = s'\<rparr>"
  let ?batch = "fmupd Digest32_ZERO ''space-a'' fmempty"
  have valid: "validate_atom_links_with_batch (\<lambda>_. Digest32_ZERO) ''space-a'' (artifact_links_of (linked_body ?rels)) (sample_relation_links ?rels) ?batch ?r = Inr ()"
    by (rule sample_links_valid) (use prep(2) in simp_all)
  obtain r1 r2 r3 where run: "put_atom_transaction (\<lambda>_. Digest32_ZERO) (sample_codec ?rels) (sample_atom bs ps) ?r = (Inr True, r1)"
    "insert_atom_links_transaction (\<lambda>_. Digest32_ZERO) Digest32_ZERO (artifact_links_of (linked_body ?rels)) (sample_relation_links ?rels) r1 = (Inr (), r2)"
    "execute (seal_status ''d'' Digest32_ZERO) r2 = (Inr 1, r3)"
    using sample_transaction [OF rels core(3,2), of ?r] by auto
  have row: "draft_row_for ''d'' (re_database ?r) = Inr sample_draft" by (simp add: draft_row_for_def with_draft_def)
  have body: "bd_payload (linked_body ?rels) = EpisodePayload \<lparr>ep_event_sequence_start = 0, ep_event_sequence_end = 0, ep_continues = None\<rparr>"
    by (simp add: linked_body_def sample_body_def)
  have chain: "validate_core_episode_chain (\<lambda>_. Digest32_ZERO) [(linked_body ?rels, sample_initial_state)] = Inr ()"
    using body core(5) linked_body_initial by (simp add: validate_core_episode_chain_def check_chain_member_def self_relation_def)
  have "prepare_chain (\<lambda>_. Digest32_ZERO) (sample_codec ?rels) fmempty [(linked_body ?rels, sample_initial_state)] with_draft =
      (Inr (?batch, [(sample_atom bs ps, artifact_links_of (linked_body ?rels), sample_relation_links ?rels)]), ?r)"
    using prep(1) core sample_closure [OF core(4,5) rels, of ps] sample_memory_space [of bs ps] by (simp add: and_then_def)
  then have sealed: "seal_core_draft_chain (\<lambda>_. Digest32_ZERO) (sample_codec ?rels) ''d'' [(linked_body ?rels, sample_initial_state)] with_draft = (Inr (), r3)"
    using chain valid run row sample_memory_space [of bs ps]
    by (simp add: seal_core_draft_chain_def and_then_def transaction_def)
  obtain row3 where row3: "re_database r3 = (re_database r2)\<lparr>db_drafts := row3\<rparr>"
    using run(3) by (auto simp: execute_Inr seal_status_def drafts_tab.update_row_Inr split: if_splits)
  note linked = insert_links_linked [OF run(2)]
  have "fmlookup (db_artifact_refs (re_database r3)) (Digest32_ZERO, Digest32_ZERO, ''m'') = Some True"
    using linked(1) by (simp add: artifact_links_of_def artifact_linked_def sample_artifact_def row3)
  moreover have "length (sample_relation_links ?rels) = 1" using traverse_length [OF sample_relations(1) [OF rels]] by simp
  then obtain link where "sample_relation_links ?rels = [link]" by (auto simp: length_Suc_conv)
  then have "(Digest32_ZERO, Digest32_ZERO, ''supports'') |\<in>| fmdom (db_relations (re_database r3))"
    using linked(2) sample_relations(2) [OF rels] by (simp add: relation_linked_def row3)
  ultimately show ?thesis using that sealed by blast
qed

end
