(* ===== verification/Snapshot.thy ===== *)
theory Snapshot
  imports Links
begin

text \<open>
  The cohort of a day as the store sees it, from \<open>repository.rs\<close>: the snapshot of the rows
  (\<open>snapshot_connection\<close>), which binds every state by a digest of its columns, and the snapshot that the
  planner reads (\<open>snapshot_core\<close>), with the typed body, the state and the artifact integrity of every
  candidate.
\<close>

definition MAX_COHORT_ATOMS :: usize where
  "MAX_COHORT_ATOMS = 100000"

record CohortKey =
  ck_memory_space_id :: string
  ck_cohort_day :: u64
  ck_as_of_us :: u64

record SnapshotAtom =
  sm_atom_id :: Digest32
  sm_body_digest :: Digest32
  sm_state_digest :: Digest32
  sm_body_bytes :: u64
  sm_artifact_bytes :: u64
  sm_retention_permission :: string
  sm_session_id :: "string option"

record CohortSnapshot =
  cn_key :: CohortKey
  cn_atoms :: "SnapshotAtom list"
  cn_input_set_digest :: Digest32

definition snapshot_package_bytes :: "SnapshotAtom \<Rightarrow> u64" where
  "snapshot_package_bytes atom = saturating_add (sm_body_bytes atom) (sm_artifact_bytes atom)"

section \<open>Digests of rows\<close>

definition hash_i64 :: "int \<Rightarrow> byte list" where
  "hash_i64 v = be_bytes64 (of_int v)"

definition hash_optional_i64 :: "int option \<Rightarrow> byte list" where
  "hash_optional_i64 v = (case v of Some i \<Rightarrow> 1 # hash_i64 i | None \<Rightarrow> [0])"

definition state_digest :: "(byte list \<Rightarrow> Digest32) \<Rightarrow> state_row \<Rightarrow> Digest32" where
  "state_digest sha row =
     sha (str_bytes ''naome-memory:sqlite:atom-state:v1'' @ [0] @
       hash_frame (str_bytes (sr_retention_tier row)) @
       hash_frame (str_bytes (sr_content_status row)) @
       hash_optional_i64 (sr_expires_at_us row) @
       hash_optional (map_option digest_bytes (sr_superseded_by row)) @
       hash_i64 (sr_feedback_positive row) @
       hash_i64 (sr_feedback_negative row) @
       hash_i64 (sr_retrieval_count row) @
       hash_optional (map_option digest_bytes (sr_retirement_run_id row)))"

definition snapshot_atom_bytes :: "SnapshotAtom \<Rightarrow> byte list" where
  "snapshot_atom_bytes atom =
     digest_bytes (sm_atom_id atom) @ digest_bytes (sm_body_digest atom) @ digest_bytes (sm_state_digest atom) @
     be_bytes64 (sm_body_bytes atom) @ be_bytes64 (sm_artifact_bytes atom) @
     hash_frame (str_bytes (sm_retention_permission atom)) @
     hash_optional (map_option str_bytes (sm_session_id atom))"

definition digest_snapshot :: "(byte list \<Rightarrow> Digest32) \<Rightarrow> CohortKey \<Rightarrow> SnapshotAtom list \<Rightarrow> Digest32" where
  "digest_snapshot sha key atoms =
     sha (str_bytes ''naome-memory:sqlite:cohort-snapshot:v1'' @ [0] @
       hash_frame (str_bytes (ck_memory_space_id key)) @
       be_bytes64 (ck_cohort_day key) @
       be_bytes64 (ck_as_of_us key) @
       be_bytes64 (unwrap_or (- 1) (u64_of_usize (length atoms))) @
       concat (map snapshot_atom_bytes atoms))"

section \<open>The rows of a cohort\<close>

text \<open>SQLite's \<open>SUM\<close> over an integer column fails when the total leaves 64 bits.\<close>

definition sql_sum :: "int list \<Rightarrow> int store_result" where
  "sql_sum xs = (if sum_list xs < 2 ^ 63 then Inr (sum_list xs) else Inl (Sqlite IntegerOverflow))"

definition retained_bytes :: "Database \<Rightarrow> Digest32 \<Rightarrow> int store_result" where
  "retained_bytes db atom =
     sql_sum (List.map_filter (\<lambda>((d, a, _), allowed).
         if a = atom \<and> allowed then map_option at_byte_len (fmlookup (db_artifacts db) d) else None)
       (sorted_list_of_fmap (db_artifact_refs db)))"

definition in_cohort :: "string \<Rightarrow> int \<Rightarrow> int \<Rightarrow> header_row \<Rightarrow> state_row \<Rightarrow> bool" where
  "in_cohort space lower upper h s \<longleftrightarrow>
     hr_memory_space_id h = space \<and> hr_atom_kind h = ''episode'' \<and>
     sr_retention_tier s = ''stm'' \<and> sr_content_status s = ''present'' \<and>
     (case sr_expires_at_us s of None \<Rightarrow> False | Some expires \<Rightarrow> lower \<le> expires \<and> expires < upper)"

definition cohort_rows :: "string \<Rightarrow> int \<Rightarrow> int \<Rightarrow> Database \<Rightarrow> (Digest32 \<times> header_row \<times> state_row) list" where
  "cohort_rows space lower upper db =
     List.map_filter (\<lambda>(atom, h). case fmlookup (db_states db) atom of
         None \<Rightarrow> None
       | Some s \<Rightarrow> if in_cohort space lower upper h s then Some (atom, h, s) else None)
       (sorted_list_of_fmap (db_headers db))"

definition snapshot_atom ::
  "(byte list \<Rightarrow> Digest32) \<Rightarrow> Database \<Rightarrow> Digest32 \<times> header_row \<times> state_row \<Rightarrow> SnapshotAtom store_result" where
  "snapshot_atom sha db row =
     (case row of (atom, h, s) \<Rightarrow>
      bindr (retained_bytes db atom) (\<lambda>artifact_bytes.
      bindr (ok_or (Integrity (''STM atom '' @ to_hex atom @ '' is missing its body'')) (fmlookup (db_bodies db) atom)) (\<lambda>body.
      if hash_prefixed sha ATOM_HASH_DOMAIN (br_canonical_body body) \<noteq> atom
         \<or> hash_prefixed sha ATOM_HASH_DOMAIN (br_canonical_body body) \<noteq> hr_body_digest h
      then Inl (Integrity (''STM atom '' @ to_hex atom @ '' failed body authority verification''))
      else bindr (unsigned_integer (hr_body_bytes h) ''body_bytes'') (\<lambda>body_bytes.
      bindr (unsigned_integer artifact_bytes ''artifact_bytes'') (\<lambda>package_artifacts.
      Inr \<lparr>sm_atom_id = atom, sm_body_digest = hr_body_digest h, sm_state_digest = state_digest sha s,
           sm_body_bytes = body_bytes, sm_artifact_bytes = package_artifacts,
           sm_retention_permission = hr_retention_permission h, sm_session_id = hr_session_id h\<rparr>)))))"

text \<open>The query is limited to one row more than a cohort may have.\<close>

definition snapshot_connection :: "(byte list \<Rightarrow> Digest32) \<Rightarrow> CohortKey \<Rightarrow> Database \<Rightarrow> CohortSnapshot store_result" where
  "snapshot_connection sha key db =
     bindr (ok_or (IntegerOutOfRange ''cohort lower bound'' (ck_cohort_day key)) (checked_mul (ck_cohort_day key) MICROSECONDS_PER_DAY)) (\<lambda>lower.
     bindr (ok_or (IntegerOutOfRange ''cohort upper bound'' lower) (checked_add lower MICROSECONDS_PER_DAY)) (\<lambda>upper.
     bindr (sqlite_integer lower ''cohort lower bound'') (\<lambda>from_us.
     bindr (sqlite_integer upper ''cohort upper bound'') (\<lambda>to_us.
     bindr (traverse (snapshot_atom sha db) (take 100001 (cohort_rows (ck_memory_space_id key) from_us to_us db))) (\<lambda>atoms.
     if length atoms > MAX_COHORT_ATOMS then Inl (Integrity ''cohort exceeds the fail-closed limit'')
     else Inr \<lparr>cn_key = key, cn_atoms = atoms, cn_input_set_digest = digest_snapshot sha key atoms\<rparr>)))))"

section \<open>The candidates of the planner\<close>

definition optional_unsigned :: "int option \<Rightarrow> string \<Rightarrow> u64 option store_result" where
  "optional_unsigned v field = (case v of None \<Rightarrow> Inr None | Some i \<Rightarrow> bindr (unsigned_integer i field) (\<lambda>u. Inr (Some u)))"

definition state_from_row :: "string \<Rightarrow> state_row \<Rightarrow> AtomStateV1 store_result" where
  "state_from_row prefix row =
     bindr (retention_tier_from_store (sr_retention_tier row)) (\<lambda>tier.
     bindr (content_status_from_store (sr_content_status row)) (\<lambda>status.
     bindr (optional_unsigned (sr_expires_at_us row) (prefix @ ''expires_at_us'')) (\<lambda>expires.
     bindr (unsigned_integer (sr_feedback_positive row) (prefix @ ''feedback_positive'')) (\<lambda>positive.
     bindr (unsigned_integer (sr_feedback_negative row) (prefix @ ''feedback_negative'')) (\<lambda>negative.
     bindr (unsigned_integer (sr_retrieval_count row) (prefix @ ''retrieval_count'')) (\<lambda>retrievals.
     Inr \<lparr>st_retention_tier = tier, st_content_status = status, st_expires_at_us = expires,
          st_superseded_by = map_option AtomId (sr_superseded_by row), st_feedback_positive = positive,
          st_feedback_negative = negative, st_retrieval_count = retrievals,
          st_retirement_run_id = sr_retirement_run_id row\<rparr>))))))"

definition artifact_linked_to :: "Database \<Rightarrow> ArtifactDigest \<Rightarrow> Digest32 \<Rightarrow> bool" where
  "artifact_linked_to db d atom \<longleftrightarrow> fBex (fmdom (db_artifact_refs db)) (\<lambda>(d', a, _). d' = d \<and> a = atom)"

fun artifact_integrity ::
  "(byte list \<Rightarrow> Digest32) \<Rightarrow> SqliteRepository \<Rightarrow> Digest32 \<Rightarrow> bool \<Rightarrow> ArtifactRefV1 list \<Rightarrow> IntegrityStatusV1 store_result" where
  "artifact_integrity sha r atom require_all_declared [] = Inr Complete"
| "artifact_integrity sha r atom require_all_declared (artifact # artifacts) =
     (case ar_inline_payload artifact of
        Some inline \<Rightarrow>
          if u64_of_usize (length inline) \<noteq> Some (ar_size_bytes artifact) \<or> sha inline \<noteq> ar_digest artifact
          then Inr DigestMismatch
          else artifact_integrity sha r atom require_all_declared artifacts
      | None \<Rightarrow>
          let linked = artifact_linked_to (re_database r) (ar_digest artifact) atom in
          if \<not> require_all_declared \<and> \<not> ar_retention_allowed artifact
          then if linked then Inr DigestMismatch else artifact_integrity sha r atom require_all_declared artifacts
          else bindr (load_artifact_record (ar_digest artifact) (re_database r)) (\<lambda>loaded.
            case loaded of
              None \<Rightarrow> Inr MissingArtifact
            | Some entry \<Rightarrow>
                if \<not> linked \<or> ac_byte_len entry \<noteq> ar_size_bytes artifact then Inr MissingArtifact
                else (case verify_artifact sha entry (as_files (re_artifacts r)) of
                    Inr _ \<Rightarrow> artifact_integrity sha r atom require_all_declared artifacts
                  | Inl (ArtifactMissing _) \<Rightarrow> Inr MissingArtifact
                  | Inl (StoredArtifactDigestMismatch _) \<Rightarrow> Inr DigestMismatch
                  | Inl e \<Rightarrow> Inl e)))"

definition core_artifact_integrity ::
  "(byte list \<Rightarrow> Digest32) \<Rightarrow> Digest32 \<Rightarrow> MemoryAtomBodyV1 \<Rightarrow> bool \<Rightarrow> SqliteRepository \<Rightarrow> IntegrityStatusV1 store_result" where
  "core_artifact_integrity sha atom body require_all_declared r =
     artifact_integrity sha r atom require_all_declared (bd_artifacts body)"

definition candidate_row :: "Digest32 \<Rightarrow> Database \<Rightarrow> (body_row \<times> state_row) store_result" where
  "candidate_row atom db =
     (case (fmlookup (db_headers db) atom, fmlookup (db_bodies db) atom, fmlookup (db_states db) atom) of
        (Some _, Some b, Some s) \<Rightarrow> Inr (b, s)
      | _ \<Rightarrow> Inl (Sqlite QueryReturnedNoRows))"

definition load_core_candidate ::
  "(byte list \<Rightarrow> Digest32) \<Rightarrow> json_codec \<Rightarrow> Digest32 \<Rightarrow> SqliteRepository \<Rightarrow> RetirementCandidateV1 store_result" where
  "load_core_candidate sha js atom r =
     bindr (candidate_row atom (re_database r)) (\<lambda>(b, s).
     bindr (json (js_body_of js (br_json_projection b))) (\<lambda>body.
     bindr (core (atom_id sha body)) (\<lambda>computed_id.
     if atom_digest computed_id \<noteq> atom
     then Inl (Integrity (''atom '' @ to_hex atom @ '' JSON projection failed authority verification''))
     else bindr (state_from_row [] s) (\<lambda>state.
     bindr (core_artifact_integrity sha atom body True r) (\<lambda>integrity.
     bindr (core (exact_package_bytes body)) (\<lambda>package_bytes.
     Inr \<lparr>rc_atom_id = computed_id, rc_body_digest = atom_digest computed_id, rc_body = Some body,
          rc_state = state, rc_integrity = integrity, rc_exact_package_bytes = package_bytes\<rparr>))))))"

definition snapshot :: "(byte list \<Rightarrow> Digest32) \<Rightarrow> CohortKey \<Rightarrow> SqliteRepository \<Rightarrow> CohortSnapshot store_result" where
  "snapshot sha key r = snapshot_connection sha key (re_database r)"

definition snapshot_core ::
  "(byte list \<Rightarrow> Digest32) \<Rightarrow> json_codec \<Rightarrow> CohortKey \<Rightarrow> SqliteRepository \<Rightarrow> RetirementSnapshotV1 store_result" where
  "snapshot_core sha js key r =
     bindr (snapshot sha key r) (\<lambda>persisted.
     bindr (traverse (\<lambda>h. load_core_candidate sha js (sm_atom_id h) r) (cn_atoms persisted)) (\<lambda>atoms.
     Inr \<lparr>sn_contract_version = ''retirement-snapshot-v1'', sn_memory_space_id = ck_memory_space_id key,
          sn_cohort_day = ck_cohort_day key, sn_as_of_us = ck_as_of_us key, sn_atoms = atoms\<rparr>))"

end
