(* ===== verification/Commit.thy ===== *)
theory Commit
  imports Snapshot
begin

text \<open>
  What \<open>repository.rs\<close> commits when it applies a plan: \<open>build_core_commit\<close> turns the plan, its receipt
  and the local snapshot into the rows to write, and three checks compare a commit with the
  tables and files just before it is written.
\<close>

section \<open>The commit\<close>

record PersistedDecision =
  pd_atom_id :: Digest32
  pd_pre_state_digest :: Digest32
  pd_decision :: string
  pd_canonical_details :: "byte list"
  pd_details_digest :: Digest32

record ArtifactPin =
  ap_atom_id :: Digest32
  ap_artifact_digest :: ArtifactDigest

record PersistedReceipt =
  pr_receipt_digest :: Digest32
  pr_canonical_receipt :: "byte list"
  pr_json_projection :: string
  pr_closure_digest :: Digest32

record RetirementCommit =
  rm_run_id :: Digest32
  rm_key :: CohortKey
  rm_policy_id :: string
  rm_policy_digest :: Digest32
  rm_seed :: Digest32
  rm_rng_id :: string
  rm_proof_input_set_digest :: Digest32
  rm_expected_input_set_digest :: Digest32
  rm_population_digest :: Digest32
  rm_plan_digest :: Digest32
  rm_projected_state_digest :: Digest32
  rm_projected_post_state :: RetirementPostStateV1
  rm_decisions :: "PersistedDecision list"
  rm_semantic_atoms :: "AtomRecord list"
  rm_artifact_pins :: "ArtifactPin list"
  rm_receipt :: PersistedReceipt

datatype ApplyOutcome = Applied | AlreadyApplied

definition outcome_from_plan :: "RetirementPlanV1 \<Rightarrow> bool \<Rightarrow> ApplyRetirementOutcomeV1" where
  "outcome_from_plan plan already_applied =
     \<lparr>ao_observed_input_digest = pn_input_set_digest plan,
      ao_state_digest = pn_projected_state_digest plan,
      ao_applied_decision_count = length (pn_decisions plan),
      ao_semantic_atom_ids = map ps_atom_id (pn_semantic_atoms plan),
      ao_episodic_atom_ids = pn_episodic_winners plan,
      ao_exact_artifact_digests = fmap_of_list (rev (map (\<lambda>d. (rd_atom_id d, rd_exact_artifact_digests d))
        (filter rd_exact_retained (pn_decisions plan)))),
      ao_already_applied = already_applied\<rparr>"

text \<open>The repository that the receipt is issued against before anything is written.\<close>

definition expected_outcome_repository ::
  "ApplyRetirementOutcomeV1 \<Rightarrow> RetirementPlanV1 \<Rightarrow> ApplyRetirementOutcomeV1 result \<times> ApplyRetirementOutcomeV1" where
  "expected_outcome_repository out plan = (Inr out, out)"

definition decision_name :: "RetirementDecisionV1 \<Rightarrow> string" where
  "decision_name d =
     (if rd_exact_retained d \<and> rd_semantic_atom_ids d \<noteq> [] then ''semantic_and_episodic''
      else if rd_exact_retained d then ''episodic_winner''
      else if rd_forget_episode_body d \<and> rd_semantic_atom_ids d \<noteq> [] then ''semantic_source''
      else if rd_forget_episode_body d then ''forgotten''
      else ''unchanged'')"

definition semantic_state :: AtomStateV1 where
  "semantic_state = \<lparr>st_retention_tier = SemanticLongTerm, st_content_status = Present, st_expires_at_us = None,
     st_superseded_by = None, st_feedback_positive = 0, st_feedback_negative = 0, st_retrieval_count = 0,
     st_retirement_run_id = None\<rparr>"

definition semantic_record ::
  "(byte list \<Rightarrow> Digest32) \<Rightarrow> json_codec \<Rightarrow> PlannedSemanticAtomV1 \<Rightarrow> AtomRecord store_result" where
  "semantic_record sha js semantic = from_core sha js (ps_body semantic) semantic_state"

text \<open>The whole receipt, with its identifier.\<close>

definition v_receipt :: "ProofReceiptV1 \<Rightarrow> Value" where
  "v_receipt r = VObject [
     (''contract_version'', VString (rp_contract_version r)),
     (''receipt_id'', v_digest (rp_receipt_id r)),
     (''run_id'', v_digest (rp_run_id r)),
     (''memory_space_id'', VString (rp_memory_space_id r)),
     (''cohort_day'', v_u64 (rp_cohort_day r)),
     (''as_of_us'', v_u64 (rp_as_of_us r)),
     (''policy_id'', VString (rp_policy_id r)),
     (''policy_digest'', v_digest (rp_policy_digest r)),
     (''seed'', v_seed (rp_seed r)),
     (''input_set_digest'', v_digest (rp_input_set_digest r)),
     (''rng_identifier'', VString (rp_rng_identifier r)),
     (''population_digest'', v_digest (rp_population_digest r)),
     (''episodic_population_count'', v_usize (rp_episodic_population_count r)),
     (''episodic_winner_budget'', v_usize (rp_episodic_winner_budget r)),
     (''episodic_winner_bytes'', v_u64 (rp_episodic_winner_bytes r)),
     (''semantic_count_budget'', v_usize (rp_semantic_count_budget r)),
     (''semantic_body_bytes'', v_u64 (rp_semantic_body_bytes r)),
     (''plan_digest'', v_digest (rp_plan_digest r)),
     (''decision_digest'', v_digest (rp_decision_digest r)),
     (''state_digest'', v_digest (rp_state_digest r)),
     (''closure'', v_closure (rp_closure r)),
     (''invariants'', v_map id v_invariant_status (rp_invariants r)),
     (''overall_status'', v_proof_status (rp_overall_status r))]"

definition build_decision ::
  "(byte list \<Rightarrow> Digest32) \<Rightarrow> (Digest32, Digest32) fmap \<Rightarrow> RetirementDecisionV1 \<Rightarrow> PersistedDecision store_result" where
  "build_decision sha pre_states d =
     bindr (core (encode_value (v_decision d))) (\<lambda>canonical_details.
     bindr (ok_or (InvalidRetirementPlan ''core decision is outside the local cohort snapshot'')
         (fmlookup pre_states (atom_digest (rd_atom_id d)))) (\<lambda>pre_state.
     Inr \<lparr>pd_atom_id = atom_digest (rd_atom_id d), pd_pre_state_digest = pre_state, pd_decision = decision_name d,
          pd_canonical_details = canonical_details, pd_details_digest = sha canonical_details\<rparr>))"

definition build_core_commit ::
  "(byte list \<Rightarrow> Digest32) \<Rightarrow> json_codec \<Rightarrow> RetirementPlanV1 \<Rightarrow> ProofReceiptV1 \<Rightarrow> CohortSnapshot \<Rightarrow> RetirementCommit store_result" where
  "build_core_commit sha js plan receipt local =
     (let pre_states = fmap_of_list (rev (map (\<lambda>atom. (sm_atom_id atom, sm_state_digest atom)) (cn_atoms local))) in
      bindr (traverse (build_decision sha pre_states) (pn_decisions plan)) (\<lambda>decisions.
      bindr (traverse (semantic_record sha js) (pn_semantic_atoms plan)) (\<lambda>semantic_atoms.
      bindr (core (encode_value (v_receipt receipt))) (\<lambda>canonical_receipt.
      bindr (core (encode_value (v_closure (rp_closure receipt)))) (\<lambda>closure_bytes.
      bindr (core (plan_digest sha plan)) (\<lambda>digest.
      bindr (json (js_receipt js receipt)) (\<lambda>json_projection.
      Inr \<lparr>rm_run_id = rp_run_id receipt, rm_key = cn_key local, rm_policy_id = pn_policy_id plan,
           rm_policy_digest = pn_policy_digest plan, rm_seed = seed_digest (pn_seed plan), rm_rng_id = pn_rng_identifier plan,
           rm_proof_input_set_digest = pn_input_set_digest plan,
           rm_expected_input_set_digest = cn_input_set_digest local,
           rm_population_digest = pn_episodic_population_digest plan, rm_plan_digest = digest,
           rm_projected_state_digest = pn_projected_state_digest plan,
           rm_projected_post_state = pn_projected_post_state plan,
           rm_decisions = decisions, rm_semantic_atoms = semantic_atoms,
           rm_artifact_pins = concat (map (\<lambda>d. map (\<lambda>digest. \<lparr>ap_atom_id = atom_digest (rd_atom_id d),
             ap_artifact_digest = digest\<rparr>) (rd_exact_artifact_digests d)) (pn_decisions plan)),
           rm_receipt = \<lparr>pr_receipt_digest = rp_receipt_id receipt, pr_canonical_receipt = canonical_receipt,
             pr_json_projection = json_projection, pr_closure_digest = sha closure_bytes\<rparr>\<rparr>)))))))"

section \<open>Checks of a commit\<close>

definition DECISION_NAMES :: "string list" where
  "DECISION_NAMES = [''semantic_source'', ''episodic_winner'', ''semantic_and_episodic'', ''forgotten'', ''unchanged'']"

definition WINNER_NAMES :: "string list" where
  "WINNER_NAMES = [''episodic_winner'', ''semantic_and_episodic'']"

definition FORGOTTEN_NAMES :: "string list" where
  "FORGOTTEN_NAMES = [''semantic_source'', ''forgotten'']"

definition validate_persisted_decision ::
  "(byte list \<Rightarrow> Digest32) \<Rightarrow> Digest32 option \<Rightarrow> PersistedDecision \<Rightarrow> Digest32 option store_result" where
  "validate_persisted_decision sha previous d =
     (if (case previous of None \<Rightarrow> False | Some value \<Rightarrow> pd_atom_id d \<le> value)
      then Inl (InvalidRetirementPlan ''decisions must be unique and sorted by atom_id'')
      else if pd_decision d \<notin> set DECISION_NAMES
      then Inl (InvalidRetirementPlan (''unknown decision '' @ pd_decision d))
      else if sha (pd_canonical_details d) \<noteq> pd_details_digest d
      then Inl (InvalidRetirementPlan ''decision details digest mismatch'')
      else Inr (Some (pd_atom_id d)))"

definition validate_retirement_commit ::
  "(byte list \<Rightarrow> Digest32) \<Rightarrow> json_codec \<Rightarrow> RetirementCommit \<Rightarrow> unit store_result" where
  "validate_retirement_commit sha js commit =
     (let post = rm_projected_post_state commit;
          mismatch = Inl (InvalidRetirementPlan ''projected post-state does not close over the retirement commit'') in
      bindr (validate_json js (pr_json_projection (rm_receipt commit)) ''receipt'') (\<lambda>_.
      if pp_memory_space_id post \<noteq> ck_memory_space_id (rm_key commit) then mismatch
      else bindr (core (post_state_digest sha post)) (\<lambda>digest.
      if digest \<noteq> rm_projected_state_digest commit
         \<or> length (pp_source_atoms post) \<noteq> length (rm_decisions commit)
         \<or> length (pp_semantic_atoms post) \<noteq> length (rm_semantic_atoms commit)
      then mismatch
      else if length (rm_decisions commit) > MAX_COHORT_ATOMS
      then Inl (InvalidRetirementPlan ''decision count exceeds cohort limit'')
      else bindr (try_fold (validate_persisted_decision sha) None (rm_decisions commit)) (\<lambda>_. Inr ()))))"

definition validate_decision_closure :: "CohortSnapshot \<Rightarrow> RetirementCommit \<Rightarrow> unit store_result" where
  "validate_decision_closure local commit =
     (let n = length (cn_atoms local);
          semantic_count_budget = min (usize_saturating_add (usize_saturating_mul n 2) 99 div 100) 100 in
      if n \<noteq> length (rm_decisions commit)
      then Inl (InvalidRetirementPlan ''decision closure does not cover the input atoms'')
      else bindr (try_each (\<lambda>(atom, d).
          if sm_atom_id atom \<noteq> pd_atom_id d \<or> sm_state_digest atom \<noteq> pd_pre_state_digest d
          then Inl (InvalidRetirementPlan ''decision closure does not match cohort membership and state'') else Inr ())
        (zip (cn_atoms local) (rm_decisions commit))) (\<lambda>_.
      if length (rm_semantic_atoms commit) > semantic_count_budget
      then Inl (InvalidRetirementPlan ''semantic atoms exceed count budget'')
      else bindr (try_fold (\<lambda>sum atom.
          bindr (ok_or (InvalidRetirementPlan ''semantic byte count exceeds u64'') (u64_of_usize (length (am_canonical_body atom)))) (\<lambda>len.
          ok_or (InvalidRetirementPlan ''semantic byte budget overflow'') (checked_add sum len)))
        0 (rm_semantic_atoms commit)) (\<lambda>semantic_bytes.
      if semantic_bytes > 8 * 1024 * 1024
      then Inl (InvalidRetirementPlan ''semantic body bytes exceed 8 MiB budget'') else Inr ())))"

section \<open>Checks of the pins\<close>

definition MAX_EXACT_PACKAGE_BYTES :: u64 where
  "MAX_EXACT_PACKAGE_BYTES = 64 * 1024 * 1024"

definition MAX_PINNED_BYTES_PER_COHORT :: u64 where
  "MAX_PINNED_BYTES_PER_COHORT = 256 * 1024 * 1024"

text \<open>The digests an atom may retain, each once and in order.\<close>

definition retention_allowed_digests :: "Database \<Rightarrow> Digest32 \<Rightarrow> ArtifactDigest fset" where
  "retention_allowed_digests db atom =
     (\<lambda>(d, _, _). d) |`| ffilter (\<lambda>(d, a, role). a = atom \<and> fmlookup (db_artifact_refs db) (d, a, role) = Some True)
       (fmdom (db_artifact_refs db))"

definition validate_pin ::
  "(byte list \<Rightarrow> Digest32) \<Rightarrow> SqliteRepository \<Rightarrow> Digest32 fset \<Rightarrow> ArtifactPin fset \<times> ArtifactDigest fset \<Rightarrow> ArtifactPin \<Rightarrow>
   (ArtifactPin fset \<times> ArtifactDigest fset) store_result" where
  "validate_pin sha r winners seen pin =
     (case seen of (seen_pins, pinned_digests) \<Rightarrow>
      if ap_atom_id pin |\<notin>| winners \<or> pin |\<in>| seen_pins
      then Inl (InvalidRetirementPlan ''artifact pin is duplicated or does not belong to an episodic winner'')
      else if ap_artifact_digest pin |\<notin>| retention_allowed_digests (re_database r) (ap_atom_id pin)
      then Inl (InvalidRetirementPlan ''artifact pin lacks a retention-allowed source reference'')
      else bindr (load_artifact_record (ap_artifact_digest pin) (re_database r)) (\<lambda>loaded.
      bindr (ok_or (InvalidRetirementPlan ''pinned artifact record is missing'') loaded) (\<lambda>entry.
      bindr (verify_artifact sha entry (as_files (re_artifacts r))) (\<lambda>_.
      Inr (finsert pin seen_pins, finsert (ap_artifact_digest pin) pinned_digests)))))"

definition validate_winner ::
  "Database \<Rightarrow> (Digest32, SnapshotAtom) fmap \<Rightarrow> ArtifactPin list \<Rightarrow> Digest32 \<Rightarrow> unit store_result" where
  "validate_winner db snapshot_by_id pins winner =
     bindr (ok_or (InvalidRetirementPlan ''episodic winner is outside cohort'') (fmlookup snapshot_by_id winner)) (\<lambda>atom.
     if sm_retention_permission atom \<noteq> ''semantic_and_exact_allowed''
     then Inl (InvalidRetirementPlan ''episodic winner is not exact-retention eligible'')
     else if snapshot_package_bytes atom > MAX_EXACT_PACKAGE_BYTES
     then Inl (InvalidRetirementPlan ''episodic winner exceeds exact package size limit'')
     else if fset_of_list (map ap_artifact_digest (filter (\<lambda>pin. ap_atom_id pin = winner) pins)) \<noteq> retention_allowed_digests db winner
     then Inl (InvalidRetirementPlan ''episodic winner does not pin complete retention-allowed artifact closure'')
     else Inr ())"

definition add_pinned_bytes :: "Database \<Rightarrow> u64 \<Rightarrow> ArtifactDigest \<Rightarrow> u64 store_result" where
  "add_pinned_bytes db pinned_bytes digest =
     bindr (query_row artifacts_table digest db) (\<lambda>row.
     bindr (unsigned_integer (at_byte_len row) ''artifact byte_len'') (\<lambda>byte_len.
     ok_or (InvalidRetirementPlan ''pinned byte budget overflow'') (checked_add pinned_bytes byte_len)))"

definition winner_set :: "RetirementCommit \<Rightarrow> Digest32 fset" where
  "winner_set commit = fset_of_list (map pd_atom_id (filter (\<lambda>d. pd_decision d \<in> set WINNER_NAMES) (rm_decisions commit)))"

definition validate_pins ::
  "(byte list \<Rightarrow> Digest32) \<Rightarrow> CohortSnapshot \<Rightarrow> RetirementCommit \<Rightarrow> SqliteRepository \<Rightarrow> unit store_result" where
  "validate_pins sha local commit r =
     (let winners = winner_set commit;
          population = length (filter (\<lambda>atom. sm_retention_permission atom = ''semantic_and_exact_allowed'') (cn_atoms local));
          expected_winners = min (usize_saturating_add (usize_saturating_mul population 5) 999 div 1000) 25;
          snapshot_by_id = fmap_of_list (rev (map (\<lambda>atom. (sm_atom_id atom, atom)) (cn_atoms local))) in
      if fcard winners \<noteq> expected_winners
      then Inl (InvalidRetirementPlan ''episodic winner count does not match required lottery count'')
      else bindr (try_fold (validate_pin sha r winners) ({||}, {||}) (rm_artifact_pins commit)) (\<lambda>(_, pinned_digests).
      bindr (try_each (validate_winner (re_database r) snapshot_by_id (rm_artifact_pins commit)) (sorted_list_of_fset winners)) (\<lambda>_.
      bindr (try_fold (add_pinned_bytes (re_database r)) 0 (sorted_list_of_fset pinned_digests)) (\<lambda>pinned_bytes.
      if pinned_bytes > MAX_PINNED_BYTES_PER_COHORT
      then Inl (InvalidRetirementPlan ''pinned artifact bytes exceed cohort budget'') else Inr ()))))"

end
