(* ===== verification/RunCheck.thy ===== *)
theory RunCheck
  imports Commit
begin

text \<open>
  \<open>verify_persisted_core_receipt\<close> of \<open>repository.rs\<close> with the functions it calls: an applied run is
  accepted only if its rows, its receipt, its decisions, pins and outputs and the live state of its
  atoms agree with each other and with the committed policy, and with the plan when one is given.
  The function only reads; its sections are definitions of their own, in the order of the code.
\<close>

section \<open>The live post-state\<close>

text \<open>
  A row of the join behind the post-state.  The left joins with \<open>atom_bodies\<close> and \<open>search_projection\<close>
  may find no row.
\<close>

record StoredPostStateAtom =
  sa_atom_id :: Digest32
  sa_header :: header_row
  sa_state :: state_row
  sa_body :: "body_row option"
  sa_projection :: "projection_row option"

definition stored_post_state_atom :: "Database \<Rightarrow> Digest32 \<Rightarrow> StoredPostStateAtom option" where
  "stored_post_state_atom db atom =
     (case (fmlookup (db_headers db) atom, fmlookup (db_states db) atom) of
        (Some h, Some s) \<Rightarrow> Some \<lparr>sa_atom_id = atom, sa_header = h, sa_state = s,
          sa_body = fmlookup (db_bodies db) atom, sa_projection = fmlookup (db_projections db) atom\<rparr>
      | _ \<Rightarrow> None)"

definition stored_kind :: "string \<Rightarrow> MemoryKindV1 store_result" where
  "stored_kind kind =
     (if kind = ''episode'' then Inr Episode
      else if kind = ''semantic'' then Inr Semantic
      else Inl (Integrity ''post-state atom has invalid kind''))"

text \<open>The tier, status, run and presence of a body that a decision leaves; an output has no decision.\<close>

definition expected_state ::
  "(string \<times> Digest32) option \<Rightarrow> (RetentionTierV1 \<times> ContentStatusV1 \<times> Digest32 option \<times> bool) store_result" where
  "expected_state source_decision =
     (case source_decision of
        None \<Rightarrow> Inr (SemanticLongTerm, Present, None, True)
      | Some (name, run) \<Rightarrow>
          if name \<in> set WINNER_NAMES then Inr (EpisodicLongTerm, Present, Some run, True)
          else if name \<in> set FORGOTTEN_NAMES then Inr (HeaderOnly, Forgotten, Some run, False)
          else Inl (Integrity (''core receipt contains unsupported persisted decision '' @ name)))"

definition fts_rows :: "Database \<Rightarrow> string \<Rightarrow> string \<Rightarrow> usize" where
  "fts_rows db atom_hex searchable = length (filter (\<lambda>row. row = (atom_hex, searchable)) (db_search db))"

text \<open>The record of the parsed body against header, projection and state, as in the conjunction of the code.\<close>

definition header_matches :: "StoredPostStateAtom \<Rightarrow> projection_row option \<Rightarrow> AtomRecord \<Rightarrow> bool" where
  "header_matches stored projection rec \<longleftrightarrow>
     (case projection of
        None \<Rightarrow> False
      | Some p \<Rightarrow> jr_searchable_text p = am_searchable_text rec \<and> jr_topic_keys_json p = am_topic_keys_json rec \<and>
          jr_entity_ids_json p = am_entity_ids_json rec \<and> jr_outcome_class p = am_outcome_class rec) \<and>
     am_atom_id rec = sa_atom_id stored \<and>
     am_atom_kind rec = hr_atom_kind (sa_header stored) \<and>
     am_memory_space_id rec = hr_memory_space_id (sa_header stored) \<and>
     am_repository_id rec = hr_repository_id (sa_header stored) \<and>
     am_task_id rec = hr_task_id (sa_header stored) \<and>
     am_agent_id rec = hr_agent_id (sa_header stored) \<and>
     am_session_id rec = hr_session_id (sa_header stored)"

definition content_matches ::
  "(byte list \<Rightarrow> Digest32) \<Rightarrow> StoredPostStateAtom \<Rightarrow> body_row \<Rightarrow> AtomStateV1 \<Rightarrow> u64 \<Rightarrow> u64 \<Rightarrow> u64 \<Rightarrow> Digest32 \<Rightarrow> AtomRecord \<Rightarrow> bool" where
  "content_matches sha stored body state recorded_at body_len header_body_bytes projection_digest rec \<longleftrightarrow>
     am_recorded_at_us rec = recorded_at \<and>
     am_body_digest rec = hr_body_digest (sa_header stored) \<and>
     body_len = header_body_bytes \<and>
     am_retention_permission rec = hr_retention_permission (sa_header stored) \<and>
     am_provenance_digest rec = hr_provenance_digest (sa_header stored) \<and>
     am_canonical_body rec = br_canonical_body body \<and>
     am_json_projection rec = br_json_projection body \<and>
     am_retention_tier rec = sr_retention_tier (sa_state stored) \<and>
     am_content_status rec = sr_content_status (sa_state stored) \<and>
     am_expires_at_us rec = st_expires_at_us state \<and>
     sha256_projection sha rec = projection_digest"

definition stored_body_digest_required ::
  "(byte list \<Rightarrow> Digest32) \<Rightarrow> json_codec \<Rightarrow> Database \<Rightarrow> StoredPostStateAtom \<Rightarrow> AtomStateV1 \<Rightarrow> u64 \<Rightarrow> bool \<Rightarrow> Digest32 list \<Rightarrow>
   Digest32 store_result" where
  "stored_body_digest_required sha js db stored state header_body_bytes is_source pins =
     (let mismatch = Inl (Integrity ''post-state atom failed body, header, or search authority'') in
      bindr (ok_or (Integrity ''post-state atom is missing its body'') (sa_body stored)) (\<lambda>b.
      bindr (json (js_body_of js (br_json_projection b))) (\<lambda>body.
      bindr (from_core sha js body state) (\<lambda>rec.
      bindr (ok_or (Integrity ''post-state atom is missing its projection digest'') (map_option jr_projection_digest (sa_projection stored))) (\<lambda>projection_digest.
      bindr (ok_or (Integrity ''post-state body length exceeds u64'') (u64_of_usize (length (br_canonical_body b)))) (\<lambda>body_len.
      if \<not> header_matches stored (sa_projection stored) rec then mismatch
      else bindr (unsigned_integer (hr_recorded_at_us (sa_header stored)) ''post-state recorded_at_us'') (\<lambda>recorded_at.
      if \<not> content_matches sha stored b state recorded_at body_len header_body_bytes projection_digest rec then mismatch
      else if fts_rows db (to_hex (sa_atom_id stored)) (am_searchable_text rec) \<noteq> 1
      then Inl (Integrity ''post-state atom failed FTS closure'')
      else if is_source \<and> retained_artifact_digests body \<noteq> pins
      then Inl (Integrity ''episodic winner body does not match pinned artifact closure'')
      else Inr (hash_prefixed sha ATOM_HASH_DOMAIN (br_canonical_body b)))))))))"

definition post_state_atom_from_stored ::
  "(byte list \<Rightarrow> Digest32) \<Rightarrow> json_codec \<Rightarrow> Database \<Rightarrow> StoredPostStateAtom \<Rightarrow> string \<Rightarrow> (string \<times> Digest32) option \<Rightarrow> Digest32 list \<Rightarrow>
   RetirementPostStateAtomV1 store_result" where
  "post_state_atom_from_stored sha js db stored expected_memory_space source_decision pins =
     (let h = sa_header stored; atom = sa_atom_id stored in
      bindr (unsigned_integer (hr_body_bytes h) ''post-state body_bytes'') (\<lambda>header_body_bytes.
      bindr (stored_kind (hr_atom_kind h)) (\<lambda>kind.
      if hr_memory_space_id h \<noteq> expected_memory_space \<or> hr_body_digest h \<noteq> atom \<or> header_body_bytes = 0
      then Inl (Integrity ''post-state atom failed header or scope authority'')
      else bindr (state_from_row ''post-state '' (sa_state stored)) (\<lambda>state.
      bindr (expected_state source_decision) (\<lambda>(tier, status, run, body_required).
      if (source_decision \<noteq> None \<and> kind \<noteq> Episode) \<or> (source_decision = None \<and> kind \<noteq> Semantic)
      then Inl (Integrity ''post-state atom has the wrong source/output kind'')
      else if st_retention_tier state \<noteq> tier \<or> st_content_status state \<noteq> status \<or> st_expires_at_us state \<noteq> None
         \<or> st_superseded_by state \<noteq> None \<or> st_retirement_run_id state \<noteq> run
      then Inl (Integrity ''post-state atom failed state authority'')
      else bindr (if body_required
          then bindr (stored_body_digest_required sha js db stored state header_body_bytes (source_decision \<noteq> None) pins) (\<lambda>d. Inr (Some d))
          else if sa_body stored \<noteq> None \<or> sa_projection stored \<noteq> None \<or> pins \<noteq> []
          then Inl (Integrity ''forgotten source retains body, search, or pin state'')
          else Inr None) (\<lambda>stored_body_digest.
      bindr (unsigned_integer (hr_recorded_at_us h) ''post-state recorded_at_us'') (\<lambda>recorded_at.
      bindr (retention_permission_from_store (hr_retention_permission h)) (\<lambda>permission.
      Inr \<lparr>pa_atom_id = AtomId atom, pa_atom_kind = kind, pa_repository_id = hr_repository_id h, pa_task_id = hr_task_id h,
           pa_agent_id = hr_agent_id h, pa_session_id = hr_session_id h, pa_recorded_at_us = recorded_at,
           pa_header_body_digest = hr_body_digest h, pa_header_body_bytes = header_body_bytes,
           pa_retention_permission = permission, pa_provenance_digest = hr_provenance_digest h,
           pa_stored_body_digest = stored_body_digest, pa_retention_tier = st_retention_tier state,
           pa_content_status = st_content_status state, pa_expires_at_us = st_expires_at_us state,
           pa_superseded_by = st_superseded_by state, pa_feedback_positive = st_feedback_positive state,
           pa_feedback_negative = st_feedback_negative state, pa_retrieval_count = st_retrieval_count state,
           pa_retirement_run_bound = (st_retirement_run_id state \<noteq> None),
           pa_search_projection_present = (sa_projection stored \<noteq> None),
           pa_pinned_artifact_digests = pins\<rparr>))))))))"

section \<open>Rows of a run\<close>

type_synonym decision_authority = "Digest32 \<times> string \<times> byte list \<times> Digest32"

definition decided :: "Database \<Rightarrow> Digest32 \<Rightarrow> string list \<Rightarrow> Digest32 \<Rightarrow> bool" where
  "decided db run names atom \<longleftrightarrow>
     (case fmlookup (db_decisions db) (run, atom) of None \<Rightarrow> False | Some row \<Rightarrow> dn_decision row \<in> set names)"

definition run_decisions :: "Database \<Rightarrow> Digest32 \<Rightarrow> (Digest32 \<times> decision_row) list" where
  "run_decisions db run =
     map (\<lambda>((_, atom), row). (atom, row)) (filter (\<lambda>((r, _), _). r = run) (sorted_list_of_fmap (db_decisions db)))"

definition load_decisions :: "(byte list \<Rightarrow> Digest32) \<Rightarrow> Digest32 \<Rightarrow> Database \<Rightarrow> decision_authority list store_result" where
  "load_decisions sha run db =
     traverse (\<lambda>(atom, row). if sha (dn_canonical_details row) \<noteq> dn_details_digest row
         then Inl (Integrity (''retirement decision '' @ to_hex atom @ '' details digest mismatch''))
         else Inr (atom, dn_decision row, dn_canonical_details row, dn_details_digest row))
       (run_decisions db run)"

definition member_ids :: "Digest32 \<Rightarrow> Database \<Rightarrow> Digest32 list" where
  "member_ids run db = map (\<lambda>((_, atom), _). atom) (filter (\<lambda>((r, _), _). r = run) (sorted_list_of_fmap (db_members db)))"

definition run_pins :: "Digest32 \<Rightarrow> Database \<Rightarrow> (Digest32 \<times> ArtifactDigest) list" where
  "run_pins run db = sort (map (\<lambda>((d, _, atom), _). (atom, d)) (filter (\<lambda>((_, r, _), _). r = run) (sorted_list_of_fmap (db_artifact_pins db))))"

text \<open>Winners first map to the empty list; a pin of another atom adds an entry, which no receipt has.\<close>

definition add_pin :: "(AtomId, Digest32 list) fmap \<Rightarrow> Digest32 \<times> ArtifactDigest \<Rightarrow> (AtomId, Digest32 list) fmap" where
  "add_pin m pin = (let a = AtomId (fst pin) in fmupd a (unwrap_or [] (fmlookup m a) @ [snd pin]) m)"

definition persisted_exact_artifacts :: "Digest32 \<Rightarrow> AtomId list \<Rightarrow> Database \<Rightarrow> (AtomId, Digest32 list) fmap" where
  "persisted_exact_artifacts run winners db =
     foldl add_pin (fmap_of_list (map (\<lambda>a. (a, [])) winners)) (run_pins run db)"

definition persisted_decision_digest :: "(byte list \<Rightarrow> Digest32) \<Rightarrow> byte list list \<Rightarrow> Digest32 store_result" where
  "persisted_decision_digest sha decisions =
     bindr (ok_or (Integrity ''persisted decision count exceeds u64'') (u64_of_usize (length decisions))) (\<lambda>count.
     bindr (traverse (\<lambda>d. bindr (ok_or (Integrity ''persisted decision authority bytes exceed u64'') (u64_of_usize (length d)))
         (\<lambda>len. Inr (be_bytes64 len @ d))) decisions) (\<lambda>parts.
     Inr (hash_prefixed sha DECISIONS_HASH_DOMAIN (6 # be_bytes64 count @ concat parts))))"

section \<open>The post-state, recomputed and compared\<close>

definition load_retirement_post_state ::
  "(byte list \<Rightarrow> Digest32) \<Rightarrow> json_codec \<Rightarrow> Digest32 \<Rightarrow> Database \<Rightarrow> RetirementPostStateV1 store_result" where
  "load_retirement_post_state sha js run db =
     bindr (ok_or (Integrity (''retirement run '' @ to_hex run @ '' is missing immutable post-state evidence''))
         (fmlookup (db_post_states db) run)) (\<lambda>stored.
     bindr (json (js_post_state_of js (pt_json_projection stored))) (\<lambda>state.
     let invalid = Inl (Integrity (''retirement run '' @ to_hex run @ '' has invalid immutable post-state evidence'')) in
     bindr (core (encode_value (v_post_state state))) (\<lambda>canonical.
     if canonical \<noteq> pt_canonical_state stored then invalid
     else bindr (core (post_state_digest sha state)) (\<lambda>digest.
     if digest \<noteq> pt_state_digest stored then invalid
     else bindr (json (js_post_state js state)) (\<lambda>rendered.
     if rendered \<noteq> pt_json_projection stored then invalid else Inr state)))))"

definition check_live_atom :: "RetirementPostStateAtomV1 \<times> RetirementPostStateAtomV1 \<Rightarrow> unit store_result" where
  "check_live_atom pair =
     (case pair of (historical, current) \<Rightarrow>
      if pa_feedback_positive current < pa_feedback_positive historical
         \<or> pa_feedback_negative current < pa_feedback_negative historical
         \<or> pa_retrieval_count current < pa_retrieval_count historical
      then Inl (Integrity ''live mutable counters moved behind retirement history'')
      else if current\<lparr>pa_feedback_positive := pa_feedback_positive historical,
          pa_feedback_negative := pa_feedback_negative historical,
          pa_retrieval_count := pa_retrieval_count historical\<rparr> \<noteq> historical
      then Inl (Integrity ''live structural state diverges from retirement history'')
      else Inr ())"

definition validate_live_post_state_transition :: "RetirementPostStateV1 \<Rightarrow> RetirementPostStateV1 \<Rightarrow> unit store_result" where
  "validate_live_post_state_transition historical current =
     (if pp_memory_space_id historical \<noteq> pp_memory_space_id current
         \<or> length (pp_source_atoms historical) \<noteq> length (pp_source_atoms current)
         \<or> length (pp_semantic_atoms historical) \<noteq> length (pp_semantic_atoms current)
      then Inl (Integrity ''live retirement state no longer closes over the historical atom set'')
      else try_each check_live_atom (zip (pp_source_atoms historical @ pp_semantic_atoms historical)
        (pp_source_atoms current @ pp_semantic_atoms current)))"

definition recompute_source_atom ::
  "(byte list \<Rightarrow> Digest32) \<Rightarrow> json_codec \<Rightarrow> Database \<Rightarrow> ProofReceiptV1 \<Rightarrow> (AtomId, Digest32 list) fmap \<Rightarrow>
   StoredPostStateAtom \<times> decision_authority \<Rightarrow> RetirementPostStateAtomV1 store_result" where
  "recompute_source_atom sha js db receipt exact_artifacts x =
     (case x of (stored, (decision_atom, name, _)) \<Rightarrow>
      if sa_atom_id stored \<noteq> decision_atom
      then Inl (Integrity ''persisted post-state order does not match decisions'')
      else post_state_atom_from_stored sha js db stored (rp_memory_space_id receipt) (Some (name, rp_run_id receipt))
        (unwrap_or [] (fmlookup exact_artifacts (AtomId (sa_atom_id stored)))))"

definition recompute_semantic_atom ::
  "(byte list \<Rightarrow> Digest32) \<Rightarrow> json_codec \<Rightarrow> Database \<Rightarrow> ProofReceiptV1 \<Rightarrow> AtomId \<Rightarrow> RetirementPostStateAtomV1 store_result" where
  "recompute_semantic_atom sha js db receipt atom =
     bindr (ok_or (Integrity (''semantic post-state atom '' @ to_hex (atom_digest atom) @ '' is missing''))
         (stored_post_state_atom db (atom_digest atom))) (\<lambda>stored.
     post_state_atom_from_stored sha js db stored (rp_memory_space_id receipt) None [])"

definition recompute_persisted_post_state ::
  "(byte list \<Rightarrow> Digest32) \<Rightarrow> json_codec \<Rightarrow> Database \<Rightarrow> ProofReceiptV1 \<Rightarrow> decision_authority list \<Rightarrow>
   (AtomId, Digest32 list) fmap \<Rightarrow> RetirementPostStateV1 store_result" where
  "recompute_persisted_post_state sha js db receipt decisions exact_artifacts =
     (let run = rp_run_id receipt;
          source_rows = List.map_filter (\<lambda>(atom, _). stored_post_state_atom db atom) (run_decisions db run) in
      if length source_rows \<noteq> length decisions
      then Inl (Integrity ''persisted post-state does not close over every decision'')
      else bindr (traverse (recompute_source_atom sha js db receipt exact_artifacts) (zip source_rows decisions)) (\<lambda>source_atoms.
      let forgotten = map (\<lambda>(atom, _). atom) (filter (\<lambda>(_, row). dn_decision row \<in> set FORGOTTEN_NAMES) (run_decisions db run)) in
      if filter (\<lambda>(atom_hex, _). atom_hex \<in> set (map to_hex forgotten)) (db_search db) \<noteq> []
         \<or> ffilter (\<lambda>(_, atom, _). atom \<in> set forgotten) (fmdom (db_artifact_refs db)) \<noteq> {||}
      then Inl (Integrity ''forgotten source retains FTS or live artifact-reference state'')
      else bindr (traverse (recompute_semantic_atom sha js db receipt) (cl_semantic_atom_ids (rp_closure receipt))) (\<lambda>semantic_atoms.
      Inr \<lparr>pp_memory_space_id = rp_memory_space_id receipt, pp_source_atoms = source_atoms,
           pp_semantic_atoms = semantic_atoms\<rparr>)))"

section \<open>The sections of the check\<close>

definition load_applied_run :: "Digest32 \<Rightarrow> Database \<Rightarrow> (run_row \<times> Digest32) store_result" where
  "load_applied_run run_id db =
     bindr (ok_or (Integrity (''applied retirement run '' @ to_hex run_id @ '' is missing'')) (fmlookup (db_runs db) run_id)) (\<lambda>run.
     if ru_status run \<noteq> ''applied'' then Inl (Integrity (''retirement run '' @ to_hex run_id @ '' is not applied''))
     else bindr (ok_or (Integrity ''applied run is missing receipt_digest'') (ru_receipt_digest run)) (\<lambda>receipt_digest.
     Inr (run, receipt_digest)))"

text \<open>The run of a receipt is unique, so the query finds at most one row.\<close>

definition load_run_receipt :: "Digest32 \<Rightarrow> Database \<Rightarrow> (Digest32 \<times> receipt_row) store_result" where
  "load_run_receipt run_id db =
     ok_or (Integrity (''applied retirement run '' @ to_hex run_id @ '' has no proof receipt''))
       (List.find (\<lambda>(_, row). rw_run_id row = run_id) (sorted_list_of_fmap (db_receipts db)))"

definition RNG_IDENTIFIER :: string where
  "RNG_IDENTIFIER = ''chacha20-rand_chacha-0.3/partial-fisher-yates-v1''"

text \<open>
  The long disjunction evaluates its comparisons in order; those that can fail themselves
  (an encoding or an integer conversion) are steps of their own.
\<close>

definition check_receipt_authority ::
  "(byte list \<Rightarrow> Digest32) \<Rightarrow> json_codec \<Rightarrow> Digest32 \<Rightarrow> run_row \<Rightarrow> Digest32 \<Rightarrow> receipt_row \<Rightarrow> ProofReceiptV1 \<Rightarrow> unit store_result" where
  "check_receipt_authority sha js run_id run receipt_digest persisted receipt =
     (let failed = Inl (Integrity (''proof receipt '' @ to_hex receipt_digest @ '' failed authority or run-field verification'')) in
      bindr (core (encode_value (v_receipt receipt))) (\<lambda>canonical_receipt.
      bindr (core (encode_value (v_closure (rp_closure receipt)))) (\<lambda>canonical_closure.
      if rp_contract_version receipt \<noteq> ''proof-receipt-v1'' \<or> rp_receipt_id receipt \<noteq> receipt_digest then failed
      else bindr (core (recompute_receipt_id sha receipt)) (\<lambda>recomputed.
      if recomputed \<noteq> rp_receipt_id receipt \<or> canonical_receipt \<noteq> rw_canonical_receipt persisted then failed
      else bindr (json (js_receipt js receipt)) (\<lambda>rendered.
      if rendered \<noteq> rw_json_projection persisted
         \<or> sha canonical_closure \<noteq> rw_closure_digest persisted
         \<or> rp_run_id receipt \<noteq> run_id
         \<or> rp_run_id receipt \<noteq> hash_prefixed sha RUN_HASH_DOMAIN (digest_bytes (rp_plan_digest receipt))
         \<or> rp_memory_space_id receipt \<noteq> ru_memory_space_id run then failed
      else bindr (unsigned_integer (ru_cohort_day run) ''cohort_day'') (\<lambda>cohort_day.
      if rp_cohort_day receipt \<noteq> cohort_day then failed
      else bindr (unsigned_integer (ru_as_of_us run) ''as_of_us'') (\<lambda>as_of_us.
      if rp_as_of_us receipt \<noteq> as_of_us
         \<or> rp_policy_id receipt \<noteq> ru_policy_id run
         \<or> rp_policy_digest receipt \<noteq> ru_policy_digest run
         \<or> rp_policy_id receipt \<noteq> po_policy_id poc_v1 then failed
      else bindr (core (policy_digest sha poc_v1)) (\<lambda>committed_digest.
      if rp_policy_digest receipt \<noteq> committed_digest
         \<or> rp_rng_identifier receipt \<noteq> RNG_IDENTIFIER
         \<or> seed_digest (rp_seed receipt) \<noteq> ru_seed run
         \<or> rp_rng_identifier receipt \<noteq> ru_rng_id run
         \<or> rp_input_set_digest receipt \<noteq> ru_input_set_digest run
         \<or> rp_population_digest receipt \<noteq> ru_population_digest run
         \<or> rp_plan_digest receipt \<noteq> ru_plan_digest run
         \<or> rp_state_digest receipt \<noteq> ru_projected_state_digest run
         \<or> rp_overall_status receipt \<noteq> ProofPassed
         \<or> rp_invariants receipt \<noteq> invariant_map then failed
      else Inr ()))))))))"

definition check_decision_closure ::
  "(byte list \<Rightarrow> Digest32) \<Rightarrow> Digest32 \<Rightarrow> Database \<Rightarrow> ProofReceiptV1 \<Rightarrow> decision_authority list \<Rightarrow>
   (AtomId, Digest32 list) fmap store_result" where
  "check_decision_closure sha run_id db receipt decisions =
     (let decision_ids = map fst decisions; closure = rp_closure receipt in
      bindr (persisted_decision_digest sha (map (\<lambda>(_, _, details, _). details) decisions)) (\<lambda>digest.
      if digest \<noteq> rp_decision_digest receipt
      then Inl (Integrity ''receipt decision digest does not match persisted decision details'')
      else if decision_ids \<noteq> member_ids run_id db \<or> decision_ids \<noteq> map atom_digest (cl_source_atom_ids closure)
      then Inl (Integrity ''receipt source closure does not match persisted retirement decisions'')
      else if map (\<lambda>(atom, _). AtomId atom) (filter (\<lambda>(_, name, _). name \<in> set WINNER_NAMES) decisions) \<noteq> cl_exact_episode_ids closure
      then Inl (Integrity ''receipt episodic closure does not match persisted decisions'')
      else let exact_artifacts = persisted_exact_artifacts run_id (cl_exact_episode_ids closure) db in
        if exact_artifacts \<noteq> cl_exact_artifact_digests closure
        then Inl (Integrity ''receipt artifact closure does not match persisted pins'')
        else Inr exact_artifacts))"

definition winner_bytes ::
  "(byte list \<Rightarrow> Digest32) \<Rightarrow> Database \<Rightarrow> u64 \<Rightarrow> AtomId \<Rightarrow> u64 store_result" where
  "winner_bytes sha db bytes atom =
     (let a = atom_digest atom in
      bindr (ok_or (Sqlite QueryReturnedNoRows) (fmlookup (db_headers db) a)) (\<lambda>h.
      bindr (ok_or (Sqlite QueryReturnedNoRows) (fmlookup (db_bodies db) a)) (\<lambda>b.
      bindr (retained_bytes db a) (\<lambda>artifact_sum.
      bindr (unsigned_integer (hr_body_bytes h) ''episodic body_bytes'') (\<lambda>header_body_bytes.
      bindr (ok_or (Integrity ''episodic body length exceeds u64'') (u64_of_usize (length (br_canonical_body b)))) (\<lambda>body_bytes.
      if header_body_bytes \<noteq> body_bytes \<or> hash_prefixed sha ATOM_HASH_DOMAIN (br_canonical_body b) \<noteq> a
      then Inl (Integrity (''episodic winner '' @ to_hex a @ '' failed exact body authority verification''))
      else bindr (unsigned_integer artifact_sum ''episodic artifact_bytes'') (\<lambda>artifact_bytes.
      bindr (ok_or (Integrity ''episodic winner byte count overflow'') (checked_add bytes body_bytes)) (\<lambda>with_body.
      ok_or (Integrity ''episodic winner byte count overflow'') (checked_add with_body artifact_bytes)))))))))"

definition check_episodic_closure :: "(byte list \<Rightarrow> Digest32) \<Rightarrow> Digest32 \<Rightarrow> Database \<Rightarrow> ProofReceiptV1 \<Rightarrow> unit store_result" where
  "check_episodic_closure sha run_id db receipt =
     (let population = length (filter (\<lambda>atom. case fmlookup (db_headers db) atom of None \<Rightarrow> False
            | Some h \<Rightarrow> hr_retention_permission h = ''semantic_and_exact_allowed'') (member_ids run_id db));
          budget = min (Ppm_ceil_count (po_episodic_rate poc_v1) population) (po_episodic_count_max poc_v1);
          winners = cl_exact_episode_ids (rp_closure receipt) in
      bindr (try_fold (winner_bytes sha db) 0 winners) (\<lambda>bytes.
      if rp_episodic_population_count receipt \<noteq> population \<or> rp_episodic_winner_budget receipt \<noteq> budget
         \<or> length winners \<noteq> budget \<or> rp_episodic_winner_bytes receipt \<noteq> bytes
      then Inl (Integrity ''receipt episodic population, budget, or byte closure mismatch'')
      else Inr ()))"

definition check_source_digest :: "Database \<Rightarrow> AtomId \<times> Digest32 \<Rightarrow> unit store_result" where
  "check_source_digest db source =
     bindr (ok_or (Sqlite QueryReturnedNoRows) (fmlookup (db_headers db) (atom_digest (fst source)))) (\<lambda>h.
     if hr_body_digest h \<noteq> snd source
     then Inl (Integrity ''semantic atom source digest mismatch'') else Inr ())"

definition check_semantic_output ::
  "(byte list \<Rightarrow> Digest32) \<Rightarrow> json_codec \<Rightarrow> Database \<Rightarrow> ProofReceiptV1 \<Rightarrow> u64 \<times> AtomId fset \<Rightarrow> AtomId \<Rightarrow>
   (u64 \<times> AtomId fset) store_result" where
  "check_semantic_output sha js db receipt st semantic =
     (case st of (semantic_bytes, sources) \<Rightarrow>
      let a = atom_digest semantic; source_set = fset_of_list (cl_source_atom_ids (rp_closure receipt));
          failed = Inl (Integrity (''receipt semantic atom '' @ to_hex a @ '' failed authority or scope verification'')) in
      bindr (case (fmlookup (db_headers db) a, fmlookup (db_bodies db) a) of
          (Some h, Some b) \<Rightarrow> Inr (h, b)
        | _ \<Rightarrow> Inl (Integrity (''receipt semantic atom '' @ to_hex a @ '' is missing''))) (\<lambda>(h, b).
      bindr (json (js_body_of js (br_json_projection b))) (\<lambda>body.
      bindr (core (body_canonical_bytes body)) (\<lambda>body_authority.
      bindr (ok_or (Integrity ''semantic body byte count exceeds u64'') (u64_of_usize (length (br_canonical_body b)))) (\<lambda>len.
      bindr (ok_or (Integrity ''semantic body byte count overflow'') (checked_add semantic_bytes len)) (\<lambda>bytes.
      if hr_atom_kind h \<noteq> ''semantic'' \<or> hr_memory_space_id h \<noteq> rp_memory_space_id receipt then failed
      else bindr (core (atom_id sha body)) (\<lambda>body_id.
      if body_id \<noteq> semantic \<or> hr_body_digest h \<noteq> a \<or> br_canonical_body b \<noteq> body_authority then failed
      else case bd_payload body of
          EpisodePayload _ \<Rightarrow> Inl (Integrity (''receipt semantic atom '' @ to_hex a @ '' has episode payload''))
        | SemanticPayload payload \<Rightarrow>
            let payload_sources = fset_of_list (sp_source_ids payload) in
            if payload_sources \<noteq> fmdom (sp_source_body_digests payload)
               \<or> \<not> payload_sources |\<subseteq>| source_set \<or> fcard payload_sources \<noteq> length (sp_source_ids payload)
            then Inl (Integrity (''receipt semantic atom '' @ to_hex a @ '' has incomplete source provenance''))
            else bindr (try_each (check_source_digest db) (sorted_list_of_fmap (sp_source_body_digests payload))) (\<lambda>_.
              Inr (bytes, sources |\<union>| payload_sources)))))))))"

definition check_classification :: "AtomId fset \<Rightarrow> AtomId fset \<Rightarrow> decision_authority \<Rightarrow> unit store_result" where
  "check_classification sources exact d =
     (let a = AtomId (fst d);
          name = (if a |\<in>| sources then if a |\<in>| exact then ''semantic_and_episodic'' else ''semantic_source''
            else if a |\<in>| exact then ''episodic_winner'' else ''forgotten'') in
      if fst (snd d) \<noteq> name
      then Inl (Integrity (''persisted decision classification for '' @ to_hex (fst d) @ '' is not closed by outputs'')) else Inr ())"

definition check_semantic_closure ::
  "(byte list \<Rightarrow> Digest32) \<Rightarrow> json_codec \<Rightarrow> Database \<Rightarrow> ProofReceiptV1 \<Rightarrow> decision_authority list \<Rightarrow> unit store_result" where
  "check_semantic_closure sha js db receipt decisions =
     (let closure = rp_closure receipt;
          budget = min (Ppm_ceil_count (po_semantic_rate poc_v1) (length decisions)) (po_semantic_count_max poc_v1) in
      if \<not> distinct (cl_source_atom_ids closure) \<or> \<not> distinct (cl_semantic_atom_ids closure)
      then Inl (Integrity ''receipt closure contains duplicate atom IDs'')
      else bindr (try_fold (check_semantic_output sha js db receipt) (0, {||}) (cl_semantic_atom_ids closure)) (\<lambda>(semantic_bytes, sources).
      bindr (try_each (check_classification sources (fset_of_list (cl_exact_episode_ids closure))) decisions) (\<lambda>_.
      if rp_semantic_count_budget receipt \<noteq> budget \<or> length (cl_semantic_atom_ids closure) > budget
         \<or> rp_semantic_body_bytes receipt \<noteq> semantic_bytes
      then Inl (Integrity ''receipt semantic count or byte closure mismatch'') else Inr ())))"

definition check_plan_decision ::
  "(byte list \<Rightarrow> Digest32) \<Rightarrow> decision_authority \<times> RetirementDecisionV1 \<Rightarrow> unit store_result" where
  "check_plan_decision sha pair =
     (case pair of ((atom, name, details, details_digest), d) \<Rightarrow>
      bindr (core (encode_value (v_decision d))) (\<lambda>expected_details.
      if atom \<noteq> atom_digest (rd_atom_id d) \<or> name \<noteq> decision_name d \<or> details \<noteq> expected_details
         \<or> details_digest \<noteq> sha expected_details
      then Inl (Integrity ''persisted decision details do not match the replayed core plan'') else Inr ()))"

definition check_plan_semantic :: "json_codec \<Rightarrow> Database \<Rightarrow> PlannedSemanticAtomV1 \<Rightarrow> unit store_result" where
  "check_plan_semantic js db semantic =
     (let mismatch = Inl (Integrity ''persisted semantic body does not match the replayed core plan'') in
      bindr (query_row (bodies_table js) (atom_digest (ps_atom_id semantic)) db) (\<lambda>b.
      bindr (core (body_canonical_bytes (ps_body semantic))) (\<lambda>canonical.
      if br_canonical_body b \<noteq> canonical then mismatch
      else bindr (json (js_body js (ps_body semantic))) (\<lambda>rendered.
      if br_json_projection b \<noteq> rendered then mismatch else Inr ()))))"

definition check_expected_plan ::
  "(byte list \<Rightarrow> Digest32) \<Rightarrow> json_codec \<Rightarrow> Database \<Rightarrow> ProofReceiptV1 \<Rightarrow> decision_authority list \<Rightarrow>
   RetirementPostStateV1 \<Rightarrow> RetirementPlanV1 \<Rightarrow> unit store_result" where
  "check_expected_plan sha js db receipt decisions historical plan =
     (let mismatch = Inl (Integrity ''persisted receipt does not close over the replayed core plan'') in
      if rp_memory_space_id receipt \<noteq> pn_memory_space_id plan
         \<or> rp_cohort_day receipt \<noteq> pn_cohort_day plan
         \<or> rp_as_of_us receipt \<noteq> pn_as_of_us plan
         \<or> rp_policy_id receipt \<noteq> pn_policy_id plan
         \<or> rp_policy_digest receipt \<noteq> pn_policy_digest plan
         \<or> rp_seed receipt \<noteq> pn_seed plan
         \<or> rp_input_set_digest receipt \<noteq> pn_input_set_digest plan
         \<or> rp_rng_identifier receipt \<noteq> pn_rng_identifier plan
         \<or> rp_population_digest receipt \<noteq> pn_episodic_population_digest plan
         \<or> rp_episodic_population_count receipt \<noteq> pn_episodic_population_count plan
         \<or> rp_episodic_winner_budget receipt \<noteq> pn_episodic_winner_budget plan
         \<or> rp_episodic_winner_bytes receipt \<noteq> pn_episodic_winner_bytes plan
         \<or> rp_semantic_count_budget receipt \<noteq> pn_semantic_count_budget plan
         \<or> rp_semantic_body_bytes receipt \<noteq> pn_semantic_body_bytes plan then mismatch
      else bindr (core (plan_digest sha plan)) (\<lambda>p_digest.
      if rp_plan_digest receipt \<noteq> p_digest then mismatch
      else bindr (core (decision_digest sha plan)) (\<lambda>d_digest.
      if rp_decision_digest receipt \<noteq> d_digest
         \<or> rp_state_digest receipt \<noteq> pn_projected_state_digest plan
         \<or> historical \<noteq> pn_projected_post_state plan
         \<or> rp_closure receipt \<noteq> closure_from_plan plan
         \<or> length decisions \<noteq> length (pn_decisions plan) then mismatch
      else bindr (try_each (check_plan_decision sha) (zip decisions (pn_decisions plan))) (\<lambda>_.
        try_each (check_plan_semantic js db) (pn_semantic_atoms plan)))))"

section \<open>The whole check\<close>

definition verify_persisted_core_receipt ::
  "(byte list \<Rightarrow> Digest32) \<Rightarrow> json_codec \<Rightarrow> Digest32 \<Rightarrow> RetirementPlanV1 option \<Rightarrow> Database \<Rightarrow> ProofReceiptV1 store_result" where
  "verify_persisted_core_receipt sha js run_id expected_plan db =
     bindr (load_applied_run run_id db) (\<lambda>(run, run_receipt_digest).
     bindr (load_run_receipt run_id db) (\<lambda>(receipt_digest, persisted).
     let unbound = Inl (Integrity ''retirement run and proof receipt binding mismatch'') in
     if run_receipt_digest \<noteq> receipt_digest then unbound
     else bindr (unsigned_integer (rw_created_at_us persisted) ''receipt created_at_us'') (\<lambda>created_at_us.
     bindr (unsigned_integer (ru_as_of_us run) ''run as_of_us'') (\<lambda>as_of_us.
     if created_at_us \<noteq> as_of_us then unbound
     else bindr (json (js_receipt_of js (rw_json_projection persisted))) (\<lambda>receipt.
     bindr (check_receipt_authority sha js run_id run receipt_digest persisted receipt) (\<lambda>_.
     bindr (load_decisions sha run_id db) (\<lambda>decisions.
     bindr (check_decision_closure sha run_id db receipt decisions) (\<lambda>exact_artifacts.
     bindr (check_episodic_closure sha run_id db receipt) (\<lambda>_.
     bindr (check_semantic_closure sha js db receipt decisions) (\<lambda>_.
     bindr (load_retirement_post_state sha js (rp_run_id receipt) db) (\<lambda>historical.
     bindr (core (post_state_digest sha historical)) (\<lambda>historical_digest.
     if historical_digest \<noteq> rp_state_digest receipt
     then Inl (Integrity ''receipt state digest does not match immutable retirement post-state evidence'')
     else bindr (recompute_persisted_post_state sha js db receipt decisions exact_artifacts) (\<lambda>current.
     bindr (validate_live_post_state_transition historical current) (\<lambda>_.
     bindr (case expected_plan of None \<Rightarrow> Inr ()
       | Some plan \<Rightarrow> check_expected_plan sha js db receipt decisions historical plan) (\<lambda>_.
     Inr receipt)))))))))))))))"

end
