(* ===== verification/Apply.thy ===== *)
theory Apply
  imports RunCheck RepoOps
begin

text \<open>
  The application of a retirement plan in \<open>repository.rs\<close>: \<open>apply_core_plan\<close> replans the current cohort
  and compares, issues the receipt, and \<open>apply_retirement_observed\<close> writes everything in one
  transaction with its fault observer, or finds that the same plan has been applied before.
\<close>

section \<open>The rows of a run\<close>

definition verify_persisted_poc_policy :: "(byte list \<Rightarrow> Digest32) \<Rightarrow> json_codec \<Rightarrow> Database \<Rightarrow> unit store_result" where
  "verify_persisted_poc_policy sha js db =
     bindr (ok_or (Integrity ''poc-v1 policy authority is missing'') (fmlookup (db_policies db) ''poc-v1'')) (\<lambda>row.
     bindr (core (policy_digest sha poc_v1)) (\<lambda>digest.
     bindr (core (encode_value (v_policy poc_v1))) (\<lambda>canonical.
     bindr (json (js_policy js poc_v1)) (\<lambda>rendered.
     if fcard (fmdom (db_policies db)) \<noteq> 1 \<or> py_policy_digest row \<noteq> digest \<or> py_canonical_body row \<noteq> canonical
        \<or> py_json_projection row \<noteq> rendered \<or> py_installed_at_us row < 0
     then Inl (Integrity ''persisted poc-v1 policy does not match committed authority'') else Inr ()))))"

definition run_row_of :: "RetirementCommit \<Rightarrow> int \<Rightarrow> int \<Rightarrow> run_row" where
  "run_row_of commit cohort_day as_of_us =
     \<lparr>ru_memory_space_id = ck_memory_space_id (rm_key commit), ru_cohort_day = cohort_day, ru_as_of_us = as_of_us,
      ru_policy_id = rm_policy_id commit, ru_policy_digest = rm_policy_digest commit, ru_seed = rm_seed commit,
      ru_rng_id = rm_rng_id commit, ru_input_set_digest = rm_proof_input_set_digest commit,
      ru_store_snapshot_digest = rm_expected_input_set_digest commit, ru_population_digest = rm_population_digest commit,
      ru_plan_digest = rm_plan_digest commit, ru_projected_state_digest = rm_projected_state_digest commit,
      ru_status = ''applying'', ru_started_at_us = as_of_us, ru_completed_at_us = None, ru_receipt_digest = None\<rparr>"

definition insert_retirement_run :: "RetirementCommit \<Rightarrow> (SqliteRepository, unit) action" where
  "insert_retirement_run commit =
     and_then (pure (sqlite_integer (ck_cohort_day (rm_key commit)) ''cohort_day'')) (\<lambda>cohort_day.
     and_then (pure (sqlite_integer (ck_as_of_us (rm_key commit)) ''as_of_us'')) (\<lambda>as_of_us.
     and_then (execute (insert_row runs_table (rm_run_id commit) (run_row_of commit cohort_day as_of_us))) (\<lambda>inserted.
     pure (ensure_exact_change_count inserted 1))))"

definition insert_retirement_post_state ::
  "(byte list \<Rightarrow> Digest32) \<Rightarrow> json_codec \<Rightarrow> RetirementCommit \<Rightarrow> (SqliteRepository, unit) action" where
  "insert_retirement_post_state sha js commit =
     and_then (pure (core (encode_value (v_post_state (rm_projected_post_state commit))))) (\<lambda>canonical_state.
     and_then (pure (core (post_state_digest sha (rm_projected_post_state commit)))) (\<lambda>digest.
     if digest \<noteq> rm_projected_state_digest commit
     then pure (Inl (InvalidRetirementPlan ''projected post-state does not match its committed digest''))
     else and_then (pure (json (js_post_state js (rm_projected_post_state commit)))) (\<lambda>rendered.
     and_then (execute (insert_row (post_states_table js) (rm_run_id commit)
         \<lparr>pt_state_digest = digest, pt_canonical_state = canonical_state, pt_json_projection = rendered\<rparr>)) (\<lambda>inserted.
     pure (ensure_exact_change_count inserted 1)))))"

section \<open>Semantic outputs\<close>

definition insert_semantic_output ::
  "(byte list \<Rightarrow> Digest32) \<Rightarrow> json_codec \<Rightarrow> RetirementCommit \<Rightarrow> AtomRecord \<Rightarrow> (SqliteRepository, unit) action" where
  "insert_semantic_output sha js commit semantic =
     (if am_atom_kind semantic \<noteq> ''semantic'' \<or> am_memory_space_id semantic \<noteq> ck_memory_space_id (rm_key commit)
         \<or> am_retention_tier semantic \<noteq> ''ltm_semantic'' \<or> am_content_status semantic \<noteq> ''present''
      then pure (Inl (InvalidRetirementPlan ''semantic output has invalid kind, scope, tier, or state''))
      else and_then (pure (json (js_body_of js (am_json_projection semantic)))) (\<lambda>body.
      if bd_artifacts body \<noteq> [] then pure (Inl (InvalidRetirementPlan ''poc-v1 semantic output cannot declare artifacts''))
      else and_then (pure (traverse relation_link_of (bd_relations body))) (\<lambda>relation_links.
      and_then (pure (validate_declared_core_link_closure sha js semantic [] relation_links)) (\<lambda>_.
      and_then (put_atom_transaction sha js semantic) (\<lambda>fresh.
      if \<not> fresh then pure (Inl RetirementConflict)
      else insert_atom_links_transaction sha (am_atom_id semantic) [] relation_links)))))"

section \<open>Decisions\<close>

definition persist_decision :: "RetirementCommit \<Rightarrow> PersistedDecision \<Rightarrow> (SqliteRepository, unit) action" where
  "persist_decision commit d =
     and_then (execute (insert_row members_table (rm_run_id commit, pd_atom_id d) (pd_pre_state_digest d))) (\<lambda>members.
     and_then (pure (ensure_exact_change_count members 1)) (\<lambda>_.
     and_then (execute (insert_row decisions_table (rm_run_id commit, pd_atom_id d)
         \<lparr>dn_decision = pd_decision d, dn_canonical_details = pd_canonical_details d, dn_details_digest = pd_details_digest d\<rparr>)) (\<lambda>inserted.
     pure (ensure_exact_change_count inserted 1))))"

definition persist_retirement_decisions :: "RetirementCommit \<Rightarrow> (SqliteRepository, unit) action" where
  "persist_retirement_decisions commit = each (persist_decision commit) (rm_decisions commit)"

definition short_term :: "state_row \<Rightarrow> bool" where
  "short_term s \<longleftrightarrow> sr_retention_tier s = ''stm'' \<and> sr_content_status s = ''present''"

text \<open>The three transitions of \<open>atom_state\<close>, over the atoms that the run decided so.\<close>

definition retain_exact :: "Digest32 \<Rightarrow> statement" where
  "retain_exact run db = update_where states_table (\<lambda>atom s. decided db run WINNER_NAMES atom \<and> short_term s)
     (\<lambda>s. s\<lparr>sr_retention_tier := ''ltm_episodic'', sr_content_status := ''present'', sr_expires_at_us := None,
       sr_retirement_run_id := Some run\<rparr>) db"

definition mark_forgotten :: "Digest32 \<Rightarrow> statement" where
  "mark_forgotten run db = update_where states_table (\<lambda>atom s. decided db run FORGOTTEN_NAMES atom \<and> short_term s)
     (\<lambda>s. s\<lparr>sr_retention_tier := ''forgotten'', sr_content_status := ''forgotten'', sr_expires_at_us := None,
       sr_retirement_run_id := Some run\<rparr>) db"

definition bind_unchanged :: "Digest32 \<Rightarrow> statement" where
  "bind_unchanged run db = update_where states_table (\<lambda>atom s. decided db run [''unchanged''] atom \<and> short_term s)
     (\<lambda>s. s\<lparr>sr_retirement_run_id := Some run\<rparr>) db"

definition delete_forgotten_bodies :: "json_codec \<Rightarrow> Digest32 \<Rightarrow> statement" where
  "delete_forgotten_bodies js run db = delete_where (bodies_table js) (\<lambda>atom _. decided db run FORGOTTEN_NAMES atom) db"

definition delete_forgotten_projections :: "json_codec \<Rightarrow> Digest32 \<Rightarrow> statement" where
  "delete_forgotten_projections js run db = delete_where (projections_table js) (\<lambda>atom _. decided db run FORGOTTEN_NAMES atom) db"

definition forgotten_hex :: "Digest32 \<Rightarrow> Database \<Rightarrow> string set" where
  "forgotten_hex run db =
     set (map (\<lambda>(atom, _). to_hex atom) (filter (\<lambda>(_, row). dn_decision row \<in> set FORGOTTEN_NAMES) (run_decisions db run)))"

definition delete_forgotten_search :: "Digest32 \<Rightarrow> statement" where
  "delete_forgotten_search run db =
     (let gone = (\<lambda>(atom_hex, _). atom_hex \<in> forgotten_hex run db) in
      Inr (db\<lparr>db_search := filter (\<lambda>row. \<not> gone row) (db_search db)\<rparr>, length (filter gone (db_search db))))"

definition delete_released_refs :: "Digest32 \<Rightarrow> statement" where
  "delete_released_refs run db = delete_where artifact_refs_table (\<lambda>(_, atom, _) allowed.
     decided db run FORGOTTEN_NAMES atom \<or> (\<not> allowed \<and> decided db run WINNER_NAMES atom)) db"

definition count_decisions :: "string list \<Rightarrow> RetirementCommit \<Rightarrow> usize" where
  "count_decisions names commit = min (length (filter (\<lambda>d. pd_decision d \<in> set names) (rm_decisions commit))) usize_max"

definition execute_exactly :: "statement \<Rightarrow> usize \<Rightarrow> (SqliteRepository, unit) action" where
  "execute_exactly stmt expected_count =
     and_then (execute stmt) (\<lambda>changed. pure (ensure_exact_change_count changed expected_count))"

definition apply_decisions_set_based ::
  "json_codec \<Rightarrow> RetirementCommit \<Rightarrow> observer \<Rightarrow> (SqliteRepository, unit) action" where
  "apply_decisions_set_based js commit observer =
     (let run = rm_run_id commit; forgotten_count = count_decisions FORGOTTEN_NAMES commit in
      if \<exists>d \<in> set (rm_decisions commit). pd_decision d \<notin> set DECISION_NAMES
      then pure (Inl (InvalidRetirementPlan ''unknown retirement decision''))
      else and_then (execute_exactly (retain_exact run) (count_decisions WINNER_NAMES commit)) (\<lambda>_.
      and_then (execute_exactly (mark_forgotten run) forgotten_count) (\<lambda>_.
      and_then (execute_exactly (bind_unchanged run) (count_decisions [''unchanged''] commit)) (\<lambda>_.
      and_then (pure (observer RetirementAfterStateMutation)) (\<lambda>_.
      and_then (execute_exactly (delete_forgotten_bodies js run) forgotten_count) (\<lambda>_.
      and_then (execute_exactly (delete_forgotten_projections js run) forgotten_count) (\<lambda>_.
      and_then (execute_exactly (delete_forgotten_search run) forgotten_count) (\<lambda>_.
      and_then (execute (delete_released_refs run)) (\<lambda>_.
      pure (observer RetirementAfterForgetting))))))))))"

section \<open>Pins, receipt and completion\<close>

definition insert_pin :: "RetirementCommit \<Rightarrow> int \<Rightarrow> ArtifactPin \<Rightarrow> (SqliteRepository, unit) action" where
  "insert_pin commit pinned_at pin =
     and_then (execute_exactly (insert_row pins_table (ap_artifact_digest pin, rm_run_id commit, ap_atom_id pin) pinned_at) 1) (\<lambda>_.
     execute_exactly (clear_gc_mark (ap_artifact_digest pin)) 1)"

definition insert_pins :: "RetirementCommit \<Rightarrow> (SqliteRepository, unit) action" where
  "insert_pins commit =
     and_then (pure (sqlite_integer (ck_as_of_us (rm_key commit)) ''as_of_us'')) (\<lambda>pinned_at.
     each (insert_pin commit pinned_at) (rm_artifact_pins commit))"

definition insert_receipt :: "json_codec \<Rightarrow> RetirementCommit \<Rightarrow> (SqliteRepository, unit) action" where
  "insert_receipt js commit =
     and_then (pure (validate_json js (pr_json_projection (rm_receipt commit)) ''receipt'')) (\<lambda>_.
     and_then (pure (sqlite_integer (ck_as_of_us (rm_key commit)) ''as_of_us'')) (\<lambda>created_at.
     execute_exactly (insert_row (receipts_table js) (pr_receipt_digest (rm_receipt commit))
       \<lparr>rw_run_id = rm_run_id commit, rw_canonical_receipt = pr_canonical_receipt (rm_receipt commit),
        rw_json_projection = pr_json_projection (rm_receipt commit), rw_closure_digest = pr_closure_digest (rm_receipt commit),
        rw_created_at_us = created_at\<rparr>) 1))"

definition complete_run :: "RetirementCommit \<Rightarrow> (SqliteRepository, unit) action" where
  "complete_run commit =
     and_then (pure (sqlite_integer (ck_as_of_us (rm_key commit)) ''as_of_us'')) (\<lambda>completed_at.
     execute_exactly (update_row runs_table (rm_run_id commit) (\<lambda>row. ru_status row = ''applying'')
       (\<lambda>row. row\<lparr>ru_status := ''applied'', ru_completed_at_us := Some completed_at,
         ru_receipt_digest := Some (pr_receipt_digest (rm_receipt commit))\<rparr>)) 1)"

section \<open>The transaction\<close>

definition cohort_retired :: "string \<Rightarrow> int \<Rightarrow> Database \<Rightarrow> bool" where
  "cohort_retired space day db \<longleftrightarrow>
     (space, day) |\<in>| (\<lambda>run. (ru_memory_space_id run, ru_cohort_day run)) |`| fmran (db_runs db)"

text \<open>A run with the same identifier is the same plan, applied, or a conflict.\<close>

definition existing_run ::
  "(byte list \<Rightarrow> Digest32) \<Rightarrow> json_codec \<Rightarrow> RetirementCommit \<Rightarrow> Database \<Rightarrow> bool store_result" where
  "existing_run sha js commit db =
     (case fmlookup (db_runs db) (rm_run_id commit) of
        None \<Rightarrow> Inr False
      | Some run \<Rightarrow>
          if ru_plan_digest run = rm_plan_digest commit \<and> ru_receipt_digest run = Some (pr_receipt_digest (rm_receipt commit))
             \<and> ru_status run = ''applied''
          then bindr (verify_persisted_core_receipt sha js (rm_run_id commit) None db) (\<lambda>_. Inr True)
          else Inl RetirementConflict)"

definition cohort_still_open :: "RetirementCommit \<Rightarrow> Database \<Rightarrow> unit store_result" where
  "cohort_still_open commit db =
     bindr (sqlite_integer (ck_cohort_day (rm_key commit)) ''cohort_day'') (\<lambda>cohort_day.
     if cohort_retired (ck_memory_space_id (rm_key commit)) cohort_day db then Inl RetirementConflict else Inr ())"

definition current_snapshot :: "(byte list \<Rightarrow> Digest32) \<Rightarrow> RetirementCommit \<Rightarrow> Database \<Rightarrow> CohortSnapshot store_result" where
  "current_snapshot sha commit db =
     bindr (snapshot_connection sha (rm_key commit) db) (\<lambda>current.
     if cn_input_set_digest current \<noteq> rm_expected_input_set_digest commit
     then Inl (StoreStalePlan (to_hex (rm_expected_input_set_digest commit)) (to_hex (cn_input_set_digest current)))
     else Inr current)"

definition write_run ::
  "(byte list \<Rightarrow> Digest32) \<Rightarrow> json_codec \<Rightarrow> RetirementCommit \<Rightarrow> observer \<Rightarrow> (SqliteRepository, unit) action" where
  "write_run sha js commit observer =
     and_then (insert_retirement_run commit) (\<lambda>_.
     and_then (insert_retirement_post_state sha js commit) (\<lambda>_.
     and_then (pure (observer RetirementAfterRunCreation)) (\<lambda>_.
     and_then (each (insert_semantic_output sha js commit) (rm_semantic_atoms commit)) (\<lambda>_.
     and_then (pure (observer RetirementAfterSemanticInsertion)) (\<lambda>_.
     and_then (persist_retirement_decisions commit) (\<lambda>_.
     and_then (pure (observer RetirementAfterDecisionPersistence)) (\<lambda>_.
     and_then (apply_decisions_set_based js commit observer) (\<lambda>_.
     and_then (insert_pins commit) (\<lambda>_.
     and_then (pure (observer RetirementAfterArtifactPins)) (\<lambda>_.
     and_then (insert_receipt js commit) (\<lambda>_.
     and_then (pure (observer RetirementAfterReceiptInsertion)) (\<lambda>_.
     and_then (complete_run commit) (\<lambda>_.
     and_then (pure (observer RetirementAfterRunCompletion)) (\<lambda>_.
     and_then (select (verify_persisted_core_receipt sha js (rm_run_id commit) None)) (\<lambda>_.
     pure (observer RetirementBeforeCommit))))))))))))))))"

definition apply_retirement_observed ::
  "(byte list \<Rightarrow> Digest32) \<Rightarrow> json_codec \<Rightarrow> RetirementCommit \<Rightarrow> observer \<Rightarrow> (SqliteRepository, ApplyOutcome) action" where
  "apply_retirement_observed sha js commit observer =
     and_then (pure (validate_retirement_commit sha js commit)) (\<lambda>_.
     and_then (select (verify_persisted_poc_policy sha js)) (\<lambda>_.
     transaction
       (and_then (select (existing_run sha js commit)) (\<lambda>known.
        if known then pure (Inr AlreadyApplied)
        else and_then (select (cohort_still_open commit)) (\<lambda>_.
        and_then (select (current_snapshot sha commit)) (\<lambda>current.
        and_then (pure (validate_decision_closure current commit)) (\<lambda>_.
        and_then (query (validate_pins sha current commit)) (\<lambda>_.
        and_then (write_run sha js commit observer) (\<lambda>_.
        pure (Inr Applied))))))))))"

section \<open>Plans\<close>

text \<open>A plan that has been applied is answered from its persisted receipt.\<close>

definition prior_outcome ::
  "(byte list \<Rightarrow> Digest32) \<Rightarrow> json_codec \<Rightarrow> RetirementPlanV1 \<Rightarrow> Database \<Rightarrow> ApplyRetirementOutcomeV1 option store_result" where
  "prior_outcome sha js plan db =
     bindr (core (plan_digest sha plan)) (\<lambda>digest.
     case List.find (\<lambda>(_, run). ru_plan_digest run = digest) (sorted_list_of_fmap (db_runs db)) of
       Some (run_id, run) \<Rightarrow>
         if ru_projected_state_digest run = pn_projected_state_digest plan \<and> ru_status run = ''applied''
         then bindr (verify_persisted_core_receipt sha js run_id (Some plan) db) (\<lambda>_. Inr (Some (outcome_from_plan plan True)))
         else Inl RetirementConflict
     | None \<Rightarrow>
         bindr (sqlite_integer (pn_cohort_day plan) ''cohort_day'') (\<lambda>cohort_day.
         if cohort_retired (pn_memory_space_id plan) cohort_day db then Inl RetirementConflict else Inr None))"

definition plan_key :: "RetirementPlanV1 \<Rightarrow> CohortKey" where
  "plan_key plan = \<lparr>ck_memory_space_id = pn_memory_space_id plan, ck_cohort_day = pn_cohort_day plan,
     ck_as_of_us = pn_as_of_us plan\<rparr>"

definition observed_cohort ::
  "(byte list \<Rightarrow> Digest32) \<Rightarrow> json_codec \<Rightarrow> RetirementPlanV1 \<Rightarrow> SqliteRepository \<Rightarrow> (CohortSnapshot \<times> RetirementSnapshotV1) store_result" where
  "observed_cohort sha js plan r =
     bindr (snapshot sha (plan_key plan) r) (\<lambda>local.
     bindr (snapshot_core sha js (plan_key plan) r) (\<lambda>core_snapshot.
     bindr (core (retirement_input_digest sha core_snapshot)) (\<lambda>observed_input_digest.
     if observed_input_digest \<noteq> pn_input_set_digest plan
     then Inl (StoreStalePlan (to_hex (pn_input_set_digest plan)) (to_hex observed_input_digest))
     else Inr (local, core_snapshot))))"

definition commit_plan ::
  "(byte list \<Rightarrow> Digest32) \<Rightarrow> json_codec \<Rightarrow> RetirementPlanV1 \<Rightarrow> CohortSnapshot \<Rightarrow> RetirementPlanV1 \<Rightarrow> observer \<Rightarrow>
   (SqliteRepository, ApplyRetirementOutcomeV1) action" where
  "commit_plan sha js plan local expected_plan observer =
     (if expected_plan \<noteq> plan
      then pure (Inl (InvalidRetirementPlan ''plan does not match deterministic recomputation from the current cohort''))
      else let out = outcome_from_plan plan False in
      and_then (pure (core (fst (apply_retirement sha expected_outcome_repository out plan)))) (\<lambda>receipt.
      and_then (pure (build_core_commit sha js plan receipt local)) (\<lambda>commit.
      and_then (apply_retirement_observed sha js commit observer) (\<lambda>applied.
      pure (Inr (out\<lparr>ao_already_applied := (applied = AlreadyApplied)\<rparr>))))))"

text \<open>
  The planner may panic, or, if its word stream never yields an accepted word, not return; then the
  call does not return either, and the result is \<open>None\<close>.
\<close>

definition apply_core_plan_observed ::
  "(byte list \<Rightarrow> Digest32) \<Rightarrow> (byte list \<Rightarrow> stream) \<Rightarrow> json_codec \<Rightarrow> RetirementPlanV1 \<Rightarrow> observer \<Rightarrow>
   SqliteRepository \<Rightarrow> (ApplyRetirementOutcomeV1 store_result \<times> SqliteRepository) option" where
  "apply_core_plan_observed sha chacha js plan observer r =
     (case prior_outcome sha js plan (re_database r) of
        Inl e \<Rightarrow> Some (Inl e, r)
      | Inr (Some out) \<Rightarrow> Some (Inr out, r)
      | Inr None \<Rightarrow>
          (case observed_cohort sha js plan r of
             Inl e \<Rightarrow> Some (Inl e, r)
           | Inr (local, core_snapshot) \<Rightarrow>
               (case plan_retirement sha chacha core_snapshot poc_v1 (pn_seed plan) of
                  None \<Rightarrow> None
                | Some (Inl Panic) \<Rightarrow> None
                | Some (Inl (Err e)) \<Rightarrow> Some (Inl (Core e), r)
                | Some (Inr expected_plan) \<Rightarrow> Some (commit_plan sha js plan local expected_plan observer r))))"

definition apply_core_plan ::
  "(byte list \<Rightarrow> Digest32) \<Rightarrow> (byte list \<Rightarrow> stream) \<Rightarrow> json_codec \<Rightarrow> RetirementPlanV1 \<Rightarrow>
   SqliteRepository \<Rightarrow> (ApplyRetirementOutcomeV1 store_result \<times> SqliteRepository) option" where
  "apply_core_plan sha chacha js plan r = apply_core_plan_observed sha chacha js plan ignore_transaction_boundary r"

text \<open>
  \<open>RetirementRepositoryV1\<close> for the store: the errors are those of the core crate.  How a store error
  is displayed is a parameter.
\<close>

definition core_error :: "(StoreError \<Rightarrow> string) \<Rightarrow> RetirementPlanV1 \<Rightarrow> StoreError \<Rightarrow> MemoryError" where
  "core_error display plan e =
     (case e of
        StoreStalePlan _ found_text \<Rightarrow>
          (case digest_from_str () found_text of
             Inl _ \<Rightarrow> RepositoryRejected ''store returned an invalid stale digest''
           | Inr current_digest \<Rightarrow> StalePlan (pn_input_set_digest plan) current_digest)
      | other \<Rightarrow> RepositoryRejected (display other))"

definition apply_plan_atomically ::
  "(byte list \<Rightarrow> Digest32) \<Rightarrow> (byte list \<Rightarrow> stream) \<Rightarrow> json_codec \<Rightarrow> (StoreError \<Rightarrow> string) \<Rightarrow> RetirementPlanV1 \<Rightarrow>
   SqliteRepository \<Rightarrow> (ApplyRetirementOutcomeV1 result \<times> SqliteRepository) option" where
  "apply_plan_atomically sha chacha js display plan r =
     map_option (\<lambda>(applied, r'). (case applied of Inl e \<Rightarrow> Inl (core_error display plan e) | Inr out \<Rightarrow> Inr out, r'))
       (apply_core_plan sha chacha js plan r)"

end
