(* ===== verification/RunLaws.thy ===== *)
theory RunLaws
  imports RunCheck
begin

text \<open>
  What the acceptance of a run by \<open>verify_persisted_core_receipt\<close> says of the tables: the receipt is
  bound to the run, and the live state of every decided atom is the one its decision leaves.
\<close>

section \<open>Decided atoms\<close>

text \<open>
  The state a decision leaves: a winner is a long-term episode, any other atom of the cohort is a
  header without content, and both name the run.
\<close>

definition settled :: "Database \<Rightarrow> Digest32 \<Rightarrow> Digest32 \<Rightarrow> string \<Rightarrow> bool" where
  "settled db run atom name \<longleftrightarrow>
     (\<exists>s. fmlookup (db_states db) atom = Some s \<and> sr_retirement_run_id s = Some run \<and>
        (name \<in> set WINNER_NAMES \<and> sr_retention_tier s = ''ltm_episodic'' \<and> sr_content_status s = ''present'' \<or>
         name \<in> set FORGOTTEN_NAMES \<and> sr_retention_tier s = ''forgotten'' \<and> sr_content_status s = ''forgotten''))"

text \<open>Nothing of the content of an atom is left.\<close>

definition content_gone :: "Database \<Rightarrow> Digest32 \<Rightarrow> bool" where
  "content_gone db atom \<longleftrightarrow> fmlookup (db_bodies db) atom = None \<and> fmlookup (db_projections db) atom = None \<and>
     (\<forall>d role. (d, atom, role) |\<notin>| fmdom (db_artifact_refs db))"

lemma tier_from_store:
  "retention_tier_from_store t = Inr EpisodicLongTerm \<Longrightarrow> t = ''ltm_episodic''"
  "retention_tier_from_store t = Inr HeaderOnly \<Longrightarrow> t = ''forgotten''"
  by (auto simp: retention_tier_from_store_def split: if_splits)

lemma status_from_store:
  "content_status_from_store t = Inr Present \<Longrightarrow> t = ''present''"
  "content_status_from_store t = Inr Forgotten \<Longrightarrow> t = ''forgotten''"
  by (auto simp: content_status_from_store_def split: if_splits)

lemma state_from_row_Inr:
  assumes "state_from_row prefix s = Inr st"
  shows "retention_tier_from_store (sr_retention_tier s) = Inr (st_retention_tier st)"
    "content_status_from_store (sr_content_status s) = Inr (st_content_status st)"
    "st_retirement_run_id st = sr_retirement_run_id s"
  using assms by (auto simp: state_from_row_def bindr_Inr)

lemma names_distinct: "name \<in> set WINNER_NAMES \<Longrightarrow> name \<notin> set FORGOTTEN_NAMES"
  by (auto simp: WINNER_NAMES_def FORGOTTEN_NAMES_def)

lemma expected_state_Inr:
  assumes "expected_state (Some (name, run)) = Inr (tier, status, r, required)"
  shows "r = Some run"
    "name \<in> set WINNER_NAMES \<and> tier = EpisodicLongTerm \<and> status = Present \<and> required \<or>
     name \<in> set FORGOTTEN_NAMES \<and> tier = HeaderOnly \<and> status = Forgotten \<and> \<not> required"
  using assms by (auto simp: expected_state_def split: if_splits)

lemma stored_post_state_atom_Some:
  assumes "stored_post_state_atom db atom = Some stored"
  shows "sa_atom_id stored = atom" "fmlookup (db_states db) atom = Some (sa_state stored)"
    "fmlookup (db_headers db) atom = Some (sa_header stored)"
    "sa_body stored = fmlookup (db_bodies db) atom" "sa_projection stored = fmlookup (db_projections db) atom"
  using assms by (auto simp: stored_post_state_atom_def split: option.splits)

lemma required_body_Inr:
  assumes "stored_body_digest_required sha js db stored state n src pins = Inr d"
  shows "sa_body stored \<noteq> None" "sa_projection stored \<noteq> None"
  using assms by (auto simp: stored_body_digest_required_def Let_def bindr_Inr ok_or_Inr)

lemma post_state_source:
  assumes "post_state_atom_from_stored sha js db stored space (Some (name, run)) pins = Inr a"
    "stored_post_state_atom db atom = Some stored"
  shows "settled db run atom name" "pa_pinned_artifact_digests a = pins"
    "name \<in> set FORGOTTEN_NAMES \<Longrightarrow> fmlookup (db_bodies db) atom = None \<and> fmlookup (db_projections db) atom = None \<and> pins = []"
    "name \<in> set WINNER_NAMES \<Longrightarrow> fmlookup (db_bodies db) atom \<noteq> None \<and> fmlookup (db_projections db) atom \<noteq> None"
proof -
  note rows = stored_post_state_atom_Some [OF assms(2)]
  obtain st tier status r required n where st: "state_from_row ''post-state '' (sa_state stored) = Inr st"
    and ex: "expected_state (Some (name, run)) = Inr (tier, status, r, required)"
    and agree: "st_retention_tier st = tier" "st_content_status st = status" "st_retirement_run_id st = r"
    and body: "\<exists>d. (if required then bindr (stored_body_digest_required sha js db stored st n (Some (name, run) \<noteq> None) pins) (\<lambda>d. Inr (Some d))
        else if sa_body stored \<noteq> None \<or> sa_projection stored \<noteq> None \<or> pins \<noteq> []
        then Inl (Integrity ''forgotten source retains body, search, or pin state'') else Inr None) = Inr d"
    and pins: "pa_pinned_artifact_digests a = pins"
    using assms(1) unfolding post_state_atom_from_stored_def Let_def bindr_Inr if_Inl_Inr split_paired_Ex prod.case
    by (elim exE conjE) (rule that, assumption, assumption, simp, simp, simp, rule exI, assumption, auto)
  have content: "if required then sa_body stored \<noteq> None \<and> sa_projection stored \<noteq> None
      else sa_body stored = None \<and> sa_projection stored = None \<and> pins = []"
    using body required_body_Inr by (auto simp: bindr_Inr split: if_splits)
  have s: "retention_tier_from_store (sr_retention_tier (sa_state stored)) = Inr tier"
    "content_status_from_store (sr_content_status (sa_state stored)) = Inr status"
    "sr_retirement_run_id (sa_state stored) = Some run"
    using state_from_row_Inr [OF st] agree expected_state_Inr(1) [OF ex] by simp_all
  show "settled db run atom name"
    using expected_state_Inr(2) [OF ex] s tier_from_store status_from_store by (auto simp: settled_def rows)
  show "pa_pinned_artifact_digests a = pins" by (rule pins)
  show "fmlookup (db_bodies db) atom = None \<and> fmlookup (db_projections db) atom = None \<and> pins = []" if "name \<in> set FORGOTTEN_NAMES"
    using that expected_state_Inr(2) [OF ex] names_distinct content by (auto simp: rows)
  show "fmlookup (db_bodies db) atom \<noteq> None \<and> fmlookup (db_projections db) atom \<noteq> None" if "name \<in> set WINNER_NAMES"
    using that expected_state_Inr(2) [OF ex] names_distinct [OF that] content by (auto simp: rows)
qed

section \<open>The whole check\<close>

lemma verify_run_Inr:
  assumes "verify_persisted_core_receipt sha js run_id expected_plan db = Inr receipt"
  obtains run d persisted decisions exact_artifacts historical current where
    "load_applied_run run_id db = Inr (run, d)" "load_run_receipt run_id db = Inr (d, persisted)"
    "js_receipt_of js (rw_json_projection persisted) = Inr receipt"
    "check_receipt_authority sha js run_id run d persisted receipt = Inr ()"
    "load_decisions sha run_id db = Inr decisions"
    "check_decision_closure sha run_id db receipt decisions = Inr exact_artifacts"
    "check_semantic_closure sha js db receipt decisions = Inr ()"
    "load_retirement_post_state sha js (rp_run_id receipt) db = Inr historical"
    "recompute_persisted_post_state sha js db receipt decisions exact_artifacts = Inr current"
    "validate_live_post_state_transition historical current = Inr ()"
  using assms
  by (auto simp: verify_persisted_core_receipt_def Let_def bindr_Inr json_Inr split: if_splits)

lemma receipt_authority_run:
  "check_receipt_authority sha js run_id run d persisted receipt = Inr u \<Longrightarrow> rp_run_id receipt = run_id"
  by (auto simp: check_receipt_authority_def Let_def bindr_Inr split: if_splits)

lemma length_map_filter: "length (List.map_filter f xs) = length (filter (\<lambda>x. f x \<noteq> None) xs)"
  by (induction xs) (auto simp: List.map_filter_def split: option.splits)

lemma map_filter_total:
  assumes "length (List.map_filter f xs) = length xs"
  shows "\<forall>x \<in> set xs. f x \<noteq> None" "List.map_filter f xs = map (the \<circ> f) xs"
proof -
  show total: "\<forall>x \<in> set xs. f x \<noteq> None"
  proof (rule ballI, rule notI)
    fix x assume "x \<in> set xs" "f x = None"
    then show False using length_filter_less [of x xs "\<lambda>x. f x \<noteq> None"] assms by (simp add: length_map_filter)
  qed
  then show "List.map_filter f xs = map (the \<circ> f) xs" by (induction xs) (auto simp: List.map_filter_def)
qed

lemma run_decisions_iff: "(atom, row) \<in> set (run_decisions db run) \<longleftrightarrow> fmlookup (db_decisions db) (run, atom) = Some row"
  by (force simp: run_decisions_def set_sorted_list_of_fmap)

lemma load_decisions_Inr:
  assumes "load_decisions sha run db = Inr decisions"
  shows "length decisions = length (run_decisions db run)"
    "i < length decisions \<Longrightarrow> run_decisions db run ! i = (atom, row) \<Longrightarrow>
     decisions ! i = (atom, dn_decision row, dn_canonical_details row, dn_details_digest row) \<and>
     sha (dn_canonical_details row) = dn_details_digest row"
proof -
  show len: "length decisions = length (run_decisions db run)" using assms traverse_length unfolding load_decisions_def by blast
  show "decisions ! i = (atom, dn_decision row, dn_canonical_details row, dn_details_digest row) \<and>
     sha (dn_canonical_details row) = dn_details_digest row" if "i < length decisions" "run_decisions db run ! i = (atom, row)"
    using traverse_nth [OF assms [unfolded load_decisions_def], of i] that len by (auto split: if_splits)
qed

lemma recompute_source:
  assumes load: "load_decisions sha (rp_run_id receipt) db = Inr decisions"
    and recompute: "recompute_persisted_post_state sha js db receipt decisions exact_artifacts = Inr current"
    and row: "fmlookup (db_decisions db) (rp_run_id receipt, atom) = Some row"
  obtains stored a where "stored_post_state_atom db atom = Some stored"
    "post_state_atom_from_stored sha js db stored (rp_memory_space_id receipt) (Some (dn_decision row, rp_run_id receipt))
       (unwrap_or [] (fmlookup exact_artifacts (AtomId atom))) = Inr a"
proof -
  let ?rows = "run_decisions db (rp_run_id receipt)"
  let ?f = "\<lambda>(atom, _). stored_post_state_atom db atom"
  obtain sources where len: "length (List.map_filter ?f ?rows) = length ?rows"
    and sources: "traverse (recompute_source_atom sha js db receipt exact_artifacts) (zip (List.map_filter ?f ?rows) decisions) = Inr sources"
    using recompute load_decisions_Inr(1) [OF load]
    by (auto simp: recompute_persisted_post_state_def Let_def bindr_Inr split: if_splits)
  note total = map_filter_total [OF len]
  obtain i where i: "i < length ?rows" "?rows ! i = (atom, row)" using row run_decisions_iff in_set_conv_nth by metis
  then obtain stored where stored: "stored_post_state_atom db atom = Some stored" using total(1) nth_mem by fastforce
  have "recompute_source_atom sha js db receipt exact_artifacts (zip (List.map_filter ?f ?rows) decisions ! i) = Inr (sources ! i)"
    by (rule traverse_nth [OF sources]) (simp add: i len load_decisions_Inr(1) [OF load])
  moreover have "zip (List.map_filter ?f ?rows) decisions ! i =
      (stored, (atom, dn_decision row, dn_canonical_details row, dn_details_digest row))"
    using i load_decisions_Inr [OF load] by (simp add: total(2) stored)
  ultimately show ?thesis
    using that [OF stored] stored_post_state_atom_Some(1) [OF stored] by (auto simp: recompute_source_atom_def split: if_splits)
qed

lemma recompute_forgotten:
  assumes "recompute_persisted_post_state sha js db receipt decisions exact_artifacts = Inr current"
    "fmlookup (db_decisions db) (rp_run_id receipt, atom) = Some row" "dn_decision row \<in> set FORGOTTEN_NAMES"
  shows "to_hex atom \<notin> fst ` set (db_search db)" "(d, atom, role) |\<notin>| fmdom (db_artifact_refs db)"
proof -
  let ?gone = "map (\<lambda>(atom, _). atom) (filter (\<lambda>(_, row). dn_decision row \<in> set FORGOTTEN_NAMES) (run_decisions db (rp_run_id receipt)))"
  have atom: "atom \<in> set ?gone" using assms(2,3) run_decisions_iff by force
  have none: "filter (\<lambda>(atom_hex, _). atom_hex \<in> set (map to_hex ?gone)) (db_search db) = []"
    "ffilter (\<lambda>(_, atom, _). atom \<in> set ?gone) (fmdom (db_artifact_refs db)) = {||}"
    using assms(1) unfolding recompute_persisted_post_state_def Let_def bindr_Inr if_Inl_Inr by blast+
  show "to_hex atom \<notin> fst ` set (db_search db)"
    using none(1) atom by (fastforce simp: filter_empty_conv)
  show "(d, atom, role) |\<notin>| fmdom (db_artifact_refs db)"
  proof
    assume "(d, atom, role) |\<in>| fmdom (db_artifact_refs db)"
    then have "(d, atom, role) |\<in>| ffilter (\<lambda>(_, atom, _). atom \<in> set ?gone) (fmdom (db_artifact_refs db))" using atom by simp
    then show False unfolding none(2) by simp
  qed
qed

text \<open>Every decided atom of a run that is accepted.\<close>

lemma verified_decision:
  assumes verify: "verify_persisted_core_receipt sha js run_id expected_plan db = Inr receipt"
    and row: "fmlookup (db_decisions db) (run_id, atom) = Some row"
  shows "settled db run_id atom (dn_decision row)"
    "dn_decision row \<in> set FORGOTTEN_NAMES \<Longrightarrow> content_gone db atom \<and> to_hex atom \<notin> fst ` set (db_search db)"
    "dn_decision row \<in> set WINNER_NAMES \<Longrightarrow> fmlookup (db_bodies db) atom \<noteq> None \<and> fmlookup (db_projections db) atom \<noteq> None"
proof -
  obtain run d persisted decisions exact_artifacts historical current where
    authority: "check_receipt_authority sha js run_id run d persisted receipt = Inr ()"
    and load: "load_decisions sha run_id db = Inr decisions"
    and recompute: "recompute_persisted_post_state sha js db receipt decisions exact_artifacts = Inr current"
    using verify_run_Inr [OF verify] by metis
  have run: "rp_run_id receipt = run_id" by (rule receipt_authority_run [OF authority])
  obtain stored a where stored: "stored_post_state_atom db atom = Some stored"
    "post_state_atom_from_stored sha js db stored (rp_memory_space_id receipt) (Some (dn_decision row, run_id))
       (unwrap_or [] (fmlookup exact_artifacts (AtomId atom))) = Inr a"
    using recompute_source [OF _ recompute] load row unfolding run by metis
  note source = post_state_source [OF stored(2,1)]
  show "settled db run_id atom (dn_decision row)" by (rule source(1))
  show "content_gone db atom \<and> to_hex atom \<notin> fst ` set (db_search db)" if "dn_decision row \<in> set FORGOTTEN_NAMES"
    using that source(3) recompute_forgotten [OF recompute, unfolded run, OF row that] by (simp add: content_gone_def)
  show "fmlookup (db_bodies db) atom \<noteq> None \<and> fmlookup (db_projections db) atom \<noteq> None" if "dn_decision row \<in> set WINNER_NAMES"
    by (rule source(4) [OF that])
qed

lemma verified_receipt:
  assumes "verify_persisted_core_receipt sha js run_id expected_plan db = Inr receipt"
  obtains run w where "fmlookup (db_runs db) run_id = Some run" "ru_status run = ''applied''"
    "ru_receipt_digest run = Some (rp_receipt_id receipt)" "rp_plan_digest receipt = ru_plan_digest run"
    "fmlookup (db_receipts db) (rp_receipt_id receipt) = Some w" "rw_run_id w = run_id"
    "recompute_receipt_id sha receipt = Inr (rp_receipt_id receipt)"
    "encode_value (v_receipt receipt) = Inr (rw_canonical_receipt w)"
proof -
  obtain run d persisted where run: "load_applied_run run_id db = Inr (run, d)" and w: "load_run_receipt run_id db = Inr (d, persisted)"
    and authority: "check_receipt_authority sha js run_id run d persisted receipt = Inr ()"
    using verify_run_Inr [OF assms] by metis
  have d: "rp_receipt_id receipt = d" "recompute_receipt_id sha receipt = Inr d" "encode_value (v_receipt receipt) = Inr (rw_canonical_receipt persisted)"
    "rp_plan_digest receipt = ru_plan_digest run"
    using authority by (auto simp: check_receipt_authority_def Let_def bindr_Inr core_Inr split: if_splits)
  have "List.find (\<lambda>(_, row). rw_run_id row = run_id) (sorted_list_of_fmap (db_receipts db)) = Some (d, persisted)"
    using w by (auto simp: load_run_receipt_def ok_or_Inr)
  then have "(d, persisted) \<in> set (sorted_list_of_fmap (db_receipts db))" "rw_run_id persisted = run_id"
    by (auto simp: find_Some_iff) (metis nth_mem)
  then have "fmlookup (db_receipts db) d = Some persisted" "rw_run_id persisted = run_id" by (simp_all add: set_sorted_list_of_fmap)
  moreover have "fmlookup (db_runs db) run_id = Some run" "ru_status run = ''applied''" "ru_receipt_digest run = Some d"
    using run by (auto simp: load_applied_run_def bindr_Inr ok_or_Inr split: if_splits)
  ultimately show ?thesis using that d by simp
qed

lemma decision_closure:
  assumes "check_decision_closure sha run_id db receipt decisions = Inr exact_artifacts"
  shows "map fst decisions = map atom_digest (cl_source_atom_ids (rp_closure receipt))"
    "map (\<lambda>(atom, _). AtomId atom) (filter (\<lambda>(_, name, _). name \<in> set WINNER_NAMES) decisions) = cl_exact_episode_ids (rp_closure receipt)"
  using assms by (auto simp: check_decision_closure_def Let_def bindr_Inr split: if_splits)

lemma load_decisions_map:
  "load_decisions sha run db = Inr decisions \<Longrightarrow>
   decisions = map (\<lambda>(atom, row). (atom, dn_decision row, dn_canonical_details row, dn_details_digest row)) (run_decisions db run)"
  by (rule nth_equalityI) (auto simp: load_decisions_Inr split: prod.splits)

text \<open>
  what acceptance means.  If a run is accepted, it is applied, its row names a receipt that is stored
  for this run, has the identifier of its own content and is stored under its canonical bytes; the receipt
  names exactly the atoms the run decided; and each of them is live in the state of its decision:
  nothing of a forgotten episode's content is left in any table, and a winner has its body.
\<close>

theorem verified_run_sound:
  assumes "verify_persisted_core_receipt sha js run_id expected_plan db = Inr receipt"
  shows "\<exists>run w. fmlookup (db_runs db) run_id = Some run \<and> ru_status run = ''applied'' \<and>
    ru_receipt_digest run = Some (rp_receipt_id receipt) \<and> rp_plan_digest receipt = ru_plan_digest run \<and>
    fmlookup (db_receipts db) (rp_receipt_id receipt) = Some w \<and> rw_run_id w = run_id \<and>
    recompute_receipt_id sha receipt = Inr (rp_receipt_id receipt) \<and> encode_value (v_receipt receipt) = Inr (rw_canonical_receipt w) \<and>
    map fst (run_decisions db run_id) = map atom_digest (cl_source_atom_ids (rp_closure receipt)) \<and>
    (\<forall>(atom, row) \<in> set (run_decisions db run_id). settled db run_id atom (dn_decision row) \<and>
       (if dn_decision row \<in> set FORGOTTEN_NAMES then content_gone db atom \<and> to_hex atom \<notin> fst ` set (db_search db)
        else fmlookup (db_bodies db) atom \<noteq> None \<and> AtomId atom \<in> set (cl_exact_episode_ids (rp_closure receipt))))"
proof -
  obtain decisions exact_artifacts where load: "load_decisions sha run_id db = Inr decisions"
    and closure: "check_decision_closure sha run_id db receipt decisions = Inr exact_artifacts"
    using verify_run_Inr [OF assms] by metis
  note map = load_decisions_map [OF load] and ids = decision_closure [OF closure]
  have "map fst (run_decisions db run_id) = map atom_digest (cl_source_atom_ids (rp_closure receipt))"
    using ids(1) unfolding map by (simp add: comp_def split_beta)
  moreover have "\<forall>(atom, row) \<in> set (run_decisions db run_id). settled db run_id atom (dn_decision row) \<and>
       (if dn_decision row \<in> set FORGOTTEN_NAMES then content_gone db atom \<and> to_hex atom \<notin> fst ` set (db_search db)
        else fmlookup (db_bodies db) atom \<noteq> None \<and> AtomId atom \<in> set (cl_exact_episode_ids (rp_closure receipt)))"
  proof (intro ballI, unfold split_paired_all prod.case)
    fix atom row assume row: "(atom, row) \<in> set (run_decisions db run_id)"
    note decision = verified_decision [OF assms row [unfolded run_decisions_iff]]
    have "AtomId atom \<in> set (cl_exact_episode_ids (rp_closure receipt))" if "dn_decision row \<in> set WINNER_NAMES"
      using that row unfolding ids(2) [symmetric] map by force
    then show "settled db run_id atom (dn_decision row) \<and>
       (if dn_decision row \<in> set FORGOTTEN_NAMES then content_gone db atom \<and> to_hex atom \<notin> fst ` set (db_search db)
        else fmlookup (db_bodies db) atom \<noteq> None \<and> AtomId atom \<in> set (cl_exact_episode_ids (rp_closure receipt)))"
      using decision by (auto simp: settled_def)
  qed
  moreover obtain run w where rows: "fmlookup (db_runs db) run_id = Some run" "ru_status run = ''applied''"
    "ru_receipt_digest run = Some (rp_receipt_id receipt)" "rp_plan_digest receipt = ru_plan_digest run"
    "fmlookup (db_receipts db) (rp_receipt_id receipt) = Some w" "rw_run_id w = run_id"
    "recompute_receipt_id sha receipt = Inr (rp_receipt_id receipt)"
    "encode_value (v_receipt receipt) = Inr (rw_canonical_receipt w)"
    using verified_receipt [OF assms] .
  ultimately show ?thesis by (intro exI [of _ run] exI [of _ w] conjI)
qed

end
