(* ===== verification/ApplyLaws.thy ===== *)
theory ApplyLaws
  imports Apply RunLaws
begin

text \<open>
  The transaction that applies a plan keeps the invariant of the repository.  Until the decisions are
  applied the invariant of the tables holds after every statement; from there to the end of the
  transaction the decided atoms may be between two states, and the check of the run that closes the
  transaction establishes the invariant again.
\<close>

section \<open>Evidence\<close>

text \<open>Storing the evidence of a run touches no draft, atom, link or artifact.\<close>

definition evidence_only :: "Database \<Rightarrow> Database \<Rightarrow> bool" where
  "evidence_only db db' \<longleftrightarrow> same_core db db' \<and> db_relations db' = db_relations db \<and> same_artifacts db db'"

interpretation evidence: db_preorder evidence_only
  by unfold_locales (auto simp: evidence_only_def same_artifacts_def intro: same_core_trans)

lemma evidence_statements:
  "moves evidence_only (execute (insert_row runs_table run row))"
  "moves evidence_only (execute (insert_row (post_states_table js) run post))"
  "moves evidence_only (execute (insert_row members_table k d))"
  "moves evidence_only (execute (insert_row decisions_table k decision))"
  "moves evidence_only (execute (insert_row (receipts_table js) d w))"
  "moves evidence_only (execute (update_row runs_table run p f))"
  by (rule evidence.moves_execute, auto simp: runs_tab.insert_row_Inr post_states_tab.insert_row_Inr members_tab.insert_row_Inr
      decisions_tab.insert_row_Inr receipts_tab.insert_row_Inr runs_tab.update_row_Inr evidence_only_def same_core_def same_artifacts_def
      split: if_splits)+

lemma db_inv_evidence:
  assumes "db_inv sha js db" "evidence_only db db'" "schema_ok js db'"
  shows "db_inv sha js db'"
proof (rule db_inv_same_core [OF assms(1)])
  show "refs_ok db'"
    using refs_ok_frame [OF same_core_wf(5)] db_invD(6) [OF assms(1)] assms(2) by (auto simp: evidence_only_def same_artifacts_def)
qed (use assms in \<open>auto simp: evidence_only_def\<close>)

lemma evidence_carries:
  assumes "moves evidence_only m" "keeps_db (schema_ok js) m"
  shows "carries (db_inv sha js) m" "carries (live_inv sha' fs D) m"
proof -
  show "carries (db_inv sha js) m"
  proof (rule carriesI)
    fix r x r' assume inv: "db_inv sha js (re_database r)" and run: "m r = (Inr x, r')"
    show "db_inv sha js (re_database r')"
      by (rule db_inv_evidence [OF inv movesD [OF assms(1) run] carriesD [OF carries_keeps [OF assms(2)] db_invD(1) [OF inv] run]])
  qed
  have "evidence_only db db' \<Longrightarrow> live_inv sha' fs D db \<Longrightarrow> live_inv sha' fs D db'" for db db'
    using same_artifacts_live unfolding evidence_only_def by blast
  then show "carries (live_inv sha' fs D) m"
    using movesD [OF assms(1)] unfolding carries_def by blast
qed

lemmas evidence_moves = evidence.moves_pure evidence.moves_and_then evidence.moves_each evidence_statements

lemma evidence_steps:
  "moves evidence_only (insert_retirement_run commit)"
  "moves evidence_only (insert_retirement_post_state sha js commit)"
  "moves evidence_only (persist_retirement_decisions commit)"
  "moves evidence_only (insert_receipt js commit)"
  "moves evidence_only (complete_run commit)"
  unfolding insert_retirement_run_def insert_retirement_post_state_def persist_retirement_decisions_def persist_decision_def
    insert_receipt_def complete_run_def execute_exactly_def
  by (intro evidence_moves evidence.moves_if)+

lemma evidence_schema:
  "keeps_db (schema_ok js) (insert_retirement_run commit)"
  "keeps_db (schema_ok js) (insert_retirement_post_state sha js commit)"
  "keeps_db (schema_ok js) (persist_retirement_decisions commit)"
  "keeps_db (schema_ok js) (insert_receipt js commit)"
  "keeps_db (schema_ok js) (complete_run commit)"
  unfolding insert_retirement_run_def insert_retirement_post_state_def persist_retirement_decisions_def persist_decision_def
    insert_receipt_def complete_run_def execute_exactly_def
  by (intro keeps_rules schema_keeps)+

lemmas evidence_inv = evidence_carries [OF evidence_steps(1) evidence_schema(1)] evidence_carries [OF evidence_steps(2) evidence_schema(2)]
  evidence_carries [OF evidence_steps(3) evidence_schema(3)]

section \<open>Semantic outputs\<close>

lemma insert_semantic_inv:
  assumes "typed_atom sha js semantic"
  shows "carries (db_inv sha js) (insert_semantic_output sha js commit semantic)"
    "carries (live_inv sha' fs D) (insert_semantic_output sha js commit semantic)"
proof -
  obtain body state where core: "from_core sha js body state = Inr semantic" "am_content_status semantic \<noteq> ''forgotten''"
    using assms by (auto simp: typed_atom_def)
  show "carries (db_inv sha js) (insert_semantic_output sha js commit semantic)"
    unfolding insert_semantic_output_def
    by (intro carries_if carries_and_then_pure carries_basic carries_put_links [OF core] insert_links_inv) simp
  show "carries (live_inv sha' fs D) (insert_semantic_output sha js commit semantic)"
    unfolding insert_semantic_output_def
    by (intro carries_if carries_and_then_pure carries_basic carries_and_then put_atom_live insert_links_live) simp
qed

section \<open>Between two states\<close>

text \<open>The part of an atom's well-formedness that does not depend on its state and content.\<close>

definition header_ok :: "(byte list \<Rightarrow> Digest32) \<Rightarrow> Database \<Rightarrow> Digest32 \<Rightarrow> header_row \<Rightarrow> bool" where
  "header_ok sha db atom h \<longleftrightarrow> hr_body_digest h = atom \<and>
     (\<exists>p. fmlookup (db_provenance db) atom = Some p \<and> hr_provenance_digest h = pw_provenance_digest p \<and>
        hash_prefixed sha PROVENANCE_HASH_DOMAIN (pw_canonical_provenance p) = pw_provenance_digest p)"

definition is_forgotten :: "Database \<Rightarrow> Digest32 \<Rightarrow> bool" where
  "is_forgotten db atom \<longleftrightarrow> status_of db atom = Some ''forgotten''"

lemma atom_ok_iff: "atom_ok sha db atom h \<longleftrightarrow> header_ok sha db atom h \<and> (if is_forgotten db atom then erased db atom else body_ok sha db atom h)"
  by (auto simp: atom_ok_def header_ok_def is_forgotten_def)

definition in_run :: "Database \<Rightarrow> Digest32 \<Rightarrow> Digest32 \<Rightarrow> bool" where
  "in_run db run atom \<longleftrightarrow> (run, atom) |\<in>| fmdom (db_decisions db)"

text \<open>
  While the decisions of \<open>run\<close> are applied: a decided atom that is not to be forgotten, and is not
  forgotten, still has its body, and nothing is known of the others in the run.
\<close>

definition atom_pending :: "(byte list \<Rightarrow> Digest32) \<Rightarrow> Digest32 \<Rightarrow> Database \<Rightarrow> Digest32 \<Rightarrow> header_row \<Rightarrow> bool" where
  "atom_pending sha run db atom h \<longleftrightarrow> header_ok sha db atom h \<and>
     (if in_run db run atom then decided db run FORGOTTEN_NAMES atom \<or> is_forgotten db atom \<or> body_ok sha db atom h
      else if is_forgotten db atom then erased db atom else body_ok sha db atom h)"

definition pending :: "(byte list \<Rightarrow> Digest32) \<Rightarrow> json_codec \<Rightarrow> Digest32 \<Rightarrow> Database \<Rightarrow> bool" where
  "pending sha js run db \<longleftrightarrow> schema_ok js db \<and> drafts_wf sha db \<and> counters_ok db \<and> spaces_ok db \<and>
     (\<forall>atom h. fmlookup (db_headers db) atom = Some h \<longrightarrow> atom_pending sha run db atom h) \<and>
     (\<forall>d atom role. (d, atom, role) |\<in>| fmdom (db_artifact_refs db) \<longrightarrow> in_run db run atom \<or> kept db atom)"

lemma pending_start: "db_inv sha js db \<Longrightarrow> pending sha js run db"
  by (auto simp: pending_def db_inv_def atoms_wf_def atom_ok_iff atom_pending_def refs_ok_def split: if_splits)

lemma decided_in_run: "decided db run names atom \<Longrightarrow> in_run db run atom"
  by (auto simp: decided_def in_run_def fmlookup_dom_iff split: option.splits)

text \<open>The check of the run settles every decided atom.\<close>

lemma pending_end:
  assumes pending: "pending sha js run db" and verify: "verify_persisted_core_receipt sha' js run expected_plan db = Inr receipt"
  shows "db_inv sha js db"
proof -
  have decided: "if is_forgotten db atom then content_gone db atom else \<not> decided db run FORGOTTEN_NAMES atom \<and> kept db atom"
    if decided: "in_run db run atom" for atom
  proof -
    obtain row where row: "fmlookup (db_decisions db) (run, atom) = Some row" using decided by (auto simp: in_run_def fmlookup_dom_iff)
    from verified_decision [OF verify row] names_distinct show ?thesis
      by (auto simp: settled_def is_forgotten_def status_of_def kept_def decided_def row)
  qed
  have "atoms_wf sha db"
    unfolding atoms_wf_def atom_ok_iff
  proof (intro allI impI conjI)
    fix atom h assume "fmlookup (db_headers db) atom = Some h"
    then have h: "atom_pending sha run db atom h" using pending by (simp add: pending_def)
    then show "header_ok sha db atom h" by (simp add: atom_pending_def)
    show "if is_forgotten db atom then erased db atom else body_ok sha db atom h"
      using h decided [of atom] by (auto simp: atom_pending_def content_gone_def erased_def split: if_splits)
  qed
  moreover have "refs_ok db"
    unfolding refs_ok_def
  proof (intro allI impI)
    fix d atom role assume ref: "(d, atom, role) |\<in>| fmdom (db_artifact_refs db)"
    then have "in_run db run atom \<or> kept db atom" using pending unfolding pending_def by blast
    then show "kept db atom" using decided [of atom] ref by (auto simp: content_gone_def split: if_splits)
  qed
  ultimately show ?thesis using pending by (simp add: pending_def db_inv_def)
qed

section \<open>Applying the decisions\<close>

text \<open>A change of the states of decided atoms that are short-term keeps their counters.\<close>

lemma update_states_pending:
  assumes hit: "\<And>db atom s. p db atom s \<Longrightarrow> in_run db run atom \<and> short_term s"
    and counters: "\<And>s. sr_feedback_positive (f s) = sr_feedback_positive s \<and> sr_feedback_negative (f s) = sr_feedback_negative s"
  shows "carries (pending sha js run) (execute (\<lambda>db. update_where states_table (p db) f db))"
proof (rule carriesI)
  fix r r' n assume pending: "pending sha js run (re_database r)"
    and exec: "execute (\<lambda>db. update_where states_table (p db) f db) r = (Inr n, r')"
  let ?db = "re_database r"
  have run: "update_where states_table (p ?db) f ?db = Inr (re_database r', n)" using exec by (auto simp: execute_Inr)
  then have db': "re_database r' = ?db\<lparr>db_states := fmmap_keys (\<lambda>k v. if p ?db k v then f v else v) (db_states ?db)\<rparr>"
    by (auto simp: states_tab.update_where_Inr simp del: table_checks)
  have schema: "schema_ok js (re_database r')"
  proof (rule carriesD [OF carries_keeps [OF states_tab.keeps_update_where]])
    show "schema_ok js ?db" using pending by (simp add: pending_def)
    show "execute (update_where states_table (p ?db) f) r = (Inr n, r')" using exec by (simp add: execute_def)
  qed
  have in_run: "in_run (re_database r') run = in_run ?db run" "decided (re_database r') run = decided ?db run"
    by (simp_all add: in_run_def decided_def db' fun_eq_iff)
  have same: "header_ok sha (re_database r') = header_ok sha ?db" "body_ok sha (re_database r') = body_ok sha ?db"
    "erased (re_database r') = erased ?db"
    by (simp_all add: header_ok_def body_ok_def erased_def db' fun_eq_iff)
  have status: "status_of (re_database r') atom = status_of ?db atom" if "\<not> in_run ?db run atom" for atom
    using that hit by (auto simp: status_of_def db' option.map_comp comp_def split: option.splits intro!: option.map_cong)
  have hidden: "\<not> is_forgotten ?db atom" if changed: "is_forgotten (re_database r') atom \<noteq> is_forgotten ?db atom" for atom
  proof (cases "fmlookup (db_states ?db) atom")
    case (Some s)
    then have "p ?db atom s" using changed by (cases "p ?db atom s") (simp_all add: is_forgotten_def status_of_def db')
    then show ?thesis using hit Some by (fastforce simp: is_forgotten_def status_of_def short_term_def)
  qed (simp add: is_forgotten_def status_of_def)
  have "atom_pending sha run (re_database r') atom h" if "atom_pending sha run ?db atom h" for atom h
  proof -
    have "is_forgotten (re_database r') atom = is_forgotten ?db atom" if "\<not> in_run ?db run atom"
      using status [OF that] by (simp add: is_forgotten_def)
    then show ?thesis using that hidden [of atom] unfolding atom_pending_def in_run same by (auto split: if_splits)
  qed
  moreover have "kept (re_database r') atom" if "\<not> in_run ?db run atom" "kept ?db atom" for atom
    using that status [of atom] by (simp add: kept_def)
  moreover have "counters_ok (re_database r')"
    using pending counters unfolding pending_def counters_ok_def feedback_of_def has_header_def db' by auto
  ultimately show "pending sha js run (re_database r')"
    using pending schema unfolding pending_def in_run
    by (simp add: db' drafts_wf_def spaces_ok_def space_of_def) blast
qed

lemma decide_states:
  "retain_exact run = (\<lambda>db. update_where states_table (\<lambda>atom s. decided db run WINNER_NAMES atom \<and> short_term s)
     (\<lambda>s. s\<lparr>sr_retention_tier := ''ltm_episodic'', sr_content_status := ''present'', sr_expires_at_us := None,
       sr_retirement_run_id := Some run\<rparr>) db)"
  "mark_forgotten run = (\<lambda>db. update_where states_table (\<lambda>atom s. decided db run FORGOTTEN_NAMES atom \<and> short_term s)
     (\<lambda>s. s\<lparr>sr_retention_tier := ''forgotten'', sr_content_status := ''forgotten'', sr_expires_at_us := None,
       sr_retirement_run_id := Some run\<rparr>) db)"
  "bind_unchanged run = (\<lambda>db. update_where states_table (\<lambda>atom s. decided db run [''unchanged''] atom \<and> short_term s)
     (\<lambda>s. s\<lparr>sr_retirement_run_id := Some run\<rparr>) db)"
  by (simp_all add: retain_exact_def mark_forgotten_def bind_unchanged_def fun_eq_iff)

lemma states_pending:
  "carries (pending sha js run) (execute (retain_exact run))"
  "carries (pending sha js run) (execute (mark_forgotten run))"
  "carries (pending sha js run) (execute (bind_unchanged run))"
  unfolding decide_states by (rule update_states_pending; auto dest: decided_in_run)+

text \<open>Only the content of atoms to be forgotten is deleted.\<close>

lemma drop_content_pending:
  assumes pending: "pending sha js run db" and schema: "schema_ok js db'"
    and db': "db' = db\<lparr>db_bodies := bs, db_projections := ps\<rparr>"
    and same: "\<And>atom. \<not> decided db run FORGOTTEN_NAMES atom \<Longrightarrow>
      fmlookup bs atom = fmlookup (db_bodies db) atom \<and> fmlookup ps atom = fmlookup (db_projections db) atom"
  shows "pending sha js run db'"
proof -
  have in_run: "in_run db' run = in_run db run" "decided db' run = decided db run"
    by (simp_all add: in_run_def decided_def db' fun_eq_iff)
  have states: "header_ok sha db' = header_ok sha db" "is_forgotten db' = is_forgotten db" "kept db' = kept db"
    by (simp_all add: header_ok_def is_forgotten_def status_of_def kept_def db' fun_eq_iff)
  have "atom_pending sha run db' atom h" if "atom_pending sha run db atom h" for atom h
  proof (cases "decided db run FORGOTTEN_NAMES atom")
    case True
    then show ?thesis using that decided_in_run [OF True] by (simp add: atom_pending_def in_run states)
  next
    case False
    then have "body_ok sha db' atom h = body_ok sha db atom h" "erased db' atom = erased db atom"
      using same [OF False] by (simp_all add: body_ok_def erased_def db')
    then show ?thesis using that by (simp add: atom_pending_def in_run states)
  qed
  then show ?thesis
    using pending schema unfolding pending_def in_run states
    by (simp add: db' drafts_wf_def spaces_ok_def space_of_def counters_ok_def feedback_of_def has_header_def)
qed

lemma delete_content_pending:
  "carries (pending sha js run) (execute (delete_forgotten_bodies js run))"
  "carries (pending sha js run) (execute (delete_forgotten_projections js run))"
proof -
  have eq: "delete_forgotten_bodies js run db = delete_where (bodies_table js) (\<lambda>atom _. decided db run FORGOTTEN_NAMES atom) db"
    "delete_forgotten_projections js run db = delete_where (projections_table js) (\<lambda>atom _. decided db run FORGOTTEN_NAMES atom) db" for db
    by (simp_all add: delete_forgotten_bodies_def delete_forgotten_projections_def)
  show "carries (pending sha js run) (execute (delete_forgotten_bodies js run))"
  proof (rule carriesI)
    fix r r' n assume pending: "pending sha js run (re_database r)"
      and exec: "execute (delete_forgotten_bodies js run) r = (Inr n, r')"
    let ?del = "delete_where (bodies_table js) (\<lambda>atom _. decided (re_database r) run FORGOTTEN_NAMES atom)"
    have ok: "schema_ok js (re_database r)" using pending by (simp add: pending_def)
    have del: "?del (re_database r) = Inr (re_database r', n)" "execute ?del r = (Inr n, r')"
      using exec by (auto simp: execute_def eq split: sum.splits)
    show "pending sha js run (re_database r')"
      by (rule drop_content_pending [OF pending carriesD [OF carries_keeps [OF bodies_tab.keeps_delete_where] ok del(2)],
            where bs = "db_bodies (re_database r')" and ps = "db_projections (re_database r)"])
        (use del(1) bodies_tab.delete_where_lookup [OF del(1)] in \<open>auto simp: bodies_tab.delete_where_Inr split: option.splits\<close>)
  qed
  show "carries (pending sha js run) (execute (delete_forgotten_projections js run))"
  proof (rule carriesI)
    fix r r' n assume pending: "pending sha js run (re_database r)"
      and exec: "execute (delete_forgotten_projections js run) r = (Inr n, r')"
    let ?del = "delete_where (projections_table js) (\<lambda>atom _. decided (re_database r) run FORGOTTEN_NAMES atom)"
    have ok: "schema_ok js (re_database r)" using pending by (simp add: pending_def)
    have del: "?del (re_database r) = Inr (re_database r', n)" "execute ?del r = (Inr n, r')"
      using exec by (auto simp: execute_def eq split: sum.splits)
    show "pending sha js run (re_database r')"
      by (rule drop_content_pending [OF pending carriesD [OF carries_keeps [OF projections_tab.keeps_delete_where] ok del(2)],
            where bs = "db_bodies (re_database r)" and ps = "db_projections (re_database r')"])
        (use del(1) projections_tab.delete_where_lookup [OF del(1)] in \<open>auto simp: projections_tab.delete_where_Inr split: option.splits\<close>)
  qed
qed

text \<open>The statements after the deletions leave atoms and decisions alone, and no link is added.\<close>

definition settling :: "Database \<Rightarrow> Database \<Rightarrow> bool" where
  "settling db db' \<longleftrightarrow> same_core db db' \<and> db_relations db' = db_relations db \<and> db_decisions db' = db_decisions db \<and>
     fmdom (db_artifact_refs db') |\<subseteq>| fmdom (db_artifact_refs db)"

interpretation settling: db_preorder settling
  by unfold_locales (auto simp: settling_def intro: same_core_trans)

lemma settling_statements:
  "moves settling (execute (delete_forgotten_search run))"
  "moves settling (execute (delete_released_refs run))"
  "moves settling (execute (insert_row pins_table k pinned_at))"
  "moves settling (execute (update_row artifacts_table d p f))"
  "moves settling (execute (insert_row (receipts_table js) d w))"
  "moves settling (execute (update_row runs_table run p' f'))"
  by (rule settling.moves_execute, auto simp: delete_forgotten_search_def delete_released_refs_def Let_def artifact_refs_tab.delete_where_Inr
      pins_tab.insert_row_Inr artifacts_tab.update_row_Inr receipts_tab.insert_row_Inr runs_tab.update_row_Inr settling_def same_core_def
      split: if_splits)+

lemma search_schema: "keeps_db (schema_ok js) (execute (delete_forgotten_search run))"
  by (rule keeps_execute) (auto simp: preserves_def delete_forgotten_search_def Let_def schema_ok_def parents_grow_def intro: table_frames)

lemma released_schema: "keeps_db (schema_ok js) (execute (delete_released_refs run))"
  using artifact_refs_tab.keeps_delete_where unfolding keeps_def execute_def delete_released_refs_def by blast

lemma pending_settling:
  assumes "pending sha js run db" "settling db db'" "schema_ok js db'"
  shows "pending sha js run db'"
proof -
  have core: "same_core db db'" and decisions: "db_decisions db' = db_decisions db" and relations: "db_relations db' = db_relations db"
    and refs: "fmdom (db_artifact_refs db') |\<subseteq>| fmdom (db_artifact_refs db)" using assms(2) by (simp_all add: settling_def)
  have same: "in_run db' = in_run db" "decided db' = decided db" "is_forgotten db' = is_forgotten db"
    "erased db' = erased db" "body_ok sha db' = body_ok sha db" "header_ok sha db' = header_ok sha db"
    using core decisions
    by (simp_all add: same_core_def in_run_def decided_def is_forgotten_def status_of_def erased_def body_ok_def header_ok_def fun_eq_iff)
  have "atom_pending sha run db' = atom_pending sha run db" by (simp add: atom_pending_def same fun_eq_iff)
  then show ?thesis
    using assms(1,3) same_core_wf [OF core] same_core_spaces [OF core relations] refs core
    unfolding pending_def same by (simp add: same_core_def) blast
qed

lemma settling_carries:
  assumes "moves settling m" "keeps_db (schema_ok js) m"
  shows "carries (pending sha js run) m"
proof (rule carriesI)
  fix r x r' assume pending: "pending sha js run (re_database r)" and run: "m r = (Inr x, r')"
  then have "schema_ok js (re_database r)" by (simp add: pending_def)
  from carriesD [OF carries_keeps [OF assms(2)] this run] show "pending sha js run (re_database r')"
    by (rule pending_settling [OF pending movesD [OF assms(1) run]])
qed

lemma apply_decisions_pending: "carries (pending sha js (rm_run_id commit)) (apply_decisions_set_based js commit observer)"
  unfolding apply_decisions_set_based_def Let_def execute_exactly_def
  by (intro carries_rules states_pending delete_content_pending settling_carries settling_statements search_schema released_schema)

lemma insert_pins_settling: "moves settling (insert_pins commit)" "keeps_db (schema_ok js) (insert_pins commit)"
  unfolding insert_pins_def insert_pin_def execute_exactly_def clear_gc_mark_def
  by (intro settling.moves_pure settling.moves_and_then settling.moves_each settling_statements keeps_rules schema_keeps)+

lemma completion_settling: "moves settling (insert_receipt js commit)" "moves settling (complete_run commit)"
  unfolding insert_receipt_def complete_run_def execute_exactly_def
  by (intro settling.moves_pure settling.moves_and_then settling_statements)+

text \<open>Every artifact that the run uses is live.\<close>

lemma decisions_same_artifacts:
  "moves same_artifacts (execute (retain_exact run))" "moves same_artifacts (execute (mark_forgotten run))"
  "moves same_artifacts (execute (bind_unchanged run))" "moves same_artifacts (execute (delete_forgotten_bodies js run))"
  "moves same_artifacts (execute (delete_forgotten_projections js run))" "moves same_artifacts (execute (delete_forgotten_search run))"
  by (rule artifact_frame.moves_execute, auto simp: retain_exact_def mark_forgotten_def bind_unchanged_def delete_forgotten_bodies_def
      delete_forgotten_projections_def delete_forgotten_search_def Let_def states_tab.update_where_Inr bodies_tab.delete_where_Inr
      projections_tab.delete_where_Inr same_artifacts_def simp del: table_checks)+

lemma released_live: "carries (live_inv sha fs D) (execute (delete_released_refs run))"
proof (rule carriesI)
  fix r r' n assume live: "live_inv sha fs D (re_database r)" and exec: "execute (delete_released_refs run) r = (Inr n, r')"
  have r': "fmdom (db_artifact_refs (re_database r')) |\<subseteq>| fmdom (db_artifact_refs (re_database r))"
    "db_artifacts (re_database r') = db_artifacts (re_database r)" "db_artifact_pins (re_database r') = db_artifact_pins (re_database r)"
    using exec by (auto simp: execute_Inr delete_released_refs_def artifact_refs_tab.delete_where_Inr)
  have "used (re_database r') d \<Longrightarrow> used (re_database r) d" for d
    using r'(1) unfolding used_def referenced_def pinned_def r'(3) by blast
  then show "live_inv sha fs D (re_database r')" using live by (auto simp: live_inv_def live_def r'(2))
qed

lemma insert_pin_live:
  assumes "ap_artifact_digest pin \<in> D"
  shows "carries (live_inv sha fs D) (insert_pin commit pinned_at pin)"
proof -
  have "carries (live_inv sha fs D) (execute (insert_row pins_table (ap_artifact_digest pin, k) pinned_at))" for k
  proof (rule carriesI)
    fix r r' n assume live: "live_inv sha fs D (re_database r)"
      and exec: "execute (insert_row pins_table (ap_artifact_digest pin, k) pinned_at) r = (Inr n, r')"
    have r': "re_database r' = (re_database r)\<lparr>db_artifact_pins :=
        fmupd (ap_artifact_digest pin, k) pinned_at (db_artifact_pins (re_database r))\<rparr>"
      using exec by (auto simp: execute_Inr pins_tab.insert_row_Inr simp del: table_checks)
    have "used (re_database r') d \<Longrightarrow> used (re_database r) d \<or> d = ap_artifact_digest pin" for d
      unfolding r' used_def referenced_def pinned_def by auto
    then show "live_inv sha fs D (re_database r')" using live assms by (auto simp: live_inv_def live_def r')
  qed
  then show ?thesis
    unfolding insert_pin_def execute_exactly_def by (intro carries_rules clear_mark_live)
qed

lemma insert_pins_live:
  assumes "ap_artifact_digest ` set (rm_artifact_pins commit) \<subseteq> D"
  shows "carries (live_inv sha fs D) (insert_pins commit)"
  unfolding insert_pins_def using assms by (intro carries_rules insert_pin_live) auto

lemma apply_decisions_live: "carries (live_inv sha fs D) (apply_decisions_set_based js commit observer)"
  unfolding apply_decisions_set_based_def Let_def execute_exactly_def
  by (intro carries_rules carries_same_artifacts decisions_same_artifacts released_live)

section \<open>The transaction\<close>

lemma leads_step: "carries P m \<Longrightarrow> (\<And>x. leads P Q (f x)) \<Longrightarrow> leads P Q (and_then m f)"
  by (rule leads_and_then [OF leads_carries])

lemma leads_assuming: "leads P Q m \<Longrightarrow> (\<And>db. P' db \<Longrightarrow> P db) \<Longrightarrow> leads P' Q m"
  unfolding leads_def by blast

lemma verify_leads:
  "leads (pending sha js run) (db_inv sha js) (and_then (select (verify_persisted_core_receipt sha' js run expected_plan)) (\<lambda>_. pure m))"
  by (rule leadsI) (auto simp: select_def intro: pending_end split: sum.splits)

lemma write_run_inv:
  assumes "\<forall>semantic \<in> set (rm_semantic_atoms commit). typed_atom sha js semantic"
  shows "carries (db_inv sha js) (write_run sha js commit observer)"
proof (rule carries_leads)
  have tail: "leads (db_inv sha js) (db_inv sha js) (and_then (apply_decisions_set_based js commit observer) (\<lambda>_.
     and_then (insert_pins commit) (\<lambda>_. and_then (pure (observer RetirementAfterArtifactPins)) (\<lambda>_.
     and_then (insert_receipt js commit) (\<lambda>_. and_then (pure (observer RetirementAfterReceiptInsertion)) (\<lambda>_.
     and_then (complete_run commit) (\<lambda>_. and_then (pure (observer RetirementAfterRunCompletion)) (\<lambda>_.
     and_then (select (verify_persisted_core_receipt sha js (rm_run_id commit) None)) (\<lambda>_. pure (observer RetirementBeforeCommit))))))))))"
    by (rule leads_assuming [where P = "pending sha js (rm_run_id commit)", OF _ pending_start])
      (intro verify_leads leads_step [OF apply_decisions_pending] leads_step [OF settling_carries [OF insert_pins_settling]]
        leads_step [OF settling_carries [OF completion_settling(1) evidence_schema(4)]]
        leads_step [OF settling_carries [OF completion_settling(2) evidence_schema(5)]] leads_step [OF carries_basic(1)])
  show "leads (db_inv sha js) (db_inv sha js) (write_run sha js commit observer)"
    unfolding write_run_def
    by (intro leads_step tail carries_basic evidence_inv carries_each insert_semantic_inv) (use assms in blast)
qed

lemma write_run_live:
  assumes "\<forall>semantic \<in> set (rm_semantic_atoms commit). typed_atom sha js semantic"
    "ap_artifact_digest ` set (rm_artifact_pins commit) \<subseteq> D"
  shows "carries (live_inv sha' fs D) (write_run sha js commit observer)"
  unfolding write_run_def
  using assms(1) by (intro carries_rules evidence_inv insert_semantic_inv apply_decisions_live insert_pins_live [OF assms(2)]
      evidence_carries(2) [OF evidence_steps(4) evidence_schema(4)] evidence_carries(2) [OF evidence_steps(5) evidence_schema(5)]) blast

lemma write_run_tables: "tables_only (write_run sha js commit observer)"
  unfolding write_run_def insert_retirement_run_def insert_retirement_post_state_def insert_semantic_output_def
    persist_retirement_decisions_def persist_decision_def apply_decisions_set_based_def insert_pins_def insert_pin_def
    insert_receipt_def complete_run_def execute_exactly_def Let_def
  by (intro tables_rules tables_only_put_atom tables_only_links)

text \<open>Before the first statement the transaction only reads.\<close>

lemma apply_retirement_cases:
  assumes "apply_retirement_observed sha js commit observer r = (x, r')"
  obtains e where "x = Inl e" "r' = r"
  | "x = Inr AlreadyApplied" "r' = r" "existing_run sha js commit (re_database r) = Inr True"
  | current where "validate_retirement_commit sha js commit = Inr ()" "existing_run sha js commit (re_database r) = Inr False"
      "cohort_still_open commit (re_database r) = Inr ()" "current_snapshot sha commit (re_database r) = Inr current"
      "validate_decision_closure current commit = Inr ()" "validate_pins sha current commit r = Inr ()"
      "x = Inr Applied" "write_run sha js commit observer r = (Inr (), r')"
proof (cases x)
  case (Inl e)
  have tables: "tables_only (apply_retirement_observed sha js commit observer)"
    unfolding apply_retirement_observed_def by (intro tables_rules tables_only_transaction write_run_tables)
  have "re_database r' = re_database r"
    using assms Inl by (auto simp: apply_retirement_observed_def and_then_Inl transaction_def split: prod.splits sum.splits)
  moreover have "re_artifacts r' = re_artifacts r" using tables assms unfolding tables_only_def by (metis snd_conv)
  ultimately show ?thesis using that(1) [OF Inl] by simp
next
  case (Inr y)
  then show ?thesis
    using assms that(2,3) by (auto simp: apply_retirement_observed_def and_then_Inr transaction_Inr split: if_splits sum.splits)
qed

lemma allowed_referenced: "d |\<in>| retention_allowed_digests db atom \<Longrightarrow> referenced db d"
  by (force simp: retention_allowed_digests_def referenced_def)

lemma validate_pin_fold:
  "try_fold (validate_pin sha r winners) seen pins = Inr seen' \<Longrightarrow> pin \<in> set pins \<Longrightarrow>
   ap_artifact_digest pin |\<in>| retention_allowed_digests (re_database r) (ap_atom_id pin) \<and> ap_atom_id pin |\<in>| winners"
proof (induction pins arbitrary: seen)
  case (Cons p pins)
  obtain a b where seen: "seen = (a, b)" by fastforce
  obtain seen1 where step: "validate_pin sha r winners seen p = Inr seen1" "try_fold (validate_pin sha r winners) seen1 pins = Inr seen'"
    using Cons.prems(1) by (auto simp: bindr_Inr)
  show ?case
  proof (cases "pin = p")
    case True
    then show ?thesis using step(1) by (auto simp: seen validate_pin_def split: if_splits)
  next
    case False
    then show ?thesis using Cons.IH [OF step(2)] Cons.prems(2) by simp
  qed
qed simp

lemma validate_pins_allowed:
  assumes "validate_pins sha current commit r = Inr u" "pin \<in> set (rm_artifact_pins commit)"
  shows "ap_artifact_digest pin |\<in>| retention_allowed_digests (re_database r) (ap_atom_id pin)"
    "ap_atom_id pin |\<in>| winner_set commit"
proof -
  obtain seen where "try_fold (validate_pin sha r (winner_set commit)) ({||}, {||}) (rm_artifact_pins commit) = Inr seen"
    using assms(1) unfolding validate_pins_def Let_def if_Inl_Inr bindr_Inr by blast
  from validate_pin_fold [OF this assms(2)] show
    "ap_artifact_digest pin |\<in>| retention_allowed_digests (re_database r) (ap_atom_id pin)" "ap_atom_id pin |\<in>| winner_set commit" by simp_all
qed

text \<open>A commit is typed if its semantic atoms come from bodies of the core.\<close>

lemma apply_retirement_inv:
  assumes typed: "\<forall>semantic \<in> set (rm_semantic_atoms commit). typed_atom sha js semantic" and inv: "repo_inv sha js r"
    and run: "apply_retirement_observed sha js commit observer r = (x, r')"
  shows "repo_inv sha js r'"
proof (rule apply_retirement_cases [OF run])
  fix current assume pins: "validate_pins sha current commit r = Inr ()" and written: "write_run sha js commit observer r = (Inr (), r')"
  let ?D = "ap_artifact_digest ` set (rm_artifact_pins commit)"
  have "live sha (as_files (re_artifacts r)) (re_database r) d" if "d \<in> ?D" for d
  proof -
    have "used (re_database r) d" using that validate_pins_allowed(1) [OF pins] allowed_referenced by (auto simp: used_def)
    then show ?thesis using repo_invD(4) [OF inv] by (simp add: live_inv_def)
  qed
  from transaction_repo_inv [OF inv write_run_tables write_run_inv [OF typed] write_run_live [OF typed subset_refl] this]
  have "repo_inv sha js (snd (transaction (write_run sha js commit observer) r))" .
  then show ?thesis using written transaction_Inr [of "write_run sha js commit observer" r "()" r'] by simp
qed (use inv in simp_all)

section \<open>Plans\<close>

lemma build_core_commit_Inr:
  assumes "build_core_commit sha js plan receipt local = Inr commit"
  shows "\<forall>semantic \<in> set (rm_semantic_atoms commit). typed_atom sha js semantic" "rm_run_id commit = rp_run_id receipt"
    "plan_digest sha plan = Inr (rm_plan_digest commit)" "rm_key commit = cn_key local"
    "map pd_atom_id (rm_decisions commit) = map (atom_digest \<circ> rd_atom_id) (pn_decisions plan)"
    "map pd_decision (rm_decisions commit) = map decision_name (pn_decisions plan)"
    "traverse (semantic_record sha js) (pn_semantic_atoms plan) = Inr (rm_semantic_atoms commit)"
    "rm_projected_state_digest commit = pn_projected_state_digest plan"
proof -
  obtain decisions where decisions: "traverse (build_decision sha (fmap_of_list (rev (map (\<lambda>atom. (sm_atom_id atom, sm_state_digest atom)) (cn_atoms local)))))
      (pn_decisions plan) = Inr decisions" "rm_decisions commit = decisions"
    and semantic: "traverse (semantic_record sha js) (pn_semantic_atoms plan) = Inr (rm_semantic_atoms commit)"
    and rest: "rm_run_id commit = rp_run_id receipt" "plan_digest sha plan = Inr (rm_plan_digest commit)" "rm_key commit = cn_key local"
      "rm_projected_state_digest commit = pn_projected_state_digest plan"
    using assms by (auto simp: build_core_commit_def Let_def bindr_Inr core_Inr)
  show "rm_run_id commit = rp_run_id receipt" "plan_digest sha plan = Inr (rm_plan_digest commit)" "rm_key commit = cn_key local"
    "rm_projected_state_digest commit = pn_projected_state_digest plan" by (fact rest)+
  show "traverse (semantic_record sha js) (pn_semantic_atoms plan) = Inr (rm_semantic_atoms commit)" by (fact semantic)
  have "semantic_record sha js p = Inr atom \<Longrightarrow> typed_atom sha js atom" for p atom
    by (auto simp: semantic_record_def typed_atom_def) (auto simp: from_core_def bindr_Inr semantic_state_def)
  then show "\<forall>semantic \<in> set (rm_semantic_atoms commit). typed_atom sha js semantic"
    using semantic unfolding traverse_Inr_list_all2 list_all2_conv_all_nth by (metis in_set_conv_nth)
  have "list_all2 (\<lambda>d pd. pd_atom_id pd = atom_digest (rd_atom_id d) \<and> pd_decision pd = decision_name d) (pn_decisions plan) decisions"
    using decisions(1) unfolding traverse_Inr_list_all2
    by (rule list_all2_mono) (auto simp: build_decision_def bindr_Inr)
  then show "map pd_atom_id (rm_decisions commit) = map (atom_digest \<circ> rd_atom_id) (pn_decisions plan)"
    "map pd_decision (rm_decisions commit) = map decision_name (pn_decisions plan)"
    unfolding decisions(2) by (auto simp: list_all2_conv_all_nth intro!: nth_equalityI)
qed

lemma prior_outcome_Some: "prior_outcome sha js plan db = Inr (Some out) \<Longrightarrow> out = outcome_from_plan plan True"
  by (auto simp: prior_outcome_def bindr_Inr split: option.splits if_splits)

lemma prior_outcome_None:
  assumes "prior_outcome sha js plan db = Inr None"
  obtains digest where "plan_digest sha plan = Inr digest" "\<And>id run. fmlookup (db_runs db) id = Some run \<Longrightarrow> ru_plan_digest run \<noteq> digest"
    "unat (pn_cohort_day plan) < 2 ^ 63" "\<not> cohort_retired (pn_memory_space_id plan) (int (unat (pn_cohort_day plan))) db"
proof -
  obtain digest where digest: "plan_digest sha plan = Inr digest" using assms by (auto simp: prior_outcome_def bindr_Inr core_Inr)
  let ?find = "List.find (\<lambda>(_, run). ru_plan_digest run = digest) (sorted_list_of_fmap (db_runs db))"
  have none: "?find = None"
    using assms digest by (cases ?find) (auto simp: prior_outcome_def bindr_Inr split: if_splits)
  then have day: "unat (pn_cohort_day plan) < 2 ^ 63" "\<not> cohort_retired (pn_memory_space_id plan) (int (unat (pn_cohort_day plan))) db"
    using assms digest by (auto simp: prior_outcome_def bindr_Inr sqlite_integer_Inr simp del: of_nat_unat split: if_splits)
  have "ru_plan_digest run \<noteq> digest" if "fmlookup (db_runs db) id = Some run" for id run
    using none that unfolding find_None_iff by (auto simp: set_sorted_list_of_fmap)
  with digest day show ?thesis using that by blast
qed

lemma apply_core_plan_cases:
  assumes "apply_core_plan_observed sha chacha js plan observer r = Some (x, r')"
  obtains (failed) e where "x = Inl e" "r' = r"
  | (replayed) "x = Inr (outcome_from_plan plan True)" "r' = r" "prior_outcome sha js plan (re_database r) = Inr (Some (outcome_from_plan plan True))"
  | (applied) local core_snapshot receipt commit where "x = Inr (outcome_from_plan plan False)"
      "prior_outcome sha js plan (re_database r) = Inr None" "observed_cohort sha js plan r = Inr (local, core_snapshot)"
      "plan_retirement sha chacha core_snapshot poc_v1 (pn_seed plan) = Some (Inr plan)"
      "fst (apply_retirement sha expected_outcome_repository (outcome_from_plan plan False) plan) = Inr receipt"
      "build_core_commit sha js plan receipt local = Inr commit"
      "apply_retirement_observed sha js commit observer r = (Inr Applied, r')"
proof (cases "prior_outcome sha js plan (re_database r)")
  case (Inl e)
  then show ?thesis using assms failed [of e] by (auto simp: apply_core_plan_observed_def)
next
  case (Inr prior)
  note prior = this
  show ?thesis
  proof (cases prior)
    case (Some out)
    then have out: "out = outcome_from_plan plan True" using prior prior_outcome_Some by blast
    have "x = Inr out" "r' = r" using assms prior Some by (auto simp: apply_core_plan_observed_def)
    then show ?thesis using replayed prior Some out by simp
  next
    case None
    then have none: "prior_outcome sha js plan (re_database r) = Inr None" using prior by simp
    show ?thesis
    proof (cases x)
      case (Inl e)
      have "r' = r" if "commit_plan sha js plan local expected_plan observer r = (Inl e, r')" for local expected_plan
        using that by (auto simp: commit_plan_def Let_def and_then_Inl split: if_splits elim: apply_retirement_cases)
      then have "r' = r"
        using assms none Inl unfolding apply_core_plan_observed_def
        by (simp split: sum.splits prod.splits option.splits fault.splits)
      then show ?thesis using failed Inl by blast
    next
      case (Inr out)
      obtain local core_snapshot expected_plan where cohort: "observed_cohort sha js plan r = Inr (local, core_snapshot)"
        and replan: "plan_retirement sha chacha core_snapshot poc_v1 (pn_seed plan) = Some (Inr expected_plan)"
        and commit: "commit_plan sha js plan local expected_plan observer r = (Inr out, r')"
        using assms none Inr by (auto simp: apply_core_plan_observed_def split: sum.splits option.splits fault.splits)
      obtain receipt commit end_state where plan: "expected_plan = plan"
        and receipt: "fst (apply_retirement sha expected_outcome_repository (outcome_from_plan plan False) plan) = Inr receipt"
        and built: "build_core_commit sha js plan receipt local = Inr commit"
        and run: "apply_retirement_observed sha js commit observer r = (Inr end_state, r')"
        and out: "out = (outcome_from_plan plan False)\<lparr>ao_already_applied := (end_state = AlreadyApplied)\<rparr>"
        using commit by (auto simp: commit_plan_def Let_def and_then_Inr core_Inr split: if_splits)
      have "end_state = Applied"
      proof (rule ccontr)
        assume "end_state \<noteq> Applied"
        then have "existing_run sha js commit (re_database r) = Inr True" by (auto intro: apply_retirement_cases [OF run])
        then obtain old where "fmlookup (db_runs (re_database r)) (rm_run_id commit) = Some old" "ru_plan_digest old = rm_plan_digest commit"
          by (auto simp: existing_run_def split: option.splits if_splits)
        then show False
          using build_core_commit_Inr(3) [OF built] prior_outcome_None [OF none] by (metis sum.inject(2))
      qed
      then have "x = Inr (outcome_from_plan plan False)" using Inr out by (simp add: outcome_from_plan_def)
      then show ?thesis using applied none cohort replan [unfolded plan] receipt built run \<open>end_state = Applied\<close> by blast
    qed
  qed
qed

lemma apply_core_plan_inv:
  assumes "apply_core_plan_observed sha chacha js plan observer r = Some (x, r')" "repo_inv sha js r"
  shows "repo_inv sha js r'"
  using assms(1) by (cases rule: apply_core_plan_cases)
    (use assms(2) apply_retirement_inv build_core_commit_Inr(1) in blast)+

section \<open>History\<close>

lemma decisions_grow:
  "moves db_grows (execute (retain_exact run))" "moves db_grows (execute (mark_forgotten run))"
  "moves db_grows (execute (bind_unchanged run))" "moves db_grows (execute (delete_forgotten_bodies js run))"
  "moves db_grows (execute (delete_forgotten_projections js run))" "moves db_grows (execute (delete_released_refs run))"
  "moves db_grows (execute (delete_forgotten_search run))"
  unfolding retain_exact_def [abs_def] mark_forgotten_def [abs_def] bind_unchanged_def [abs_def] delete_forgotten_bodies_def [abs_def]
    delete_forgotten_projections_def [abs_def] delete_released_refs_def [abs_def]
  by (rule grows.moves_execute, auto simp: states_tab.update_where_Inr bodies_tab.delete_where_Inr projections_tab.delete_where_Inr
      artifact_refs_tab.delete_where_Inr delete_forgotten_search_def Let_def db_grows_def simp del: table_checks)+

lemma complete_run_grows: "moves db_grows (complete_run commit)"
proof -
  have "moves db_grows (execute (update_row runs_table run (\<lambda>row. ru_status row = ''applying'') f))" for run f
    by (rule grows.moves_execute) (auto simp: runs_tab.update_row_Inr db_grows_def split: if_splits)
  then show ?thesis unfolding complete_run_def execute_exactly_def by (intro grows_rules)
qed

lemma write_run_grows: "moves db_grows (write_run sha js commit observer)"
  unfolding write_run_def insert_retirement_run_def insert_retirement_post_state_def insert_semantic_output_def
    persist_retirement_decisions_def persist_decision_def apply_decisions_set_based_def insert_pins_def insert_pin_def
    insert_receipt_def execute_exactly_def clear_gc_mark_def Let_def
  by (intro grows_rules atom_grows decisions_grow complete_run_grows)

lemma apply_core_plan_grows:
  assumes "apply_core_plan_observed sha chacha js plan observer r = Some (x, r')"
  shows "db_grows (re_database r) (re_database r')"
  using assms
proof (cases rule: apply_core_plan_cases)
  case (applied local core_snapshot receipt commit)
  from applied(7) show ?thesis
    by (rule apply_retirement_cases) (auto intro: movesD [OF write_run_grows])
qed simp_all

end
