(* ===== verification/Repository.thy ===== *)
theory Repository
  imports Samples ApplyLaws
begin

text \<open>
  The repository as a state machine: a step is one call of a public operation, with any arguments and
  any outcome.  What holds in every reachable state of the tables and files is stated here, and what
  a call promises to its caller.
\<close>

section \<open>Reachable states\<close>

inductive step ::
  "(byte list \<Rightarrow> Digest32) \<Rightarrow> json_codec \<Rightarrow> (fs \<Rightarrow> path \<Rightarrow> string list) \<Rightarrow> SqliteRepository \<Rightarrow> SqliteRepository \<Rightarrow> bool"
  for sha js ls where
  install_policy: "install_policy sha js policy at r = (x, r') \<Longrightarrow> step sha js ls r r'"
| create_draft: "create_draft draft space repo task agent session at r = (x, r') \<Longrightarrow> step sha js ls r r'"
| append_event: "append_event_observed sha draft event observer r = (x, r') \<Longrightarrow> step sha js ls r r'"
| ingest: "on_store (ingest sha reader) r = (y, r') \<Longrightarrow> step sha js ls r r'"
| register_artifact: "register_artifact sha entry at r = (x, r') \<Longrightarrow> step sha js ls r r'"
| put_core_atom: "put_core_atom sha js body state r = (x, r') \<Longrightarrow> step sha js ls r r'"
| put_core_atoms_batch: "put_core_atoms_batch sha js atoms r = (z, r') \<Longrightarrow> step sha js ls r r'"
| seal_core_draft: "seal_core_draft_observed sha js draft body state observer r = (x, r') \<Longrightarrow> step sha js ls r r'"
| seal_core_draft_chain: "seal_core_draft_chain sha js draft atoms r = (x, r') \<Longrightarrow> step sha js ls r r'"
| add_feedback: "add_feedback f atom as_of positive source evidence r = (b, r') \<Longrightarrow> step sha js ls r r'"
| record_retrievals: "record_retrievals ids r = (x, r') \<Longrightarrow> step sha js ls r r'"
| garbage_collect: "garbage_collect_observed sha ls as_of_us grace dry_run gc_observer r = (w, r') \<Longrightarrow> step sha js ls r r'"
| apply_core_plan: "apply_core_plan_observed sha chacha js plan observer r = Some (out, r') \<Longrightarrow> step sha js ls r r'"

text \<open>A run starts from freshly migrated tables and an opened artifact store.\<close>

inductive reachable ::
  "(byte list \<Rightarrow> Digest32) \<Rightarrow> json_codec \<Rightarrow> (fs \<Rightarrow> path \<Rightarrow> string list) \<Rightarrow> SqliteRepository \<Rightarrow> bool"
  for sha js ls where
  opened: "store_wf sha s \<Longrightarrow> reachable sha js ls \<lparr>re_database = empty_database, re_artifacts = s\<rparr>"
| called: "reachable sha js ls r \<Longrightarrow> step sha js ls r r' \<Longrightarrow> reachable sha js ls r'"

lemmas operations_inv = install_policy_inv create_draft_inv append_event_inv ingest_inv register_artifact_inv
  put_core_atom_inv put_core_atoms_batch_inv seal_core_draft_inv seal_core_draft_chain_inv add_feedback_inv
  record_retrievals_inv garbage_collect_inv

lemma keeps_run: "keeps P m \<Longrightarrow> m s = (x, s') \<Longrightarrow> P s \<Longrightarrow> P s'"
  using keepsD by fastforce

lemma step_repo_inv:
  assumes "lists_dir ls" "step sha js ls r r'" "repo_inv sha js r"
  shows "repo_inv sha js r'"
  using assms(2,3) by cases (auto elim!: keeps_run [rotated] intro: operations_inv assms(1) apply_core_plan_inv)

lemma empty_repo_inv: "store_wf sha s \<Longrightarrow> repo_inv sha js \<lparr>re_database = empty_database, re_artifacts = s\<rparr>"
  by (simp add: repo_inv_def db_inv_def schema_ok_def table_ok_def drafts_wf_def counters_ok_def feedback_of_def atoms_wf_def
      spaces_ok_def refs_ok_def live_inv_def used_def referenced_def pinned_def empty_database_def has_header_def)

lemma reachable_inv:
  assumes "lists_dir ls" "reachable sha js ls r"
  shows "repo_inv sha js r"
  using assms(2) by induction (auto intro: empty_repo_inv step_repo_inv [OF assms(1)])

lemmas operations_grow = draft_operations_grow counter_operations_grow artifact_operations_grow atom_operations_grow
  garbage_collect_grows

lemma step_grows: "step sha js ls r r' \<Longrightarrow> db_grows (re_database r) (re_database r')"
  by (induction rule: step.induct) (auto elim!: movesD [rotated] intro: operations_grow grows.moves_pure apply_core_plan_grows)

section \<open>Sealing\<close>

lemma transaction_Inl_database: "transaction body r = (Inl e, r') \<Longrightarrow> re_database r' = re_database r"
  by (auto simp: transaction_def split: prod.splits sum.splits)

lemma seal_draft_Inl:
  assumes "seal_draft_with_links_observed sha js draft atom artifact_links relation_links observer r = (Inl e, r')"
  shows "re_database r' = re_database r"
  using assms unfolding seal_draft_with_links_observed_def
  by (auto simp: and_then_Inl dest: transaction_Inl_database split: sum.splits)

lemma seal_status_Inr:
  assumes "execute (seal_status draft atom) r = (Inr (Suc 0), r')"
  obtains row where "fmlookup (db_drafts (re_database r)) draft = Some row"
    "re_database r' = (re_database r)\<lparr>db_drafts := fmupd draft (row\<lparr>dr_status := Sealed, dr_sealed_atom_id := Some atom\<rparr>) (db_drafts (re_database r))\<rparr>"
  using assms by (auto simp: execute_Inr seal_status_def drafts_tab.update_row_Inr split: if_splits)

lemma inserted_atom_drafts: "db_drafts (inserted_atom sha atom db) = db_drafts db"
  by (simp add: inserted_atom_def)

lemma seal_draft_Inr:
  assumes run: "seal_draft_with_links_observed sha js draft atom artifact_links relation_links observer r = (Inr u, r')"
    and sources: "table_ok provenance_sources_table (re_database r)"
  obtains row where "fmlookup (db_drafts (re_database r)) draft = Some row" "draft_matches row atom"
    "fmlookup (db_drafts (re_database r')) draft = Some (row\<lparr>dr_status := Sealed, dr_sealed_atom_id := Some (am_atom_id atom)\<rparr>)"
    "stored_atom atom (re_database r')"
    "\<forall>link \<in> set artifact_links. artifact_linked (am_atom_id atom) link (re_database r')"
    "\<forall>link \<in> set relation_links. relation_linked (am_atom_id atom) link (re_database r')"
proof -
  obtain row fresh r1 r2 where row: "fmlookup (db_drafts (re_database r)) draft = Some row" "draft_matches row atom"
    and put: "put_atom_transaction sha js atom r = (Inr fresh, r1)"
    and link: "insert_atom_links_transaction sha (am_atom_id atom) artifact_links relation_links r1 = (Inr (), r2)"
    and seal: "execute (seal_status draft (am_atom_id atom)) r2 = (Inr (Suc 0), r')"
    using run
    by (auto simp: seal_draft_with_links_observed_def draft_row_for_def transaction_Inr and_then_Inr ok_or_Inr
        split: sum.splits if_splits)
  have frame: "links_only (re_database r1) (re_database r2)" by (rule movesD [OF insert_links_only link])
  have drafts: "db_drafts (re_database r2) = db_drafts (re_database r)"
    using frame put_atom_Inr(3,4) [OF put] inserted_atom_drafts
    by (cases fresh) (auto simp: links_only_def same_core_def)
  have stored: "stored_atom atom (re_database r2)"
    using stored_atom_links_only [OF frame] put_atom_stored [OF put sources] by blast
  obtain row2 where row2: "fmlookup (db_drafts (re_database r2)) draft = Some row2"
    "re_database r' = (re_database r2)\<lparr>db_drafts := fmupd draft (row2\<lparr>dr_status := Sealed, dr_sealed_atom_id := Some (am_atom_id atom)\<rparr>) (db_drafts (re_database r2))\<rparr>"
    by (rule seal_status_Inr [OF seal])
  have "stored_atom atom (re_database r')" using stored by (simp add: stored_atom_def provenance_sources_def row2(2))
  moreover have "\<forall>l \<in> set artifact_links. artifact_linked (am_atom_id atom) l (re_database r')"
    "\<forall>l \<in> set relation_links. relation_linked (am_atom_id atom) l (re_database r')"
    using insert_links_linked [OF link] by (simp_all add: artifact_linked_def relation_linked_def row2(2))
  ultimately show ?thesis using that [OF row] row2 drafts row by simp
qed

lemma seal_core_draft_run:
  assumes "seal_core_draft_observed sha js draft body state observer r = (x, r')"
  obtains "re_database r' = re_database r" "\<exists>e. x = Inl e"
  | e where "prepare_core_links sha body r = (Inl e, r')" "x = Inl e"
  | atom artifact_links relation_links r1 where "from_core sha js body state = Inr atom"
      "prepare_core_links sha body r = (Inr (artifact_links, relation_links), r1)"
      "seal_draft_with_links_observed sha js draft atom artifact_links relation_links observer r1 = (x, r')"
proof (cases "validate_initial_atom_state body state")
  case (Inl e)
  then have "x = Inl e" "r' = r" using assms by (auto simp: seal_core_draft_observed_def)
  then show ?thesis using that(1) by simp
next
  case (Inr u)
  note valid = this
  show ?thesis
  proof (cases "from_core sha js body state")
    case (Inl e)
    then have "x = Inl e" "r' = r" using assms valid by (auto simp: seal_core_draft_observed_def)
    then show ?thesis using that(1) by simp
  next
    case (Inr atom)
    obtain res r1 where prep: "prepare_core_links sha body r = (res, r1)" by fastforce
    have run: "seal_core_draft_observed sha js draft body state observer r =
        and_then (prepare_core_links sha body) (\<lambda>(artifact_links, relation_links).
          seal_draft_with_links_observed sha js draft atom artifact_links relation_links observer) r"
      using valid Inr by (simp add: seal_core_draft_observed_def)
    show ?thesis
    proof (cases res)
      case (Inl e)
      then show ?thesis using that(2) [of e] assms run prep by (simp add: and_then_def)
    next
      case (Inr links)
      then show ?thesis
        using that(3) [OF \<open>from_core sha js body state = Inr atom\<close>, of "fst links" "snd links" r1] assms run prep
        by (simp add: and_then_def split_beta)
    qed
  qed
qed

lemma prepare_links_schema: "keeps_db (schema_ok js) (prepare_core_links sha body)"
  unfolding prepare_core_links_def prepare_artifact_def prepare_inline_def prepare_stored_def register_artifact_def
  by (intro keeps_rules keeps_query keeps_on_store schema_keeps)

lemma relation_links_complete:
  "traverse relation_link_of relations = Inr links \<Longrightarrow> relation \<in> set relations \<Longrightarrow>
   \<exists>link \<in> set links. rl_target_atom_id link = atom_digest (re_target relation) \<and> rl_relation_kind link = relation_kind_text (re_kind relation)"
  by (induction relations arbitrary: links) (fastforce simp: bindr_Inr relation_link_of_def)+

section \<open>Properties of every reachable state\<close>

text \<open>
  C5: whatever calls are made, in whatever order and with whatever outcome, the repository stays
  sound: every table satisfies its column checks and foreign keys, drafts are gapless, feedback
  counters count the feedback rows, atoms are content addressed, relations stay in one memory space,
  the artifact tree is clean, and every artifact that is referenced or pinned is there and intact.
\<close>

theorem reachable_repository_sound:
  assumes "lists_dir ls" "reachable sha js ls r"
  shows "repo_inv sha js r"
  by (rule reachable_inv [OF assms])

text \<open>
  C13: in every reachable state the rows of all tables have the types and ranges of the schema, and
  every foreign key points to a row that exists.
\<close>

theorem reachable_tables_typed:
  assumes "lists_dir ls" "reachable sha js ls r"
  shows "schema_ok js (re_database r)"
  using reachable_inv [OF assms] by (rule repo_invD)

text \<open>
  C8: the history cannot be rewritten.  No sequence of calls changes or removes an installed policy,
  a draft event, an atom header, its provenance, a relation, a feedback row or the provenance of an
  artifact link.
\<close>

theorem history_append_only:
  assumes "(step sha js ls)\<^sup>*\<^sup>* r r'"
  shows "db_grows (re_database r) (re_database r')"
  using assms by (induction rule: rtranclp_induct) (auto intro: grows.trans step_grows)

text \<open>
  C7: an artifact link can be followed.  In every reachable state the artifact of a live reference
  has a row, its object is in the store, and reading it returns bytes with the digest and the size
  of the row.
\<close>

theorem referenced_artifact_readable:
  assumes "lists_dir ls" "reachable sha js ls r" "(d, atom, role) |\<in>| fmdom (db_artifact_refs (re_database r))"
  shows "\<exists>entry bs. load_artifact_record d (re_database r) = Inr (Some entry) \<and> ac_digest entry = d \<and>
    read_verified sha entry (as_files (re_artifacts r)) = Inr bs \<and> sha bs = d \<and> length bs = unat (ac_byte_len entry)"
proof -
  note inv = reachable_inv [OF assms(1,2)]
  have "used (re_database r) d" using assms(3) by (force simp: used_def referenced_def)
  then obtain row where row: "fmlookup (db_artifacts (re_database r)) d = Some row"
    "row_record d row \<in> entries sha (as_files (re_artifacts r))"
    using repo_invD(4) [OF inv] by (auto simp: live_inv_def live_def)
  have "artifact_record_from_row d row = Inr (row_record d row)"
    using artifact_record_from_row_ok artifact_rows_ok [OF repo_invD(2) [OF inv] row(1)] by blast
  then have load: "load_artifact_record d (re_database r) = Inr (Some (row_record d row))"
    by (simp add: load_artifact_record_def row(1))
  obtain bs where bs: "object_at sha (as_files (re_artifacts r)) (object_path d) d bs" "row_record d row = entry_for d bs"
    using row(2) by (auto simp: entries_def object_entry_def object_at_def row_record_def entry_for_def)
  then have "read_verified sha (row_record d row) (as_files (re_artifacts r)) = Inr bs"
    by (simp add: read_verified_Inr)
  moreover have "sha bs = d" "length bs = unat (ac_byte_len (row_record d row))"
    using bs object_at_length [OF bs(1)] by (simp_all add: object_at_def)
  ultimately show ?thesis using load by auto
qed

text \<open>
  C11: relations never leave a memory space.  Both ends of every relation exist and belong to the
  same space.
\<close>

theorem relations_stay_in_space:
  assumes "lists_dir ls" "reachable sha js ls r" "(source, target, kind) |\<in>| fmdom (db_relations (re_database r))"
  shows "\<exists>h k. fmlookup (db_headers (re_database r)) source = Some h \<and> fmlookup (db_headers (re_database r)) target = Some k \<and>
    hr_memory_space_id h = hr_memory_space_id k"
proof -
  have "spaces_ok (re_database r)" by (rule db_invD(5) [OF repo_invD(1) [OF reachable_inv [OF assms(1,2)]]])
  then have "space_of (re_database r) source \<noteq> None \<and> space_of (re_database r) source = space_of (re_database r) target"
    using assms(3) unfolding spaces_ok_def by blast
  then show ?thesis by (cases "fmlookup (db_headers (re_database r)) target") (auto simp: space_of_def)
qed

text \<open>
  C10: an atom is stored once.  When its insertion succeeds, header, body and provenance are those of
  the record, and inserting it again reports that it is present and changes nothing.
\<close>

theorem put_atom_idempotent:
  assumes "put_atom_transaction sha js atom r = (Inr fresh, r')" "schema_ok js (re_database r)"
  shows "stored_atom atom (re_database r') \<and> put_atom_transaction sha js atom r' = (Inr False, r')"
proof -
  have "table_ok provenance_sources_table (re_database r)" using assms(2) by (simp add: schema_ok_def)
  from put_atom_stored [OF assms(1) this] show ?thesis using put_stored_atom put_atom_Inr(1) [OF assms(1)] by blast
qed

text \<open>
  C6: sealing a draft is all or nothing.  When it fails, also when the observer stops it between two
  statements, no table but \<open>artifacts\<close> has changed (inline artifacts may have been registered before
  the transaction).  When it succeeds, the draft was open with the scope of the atom and is now
  sealed by it, and the atom is stored with every artifact reference and relation of its body.
\<close>

theorem seal_is_all_or_nothing:
  assumes "seal_core_draft_observed sha js draft body state observer r = (x, r')" "schema_ok js (re_database r)"
  shows "case x of
      Inl e \<Rightarrow> re_database r' = (re_database r)\<lparr>db_artifacts := db_artifacts (re_database r')\<rparr>
    | Inr u \<Rightarrow> \<exists>atom row. from_core sha js body state = Inr atom \<and>
        fmlookup (db_drafts (re_database r)) draft = Some row \<and> draft_matches row atom \<and>
        fmlookup (db_drafts (re_database r')) draft = Some (row\<lparr>dr_status := Sealed, dr_sealed_atom_id := Some (am_atom_id atom)\<rparr>) \<and>
        stored_atom atom (re_database r') \<and>
        (\<forall>artifact \<in> set (bd_artifacts body). fmlookup (db_artifact_refs (re_database r'))
           (ar_digest artifact, am_atom_id atom, ar_media_type artifact) = Some (ar_retention_allowed artifact)) \<and>
        (\<forall>relation \<in> set (bd_relations body).
           (am_atom_id atom, atom_digest (re_target relation), relation_kind_text (re_kind relation)) |\<in>| fmdom (db_relations (re_database r')))"
proof (rule seal_core_draft_run [OF assms(1)])
  assume "re_database r' = re_database r" "\<exists>e. x = Inl e"
  then show ?thesis by auto
next
  fix e assume "prepare_core_links sha body r = (Inl e, r')" "x = Inl e"
  then show ?thesis using artifacts_only_eq [OF movesD [OF prepare_links_only_artifacts]] by simp
next
  fix atom artifact_links relation_links r1
  assume core: "from_core sha js body state = Inr atom"
    and prep: "prepare_core_links sha body r = (Inr (artifact_links, relation_links), r1)"
    and seal: "seal_draft_with_links_observed sha js draft atom artifact_links relation_links observer r1 = (x, r')"
  have frame: "artifacts_only (re_database r) (re_database r1)" by (rule movesD [OF prepare_links_only_artifacts prep])
  show ?thesis
  proof (cases x)
    case (Inl e)
    then show ?thesis using seal_draft_Inl seal artifacts_only_eq [OF frame] by simp
  next
    case (Inr u)
    have tables: "schema_ok js (re_database r1)" by (rule carriesD [OF carries_keeps [OF prepare_links_schema] assms(2) prep])
    then have "table_ok provenance_sources_table (re_database r1)" by (simp add: schema_ok_def)
    then obtain row where row: "fmlookup (db_drafts (re_database r1)) draft = Some row" "draft_matches row atom"
      "fmlookup (db_drafts (re_database r')) draft = Some (row\<lparr>dr_status := Sealed, dr_sealed_atom_id := Some (am_atom_id atom)\<rparr>)"
      "stored_atom atom (re_database r')"
      "\<forall>link \<in> set artifact_links. artifact_linked (am_atom_id atom) link (re_database r')"
      "\<forall>link \<in> set relation_links. relation_linked (am_atom_id atom) link (re_database r')"
      using seal_draft_Inr [OF seal [unfolded Inr]] by metis
    note links = prepare_links_Inr [OF prep]
    have "\<forall>artifact \<in> set (bd_artifacts body). fmlookup (db_artifact_refs (re_database r'))
        (ar_digest artifact, am_atom_id atom, ar_media_type artifact) = Some (ar_retention_allowed artifact)"
      using row(5) links by (simp add: artifact_links_of_def artifact_linked_def)
    moreover have "\<forall>relation \<in> set (bd_relations body).
        (am_atom_id atom, atom_digest (re_target relation), relation_kind_text (re_kind relation)) |\<in>| fmdom (db_relations (re_database r'))"
      using row(6) relation_links_complete links by (fastforce simp: relation_linked_def)
    ultimately show ?thesis using core row frame Inr by (simp add: artifacts_only_def links_only_def same_core_def)
  qed
qed

section \<open>Instances\<close>

text \<open>A draft is created and sealed by a chain of one atom, with its artifact and its relation.\<close>

lemma with_draft_reachable: "reachable (\<lambda>_. Digest32_ZERO) js ls with_draft"
  by (rule reachable.called [OF reachable.opened [OF empty_store_wf] step.create_draft [OF with_draft_created]])

lemma sample_reachable:
  obtains r where "reachable (\<lambda>_. Digest32_ZERO) (sample_codec [self_relation]) sorted_ls r"
    "(step (\<lambda>_. Digest32_ZERO) (sample_codec [self_relation]) sorted_ls)\<^sup>*\<^sup>* with_draft r"
    "(Digest32_ZERO, Digest32_ZERO, ''m'') |\<in>| fmdom (db_artifact_refs (re_database r))"
    "(Digest32_ZERO, Digest32_ZERO, ''supports'') |\<in>| fmdom (db_relations (re_database r))"
proof -
  obtain r where r: "seal_core_draft_chain (\<lambda>_. Digest32_ZERO) (sample_codec [self_relation]) ''d''
     [(linked_body [self_relation], sample_initial_state)] with_draft = (Inr (), r)"
    "fmlookup (db_artifact_refs (re_database r)) (Digest32_ZERO, Digest32_ZERO, ''m'') = Some True"
    "(Digest32_ZERO, Digest32_ZERO, ''supports'') |\<in>| fmdom (db_relations (re_database r))" using sample_chain .
  note step = step.seal_core_draft_chain [OF r(1), of sorted_ls]
  show ?thesis
    using that [OF reachable.called [OF with_draft_reachable step] r_into_rtranclp [where r = "step _ _ _", OF step] fmdomI [OF r(2)] r(3)] .
qed

theorem reachable_repository_sound_witness:
  "\<exists>r :: SqliteRepository. fmdom (db_relations (re_database r)) \<noteq> {||} \<and> repo_inv (\<lambda>_. Digest32_ZERO) (sample_codec [self_relation]) r"
proof (rule sample_reachable)
  fix r assume a: "reachable (\<lambda>_. Digest32_ZERO) (sample_codec [self_relation]) sorted_ls r"
    "(Digest32_ZERO, Digest32_ZERO, ''supports'') |\<in>| fmdom (db_relations (re_database r))"
  show ?thesis using reachable_repository_sound [OF sorted_ls_lists a(1)] a(2) by force
qed

theorem reachable_tables_typed_witness:
  "\<exists>r :: SqliteRepository. fmdom (db_relations (re_database r)) \<noteq> {||} \<and> schema_ok (sample_codec [self_relation]) (re_database r)"
proof (rule sample_reachable)
  fix r assume a: "reachable (\<lambda>_. Digest32_ZERO) (sample_codec [self_relation]) sorted_ls r"
    "(Digest32_ZERO, Digest32_ZERO, ''supports'') |\<in>| fmdom (db_relations (re_database r))"
  show ?thesis using reachable_tables_typed [OF sorted_ls_lists a(1)] a(2) by force
qed

theorem history_append_only_witness:
  "\<exists>r :: SqliteRepository. (Digest32_ZERO, Digest32_ZERO, ''supports'') |\<in>| fmdom (db_relations (re_database r)) \<and>
    db_grows (re_database with_draft) (re_database r)"
proof (rule sample_reachable)
  fix r assume a: "(step (\<lambda>_. Digest32_ZERO) (sample_codec [self_relation]) sorted_ls)\<^sup>*\<^sup>* with_draft r"
    "(Digest32_ZERO, Digest32_ZERO, ''supports'') |\<in>| fmdom (db_relations (re_database r))"
  show ?thesis using history_append_only [OF a(1)] a(2) by blast
qed

theorem referenced_artifact_readable_witness:
  "\<exists>(r :: SqliteRepository) entry bs. (Digest32_ZERO, Digest32_ZERO, ''m'') |\<in>| fmdom (db_artifact_refs (re_database r)) \<and>
    read_verified (\<lambda>_. Digest32_ZERO) entry (as_files (re_artifacts r)) = Inr bs \<and> ac_digest entry = Digest32_ZERO"
proof (rule sample_reachable)
  fix r assume a: "reachable (\<lambda>_. Digest32_ZERO) (sample_codec [self_relation]) sorted_ls r"
    "(Digest32_ZERO, Digest32_ZERO, ''m'') |\<in>| fmdom (db_artifact_refs (re_database r))"
  show ?thesis using referenced_artifact_readable [OF sorted_ls_lists a] a(2) by blast
qed

theorem relations_stay_in_space_witness:
  "\<exists>(r :: SqliteRepository) h. (Digest32_ZERO, Digest32_ZERO, ''supports'') |\<in>| fmdom (db_relations (re_database r)) \<and>
    fmlookup (db_headers (re_database r)) Digest32_ZERO = Some h"
proof (rule sample_reachable)
  fix r assume a: "reachable (\<lambda>_. Digest32_ZERO) (sample_codec [self_relation]) sorted_ls r"
    "(Digest32_ZERO, Digest32_ZERO, ''supports'') |\<in>| fmdom (db_relations (re_database r))"
  show ?thesis using relations_stay_in_space [OF sorted_ls_lists a] a(2) by blast
qed

theorem put_atom_idempotent_witness:
  "\<exists>atom r'. put_atom_transaction (\<lambda>_. Digest32_ZERO) (sample_codec []) atom with_draft = (Inr True, r') \<and>
    put_atom_transaction (\<lambda>_. Digest32_ZERO) (sample_codec []) atom r' = (Inr False, r')"
proof -
  obtain bs ps where core: "validate_atom (\<lambda>_. Digest32_ZERO) (sample_codec []) (sample_atom bs ps) = Inr ()" "length bs \<le> 10000"
    using sample_from_core [of "[]"] by blast
  obtain r' where run: "put_atom_transaction (\<lambda>_. Digest32_ZERO) (sample_codec []) (sample_atom bs ps) with_draft = (Inr True, r')"
    using sample_insert [OF core(2,1) _ _ _ _ _ _ _ refl, of with_draft] by (auto simp: with_draft_def empty_database_def)
  have "schema_ok (sample_codec []) (re_database with_draft)"
    using repo_invD(2) [OF reachable_inv [OF sorted_ls_lists with_draft_reachable]] .
  from put_atom_idempotent [OF run this] run show ?thesis by blast
qed

theorem seal_is_all_or_nothing_witness:
  "\<exists>r' row. seal_core_draft_observed (\<lambda>_. Digest32_ZERO) (sample_codec []) ''d'' (linked_body []) sample_initial_state
     ignore_transaction_boundary with_draft = (Inr (), r') \<and> fmlookup (db_drafts (re_database r')) ''d'' = Some row \<and> dr_status row = Sealed \<and>
     fmlookup (db_artifact_refs (re_database r')) (Digest32_ZERO, the (dr_sealed_atom_id row), ''m'') = Some True"
proof (rule sample_draft_seal)
  fix r' assume run: "seal_core_draft_observed (\<lambda>_. Digest32_ZERO) (sample_codec []) ''d'' (linked_body []) sample_initial_state
     ignore_transaction_boundary with_draft = (Inr (), r')"
  have "schema_ok (sample_codec []) (re_database with_draft)"
    using repo_invD(2) [OF reachable_inv [OF sorted_ls_lists with_draft_reachable]] .
  from seal_is_all_or_nothing [OF run this] run show ?thesis by (auto simp: sample_artifact_def)
qed

end
