(* ===== verification/Spec2Isabelle.thy ===== *)
theory Spec2Isabelle
  imports ReceiptLaws RetrievalLaws Repository Apply
begin

text \<open>
  A verification development for naome-memory: the deterministic memory core
  (\<open>crates/naome-memory-core/src\<close>) and the durable repository built on it
  (\<open>crates/naome-memory-sqlite/src\<close>).

  \<^bold>\<open>The program.\<close>  An agent's events are sealed into immutable, content-addressed memory atoms.  Once a
  day the atoms of one memory space form a cohort; the core plans its retirement: similar episodes
  are clustered and consolidated into semantic atoms, a seeded lottery lets a few episodes survive,
  the rest is forgotten.  The plan is content addressed, so anyone who holds the cohort and the seed
  can replan it and compare; applying it earns a receipt that is verified the same way.  The
  repository keeps atoms, links, drafts, feedback and artifacts in SQLite tables and
  content-addressed files, and collects artifacts that nothing refers to.

  \<^bold>\<open>The core, bottom up.\<close>
  \<^item> \<open>Prelude\<close>: machine integers, checked and saturating arithmetic, the result monad behind the
    question-mark operator, list lemmas, the collection \<open>result_simps\<close>.  \<open>Errors\<close>: \<open>error.rs\<close>.
    \<open>Digest\<close> and \<open>Canonical\<close>: \<open>canonical.rs\<close>, the tagged length-framed encoding
    (\<open>encode_value\<close>, proved injective) and hexadecimal digests.  \<open>Fixed\<close>: \<open>fixed.rs\<close>.
  \<^item> \<open>Model\<close> and \<open>Encode\<close>: the records and datatypes of \<open>model.rs\<close> and their serialised form
    (\<open>v_T\<close> for a type \<open>T\<close>).  \<open>Binding\<close> and \<open>Content\<close>: an address determines its content; the locale
    \<open>content_address\<close> states it and is interpreted for atoms, events, post-states, decisions, plans
    and receipts.
  \<^item> \<open>Policy\<close>: \<open>policy.rs\<close>.  \<open>Validation\<close>: \<open>validation.rs\<close>, every guard in source order, and the
    declarative predicate it decides.
  \<^item> \<open>Seal\<close>, \<open>Routes\<close>, \<open>Planner\<close>, \<open>Chain\<close>: \<open>seal.rs\<close>.  The locale \<open>choice_monoid\<close> is the
    contract of the segment tree and is interpreted on the route choice; the planner built on it is
    proved to find the partition with the fewest, best-filled atoms.  \<open>Chain\<close> states what sealing accepts
    (\<open>episode_input_ok\<close>, \<open>encodable\<close>, \<open>range_fits\<close>) and, as a reference (\<open>seal_route\<close>), the atoms of a
    split, read off the buffer and the request; every outcome of \<open>seal_episode_chain\<close> is determined by
    them.
  \<^item> \<open>Plan\<close>, \<open>Outcome\<close>, \<open>Consensus\<close>, \<open>Lottery\<close>, \<open>Clusters\<close>, \<open>Retirement\<close>: \<open>retirement.rs\<close> from the
    cohort checks to \<open>plan_retirement\<close>.  \<open>Cohort\<close>, \<open>SemanticBody\<close>, \<open>Planning\<close>, \<open>PlanLaws\<close>: when planning
    succeeds, with which plan, and what every plan guarantees.
  \<^item> \<open>Receipt\<close> and \<open>ReceiptLaws\<close>: \<open>receipt.rs\<close>, structural verification, application to a repository
    and verification of a receipt.
  \<^item> \<open>Retrieval\<close> and \<open>RetrievalLaws\<close>: \<open>retrieval.rs\<close>, the scoring, ranking and spontaneous recall of
    candidates.

  \<^bold>\<open>The repository, bottom up.\<close>
  \<^item> \<open>StoreBase\<close>: \<open>error.rs\<close> of the SQLite crate; an operation takes the state and returns its
    result together with the state it leaves, also when it fails.
  \<^item> \<open>FileSystem\<close>, \<open>ArtifactStore\<close>, \<open>ArtifactLaws\<close>: \<open>artifact.rs\<close>, on a tree of files.
  \<^item> \<open>Database\<close>: the tables of \<open>migrations/0001_initial.sql\<close> as finite maps, statements and
    transactions.  \<open>Tables\<close> and \<open>Integrity\<close>: a \<open>schema\<close> says where the rows of a table live and gives its
    column checks, its uniqueness constraint and its foreign keys.  The locale \<open>table\<close> holds what an
    insert, an insert-or-ignore, an update and the put-once idiom promise; \<open>child_table\<close> adds that foreign
    keys survive the growth of their parents, \<open>schema_table\<close> that storing one table's rows frames the
    others, \<open>immutable_table\<close> and \<open>mutable_table\<close> what the tables' rows may do over time.  All are
    interpreted on every table that an operation writes.  \<open>db_preorder\<close> lifts a reflexive and transitive
    relation between the tables before and after from statements to operations; it is
    interpreted on \<open>db_grows\<close> and on the frames of the groups of operations.
  \<^item> \<open>Gc\<close>, \<open>GcSweep\<close>, \<open>GcLaws\<close>: registration of artifacts (\<open>put_artifact\<close>, \<open>register_artifact\<close>) and both
    phases of \<open>garbage_collect\<close>, of \<open>repository.rs\<close>.
  \<^item> \<open>Drafts\<close>: \<open>install_policy\<close>, \<open>create_draft\<close>, \<open>append_event\<close>, \<open>load_events\<close>.  \<open>Feedback\<close>:
    \<open>add_feedback\<close>, \<open>record_retrievals\<close>.  \<open>Atoms\<close>: the storage record of a body and its checks.
    \<open>AtomStore\<close>: \<open>put_atom_transaction\<close> and the batches.  \<open>Links\<close>: preparation, validation and insertion
    of artifact and relation links, and the sealing of a draft into one atom or a chain.
    \<open>AtomLaws\<close>: what an insertion leaves.
  \<^item> \<open>WriteLaws\<close>, \<open>RepoLaws\<close>, \<open>RepoOps\<close>: the invariant \<open>repo_inv\<close> of tables and files and its preservation
    by the operations.  \<open>Samples\<close>: a concrete codec, atom, draft and chain for the witnesses.
    \<open>Repository\<close>: the repository as a state machine; \<open>step\<close> is one call of an operation (applying a
    plan included) with any arguments and any outcome, \<open>reachable\<close> what calls lead to from an empty
    repository.
  \<^item> \<open>Snapshot\<close>: the cohort of a day as rows and as the planner's candidates (\<open>snapshot\<close>,
    \<open>snapshot_core\<close>).  \<open>Commit\<close>: the rows that a plan and its receipt turn into (\<open>build_core_commit\<close>) and
    the checks of a commit.  \<open>RunCheck\<close>: \<open>verify_persisted_core_receipt\<close>, section by section.  \<open>Apply\<close>: the
    transaction that applies a plan (\<open>apply_retirement_observed\<close>), with replays and fault points
    (\<open>apply_core_plan_observed\<close>).  \<open>RunLaws\<close>: what an accepted run says of the tables.  \<open>ApplyLaws\<close>:
    the transaction keeps \<open>repo_inv\<close>.

  \<^bold>\<open>How the code is rendered.\<close>  A struct is a record, an enum a datatype, \<open>u8\<close> to \<open>u128\<close> are words with
  their wrap-around, a \<open>usize\<close> that counts is a natural number, an SQL integer an \<open>int\<close> with its range
  checked where the code converts.  A \<open>Result\<close> is a sum with the error on the left.  A panic
  (an index out of range, a failed assertion) is a value of \<open>outcome\<close>, and a loop that may run forever
  (the rejection sampler of the lottery) is \<open>None\<close>; that the planner and the retrieval return is
  proved.  The only fuel is the source's own: staging a file tries at most 128 names, verification
  reads in blocks of 64 KiB.  The limits of the source are kept: 64 MiB for an artifact, 256 KiB for an atom,
  4 KiB for inline data, 1000 atoms in a batch.  Error texts keep the names they quote and leave out the
  numbers they render.

  \<^bold>\<open>Parameters.\<close>  Code outside the repository is an argument: the hash function \<open>sha\<close> and the
  random words \<open>chacha\<close> of the crates sha2 and rand\_chacha; the JSON texts of serde\_json and the
  validity test of SQLite (record \<open>json_codec\<close>); the order \<open>ls\<close> in which a directory is listed; the
  reader an artifact is ingested from; the observer that the source's own tests use to stop an
  operation between two steps, as a crash would; the repository to which \<open>apply_retirement\<close> of
  \<open>receipt.rs\<close> applies a plan.  Where a theorem needs that a hash does not collide it says so, for
  the two values it compares.

  \<^bold>\<open>What is shown.\<close>  For the core: the encoding is injective and addresses bind contents; validation, the
  cohort checks and the consensus votes decide their declarative specifications; the planner of a chain is
  optimal and covers the events, and sealing a chain seals exactly its split; clustering is
  complete-link; the lottery returns, and no selection is decided by more generator words than another;
  a retirement plan refines its specification, its decisions, semantic atoms and post-states agree with
  the cohort and the budgets, an oversized semantic body aborts the plan, exactly the receipts of
  applied plans verify; retrieval returns the top hits of its scope.  For the repository: an ingested artifact reads back, a failed ingest leaves
  nothing behind, discovery finds exactly the objects; garbage collection unlinks exactly the garbage,
  with its rows, and adopts the objects without a row, its dry run predicts it, and a run that is cut off is completed by the next one; the log of a draft refines a
  list, feedback counts once, insertion is idempotent, sealing is all or nothing; and in every
  reachable state the tables satisfy the schema, the history has only grown, relations stay in their
  memory space and every linked artifact is readable and intact.

  \<^bold>\<open>Not modelled.\<close>  The SQL engine, opening, locking and migration of a database: the statements are modelled,
  SQLite is not.  Of \<open>repository.rs\<close>: the reads behind search and retrieval, which are full-text
  queries of SQLite, and the integrity scan, which only reads.  The rendering of errors.  \<open>naome-memory-lab\<close>,
  \<open>naome-memory-cli\<close> and \<open>xtask\<close>: experiments, command line and build automation, which run processes and
  do input and output around the modelled crates.
\<close>

end
